(* ===== verification/Prelude.thy ===== *)
theory Prelude
  imports Main "HOL-Library.Word"
begin

unbundle bit_operations_syntax

text \<open>
  Shared vocabulary of the development.  Fixed-width C integers are words, pointers and bus
  addresses are 64-bit words with \<open>0\<close> for NULL, and memory (host memory and memory-mapped
  device registers alike) is a total map from addresses to bytes.  Multi-byte accesses are
  little-endian, as on every host the library and the NVMe register file are built for.
  The errno values the sources return are named as in the sources.
\<close>

section \<open>Machine types\<close>

type_synonym u8 = "8 word"
type_synonym u16 = "16 word"
type_synonym u32 = "32 word"
type_synonym u64 = "64 word"
type_synonym mem = "u64 \<Rightarrow> u8"

abbreviation (input) NULL :: u64 where "NULL \<equiv> 0"

named_theorems queue_simps \<open>unfolding rules of the queue operations\<close>
named_theorems mem_simps \<open>reads after writes in byte memory\<close>
named_theorems res_simps \<open>what acquiring and releasing does to the resource ledger\<close>

section \<open>Error numbers\<close>

text \<open>The errno values of Linux, in the order of their numbers.\<close>

abbreviation (input) EPERM :: int where "EPERM \<equiv> 1"
abbreviation (input) EIO :: int where "EIO \<equiv> 5"
abbreviation (input) EBADF :: int where "EBADF \<equiv> 9"
abbreviation (input) EAGAIN :: int where "EAGAIN \<equiv> 11"
abbreviation (input) ENOMEM :: int where "ENOMEM \<equiv> 12"
abbreviation (input) EEXIST :: int where "EEXIST \<equiv> 17"
abbreviation (input) ENODEV :: int where "ENODEV \<equiv> 19"
abbreviation (input) EINVAL :: int where "EINVAL \<equiv> 22"
abbreviation (input) ENOSPC :: int where "ENOSPC \<equiv> 28"
abbreviation (input) ERANGE :: int where "ERANGE \<equiv> 34"
abbreviation (input) ETIME :: int where "ETIME \<equiv> 62"
abbreviation (input) ENOTCONN :: int where "ENOTCONN \<equiv> 107"
abbreviation (input) ETIMEDOUT :: int where "ETIMEDOUT \<equiv> 110"
abbreviation (input) ECONNREFUSED :: int where "ECONNREFUSED \<equiv> 111"

section \<open>Words as numbers\<close>

lemma unat_drop_bit: "unat (drop_bit k a) = unat a div 2 ^ k"
  unfolding unat_drop_bit_eq by (simp only: drop_bit_eq_div)

lemma unat_take_bit: "unat (take_bit k a) = unat a mod 2 ^ k"
  unfolding unsigned_take_bit_eq by (simp only: take_bit_eq_mod)

lemma unat_of_nat_small: "n < 2 ^ LENGTH('a) \<Longrightarrow> unat (of_nat n :: 'a :: len word) = n"
  by (simp add: unat_of_nat take_bit_eq_mod)

lemma unat_pow2: "k < LENGTH('a) \<Longrightarrow> unat (2 ^ k :: 'a :: len word) = 2 ^ k"
  using unat_of_nat_small [of "2 ^ k", where 'a = 'a] by (simp add: power_strict_increasing)

lemma unat_ucast_up:
  "LENGTH('a) \<le> LENGTH('b) \<Longrightarrow> unat (ucast (x :: 'a :: len word) :: 'b :: len word) = unat x"
  by (simp add: unsigned_ucast_eq take_bit_nat_eq_self order_less_le_trans [OF unsigned_less])

lemma unat_ucast_mod:
  "unat (ucast (x :: 'a :: len word) :: 'b :: len word) = unat x mod 2 ^ LENGTH('b)"
  by (simp add: unsigned_ucast_eq take_bit_eq_mod)

lemma unat_u64_less: "unat (a :: u64) < 2 ^ 64"
  using unsigned_less [of a] by simp

lemma unat_u32_less: "unat (a :: u32) < 2 ^ 32"
  using unsigned_less [of a] by simp

lemma unat_u16_less: "unat (a :: u16) < 2 ^ 16"
  using unsigned_less [of a] by simp

text \<open>Distances on a ring of \<open>n\<close> positions.\<close>

lemma ring_dist: "t < n \<Longrightarrow> h < n \<Longrightarrow> (t + n - h) mod n = (if h \<le> t then t - h else t + n - h)" for t :: nat
proof -
  assume a: "t < n" "h < n"
  show ?thesis
  proof (cases "h \<le> t")
    case True
    then have "t + n - h = (t - h) + n" by simp
    then show ?thesis using True a by (simp only: mod_add_self2) simp
  qed (use a in simp)
qed

lemma ring_dist_Suc:
  fixes t h n :: nat
  assumes "t < n" "h < n" "(t + n - h) mod n \<noteq> 0"
  shows "(t + n - h) mod n = Suc ((t + n - Suc h mod n) mod n)"
proof -
  have "Suc h mod n = (if Suc h = n then 0 else Suc h)" using assms(2) by auto
  moreover have "Suc h mod n < n" using assms(2) by simp
  ultimately show ?thesis using assms by (auto simp: ring_dist split: if_splits)
qed

lemma ring_inj:
  fixes h i j n :: nat
  assumes "(h + i) mod n = (h + j) mod n" "i < n" "j < n"
  shows "i = j"
proof -
  from assms(1) obtain a b where "h + i + n * a = h + j + n * b" by (auto simp: nat_mod_eq_iff)
  then have "i + n * a = j + n * b" by simp
  then have "(i + n * a) mod n = (j + n * b) mod n" by simp
  then show ?thesis using assms(2,3) by simp
qed

text \<open>Masks written as numerals in the sources, as shifts and truncations.\<close>

lemma and_hi16: "(x :: u32) AND 0xffff0000 = push_bit 16 (drop_bit 16 x)"
proof -
  have e: "(0xffff0000 :: u32) = push_bit 16 (mask 16)"
    by (simp add: mask_eq_decr_exp push_bit_eq_mult)
  show ?thesis unfolding e by (rule bit_word_eqI) (auto simp: bit_simps)
qed

lemma and_lo16: "(x :: u32) AND 0xffff = take_bit 16 x"
proof -
  have e: "(0xffff :: u32) = mask 16" by (simp add: mask_eq_decr_exp)
  show ?thesis unfolding e by (simp add: take_bit_eq_mask)
qed

lemma and_7f: "(x :: u8) AND 0x7f = take_bit 7 x"
proof -
  have e: "(0x7f :: u8) = mask 7" by (simp add: mask_eq_decr_exp)
  show ?thesis unfolding e by (simp add: take_bit_eq_mask)
qed

lemma drop_bit_and_not_low:
  fixes x c :: u32
  assumes "take_bit n c = c"
  shows "drop_bit n (x AND NOT c) = drop_bit n x"
proof (rule bit_word_eqI)
  fix i assume "i < LENGTH(32)"
  have "\<not> bit c (n + i)" using assms by (metis bit_take_bit_iff not_add_less1)
  then show "bit (drop_bit n (x AND NOT c)) i \<longleftrightarrow> bit (drop_bit n x) i"
    by (auto simp: bit_simps dest: bit_imp_le_length)
qed

section \<open>Byte memory\<close>

definition load16 :: "mem \<Rightarrow> u64 \<Rightarrow> u16" where
  "load16 m a = ucast (m a) OR push_bit 8 (ucast (m (a + 1)))"

definition load32 :: "mem \<Rightarrow> u64 \<Rightarrow> u32" where
  "load32 m a = ucast (load16 m a) OR push_bit 16 (ucast (load16 m (a + 2)))"

definition load64 :: "mem \<Rightarrow> u64 \<Rightarrow> u64" where
  "load64 m a = ucast (load32 m a) OR push_bit 32 (ucast (load32 m (a + 4)))"

definition store16 :: "u64 \<Rightarrow> u16 \<Rightarrow> mem \<Rightarrow> mem" where
  "store16 a v m = m(a := ucast v, a + 1 := ucast (drop_bit 8 v))"

definition store32 :: "u64 \<Rightarrow> u32 \<Rightarrow> mem \<Rightarrow> mem" where
  "store32 a v m = store16 (a + 2) (ucast (drop_bit 16 v)) (store16 a (ucast v) m)"

definition store64 :: "u64 \<Rightarrow> u64 \<Rightarrow> mem \<Rightarrow> mem" where
  "store64 a v m = store32 (a + 4) (ucast (drop_bit 32 v)) (store32 a (ucast v) m)"

text \<open>A struct of 32-bit fields copied by \<open>memcpy\<close>, and \<open>memset\<close> of a range.\<close>

fun store_dwords :: "u64 \<Rightarrow> u32 list \<Rightarrow> mem \<Rightarrow> mem" where
  "store_dwords a [] m = m"
| "store_dwords a (w # ws) m = store_dwords (a + 4) ws (store32 a w m)"

definition load_dwords :: "mem \<Rightarrow> u64 \<Rightarrow> nat \<Rightarrow> u32 list" where
  "load_dwords m a n = map (\<lambda>i. load32 m (a + 4 * of_nat i)) [0..<n]"

text \<open>The \<open>n\<close> bytes from \<open>a\<close> on, with the address arithmetic of the machine.\<close>

definition in_range :: "u64 \<Rightarrow> nat \<Rightarrow> u64 \<Rightarrow> bool" where
  "in_range a n x \<longleftrightarrow> unat (x - a) < n"

definition memset :: "u64 \<Rightarrow> u8 \<Rightarrow> nat \<Rightarrow> mem \<Rightarrow> mem" where
  "memset a v n m = (\<lambda>x. if in_range a n x then v else m x)"

subsection \<open>What a write leaves alone\<close>

lemma in_range_offset [simp]: "k < 2 ^ 64 \<Longrightarrow> in_range a n (a + of_nat k) \<longleftrightarrow> k < n"
  by (simp add: in_range_def unat_of_nat take_bit_eq_mod)

lemma store16_other [mem_simps]: "\<not> in_range a 2 x \<Longrightarrow> store16 a v m x = m x"
proof -
  assume h: "\<not> in_range a 2 x"
  have "x \<noteq> a" using h by (auto simp: in_range_def)
  moreover have "x \<noteq> a + 1" using h by (auto simp: in_range_def)
  ultimately show ?thesis by (simp add: store16_def)
qed

lemma in_range_split:
  "n + k \<le> 2 ^ 64 \<Longrightarrow> in_range a (n + k) x \<longleftrightarrow> in_range a n x \<or> in_range (a + of_nat n) k x"
proof -
  assume le: "n + k \<le> 2 ^ 64"
  have e: "x - (a + of_nat n) = (x - a) - of_nat n" by simp
  show ?thesis
  proof (cases "k = 0")
    case True
    then show ?thesis by (simp add: in_range_def)
  next
    case False
    with le have n: "n < 2 ^ 64" by simp
    then have un: "unat (of_nat n :: u64) = n" by (simp add: unat_of_nat take_bit_eq_mod)
    show ?thesis
    proof (cases "unat (x - a) < n")
      case True
      then show ?thesis by (simp add: in_range_def)
    next
      case ge: False
      then have "of_nat n \<le> x - a" by (simp add: word_le_nat_alt un)
      then have "unat ((x - a) - of_nat n) = unat (x - a) - n" by (simp add: unat_sub un)
      with ge show ?thesis unfolding in_range_def e by auto
    qed
  qed
qed

lemma store32_other [mem_simps]: "\<not> in_range a 4 x \<Longrightarrow> store32 a v m x = m x"
  using in_range_split [of 2 2 a x] by (simp add: store32_def store16_other)

lemma store64_other [mem_simps]: "\<not> in_range a 8 x \<Longrightarrow> store64 a v m x = m x"
  using in_range_split [of 4 4 a x] by (simp add: store64_def store32_other)

lemma store_dwords_other [mem_simps]:
  "4 * length ws \<le> 2 ^ 64 \<Longrightarrow> \<not> in_range a (4 * length ws) x \<Longrightarrow> store_dwords a ws m x = m x"
proof (induction ws arbitrary: a m)
  case Nil
  then show ?case by simp
next
  case (Cons w ws)
  from Cons.prems in_range_split [of 4 "4 * length ws" a x]
  have "\<not> in_range a 4 x" "\<not> in_range (a + 4) (4 * length ws) x" by auto
  with Cons show ?case by (simp add: store32_other)
qed

subsection \<open>Reading back what was written\<close>

lemma load16_store16 [mem_simps]: "load16 (store16 a v m) a = v"
  by (rule bit_word_eqI) (auto simp: load16_def store16_def bit_simps)

lemma load16_cong: "m a = m' a \<Longrightarrow> m (a + 1) = m' (a + 1) \<Longrightarrow> load16 m a = load16 m' a"
  by (simp add: load16_def)

lemma in_range_mono: "in_range a n x \<Longrightarrow> n \<le> k \<Longrightarrow> in_range a k x"
  by (simp add: in_range_def)

lemma load32_cong: "(\<And>x. in_range a 4 x \<Longrightarrow> m x = m' x) \<Longrightarrow> load32 m a = load32 m' a"
proof -
  assume h: "\<And>x. in_range a 4 x \<Longrightarrow> m x = m' x"
  have "m a = m' a" "m (a + 1) = m' (a + 1)" "m (a + 2) = m' (a + 2)" "m (a + 3) = m' (a + 3)"
    by (rule h, simp add: in_range_def)+
  then show ?thesis by (simp add: load32_def load16_def add.assoc)
qed

lemma in_range_disjoint:
  assumes "in_range a n x" "n \<le> j" "j + k \<le> 2 ^ 64"
  shows "\<not> in_range (a + of_nat j) k x"
proof -
  define u where "u = unat (x - a)"
  have x: "x - a = of_nat u" by (simp add: u_def)
  have u: "u < n" using assms(1) by (simp add: in_range_def u_def)
  have "x - (a + of_nat j) = of_nat u - of_nat j" using x by (simp add: diff_diff_eq)
  also have "\<dots> = of_nat (2 ^ 64 + u - j)"
    using assms(3) by (simp add: of_nat_diff)
  finally have e: "x - (a + of_nat j) = of_nat (2 ^ 64 + u - j)" .
  show ?thesis
  proof
    assume "in_range (a + of_nat j) k x"
    then have lt: "unat (of_nat (2 ^ 64 + u - j) :: u64) < k" and k: "0 < k"
      unfolding in_range_def e by auto
    have "2 ^ 64 + u - j < 2 ^ 64" using u assms(2,3) k by linarith
    then have "unat (of_nat (2 ^ 64 + u - j) :: u64) = 2 ^ 64 + u - j"
      by (simp add: unat_of_nat take_bit_eq_mod)
    with lt assms(3) show False by linarith
  qed
qed

lemma load32_store32 [mem_simps]: "load32 (store32 a v m) a = v"
proof -
  have "in_range a 2 a" "in_range a 2 (a + 1)" by (simp_all add: in_range_def)
  then have "\<not> in_range (a + 2) 2 a" "\<not> in_range (a + 2) 2 (a + 1)"
    using in_range_disjoint [of a 2 _ 2 2] by auto
  then have "load16 (store32 a v m) a = load16 (store16 a (ucast v) m) a"
    by (intro load16_cong) (simp_all add: store32_def store16_other)
  then have lo: "load16 (store32 a v m) a = ucast v" by (simp add: load16_store16)
  have hi: "load16 (store32 a v m) (a + 2) = ucast (drop_bit 16 v)"
    by (simp add: store32_def load16_store16)
  show ?thesis
    by (rule bit_word_eqI) (auto simp: load32_def lo hi bit_simps)
qed

lemma load64_store64 [mem_simps]: "load64 (store64 a v m) a = v"
proof -
  have "\<not> in_range (a + 4) 4 x" if "in_range a 4 x" for x
    using in_range_disjoint [OF that, of 4 4] by simp
  then have lo: "load32 (store64 a v m) a = ucast v"
    by (subst load32_cong [of a _ "store32 a (ucast v) m"])
       (auto simp: store64_def store32_other load32_store32)
  have hi: "load32 (store64 a v m) (a + 4) = ucast (drop_bit 32 v)"
    by (simp add: store64_def load32_store32)
  show ?thesis
    by (rule bit_word_eqI) (auto simp: load64_def lo hi bit_simps)
qed

lemma load64_cong: "(\<And>x. in_range a 8 x \<Longrightarrow> m x = m' x) \<Longrightarrow> load64 m a = load64 m' a"
proof -
  assume h: "\<And>x. in_range a 8 x \<Longrightarrow> m x = m' x"
  have "load32 m a = load32 m' a" "load32 m (a + 4) = load32 m' (a + 4)"
    using in_range_split [of 4 4 a] by (auto intro!: load32_cong h)
  then show ?thesis by (simp add: load64_def)
qed

lemma load_dwords_length [simp]: "length (load_dwords m a n) = n"
  by (simp add: load_dwords_def)

lemma load_dwords_Suc:
  "load_dwords m a (Suc n) = load32 m a # load_dwords m (a + 4) n"
proof (rule nth_equalityI)
  show "length (load_dwords m a (Suc n)) = length (load32 m a # load_dwords m (a + 4) n)" by simp
next
  fix i assume "i < length (load_dwords m a (Suc n))"
  then show "load_dwords m a (Suc n) ! i = (load32 m a # load_dwords m (a + 4) n) ! i"
    by (cases i) (simp_all add: load_dwords_def algebra_simps del: upt_Suc)
qed

lemma load_dwords_cong:
  assumes "\<And>x. in_range a (4 * n) x \<Longrightarrow> m x = m' x" "4 * n \<le> 2 ^ 64"
  shows "load_dwords m a n = load_dwords m' a n"
proof -
  have "load32 m (a + 4 * of_nat i) = load32 m' (a + 4 * of_nat i)" if "i < n" for i
  proof (rule load32_cong)
    fix x assume x: "in_range (a + 4 * of_nat i) 4 x"
    have "in_range a (4 * i + 4) x" using in_range_split [of "4 * i" 4 a x] x that assms(2) by auto
    then have "in_range a (4 * n) x" using that by (elim in_range_mono) simp
    then show "m x = m' x" by (rule assms(1))
  qed
  then show ?thesis by (simp add: load_dwords_def)
qed

text \<open>Copying a struct and reading it back gives the same fields.\<close>

lemma load_store_dwords [mem_simps]:
  "4 * length ws \<le> 2 ^ 64 \<Longrightarrow> load_dwords (store_dwords a ws m) a (length ws) = ws"
proof (induction ws arbitrary: a m)
  case Nil
  then show ?case by (simp add: load_dwords_def)
next
  case (Cons w ws)
  have "\<not> in_range (a + 4) (4 * length ws) x" if "in_range a 4 x" for x
    using in_range_disjoint [OF that, of 4 "4 * length ws"] Cons.prems by simp
  with Cons.prems have "load32 (store_dwords (a + 4) ws (store32 a w m)) a = load32 (store32 a w m) a"
    by (intro load32_cong) (simp add: store_dwords_other)
  with Cons show ?case by (simp add: load_dwords_Suc load32_store32)
qed

end
