(* ===== verification/Resources.thy ===== *)
theory Resources
  imports Prelude "HOL-Library.Multiset" "HOL-Library.Monad_Syntax"
begin

text \<open>
  Resources of the operating system and of the SISCI library: heap blocks, file descriptors,
  mappings, segments and interrupts.  A ledger records which resources are held; giving back one
  that is not held (a double free, a second close) marks the ledger bad.  Whether a call succeeds is
  up to the environment: \<open>os_env\<close> holds the result of every call that can fail, \<open>os_lock\<close> that of locking a
  mutex, \<open>os_sci\<close> the result of every SISCI call, \<open>os_rel\<close> the result of every SISCI call that gives something back, in the order of
  the calls.  Calls whose error code the sources ignore are taken to succeed.
\<close>

section \<open>The ledger\<close>

datatype rkind =
    Heap | Fd | Mapping | Pinned | Mutex
  | Sci_desc | Sci_device | Sci_remote_segment | Sci_local_segment | Sci_map | Sci_io_local
  | Sci_io_remote | Sci_intr | Sci_remote_intr | Sci_available | Sci_lib
  | Page_ref | Dma_page | P2p_table | P2p_mapping | Cdev | Chr_device | Pci_region | Pci_enabled
  | Chrdev_region | Dev_class | Pci_driver

type_synonym res = "rkind \<times> nat"

text \<open>The SISCI error codes the sources tell apart; every other code is \<open>SCI_ERR_OTHER\<close>.\<close>

datatype sci_error =
    SCI_ERR_OK | SCI_ERR_BUSY | SCI_ERR_OUT_OF_RANGE | SCI_ERR_SIZE_ALIGNMENT
  | SCI_ERR_OFFSET_ALIGNMENT | SCI_ERR_NOT_CONNECTED | SCI_ERR_ILLEGAL_OPERATION
  | SCI_ERR_SEGMENT_NOT_PREPARED | SCI_ERR_SEGMENTID_USED | SCI_ERR_TIMEOUT | SCI_ERR_OTHER nat

datatype sci_flag =
    SCI_FLAG_EMPTY | SCI_FLAG_CUDA_BUFFER | SCI_FLAG_BAR | SCI_FLAG_SHARED | SCI_FLAG_PRIVATE
  | SCI_FLAG_USE_CALLBACK

text \<open>
  \<open>os_addr\<close> holds the addresses and numbers the environment hands out, \<open>os_recv\<close> the messages it
  delivers (as 32-bit words), \<open>os_sent\<close> the messages sent so far with the interrupt they went to,
  \<open>os_shm\<close> the contents of the shared segments of a device, by device and segment number.
\<close>

record os =
  os_live :: "res multiset"
  os_next :: nat
  os_bad :: bool
  os_env :: "nat \<Rightarrow> int"
  os_lock :: "nat \<Rightarrow> int"
  os_sci :: "nat \<Rightarrow> sci_error"
  os_rel :: "nat \<Rightarrow> sci_error"
  os_addr :: "nat \<Rightarrow> u64"
  os_recv :: "nat \<Rightarrow> u32 list"
  os_sent :: "(nat \<times> u32 list) list"
  os_shm :: "u64 \<times> u32 \<Rightarrow> mem"
  os_calls :: nat

text \<open>One call that acquires nothing: its result.\<close>

definition sys_call :: "os \<Rightarrow> int \<times> os" where
  "sys_call s = (os_env s (os_calls s), s\<lparr>os_calls := Suc (os_calls s)\<rparr>)"

definition sci_call :: "os \<Rightarrow> sci_error \<times> os" where
  "sci_call s = (os_sci s (os_calls s), s\<lparr>os_calls := Suc (os_calls s)\<rparr>)"

text \<open>A fresh resource of a kind, or an error code.\<close>

definition grant :: "rkind \<Rightarrow> os \<Rightarrow> nat \<times> os" where
  "grant k s = (os_next s, s\<lparr>os_live := add_mset (k, os_next s) (os_live s), os_next := Suc (os_next s)\<rparr>)"

definition acquire :: "rkind \<Rightarrow> os \<Rightarrow> int \<times> nat \<times> os" where
  "acquire k s = (let c = sys_call s in if fst c = 0 then (0, grant k (snd c)) else (fst c, 0, snd c))"

definition sci_acquire :: "rkind \<Rightarrow> os \<Rightarrow> sci_error \<times> nat \<times> os" where
  "sci_acquire k s =
     (let c = sci_call s in
      if fst c = SCI_ERR_OK then (SCI_ERR_OK, grant k (snd c)) else (fst c, 0, snd c))"

text \<open>A resource the caller names by a key of its own, such as the segment that is mapped.\<close>

definition sci_acquire_at :: "rkind \<Rightarrow> nat \<Rightarrow> os \<Rightarrow> sci_error \<times> os" where
  "sci_acquire_at k key s =
     (let c = sci_call s in
      if fst c = SCI_ERR_OK then (SCI_ERR_OK, (snd c)\<lparr>os_live := add_mset (k, key) (os_live (snd c))\<rparr>)
      else c)"

definition release :: "rkind \<Rightarrow> nat \<Rightarrow> os \<Rightarrow> os" where
  "release k h s =
     (if (k, h) \<in># os_live s then s\<lparr>os_live := os_live s - {#(k, h)#}\<rparr> else s\<lparr>os_bad := True\<rparr>)"

text \<open>
  The loop that repeats a SISCI call while it answers \<open>SCI_ERR_BUSY\<close>; it need not end.  The resource
  is given back by the call that answers \<open>SCI_ERR_OK\<close>.
\<close>

partial_function (option) sci_release :: "rkind \<Rightarrow> nat \<Rightarrow> os \<Rightarrow> os option" where
  "sci_release k h s =
     (let e = os_rel s (os_calls s); s' = s\<lparr>os_calls := Suc (os_calls s)\<rparr> in
      if e = SCI_ERR_BUSY then sci_release k h s'
      else Some (if e = SCI_ERR_OK then release k h s' else s'))"

section \<open>Standard library\<close>

text \<open>\<open>malloc\<close> gives NULL (here \<open>None\<close>) or a block, \<open>free\<close> ignores NULL.\<close>

definition malloc :: "os \<Rightarrow> nat option \<times> os" where
  "malloc s = (let r = acquire Heap s in (if fst r = 0 then Some (fst (snd r)) else None, snd (snd r)))"

definition free :: "nat option \<Rightarrow> os \<Rightarrow> os" where
  "free p s = (case p of None \<Rightarrow> s | Some h \<Rightarrow> release Heap h s)"

text \<open>
  The SISCI library is in the ledger from a successful \<open>SCIInitialize\<close> to \<open>SCITerminate\<close>, which has no
  effect on a library that was not initialised.
\<close>

definition SCIInitialize :: "os \<Rightarrow> sci_error \<times> os" where
  "SCIInitialize s = sci_acquire_at Sci_lib 0 s"

definition SCITerminate :: "os \<Rightarrow> os" where
  "SCITerminate s = s\<lparr>os_live := os_live s - {#(Sci_lib, 0)#}\<rparr>"

section \<open>Accounting\<close>

text \<open>
  From \<open>s\<close> to \<open>s'\<close> exactly the resources \<open>r\<close> were gained: nothing else was taken or given back,
  nothing was given back twice, and the environment is the same.
\<close>

definition gains :: "os \<Rightarrow> os \<Rightarrow> res multiset \<Rightarrow> bool" where
  "gains s s' r \<longleftrightarrow> os_live s' = os_live s + r \<and> os_bad s' = os_bad s \<and> os_env s' = os_env s
     \<and> os_lock s' = os_lock s
     \<and> os_sci s' = os_sci s \<and> os_rel s' = os_rel s \<and> os_addr s' = os_addr s
     \<and> os_recv s' = os_recv s"

lemma held_split:
  assumes "r \<subseteq># os_live s"
  obtains L where "os_live s = r + L"
  using assms by (auto simp: mset_subset_eq_exists_conv)

lemma gains_refl [intro!, simp]: "gains s s {#}"
  by (simp add: gains_def)

lemma gains_trans: "gains s s' r \<Longrightarrow> gains s' s'' r' \<Longrightarrow> gains s s'' (r + r')"
  by (simp add: gains_def add.assoc)

lemma gains_undo: "gains s s' r \<Longrightarrow> gains s'' s' r \<Longrightarrow> gains s s'' {#}"
  by (simp add: gains_def)

lemma gains_undo_rest: "gains s s' (a + b) \<Longrightarrow> gains s'' s' b \<Longrightarrow> gains s s'' a"
  by (simp add: gains_def)

lemma gains_subset: "gains s s' r \<Longrightarrow> r \<subseteq># os_live s'"
  by (simp add: gains_def)

lemma gains_calls [simp]: "gains s (s\<lparr>os_calls := n\<rparr>) {#}"
  by (simp add: gains_def)

lemma sys_call_gains [simp]: "gains s (snd (sys_call s)) {#}"
  by (simp add: sys_call_def)

lemma sci_call_gains [simp]: "gains s (snd (sci_call s)) {#}"
  by (simp add: sci_call_def)

lemma grant_gains: "grant k s = (h, s') \<Longrightarrow> gains s s' {#(k, h)#}"
  by (auto simp: grant_def gains_def)

lemma acquire_ok: "acquire k s = (0, h, s') \<Longrightarrow> gains s s' {#(k, h)#}"
  using gains_trans [OF sys_call_gains grant_gains] by (auto simp: acquire_def Let_def split: if_splits)

lemma acquire_err: "acquire k s = (e, h, s') \<Longrightarrow> e \<noteq> 0 \<Longrightarrow> gains s s' {#}"
  by (auto simp: acquire_def Let_def split: if_splits)

lemma sci_acquire_ok: "sci_acquire k s = (SCI_ERR_OK, h, s') \<Longrightarrow> gains s s' {#(k, h)#}"
  using gains_trans [OF sci_call_gains grant_gains]
  by (auto simp: sci_acquire_def Let_def split: if_splits)

lemma sci_acquire_err: "sci_acquire k s = (e, h, s') \<Longrightarrow> e \<noteq> SCI_ERR_OK \<Longrightarrow> gains s s' {#}"
  by (auto simp: sci_acquire_def Let_def split: if_splits)

lemma sci_acquire_at_ok: "sci_acquire_at k key s = (SCI_ERR_OK, s') \<Longrightarrow> gains s s' {#(k, key)#}"
  by (auto simp: sci_acquire_at_def sci_call_def Let_def gains_def split: if_splits)

lemma sci_acquire_at_err: "sci_acquire_at k key s = (e, s') \<Longrightarrow> e \<noteq> SCI_ERR_OK \<Longrightarrow> gains s s' {#}"
  by (auto simp: sci_acquire_at_def sci_call_def Let_def gains_def split: if_splits)

lemma malloc_some: "malloc s = (Some p, s') \<Longrightarrow> gains s s' {#(Heap, p)#}"
  using acquire_ok by (cases "acquire Heap s") (auto simp: malloc_def Let_def split: if_splits)

lemma malloc_none: "malloc s = (None, s') \<Longrightarrow> gains s s' {#}"
  using acquire_err by (cases "acquire Heap s") (auto simp: malloc_def Let_def split: if_splits)

lemma release_gains: "{#(k, h)#} \<subseteq># os_live s \<Longrightarrow> gains (release k h s) s {#(k, h)#}"
  by (simp add: release_def gains_def)

lemma free_gains: "{#(Heap, p)#} \<subseteq># os_live s \<Longrightarrow> gains (free (Some p) s) s {#(Heap, p)#}"
  by (simp add: free_def release_gains)

lemma release_undo: "gains s s' (r + {#(k, h)#}) \<Longrightarrow> gains s (release k h s') r"
  by (simp add: gains_def release_def)

lemma free_undo: "gains s s' (r + {#(Heap, p)#}) \<Longrightarrow> gains s (free (Some p) s') r"
  by (simp add: free_def release_undo)

lemma free_undo_only: "gains s s' {#(Heap, p)#} \<Longrightarrow> gains s (free (Some p) s') {#}"
  using free_undo [of s s' "{#}"] by simp

lemma free_none [simp]: "free None s = s"
  by (simp add: free_def)

subsection \<open>Giving back to SISCI\<close>

text \<open>
  What the sources rely on when they give something back: SISCI answers \<open>SCI_ERR_OK\<close> or
  \<open>SCI_ERR_BUSY\<close>, and is not busy forever.
\<close>

definition sci_releases :: "os \<Rightarrow> bool" where
  "sci_releases s \<longleftrightarrow> (\<forall>n. os_rel s n = SCI_ERR_OK \<or> os_rel s n = SCI_ERR_BUSY)
     \<and> (\<forall>n. \<exists>m \<ge> n. os_rel s m = SCI_ERR_OK)"

lemma sci_releases_gains: "gains s s' r \<Longrightarrow> sci_releases s' = sci_releases s"
  by (simp add: gains_def sci_releases_def)

lemma sci_release_after:
  "(\<forall>i < j. os_rel s (os_calls s + i) = SCI_ERR_BUSY) \<Longrightarrow> os_rel s (os_calls s + j) = SCI_ERR_OK \<Longrightarrow>
   sci_release k h s = Some (release k h (s\<lparr>os_calls := Suc (os_calls s + j)\<rparr>))"
proof (induction j arbitrary: s)
  case 0
  then show ?case by (subst sci_release.simps) (simp add: Let_def)
next
  case (Suc j)
  let ?s = "s\<lparr>os_calls := Suc (os_calls s)\<rparr>"
  have busy: "os_rel s (os_calls s) = SCI_ERR_BUSY" using Suc.prems(1) [rule_format, of 0] by simp
  have "os_rel ?s (os_calls ?s + i) = SCI_ERR_BUSY" if "i < j" for i
    using Suc.prems(1) [rule_format, of "Suc i"] that by simp
  with Suc.IH [of ?s] Suc.prems(2) have
    "sci_release k h ?s = Some (release k h (s\<lparr>os_calls := Suc (os_calls s + Suc j)\<rparr>))" by simp
  with busy show ?case by (subst sci_release.simps) (simp add: Let_def)
qed

lemma sci_release_ends:
  assumes "sci_releases s"
  obtains j where "sci_release k h s = Some (release k h (s\<lparr>os_calls := Suc (os_calls s + j)\<rparr>))"
proof -
  from assms obtain m where m: "os_calls s \<le> m" "os_rel s m = SCI_ERR_OK"
    unfolding sci_releases_def by blast
  define P where "P j \<longleftrightarrow> os_rel s (os_calls s + j) = SCI_ERR_OK" for j
  have "P (m - os_calls s)" using m by (simp add: P_def)
  then have "P (LEAST j. P j)" by (rule LeastI)
  moreover have "\<not> P i" if "i < (LEAST j. P j)" for i using that by (rule not_less_Least)
  ultimately show thesis
    using that sci_release_after [of "LEAST j. P j" s k h] assms
    unfolding P_def sci_releases_def by metis
qed

lemma sci_release_gains:
  assumes "sci_releases s" "{#(k, h)#} \<subseteq># os_live s"
  obtains s' where "sci_release k h s = Some s'" "gains s' s {#(k, h)#}"
proof -
  from assms(1) obtain j where
    j: "sci_release k h s = Some (release k h (s\<lparr>os_calls := Suc (os_calls s + j)\<rparr>))"
    by (rule sci_release_ends)
  show thesis
    by (rule that [OF j]) (use assms(2) in \<open>simp add: release_def gains_def\<close>)
qed

section \<open>Pairs of acquiring and releasing operations\<close>

text \<open>
  The contract of every \<open>get\<close>/\<open>put\<close> pair of the library: a successful \<open>get\<close> gains exactly what the
  handle owns, a failed one gains nothing, and \<open>put\<close> returns and gives back exactly what the handle
  owns, whatever else was acquired in between.
\<close>

fun put_all :: "('h \<Rightarrow> os \<Rightarrow> os option) \<Rightarrow> 'h list \<Rightarrow> os \<Rightarrow> os option" where
  "put_all put [] s = Some s"
| "put_all put (h # hs) s = (case put h s of None \<Rightarrow> None | Some s' \<Rightarrow> put_all put hs s')"

locale paired =
  fixes get :: "os \<Rightarrow> int \<times> 'h \<times> os"
    and put :: "'h \<Rightarrow> os \<Rightarrow> os option"
    and owned :: "'h \<Rightarrow> res multiset"
  assumes get_ok: "get s = (0, h, s') \<Longrightarrow> gains s s' (owned h)"
    and get_err: "get s = (e, h, s') \<Longrightarrow> e \<noteq> 0 \<Longrightarrow> gains s s' {#}"
    and put_ok: "sci_releases s \<Longrightarrow> owned h \<subseteq># os_live s \<Longrightarrow> \<exists>s'. put h s = Some s' \<and> gains s' s (owned h)"
begin

text \<open>Whatever is gained between \<open>get\<close> and \<open>put\<close> is all that is left.\<close>

lemma roundtrip:
  assumes "get s = (0, h, s1)" "gains s1 s2 r" "sci_releases s"
  shows "\<exists>s3. put h s2 = Some s3 \<and> gains s s3 r"
proof -
  have g: "gains s s2 (r + owned h)"
    using gains_trans [OF get_ok [OF assms(1)] assms(2)] by (simp add: add.commute)
  then have "owned h \<subseteq># os_live s2" by (simp add: gains_def)
  with put_ok [of s2 h] sci_releases_gains [OF g] assms(3) obtain s3
    where "put h s2 = Some s3" "gains s3 s2 (owned h)" by blast
  with gains_undo_rest [OF g] show ?thesis by blast
qed

lemma put_undoes:
  assumes "gains s s' (r + owned h)" "sci_releases s"
  shows "\<exists>s''. put h s' = Some s'' \<and> gains s s'' r"
proof -
  have "owned h \<subseteq># os_live s'" using assms(1) by (simp add: gains_def)
  with put_ok [of s' h] sci_releases_gains [OF assms(1)] assms(2) obtain s''
    where "put h s' = Some s''" "gains s'' s' (owned h)" by blast
  with gains_undo_rest [OF assms(1)] show ?thesis by blast
qed

text \<open>Handles can be given back in any order.\<close>

lemma put_all_ok:
  "sci_releases s \<Longrightarrow> (\<Sum>h\<leftarrow>hs. owned h) \<subseteq># os_live s \<Longrightarrow>
   \<exists>s'. put_all put hs s = Some s' \<and> gains s' s (\<Sum>h\<leftarrow>hs. owned h)"
proof (induction hs arbitrary: s)
  case Nil
  then show ?case by simp
next
  case (Cons h hs)
  have sub: "owned h \<subseteq># os_live s"
    using Cons.prems(2) by (simp add: mset_subset_eq_add_left [THEN subset_mset.order_trans])
  from put_ok [OF Cons.prems(1) sub] obtain s1 where p: "put h s = Some s1" and g: "gains s1 s (owned h)"
    by blast
  have live: "os_live s = os_live s1 + owned h" using g by (simp add: gains_def)
  have "(\<Sum>h\<leftarrow>hs. owned h) \<subseteq># os_live s1"
    using Cons.prems(2) unfolding live by (simp add: add.commute)
  with Cons.IH [of s1] sci_releases_gains [OF g] Cons.prems(1) obtain s2
    where "put_all put hs s1 = Some s2" and g2: "gains s2 s1 (\<Sum>h\<leftarrow>hs. owned h)" by blast
  with p gains_trans [OF g2 g] show ?case by (auto simp: add.commute)
qed

end

text \<open>
  An operation that fills in a handle returned, and holds what it should: everything of the handle
  on success, nothing on failure.
\<close>

definition outcome :: "('h \<Rightarrow> res multiset) \<Rightarrow> ('h \<Rightarrow> bool) \<Rightarrow> os \<Rightarrow> (int \<times> 'h \<times> os) option \<Rightarrow> bool" where
  "outcome holds valid s r \<longleftrightarrow> (case r of
       None \<Rightarrow> False
     | Some (e, h, s') \<Rightarrow> if e = 0 then gains s s' (holds h) \<and> valid h else gains s s' {#})"

lemma outcome_Some [simp]:
  "outcome holds valid s (Some (e, h, s')) \<longleftrightarrow>
     (if e = 0 then gains s s' (holds h) \<and> valid h else gains s s' {#})"
  by (simp add: outcome_def)

lemma outcomeE:
  assumes "outcome holds valid s r"
  obtains (ok) h s' where "r = Some (0, h, s')" "gains s s' (holds h)" "valid h"
  | (err) e h s' where "r = Some (e, h, s')" "e \<noteq> 0" "gains s s' {#}"
  using assms by (auto simp: outcome_def split: option.splits prod.splits if_splits)

text \<open>
  The contract of an operation that may also not return (because SISCI stays busy, or because the
  process traps), for the states \<open>pre\<close> in which it does.
\<close>

locale lifecycle =
  fixes pre :: "os \<Rightarrow> bool"
    and valid :: "'h \<Rightarrow> bool"
    and create :: "os \<Rightarrow> (int \<times> 'h \<times> os) option"
    and destroy :: "'h \<Rightarrow> os \<Rightarrow> os option"
    and holds :: "'h \<Rightarrow> res multiset"
  assumes create_spec: "sci_releases s \<Longrightarrow> pre s \<Longrightarrow> outcome holds valid s (create s)"
    and destroy_ok: "sci_releases s \<Longrightarrow> valid h \<Longrightarrow> holds h \<subseteq># os_live s \<Longrightarrow>
      \<exists>s'. destroy h s = Some s' \<and> gains s' s (holds h)"
begin

text \<open>
  The operation returns; after a failure nothing is held, and after a success destroying the handle
  leaves exactly what was acquired in between.
\<close>

lemma balanced:
  assumes "sci_releases s" "pre s"
  shows "\<exists>e h s1. create s = Some (e, h, s1) \<and> (e \<noteq> 0 \<longrightarrow> gains s s1 {#})
    \<and> (e = 0 \<longrightarrow> (\<forall>s2 r. gains s1 s2 r \<longrightarrow> (\<exists>s3. destroy h s2 = Some s3 \<and> gains s s3 r)))"
proof -
  from create_spec [OF assms] obtain e h s1 where c: "create s = Some (e, h, s1)"
    and spec: "if e = 0 then gains s s1 (holds h) \<and> valid h else gains s s1 {#}"
    by (rule outcomeE) auto
  have "\<exists>s3. destroy h s2 = Some s3 \<and> gains s s3 r" if e: "e = 0" and g: "gains s1 s2 r" for s2 r
  proof -
    have v: "gains s s1 (holds h)" "valid h" using spec e by auto
    have gg: "gains s s2 (r + holds h)" using gains_trans [OF v(1) g] by (simp add: add.commute)
    have "holds h \<subseteq># os_live s2" using gg by (simp add: gains_def)
    with destroy_ok [of s2 h] v(2) sci_releases_gains [OF gg] assms(1) obtain s3
      where "destroy h s2 = Some s3" "gains s3 s2 (holds h)" by blast
    with gains_undo_rest [OF gg] show ?thesis by blast
  qed
  moreover have "e \<noteq> 0 \<longrightarrow> gains s s1 {#}" using spec by simp
  ultimately show ?thesis using c by blast
qed

end

sublocale paired \<subseteq> lifecycle "\<lambda>_. True" "\<lambda>_. True" "\<lambda>s. Some (get s)" put owned
proof
  fix s s' h and e :: int
  show "outcome owned (\<lambda>_. True) s (Some (get s))"
    using get_ok get_err by (cases "get s") auto
  show "sci_releases s \<Longrightarrow> owned h \<subseteq># os_live s \<Longrightarrow> \<exists>s'. put h s = Some s' \<and> gains s' s (owned h)"
    by (rule put_ok)
qed

text \<open>The first pair: \<open>malloc\<close> and \<open>free\<close>.\<close>

definition malloc_get :: "os \<Rightarrow> int \<times> nat option \<times> os" where
  "malloc_get s = (let r = malloc s in (if fst r = None then ENOMEM else 0, r))"

definition heap_owned :: "nat option \<Rightarrow> res multiset" where
  "heap_owned p = (case p of None \<Rightarrow> {#} | Some h \<Rightarrow> {#(Heap, h)#})"

interpretation heap: paired malloc_get "\<lambda>p s. Some (free p s)" heap_owned
proof
  fix s s' :: os and h :: "nat option" and e :: int
  show "malloc_get s = (0, h, s') \<Longrightarrow> gains s s' (heap_owned h)"
    using malloc_some [of s] by (cases "malloc s") (auto simp: malloc_get_def Let_def heap_owned_def split: if_splits)
  show "malloc_get s = (e, h, s') \<Longrightarrow> e \<noteq> 0 \<Longrightarrow> gains s s' {#}"
    using malloc_none [of s] by (cases "malloc s") (auto simp: malloc_get_def Let_def split: if_splits)
  show "sci_releases s \<Longrightarrow> heap_owned h \<subseteq># os_live s \<Longrightarrow>
      \<exists>s'. Some (free h s) = Some s' \<and> gains s' s (heap_owned h)"
    using free_gains by (auto simp: heap_owned_def split: option.splits)
qed

end
