(* ===== verification/Module_List.thy ===== *)
theory Module_List
  imports Resources
begin

text \<open>
  The mapping lists of the kernel module: \<open>src/module/list.h\<close> and \<open>list.c\<close>.  A list header is the
  first member of a larger structure, so a header is found in the heap under the address of the
  structure, of any type \<open>'p\<close>; \<open>None\<close> is NULL.  Following a pointer to something that is not in the
  heap, and a loop that does not end, are \<open>None\<close>.
\<close>

section \<open>Headers and operations\<close>

record 'p map_list_head =
  ln_next :: "'p option"
  ln_prev :: "'p option"
  ln_vaddr :: u64

type_synonym 'p lheap = "'p \<Rightarrow> 'p map_list_head option"

definition list_init :: "'p \<Rightarrow> u64 \<Rightarrow> 'p lheap \<Rightarrow> 'p lheap" where
  "list_init node vaddr h = h(node \<mapsto> \<lparr>ln_next = None, ln_prev = None, ln_vaddr = vaddr\<rparr>)"

partial_function (option) list_find_loop :: "'p lheap \<Rightarrow> u64 \<Rightarrow> 'p option \<Rightarrow> 'p option option" where
  "list_find_loop h vaddr ptr =
     (case ptr of
        None \<Rightarrow> Some None
      | Some p \<Rightarrow>
          do { n \<leftarrow> h p;
               if ln_vaddr n \<le> vaddr
               then if ln_vaddr n = vaddr then Some (Some p) else list_find_loop h vaddr (ln_next n)
               else Some None })"

definition list_find :: "'p \<Rightarrow> u64 \<Rightarrow> 'p lheap \<Rightarrow> 'p option option" where
  "list_find list_start vaddr h = do { n \<leftarrow> h list_start; list_find_loop h vaddr (ln_next n) }"

text \<open>The assignments \<open>p->next = v\<close> and \<open>p->prev = v\<close> under the test that \<open>p\<close> is not NULL.\<close>

definition set_next :: "'p option \<Rightarrow> 'p option \<Rightarrow> 'p lheap \<Rightarrow> 'p lheap option" where
  "set_next p v h = (case p of None \<Rightarrow> Some h
     | Some a \<Rightarrow> do { n \<leftarrow> h a; Some (h(a \<mapsto> n\<lparr>ln_next := v\<rparr>)) })"

definition set_prev :: "'p option \<Rightarrow> 'p option \<Rightarrow> 'p lheap \<Rightarrow> 'p lheap option" where
  "set_prev p v h = (case p of None \<Rightarrow> Some h
     | Some a \<Rightarrow> do { n \<leftarrow> h a; Some (h(a \<mapsto> n\<lparr>ln_prev := v\<rparr>)) })"

definition list_remove :: "'p \<Rightarrow> 'p lheap \<Rightarrow> 'p lheap option" where
  "list_remove node h =
     do { c \<leftarrow> h node;
          let next = ln_next c;
          let prev = ln_prev c;
          h \<leftarrow> set_next prev next h;
          h \<leftarrow> set_prev next prev h;
          h \<leftarrow> set_next (Some node) None h;
          set_prev (Some node) None h }"

partial_function (option) list_insert_loop ::
  "'p lheap \<Rightarrow> u64 \<Rightarrow> 'p \<Rightarrow> 'p option \<Rightarrow> int \<Rightarrow> ('p \<times> 'p option \<times> int) option" where
  "list_insert_loop h vaddr cur next cnt =
     (case next of
        None \<Rightarrow> Some (cur, next, cnt)
      | Some p \<Rightarrow>
          do { n \<leftarrow> h p;
               if ln_vaddr n < vaddr then list_insert_loop h vaddr p (ln_next n) (cnt + 1)
               else Some (cur, next, cnt) })"

definition list_insert :: "'p \<Rightarrow> 'p \<Rightarrow> 'p lheap \<Rightarrow> (int \<times> 'p lheap) option" where
  "list_insert list_start node h =
     do { s \<leftarrow> h list_start;
          i \<leftarrow> h node;
          (cur, next, cnt) \<leftarrow> list_insert_loop h (ln_vaddr i) list_start (ln_next s) 0;
          c \<leftarrow> h cur;
          if ln_vaddr c = ln_vaddr i then Some (- EEXIST, h)
          else
            do { h \<leftarrow> set_next (Some cur) (Some node) h;
                 h \<leftarrow> set_prev (Some node) (Some cur) h;
                 h \<leftarrow> set_next (Some node) next h;
                 h \<leftarrow> set_prev next (Some node) h;
                 Some (cnt, h) } }"

section \<open>What a list in the heap is\<close>

text \<open>
  The nodes \<open>xs\<close>, linked in both directions: the chain is entered at \<open>p\<close>, the predecessor of its
  first node is \<open>pr\<close>, the last of \<open>pr\<close> and \<open>xs\<close> is \<open>la\<close> and the successor of the last node is \<open>q\<close>.
\<close>

fun chain :: "'p lheap \<Rightarrow> 'p option \<Rightarrow> 'p option \<Rightarrow> 'p list \<Rightarrow> 'p option \<Rightarrow> 'p option \<Rightarrow> bool" where
  "chain h pr p [] la q \<longleftrightarrow> p = q \<and> pr = la"
| "chain h pr p (x # xs) la q \<longleftrightarrow> p = Some x \<and>
     (case h x of None \<Rightarrow> False | Some n \<Rightarrow> ln_prev n = pr \<and> chain h (Some x) (ln_next n) xs la q)"

definition key :: "'p lheap \<Rightarrow> 'p \<Rightarrow> u64" where
  "key h x = (case h x of None \<Rightarrow> 0 | Some n \<Rightarrow> ln_vaddr n)"

text \<open>The head is a node of its own, with address 0, in front of the sorted nodes.\<close>

definition list_ok :: "'p lheap \<Rightarrow> 'p \<Rightarrow> 'p list \<Rightarrow> bool" where
  "list_ok h hd0 xs \<longleftrightarrow> distinct (hd0 # xs) \<and> chain h None (Some hd0) (hd0 # xs) (Some (last (hd0 # xs))) None
     \<and> key h hd0 = 0 \<and> sorted (map (key h) xs)"

subsection \<open>Chains\<close>

lemma chain_append:
  "chain h pr p (xs @ ys) la q \<longleftrightarrow> (\<exists>m r. chain h pr p xs m r \<and> chain h m r ys la q)"
  by (induction xs arbitrary: pr p) (auto split: option.splits)

lemma chain_frame: "(\<And>x. x \<in> set xs \<Longrightarrow> h' x = h x) \<Longrightarrow> chain h' pr p xs la q = chain h pr p xs la q"
  by (induction xs arbitrary: pr p) (auto split: option.splits)

lemma chain_last: "chain h pr p xs la q \<Longrightarrow> xs \<noteq> [] \<Longrightarrow> la = Some (last xs)"
  by (induction xs arbitrary: pr p) (auto split: option.splits if_splits)

lemma chain_first: "chain h pr p (x # xs) la q \<Longrightarrow> p = Some x"
  by simp

lemma chain_in: "chain h pr p xs la q \<Longrightarrow> x \<in> set xs \<Longrightarrow> h x \<noteq> None"
  by (induction xs arbitrary: pr p) (auto split: option.splits)

lemma chain_set_next:
  assumes "chain h pr p (xs @ [x]) la q" "x \<notin> set xs"
  shows "\<exists>h' n. set_next (Some x) q' h = Some h' \<and> h x = Some n \<and> h' = h(x \<mapsto> n\<lparr>ln_next := q'\<rparr>)
    \<and> chain h' pr p (xs @ [x]) (Some x) q'"
proof -
  from assms(1) obtain m r n where c: "chain h pr p xs m r" "r = Some x" "h x = Some n" "ln_prev n = m"
    by (auto simp: chain_append split: option.splits)
  let ?h = "h(x \<mapsto> n\<lparr>ln_next := q'\<rparr>)"
  have "chain ?h pr p xs m r" using c(1) assms(2) by (subst chain_frame [where h = h]) auto
  with c show ?thesis by (auto simp: chain_append set_next_def)
qed

lemma chain_set_prev:
  assumes "chain h pr p xs la q" "distinct xs" "xs = [] \<Longrightarrow> q = None"
  shows "\<exists>h'. set_prev p pr' h = Some h' \<and> chain h' pr' p xs (if xs = [] then pr' else la) q
    \<and> (\<forall>y. y \<notin> set xs \<longrightarrow> h' y = h y) \<and> (\<forall>y. key h' y = key h y)"
proof (cases xs)
  case Nil
  then show ?thesis using assms(1,3) by (auto simp: set_prev_def)
next
  case (Cons x ys)
  with assms(1) obtain n where n: "p = Some x" "h x = Some n" "chain h (Some x) (ln_next n) ys la q"
    by (auto split: option.splits)
  let ?h = "h(x \<mapsto> n\<lparr>ln_prev := pr'\<rparr>)"
  have "chain ?h (Some x) (ln_next n) ys la q"
    using n(3) assms(2) Cons by (subst chain_frame [where h = h]) auto
  then show ?thesis using n Cons by (intro exI [of _ ?h]) (auto simp: set_prev_def key_def)
qed

text \<open>Cutting a list at a place and joining it again: both neighbours are told.\<close>

lemma chain_join:
  assumes "chain h None (Some hd0) (xs @ [x]) (Some x) q0" "chain h pr r ys la q" "ys = [] \<Longrightarrow> q = None"
    and "distinct (xs @ x # ys)"
  shows "\<exists>h1 h2. set_next (Some x) r h = Some h1 \<and> set_prev r (Some x) h1 = Some h2
    \<and> chain h2 None (Some hd0) (xs @ x # ys) (Some (last (x # ys))) q
    \<and> (\<forall>y. y \<notin> set (xs @ x # ys) \<longrightarrow> h2 y = h y) \<and> (\<forall>y. key h2 y = key h y)"
proof -
  from chain_set_next [OF assms(1), of r] assms(4) obtain h1 n where
    h1: "set_next (Some x) r h = Some h1" "h x = Some n" "h1 = h(x \<mapsto> n\<lparr>ln_next := r\<rparr>)"
      "chain h1 None (Some hd0) (xs @ [x]) (Some x) r" by auto
  have "chain h1 pr r ys la q"
    using assms(2,4) h1(3) by (subst chain_frame [where h = h]) auto
  from chain_set_prev [OF this, of "Some x"] assms(3,4) obtain h2 where
    h2: "set_prev r (Some x) h1 = Some h2" "chain h2 (Some x) r ys (if ys = [] then Some x else la) q"
      "\<And>y. y \<notin> set ys \<Longrightarrow> h2 y = h1 y" "\<And>y. key h2 y = key h1 y" by auto
  have "chain h2 None (Some hd0) (xs @ [x]) (Some x) r"
    using h1(4) h2(3) assms(4) by (subst chain_frame [where h = h1]) auto
  with h2(2) have c: "chain h2 None (Some hd0) (xs @ x # ys) (if ys = [] then Some x else la) q"
    by (auto simp: chain_append split: option.splits)
  moreover have "key h1 y = key h y" for y using h1(2,3) by (simp add: key_def)
  ultimately show ?thesis
    using h1 h2 chain_last [OF c] by (intro exI [of _ h1] exI [of _ h2]) auto
qed

text \<open>The nodes of a list up to its head, as the neighbours of a place in it.\<close>

lemma list_ok_split:
  assumes "list_ok h hd0 (as @ bs)"
  obtains zs la where "hd0 # as = zs @ [last (hd0 # as)]"
    "chain h None (Some hd0) (zs @ [last (hd0 # as)]) (Some (last (hd0 # as))) (case bs of [] \<Rightarrow> None | b # _ \<Rightarrow> Some b)"
    "chain h (Some (last (hd0 # as))) (case bs of [] \<Rightarrow> None | b # _ \<Rightarrow> Some b) bs la None"
    "distinct (zs @ last (hd0 # as) # bs)"
proof -
  define c where "c = last (hd0 # as)"
  define zs where "zs = butlast (hd0 # as)"
  have z: "hd0 # as = zs @ [c]" unfolding zs_def c_def by (rule append_butlast_last_id [symmetric]) simp
  from assms obtain la where "chain h None (Some hd0) ((hd0 # as) @ bs) la None"
    by (auto simp: list_ok_def)
  then obtain m r where c: "chain h None (Some hd0) (hd0 # as) m r" "chain h m r bs la None"
    unfolding chain_append by blast
  have m: "m = Some c" using chain_last [OF c(1)] by (simp add: c_def)
  have r: "r = (case bs of [] \<Rightarrow> None | b # _ \<Rightarrow> Some b)" using c(2) by (cases bs) auto
  have "distinct ((hd0 # as) @ bs)" using assms by (simp add: list_ok_def)
  then have "distinct (zs @ c # bs)" unfolding z by simp
  moreover have "chain h None (Some hd0) (zs @ [c]) (Some c) r" using c(1) unfolding m z .
  ultimately show thesis using that c(2) z unfolding m r c_def by blast
qed

subsection \<open>Looking up\<close>

lemma list_find_loop_spec:
  "chain h pr p xs la None \<Longrightarrow> sorted (map (key h) xs) \<Longrightarrow>
   list_find_loop h v p = Some (find (\<lambda>x. key h x = v) xs)"
proof (induction xs arbitrary: pr p)
  case Nil
  then show ?case by (simp add: list_find_loop.simps)
next
  case (Cons x xs)
  then obtain n where n: "p = Some x" "h x = Some n" "chain h (Some x) (ln_next n) xs la None"
    by (auto split: option.splits)
  have k: "key h x = ln_vaddr n" by (simp add: key_def n(2))
  have none: "find (\<lambda>y. key h y = v) xs = None" if "v < ln_vaddr n"
    using Cons.prems(2) that by (auto simp: find_None_iff k)
  from Cons.IH [OF n(3)] Cons.prems(2) none show ?case
    by (subst list_find_loop.simps) (auto simp: n(1,2) k)
qed

lemma list_find_spec:
  "list_ok h hd0 xs \<Longrightarrow> list_find hd0 v h = Some (find (\<lambda>x. key h x = v) xs)"
  by (auto simp: list_ok_def list_find_def list_find_loop_spec split: option.splits)

subsection \<open>Inserting\<close>

lemma list_insert_loop_spec:
  "chain h (Some c) p xs la None \<Longrightarrow>
   list_insert_loop h v c p k =
     (let as = takeWhile (\<lambda>x. key h x < v) xs; bs = dropWhile (\<lambda>x. key h x < v) xs in
      Some (last (c # as), case bs of [] \<Rightarrow> None | b # _ \<Rightarrow> Some b, k + int (length as)))"
proof (induction xs arbitrary: c p k)
  case Nil
  then show ?case by (simp add: list_insert_loop.simps)
next
  case (Cons x xs)
  then obtain n where n: "p = Some x" "h x = Some n" "chain h (Some x) (ln_next n) xs la None"
    by (auto split: option.splits)
  have k: "key h x = ln_vaddr n" by (simp add: key_def n(2))
  from Cons.IH [OF n(3)] show ?case
    by (subst list_insert_loop.simps) (auto simp: n(1,2) k Let_def)
qed


lemma insort_key_split:
  "insort_key f x xs = takeWhile (\<lambda>y. f y < f x) xs @ x # dropWhile (\<lambda>y. f y < f x) xs"
  by (induction xs) auto

lemma list_insert_spec:
  assumes ok: "list_ok h hd0 xs" and n: "h node = Some n" and new: "node \<notin> set (hd0 # xs)"
    and pos: "0 < ln_vaddr n"
  shows "\<exists>h'. list_insert hd0 node h = Some (int (length (takeWhile (\<lambda>x. key h x < ln_vaddr n) xs)), h')
    \<and> list_ok h' hd0 (insort_key (key h) node xs)
    \<and> (\<forall>y. y \<notin> set (hd0 # node # xs) \<longrightarrow> h' y = h y) \<and> (\<forall>y. key h' y = key h y)"
proof -
  define as where "as = takeWhile (\<lambda>x. key h x < ln_vaddr n) xs"
  define bs where "bs = dropWhile (\<lambda>x. key h x < ln_vaddr n) xs"
  define r where "r = (case bs of [] \<Rightarrow> None | b # _ \<Rightarrow> Some b)"
  define c where "c = last (hd0 # as)"
  have xs: "xs = as @ bs" by (simp add: as_def bs_def)
  have kn: "key h node = ln_vaddr n" by (simp add: key_def n)
  from list_ok_split [of h hd0 as bs] ok xs obtain zs la where z: "hd0 # as = zs @ [c]"
    and c1: "chain h None (Some hd0) (zs @ [c]) (Some c) r" and c2: "chain h (Some c) r bs la None"
    and d: "distinct (zs @ c # bs)"
    unfolding r_def c_def by metis
  have "set (zs @ c # bs) = set ((hd0 # as) @ bs)" unfolding z by simp
  then have nin: "node \<notin> set (zs @ c # bs)" using new by (simp add: xs)
  \<comment> \<open>the place\<close>
  from ok obtain s0 la0 where s0: "h hd0 = Some s0" "chain h (Some hd0) (ln_next s0) xs la0 None"
    by (auto simp: list_ok_def split: option.splits)
  have loop: "list_insert_loop h (ln_vaddr n) hd0 (ln_next s0) 0 = Some (c, r, int (length as))"
    using list_insert_loop_spec [OF s0(2)] by (simp add: Let_def as_def bs_def c_def r_def)
  have "key h c < ln_vaddr n"
  proof (cases "as = []")
    case True
    then show ?thesis using ok pos by (simp add: c_def list_ok_def)
  next
    case False
    then have "c \<in> set as" by (simp add: c_def)
    then show ?thesis unfolding as_def by (rule set_takeWhileD [THEN conjunct2])
  qed
  moreover obtain cn where cn: "h c = Some cn" using chain_in [OF c1, of c] by auto
  ultimately have ne: "ln_vaddr cn \<noteq> ln_vaddr n" by (simp add: key_def)
  \<comment> \<open>the four assignments\<close>
  have "chain h (ln_prev n) (Some node) [node] (Some node) (ln_next n)" by (simp add: n)
  from chain_join [OF c1 this] d nin obtain h1 h2 where
    w1: "set_next (Some c) (Some node) h = Some h1" "set_prev (Some node) (Some c) h1 = Some h2"
    and j1: "chain h2 None (Some hd0) ((zs @ [c]) @ [node]) (Some node) (ln_next n)"
    and f1: "\<And>y. y \<notin> set (zs @ [c, node]) \<Longrightarrow> h2 y = h y" and k1: "\<And>y. key h2 y = key h y"
    by auto
  have "h2 y = h y" if "y \<in> set bs" for y using f1 [of y] d nin that by auto
  then have "chain h2 (Some c) r bs la None" using c2 by (subst chain_frame [where h = h]) auto
  from chain_join [OF j1 this] d nin obtain h3 h4 where
    w2: "set_next (Some node) r h2 = Some h3" "set_prev r (Some node) h3 = Some h4"
    and j2: "chain h4 None (Some hd0) ((zs @ [c]) @ node # bs) (Some (last (node # bs))) None"
    and f2: "\<And>y. y \<notin> set (zs @ c # node # bs) \<Longrightarrow> h4 y = h2 y" and k2: "\<And>y. key h4 y = key h2 y"
    by auto
  have ins: "insort_key (key h) node xs = as @ node # bs" by (simp add: insort_key_split kn as_def bs_def)
  have keys: "key h4 = key h" by (rule ext) (simp add: k1 k2)
  have "sorted (map (key h) (insort_key (key h) node xs))"
    using ok by (simp add: list_ok_def sorted_insort_key)
  moreover have "chain h4 None (Some hd0) (hd0 # as @ node # bs) (Some (last (hd0 # as @ node # bs))) None"
    using j2 unfolding z [symmetric] by (simp del: chain.simps)
  moreover have "distinct (hd0 # as @ node # bs)" using ok new unfolding xs by (auto simp: list_ok_def)
  ultimately have "list_ok h4 hd0 (insort_key (key h) node xs)"
    using ok unfolding list_ok_def keys ins by blast
  moreover have "h4 y = h y" if "y \<notin> set (hd0 # node # xs)" for y
  proof -
    have "set (zs @ c # bs) = set ((hd0 # as) @ bs)" unfolding z by simp
    then have "y \<notin> set (zs @ c # bs)" using that by (simp add: xs)
    then show ?thesis using that f1 [of y] f2 [of y] by simp
  qed
  moreover have "list_insert hd0 node h = Some (int (length as), h4)"
    using s0(1) n loop cn ne w1 w2 by (simp add: list_insert_def)
  ultimately show ?thesis using keys unfolding as_def by auto
qed

text \<open>The head has address 0, so a node with address 0 is taken for a duplicate of it.\<close>

lemma list_insert_zero:
  assumes "list_ok h hd0 xs" "h node = Some n" "ln_vaddr n = 0"
  shows "list_insert hd0 node h = Some (- EEXIST, h)"
proof -
  from assms(1) obtain s0 la0 where s0: "h hd0 = Some s0" "chain h (Some hd0) (ln_next s0) xs la0 None"
    and k: "key h hd0 = 0"
    by (auto simp: list_ok_def split: option.splits)
  have "takeWhile (\<lambda>x. key h x < 0) xs = []" "dropWhile (\<lambda>x. key h x < 0) xs = xs" by (cases xs, simp_all)+
  with list_insert_loop_spec [OF s0(2), of 0 0] s0(1) k assms(2,3) show ?thesis
    by (simp add: list_insert_def Let_def key_def)
qed

subsection \<open>Removing\<close>

lemma list_remove_spec:
  assumes ok: "list_ok h hd0 xs" and x: "x \<in> set xs"
  shows "\<exists>h'. list_remove x h = Some h' \<and> list_ok h' hd0 (remove1 x xs)
    \<and> (\<forall>y. y \<notin> set (hd0 # xs) \<longrightarrow> h' y = h y) \<and> (\<forall>y. key h' y = key h y)
    \<and> h' x = Some \<lparr>ln_next = None, ln_prev = None, ln_vaddr = key h x\<rparr>"
proof -
  from x obtain as bs where xs: "xs = as @ x # bs" and nas: "x \<notin> set as" by (meson split_list_first)
  define c where "c = last (hd0 # as)"
  from list_ok_split [of h hd0 as "x # bs"] ok obtain zs la where z: "hd0 # as = zs @ [c]"
    and c1: "chain h None (Some hd0) (zs @ [c]) (Some c) (Some x)"
    and c2: "chain h (Some c) (Some x) (x # bs) la None" and d: "distinct (zs @ c # x # bs)"
    unfolding c_def xs by (metis (mono_tags, lifting) list.simps(5))
  from c2 obtain n where n: "h x = Some n" "ln_prev n = Some c" "chain h (Some x) (ln_next n) bs la None"
    by (auto split: option.splits)
  from chain_join [OF c1 n(3)] d obtain h1 h2 where
    w: "set_next (Some c) (ln_next n) h = Some h1" "set_prev (ln_next n) (Some c) h1 = Some h2"
    and j: "chain h2 None (Some hd0) (zs @ c # bs) (Some (last (c # bs))) None"
    and f: "\<And>y. y \<notin> set (zs @ c # bs) \<Longrightarrow> h2 y = h y" and k: "\<And>y. key h2 y = key h y"
    by auto
  let ?h = "h2(x \<mapsto> n\<lparr>ln_next := None, ln_prev := None\<rparr>)"
  have h2x: "h2 x = Some n" using f [of x] d n(1) by auto
  have keys: "key ?h = key h" by (rule ext) (simp add: key_def h2x k [unfolded key_def] n(1))
  have "chain ?h None (Some hd0) (zs @ c # bs) (Some (last (c # bs))) None"
    using j d by (subst chain_frame [where h = h2]) auto
  then have "chain ?h None (Some hd0) ((zs @ [c]) @ bs) (Some (last ((zs @ [c]) @ bs))) None"
    by (simp del: chain.simps)
  then have "chain ?h None (Some hd0) (hd0 # as @ bs) (Some (last (hd0 # as @ bs))) None"
    unfolding z [symmetric] by simp
  moreover have rm: "remove1 x xs = as @ bs" using nas by (simp add: xs remove1_append)
  ultimately have "list_ok ?h hd0 (remove1 x xs)"
    using ok unfolding list_ok_def keys rm xs by (auto simp: sorted_append simp del: chain.simps)
  moreover have "?h y = h y" if "y \<notin> set (hd0 # xs)" for y
  proof -
    have "set (zs @ c # x # bs) = set ((hd0 # as) @ x # bs)" unfolding z by simp
    then have "y \<notin> set (zs @ c # x # bs)" using that by (simp add: xs)
    then show ?thesis using f [of y] by simp
  qed
  moreover have "list_remove x h = Some ?h"
  proof -
    have "set_next (Some x) None h2 = Some (h2(x \<mapsto> n\<lparr>ln_next := None\<rparr>))" by (simp add: set_next_def h2x)
    moreover have "set_prev (Some x) None (h2(x \<mapsto> n\<lparr>ln_next := None\<rparr>)) = Some ?h" by (simp add: set_prev_def)
    ultimately show ?thesis using n w by (simp add: list_remove_def Let_def)
  qed
  moreover have "?h x = Some \<lparr>ln_next = None, ln_prev = None, ln_vaddr = key h x\<rparr>" by (simp add: key_def n(1))
  moreover have "\<forall>y. key ?h y = key h y" using keys by simp
  ultimately show ?thesis by blast
qed

subsection \<open>Other lists\<close>

lemma list_ok_frame:
  assumes "list_ok h hd0 xs" "\<forall>y \<in> set (hd0 # xs). h' y = h y"
  shows "list_ok h' hd0 xs"
proof -
  have "map (key h') xs = map (key h) xs" "key h' hd0 = key h hd0" using assms(2) by (auto simp: key_def)
  moreover have "chain h' None (Some hd0) (hd0 # xs) la None = chain h None (Some hd0) (hd0 # xs) la None" for la
    using assms(2) by (intro chain_frame) auto
  ultimately show ?thesis using assms(1) unfolding list_ok_def by metis
qed

lemma list_ok_init: "list_ok (list_init hd0 0 h) hd0 []"
  by (simp add: list_ok_def list_init_def key_def)

section \<open>The interface\<close>

text \<open>
  What the mapping code relies on: a store of sorted lists, in which the nodes of a list are found by
  their key, a node with a positive key is put in its place, a node is taken out, and everything
  outside the list and the node is left alone.
\<close>

locale sorted_store =
  fixes repr :: "'s \<Rightarrow> 'p \<Rightarrow> 'p list \<Rightarrow> bool"
    and keyof :: "'s \<Rightarrow> 'p \<Rightarrow> u64"
    and present :: "'s \<Rightarrow> 'p \<Rightarrow> bool"
    and agree :: "'p set \<Rightarrow> 's \<Rightarrow> 's \<Rightarrow> bool"
    and look :: "'p \<Rightarrow> u64 \<Rightarrow> 's \<Rightarrow> 'p option option"
    and ins :: "'p \<Rightarrow> 'p \<Rightarrow> 's \<Rightarrow> (int \<times> 's) option"
    and del :: "'p \<Rightarrow> 's \<Rightarrow> 's option"
  assumes look_law: "repr h l xs \<Longrightarrow> look l v h = Some (find (\<lambda>x. keyof h x = v) xs)"
    and ins_law: "repr h l xs \<Longrightarrow> present h x \<Longrightarrow> x \<notin> set (l # xs) \<Longrightarrow> 0 < keyof h x \<Longrightarrow>
      \<exists>h'. ins l x h = Some (int (length (takeWhile (\<lambda>y. keyof h y < keyof h x) xs)), h')
        \<and> repr h' l (insort_key (keyof h) x xs) \<and> keyof h' = keyof h \<and> agree (- set (l # x # xs)) h h'"
    and ins_zero: "repr h l xs \<Longrightarrow> present h x \<Longrightarrow> keyof h x = 0 \<Longrightarrow> ins l x h = Some (- EEXIST, h)"
    and del_law: "repr h l xs \<Longrightarrow> x \<in> set xs \<Longrightarrow>
      \<exists>h'. del x h = Some h' \<and> repr h' l (remove1 x xs) \<and> keyof h' = keyof h \<and> agree (- set (l # xs)) h h'"
    and frame: "repr h l xs \<Longrightarrow> agree A h h' \<Longrightarrow> set (l # xs) \<subseteq> A \<Longrightarrow> repr h' l xs"
begin

text \<open>The inserted node is found under its key, in front of any other with that key; the rest is found as before.\<close>

lemma find_insort:
  "find (\<lambda>y. f y = v) (insort_key f x xs) = (if f x = v then Some x else find (\<lambda>y. f y = v) xs)"
  by (induction xs) auto

lemma look_after_ins:
  assumes "repr h l xs" "present h x" "x \<notin> set (l # xs)" "0 < keyof h x"
  shows "\<exists>h' k. ins l x h = Some (k, h') \<and> look l v h' = (if v = keyof h x then Some (Some x) else look l v h)"
proof -
  from ins_law [OF assms] obtain h' k where h': "ins l x h = Some (k, h')"
    "repr h' l (insort_key (keyof h) x xs)" "keyof h' = keyof h" by blast
  then show ?thesis using look_law [OF h'(2)] look_law [OF assms(1)] find_insort [of "keyof h" v x xs] by auto
qed

text \<open>Taking out what was put in gives the list back.\<close>

lemma del_after_ins:
  assumes "repr h l xs" "present h x" "x \<notin> set (l # xs)" "0 < keyof h x"
  shows "\<exists>h1 h2 k. ins l x h = Some (k, h1) \<and> del x h1 = Some h2 \<and> repr h2 l xs"
proof -
  from ins_law [OF assms] obtain h1 k where h1: "ins l x h = Some (k, h1)"
    "repr h1 l (insort_key (keyof h) x xs)" by blast
  have x: "x \<in> set (insort_key (keyof h) x xs)" by (simp add: set_insort_key)
  have "remove1 x (insort_key (keyof h) x xs) = xs" using assms(3) by (induction xs) auto
  with del_law [OF h1(2) x] h1(1) show ?thesis by auto
qed

text \<open>A second list that shares no node with the first is left alone.\<close>

lemma ins_other:
  assumes "repr h l xs" "present h x" "x \<notin> set (l # xs)" "0 < keyof h x"
    and "repr h l' ys" "set (l' # ys) \<inter> set (l # x # xs) = {}" "ins l x h = Some (k, h')"
  shows "repr h' l' ys"
proof -
  have "set (l' # ys) \<subseteq> - set (l # x # xs)" using assms(6) by blast
  moreover have "agree (- set (l # x # xs)) h h'" using ins_law [OF assms(1-4)] assms(7) by auto
  ultimately show ?thesis using frame assms(5) by blast
qed

lemma del_other:
  assumes "repr h l xs" "x \<in> set xs" "repr h l' ys" "set (l' # ys) \<inter> set (l # xs) = {}" "del x h = Some h'"
  shows "repr h' l' ys"
proof -
  have "set (l' # ys) \<subseteq> - set (l # xs)" using assms(4) by blast
  moreover have "agree (- set (l # xs)) h h'" using del_law [OF assms(1,2)] assms(5) by auto
  ultimately show ?thesis using frame assms(3) by blast
qed

end

interpretation maplist: sorted_store list_ok key "\<lambda>h x. h x \<noteq> None" "\<lambda>A h h'. \<forall>y \<in> A. h' y = h y"
  list_find list_insert list_remove
proof
  fix h h' :: "'p lheap" and l x :: 'p and xs :: "'p list" and v :: u64 and A :: "'p set"
  show "list_ok h l xs \<Longrightarrow> list_find l v h = Some (find (\<lambda>x. key h x = v) xs)"
    by (rule list_find_spec)
  have e: "h x \<noteq> None \<Longrightarrow> ln_vaddr (the (h x)) = key h x" by (auto simp: key_def)
  show "list_ok h l xs \<Longrightarrow> h x \<noteq> None \<Longrightarrow> x \<notin> set (l # xs) \<Longrightarrow> 0 < key h x \<Longrightarrow>
      \<exists>h'. list_insert l x h = Some (int (length (takeWhile (\<lambda>y. key h y < key h x) xs)), h')
        \<and> list_ok h' l (insort_key (key h) x xs) \<and> key h' = key h \<and> (\<forall>y \<in> - set (l # x # xs). h' y = h y)"
    using list_insert_spec [of h l xs x "the (h x)"] e by (auto simp: fun_eq_iff)
  show "list_ok h l xs \<Longrightarrow> h x \<noteq> None \<Longrightarrow> key h x = 0 \<Longrightarrow> list_insert l x h = Some (- EEXIST, h)"
    using list_insert_zero [of h l xs x "the (h x)"] by (auto simp: key_def)
  show "list_ok h l xs \<Longrightarrow> x \<in> set xs \<Longrightarrow>
      \<exists>h'. list_remove x h = Some h' \<and> list_ok h' l (remove1 x xs) \<and> key h' = key h \<and> (\<forall>y \<in> - set (l # xs). h' y = h y)"
    using list_remove_spec [of h l xs x] by (auto simp: fun_eq_iff)
  show "list_ok h l xs \<Longrightarrow> \<forall>y \<in> A. h' y = h y \<Longrightarrow> set (l # xs) \<subseteq> A \<Longrightarrow> list_ok h' l xs"
    by (rule list_ok_frame) auto
qed

section \<open>Properties\<close>

text \<open>
  C6: The pointer operations on a list of mappings do to the heap what the operations of sorted lists
  do to the sequence of its nodes: \<open>list_find\<close> is the first node with the address, \<open>list_insert\<close> is
  sorted insertion and returns the position, \<open>list_remove\<close> takes out exactly the node, and a second
  list that shares no node is the same list afterwards.
\<close>

theorem mapping_list_sorted_list:
  assumes "list_ok h l xs" "list_ok h l' ys" "set (l' # ys) \<inter> set (l # x # xs) = {}"
  shows "list_find l v h = Some (find (\<lambda>y. key h y = v) xs) \<and>
    (x \<in> set xs \<longrightarrow> (\<exists>h'. list_remove x h = Some h' \<and> list_ok h' l (remove1 x xs) \<and> list_ok h' l' ys)) \<and>
    (h x \<noteq> None \<and> x \<notin> set (l # xs) \<and> 0 < key h x \<longrightarrow>
      (\<exists>h'. list_insert l x h = Some (int (length (takeWhile (\<lambda>y. key h y < key h x) xs)), h')
        \<and> list_ok h' l (insort_key (key h) x xs) \<and> list_ok h' l' ys))"
proof -
  have d: "set (l' # ys) \<inter> set (l # xs) = {}" using assms(3) by auto
  have "\<exists>h'. list_remove x h = Some h' \<and> list_ok h' l (remove1 x xs) \<and> list_ok h' l' ys" if "x \<in> set xs"
    using maplist.del_law [OF assms(1) that] maplist.del_other [OF assms(1) that assms(2) d] by blast
  moreover have "\<exists>h'. list_insert l x h = Some (int (length (takeWhile (\<lambda>y. key h y < key h x) xs)), h')
      \<and> list_ok h' l (insort_key (key h) x xs) \<and> list_ok h' l' ys"
    if "h x \<noteq> None" "x \<notin> set (l # xs)" "0 < key h x"
    using maplist.ins_law [OF assms(1) that] maplist.ins_other [OF assms(1) that assms(2,3)] by blast
  ultimately show ?thesis using maplist.look_law [OF assms(1)] by blast
qed

definition demo_lists :: "nat lheap" where
  "demo_lists =
     [0 \<mapsto> \<lparr>ln_next = Some 1, ln_prev = None, ln_vaddr = 0\<rparr>,
      1 \<mapsto> \<lparr>ln_next = None, ln_prev = Some 0, ln_vaddr = 0x2000\<rparr>,
      2 \<mapsto> \<lparr>ln_next = None, ln_prev = None, ln_vaddr = 0x5000\<rparr>,
      3 \<mapsto> \<lparr>ln_next = None, ln_prev = None, ln_vaddr = 0\<rparr>,
      4 \<mapsto> \<lparr>ln_next = None, ln_prev = None, ln_vaddr = 0x2000\<rparr>]"

lemma demo_lists_ok: "list_ok demo_lists 0 [1]" "list_ok demo_lists 3 []"
  by (simp_all add: list_ok_def demo_lists_def key_def)

theorem mapping_list_sorted_list_witness:
  "\<exists>h'. list_insert 0 2 demo_lists = Some (1, h') \<and> list_ok h' 0 [1, 2] \<and> list_ok h' 3 []"
  using mapping_list_sorted_list [OF demo_lists_ok, of 2] by (simp add: demo_lists_def key_def)

text \<open>
  The check for an address that is already in the list compares with the node in front of the place,
  whose address is smaller, and so never finds it: inserting a second node with the same address
  succeeds, and the new node hides the old one.  The only node that is refused is one with address 0,
  which is taken for a duplicate of the head.
\<close>

theorem list_insert_duplicates:
  assumes "list_ok h l xs" "h x \<noteq> None" "x \<notin> set (l # xs)"
  shows "if key h x = 0 then list_insert l x h = Some (- EEXIST, h)
    else \<exists>k h'. list_insert l x h = Some (k, h') \<and> 0 \<le> k \<and> list_find l (key h x) h' = Some (Some x)
      \<and> (\<forall>y \<in> set xs. key h' y = key h y)"
proof (cases "key h x = 0")
  case True
  then show ?thesis using maplist.ins_zero [OF assms(1,2)] by simp
next
  case False
  then have p: "0 < key h x" by (simp add: word_gt_0)
  from maplist.ins_law [OF assms p] maplist.look_after_ins [OF assms p, of "key h x"] False
  show ?thesis by auto
qed

theorem list_insert_duplicates_witness:
  "key demo_lists 1 = key demo_lists 4 \<and>
   (\<exists>k h'. list_insert 0 4 demo_lists = Some (k, h') \<and> 0 \<le> k \<and> list_find 0 0x2000 h' = Some (Some 4))"
  using list_insert_duplicates [OF demo_lists_ok(1), of 4] by (auto simp: demo_lists_def key_def)

end
