(* ===== verification/Module_Dev.thy ===== *)
theory Module_Dev
  imports Resources
begin

unbundle bit_operations_syntax

text \<open>
  Controller devices of the kernel module: \<open>src/module/ctrl_dev.h\<close> and \<open>cdev.c\<close>.  A device slot is a
  \<open>ctrl_dev\<close>; the PCI device, the class and the created device are numbers, and the embedded
  \<open>struct cdev\<close> is known by its address.  What the character device layer of the kernel hands out is
  held in the ledger: an added cdev under its address, a created device under its device number.
\<close>

section \<open>Device numbers and names\<close>

text \<open>\<open>MKDEV\<close>, \<open>MAJOR\<close> and \<open>MINOR\<close> of Linux: 12 bits of major and 20 bits of minor number.\<close>

definition MKDEV :: "u32 \<Rightarrow> u32 \<Rightarrow> u32" where
  "MKDEV ma mi = push_bit 20 ma OR mi"

definition MAJOR :: "u32 \<Rightarrow> u32" where
  "MAJOR dev = drop_bit 20 dev"

definition MINOR :: "u32 \<Rightarrow> u32" where
  "MINOR dev = dev AND 0xfffff"

text \<open>The decimal digits of \<open>%d\<close> for a number that is not negative.\<close>

fun decimal :: "nat \<Rightarrow> string" where
  "decimal n = (if n < 10 then [char_of (48 + n)] else decimal (n div 10) @ [char_of (48 + n mod 10)])"

declare decimal.simps [simp del]

text \<open>Atomic bit operations: the old value of the bit, and the word.\<close>

definition test_and_set_bit :: "nat \<Rightarrow> u64 \<Rightarrow> bool \<times> u64" where
  "test_and_set_bit n w = (bit w n, set_bit n w)"

definition clear_bit :: "nat \<Rightarrow> u64 \<Rightarrow> u64" where
  "clear_bit n w = unset_bit n w"

section \<open>Devices\<close>

record ctrl_dev =
  cd_in_use :: u64
  cd_pdev :: "nat option"
  cd_name :: string
  cd_rdev :: u32
  cd_cls :: "nat option"
  cd_cdev :: nat
  cd_chrdev :: "nat option"

definition ctrl_dev_reset :: "ctrl_dev \<Rightarrow> u32 \<Rightarrow> nat \<Rightarrow> nat option \<Rightarrow> string \<Rightarrow> ctrl_dev" where
  "ctrl_dev_reset dev first num cls nm =
     dev\<lparr>cd_name := take 63 (nm @ decimal num), cd_in_use := clear_bit 1 (cd_in_use dev), cd_pdev := None,
         cd_rdev := MKDEV (MAJOR first) (MINOR first + of_nat num), cd_cls := cls, cd_chrdev := None\<rparr>"

text \<open>\<open>ctrl_dev_get\<close> gives the device, or NULL; the slot is changed in place.\<close>

definition ctrl_dev_get :: "ctrl_dev \<Rightarrow> nat \<Rightarrow> bool \<times> ctrl_dev" where
  "ctrl_dev_get dev pdev =
     (case test_and_set_bit 1 (cd_in_use dev) of (old, w) \<Rightarrow>
        let dev = dev\<lparr>cd_in_use := w\<rparr> in
        if \<not> old then (True, dev\<lparr>cd_pdev := Some pdev\<rparr>) else (False, dev))"

definition cdev_add :: "nat \<Rightarrow> os \<Rightarrow> int \<times> os" where
  "cdev_add cdev s =
     (case sys_call s of (err, s) \<Rightarrow>
        if err \<noteq> 0 then (err, s) else (0, s\<lparr>os_live := add_mset (Cdev, cdev) (os_live s)\<rparr>))"

text \<open>\<open>device_create\<close> gives a device, or an error in the pointer.\<close>

definition device_create :: "u32 \<Rightarrow> os \<Rightarrow> (int + nat) \<times> os" where
  "device_create rdev s =
     (case sys_call s of (err, s) \<Rightarrow>
        if err \<noteq> 0 then (Inl err, s)
        else (Inr (os_next s), s\<lparr>os_live := add_mset (Chr_device, unat rdev) (os_live s), os_next := Suc (os_next s)\<rparr>))"

definition ctrl_dev_chrdev_create :: "ctrl_dev \<Rightarrow> os \<Rightarrow> int \<times> ctrl_dev \<times> os" where
  "ctrl_dev_chrdev_create dev s =
     (if cd_chrdev dev \<noteq> None then (0, dev, s)
      else if cd_pdev dev = None then (- EBADF, dev, s)
      else
        case cdev_add (cd_cdev dev) s of (err, s) \<Rightarrow>
          if err \<noteq> 0 then (err, dev, s)
          else
            case device_create (cd_rdev dev) s of
              (Inl e, s) \<Rightarrow> (e, dev, release Cdev (cd_cdev dev) s)
            | (Inr chrdev, s) \<Rightarrow> (0, dev\<lparr>cd_chrdev := Some chrdev\<rparr>, s))"

definition ctrl_dev_chrdev_remove :: "ctrl_dev \<Rightarrow> os \<Rightarrow> ctrl_dev \<times> os" where
  "ctrl_dev_chrdev_remove dev s =
     (if cd_chrdev dev \<noteq> None
      then (dev\<lparr>cd_chrdev := None\<rparr>, release Cdev (cd_cdev dev) (release Chr_device (unat (cd_rdev dev)) s))
      else (dev, s))"

definition ctrl_dev_put :: "ctrl_dev \<Rightarrow> os \<Rightarrow> ctrl_dev \<times> os" where
  "ctrl_dev_put dev s =
     (case ctrl_dev_chrdev_remove dev s of (dev, s) \<Rightarrow>
        let dev = dev\<lparr>cd_pdev := None\<rparr> in (dev\<lparr>cd_in_use := clear_bit 1 (cd_in_use dev)\<rparr>, s))"

section \<open>What a device holds\<close>

definition dev_res :: "ctrl_dev \<Rightarrow> res multiset" where
  "dev_res dev = (if cd_chrdev dev = None then {#} else {#(Cdev, cd_cdev dev), (Chr_device, unat (cd_rdev dev))#})"

text \<open>A slot is marked in use exactly while it has a PCI device; a free slot has no character device.\<close>

definition dev_ok :: "ctrl_dev \<Rightarrow> bool" where
  "dev_ok dev \<longleftrightarrow> (bit (cd_in_use dev) 1 \<longleftrightarrow> cd_pdev dev \<noteq> None) \<and> (cd_pdev dev = None \<longrightarrow> cd_chrdev dev = None)"

lemma bit_set_bit [simp]: "bit (set_bit (Suc 0) w :: u64) (Suc 0)"
  by (simp add: bit_simps)

lemma bit_clear_bit [simp]: "\<not> bit (clear_bit (Suc 0) w) (Suc 0)"
  by (simp add: clear_bit_def bit_simps)

lemma ctrl_dev_reset_ok: "dev_ok (ctrl_dev_reset dev first num cls nm)"
  by (simp add: dev_ok_def ctrl_dev_reset_def)

lemma ctrl_dev_get_spec:
  assumes "dev_ok dev"
  shows "ctrl_dev_get dev pdev =
    (if cd_pdev dev = None then (True, dev\<lparr>cd_in_use := set_bit 1 (cd_in_use dev), cd_pdev := Some pdev\<rparr>)
     else (False, dev\<lparr>cd_in_use := set_bit 1 (cd_in_use dev)\<rparr>))"
  using assms by (auto simp: dev_ok_def ctrl_dev_get_def test_and_set_bit_def)

lemma ctrl_dev_get_ok: "dev_ok dev \<Longrightarrow> dev_ok (snd (ctrl_dev_get dev pdev))"
  by (auto simp: ctrl_dev_get_spec dev_ok_def)

lemma ctrl_dev_get_res [simp]: "dev_res (snd (ctrl_dev_get dev pdev)) = dev_res dev"
  by (simp add: ctrl_dev_get_def test_and_set_bit_def Let_def dev_res_def)

lemma ctrl_dev_chrdev_create_spec:
  assumes "ctrl_dev_chrdev_create dev s = (e, dev', s')" "cd_chrdev dev = None"
  shows "if e = 0 then cd_chrdev dev' \<noteq> None \<and> gains s s' (dev_res dev') \<and> cd_pdev dev \<noteq> None
    else dev' = dev \<and> gains s s' {#}"
  using assms by (auto simp: ctrl_dev_chrdev_create_def cdev_add_def device_create_def sys_call_def release_def
      gains_def dev_res_def split: if_splits)

lemma ctrl_dev_chrdev_create_fields:
  assumes "ctrl_dev_chrdev_create dev s = (e, dev', s')"
  shows "cd_pdev dev' = cd_pdev dev \<and> cd_in_use dev' = cd_in_use dev \<and> cd_cdev dev' = cd_cdev dev
    \<and> cd_rdev dev' = cd_rdev dev \<and> cd_name dev' = cd_name dev"
  using assms by (auto simp: ctrl_dev_chrdev_create_def Let_def split: if_splits prod.splits sum.splits)

lemma ctrl_dev_put_spec:
  assumes "dev_res dev \<subseteq># os_live s"
  shows "\<exists>s'. ctrl_dev_put dev s = (dev\<lparr>cd_chrdev := None, cd_pdev := None, cd_in_use := clear_bit 1 (cd_in_use dev)\<rparr>, s')
    \<and> gains s' s (dev_res dev)"
proof (cases "cd_chrdev dev")
  case None
  then have "dev\<lparr>cd_chrdev := None\<rparr> = dev" by simp
  with None show ?thesis by (simp add: ctrl_dev_put_def ctrl_dev_chrdev_remove_def dev_res_def Let_def)
next
  case (Some c)
  with assms have "{#(Cdev, cd_cdev dev), (Chr_device, unat (cd_rdev dev))#} \<subseteq># os_live s" by (simp add: dev_res_def)
  then obtain L where L: "os_live s = {#(Cdev, cd_cdev dev), (Chr_device, unat (cd_rdev dev))#} + L" by (rule held_split)
  with Some show ?thesis
    by (simp add: ctrl_dev_put_def ctrl_dev_chrdev_remove_def dev_res_def release_def gains_def)
qed

end
