(* ===== verification/Module_Map.thy ===== *)
theory Module_Map
  imports Module_List Module_Dev
begin

unbundle bit_operations_syntax

text \<open>
  Mappings of the kernel module: \<open>src/module/map.h\<close>, \<open>map.c\<close> and \<open>ctrl_ref.h\<close>, for Linux 4.11 and
  later.  The list headers of all references and descriptors are one heap, in which a header is known
  by the structure it is part of; a descriptor is known by its block, and a block that is given back
  leaves both.  A field that is not set yet is \<open>Unset\<close> (or \<open>None\<close> for a count); using it, following a
  NULL pointer and writing past the end of the address array are \<open>None\<close>.
\<close>

section \<open>The state of the module\<close>

datatype mptr = User_list nat | Gpu_list nat | Md nat

datatype 'a cell = Unset | Null | Ptr 'a

text \<open>The pinned pages of a mapping: an array of page references, or a page table of the GPU driver.\<close>

datatype page_set = Page_array nat "nat list" | Page_table nat

record kmap =
  km_pdev :: "nat option"
  km_page_size :: u64
  km_n_pages :: "nat option"
  km_pages :: "page_set cell"
  km_mappings :: "nat cell"
  km_n_addrs :: "nat option"
  km_addrs :: "u64 list"
  km_room :: nat

record ctrl_ref =
  rf_flags :: u64
  rf_ctrl :: "nat option"
  rf_owner :: int

text \<open>
  The device and reference slots are arrays, and a pointer into one is an index.  \<open>mo_master\<close> are the
  PCI devices that may do DMA.
\<close>

record kmodule =
  mo_devs :: "ctrl_dev list"
  mo_refs :: "ctrl_ref list"
  mo_lists :: "mptr lheap"
  mo_maps :: "nat \<Rightarrow> kmap option"
  mo_master :: "nat set"
  mo_os :: os

text \<open>
  What the kernel and the GPU driver answer, by the number of the call: how many pages
  \<open>get_user_pages\<close> pins, the bus address \<open>dma_map_page\<close> returns and whether \<open>dma_mapping_error\<close> takes it
  for an error, the number of entries of a GPU page table for a range of a length and the addresses of
  a GPU mapping.
\<close>

record kapi =
  api_get_user_pages :: "u64 \<Rightarrow> u64 \<Rightarrow> nat \<Rightarrow> int"
  api_dma_map_page :: "nat \<Rightarrow> nat \<Rightarrow> nat \<Rightarrow> u64"
  api_dma_mapping_error :: "u64 \<Rightarrow> int"
  api_p2p_entries :: "u64 \<Rightarrow> nat \<Rightarrow> nat"
  api_p2p_address :: "nat \<Rightarrow> nat \<Rightarrow> u64"

definition PAGE_SIZE :: u64 where "PAGE_SIZE = 0x1000"
definition PAGE_MASK :: u64 where "PAGE_MASK = NOT (PAGE_SIZE - 1)"
definition GPU_PAGE_SIZE :: u64 where "GPU_PAGE_SIZE = push_bit 16 1"
definition GPU_PAGE_MASK :: u64 where "GPU_PAGE_MASK = NOT (GPU_PAGE_SIZE - 1)"
abbreviation IN_USE_BIT :: nat where "IN_USE_BIT \<equiv> 1"

section \<open>Descriptors in memory\<close>

text \<open>
  The allocation of a descriptor: 80 bytes with one address in them, and 8 for each further one,
  computed at the width of \<open>size_t\<close>.  The address array starts at offset 72.
\<close>

definition md_bytes :: "u64 \<Rightarrow> u64" where
  "md_bytes n_pages = 80 + (n_pages - 1) * 8"

definition kmalloc_map :: "u64 \<Rightarrow> kmodule \<Rightarrow> nat option \<times> kmodule" where
  "kmalloc_map n_pages m =
     (case malloc (mo_os m) of
        (None, s) \<Rightarrow> (None, m\<lparr>mo_os := s\<rparr>)
      | (Some p, s) \<Rightarrow>
          (Some p, m\<lparr>mo_os := s, mo_maps := (mo_maps m)(p \<mapsto> \<lparr>km_pdev = None, km_page_size = 0, km_n_pages = None,
             km_pages = Unset, km_mappings = Unset, km_n_addrs = None, km_addrs = [],
             km_room = (unat (md_bytes n_pages) - 72) div 8\<rparr>)\<rparr>))"

definition kfree_map :: "nat \<Rightarrow> kmodule \<Rightarrow> kmodule" where
  "kfree_map p m = m\<lparr>mo_maps := (mo_maps m)(p := None), mo_lists := (mo_lists m)(Md p := None),
     mo_os := release Heap p (mo_os m)\<rparr>"

text \<open>\<open>kcalloc\<close> fails when the size overflows.\<close>

definition kcalloc :: "u64 \<Rightarrow> nat \<Rightarrow> os \<Rightarrow> nat option \<times> os" where
  "kcalloc n sz s = (if 2 ^ 64 \<le> unat n * sz then (None, s) else malloc s)"

section \<open>References\<close>

definition ctrl_ref_get :: "int \<Rightarrow> nat \<Rightarrow> nat \<Rightarrow> kmodule \<Rightarrow> bool \<times> kmodule" where
  "ctrl_ref_get pid i dev m =
     (let ref = mo_refs m ! i in
      case test_and_set_bit IN_USE_BIT (rf_flags ref) of (old, w) \<Rightarrow>
        if old then (False, m\<lparr>mo_refs := (mo_refs m)[i := ref\<lparr>rf_flags := w\<rparr>]\<rparr>)
        else (True, m\<lparr>mo_refs := (mo_refs m)[i := \<lparr>rf_flags = w, rf_ctrl = Some dev, rf_owner = pid\<rparr>],
                      mo_lists := list_init (Gpu_list i) 0 (list_init (User_list i) 0 (mo_lists m))\<rparr>))"

section \<open>User pages\<close>

text \<open>\<open>get_user_pages\<close> takes one reference to each page it returns.\<close>

fun pin_pages :: "nat \<Rightarrow> os \<Rightarrow> nat list \<times> os" where
  "pin_pages 0 s = ([], s)"
| "pin_pages (Suc n) s = (case grant Page_ref s of (pg, s) \<Rightarrow> case pin_pages n s of (pgs, s) \<Rightarrow> (pg # pgs, s))"

definition set_map :: "nat \<Rightarrow> (kmap \<Rightarrow> kmap) \<Rightarrow> kmodule \<Rightarrow> kmodule" where
  "set_map p f m = m\<lparr>mo_maps := (mo_maps m)(p := map_option f (mo_maps m p))\<rparr>"

definition lock_user_pages :: "kapi \<Rightarrow> nat \<Rightarrow> u64 \<Rightarrow> u64 \<Rightarrow> kmodule \<Rightarrow> int \<times> kmodule" where
  "lock_user_pages api p vaddr n_pages m =
     (case kcalloc n_pages 8 (mo_os m) of
        (None, s) \<Rightarrow> (- ENOMEM, m\<lparr>mo_os := s\<rparr>)
      | (Some arr, s) \<Rightarrow>
          let retval = api_get_user_pages api vaddr n_pages (os_calls s);
              s = s\<lparr>os_calls := Suc (os_calls s)\<rparr> in
          if retval \<le> 0 then (retval, m\<lparr>mo_os := release Heap arr s\<rparr>)
          else
            case pin_pages (nat retval) s of (pages, s) \<Rightarrow>
              (0, set_map p (\<lambda>km. km\<lparr>km_n_pages := Some (nat retval), km_pages := Ptr (Page_array arr pages)\<rparr>)
                    (m\<lparr>mo_os := s\<rparr>)))"

text \<open>The loop over the pages: the address that fails is stored too, but not counted.\<close>

fun dma_map_loop :: "kapi \<Rightarrow> nat \<Rightarrow> nat \<Rightarrow> nat list \<Rightarrow> u64 list \<Rightarrow> os \<Rightarrow> (u64 list \<times> nat \<times> os) option" where
  "dma_map_loop api pdev room [] acc s = Some (acc, length acc, s)"
| "dma_map_loop api pdev room (pg # pgs) acc s =
     (if length acc < room then
        let a = api_dma_map_page api pdev pg (os_calls s); s = s\<lparr>os_calls := Suc (os_calls s)\<rparr> in
        if api_dma_mapping_error api a \<noteq> 0 then Some (acc @ [a], length acc, s)
        else dma_map_loop api pdev room pgs (acc @ [a]) (s\<lparr>os_live := add_mset (Dma_page, unat a) (os_live s)\<rparr>)
      else None)"

definition map_user_pages ::
  "kapi \<Rightarrow> nat \<Rightarrow> u64 \<Rightarrow> u64 \<Rightarrow> kmodule \<Rightarrow> (int \<times> nat option \<times> kmodule) option" where
  "map_user_pages api ref vaddr n_pages m =
     (if n_pages < 1 then Some (- EINVAL, None, m)
      else
        case kmalloc_map n_pages m of
          (None, m) \<Rightarrow> Some (- ENOMEM, None, m)
        | (Some p, m) \<Rightarrow>
            if unat (md_bytes n_pages) < 72 then None
            else
              let vaddr = vaddr AND PAGE_MASK;
                  m = set_map p (\<lambda>km. km\<lparr>km_page_size := PAGE_SIZE\<rparr>) m;
                  m = m\<lparr>mo_lists := list_init (Md p) vaddr (mo_lists m)\<rparr> in
              case lock_user_pages api p vaddr n_pages m of (err, m) \<Rightarrow>
                if err \<noteq> 0 then Some (err, None, kfree_map p m)
                else
                  do { dev \<leftarrow> rf_ctrl (mo_refs m ! ref);
                       pdev \<leftarrow> cd_pdev (mo_devs m ! dev);
                       km \<leftarrow> mo_maps m p;
                       n \<leftarrow> km_n_pages km;
                       pages \<leftarrow> (case km_pages km of Ptr (Page_array _ pgs) \<Rightarrow> Some pgs | _ \<Rightarrow> None);
                       (addrs, n_addrs, s) \<leftarrow> dma_map_loop api pdev (km_room km) (take n pages) [] (mo_os m);
                       let m = set_map p (\<lambda>km. km\<lparr>km_pdev := Some pdev, km_addrs := addrs, km_n_addrs := Some n_addrs\<rparr>)
                                 (m\<lparr>mo_os := s\<rparr>);
                       (_, lh) \<leftarrow> list_insert (User_list ref) (Md p) (mo_lists m);
                       Some (0, Some p, m\<lparr>mo_lists := lh\<rparr>) })"

definition unmap_user_pages :: "nat \<Rightarrow> kmodule \<Rightarrow> kmodule option" where
  "unmap_user_pages p m =
     do { lh \<leftarrow> list_remove (Md p) (mo_lists m);
          km \<leftarrow> mo_maps m p;
          n_addrs \<leftarrow> km_n_addrs km;
          n_pages \<leftarrow> km_n_pages km;
          (arr, pages) \<leftarrow> (case km_pages km of Ptr (Page_array a pgs) \<Rightarrow> Some (a, pgs) | _ \<Rightarrow> None);
          if length (km_addrs km) < n_addrs \<or> length pages < n_pages then None
          else
            let s = fold (\<lambda>a. release Dma_page (unat a)) (take n_addrs (km_addrs km)) (mo_os m);
                s = fold (release Page_ref) (take n_pages pages) s;
                s = release Heap arr s in
            Some (kfree_map p (m\<lparr>mo_lists := lh, mo_os := s\<rparr>)) }"

section \<open>GPU memory\<close>

text \<open>The driver calls this when the memory goes away while it is mapped.\<close>

definition free_callback :: "nat \<Rightarrow> kmodule \<Rightarrow> kmodule option" where
  "free_callback p m =
     do { km \<leftarrow> mo_maps m p;
          t \<leftarrow> (case km_pages km of Ptr (Page_table t) \<Rightarrow> Some t | _ \<Rightarrow> None);
          s \<leftarrow> (let s = release P2p_table t (mo_os m) in
             case km_mappings km of Unset \<Rightarrow> None | Null \<Rightarrow> Some s | Ptr h \<Rightarrow> Some (release P2p_mapping h s));
          Some (set_map p (\<lambda>km. km\<lparr>km_pages := Null, km_mappings := Null\<rparr>) (m\<lparr>mo_os := s\<rparr>)) }"

definition map_gpu_memory ::
  "kapi \<Rightarrow> nat \<Rightarrow> u64 \<Rightarrow> u64 \<Rightarrow> kmodule \<Rightarrow> (int \<times> nat option \<times> kmodule) option" where
  "map_gpu_memory api ref vaddr n_pages m =
     (if n_pages < 1 then Some (- EINVAL, None, m)
      else
        case kmalloc_map n_pages m of
          (None, m) \<Rightarrow> Some (- ENOMEM, None, m)
        | (Some p, m) \<Rightarrow>
            if unat (md_bytes n_pages) < 72 then None
            else
              do { dev \<leftarrow> rf_ctrl (mo_refs m ! ref);
                   let vaddr = vaddr AND GPU_PAGE_MASK;
                   let m = set_map p (\<lambda>km. km\<lparr>km_page_size := GPU_PAGE_SIZE, km_pdev := cd_pdev (mo_devs m ! dev)\<rparr>) m;
                   let m = m\<lparr>mo_lists := list_init (Md p) vaddr (mo_lists m)\<rparr>;
                   (case acquire P2p_table (mo_os m) of (err, t, s) \<Rightarrow>
                      if err \<noteq> 0 then Some (err, None, kfree_map p (m\<lparr>mo_os := s\<rparr>))
                      else
                        case acquire P2p_mapping s of (err, h, s) \<Rightarrow>
                          if err \<noteq> 0 then Some (err, None, kfree_map p (m\<lparr>mo_os := release P2p_table t s\<rparr>))
                          else
                            do { km \<leftarrow> mo_maps m p;
                                 let entries = api_p2p_entries api (GPU_PAGE_SIZE * n_pages) t;
                                 let addrs = map (api_p2p_address api h) [0..<entries];
                                 if km_room km < entries then None
                                 else
                                   do { let m = set_map p (\<lambda>km. km\<lparr>km_pages := Ptr (Page_table t), km_mappings := Ptr h,
                                          km_n_pages := Some entries, km_addrs := addrs, km_n_addrs := Some entries\<rparr>)
                                          (m\<lparr>mo_os := s\<rparr>);
                                        (_, lh) \<leftarrow> list_insert (Gpu_list ref) (Md p) (mo_lists m);
                                        Some (0, Some p, m\<lparr>mo_lists := lh\<rparr>) } }) })"

definition unmap_gpu_memory :: "nat \<Rightarrow> kmodule \<Rightarrow> kmodule option" where
  "unmap_gpu_memory p m =
     do { lh \<leftarrow> list_remove (Md p) (mo_lists m);
          km \<leftarrow> mo_maps m p;
          s \<leftarrow> (case km_mappings km of
                  Unset \<Rightarrow> None | Null \<Rightarrow> Some (mo_os m) | Ptr h \<Rightarrow> Some (release P2p_mapping h (mo_os m)));
          s \<leftarrow> (case km_pages km of
                  Null \<Rightarrow> Some s | Ptr (Page_table t) \<Rightarrow> Some (release P2p_table t s) | _ \<Rightarrow> None);
          Some (kfree_map p (m\<lparr>mo_lists := lh, mo_os := s\<rparr>)) }"

section \<open>Finding and dropping mappings\<close>

text \<open>The cast from a list header to the descriptor it is part of.\<close>

definition md_of :: "mptr \<Rightarrow> nat option" where
  "md_of q = (case q of Md p \<Rightarrow> Some p | _ \<Rightarrow> None)"

definition md_cast :: "mptr option \<Rightarrow> nat option option" where
  "md_cast q = (case q of None \<Rightarrow> Some None | Some x \<Rightarrow> map_option Some (md_of x))"

definition find_user_page_map :: "nat \<Rightarrow> u64 \<Rightarrow> kmodule \<Rightarrow> nat option option" where
  "find_user_page_map ref vaddr m = do { q \<leftarrow> list_find (User_list ref) (vaddr AND PAGE_MASK) (mo_lists m); md_cast q }"

definition find_gpu_map :: "nat \<Rightarrow> u64 \<Rightarrow> kmodule \<Rightarrow> nat option option" where
  "find_gpu_map ref vaddr m = do { q \<leftarrow> list_find (Gpu_list ref) (vaddr AND GPU_PAGE_MASK) (mo_lists m); md_cast q }"

text \<open>The two loops of \<open>ctrl_ref_put\<close>: drop the first mapping of the list until there is none.\<close>

partial_function (option) drop_maps :: "mptr \<Rightarrow> (nat \<Rightarrow> kmodule \<Rightarrow> kmodule option) \<Rightarrow> kmodule \<Rightarrow> kmodule option" where
  "drop_maps l unmap m =
     do { n \<leftarrow> mo_lists m l;
          (case ln_next n of
             None \<Rightarrow> Some m
           | Some q \<Rightarrow> do { p \<leftarrow> md_of q; m \<leftarrow> unmap p m; drop_maps l unmap m }) }"

definition ctrl_ref_put :: "bool \<Rightarrow> nat \<Rightarrow> kmodule \<Rightarrow> kmodule option" where
  "ctrl_ref_put cuda i m =
     do { m \<leftarrow> (if cuda then drop_maps (Gpu_list i) unmap_gpu_memory m else Some m);
          m \<leftarrow> drop_maps (User_list i) unmap_user_pages m;
          let ref = mo_refs m ! i;
          Some (m\<lparr>mo_refs := (mo_refs m)[i := \<lparr>rf_flags = clear_bit IN_USE_BIT (rf_flags ref), rf_ctrl = None, rf_owner = 0\<rparr>]\<rparr>) }"

section \<open>What mappings hold\<close>

definition kmap_res :: "nat \<Rightarrow> kmap \<Rightarrow> res multiset" where
  "kmap_res p km = {#(Heap, p)#} +
     (case km_pages km of
        Ptr (Page_array a pgs) \<Rightarrow> {#(Heap, a)#} + image_mset (Pair Page_ref) (mset pgs)
          + image_mset (\<lambda>a. (Dma_page, unat a)) (mset (take (the (km_n_addrs km)) (km_addrs km)))
      | Ptr (Page_table t) \<Rightarrow> {#(P2p_table, t)#}
      | _ \<Rightarrow> {#}) +
     (case km_mappings km of Ptr h \<Rightarrow> {#(P2p_mapping, h)#} | _ \<Rightarrow> {#})"

definition md_res :: "kmodule \<Rightarrow> nat \<Rightarrow> res multiset" where
  "md_res m p = (case mo_maps m p of None \<Rightarrow> {#} | Some km \<Rightarrow> kmap_res p km)"

text \<open>A descriptor on the list of user pages, and one on the list of GPU memory.\<close>

definition user_map :: "kmap \<Rightarrow> bool" where
  "user_map km \<longleftrightarrow> (case km_pages km of
       Ptr (Page_array a pgs) \<Rightarrow> km_n_pages km = Some (length pgs) \<and> km_mappings km = Unset
         \<and> (case km_n_addrs km of None \<Rightarrow> False | Some k \<Rightarrow> k \<le> length (km_addrs km))
     | _ \<Rightarrow> False)"

definition gpu_map :: "kmap \<Rightarrow> bool" where
  "gpu_map km \<longleftrightarrow> km_mappings km \<noteq> Unset \<and> (case km_pages km of Null \<Rightarrow> True | Ptr (Page_table t) \<Rightarrow> True | _ \<Rightarrow> False)"

definition md_kind :: "mptr \<Rightarrow> kmap \<Rightarrow> bool" where
  "md_kind l km = (case l of User_list _ \<Rightarrow> user_map km | Gpu_list _ \<Rightarrow> gpu_map km | Md _ \<Rightarrow> False)"

text \<open>
  The invariant, for the descriptors \<open>L l\<close> on each list \<open>l\<close> of the reference slots: every list is in
  order and holds descriptors of its kind, no descriptor is on two lists, what the descriptors hold is
  held, and blocks handed out later are new.
\<close>

definition list_heads :: "kmodule \<Rightarrow> mptr set" where
  "list_heads m = User_list ` {..<length (mo_refs m)} \<union> Gpu_list ` {..<length (mo_refs m)}"

definition maps_held :: "kmodule \<Rightarrow> (mptr \<Rightarrow> nat list) \<Rightarrow> res multiset" where
  "maps_held m L = (\<Sum>l \<in> list_heads m. \<Sum>p \<leftarrow> L l. md_res m p)"

definition maps_ok :: "kmodule \<Rightarrow> (mptr \<Rightarrow> nat list) \<Rightarrow> bool" where
  "maps_ok m L \<longleftrightarrow>
     (\<forall>l \<in> list_heads m. list_ok (mo_lists m) l (map Md (L l))
        \<and> (\<forall>p \<in> set (L l). \<exists>km. mo_maps m p = Some km \<and> md_kind l km)) \<and>
     (\<forall>l \<in> list_heads m. \<forall>l' \<in> list_heads m. l \<noteq> l' \<longrightarrow> set (L l) \<inter> set (L l') = {}) \<and>
     maps_held m L \<subseteq># os_live (mo_os m) \<and>
     (\<forall>p. mo_maps m p \<noteq> None \<longrightarrow> p < os_next (mo_os m))"

lemma set_map_simps [simp]:
  "mo_lists (set_map p f m) = mo_lists m" "mo_refs (set_map p f m) = mo_refs m"
  "mo_devs (set_map p f m) = mo_devs m" "mo_os (set_map p f m) = mo_os m"
  by (simp_all add: set_map_def)

lemma list_heads_finite [simp]: "finite (list_heads m)"
  by (simp add: list_heads_def)

lemma list_heads_not_Md [simp]: "Md p \<notin> list_heads m"
  by (auto simp: list_heads_def)

lemma Md_notin: "l \<in> list_heads m \<Longrightarrow> p \<notin> set ps \<Longrightarrow> Md p \<notin> set (l # map Md ps)"
  by (auto simp: list_heads_def)

lemma list_heads_iff [simp]:
  "User_list i \<in> list_heads m \<longleftrightarrow> i < length (mo_refs m)" "Gpu_list i \<in> list_heads m \<longleftrightarrow> i < length (mo_refs m)"
  by (auto simp: list_heads_def)

lemma list_heads_cong: "length (mo_refs m') = length (mo_refs m) \<Longrightarrow> list_heads m' = list_heads m"
  by (simp add: list_heads_def)

lemma maps_okD:
  assumes "maps_ok m L" "l \<in> list_heads m"
  shows "list_ok (mo_lists m) l (map Md (L l))" "distinct (L l)"
    and "p \<in> set (L l) \<Longrightarrow> \<exists>km. mo_maps m p = Some km \<and> md_kind l km"
    and "p \<in> set (L l) \<Longrightarrow> md_res m p \<subseteq># os_live (mo_os m)"
proof -
  show l: "list_ok (mo_lists m) l (map Md (L l))" using assms by (simp add: maps_ok_def)
  then show "distinct (L l)" by (auto simp: list_ok_def distinct_map)
  show "p \<in> set (L l) \<Longrightarrow> \<exists>km. mo_maps m p = Some km \<and> md_kind l km" using assms by (simp add: maps_ok_def)
  show "md_res m p \<subseteq># os_live (mo_os m)" if "p \<in> set (L l)"
  proof -
    have "md_res m p \<subseteq># (\<Sum>p \<leftarrow> L l. md_res m p)"
      using split_list [OF that] by (auto simp: subset_mset.add_increasing2 intro: subset_mset.add_increasing)
    also have "\<dots> \<subseteq># maps_held m L" unfolding maps_held_def
      using assms(2) by (subst sum.remove [of _ l]) auto
    also have "\<dots> \<subseteq># os_live (mo_os m)" using assms(1) by (simp add: maps_ok_def)
    finally show ?thesis .
  qed
qed

text \<open>Releasing one resource after the other.\<close>

lemma release_next [simp]: "os_next (release k h s) = os_next s"
  by (simp add: release_def)

lemma fold_release_next [simp]: "os_next (fold (\<lambda>a. release k (f a)) xs s) = os_next s"
  by (induction xs arbitrary: s) auto

lemma release_gains_step:
  assumes "{#(k, h)#} + r \<subseteq># os_live s"
  shows "gains (release k h s) s {#(k, h)#} \<and> r \<subseteq># os_live (release k h s)"
proof -
  from assms obtain L where "os_live s = ({#(k, h)#} + r) + L" by (rule held_split)
  then show ?thesis by (simp add: release_def gains_def)
qed

lemma fold_release_gains:
  "image_mset (\<lambda>a. (k, f a)) (mset xs) + r \<subseteq># os_live s \<Longrightarrow>
   gains (fold (\<lambda>a. release k (f a)) xs s) s (image_mset (\<lambda>a. (k, f a)) (mset xs))
     \<and> r \<subseteq># os_live (fold (\<lambda>a. release k (f a)) xs s)"
proof (induction xs arbitrary: s)
  case Nil
  then show ?case by simp
next
  case (Cons x xs)
  let ?rest = "image_mset (\<lambda>a. (k, f a)) (mset xs)"
  from Cons.prems have "{#(k, f x)#} + (?rest + r) \<subseteq># os_live s" by simp
  then have s1: "gains (release k (f x) s) s {#(k, f x)#}" "?rest + r \<subseteq># os_live (release k (f x) s)"
    using release_gains_step by blast+
  from Cons.IH [OF s1(2)] have g: "gains (fold (\<lambda>a. release k (f a)) xs (release k (f x) s)) (release k (f x) s) ?rest"
    and r: "r \<subseteq># os_live (fold (\<lambda>a. release k (f a)) xs (release k (f x) s))" by auto
  from gains_trans [OF g s1(1)] r show ?case by simp
qed

text \<open>Dropping one descriptor keeps the invariant.\<close>

lemma sum_list_remove1:
  "x \<in> set xs \<Longrightarrow> (\<Sum>y \<leftarrow> xs. f y) = f x + (\<Sum>y \<leftarrow> remove1 x xs. f y)" for f :: "'a \<Rightarrow> 'b :: comm_monoid_add"
  by (induction xs) (auto simp: ac_simps)

lemma map_Md_remove1: "distinct xs \<Longrightarrow> remove1 (Md p) (map Md xs) = map Md (remove1 p xs)"
  by (induction xs) auto

lemma maps_held_remove:
  assumes l: "l \<in> list_heads m" and p: "p \<in> set (L l)"
  shows "maps_held m L = md_res m p + maps_held m (L(l := remove1 p (L l)))"
proof -
  let ?L = "L(l := remove1 p (L l))"
  have "(\<Sum>l' \<in> list_heads m - {l}. \<Sum>q \<leftarrow> ?L l'. md_res m q) = (\<Sum>l' \<in> list_heads m - {l}. \<Sum>q \<leftarrow> L l'. md_res m q)"
    by (rule sum.cong) auto
  then show ?thesis unfolding maps_held_def
    using sum_list_remove1 [OF p, of "md_res m"] by (simp add: sum.remove [OF _ l] ac_simps)
qed

lemma maps_ok_out:
  assumes ok: "maps_ok m L" and l: "l \<in> list_heads m" and p: "p \<in> set (L l)" and l': "l' \<in> list_heads m"
  shows "p \<notin> set ((L(l := remove1 p (L l))) l')"
proof (cases "l' = l")
  case True
  then show ?thesis using maps_okD(2) [OF ok l] by simp
next
  case False
  then have "set (L l') \<inter> set (L l) = {}" using ok l' l by (simp add: maps_ok_def)
  then show ?thesis using False p by auto
qed

definition drops :: "kmodule \<Rightarrow> (mptr \<Rightarrow> nat list) \<Rightarrow> mptr \<Rightarrow> nat \<Rightarrow> kmodule \<Rightarrow> bool" where
  "drops m L l p m' \<longleftrightarrow> mo_refs m' = mo_refs m \<and> mo_devs m' = mo_devs m
     \<and> maps_ok m' (L(l := remove1 p (L l))) \<and> gains (mo_os m') (mo_os m) (md_res m p)
     \<and> mo_maps m' = (mo_maps m)(p := None)"

lemma maps_held_frame:
  assumes "length (mo_refs m') = length (mo_refs m)"
    and "\<And>l p. l \<in> list_heads m \<Longrightarrow> p \<in> set (L l) \<Longrightarrow> mo_maps m' p = mo_maps m p"
  shows "maps_held m' L = maps_held m L"
  unfolding maps_held_def list_heads_cong [OF assms(1)]
  using assms(2) by (intro sum.cong arg_cong [where f = sum_list] map_cong) (auto simp: md_res_def)

lemma drops_held:
  assumes "drops m L l p m'" "maps_ok m L" "l \<in> list_heads m" "p \<in> set (L l)"
  shows "maps_held m L = md_res m p + maps_held m' (L(l := remove1 p (L l)))"
proof -
  have "maps_held m' (L(l := remove1 p (L l))) = maps_held m (L(l := remove1 p (L l)))"
    by (rule maps_held_frame) (use assms in \<open>simp add: drops_def\<close>, metis assms drops_def fun_upd_other maps_ok_out)
  then show ?thesis using maps_held_remove [of l m p L] assms(3,4) by simp
qed

lemma maps_ok_drop:
  assumes ok: "maps_ok m L" and l: "l \<in> list_heads m" and p: "p \<in> set (L l)"
    and lh: "list_remove (Md p) (mo_lists m) = Some lh"
    and s: "gains (release Heap p s) (mo_os m) (md_res m p)" "os_next s = os_next (mo_os m)"
  shows "drops m L l p (kfree_map p (m\<lparr>mo_lists := lh, mo_os := s\<rparr>))"
proof -
  let ?m = "kfree_map p (m\<lparr>mo_lists := lh, mo_os := s\<rparr>)" and ?L = "L(l := remove1 p (L l))"
  have H: "list_heads ?m = list_heads m" by (rule list_heads_cong) (simp add: kfree_map_def)
  have ml: "mo_lists ?m = lh(Md p := None)" by (simp add: kfree_map_def)
  note lD = maps_okD [OF ok l]
  have disj: "set (L l') \<inter> set (L l) = {}" if "l' \<in> list_heads m" "l' \<noteq> l" for l'
    using ok that l by (auto simp: maps_ok_def)
  have pin: "Md p \<in> set (map Md (L l))" using p by simp
  note out = maps_ok_out [OF ok l, of p, OF p]
  have lists_ok: "list_ok (mo_lists ?m) l' (map Md (?L l'))" if l': "l' \<in> list_heads m" for l'
  proof -
    have "list_ok lh l' (map Md (?L l'))"
    proof (cases "l' = l")
      case True
      then show ?thesis using maplist.del_law [OF lD(1) pin] lh lD(2) by (auto simp: map_Md_remove1)
    next
      case False
      have "set (l' # map Md (L l')) \<inter> set (l # map Md (L l)) = {}"
        using disj [OF l' False] False l l' by auto
      then show ?thesis
        using maplist.del_other [OF lD(1) pin maps_okD(1) [OF ok l'] _ lh] False by simp
    qed
    moreover have "Md p \<notin> set (l' # map Md (?L l'))" by (rule Md_notin [OF l' out [OF l']])
    then have "\<forall>y \<in> set (l' # map Md (?L l')). mo_lists ?m y = lh y"
      unfolding ml by (metis fun_upd_other)
    ultimately show ?thesis by (rule list_ok_frame)
  qed
  have res: "md_res ?m q = md_res m q" if "q \<noteq> p" for q using that by (simp add: md_res_def kfree_map_def)
  have sumeq: "(\<Sum>q \<leftarrow> ?L l'. md_res ?m q) = (\<Sum>q \<leftarrow> ?L l'. md_res m q)" if "l' \<in> list_heads m" for l'
    using out [OF that] by (intro arg_cong [where f = sum_list] map_cong) (metis res)+
  have "maps_held m L = md_res m p + maps_held m ?L" using l p by (rule maps_held_remove)
  also have "maps_held m ?L = maps_held ?m ?L" unfolding maps_held_def H using sumeq by (intro sum.cong) auto
  finally have held: "maps_held ?m ?L \<subseteq># os_live (mo_os ?m)"
    using ok s(1) by (simp add: maps_ok_def gains_def kfree_map_def add.commute)
  have kinds: "\<exists>km. mo_maps ?m q = Some km \<and> md_kind l' km" if "l' \<in> list_heads m" "q \<in> set (?L l')" for l' q
  proof -
    have "q \<noteq> p" using out [OF that(1)] that(2) by metis
    moreover have "q \<in> set (L l')" using that(2) set_remove1_subset [of p "L l"] by (auto split: if_splits)
    ultimately show ?thesis using maps_okD(3) [OF ok that(1)] by (auto simp: kfree_map_def)
  qed
  have sub: "set (?L l') \<subseteq> set (L l')" for l' using set_remove1_subset [of p "L l"] by auto
  have "maps_ok ?m ?L"
    unfolding maps_ok_def H
  proof (intro conjI ballI allI impI)
    fix l1 l2 assume "l1 \<in> list_heads m" "l2 \<in> list_heads m" "l1 \<noteq> l2"
    then have "set (L l1) \<inter> set (L l2) = {}" using ok by (simp add: maps_ok_def)
    then show "set (?L l1) \<inter> set (?L l2) = {}" using sub [of l1] sub [of l2] by blast
  next
    fix q assume "mo_maps ?m q \<noteq> None"
    then show "q < os_next (mo_os ?m)" using ok s(2) by (auto simp: maps_ok_def kfree_map_def split: if_splits)
  qed (use lists_ok kinds held in auto)
  then show ?thesis using s(1) unfolding drops_def by (simp add: kfree_map_def)
qed


subsection \<open>Unmapping\<close>

lemma unmap_user_pages_drops:
  assumes ok: "maps_ok m L" and i: "i < length (mo_refs m)" and p: "p \<in> set (L (User_list i))"
  shows "\<exists>m'. unmap_user_pages p m = Some m' \<and> drops m L (User_list i) p m'"
proof -
  have l: "User_list i \<in> list_heads m" using i by simp
  from maps_okD(3) [OF ok l p] obtain km where km: "mo_maps m p = Some km" "user_map km"
    by (auto simp: md_kind_def)
  from km(2) obtain arr pgs k where pgs: "km_pages km = Ptr (Page_array arr pgs)" "km_n_pages km = Some (length pgs)"
    "km_mappings km = Unset" "km_n_addrs km = Some k" "k \<le> length (km_addrs km)"
    by (auto simp: user_map_def split: cell.splits page_set.splits option.splits)
  have "Md p \<in> set (map Md (L (User_list i)))" using p by simp
  from maplist.del_law [OF maps_okD(1) [OF ok l] this] obtain lh where lh: "list_remove (Md p) (mo_lists m) = Some lh"
    by blast
  let ?D = "image_mset (\<lambda>a. (Dma_page, unat a)) (mset (take k (km_addrs km)))"
    and ?P = "image_mset (Pair Page_ref) (mset pgs)"
  let ?s1 = "fold (\<lambda>a. release Dma_page (unat a)) (take k (km_addrs km)) (mo_os m)"
  let ?s2 = "fold (\<lambda>a. release Page_ref a) pgs ?s1"
  have res: "md_res m p = ?D + (?P + ({#(Heap, arr)#} + {#(Heap, p)#}))"
    using km(1) pgs by (simp add: md_res_def kmap_res_def)
  then have "?D + (?P + ({#(Heap, arr)#} + {#(Heap, p)#})) \<subseteq># os_live (mo_os m)" using maps_okD(4) [OF ok l p] by simp
  then have 1: "gains ?s1 (mo_os m) ?D" "?P + ({#(Heap, arr)#} + {#(Heap, p)#}) \<subseteq># os_live ?s1"
    using fold_release_gains by blast+
  have 2: "gains ?s2 ?s1 ?P" "{#(Heap, arr)#} + {#(Heap, p)#} \<subseteq># os_live ?s2"
    using fold_release_gains [OF 1(2)] by auto
  have 3: "gains (release Heap arr ?s2) ?s2 {#(Heap, arr)#}" "{#(Heap, p)#} \<subseteq># os_live (release Heap arr ?s2)"
    using release_gains_step [OF 2(2)] by auto
  have "gains (release Heap p (release Heap arr ?s2)) (mo_os m) (md_res m p)"
    unfolding res using gains_trans [OF gains_trans [OF gains_trans [OF release_gains [OF 3(2)] 3(1)] 2(1)] 1(1)]
    by (simp add: ac_simps)
  from maps_ok_drop [OF ok l p lh this] show ?thesis
    using lh km(1) pgs by (simp add: unmap_user_pages_def Let_def)
qed

lemma unmap_gpu_memory_drops:
  assumes ok: "maps_ok m L" and i: "i < length (mo_refs m)" and p: "p \<in> set (L (Gpu_list i))"
  shows "\<exists>m'. unmap_gpu_memory p m = Some m' \<and> drops m L (Gpu_list i) p m'"
proof -
  have l: "Gpu_list i \<in> list_heads m" using i by simp
  from maps_okD(3) [OF ok l p] obtain km where km: "mo_maps m p = Some km" "gpu_map km"
    by (auto simp: md_kind_def)
  have "Md p \<in> set (map Md (L (Gpu_list i)))" using p by simp
  from maplist.del_law [OF maps_okD(1) [OF ok l] this] obtain lh where lh: "list_remove (Md p) (mo_lists m) = Some lh"
    by blast
  define ms where "ms = (case km_mappings km of Ptr h \<Rightarrow> [h] | _ \<Rightarrow> [])"
  define ts where "ts = (case km_pages km of Ptr (Page_table t) \<Rightarrow> [t] | _ \<Rightarrow> [])"
  define s1 where "s1 = fold (\<lambda>a. release P2p_mapping a) ms (mo_os m)"
  define s2 where "s2 = fold (\<lambda>a. release P2p_table a) ts s1"
  let ?M = "image_mset (\<lambda>a. (P2p_mapping, a)) (mset ms)" and ?T = "image_mset (\<lambda>a. (P2p_table, a)) (mset ts)"
  have res: "md_res m p = ?M + (?T + {#(Heap, p)#})"
    using km by (auto simp: md_res_def kmap_res_def ms_def ts_def gpu_map_def split: cell.splits page_set.splits)
  then have "?M + (?T + {#(Heap, p)#}) \<subseteq># os_live (mo_os m)" using maps_okD(4) [OF ok l p] by simp
  note 1 = fold_release_gains [OF this, folded s1_def]
  note 2 = fold_release_gains [OF conjunct2 [OF 1], folded s2_def]
  have "gains (release Heap p s2) (mo_os m) (md_res m p)" unfolding res
    using gains_trans [OF gains_trans [OF release_gains [OF conjunct2 [OF 2]] conjunct1 [OF 2]] conjunct1 [OF 1]]
    by (simp add: ac_simps)
  from maps_ok_drop [OF ok l p lh this] show ?thesis
    using lh km by (auto simp: unmap_gpu_memory_def gpu_map_def s1_def s2_def ms_def ts_def split: cell.splits page_set.splits)
qed

text \<open>
  The two kinds of mappings share a contract: unmapping a descriptor on a list drops exactly it.
  Emptying the list, as \<open>ctrl_ref_put\<close> does, then ends and gives back all that is on it.
\<close>

locale map_class =
  fixes head :: "nat \<Rightarrow> mptr" and unmap :: "nat \<Rightarrow> kmodule \<Rightarrow> kmodule option"
  assumes head: "i < length (mo_refs m) \<Longrightarrow> head i \<in> list_heads m"
    and unmap_drops: "maps_ok m L \<Longrightarrow> i < length (mo_refs m) \<Longrightarrow> p \<in> set (L (head i)) \<Longrightarrow>
      \<exists>m'. unmap p m = Some m' \<and> drops m L (head i) p m'"
begin

lemma drop_maps_all:
  assumes "maps_ok m L" "i < length (mo_refs m)"
  shows "\<exists>m'. drop_maps (head i) unmap m = Some m' \<and> mo_refs m' = mo_refs m \<and> mo_devs m' = mo_devs m
    \<and> maps_ok m' (L(head i := [])) \<and> gains (mo_os m') (mo_os m) (\<Sum>p \<leftarrow> L (head i). md_res m p)
    \<and> mo_maps m' = (\<lambda>p. if p \<in> set (L (head i)) then None else mo_maps m p)
    \<and> maps_held m L = (\<Sum>p \<leftarrow> L (head i). md_res m p) + maps_held m' (L(head i := []))"
  using assms
proof (induction "L (head i)" arbitrary: m L)
  case Nil
  from maps_okD(1) [OF Nil.prems(1) head [OF Nil.prems(2)]] Nil.hyps
  obtain n where "mo_lists m (head i) = Some n" "ln_next n = None"
    by (auto simp: list_ok_def split: option.splits)
  moreover have "L(head i := []) = L" using Nil.hyps by auto
  ultimately show ?case using Nil.prems Nil.hyps [symmetric] by (subst drop_maps.simps) simp
next
  case (Cons p ps)
  note h = head [OF Cons.prems(2)]
  from maps_okD(1) [OF Cons.prems(1) h] Cons.hyps(2) [symmetric]
  obtain n where n: "mo_lists m (head i) = Some n" "ln_next n = Some (Md p)"
    by (auto simp: list_ok_def split: option.splits)
  have p: "p \<in> set (L (head i))" using Cons.hyps(2) [symmetric] by simp
  have np: "p \<notin> set ps" using maps_okD(2) [OF Cons.prems(1) h] Cons.hyps(2) [symmetric] by simp
  from unmap_drops [OF Cons.prems p] obtain m1 where m1: "unmap p m = Some m1" "drops m L (head i) p m1" by blast
  let ?L = "L(head i := ps)"
  have L: "L(head i := remove1 p (L (head i))) = ?L" using Cons.hyps(2) [symmetric] by simp
  have d: "mo_refs m1 = mo_refs m" "mo_devs m1 = mo_devs m" "maps_ok m1 ?L"
    "gains (mo_os m1) (mo_os m) (md_res m p)" "mo_maps m1 = (mo_maps m)(p := None)"
    using m1(2) unfolding drops_def L by auto
  from Cons.hyps(1) [of ?L m1] d Cons.prems(2) obtain m2 where
    m2: "drop_maps (head i) unmap m1 = Some m2" "mo_refs m2 = mo_refs m1" "mo_devs m2 = mo_devs m1"
      "maps_ok m2 (?L(head i := []))" "gains (mo_os m2) (mo_os m1) (\<Sum>p \<leftarrow> ps. md_res m1 p)"
      "mo_maps m2 = (\<lambda>p. if p \<in> set ps then None else mo_maps m1 p)"
      "maps_held m1 ?L = (\<Sum>p \<leftarrow> ps. md_res m1 p) + maps_held m2 (?L(head i := []))"
    by auto
  have "md_res m1 q = md_res m q" if "q \<in> set ps" for q using that np d(5) by (auto simp: md_res_def)
  then have ps: "(\<Sum>p \<leftarrow> ps. md_res m1 p) = (\<Sum>p \<leftarrow> ps. md_res m p)" by (metis (mono_tags, lifting) map_eq_conv)
  have "maps_held m L = (\<Sum>p \<leftarrow> L (head i). md_res m p) + maps_held m2 (L(head i := []))"
    using drops_held [OF m1(2) Cons.prems(1) h p] m2(7) ps Cons.hyps(2) [symmetric] unfolding L by (simp add: ac_simps)
  moreover from ps have "gains (mo_os m2) (mo_os m) (\<Sum>p \<leftarrow> L (head i). md_res m p)"
    using gains_trans [OF m2(5) d(4)] Cons.hyps(2) [symmetric] by (simp add: add.commute)
  moreover have "drop_maps (head i) unmap m = Some m2"
    using n m1(1) m2(1) by (subst drop_maps.simps) (simp add: md_of_def)
  moreover have "mo_maps m2 = (\<lambda>p. if p \<in> set (L (head i)) then None else mo_maps m p)"
    using Cons.hyps(2) [symmetric] m2(6) d(5) by (auto simp: fun_eq_iff)
  ultimately show ?case using m2 d by auto
qed

end

interpretation user_class: map_class User_list unmap_user_pages
  by unfold_locales (auto intro: unmap_user_pages_drops)

interpretation gpu_class: map_class Gpu_list unmap_gpu_memory
  by unfold_locales (auto intro: unmap_gpu_memory_drops)


lemma ctrl_ref_put_spec:
  assumes ok: "maps_ok m L" and i: "i < length (mo_refs m)" and gpu: "cuda \<or> L (Gpu_list i) = []"
  shows "\<exists>m'. ctrl_ref_put cuda i m = Some m' \<and> mo_devs m' = mo_devs m
    \<and> mo_refs m' = (mo_refs m)[i := \<lparr>rf_flags = clear_bit IN_USE_BIT (rf_flags (mo_refs m ! i)), rf_ctrl = None, rf_owner = 0\<rparr>]
    \<and> maps_ok m' (L(Gpu_list i := [], User_list i := []))
    \<and> mo_maps m' = (\<lambda>p. if p \<in> set (L (Gpu_list i) @ L (User_list i)) then None else mo_maps m p)
    \<and> gains (mo_os m') (mo_os m) (\<Sum>p \<leftarrow> L (Gpu_list i) @ L (User_list i). md_res m p)
    \<and> maps_held m L = (\<Sum>p \<leftarrow> L (Gpu_list i) @ L (User_list i). md_res m p) + maps_held m' (L(Gpu_list i := [], User_list i := []))"
proof -
  obtain m1 where m1: "(if cuda then drop_maps (Gpu_list i) unmap_gpu_memory m else Some m) = Some m1"
    "mo_refs m1 = mo_refs m" "mo_devs m1 = mo_devs m" "maps_ok m1 (L(Gpu_list i := []))"
    "gains (mo_os m1) (mo_os m) (\<Sum>p \<leftarrow> L (Gpu_list i). md_res m p)"
    "mo_maps m1 = (\<lambda>p. if p \<in> set (L (Gpu_list i)) then None else mo_maps m p)"
    "maps_held m L = (\<Sum>p \<leftarrow> L (Gpu_list i). md_res m p) + maps_held m1 (L(Gpu_list i := []))"
  proof (cases cuda)
    case True
    with gpu_class.drop_maps_all [OF ok i] that show thesis by force
  next
    case False
    with gpu have "L(Gpu_list i := []) = L" "L (Gpu_list i) = []" by auto
    with False ok that [of m] show thesis by auto
  qed
  from user_class.drop_maps_all [OF m1(4), of i] i m1(2) obtain m2 where
    m2: "drop_maps (User_list i) unmap_user_pages m1 = Some m2" "mo_refs m2 = mo_refs m" "mo_devs m2 = mo_devs m"
      "maps_ok m2 (L(Gpu_list i := [], User_list i := []))"
      "gains (mo_os m2) (mo_os m1) (\<Sum>p \<leftarrow> L (User_list i). md_res m1 p)"
      "mo_maps m2 = (\<lambda>p. if p \<in> set (L (User_list i)) then None else mo_maps m1 p)"
      "maps_held m1 (L(Gpu_list i := [])) = (\<Sum>p \<leftarrow> L (User_list i). md_res m1 p) + maps_held m2 (L(Gpu_list i := [], User_list i := []))"
    using m1(3) by auto
  have "set (L (User_list i)) \<inter> set (L (Gpu_list i)) = {}" using ok i by (auto simp: maps_ok_def)
  then have "md_res m1 p = md_res m p" if "p \<in> set (L (User_list i))" for p
    using that m1(6) by (simp add: md_res_def disjoint_iff)
  then have us: "(\<Sum>p \<leftarrow> L (User_list i). md_res m1 p) = (\<Sum>p \<leftarrow> L (User_list i). md_res m p)"
    by (metis (mono_tags, lifting) map_eq_conv)
  with gains_trans [OF m2(5) m1(5)]
  have g: "gains (mo_os m2) (mo_os m) (\<Sum>p \<leftarrow> L (Gpu_list i) @ L (User_list i). md_res m p)" by (simp add: add.commute)
  let ?m = "m2\<lparr>mo_refs := (mo_refs m)[i := \<lparr>rf_flags = clear_bit IN_USE_BIT (rf_flags (mo_refs m ! i)), rf_ctrl = None, rf_owner = 0\<rparr>]\<rparr>"
  have H: "list_heads ?m = list_heads m2" by (rule list_heads_cong) (simp add: m2(2))
  have R: "md_res ?m = md_res m2" by (rule ext) (simp add: md_res_def)
  have "maps_ok ?m (L(Gpu_list i := [], User_list i := []))"
    using m2(4) H R by (simp add: maps_ok_def maps_held_def)
  moreover have "maps_held m L = (\<Sum>p \<leftarrow> L (Gpu_list i) @ L (User_list i). md_res m p) + maps_held ?m (L(Gpu_list i := [], User_list i := []))"
    using m1(7) m2(7) us unfolding maps_held_def H R by (simp add: ac_simps)
  moreover have "mo_maps ?m = (\<lambda>p. if p \<in> set (L (Gpu_list i) @ L (User_list i)) then None else mo_maps m p)"
    using m1(6) m2(6) by (auto simp: fun_eq_iff)
  ultimately show ?thesis using m1(1) m2(1,2,3) g by (simp add: ctrl_ref_put_def)
qed

end
