(* ===== verification/Module_Mapping.thy ===== *)
theory Module_Mapping
  imports Module_Map
begin

unbundle bit_operations_syntax

text \<open>
  What the mapping functions of \<open>src/module/map.c\<close> guarantee: the outcome of \<open>map_user_pages\<close> and
  \<open>map_gpu_memory\<close> on every path, the callback of the GPU driver, and the properties of mapping and
  unmapping.
\<close>

section \<open>Mapping\<close>


lemma maps_ok_frame:
  assumes ok: "maps_ok m L" and refs: "length (mo_refs m') = length (mo_refs m)"
    and same: "\<And>l p. l \<in> list_heads m \<Longrightarrow> p \<in> set (L l) \<Longrightarrow> mo_maps m' p = mo_maps m p \<and> mo_lists m' (Md p) = mo_lists m (Md p)"
    and hds: "\<And>l. l \<in> list_heads m \<Longrightarrow> mo_lists m' l = mo_lists m l"
    and g: "gains (mo_os m) (mo_os m') r"
    and fresh: "\<And>p. mo_maps m' p \<noteq> None \<Longrightarrow> p < os_next (mo_os m')"
  shows "maps_ok m' L"
proof -
  have H: "list_heads m' = list_heads m" by (rule list_heads_cong [OF refs])
  have held: "maps_held m' L = maps_held m L" by (rule maps_held_frame [OF refs]) (use same in blast)
  have "list_ok (mo_lists m') l (map Md (L l))" if l: "l \<in> list_heads m" for l
    using maps_okD(1) [OF ok l] by (rule list_ok_frame) (use same [OF l] hds [OF l] in auto)
  moreover have "\<exists>km. mo_maps m' p = Some km \<and> md_kind l km" if "l \<in> list_heads m" "p \<in> set (L l)" for l p
    using same [OF that] maps_okD(3) [OF ok that] by simp
  moreover have "maps_held m' L \<subseteq># os_live (mo_os m')"
    unfolding held using ok g by (simp add: maps_ok_def gains_def subset_mset.add_increasing2)
  ultimately show ?thesis using ok fresh unfolding maps_ok_def H by blast
qed

lemma map_Md_insort: "insort_key f (Md p) (map Md xs) = map Md (insort_key (\<lambda>q. f (Md q)) p xs)"
  by (induction xs) auto

lemma sum_list_insort_key: "(\<Sum>y \<leftarrow> insort_key g x xs. f y) = f x + (\<Sum>y \<leftarrow> xs. f y)" for f :: "'a \<Rightarrow> 'b :: comm_monoid_add"
  by (induction xs) (auto simp: ac_simps)

definition ins_map :: "mptr lheap \<Rightarrow> nat \<Rightarrow> nat list \<Rightarrow> nat list" where
  "ins_map h p ps = insort_key (\<lambda>q. key h (Md q)) p ps"

lemma set_ins_map [simp]: "set (ins_map h p ps) = insert p (set ps)"
  by (simp add: ins_map_def set_insort_key)

lemma maps_held_ins:
  assumes l: "l \<in> list_heads m"
  shows "maps_held m (L(l := ins_map h p (L l))) = md_res m p + maps_held m L"
proof -
  let ?L = "L(l := ins_map h p (L l))"
  have "(\<Sum>l' \<in> list_heads m - {l}. \<Sum>q \<leftarrow> ?L l'. md_res m q) = (\<Sum>l' \<in> list_heads m - {l}. \<Sum>q \<leftarrow> L l'. md_res m q)"
    by (rule sum.cong) auto
  then show ?thesis unfolding maps_held_def
    by (simp add: sum.remove [OF _ l] ins_map_def sum_list_insort_key ac_simps)
qed

lemma maps_ok_add:
  assumes ok: "maps_ok m L" and l: "l \<in> list_heads m" and km: "mo_maps m p = Some km" "md_kind l km"
    and new: "\<And>l. l \<in> list_heads m \<Longrightarrow> p \<notin> set (L l)"
    and n: "mo_lists m (Md p) = Some n" "0 < ln_vaddr n"
    and held: "maps_held m L + kmap_res p km \<subseteq># os_live (mo_os m)"
  shows "\<exists>k lh. list_insert l (Md p) (mo_lists m) = Some (k, lh) \<and> key lh = key (mo_lists m)
    \<and> maps_ok (m\<lparr>mo_lists := lh\<rparr>) (L(l := ins_map (mo_lists m) p (L l)))"
proof -
  let ?L = "L(l := ins_map (mo_lists m) p (L l))"
  have nin: "Md p \<notin> set (l # map Md (L l))" by (rule Md_notin [OF l new [OF l]])
  have pos: "0 < key (mo_lists m) (Md p)" "mo_lists m (Md p) \<noteq> None" using n by (simp_all add: key_def)
  note law = maplist.ins_law [OF maps_okD(1) [OF ok l] pos(2) nin pos(1)]
  then obtain k lh where lh: "list_insert l (Md p) (mo_lists m) = Some (k, lh)" "key lh = key (mo_lists m)"
    "list_ok lh l (map Md (ins_map (mo_lists m) p (L l)))"
    unfolding ins_map_def map_Md_insort [symmetric] by blast
  let ?m = "m\<lparr>mo_lists := lh\<rparr>"
  have H: "list_heads ?m = list_heads m" by (rule list_heads_cong) simp
  have disj: "set (L l1) \<inter> set (L l2) = {}" if "l1 \<in> list_heads m" "l2 \<in> list_heads m" "l1 \<noteq> l2" for l1 l2
    using ok that by (simp add: maps_ok_def)
  have lists_ok: "list_ok (mo_lists ?m) l' (map Md (?L l'))" if l': "l' \<in> list_heads m" for l'
  proof (cases "l' = l")
    case True
    then show ?thesis using lh(3) by simp
  next
    case False
    have "set (l' # map Md (L l')) \<inter> set (l # Md p # map Md (L l)) = {}"
      using disj [OF l' l False] new [OF l'] False l l' by (auto simp: list_heads_def)
    then show ?thesis
      using maplist.ins_other [OF maps_okD(1) [OF ok l] pos(2) nin pos(1) maps_okD(1) [OF ok l'] _ lh(1)] False by simp
  qed
  have res: "md_res ?m = md_res m" by (rule ext) (simp add: md_res_def)
  have "maps_held ?m ?L = md_res m p + maps_held m L"
    using maps_held_ins [OF l, of L "mo_lists m" p] unfolding maps_held_def H res by simp
  then have "maps_held ?m ?L \<subseteq># os_live (mo_os ?m)" using held km(1) by (simp add: md_res_def add.commute)
  moreover have "\<exists>km. mo_maps ?m q = Some km \<and> md_kind l' km" if "l' \<in> list_heads m" "q \<in> set (?L l')" for l' q
    using maps_okD(3) [OF ok that(1), of q] that(2) km by (auto split: if_splits)
  moreover have "set (?L l1) \<inter> set (?L l2) = {}" if "l1 \<in> list_heads m" "l2 \<in> list_heads m" "l1 \<noteq> l2" for l1 l2
    using disj [OF that] new [OF that(1)] new [OF that(2)] that(3) by auto
  moreover have "q < os_next (mo_os ?m)" if "mo_maps ?m q \<noteq> None" for q using ok that by (simp add: maps_ok_def)
  ultimately have "maps_ok ?m ?L" unfolding maps_ok_def H using lists_ok by blast
  with lh show ?thesis by blast
qed


text \<open>
  What the documentation of the kernel says of \<open>get_user_pages\<close> for a positive number of pages: it pins
  some of them or returns an error.  The GPU driver makes one entry for each 64 KiB page asked for.
\<close>

definition api_documented :: "kapi \<Rightarrow> bool" where
  "api_documented api \<longleftrightarrow> (\<forall>v n c. n \<noteq> 0 \<longrightarrow> api_get_user_pages api v n c \<noteq> 0 \<and> api_get_user_pages api v n c \<le> int (unat n))
     \<and> (\<forall>n t. api_p2p_entries api (GPU_PAGE_SIZE * n) t \<le> unat n)"

lemma md_bytes_unat: "n \<noteq> 0 \<Longrightarrow> unat n < 2 ^ 60 \<Longrightarrow> unat (md_bytes n) = 72 + 8 * unat n"
proof -
  assume "n \<noteq> 0" "unat n < 2 ^ 60"
  have "md_bytes n = of_nat (72 + 8 * unat n)" by (simp add: md_bytes_def algebra_simps)
  moreover have "72 + 8 * unat n < 2 ^ LENGTH(64)" using \<open>unat n < 2 ^ 60\<close> by simp
  ultimately show ?thesis by (simp only: unat_of_nat_small)
qed

lemma malloc_next:
  "malloc s = (Some p, s') \<Longrightarrow> p = os_next s \<and> os_next s' = Suc (os_next s)"
  "malloc s = (None, s') \<Longrightarrow> os_next s' = os_next s"
  by (auto simp: malloc_def acquire_def grant_def sys_call_def Let_def split: if_splits)

lemma acquire_next: "acquire k s = (e, h, s') \<Longrightarrow> os_next s \<le> os_next s'"
  by (auto simp: acquire_def grant_def sys_call_def Let_def split: if_splits)

lemma pin_pages_spec:
  "pin_pages n s = (pgs, s') \<Longrightarrow>
   length pgs = n \<and> gains s s' (image_mset (Pair Page_ref) (mset pgs)) \<and> os_next s \<le> os_next s'"
proof (induction n arbitrary: s pgs)
  case 0
  then show ?case by simp
next
  case (Suc n)
  then obtain pg s1 pgs1 where 1: "grant Page_ref s = (pg, s1)" "pin_pages n s1 = (pgs1, s')" "pgs = pg # pgs1"
    by (auto split: prod.splits)
  from Suc.IH [OF 1(2)] gains_trans [OF grant_gains [OF 1(1)]] 1(1,3) show ?case
    by (auto simp: grant_def)
qed

lemma dma_map_loop_spec:
  "length acc + length pgs \<le> room \<Longrightarrow>
   \<exists>bs j s'. dma_map_loop api pdev room pgs acc s = Some (acc @ bs, length acc + j, s')
     \<and> j \<le> length bs \<and> j \<le> length pgs \<and> gains s s' (image_mset (\<lambda>a. (Dma_page, unat a)) (mset (take j bs)))
     \<and> os_next s' = os_next s \<and> (\<forall>a \<in> set (take j bs). api_dma_mapping_error api a = 0)
     \<and> (j < length pgs \<longrightarrow> j < length bs \<and> api_dma_mapping_error api (bs ! j) \<noteq> 0)"
proof (induction pgs arbitrary: acc s)
  case Nil
  then show ?case by (auto intro!: exI [of _ "[]"])
next
  case (Cons pg pgs)
  let ?a = "api_dma_map_page api pdev pg (os_calls s)" and ?s = "s\<lparr>os_calls := Suc (os_calls s)\<rparr>"
  show ?case
  proof (cases "api_dma_mapping_error api ?a = 0")
    case False
    then show ?thesis using Cons.prems
      by (intro exI [of _ "[?a]"] exI [of _ 0] exI [of _ ?s]) simp
  next
    case True
    let ?s1 = "?s\<lparr>os_live := add_mset (Dma_page, unat ?a) (os_live ?s)\<rparr>"
    from Cons.IH [of "acc @ [?a]" ?s1] Cons.prems obtain bs j s' where
      IH: "dma_map_loop api pdev room pgs (acc @ [?a]) ?s1 = Some (acc @ ?a # bs, length acc + Suc j, s')"
      "j \<le> length bs" "j \<le> length pgs" "gains ?s1 s' (image_mset (\<lambda>a. (Dma_page, unat a)) (mset (take j bs)))"
      "os_next s' = os_next s" "\<forall>a \<in> set (take j bs). api_dma_mapping_error api a = 0"
      "j < length pgs \<longrightarrow> j < length bs \<and> api_dma_mapping_error api (bs ! j) \<noteq> 0"
      by auto
    have "gains s ?s1 {#(Dma_page, unat ?a)#}" by (simp add: gains_def)
    from gains_trans [OF this IH(4)] IH True Cons.prems show ?thesis
      by (intro exI [of _ "?a # bs"] exI [of _ "Suc j"] exI [of _ s']) (simp add: Let_def)
  qed
qed

lemma kmalloc_map_spec:
  assumes "kmalloc_map n m = (r, m')"
  shows "mo_refs m' = mo_refs m" "mo_devs m' = mo_devs m" "mo_lists m' = mo_lists m"
    and "r = None \<Longrightarrow> mo_maps m' = mo_maps m \<and> gains (mo_os m) (mo_os m') {#} \<and> os_next (mo_os m') = os_next (mo_os m)"
    and "r = Some p \<Longrightarrow> p = os_next (mo_os m) \<and> os_next (mo_os m') = Suc p \<and> gains (mo_os m) (mo_os m') {#(Heap, p)#}
      \<and> (\<exists>km. mo_maps m' = (mo_maps m)(p \<mapsto> km) \<and> km_pages km = Unset \<and> km_mappings km = Unset
          \<and> km_room km = (unat (md_bytes n) - 72) div 8)"
  using assms malloc_next [of "mo_os m"] malloc_some [of "mo_os m"] malloc_none [of "mo_os m"]
  by (auto simp: kmalloc_map_def split: prod.splits option.splits)

lemma lock_user_pages_spec:
  assumes lock: "lock_user_pages api p v n m = (e, m')" and km: "mo_maps m p = Some km"
    and api: "api_documented api" "n \<noteq> 0"
  shows "mo_refs m' = mo_refs m \<and> mo_devs m' = mo_devs m \<and> mo_lists m' = mo_lists m \<and> os_next (mo_os m) \<le> os_next (mo_os m')
    \<and> (if e = 0 then \<exists>arr pgs. mo_maps m' = (mo_maps m)(p \<mapsto> km\<lparr>km_n_pages := Some (length pgs), km_pages := Ptr (Page_array arr pgs)\<rparr>)
         \<and> length pgs \<le> unat n \<and> gains (mo_os m) (mo_os m') ({#(Heap, arr)#} + image_mset (Pair Page_ref) (mset pgs))
       else mo_maps m' = mo_maps m \<and> gains (mo_os m) (mo_os m') {#})"
proof (cases "kcalloc n 8 (mo_os m)")
  case (Pair a s)
  show ?thesis
  proof (cases a)
    case None
    with Pair lock malloc_none [of "mo_os m" s] malloc_next(2) [of "mo_os m" s] show ?thesis
      by (auto simp: lock_user_pages_def kcalloc_def split: if_splits)
  next
    case (Some arr)
    with Pair have mal: "malloc (mo_os m) = (Some arr, s)" by (auto simp: kcalloc_def split: if_splits)
    define r where "r = api_get_user_pages api v n (os_calls s)"
    let ?s = "s\<lparr>os_calls := Suc (os_calls s)\<rparr>"
    have g: "gains (mo_os m) ?s {#(Heap, arr)#}" using gains_trans [OF malloc_some [OF mal] gains_calls] by simp
    have nx: "os_next (mo_os m) \<le> os_next ?s" using malloc_next(1) [OF mal] by simp
    have r: "r \<noteq> 0" "r \<le> int (unat n)" using api by (simp_all add: api_documented_def r_def)
    show ?thesis
    proof (cases "r \<le> 0")
      case True
      with lock Pair Some r(1) have "e \<noteq> 0" "m' = m\<lparr>mo_os := release Heap arr ?s\<rparr>"
        by (auto simp: lock_user_pages_def Let_def r_def)
      then show ?thesis using release_undo [of "mo_os m" ?s "{#}" Heap arr] g nx by simp
    next
      case False
      obtain pgs s' where pin: "pin_pages (nat r) ?s = (pgs, s')" by fastforce
      note ps = pin_pages_spec [OF pin]
      have "e = 0" "m' = set_map p (\<lambda>km. km\<lparr>km_n_pages := Some (nat r), km_pages := Ptr (Page_array arr pgs)\<rparr>) (m\<lparr>mo_os := s'\<rparr>)"
        using lock Pair Some False pin by (auto simp: lock_user_pages_def Let_def r_def)
      moreover have "gains (mo_os m) s' ({#(Heap, arr)#} + image_mset (Pair Page_ref) (mset pgs))"
        using gains_trans [OF g] ps by blast
      moreover have "nat r \<le> unat n" using r(2) by linarith
      ultimately show ?thesis using ps nx km
        by (auto simp: set_map_def intro!: exI [of _ arr] exI [of _ pgs])
    qed
  qed
qed


text \<open>
  The outcome of mapping on behalf of reference \<open>i\<close> under the address \<open>v\<close>: a failure leaves everything as
  it was; a success holds exactly what the descriptor says, and the descriptor is on the list unless
  its address is 0.
\<close>

definition maps_outcome ::
  "kmodule \<Rightarrow> (mptr \<Rightarrow> nat list) \<Rightarrow> mptr \<Rightarrow> u64 \<Rightarrow> (kmap \<Rightarrow> bool) \<Rightarrow> (int \<times> nat option \<times> kmodule) option \<Rightarrow> bool" where
  "maps_outcome m L l v P r \<longleftrightarrow> (\<exists>e q m'. r = Some (e, q, m') \<and> mo_refs m' = mo_refs m \<and> mo_devs m' = mo_devs m \<and>
     (if e \<noteq> 0 then q = None \<and> mo_maps m' = mo_maps m \<and> gains (mo_os m) (mo_os m') {#} \<and> maps_ok m' L
      else \<exists>p km. q = Some p \<and> mo_maps m p = None \<and> mo_maps m' = (mo_maps m)(p \<mapsto> km) \<and> md_kind l km \<and> P km
        \<and> gains (mo_os m) (mo_os m') (kmap_res p km) \<and> key (mo_lists m') (Md p) = v
        \<and> maps_ok m' (if v = 0 then L else L(l := ins_map (mo_lists m') p (L l)))))"

text \<open>The end of both functions: the complete descriptor goes on the list, whatever \<open>list_insert\<close> answers.\<close>

lemma map_finish:
  assumes ok: "maps_ok m L" and l: "l \<in> list_heads m" and new: "mo_maps m p = None" "p < os_next (mo_os m')"
    and refs: "mo_refs m' = mo_refs m" "mo_devs m' = mo_devs m"
    and m': "mo_maps m' = (mo_maps m)(p \<mapsto> km)" "mo_lists m' = list_init (Md p) v (mo_lists m)"
    and km: "md_kind l km" "P km" and g: "gains (mo_os m) (mo_os m') (kmap_res p km)" "os_next (mo_os m) \<le> os_next (mo_os m')"
  shows "maps_outcome m L l v P (do { (_, lh) \<leftarrow> list_insert l (Md p) (mo_lists m'); Some (0, Some p, m'\<lparr>mo_lists := lh\<rparr>) })"
proof -
  have out: "p \<notin> set (L l')" if "l' \<in> list_heads m" for l' using maps_okD(3) [OF ok that] new(1) by fastforce
  have H: "list_heads m' = list_heads m" by (rule list_heads_cong) (simp add: refs)
  have ok': "maps_ok m' L"
  proof (rule maps_ok_frame [OF ok _ _ _ g(1)])
    fix l' q assume "l' \<in> list_heads m" "q \<in> set (L l')"
    with out have "q \<noteq> p" by blast
    then show "mo_maps m' q = mo_maps m q \<and> mo_lists m' (Md q) = mo_lists m (Md q)" by (simp add: m' list_init_def)
  next
    fix q assume "mo_maps m' q \<noteq> None"
    then show "q < os_next (mo_os m')" using new(2) g(2) ok by (auto simp: m' maps_ok_def split: if_splits dest: spec [of _ q])
  next
    fix l' assume "l' \<in> list_heads m"
    then have "l' \<noteq> Md p" by auto
    then show "mo_lists m' l' = mo_lists m l'" by (simp add: m' list_init_def)
  qed (simp add: refs)
  have n: "mo_lists m' (Md p) = Some \<lparr>ln_next = None, ln_prev = None, ln_vaddr = v\<rparr>" by (simp add: m' list_init_def)
  have k: "key (mo_lists m') (Md p) = v" by (simp add: key_def n)
  show ?thesis
  proof (cases "v = 0")
    case True
    have "list_insert l (Md p) (mo_lists m') = Some (- EEXIST, mo_lists m')"
      using maplist.ins_zero [OF maps_okD(1) [OF ok'], of l "Md p"] l H n k True by simp
    with True ok' k km g(1) refs new(1) show ?thesis by (auto simp: maps_outcome_def m'(1))
  next
    case False
    have "maps_held m' L = maps_held m L" by (rule maps_held_frame) (use out in \<open>auto simp: refs m'(1)\<close>)
    then have held: "maps_held m' L + kmap_res p km \<subseteq># os_live (mo_os m')" using ok g(1) by (simp add: maps_ok_def gains_def)
    from maps_ok_add [OF ok' _ _ km(1) _ n _ held] l H out False obtain k' lh where
      lh: "list_insert l (Md p) (mo_lists m') = Some (k', lh)" "key lh = key (mo_lists m')"
        "maps_ok (m'\<lparr>mo_lists := lh\<rparr>) (L(l := ins_map (mo_lists m') p (L l)))"
      by (auto simp: m'(1) word_gt_0)
    moreover have "ins_map (mo_lists m') p (L l) = ins_map lh p (L l)" using lh(2) by (simp add: ins_map_def)
    ultimately show ?thesis using False k km g(1) refs new(1) by (auto simp: maps_outcome_def m'(1))
  qed
qed

lemma map_undo:
  assumes ok: "maps_ok m L" and new: "p = os_next (mo_os m)"
    and refs: "mo_refs m' = mo_refs m" "mo_devs m' = mo_devs m"
    and m': "mo_maps m' = (mo_maps m)(p \<mapsto> km)" "mo_lists m' = list_init (Md p) v (mo_lists m)"
    and g: "gains (mo_os m) (mo_os m') {#(Heap, p)#}" "os_next (mo_os m) \<le> os_next (mo_os m')" and e: "e \<noteq> 0"
  shows "maps_outcome m L l w P (Some (e, None, kfree_map p m'))"
proof -
  let ?m = "kfree_map p m'"
  have none: "mo_maps m p = None" using ok new by (auto simp: maps_ok_def dest: spec [of _ p])
  have g': "gains (mo_os m) (mo_os ?m) {#}" using release_undo [of "mo_os m" "mo_os m'" "{#}"] g(1) by (simp add: kfree_map_def)
  have "maps_ok ?m L"
  proof (rule maps_ok_frame [OF ok _ _ _ g'])
    fix l' q assume "l' \<in> list_heads m" "q \<in> set (L l')"
    then have "q \<noteq> p" using maps_okD(3) [OF ok] none by fastforce
    then show "mo_maps ?m q = mo_maps m q \<and> mo_lists ?m (Md q) = mo_lists m (Md q)" by (simp add: kfree_map_def m' list_init_def)
  next
    fix q assume "mo_maps ?m q \<noteq> None"
    then have "mo_maps m q \<noteq> None" by (simp add: kfree_map_def m'(1) split: if_splits)
    then have "q < os_next (mo_os m)" using ok by (simp add: maps_ok_def)
    then show "q < os_next (mo_os ?m)" using g(2) by (simp add: kfree_map_def)
  next
    fix l' assume "l' \<in> list_heads m"
    then have "l' \<noteq> Md p" by auto
    then show "mo_lists ?m l' = mo_lists m l'" by (simp add: kfree_map_def m' list_init_def)
  qed (simp add: refs kfree_map_def)
  moreover have "mo_maps ?m = mo_maps m" using none by (auto simp: kfree_map_def m'(1) fun_eq_iff)
  ultimately show ?thesis using e g' refs by (simp add: maps_outcome_def kfree_map_def)
qed


lemma map_no_memory:
  assumes ok: "maps_ok m L" and none: "kmalloc_map n m = (None, m1)"
  shows "maps_outcome m L l v P (Some (- ENOMEM, None, m1))"
proof -
  from kmalloc_map_spec [OF none] have "mo_maps m1 = mo_maps m" "gains (mo_os m) (mo_os m1) {#}"
    "os_next (mo_os m1) = os_next (mo_os m)" "mo_refs m1 = mo_refs m" "mo_devs m1 = mo_devs m" "mo_lists m1 = mo_lists m" by auto
  moreover then have "maps_ok m1 L"
    by (intro maps_ok_frame [OF ok, where r = "{#}"]) (use ok in \<open>auto simp: maps_ok_def\<close>)
  ultimately show ?thesis by (simp add: maps_outcome_def)
qed

text \<open>
  User pages: the bus addresses counted are those mapped without an error, and fewer than the pinned
  pages are counted only when mapping the next one failed.
\<close>

definition user_addrs_ok :: "kapi \<Rightarrow> u64 \<Rightarrow> kmap \<Rightarrow> bool" where
  "user_addrs_ok api n km \<longleftrightarrow> (case (km_n_addrs km, km_n_pages km) of
      (Some k, Some pages) \<Rightarrow> k \<le> length (km_addrs km) \<and> k \<le> pages \<and> pages \<le> unat n \<and> (\<forall>a \<in> set (take k (km_addrs km)). api_dma_mapping_error api a = 0)
        \<and> (k < pages \<longrightarrow> k < length (km_addrs km) \<and> api_dma_mapping_error api (km_addrs km ! k) \<noteq> 0)
    | _ \<Rightarrow> False)"

lemma map_user_pages_spec:
  assumes ok: "maps_ok m L" and i: "i < length (mo_refs m)" and dev: "rf_ctrl (mo_refs m ! i) = Some d" "cd_pdev (mo_devs m ! d) = Some pdev"
    and n: "n \<noteq> 0" "unat n < 2 ^ 60" and api: "api_documented api"
  shows "maps_outcome m L (User_list i) (vaddr AND PAGE_MASK) (user_addrs_ok api n) (map_user_pages api i vaddr n m)"
proof -
  have n1: "\<not> n < 1" using n(1) by (simp add: word_less_nat_alt unat_eq_zero)
  have bytes: "unat (md_bytes n) = 72 + 8 * unat n" by (rule md_bytes_unat [OF n])
  let ?v = "vaddr AND PAGE_MASK"
  obtain r m1 where km1: "kmalloc_map n m = (r, m1)" by fastforce
  show ?thesis
  proof (cases r)
    case None
    with map_no_memory [OF ok] km1 n1 show ?thesis by (simp add: map_user_pages_def)
  next
    case (Some p)
    note sp = kmalloc_map_spec(1-3) [OF km1] kmalloc_map_spec(5) [OF km1 Some]
    from sp(4) obtain km where km: "mo_maps m1 = (mo_maps m)(p \<mapsto> km)" "km_pages km = Unset" "km_mappings km = Unset"
      "km_room km = unat n" and p: "p = os_next (mo_os m)" "os_next (mo_os m1) = Suc p" "gains (mo_os m) (mo_os m1) {#(Heap, p)#}"
      using bytes by auto
    have none: "mo_maps m p = None" using ok p(1) by (auto simp: maps_ok_def dest: spec [of _ p])
    define m2 where "m2 = (set_map p (\<lambda>km. km\<lparr>km_page_size := PAGE_SIZE\<rparr>) m1)\<lparr>mo_lists := list_init (Md p) ?v (mo_lists m1)\<rparr>"
    let ?km = "km\<lparr>km_page_size := PAGE_SIZE\<rparr>"
    have m2: "mo_maps m2 = (mo_maps m)(p \<mapsto> ?km)" "mo_lists m2 = list_init (Md p) ?v (mo_lists m)"
      "mo_refs m2 = mo_refs m" "mo_devs m2 = mo_devs m" "mo_os m2 = mo_os m1"
      using sp km(1) by (simp_all add: m2_def set_map_def)
    obtain e m3 where lock: "lock_user_pages api p ?v n m2 = (e, m3)" by fastforce
    note ls = lock_user_pages_spec [OF lock _ api n(1), of ?km]
    show ?thesis
    proof (cases "e = 0")
      case False
      with ls m2 p have "maps_outcome m L (User_list i) ?v (user_addrs_ok api n) (Some (e, None, kfree_map p m3))"
        by (intro map_undo [OF ok p(1), where km = ?km and v = ?v]) (auto intro: gains_trans [where r' = "{#}", simplified])
      then show ?thesis using Some km1 lock False n1 bytes by (simp add: map_user_pages_def Let_def m2_def)
    next
      case True
      with ls m2 obtain arr pgs where lk: "mo_refs m3 = mo_refs m" "mo_devs m3 = mo_devs m" "mo_lists m3 = mo_lists m2"
        "os_next (mo_os m1) \<le> os_next (mo_os m3)"
        "mo_maps m3 = (mo_maps m)(p \<mapsto> ?km\<lparr>km_n_pages := Some (length pgs), km_pages := Ptr (Page_array arr pgs)\<rparr>)"
        "length pgs \<le> unat n" "gains (mo_os m1) (mo_os m3) ({#(Heap, arr)#} + image_mset (Pair Page_ref) (mset pgs))"
        by auto
      from dma_map_loop_spec [of "[]" pgs "unat n" api pdev "mo_os m3"] lk(6) obtain bs j s where
        loop: "dma_map_loop api pdev (unat n) pgs [] (mo_os m3) = Some (bs, j, s)" "j \<le> length bs" "j \<le> length pgs"
          "gains (mo_os m3) s (image_mset (\<lambda>a. (Dma_page, unat a)) (mset (take j bs)))" "os_next s = os_next (mo_os m3)"
          "\<forall>a \<in> set (take j bs). api_dma_mapping_error api a = 0"
          "j < length pgs \<longrightarrow> j < length bs \<and> api_dma_mapping_error api (bs ! j) \<noteq> 0"
        by auto
      define k4 where "k4 = ?km\<lparr>km_n_pages := Some (length pgs), km_pages := Ptr (Page_array arr pgs),
        km_pdev := Some pdev, km_addrs := bs, km_n_addrs := Some j\<rparr>"
      define m4 where "m4 = m3\<lparr>mo_os := s, mo_maps := (mo_maps m)(p \<mapsto> k4)\<rparr>"
      have "gains (mo_os m) s (kmap_res p k4)"
        using gains_trans [OF gains_trans [OF p(3) lk(7)] loop(4)] km(3)
        by (simp add: k4_def kmap_res_def ac_simps)
      then have "maps_outcome m L (User_list i) ?v (user_addrs_ok api n)
          (do { (_, lh) \<leftarrow> list_insert (User_list i) (Md p) (mo_lists m4); Some (0, Some p, m4\<lparr>mo_lists := lh\<rparr>) })"
        using lk loop p i none km
        by (intro map_finish [OF ok, where km = k4]) (auto simp: m4_def k4_def m2 md_kind_def user_map_def user_addrs_ok_def)
      moreover have sm: "set_map p (\<lambda>km. km\<lparr>km_pdev := Some pdev, km_addrs := bs, km_n_addrs := Some j\<rparr>) (m3\<lparr>mo_os := s\<rparr>) = m4"
        by (simp add: set_map_def m4_def k4_def lk(5))
      moreover have "map_user_pages api i vaddr n m =
          (do { (_, lh) \<leftarrow> list_insert (User_list i) (Md p) (mo_lists m4); Some (0, Some p, m4\<lparr>mo_lists := lh\<rparr>) })"
        using Some km1 lock [unfolded m2_def] True n1 bytes lk loop(1) dev km(4)
        by (simp add: map_user_pages_def Let_def sm) (simp add: m4_def)
      ultimately show ?thesis by simp
    qed
  qed
qed


text \<open>GPU memory: one address for each entry of the page table.\<close>

definition gpu_addrs_ok :: "kapi \<Rightarrow> u64 \<Rightarrow> kmap \<Rightarrow> bool" where
  "gpu_addrs_ok api n km \<longleftrightarrow> (case (km_pages km, km_mappings km) of
      (Ptr (Page_table t), Ptr h) \<Rightarrow> km_addrs km = map (api_p2p_address api h) [0..<api_p2p_entries api (GPU_PAGE_SIZE * n) t]
        \<and> km_n_addrs km = Some (api_p2p_entries api (GPU_PAGE_SIZE * n) t) \<and> km_n_pages km = km_n_addrs km
    | _ \<Rightarrow> False)"

lemma map_gpu_memory_spec:
  assumes ok: "maps_ok m L" and i: "i < length (mo_refs m)" and dev: "rf_ctrl (mo_refs m ! i) = Some d"
    and n: "n \<noteq> 0" "unat n < 2 ^ 60" and api: "api_documented api"
  shows "maps_outcome m L (Gpu_list i) (vaddr AND GPU_PAGE_MASK) (gpu_addrs_ok api n) (map_gpu_memory api i vaddr n m)"
proof -
  have n1: "\<not> n < 1" using n(1) by (simp add: word_less_nat_alt unat_eq_zero)
  have bytes: "unat (md_bytes n) = 72 + 8 * unat n" by (rule md_bytes_unat [OF n])
  let ?v = "vaddr AND GPU_PAGE_MASK"
  obtain r m1 where km1: "kmalloc_map n m = (r, m1)" by fastforce
  show ?thesis
  proof (cases r)
    case None
    with map_no_memory [OF ok] km1 n1 show ?thesis by (simp add: map_gpu_memory_def)
  next
    case (Some p)
    note sp = kmalloc_map_spec(1-3) [OF km1] kmalloc_map_spec(5) [OF km1 Some]
    from sp(4) obtain km where km: "mo_maps m1 = (mo_maps m)(p \<mapsto> km)" "km_room km = unat n"
      and p: "p = os_next (mo_os m)" "os_next (mo_os m1) = Suc p" "gains (mo_os m) (mo_os m1) {#(Heap, p)#}"
      using bytes by auto
    have none: "mo_maps m p = None" using ok p(1) by (auto simp: maps_ok_def dest: spec [of _ p])
    define m2 where "m2 = (set_map p (\<lambda>km. km\<lparr>km_page_size := GPU_PAGE_SIZE, km_pdev := cd_pdev (mo_devs m1 ! d)\<rparr>) m1)
      \<lparr>mo_lists := list_init (Md p) ?v (mo_lists m1)\<rparr>"
    let ?km = "km\<lparr>km_page_size := GPU_PAGE_SIZE, km_pdev := cd_pdev (mo_devs m1 ! d)\<rparr>"
    have m2: "mo_maps m2 = (mo_maps m)(p \<mapsto> ?km)" "mo_lists m2 = list_init (Md p) ?v (mo_lists m)"
      "mo_refs m2 = mo_refs m" "mo_devs m2 = mo_devs m" "mo_os m2 = mo_os m1"
      using sp km(1) by (simp_all add: m2_def set_map_def)
    have undo: "maps_outcome m L (Gpu_list i) ?v (gpu_addrs_ok api n) (Some (e, None, kfree_map p (m2\<lparr>mo_os := s\<rparr>)))"
      if "gains (mo_os m1) s {#}" "os_next (mo_os m1) \<le> os_next s" "e \<noteq> 0" for e s
      using that m2 p by (intro map_undo [OF ok p(1), where km = ?km and v = ?v])
        (auto intro: gains_trans [where r' = "{#}", simplified])
    obtain e1 t s1 where tab: "acquire P2p_table (mo_os m1) = (e1, t, s1)" by (metis prod_cases3)
    have entries: "api_p2p_entries api (GPU_PAGE_SIZE * n) t \<le> unat n" using api by (simp add: api_documented_def)
    obtain e2 h s2 where mp: "acquire P2p_mapping s1 = (e2, h, s2)" by (metis prod_cases3)
    note nx = acquire_next [OF tab] acquire_next [OF mp]
    have eq: "map_gpu_memory api i vaddr n m =
        (if e1 \<noteq> 0 then Some (e1, None, kfree_map p (m2\<lparr>mo_os := s1\<rparr>))
         else if e2 \<noteq> 0 then Some (e2, None, kfree_map p (m2\<lparr>mo_os := release P2p_table t s2\<rparr>))
         else do { let m4 = set_map p (\<lambda>km. km\<lparr>km_pages := Ptr (Page_table t), km_mappings := Ptr h,
                      km_n_pages := Some (api_p2p_entries api (GPU_PAGE_SIZE * n) t), km_addrs := map (api_p2p_address api h) [0..<api_p2p_entries api (GPU_PAGE_SIZE * n) t],
                      km_n_addrs := Some (api_p2p_entries api (GPU_PAGE_SIZE * n) t)\<rparr>) (m2\<lparr>mo_os := s2\<rparr>);
                   (_, lh) \<leftarrow> list_insert (Gpu_list i) (Md p) (mo_lists m4);
                   Some (0, Some p, m4\<lparr>mo_lists := lh\<rparr>) })"
      using Some km1 n1 bytes dev sp(1) tab mp m2(1) km(2) entries
      by (simp add: map_gpu_memory_def Let_def m2_def [symmetric] m2(5))
    consider (tab) "e1 \<noteq> 0" | (mp) "e1 = 0" "e2 \<noteq> 0" | (ok) "e1 = 0" "e2 = 0" by blast
    then show ?thesis
    proof cases
      case tab
      with undo [OF acquire_err [OF \<open>acquire P2p_table (mo_os m1) = (e1, t, s1)\<close>] nx(1)] show ?thesis by (simp add: eq)
    next
      case mp
      have "gains (mo_os m1) s2 {#(P2p_table, t)#}"
        using gains_trans [OF acquire_ok acquire_err] tab \<open>acquire P2p_mapping s1 = (e2, h, s2)\<close> mp by fastforce
      then have "gains (mo_os m1) (release P2p_table t s2) {#}" using release_undo [of _ _ "{#}"] by simp
      with undo [of "release P2p_table t s2" e2] nx mp show ?thesis by (simp add: eq)
    next
      case ok
      have g: "gains (mo_os m1) s2 ({#(P2p_table, t)#} + {#(P2p_mapping, h)#})"
        using gains_trans [OF acquire_ok acquire_ok] tab mp ok by blast
      define k4 where "k4 = ?km\<lparr>km_pages := Ptr (Page_table t), km_mappings := Ptr h,
        km_n_pages := Some (api_p2p_entries api (GPU_PAGE_SIZE * n) t), km_addrs := map (api_p2p_address api h) [0..<api_p2p_entries api (GPU_PAGE_SIZE * n) t],
        km_n_addrs := Some (api_p2p_entries api (GPU_PAGE_SIZE * n) t)\<rparr>"
      define m4 where "m4 = m2\<lparr>mo_os := s2, mo_maps := (mo_maps m)(p \<mapsto> k4)\<rparr>"
      have "gains (mo_os m) s2 (kmap_res p k4)"
        using gains_trans [OF p(3) g] by (simp add: k4_def kmap_res_def ac_simps)
      then have "maps_outcome m L (Gpu_list i) ?v (gpu_addrs_ok api n)
          (do { (_, lh) \<leftarrow> list_insert (Gpu_list i) (Md p) (mo_lists m4); Some (0, Some p, m4\<lparr>mo_lists := lh\<rparr>) })"
        using p i none nx
        by (intro map_finish [OF assms(1), where km = k4]) (auto simp: m4_def k4_def m2 md_kind_def gpu_map_def gpu_addrs_ok_def)
      moreover have "set_map p (\<lambda>km. km\<lparr>km_pages := Ptr (Page_table t), km_mappings := Ptr h,
          km_n_pages := Some (api_p2p_entries api (GPU_PAGE_SIZE * n) t), km_addrs := map (api_p2p_address api h) [0..<api_p2p_entries api (GPU_PAGE_SIZE * n) t],
          km_n_addrs := Some (api_p2p_entries api (GPU_PAGE_SIZE * n) t)\<rparr>) (m2\<lparr>mo_os := s2\<rparr>) = m4"
        by (simp add: set_map_def m4_def k4_def m2)
      ultimately show ?thesis unfolding eq Let_def using ok by simp
    qed
  qed
qed


subsection \<open>GPU memory that goes away\<close>

text \<open>After the callback the descriptor is still on its list, but holds its own block only.\<close>

lemma free_callback_spec:
  assumes ok: "maps_ok m L" and l: "i < length (mo_refs m)" and p: "p \<in> set (L (Gpu_list i))"
    and km: "mo_maps m p = Some km" "km_pages km = Ptr (Page_table t)"
  shows "\<exists>m'. free_callback p m = Some m' \<and> mo_refs m' = mo_refs m \<and> mo_devs m' = mo_devs m \<and> maps_ok m' L
    \<and> dom (mo_maps m') = dom (mo_maps m) \<and> md_res m' p = {#(Heap, p)#} \<and> maps_held m L = (md_res m p - {#(Heap, p)#}) + maps_held m' L
    \<and> gains (mo_os m') (mo_os m) (md_res m p - {#(Heap, p)#})"
proof -
  let ?l = "Gpu_list i"
  have lh: "?l \<in> list_heads m" using l by simp
  have gpu: "gpu_map km" using maps_okD(3) [OF ok lh p] km(1) by (auto simp: md_kind_def)
  define ms where "ms = (case km_mappings km of Ptr h \<Rightarrow> [h] | _ \<Rightarrow> [])"
  define s1 where "s1 = release P2p_table t (mo_os m)"
  define s2 where "s2 = fold (\<lambda>a. release P2p_mapping a) ms s1"
  let ?M = "image_mset (\<lambda>a. (P2p_mapping, a)) (mset ms)" and ?R = "maps_held m (L(?l := remove1 p (L ?l)))"
  define m' where "m' = set_map p (\<lambda>km. km\<lparr>km_pages := Null, km_mappings := Null\<rparr>) (m\<lparr>mo_os := s2\<rparr>)"
  have res: "md_res m p = {#(P2p_table, t)#} + (?M + {#(Heap, p)#})"
    using km by (auto simp: md_res_def kmap_res_def ms_def split: cell.splits)
  have "{#(P2p_table, t)#} + (?M + ({#(Heap, p)#} + ?R)) \<subseteq># os_live (mo_os m)"
    using ok maps_held_remove [of ?l m p L] lh p unfolding maps_ok_def res by (simp add: ac_simps)
  note 1 = release_gains_step [OF this, folded s1_def]
  note 2 = fold_release_gains [OF conjunct2 [OF 1], folded s2_def]
  have g: "gains s2 (mo_os m) (md_res m p - {#(Heap, p)#})"
    using gains_trans [OF conjunct1 [OF 2] conjunct1 [OF 1]] unfolding res by simp
  have m': "mo_maps m' = (mo_maps m)(p \<mapsto> km\<lparr>km_pages := Null, km_mappings := Null\<rparr>)" "mo_os m' = s2"
    "mo_refs m' = mo_refs m" "mo_lists m' = mo_lists m"
    using km(1) by (simp_all add: m'_def set_map_def)
  have res': "md_res m' p = {#(Heap, p)#}" by (simp add: md_res_def kmap_res_def m')
  have H: "list_heads m' = list_heads m" by (rule list_heads_cong) (simp add: m')
  note out = maps_ok_out [OF ok lh, of p, OF p]
  have "maps_held m' (L(?l := remove1 p (L ?l))) = ?R"
    by (rule maps_held_frame) (simp add: m', metis out m'(1) fun_upd_other)
  then have eq: "maps_held m' L = {#(Heap, p)#} + ?R" using maps_held_remove [of ?l m' p L] lh p H res' by simp
  then have held: "maps_held m' L \<subseteq># os_live (mo_os m')" using conjunct2 [OF 2] by (simp add: m'(2))
  have eq': "maps_held m L = (md_res m p - {#(Heap, p)#}) + maps_held m' L"
    using maps_held_remove [of ?l m p L] lh p unfolding eq res by (simp add: ac_simps)
  have kinds: "\<exists>km. mo_maps m' q = Some km \<and> md_kind l' km" if "l' \<in> list_heads m" "q \<in> set (L l')" for l' q
  proof (cases "q = p")
    case True
    then have "l' = ?l" using out [OF that(1)] that(2) by (metis fun_upd_other)
    then show ?thesis using True by (simp add: m' md_kind_def gpu_map_def)
  next
    case False
    then show ?thesis using maps_okD(3) [OF ok that] by (simp add: m')
  qed
  have nx: "q < os_next (mo_os m')" if "mo_maps m' q \<noteq> None" for q
  proof -
    have "mo_maps m q \<noteq> None" using that km(1) by (auto simp: m' split: if_splits)
    then show ?thesis using ok by (simp add: maps_ok_def m' s2_def s1_def)
  qed
  have "maps_ok m' L" unfolding maps_ok_def H m'(4) using held kinds nx ok by (simp add: maps_ok_def)
  moreover have "free_callback p m = Some m'"
    using km gpu by (auto simp: free_callback_def m'_def s2_def s1_def ms_def gpu_map_def Let_def split: cell.splits)
  moreover have "mo_devs m' = mo_devs m" "dom (mo_maps m') = dom (mo_maps m)" using km(1) by (auto simp: m'_def set_map_def)
  ultimately show ?thesis using g res' m' eq' by auto
qed


section \<open>Properties\<close>

lemma maps_outcomeE:
  assumes "maps_outcome m L l v P r"
  obtains (err) e m' where "r = Some (e, None, m')" "e \<noteq> 0" "gains (mo_os m) (mo_os m') {#}" "maps_ok m' L"
      "mo_refs m' = mo_refs m" "mo_devs m' = mo_devs m" "mo_maps m' = mo_maps m"
  | (ok) p km m' where "r = Some (0, Some p, m')" "mo_maps m p = None" "mo_maps m' p = Some km" "P km"
      "gains (mo_os m) (mo_os m') (kmap_res p km)" "key (mo_lists m') (Md p) = v" "mo_refs m' = mo_refs m"
      "maps_ok m' (if v = 0 then L else L(l := ins_map (mo_lists m') p (L l)))" "mo_devs m' = mo_devs m"
      "mo_maps m' = (mo_maps m)(p \<mapsto> km)"
  using assms by (auto simp: maps_outcome_def split: if_splits)

lemma ins_map_undo: "p \<notin> set ps \<Longrightarrow> remove1 p (ins_map h p ps) = ps"
  by (induction ps) (auto simp: ins_map_def)

lemma find_ins_map:
  "find (\<lambda>q. key h q = key h (Md p)) (map Md (ins_map h p ps)) = Some (Md p)"
  by (induction ps) (auto simp: ins_map_def)

text \<open>
  A mapping that was made is found again under any address of its first page, and dropping it leaves
  every list, every other mapping and the ledger as they were.
\<close>

lemma map_drop:
  assumes ok: "maps_ok m L" and l: "l \<in> list_heads m" and r: "maps_outcome m L l v P r" and v: "v \<noteq> 0"
    and unmap: "\<And>m L p. maps_ok m L \<Longrightarrow> l \<in> list_heads m \<Longrightarrow> p \<in> set (L l) \<Longrightarrow> \<exists>m'. unmap p m = Some m' \<and> drops m L l p m'"
  shows "\<exists>e q m1. r = Some (e, q, m1) \<and> (if e \<noteq> 0 then q = None \<and> gains (mo_os m) (mo_os m1) {#}
    else \<exists>p m2. q = Some p \<and> list_find l v (mo_lists m1) = Some (Some (Md p)) \<and> unmap p m1 = Some m2
      \<and> maps_ok m2 L \<and> gains (mo_os m) (mo_os m2) {#})"
  using r
proof (cases rule: maps_outcomeE)
  case (ok p km m1)
  let ?L = "L(l := ins_map (mo_lists m1) p (L l))"
  have H: "l \<in> list_heads m1" using l list_heads_cong [of m1 m] ok(7) by simp
  have ok1: "maps_ok m1 ?L" using ok(8) v by simp
  have p: "p \<in> set (?L l)" by simp
  have np: "p \<notin> set (L l)" using maps_okD(3) [OF assms(1) l] ok(2) by fastforce
  from unmap [OF ok1 H p] obtain m2 where m2: "unmap p m1 = Some m2" "drops m1 ?L l p m2" by blast
  have "?L(l := remove1 p (?L l)) = L" using np by (simp add: ins_map_undo)
  then have d: "maps_ok m2 L" "gains (mo_os m2) (mo_os m1) (md_res m1 p)" using m2(2) by (simp_all add: drops_def)
  have "gains (mo_os m) (mo_os m2) {#}" using gains_undo [OF ok(5)] d(2) ok(3) by (simp add: md_res_def)
  moreover have "list_find l v (mo_lists m1) = Some (Some (Md p))"
    using maplist.look_law [OF maps_okD(1) [OF ok1 H], of v] find_ins_map [of "mo_lists m1" p "L l"] ok(6) by simp
  ultimately show ?thesis using ok(1) m2(1) d(1) by simp
qed auto

text \<open>
  C18: \<open>map_user_pages\<close>, for a range of at least one page that does not start in page 0, returns.  After an error no descriptor is left and nothing is held.  After a
  success \<open>find_user_page_map\<close> finds the descriptor under the address, and \<open>unmap_user_pages\<close> of it
  gives back every page reference, DMA mapping and block and leaves all lists and mappings as they
  were before.
\<close>

theorem user_pages_round_trip:
  assumes "maps_ok m L" "ref < length (mo_refs m)"
    and "rf_ctrl (mo_refs m ! ref) = Some dev" "cd_pdev (mo_devs m ! dev) = Some pdev"
    and "n_pages \<noteq> 0" "unat n_pages < 2 ^ 60" "vaddr AND PAGE_MASK \<noteq> 0" "api_documented api"
  shows "\<exists>e q m1. map_user_pages api ref vaddr n_pages m = Some (e, q, m1) \<and>
    (if e \<noteq> 0 then q = None \<and> gains (mo_os m) (mo_os m1) {#}
     else \<exists>p m2. q = Some p \<and> find_user_page_map ref vaddr m1 = Some (Some p) \<and> unmap_user_pages p m1 = Some m2
       \<and> maps_ok m2 L \<and> gains (mo_os m) (mo_os m2) {#})"
proof -
  have l: "User_list ref \<in> list_heads m" using assms(2) by simp
  show ?thesis
    using map_drop [OF assms(1) l map_user_pages_spec [OF assms(1-6) assms(8), of vaddr] assms(7), of unmap_user_pages]
      unmap_user_pages_drops
    by (fastforce simp: find_user_page_map_def md_cast_def md_of_def)
qed

text \<open>
  The same for GPU memory: \<open>map_gpu_memory\<close> returns, an error leaves nothing behind, and a mapping
  that was made is found by \<open>find_gpu_map\<close> and undone by \<open>unmap_gpu_memory\<close>.
\<close>

theorem gpu_memory_round_trip:
  assumes "maps_ok m L" "ref < length (mo_refs m)" "rf_ctrl (mo_refs m ! ref) = Some dev"
    and "n_pages \<noteq> 0" "unat n_pages < 2 ^ 60" "vaddr AND GPU_PAGE_MASK \<noteq> 0" "api_documented api"
  shows "\<exists>e q m1. map_gpu_memory api ref vaddr n_pages m = Some (e, q, m1) \<and>
    (if e \<noteq> 0 then q = None \<and> gains (mo_os m) (mo_os m1) {#}
     else \<exists>p m2. q = Some p \<and> find_gpu_map ref vaddr m1 = Some (Some p) \<and> unmap_gpu_memory p m1 = Some m2
       \<and> maps_ok m2 L \<and> gains (mo_os m) (mo_os m2) {#})"
proof -
  have l: "Gpu_list ref \<in> list_heads m" using assms(2) by simp
  show ?thesis
    using map_drop [OF assms(1) l map_gpu_memory_spec [OF assms(1-5) assms(7), of vaddr] assms(6), of unmap_gpu_memory]
      unmap_gpu_memory_drops
    by (fastforce simp: find_gpu_map_def md_cast_def md_of_def)
qed


text \<open>
  When the driver takes GPU memory away while it is mapped, \<open>free_callback\<close> gives back the page
  table and the mapping, and unmapping or dropping the descriptor later gives back the block only:
  nothing is released twice.
\<close>

theorem gpu_callback_released_once:
  assumes "maps_ok m L" "ref < length (mo_refs m)" "p \<in> set (L (Gpu_list ref))"
    and "mo_maps m p = Some km" "km_pages km = Ptr (Page_table t)"
  shows "\<exists>m1 m2. free_callback p m = Some m1 \<and> unmap_gpu_memory p m1 = Some m2
    \<and> maps_ok m2 (L(Gpu_list ref := remove1 p (L (Gpu_list ref))))
    \<and> gains (mo_os m2) (mo_os m1) {#(Heap, p)#} \<and> gains (mo_os m2) (mo_os m) (md_res m p)"
proof -
  from free_callback_spec [OF assms] obtain m1 where m1: "free_callback p m = Some m1" "mo_refs m1 = mo_refs m"
    "maps_ok m1 L" "md_res m1 p = {#(Heap, p)#}" "gains (mo_os m1) (mo_os m) (md_res m p - {#(Heap, p)#})" by blast
  from unmap_gpu_memory_drops [OF m1(3), of ref p] assms(2,3) m1(2) obtain m2 where
    m2: "unmap_gpu_memory p m1 = Some m2" "drops m1 L (Gpu_list ref) p m2" by auto
  have d: "maps_ok m2 (L(Gpu_list ref := remove1 p (L (Gpu_list ref))))" "gains (mo_os m2) (mo_os m1) {#(Heap, p)#}"
    using m2(2) m1(4) by (simp_all add: drops_def)
  have "{#(Heap, p)#} \<subseteq># md_res m p" using assms(4) by (simp add: md_res_def kmap_res_def)
  then have "gains (mo_os m2) (mo_os m) (md_res m p)"
    using gains_trans [OF d(2) m1(5)] by (metis add.commute subset_mset.diff_add)
  with m1(1) m2(1) d show ?thesis by blast
qed

lemma malloc_quiet: "os_env s (os_calls s) = 0 \<Longrightarrow>
  malloc s = (Some (os_next s), s\<lparr>os_calls := Suc (os_calls s), os_live := add_mset (Heap, os_next s) (os_live s), os_next := Suc (os_next s)\<rparr>)"
  by (simp add: malloc_def acquire_def sys_call_def grant_def Let_def)

lemma user_addrs_okD:
  assumes "user_addrs_ok api n km"
  shows "\<exists>k. km_n_addrs km = Some k \<and> k \<le> length (km_addrs km) \<and> (\<forall>a \<in> set (take k (km_addrs km)). api_dma_mapping_error api a = 0)"
proof (cases "km_n_addrs km")
  case None
  with assms show ?thesis by (simp add: user_addrs_ok_def)
next
  case (Some k)
  with assms show ?thesis by (cases "km_n_pages km") (simp_all add: user_addrs_ok_def)
qed

lemma lock_user_pages_quiet:
  assumes "os_env (mo_os m) (os_calls (mo_os m)) = 0" "\<not> 2 ^ 64 \<le> unat n * 8" "\<forall>c. 0 < api_get_user_pages api v n c"
  shows "\<exists>m'. lock_user_pages api p v n m = (0, m')"
proof -
  have "\<not> api_get_user_pages api v n c \<le> 0" for c using assms(3) by (simp add: not_le)
  then show ?thesis using assms(1,2)
    by (simp add: lock_user_pages_def kcalloc_def malloc_quiet Let_def split: prod.splits)
qed

text \<open>When memory is there and the pages can be pinned, \<open>map_user_pages\<close> returns 0.\<close>

lemma map_user_pages_quiet:
  assumes "maps_ok m L" "ref < length (mo_refs m)"
    and "rf_ctrl (mo_refs m ! ref) = Some dev" "cd_pdev (mo_devs m ! dev) = Some pdev"
    and "n_pages \<noteq> 0" "unat n_pages < 2 ^ 60" "api_documented api"
    and "\<forall>c. os_env (mo_os m) c = 0" "\<forall>c. 0 < api_get_user_pages api (vaddr AND PAGE_MASK) n_pages c"
  shows "\<exists>p m1 km. map_user_pages api ref vaddr n_pages m = Some (0, Some p, m1) \<and> mo_maps m1 p = Some km
    \<and> user_addrs_ok api n_pages km"
  using map_user_pages_spec [OF assms(1-7), of vaddr]
proof (cases rule: maps_outcomeE)
  case (err e m')
  have "\<not> n_pages < 1" using assms(5) by (simp add: word_less_nat_alt unat_eq_zero)
  moreover have "unat (md_bytes n_pages) = 72 + 8 * unat n_pages" "\<not> 2 ^ 64 \<le> unat n_pages * 8"
    using md_bytes_unat [OF assms(5,6)] assms(6) by simp_all
  moreover obtain p m1 where k: "kmalloc_map n_pages m = (Some p, m1)" "os_env (mo_os m1) = os_env (mo_os m)"
    using assms(8) by (auto simp: kmalloc_map_def malloc_quiet)
  moreover define m2 where "m2 = (set_map p (\<lambda>km. km\<lparr>km_page_size := PAGE_SIZE\<rparr>) m1)
    \<lparr>mo_lists := list_init (Md p) (vaddr AND PAGE_MASK) (mo_lists m1)\<rparr>"
  moreover obtain m3 where "lock_user_pages api p (vaddr AND PAGE_MASK) n_pages m2 = (0, m3)"
    using lock_user_pages_quiet [of m2 n_pages api "vaddr AND PAGE_MASK" p] calculation(3,5) assms(8,9)
    by (auto simp: m2_def)
  ultimately have False using err(1,2) by (simp add: map_user_pages_def Let_def split: bind_splits prod.splits)
  then show ?thesis ..
qed auto

text \<open>
  A page that cannot be mapped for the device is not an error of \<open>map_user_pages\<close>: when the pages are
  pinned, it returns 0 even if not one of them could be mapped, with no bus address in the descriptor.
\<close>

theorem dma_error_lost:
  assumes "maps_ok m L" "ref < length (mo_refs m)"
    and "rf_ctrl (mo_refs m ! ref) = Some dev" "cd_pdev (mo_devs m ! dev) = Some pdev"
    and "n_pages \<noteq> 0" "unat n_pages < 2 ^ 60" "api_documented api"
    and "\<forall>c. os_env (mo_os m) c = 0" "\<forall>c. 0 < api_get_user_pages api (vaddr AND PAGE_MASK) n_pages c"
    and "\<forall>a. api_dma_mapping_error api a \<noteq> 0"
  shows "\<exists>p m1 km. map_user_pages api ref vaddr n_pages m = Some (0, Some p, m1) \<and> mo_maps m1 p = Some km
    \<and> km_n_addrs km = Some 0"
proof -
  from map_user_pages_quiet [OF assms(1-9)] obtain p m1 km where
    ok: "map_user_pages api ref vaddr n_pages m = Some (0, Some p, m1)" "mo_maps m1 p = Some km" "user_addrs_ok api n_pages km"
    by blast
  from user_addrs_okD [OF ok(3)] obtain k where k: "km_n_addrs km = Some k" "k \<le> length (km_addrs km)"
    "\<forall>a \<in> set (take k (km_addrs km)). api_dma_mapping_error api a = 0"
    by blast
  have "set (take k (km_addrs km)) = {}" using k(3) assms(10) by (metis ex_in_conv)
  then have "km_n_addrs km = Some 0" using k(1,2) by auto
  with ok(1,2) show ?thesis by blast
qed

section \<open>Examples\<close>

definition demo_kernel_os :: os where
  "demo_kernel_os = \<lparr>os_live = {#}, os_next = 1, os_bad = False, os_env = \<lambda>_. 0, os_lock = \<lambda>_. 0, os_sci = \<lambda>_. SCI_ERR_OK,
     os_rel = \<lambda>_. SCI_ERR_OK, os_addr = \<lambda>_. 0, os_recv = \<lambda>_. [], os_sent = [], os_shm = \<lambda>_ _. 0, os_calls = 0\<rparr>"

definition demo_dev :: ctrl_dev where
  "demo_dev = \<lparr>cd_in_use = 2, cd_pdev = Some 7, cd_name = ''disnvme0'', cd_rdev = 0xf000000, cd_cls = Some 5, cd_cdev = 0, cd_chrdev = None\<rparr>"

definition demo_module :: kmodule where
  "demo_module = \<lparr>mo_devs = [demo_dev], mo_refs = [\<lparr>rf_flags = 2, rf_ctrl = Some 0, rf_owner = 100\<rparr>],
     mo_lists = list_init (Gpu_list 0) 0 (list_init (User_list 0) 0 Map.empty), mo_maps = Map.empty,
     mo_master = {7}, mo_os = demo_kernel_os\<rparr>"

definition demo_api :: kapi where
  "demo_api = \<lparr>api_get_user_pages = \<lambda>v n c. int (unat n), api_dma_map_page = \<lambda>d pg c. 0x100000 + of_nat pg * 0x1000,
     api_dma_mapping_error = \<lambda>a. 0, api_p2p_entries = \<lambda>len t. if len = 0 then 0 else 1, api_p2p_address = \<lambda>h i. 0x200000 + of_nat i * 0x10000\<rparr>"

lemma demo_heads: "length (mo_refs m) = 1 \<Longrightarrow> list_heads m = {User_list 0, Gpu_list 0}"
  by (auto simp: list_heads_def lessThan_Suc)

lemma demo_module_ok: "maps_ok demo_module (\<lambda>_. [])"
proof -
  have "list_heads demo_module = {User_list 0, Gpu_list 0}" by (rule demo_heads) (simp add: demo_module_def)
  then show ?thesis
    by (simp add: maps_ok_def maps_held_def) (simp add: demo_module_def list_ok_def key_def list_init_def)
qed

lemma demo_api_documented: "api_documented demo_api"
  by (auto simp: api_documented_def demo_api_def uint_0_iff Suc_le_eq unat_gt_0 GPU_PAGE_SIZE_def)

theorem user_pages_round_trip_witness:
  "\<exists>e q m1. map_user_pages demo_api 0 0x7008 2 demo_module = Some (e, q, m1) \<and>
    (if e \<noteq> 0 then q = None \<and> gains (mo_os demo_module) (mo_os m1) {#}
     else \<exists>p m2. q = Some p \<and> find_user_page_map 0 0x7008 m1 = Some (Some p) \<and> unmap_user_pages p m1 = Some m2
       \<and> maps_ok m2 (\<lambda>_. []) \<and> gains (mo_os demo_module) (mo_os m2) {#})"
  by (rule user_pages_round_trip [where dev = 0 and pdev = 7, OF demo_module_ok _ _ _ _ _ _ demo_api_documented])
     (simp_all add: demo_module_def demo_dev_def PAGE_MASK_def PAGE_SIZE_def)

theorem gpu_memory_round_trip_witness:
  "\<exists>e q m1. map_gpu_memory demo_api 0 0x20000 1 demo_module = Some (e, q, m1) \<and>
    (if e \<noteq> 0 then q = None \<and> gains (mo_os demo_module) (mo_os m1) {#}
     else \<exists>p m2. q = Some p \<and> find_gpu_map 0 0x20000 m1 = Some (Some p) \<and> unmap_gpu_memory p m1 = Some m2
       \<and> maps_ok m2 (\<lambda>_. []) \<and> gains (mo_os demo_module) (mo_os m2) {#})"
  by (rule gpu_memory_round_trip [OF demo_module_ok _ _ _ _ _ demo_api_documented])
     (simp_all add: demo_module_def GPU_PAGE_MASK_def GPU_PAGE_SIZE_def)

definition failing_api :: kapi where
  "failing_api = demo_api\<lparr>api_dma_mapping_error := \<lambda>a. - ENOMEM\<rparr>"

lemma failing_api_documented: "api_documented failing_api"
  using demo_api_documented by (simp add: failing_api_def api_documented_def)

theorem dma_error_lost_witness:
  "\<exists>p m1 km. map_user_pages failing_api 0 0x7000 2 demo_module = Some (0, Some p, m1) \<and> mo_maps m1 p = Some km
    \<and> km_n_addrs km = Some 0"
  by (rule dma_error_lost [where dev = 0 and pdev = 7, OF demo_module_ok _ _ _ _ _ failing_api_documented])
     (simp_all add: demo_module_def demo_dev_def demo_kernel_os_def failing_api_def demo_api_def)

text \<open>A reference with one GPU mapping.\<close>

definition demo_gpu_map :: kmap where
  "demo_gpu_map = \<lparr>km_pdev = Some 7, km_page_size = GPU_PAGE_SIZE, km_n_pages = Some 1, km_pages = Ptr (Page_table 2),
     km_mappings = Ptr 3, km_n_addrs = Some 1, km_addrs = [0x200000], km_room = 1\<rparr>"

definition demo_gpu_module :: kmodule where
  "demo_gpu_module = demo_module\<lparr>
     mo_lists := [User_list 0 \<mapsto> \<lparr>ln_next = None, ln_prev = None, ln_vaddr = 0\<rparr>,
       Gpu_list 0 \<mapsto> \<lparr>ln_next = Some (Md 1), ln_prev = None, ln_vaddr = 0\<rparr>,
       Md 1 \<mapsto> \<lparr>ln_next = None, ln_prev = Some (Gpu_list 0), ln_vaddr = 0x20000\<rparr>],
     mo_maps := [1 \<mapsto> demo_gpu_map],
     mo_os := demo_kernel_os\<lparr>os_live := {#(Heap, 1), (P2p_table, 2), (P2p_mapping, 3)#}, os_next := 4\<rparr>\<rparr>"

lemma demo_gpu_module_ok: "maps_ok demo_gpu_module (\<lambda>l. if l = Gpu_list 0 then [1] else [])"
proof -
  have "list_heads demo_gpu_module = {User_list 0, Gpu_list 0}"
    by (rule demo_heads) (simp add: demo_gpu_module_def demo_module_def)
  then show ?thesis
    by (simp add: maps_ok_def maps_held_def)
       (simp add: demo_gpu_module_def demo_module_def list_ok_def key_def md_kind_def gpu_map_def demo_gpu_map_def
         md_res_def kmap_res_def)
qed

theorem gpu_callback_released_once_witness:
  "\<exists>m1 m2. free_callback 1 demo_gpu_module = Some m1 \<and> unmap_gpu_memory 1 m1 = Some m2
    \<and> gains (mo_os m2) (mo_os m1) {#(Heap, 1)#} \<and> gains (mo_os m2) (mo_os demo_gpu_module) (md_res demo_gpu_module 1)"
  using gpu_callback_released_once [OF demo_gpu_module_ok, of 0 1 demo_gpu_map 2]
  by (auto simp: demo_gpu_module_def demo_module_def demo_gpu_map_def)

end
