(* ===== verification/Module_Pci.thy ===== *)
theory Module_Pci
  imports Module_Mapping
begin

unbundle bit_operations_syntax

text \<open>
  The driver and file operations of the kernel module: \<open>src/module/pci.c\<close> and the request numbers of
  \<open>src/src/ioctl.h\<close>.  Both arrays have as many slots as the loops run over.  The file of a request is
  known by the cdev of its inode, the calling process by its pid.  The memory of the process is byte
  memory, and copying from and to it does not fail.  Bus mastering is a set of PCI devices; printing
  is left out.
\<close>

section \<open>Looking up\<close>

text \<open>The loops that return the first slot with a property.\<close>

fun scan :: "('a \<Rightarrow> bool) \<Rightarrow> nat \<Rightarrow> 'a list \<Rightarrow> nat option" where
  "scan P i [] = None"
| "scan P i (x # xs) = (if P x then Some i else scan P (Suc i) xs)"

definition find_ref :: "nat \<Rightarrow> int option \<Rightarrow> kmodule \<Rightarrow> nat option" where
  "find_ref dev owner m =
     scan (\<lambda>ref. rf_ctrl ref = Some dev \<and> (owner = None \<or> owner = Some (rf_owner ref))) 0 (mo_refs m)"

definition find_dev_by_inode :: "nat \<Rightarrow> kmodule \<Rightarrow> nat option" where
  "find_dev_by_inode i_cdev m = scan (\<lambda>dev. i_cdev = cd_cdev dev) 0 (mo_devs m)"

definition find_dev_by_pdev :: "nat \<Rightarrow> kmodule \<Rightarrow> nat option" where
  "find_dev_by_pdev pdev m = scan (\<lambda>dev. cd_pdev dev = Some pdev) 0 (mo_devs m)"

section \<open>Opening and closing\<close>

fun ref_get_loop :: "int \<Rightarrow> nat \<Rightarrow> nat \<Rightarrow> nat \<Rightarrow> kmodule \<Rightarrow> int \<times> kmodule" where
  "ref_get_loop pid dev i 0 m = (- ENOSPC, m)"
| "ref_get_loop pid dev i (Suc n) m =
     (case ctrl_ref_get pid i dev m of (got, m) \<Rightarrow> if got then (0, m) else ref_get_loop pid dev (Suc i) n m)"

definition ref_get :: "nat \<Rightarrow> int \<Rightarrow> kmodule \<Rightarrow> int \<times> kmodule" where
  "ref_get i_cdev pid m =
     (case find_dev_by_inode i_cdev m of
        None \<Rightarrow> (- EBADF, m)
      | Some dev \<Rightarrow>
          if cd_pdev (mo_devs m ! dev) = None then (- EBADF, m)
          else ref_get_loop pid dev 0 (length (mo_refs m)) m)"

definition ref_put :: "bool \<Rightarrow> nat \<Rightarrow> int \<Rightarrow> kmodule \<Rightarrow> (int \<times> kmodule) option" where
  "ref_put cuda i_cdev pid m =
     (case find_dev_by_inode i_cdev m of
        None \<Rightarrow> Some (- EBADF, m)
      | Some dev \<Rightarrow>
          (case find_ref dev (Some pid) m of
             None \<Rightarrow> Some (- EBADF, m)
           | Some ref \<Rightarrow> do { m \<leftarrow> ctrl_ref_put cuda ref m; Some (0, m) }))"

section \<open>Requests\<close>

text \<open>\<open>_IOW(type, nr, size)\<close>: the request writes, the size of its argument, its type and number.\<close>

definition IOW :: "u32 \<Rightarrow> u32 \<Rightarrow> u32 \<Rightarrow> u32" where
  "IOW type nr sz = push_bit 30 1 OR push_bit 16 sz OR push_bit 8 type OR nr"

definition NVM_MAP_HOST_MEMORY :: u32 where "NVM_MAP_HOST_MEMORY = IOW 0x80 1 24"
definition NVM_MAP_DEVICE_MEMORY :: u32 where "NVM_MAP_DEVICE_MEMORY = IOW 0x80 2 24"
definition NVM_UNMAP_MEMORY :: u32 where "NVM_UNMAP_MEMORY = IOW 0x80 3 8"

text \<open>\<open>struct nvm_ioctl_map\<close>, as it is read from user memory, and the address list written to it.\<close>

record nvm_ioctl_map =
  rq_vaddr_start :: u64
  rq_n_pages :: u64
  rq_ioaddrs :: u64

definition read_request :: "mem \<Rightarrow> u64 \<Rightarrow> nvm_ioctl_map" where
  "read_request um arg = \<lparr>rq_vaddr_start = load64 um arg, rq_n_pages = load64 um (arg + 8), rq_ioaddrs = load64 um (arg + 16)\<rparr>"

fun store_qwords :: "u64 \<Rightarrow> u64 list \<Rightarrow> mem \<Rightarrow> mem" where
  "store_qwords a [] um = um"
| "store_qwords a (w # ws) um = store_qwords (a + 8) ws (store64 a w um)"

text \<open>The end of both mapping requests: hand the counted addresses to the process.\<close>

definition copy_addrs :: "u64 \<Rightarrow> mem \<Rightarrow> int \<times> nat option \<times> kmodule \<Rightarrow> (int \<times> mem \<times> kmodule) option" where
  "copy_addrs ioaddrs um r =
     (case r of (retval, md, m) \<Rightarrow>
        (case md of
           Some p \<Rightarrow>
             if retval = 0 then do { km \<leftarrow> mo_maps m p; k \<leftarrow> km_n_addrs km;
                                     Some (retval, store_qwords ioaddrs (take k (km_addrs km)) um, m) }
             else Some (retval, um, m)
         | None \<Rightarrow> Some (retval, um, m)))"

definition ref_ioctl ::
  "bool \<Rightarrow> kapi \<Rightarrow> int \<Rightarrow> nat \<Rightarrow> int \<Rightarrow> u32 \<Rightarrow> u64 \<Rightarrow> mem \<Rightarrow> kmodule \<Rightarrow> (int \<times> mem \<times> kmodule) option" where
  "ref_ioctl cuda api max_pages_per_map i_cdev pid cmd arg um m =
     (case find_dev_by_inode i_cdev m of
        None \<Rightarrow> Some (- EBADF, um, m)
      | Some dev \<Rightarrow>
          (case find_ref dev (Some pid) m of
             None \<Rightarrow> Some (- EBADF, um, m)
           | Some ref \<Rightarrow>
               if cmd = NVM_MAP_HOST_MEMORY then
                 let request = read_request um arg in
                 if of_int max_pages_per_map \<le> rq_n_pages request then Some (- EINVAL, um, m)
                 else do { r \<leftarrow> map_user_pages api ref (rq_vaddr_start request) (rq_n_pages request) m;
                           copy_addrs (rq_ioaddrs request) um r }
               else if cuda \<and> cmd = NVM_MAP_DEVICE_MEMORY then
                 let request = read_request um arg in
                 if of_int max_pages_per_map \<le> rq_n_pages request then Some (- EINVAL, um, m)
                 else do { r \<leftarrow> map_gpu_memory api ref (rq_vaddr_start request) (rq_n_pages request) m;
                           copy_addrs (rq_ioaddrs request) um r }
               else if cmd = NVM_UNMAP_MEMORY then
                 let addr = load64 um arg in
                 do { md \<leftarrow> find_user_page_map ref addr m;
                      (case md of
                         Some p \<Rightarrow> do { m \<leftarrow> unmap_user_pages p m; Some (0, um, m) }
                       | None \<Rightarrow>
                           if cuda
                           then do { md \<leftarrow> find_gpu_map ref addr m;
                                     (case md of
                                        Some p \<Rightarrow> do { m \<leftarrow> unmap_gpu_memory p m; Some (0, um, m) }
                                      | None \<Rightarrow> Some (- EINVAL, um, m)) }
                           else Some (- EINVAL, um, m)) }
               else Some (- EINVAL, um, m)))"

record vm_area =
  vm_start :: u64
  vm_end :: u64
  vm_noncached :: bool

text \<open>
  The length and start of the first BAR of a PCI device, and the result of \<open>vm_iomap_memory\<close> for an
  area, a physical address and a length, are answers of the kernel.
\<close>

definition ref_mmap ::
  "(nat \<Rightarrow> u64) \<Rightarrow> (nat \<Rightarrow> u64) \<Rightarrow> (vm_area \<Rightarrow> u64 \<Rightarrow> u64 \<Rightarrow> int) \<Rightarrow> nat \<Rightarrow> vm_area \<Rightarrow> kmodule \<Rightarrow> int \<times> vm_area" where
  "ref_mmap resource_len resource_start iomap i_cdev vma m =
     (case find_dev_by_inode i_cdev m of
        None \<Rightarrow> (- EBADF, vma)
      | Some dev \<Rightarrow>
          (case cd_pdev (mo_devs m ! dev) of
             None \<Rightarrow> (- EAGAIN, vma)
           | Some pdev \<Rightarrow>
               if resource_len pdev < vm_end vma - vm_start vma then (- EINVAL, vma)
               else
                 let vma = vma\<lparr>vm_noncached := True\<rparr> in
                 (iomap vma (resource_start pdev) (vm_end vma - vm_start vma), vma)))"

section \<open>Devices that come and go\<close>

text \<open>A kernel call that acquires a resource named by the caller.\<close>

definition acquire_at :: "rkind \<Rightarrow> nat \<Rightarrow> os \<Rightarrow> int \<times> os" where
  "acquire_at k h s =
     (case sys_call s of (err, s) \<Rightarrow>
        if err \<noteq> 0 then (err, s) else (0, s\<lparr>os_live := add_mset (k, h) (os_live s)\<rparr>))"

fun dev_get_loop :: "nat \<Rightarrow> nat \<Rightarrow> nat \<Rightarrow> kmodule \<Rightarrow> nat option \<times> kmodule" where
  "dev_get_loop pdev i 0 m = (None, m)"
| "dev_get_loop pdev i (Suc n) m =
     (case ctrl_dev_get (mo_devs m ! i) pdev of (got, dev) \<Rightarrow>
        let m = m\<lparr>mo_devs := (mo_devs m)[i := dev]\<rparr> in
        if got then (Some i, m) else dev_get_loop pdev (Suc i) n m)"

definition put_dev :: "nat \<Rightarrow> kmodule \<Rightarrow> kmodule" where
  "put_dev i m = (case ctrl_dev_put (mo_devs m ! i) (mo_os m) of (dev, s) \<Rightarrow>
     m\<lparr>mo_devs := (mo_devs m)[i := dev], mo_os := s\<rparr>)"

definition add_pci_dev :: "nat \<Rightarrow> kmodule \<Rightarrow> int \<times> kmodule" where
  "add_pci_dev pdev m =
     (case dev_get_loop pdev 0 (length (mo_devs m)) m of
        (None, m) \<Rightarrow> (- ENOSPC, m)
      | (Some i, m) \<Rightarrow>
          (case acquire_at Pci_region pdev (mo_os m) of (err, s) \<Rightarrow>
             if err \<noteq> 0 then (err, put_dev i (m\<lparr>mo_os := s\<rparr>))
             else
               (case acquire_at Pci_enabled pdev s of (err, s) \<Rightarrow>
                  if err < 0 then (err, put_dev i (m\<lparr>mo_os := release Pci_region pdev s\<rparr>))
                  else
                    (case ctrl_dev_chrdev_create (mo_devs m ! i) s of (err, dev, s) \<Rightarrow>
                       let m = m\<lparr>mo_devs := (mo_devs m)[i := dev], mo_os := s\<rparr> in
                       if err \<noteq> 0
                       then (err, put_dev i (m\<lparr>mo_os := release Pci_enabled pdev (release Pci_region pdev s)\<rparr>))
                       else (0, m\<lparr>mo_master := insert pdev (mo_master m)\<rparr>)))))"

partial_function (option) drop_refs :: "bool \<Rightarrow> nat \<Rightarrow> kmodule \<Rightarrow> kmodule option" where
  "drop_refs cuda dev m =
     (case find_ref dev None m of
        None \<Rightarrow> Some m
      | Some ref \<Rightarrow> do { m \<leftarrow> ctrl_ref_put cuda ref m; drop_refs cuda dev m })"

definition remove_pci_dev :: "bool \<Rightarrow> nat option \<Rightarrow> kmodule \<Rightarrow> kmodule option" where
  "remove_pci_dev cuda pd m =
     (case pd of
        None \<Rightarrow> Some m
      | Some pdev \<Rightarrow>
          let m = m\<lparr>mo_master := mo_master m - {pdev},
                    mo_os := release Pci_region pdev (release Pci_enabled pdev (mo_os m))\<rparr> in
          (case find_dev_by_pdev pdev m of
             None \<Rightarrow> Some m
           | Some dev \<Rightarrow> do { m \<leftarrow> drop_refs cuda dev m; Some (put_dev dev m) }))"

section \<open>Loading and unloading\<close>

text \<open>
  The globals of the module: the blocks of both arrays, the first device number, the class and the
  module parameters.  Slots are allocated as zero bytes, and the cdev inside a device slot is known by
  the index of the slot.
\<close>

record disnvme =
  dn_module :: kmodule
  dn_devs_block :: nat
  dn_refs_block :: nat
  dn_first :: u32
  dn_class :: nat

definition DRIVER_NAME :: string where "DRIVER_NAME = ''disnvme''"

definition zero_dev :: "nat \<Rightarrow> ctrl_dev" where
  "zero_dev i = \<lparr>cd_in_use = 0, cd_pdev = None, cd_name = [], cd_rdev = 0, cd_cls = None, cd_cdev = i, cd_chrdev = None\<rparr>"

definition zero_ref :: ctrl_ref where
  "zero_ref = \<lparr>rf_flags = 0, rf_ctrl = None, rf_owner = 0\<rparr>"

definition zero_lists :: "nat \<Rightarrow> mptr lheap" where
  "zero_lists n = (\<lambda>p. case p of
     User_list i \<Rightarrow> if i < n then Some \<lparr>ln_next = None, ln_prev = None, ln_vaddr = 0\<rparr> else None
   | Gpu_list i \<Rightarrow> if i < n then Some \<lparr>ln_next = None, ln_prev = None, ln_vaddr = 0\<rparr> else None
   | Md _ \<Rightarrow> None)"

definition disnvme_entry :: "nat \<Rightarrow> int \<Rightarrow> int \<Rightarrow> os \<Rightarrow> int \<times> disnvme option \<times> os" where
  "disnvme_entry sizeof_ctrl_dev num_ctrl_devs num_ctrl_refs s =
     (case kcalloc (of_int num_ctrl_devs) sizeof_ctrl_dev s of
        (None, s) \<Rightarrow> (- ENOMEM, None, s)
      | (Some ctrl_devs, s) \<Rightarrow>
          (case kcalloc (of_int num_ctrl_refs) 72 s of
             (None, s) \<Rightarrow> (- ENOMEM, None, release Heap ctrl_devs s)
           | (Some ctrl_refs, s) \<Rightarrow>
               let first = ucast (os_addr s (os_calls s)) in
               (case acquire_at Chrdev_region (unat first) s of (err, s) \<Rightarrow>
                  if err < 0 then (err, None, release Heap ctrl_devs (release Heap ctrl_refs s))
                  else
                    (case acquire Dev_class s of (err, cls, s) \<Rightarrow>
                       if err \<noteq> 0
                       then (err, None, release Heap ctrl_devs (release Heap ctrl_refs (release Chrdev_region (unat first) s)))
                       else
                         let devs = map (\<lambda>i. ctrl_dev_reset (zero_dev i) first i (Some cls) DRIVER_NAME) [0..<nat num_ctrl_devs] in
                         (case acquire_at Pci_driver 0 s of (err, s) \<Rightarrow>
                            if err \<noteq> 0
                            then (err, None, release Heap ctrl_devs (release Heap ctrl_refs
                                   (release Chrdev_region (unat first) (release Dev_class cls s))))
                            else (0, Some \<lparr>dn_module = \<lparr>mo_devs = devs, mo_refs = replicate (nat num_ctrl_refs) zero_ref,
                                     mo_lists = zero_lists (nat num_ctrl_refs), mo_maps = Map.empty, mo_master = {}, mo_os = s\<rparr>,
                                   dn_devs_block = ctrl_devs, dn_refs_block = ctrl_refs, dn_first = first, dn_class = cls\<rparr>, s))))))"

text \<open>
  \<open>pci_unregister_driver\<close> has the PCI core remove every device the driver is bound to, in some order
  \<open>bound\<close>.
\<close>

fun remove_all :: "bool \<Rightarrow> nat list \<Rightarrow> kmodule \<Rightarrow> kmodule option" where
  "remove_all cuda [] m = Some m"
| "remove_all cuda (pdev # bound) m = do { m \<leftarrow> remove_pci_dev cuda (Some pdev) m; remove_all cuda bound m }"

definition disnvme_exit :: "bool \<Rightarrow> nat list \<Rightarrow> disnvme \<Rightarrow> os option" where
  "disnvme_exit cuda bound g =
     do { m \<leftarrow> remove_all cuda bound (dn_module g);
          let s = release Pci_driver 0 (mo_os m);
          let s = release Dev_class (dn_class g) s;
          let s = release Chrdev_region (unat (dn_first g)) s;
          let s = release Heap (dn_refs_block g) s;
          Some (release Heap (dn_devs_block g) s) }"

end
