(* ===== verification/Module_Inv.thy ===== *)
theory Module_Inv
  imports Module_Pci
begin

unbundle bit_operations_syntax

text \<open>
  The invariant of the kernel module, and that every operation of \<open>src/module/pci.c\<close> returns and keeps
  it: opening and closing, requests, devices that are added and removed, and the callback of the GPU
  driver.
\<close>

section \<open>The invariant\<close>

definition dev_held :: "ctrl_dev \<Rightarrow> res multiset" where
  "dev_held dev = dev_res dev +
     (case cd_pdev dev of None \<Rightarrow> {#} | Some pdev \<Rightarrow> {#(Pci_region, pdev), (Pci_enabled, pdev)#})"

definition devs_held :: "ctrl_dev list \<Rightarrow> res multiset" where
  "devs_held devs = (\<Sum>dev \<leftarrow> devs. dev_held dev)"

text \<open>
  A device slot that is in use has a PCI device and a character device; no two slots have the same PCI
  device or cdev.
\<close>

definition devs_ok :: "ctrl_dev list \<Rightarrow> bool" where
  "devs_ok devs \<longleftrightarrow> (\<forall>dev \<in> set devs. dev_ok dev \<and> (cd_pdev dev \<noteq> None \<longrightarrow> cd_chrdev dev \<noteq> None))
     \<and> distinct (map cd_cdev devs)
     \<and> (\<forall>i < length devs. \<forall>j < length devs. cd_pdev (devs ! i) \<noteq> None \<and> cd_pdev (devs ! i) = cd_pdev (devs ! j) \<longrightarrow> i = j)"

text \<open>
  A reference slot is marked in use exactly while it has a controller, which is a device slot that is
  in use; a free slot has no mappings, and without CUDA there are no GPU mappings.
\<close>

definition ref_ok :: "bool \<Rightarrow> kmodule \<Rightarrow> (mptr \<Rightarrow> nat list) \<Rightarrow> nat \<Rightarrow> bool" where
  "ref_ok cuda m L i \<longleftrightarrow>
     (case rf_ctrl (mo_refs m ! i) of
        None \<Rightarrow> \<not> bit (rf_flags (mo_refs m ! i)) IN_USE_BIT \<and> L (User_list i) = [] \<and> L (Gpu_list i) = []
      | Some d \<Rightarrow> bit (rf_flags (mo_refs m ! i)) IN_USE_BIT \<and> d < length (mo_devs m) \<and> cd_pdev (mo_devs m ! d) \<noteq> None)
     \<and> (cuda \<or> L (Gpu_list i) = [])"

definition listed :: "kmodule \<Rightarrow> (mptr \<Rightarrow> nat list) \<Rightarrow> bool" where
  "listed m L \<longleftrightarrow> (\<forall>p. mo_maps m p \<noteq> None \<longrightarrow> (\<exists>l \<in> list_heads m. p \<in> set (L l)))"

text \<open>
  The invariant of the module, relative to the state \<open>s0\<close> of the kernel before any device was added:
  exactly what the mappings and the devices account for is held.
\<close>

definition module_core :: "bool \<Rightarrow> kmodule \<Rightarrow> (mptr \<Rightarrow> nat list) \<Rightarrow> bool" where
  "module_core cuda m L \<longleftrightarrow> maps_ok m L \<and> listed m L \<and> devs_ok (mo_devs m) \<and> (\<forall>i < length (mo_refs m). ref_ok cuda m L i)"

definition module_ok :: "bool \<Rightarrow> os \<Rightarrow> kmodule \<Rightarrow> (mptr \<Rightarrow> nat list) \<Rightarrow> bool" where
  "module_ok cuda s0 m L \<longleftrightarrow> module_core cuda m L \<and> gains s0 (mo_os m) (devs_held (mo_devs m) + maps_held m L)"

lemma scan_SomeD: "scan P i xs = Some k \<Longrightarrow> \<exists>j. k = i + j \<and> j < length xs \<and> P (xs ! j) \<and> (\<forall>n < j. \<not> P (xs ! n))"
proof (induction xs arbitrary: i)
  case Nil
  then show ?case by simp
next
  case (Cons x xs)
  show ?case
  proof (cases "P x")
    case True
    then show ?thesis using Cons.prems by (intro exI [of _ 0]) simp
  next
    case False
    with Cons.prems Cons.IH [of "Suc i"] obtain j where "k = Suc i + j" "j < length xs" "P (xs ! j)" "\<forall>n < j. \<not> P (xs ! n)"
      by auto
    then show ?thesis using False by (intro exI [of _ "Suc j"]) (auto simp: nth_Cons split: nat.splits)
  qed
qed

lemma scan_None_iff: "scan P i xs = None \<longleftrightarrow> (\<forall>x \<in> set xs. \<not> P x)"
  by (induction xs arbitrary: i) auto

lemma find_refD:
  assumes "find_ref dev owner m = Some i"
  shows "i < length (mo_refs m)" "rf_ctrl (mo_refs m ! i) = Some dev" "owner = None \<or> owner = Some (rf_owner (mo_refs m ! i))"
  using scan_SomeD [OF assms [unfolded find_ref_def]] by auto

lemma find_ref_None: "find_ref dev None m = None \<longleftrightarrow> (\<forall>i < length (mo_refs m). rf_ctrl (mo_refs m ! i) \<noteq> Some dev)"
  by (auto simp: find_ref_def scan_None_iff all_set_conv_all_nth)

lemma find_dev_by_inodeD:
  "find_dev_by_inode c m = Some d \<Longrightarrow> d < length (mo_devs m) \<and> cd_cdev (mo_devs m ! d) = c"
  using scan_SomeD [of _ 0 "mo_devs m" d] by (auto simp: find_dev_by_inode_def)

lemma find_dev_by_pdevD:
  "find_dev_by_pdev pdev m = Some d \<Longrightarrow> d < length (mo_devs m) \<and> cd_pdev (mo_devs m ! d) = Some pdev"
  using scan_SomeD [of _ 0 "mo_devs m" d] by (auto simp: find_dev_by_pdev_def)

lemma acquire_at_cases:
  assumes "acquire_at k h s = (e, s')"
  shows "if e = 0 then gains s s' {#(k, h)#} \<and> os_next s' = os_next s else gains s s' {#} \<and> os_next s' = os_next s"
  using assms by (auto simp: acquire_at_def sys_call_def gains_def split: if_splits)

subsection \<open>Opening\<close>

lemma set_bit_same: "bit (w :: u64) n \<Longrightarrow> set_bit n w = w"
  by (rule bit_word_eqI) (auto simp: bit_simps)

lemma ctrl_ref_get_taken:
  "i < length (mo_refs m) \<Longrightarrow> bit (rf_flags (mo_refs m ! i)) IN_USE_BIT \<Longrightarrow> ctrl_ref_get pid i dev m = (False, m)"
  by (simp add: ctrl_ref_get_def test_and_set_bit_def Let_def set_bit_same)

lemma ref_get_loop_spec:
  "i + n = length (mo_refs m) \<Longrightarrow>
   ref_get_loop pid dev i n m =
     (case scan (\<lambda>ref. \<not> bit (rf_flags ref) IN_USE_BIT) i (drop i (mo_refs m)) of
        None \<Rightarrow> (- ENOSPC, m)
      | Some k \<Rightarrow> (0, snd (ctrl_ref_get pid k dev m)))"
proof (induction n arbitrary: i)
  case 0
  then show ?case by simp
next
  case (Suc n)
  then have i: "i < length (mo_refs m)" by simp
  have d: "drop i (mo_refs m) = mo_refs m ! i # drop (Suc i) (mo_refs m)" using i by (simp add: Cons_nth_drop_Suc)
  show ?case
  proof (cases "bit (rf_flags (mo_refs m ! i)) IN_USE_BIT")
    case True
    with Suc.IH [of "Suc i"] Suc.prems ctrl_ref_get_taken [OF i True] show ?thesis by (simp add: d)
  next
    case False
    then show ?thesis by (simp add: d ctrl_ref_get_def test_and_set_bit_def Let_def)
  qed
qed

lemma list_ok_empty:
  assumes "list_ok h l []" shows "list_init l 0 h = h"
proof -
  from assms obtain n where "h l = Some n" "ln_prev n = None" "ln_next n = None" "ln_vaddr n = 0"
    by (auto simp: list_ok_def key_def split: option.splits)
  then show ?thesis by (auto simp: list_init_def fun_eq_iff)
qed

text \<open>A slot without a controller is taken for the device and the process; the lists of the slot are empty already.\<close>

lemma ctrl_ref_get_free:
  assumes ok: "module_ok cuda s0 m L" and i: "i < length (mo_refs m)" and free: "\<not> bit (rf_flags (mo_refs m ! i)) IN_USE_BIT"
  shows "ctrl_ref_get pid i dev m =
    (True, m\<lparr>mo_refs := (mo_refs m)[i := \<lparr>rf_flags = set_bit IN_USE_BIT (rf_flags (mo_refs m ! i)), rf_ctrl = Some dev, rf_owner = pid\<rparr>]\<rparr>)"
proof -
  have "L (User_list i) = []" "L (Gpu_list i) = []"
    using ok i free by (auto simp: module_ok_def module_core_def ref_ok_def split: option.splits)
  then have "list_ok (mo_lists m) (User_list i) []" "list_ok (mo_lists m) (Gpu_list i) []"
    using ok maps_okD(1) [of m L "User_list i"] maps_okD(1) [of m L "Gpu_list i"] i by (simp_all add: module_ok_def module_core_def)
  then show ?thesis using free by (simp add: ctrl_ref_get_def test_and_set_bit_def Let_def list_ok_empty)
qed

lemma module_ok_refs:
  assumes ok: "module_ok cuda s0 m L" and i: "i < length (mo_refs m)"
    and r: "\<And>j. j < length (mo_refs m) \<Longrightarrow> ref_ok cuda (m\<lparr>mo_refs := rs\<rparr>) L j" and len: "length rs = length (mo_refs m)"
  shows "module_ok cuda s0 (m\<lparr>mo_refs := rs\<rparr>) L"
proof -
  let ?m = "m\<lparr>mo_refs := rs\<rparr>"
  have H: "list_heads ?m = list_heads m" by (rule list_heads_cong) (simp add: len)
  have "md_res ?m = md_res m" by (rule ext) (simp add: md_res_def)
  then have "maps_held ?m L = maps_held m L" by (simp add: maps_held_def H)
  then have "maps_ok ?m L" "listed ?m L" "gains s0 (mo_os ?m) (devs_held (mo_devs ?m) + maps_held ?m L)"
    using ok by (simp_all add: module_ok_def module_core_def maps_ok_def listed_def H)
  then show ?thesis using r len ok by (simp add: module_ok_def module_core_def)
qed

lemma ref_get_keeps:
  assumes ok: "module_ok cuda s0 m L" and g: "ref_get c pid m = (e, m')"
  shows "module_ok cuda s0 m' L"
proof (cases "find_dev_by_inode c m")
  case None
  with g ok show ?thesis by (simp add: ref_get_def)
next
  case (Some d)
  note d = find_dev_by_inodeD [OF Some]
  show ?thesis
  proof (cases "cd_pdev (mo_devs m ! d) = None \<or> scan (\<lambda>ref. \<not> bit (rf_flags ref) IN_USE_BIT) 0 (mo_refs m) = None")
    case True
    with g ok Some show ?thesis by (auto simp: ref_get_def ref_get_loop_spec split: if_splits)
  next
    case False
    then obtain k where k: "scan (\<lambda>ref. \<not> bit (rf_flags ref) IN_USE_BIT) 0 (mo_refs m) = Some k" by auto
    from scan_SomeD [OF k] have kl: "k < length (mo_refs m)" "\<not> bit (rf_flags (mo_refs m ! k)) IN_USE_BIT" by auto
    let ?rs = "(mo_refs m)[k := \<lparr>rf_flags = set_bit IN_USE_BIT (rf_flags (mo_refs m ! k)), rf_ctrl = Some d, rf_owner = pid\<rparr>]"
    have m': "m' = m\<lparr>mo_refs := ?rs\<rparr>"
      using g Some False k ctrl_ref_get_free [OF ok kl, of pid d] ref_get_loop_spec [of 0 "length (mo_refs m)" m pid d]
      by (auto simp: ref_get_def)
    show ?thesis unfolding m'
    proof (rule module_ok_refs [OF ok kl(1)])
      fix j assume j: "j < length (mo_refs m)"
      then have "ref_ok cuda m L j" using ok by (simp add: module_ok_def module_core_def)
      then show "ref_ok cuda (m\<lparr>mo_refs := ?rs\<rparr>) L j"
        using False d j kl by (cases "j = k") (auto simp: ref_ok_def split: option.splits)
    qed simp
  qed
qed


subsection \<open>Changing mappings\<close>

text \<open>An operation that only adds or only drops mappings keeps the invariant if the accounts agree.\<close>

lemma module_ok_drop:
  assumes ok: "module_ok cuda s0 m L" and same: "length (mo_refs m') = length (mo_refs m)" "mo_devs m' = mo_devs m"
    and m': "maps_ok m' L'" "listed m' L'" "\<And>i. i < length (mo_refs m) \<Longrightarrow> ref_ok cuda m' L' i"
    and g: "gains (mo_os m') (mo_os m) r" "maps_held m L = r + maps_held m' L'"
  shows "module_ok cuda s0 m' L'"
proof -
  have "gains s0 (mo_os m) ((devs_held (mo_devs m) + maps_held m' L') + r)" using ok g(2) by (simp add: module_ok_def module_core_def ac_simps)
  from gains_undo_rest [OF this g(1)] show ?thesis using ok same m' by (simp add: module_ok_def module_core_def)
qed

lemma module_ok_add:
  assumes ok: "module_ok cuda s0 m L" and same: "length (mo_refs m') = length (mo_refs m)" "mo_devs m' = mo_devs m"
    and m': "maps_ok m' L'" "listed m' L'" "\<And>i. i < length (mo_refs m) \<Longrightarrow> ref_ok cuda m' L' i"
    and g: "gains (mo_os m) (mo_os m') r" "maps_held m' L' = r + maps_held m L"
  shows "module_ok cuda s0 m' L'"
proof -
  have "gains s0 (mo_os m') ((devs_held (mo_devs m) + maps_held m L) + r)"
    using ok gains_trans [OF _ g(1)] by (simp add: module_ok_def module_core_def)
  then show ?thesis using ok same m' g(2) by (simp add: module_ok_def module_core_def ac_simps)
qed

lemma ref_ok_cong: "mo_refs m' = mo_refs m \<Longrightarrow> mo_devs m' = mo_devs m \<Longrightarrow> ref_ok cuda m' L j = ref_ok cuda m L j"
  by (simp only: ref_ok_def)

lemma ref_ok_upd:
  assumes "ref_ok cuda m L j" "mo_refs m' = mo_refs m" "mo_devs m' = mo_devs m" "rf_ctrl (mo_refs m ! i) = Some d"
    and "l = User_list i \<or> (l = Gpu_list i \<and> cuda)"
  shows "ref_ok cuda m' (L(l := xs)) j"
  using assms by (auto simp: ref_ok_def split: option.splits)

lemma listed_drop:
  assumes "listed m L" "drops m L l p m'"
  shows "listed m' (L(l := remove1 p (L l)))"
proof -
  have H: "list_heads m' = list_heads m" by (rule list_heads_cong) (use assms(2) in \<open>simp add: drops_def\<close>)
  show ?thesis unfolding listed_def H
  proof (intro allI impI)
    fix q assume "mo_maps m' q \<noteq> None"
    then have q: "q \<noteq> p" "mo_maps m q \<noteq> None" using assms(2) by (auto simp: drops_def split: if_splits)
    then obtain l' where "l' \<in> list_heads m" "q \<in> set (L l')" using assms(1) by (auto simp: listed_def)
    with q(1) show "\<exists>l' \<in> list_heads m. q \<in> set ((L(l := remove1 p (L l))) l')"
      by (intro bexI [of _ l']) auto
  qed
qed

lemma unmap_keeps:
  assumes ok: "module_ok cuda s0 m L" and i: "rf_ctrl (mo_refs m ! i) = Some d" and l: "l \<in> list_heads m"
    and li: "l = User_list i \<or> (l = Gpu_list i \<and> cuda)" and p: "p \<in> set (L l)" and d: "drops m L l p m'"
  shows "module_ok cuda s0 m' (L(l := remove1 p (L l)))"
proof -
  have mo: "maps_ok m L" "listed m L" using ok by (simp_all add: module_ok_def module_core_def)
  have dd: "mo_refs m' = mo_refs m" "mo_devs m' = mo_devs m" "maps_ok m' (L(l := remove1 p (L l)))"
    "gains (mo_os m') (mo_os m) (md_res m p)" using d by (simp_all add: drops_def)
  show ?thesis
  proof (rule module_ok_drop [OF ok _ dd(2,3) listed_drop [OF mo(2) d] _ dd(4) drops_held [OF d mo(1) l p]])
    fix j assume "j < length (mo_refs m)"
    then have "ref_ok cuda m L j" using ok by (simp add: module_ok_def module_core_def)
    then show "ref_ok cuda m' (L(l := remove1 p (L l))) j" by (rule ref_ok_upd [OF _ dd(1,2) i li])
  qed (simp add: dd(1))
qed

lemma map_keeps:
  assumes ok: "module_ok cuda s0 m L" and i: "rf_ctrl (mo_refs m ! i) = Some d" and l: "l \<in> list_heads m"
    and li: "l = User_list i \<or> (l = Gpu_list i \<and> cuda)" and v: "v \<noteq> 0" and r: "maps_outcome m L l v P r"
  shows "\<exists>e q m' L'. r = Some (e, q, m') \<and> module_ok cuda s0 m' L' \<and>
    (q \<noteq> None \<longrightarrow> (\<exists>km. mo_maps m' (the q) = Some km \<and> P km))"
proof -
  have mo: "maps_ok m L" "listed m L" using ok by (simp_all add: module_ok_def module_core_def)
  have refs: "ref_ok cuda m L j" if "j < length (mo_refs m)" for j using ok that by (simp add: module_ok_def module_core_def)
  from r show ?thesis
  proof (cases rule: maps_outcomeE)
    case (err e m')
    have "maps_held m' L = maps_held m L" by (rule maps_held_frame) (simp_all add: err)
    moreover have "listed m' L" using mo(2) list_heads_cong [of m' m] err by (simp add: listed_def)
    moreover have "ref_ok cuda m' L j" if "j < length (mo_refs m)" for j
      using refs [OF that] ref_ok_cong [OF err(5,6)] by simp
    ultimately have "module_ok cuda s0 m' L" using err by (intro module_ok_add [OF assms(1), where r = "{#}"]) simp_all
    with err(1) show ?thesis by auto
  next
    case (ok p km m')
    let ?L = "L(l := ins_map (mo_lists m') p (L l))"
    have H: "list_heads m' = list_heads m" using list_heads_cong [of m' m] ok(7) by simp
    have "maps_held m' L = maps_held m L"
      by (rule maps_held_frame) (use ok maps_okD(3) [OF mo(1)] in \<open>auto, fastforce\<close>)
    then have "maps_held m' ?L = kmap_res p km + maps_held m L"
      using maps_held_ins [of l m' L "mo_lists m'" p] l H ok(3) by (simp add: md_res_def)
    moreover have "listed m' ?L" unfolding listed_def H
    proof (intro allI impI)
      fix q assume "mo_maps m' q \<noteq> None"
      then have "q = p \<or> mo_maps m q \<noteq> None" using ok(10) by auto
      then show "\<exists>l' \<in> list_heads m. q \<in> set (?L l')"
      proof
        assume "mo_maps m q \<noteq> None"
        then obtain l' where "l' \<in> list_heads m" "q \<in> set (L l')" using mo(2) by (auto simp: listed_def)
        then show ?thesis by (intro bexI [of _ l']) auto
      qed (use l in \<open>intro bexI [of _ l], auto\<close>)
    qed
    moreover have "maps_ok m' ?L" using ok(8) v by simp
    moreover have "ref_ok cuda m' ?L j" if "j < length (mo_refs m)" for j
      by (rule ref_ok_upd [OF refs [OF that] ok(7,9) i li])
    ultimately have "module_ok cuda s0 m' ?L" using ok by (intro module_ok_add [OF assms(1), where r = "kmap_res p km"]) simp_all
    with ok(1,3,4) show ?thesis by auto
  qed
qed

text \<open>Closing a file, and dropping the references of a device.\<close>

lemma ctrl_ref_put_core:
  assumes ok: "module_core cuda m L" and i: "i < length (mo_refs m)"
  shows "\<exists>m'. ctrl_ref_put cuda i m = Some m' \<and> mo_devs m' = mo_devs m
    \<and> mo_refs m' = (mo_refs m)[i := \<lparr>rf_flags = clear_bit IN_USE_BIT (rf_flags (mo_refs m ! i)), rf_ctrl = None, rf_owner = 0\<rparr>]
    \<and> module_core cuda m' (L(Gpu_list i := [], User_list i := []))
    \<and> gains (mo_os m') (mo_os m) (\<Sum>p \<leftarrow> L (Gpu_list i) @ L (User_list i). md_res m p)
    \<and> maps_held m L = (\<Sum>p \<leftarrow> L (Gpu_list i) @ L (User_list i). md_res m p) + maps_held m' (L(Gpu_list i := [], User_list i := []))"
proof -
  let ?L = "L(Gpu_list i := [], User_list i := [])"
  have mo: "maps_ok m L" "listed m L" "ref_ok cuda m L i" using ok i by (simp_all add: module_core_def)
  have "cuda \<or> L (Gpu_list i) = []" using mo(3) by (simp add: ref_ok_def)
  from ctrl_ref_put_spec [OF mo(1) i this] obtain m' where put: "ctrl_ref_put cuda i m = Some m'" "mo_devs m' = mo_devs m"
    "mo_refs m' = (mo_refs m)[i := \<lparr>rf_flags = clear_bit IN_USE_BIT (rf_flags (mo_refs m ! i)), rf_ctrl = None, rf_owner = 0\<rparr>]"
    "maps_ok m' ?L" "mo_maps m' = (\<lambda>p. if p \<in> set (L (Gpu_list i) @ L (User_list i)) then None else mo_maps m p)"
    "gains (mo_os m') (mo_os m) (\<Sum>p \<leftarrow> L (Gpu_list i) @ L (User_list i). md_res m p)"
    "maps_held m L = (\<Sum>p \<leftarrow> L (Gpu_list i) @ L (User_list i). md_res m p) + maps_held m' ?L" by blast
  have H: "list_heads m' = list_heads m" by (rule list_heads_cong) (simp add: put(3))
  have "listed m' ?L" unfolding listed_def H
  proof (intro allI impI)
    fix q assume "mo_maps m' q \<noteq> None"
    then have q: "q \<notin> set (L (Gpu_list i))" "q \<notin> set (L (User_list i))" "mo_maps m q \<noteq> None"
      using put(5) by (auto split: if_splits)
    then obtain l' where l': "l' \<in> list_heads m" "q \<in> set (L l')" using mo(2) by (auto simp: listed_def)
    then show "\<exists>l' \<in> list_heads m. q \<in> set (?L l')" using q by (intro bexI [of _ l']) auto
  qed
  moreover have "ref_ok cuda m' ?L j" if "j < length (mo_refs m)" for j
  proof -
    have "ref_ok cuda m L j" using ok that by (simp add: module_core_def)
    then show ?thesis using i put(2,3) by (cases "j = i") (auto simp: ref_ok_def split: option.splits)
  qed
  ultimately have "module_core cuda m' ?L" using put ok by (simp add: module_core_def)
  with put show ?thesis by blast
qed

lemma ctrl_ref_put_keeps:
  assumes ok: "module_ok cuda s0 m L" and i: "i < length (mo_refs m)"
  shows "\<exists>m'. ctrl_ref_put cuda i m = Some m' \<and> module_ok cuda s0 m' (L(Gpu_list i := [], User_list i := []))"
proof -
  let ?L = "L(Gpu_list i := [], User_list i := [])" and ?r = "\<Sum>p \<leftarrow> L (Gpu_list i) @ L (User_list i). md_res m p"
  have "module_core cuda m L" using ok by (simp add: module_ok_def)
  from ctrl_ref_put_core [OF this i] obtain m' where put: "ctrl_ref_put cuda i m = Some m'" "mo_devs m' = mo_devs m"
    "length (mo_refs m') = length (mo_refs m)" "module_core cuda m' ?L" "gains (mo_os m') (mo_os m) ?r" "maps_held m L = ?r + maps_held m' ?L"
    by auto
  have "module_ok cuda s0 m' ?L"
    by (rule module_ok_drop [OF ok put(3,2) _ _ _ put(5,6)]) (use put(3,4) in \<open>simp_all add: module_core_def\<close>)
  with put(1) show ?thesis by blast
qed

lemma ref_put_keeps:
  assumes ok: "module_ok cuda s0 m L"
  shows "\<exists>e m' L'. ref_put cuda c pid m = Some (e, m') \<and> module_ok cuda s0 m' L'"
proof (cases "find_dev_by_inode c m")
  case None
  with ok show ?thesis by (auto simp: ref_put_def)
next
  case (Some d)
  show ?thesis
  proof (cases "find_ref d (Some pid) m")
    case None
    with Some ok show ?thesis by (auto simp: ref_put_def)
  next
    case (Some i)
    from ctrl_ref_put_keeps [OF ok find_refD(1) [OF Some]] Some \<open>find_dev_by_inode c m = Some d\<close>
    show ?thesis by (auto simp: ref_put_def)
  qed
qed


subsection \<open>Requests\<close>

text \<open>
  What is asked of a process: the mapping requests do not name the page at address 0, which is never
  mapped.  The page limit is a module parameter that is small enough for a descriptor.
\<close>

definition request_ok :: "u32 \<Rightarrow> mem \<Rightarrow> u64 \<Rightarrow> bool" where
  "request_ok cmd um arg \<longleftrightarrow>
     (cmd = NVM_MAP_HOST_MEMORY \<longrightarrow> rq_vaddr_start (read_request um arg) AND PAGE_MASK \<noteq> 0) \<and>
     (cmd = NVM_MAP_DEVICE_MEMORY \<longrightarrow> rq_vaddr_start (read_request um arg) AND GPU_PAGE_MASK \<noteq> 0)"

definition limit_ok :: "int \<Rightarrow> bool" where
  "limit_ok max_pages_per_map \<longleftrightarrow> 0 \<le> max_pages_per_map \<and> max_pages_per_map < 2 ^ 60"

lemma limit_pages: "limit_ok mx \<Longrightarrow> \<not> of_int mx \<le> (n :: u64) \<Longrightarrow> unat n < 2 ^ 60"
proof -
  assume l: "limit_ok mx" and n: "\<not> of_int mx \<le> n"
  have "unat (of_int mx :: u64) = unat (of_nat (nat mx) :: u64)" using l by (simp add: limit_ok_def)
  moreover have lt: "nat mx < 2 ^ 60" using l by (simp add: limit_ok_def nat_less_iff)
  ultimately have "unat (of_int mx :: u64) = nat mx" using unat_of_nat_small [of "nat mx", where 'a = 64] by simp
  moreover note lt
  ultimately show ?thesis using n by (simp add: not_le word_less_nat_alt)
qed

lemma find_map_spec:
  assumes "maps_ok m L" "l \<in> list_heads m"
  shows "\<exists>q. list_find l v (mo_lists m) \<bind> md_cast = Some q \<and> (\<forall>p. q = Some p \<longrightarrow> p \<in> set (L l))"
proof (cases "find (\<lambda>x. key (mo_lists m) x = v) (map Md (L l))")
  case None
  then show ?thesis using maplist.look_law [OF maps_okD(1) [OF assms], of v] by (simp add: md_cast_def)
next
  case (Some x)
  then have "x \<in> set (map Md (L l))" by (auto simp: find_Some_iff)
  then obtain p where "x = Md p" "p \<in> set (L l)" by auto
  then show ?thesis using Some maplist.look_law [OF maps_okD(1) [OF assms], of v] by (simp add: md_cast_def md_of_def)
qed

lemma copy_addrs_returns:
  assumes "q \<noteq> None \<longrightarrow> (\<exists>km. mo_maps m' (the q) = Some km \<and> km_n_addrs km \<noteq> None)"
  shows "\<exists>um'. copy_addrs a um (e, q, m') = Some (e, um', m')"
  using assms by (auto simp: copy_addrs_def split: option.splits)

text \<open>A mapping request: what the mapping function does, followed by the copy.\<close>

lemma map_request_keeps:
  assumes "\<exists>e q m' L'. r = Some (e, q, m') \<and> module_ok cuda s0 m' L' \<and> (q \<noteq> None \<longrightarrow> (\<exists>km. mo_maps m' (the q) = Some km \<and> P km))"
    and "\<And>km. P km \<Longrightarrow> km_n_addrs km \<noteq> None"
  shows "\<exists>e um' m' L'. r \<bind> copy_addrs a um = Some (e, um', m') \<and> module_ok cuda s0 m' L'"
proof -
  from assms(1) obtain e q m' L' where r: "r = Some (e, q, m')" "module_ok cuda s0 m' L'"
    and P: "q \<noteq> None \<longrightarrow> (\<exists>km. mo_maps m' (the q) = Some km \<and> P km)" by blast
  from P assms(2) copy_addrs_returns [of q m' a um e] r show ?thesis by fastforce
qed

lemma map_user_request:
  assumes ok: "module_ok cuda s0 m L" and i: "i < length (mo_refs m)" "rf_ctrl (mo_refs m ! i) = Some d"
    and n: "unat n < 2 ^ 60" and v: "vaddr AND PAGE_MASK \<noteq> 0" and api: "api_documented api"
  shows "\<exists>e um' m' L'. map_user_pages api i vaddr n m \<bind> copy_addrs a um = Some (e, um', m') \<and> module_ok cuda s0 m' L'"
proof (cases "n = 0")
  case True
  then show ?thesis using ok by (auto simp: map_user_pages_def copy_addrs_def)
next
  case False
  have mo: "maps_ok m L" "ref_ok cuda m L i" using ok i(1) by (simp_all add: module_ok_def module_core_def)
  then obtain pdev where pd: "cd_pdev (mo_devs m ! d) = Some pdev" using i(2) by (auto simp: ref_ok_def)
  have l: "User_list i \<in> list_heads m" using i(1) by simp
  have "\<exists>e q m' L'. map_user_pages api i vaddr n m = Some (e, q, m') \<and> module_ok cuda s0 m' L'
      \<and> (q \<noteq> None \<longrightarrow> (\<exists>km. mo_maps m' (the q) = Some km \<and> user_addrs_ok api n km))"
    by (rule map_keeps [OF ok i(2) l _ v map_user_pages_spec [OF mo(1) i pd False n api]]) simp
  then show ?thesis by (rule map_request_keeps) (use user_addrs_okD in fastforce)
qed

lemma gpu_addrs_okD: "gpu_addrs_ok api n km \<Longrightarrow> km_n_addrs km \<noteq> None"
  by (cases "km_mappings km"; cases "km_pages km") (auto simp: gpu_addrs_ok_def split: page_set.split_asm)

lemma map_gpu_request:
  assumes ok: "module_ok True s0 m L" and i: "i < length (mo_refs m)" "rf_ctrl (mo_refs m ! i) = Some d"
    and n: "unat n < 2 ^ 60" and v: "vaddr AND GPU_PAGE_MASK \<noteq> 0" and api: "api_documented api"
  shows "\<exists>e um' m' L'. map_gpu_memory api i vaddr n m \<bind> copy_addrs a um = Some (e, um', m') \<and> module_ok True s0 m' L'"
proof (cases "n = 0")
  case True
  then show ?thesis using ok by (auto simp: map_gpu_memory_def copy_addrs_def)
next
  case False
  have mo: "maps_ok m L" using ok by (simp add: module_ok_def module_core_def)
  have l: "Gpu_list i \<in> list_heads m" using i(1) by simp
  have "\<exists>e q m' L'. map_gpu_memory api i vaddr n m = Some (e, q, m') \<and> module_ok True s0 m' L'
      \<and> (q \<noteq> None \<longrightarrow> (\<exists>km. mo_maps m' (the q) = Some km \<and> gpu_addrs_ok api n km))"
    by (rule map_keeps [OF ok i(2) l _ v map_gpu_memory_spec [OF mo i False n api]]) simp
  then show ?thesis
    by (rule map_request_keeps) (erule gpu_addrs_okD)
qed

lemma unmap_request:
  assumes ok: "module_ok cuda s0 m L" and i: "i < length (mo_refs m)" "rf_ctrl (mo_refs m ! i) = Some d"
  shows "\<exists>e m' L'. (do { md \<leftarrow> find_user_page_map i addr m;
       (case md of
          Some p \<Rightarrow> do { m \<leftarrow> unmap_user_pages p m; Some (0, um, m) }
        | None \<Rightarrow>
            if cuda
            then do { md \<leftarrow> find_gpu_map i addr m;
                      (case md of
                         Some p \<Rightarrow> do { m \<leftarrow> unmap_gpu_memory p m; Some (0, um, m) }
                       | None \<Rightarrow> Some (- EINVAL, um, m)) }
            else Some (- EINVAL, um, m)) }) = Some (e, um, m') \<and> module_ok cuda s0 m' L'"
proof -
  have mo: "maps_ok m L" using ok by (simp add: module_ok_def module_core_def)
  have l: "User_list i \<in> list_heads m" "Gpu_list i \<in> list_heads m" using i(1) by simp_all
  from find_map_spec [OF mo l(1)] obtain q where q: "find_user_page_map i addr m = Some q" "\<And>p. q = Some p \<Longrightarrow> p \<in> set (L (User_list i))"
    unfolding find_user_page_map_def by blast
  from find_map_spec [OF mo l(2)] obtain g where g: "find_gpu_map i addr m = Some g" "\<And>p. g = Some p \<Longrightarrow> p \<in> set (L (Gpu_list i))"
    unfolding find_gpu_map_def by blast
  show ?thesis
  proof (cases q)
    case (Some p)
    from unmap_user_pages_drops [OF mo i(1) q(2) [OF Some]] obtain m' where
      m': "unmap_user_pages p m = Some m'" "drops m L (User_list i) p m'" by blast
    from unmap_keeps [OF ok i(2) l(1) _ q(2) [OF Some] m'(2)] q(1) Some m'(1) show ?thesis by auto
  next
    case None
    show ?thesis
    proof (cases "cuda \<and> g \<noteq> None")
      case True
      then obtain p where p: "g = Some p" by auto
      from unmap_gpu_memory_drops [OF mo i(1) g(2) [OF p]] obtain m' where
        m': "unmap_gpu_memory p m = Some m'" "drops m L (Gpu_list i) p m'" by blast
      from unmap_keeps [OF ok i(2) l(2) _ g(2) [OF p] m'(2)] True None q(1) g(1) p m'(1) show ?thesis by auto
    next
      case False
      with None q(1) g(1) ok show ?thesis by auto
    qed
  qed
qed

lemma ref_ioctl_keeps:
  assumes ok: "module_ok cuda s0 m L" and rq: "request_ok cmd um arg" and lim: "limit_ok mx" and api: "api_documented api"
  shows "\<exists>e um' m' L'. ref_ioctl cuda api mx c pid cmd arg um m = Some (e, um', m') \<and> module_ok cuda s0 m' L'"
proof (cases "find_dev_by_inode c m")
  case None
  with ok show ?thesis by (auto simp: ref_ioctl_def)
next
  case dev: (Some dev)
  show ?thesis
  proof (cases "find_ref dev (Some pid) m")
    case None
    with dev ok show ?thesis by (auto simp: ref_ioctl_def)
  next
    case (Some i)
    note i = find_refD(1,2) [OF Some]
    let ?rq = "read_request um arg"
    have big: "unat (rq_n_pages ?rq) < 2 ^ 60" if "\<not> of_int mx \<le> rq_n_pages ?rq" using limit_pages [OF lim that] .
    note user = map_user_request [OF ok i big _ api] and gpu = map_gpu_request [OF _ i big _ api]
    show ?thesis
      using user [of "rq_vaddr_start ?rq" "rq_ioaddrs ?rq" um] gpu [of s0 L "rq_vaddr_start ?rq" "rq_ioaddrs ?rq" um]
        unmap_request [OF ok i, of "load64 um arg" um] rq dev Some ok
      by (cases cuda) (auto simp: ref_ioctl_def request_ok_def Let_def)
  qed
qed


text \<open>Every request returns, also one that names the page at address 0.\<close>

lemma map_request_returns:
  assumes "maps_outcome m L l v P r" "\<And>km. P km \<Longrightarrow> km_n_addrs km \<noteq> None"
  shows "r \<bind> copy_addrs a um \<noteq> None"
  using assms(1)
proof (cases rule: maps_outcomeE)
  case (ok p km m')
  then show ?thesis using assms(2) [OF ok(4)] by (auto simp: copy_addrs_def)
qed (simp add: copy_addrs_def)

lemma ref_ioctl_returns:
  assumes ok: "module_ok cuda s0 m L" and lim: "limit_ok mx" and api: "api_documented api"
  shows "ref_ioctl cuda api mx c pid cmd arg um m \<noteq> None"
proof (cases "request_ok cmd um arg \<or> find_dev_by_inode c m = None \<or> (\<exists>dev. find_dev_by_inode c m = Some dev \<and> find_ref dev (Some pid) m = None)")
  case True
  then show ?thesis using ref_ioctl_keeps [OF ok _ lim api, of cmd um arg c pid] by (auto simp: ref_ioctl_def)
next
  case False
  then obtain dev i where d: "find_dev_by_inode c m = Some dev" "find_ref dev (Some pid) m = Some i" by auto
  note i = find_refD(1,2) [OF d(2)]
  let ?rq = "read_request um arg"
  have mo: "maps_ok m L" "ref_ok cuda m L i" using ok i(1) by (simp_all add: module_ok_def module_core_def)
  then obtain pdev where pd: "cd_pdev (mo_devs m ! dev) = Some pdev" using i(2) by (auto simp: ref_ok_def)
  have cmd: "cmd = NVM_MAP_HOST_MEMORY \<or> cmd = NVM_MAP_DEVICE_MEMORY" using False by (auto simp: request_ok_def)
  have user: "map_user_pages api i (rq_vaddr_start ?rq) (rq_n_pages ?rq) m \<bind> copy_addrs (rq_ioaddrs ?rq) um \<noteq> None"
    if "\<not> of_int mx \<le> rq_n_pages ?rq"
  proof (cases "rq_n_pages ?rq = 0")
    case False
    show ?thesis
      by (rule map_request_returns [OF map_user_pages_spec [OF mo(1) i pd False limit_pages [OF lim that] api]]) (use user_addrs_okD in fastforce)
  qed (simp add: map_user_pages_def copy_addrs_def)
  have gpu: "map_gpu_memory api i (rq_vaddr_start ?rq) (rq_n_pages ?rq) m \<bind> copy_addrs (rq_ioaddrs ?rq) um \<noteq> None"
    if "\<not> of_int mx \<le> rq_n_pages ?rq"
  proof (cases "rq_n_pages ?rq = 0")
    case False
    show ?thesis
      by (rule map_request_returns [OF map_gpu_memory_spec [OF mo(1) i False limit_pages [OF lim that] api]]) (rule gpu_addrs_okD)
  qed (simp add: map_gpu_memory_def copy_addrs_def)
  have h: "NVM_MAP_HOST_MEMORY \<noteq> NVM_MAP_DEVICE_MEMORY" "NVM_UNMAP_MEMORY \<noteq> NVM_MAP_DEVICE_MEMORY"
    by (simp_all add: NVM_MAP_HOST_MEMORY_def NVM_MAP_DEVICE_MEMORY_def NVM_UNMAP_MEMORY_def IOW_def)
  from cmd show ?thesis using d user gpu h by (cases cuda) (auto simp: ref_ioctl_def Let_def)
qed

subsection \<open>GPU memory that goes away\<close>

lemma free_callback_keeps:
  assumes ok: "module_ok cuda s0 m L" and km: "mo_maps m p = Some km" "km_pages km = Ptr (Page_table t)"
  shows "\<exists>m'. free_callback p m = Some m' \<and> module_ok cuda s0 m' L"
proof -
  have mo: "maps_ok m L" "listed m L" using ok by (simp_all add: module_ok_def module_core_def)
  from mo(2) km(1) obtain l where l: "l \<in> list_heads m" "p \<in> set (L l)" by (auto simp: listed_def)
  have "md_kind l km" using maps_okD(3) [OF mo(1) l] km(1) by auto
  then obtain i where i: "l = Gpu_list i" using km(2) by (auto simp: md_kind_def user_map_def split: mptr.splits)
  from free_callback_spec [OF mo(1) _ _ km, of i] l i obtain m' where
    m': "free_callback p m = Some m'" "mo_refs m' = mo_refs m" "mo_devs m' = mo_devs m" "maps_ok m' L" "dom (mo_maps m') = dom (mo_maps m)"
      "maps_held m L = (md_res m p - {#(Heap, p)#}) + maps_held m' L" "gains (mo_os m') (mo_os m) (md_res m p - {#(Heap, p)#})"
    by auto
  have "mo_maps m' q \<noteq> None \<longleftrightarrow> mo_maps m q \<noteq> None" for q using m'(5) by (auto simp: dom_def)
  then have "listed m' L" using mo(2) list_heads_cong [of m' m] m'(2) by (simp add: listed_def)
  moreover have "ref_ok cuda m' L j" if "j < length (mo_refs m)" for j
    using ref_ok_cong [OF m'(2,3)] ok that by (simp add: module_ok_def module_core_def)
  ultimately have "module_ok cuda s0 m' L" using m' by (intro module_ok_drop [OF ok _ _ _ _ _ m'(7,6)]) simp_all
  with m'(1) show ?thesis by blast
qed


subsection \<open>Devices\<close>

lemma devs_held_split:
  assumes "k < length ds"
  obtains rest where "devs_held ds = dev_held (ds ! k) + rest" "\<And>d. devs_held (ds[k := d]) = dev_held d + rest"
proof -
  let ?rest = "devs_held (take k ds @ drop (Suc k) ds)"
  have "devs_held (ds[k := d]) = dev_held d + ?rest" for d
    using assms by (simp add: upd_conv_take_nth_drop devs_held_def ac_simps)
  moreover from this [of "ds ! k"] have "devs_held ds = dev_held (ds ! k) + ?rest" by simp
  ultimately show thesis using that by blast
qed

lemma devs_ok_upd:
  assumes ok: "devs_ok ds" and k: "k < length ds" and d: "dev_ok d" "cd_pdev d \<noteq> None \<Longrightarrow> cd_chrdev d \<noteq> None" "cd_cdev d = cd_cdev (ds ! k)"
    and new: "\<And>i. i < length ds \<Longrightarrow> i \<noteq> k \<Longrightarrow> cd_pdev d \<noteq> None \<Longrightarrow> cd_pdev (ds ! i) \<noteq> cd_pdev d"
  shows "devs_ok (ds[k := d])"
proof -
  have "map cd_cdev (ds[k := d]) = map cd_cdev ds" using k d(3) by (simp add: map_update list_update_same_conv)
  then have "distinct (map cd_cdev (ds[k := d]))" using ok by (simp add: devs_ok_def)
  moreover have "dev_ok x \<and> (cd_pdev x \<noteq> None \<longrightarrow> cd_chrdev x \<noteq> None)" if "x \<in> set (ds[k := d])" for x
    using set_update_subset_insert [of ds k d] that ok d(1,2) by (auto simp: devs_ok_def)
  moreover have "i = j" if "i < length ds" "j < length ds" "cd_pdev (ds[k := d] ! i) \<noteq> None"
    "cd_pdev (ds[k := d] ! i) = cd_pdev (ds[k := d] ! j)" for i j
    using that ok new [of i] new [of j] by (cases "i = k"; cases "j = k") (auto simp: devs_ok_def)
  ultimately show ?thesis unfolding devs_ok_def length_list_update by blast
qed

lemma module_ok_devs:
  assumes ok: "module_core cuda m L" and same: "mo_refs m' = mo_refs m" "mo_lists m' = mo_lists m" "mo_maps m' = mo_maps m"
    and d: "devs_ok (mo_devs m')" "\<And>i. i < length (mo_refs m) \<Longrightarrow> ref_ok cuda m' L i"
    and g: "gains s0 (mo_os m') (devs_held (mo_devs m') + maps_held m L)" "os_next (mo_os m) \<le> os_next (mo_os m')"
  shows "module_ok cuda s0 m' L"
proof -
  have H: "list_heads m' = list_heads m" by (rule list_heads_cong) (simp add: same)
  have held: "maps_held m' L = maps_held m L" by (rule maps_held_frame) (simp_all add: same)
  have mo: "maps_ok m L" "listed m L" using ok by (simp_all add: module_core_def)
  have "p < os_next (mo_os m')" if "mo_maps m p \<noteq> None" for p
    using mo(1) that g(2) less_le_trans unfolding maps_ok_def by blast
  moreover have "maps_held m L \<subseteq># os_live (mo_os m')" using g(1) by (simp add: gains_def ac_simps)
  ultimately have "maps_ok m' L" using mo(1) unfolding maps_ok_def H held same by blast
  moreover have "listed m' L" using mo(2) unfolding listed_def H same .
  ultimately show ?thesis using d g(1) held by (simp add: module_ok_def module_core_def same)
qed

text \<open>The loop that takes a device slot.\<close>

lemma ctrl_dev_get_taken: "dev_ok dev \<Longrightarrow> cd_pdev dev \<noteq> None \<Longrightarrow> ctrl_dev_get dev pdev = (False, dev)"
  by (simp add: ctrl_dev_get_def test_and_set_bit_def dev_ok_def set_bit_same Let_def)

definition got_dev :: "nat \<Rightarrow> ctrl_dev \<Rightarrow> ctrl_dev" where
  "got_dev pdev dev = dev\<lparr>cd_in_use := set_bit 1 (cd_in_use dev), cd_pdev := Some pdev\<rparr>"

lemma dev_get_loop_spec:
  "i + n = length (mo_devs m) \<Longrightarrow> devs_ok (mo_devs m) \<Longrightarrow>
   dev_get_loop pdev i n m =
     (case scan (\<lambda>dev. cd_pdev dev = None) i (drop i (mo_devs m)) of
        None \<Rightarrow> (None, m)
      | Some k \<Rightarrow> (Some k, m\<lparr>mo_devs := (mo_devs m)[k := got_dev pdev (mo_devs m ! k)]\<rparr>))"
proof (induction n arbitrary: i)
  case 0
  then show ?case by simp
next
  case (Suc n)
  then have i: "i < length (mo_devs m)" by simp
  then have dev: "dev_ok (mo_devs m ! i)" using Suc.prems(2) by (simp add: devs_ok_def)
  have d: "drop i (mo_devs m) = mo_devs m ! i # drop (Suc i) (mo_devs m)" using i by (simp add: Cons_nth_drop_Suc)
  show ?case
  proof (cases "cd_pdev (mo_devs m ! i) = None")
    case True
    with ctrl_dev_get_spec [OF dev] show ?thesis by (simp add: d got_dev_def)
  next
    case False
    with Suc.IH [of "Suc i"] Suc.prems ctrl_dev_get_taken [OF dev False] show ?thesis by (auto simp: d)
  qed
qed

text \<open>Giving the slot back undoes taking it.\<close>

lemma clear_set_bit: "\<not> bit (w :: u64) n \<Longrightarrow> clear_bit n (set_bit n w) = w"
  by (rule bit_word_eqI) (auto simp: clear_bit_def bit_simps)

lemma put_got_dev:
  assumes "dev_ok dev" "cd_pdev dev = None" "i < length (mo_devs m)" "mo_devs m ! i = got_dev pdev dev"
  shows "put_dev i m = m\<lparr>mo_devs := (mo_devs m)[i := dev]\<rparr>"
proof -
  have c: "cd_chrdev dev = None" "\<not> bit (cd_in_use dev) 1" using assms(1,2) by (simp_all add: dev_ok_def)
  have "(got_dev pdev dev)\<lparr>cd_pdev := None, cd_in_use := clear_bit 1 (set_bit 1 (cd_in_use dev))\<rparr> = dev"
    unfolding clear_set_bit [OF c(2)] using assms(2) by (simp add: got_dev_def)
  then show ?thesis using c(1) assms(4) by (simp add: put_dev_def ctrl_dev_put_def ctrl_dev_chrdev_remove_def got_dev_def)
qed


text \<open>
  Adding a device: on every error path the slot is free again and nothing is held; on success the slot
  holds the region, the enabled device and the character device.
\<close>

definition errno_documented :: "os \<Rightarrow> bool" where
  "errno_documented s \<longleftrightarrow> (\<forall>c. os_env s c \<le> 0)"

lemma acquire_at_err: "acquire_at k h s = (e, s') \<Longrightarrow> errno_documented s \<Longrightarrow> e < 0 \<longleftrightarrow> e \<noteq> 0"
  by (auto simp: acquire_at_def sys_call_def errno_documented_def order_less_le split: if_splits)

lemma gains_errno: "gains s s' r \<Longrightarrow> errno_documented s' = errno_documented s"
  by (simp add: gains_def errno_documented_def)

lemma chrdev_create_next: "ctrl_dev_chrdev_create dev s = (e, dev', s') \<Longrightarrow> os_next s \<le> os_next s'"
  by (auto simp: ctrl_dev_chrdev_create_def cdev_add_def device_create_def sys_call_def split: if_splits)

lemma add_pci_dev_cases:
  assumes devs: "devs_ok (mo_devs m)" and env: "errno_documented (mo_os m)" and add: "add_pci_dev pdev m = (e, m')"
  shows "if e \<noteq> 0 then m' = m\<lparr>mo_os := mo_os m'\<rparr> \<and> gains (mo_os m) (mo_os m') {#} \<and> os_next (mo_os m) \<le> os_next (mo_os m')
    else \<exists>k dev. k < length (mo_devs m) \<and> cd_pdev (mo_devs m ! k) = None
      \<and> m' = m\<lparr>mo_devs := (mo_devs m)[k := dev], mo_os := mo_os m', mo_master := insert pdev (mo_master m)\<rparr>
      \<and> cd_pdev dev = Some pdev \<and> cd_chrdev dev \<noteq> None \<and> dev_ok dev \<and> cd_cdev dev = cd_cdev (mo_devs m ! k)
      \<and> gains (mo_os m) (mo_os m') (dev_held dev) \<and> os_next (mo_os m) \<le> os_next (mo_os m')"
proof (cases "scan (\<lambda>dev. cd_pdev dev = None) 0 (mo_devs m)")
  case None
  with add dev_get_loop_spec [of 0 "length (mo_devs m)" m pdev] devs show ?thesis by (auto simp: add_pci_dev_def)
next
  case (Some k)
  from scan_SomeD [OF Some] have k: "k < length (mo_devs m)" "cd_pdev (mo_devs m ! k) = None" by auto
  let ?d = "mo_devs m ! k" let ?g = "got_dev pdev ?d" let ?m = "m\<lparr>mo_devs := (mo_devs m)[k := ?g]\<rparr>"
  have d: "dev_ok ?d" using devs k(1) by (simp add: devs_ok_def)
  then have g: "cd_chrdev ?g = None" "cd_pdev ?g = Some pdev" "dev_ok ?g" "cd_cdev ?g = cd_cdev ?d"
    using k(2) by (simp_all add: got_dev_def dev_ok_def)
  have get: "dev_get_loop pdev 0 (length (mo_devs m)) m = (Some k, ?m)"
    using dev_get_loop_spec [of 0 "length (mo_devs m)" m pdev] devs Some by simp
  have put: "put_dev k (?m\<lparr>mo_os := s\<rparr>) = m\<lparr>mo_os := s\<rparr>" for s
    using put_got_dev [OF d k(2), of k "?m\<lparr>mo_os := s\<rparr>" pdev] k(1) by simp
  obtain e1 s1 where c1: "acquire_at Pci_region pdev (mo_os m) = (e1, s1)" by fastforce
  obtain e2 s2 where c2: "acquire_at Pci_enabled pdev s1 = (e2, s2)" by fastforce
  obtain e3 dev s3 where c3: "ctrl_dev_chrdev_create ?g s2 = (e3, dev, s3)" by (metis prod_cases3)
  note a1 = acquire_at_cases [OF c1] and a2 = acquire_at_cases [OF c2] and a3 = ctrl_dev_chrdev_create_spec [OF c3 g(1)]
  note f3 = ctrl_dev_chrdev_create_fields [OF c3] and n3 = chrdev_create_next [OF c3]
  have e1: "errno_documented s1" using a1 env gains_errno by (cases "e1 = 0") auto
  note neg = acquire_at_err [OF c2 e1]
  consider (region) "e1 \<noteq> 0" | (enable) "e1 = 0" "e2 \<noteq> 0" | (chrdev) "e1 = 0" "e2 = 0" "e3 \<noteq> 0" | (ok) "e1 = 0" "e2 = 0" "e3 = 0"
    by blast
  then show ?thesis
  proof cases
    case region
    then have "e = e1" "m' = m\<lparr>mo_os := s1\<rparr>" using add get c1 by (auto simp: add_pci_dev_def put)
    with region a1 show ?thesis by simp
  next
    case enable
    have "gains (mo_os m) (release Pci_region pdev s2) {#}"
      using release_undo [of "mo_os m" s2 "{#}" Pci_region pdev] gains_trans [of "mo_os m" s1 _ s2] a1 a2 enable by fastforce
    moreover have "e = e2" "m' = m\<lparr>mo_os := release Pci_region pdev s2\<rparr>"
      using enable add get c1 c2 neg by (auto simp: add_pci_dev_def put)
    ultimately show ?thesis using enable a1 a2 by simp
  next
    case chrdev
    have "gains (mo_os m) s3 ({#(Pci_enabled, pdev)#} + {#(Pci_region, pdev)#})"
      using gains_trans [of "mo_os m" s1 _ s2] gains_trans [of "mo_os m" s2 _ s3] a1 a2 a3 chrdev by (fastforce simp: add.commute)
    then have "gains (mo_os m) (release Pci_enabled pdev (release Pci_region pdev s3)) {#}"
      using release_undo [of "mo_os m" s3 "{#(Pci_enabled, pdev)#}" Pci_region pdev]
        release_undo [of "mo_os m" "release Pci_region pdev s3" "{#}" Pci_enabled pdev] by simp
    moreover have dev: "dev = ?g" using a3 chrdev by simp
    moreover have "e = e3" "m' = m\<lparr>mo_os := release Pci_enabled pdev (release Pci_region pdev s3)\<rparr>"
      using chrdev add get c1 c2 c3 k(1) put by (auto simp: add_pci_dev_def Let_def dev)
    ultimately show ?thesis using chrdev a1 a2 n3 by simp
  next
    case ok
    have "gains (mo_os m) s3 (({#(Pci_region, pdev)#} + {#(Pci_enabled, pdev)#}) + dev_res dev)"
      using gains_trans [of "mo_os m" s1 _ s2] gains_trans [of "mo_os m" s2 _ s3] a1 a2 a3 ok by fastforce
    then have "gains (mo_os m) s3 (dev_held dev)" using f3 g(2) by (simp add: dev_held_def ac_simps)
    moreover have "dev_ok dev" using g(2,3) f3 a3 ok by (auto simp: dev_ok_def)
    moreover have "e = 0" "m' = m\<lparr>mo_devs := (mo_devs m)[k := dev], mo_os := s3, mo_master := insert pdev (mo_master m)\<rparr>"
      using ok add get c1 c2 c3 k(1) by (auto simp: add_pci_dev_def Let_def)
    ultimately show ?thesis using ok a1 a2 a3 f3 g n3 k by simp (intro exI [of _ k] exI [of _ dev], auto)
  qed
qed


lemma ref_ok_dev:
  assumes "ref_ok cuda m L j" "mo_refs m' = mo_refs m" "length (mo_devs m') = length (mo_devs m)"
    and "\<And>d. d < length (mo_devs m) \<Longrightarrow> rf_ctrl (mo_refs m ! j) = Some d \<Longrightarrow> cd_pdev (mo_devs m ! d) \<noteq> None \<Longrightarrow> cd_pdev (mo_devs m' ! d) \<noteq> None"
  shows "ref_ok cuda m' L j"
  using assms by (auto simp: ref_ok_def split: option.splits)

lemma add_pci_dev_keeps:
  assumes ok: "module_ok cuda s0 m L" and env: "errno_documented s0" and new: "find_dev_by_pdev pdev m = None"
    and add: "add_pci_dev pdev m = (e, m')"
  shows "module_ok cuda s0 m' L"
proof -
  have co: "module_core cuda m L" "devs_ok (mo_devs m)" and g: "gains s0 (mo_os m) (devs_held (mo_devs m) + maps_held m L)"
    using ok by (simp_all add: module_ok_def module_core_def)
  have refs: "ref_ok cuda m L j" if "j < length (mo_refs m)" for j using co(1) that by (simp add: module_core_def)
  have e0: "errno_documented (mo_os m)" using gains_errno [OF g] env by simp
  note c = add_pci_dev_cases [OF co(2) e0 add]
  show ?thesis
  proof (cases "e = 0")
    case False
    with c have m': "m' = m\<lparr>mo_os := mo_os m'\<rparr>" "gains (mo_os m) (mo_os m') {#}" "os_next (mo_os m) \<le> os_next (mo_os m')" by auto
    have f: "mo_refs m' = mo_refs m" "mo_lists m' = mo_lists m" "mo_maps m' = mo_maps m" "mo_devs m' = mo_devs m"
      by (subst m'(1), simp)+
    show ?thesis
      by (rule module_ok_devs [OF co(1) f(1-3)])
         (use co(2) refs f ref_ok_cong [OF f(1,4)] m'(3) gains_trans [OF g m'(2)] in simp_all)
  next
    case True
    with c obtain k dev where k: "k < length (mo_devs m)" "cd_pdev (mo_devs m ! k) = None"
      and m': "m' = m\<lparr>mo_devs := (mo_devs m)[k := dev], mo_os := mo_os m', mo_master := insert pdev (mo_master m)\<rparr>"
      and dev: "cd_pdev dev = Some pdev" "cd_chrdev dev \<noteq> None" "dev_ok dev" "cd_cdev dev = cd_cdev (mo_devs m ! k)"
      and g': "gains (mo_os m) (mo_os m') (dev_held dev)" "os_next (mo_os m) \<le> os_next (mo_os m')" by auto
    have f: "mo_refs m' = mo_refs m" "mo_lists m' = mo_lists m" "mo_maps m' = mo_maps m" "mo_devs m' = (mo_devs m)[k := dev]"
      by (subst m', simp)+
    have "cd_pdev (mo_devs m ! i) \<noteq> Some pdev" if "i < length (mo_devs m)" for i
      using new that by (auto simp: find_dev_by_pdev_def scan_None_iff)
    then have "devs_ok (mo_devs m')" unfolding f using dev by (intro devs_ok_upd [OF co(2) k(1)]) auto
    moreover obtain rest where rest: "devs_held (mo_devs m) = dev_held (mo_devs m ! k) + rest"
      "\<And>d. devs_held ((mo_devs m)[k := d]) = dev_held d + rest" using devs_held_split [OF k(1)] by metis
    have "dev_held (mo_devs m ! k) = {#}"
      using k co(2) by (auto simp: dev_held_def dev_res_def devs_ok_def dev_ok_def)
    then have "gains s0 (mo_os m') (devs_held (mo_devs m') + maps_held m L)"
      using gains_trans [OF g g'(1)] rest f(4) by (simp add: ac_simps)
    moreover have "ref_ok cuda m' L j" if "j < length (mo_refs m)" for j
      by (rule ref_ok_dev [OF refs [OF that] f(1)]) (use f(4) dev(1) k in \<open>auto simp: nth_list_update\<close>)
    ultimately show ?thesis using g'(2) by (intro module_ok_devs [OF co(1) f(1-3)]) auto
  qed
qed

text \<open>Dropping the references of a device ends: each round frees one slot.\<close>

lemma drop_refs_spec:
  assumes "module_core cuda m L"
  shows "\<exists>m' L' r. drop_refs cuda d m = Some m' \<and> module_core cuda m' L' \<and> mo_devs m' = mo_devs m
    \<and> length (mo_refs m') = length (mo_refs m) \<and> find_ref d None m' = None
    \<and> gains (mo_os m') (mo_os m) r \<and> maps_held m L = r + maps_held m' L'"
  using assms
proof (induction "card {i. i < length (mo_refs m) \<and> rf_ctrl (mo_refs m ! i) = Some d}" arbitrary: m L rule: less_induct)
  case less
  show ?case
  proof (cases "find_ref d None m")
    case None
    then show ?thesis using less.prems by (subst drop_refs.simps) (auto intro!: exI [of _ L])
  next
    case (Some i)
    note i = find_refD(1,2) [OF Some]
    let ?A = "\<lambda>m. {i. i < length (mo_refs m) \<and> rf_ctrl (mo_refs m ! i) = Some d}"
    from ctrl_ref_put_core [OF less.prems i(1)] obtain m1 L1 r1 where
      m1: "ctrl_ref_put cuda i m = Some m1" "mo_devs m1 = mo_devs m"
        "mo_refs m1 = (mo_refs m)[i := \<lparr>rf_flags = clear_bit IN_USE_BIT (rf_flags (mo_refs m ! i)), rf_ctrl = None, rf_owner = 0\<rparr>]"
        "module_core cuda m1 L1" "gains (mo_os m1) (mo_os m) r1" "maps_held m L = r1 + maps_held m1 L1" by blast
    have "?A m1 = ?A m - {i}" using m1(3) i(1) by (auto simp: nth_list_update split: if_splits)
    moreover have "i \<in> ?A m" using i by simp
    moreover have "finite (?A m)" by simp
    ultimately have "card (?A m1) < card (?A m)" by (simp only: card_Diff1_less)
    from less.hyps [OF this m1(4)] obtain m2 L2 r2 where
      m2: "drop_refs cuda d m1 = Some m2" "module_core cuda m2 L2" "mo_devs m2 = mo_devs m1" "length (mo_refs m2) = length (mo_refs m1)"
        "find_ref d None m2 = None" "gains (mo_os m2) (mo_os m1) r2" "maps_held m1 L1 = r2 + maps_held m2 L2" by blast
    have "gains (mo_os m2) (mo_os m) (r2 + r1)" by (rule gains_trans [OF m2(6) m1(5)])
    moreover have "maps_held m L = (r2 + r1) + maps_held m2 L2" using m1(6) m2(7) by (simp add: ac_simps)
    moreover have "drop_refs cuda d m = Some m2" using Some m1(1) m2(1) by (subst drop_refs.simps) simp
    ultimately show ?thesis using m1(2,3) m2 by (intro exI [of _ m2] exI [of _ L2] exI [of _ "r2 + r1"]) simp
  qed
qed


text \<open>Removing a device gives back what its slot holds, the references to it and their mappings.\<close>

lemma maps_ok_os:
  assumes "maps_ok m L" "maps_held m L \<subseteq># os_live s" "os_next (mo_os m) \<le> os_next s"
  shows "maps_ok (m\<lparr>mo_master := ms, mo_os := s\<rparr>) L"
proof -
  let ?m = "m\<lparr>mo_master := ms, mo_os := s\<rparr>"
  have H: "list_heads ?m = list_heads m" by (rule list_heads_cong) simp
  have "maps_held ?m L = maps_held m L" by (rule maps_held_frame) simp_all
  moreover have "p < os_next s" if "mo_maps m p \<noteq> None" for p
    using assms(1,3) that less_le_trans unfolding maps_ok_def by blast
  ultimately show ?thesis using assms(1,2) unfolding maps_ok_def H by simp
qed

lemma remove_pci_dev_keeps:
  assumes ok: "module_ok cuda s0 m L" and bound: "find_dev_by_pdev pdev m = Some d"
  shows "\<exists>m' L'. remove_pci_dev cuda (Some pdev) m = Some m' \<and> module_ok cuda s0 m' L'
    \<and> (\<exists>dev. mo_devs m' = (mo_devs m)[d := dev] \<and> cd_pdev dev = None)"
proof -
  note d = find_dev_by_pdevD [OF bound, THEN conjunct1] find_dev_by_pdevD [OF bound, THEN conjunct2]
  have co: "maps_ok m L" "listed m L" "devs_ok (mo_devs m)" "\<And>j. j < length (mo_refs m) \<Longrightarrow> ref_ok cuda m L j"
    and g: "gains s0 (mo_os m) (devs_held (mo_devs m) + maps_held m L)"
    using ok by (simp_all add: module_ok_def module_core_def)
  let ?dev = "mo_devs m ! d"
  obtain rest where rest: "devs_held (mo_devs m) = dev_held ?dev + rest"
    "\<And>x. devs_held ((mo_devs m)[d := x]) = dev_held x + rest" using devs_held_split [OF d(1)] by metis
  have held: "dev_held ?dev = dev_res ?dev + {#(Pci_region, pdev)#} + {#(Pci_enabled, pdev)#}"
    using d(2) by (simp add: dev_held_def)
  define s1 where "s1 = release Pci_region pdev (release Pci_enabled pdev (mo_os m))"
  have "gains s0 (mo_os m) (((rest + maps_held m L + dev_res ?dev) + {#(Pci_region, pdev)#}) + {#(Pci_enabled, pdev)#})"
    using g unfolding rest(1) held by (simp add: ac_simps)
  from release_undo [OF release_undo [OF this]] have g1: "gains s0 s1 (rest + maps_held m L + dev_res ?dev)"
    by (simp add: s1_def)
  define m1 where "m1 = m\<lparr>mo_master := mo_master m - {pdev}, mo_os := s1\<rparr>"
  have held1: "maps_held m1 L = maps_held m L" by (rule maps_held_frame) (simp_all add: m1_def)
  have "maps_held m L \<subseteq># os_live s1" using g1 by (simp add: gains_def ac_simps)
  then have "maps_ok m1 L" unfolding m1_def by (rule maps_ok_os [OF co(1)]) (simp add: s1_def)
  moreover have "listed m1 L" using co(2) list_heads_cong [of m1 m] by (simp add: listed_def m1_def)
  moreover have "ref_ok cuda m1 L j" if "j < length (mo_refs m)" for j
    using co(4) [OF that] ref_ok_cong [of m1 m] by (simp add: m1_def)
  ultimately have "module_core cuda m1 L" using co(3) by (simp add: module_core_def m1_def)
  from drop_refs_spec [OF this, of d] obtain m2 L2 r where
    m2: "drop_refs cuda d m1 = Some m2" "module_core cuda m2 L2" "mo_devs m2 = mo_devs m" "length (mo_refs m2) = length (mo_refs m)"
      "find_ref d None m2 = None" "gains (mo_os m2) s1 r" "maps_held m L = r + maps_held m2 L2"
    unfolding held1 by (auto simp: m1_def)
  have "gains s0 s1 ((rest + maps_held m2 L2 + dev_res ?dev) + r)" using g1 m2(7) by (simp add: ac_simps)
  from gains_undo_rest [OF this m2(6)] have g2: "gains s0 (mo_os m2) (rest + maps_held m2 L2 + dev_res ?dev)" .
  let ?cl = "?dev\<lparr>cd_chrdev := None, cd_pdev := None, cd_in_use := clear_bit 1 (cd_in_use ?dev)\<rparr>"
  have "dev_res ?dev \<subseteq># os_live (mo_os m2)" using g2 by (simp add: gains_def)
  from ctrl_dev_put_spec [OF this] obtain s3 where s3: "ctrl_dev_put ?dev (mo_os m2) = (?cl, s3)" "gains s3 (mo_os m2) (dev_res ?dev)"
    by blast
  have n3: "os_next s3 = os_next (mo_os m2)"
    using s3(1) by (auto simp: ctrl_dev_put_def ctrl_dev_chrdev_remove_def Let_def split: if_splits)
  define m3 where "m3 = m2\<lparr>mo_devs := (mo_devs m)[d := ?cl], mo_os := s3\<rparr>"
  have put: "put_dev d m2 = m3" using s3(1) m2(3) by (simp add: put_dev_def m3_def)
  have "dev_held ?cl = {#}" by (simp add: dev_held_def dev_res_def)
  then have g3: "gains s0 (mo_os m3) (devs_held (mo_devs m3) + maps_held m2 L2)"
    using gains_undo_rest [OF g2 s3(2)] rest(2) by (simp add: m3_def)
  have free: "rf_ctrl (mo_refs m2 ! j) \<noteq> Some d" if "j < length (mo_refs m2)" for j using m2(5) that by (simp add: find_ref_None)
  have "module_ok cuda s0 m3 L2"
  proof (rule module_ok_devs [OF m2(2) _ _ _ _ _ g3])
    show "devs_ok (mo_devs m3)" using d(1) by (auto simp: m3_def dev_ok_def intro!: devs_ok_upd [OF co(3)])
  next
    fix j assume j: "j < length (mo_refs m2)"
    then have "ref_ok cuda m2 L2 j" using m2(2) by (simp add: module_core_def)
    then show "ref_ok cuda m3 L2 j"
      by (rule ref_ok_dev) (use m2(3) free [OF j] in \<open>auto simp: m3_def nth_list_update\<close>)
  qed (simp_all add: m3_def n3)
  moreover have "remove_pci_dev cuda (Some pdev) m = Some m3"
  proof -
    have "find_dev_by_pdev pdev m1 = Some d" using bound by (simp add: find_dev_by_pdev_def m1_def)
    then show ?thesis using m2(1) put by (simp add: remove_pci_dev_def Let_def m1_def s1_def)
  qed
  ultimately show ?thesis by (intro exI [of _ m3] exI [of _ L2]) (auto simp: m3_def)
qed

end
