(* ===== verification/Module_Driver.thy ===== *)
theory Module_Driver
  imports Module_Inv
begin

unbundle bit_operations_syntax

text \<open>
  The kernel module as a state machine: the events the PCI core, the processes and the GPU driver can
  cause between loading and unloading, in any order.  The invariant holds in every state that is
  reached, no operation faults or runs forever, and unloading gives back everything.
\<close>

section \<open>Events\<close>

datatype kevent =
    Probe nat
  | Remove nat
  | Open_file nat int
  | Close_file nat int
  | Ioctl nat int u32 u64 mem
  | Gpu_gone nat

text \<open>
  The PCI core adds a device only while it is not bound, and removes only one that is.  The callback
  comes for memory that is mapped.  A process may send any request.
\<close>

inductive module_step :: "bool \<Rightarrow> kapi \<Rightarrow> int \<Rightarrow> kmodule \<Rightarrow> kevent \<Rightarrow> kmodule \<Rightarrow> bool" for cuda api mx where
  probe: "find_dev_by_pdev pdev m = None \<Longrightarrow> add_pci_dev pdev m = (e, m') \<Longrightarrow> module_step cuda api mx m (Probe pdev) m'"
| remove: "find_dev_by_pdev pdev m = Some d \<Longrightarrow> remove_pci_dev cuda (Some pdev) m = Some m' \<Longrightarrow>
    module_step cuda api mx m (Remove pdev) m'"
| open_file: "ref_get c pid m = (e, m') \<Longrightarrow> module_step cuda api mx m (Open_file c pid) m'"
| close_file: "ref_put cuda c pid m = Some (e, m') \<Longrightarrow> module_step cuda api mx m (Close_file c pid) m'"
| ioctl: "ref_ioctl cuda api mx c pid cmd arg um m = Some (e, um', m') \<Longrightarrow>
    module_step cuda api mx m (Ioctl c pid cmd arg um) m'"
| gpu_gone: "mo_maps m p = Some km \<Longrightarrow> km_pages km = Ptr (Page_table t) \<Longrightarrow> free_callback p m = Some m' \<Longrightarrow>
    module_step cuda api mx m (Gpu_gone p) m'"

text \<open>A history: the events, oldest first, and the state they lead to.\<close>

inductive module_run :: "bool \<Rightarrow> kapi \<Rightarrow> int \<Rightarrow> kmodule \<Rightarrow> kevent list \<Rightarrow> kmodule \<Rightarrow> bool" for cuda api mx m where
  run_start: "module_run cuda api mx m [] m"
| run_step: "module_run cuda api mx m evs m1 \<Longrightarrow> module_step cuda api mx m1 ev m2 \<Longrightarrow> module_run cuda api mx m (evs @ [ev]) m2"

text \<open>
  What the properties ask of a history: no process sends a mapping request for the page at address 0.  Such a
  request is answered with success, but \<open>list_insert\<close> does not put the descriptor on a list, and it is lost.
\<close>

fun event_ok :: "kevent \<Rightarrow> bool" where
  "event_ok (Ioctl c pid cmd arg um) \<longleftrightarrow> request_ok cmd um arg"
| "event_ok _ \<longleftrightarrow> True"

abbreviation no_page_0 :: "kevent list \<Rightarrow> bool" where
  "no_page_0 evs \<equiv> list_all event_ok evs"

text \<open>The events that can occur in a state.\<close>

fun event_possible :: "kmodule \<Rightarrow> kevent \<Rightarrow> bool" where
  "event_possible m (Probe pdev) \<longleftrightarrow> find_dev_by_pdev pdev m = None"
| "event_possible m (Remove pdev) \<longleftrightarrow> find_dev_by_pdev pdev m \<noteq> None"
| "event_possible m (Gpu_gone p) \<longleftrightarrow> (\<exists>km t. mo_maps m p = Some km \<and> km_pages km = Ptr (Page_table t))"
| "event_possible m _ \<longleftrightarrow> True"

inductive_cases module_stepE: "module_step cuda api mx m ev m'"

lemma module_step_keeps:
  assumes "module_step cuda api mx m ev m'" "event_ok ev" "module_ok cuda s0 m L" "api_documented api" "limit_ok mx" "errno_documented s0"
  shows "\<exists>L'. module_ok cuda s0 m' L'"
  using assms(1)
proof (cases rule: module_step.cases)
  case (probe pdev e)
  then show ?thesis using add_pci_dev_keeps [OF assms(3,6)] by blast
next
  case (remove pdev d)
  then show ?thesis using remove_pci_dev_keeps [OF assms(3)] by fastforce
next
  case (open_file c pid e)
  then show ?thesis using ref_get_keeps [OF assms(3)] by blast
next
  case (close_file c pid e)
  then show ?thesis using ref_put_keeps [OF assms(3), of c pid] by auto
next
  case (ioctl c pid cmd arg um e um')
  then have "request_ok cmd um arg" using assms(2) by simp
  then show ?thesis using ref_ioctl_keeps [OF assms(3) _ assms(5,4), of cmd um arg c pid] ioctl by auto
next
  case (gpu_gone p km t)
  then show ?thesis using free_callback_keeps [OF assms(3)] by fastforce
qed

lemma module_step_possible:
  assumes "module_ok cuda s0 m L" "api_documented api" "limit_ok mx" "event_possible m ev"
  shows "\<exists>m'. module_step cuda api mx m ev m'"
proof (cases ev)
  case (Probe pdev)
  obtain e m' where "add_pci_dev pdev m = (e, m')" by fastforce
  then show ?thesis using Probe assms(4) by (auto intro: module_step.intros)
next
  case (Remove pdev)
  then obtain d where "find_dev_by_pdev pdev m = Some d" using assms(4) by auto
  with remove_pci_dev_keeps [OF assms(1) this] show ?thesis using Remove by (blast intro: module_step.intros)
next
  case (Open_file c pid)
  obtain e m' where "ref_get c pid m = (e, m')" by fastforce
  then show ?thesis using Open_file by (auto intro: module_step.intros)
next
  case (Close_file c pid)
  then show ?thesis using ref_put_keeps [OF assms(1), of c pid] by (blast intro: module_step.intros)
next
  case (Ioctl c pid cmd arg um)
  then show ?thesis using ref_ioctl_returns [OF assms(1,3,2), of c pid cmd arg um] by (auto intro: module_step.intros)
next
  case (Gpu_gone p)
  then obtain km t where "mo_maps m p = Some km" "km_pages km = Ptr (Page_table t)" using assms(4) by auto
  with free_callback_keeps [OF assms(1) this] show ?thesis using Gpu_gone by (blast intro: module_step.intros)
qed

lemma module_run_keeps:
  assumes "module_run cuda api mx m0 evs m" "no_page_0 evs" "module_ok cuda s0 m0 L0" "api_documented api" "limit_ok mx" "errno_documented s0"
  shows "\<exists>L. module_ok cuda s0 m L"
  using assms(1,2)
proof (induction rule: module_run.induct)
  case run_start
  then show ?case using assms(3) by blast
next
  case (run_step evs m1 ev m2)
  then have "no_page_0 evs" "event_ok ev" by simp_all
  with run_step module_step_keeps assms(4-6) show ?case by blast
qed

lemma scan_cong: "(\<And>x. x \<in> set xs \<Longrightarrow> P x = Q x) \<Longrightarrow> scan P i xs = scan Q i xs"
  by (induction xs arbitrary: i) auto

section \<open>Loading\<close>

lemma kcalloc_cases:
  assumes "kcalloc n sz s = (r, s')"
  shows "case r of None \<Rightarrow> gains s s' {#} | Some h \<Rightarrow> gains s s' {#(Heap, h)#}"
  using assms malloc_some [of s] malloc_none [of s]
  by (auto simp: kcalloc_def split: if_splits option.splits)

definition module_res :: "disnvme \<Rightarrow> res multiset" where
  "module_res g = {#(Heap, dn_devs_block g)#} + {#(Heap, dn_refs_block g)#} + {#(Chrdev_region, unat (dn_first g))#}
     + {#(Dev_class, dn_class g)#} + {#(Pci_driver, 0)#}"

lemma entry_cases:
  assumes entry: "disnvme_entry sz nd nr s = (e, r, s')" and env: "errno_documented s"
  shows "if e \<noteq> 0 then r = None \<and> gains s s' {#}
    else \<exists>g. r = Some g \<and> gains s s' (module_res g) \<and> mo_os (dn_module g) = s' \<and>
      mo_devs (dn_module g) = map (\<lambda>i. ctrl_dev_reset (zero_dev i) (dn_first g) i (Some (dn_class g)) DRIVER_NAME) [0..<nat nd] \<and>
      mo_refs (dn_module g) = replicate (nat nr) zero_ref \<and> mo_lists (dn_module g) = zero_lists (nat nr) \<and>
      mo_maps (dn_module g) = Map.empty"
proof -
  obtain r1 s1 where c1: "kcalloc (of_int nd) sz s = (r1, s1)" by fastforce
  obtain r2 s2 where c2: "kcalloc (of_int nr) 72 s1 = (r2, s2)" by fastforce
  define first :: u32 where "first = ucast (os_addr s2 (os_calls s2))"
  obtain e3 s3 where c3: "acquire_at Chrdev_region (unat first) s2 = (e3, s3)" by fastforce
  obtain e4 cls s4 where c4: "acquire Dev_class s3 = (e4, cls, s4)" by (metis prod_cases3)
  obtain e5 s5 where c5: "acquire_at Pci_driver 0 s4 = (e5, s5)" by fastforce
  note k1 = kcalloc_cases [OF c1] and k2 = kcalloc_cases [OF c2] and k3 = acquire_at_cases [OF c3]
    and k5 = acquire_at_cases [OF c5]
  show ?thesis
  proof (cases r1)
    case None
    with entry c1 k1 show ?thesis by (auto simp: disnvme_entry_def)
  next
    case r1: (Some h1)
    with k1 have g1: "gains s s1 {#(Heap, h1)#}" by simp
    show ?thesis
    proof (cases r2)
      case None
      with k2 have "gains s s2 ({#} + {#(Heap, h1)#})" using gains_trans [OF g1] by fastforce
      from release_undo [OF this] None entry c1 c2 r1 show ?thesis by (auto simp: disnvme_entry_def)
    next
      case r2: (Some h2)
      with k2 have g2: "gains s s2 ({#(Heap, h1)#} + {#(Heap, h2)#})" using gains_trans [OF g1] by fastforce
      have neg: "e3 < 0 \<longleftrightarrow> e3 \<noteq> 0" using acquire_at_err [OF c3] gains_errno [OF g2] env by simp
      show ?thesis
      proof (cases "e3 = 0")
        case False
        with k3 have "gains s s3 ({#(Heap, h1)#} + {#(Heap, h2)#})" using gains_trans [OF g2] by fastforce
        from release_undo [OF this] release_undo [of _ _ "{#}" Heap h1] False entry c1 c2 c3 r1 r2 neg
        show ?thesis by (auto simp: disnvme_entry_def first_def Let_def)
      next
        case e3: True
        with k3 have g3: "gains s s3 ({#(Heap, h1)#} + {#(Heap, h2)#} + {#(Chrdev_region, unat first)#})"
          using gains_trans [OF g2] by fastforce
        show ?thesis
        proof (cases "e4 = 0")
          case False
          with acquire_err [OF c4] have "gains s s4 ({#(Heap, h1)#} + {#(Heap, h2)#} + {#(Chrdev_region, unat first)#})"
            using gains_trans [OF g3] by fastforce
          from release_undo [OF release_undo [OF this]] release_undo [of _ _ "{#}" Heap h1] False entry c1 c2 c3 c4 r1 r2 e3
          show ?thesis by (auto simp: disnvme_entry_def first_def Let_def)
        next
          case e4: True
          with acquire_ok c4 have g4: "gains s s4 ({#(Heap, h1)#} + {#(Heap, h2)#} + {#(Chrdev_region, unat first)#} + {#(Dev_class, cls)#})"
            using gains_trans [OF g3] by blast
          show ?thesis
          proof (cases "e5 = 0")
            case False
            with k5 have "gains s s5 ({#(Heap, h1)#} + {#(Heap, h2)#} + {#(Chrdev_region, unat first)#} + {#(Dev_class, cls)#})"
              using gains_trans [OF g4] by fastforce
            from release_undo [OF release_undo [OF release_undo [OF this]]] release_undo [of _ _ "{#}" Heap h1]
              False entry c1 c2 c3 c4 c5 r1 r2 e3 e4
            show ?thesis by (auto simp: disnvme_entry_def first_def Let_def)
          next
            case True
            with k5 have "gains s s5 ({#(Heap, h1)#} + {#(Heap, h2)#} + {#(Chrdev_region, unat first)#} + {#(Dev_class, cls)#} + {#(Pci_driver, 0)#})"
              using gains_trans [OF g4] by fastforce
            then show ?thesis using True entry c1 c2 c3 c4 c5 r1 r2 e3 e4
              by (auto simp: disnvme_entry_def first_def Let_def module_res_def)
          qed
        qed
      qed
    qed
  qed
qed


lemma devs_held_none: "(\<And>dev. dev \<in> set ds \<Longrightarrow> dev_held dev = {#}) \<Longrightarrow> devs_held ds = {#}"
  by (induction ds) (simp_all add: devs_held_def)

lemma entry_module_ok:
  assumes "mo_devs m = map (\<lambda>i. ctrl_dev_reset (zero_dev i) first i (Some cls) nm) [0..<n]"
    and "mo_refs m = replicate k zero_ref" "mo_lists m = zero_lists k" "mo_maps m = Map.empty"
  shows "module_ok cuda (mo_os m) m (\<lambda>_. [])"
proof -
  have "devs_held (mo_devs m) = {#}"
    by (rule devs_held_none) (auto simp: assms(1) dev_held_def dev_res_def ctrl_dev_reset_def)
  moreover have "maps_held m (\<lambda>_. []) = {#}" by (simp add: maps_held_def)
  moreover have "list_ok (mo_lists m) l []" if "l \<in> list_heads m" for l
    using that by (auto simp: list_heads_def assms(2,3) zero_lists_def list_ok_def key_def)
  moreover have "devs_ok (mo_devs m)"
  proof -
    have "map cd_cdev (mo_devs m) = [0..<n]" by (simp add: assms(1) o_def ctrl_dev_reset_def zero_dev_def)
    moreover have "cd_pdev (mo_devs m ! i) = None" if "i < length (mo_devs m)" for i
      using that by (simp add: assms(1) ctrl_dev_reset_def)
    moreover have "dev_ok x \<and> cd_pdev x = None" if "x \<in> set (mo_devs m)" for x
      using that ctrl_dev_reset_ok by (auto simp: assms(1) ctrl_dev_reset_def)
    ultimately show ?thesis by (auto simp: devs_ok_def)
  qed
  moreover have "ref_ok cuda m (\<lambda>_. []) i" if "i < length (mo_refs m)" for i
    using that by (simp add: ref_ok_def assms(2) zero_ref_def)
  ultimately show ?thesis by (simp add: module_ok_def module_core_def maps_ok_def listed_def assms(4))
qed

section \<open>Unloading\<close>

definition bound_pdevs :: "kmodule \<Rightarrow> nat set" where
  "bound_pdevs m = {p. \<exists>i < length (mo_devs m). cd_pdev (mo_devs m ! i) = Some p}"

lemma bound_pdevs_iff: "p \<in> bound_pdevs m \<longleftrightarrow> (\<exists>d. find_dev_by_pdev p m = Some d)"
proof -
  have "find_dev_by_pdev p m = None \<longleftrightarrow> p \<notin> bound_pdevs m"
    by (auto simp: find_dev_by_pdev_def scan_None_iff bound_pdevs_def all_set_conv_all_nth)
  then show ?thesis by (metis not_None_eq)
qed

lemma bound_pdevs_remove:
  assumes "devs_ok (mo_devs m)" "find_dev_by_pdev p m = Some d" "mo_devs m' = (mo_devs m)[d := dev]" "cd_pdev dev = None"
  shows "bound_pdevs m' = bound_pdevs m - {p}"
proof -
  note d = find_dev_by_pdevD [OF assms(2)]
  have "cd_pdev (mo_devs m ! i) \<noteq> Some p" if "i < length (mo_devs m)" "i \<noteq> d" for i
    using assms(1) d that unfolding devs_ok_def by (metis option.distinct(1))
  then show ?thesis using d assms(4) unfolding bound_pdevs_def assms(3)
    by (auto simp: nth_list_update split: if_splits) (metis option.inject)
qed

lemma remove_all_spec:
  assumes "module_ok cuda s0 m L" "distinct bound" "set bound = bound_pdevs m"
  shows "\<exists>m' L'. remove_all cuda bound m = Some m' \<and> module_ok cuda s0 m' L' \<and> bound_pdevs m' = {}"
  using assms
proof (induction bound arbitrary: m L)
  case Nil
  then show ?case by auto
next
  case (Cons p ps)
  then have "p \<in> bound_pdevs m" by auto
  then obtain d where d: "find_dev_by_pdev p m = Some d" by (auto simp: bound_pdevs_iff)
  from remove_pci_dev_keeps [OF Cons.prems(1) d] obtain m1 L1 dev where
    m1: "remove_pci_dev cuda (Some p) m = Some m1" "module_ok cuda s0 m1 L1" "mo_devs m1 = (mo_devs m)[d := dev]" "cd_pdev dev = None"
    by blast
  have "devs_ok (mo_devs m)" using Cons.prems(1) by (simp add: module_ok_def module_core_def)
  from bound_pdevs_remove [OF this d m1(3,4)] have "set ps = bound_pdevs m1" using Cons.prems(2,3) by auto
  with Cons.IH [OF m1(2)] Cons.prems(2) m1(1) show ?case by auto
qed

text \<open>Without devices there are no references and no mappings.\<close>

lemma unbound_holds_nothing:
  assumes ok: "module_ok cuda s0 m L" and none: "bound_pdevs m = {}"
  shows "gains s0 (mo_os m) {#}"
proof -
  have co: "devs_ok (mo_devs m)" "\<And>i. i < length (mo_refs m) \<Longrightarrow> ref_ok cuda m L i"
    and g: "gains s0 (mo_os m) (devs_held (mo_devs m) + maps_held m L)"
    using ok by (simp_all add: module_ok_def module_core_def)
  have pd: "cd_pdev dev = None" if "dev \<in> set (mo_devs m)" for dev 
    using none that by (cases "cd_pdev dev") (auto simp: bound_pdevs_def in_set_conv_nth)
  then have "dev_held dev = {#}" if "dev \<in> set (mo_devs m)" for dev
    using that co(1) by (auto simp: dev_held_def dev_res_def devs_ok_def dev_ok_def)
  then have "devs_held (mo_devs m) = {#}" by (rule devs_held_none)
  moreover have "L (User_list i) = [] \<and> L (Gpu_list i) = []" if "i < length (mo_refs m)" for i
    using co(2) [OF that] pd by (auto simp: ref_ok_def split: option.splits)
  then have "maps_held m L = {#}" by (auto simp: maps_held_def list_heads_def intro!: sum.neutral)
  ultimately show ?thesis using g by simp
qed


lemma entry_run_ok:
  assumes "disnvme_entry sz nd nr s = (0, Some g, s')" "errno_documented s" "api_documented api" "limit_ok mx"
    and "module_run cuda api mx (dn_module g) evs m" "no_page_0 evs"
  shows "gains s s' (module_res g) \<and> (\<exists>L. module_ok cuda s' m L)"
proof -
  from entry_cases [OF assms(1,2)] have g: "gains s s' (module_res g)" "mo_os (dn_module g) = s'"
    and ok: "module_ok cuda (mo_os (dn_module g)) (dn_module g) (\<lambda>_. [])" by (auto intro: entry_module_ok)
  from module_run_keeps [OF assms(5,6) ok assms(3,4)] g gains_errno [OF g(1)] assms(2) show ?thesis by simp
qed

section \<open>Properties\<close>

text \<open>
  C4: Loading the module fails without leaving anything behind, or succeeds; after that, whatever devices
  come and go and whatever processes do with its files, except that none asks for a mapping of the page at
  address 0, unloading it returns and gives back everything acquired since before it was loaded: mappings, page
  references, device slots, regions and blocks.
\<close>

theorem module_unload_leaves_nothing:
  assumes "disnvme_entry sizeof_ctrl_dev num_ctrl_devs num_ctrl_refs s = (e, r, s')"
    and "errno_documented s" "api_documented api" "limit_ok max_pages_per_map"
  shows "if e \<noteq> 0 then r = None \<and> gains s s' {#}
    else \<exists>g. r = Some g \<and> (\<forall>evs m bound. module_run cuda api max_pages_per_map (dn_module g) evs m \<and> no_page_0 evs
        \<and> distinct bound \<and> set bound = bound_pdevs m \<longrightarrow>
      (\<exists>s''. disnvme_exit cuda bound (g\<lparr>dn_module := m\<rparr>) = Some s'' \<and> gains s s'' {#}))"
proof (cases "e = 0")
  case False
  with entry_cases [OF assms(1,2)] show ?thesis by simp
next
  case True
  with entry_cases [OF assms(1,2)] obtain g where r: "r = Some g" by auto
  have "\<exists>s''. disnvme_exit cuda bound (g\<lparr>dn_module := m\<rparr>) = Some s'' \<and> gains s s'' {#}"
    if run: "module_run cuda api max_pages_per_map (dn_module g) evs m" "no_page_0 evs" and b: "distinct bound" "set bound = bound_pdevs m"
    for evs m bound
  proof -
    from entry_run_ok [OF _ assms(2-4) run] assms(1) True r obtain L where
      g: "gains s s' (module_res g)" and ok: "module_ok cuda s' m L" by blast
    from remove_all_spec [OF ok b] obtain m' L' where
      m': "remove_all cuda bound m = Some m'" "module_ok cuda s' m' L'" "bound_pdevs m' = {}" by blast
    have "gains s (mo_os m') (module_res g)" using gains_trans [OF g unbound_holds_nothing [OF m'(2,3)]] by simp
    from release_undo [OF release_undo [OF release_undo [OF release_undo [OF this [unfolded module_res_def]]]]]
    show ?thesis using m'(1) release_undo [of s _ "{#}" Heap "dn_devs_block g"] by (simp add: disnvme_exit_def Let_def)
  qed
  then show ?thesis using True r by auto
qed

text \<open>
  C7: In every state the module can reach by a history without a mapping request for the page at address 0, the
  invariant holds: each reference slot is in use exactly while it points to a device slot that is in use, free
  slots have no mappings, every descriptor is on exactly one sorted list and complete, and exactly what the
  devices and mappings account for is held.
\<close>

theorem module_reachable_ok:
  assumes "disnvme_entry sizeof_ctrl_dev num_ctrl_devs num_ctrl_refs s = (0, Some g, s')"
    and "errno_documented s" "api_documented api" "limit_ok max_pages_per_map"
    and "module_run cuda api max_pages_per_map (dn_module g) evs m" "no_page_0 evs"
  shows "\<exists>L. module_ok cuda s' m L"
  using entry_run_ok [OF assms] by blast

text \<open>
  C19: In every state the module can reach by a history without a mapping request for the page at address 0, each
  event that can occur next is handled: the operation it calls, be it for a device that is added or removed, a
  file that is opened or closed, any request on a file or the callback of the GPU driver, returns.  No loop
  runs forever, no pointer that is NULL or was freed is followed, and no write goes past the end of an
  address list.
\<close>

theorem module_operations_return:
  assumes "disnvme_entry sizeof_ctrl_dev num_ctrl_devs num_ctrl_refs s = (0, Some g, s')"
    and "errno_documented s" "api_documented api" "limit_ok max_pages_per_map"
    and "module_run cuda api max_pages_per_map (dn_module g) evs m" "no_page_0 evs" "event_possible m ev"
  shows "\<exists>m'. module_step cuda api max_pages_per_map m ev m'"
proof -
  from entry_run_ok [OF assms(1-6)] obtain L where "module_ok cuda s' m L" by blast
  from module_step_possible [OF this assms(3,4,7)] show ?thesis .
qed

text \<open>
  Opening the file of a device takes the first free reference slot for the process and leaves all
  other slots alone; it fails with ENOSPC exactly when every slot is in use.
\<close>

lemma first_free_slot:
  assumes "module_ok cuda s0 m L" "find_dev_by_inode i_cdev m = Some dev" "cd_pdev (mo_devs m ! dev) \<noteq> None"
  shows "ref_get i_cdev pid m =
    (case scan (\<lambda>ref. rf_ctrl ref = None) 0 (mo_refs m) of
       None \<Rightarrow> (- ENOSPC, m)
     | Some k \<Rightarrow> (0, m\<lparr>mo_refs := (mo_refs m)[k := \<lparr>rf_flags = set_bit IN_USE_BIT (rf_flags (mo_refs m ! k)),
                       rf_ctrl = Some dev, rf_owner = pid\<rparr>]\<rparr>))"
proof -
  have "(\<not> bit (rf_flags ref) IN_USE_BIT) = (rf_ctrl ref = None)" if "ref \<in> set (mo_refs m)" for ref
    using assms(1) that by (auto simp: in_set_conv_nth module_ok_def module_core_def ref_ok_def split: option.splits)
  then have eq: "scan (\<lambda>ref. \<not> bit (rf_flags ref) IN_USE_BIT) 0 (mo_refs m) = scan (\<lambda>ref. rf_ctrl ref = None) 0 (mo_refs m)"
    by (rule scan_cong)
  show ?thesis
  proof (cases "scan (\<lambda>ref. rf_ctrl ref = None) 0 (mo_refs m)")
    case None
    then show ?thesis using assms(2,3) ref_get_loop_spec [of 0 "length (mo_refs m)" m pid dev] eq by (simp add: ref_get_def)
  next
    case (Some k)
    from scan_SomeD [OF Some [folded eq]] have k: "k < length (mo_refs m)" "\<not> bit (rf_flags (mo_refs m ! k)) IN_USE_BIT" by auto
    then show ?thesis using assms(2,3) ref_get_loop_spec [of 0 "length (mo_refs m)" m pid dev] eq Some
        ctrl_ref_get_free [OF assms(1) k, of pid dev] by (auto simp: ref_get_def)
  qed
qed


lemma scan_first: "i < length xs \<Longrightarrow> P (xs ! i) \<Longrightarrow> (\<And>k. k < i \<Longrightarrow> \<not> P (xs ! k)) \<Longrightarrow> scan P b xs = Some (b + i)"
proof (induction xs arbitrary: i b)
  case Nil
  then show ?case by simp
next
  case (Cons x xs)
  show ?case
  proof (cases i)
    case 0
    then show ?thesis using Cons.prems by simp
  next
    case (Suc n)
    then have "\<not> P x" using Cons.prems(3) [of 0] by simp
    moreover have "\<not> P (xs ! k)" if "k < n" for k using Cons.prems(3) [of "Suc k"] that Suc by simp
    then have "scan P (Suc b) xs = Some (Suc b + n)" using Cons.prems(1,2) Suc by (intro Cons.IH) auto
    ultimately show ?thesis using Suc by simp
  qed
qed

text \<open>
  C35: References are looked up by process and device, not by file.  When a process that has a device open opens it
  once more, the second file takes a slot of its own, the first free one.  But all requests of the process, through
  either file, use the lower one of the two slots, and closing either file drops all mappings of that slot,
  including those in use through the file that stays open, and leaves the other slot.
\<close>

theorem second_file_shares_first_slot:
  assumes "module_ok cuda s0 m L" "find_dev_by_inode i_cdev m = Some dev" "find_ref dev (Some pid) m = Some i"
    and "ref_get i_cdev pid m = (0, m1)"
  shows "\<exists>j. j \<noteq> i \<and> j < length (mo_refs m) \<and> rf_ctrl (mo_refs m ! j) = None
    \<and> rf_ctrl (mo_refs m1 ! j) = Some dev \<and> rf_owner (mo_refs m1 ! j) = pid \<and> mo_refs m1 ! i = mo_refs m ! i
    \<and> find_ref dev (Some pid) m1 = Some (min i j)
    \<and> (\<exists>m2. ref_put cuda i_cdev pid m1 = Some (0, m2) \<and> rf_ctrl (mo_refs m2 ! min i j) = None \<and> mo_refs m2 ! max i j = mo_refs m1 ! max i j
        \<and> gains (mo_os m2) (mo_os m1) (\<Sum>p \<leftarrow> L (Gpu_list (min i j)) @ L (User_list (min i j)). md_res m1 p))"
proof -
  note i = find_refD [OF assms(3)]
  have core: "module_core cuda m1 L" using ref_get_keeps [OF assms(1,4)] by (simp add: module_ok_def)
  have dev: "cd_pdev (mo_devs m ! dev) \<noteq> None"
    using assms(1) i by (auto simp: module_ok_def module_core_def ref_ok_def split: option.splits)
  obtain j where j: "scan (\<lambda>ref. rf_ctrl ref = None) 0 (mo_refs m) = Some j"
    and m1: "m1 = m\<lparr>mo_refs := (mo_refs m)[j := \<lparr>rf_flags = set_bit IN_USE_BIT (rf_flags (mo_refs m ! j)), rf_ctrl = Some dev, rf_owner = pid\<rparr>]\<rparr>"
    using first_free_slot [OF assms(1,2) dev, of pid] assms(4) by (auto split: option.splits)
  have lj: "j < length (mo_refs m)" "rf_ctrl (mo_refs m ! j) = None" using scan_SomeD [OF j] by auto
  then have ne: "j \<noteq> i" using i(2) by auto
  let ?P = "\<lambda>ref. rf_ctrl ref = Some dev \<and> (Some pid = None \<or> Some pid = Some (rf_owner ref))"
  have before: "\<not> ?P (mo_refs m ! k)" if "k < i" for k using scan_SomeD [OF assms(3) [unfolded find_ref_def]] that by auto
  have "scan ?P 0 (mo_refs m1) = Some (0 + min i j)"
  proof (rule scan_first)
    show "min i j < length (mo_refs m1)" using i(1) by (simp add: m1)
    show "?P (mo_refs m1 ! min i j)" using i lj by (auto simp: m1 min_def nth_list_update)
    show "\<not> ?P (mo_refs m1 ! k)" if "k < min i j" for k using before [of k] that by (simp add: m1)
  qed
  then have f: "find_ref dev (Some pid) m1 = Some (min i j)" by (simp add: find_ref_def)
  have mm: "min i j < length (mo_refs m1)" "max i j \<noteq> min i j" using i(1) ne by (simp_all add: m1 min_def max_def)
  have fd: "find_dev_by_inode i_cdev m1 = Some dev" using assms(2) by (simp add: m1 find_dev_by_inode_def)
  from ctrl_ref_put_core [OF core mm(1)] f fd mm
  have "\<exists>m2. ref_put cuda i_cdev pid m1 = Some (0, m2) \<and> rf_ctrl (mo_refs m2 ! min i j) = None \<and> mo_refs m2 ! max i j = mo_refs m1 ! max i j
        \<and> gains (mo_os m2) (mo_os m1) (\<Sum>p \<leftarrow> L (Gpu_list (min i j)) @ L (User_list (min i j)). md_res m1 p)"
    by (auto simp: ref_put_def)
  moreover have "rf_ctrl (mo_refs m1 ! j) = Some dev" "rf_owner (mo_refs m1 ! j) = pid" "mo_refs m1 ! i = mo_refs m ! i"
    using lj(1) ne by (simp_all add: m1)
  ultimately show ?thesis using f lj ne by blast
qed

subsection \<open>The address list of a request\<close>

lemma store_qwords_other:
  "8 * length ws \<le> 2 ^ 64 \<Longrightarrow> \<not> in_range a (8 * length ws) x \<Longrightarrow> store_qwords a ws um x = um x"
proof (induction ws arbitrary: a um)
  case Nil
  then show ?case by simp
next
  case (Cons w ws)
  from Cons.prems in_range_split [of 8 "8 * length ws" a x]
  have "\<not> in_range a 8 x" "\<not> in_range (a + 8) (8 * length ws) x" by auto
  with Cons show ?case by (simp add: store64_other)
qed

lemma load_store_qwords:
  "8 * length ws \<le> 2 ^ 64 \<Longrightarrow> j < length ws \<Longrightarrow> load64 (store_qwords a ws um) (a + 8 * of_nat j) = ws ! j"
proof (induction ws arbitrary: a um j)
  case Nil
  then show ?case by simp
next
  case (Cons w ws)
  show ?case
  proof (cases j)
    case 0
    have "\<not> in_range (a + 8) (8 * length ws) x" if "in_range a 8 x" for x
      using in_range_disjoint [OF that, of 8 "8 * length ws"] Cons.prems(1) by simp
    then have "load64 (store_qwords (a + 8) ws (store64 a w um)) a = load64 (store64 a w um) a"
      using Cons.prems(1) by (intro load64_cong) (simp add: store_qwords_other)
    then show ?thesis using 0 by (simp add: load64_store64)
  next
    case (Suc n)
    then have "load64 (store_qwords (a + 8) ws (store64 a w um)) ((a + 8) + 8 * of_nat n) = ws ! n"
      using Cons.prems by (intro Cons.IH) simp_all
    then show ?thesis using Suc by (simp add: algebra_simps)
  qed
qed

text \<open>The list of a reference on which a request looks for mappings, by kind of memory.\<close>

abbreviation request_mask :: "u32 \<Rightarrow> u64" where
  "request_mask cmd \<equiv> if cmd = NVM_MAP_HOST_MEMORY then PAGE_MASK else GPU_PAGE_MASK"

abbreviation find_request_map :: "u32 \<Rightarrow> nat \<Rightarrow> u64 \<Rightarrow> kmodule \<Rightarrow> nat option option" where
  "find_request_map cmd ref vaddr m \<equiv>
     (if cmd = NVM_MAP_HOST_MEMORY then find_user_page_map ref vaddr m else find_gpu_map ref vaddr m)"

lemma map_copied:
  assumes r: "maps_outcome m L l v P r" and l: "l \<in> list_heads m" and v: "v \<noteq> 0"
    and P: "\<And>km. P km \<Longrightarrow> \<exists>k. km_n_addrs km = Some k \<and> k \<le> length (km_addrs km) \<and> k \<le> n" and n: "8 * n \<le> 2 ^ 64"
    and io: "r \<bind> copy_addrs a um = Some (0, um', m')"
  shows "\<exists>p km k. list_find l v (mo_lists m') = Some (Some (Md p)) \<and> mo_maps m' p = Some km \<and> km_n_addrs km = Some k \<and> k \<le> n
    \<and> (\<forall>j < k. load64 um' (a + 8 * of_nat j) = km_addrs km ! j) \<and> (\<forall>x. \<not> in_range a (8 * k) x \<longrightarrow> um' x = um x)"
  using r
proof (cases rule: maps_outcomeE)
  case (err e m1)
  with io show ?thesis by (simp add: copy_addrs_def)
next
  case (ok p km m1)
  from P [OF ok(4)] obtain k where k: "km_n_addrs km = Some k" "k \<le> length (km_addrs km)" "k \<le> n" by blast
  have um': "um' = store_qwords a (take k (km_addrs km)) um" "m' = m1"
    using io ok(1,3) k(1) by (auto simp: copy_addrs_def)
  have len: "length (take k (km_addrs km)) = k" "8 * length (take k (km_addrs km)) \<le> 2 ^ 64"
    using k(2,3) n by simp_all
  have "load64 um' (a + 8 * of_nat j) = km_addrs km ! j" if "j < k" for j
    using load_store_qwords [OF len(2), of j] len(1) that by (simp add: um')
  moreover have "um' x = um x" if "\<not> in_range a (8 * k) x" for x
    using store_qwords_other [OF len(2)] len(1) that by (simp add: um')
  moreover have "list_find l v (mo_lists m') = Some (Some (Md p))"
  proof -
    have H: "l \<in> list_heads m1" using l list_heads_cong [of m1 m] ok(7) by simp
    have "maps_ok m1 (L(l := ins_map (mo_lists m1) p (L l)))" using ok(8) v by simp
    from maplist.look_law [OF maps_okD(1) [OF this H], of v] find_ins_map [of "mo_lists m1" p "L l"] ok(6)
    show ?thesis by (simp add: um'(2))
  qed
  ultimately show ?thesis using ok(3) k(1,3) um'(2) by blast
qed

text \<open>
  C21: A mapping request, of host memory or of device memory, that succeeds and does not name the page at address 0
  makes a mapping that is found under the address of the request, in the reference of the process that sent it, and
  writes its bus addresses, in order and at most as many as pages were asked for, to the address list of the process;
  no other byte of its memory changes.
\<close>

theorem ioctl_map_addresses:
  assumes "module_ok cuda s0 m L" "api_documented api" "limit_ok max_pages_per_map"
    and "cmd = NVM_MAP_HOST_MEMORY \<or> cmd = NVM_MAP_DEVICE_MEMORY" "request_ok cmd um arg"
    and "ref_ioctl cuda api max_pages_per_map i_cdev pid cmd arg um m = Some (0, um', m')"
  shows "\<exists>dev ref p km k. find_dev_by_inode i_cdev m = Some dev \<and> find_ref dev (Some pid) m = Some ref
    \<and> find_request_map cmd ref (rq_vaddr_start (read_request um arg)) m' = Some (Some p)
    \<and> mo_maps m' p = Some km \<and> km_n_addrs km = Some k \<and> k \<le> unat (rq_n_pages (read_request um arg))
    \<and> (\<forall>j < k. load64 um' (rq_ioaddrs (read_request um arg) + 8 * of_nat j) = km_addrs km ! j)
    \<and> (\<forall>a. \<not> in_range (rq_ioaddrs (read_request um arg)) (8 * k) a \<longrightarrow> um' a = um a)"
proof -
  let ?rq = "read_request um arg"
  let ?v = "rq_vaddr_start ?rq AND request_mask cmd" and ?n = "rq_n_pages ?rq"
  have h: "NVM_MAP_DEVICE_MEMORY \<noteq> NVM_MAP_HOST_MEMORY" "NVM_MAP_DEVICE_MEMORY \<noteq> NVM_UNMAP_MEMORY"
    by (simp_all add: NVM_MAP_HOST_MEMORY_def NVM_MAP_DEVICE_MEMORY_def NVM_UNMAP_MEMORY_def IOW_def)
  from assms(6) obtain dev i where fd: "find_dev_by_inode i_cdev m = Some dev" "find_ref dev (Some pid) m = Some i"
    by (auto simp: ref_ioctl_def split: option.splits)
  note i = find_refD(1,2) [OF fd(2)]
  have mo: "maps_ok m L" "ref_ok cuda m L i" using assms(1) i(1) by (simp_all add: module_ok_def module_core_def)
  then obtain pdev where pd: "cd_pdev (mo_devs m ! dev) = Some pdev" using i(2) by (auto simp: ref_ok_def)
  have v: "?v \<noteq> 0" using assms(4,5) h(1) by (auto simp: request_ok_def)
  from assms(6) fd assms(4) h have big: "\<not> of_int max_pages_per_map \<le> ?n" by (auto simp: ref_ioctl_def Let_def split: if_splits)
  note small = limit_pages [OF assms(3) big]
  have n8: "8 * unat ?n \<le> 2 ^ 64" using small by simp
  have nz: "?n \<noteq> 0"
    using assms(6) fd assms(4) h big
    by (auto simp: ref_ioctl_def Let_def map_user_pages_def map_gpu_memory_def copy_addrs_def split: if_splits)
  have l: "User_list i \<in> list_heads m" "Gpu_list i \<in> list_heads m" using i(1) by simp_all
  have found: "find_request_map cmd i (rq_vaddr_start ?rq) m' = Some (Some p)"
    if "list_find (if cmd = NVM_MAP_HOST_MEMORY then User_list i else Gpu_list i) ?v (mo_lists m') = Some (Some (Md p))" for p
    using that by (simp add: find_user_page_map_def find_gpu_map_def md_cast_def md_of_def split: if_splits)
  have "\<exists>p km k. list_find (if cmd = NVM_MAP_HOST_MEMORY then User_list i else Gpu_list i) ?v (mo_lists m') = Some (Some (Md p))
    \<and> mo_maps m' p = Some km \<and> km_n_addrs km = Some k \<and> k \<le> unat ?n
    \<and> (\<forall>j < k. load64 um' (rq_ioaddrs ?rq + 8 * of_nat j) = km_addrs km ! j) \<and> (\<forall>x. \<not> in_range (rq_ioaddrs ?rq) (8 * k) x \<longrightarrow> um' x = um x)"
  proof (cases "cmd = NVM_MAP_HOST_MEMORY")
    case True
    have P: "\<exists>k. km_n_addrs km = Some k \<and> k \<le> length (km_addrs km) \<and> k \<le> unat ?n" if "user_addrs_ok api ?n km" for km
      using user_addrs_okD [OF that] that by (cases "km_n_pages km") (auto simp: user_addrs_ok_def)
    have "map_user_pages api i (rq_vaddr_start ?rq) ?n m \<bind> copy_addrs (rq_ioaddrs ?rq) um = Some (0, um', m')"
      using assms(6) fd big True by (simp add: ref_ioctl_def Let_def)
    from map_copied [OF map_user_pages_spec [OF mo(1) i pd nz small assms(2)] l(1) _ P n8 this] v True show ?thesis by simp
  next
    case False
    have P: "\<exists>k. km_n_addrs km = Some k \<and> k \<le> length (km_addrs km) \<and> k \<le> unat ?n" if "gpu_addrs_ok api ?n km" for km
      using that assms(2) by (cases "km_mappings km") (auto simp: gpu_addrs_ok_def api_documented_def split: cell.splits page_set.splits)
    have "map_gpu_memory api i (rq_vaddr_start ?rq) ?n m \<bind> copy_addrs (rq_ioaddrs ?rq) um = Some (0, um', m')"
      using assms(6) fd big False assms(4) h by (auto simp: ref_ioctl_def Let_def split: if_splits)
    from map_copied [OF map_gpu_memory_spec [OF mo(1) i nz small assms(2)] l(2) _ P n8 this] v False show ?thesis by simp
  qed
  then show ?thesis using fd found by blast
qed

text \<open>
  The page limit itself is refused: a request for exactly \<open>max_pages_per_map\<close> pages fails, although the
  parameter is described as the maximum.
\<close>

theorem ioctl_refuses_page_limit:
  assumes "find_dev_by_inode i_cdev m = Some dev" "find_ref dev (Some pid) m = Some ref"
    and "rq_n_pages (read_request um arg) = of_int max_pages_per_map"
  shows "ref_ioctl cuda api max_pages_per_map i_cdev pid NVM_MAP_HOST_MEMORY arg um m = Some (- EINVAL, um, m)"
  using assms by (simp add: ref_ioctl_def Let_def)

section \<open>Examples\<close>

text \<open>The module is loaded with one device slot and two reference slots, and a device is added.\<close>

definition demo_g :: disnvme where
  "demo_g = the (fst (snd (disnvme_entry 200 1 2 demo_kernel_os)))"

definition demo_probed :: kmodule where
  "demo_probed = snd (add_pci_dev 7 (dn_module demo_g))"

lemmas demo_entry_simps = disnvme_entry_def kcalloc_def malloc_quiet acquire_at_def acquire_def sys_call_def grant_def
  demo_kernel_os_def Let_def

lemma demo_entry: "\<exists>s'. disnvme_entry 200 1 2 demo_kernel_os = (0, Some demo_g, s')"
  by (simp add: demo_g_def demo_entry_simps)

lemma demo_g_devs: "mo_devs (dn_module demo_g) = [ctrl_dev_reset (zero_dev 0) 0 0 (Some 3) DRIVER_NAME]"
  by (simp add: demo_g_def demo_entry_simps numeral_3_eq_3)

lemma demo_g_refs: "mo_refs (dn_module demo_g) = [zero_ref, zero_ref]"
  by (simp add: demo_g_def demo_entry_simps) (simp add: numeral_2_eq_2)

lemma demo_g_os: "os_env (mo_os (dn_module demo_g)) = (\<lambda>c. 0)"
  by (simp add: demo_g_def demo_entry_simps)

lemmas demo_probe_simps = demo_probed_def add_pci_dev_def demo_g_devs demo_g_refs demo_g_os acquire_at_def sys_call_def ctrl_dev_get_def
  test_and_set_bit_def ctrl_dev_reset_def zero_dev_def clear_bit_def ctrl_dev_chrdev_create_def cdev_add_def device_create_def Let_def

lemma demo_probe: "add_pci_dev 7 (dn_module demo_g) = (0, demo_probed)"
  by (simp add: demo_probe_simps)

lemma demo_probed_facts:
  "find_dev_by_pdev 7 (dn_module demo_g) = None" "bound_pdevs demo_probed = {7}" "mo_refs demo_probed = [zero_ref, zero_ref]"
  "find_dev_by_inode 0 demo_probed = Some 0" "cd_pdev (mo_devs demo_probed ! 0) = Some 7" "os_env (mo_os demo_probed) = (\<lambda>c. 0)"
  by (simp_all add: demo_probe_simps find_dev_by_pdev_def find_dev_by_inode_def bound_pdevs_def)

lemma demo_run: "module_run True demo_api 0x8000 (dn_module demo_g) [Probe 7] demo_probed" "no_page_0 [Probe 7]"
  using run_step [OF run_start probe [OF demo_probed_facts(1) demo_probe]] by simp_all

lemma demo_env: "errno_documented demo_kernel_os" "limit_ok 0x8000"
  by (simp_all add: errno_documented_def demo_kernel_os_def limit_ok_def)

lemma demo_probed_ok: "\<exists>s0 L. module_ok True s0 demo_probed L"
  using demo_entry entry_run_ok [OF _ demo_env(1) demo_api_documented demo_env(2) demo_run] by blast

theorem module_unload_leaves_nothing_witness:
  "\<exists>s''. disnvme_exit True [7] (demo_g\<lparr>dn_module := demo_probed\<rparr>) = Some s'' \<and> gains demo_kernel_os s'' {#}"
proof -
  obtain s' where e: "disnvme_entry 200 1 2 demo_kernel_os = (0, Some demo_g, s')" using demo_entry by blast
  note u = module_unload_leaves_nothing [OF e demo_env(1) demo_api_documented demo_env(2), of True]
  have "distinct [7 :: nat]" "set [7] = bound_pdevs demo_probed" using demo_probed_facts(2) by simp_all
  with demo_run u show ?thesis by (simp only: if_False not_True_eq_False simp_thms option.inject)
qed

theorem module_reachable_ok_witness: "\<exists>s' L. module_ok True s' demo_probed L"
proof -
  obtain s' where "disnvme_entry 200 1 2 demo_kernel_os = (0, Some demo_g, s')" using demo_entry by blast
  from module_reachable_ok [OF this demo_env(1) demo_api_documented demo_env(2) demo_run] show ?thesis by blast
qed

theorem module_operations_return_witness:
  "(\<exists>m'. module_step True demo_api 0x8000 demo_probed (Remove 7) m')
   \<and> (\<exists>m'. module_step True demo_api 0x8000 demo_probed (Ioctl 0 100 NVM_MAP_HOST_MEMORY 0 (\<lambda>_. 0)) m')"
proof -
  obtain s' where "disnvme_entry 200 1 2 demo_kernel_os = (0, Some demo_g, s')" using demo_entry by blast
  note r = module_operations_return [OF this demo_env(1) demo_api_documented demo_env(2) demo_run]
  have "event_possible demo_probed (Remove 7)" using demo_probed_facts(2) bound_pdevs_iff [of 7 demo_probed] by auto
  with r show ?thesis by auto
qed

text \<open>A process opens the device once, and once more.\<close>

definition demo_open :: kmodule where
  "demo_open = snd (ref_get 0 100 demo_probed)"

definition demo_twice :: kmodule where
  "demo_twice = snd (ref_get 0 100 demo_open)"

lemma demo_open_facts:
  "ref_get 0 100 demo_probed = (0, demo_open)" "find_dev_by_inode 0 demo_open = Some 0" "cd_pdev (mo_devs demo_open ! 0) = Some 7"
  "rf_ctrl (mo_refs demo_open ! 0) = Some 0" "rf_owner (mo_refs demo_open ! 0) = 100" "length (mo_refs demo_open) = 2"
  "os_env (mo_os demo_open) = (\<lambda>c. 0)"
  using demo_probed_facts
  by (simp_all add: demo_open_def ref_get_def find_dev_by_inode_def numeral_2_eq_2 ctrl_ref_get_def test_and_set_bit_def zero_ref_def Let_def)

lemma demo_twice_facts:
  "ref_get 0 100 demo_open = (0, demo_twice)" "find_dev_by_inode 0 demo_twice = Some 0"
  "rf_ctrl (mo_refs demo_twice ! 0) = Some 0" "rf_owner (mo_refs demo_twice ! 0) = 100" "length (mo_refs demo_twice) = 2"
  using demo_probed_facts
  by (simp_all add: demo_twice_def demo_open_def ref_get_def find_dev_by_inode_def numeral_2_eq_2 ctrl_ref_get_def test_and_set_bit_def
      zero_ref_def bit_simps Let_def)

lemma demo_open_ok: "\<exists>s0 L. module_ok True s0 demo_open L" "\<exists>s0 L. module_ok True s0 demo_twice L"
  using demo_probed_ok ref_get_keeps demo_open_facts(1) demo_twice_facts(1) by blast+

lemma demo_find_ref: "find_ref 0 (Some 100) demo_open = Some 0"
  using scan_first [of 0 "mo_refs demo_open" "\<lambda>ref. rf_ctrl ref = Some 0 \<and> (Some 100 = None \<or> Some 100 = Some (rf_owner ref))" 0] demo_open_facts
  by (simp add: find_ref_def)

theorem second_file_shares_first_slot_witness:
  "ref_get 0 100 demo_open = (0, demo_twice) \<and> find_ref 0 (Some 100) demo_twice = Some 0
   \<and> (\<exists>m2. ref_put True 0 100 demo_twice = Some (0, m2) \<and> rf_ctrl (mo_refs m2 ! 0) = None)"
proof -
  obtain s0 L where "module_ok True s0 demo_open L" using demo_open_ok by blast
  from second_file_shares_first_slot [OF this demo_open_facts(2) demo_find_ref demo_twice_facts(1)] demo_twice_facts(1)
  show ?thesis by auto
qed

text \<open>It asks for two pages to be mapped.\<close>

definition demo_memory :: mem where
  "demo_memory = store_qwords 0x1000 [0x7000, 2, 0x2000] (\<lambda>_. 0)"

lemma demo_request: "read_request demo_memory 0x1000 = \<lparr>rq_vaddr_start = 0x7000, rq_n_pages = 2, rq_ioaddrs = 0x2000\<rparr>"
  using load_store_qwords [of "[0x7000, 2, 0x2000]" 0 "0x1000" "\<lambda>_. 0"] load_store_qwords [of "[0x7000, 2, 0x2000]" 1 "0x1000" "\<lambda>_. 0"]
    load_store_qwords [of "[0x7000, 2, 0x2000]" 2 "0x1000" "\<lambda>_. 0"]
  by (simp add: read_request_def demo_memory_def)

lemma demo_request_ok: "request_ok NVM_MAP_HOST_MEMORY demo_memory 0x1000"
  by (simp add: request_ok_def demo_request PAGE_MASK_def PAGE_SIZE_def GPU_PAGE_MASK_def GPU_PAGE_SIZE_def NVM_MAP_HOST_MEMORY_def
      NVM_MAP_DEVICE_MEMORY_def IOW_def)

lemma demo_ioctl: "\<exists>um' m'. ref_ioctl True demo_api 0x8000 0 100 NVM_MAP_HOST_MEMORY 0x1000 demo_memory demo_open = Some (0, um', m')"
proof -
  obtain s0 L where ok: "module_ok True s0 demo_open L" using demo_open_ok by blast
  then have mo: "maps_ok demo_open L" by (simp add: module_ok_def module_core_def)
  note f = demo_find_ref
  have "\<exists>p m1 km. map_user_pages demo_api 0 0x7000 2 demo_open = Some (0, Some p, m1) \<and> mo_maps m1 p = Some km \<and> user_addrs_ok demo_api 2 km"
    by (rule map_user_pages_quiet [OF mo _ demo_open_facts(4,3) _ _ demo_api_documented])
       (simp_all add: demo_open_facts(6,7) demo_api_def)
  then obtain p m1 km where m1: "map_user_pages demo_api 0 0x7000 2 demo_open = Some (0, Some p, m1)" "mo_maps m1 p = Some km"
    "user_addrs_ok demo_api 2 km" by blast
  from user_addrs_okD [OF m1(3)] obtain k where "km_n_addrs km = Some k" by blast
  then show ?thesis using f m1 demo_open_facts(2) by (simp add: ref_ioctl_def demo_request Let_def copy_addrs_def)
qed

theorem ioctl_map_addresses_witness:
  "\<exists>um' m' ref p km k. ref_ioctl True demo_api 0x8000 0 100 NVM_MAP_HOST_MEMORY 0x1000 demo_memory demo_open = Some (0, um', m')
    \<and> find_user_page_map ref 0x7000 m' = Some (Some p) \<and> mo_maps m' p = Some km \<and> km_n_addrs km = Some k \<and> k \<le> 2"
proof -
  obtain s0 L where ok: "module_ok True s0 demo_open L" using demo_open_ok by blast
  obtain um' m' where io: "ref_ioctl True demo_api 0x8000 0 100 NVM_MAP_HOST_MEMORY 0x1000 demo_memory demo_open = Some (0, um', m')"
    using demo_ioctl by blast
  from ioctl_map_addresses [OF ok demo_api_documented demo_env(2) _ demo_request_ok io] io show ?thesis
    by (simp add: demo_request) blast
qed

end
