(* ===== verification/Cli_Number.thy ===== *)
theory Cli_Number
  imports Module_Dev
begin

text \<open>
  Numbers on the command line of the example programs: \<open>strtoul\<close> of the C library, the parsers of
  \<open>examples/rpc/util.c\<close>, \<open>examples/integrity/integrity.c\<close> and the PCI addresses of
  \<open>examples/identify/userspace.c\<close>.  A string is the list of its characters without the final NUL, and a
  pointer into it is what follows.
\<close>

section \<open>The C library\<close>

definition digit_value :: "char \<Rightarrow> nat option" where
  "digit_value c =
     (let n = of_char c :: nat in
      if 48 \<le> n \<and> n \<le> 57 then Some (n - 48) else if 97 \<le> n \<and> n \<le> 122 then Some (n - 87)
      else if 65 \<le> n \<and> n \<le> 90 then Some (n - 55) else None)"

definition is_digit :: "nat \<Rightarrow> char \<Rightarrow> bool" where
  "is_digit b c = (case digit_value c of None \<Rightarrow> False | Some d \<Rightarrow> d < b)"

definition isspace :: "char \<Rightarrow> bool" where
  "isspace c = (let n = of_char c :: nat in n = 32 \<or> 9 \<le> n \<and> n \<le> 13)"

definition number :: "nat \<Rightarrow> string \<Rightarrow> nat" where
  "number b s = foldl (\<lambda>a c. a * b + (case digit_value c of None \<Rightarrow> 0 | Some d \<Rightarrow> d)) 0 s"

text \<open>The base of what follows, after a prefix \<open>0x\<close>.\<close>

definition radix :: "nat \<Rightarrow> string \<Rightarrow> nat \<times> string" where
  "radix b s =
     (if (b = 0 \<or> b = 16) \<and> 3 \<le> length s \<and> s ! 0 = CHR ''0'' \<and> (s ! 1 = CHR ''x'' \<or> s ! 1 = CHR ''X'') \<and> is_digit 16 (s ! 2)
      then (16, drop 2 s)
      else if b = 0 then (if s \<noteq> [] \<and> s ! 0 = CHR ''0'' then 8 else 10, s)
      else (b, s))"

definition sign :: "string \<Rightarrow> bool \<times> string" where
  "sign s = (case s of [] \<Rightarrow> (False, s) | c # t \<Rightarrow> if c = CHR ''-'' then (True, t) else if c = CHR ''+'' then (False, t) else (False, s))"

text \<open>
  The value and what \<open>endptr\<close> points to: spaces and a sign are skipped, a value that does not fit is the
  largest one, and without any digit nothing is consumed.
\<close>

definition strtoul :: "string \<Rightarrow> nat \<Rightarrow> u64 \<times> string" where
  "strtoul str base =
     (let (neg, s) = sign (dropWhile isspace str);
          (b, s) = radix base s;
          n = number b (takeWhile (is_digit b) s) in
      if takeWhile (is_digit b) s = [] then (0, str)
      else (if 2 ^ 64 \<le> n then - 1 else if neg then - of_nat n else of_nat n, dropWhile (is_digit b) s))"

text \<open>The digits \<open>printf\<close> writes, and its padding with zeros.\<close>

definition digit_char :: "nat \<Rightarrow> char" where
  "digit_char d = char_of (if d < 10 then 48 + d else 87 + d)"

fun digits :: "nat \<Rightarrow> nat \<Rightarrow> string" where
  "digits b n = (if b < 2 \<or> n < b then [digit_char n] else digits b (n div b) @ [digit_char (n mod b)])"

declare digits.simps [simp del]

definition pad :: "nat \<Rightarrow> string \<Rightarrow> string" where
  "pad w s = replicate (w - length s) CHR ''0'' @ s"

section \<open>Parsers\<close>

text \<open>The number is written only on success.\<close>

definition parse_u64 :: "string \<Rightarrow> u64 \<Rightarrow> nat \<Rightarrow> int \<times> u64" where
  "parse_u64 str num base =
     (case strtoul str base of (ul, endptr) \<Rightarrow> if endptr \<noteq> [] then (EINVAL, num) else (0, ul))"

definition parse_u32 :: "u64 \<Rightarrow> string \<Rightarrow> u32 \<Rightarrow> nat \<Rightarrow> int \<times> u32" where
  "parse_u32 junk str num base =
     (case parse_u64 str junk base of (status, ul) \<Rightarrow>
        if status \<noteq> 0 \<or> 0xffffffff < ul then (EINVAL, num) else (status, ucast ul))"

definition parse_u16 :: "u64 \<Rightarrow> string \<Rightarrow> u16 \<Rightarrow> nat \<Rightarrow> int \<times> u16" where
  "parse_u16 junk str num base =
     (case parse_u64 str junk base of (status, ul) \<Rightarrow>
        if status \<noteq> 0 \<or> 0xffff < ul then (EINVAL, num) else (status, ucast ul))"

definition parse_number :: "u64 \<Rightarrow> string \<Rightarrow> nat \<Rightarrow> u64 \<Rightarrow> u64 \<Rightarrow> bool \<times> u64" where
  "parse_number num str base lo hi =
     (case strtoul str base of (ul, endptr) \<Rightarrow>
        if endptr \<noteq> [] then (False, num)
        else if lo < hi \<and> (ul < lo \<or> hi \<le> ul) then (False, num)
        else (True, ul))"

section \<open>PCI addresses\<close>

text \<open>The fields are \<open>int\<close>: the value of \<open>strtoul\<close> is cut to 32 bits with a sign.\<close>

record bdf =
  bd_domain :: int
  bd_bus :: int
  bd_device :: int
  bd_function :: int

definition to_int :: "u64 \<Rightarrow> int" where
  "to_int v = sint (ucast v :: u32)"

text \<open>
  \<open>strrchr\<close> and \<open>strchr\<close> with the NUL that is written over the character that was found: what is before
  it and what is after it.
\<close>

definition split_first :: "char \<Rightarrow> string \<Rightarrow> (string \<times> string) option" where
  "split_first c s = (if c \<in> set s then Some (takeWhile (\<lambda>x. x \<noteq> c) s, tl (dropWhile (\<lambda>x. x \<noteq> c) s)) else None)"

definition split_last :: "char \<Rightarrow> string \<Rightarrow> (string \<times> string) option" where
  "split_last c s = map_option (\<lambda>(a, b). (rev b, rev a)) (split_first c (rev s))"

definition parse_bdf :: "string \<Rightarrow> bdf \<Rightarrow> int \<times> bdf" where
  "parse_bdf str dev =
     (let (domain, bus, slot) =
            (case split_last CHR '':'' str of
               None \<Rightarrow> (''0'', ''0'', str)
             | Some (before, after) \<Rightarrow>
                 (case split_first CHR '':'' before of
                    None \<Rightarrow> (''0'', before, after)
                  | Some (d, b) \<Rightarrow> (d, b, after)));
          (slot, func) = (case split_first CHR ''.'' slot of None \<Rightarrow> (slot, ''0'') | Some (s, f) \<Rightarrow> (s, f));
          (v, endptr) = strtoul domain 16;
          dev = dev\<lparr>bd_domain := to_int v\<rparr> in
      if endptr \<noteq> [] \<or> 0xffff < bd_domain dev then (1, dev)
      else
        let (v, endptr) = strtoul bus 16; dev = dev\<lparr>bd_bus := to_int v\<rparr> in
        if endptr \<noteq> [] \<or> 0xff < bd_bus dev then (1, dev)
        else
          let (v, endptr) = strtoul slot 16; dev = dev\<lparr>bd_device := to_int v\<rparr> in
          if endptr \<noteq> [] \<or> 0xff < bd_device dev then (1, dev)
          else
            let (v, endptr) = strtoul func 0; dev = dev\<lparr>bd_function := to_int v\<rparr> in
            if endptr \<noteq> [] then (1, dev) else (0, dev))"

text \<open>The name of a device below \<open>/sys/bus/pci/devices\<close>, for numbers that are not negative.\<close>

definition bdf_name :: "nat \<Rightarrow> nat \<Rightarrow> nat \<Rightarrow> nat \<Rightarrow> string" where
  "bdf_name domain bus device func =
     pad 4 (digits 16 domain) @ '':'' @ pad 2 (digits 16 bus) @ '':'' @ pad 2 (digits 16 device) @ ''.'' @ digits 16 func"

section \<open>Digits\<close>

lemma digit_value_char: "d < 36 \<Longrightarrow> digit_value (digit_char d) = Some d"
  by (simp add: digit_value_def digit_char_def Let_def)

lemma is_digit_char: "b \<le> 36 \<Longrightarrow> d < b \<Longrightarrow> is_digit b (digit_char d)"
  by (simp add: is_digit_def digit_value_char)

lemma digits_induct_step:
  "2 \<le> b \<Longrightarrow> b \<le> n \<Longrightarrow> digits b n = digits b (n div b) @ [digit_char (n mod b)]"
  by (subst digits.simps) simp

lemma digits_small: "n < b \<Longrightarrow> digits b n = [digit_char n]"
  by (subst digits.simps) simp

lemma number_snoc: "number b (s @ [c]) = number b s * b + (case digit_value c of None \<Rightarrow> 0 | Some d \<Rightarrow> d)"
  by (simp add: number_def)

lemma digits_ok:
  assumes "2 \<le> b" "b \<le> 36"
  shows "number b (digits b n) = n \<and> (\<forall>c \<in> set (digits b n). is_digit b c) \<and> digits b n \<noteq> []"
proof (induction n rule: less_induct)
  case (less n)
  show ?case
  proof (cases "n < b")
    case True
    then show ?thesis using assms by (simp add: digits_small number_def digit_value_char is_digit_char)
  next
    case False
    then have IH: "number b (digits b (n div b)) = n div b \<and> (\<forall>c \<in> set (digits b (n div b)). is_digit b c)"
      using less.IH [of "n div b"] assms by simp
    have m: "n mod b < b" using assms by simp
    then have "digit_value (digit_char (n mod b)) = Some (n mod b)" using assms(2) by (intro digit_value_char) linarith
    then show ?thesis using False IH m assms by (simp add: digits_induct_step number_snoc is_digit_char)
  qed
qed

lemma digits_head:
  assumes "2 \<le> b" "b \<le> 36"
  shows "0 < n \<Longrightarrow> hd (digits b n) \<noteq> CHR ''0''"
proof (induction n rule: less_induct)
  case (less n)
  show ?case
  proof (cases "n < b")
    case True
    have "digit_value CHR ''0'' = Some 0" by (simp add: digit_value_def)
    with digit_value_char [of n] True assms less.prems have "digit_char n \<noteq> CHR ''0''" by auto
    then show ?thesis using True by (simp add: digits_small)
  next
    case False
    then have "0 < n div b" "n div b < n" using assms by (simp_all add: div_greater_zero_iff)
    from less.IH [OF this(2,1)] False digits_ok [OF assms, of "n div b"] show ?thesis
      using assms by (simp add: digits_induct_step)
  qed
qed

lemma is_digitD:
  assumes "is_digit b c"
  shows "\<not> isspace c" "c \<noteq> CHR ''-''" "c \<noteq> CHR ''+''" "c \<noteq> CHR '':''" "c \<noteq> CHR ''.''"
    "b \<le> 33 \<Longrightarrow> c \<noteq> CHR ''x''" "b \<le> 33 \<Longrightarrow> c \<noteq> CHR ''X''"
  using assms by (auto simp: is_digit_def digit_value_def isspace_def Let_def split: if_splits)

lemma is_digit_mono: "is_digit b c \<Longrightarrow> b \<le> b' \<Longrightarrow> is_digit b' c"
  by (auto simp: is_digit_def split: option.splits)

section \<open>What strtoul does with digits\<close>

lemma strtoul_digits:
  assumes "radix base s = (b, s')" "\<forall>c \<in> set s'. is_digit b c" "s' \<noteq> []" "is_digit 36 (hd s)" "s \<noteq> []"
  shows "strtoul s base = (if 2 ^ 64 \<le> number b s' then - 1 else of_nat (number b s'), [])"
proof -
  obtain c t where s: "s = c # t" using assms(5) by (cases s) auto
  have "dropWhile isspace s = s" "sign s = (False, s)" using is_digitD [OF assms(4)] by (simp_all add: s sign_def)
  moreover have t: "takeWhile (is_digit b) s' = s'" "dropWhile (is_digit b) s' = []"
    using assms(2) by (simp_all only: takeWhile_eq_all_conv dropWhile_eq_Nil_conv)
  ultimately show ?thesis unfolding strtoul_def using assms(1,3) by (simp add: t Let_def del: takeWhile_eq_all_conv)
qed

lemma strtoul_base:
  assumes "2 \<le> b" "b \<le> 16" "\<forall>c \<in> set s. is_digit b c" "s \<noteq> []"
  shows "strtoul s b = (if 2 ^ 64 \<le> number b s then - 1 else of_nat (number b s), [])"
proof (rule strtoul_digits)
  have "s ! 1 \<noteq> CHR ''x'' \<and> s ! 1 \<noteq> CHR ''X''" if "3 \<le> length s"
  proof -
    have "is_digit b (s ! 1)" using assms(3) that by (simp add: nth_mem)
    from is_digitD(6,7) [OF this] assms(2) show ?thesis by simp
  qed
  then show "radix b s = (b, s)" using assms(1) by (auto simp: radix_def)
  show "is_digit 36 (hd s)" using assms by (auto intro: is_digit_mono [of b])
qed (use assms in auto)

lemma strtoul_decimal:
  assumes "base = 0 \<or> base = 10"
  shows "strtoul (digits 10 n) base = (if 2 ^ 64 \<le> n then - 1 else of_nat n, [])"
proof -
  have d: "number 10 (digits 10 n) = n" "\<forall>c \<in> set (digits 10 n). is_digit 10 c" "digits 10 n \<noteq> []"
    using digits_ok [of 10 n] by simp_all
  show ?thesis
  proof (cases "base = 10")
    case True
    then show ?thesis using strtoul_base [of 10 "digits 10 n"] d by simp
  next
    case False
    then have b: "base = 0" using assms by simp
    show ?thesis
    proof (cases "n = 0")
      case True
      have "digits 10 0 = ''0''" by (simp add: digits_small digit_char_def char_of_def bit_0)
      then show ?thesis unfolding True b
        by (simp add: strtoul_def sign_def radix_def isspace_def is_digit_def digit_value_def number_def)
    next
      case nz: False
      have "hd (digits 10 n) \<noteq> CHR ''0''" using nz by (intro digits_head) simp_all
      then have "digits 10 n ! 0 \<noteq> CHR ''0''" using d(3) by (simp add: hd_conv_nth)
      then have "radix 0 (digits 10 n) = (10, digits 10 n)" by (simp add: radix_def)
      moreover have "is_digit 36 (hd (digits 10 n))" using d(2,3) by (auto intro: is_digit_mono [of 10])
      ultimately show ?thesis using strtoul_digits [of 0 "digits 10 n" 10 "digits 10 n"] d b by simp
    qed
  qed
qed

lemma strtoul_hex:
  assumes "base = 0 \<or> base = 16"
  shows "strtoul (''0x'' @ digits 16 n) base = (if 2 ^ 64 \<le> n then - 1 else of_nat n, [])"
proof -
  have d: "number 16 (digits 16 n) = n" "\<forall>c \<in> set (digits 16 n). is_digit 16 c" "digits 16 n \<noteq> []"
    using digits_ok [of 16 n] by simp_all
  then have "is_digit 16 (digits 16 n ! 0)" by (simp add: nth_mem)
  then have "radix base (''0x'' @ digits 16 n) = (16, digits 16 n)"
    using assms d(3) by (auto simp: radix_def Suc_le_eq)
  moreover have "is_digit 36 (hd (''0x'' @ digits 16 n))" by (simp add: is_digit_def digit_value_def)
  ultimately show ?thesis using strtoul_digits [of base "''0x'' @ digits 16 n" 16 "digits 16 n"] d by simp
qed

lemma pad_chars: "c \<in> set (pad w (digits 16 n)) \<Longrightarrow> is_digit 16 c"
  using digits_ok [of 16 n] by (auto simp: pad_def is_digit_def digit_value_def)

lemma strtoul_pad:
  assumes "n < 2 ^ 64"
  shows "strtoul (pad w (digits 16 n)) 16 = (of_nat n, [])"
proof -
  have d: "number 16 (digits 16 n) = n" "\<forall>c \<in> set (digits 16 n). is_digit 16 c" "digits 16 n \<noteq> []"
    using digits_ok [of 16 n] by simp_all
  have z: "digit_value CHR ''0'' = Some 0" by (simp add: digit_value_def)
  have "number 16 (replicate k CHR ''0'' @ s) = number 16 s" for k s
    by (induction k) (simp_all add: number_def z)
  then have "number 16 (pad w (digits 16 n)) = n" using d(1) by (simp add: pad_def)
  moreover have "strtoul (pad w (digits 16 n)) 16 =
      (if 2 ^ 64 \<le> number 16 (pad w (digits 16 n)) then - 1 else of_nat (number 16 (pad w (digits 16 n))), [])"
    by (rule strtoul_base) (use pad_chars d(3) in \<open>auto simp: pad_def\<close>)
  ultimately show ?thesis using assms by simp
qed

text \<open>The kernel module and the programs write decimal numbers alike.\<close>

lemma digits_decimal: "digits 10 n = decimal n"
proof (induction n rule: less_induct)
  case (less n)
  show ?case using less.IH [of "n div 10"] by (subst digits.simps, subst decimal.simps) (simp add: digit_char_def)
qed

section \<open>PCI addresses\<close>

lemma split_first_at: "c \<notin> set a \<Longrightarrow> split_first c (a @ c # b) = Some (a, b)"
  by (auto simp: split_first_def takeWhile_append dropWhile_append)

lemma split_first_none: "c \<notin> set s \<Longrightarrow> split_first c s = None"
  by (simp add: split_first_def)

lemma split_last_at: "c \<notin> set b \<Longrightarrow> split_last c (a @ c # b) = Some (a, b)"
  using split_first_at [of c "rev b" "rev a"] by (simp add: split_last_def)


lemma ucast_of_nat: "(ucast (of_nat n :: u64) :: u32) = of_nat n" "(ucast (of_nat n :: u64) :: u16) = of_nat n"
  by (rule bit_word_eqI, simp add: bit_simps)+

lemma to_int_small:
  assumes "n < 2 ^ 31"
  shows "to_int (of_nat n) = int n"
  using assms by (simp add: to_int_def ucast_of_nat signed_of_nat signed_take_bit_int_eq_self)

lemma bdf_field:
  assumes "n \<le> m" "m < 2 ^ 31"
  shows "\<forall>w. strtoul (pad w (digits 16 n)) 16 = (of_nat n, [])" "to_int (of_nat n) = int n" "\<not> int m < int n"
  using assms strtoul_pad [of n] to_int_small [of n] by simp_all

text \<open>
  On the digits of a decimal number, \<open>parse_u64\<close> succeeds with that number, or with the largest one when
  it does not fit; \<open>parse_u32\<close> and \<open>parse_u16\<close> succeed exactly for the numbers that fit their type and
  otherwise return \<open>EINVAL\<close> and leave the caller's variable as it was.
\<close>

theorem parse_decimal:
  assumes "base = 0 \<or> base = 10"
  shows "parse_u64 (digits 10 n) num64 base = (0, if n < 2 ^ 64 then of_nat n else - 1) \<and>
    parse_u32 junk (digits 10 n) num32 base = (if n < 2 ^ 32 then (0, of_nat n) else (EINVAL, num32)) \<and>
    parse_u16 junk (digits 10 n) num16 base = (if n < 2 ^ 16 then (0, of_nat n) else (EINVAL, num16))"
proof -
  have p: "parse_u64 (digits 10 n) num base = (0, if n < 2 ^ 64 then of_nat n else - 1)" for num
    using strtoul_decimal [OF assms, of n] by (simp add: parse_u64_def)
  have "unat (of_nat n :: u64) = n" if "n < 2 ^ 64" using that by (simp add: unat_of_nat)
  then have le: "n < 2 ^ 64 \<Longrightarrow> (0xffffffff < (of_nat n :: u64)) = (2 ^ 32 \<le> n)"
      "n < 2 ^ 64 \<Longrightarrow> (0xffff < (of_nat n :: u64)) = (2 ^ 16 \<le> n)"
    by (auto simp: word_less_nat_alt)
  show ?thesis using le by (simp add: p parse_u32_def parse_u16_def ucast_of_nat)
qed

theorem parse_decimal_witness:
  "parse_u64 (digits 10 70000) 0 0 = (0, 70000) \<and> parse_u32 0 (digits 10 70000) 0 0 = (0, 70000) \<and>
   parse_u16 0 (digits 10 70000) 7 0 = (EINVAL, 7) \<and> digits 10 70000 = ''70000''"
proof -
  have "digit_char 0 = CHR ''0''" "digit_char 7 = CHR ''7''" by code_simp+
  then have "digits 10 70000 = ''70000''" by (simp add: digits_induct_step digits_small)
  then show ?thesis using parse_decimal [of 0 70000 0 0 0 7] by simp
qed

text \<open>
  C38: A PCI address written the way the kernel names it below \<open>/sys/bus/pci/devices\<close>, which is also the
  way \<open>parse_args\<close> writes the path it looks up, is parsed to the domain, bus, device and function it was
  written from.
\<close>

theorem parse_bdf_round_trip:
  assumes "domain \<le> 0xffff" "bus \<le> 0xff" "device \<le> 0xff" "func < 10"
  shows "parse_bdf (bdf_name domain bus device func) dev =
    (0, dev\<lparr>bd_domain := int domain, bd_bus := int bus, bd_device := int device, bd_function := int func\<rparr>)"
proof -
  let ?d = "pad 4 (digits 16 domain)" and ?b = "pad 2 (digits 16 bus)" and ?s = "pad 2 (digits 16 device)"
  let ?f = "digits 16 func"
  have no: "CHR '':'' \<notin> set (pad w (digits 16 n))" "CHR ''.'' \<notin> set (pad w (digits 16 n))" for w n
    using pad_chars is_digitD(4,5) by blast+
  have fd: "?f = digits 10 func" using assms(4) by (simp add: digits_small)
  have "CHR '':'' \<notin> set ?f" using digits_ok [of 16 func] is_digitD(4) by auto
  then have l: "split_last CHR '':'' (bdf_name domain bus device func) = Some (?d @ CHR '':'' # ?b, ?s @ CHR ''.'' # ?f)"
    using split_last_at [of "CHR '':''" "?s @ CHR ''.'' # ?f" "?d @ CHR '':'' # ?b"] no by (simp add: bdf_name_def)
  have f: "split_first CHR '':'' (?d @ CHR '':'' # ?b) = Some (?d, ?b)"
    "split_first CHR ''.'' (?s @ CHR ''.'' # ?f) = Some (?s, ?f)" by (rule split_first_at, rule no)+
  have fn: "strtoul ?f 0 = (of_nat func, [])" "to_int (of_nat func) = int func"
    using strtoul_decimal [of 0 func] assms(4) to_int_small [of func] by (simp_all add: fd)
  show ?thesis
    using bdf_field [OF assms(1)] bdf_field [OF assms(2)] bdf_field [OF assms(3)] fn
    by (simp add: parse_bdf_def l f)
qed

theorem parse_bdf_round_trip_witness:
  "parse_bdf (bdf_name 0 0x8b 0x1f 3) \<lparr>bd_domain = 0, bd_bus = 0, bd_device = 0, bd_function = 0\<rparr> =
     (0, \<lparr>bd_domain = 0, bd_bus = 139, bd_device = 31, bd_function = 3\<rparr>) \<and>
   bdf_name 0 0x8b 0x1f 3 = ''0000:8b:1f.3''"
proof -
  have "bdf_name 0 0x8b 0x1f 3 = ''0000:8b:1f.3''" by code_simp
  then show ?thesis
    using parse_bdf_round_trip [of 0 "0x8b" "0x1f" 3 "\<lparr>bd_domain = 0, bd_bus = 0, bd_device = 0, bd_function = 0\<rparr>"] by simp
qed

text \<open>
  The parsers take an empty string for zero and a negative number for its two's complement; a domain whose
  32-bit value has the sign bit is negative and below the limit, so that it is accepted.
\<close>

lemma parse_u64_empty: "parse_u64 [] num base = (0, 0)"
  by (simp add: parse_u64_def strtoul_def sign_def radix_def)

lemma parse_u64_negative: "parse_u64 ''-1'' num 0 = (0, - 1)"
  by (simp add: parse_u64_def strtoul_def sign_def radix_def isspace_def is_digit_def digit_value_def number_def)

lemma parse_bdf_negative_domain:
  "parse_bdf ''ffffffff:00:00.0'' dev = (0, dev\<lparr>bd_domain := - 1, bd_bus := 0, bd_device := 0, bd_function := 0\<rparr>)"
proof -
  have "split_last CHR '':'' ''ffffffff:00:00.0'' = Some (''ffffffff:00'', ''00.0'')"
    "split_first CHR '':'' ''ffffffff:00'' = Some (''ffffffff'', ''00'')" "split_first CHR ''.'' ''00.0'' = Some (''00'', ''0'')"
    by code_simp+
  moreover have "strtoul ''ffffffff'' 16 = (0xffffffff, [])" "strtoul ''00'' 16 = (0, [])" "strtoul ''0'' 0 = (0, [])"
    by (simp_all add: strtoul_def sign_def radix_def isspace_def is_digit_def digit_value_def number_def)
  moreover have "to_int 0xffffffff = - 1" "to_int 0 = 0" by (simp_all add: to_int_def)
  ultimately show ?thesis by (simp add: parse_bdf_def)
qed

text \<open>\<open>parse_number\<close> with bounds accepts the numbers from \<open>lo\<close> to \<open>hi - 1\<close>.\<close>

lemma parse_number_bounds:
  assumes "parse_number num str base lo hi = (True, v)" "lo < hi"
  shows "lo \<le> v \<and> v < hi"
  using assms by (auto simp: parse_number_def split: prod.splits if_splits)

lemma parse_number_fails: "parse_number num str base lo hi = (False, v) \<Longrightarrow> v = num"
  by (auto simp: parse_number_def split: prod.splits if_splits)

end
