(* ===== verification/Util.thy ===== *)
theory Util
  imports Prelude
begin

unbundle bit_operations_syntax

text \<open>
  The arithmetic of \<open>include/nvm_util.h\<close> and \<open>src/util.h\<close>: bit-field access, page and block
  arithmetic, the integer logarithm and the delay helper, together with the world the library
  runs in: memory shared with the controller, which acts on it whenever the host sleeps or
  writes a register.
\<close>

section \<open>Bit fields\<close>

definition nvm_bitmask :: "nat \<Rightarrow> nat \<Rightarrow> u64" where
  "nvm_bitmask hi lo = foldl (\<lambda>mask i. mask OR push_bit i 1) 0 [lo..<Suc hi]"

definition RB :: "u64 \<Rightarrow> nat \<Rightarrow> nat \<Rightarrow> u64" where
  "RB v hi lo = drop_bit lo (v AND nvm_bitmask hi lo)"

text \<open>The shift happens at the width of the argument, which is 32 bits at every use.\<close>

definition WB :: "u32 \<Rightarrow> nat \<Rightarrow> nat \<Rightarrow> u64" where
  "WB v hi lo = ucast (push_bit lo v) AND nvm_bitmask hi lo"

section \<open>Pages and blocks\<close>

definition NVM_PAGE_TO_BLOCK :: "u64 \<Rightarrow> u64 \<Rightarrow> u64 \<Rightarrow> u64" where
  "NVM_PAGE_TO_BLOCK page_size block_size pageno = (page_size * pageno) div block_size"

definition NVM_BLOCK_TO_PAGE :: "u64 \<Rightarrow> u64 \<Rightarrow> u64 \<Rightarrow> u64" where
  "NVM_BLOCK_TO_PAGE page_size block_size blockno = (block_size * blockno) div page_size"

definition NVM_PAGE_MASK :: "u64 \<Rightarrow> u64" where
  "NVM_PAGE_MASK page_size = NOT (page_size - 1)"

definition NVM_ADDR_MASK :: "u64 \<Rightarrow> u64 \<Rightarrow> u64" where
  "NVM_ADDR_MASK addr page_size = addr AND NVM_PAGE_MASK page_size"

definition NVM_PAGE_ALIGN :: "u64 \<Rightarrow> u64 \<Rightarrow> u64" where
  "NVM_PAGE_ALIGN sz page_size = (sz + page_size - 1) AND NVM_PAGE_MASK page_size"

definition NVM_ADDR_OFFSET :: "u64 \<Rightarrow> u64 \<Rightarrow> u64 \<Rightarrow> u64" where
  "NVM_ADDR_OFFSET addr page_size pageno = addr + page_size * pageno"

section \<open>Integer logarithm\<close>

function nvm_b2log_loop :: "u32 \<Rightarrow> u32 \<Rightarrow> u32" where
  "nvm_b2log_loop n count =
     (if n > 0 then nvm_b2log_loop (drop_bit 1 n) (count + 1) else count)"
  by pat_completeness auto
termination
proof (relation "measure (\<lambda>(n, count). unat n)")
  show "wf (measure (\<lambda>(n :: u32, count :: u32). unat n))" by simp
next
  fix n count :: u32
  assume "n > 0"
  then have "unat (drop_bit 1 n) < unat n"
    by (simp add: unat_drop_bit word_less_nat_alt del: drop_bit_Suc)
  then show "((drop_bit 1 n, count + 1), (n, count)) \<in> measure (\<lambda>(n, count). unat n)" by simp
qed

declare nvm_b2log_loop.simps [simp del]

definition nvm_b2log :: "u32 \<Rightarrow> u32" where
  "nvm_b2log n = nvm_b2log_loop n 0 - 1"

section \<open>The host and the controller\<close>

text \<open>
  \<open>w_mem\<close> is the memory host and controller share (queue memory and the register file), \<open>w_tick\<close>
  counts the moments at which the controller got to act, \<open>w_log\<close> lists the register writes of
  the host, oldest first.  The controller itself is a parameter: \<open>dev k m\<close> is what it makes of
  memory \<open>m\<close> at moment \<open>k\<close>, and nothing is assumed of it unless a theorem says so.
\<close>

record world =
  w_mem :: mem
  w_tick :: nat
  w_log :: "(u64 \<times> u64) list"

type_synonym device = "nat \<Rightarrow> mem \<Rightarrow> mem"

definition dev_step :: "device \<Rightarrow> world \<Rightarrow> world" where
  "dev_step dev w = w\<lparr>w_mem := dev (w_tick w) (w_mem w), w_tick := Suc (w_tick w)\<rparr>"

definition reg_write32 :: "device \<Rightarrow> u64 \<Rightarrow> u32 \<Rightarrow> world \<Rightarrow> world" where
  "reg_write32 dev a v w =
     dev_step dev (w\<lparr>w_mem := store32 a v (w_mem w), w_log := w_log w @ [(a, ucast v)]\<rparr>)"

definition reg_write64 :: "device \<Rightarrow> u64 \<Rightarrow> u64 \<Rightarrow> world \<Rightarrow> world" where
  "reg_write64 dev a v w =
     dev_step dev (w\<lparr>w_mem := store64 a v (w_mem w), w_log := w_log w @ [(a, v)]\<rparr>)"

text \<open>Sleep for at most a millisecond and return what is left of the budget (in nanoseconds).\<close>

definition nvm_delay_remain :: "device \<Rightarrow> u64 \<Rightarrow> world \<Rightarrow> u64 \<times> world" where
  "nvm_delay_remain dev remaining w =
     (if remaining = 0 then (0, w)
      else (remaining - min 1000000 remaining, dev_step dev w))"

text \<open>
  The page size \<open>sysconf\<close> reports is a parameter; the check for its failure is compiled in only
  without \<open>NDEBUG\<close>.
\<close>

definition nvm_host_page_size :: "bool \<Rightarrow> int \<Rightarrow> u64" where
  "nvm_host_page_size ndebug sysconf =
     (if \<not> ndebug \<and> sysconf < 0 then 0 else word_of_int sysconf)"

section \<open>Bit-field lemmas\<close>

lemma bit_nvm_bitmask_foldl:
  "bit (foldl (\<lambda>mask i. mask OR push_bit i 1) x is :: u64) n
    \<longleftrightarrow> bit x n \<or> (n \<in> set is \<and> n < 64)"
  by (induction "is" arbitrary: x) (auto simp: bit_simps)

lemma bit_nvm_bitmask [bit_simps]: "bit (nvm_bitmask hi lo) n \<longleftrightarrow> lo \<le> n \<and> n \<le> hi \<and> n < 64"
  unfolding nvm_bitmask_def bit_nvm_bitmask_foldl by auto

lemma bit_RB [bit_simps]: "bit (RB v hi lo) n \<longleftrightarrow> lo + n \<le> hi \<and> bit v (lo + n)"
  by (auto simp: RB_def bit_simps dest: bit_imp_le_length)

lemma bit_WB [bit_simps]:
  "bit (WB v hi lo) n \<longleftrightarrow> lo \<le> n \<and> n \<le> hi \<and> n < 32 \<and> bit v (n - lo)"
  by (auto simp: WB_def bit_simps)

lemma RB_take_bit: "lo \<le> hi \<Longrightarrow> RB v hi lo = take_bit (Suc hi - lo) (drop_bit lo v)"
  by (rule bit_word_eqI) (auto simp: bit_simps)

lemma unat_RB: "lo \<le> hi \<Longrightarrow> unat (RB v hi lo) = (unat v div 2 ^ lo) mod 2 ^ (Suc hi - lo)"
  by (simp only: RB_take_bit unat_take_bit unat_drop_bit)

lemma RB_eq_0_iff: "lo \<le> hi \<Longrightarrow> RB v hi lo = 0 \<longleftrightarrow> (unat v div 2 ^ lo) mod 2 ^ (Suc hi - lo) = 0"
  by (metis unat_RB unat_eq_zero)

lemma RB_above_width:
  fixes x :: "'a :: len word"
  shows "LENGTH('a) \<le> lo \<Longrightarrow> RB (ucast x) hi lo = 0"
  by (rule bit_word_eqI) (auto simp: bit_simps dest: bit_imp_le_length)

lemma RB_WB_same: "lo \<le> hi \<Longrightarrow> hi < 32 \<Longrightarrow> RB (WB v hi lo) hi lo = ucast (take_bit (Suc hi - lo) v)"
  by (rule bit_word_eqI) (auto simp: bit_simps)

lemma RB_WB_disjoint: "hi' < lo \<or> hi < lo' \<Longrightarrow> RB (WB v hi lo) hi' lo' = 0"
  by (rule bit_word_eqI) (auto simp: bit_simps)

lemma RB_or: "RB (x OR y) hi lo = RB x hi lo OR RB y hi lo"
  by (rule bit_word_eqI) (auto simp: bit_simps)

section \<open>Logarithm and page lemmas\<close>

lemma nvm_b2log_loop_spec:
  "n > 0 \<Longrightarrow>
   \<exists>k. nvm_b2log_loop n count = count + of_nat (Suc k) \<and> 2 ^ k \<le> unat n \<and> unat n < 2 ^ Suc k"
proof (induction n count rule: nvm_b2log_loop.induct)
  case (1 n count)
  let ?h = "drop_bit 1 n"
  have h: "unat ?h = unat n div 2" using unat_drop_bit [of 1 n] by simp
  have step: "nvm_b2log_loop n count = nvm_b2log_loop ?h (count + 1)"
    using "1.prems" by (subst nvm_b2log_loop.simps) simp
  show ?case
  proof (cases "?h = 0")
    case True
    then have "unat n div 2 = 0" using h by simp
    moreover have "0 < unat n" using "1.prems" by (simp add: word_less_nat_alt)
    ultimately have "unat n = 1" by linarith
    then show ?thesis using True step
      by (intro exI [of _ 0]) (simp add: nvm_b2log_loop.simps)
  next
    case False
    then have "?h > 0" by (simp add: word_neq_0_conv)
    with "1.IH" "1.prems" obtain k where "nvm_b2log_loop ?h (count + 1) = count + 1 + of_nat (Suc k)"
      and "2 ^ k \<le> unat ?h" and "unat ?h < 2 ^ Suc k" by blast
    with step h show ?thesis by (intro exI [of _ "Suc k"]) (auto simp: add.commute)
  qed
qed

lemma unat_less_32: "2 ^ k \<le> unat (n :: u32) \<Longrightarrow> k < 32"
proof (rule ccontr)
  assume "2 ^ k \<le> unat n" "\<not> k < 32"
  moreover from this(2) have "(2 :: nat) ^ 32 \<le> 2 ^ k" by (intro power_increasing) auto
  moreover have "unat n < 2 ^ 32" using unsigned_less [of n] by simp
  ultimately show False by simp
qed

text \<open>
  For a positive argument the loop computes the integer logarithm; for zero it wraps around to
  the largest 32-bit value.
\<close>

lemma nvm_b2log_bounds:
  assumes "n > 0"
  shows "2 ^ unat (nvm_b2log n) \<le> unat n \<and> unat n < 2 ^ Suc (unat (nvm_b2log n))"
proof -
  from nvm_b2log_loop_spec [OF assms, of 0] obtain k
    where k: "nvm_b2log_loop n 0 = of_nat (Suc k)" "2 ^ k \<le> unat n" "unat n < 2 ^ Suc k" by auto
  have "k < 32" by (rule unat_less_32 [OF k(2)])
  then have "unat (nvm_b2log n) = k" by (simp add: nvm_b2log_def k(1) unat_of_nat take_bit_eq_mod)
  with k show ?thesis by simp
qed

lemma nvm_b2log_0: "nvm_b2log 0 = 0xffffffff"
  by (simp add: nvm_b2log_def nvm_b2log_loop.simps)

lemma nvm_b2log_power: "k < 32 \<Longrightarrow> nvm_b2log (2 ^ k) = of_nat k"
proof -
  assume k: "k < 32"
  then have u: "unat (2 ^ k :: u32) = 2 ^ k" by (simp add: unat_pow2)
  then have pos: "(2 ^ k :: u32) > 0" by (simp add: word_less_nat_alt)
  let ?b = "unat (nvm_b2log (2 ^ k))"
  from nvm_b2log_bounds [OF pos] u have "(2::nat) ^ ?b \<le> 2 ^ k" "(2::nat) ^ k < 2 ^ Suc ?b" by auto
  then have "?b \<le> k" "k < Suc ?b"
    using power_le_imp_le_exp [of "2::nat" ?b k] power_less_imp_less_exp [of "2::nat" k "Suc ?b"]
    by simp_all
  then have "?b = k" by simp
  then have "(of_nat ?b :: u32) = of_nat k" by simp
  then show ?thesis by simp
qed

lemma NVM_PAGE_MASK_power:
  assumes "k < 64"
  shows "a AND NVM_PAGE_MASK (2 ^ k) = push_bit k (drop_bit k a)"
proof (rule bit_word_eqI)
  fix n assume n: "n < LENGTH(64)"
  have "(2 ^ k :: u64) - 1 = mask k" by (simp add: mask_eq_decr_exp)
  then show "bit (a AND NVM_PAGE_MASK (2 ^ k)) n \<longleftrightarrow> bit (push_bit k (drop_bit k a)) n"
    using n by (auto simp: NVM_PAGE_MASK_def bit_simps)
qed

lemma unat_NVM_ADDR_MASK:
  assumes "k < 64"
  shows "unat (NVM_ADDR_MASK a (2 ^ k)) = unat a div 2 ^ k * 2 ^ k"
proof -
  have le: "unat a div 2 ^ k * 2 ^ k \<le> unat a" by simp
  from le_less_trans [OF le unat_u64_less] have lt: "unat a div 2 ^ k * 2 ^ k < 2 ^ 64" .
  have "unat (push_bit k (drop_bit k a)) = take_bit 64 (push_bit k (unat (drop_bit k a)))"
    by (simp add: unsigned_push_bit_eq)
  also have "\<dots> = (unat a div 2 ^ k * 2 ^ k) mod 2 ^ 64"
    by (simp only: unat_drop_bit take_bit_eq_mod push_bit_eq_mult)
  finally show ?thesis using lt by (simp add: NVM_ADDR_MASK_def NVM_PAGE_MASK_power [OF assms])
qed

lemma unat_NVM_PAGE_ALIGN:
  assumes "k < 64" "unat sz + 2 ^ k \<le> 2 ^ 64"
  shows "unat (NVM_PAGE_ALIGN sz (2 ^ k)) = (unat sz + 2 ^ k - 1) div 2 ^ k * 2 ^ k"
proof -
  have p: "unat (2 ^ k :: u64) = 2 ^ k" using assms(1) by (simp add: unat_pow2)
  have "sz + 2 ^ k - 1 = (of_nat (unat sz + 2 ^ k - 1) :: u64)"
    by (simp add: of_nat_diff Suc_leI)
  then have "unat (sz + 2 ^ k - 1) = (unat sz + 2 ^ k - 1) mod 2 ^ 64"
    by (simp only: unat_of_nat take_bit_eq_mod) simp
  moreover have "unat sz + 2 ^ k - 1 < 2 ^ 64"
    using assms(2) by (metis Suc_diff_1 Suc_le_lessD add_gr_0 zero_less_numeral zero_less_power)
  ultimately have "unat (sz + 2 ^ k - 1) = unat sz + 2 ^ k - 1" by simp
  then show ?thesis
    using unat_NVM_ADDR_MASK [OF assms(1), of "sz + 2 ^ k - 1"]
    by (simp add: NVM_PAGE_ALIGN_def NVM_ADDR_MASK_def)
qed

text \<open>Rounding up gives the least multiple of the page size that holds the range.\<close>

lemma NVM_PAGE_ALIGN_least:
  assumes "k < 64" "unat sz + 2 ^ k \<le> 2 ^ 64"
  shows "2 ^ k dvd unat (NVM_PAGE_ALIGN sz (2 ^ k)) \<and> unat sz \<le> unat (NVM_PAGE_ALIGN sz (2 ^ k))
    \<and> unat (NVM_PAGE_ALIGN sz (2 ^ k)) < unat sz + 2 ^ k"
proof -
  let ?p = "2 ^ k :: nat" and ?s = "unat sz + 2 ^ k - 1"
  have e: "?s div ?p * ?p = ?s - ?s mod ?p" by (simp add: minus_mod_eq_div_mult)
  have "?s mod ?p < ?p" "0 < ?p" by simp_all
  then have "unat sz \<le> ?s - ?s mod ?p" "?s - ?s mod ?p < unat sz + ?p" by linarith+
  then show ?thesis unfolding unat_NVM_PAGE_ALIGN [OF assms] using e by (metis dvd_triv_right)
qed

section \<open>Delay lemmas\<close>

lemma nvm_delay_remain_less:
  "r \<noteq> 0 \<Longrightarrow> unat (fst (nvm_delay_remain dev r w)) < unat r"
proof -
  assume r: "r \<noteq> 0"
  let ?d = "min 1000000 r"
  have "?d \<le> r" by simp
  then have "unat (r - ?d) = unat r - unat ?d" by (rule unat_sub)
  moreover have "0 < unat ?d" using r by (auto simp: min_def word_less_nat_alt unat_gt_0)
  moreover have "0 < unat r" using r by (simp add: unat_gt_0)
  ultimately show ?thesis using r by (simp add: nvm_delay_remain_def)
qed

lemma unat_nvm_delay_remain:
  "unat (fst (nvm_delay_remain dev r w)) = unat r - 1000000"
proof (cases "1000000 \<le> r")
  case True
  then have "unat (r - 1000000) = unat r - 1000000" by (simp add: unat_sub)
  with True show ?thesis by (auto simp: nvm_delay_remain_def min_def)
next
  case False
  then have "unat r < 1000000" by (simp add: word_le_nat_alt)
  with False show ?thesis by (auto simp: nvm_delay_remain_def min_def)
qed

lemma nvm_delay_remain_log [simp]: "w_log (snd (nvm_delay_remain dev r w)) = w_log w"
  by (simp add: nvm_delay_remain_def dev_step_def)

lemma dev_step_simps [simp]:
  "w_log (dev_step dev w) = w_log w" "w_tick (dev_step dev w) = Suc (w_tick w)"
  "w_mem (dev_step dev w) = dev (w_tick w) (w_mem w)"
  by (simp_all add: dev_step_def)

end
