(* ===== verification/Cmd.thy ===== *)
theory Cmd
  imports Util
begin

unbundle bit_operations_syntax

text \<open>
  Building NVM commands (\<open>include/nvm_cmd.h\<close> and the field macros of \<open>include/nvm_util.h\<close>).
  A command is its array of sixteen 32-bit words, a completion its array of four.  PRP lists are
  written into byte memory.  Reading an address array out of its range is \<open>None\<close>.
\<close>

section \<open>Entries, opcodes and fields\<close>

type_synonym nvm_cmd = "u32 list"
type_synonym nvm_cpl = "u32 list"

definition sizeof_cmd :: nat where "sizeof_cmd = 64"
definition sizeof_cpl :: nat where "sizeof_cpl = 16"

datatype nvm_io_command_set = NVM_IO_FLUSH | NVM_IO_WRITE | NVM_IO_READ | NVM_IO_WRITE_ZEROES

fun io_opcode :: "nvm_io_command_set \<Rightarrow> u8" where
  "io_opcode NVM_IO_FLUSH = push_bit 7 0x00 OR push_bit 2 0x00 OR 0x00"
| "io_opcode NVM_IO_WRITE = push_bit 7 0x00 OR push_bit 2 0x00 OR 0x01"
| "io_opcode NVM_IO_READ = push_bit 7 0x00 OR push_bit 2 0x00 OR 0x02"
| "io_opcode NVM_IO_WRITE_ZEROES = push_bit 7 0x00 OR push_bit 2 0x02 OR 0x00"

datatype nvm_admin_command_set =
    NVM_ADMIN_DELETE_SUBMISSION_QUEUE | NVM_ADMIN_CREATE_SUBMISSION_QUEUE
  | NVM_ADMIN_DELETE_COMPLETION_QUEUE | NVM_ADMIN_CREATE_COMPLETION_QUEUE
  | NVM_ADMIN_IDENTIFY | NVM_ADMIN_ABORT | NVM_ADMIN_SET_FEATURES | NVM_ADMIN_GET_FEATURES

fun admin_opcode :: "nvm_admin_command_set \<Rightarrow> u8" where
  "admin_opcode NVM_ADMIN_DELETE_SUBMISSION_QUEUE = push_bit 7 0x00 OR push_bit 2 0x00 OR 0x00"
| "admin_opcode NVM_ADMIN_CREATE_SUBMISSION_QUEUE = push_bit 7 0x00 OR push_bit 2 0x00 OR 0x01"
| "admin_opcode NVM_ADMIN_DELETE_COMPLETION_QUEUE = push_bit 7 0x00 OR push_bit 2 0x01 OR 0x00"
| "admin_opcode NVM_ADMIN_CREATE_COMPLETION_QUEUE = push_bit 7 0x00 OR push_bit 2 0x01 OR 0x01"
| "admin_opcode NVM_ADMIN_IDENTIFY = push_bit 7 0x00 OR push_bit 2 0x01 OR 0x02"
| "admin_opcode NVM_ADMIN_ABORT = push_bit 7 0x00 OR push_bit 2 0x02 OR 0x00"
| "admin_opcode NVM_ADMIN_SET_FEATURES = push_bit 7 0x00 OR push_bit 2 0x02 OR 0x01"
| "admin_opcode NVM_ADMIN_GET_FEATURES = push_bit 7 0x00 OR push_bit 2 0x02 OR 0x02"

text \<open>Addresses of the standard fields of a command and of a completion.\<close>

definition NVM_CMD_CID :: "u64 \<Rightarrow> u64" where "NVM_CMD_CID p = p + 2"
definition NVM_CMD_NSID :: "u64 \<Rightarrow> u64" where "NVM_CMD_NSID p = p + 1"
definition NVM_CPL_CID :: "u64 \<Rightarrow> u64" where "NVM_CPL_CID p = p + 12"
definition NVM_CPL_SQHD :: "u64 \<Rightarrow> u64" where "NVM_CPL_SQHD p = p + 8"
definition NVM_CPL_SQID :: "u64 \<Rightarrow> u64" where "NVM_CPL_SQID p = p + 10"
definition NVM_CPL_STATUS :: "u64 \<Rightarrow> u64" where "NVM_CPL_STATUS p = p + 14"

text \<open>The same fields of an entry held as an array of words.\<close>

definition cmd_cid :: "nvm_cmd \<Rightarrow> u16" where "cmd_cid cmd = ucast (drop_bit 16 (cmd ! 0))"
definition cpl_cid :: "nvm_cpl \<Rightarrow> u16" where "cpl_cid cpl = ucast (cpl ! 3)"
definition cpl_status :: "nvm_cpl \<Rightarrow> u16" where "cpl_status cpl = ucast (drop_bit 16 (cpl ! 3))"

section \<open>Command words\<close>

definition nvm_cmd_header :: "nvm_cmd \<Rightarrow> u8 \<Rightarrow> u32 \<Rightarrow> nvm_cmd" where
  "nvm_cmd_header cmd opcode ns_id =
     (let cmd = cmd[0 := cmd ! 0 AND 0xffff0000];
          cmd = cmd[0 := cmd ! 0 OR (push_bit 14 0x00 OR push_bit 8 0x00 OR ucast (opcode AND 0x7f))]
      in cmd[1 := ns_id])"

definition nvm_cmd_data_ptr :: "nvm_cmd \<Rightarrow> u64 \<Rightarrow> u64 \<Rightarrow> nvm_cmd" where
  "nvm_cmd_data_ptr cmd prp1 prp2 =
     (let cmd = cmd[0 := cmd ! 0 AND NOT (push_bit 14 0x03 OR push_bit 8 0x03)]
      in cmd[6 := ucast prp1, 7 := ucast (drop_bit 32 prp1),
             8 := ucast prp2, 9 := ucast (drop_bit 32 prp2)])"

definition nvm_cmd_rw_blks :: "nvm_cmd \<Rightarrow> u64 \<Rightarrow> u16 \<Rightarrow> nvm_cmd" where
  "nvm_cmd_rw_blks cmd start_lba n_blks =
     cmd[10 := ucast start_lba, 11 := ucast (drop_bit 32 start_lba),
         12 := (cmd ! 12 AND 0xffff0000) OR ucast (n_blks - 1)]"

section \<open>PRP lists\<close>

function nvm_prp_list_loop :: "nat \<Rightarrow> nat \<Rightarrow> u64 \<Rightarrow> u64 list \<Rightarrow> mem \<Rightarrow> (nat \<times> mem) option" where
  "nvm_prp_list_loop i n list data_ioaddrs m =
     (if i < n then
        (if i < length data_ioaddrs then
           nvm_prp_list_loop (Suc i) n list data_ioaddrs
             (store64 (list + 8 * of_nat i) (data_ioaddrs ! i) m)
         else None)
      else Some (i, m))"
  by pat_completeness auto
termination
  by (relation "measure (\<lambda>(i, n, _). n - i)") auto

declare nvm_prp_list_loop.simps [simp del]

definition nvm_prp_list :: "u64 \<Rightarrow> nat \<Rightarrow> u64 \<Rightarrow> u64 list \<Rightarrow> mem \<Rightarrow> (nat \<times> mem) option" where
  "nvm_prp_list page_size n_pages list_ptr data_ioaddrs m =
     (let prps_per_page = unat (page_size div 8);
          n_pages = (if prps_per_page < n_pages then prps_per_page else n_pages)
      in nvm_prp_list_loop 0 n_pages list_ptr data_ioaddrs m)"

text \<open>The early return for an empty transfer is compiled in only without \<open>NDEBUG\<close>.\<close>

definition nvm_cmd_data ::
  "bool \<Rightarrow> nvm_cmd \<Rightarrow> u64 \<Rightarrow> nat \<Rightarrow> u64 \<Rightarrow> u64 \<Rightarrow> u64 list \<Rightarrow> mem \<Rightarrow> (nat \<times> nvm_cmd \<times> mem) option" where
  "nvm_cmd_data ndebug cmd page_size n_pages list_ptr list_ioaddr data_ioaddrs m =
     (if \<not> ndebug \<and> n_pages = 0 then Some (0, cmd, m)
      else if data_ioaddrs = [] then None
      else
        let dptr0 = data_ioaddrs ! 0 in
        if n_pages > 2 \<and> list_ptr \<noteq> NULL then
          (case nvm_prp_list page_size (n_pages - 1) list_ptr (drop 1 data_ioaddrs) m of
             None \<Rightarrow> None
           | Some (k, m') \<Rightarrow> Some (1 + k, nvm_cmd_data_ptr cmd dptr0 list_ioaddr, m'))
        else if n_pages \<ge> 2 then
          (if 1 < length data_ioaddrs
           then Some (2, nvm_cmd_data_ptr cmd dptr0 (data_ioaddrs ! 1), m)
           else None)
        else Some (1, nvm_cmd_data_ptr cmd dptr0 0, m))"

section \<open>Field lemmas\<close>

lemma length_cmd_ops [simp]:
  "length (nvm_cmd_header cmd opc ns) = length cmd"
  "length (nvm_cmd_data_ptr cmd p q) = length cmd"
  "length (nvm_cmd_rw_blks cmd l n) = length cmd"
  by (simp_all add: nvm_cmd_header_def nvm_cmd_data_ptr_def nvm_cmd_rw_blks_def)

lemma load16_high_half: "load16 (store32 a v m) (a + 2) = ucast (drop_bit 16 v)"
  by (simp add: store32_def load16_store16)

lemma load16_low_half: "load16 m a = ucast (load32 m a)"
  by (rule bit_word_eqI) (auto simp: load32_def bit_simps)

lemma load16_from_32: "load16 m (a + 2) = ucast (drop_bit 16 (load32 m a))"
  by (rule bit_word_eqI) (auto simp: load32_def bit_simps dest: bit_imp_le_length)

text \<open>The field macros agree with the array view of an entry in memory.\<close>

lemma cmd_cid_load: "cmd_cid (load_dwords m p 16) = load16 m (NVM_CMD_CID p)"
  by (simp add: cmd_cid_def NVM_CMD_CID_def load_dwords_def load16_from_32)

lemma cpl_cid_load: "cpl_cid (load_dwords m p 4) = load16 m (NVM_CPL_CID p)"
  by (simp add: cpl_cid_def NVM_CPL_CID_def load_dwords_def load16_low_half numeral_eq_Suc)

lemma cpl_status_load: "cpl_status (load_dwords m p 4) = load16 m (NVM_CPL_STATUS p)"
proof -
  have "p + 14 = (p + 12) + 2" by simp
  then have "load16 m (p + 14) = ucast (drop_bit 16 (load32 m (p + 12)))"
    by (simp only: load16_from_32)
  then show ?thesis
    by (simp add: cpl_status_def NVM_CPL_STATUS_def load_dwords_def numeral_eq_Suc)
qed

text \<open>
  The header keeps the command identifier (the upper half of the first word), sets the opcode
  and the namespace, and clears the fused-operation and data-pointer-type bits.
\<close>

lemma nvm_cmd_header_fields:
  assumes "2 \<le> length cmd"
  shows "cmd_cid (nvm_cmd_header cmd opc ns) = cmd_cid cmd"
    and "RB (ucast (nvm_cmd_header cmd opc ns ! 0)) 7 0 = ucast (opc AND 0x7f)"
    and "RB (ucast (nvm_cmd_header cmd opc ns ! 0)) 15 8 = 0"
    and "nvm_cmd_header cmd opc ns ! 1 = ns"
    and "\<And>i. 2 \<le> i \<Longrightarrow> nvm_cmd_header cmd opc ns ! i = cmd ! i"
proof -
  have d0: "nvm_cmd_header cmd opc ns ! 0 = (cmd ! 0 AND 0xffff0000) OR ucast (opc AND 0x7f)"
    using assms by (cases cmd) (auto simp: nvm_cmd_header_def Let_def)
  show "cmd_cid (nvm_cmd_header cmd opc ns) = cmd_cid cmd"
    unfolding cmd_cid_def d0 and_hi16 and_7f by (rule bit_word_eqI) (auto simp: bit_simps)
  show "RB (ucast (nvm_cmd_header cmd opc ns ! 0)) 7 0 = ucast (opc AND 0x7f)"
    unfolding d0 and_hi16 and_7f by (rule bit_word_eqI) (auto simp: bit_simps)
  show "RB (ucast (nvm_cmd_header cmd opc ns ! 0)) 15 8 = 0"
    unfolding d0 and_hi16 and_7f by (rule bit_word_eqI) (auto simp: bit_simps)
  show "nvm_cmd_header cmd opc ns ! 1 = ns"
    using assms by (simp add: nvm_cmd_header_def Let_def)
  show "nvm_cmd_header cmd opc ns ! i = cmd ! i" if "2 \<le> i" for i
    using that by (simp add: nvm_cmd_header_def Let_def)
qed

lemma join_halves: "ucast (ucast p :: u32) OR push_bit 32 (ucast (ucast (drop_bit 32 p) :: u32)) = (p :: u64)"
  by (rule bit_word_eqI) (auto simp: bit_simps)

definition cmd_prp1 :: "nvm_cmd \<Rightarrow> u64" where
  "cmd_prp1 cmd = ucast (cmd ! 6) OR push_bit 32 (ucast (cmd ! 7))"
definition cmd_prp2 :: "nvm_cmd \<Rightarrow> u64" where
  "cmd_prp2 cmd = ucast (cmd ! 8) OR push_bit 32 (ucast (cmd ! 9))"

lemma nvm_cmd_data_ptr_fields:
  assumes "10 \<le> length cmd"
  shows "cmd_prp1 (nvm_cmd_data_ptr cmd p q) = p" and "cmd_prp2 (nvm_cmd_data_ptr cmd p q) = q"
    and "cmd_cid (nvm_cmd_data_ptr cmd p q) = cmd_cid cmd"
    and "\<And>i. i \<notin> {0, 6, 7, 8, 9} \<Longrightarrow> nvm_cmd_data_ptr cmd p q ! i = cmd ! i"
proof -
  show "cmd_prp1 (nvm_cmd_data_ptr cmd p q) = p" "cmd_prp2 (nvm_cmd_data_ptr cmd p q) = q"
    using assms by (simp_all add: cmd_prp1_def cmd_prp2_def nvm_cmd_data_ptr_def Let_def join_halves)
  have "cmd \<noteq> []" using assms by auto
  then have d0: "nvm_cmd_data_ptr cmd p q ! 0 = cmd ! 0 AND NOT 0xC300"
    by (simp add: nvm_cmd_data_ptr_def Let_def)
  show "cmd_cid (nvm_cmd_data_ptr cmd p q) = cmd_cid cmd"
    unfolding cmd_cid_def d0 by (subst drop_bit_and_not_low) simp_all
  show "nvm_cmd_data_ptr cmd p q ! i = cmd ! i" if "i \<notin> {0, 6, 7, 8, 9}" for i
    using that by (simp add: nvm_cmd_data_ptr_def Let_def)
qed

text \<open>The block count is stored zero-based and the other half of its word is kept.\<close>

lemma nvm_cmd_rw_blks_fields:
  assumes "13 \<le> length cmd"
  shows "ucast (nvm_cmd_rw_blks cmd lba n ! 10) OR push_bit 32 (ucast (nvm_cmd_rw_blks cmd lba n ! 11)) = lba"
    and "RB (ucast (nvm_cmd_rw_blks cmd lba n ! 12)) 15 0 = ucast (n - 1)"
    and "RB (ucast (nvm_cmd_rw_blks cmd lba n ! 12)) 31 16 = RB (ucast (cmd ! 12)) 31 16"
    and "\<And>i. i \<notin> {10, 11, 12} \<Longrightarrow> nvm_cmd_rw_blks cmd lba n ! i = cmd ! i"
proof -
  have d: "nvm_cmd_rw_blks cmd lba n ! 12 = (cmd ! 12 AND 0xffff0000) OR ucast (n - 1)"
    using assms by (simp add: nvm_cmd_rw_blks_def)
  show "ucast (nvm_cmd_rw_blks cmd lba n ! 10) OR push_bit 32 (ucast (nvm_cmd_rw_blks cmd lba n ! 11)) = lba"
    using assms by (simp add: nvm_cmd_rw_blks_def join_halves)
  show "RB (ucast (nvm_cmd_rw_blks cmd lba n ! 12)) 15 0 = ucast (n - 1)"
    unfolding d and_hi16 by (rule bit_word_eqI) (auto simp: bit_simps dest: bit_imp_le_length)
  show "RB (ucast (nvm_cmd_rw_blks cmd lba n ! 12)) 31 16 = RB (ucast (cmd ! 12)) 31 16"
    unfolding d and_hi16 by (rule bit_word_eqI) (auto simp: bit_simps dest: bit_imp_le_length)
  show "nvm_cmd_rw_blks cmd lba n ! i = cmd ! i" if "i \<notin> {10, 11, 12}" for i
    using that by (simp add: nvm_cmd_rw_blks_def)
qed

section \<open>PRP lemmas\<close>

lemma nvm_prp_list_loop_spec:
  "i \<le> n \<Longrightarrow> n \<le> length io \<Longrightarrow> 8 * n \<le> 2 ^ 64 \<Longrightarrow>
   \<exists>m'. nvm_prp_list_loop i n l io m = Some (n, m')
     \<and> (\<forall>j. i \<le> j \<and> j < n \<longrightarrow> load64 m' (l + 8 * of_nat j) = io ! j)
     \<and> (\<forall>x. \<not> in_range (l + 8 * of_nat i) (8 * (n - i)) x \<longrightarrow> m' x = m x)"
proof (induction i n l io m rule: nvm_prp_list_loop.induct)
  case (1 i n l io m)
  show ?case
  proof (cases "i < n")
    case False
    with "1.prems" show ?thesis by (subst nvm_prp_list_loop.simps) auto
  next
    case True
    let ?m1 = "store64 (l + 8 * of_nat i) (io ! i) m"
    have base: "l + 8 * of_nat (Suc i) = l + 8 * of_nat i + of_nat 8" by (simp add: algebra_simps)
    from True "1.prems" "1.IH" obtain m' where
      m': "nvm_prp_list_loop (Suc i) n l io ?m1 = Some (n, m')"
      and slots: "\<And>j. Suc i \<le> j \<Longrightarrow> j < n \<Longrightarrow> load64 m' (l + 8 * of_nat j) = io ! j"
      and frame: "\<And>x. \<not> in_range (l + 8 * of_nat i + of_nat 8) (8 * (n - Suc i)) x \<Longrightarrow> m' x = ?m1 x"
      unfolding base by auto
    have len: "8 * (n - i) = 8 + 8 * (n - Suc i)" "8 + 8 * (n - Suc i) \<le> 2 ^ 64"
      using True "1.prems" by auto
    have "\<not> in_range (l + 8 * of_nat i + of_nat 8) (8 * (n - Suc i)) x"
      if "in_range (l + 8 * of_nat i) 8 x" for x
      by (rule in_range_disjoint [OF that]) (use len in auto)
    then have "load64 m' (l + 8 * of_nat i) = load64 ?m1 (l + 8 * of_nat i)"
      by (intro load64_cong frame)
    then have here: "load64 m' (l + 8 * of_nat i) = io ! i" by (simp add: load64_store64)
    have out: "m' x = m x" if x: "\<not> in_range (l + 8 * of_nat i) (8 * (n - i)) x" for x
    proof -
      from x have "\<not> in_range (l + 8 * of_nat i) 8 x"
          "\<not> in_range (l + 8 * of_nat i + of_nat 8) (8 * (n - Suc i)) x"
        using in_range_split [OF len(2)] unfolding len(1) by auto
      then show ?thesis by (simp only: frame store64_other not_False_eq_True)
    qed
    have "nvm_prp_list_loop i n l io m = Some (n, m')"
      using True "1.prems" m' by (subst nvm_prp_list_loop.simps) simp
    moreover have "load64 m' (l + 8 * of_nat j) = io ! j" if "i \<le> j" "j < n" for j
      using here slots that by (cases "j = i") auto
    ultimately show ?thesis using out by blast
  qed
qed

lemma nvm_prp_list_loop_short:
  "i \<le> length io \<Longrightarrow> length io < n \<Longrightarrow> nvm_prp_list_loop i n l io m = None"
proof (induction i n l io m rule: nvm_prp_list_loop.induct)
  case (1 i n l io m)
  then show ?case by (subst nvm_prp_list_loop.simps) auto
qed

text \<open>
  The pages a controller works on for a transfer of \<open>k\<close> pages: PRP1 is the first page, PRP2 the
  second or, for more pages, the PRP list (here read at the host's address of it).
\<close>

definition prp_pages :: "nvm_cmd \<Rightarrow> mem \<Rightarrow> u64 \<Rightarrow> nat \<Rightarrow> u64 list" where
  "prp_pages cmd m list_ptr k =
     (if k = 0 then [] else if k = 1 then [cmd_prp1 cmd] else if k = 2 then [cmd_prp1 cmd, cmd_prp2 cmd]
      else cmd_prp1 cmd # map (\<lambda>i. load64 m (list_ptr + 8 * of_nat i)) [0..<k - 1])"

lemma nvm_prp_list_spec:
  assumes "min n (unat (page_size div 8)) \<le> length io"
  shows "\<exists>m'. nvm_prp_list page_size n l io m = Some (min n (unat (page_size div 8)), m')
    \<and> (\<forall>j < min n (unat (page_size div 8)). load64 m' (l + 8 * of_nat j) = io ! j)"
proof -
  let ?n = "min n (unat (page_size div 8))"
  have "unat (page_size div 8) = unat page_size div 8" by (simp add: unat_div)
  then have "8 * ?n \<le> unat page_size" by auto
  then have "8 * ?n \<le> 2 ^ 64" using unat_u64_less [of page_size] by linarith
  then obtain m' where "nvm_prp_list_loop 0 ?n l io m = Some (?n, m')"
    and "\<forall>j. j < ?n \<longrightarrow> load64 m' (l + 8 * of_nat j) = io ! j"
    using nvm_prp_list_loop_spec [of 0 ?n io l m] assms by auto
  then show ?thesis by (auto simp: nvm_prp_list_def Let_def min_def split: if_splits)
qed

section \<open>Property\<close>

text \<open>
  C30: \<open>nvm_cmd_data\<close> describes a transfer exactly: with bus addresses for all pages asked for and a
  page size of at least 16 it returns the number \<open>k\<close> of pages covered, which is the number asked for
  limited to 2 without a PRP list and to one more than a list page holds with one, and the controller
  finds in the command and the list the bus addresses of the first \<open>k\<close> pages, in order.
\<close>

theorem cmd_data_describes_pages:
  assumes "10 \<le> length cmd" "0 < n_pages" "n_pages \<le> length io" "16 \<le> page_size"
    and "k = (if n_pages \<le> 2 then n_pages else if list_ptr = NULL then 2 else min n_pages (1 + unat page_size div 8))"
  shows "\<exists>cmd' m'. nvm_cmd_data ndebug cmd page_size n_pages list_ptr list_ioaddr io m = Some (k, cmd', m')
    \<and> prp_pages cmd' m' list_ptr k = take k io
    \<and> (2 < n_pages \<and> list_ptr \<noteq> NULL \<longrightarrow> cmd_prp2 cmd' = list_ioaddr)"
proof -
  note f = nvm_cmd_data_ptr_fields(1,2) [OF assms(1)]
  have ne: "io \<noteq> []" using assms(2,3) by auto
  have two: "take 2 io = [io ! 0, io ! 1]" if "2 \<le> length io"
    using that by (auto simp: Suc_le_length_iff numeral_2_eq_2)
  consider "n_pages = 1" | "n_pages = 2" | "2 < n_pages" "list_ptr = NULL" | "2 < n_pages" "list_ptr \<noteq> NULL"
    using assms(2) by linarith
  then show ?thesis
  proof cases
    case 1
    then show ?thesis using ne f assms(5) by (simp add: nvm_cmd_data_def prp_pages_def Let_def take_Suc hd_conv_nth)
  next
    case 2
    then have "take 2 io = [io ! 0, io ! 1]" using assms(3) by (simp add: two)
    with 2 show ?thesis using ne f assms(3,5) by (simp add: nvm_cmd_data_def prp_pages_def Let_def)
  next
    case 3
    then have "take 2 io = [io ! 0, io ! 1]" using assms(3) by (simp add: two)
    with 3 show ?thesis using ne f assms(3,5) by (simp add: nvm_cmd_data_def prp_pages_def Let_def)
  next
    case 4
    let ?n = "min (n_pages - 1) (unat (page_size div 8))"
    have p: "unat (page_size div 8) = unat page_size div 8" by (simp add: unat_div)
    have per_page: "2 \<le> unat page_size div 8" using assms(4) by (simp add: word_le_nat_alt div_le_mono [of 16, simplified])
    have k: "1 + ?n = k" using 4 assms(5) p by auto
    have "?n \<le> length (drop 1 io)" using assms(3) by simp
    then obtain m' where l: "nvm_prp_list page_size (n_pages - 1) list_ptr (drop 1 io) m = Some (?n, m')"
      and s: "\<forall>j < ?n. load64 m' (list_ptr + 8 * of_nat j) = drop 1 io ! j" using nvm_prp_list_spec by blast
    have e: "nvm_cmd_data ndebug cmd page_size n_pages list_ptr list_ioaddr io m
        = Some (1 + ?n, nvm_cmd_data_ptr cmd (io ! 0) list_ioaddr, m')"
      using 4 ne l by (simp add: nvm_cmd_data_def Let_def)
    have "map (\<lambda>i. load64 m' (list_ptr + 8 * of_nat i)) [0..<?n] = take ?n (drop 1 io)"
      using s assms(3) by (intro nth_equalityI) auto
    then have t: "io ! 0 # map (\<lambda>i. load64 m' (list_ptr + 8 * of_nat i)) [0..<?n] = take (1 + ?n) io"
      using ne by (cases io) auto
    have n2: "2 \<le> ?n" using 4 per_page p by simp
    have pp: "prp_pages c m' list_ptr (1 + j) = cmd_prp1 c # map (\<lambda>i. load64 m' (list_ptr + 8 * of_nat i)) [0..<j]"
      if "2 \<le> j" for c j using that by (simp add: prp_pages_def)
    have "prp_pages (nvm_cmd_data_ptr cmd (io ! 0) list_ioaddr) m' list_ptr (1 + ?n) = take (1 + ?n) io"
      unfolding t [symmetric] pp [OF n2] f by (rule refl)
    with e k 4 f show ?thesis by simp
  qed
qed

theorem cmd_data_describes_pages_witness:
  "\<exists>cmd' m'. nvm_cmd_data True (replicate 16 0) 0x1000 3 0x40000 0x90000 [0x10000, 0x20000, 0x30000] (\<lambda>_. 0) = Some (3, cmd', m')
     \<and> prp_pages cmd' m' 0x40000 3 = [0x10000, 0x20000, 0x30000]"
proof -
  have k: "3 = (if 3 \<le> (2 :: nat) then 3 else if 0x40000 = NULL then 2 else min 3 (1 + unat (0x1000 :: u64) div 8))" by simp
  have "take 3 [0x10000, 0x20000, 0x30000 :: u64] = [0x10000, 0x20000, 0x30000]" by simp
  with cmd_data_describes_pages [OF _ _ _ _ k, of "replicate 16 0" "[0x10000, 0x20000, 0x30000]" True "0x90000" "\<lambda>_. 0"]
  show ?thesis by auto
qed

end
