(* ===== verification/Types.thy ===== *)
theory Types
  imports Cmd
begin

text \<open>
  The handles of \<open>include/nvm_types.h\<close>: controller, DMA window, queue, controller and namespace
  information.  Fields keep the names of the sources behind a letter that tells the record.
  Pointers are addresses; the flexible array of a DMA window is a list.
\<close>

record nvm_ctrl =
  c_page_size :: u64
  c_dstrd :: u8
  c_timeout :: u64
  c_max_entries :: u16
  c_mm_size :: u64
  c_mm_ptr :: u64

record nvm_dma =
  d_vaddr :: u64
  d_page_size :: u64
  d_n_ioaddrs :: u64
  d_ioaddrs :: "u64 list"

text \<open>The phase is a signed 16-bit field that only ever holds 0 or 1.\<close>

record nvm_queue =
  q_no :: u16
  q_max_entries :: u16
  q_entry_size :: u16
  q_head :: u32
  q_tail :: u32
  q_phase :: int
  q_last :: u32
  q_db :: u64
  q_vaddr :: u64
  q_ioaddr :: u64

record nvm_ctrl_info =
  i_nvme_version :: u32
  i_page_size :: u64
  i_db_stride :: u64
  i_timeout :: u64
  i_contiguous :: int
  i_max_entries :: u16
  i_pci_vendor :: "u8 list"
  i_serial_no :: "u8 list"
  i_model_no :: "u8 list"
  i_firmware :: "u8 list"
  i_max_data_size :: u64
  i_max_data_pages :: u64
  i_cq_entry_size :: u64
  i_sq_entry_size :: u64
  i_max_out_cmds :: u64
  i_max_n_ns :: u64

record nvm_ns_info =
  n_ns_id :: u32
  n_size :: u64
  n_capacity :: u64
  n_utilization :: u64
  n_lba_data_size :: u64
  n_metadata_size :: u64

text \<open>The macros of \<open>nvm_util.h\<close> that take a handle.\<close>

definition NVM_CTRL_ALIGN :: "nvm_ctrl \<Rightarrow> u64 \<Rightarrow> u64" where
  "NVM_CTRL_ALIGN ctrl sz = NVM_PAGE_ALIGN sz (c_page_size ctrl)"

definition NVM_CTRL_PAGES :: "nvm_ctrl \<Rightarrow> u64 \<Rightarrow> u64" where
  "NVM_CTRL_PAGES ctrl sz = NVM_CTRL_ALIGN ctrl sz div c_page_size ctrl"

definition NVM_DMA_ALIGN :: "nvm_dma \<Rightarrow> u64 \<Rightarrow> u64" where
  "NVM_DMA_ALIGN dma sz = NVM_PAGE_ALIGN sz (d_page_size dma)"

definition NVM_PTR_OFFSET :: "u64 \<Rightarrow> u64 \<Rightarrow> u64 \<Rightarrow> u64" where
  "NVM_PTR_OFFSET ptr page_size pageno = ptr + page_size * pageno"

definition NVM_DMA_OFFSET :: "nvm_dma \<Rightarrow> u64 \<Rightarrow> u64" where
  "NVM_DMA_OFFSET dma pageno = NVM_PTR_OFFSET (d_vaddr dma) (d_page_size dma) pageno"

end
