(* ===== verification/Queue.thy ===== *)
theory Queue
  imports Types
begin

unbundle bit_operations_syntax

text \<open>
  Submission and completion queues: \<open>include/nvm_queue.h\<close> and \<open>src/queue.c\<close>, with the doorbell
  macros of \<open>src/regs.h\<close>.  Every operation of the sources is one definition, at the width of the
  C types.  Queue memory is byte memory; the controller acts while the host sleeps or rings a
  doorbell.  The modulo of \<open>nvm_sq_enqueue\<close> traps on a queue of size zero, which is \<open>None\<close>.
\<close>

section \<open>Operations\<close>

text \<open>
  Doorbell addresses.  The product is computed in (signed 32-bit) \<open>int\<close> before it is added to the
  pointer.
\<close>

definition SQ_DBL :: "u64 \<Rightarrow> u16 \<Rightarrow> u8 \<Rightarrow> u64" where
  "SQ_DBL p y dstrd = p + 0x1000 + scast ((2 * ucast y) * push_bit (unat dstrd) (4 :: u32))"

definition CQ_DBL :: "u64 \<Rightarrow> u16 \<Rightarrow> u8 \<Rightarrow> u64" where
  "CQ_DBL p y dstrd = p + 0x1000 + scast ((2 * ucast y + 1) * push_bit (unat dstrd) (4 :: u32))"

text \<open>
  The macros compute the offset as an \<open>int\<close>; it wraps here, where C leaves an offset of \<open>2 ^ 31\<close> or more
  undefined.  The stride is a field of four bits of the capabilities, and below 8191 queues the
  offset is exact.
\<close>

lemma doorbell_exact:
  assumes "unat dstrd < 16" "unat y < 8191"
  shows "SQ_DBL p y dstrd = p + 0x1000 + of_nat (2 * unat y * (4 * 2 ^ unat dstrd))"
    "CQ_DBL p y dstrd = p + 0x1000 + of_nat ((2 * unat y + 1) * (4 * 2 ^ unat dstrd))"
proof -
  have k: "(2 :: nat) ^ unat dstrd \<le> 2 ^ 15" using assms(1) by (intro power_increasing) simp_all
  have x: "scast (v :: u32) = (of_nat n :: u64)" if "unat v = n" "n < 2 ^ 31" for v n
  proof -
    have "uint v = int n" unfolding that(1) [symmetric] by simp
    then have "sint v = int n" using that(2) by (simp add: sint_uint signed_take_bit_int_eq_self)
    then show ?thesis by (metis of_int_of_nat_eq of_int_sint)
  qed
  have "unat ((2 :: u32) ^ unat dstrd) = 2 ^ unat dstrd"
    using assms(1) by (simp add: unat_pow2)
  then have s: "unat (push_bit (unat dstrd) (4 :: u32)) = 4 * 2 ^ unat dstrd"
    using k by (simp add: push_bit_eq_mult unat_word_ariths)
  have y: "unat (ucast y :: u32) = unat y" by (simp add: unat_ucast_up)
  have m: "(2 * unat y + 1) * (4 * 2 ^ unat dstrd) < 2 ^ 31"
  proof -
    have "(2 * unat y + 1) * (4 * 2 ^ unat dstrd) \<le> 16381 * (4 * 2 ^ 15)" using assms(2) k by (intro mult_le_mono) simp_all
    then show ?thesis by simp
  qed
  then have m': "2 * unat y * (4 * 2 ^ unat dstrd) < 2 ^ 31" by simp
  have "unat ((2 * ucast y) * push_bit (unat dstrd) (4 :: u32)) = 2 * unat y * (4 * 2 ^ unat dstrd)"
    using m' assms(2) by (simp add: unat_word_ariths s y)
  from x [OF this m'] show "SQ_DBL p y dstrd = p + 0x1000 + of_nat (2 * unat y * (4 * 2 ^ unat dstrd))" by (simp add: SQ_DBL_def)
  have "unat ((2 * ucast y + 1) * push_bit (unat dstrd) (4 :: u32)) = (2 * unat y + 1) * (4 * 2 ^ unat dstrd)"
    using m assms(2) by (simp add: unat_word_ariths s y)
  from x [OF this m] show "CQ_DBL p y dstrd = p + 0x1000 + of_nat ((2 * unat y + 1) * (4 * 2 ^ unat dstrd))" by (simp add: CQ_DBL_def)
qed

definition nvm_queue_clear :: "nvm_ctrl \<Rightarrow> bool \<Rightarrow> u16 \<Rightarrow> u64 \<Rightarrow> u64 \<Rightarrow> nvm_queue" where
  "nvm_queue_clear ctrl cq no vaddr ioaddr =
     (let entry_size = (if cq then of_nat sizeof_cpl else of_nat sizeof_cmd) in
      \<lparr>q_no = no,
       q_max_entries =
         (let a = ucast (c_max_entries ctrl) :: u64; b = c_page_size ctrl div ucast entry_size
          in ucast (if a \<le> b then a else b)),
       q_entry_size = entry_size,
       q_head = 0, q_tail = 0, q_phase = 1, q_last = 0,
       q_db = (if cq then CQ_DBL (c_mm_ptr ctrl) no (c_dstrd ctrl)
               else SQ_DBL (c_mm_ptr ctrl) no (c_dstrd ctrl)),
       q_vaddr = vaddr, q_ioaddr = ioaddr\<rparr>)"

definition queue_slot :: "nvm_queue \<Rightarrow> u32 \<Rightarrow> u64" where
  "queue_slot q i = q_vaddr q + ucast (ucast (q_entry_size q) * i)"

definition nvm_sq_enqueue :: "nvm_queue \<Rightarrow> mem \<Rightarrow> (u64 \<times> nvm_queue \<times> mem) option" where
  "nvm_sq_enqueue sq m =
     (if q_max_entries sq = 0 then None
      else if int (unat (ucast ((q_tail sq - q_head sq) mod ucast (q_max_entries sq)) :: u16))
              = int (unat (q_max_entries sq)) - 1
      then Some (NULL, sq, m)
      else
        let cmd = queue_slot sq (q_tail sq);
            sq = sq\<lparr>q_tail := q_tail sq + 1\<rparr>;
            sq = (if q_tail sq = ucast (q_max_entries sq)
                  then sq\<lparr>q_phase := (if q_phase sq = 0 then 1 else 0), q_tail := 0\<rparr> else sq);
            m = store16 (NVM_CMD_CID cmd)
                  (ucast (q_tail sq + (if q_phase sq = 0 then 1 else 0) * ucast (q_max_entries sq))) m
        in Some (cmd, sq, m))"

definition nvm_cq_poll :: "nvm_queue \<Rightarrow> mem \<Rightarrow> u64" where
  "nvm_cq_poll cq m =
     (let cpl = queue_slot cq (q_head cq) in
      if (if RB (ucast (load16 m (NVM_CPL_STATUS cpl))) 0 0 = 0 then 0 else 1) \<noteq> q_phase cq
      then NULL else cpl)"

definition nvm_cq_dequeue :: "nvm_queue \<Rightarrow> mem \<Rightarrow> u64 \<times> nvm_queue" where
  "nvm_cq_dequeue cq m =
     (let cpl = nvm_cq_poll cq m in
      if cpl \<noteq> NULL then
        let cq = cq\<lparr>q_head := q_head cq + 1\<rparr> in
        (cpl, if q_head cq = ucast (q_max_entries cq)
              then cq\<lparr>q_head := 0, q_phase := (if q_phase cq = 0 then 1 else 0)\<rparr> else cq)
      else (cpl, cq))"

function nvm_cq_dequeue_block_loop ::
  "device \<Rightarrow> nvm_queue \<Rightarrow> u64 \<Rightarrow> u64 \<Rightarrow> world \<Rightarrow> u64 \<times> nvm_queue \<times> world" where
  "nvm_cq_dequeue_block_loop dev cq cpl nsecs w =
     (if cpl = NULL \<and> nsecs > 0 then
        let d = nvm_delay_remain dev nsecs w;
            r = nvm_cq_dequeue cq (w_mem (snd d))
        in nvm_cq_dequeue_block_loop dev (snd r) (fst r) (fst d) (snd d)
      else (cpl, cq, w))"
  by pat_completeness auto
termination
proof (relation "measure (\<lambda>(dev, cq, cpl, nsecs, w). unat nsecs)")
  fix dev :: device and cq :: nvm_queue and cpl nsecs :: u64 and w :: world and d r
  assume "cpl = NULL \<and> nsecs > 0" and d: "d = nvm_delay_remain dev nsecs w"
  then have "unat (fst d) < unat nsecs" by (auto intro: nvm_delay_remain_less simp: word_gt_0)
  then show "((dev, snd r, fst r, fst d, snd d), dev, cq, cpl, nsecs, w)
      \<in> measure (\<lambda>(dev, cq, cpl, nsecs, w). unat nsecs)" by (simp add: split_beta)
qed simp

declare nvm_cq_dequeue_block_loop.simps [simp del]

definition nvm_cq_dequeue_block ::
  "device \<Rightarrow> nvm_queue \<Rightarrow> u64 \<Rightarrow> world \<Rightarrow> u64 \<times> nvm_queue \<times> world" where
  "nvm_cq_dequeue_block dev cq timeout w =
     (let nsecs = timeout * 1000000; r = nvm_cq_dequeue cq (w_mem w)
      in nvm_cq_dequeue_block_loop dev (snd r) (fst r) nsecs w)"

definition nvm_sq_submit :: "device \<Rightarrow> nvm_queue \<Rightarrow> world \<Rightarrow> nvm_queue \<times> world" where
  "nvm_sq_submit dev sq w =
     (if q_last sq \<noteq> q_tail sq
      then (sq\<lparr>q_last := q_tail sq\<rparr>, reg_write32 dev (q_db sq) (q_tail sq) w)
      else (sq, w))"

definition nvm_sq_update :: "nvm_queue \<Rightarrow> nvm_queue" where
  "nvm_sq_update sq =
     (let sq = sq\<lparr>q_head := q_head sq + 1\<rparr>
      in if q_head sq = ucast (q_max_entries sq) then sq\<lparr>q_head := 0\<rparr> else sq)"

definition nvm_cq_update :: "device \<Rightarrow> nvm_queue \<Rightarrow> world \<Rightarrow> nvm_queue \<times> world" where
  "nvm_cq_update dev cq w =
     (if q_last cq \<noteq> q_head cq
      then (cq\<lparr>q_last := q_head cq\<rparr>, reg_write32 dev (q_db cq) (q_head cq) w)
      else (cq, w))"

section \<open>Well-formed rings\<close>

abbreviation q_n :: "nvm_queue \<Rightarrow> nat" where "q_n q \<equiv> unat (q_max_entries q)"

definition queue_wf :: "nvm_queue \<Rightarrow> bool" where
  "queue_wf q \<longleftrightarrow> 0 < q_n q \<and> unat (q_head q) < q_n q \<and> unat (q_tail q) < q_n q
     \<and> (q_phase q = 0 \<or> q_phase q = 1)"

text \<open>Commands submitted and not yet retired, and their slots from the oldest on.\<close>

definition in_flight :: "nvm_queue \<Rightarrow> nat" where
  "in_flight q = (unat (q_tail q) + q_n q - unat (q_head q)) mod q_n q"

definition sq_slots :: "nvm_queue \<Rightarrow> nat list" where
  "sq_slots q = map (\<lambda>i. (unat (q_head q) + i) mod q_n q) [0..<in_flight q]"

lemma unat_ucast_16_32 [simp]: "unat (ucast (x :: u16) :: u32) = unat x"
  by (simp add: unat_ucast_up)

lemma q_next:
  assumes "unat i < q_n q"
  shows "i + 1 = ucast (q_max_entries q) \<longleftrightarrow> Suc (unat i) = q_n q"
    and "unat (i + 1 :: u32) = Suc (unat i)"
proof -
  have lt: "Suc (unat i) < 2 ^ 32"
    using assms unat_u16_less [of "q_max_entries q"] by simp
  show u: "unat (i + 1) = Suc (unat i)"
    using lt by (simp add: unat_word_ariths)
  show "i + 1 = ucast (q_max_entries q) \<longleftrightarrow> Suc (unat i) = q_n q"
    by (metis u unat_ucast_16_32 word_unat_eq_iff)
qed

end
