(* ===== verification/Fifo.thy ===== *)
theory Fifo
  imports Prelude
begin

text \<open>
  The contract of a bounded ring of slots, as an interface: a producer takes the next slot or is
  told the ring is full, a consumer retires the oldest slot.  Everything a client of a ring may
  rely on is proved here once, from the laws; the submission ring of the library provides them.
\<close>

section \<open>Schedules of producer and consumer steps\<close>

datatype fifo_op = Put | Get

text \<open>Runs a schedule and lists what every \<open>Put\<close> returned, nothing if the ring was full.\<close>

fun fifo_run ::
  "('s \<Rightarrow> ('a \<times> 's) option) \<Rightarrow> ('s \<Rightarrow> 's) \<Rightarrow> fifo_op list \<Rightarrow> 's \<Rightarrow> 'a option list \<times> 's"
where
  "fifo_run put get [] s = ([], s)"
| "fifo_run put get (Put # ops) s =
     (case put s of
        None \<Rightarrow> (let r = fifo_run put get ops s in (None # fst r, snd r))
      | Some (x, s') \<Rightarrow> (let r = fifo_run put get ops s' in (Some x # fst r, snd r)))"
| "fifo_run put get (Get # ops) s = fifo_run put get ops (get s)"

definition handed :: "'a option list \<Rightarrow> 'a list" where
  "handed rs = map the (filter (\<lambda>r. r \<noteq> None) rs)"

lemma handed_simps [simp]:
  "handed [] = []" "handed (None # rs) = handed rs" "handed (Some x # rs) = x # handed rs"
  by (simp_all add: handed_def)

text \<open>
  With \<open>k\<close> slots in flight: a schedule is legal if it retires only what is in flight, and a bounded FIFO
  refuses exactly the \<open>Put\<close> steps that find it full.
\<close>

fun fifo_legal :: "nat \<Rightarrow> fifo_op list \<Rightarrow> nat \<Rightarrow> bool" where
  "fifo_legal c [] k \<longleftrightarrow> True"
| "fifo_legal c (Put # ops) k \<longleftrightarrow> fifo_legal c ops (if k = c then k else Suc k)"
| "fifo_legal c (Get # ops) k \<longleftrightarrow> 0 < k \<and> fifo_legal c ops (k - 1)"

fun fifo_refuses :: "nat \<Rightarrow> fifo_op list \<Rightarrow> nat \<Rightarrow> bool list" where
  "fifo_refuses c [] k = []"
| "fifo_refuses c (Put # ops) k = (k = c) # fifo_refuses c ops (if k = c then k else Suc k)"
| "fifo_refuses c (Get # ops) k = fifo_refuses c ops (k - 1)"

section \<open>The interface\<close>

locale ring_fifo =
  fixes inv :: "'s \<Rightarrow> bool"
    and contents :: "'s \<Rightarrow> 'a list"
    and cap :: "'s \<Rightarrow> nat"
    and put :: "'s \<Rightarrow> ('a \<times> 's) option"
    and get :: "'s \<Rightarrow> 's"
  assumes put_full: "inv s \<Longrightarrow> put s = None \<longleftrightarrow> length (contents s) = cap s"
    and put_inv: "inv s \<Longrightarrow> put s = Some (x, s') \<Longrightarrow> inv s'"
    and put_cap: "inv s \<Longrightarrow> put s = Some (x, s') \<Longrightarrow> cap s' = cap s"
    and put_contents: "inv s \<Longrightarrow> put s = Some (x, s') \<Longrightarrow> contents s' = contents s @ [x]"
    and get_inv: "inv s \<Longrightarrow> contents s \<noteq> [] \<Longrightarrow> inv (get s)"
    and get_cap: "inv s \<Longrightarrow> contents s \<noteq> [] \<Longrightarrow> cap (get s) = cap s"
    and get_contents: "inv s \<Longrightarrow> contents s \<noteq> [] \<Longrightarrow> contents (get s) = tl (contents s)"
    and bounded: "inv s \<Longrightarrow> length (contents s) \<le> cap s"
    and no_reuse: "inv s \<Longrightarrow> distinct (contents s)"
begin

text \<open>
  What was in the ring followed by what the schedule put in is, less the slots that were retired, what is
  left: slots leave in the order in which they were handed out, none is lost or invented.  A slot is
  refused exactly when a bounded FIFO refuses it.
\<close>

lemma run_fifo:
  "inv s \<Longrightarrow> fifo_legal (cap s) ops (length (contents s)) \<Longrightarrow> fifo_run put get ops s = (rs, s') \<Longrightarrow>
   inv s' \<and> cap s' = cap s \<and> contents s' = drop (count_list ops Get) (contents s @ handed rs)
   \<and> map (\<lambda>r. r = None) rs = fifo_refuses (cap s) ops (length (contents s))"
proof (induction ops arbitrary: s rs s')
  case Nil
  then show ?case by simp
next
  case (Cons op ops)
  show ?case
  proof (cases op)
    case Put
    show ?thesis
    proof (cases "put s")
      case None
      then have full: "length (contents s) = cap s" using put_full [OF Cons.prems(1)] by simp
      obtain rs1 where run: "fifo_run put get ops s = (rs1, s')" and rs: "rs = None # rs1"
        using None Put Cons.prems(3) by (cases "fifo_run put get ops s") (auto simp: Let_def)
      from Cons.IH [OF Cons.prems(1) _ run] Cons.prems(2) Put full rs show ?thesis by simp
    next
      case (Some r)
      obtain x s1 where "r = (x, s1)" by (cases r)
      with Some have p: "put s = Some (x, s1)" by simp
      with Put Cons.prems(3) obtain rs1 where run: "fifo_run put get ops s1 = (rs1, s')"
        and rs: "rs = Some x # rs1" by (cases "fifo_run put get ops s1") (auto simp: Let_def)
      have "length (contents s) \<noteq> cap s" using put_full [OF Cons.prems(1)] p by simp
      with Cons.IH [OF put_inv [OF Cons.prems(1) p] _ run] rs Cons.prems(2) Put
        put_cap [OF Cons.prems(1) p] put_contents [OF Cons.prems(1) p]
      show ?thesis by simp
    qed
  next
    case Get
    with Cons.prems(2) have ne: "contents s \<noteq> []" by auto
    note g = get_inv [OF Cons.prems(1) ne] get_cap [OF Cons.prems(1) ne] get_contents [OF Cons.prems(1) ne]
    have "contents s = hd (contents s) # tl (contents s)" using ne by simp
    with Cons.IH [OF g(1), of rs s'] Cons.prems(2,3) Get g(2,3) show ?thesis
      by (metis append_Cons count_list.simps(2) drop_Suc_Cons fifo_legal.simps(3) fifo_refuses.simps(3)
          fifo_run.simps(3) length_tl add.commute plus_1_eq_Suc)
  qed
qed

text \<open>A ring holds at most its capacity of distinct slots after any schedule.\<close>

lemma run_bounded:
  assumes "inv s" "fifo_legal (cap s) ops (length (contents s))" "fifo_run put get ops s = (rs, s')"
  shows "length (contents s') \<le> cap s \<and> distinct (contents s')"
  using run_fifo [OF assms] bounded [of s'] no_reuse [of s'] by auto

end

end
