(* ===== verification/Submission.thy ===== *)
theory Submission
  imports Queue Fifo
begin

unbundle bit_operations_syntax

text \<open>
  The submission ring.  For a ring size that divides \<open>2 ^ 32\<close> (a power of two) the ring refines a
  bounded FIFO of slots that holds one command less than it has entries; the command identifiers
  it hands out count the commands modulo twice the ring size.
\<close>

section \<open>The fullness test\<close>

lemma unat_sub_wrap: "unat (t - h :: u32) = (if h \<le> t then unat t - unat h else 2 ^ 32 + unat t - unat h)"
proof (cases "h \<le> t")
  case True
  then show ?thesis by (simp add: unat_sub)
next
  case False
  then have lt: "unat t < unat h" by (simp add: word_le_nat_alt)
  have "t - h = of_nat (2 ^ 32 + unat t - unat h)"
    using unat_u32_less [of h] by (simp add: of_nat_diff)
  then have "unat (t - h) = (2 ^ 32 + unat t - unat h) mod 2 ^ 32"
    by (simp add: unat_of_nat take_bit_eq_mod)
  with lt False show ?thesis by simp
qed

lemma in_flight_cases:
  assumes "queue_wf q"
  shows "in_flight q = (if q_head q \<le> q_tail q then unat (q_tail q) - unat (q_head q)
                        else unat (q_tail q) + q_n q - unat (q_head q))"
  using assms by (simp add: in_flight_def queue_wf_def ring_dist word_le_nat_alt)

lemma in_flight_less: "queue_wf q \<Longrightarrow> in_flight q < q_n q"
  by (simp add: in_flight_def queue_wf_def)

lemma sq_full_test:
  assumes "queue_wf q" "q_n q dvd 2 ^ 32"
  shows "unat (ucast ((q_tail q - q_head q) mod ucast (q_max_entries q)) :: u16) = in_flight q"
proof -
  let ?n = "q_n q" and ?t = "unat (q_tail q)" and ?h = "unat (q_head q)"
  have n: "0 < ?n" "?n < 2 ^ 16" "?h < ?n" "?t < ?n"
    using assms(1) unat_u16_less [of "q_max_entries q"] by (auto simp: queue_wf_def)
  have m: "unat ((q_tail q - q_head q) mod ucast (q_max_entries q)) = unat (q_tail q - q_head q) mod ?n"
    by (simp add: unat_mod)
  have "unat (q_tail q - q_head q) mod ?n = in_flight q"
  proof (cases "q_head q \<le> q_tail q")
    case True
    with n show ?thesis by (simp add: unat_sub_wrap in_flight_cases [OF assms(1)])
  next
    case False
    then have th: "?t < ?h" by (simp add: word_le_nat_alt)
    from assms(2) obtain c where c: "(2::nat) ^ 32 = ?n * c" by (rule dvdE)
    then obtain c' where c': "c = Suc c'" by (cases c) auto
    have "2 ^ 32 + ?t - ?h = ?n * c' + (?t + ?n - ?h)" using th n unfolding c c' by simp
    then have "(2 ^ 32 + ?t - ?h) mod ?n = (?t + ?n - ?h) mod ?n" by simp
    with False show ?thesis by (simp add: unat_sub_wrap in_flight_def)
  qed
  with m have u: "unat ((q_tail q - q_head q) mod ucast (q_max_entries q)) = in_flight q" by simp
  moreover have "in_flight q < 2 ^ 16" using in_flight_less [OF assms(1)] n by simp
  ultimately show ?thesis by (simp add: unat_ucast_mod)
qed

section \<open>One step\<close>

lemma nvm_sq_enqueue_full:
  assumes "queue_wf q" "q_n q dvd 2 ^ 32" "in_flight q = q_n q - 1"
  shows "nvm_sq_enqueue q m = Some (NULL, q, m)"
proof -
  have "q_max_entries q \<noteq> 0" using assms(1) by (auto simp: queue_wf_def)
  then show ?thesis
    using assms by (simp add: nvm_sq_enqueue_def sq_full_test queue_wf_def of_nat_diff)
qed

definition sq_bump :: "nvm_queue \<Rightarrow> nvm_queue" where
  "sq_bump q = (if Suc (unat (q_tail q)) = q_n q
     then q\<lparr>q_tail := 0, q_phase := 1 - q_phase q\<rparr> else q\<lparr>q_tail := q_tail q + 1\<rparr>)"

definition sq_cid :: "nvm_queue \<Rightarrow> u16" where
  "sq_cid q = ucast (q_tail q + (if q_phase q = 0 then ucast (q_max_entries q) else 0))"

lemma nvm_sq_enqueue_free:
  assumes "queue_wf q" "q_n q dvd 2 ^ 32" "in_flight q < q_n q - 1"
  shows "nvm_sq_enqueue q m = Some (queue_slot q (q_tail q), sq_bump q,
           store16 (NVM_CMD_CID (queue_slot q (q_tail q))) (sq_cid (sq_bump q)) m)"
proof -
  have nz: "q_max_entries q \<noteq> 0" and t: "unat (q_tail q) < q_n q" and p: "q_phase q = 0 \<or> q_phase q = 1"
    using assms(1) by (auto simp: queue_wf_def)
  have "int (in_flight q) \<noteq> int (q_n q) - 1" using assms(3) by linarith
  then show ?thesis
    using p q_next [OF t] by (auto simp: nvm_sq_enqueue_def sq_full_test [OF assms(1,2)] nz Let_def
      sq_bump_def sq_cid_def queue_slot_def)
qed

lemma sq_bump_simps [simp]:
  "q_n (sq_bump q) = q_n q" "q_head (sq_bump q) = q_head q" "q_vaddr (sq_bump q) = q_vaddr q"
  "q_max_entries (sq_bump q) = q_max_entries q" "q_entry_size (sq_bump q) = q_entry_size q"
  "q_db (sq_bump q) = q_db q" "q_last (sq_bump q) = q_last q"
  by (simp_all add: sq_bump_def)

lemma unat_sq_bump_tail:
  "queue_wf q \<Longrightarrow> unat (q_tail (sq_bump q)) = Suc (unat (q_tail q)) mod q_n q"
  using q_next(2) [of "q_tail q" q] by (auto simp: sq_bump_def queue_wf_def)

lemma sq_bump_wf: "queue_wf q \<Longrightarrow> queue_wf (sq_bump q)"
  using unat_sq_bump_tail [of q] by (auto simp: queue_wf_def sq_bump_def)

lemma in_flight_bump:
  assumes "queue_wf q" "in_flight q < q_n q - 1"
  shows "in_flight (sq_bump q) = Suc (in_flight q)"
proof -
  let ?n = "q_n q" and ?t = "unat (q_tail q)" and ?h = "unat (q_head q)"
  have h: "?h < ?n" using assms(1) by (simp add: queue_wf_def)
  have "in_flight (sq_bump q) = (Suc ?t mod ?n + (?n - ?h)) mod ?n"
    using h by (simp add: in_flight_def unat_sq_bump_tail [OF assms(1)])
  also have "\<dots> = Suc (?t + (?n - ?h)) mod ?n" by (simp add: mod_simps)
  also have "\<dots> = Suc ((?t + (?n - ?h)) mod ?n) mod ?n" by (simp add: mod_simps)
  also have "(?t + (?n - ?h)) mod ?n = in_flight q" using h by (simp add: in_flight_def)
  finally show ?thesis using assms(2) by simp
qed

lemma slot_of_tail: "queue_wf q \<Longrightarrow> (unat (q_head q) + in_flight q) mod q_n q = unat (q_tail q)"
proof -
  assume q: "queue_wf q"
  let ?n = "q_n q" and ?t = "unat (q_tail q)" and ?h = "unat (q_head q)"
  have h: "?h < ?n" "?t < ?n" using q by (auto simp: queue_wf_def)
  have "(?h + in_flight q) mod ?n = (?h + (?t + ?n - ?h)) mod ?n"
    unfolding in_flight_def by (simp add: mod_simps)
  also have "?h + (?t + ?n - ?h) = ?t + ?n" using h by simp
  finally show ?thesis using h by simp
qed

lemma sq_slots_bump:
  assumes "queue_wf q" "in_flight q < q_n q - 1"
  shows "sq_slots (sq_bump q) = sq_slots q @ [unat (q_tail q)]"
  using in_flight_bump [OF assms] slot_of_tail [OF assms(1)] by (simp add: sq_slots_def)

lemma nvm_sq_update_simps [simp]:
  "q_n (nvm_sq_update q) = q_n q" "q_tail (nvm_sq_update q) = q_tail q"
  "q_phase (nvm_sq_update q) = q_phase q" "q_max_entries (nvm_sq_update q) = q_max_entries q"
  "q_vaddr (nvm_sq_update q) = q_vaddr q" "q_entry_size (nvm_sq_update q) = q_entry_size q"
  "q_db (nvm_sq_update q) = q_db q" "q_last (nvm_sq_update q) = q_last q"
  by (simp_all add: nvm_sq_update_def Let_def)

lemma unat_sq_update_head:
  assumes "queue_wf q"
  shows "unat (q_head (nvm_sq_update q)) = Suc (unat (q_head q)) mod q_n q"
proof -
  have "unat (q_head q) < q_n q" using assms by (simp add: queue_wf_def)
  from q_next [OF this] show ?thesis using \<open>unat (q_head q) < q_n q\<close>
    by (auto simp: nvm_sq_update_def Let_def)
qed

lemma nvm_sq_update_wf: "queue_wf q \<Longrightarrow> queue_wf (nvm_sq_update q)"
  using unat_sq_update_head [of q] by (auto simp: queue_wf_def)

lemma sq_slots_update:
  assumes "queue_wf q" "in_flight q \<noteq> 0"
  shows "sq_slots q = unat (q_head q) # sq_slots (nvm_sq_update q)"
proof -
  let ?n = "q_n q" and ?t = "unat (q_tail q)" and ?h = "unat (q_head q)"
  have h: "?h < ?n" "?t < ?n" using assms(1) by (auto simp: queue_wf_def)
  have f: "in_flight q = Suc (in_flight (nvm_sq_update q))"
    using ring_dist_Suc [OF h(2,1)] assms(2)
    by (simp add: in_flight_def unat_sq_update_head [OF assms(1)])
  show ?thesis
    using h unfolding sq_slots_def f
    by (simp add: unat_sq_update_head [OF assms(1)] upt_conv_Cons map_Suc_upt [symmetric] mod_simps
        del: upt_Suc)
qed

section \<open>Slot addresses\<close>

text \<open>The queue memory lies in the address space and does not start at NULL.\<close>

definition queue_mapped :: "nvm_queue \<Rightarrow> bool" where
  "queue_mapped q \<longleftrightarrow>
     q_vaddr q \<noteq> NULL \<and> unat (q_vaddr q) + unat (q_entry_size q) * q_n q \<le> 2 ^ 64"

lemma unat_queue_slot:
  assumes "queue_mapped q" "unat i < q_n q" "0 < q_entry_size q"
  shows "unat (queue_slot q i) = unat (q_vaddr q) + unat (q_entry_size q) * unat i"
proof -
  let ?e = "unat (q_entry_size q)"
  have le: "?e * unat i < ?e * q_n q" using assms(2,3) by (simp add: word_less_nat_alt)
  have "?e < 2 ^ 16" "unat i < 2 ^ 16"
    using unat_u16_less [of "q_entry_size q"] unat_u16_less [of "q_max_entries q"] assms(2) by auto
  then have "?e * unat i < 2 ^ 16 * 2 ^ 16" by (intro mult_strict_mono') auto
  then have s: "unat (ucast (q_entry_size q) * i) = ?e * unat i" by (simp add: unat_word_ariths)
  have "unat (q_vaddr q) + ?e * unat i < 2 ^ 64"
    using assms(1) le unfolding queue_mapped_def by linarith
  moreover have "unat (ucast (ucast (q_entry_size q) * i :: u32) :: u64) = ?e * unat i"
    by (subst unat_ucast_up) (simp_all only: s, simp)
  ultimately show ?thesis by (simp only: queue_slot_def unat_word_ariths(1)) simp
qed

lemma queue_slot_nonnull:
  assumes "queue_mapped q" "unat i < q_n q" "0 < q_entry_size q"
  shows "queue_slot q i \<noteq> NULL"
proof -
  have "0 < unat (q_vaddr q)" using assms(1) by (simp add: queue_mapped_def unat_gt_0)
  then have "0 < unat (queue_slot q i)" using unat_queue_slot [OF assms] by simp
  then show ?thesis by auto
qed

section \<open>The ring refines a bounded FIFO\<close>

text \<open>
  \<open>nvm_sq_enqueue\<close> and \<open>nvm_sq_update\<close> on a queue and the memory it lies in, in the form of the
  interface: the pointer that is returned, nothing for NULL, and the oldest slot given up.
\<close>

definition sq_put :: "nvm_queue \<times> mem \<Rightarrow> (u64 \<times> nvm_queue \<times> mem) option" where
  "sq_put s = (case nvm_sq_enqueue (fst s) (snd s) of
       None \<Rightarrow> None
     | Some (p, s') \<Rightarrow> if p = NULL then None else Some (p, s'))"

definition sq_get :: "nvm_queue \<times> mem \<Rightarrow> nvm_queue \<times> mem" where
  "sq_get s = (nvm_sq_update (fst s), snd s)"

text \<open>The addresses of the slots in flight, oldest first.\<close>

definition sq_addrs :: "nvm_queue \<Rightarrow> u64 list" where
  "sq_addrs q = map (\<lambda>i. queue_slot q (of_nat i)) (sq_slots q)"

definition sq_ok :: "nvm_queue \<Rightarrow> bool" where
  "sq_ok q \<longleftrightarrow> queue_wf q \<and> q_n q dvd 2 ^ 32 \<and> queue_mapped q \<and> 0 < q_entry_size q"

lemma sq_ok_bump: "sq_ok q \<Longrightarrow> sq_ok (sq_bump q)"
  by (simp add: sq_ok_def sq_bump_wf queue_mapped_def)

lemma sq_ok_update: "sq_ok q \<Longrightarrow> sq_ok (nvm_sq_update q)"
  by (simp add: sq_ok_def nvm_sq_update_wf queue_mapped_def)

lemma sq_put_eq:
  assumes "sq_ok q"
  shows "sq_put (q, m) = (if in_flight q = q_n q - 1 then None
    else Some (queue_slot q (q_tail q), sq_bump q,
      store16 (NVM_CMD_CID (queue_slot q (q_tail q))) (sq_cid (sq_bump q)) m))"
proof (cases "in_flight q = q_n q - 1")
  case True
  with assms show ?thesis by (simp add: sq_put_def sq_ok_def nvm_sq_enqueue_full)
next
  case False
  with assms have "in_flight q < q_n q - 1" "unat (q_tail q) < q_n q"
    using in_flight_less [of q] by (auto simp: sq_ok_def queue_wf_def)
  with assms False show ?thesis
    by (simp add: sq_put_def sq_ok_def nvm_sq_enqueue_free queue_slot_nonnull)
qed

lemma sq_slots_length [simp]: "length (sq_slots q) = in_flight q"
  by (simp add: sq_slots_def)

lemma sq_slots_distinct: "queue_wf q \<Longrightarrow> distinct (sq_slots q)"
proof -
  assume q: "queue_wf q"
  have "inj_on (\<lambda>i. (unat (q_head q) + i) mod q_n q) {0..<q_n q}"
    by (rule inj_onI) (auto intro: ring_inj)
  moreover have "{0..<in_flight q} \<subseteq> {0..<q_n q}" using in_flight_less [OF q] by auto
  ultimately show ?thesis by (simp add: sq_slots_def distinct_map inj_on_subset)
qed

lemma sq_addrs_length [simp]: "length (sq_addrs q) = in_flight q"
  by (simp add: sq_addrs_def)

lemma sq_slots_small: "queue_wf q \<Longrightarrow> i \<in> set (sq_slots q) \<Longrightarrow> i < q_n q"
  by (auto simp: sq_slots_def queue_wf_def)

lemma unat_small_index: "i < q_n q \<Longrightarrow> unat (of_nat i :: u32) = i"
  using unat_u16_less [of "q_max_entries q"] by (intro unat_of_nat_small) simp

lemma sq_addrs_distinct:
  assumes "sq_ok q"
  shows "distinct (sq_addrs q)"
proof -
  have q: "queue_wf q" "queue_mapped q" "0 < q_entry_size q" using assms by (simp_all add: sq_ok_def)
  have "inj_on (\<lambda>i. queue_slot q (of_nat i)) {0..<q_n q}"
  proof (rule inj_onI)
    fix i j assume i: "i \<in> {0..<q_n q}" and j: "j \<in> {0..<q_n q}" and e: "queue_slot q (of_nat i) = queue_slot q (of_nat j)"
    have "unat (queue_slot q (of_nat k)) = unat (q_vaddr q) + unat (q_entry_size q) * k" if "k < q_n q" for k
      using unat_queue_slot [OF q(2) _ q(3), of "of_nat k"] that by (simp add: unat_small_index)
    with i j e have "unat (q_entry_size q) * i = unat (q_entry_size q) * j"
      by (metis add_left_cancel atLeastLessThan_iff)
    then show "i = j" using q(3) by (simp add: word_less_nat_alt)
  qed
  moreover have "set (sq_slots q) \<subseteq> {0..<q_n q}" using sq_slots_small [OF q(1)] by auto
  ultimately show ?thesis
    using sq_slots_distinct [OF q(1)] by (simp add: sq_addrs_def distinct_map inj_on_subset)
qed

lemma sq_addrs_bump:
  assumes "queue_wf q" "in_flight q < q_n q - 1"
  shows "sq_addrs (sq_bump q) = sq_addrs q @ [queue_slot q (q_tail q)]"
  using sq_slots_bump [OF assms] by (simp add: sq_addrs_def queue_slot_def)

lemma sq_addrs_update:
  assumes "queue_wf q" "in_flight q \<noteq> 0"
  shows "sq_addrs (nvm_sq_update q) = tl (sq_addrs q)"
  using sq_slots_update [OF assms] by (simp add: sq_addrs_def queue_slot_def)

interpretation sq: ring_fifo
  "\<lambda>s. sq_ok (fst s)" "\<lambda>s. sq_addrs (fst s)" "\<lambda>s. q_n (fst s) - 1" sq_put sq_get
proof
  fix s s' :: "nvm_queue \<times> mem" and x
  assume ok: "sq_ok (fst s)"
  then have wf: "queue_wf (fst s)" by (simp add: sq_ok_def)
  obtain q m where s: "s = (q, m)" by (cases s)
  have q: "sq_ok q" "queue_wf q" using ok wf s by simp_all
  have lt: "in_flight q < q_n q - 1" if "in_flight q \<noteq> q_n q - 1"
    using that in_flight_less [OF q(2)] by linarith
  show "sq_put s = None \<longleftrightarrow> length (sq_addrs (fst s)) = q_n (fst s) - 1"
    using sq_put_eq [OF q(1), of m] s by simp
  show "length (sq_addrs (fst s)) \<le> q_n (fst s) - 1"
    using in_flight_less [OF wf] by simp
  show "distinct (sq_addrs (fst s))" by (rule sq_addrs_distinct [OF ok])
  {
    assume "sq_put s = Some (x, s')"
    with s lt have f: "in_flight q < q_n q - 1" and e: "x = queue_slot q (q_tail q)" "fst s' = sq_bump q"
      by (auto simp: sq_put_eq [OF q(1)] split: if_splits)
    show "sq_ok (fst s')" "q_n (fst s') - 1 = q_n (fst s) - 1"
      "sq_addrs (fst s') = sq_addrs (fst s) @ [x]"
      using q s e f by (simp_all add: sq_ok_bump sq_addrs_bump)
  }
  {
    assume "sq_addrs (fst s) \<noteq> []"
    then have f: "in_flight (fst s) \<noteq> 0" by (simp flip: length_0_conv)
    show "sq_ok (fst (sq_get s))" "q_n (fst (sq_get s)) - 1 = q_n (fst s) - 1"
      "sq_addrs (fst (sq_get s)) = tl (sq_addrs (fst s))"
      using ok sq_addrs_update [OF wf f] by (simp_all add: sq_get_def sq_ok_update)
  }
qed

section \<open>Command identifiers\<close>

text \<open>\<open>k\<close> commands were enqueued since the queue was cleared.\<close>

definition sq_counts :: "nat \<Rightarrow> nvm_queue \<Rightarrow> bool" where
  "sq_counts k q \<longleftrightarrow> unat (q_tail q) = k mod q_n q
     \<and> q_phase q = (if even (k div q_n q) then 1 else 0)"

lemma sq_counts_bump:
  assumes "queue_wf q" "sq_counts k q"
  shows "sq_counts (Suc k) (sq_bump q)"
proof -
  let ?n = "q_n q"
  have n: "0 < ?n" using assms(1) by (simp add: queue_wf_def)
  have t: "unat (q_tail (sq_bump q)) = Suc k mod ?n"
    using unat_sq_bump_tail [OF assms(1)] assms(2) by (simp add: sq_counts_def mod_simps)
  have "Suc k div ?n = (if Suc (k mod ?n) = ?n then Suc (k div ?n) else k div ?n)"
    using n by (simp add: div_Suc mod_Suc)
  with assms(2) t show ?thesis by (auto simp: sq_counts_def sq_bump_def)
qed

lemma sq_cid_counts:
  assumes "queue_wf q" "sq_counts k q" "2 * q_n q \<le> 2 ^ 16"
  shows "sq_cid q = of_nat (k mod (2 * q_n q))"
proof -
  let ?n = "q_n q"
  have n: "0 < ?n" "?n < 2 ^ 16" using assms(1) unat_u16_less [of "q_max_entries q"]
    by (auto simp: queue_wf_def)
  let ?v = "q_tail q + (if q_phase q = 0 then ucast (q_max_entries q) else 0)"
  have "k mod (?n * 2) = ?n * (k div ?n mod 2) + k mod ?n" by (rule mod_mult2_eq)
  moreover have "k mod ?n < ?n" using n by simp
  ultimately have "unat ?v = k mod (2 * ?n)"
    using assms(2,3) by (auto simp: sq_counts_def unat_word_ariths mult.commute mod2_eq_if split: if_splits)
  then have "ucast ?v = (of_nat (k mod (2 * ?n)) :: u16)" by (metis of_nat_unat)
  then show ?thesis by (simp only: sq_cid_def)
qed

text \<open>Runs a schedule and lists the identifiers written into the commands handed out.\<close>

fun sq_cid_run :: "fifo_op list \<Rightarrow> nvm_queue \<times> mem \<Rightarrow> u16 list" where
  "sq_cid_run [] s = []"
| "sq_cid_run (Put # ops) s =
     (case nvm_sq_enqueue (fst s) (snd s) of
        None \<Rightarrow> sq_cid_run ops s
      | Some (p, s') \<Rightarrow>
          if p = NULL then sq_cid_run ops s
          else load16 (snd s') (NVM_CMD_CID p) # sq_cid_run ops s')"
| "sq_cid_run (Get # ops) s =
     (if in_flight (fst s) = 0 then sq_cid_run ops s
      else sq_cid_run ops (nvm_sq_update (fst s), snd s))"

lemma sq_cid_run_counts:
  assumes "2 * n \<le> 2 ^ 16"
  shows "sq_ok q \<Longrightarrow> sq_counts k q \<Longrightarrow> q_n q = n \<Longrightarrow> i < length (sq_cid_run ops (q, m)) \<Longrightarrow>
    sq_cid_run ops (q, m) ! i = of_nat ((k + i + 1) mod (2 * n))"
proof (induction ops arbitrary: q m k i)
  case Nil
  then show ?case by simp
next
  case (Cons op ops)
  have wf: "queue_wf q" "q_n q dvd 2 ^ 32" "unat (q_tail q) < q_n q"
    using Cons.prems(1) by (auto simp: sq_ok_def queue_wf_def)
  show ?case
  proof (cases op)
    case Get
    have "sq_counts k (nvm_sq_update q)" using Cons.prems(2) by (simp add: sq_counts_def)
    with Get Cons show ?thesis by (auto simp: sq_ok_update split: if_splits)
  next
    case Put
    show ?thesis
    proof (cases "in_flight q = q_n q - 1")
      case True
      with Put Cons wf show ?thesis by (simp add: nvm_sq_enqueue_full)
    next
      case False
      with in_flight_less [OF wf(1)] have f: "in_flight q < q_n q - 1" by linarith
      let ?p = "queue_slot q (q_tail q)" and ?c = "sq_cid (sq_bump q)"
      have np: "?p \<noteq> NULL" using Cons.prems(1) wf by (simp add: sq_ok_def queue_slot_nonnull)
      have run: "sq_cid_run (op # ops) (q, m) =
          ?c # sq_cid_run ops (sq_bump q, store16 (NVM_CMD_CID ?p) ?c m)"
        using Put np by (simp add: nvm_sq_enqueue_free [OF wf(1,2) f] load16_store16)
      have cnt: "sq_counts (Suc k) (sq_bump q)" by (rule sq_counts_bump [OF wf(1) Cons.prems(2)])
      have c: "?c = of_nat (Suc k mod (2 * n))"
        using sq_cid_counts [OF sq_bump_wf [OF wf(1)] cnt] assms Cons.prems(3) by simp
      show ?thesis
      proof (cases i)
        case 0
        then show ?thesis by (simp only: run c) simp
      next
        case (Suc i')
        have "sq_cid_run ops (sq_bump q, store16 (NVM_CMD_CID ?p) ?c m) ! i'
            = of_nat ((Suc k + i' + 1) mod (2 * n))"
          by (rule Cons.IH [OF sq_ok_bump [OF Cons.prems(1)] cnt])
             (use Cons.prems(3,4) Suc run in auto)
        with Suc show ?thesis by (simp only: run) simp
      qed
    qed
  qed
qed

text \<open>The slots handed out, one after another, in a ring.\<close>

lemma sq_run_slots:
  "sq_ok q \<Longrightarrow> sq_counts k q \<Longrightarrow> q_vaddr q = va \<Longrightarrow> q_entry_size q = 64 \<Longrightarrow> q_n q = n \<Longrightarrow>
   fifo_run sq_put sq_get ops (q, m) = (rs, s') \<Longrightarrow> i < length (handed rs) \<Longrightarrow>
   handed rs ! i = va + 64 * of_nat ((k + i) mod n)"
proof (induction ops arbitrary: q m k i rs)
  case Nil
  then show ?case by simp
next
  case (Cons op ops)
  note q = Cons.prems(1-5)
  have wf: "queue_wf q" "unat (q_tail q) = k mod n" "0 < n" using q by (auto simp: sq_ok_def sq_counts_def queue_wf_def)
  show ?case
  proof (cases op)
    case Get
    have "sq_counts k (nvm_sq_update q)" using q(2) by (simp add: sq_counts_def)
    with Cons.IH [OF sq_ok_update [OF q(1)] this] Cons.prems(6,7) q Get show ?thesis by (simp add: sq_get_def)
  next
    case Put
    show ?thesis
    proof (cases "in_flight q = q_n q - 1")
      case True
      then obtain rs' where "fifo_run sq_put sq_get ops (q, m) = (rs', s')" "rs = None # rs'"
        using Put Cons.prems(6) by (cases "fifo_run sq_put sq_get ops (q, m)") (auto simp: sq_put_eq [OF q(1)] Let_def)
      with Cons.IH [OF q] Cons.prems(7) show ?thesis by simp
    next
      case False
      let ?m = "store16 (NVM_CMD_CID (queue_slot q (q_tail q))) (sq_cid (sq_bump q)) m"
      obtain rs' where run: "fifo_run sq_put sq_get ops (sq_bump q, ?m) = (rs', s')"
        and rs: "rs = Some (queue_slot q (q_tail q)) # rs'"
        using False Put Cons.prems(6) by (cases "fifo_run sq_put sq_get ops (sq_bump q, ?m)") (auto simp: sq_put_eq [OF q(1)] Let_def)
      have "ucast (64 * q_tail q :: u32) = (64 * of_nat (k mod n) :: u64)"
      proof -
        have "unat (64 * q_tail q :: u32) = 64 * (k mod n)"
          using wf unat_u16_less [of "q_max_entries q"] q(5) by (simp add: unat_word_ariths order_less_trans [OF mod_less_divisor])
        moreover have "(ucast x :: u64) = of_nat (unat x)" for x :: u32 by simp
        ultimately show ?thesis by (metis of_nat_mult of_nat_numeral)
      qed
      then have h: "queue_slot q (q_tail q) = va + 64 * of_nat (k mod n)" using q(3,4) by (simp add: queue_slot_def)
      show ?thesis
      proof (cases i)
        case 0
        with h rs show ?thesis by simp
      next
        case (Suc i')
        with Cons.IH [OF sq_ok_bump [OF q(1)] sq_counts_bump [OF wf(1) q(2)] _ _ _ run, of i'] rs q Cons.prems(7)
        show ?thesis by simp
      qed
    qed
  qed
qed

section \<open>A cleared queue\<close>

lemma nvm_queue_clear_n:
  "q_n (nvm_queue_clear ctrl cq no va io) =
     min (unat (c_max_entries ctrl)) (unat (c_page_size ctrl) div (if cq then 16 else 64))"
proof -
  let ?a = "ucast (c_max_entries ctrl) :: u64"
    and ?b = "c_page_size ctrl div ucast (if cq then 16 else 64 :: u16)"
  have a: "unat ?a = unat (c_max_entries ctrl)" by (simp add: unat_ucast_up)
  have b: "unat ?b = unat (c_page_size ctrl) div (if cq then 16 else 64)" by (simp add: unat_div)
  have "unat (if ?a \<le> ?b then ?a else ?b) = min (unat ?a) (unat ?b)"
    by (simp add: min_def word_le_nat_alt)
  moreover have "min (unat ?a) (unat ?b) < 2 ^ 16" using a unat_u16_less [of "c_max_entries ctrl"] by simp
  ultimately show ?thesis
    using a b by (simp add: nvm_queue_clear_def Let_def sizeof_cpl_def sizeof_cmd_def unat_ucast_mod
        del: unat_ucast_up split: if_splits)
qed

lemma nvm_queue_clear_simps [simp]:
  "q_head (nvm_queue_clear ctrl cq no va io) = 0" "q_tail (nvm_queue_clear ctrl cq no va io) = 0"
  "q_phase (nvm_queue_clear ctrl cq no va io) = 1" "q_last (nvm_queue_clear ctrl cq no va io) = 0"
  "q_vaddr (nvm_queue_clear ctrl cq no va io) = va" "q_ioaddr (nvm_queue_clear ctrl cq no va io) = io"
  "q_no (nvm_queue_clear ctrl cq no va io) = no"
  "q_entry_size (nvm_queue_clear ctrl cq no va io) = (if cq then 16 else 64)"
  by (simp_all add: nvm_queue_clear_def Let_def sizeof_cpl_def sizeof_cmd_def)

lemma nvm_queue_clear_wf:
  "0 < c_max_entries ctrl \<Longrightarrow> (if cq then 16 else 64) \<le> c_page_size ctrl \<Longrightarrow>
   queue_wf (nvm_queue_clear ctrl cq no va io)"
  by (auto simp: queue_wf_def nvm_queue_clear_n word_less_nat_alt word_le_nat_alt div_greater_zero_iff)

lemma in_flight_clear [simp]: "in_flight (nvm_queue_clear ctrl cq no va io) = 0"
  by (simp add: in_flight_def)

lemma sq_counts_clear: "sq_counts 0 (nvm_queue_clear ctrl cq no va io)"
  by (simp add: sq_counts_def)

section \<open>Properties\<close>

lemma sq_ok_clear:
  assumes "0 < c_max_entries ctrl" "64 \<le> c_page_size ctrl" "va \<noteq> NULL"
    and "q_n (nvm_queue_clear ctrl False no va io) dvd 2 ^ 32"
    and "unat va + 64 * q_n (nvm_queue_clear ctrl False no va io) \<le> 2 ^ 64"
  shows "sq_ok (nvm_queue_clear ctrl False no va io)"
  using assms nvm_queue_clear_wf [of ctrl False no va io]
  by (simp add: sq_ok_def queue_mapped_def)

text \<open>
  C1: a cleared submission queue whose size divides 2^32 is a bounded FIFO of slots, under every schedule of
  \<open>nvm_sq_enqueue\<close> and \<open>nvm_sq_update\<close> in which an update is made only for a command in flight.  The
  pointers that \<open>nvm_sq_enqueue\<close> returns are the slots of the queue memory, one after another and around;
  NULL is returned exactly where a FIFO that holds one command less than the ring has entries is full.  The
  slots in flight are the slots handed out without the oldest ones, one for every update; they are distinct.
\<close>

theorem sq_refines_fifo:
  assumes "0 < c_max_entries ctrl" "64 \<le> c_page_size ctrl" "va \<noteq> NULL"
    and "q = nvm_queue_clear ctrl False no va io"
    and "q_n q dvd 2 ^ 32" "unat va + 64 * q_n q \<le> 2 ^ 64"
    and "fifo_legal (q_n q - 1) ops 0"
    and "fifo_run sq_put sq_get ops (q, m) = (rs, q', m')"
  shows "map (\<lambda>r. r = None) rs = fifo_refuses (q_n q - 1) ops 0
    \<and> handed rs = map (\<lambda>i. va + 64 * of_nat (i mod q_n q)) [0..<length (handed rs)]
    \<and> sq_addrs q' = drop (count_list ops Get) (handed rs)
    \<and> distinct (sq_addrs q') \<and> length (sq_addrs q') \<le> q_n q - 1"
proof -
  have ok: "sq_ok (fst (q, m))" using assms sq_ok_clear [of ctrl va no io] by simp
  have e: "sq_addrs q = []" using assms(4) by (simp add: sq_addrs_def sq_slots_def)
  then have l: "fifo_legal (q_n (fst (q, m)) - 1) ops (length (sq_addrs (fst (q, m))))" using assms(7) by simp
  have "sq_counts 0 q" "q_vaddr q = va" "q_entry_size q = 64" using assms(4) by (simp_all add: sq_counts_clear)
  from sq_run_slots [OF _ this refl assms(8)] ok
  have "handed rs = map (\<lambda>i. va + 64 * of_nat (i mod q_n q)) [0..<length (handed rs)]"
    by (intro nth_equalityI) simp_all
  then show ?thesis using sq.run_fifo [OF ok l assms(8)] sq.run_bounded [OF ok l assms(8)] e by simp
qed

definition demo_ctrl :: nvm_ctrl where
  "demo_ctrl = \<lparr>c_page_size = 0x1000, c_dstrd = 0, c_timeout = 500, c_max_entries = 4,
     c_mm_size = 0x2000, c_mm_ptr = 0x10000\<rparr>"

definition demo_sq :: nvm_queue where
  "demo_sq = nvm_queue_clear demo_ctrl False 1 0x20000 0x90000"

lemma demo_sq_n: "q_max_entries demo_sq = 4"
  by (simp add: demo_sq_def demo_ctrl_def nvm_queue_clear_def Let_def sizeof_cmd_def)

lemma demo_sq_ok: "sq_ok demo_sq"
  unfolding demo_sq_def
  by (rule sq_ok_clear) (use demo_sq_n in \<open>simp_all add: demo_sq_def demo_ctrl_def\<close>)

theorem sq_refines_fifo_witness:
  "\<exists>rs q' m'. fifo_run sq_put sq_get [Put, Put, Put, Put, Get, Put] (demo_sq, \<lambda>_. 0) = (rs, q', m')
     \<and> map (\<lambda>r. r = None) rs = [False, False, False, True, False] \<and> handed rs = [0x20000, 0x20040, 0x20080, 0x200C0]
     \<and> sq_addrs q' = [0x20040, 0x20080, 0x200C0]"
proof -
  let ?ops = "[Put, Put, Put, Put, Get, Put]"
  obtain rs q' m' where run: "fifo_run sq_put sq_get ?ops (demo_sq, \<lambda>_. 0) = (rs, q', m')"
    by (metis prod_cases3)
  have "map (\<lambda>r. r = None) rs = fifo_refuses (q_n demo_sq - 1) ?ops 0
    \<and> handed rs = map (\<lambda>i. 0x20000 + 64 * of_nat (i mod q_n demo_sq)) [0..<length (handed rs)]
    \<and> sq_addrs q' = drop (count_list ?ops Get) (handed rs)
    \<and> distinct (sq_addrs q') \<and> length (sq_addrs q') \<le> q_n demo_sq - 1"
    by (rule sq_refines_fifo [OF _ _ _ demo_sq_def _ _ _ run])
       (simp_all add: demo_sq_n, simp_all add: demo_ctrl_def)
  moreover have "length (handed rs) = length (filter Not (map (\<lambda>r. r = None) rs))"
    by (simp add: handed_def filter_map comp_def)
  ultimately show ?thesis
    using run by (auto simp: demo_sq_n upt_rec)
qed

text \<open>
  C29: whatever the schedule, the commands handed out by a cleared submission queue whose size divides
  \<open>2 ^ 32\<close> and is at most 32768 carry identifiers that differ as long as fewer than twice the ring size of commands lie
  between them; in particular no two commands in flight share an identifier.
\<close>

theorem sq_identifiers_unique:
  assumes "0 < c_max_entries ctrl" "64 \<le> c_page_size ctrl" "va \<noteq> NULL"
    and "q = nvm_queue_clear ctrl False no va io"
    and "q_n q dvd 2 ^ 32" "unat va + 64 * q_n q \<le> 2 ^ 64" "q_n q \<le> 32768"
    and "i < j" "j < length (sq_cid_run ops (q, m))" "j - i < 2 * q_n q"
  shows "sq_cid_run ops (q, m) ! i \<noteq> sq_cid_run ops (q, m) ! j"
proof -
  let ?n = "q_n q"
  have ok: "sq_ok q" using assms sq_ok_clear [of ctrl va no io] by simp
  have n2: "2 * ?n \<le> 2 ^ 16" using assms(7) by simp
  have c: "sq_counts 0 q" using assms(4) by (simp add: sq_counts_clear)
  have n0: "0 < 2 * ?n" using ok by (simp add: sq_ok_def queue_wf_def)
  let ?f = "\<lambda>x. (x + 1) mod (2 * ?n)"
  have e: "sq_cid_run ops (q, m) ! x = of_nat (?f x)" if "x < length (sq_cid_run ops (q, m))" for x
    using sq_cid_run_counts [OF n2 ok c refl that] by simp
  have lt: "?f x < 2 ^ 16" for x using n0 n2 by (meson mod_less_divisor order_less_le_trans)
  have "?f i \<noteq> ?f j"
  proof
    assume "?f i = ?f j"
    then have "((i + 1) + 0) mod (2 * ?n) = ((i + 1) + (j - i)) mod (2 * ?n)" using assms(8) by simp
    then have "0 = j - i" by (rule ring_inj) (use assms(10) n0 in auto)
    with assms(8) show False by simp
  qed
  then have "(of_nat (?f i) :: u16) \<noteq> of_nat (?f j)"
    using unat_of_nat_small [of "?f i", where 'a = 16] unat_of_nat_small [of "?f j", where 'a = 16] lt
    by fastforce
  then show ?thesis using e [of i] e [of j] assms(8,9) by simp
qed

lemma demo_sq_fields:
  "demo_sq = \<lparr>q_no = 1, q_max_entries = 4, q_entry_size = 64, q_head = 0, q_tail = 0, q_phase = 1,
     q_last = 0, q_db = 0x11008, q_vaddr = 0x20000, q_ioaddr = 0x90000\<rparr>"
  by (simp add: demo_sq_def demo_ctrl_def nvm_queue_clear_def Let_def sizeof_cmd_def SQ_DBL_def)

theorem sq_identifiers_unique_witness:
  "sq_cid_run [Put, Put] (demo_sq, \<lambda>_. 0) ! 0 \<noteq> sq_cid_run [Put, Put] (demo_sq, \<lambda>_. 0) ! 1"
  by (rule sq_identifiers_unique [OF _ _ _ demo_sq_def])
     (simp_all add: demo_sq_n, simp_all add: demo_ctrl_def demo_sq_fields nvm_sq_enqueue_def Let_def
        queue_slot_def)

text \<open>
  on a well-formed submission ring whose size divides 2^32, \<open>nvm_sq_enqueue\<close> always returns:
  NULL and nothing changed exactly when one entry less than the ring size is in flight, otherwise
  the address of the tail slot, with the tail advanced cyclically and the new identifier in the slot.
\<close>

theorem sq_enqueue_exact:
  assumes "sq_ok q"
  shows "nvm_sq_enqueue q m =
    (if in_flight q = q_n q - 1 then Some (NULL, q, m)
     else Some (queue_slot q (q_tail q), sq_bump q,
            store16 (NVM_CMD_CID (queue_slot q (q_tail q))) (sq_cid (sq_bump q)) m))
   \<and> queue_slot q (q_tail q) \<noteq> NULL
   \<and> unat (q_tail (sq_bump q)) = Suc (unat (q_tail q)) mod q_n q"
proof -
  have wf: "queue_wf q" "q_n q dvd 2 ^ 32" using assms by (simp_all add: sq_ok_def)
  have "queue_slot q (q_tail q) \<noteq> NULL"
    using assms by (intro queue_slot_nonnull) (auto simp: sq_ok_def queue_wf_def)
  moreover have "in_flight q \<noteq> q_n q - 1 \<Longrightarrow> in_flight q < q_n q - 1"
    using in_flight_less [OF wf(1)] by linarith
  ultimately show ?thesis
    using nvm_sq_enqueue_full [OF wf] nvm_sq_enqueue_free [OF wf] unat_sq_bump_tail [OF wf(1)] by auto
qed

theorem sq_enqueue_exact_witness:
  "nvm_sq_enqueue demo_sq (\<lambda>_. 0) = Some (queue_slot demo_sq 0, sq_bump demo_sq,
     store16 (NVM_CMD_CID (queue_slot demo_sq 0)) (sq_cid (sq_bump demo_sq)) (\<lambda>_. 0))"
  using sq_enqueue_exact [OF demo_sq_ok, of "\<lambda>_. 0"] by (simp add: demo_sq_fields in_flight_def)

text \<open>
  C34: on a well-formed ring whose size does not divide 2^32 the fullness test is wrong once the
  tail has wrapped around: with all but one entry in flight and the tail below the head,
  \<open>nvm_sq_enqueue\<close> does not return NULL but hands out the last slot, after which the ring counts as
  empty although it is completely filled.
\<close>

theorem sq_overrun_unless_power_of_two:
  assumes "queue_wf q" "queue_mapped q" "0 < q_entry_size q" "\<not> q_n q dvd 2 ^ 32"
    and "in_flight q = q_n q - 1" "q_tail q < q_head q"
  shows "\<exists>p q' m'. nvm_sq_enqueue q m = Some (p, q', m') \<and> p \<noteq> NULL \<and> in_flight q' = 0"
proof -
  let ?n = "q_n q" and ?t = "unat (q_tail q)" and ?h = "unat (q_head q)"
  have n: "0 < ?n" "?n < 2 ^ 16" "?h < ?n" "?t < ?n" "?t < ?h"
    using assms(1,6) unat_u16_less [of "q_max_entries q"] by (auto simp: queue_wf_def word_less_nat_alt)
  have nz: "q_max_entries q \<noteq> 0" using n(1) by auto
  have ht: "?h = Suc ?t"
    using assms(5) n in_flight_cases [OF assms(1)] assms(6) by (auto simp: word_le_nat_alt split: if_splits)
  have d: "unat (q_tail q - q_head q) = 2 ^ 32 - 1"
    using ht n by (simp add: unat_sub_wrap word_le_nat_alt)
  have "(2 ^ 32 - 1) mod ?n \<noteq> ?n - 1"
  proof
    assume a: "(2 ^ 32 - 1) mod ?n = ?n - 1"
    have "2 ^ 32 mod ?n = Suc ((2 ^ 32 - 1) mod ?n) mod ?n" by (simp add: mod_Suc_eq)
    with a n have "2 ^ 32 mod ?n = 0" by simp
    with assms(4) show False by (simp add: dvd_eq_mod_eq_0)
  qed
  then have "unat ((q_tail q - q_head q) mod ucast (q_max_entries q)) \<noteq> ?n - 1"
    using d by (simp add: unat_mod)
  moreover have lt: "unat ((q_tail q - q_head q) mod ucast (q_max_entries q)) < 2 ^ 16"
    using mod_less_divisor [OF n(1), of "2 ^ 32 - 1"] n(2) by (simp add: unat_mod d)
  ultimately have "unat (ucast ((q_tail q - q_head q) mod ucast (q_max_entries q)) :: u16) \<noteq> ?n - 1"
    by (simp only: unat_ucast_mod) simp
  then have "int (unat (ucast ((q_tail q - q_head q) mod ucast (q_max_entries q)) :: u16)) \<noteq> int ?n - 1"
    using n(1) by linarith
  moreover have "q_phase q = 0 \<or> q_phase q = 1" using assms(1) by (simp add: queue_wf_def)
  ultimately have "nvm_sq_enqueue q m = Some (queue_slot q (q_tail q), sq_bump q,
      store16 (NVM_CMD_CID (queue_slot q (q_tail q))) (sq_cid (sq_bump q)) m)"
    using q_next [OF n(4)] by (auto simp: nvm_sq_enqueue_def nz Let_def sq_bump_def sq_cid_def queue_slot_def)
  moreover have "queue_slot q (q_tail q) \<noteq> NULL" by (rule queue_slot_nonnull [OF assms(2) n(4) assms(3)])
  moreover have "in_flight (sq_bump q) = 0"
    using n ht unat_sq_bump_tail [OF assms(1)] by (simp add: in_flight_def)
  ultimately show ?thesis by blast
qed

definition odd_sq :: nvm_queue where
  "odd_sq = demo_sq\<lparr>q_max_entries := 48, q_head := 1, q_tail := 0, q_phase := 0\<rparr>"

theorem sq_overrun_unless_power_of_two_witness:
  "in_flight odd_sq = 47 \<and>
   (\<exists>p q' m'. nvm_sq_enqueue odd_sq (\<lambda>_. 0) = Some (p, q', m') \<and> p \<noteq> NULL \<and> in_flight q' = 0)"
proof -
  have f: "in_flight odd_sq = 47" by (simp add: odd_sq_def in_flight_def)
  moreover have "\<exists>p q' m'. nvm_sq_enqueue odd_sq (\<lambda>_. 0) = Some (p, q', m') \<and> p \<noteq> NULL \<and> in_flight q' = 0"
  proof (rule sq_overrun_unless_power_of_two)
    show "\<not> q_n odd_sq dvd 2 ^ 32" by (simp add: odd_sq_def)
  qed (use f in \<open>simp_all add: odd_sq_def demo_sq_fields queue_wf_def queue_mapped_def\<close>)
  ultimately show ?thesis by blast
qed

end
