(* ===== verification/Completion.thy ===== *)
theory Completion
  imports Submission
begin

unbundle bit_operations_syntax

text \<open>
  The completion ring.  The host and the controller share no counters: the controller marks an
  entry as new by a phase tag that it inverts on every pass over the ring.  Against a controller
  that follows this protocol, the host receives every completion exactly once and in order.
\<close>

section \<open>Phase tags\<close>

definition cq_slot :: "nvm_queue \<Rightarrow> nat \<Rightarrow> u64" where
  "cq_slot q s = queue_slot q (of_nat s)"

definition cq_tag :: "mem \<Rightarrow> nvm_queue \<Rightarrow> nat \<Rightarrow> int" where
  "cq_tag m q s = (if bit (load16 m (NVM_CPL_STATUS (cq_slot q s))) 0 then 1 else 0)"

text \<open>The tag of the \<open>c\<close>-th completion (from 0) posted to a ring of \<open>n\<close> entries.\<close>

definition dev_tag :: "nat \<Rightarrow> nat \<Rightarrow> int" where
  "dev_tag n c = (if even (c div n) then 1 else 0)"

lemma RB_0_0: "RB (ucast (x :: u16)) 0 0 = 0 \<longleftrightarrow> \<not> bit x 0"
proof -
  have "RB (ucast x) 0 0 = of_bool (bit x 0)"
    by (rule bit_word_eqI) (auto simp: bit_simps)
  then show ?thesis by simp
qed

definition cq_ok :: "nvm_queue \<Rightarrow> bool" where
  "cq_ok q \<longleftrightarrow> queue_wf q \<and> queue_mapped q \<and> q_entry_size q = 16"

lemma nvm_cq_poll_tag:
  assumes "cq_ok q"
  shows "nvm_cq_poll q m =
    (if cq_tag m q (unat (q_head q)) = q_phase q then cq_slot q (unat (q_head q)) else NULL)"
  by (simp add: nvm_cq_poll_def Let_def RB_0_0 cq_tag_def cq_slot_def)

lemma cq_slot_nonnull: "cq_ok q \<Longrightarrow> s < q_n q \<Longrightarrow> cq_slot q s \<noteq> NULL"
proof -
  assume q: "cq_ok q" "s < q_n q"
  then have "unat (of_nat s :: u32) = s"
    using unat_u16_less [of "q_max_entries q"] by (intro unat_of_nat_small) simp
  with q show ?thesis by (simp add: cq_ok_def cq_slot_def queue_slot_nonnull)
qed

definition cq_bump :: "nvm_queue \<Rightarrow> nvm_queue" where
  "cq_bump q = (if Suc (unat (q_head q)) = q_n q
     then q\<lparr>q_head := 0, q_phase := 1 - q_phase q\<rparr> else q\<lparr>q_head := q_head q + 1\<rparr>)"

lemma nvm_cq_dequeue_eq:
  assumes "cq_ok q"
  shows "nvm_cq_dequeue q m =
    (if cq_tag m q (unat (q_head q)) = q_phase q then (cq_slot q (unat (q_head q)), cq_bump q)
     else (NULL, q))"
proof -
  have h: "unat (q_head q) < q_n q" "q_phase q = 0 \<or> q_phase q = 1"
    using assms by (auto simp: cq_ok_def queue_wf_def)
  from cq_slot_nonnull [OF assms h(1)] h(2) q_next [OF h(1)] show ?thesis
    by (auto simp: nvm_cq_dequeue_def nvm_cq_poll_tag [OF assms] Let_def cq_bump_def)
qed

lemma cq_bump_simps [simp]:
  "q_n (cq_bump q) = q_n q" "q_vaddr (cq_bump q) = q_vaddr q" "q_tail (cq_bump q) = q_tail q"
  "q_max_entries (cq_bump q) = q_max_entries q" "q_entry_size (cq_bump q) = q_entry_size q"
  "cq_slot (cq_bump q) = cq_slot q" "cq_tag m (cq_bump q) = cq_tag m q"
  by (simp_all add: cq_bump_def cq_slot_def queue_slot_def cq_tag_def fun_eq_iff)

lemma unat_cq_bump_head:
  "queue_wf q \<Longrightarrow> unat (q_head (cq_bump q)) = Suc (unat (q_head q)) mod q_n q"
  using q_next(2) [of "q_head q" q] by (auto simp: cq_bump_def queue_wf_def)

lemma cq_ok_bump: "cq_ok q \<Longrightarrow> cq_ok (cq_bump q)"
  using unat_cq_bump_head [of q] by (auto simp: cq_ok_def queue_wf_def queue_mapped_def cq_bump_def)

section \<open>Host and controller in step\<close>

text \<open>
  The host has received \<open>r\<close> completions and \<open>k\<close> more are posted: the head and its phase are those
  of completion \<open>r\<close>, and exactly the next \<open>k\<close> slots carry the tag the host expects there.
\<close>

definition cq_synced :: "nat \<Rightarrow> nat \<Rightarrow> nvm_queue \<Rightarrow> mem \<Rightarrow> bool" where
  "cq_synced r k q m \<longleftrightarrow> unat (q_head q) = r mod q_n q \<and> q_phase q = dev_tag (q_n q) r \<and> k \<le> q_n q
     \<and> (\<forall>i < q_n q. cq_tag m q ((r + i) mod q_n q) = dev_tag (q_n q) (r + i) \<longleftrightarrow> i < k)"

lemma dev_tag_lap: "0 < n \<Longrightarrow> dev_tag n (c + n) = 1 - dev_tag n c"
  by (simp add: dev_tag_def div_add_self2)

lemma dev_tag_bump:
  assumes "cq_ok q" "cq_synced r k q m"
  shows "q_phase (cq_bump q) = dev_tag (q_n q) (Suc r)"
    and "unat (q_head (cq_bump q)) = Suc r mod q_n q"
proof -
  have n: "0 < q_n q" and wf: "queue_wf q" using assms(1) by (auto simp: cq_ok_def queue_wf_def)
  show "unat (q_head (cq_bump q)) = Suc r mod q_n q"
    using unat_cq_bump_head [OF wf] assms(2) by (simp add: cq_synced_def mod_simps)
  have "Suc r div q_n q = (if Suc (r mod q_n q) = q_n q then Suc (r div q_n q) else r div q_n q)"
    using n by (simp add: div_Suc mod_Suc)
  then show "q_phase (cq_bump q) = dev_tag (q_n q) (Suc r)"
    using assms(2) by (auto simp: cq_synced_def cq_bump_def dev_tag_def)
qed

lemma cq_synced_ready:
  assumes "cq_ok q" "cq_synced r k q m"
  shows "cq_tag m q (unat (q_head q)) = q_phase q \<longleftrightarrow> 0 < k"
proof -
  have "0 < q_n q" using assms(1) by (simp add: cq_ok_def queue_wf_def)
  with assms(2) have "cq_tag m q ((r + 0) mod q_n q) = dev_tag (q_n q) (r + 0) \<longleftrightarrow> 0 < k"
    unfolding cq_synced_def by blast
  with assms(2) show ?thesis by (simp add: cq_synced_def)
qed

lemma cq_synced_dequeue:
  assumes "cq_ok q" "cq_synced r (Suc k) q m"
  shows "cq_synced (Suc r) k (cq_bump q) m"
proof -
  let ?n = "q_n q"
  have n: "0 < ?n" using assms(1) by (simp add: cq_ok_def queue_wf_def)
  have tags: "\<And>i. i < ?n \<Longrightarrow> cq_tag m q ((r + i) mod ?n) = dev_tag ?n (r + i) \<longleftrightarrow> i < Suc k"
    and le: "Suc k \<le> ?n" using assms(2) by (auto simp: cq_synced_def)
  have "cq_tag m q ((Suc r + i) mod ?n) = dev_tag ?n (Suc r + i) \<longleftrightarrow> i < k" if i: "i < ?n" for i
  proof (cases "Suc i < ?n")
    case True
    then show ?thesis using tags [of "Suc i"] by simp
  next
    case False
    with i have e: "Suc r + i = r + ?n" by simp
    have "cq_tag m q (r mod ?n) = dev_tag ?n r" using tags [of 0] n by simp
    then have "cq_tag m q ((r + ?n) mod ?n) \<noteq> dev_tag ?n (r + ?n)"
      by (simp add: dev_tag_lap [OF n]) presburger
    moreover have "\<not> i < k" using le False i by linarith
    ultimately show ?thesis unfolding e by blast
  qed
  then show ?thesis
    using dev_tag_bump [OF assms] le by (simp add: cq_synced_def)
qed

section \<open>Posting an entry\<close>

lemma cq_slot_offset: "s < q_n q \<Longrightarrow> q_entry_size q = 16 \<Longrightarrow> cq_slot q s = q_vaddr q + of_nat (16 * s)"
proof -
  assume s: "s < q_n q" and e: "q_entry_size q = 16"
  have "16 * s < 2 ^ 32" using s unat_u16_less [of "q_max_entries q"] by simp
  then have "unat (16 * of_nat s :: u32) = 16 * s"
    using unat_of_nat_small [of "16 * s", where 'a = 32] by simp
  then have "(ucast (16 * of_nat s :: u32) :: u64) = of_nat (16 * s)" by (metis of_nat_unat)
  then show ?thesis using e by (simp add: cq_slot_def queue_slot_def)
qed

lemma cq_slots_disjoint:
  assumes "s < q_n q" "s' < q_n q" "s \<noteq> s'" "q_entry_size q = 16" "in_range (cq_slot q s') 16 x"
  shows "\<not> in_range (cq_slot q s) 16 x"
proof -
  have b: "16 * s + 16 \<le> 2 ^ 64" "16 * s' + 16 \<le> 2 ^ 64"
    using assms(1,2) unat_u16_less [of "q_max_entries q"] by simp_all
  show ?thesis
  proof (cases "s' < s")
    case True
    then have "cq_slot q s = cq_slot q s' + of_nat (16 * (s - s'))"
      using assms by (simp add: cq_slot_offset of_nat_diff right_diff_distrib)
    then show ?thesis
      using in_range_disjoint [OF assms(5), of "16 * (s - s')" 16] True b by simp
  next
    case False
    then have e: "cq_slot q s' = cq_slot q s + of_nat (16 * (s' - s))"
      using assms by (simp add: cq_slot_offset of_nat_diff right_diff_distrib)
    show ?thesis
    proof
      assume "in_range (cq_slot q s) 16 x"
      moreover have "16 \<le> 16 * (s' - s)" "16 * (s' - s) + 16 \<le> 2 ^ 64"
        using False assms(3) b by auto
      ultimately have "\<not> in_range (cq_slot q s + of_nat (16 * (s' - s))) 16 x"
        by (rule in_range_disjoint)
      with assms(5) show False by (simp only: e)
    qed
  qed
qed

lemma post_other_slot:
  assumes "s < q_n q" "s' < q_n q" "s \<noteq> s'" "q_entry_size q = 16" "length cpl = 4"
  shows "in_range (cq_slot q s') 16 x \<Longrightarrow> store_dwords (cq_slot q s) cpl m x = m x"
  using cq_slots_disjoint [OF assms(1-4)] store_dwords_other [of cpl "cq_slot q s" x m] assms(5)
  by simp

lemma load16_in_slot: "(\<And>x. in_range a 16 x \<Longrightarrow> m x = m' x) \<Longrightarrow>
  load16 m (NVM_CPL_STATUS a) = load16 m' (NVM_CPL_STATUS a)"
  by (rule load16_cong) (simp_all add: NVM_CPL_STATUS_def in_range_def add.assoc)

lemma cq_tag_post:
  assumes "s < q_n q" "s' < q_n q" "q_entry_size q = 16" "length cpl = 4"
  shows "cq_tag (store_dwords (cq_slot q s) cpl m) q s' =
    (if s' = s then (if bit (cpl_status cpl) 0 then 1 else 0) else cq_tag m q s')"
proof (cases "s' = s")
  case True
  have "load_dwords (store_dwords (cq_slot q s) cpl m) (cq_slot q s) 4 = cpl"
    using load_store_dwords [of cpl] assms(4) by simp
  then show ?thesis using True by (simp add: cq_tag_def flip: cpl_status_load)
next
  case False
  then show ?thesis
    using load16_in_slot [OF post_other_slot [OF assms(1,2) _ assms(3,4)]] by (simp add: cq_tag_def)
qed

lemma cq_synced_post:
  assumes "cq_ok q" "cq_synced r k q m" "k < q_n q" "length cpl = 4"
    and "(if bit (cpl_status cpl) 0 then 1 else 0) = dev_tag (q_n q) (r + k)"
  shows "cq_synced r (Suc k) q (store_dwords (cq_slot q ((r + k) mod q_n q)) cpl m)"
proof -
  let ?n = "q_n q" and ?s = "(r + k) mod q_n q"
  let ?m = "store_dwords (cq_slot q ?s) cpl m"
  have es: "q_entry_size q = 16" and n: "0 < ?n" using assms(1) by (auto simp: cq_ok_def queue_wf_def)
  have "cq_tag ?m q ((r + i) mod ?n) = dev_tag ?n (r + i) \<longleftrightarrow> i < Suc k" if i: "i < ?n" for i
  proof (cases "i = k")
    case True
    then show ?thesis using assms(5) n cq_tag_post [OF _ _ es assms(4), of ?s ?s m] by simp
  next
    case False
    then have "(r + i) mod ?n \<noteq> ?s" using ring_inj [of r i ?n k] i assms(3) by blast
    then have "cq_tag ?m q ((r + i) mod ?n) = cq_tag m q ((r + i) mod ?n)"
      using n cq_tag_post [OF _ _ es assms(4), of ?s "(r + i) mod ?n" m] by simp
    moreover have "cq_tag m q ((r + i) mod ?n) = dev_tag ?n (r + i) \<longleftrightarrow> i < k"
      using assms(2) i by (simp add: cq_synced_def)
    ultimately show ?thesis using False by auto
  qed
  then show ?thesis using assms(2,3) by (simp add: cq_synced_def)
qed

section \<open>The system of host and controller\<close>

record cq_sys =
  cs_queue :: nvm_queue
  cs_mem :: mem
  cs_posted :: "nvm_cpl list"
  cs_received :: "nvm_cpl list"

text \<open>
  One step: the controller posts a completion into its next slot, with the tag of the pass it is
  on, while the ring has room; or the host calls \<open>nvm_cq_dequeue\<close> and copies the entry, if any.
\<close>

inductive cq_step :: "cq_sys \<Rightarrow> cq_sys \<Rightarrow> bool" where
  controller_posts:
    "length cpl = 4 \<Longrightarrow>
     length (cs_posted s) - length (cs_received s) < q_n (cs_queue s) - 1 \<Longrightarrow>
     (if bit (cpl_status cpl) 0 then 1 else 0) = dev_tag (q_n (cs_queue s)) (length (cs_posted s)) \<Longrightarrow>
     cq_step s (s\<lparr>cs_mem := store_dwords
                    (cq_slot (cs_queue s) (length (cs_posted s) mod q_n (cs_queue s))) cpl (cs_mem s),
                  cs_posted := cs_posted s @ [cpl]\<rparr>)"
| host_dequeues:
    "nvm_cq_dequeue (cs_queue s) (cs_mem s) = (p, q') \<Longrightarrow> p \<noteq> NULL \<Longrightarrow>
     cq_step s (s\<lparr>cs_queue := q', cs_received := cs_received s @ [load_dwords (cs_mem s) p 4]\<rparr>)"
| host_finds_none:
    "nvm_cq_dequeue (cs_queue s) (cs_mem s) = (NULL, q') \<Longrightarrow> cq_step s (s\<lparr>cs_queue := q'\<rparr>)"

inductive_cases cq_step_elim: "cq_step s t"

inductive cq_reach :: "cq_sys \<Rightarrow> cq_sys \<Rightarrow> bool" for s0 where
  cq_start: "cq_reach s0 s0"
| cq_next: "cq_reach s0 s \<Longrightarrow> cq_step s t \<Longrightarrow> cq_reach s0 t"

text \<open>A cleared completion queue over zeroed queue memory, nothing posted yet.\<close>

definition cq_initial :: "cq_sys \<Rightarrow> bool" where
  "cq_initial s \<longleftrightarrow> cq_ok (cs_queue s) \<and> q_head (cs_queue s) = 0 \<and> q_phase (cs_queue s) = 1
     \<and> (\<forall>i < q_n (cs_queue s). cq_tag (cs_mem s) (cs_queue s) i = 0)
     \<and> cs_posted s = [] \<and> cs_received s = []"

definition cq_inv :: "cq_sys \<Rightarrow> bool" where
  "cq_inv s \<longleftrightarrow> (let r = length (cs_received s); k = length (cs_posted s) - r; n = q_n (cs_queue s) in
     cq_ok (cs_queue s) \<and> r \<le> length (cs_posted s) \<and> cs_received s = take r (cs_posted s)
     \<and> cq_synced r k (cs_queue s) (cs_mem s)
     \<and> (\<forall>i < k. load_dwords (cs_mem s) (cq_slot (cs_queue s) ((r + i) mod n)) 4 = cs_posted s ! (r + i)))"

lemma cq_inv_initial: "cq_initial s \<Longrightarrow> cq_inv s"
  by (auto simp: cq_initial_def cq_inv_def cq_synced_def dev_tag_def)

lemma cq_inv_post:
  assumes inv: "cq_inv s" and len: "length cpl = 4"
    and room: "length (cs_posted s) - length (cs_received s) < q_n (cs_queue s) - 1"
    and tag: "(if bit (cpl_status cpl) 0 then 1 else 0) = dev_tag (q_n (cs_queue s)) (length (cs_posted s))"
  shows "cq_inv (s\<lparr>cs_mem := store_dwords
      (cq_slot (cs_queue s) (length (cs_posted s) mod q_n (cs_queue s))) cpl (cs_mem s),
      cs_posted := cs_posted s @ [cpl]\<rparr>)"
proof -
  let ?q = "cs_queue s" and ?r = "length (cs_received s)" and ?p = "length (cs_posted s)"
  let ?n = "q_n ?q" and ?m = "cs_mem s"
  define k where "k = ?p - ?r"
  have ok: "cq_ok ?q" and le: "?r \<le> ?p" and pre: "cs_received s = take ?r (cs_posted s)"
    and syn: "cq_synced ?r k ?q ?m"
    and old: "\<And>i. i < k \<Longrightarrow> load_dwords ?m (cq_slot ?q ((?r + i) mod ?n)) 4 = cs_posted s ! (?r + i)"
    using inv by (auto simp: cq_inv_def Let_def k_def)
  have p: "?p = ?r + k" and kn: "k < ?n" using le room by (auto simp: k_def)
  let ?m' = "store_dwords (cq_slot ?q ((?r + k) mod ?n)) cpl ?m"
  have es: "q_entry_size ?q = 16" and n: "0 < ?n" using ok by (auto simp: cq_ok_def queue_wf_def)
  have "load_dwords ?m' (cq_slot ?q ((?r + i) mod ?n)) 4 = (cs_posted s @ [cpl]) ! (?r + i)"
    if i: "i < Suc k" for i
  proof (cases "i = k")
    case True
    moreover have "(cs_posted s @ [cpl]) ! ?p = cpl" by simp
    ultimately show ?thesis
      using load_store_dwords [of cpl "cq_slot ?q ((?r + k) mod ?n)" ?m] len p by simp
  next
    case False
    then have ne: "(?r + k) mod ?n \<noteq> (?r + i) mod ?n" using ring_inj [of ?r k ?n i] i kn by auto
    have "load_dwords ?m' (cq_slot ?q ((?r + i) mod ?n)) 4 = load_dwords ?m (cq_slot ?q ((?r + i) mod ?n)) 4"
      by (rule load_dwords_cong) (use post_other_slot [OF _ _ ne es len] n in auto)
    then show ?thesis using old [of i] False i p by (simp add: nth_append)
  qed
  moreover have "cq_synced ?r (Suc k) ?q ?m'"
    by (rule cq_synced_post [OF ok syn kn len]) (use tag p in simp)
  moreover have "Suc ?p - ?r = Suc k" using le by (simp add: k_def Suc_diff_le)
  ultimately show ?thesis using ok le pre p by (simp add: cq_inv_def)
qed

lemma cq_inv_dequeue:
  assumes inv: "cq_inv s" and deq: "nvm_cq_dequeue (cs_queue s) (cs_mem s) = (p, q')" "p \<noteq> NULL"
  shows "cq_inv (s\<lparr>cs_queue := q', cs_received := cs_received s @ [load_dwords (cs_mem s) p 4]\<rparr>)"
proof -
  let ?q = "cs_queue s" and ?r = "length (cs_received s)" and ?p = "length (cs_posted s)"
  let ?n = "q_n ?q" and ?m = "cs_mem s"
  define k where "k = ?p - ?r"
  have ok: "cq_ok ?q" and le: "?r \<le> ?p" and pre: "cs_received s = take ?r (cs_posted s)"
    and syn: "cq_synced ?r k ?q ?m"
    and old: "\<And>i. i < k \<Longrightarrow> load_dwords ?m (cq_slot ?q ((?r + i) mod ?n)) 4 = cs_posted s ! (?r + i)"
    using inv by (auto simp: cq_inv_def Let_def k_def)
  from deq have t: "cq_tag ?m ?q (unat (q_head ?q)) = q_phase ?q"
    and e: "p = cq_slot ?q (unat (q_head ?q))" "q' = cq_bump ?q"
    by (auto simp: nvm_cq_dequeue_eq [OF ok] split: if_splits)
  from t cq_synced_ready [OF ok syn] obtain k' where k': "k = Suc k'" by (cases k) auto
  then have lt: "?r < ?p" by (simp add: k_def)
  have head: "unat (q_head ?q) = ?r mod ?n" using syn by (simp add: cq_synced_def)
  have got: "load_dwords ?m p 4 = cs_posted s ! ?r" using old [of 0] k' e head by simp
  have "cq_synced (Suc ?r) k' q' ?m" using cq_synced_dequeue [OF ok] syn k' e by simp
  moreover have "load_dwords ?m (cq_slot q' ((Suc ?r + i) mod ?n)) 4 = cs_posted s ! (Suc ?r + i)"
    if "i < k'" for i using old [of "Suc i"] that k' e by simp
  moreover have "cs_received s @ [cs_posted s ! ?r] = take (Suc ?r) (cs_posted s)"
    using pre lt by (metis take_Suc_conv_app_nth)
  moreover have "?p - Suc ?r = k'" using k' by (simp add: k_def)
  ultimately show ?thesis using cq_ok_bump [OF ok] lt got e by (simp add: cq_inv_def)
qed

lemma cq_step_inv: "cq_step s t \<Longrightarrow> cq_inv s \<Longrightarrow> cq_inv t"
proof (induction rule: cq_step.induct)
  case (controller_posts cpl s)
  then show ?case by (intro cq_inv_post)
next
  case (host_dequeues s p q')
  then show ?case by (intro cq_inv_dequeue)
next
  case (host_finds_none s q')
  then have "cq_ok (cs_queue s)" by (simp add: cq_inv_def Let_def)
  moreover from this have "cq_slot (cs_queue s) (unat (q_head (cs_queue s))) \<noteq> NULL"
    by (intro cq_slot_nonnull) (auto simp: cq_ok_def queue_wf_def)
  ultimately have "q' = cs_queue s"
    using host_finds_none.hyps by (auto simp: nvm_cq_dequeue_eq split: if_splits)
  with host_finds_none show ?case by simp
qed

lemma cq_reach_inv: "cq_reach s0 s \<Longrightarrow> cq_initial s0 \<Longrightarrow> cq_inv s"
  by (induction rule: cq_reach.induct) (auto intro: cq_inv_initial cq_step_inv)

section \<open>Waiting for a completion\<close>

text \<open>The world after the controller had \<open>j\<close> more moments to act.\<close>

definition world_after :: "device \<Rightarrow> nat \<Rightarrow> world \<Rightarrow> world" where
  "world_after dev j w = (dev_step dev ^^ j) w"

lemma world_after_0 [simp]: "world_after dev 0 w = w"
  by (simp add: world_after_def)

lemma world_after_Suc: "world_after dev (Suc j) w = world_after dev j (dev_step dev w)"
  by (simp add: world_after_def funpow_swap1)

lemma nvm_cq_dequeue_none: "nvm_cq_poll q m = NULL \<Longrightarrow> nvm_cq_dequeue q m = (NULL, q)"
  by (simp add: nvm_cq_dequeue_def)

lemma fst_nvm_cq_dequeue: "fst (nvm_cq_dequeue q m) = nvm_cq_poll q m"
  by (simp add: nvm_cq_dequeue_def Let_def)

text \<open>Sleeps the loop can make: one per started millisecond of its budget.\<close>

definition n_sleeps :: "u64 \<Rightarrow> nat" where
  "n_sleeps nsecs = (unat nsecs + 999999) div 1000000"

lemma n_sleeps_delay:
  assumes "nsecs \<noteq> 0"
  shows "n_sleeps nsecs = Suc (n_sleeps (fst (nvm_delay_remain dev nsecs w)))"
proof -
  have pos: "0 < unat nsecs" using assms by (simp add: unat_gt_0)
  show ?thesis
  proof (cases "unat nsecs \<le> 1000000")
    case True
    with pos have "(unat nsecs + 999999) div 1000000 = 1" by (intro div_nat_eqI) auto
    then show ?thesis using True by (simp add: n_sleeps_def unat_nvm_delay_remain)
  next
    case False
    then have "unat nsecs + 999999 = (unat nsecs - 1000000 + 999999) + 1000000" by simp
    then show ?thesis
      by (simp only: n_sleeps_def unat_nvm_delay_remain)
  qed
qed

lemma delay_step: "nsecs \<noteq> 0 \<Longrightarrow> snd (nvm_delay_remain dev nsecs w) = dev_step dev w"
  by (simp add: nvm_delay_remain_def)

lemma dequeue_block_loop_timeout:
  "n_sleeps nsecs = t \<Longrightarrow> (\<And>j. 0 < j \<Longrightarrow> j \<le> t \<Longrightarrow> nvm_cq_poll q (w_mem (world_after dev j w)) = NULL) \<Longrightarrow>
   nvm_cq_dequeue_block_loop dev q NULL nsecs w = (NULL, q, world_after dev t w)"
proof (induction t arbitrary: nsecs w)
  case 0
  then have "nsecs = 0" using n_sleeps_delay [of nsecs dev w] by fastforce
  then show ?case by (simp add: nvm_cq_dequeue_block_loop.simps)
next
  case (Suc t)
  then have nz: "nsecs \<noteq> 0" by (auto simp: n_sleeps_def)
  let ?d = "nvm_delay_remain dev nsecs w"
  have "nvm_cq_poll q (w_mem (dev_step dev w)) = NULL"
    using Suc.prems(2) [of 1] by (simp add: world_after_Suc)
  then have step: "nvm_cq_dequeue_block_loop dev q NULL nsecs w =
      nvm_cq_dequeue_block_loop dev q NULL (fst ?d) (dev_step dev w)"
    using nz by (subst nvm_cq_dequeue_block_loop.simps)
      (simp add: Let_def delay_step nvm_cq_dequeue_none word_gt_0)
  have "n_sleeps (fst ?d) = t" using Suc.prems(1) n_sleeps_delay [OF nz, of dev w] by simp
  moreover have "nvm_cq_poll q (w_mem (world_after dev j (dev_step dev w))) = NULL" if "0 < j" "j \<le> t" for j
    using Suc.prems(2) [of "Suc j"] that by (simp add: world_after_Suc)
  ultimately show ?case using Suc.IH [of "fst ?d" "dev_step dev w"] step by (simp add: world_after_Suc)
qed

lemma dequeue_block_loop_ready:
  "n_sleeps nsecs = t \<Longrightarrow> 0 < j \<Longrightarrow> j \<le> t \<Longrightarrow>
   (\<And>i. 0 < i \<Longrightarrow> i < j \<Longrightarrow> nvm_cq_poll q (w_mem (world_after dev i w)) = NULL) \<Longrightarrow>
   nvm_cq_poll q (w_mem (world_after dev j w)) \<noteq> NULL \<Longrightarrow>
   nvm_cq_dequeue_block_loop dev q NULL nsecs w =
     (let r = nvm_cq_dequeue q (w_mem (world_after dev j w)) in (fst r, snd r, world_after dev j w))"
proof (induction t arbitrary: nsecs w j)
  case 0
  then show ?case by simp
next
  case (Suc t)
  then have nz: "nsecs \<noteq> 0" by (auto simp: n_sleeps_def)
  let ?d = "nvm_delay_remain dev nsecs w"
  have step: "nvm_cq_dequeue_block_loop dev q NULL nsecs w =
      (let r = nvm_cq_dequeue q (w_mem (dev_step dev w)) in
       nvm_cq_dequeue_block_loop dev (snd r) (fst r) (fst ?d) (dev_step dev w))"
    using nz by (subst nvm_cq_dequeue_block_loop.simps) (simp add: Let_def delay_step word_gt_0)
  show ?case
  proof (cases "j = 1")
    case True
    with Suc.prems(5) have "nvm_cq_poll q (w_mem (dev_step dev w)) \<noteq> NULL"
      by (simp add: world_after_Suc)
    then show ?thesis using True step
      by (simp add: Let_def world_after_Suc fst_nvm_cq_dequeue nvm_cq_dequeue_block_loop.simps)
  next
    case False
    then obtain j' where j': "j = Suc j'" "0 < j'" using Suc.prems(2) by (cases j) auto
    have "nvm_cq_poll q (w_mem (dev_step dev w)) = NULL"
      using Suc.prems(4) [of 1] j' by (simp add: world_after_Suc)
    then have s: "nvm_cq_dequeue_block_loop dev q NULL nsecs w =
        nvm_cq_dequeue_block_loop dev q NULL (fst ?d) (dev_step dev w)"
      using step by (simp add: nvm_cq_dequeue_none)
    have "n_sleeps (fst ?d) = t" using Suc.prems(1) n_sleeps_delay [OF nz, of dev w] by simp
    moreover have "nvm_cq_poll q (w_mem (world_after dev i (dev_step dev w))) = NULL"
      if "0 < i" "i < j'" for i
      using Suc.prems(4) [of "Suc i"] that j' by (simp add: world_after_Suc)
    ultimately show ?thesis
      using Suc.IH [of "fst ?d" j' "dev_step dev w"] j' Suc.prems(3,5) s by (simp add: world_after_Suc)
  qed
qed

lemma n_sleeps_timeout: "unat timeout * 1000000 < 2 ^ 64 \<Longrightarrow> n_sleeps (timeout * 1000000) = unat timeout"
proof -
  assume "unat timeout * 1000000 < 2 ^ 64"
  then have "unat (timeout * 1000000) = unat timeout * 1000000" by (simp add: unat_word_ariths)
  then show ?thesis by (simp add: n_sleeps_def)
qed

section \<open>Properties\<close>

text \<open>
  C2: from a cleared completion queue over zeroed memory, and for every interleaving of a controller
  that tags its entries by pass and leaves the ring one entry short of full with a host that calls
  \<open>nvm_cq_dequeue\<close>, the host has received a prefix of what was posted, in order and without
  repetition, and it is told that nothing is there exactly when it has received everything.
\<close>

theorem cq_exactly_once_in_order:
  assumes "cq_initial s0" "cq_reach s0 s"
  shows "(\<exists>rest. cs_posted s = cs_received s @ rest)
    \<and> (fst (nvm_cq_dequeue (cs_queue s) (cs_mem s)) = NULL \<longleftrightarrow> cs_received s = cs_posted s)"
proof -
  have inv: "cq_inv s" by (rule cq_reach_inv [OF assms(2,1)])
  let ?r = "length (cs_received s)" and ?k = "length (cs_posted s) - length (cs_received s)"
  have ok: "cq_ok (cs_queue s)" and le: "?r \<le> length (cs_posted s)"
    and pre: "cs_received s = take ?r (cs_posted s)"
    and syn: "cq_synced ?r ?k (cs_queue s) (cs_mem s)"
    using inv by (auto simp: cq_inv_def Let_def)
  have split: "cs_posted s = cs_received s @ drop ?r (cs_posted s)"
    using pre by (metis append_take_drop_id)
  have "cq_slot (cs_queue s) (unat (q_head (cs_queue s))) \<noteq> NULL"
    using ok by (intro cq_slot_nonnull) (auto simp: cq_ok_def queue_wf_def)
  then have none: "fst (nvm_cq_dequeue (cs_queue s) (cs_mem s)) = NULL \<longleftrightarrow> ?k = 0"
    using cq_synced_ready [OF ok syn] by (simp add: nvm_cq_dequeue_eq [OF ok])
  have all: "?k = 0 \<longleftrightarrow> cs_received s = cs_posted s" using split le
    by (metis append_Nil2 diff_is_0_eq diff_self_eq_0 drop_all)
  have "\<exists>rest. cs_posted s = cs_received s @ rest" using split by (rule exI)
  then show ?thesis unfolding none all by blast
qed

definition demo_cq :: nvm_queue where
  "demo_cq = nvm_queue_clear demo_ctrl True 1 0x30000 0xa0000"

lemma demo_cq_fields:
  "demo_cq = \<lparr>q_no = 1, q_max_entries = 4, q_entry_size = 16, q_head = 0, q_tail = 0, q_phase = 1,
     q_last = 0, q_db = 0x1100c, q_vaddr = 0x30000, q_ioaddr = 0xa0000\<rparr>"
  by (simp add: demo_cq_def demo_ctrl_def nvm_queue_clear_def Let_def sizeof_cpl_def CQ_DBL_def)

definition demo_cq_sys :: cq_sys where
  "demo_cq_sys = \<lparr>cs_queue = demo_cq, cs_mem = \<lambda>_. 0, cs_posted = [], cs_received = []\<rparr>"

lemma demo_cq_initial: "cq_initial demo_cq_sys"
  by (simp add: cq_initial_def demo_cq_sys_def demo_cq_fields cq_ok_def queue_wf_def queue_mapped_def
      cq_tag_def load16_def)

lemma demo_cq_reach:
  "cq_reach demo_cq_sys (demo_cq_sys\<lparr>cs_mem := store_dwords (cq_slot demo_cq 0) [0, 0, 0, 0x10007] (\<lambda>_. 0),
     cs_posted := [[0, 0, 0, 0x10007]]\<rparr>)"
  using cq_next [OF cq_start controller_posts [of "[0, 0, 0, 0x10007]" demo_cq_sys]]
  by (simp add: demo_cq_sys_def demo_cq_fields cpl_status_def dev_tag_def)

theorem cq_exactly_once_in_order_witness:
  "\<exists>s. cq_reach demo_cq_sys s \<and> cs_posted s = [[0, 0, 0, 0x10007]]
     \<and> fst (nvm_cq_dequeue (cs_queue s) (cs_mem s)) \<noteq> NULL"
  using demo_cq_reach cq_exactly_once_in_order [OF demo_cq_initial demo_cq_reach]
  by (intro exI [of _ "demo_cq_sys\<lparr>cs_mem := store_dwords (cq_slot demo_cq 0) [0, 0, 0, 0x10007] (\<lambda>_. 0),
     cs_posted := [[0, 0, 0, 0x10007]]\<rparr>"]) (simp add: demo_cq_sys_def)

text \<open>
  \<open>nvm_cq_dequeue_block\<close> always returns.  If no completion shows up at the call or after any of
  \<open>timeout\<close> one-millisecond sleeps, it returns NULL after exactly that many sleeps and leaves the
  queue as it was; if the first one shows up after \<open>j\<close> sleeps, \<open>j\<close> within the timeout, it returns what
  \<open>nvm_cq_dequeue\<close> returns at that moment and does not sleep any longer.
\<close>

theorem cq_dequeue_block_waits:
  assumes "unat timeout * 1000000 < 2 ^ 64"
  shows "((\<forall>j \<le> unat timeout. nvm_cq_poll q (w_mem (world_after dev j w)) = NULL) \<longrightarrow>
      nvm_cq_dequeue_block dev q timeout w = (NULL, q, world_after dev (unat timeout) w))
    \<and> (\<forall>j \<le> unat timeout. (\<forall>i < j. nvm_cq_poll q (w_mem (world_after dev i w)) = NULL) \<and>
        nvm_cq_poll q (w_mem (world_after dev j w)) \<noteq> NULL \<longrightarrow>
      nvm_cq_dequeue_block dev q timeout w =
        (let r = nvm_cq_dequeue q (w_mem (world_after dev j w)) in (fst r, snd r, world_after dev j w)))"
proof (intro conjI impI allI)
  note n = n_sleeps_timeout [OF assms]
  assume none: "\<forall>j \<le> unat timeout. nvm_cq_poll q (w_mem (world_after dev j w)) = NULL"
  have "nvm_cq_dequeue q (w_mem w) = (NULL, q)"
    using none [rule_format, of 0] by (simp add: nvm_cq_dequeue_none)
  then show "nvm_cq_dequeue_block dev q timeout w = (NULL, q, world_after dev (unat timeout) w)"
    using dequeue_block_loop_timeout [OF n] none by (simp add: nvm_cq_dequeue_block_def Let_def)
next
  note n = n_sleeps_timeout [OF assms]
  fix j assume j: "j \<le> unat timeout"
    and a: "(\<forall>i < j. nvm_cq_poll q (w_mem (world_after dev i w)) = NULL) \<and>
        nvm_cq_poll q (w_mem (world_after dev j w)) \<noteq> NULL"
  show "nvm_cq_dequeue_block dev q timeout w =
        (let r = nvm_cq_dequeue q (w_mem (world_after dev j w)) in (fst r, snd r, world_after dev j w))"
  proof (cases "j = 0")
    case True
    with a show ?thesis
      by (simp add: nvm_cq_dequeue_block_def Let_def fst_nvm_cq_dequeue nvm_cq_dequeue_block_loop.simps)
  next
    case False
    with a have "nvm_cq_poll q (w_mem (world_after dev 0 w)) = NULL" by blast
    then have "nvm_cq_dequeue q (w_mem w) = (NULL, q)" by (simp add: nvm_cq_dequeue_none)
    then show ?thesis
      using dequeue_block_loop_ready [OF n, of j q dev w] a j False
      by (simp add: nvm_cq_dequeue_block_def Let_def)
  qed
qed

definition idle_world :: world where "idle_world = \<lparr>w_mem = \<lambda>_. 0, w_tick = 0, w_log = []\<rparr>"

lemma world_after_idle: "w_mem (world_after (\<lambda>k m. m) j w) = w_mem w"
  by (induction j arbitrary: w) (simp_all add: world_after_Suc)

theorem cq_dequeue_block_waits_witness:
  "nvm_cq_dequeue_block (\<lambda>k m. m) demo_cq 2 idle_world =
     (NULL, demo_cq, world_after (\<lambda>k m. m) 2 idle_world)"
proof -
  have "nvm_cq_poll demo_cq (w_mem (world_after (\<lambda>k m. m) j idle_world)) = NULL" for j
    by (simp add: world_after_idle idle_world_def nvm_cq_poll_def Let_def load16_def RB_def demo_cq_fields)
  then show ?thesis
    using conjunct1 [OF cq_dequeue_block_waits [of 2 demo_cq "\<lambda>k m. m" idle_world]] by simp
qed

definition same_ring :: "nvm_queue \<Rightarrow> nvm_queue \<Rightarrow> bool" where
  "same_ring q q' \<longleftrightarrow> queue_wf q' \<and> q_max_entries q' = q_max_entries q \<and> q_vaddr q' = q_vaddr q
     \<and> q_entry_size q' = q_entry_size q \<and> q_db q' = q_db q \<and> q_no q' = q_no q"

lemma same_ring_trans: "same_ring q q' \<Longrightarrow> same_ring q' q'' \<Longrightarrow> same_ring q q''"
  by (simp add: same_ring_def)

lemma same_ring_wf: "same_ring q q' \<Longrightarrow> queue_wf q'"
  by (simp add: same_ring_def)

lemma same_ring_enqueue:
  assumes "queue_wf q" "nvm_sq_enqueue q m = Some (p, q', m')"
  shows "same_ring q q'"
proof -
  have t: "unat (q_tail q) < q_n q" using assms(1) by (simp add: queue_wf_def)
  have "q' = q \<or> q' = sq_bump q"
    using assms(1,2) q_next [OF t] by (auto simp: nvm_sq_enqueue_def sq_bump_def Let_def queue_wf_def split: if_splits)
  then show ?thesis using assms(1) sq_bump_wf [of q] by (auto simp: same_ring_def sq_bump_def)
qed

lemma same_ring_dequeue:
  assumes "queue_wf q" shows "same_ring q (snd (nvm_cq_dequeue q m))"
proof -
  have h: "unat (q_head q) < q_n q" using assms by (simp add: queue_wf_def)
  have "snd (nvm_cq_dequeue q m) = q \<or> snd (nvm_cq_dequeue q m) = cq_bump q"
    using assms q_next [OF h] by (auto simp: nvm_cq_dequeue_def cq_bump_def Let_def queue_wf_def)
  moreover have "queue_wf (cq_bump q)"
    using assms unat_cq_bump_head [OF assms] by (auto simp: queue_wf_def cq_bump_def)
  ultimately show ?thesis using assms by (auto simp: same_ring_def cq_bump_def)
qed

lemma same_ring_block_loop:
  "queue_wf q \<Longrightarrow> same_ring q (fst (snd (nvm_cq_dequeue_block_loop dev q p nsecs w)))"
proof (induction dev q p nsecs w rule: nvm_cq_dequeue_block_loop.induct)
  case (1 dev q p nsecs w)
  show ?case
  proof (cases "p = NULL \<and> nsecs > 0")
    case True
    let ?d = "nvm_delay_remain dev nsecs w" and ?r = "nvm_cq_dequeue q (w_mem (snd (nvm_delay_remain dev nsecs w)))"
    have s: "same_ring q (snd ?r)" by (rule same_ring_dequeue [OF "1.prems"])
    from "1.IH" [OF True refl refl same_ring_wf [OF s]] s show ?thesis
      using True by (subst nvm_cq_dequeue_block_loop.simps) (auto simp: Let_def intro: same_ring_trans)
  next
    case False
    with "1.prems" show ?thesis
      by (subst nvm_cq_dequeue_block_loop.simps) (auto simp: same_ring_def)
  qed
qed

text \<open>
  every queue operation keeps a well-formed ring well-formed: head and tail stay below the ring
  size and the phase stays a bit; queue memory, ring size, entry size and doorbell are never changed.
\<close>

theorem queue_operations_keep_ring:
  assumes "queue_wf q"
  shows "(\<forall>m p q' m'. nvm_sq_enqueue q m = Some (p, q', m') \<longrightarrow> same_ring q q')
    \<and> same_ring q (snd (nvm_cq_dequeue q m))
    \<and> same_ring q (fst (snd (nvm_cq_dequeue_block dev q timeout w)))
    \<and> same_ring q (nvm_sq_update q)
    \<and> same_ring q (fst (nvm_sq_submit dev q w))
    \<and> same_ring q (fst (nvm_cq_update dev q w))"
proof -
  have "same_ring q (fst (snd (nvm_cq_dequeue_block dev q timeout w)))"
    using same_ring_dequeue [OF assms, of "w_mem w"]
      same_ring_block_loop [of "snd (nvm_cq_dequeue q (w_mem w))" dev "fst (nvm_cq_dequeue q (w_mem w))"]
    by (auto simp: nvm_cq_dequeue_block_def Let_def intro: same_ring_trans same_ring_wf)
  moreover have "same_ring q (nvm_sq_update q)"
    using nvm_sq_update_wf [OF assms] by (simp add: same_ring_def) (simp add: nvm_sq_update_def Let_def)
  moreover have "same_ring q (fst (nvm_sq_submit dev q w))" "same_ring q (fst (nvm_cq_update dev q w))"
    using assms by (simp_all add: same_ring_def nvm_sq_submit_def nvm_cq_update_def queue_wf_def)
  ultimately show ?thesis using same_ring_enqueue [OF assms] same_ring_dequeue [OF assms] by blast
qed

lemma demo_sq_wf: "queue_wf demo_sq"
  using demo_sq_ok by (simp add: sq_ok_def)

theorem queue_operations_keep_ring_witness:
  "queue_wf demo_sq \<and> same_ring demo_sq (nvm_sq_update demo_sq)"
  using queue_operations_keep_ring [OF demo_sq_wf] demo_sq_wf by blast

text \<open>
  \<open>nvm_sq_submit\<close> writes the tail, and \<open>nvm_cq_update\<close> the head, to the doorbell exactly when it
  moved since the last write, so that a repeated call writes nothing.
\<close>

theorem doorbell_written_once:
  "w_log (snd (nvm_sq_submit dev q w)) =
     w_log w @ (if q_last q = q_tail q then [] else [(q_db q, ucast (q_tail q))])
   \<and> w_log (snd (nvm_cq_update dev q w)) =
     w_log w @ (if q_last q = q_head q then [] else [(q_db q, ucast (q_head q))])
   \<and> nvm_sq_submit dev (fst (nvm_sq_submit dev q w)) w' = (fst (nvm_sq_submit dev q w), w')
   \<and> nvm_cq_update dev (fst (nvm_cq_update dev q w)) w' = (fst (nvm_cq_update dev q w), w')"
  by (simp add: nvm_sq_submit_def nvm_cq_update_def reg_write32_def)

end
