(* ===== verification/Dis_Device.thy ===== *)
theory Dis_Device
  imports Resources
begin

text \<open>
  Borrowed SmartIO devices and connected device memory: \<open>src/dis/device.c\<close> and \<open>device.h\<close>.  A struct
  the C functions fill in is a result here, so the guards on a NULL struct pointer do not arise; a
  field the code has not set is 0.
\<close>

record sci_dev =
  v_sd :: nat
  v_device_id :: u64
  v_device :: nat

record device_memory =
  dm_device :: sci_dev
  dm_adapter :: u32
  dm_segment_no :: u32
  dm_segment :: nat
  dm_flags :: "sci_flag list"

definition nvm_device_get :: "u64 \<Rightarrow> os \<Rightarrow> int \<times> sci_dev \<times> os" where
  "nvm_device_get dev_id s =
     (let dev = \<lparr>v_sd = 0, v_device_id = dev_id, v_device = 0\<rparr> in
      case sci_acquire Sci_desc s of (err, sd, s) \<Rightarrow>
        if err \<noteq> SCI_ERR_OK then (EIO, dev, s)
        else
          let dev = dev\<lparr>v_sd := sd\<rparr> in
          case sci_acquire Sci_device s of (err, d, s) \<Rightarrow>
            if err \<noteq> SCI_ERR_OK then (ENODEV, dev, release Sci_desc sd s)
            else (0, dev\<lparr>v_device := d\<rparr>, s))"

definition nvm_device_put :: "sci_dev \<Rightarrow> os \<Rightarrow> os" where
  "nvm_device_put dev s = release Sci_desc (v_sd dev) (release Sci_device (v_device dev) s)"

definition nvm_device_memory_get ::
  "sci_dev \<Rightarrow> u32 \<Rightarrow> u32 \<Rightarrow> sci_flag list \<Rightarrow> os \<Rightarrow> int \<times> device_memory \<times> os" where
  "nvm_device_memory_get dev adapter segment_no flags s =
     (case nvm_device_get (v_device_id dev) s of (status, d, s) \<Rightarrow>
        let mem = \<lparr>dm_device = d, dm_adapter = 0, dm_segment_no = 0, dm_segment = 0, dm_flags = []\<rparr> in
        if status \<noteq> 0 then (status, mem, s)
        else
          let mem = mem\<lparr>dm_adapter := adapter, dm_segment_no := segment_no, dm_flags := flags\<rparr> in
          case sci_acquire Sci_remote_segment s of (err, seg, s) \<Rightarrow>
            if err \<noteq> SCI_ERR_OK then (ENODEV, mem, nvm_device_put (dm_device mem) s)
            else (0, mem\<lparr>dm_segment := seg\<rparr>, s))"

definition nvm_device_memory_put :: "device_memory \<Rightarrow> os \<Rightarrow> os option" where
  "nvm_device_memory_put mem s =
     do { s \<leftarrow> sci_release Sci_remote_segment (dm_segment mem) s;
          Some (nvm_device_put (dm_device mem) s) }"

section \<open>What a handle owns\<close>

definition dev_owned :: "sci_dev \<Rightarrow> res multiset" where
  "dev_owned dev = {#(Sci_device, v_device dev), (Sci_desc, v_sd dev)#}"

definition dmem_owned :: "device_memory \<Rightarrow> res multiset" where
  "dmem_owned mem = dev_owned (dm_device mem) + {#(Sci_remote_segment, dm_segment mem)#}"

lemma nvm_device_put_gains:
  "dev_owned dev \<subseteq># os_live s \<Longrightarrow> gains (nvm_device_put dev s) s (dev_owned dev)"
proof -
  assume sub: "dev_owned dev \<subseteq># os_live s"
  have g1: "gains (release Sci_device (v_device dev) s) s {#(Sci_device, v_device dev)#}"
    using sub by (intro release_gains) (auto simp: dev_owned_def insert_subset_eq_iff)
  have "{#(Sci_desc, v_sd dev)#} \<subseteq># os_live (release Sci_device (v_device dev) s)"
    using g1 sub by (simp add: gains_def dev_owned_def)
  from gains_trans [OF release_gains [OF this] g1] show ?thesis
    by (simp add: nvm_device_put_def dev_owned_def add_mset_commute)
qed

lemma device_put_undo: "gains s s' (r + dev_owned d) \<Longrightarrow> gains s (nvm_device_put d s') r"
  by (rule gains_undo_rest, assumption, rule nvm_device_put_gains) (simp add: gains_def)

interpretation device: paired "nvm_device_get dev_id" "\<lambda>d s. Some (nvm_device_put d s)" dev_owned for dev_id
proof
  fix s s' h and e :: int
  show "nvm_device_get dev_id s = (0, h, s') \<Longrightarrow> gains s s' (dev_owned h)"
    by (auto simp: nvm_device_get_def dev_owned_def Let_def add_mset_commute
        split: prod.splits if_splits dest!: sci_acquire_ok dest: gains_trans)
  show "nvm_device_get dev_id s = (e, h, s') \<Longrightarrow> e \<noteq> 0 \<Longrightarrow> gains s s' {#}"
    by (auto simp: nvm_device_get_def Let_def split: prod.splits if_splits
        dest!: sci_acquire_ok sci_acquire_err simp: gains_def release_def)
  show "sci_releases s \<Longrightarrow> dev_owned h \<subseteq># os_live s \<Longrightarrow>
      \<exists>s'. Some (nvm_device_put h s) = Some s' \<and> gains s' s (dev_owned h)"
    using nvm_device_put_gains by simp
qed

lemma nvm_device_memory_get_ok:
  assumes "nvm_device_memory_get dev adapter segno flags s = (0, h, s')"
  shows "gains s s' (dmem_owned h)"
proof -
  obtain st d s1 where g: "nvm_device_get (v_device_id dev) s = (st, d, s1)" by (metis prod_cases3)
  obtain e seg s2 where c: "sci_acquire Sci_remote_segment s1 = (e, seg, s2)" by (metis prod_cases3)
  have st: "st = 0" and e: "e = SCI_ERR_OK" and h: "dm_device h = d" "dm_segment h = seg" "s' = s2"
    using assms g c by (auto simp: nvm_device_memory_get_def Let_def split: if_splits)
  show ?thesis
    using gains_trans [OF device.get_ok sci_acquire_ok] g c st e h by (simp add: dmem_owned_def)
qed

lemma nvm_device_memory_get_err:
  assumes "nvm_device_memory_get dev adapter segno flags s = (r, h, s')" "r \<noteq> 0"
  shows "gains s s' {#}"
proof -
  obtain st d s1 where g: "nvm_device_get (v_device_id dev) s = (st, d, s1)" by (metis prod_cases3)
  obtain e seg s2 where c: "sci_acquire Sci_remote_segment s1 = (e, seg, s2)" by (metis prod_cases3)
  show ?thesis
  proof (cases "st = 0")
    case False
    then show ?thesis using assms g device.get_err [OF g]
      by (auto simp: nvm_device_memory_get_def Let_def split: if_splits)
  next
    case True
    with assms g c have e: "e \<noteq> SCI_ERR_OK" "s' = nvm_device_put d s2"
      by (auto simp: nvm_device_memory_get_def Let_def split: if_splits)
    have gd: "gains s s2 ({#} + dev_owned d)"
      using gains_trans [OF device.get_ok sci_acquire_err] g c e(1) True by fastforce
    then have "gains (nvm_device_put d s2) s2 (dev_owned d)"
      by (intro nvm_device_put_gains) (simp add: gains_def)
    from gains_undo_rest [OF gd this] e(2) show ?thesis by simp
  qed
qed

lemma nvm_device_memory_put_gains:
  assumes "sci_releases s" "dmem_owned h \<subseteq># os_live s"
  shows "\<exists>s'. nvm_device_memory_put h s = Some s' \<and> gains s' s (dmem_owned h)"
proof -
  have "{#(Sci_remote_segment, dm_segment h)#} \<subseteq># os_live s"
    using assms(2) by (auto simp: dmem_owned_def insert_subset_eq_iff)
  with assms(1) obtain s1 where s1: "sci_release Sci_remote_segment (dm_segment h) s = Some s1"
    "gains s1 s {#(Sci_remote_segment, dm_segment h)#}" by (rule sci_release_gains)
  have "dev_owned (dm_device h) \<subseteq># os_live s1" using assms(2) s1(2) by (simp add: dmem_owned_def gains_def)
  from gains_trans [OF nvm_device_put_gains [OF this] s1(2)] s1(1) show ?thesis
    by (simp add: nvm_device_memory_put_def dmem_owned_def)
qed

interpretation dmem: paired "nvm_device_memory_get dev adapter segno flags" nvm_device_memory_put dmem_owned
  for dev adapter segno flags
  by unfold_locales
     (auto intro: nvm_device_memory_get_ok nvm_device_memory_get_err nvm_device_memory_put_gains)

end
