(* ===== verification/Dis_Map.thy ===== *)
theory Dis_Map
  imports Dis_Device
begin

text \<open>
  Mapping segments into the address space of the process and of the device: \<open>src/dis/map.c\<close> and
  \<open>map.h\<close>.  The addresses SISCI hands out are those of the environment.  A segment mapped for a
  device is unmapped by naming the segment again, so the segment is the key of the ledger entry.
\<close>

datatype va_map_type = VA_MAP_NOT_MAPPED | VA_MAP_MAPPED_LOCAL | VA_MAP_MAPPED_REMOTE

record va_map =
  va_type :: va_map_type
  va_md :: nat
  va_vaddr :: u64

definition VA_MAP_CLEAR :: "va_map \<Rightarrow> va_map" where
  "VA_MAP_CLEAR p = p\<lparr>va_type := VA_MAP_NOT_MAPPED, va_vaddr := NULL\<rparr>"

definition VA_MAP_INIT :: va_map where
  "VA_MAP_INIT = \<lparr>va_type = VA_MAP_NOT_MAPPED, va_md = 0, va_vaddr = NULL\<rparr>"

datatype io_map_type = IO_MAP_NOT_MAPPED | IO_MAP_MAPPED_REMOTE | IO_MAP_MAPPED_LOCAL

record io_map =
  io_type :: io_map_type
  io_lsegment :: nat
  io_rsegment :: nat
  io_device :: nat
  io_adapter :: u32
  io_ioaddr :: u64

definition IO_MAP_CLEAR :: "io_map \<Rightarrow> io_map" where
  "IO_MAP_CLEAR p = p\<lparr>io_type := IO_MAP_NOT_MAPPED, io_ioaddr := 0\<rparr>"

definition IO_MAP_INIT :: io_map where
  "IO_MAP_INIT = \<lparr>io_type = IO_MAP_NOT_MAPPED, io_lsegment = 0, io_rsegment = 0, io_device = 0,
     io_adapter = 0, io_ioaddr = 0\<rparr>"

section \<open>Virtual address space\<close>

definition nvm_va_map_local :: "u64 \<Rightarrow> nat \<Rightarrow> os \<Rightarrow> int \<times> va_map \<times> os" where
  "nvm_va_map_local sz segment s =
     (case sci_acquire Sci_map s of (err, md, s) \<Rightarrow>
        let m = \<lparr>va_type = VA_MAP_NOT_MAPPED, va_md = md, va_vaddr = os_addr s md\<rparr> in
        case err of
          SCI_ERR_OK \<Rightarrow> (0, m\<lparr>va_type := VA_MAP_MAPPED_LOCAL\<rparr>, s)
        | SCI_ERR_OUT_OF_RANGE \<Rightarrow> (EINVAL, m, s)
        | SCI_ERR_SIZE_ALIGNMENT \<Rightarrow> (EINVAL, m, s)
        | SCI_ERR_OFFSET_ALIGNMENT \<Rightarrow> (EINVAL, m, s)
        | _ \<Rightarrow> (EIO, m, s))"

text \<open>The flags the two booleans select only reach SISCI.\<close>

definition nvm_va_map_remote :: "u64 \<Rightarrow> nat \<Rightarrow> bool \<Rightarrow> bool \<Rightarrow> os \<Rightarrow> int \<times> va_map \<times> os" where
  "nvm_va_map_remote sz segment wr wc s =
     (case sci_acquire Sci_map s of (err, md, s) \<Rightarrow>
        let m = \<lparr>va_type = VA_MAP_NOT_MAPPED, va_md = md, va_vaddr = os_addr s md\<rparr> in
        case err of
          SCI_ERR_OK \<Rightarrow> (0, m\<lparr>va_type := VA_MAP_MAPPED_REMOTE\<rparr>, s)
        | SCI_ERR_OUT_OF_RANGE \<Rightarrow> (EINVAL, m, s)
        | SCI_ERR_SIZE_ALIGNMENT \<Rightarrow> (EINVAL, m, s)
        | SCI_ERR_OFFSET_ALIGNMENT \<Rightarrow> (EINVAL, m, s)
        | SCI_ERR_NOT_CONNECTED \<Rightarrow> (ENOTCONN, m, s)
        | _ \<Rightarrow> (EIO, m, s))"

definition nvm_va_unmap :: "va_map \<Rightarrow> os \<Rightarrow> (va_map \<times> os) option" where
  "nvm_va_unmap m s =
     do { s \<leftarrow> (case va_type m of
                  VA_MAP_MAPPED_LOCAL \<Rightarrow> sci_release Sci_map (va_md m) s
                | VA_MAP_MAPPED_REMOTE \<Rightarrow> sci_release Sci_map (va_md m) s
                | VA_MAP_NOT_MAPPED \<Rightarrow> Some s);
          Some (m\<lparr>va_type := VA_MAP_NOT_MAPPED\<rparr>, s) }"

section \<open>Device address space\<close>

definition nvm_io_map_local :: "nat \<Rightarrow> nat \<Rightarrow> u32 \<Rightarrow> os \<Rightarrow> int \<times> io_map \<times> os" where
  "nvm_io_map_local device segment adapter s =
     (let m = \<lparr>io_type = IO_MAP_NOT_MAPPED, io_lsegment = segment, io_rsegment = 0, io_device = device,
               io_adapter = adapter, io_ioaddr = 0\<rparr> in
      case sci_call s of (err, s) \<Rightarrow>
        (case err of
           SCI_ERR_OK \<Rightarrow>
             (let ioaddr = os_addr s (os_calls s) in
              case sci_acquire_at Sci_io_local segment s of (err, s) \<Rightarrow>
                if err \<noteq> SCI_ERR_OK then (EIO, m, s)
                else (0, m\<lparr>io_ioaddr := ioaddr, io_type := IO_MAP_MAPPED_LOCAL\<rparr>, s))
         | SCI_ERR_ILLEGAL_OPERATION \<Rightarrow> (EINVAL, m, s)
         | SCI_ERR_SEGMENT_NOT_PREPARED \<Rightarrow> (EINVAL, m, s)
         | _ \<Rightarrow> (EIO, m, s)))"

definition nvm_io_map_remote :: "nat \<Rightarrow> nat \<Rightarrow> os \<Rightarrow> int \<times> io_map \<times> os" where
  "nvm_io_map_remote device segment s =
     (let m = \<lparr>io_type = IO_MAP_NOT_MAPPED, io_lsegment = 0, io_rsegment = segment, io_device = device,
               io_adapter = 0, io_ioaddr = 0\<rparr>;
          ioaddr = os_addr s (os_calls s) in
      case sci_acquire_at Sci_io_remote segment s of (err, s) \<Rightarrow>
        if err \<noteq> SCI_ERR_OK then (EIO, m, s)
        else (0, m\<lparr>io_ioaddr := ioaddr, io_type := IO_MAP_MAPPED_REMOTE\<rparr>, s))"

definition nvm_io_unmap :: "io_map \<Rightarrow> os \<Rightarrow> (io_map \<times> os) option" where
  "nvm_io_unmap m s =
     do { s \<leftarrow> (case io_type m of
                  IO_MAP_NOT_MAPPED \<Rightarrow> Some s
                | IO_MAP_MAPPED_LOCAL \<Rightarrow> sci_release Sci_io_local (io_lsegment m) s
                | IO_MAP_MAPPED_REMOTE \<Rightarrow> sci_release Sci_io_remote (io_rsegment m) s);
          Some (m\<lparr>io_type := IO_MAP_NOT_MAPPED\<rparr>, s) }"

definition nvm_io_map_device_memory :: "device_memory \<Rightarrow> os \<Rightarrow> int \<times> io_map \<times> os" where
  "nvm_io_map_device_memory mem s = nvm_io_map_remote (v_device (dm_device mem)) (dm_segment mem) s"

text \<open>The local segment is given by its SISCI handle; preparing it comes first.\<close>

definition nvm_io_map_local_memory :: "io_map \<Rightarrow> sci_dev \<Rightarrow> nat \<Rightarrow> u32 \<Rightarrow> os \<Rightarrow> int \<times> io_map \<times> os" where
  "nvm_io_map_local_memory m dev segment adapter s =
     (case sci_call s of (err, s) \<Rightarrow>
        if err \<noteq> SCI_ERR_OK then (ENOSPC, m, s)
        else nvm_io_map_local (v_device dev) segment adapter s)"

section \<open>What a mapping owns\<close>

definition va_owned :: "va_map \<Rightarrow> res multiset" where
  "va_owned m = (if va_type m = VA_MAP_NOT_MAPPED then {#} else {#(Sci_map, va_md m)#})"

definition io_owned :: "io_map \<Rightarrow> res multiset" where
  "io_owned m = (case io_type m of
       IO_MAP_NOT_MAPPED \<Rightarrow> {#}
     | IO_MAP_MAPPED_LOCAL \<Rightarrow> {#(Sci_io_local, io_lsegment m)#}
     | IO_MAP_MAPPED_REMOTE \<Rightarrow> {#(Sci_io_remote, io_rsegment m)#})"

lemma owned_clear [simp]:
  "va_owned (VA_MAP_CLEAR p) = {#}" "io_owned (IO_MAP_CLEAR p') = {#}" "va_owned VA_MAP_INIT = {#}"
  "io_owned IO_MAP_INIT = {#}"
  by (simp_all add: va_owned_def io_owned_def VA_MAP_CLEAR_def IO_MAP_CLEAR_def VA_MAP_INIT_def IO_MAP_INIT_def)

text \<open>
  Mapping gains what the descriptor says it holds, on success and on failure alike: after a failure
  the descriptor says that nothing is mapped.
\<close>

lemma nvm_va_map_gains:
  "nvm_va_map_local sz segment s = (e, m, s') \<Longrightarrow> gains s s' (va_owned m) \<and> (e \<noteq> 0 \<longrightarrow> va_owned m = {#})"
  "nvm_va_map_remote sz segment wr wc s = (e, m, s') \<Longrightarrow>
    gains s s' (va_owned m) \<and> (e \<noteq> 0 \<longrightarrow> va_owned m = {#})"
  by (auto simp: nvm_va_map_local_def nvm_va_map_remote_def va_owned_def Let_def
      split: prod.splits sci_error.splits dest: sci_acquire_ok sci_acquire_err)

lemma nvm_io_map_gains:
  "nvm_io_map_local device segment adapter s = (e, i, s') \<Longrightarrow>
    gains s s' (io_owned i) \<and> (e \<noteq> 0 \<longrightarrow> io_owned i = {#})"
  "nvm_io_map_remote device segment s = (e, i, s') \<Longrightarrow>
    gains s s' (io_owned i) \<and> (e \<noteq> 0 \<longrightarrow> io_owned i = {#})"
proof -
  have c: "sci_call s = (x, s1) \<Longrightarrow> gains s s1 {#}" for x s1 by (metis sci_call_gains snd_conv)
  show "nvm_io_map_local device segment adapter s = (e, i, s') \<Longrightarrow>
      gains s s' (io_owned i) \<and> (e \<noteq> 0 \<longrightarrow> io_owned i = {#})"
    by (auto simp: nvm_io_map_local_def io_owned_def Let_def split: prod.splits sci_error.splits if_splits
        dest!: c sci_acquire_at_ok sci_acquire_at_err dest: gains_trans)
  show "nvm_io_map_remote device segment s = (e, i, s') \<Longrightarrow>
      gains s s' (io_owned i) \<and> (e \<noteq> 0 \<longrightarrow> io_owned i = {#})"
    by (auto simp: nvm_io_map_remote_def io_owned_def Let_def split: prod.splits if_splits
        dest: sci_acquire_at_ok sci_acquire_at_err)
qed

lemma nvm_io_map_local_memory_gains:
  "nvm_io_map_local_memory i dev segment adapter s = (e, i', s') \<Longrightarrow> io_owned i = {#} \<Longrightarrow>
    gains s s' (io_owned i') \<and> (e \<noteq> 0 \<longrightarrow> io_owned i' = {#})"
proof -
  assume a: "nvm_io_map_local_memory i dev segment adapter s = (e, i', s')" "io_owned i = {#}"
  obtain x s1 where c: "sci_call s = (x, s1)" by fastforce
  then have "gains s s1 {#}" by (metis sci_call_gains snd_conv)
  then show ?thesis
    using a c gains_trans [of s s1 "{#}" s'] nvm_io_map_gains(1) [of "v_device dev" segment adapter s1 e i' s']
    by (auto simp: nvm_io_map_local_memory_def split: if_splits)
qed

lemma nvm_va_unmap_gains:
  assumes "sci_releases s" "va_owned m \<subseteq># os_live s"
  shows "\<exists>m' s'. nvm_va_unmap m s = Some (m', s') \<and> va_owned m' = {#} \<and> gains s' s (va_owned m)"
proof (cases "va_type m = VA_MAP_NOT_MAPPED")
  case True
  then show ?thesis by (simp add: nvm_va_unmap_def va_owned_def)
next
  case False
  then have "{#(Sci_map, va_md m)#} \<subseteq># os_live s" using assms(2) by (simp add: va_owned_def)
  with assms(1) obtain s' where "sci_release Sci_map (va_md m) s = Some s'" "gains s' s {#(Sci_map, va_md m)#}"
    by (rule sci_release_gains)
  with False show ?thesis by (cases "va_type m") (simp_all add: nvm_va_unmap_def va_owned_def)
qed

lemma nvm_io_unmap_gains:
  assumes "sci_releases s" "io_owned m \<subseteq># os_live s"
  shows "\<exists>m' s'. nvm_io_unmap m s = Some (m', s') \<and> io_owned m' = {#} \<and> gains s' s (io_owned m)"
proof (cases "io_type m")
  case IO_MAP_NOT_MAPPED
  then show ?thesis by (simp add: nvm_io_unmap_def io_owned_def)
next
  case IO_MAP_MAPPED_LOCAL
  with assms(2) have "{#(Sci_io_local, io_lsegment m)#} \<subseteq># os_live s" by (simp add: io_owned_def)
  with assms(1) obtain s' where "sci_release Sci_io_local (io_lsegment m) s = Some s'"
    "gains s' s {#(Sci_io_local, io_lsegment m)#}" by (rule sci_release_gains)
  with IO_MAP_MAPPED_LOCAL show ?thesis by (simp add: nvm_io_unmap_def io_owned_def)
next
  case IO_MAP_MAPPED_REMOTE
  with assms(2) have "{#(Sci_io_remote, io_rsegment m)#} \<subseteq># os_live s" by (simp add: io_owned_def)
  with assms(1) obtain s' where "sci_release Sci_io_remote (io_rsegment m) s = Some s'"
    "gains s' s {#(Sci_io_remote, io_rsegment m)#}" by (rule sci_release_gains)
  with IO_MAP_MAPPED_REMOTE show ?thesis by (simp add: nvm_io_unmap_def io_owned_def)
qed

interpretation va_local: paired "nvm_va_map_local sz segment" "\<lambda>m s. map_option snd (nvm_va_unmap m s)" va_owned
  for sz segment
  using nvm_va_map_gains(1) nvm_va_unmap_gains by unfold_locales (fastforce, metis, fastforce)

interpretation va_remote: paired "nvm_va_map_remote sz segment wr wc" "\<lambda>m s. map_option snd (nvm_va_unmap m s)" va_owned
  for sz segment wr wc
  using nvm_va_map_gains(2) nvm_va_unmap_gains by unfold_locales (fastforce, metis, fastforce)

interpretation io_local: paired "nvm_io_map_local device segment adapter" "\<lambda>m s. map_option snd (nvm_io_unmap m s)" io_owned
  for device segment adapter
  using nvm_io_map_gains(1) nvm_io_unmap_gains by unfold_locales (fastforce, metis, fastforce)

interpretation io_remote: paired "nvm_io_map_remote device segment" "\<lambda>m s. map_option snd (nvm_io_unmap m s)" io_owned
  for device segment
  using nvm_io_map_gains(2) nvm_io_unmap_gains by unfold_locales (fastforce, metis, fastforce)

end
