(* ===== verification/Ctrl.thy ===== *)
theory Ctrl
  imports Completion Dis_Map
begin

unbundle bit_operations_syntax

text \<open>
  Controller handles: \<open>src/ctrl.c\<close> with the register file of \<open>src/regs.h\<close>, for a build with SISCI.
  A handle pointer is the container that holds it.  Reading a register through the address that a
  failed \<open>mmap\<close> returns traps, which is \<open>None\<close>; so does a release loop that never ends.
\<close>

section \<open>Registers\<close>

definition CAP :: "mem \<Rightarrow> u64 \<Rightarrow> u64" where "CAP m p = load64 m p"
definition VER :: "mem \<Rightarrow> u64 \<Rightarrow> u32" where "VER m p = load32 m (p + 0x8)"
definition CC :: "u64 \<Rightarrow> u64" where "CC p = p + 0x14"
definition CSTS :: "mem \<Rightarrow> u64 \<Rightarrow> u32" where "CSTS m p = load32 m (p + 0x1c)"
definition AQA :: "u64 \<Rightarrow> u64" where "AQA p = p + 0x24"
definition ASQ :: "u64 \<Rightarrow> u64" where "ASQ p = p + 0x28"
definition ACQ :: "u64 \<Rightarrow> u64" where "ACQ p = p + 0x30"

definition CAP_MPSMAX :: "mem \<Rightarrow> u64 \<Rightarrow> u64" where "CAP_MPSMAX m p = RB (CAP m p) 55 52"
definition CAP_MPSMIN :: "mem \<Rightarrow> u64 \<Rightarrow> u64" where "CAP_MPSMIN m p = RB (CAP m p) 51 48"
definition CAP_DSTRD :: "mem \<Rightarrow> u64 \<Rightarrow> u64" where "CAP_DSTRD m p = RB (CAP m p) 35 32"
definition CAP_TO :: "mem \<Rightarrow> u64 \<Rightarrow> u64" where "CAP_TO m p = RB (CAP m p) 31 24"
definition CAP_CQR :: "mem \<Rightarrow> u64 \<Rightarrow> u64" where "CAP_CQR m p = RB (CAP m p) 16 16"
definition CAP_MQES :: "mem \<Rightarrow> u64 \<Rightarrow> u64" where "CAP_MQES m p = RB (CAP m p) 15 0"
definition CSTS_RDY :: "mem \<Rightarrow> u64 \<Rightarrow> u64" where "CSTS_RDY m p = RB (ucast (CSTS m p)) 0 0"

definition CC_IOCQES :: "u32 \<Rightarrow> u64" where "CC_IOCQES v = WB v 23 20"
definition CC_IOSQES :: "u32 \<Rightarrow> u64" where "CC_IOSQES v = WB v 19 16"
definition CC_MPS :: "u32 \<Rightarrow> u64" where "CC_MPS v = WB v 10 7"
definition CC_CSS :: "u32 \<Rightarrow> u64" where "CC_CSS v = WB 0 3 1"
definition CC_EN :: "u32 \<Rightarrow> u64" where "CC_EN v = WB v 0 0"
definition AQA_AQS :: "u32 \<Rightarrow> u64" where "AQA_AQS v = WB v 27 16"
definition AQA_AQC :: "u32 \<Rightarrow> u64" where "AQA_AQC v = WB v 11 0"

definition encode_page_size :: "u64 \<Rightarrow> u32" where
  "encode_page_size ps = nvm_b2log (ucast (drop_bit 12 ps))"

definition encode_entry_size :: "nat \<Rightarrow> u32" where
  "encode_entry_size es = nvm_b2log (of_nat es)"

definition NVM_CTRL_MEM_MINSIZE :: u64 where "NVM_CTRL_MEM_MINSIZE = 0x2000"

section \<open>Handle containers\<close>

datatype device_type = DEVICE_TYPE_UNKNOWN | DEVICE_TYPE_SYSFS | DEVICE_TYPE_SMARTIO

text \<open>The heap block of a struct is one of its fields.\<close>

record memory_reference =
  r_self :: nat
  r_bar :: device_memory
  r_map :: va_map

record controller =
  k_self :: nat
  k_type :: device_type
  k_ref :: "memory_reference option"
  k_fd :: int
  k_handle :: nvm_ctrl

definition nvm_fd_from_ctrl :: "controller \<Rightarrow> int" where
  "nvm_fd_from_ctrl container =
     (case k_type container of DEVICE_TYPE_SYSFS \<Rightarrow> k_fd container | _ \<Rightarrow> - EBADF)"

definition nvm_device_from_ctrl :: "controller \<Rightarrow> sci_dev option" where
  "nvm_device_from_ctrl container =
     (case k_ref container of
        Some ref \<Rightarrow> if k_type container = DEVICE_TYPE_SMARTIO then Some (dm_device (r_bar ref)) else None
      | None \<Rightarrow> None)"

definition ctrl_unset :: nvm_ctrl where
  "ctrl_unset = \<lparr>c_page_size = 0, c_dstrd = 0, c_timeout = 0, c_max_entries = 0, c_mm_size = 0, c_mm_ptr = NULL\<rparr>"

definition create_container :: "os \<Rightarrow> controller option \<times> os" where
  "create_container s =
     (case malloc s of
        (None, s) \<Rightarrow> (None, s)
      | (Some p, s) \<Rightarrow>
          (Some \<lparr>k_self = p, k_type = DEVICE_TYPE_UNKNOWN, k_ref = None, k_fd = -1, k_handle = ctrl_unset\<rparr>, s))"

definition connect_register_memory ::
  "sci_dev \<Rightarrow> u32 \<Rightarrow> os \<Rightarrow> (int \<times> memory_reference option \<times> os) option" where
  "connect_register_memory dev adapter s =
     (case malloc s of
        (None, s) \<Rightarrow> Some (ENOMEM, None, s)
      | (Some p, s) \<Rightarrow>
          (case nvm_device_memory_get dev adapter 0 [SCI_FLAG_BAR] s of (err, bar, s) \<Rightarrow>
             if err \<noteq> 0 then Some (err, None, free (Some p) s)
             else
               case nvm_va_map_remote NVM_CTRL_MEM_MINSIZE (dm_segment bar) True False s of (err, vm, s) \<Rightarrow>
                 if err \<noteq> 0
                 then do { s \<leftarrow> nvm_device_memory_put bar s; Some (err, None, free (Some p) s) }
                 else Some (0, Some \<lparr>r_self = p, r_bar = bar, r_map = vm\<rparr>, s)))"

definition disconnect_register_memory :: "memory_reference \<Rightarrow> os \<Rightarrow> os option" where
  "disconnect_register_memory ref s =
     do { (_, s) \<leftarrow> nvm_va_unmap (r_map ref) s;
          s \<leftarrow> nvm_device_memory_put (r_bar ref) s;
          Some (free (Some (r_self ref)) s) }"

abbreviation (input) MAP_FAILED :: u64 where "MAP_FAILED \<equiv> - 1"

definition initialize_handle ::
  "bool \<Rightarrow> int \<Rightarrow> mem \<Rightarrow> nvm_ctrl \<Rightarrow> u64 \<Rightarrow> u64 \<Rightarrow> (int \<times> nvm_ctrl) option" where
  "initialize_handle ndebug sysconf m ctrl mm_ptr mm_size =
     (if mm_size < NVM_CTRL_MEM_MINSIZE then Some (EINVAL, ctrl)
      else
        let ctrl = ctrl\<lparr>c_mm_size := mm_size, c_mm_ptr := mm_ptr\<rparr>;
            page_size = nvm_host_page_size ndebug sysconf in
        if page_size = 0 then Some (ENOMEM, ctrl)
        else if mm_ptr = NULL \<or> mm_ptr = MAP_FAILED then None
        else
          let host_page_size = ucast (encode_page_size page_size) :: u8;
              max_page_size = ucast (CAP_MPSMAX m mm_ptr) :: u8;
              min_page_size = ucast (CAP_MPSMIN m mm_ptr) :: u8 in
          if \<not> (min_page_size \<le> host_page_size \<and> host_page_size \<le> max_page_size)
          then Some (ERANGE, ctrl)
          else Some (0, ctrl\<lparr>c_page_size := page_size, c_dstrd := ucast (CAP_DSTRD m mm_ptr),
                             c_timeout := CAP_TO m mm_ptr * 500,
                             c_max_entries := ucast (CAP_MQES m mm_ptr + 1)\<rparr>))"

section \<open>Reset\<close>

text \<open>The loop that waits for the ready bit to take a value; the flag tells whether it did.\<close>

function wait_rdy :: "device \<Rightarrow> u64 \<Rightarrow> u64 \<Rightarrow> u64 \<Rightarrow> world \<Rightarrow> bool \<times> world" where
  "wait_rdy dev mm_ptr v remaining w =
     (if CSTS_RDY (w_mem w) mm_ptr \<noteq> v then
        (if remaining = 0 then (False, w)
         else let d = nvm_delay_remain dev remaining w in wait_rdy dev mm_ptr v (fst d) (snd d))
      else (True, w))"
  by pat_completeness auto
termination
proof (relation "measure (\<lambda>(dev, p, v, remaining, w). unat remaining)")
  fix dev :: device and p v remaining :: u64 and w :: world and d
  assume "remaining \<noteq> 0" "d = nvm_delay_remain dev remaining w"
  then show "((dev, p, v, fst d, snd d), dev, p, v, remaining, w)
      \<in> measure (\<lambda>(dev, p, v, remaining, w). unat remaining)"
    using nvm_delay_remain_less by (simp add: split_beta)
qed simp

declare wait_rdy.simps [simp del]

definition nvm_raw_ctrl_reset :: "device \<Rightarrow> nvm_ctrl \<Rightarrow> u64 \<Rightarrow> u64 \<Rightarrow> world \<Rightarrow> int \<times> world" where
  "nvm_raw_ctrl_reset dev ctrl acq_addr asq_addr w =
     (let p = c_mm_ptr ctrl;
          w = reg_write32 dev (CC p) (load32 (w_mem w) (CC p) AND NOT 1) w;
          timeout = c_timeout ctrl * 1000000;
          d = nvm_delay_remain dev timeout w;
          r = wait_rdy dev p 0 (fst d) (snd d) in
      if \<not> fst r then (ETIME, snd r)
      else
        let cq_max_entries = ucast (c_page_size ctrl div of_nat sizeof_cpl - 1) :: u32;
            sq_max_entries = ucast (c_page_size ctrl div of_nat sizeof_cmd - 1) :: u32;
            w = reg_write32 dev (AQA p) (ucast (AQA_AQS sq_max_entries OR AQA_AQC cq_max_entries)) (snd r);
            w = reg_write64 dev (ACQ p) acq_addr w;
            w = reg_write64 dev (ASQ p) asq_addr w;
            cqes = encode_entry_size sizeof_cpl;
            sqes = encode_entry_size sizeof_cmd;
            w = reg_write32 dev (CC p) (ucast (CC_IOCQES cqes OR CC_IOSQES sqes OR
                  CC_MPS (encode_page_size (c_page_size ctrl)) OR CC_CSS 0 OR CC_EN 1)) w;
            d = nvm_delay_remain dev timeout w;
            r = wait_rdy dev p 1 (fst d) (snd d) in
        if \<not> fst r then (ETIME, snd r) else (0, snd r))"

section \<open>Creating and freeing handles\<close>

definition nvm_raw_ctrl_init ::
  "bool \<Rightarrow> int \<Rightarrow> mem \<Rightarrow> u64 \<Rightarrow> u64 \<Rightarrow> os \<Rightarrow> (int \<times> controller option \<times> os) option" where
  "nvm_raw_ctrl_init ndebug sysconf m mm_ptr mm_size s =
     (case create_container s of
        (None, s) \<Rightarrow> Some (ENOMEM, None, s)
      | (Some container, s) \<Rightarrow>
          do { let container = container\<lparr>k_type := DEVICE_TYPE_UNKNOWN\<rparr>;
               (err, handle) \<leftarrow> initialize_handle ndebug sysconf m (k_handle container) mm_ptr mm_size;
               if err \<noteq> 0 then Some (err, None, free (Some (k_self container)) s)
               else Some (0, Some (container\<lparr>k_handle := handle\<rparr>), s) })"

text \<open>The size SISCI reports for a segment is an argument.\<close>

definition nvm_dis_ctrl_init ::
  "bool \<Rightarrow> int \<Rightarrow> mem \<Rightarrow> (nat \<Rightarrow> u64) \<Rightarrow> u64 \<Rightarrow> u32 \<Rightarrow> os \<Rightarrow> (int \<times> controller option \<times> os) option" where
  "nvm_dis_ctrl_init ndebug sysconf m segment_size dev_id adapter s =
     (case create_container s of
        (None, s) \<Rightarrow> Some (ENOMEM, None, s)
      | (Some container, s) \<Rightarrow>
          let container = container\<lparr>k_type := DEVICE_TYPE_SMARTIO\<rparr> in
          case nvm_device_get dev_id s of (err, dev, s) \<Rightarrow>
            if err \<noteq> 0 then Some (err, None, free (Some (k_self container)) s)
            else
              do { (err, ref, s) \<leftarrow> connect_register_memory dev adapter s;
                   let s = nvm_device_put dev s;
                   (case ref of
                      None \<Rightarrow> Some (err, None, free (Some (k_self container)) s)
                    | Some r \<Rightarrow>
                        do { let sz = segment_size (dm_segment (r_bar r));
                             (err, handle) \<leftarrow> initialize_handle ndebug sysconf m (k_handle container) (va_vaddr (r_map r)) sz;
                             if err \<noteq> 0
                             then do { s \<leftarrow> disconnect_register_memory r s;
                                       Some (err, None, free (Some (k_self container)) s) }
                             else Some (0, Some (container\<lparr>k_ref := Some r, k_handle := handle\<rparr>), s) }) })"

text \<open>
  \<open>mmap\<close> of the register file: the address is the environment's, and never NULL; a failed call
  returns \<open>MAP_FAILED\<close>.
\<close>

definition mmap :: "os \<Rightarrow> u64 \<times> os" where
  "mmap s =
     (let a = os_addr s (os_calls s); c = sys_call s in
      if fst c = 0 \<and> a \<noteq> NULL \<and> a \<noteq> MAP_FAILED
      then (a, (snd c)\<lparr>os_live := add_mset (Mapping, unat a) (os_live (snd c))\<rparr>)
      else (MAP_FAILED, snd c))"

text \<open>An address that is not the start of a page, such as \<open>MAP_FAILED\<close>, is refused and changes nothing.\<close>

definition munmap :: "u64 \<Rightarrow> os \<Rightarrow> os" where
  "munmap p s = (if p = MAP_FAILED then s else release Mapping (unat p) s)"

text \<open>What \<open>errno\<close> holds is the environment's answer to the latest call.\<close>

definition last_errno :: "os \<Rightarrow> int" where
  "last_errno s = os_env s (os_calls s - 1)"

definition close_fd :: "int \<Rightarrow> os \<Rightarrow> os" where
  "close_fd fd s = release Fd (nat fd) s"

definition nvm_ctrl_init ::
  "bool \<Rightarrow> int \<Rightarrow> mem \<Rightarrow> os \<Rightarrow> (int \<times> controller option \<times> os) option" where
  "nvm_ctrl_init ndebug sysconf m s =
     (case acquire Fd s of (err, fd, s) \<Rightarrow>
        if err \<noteq> 0 then Some (err, None, s)
        else
          case sys_call s of (err, s) \<Rightarrow>
            if err \<noteq> 0 then Some (err, None, close_fd (int fd) s)
            else
              case mmap s of (ptr, s) \<Rightarrow>
                if ptr = NULL then Some (last_errno s, None, close_fd (int fd) s)
                else
                  case create_container s of
                    (None, s) \<Rightarrow> Some (ENOMEM, None, close_fd (int fd) (munmap ptr s))
                  | (Some container, s) \<Rightarrow>
                      do { let container = container\<lparr>k_type := DEVICE_TYPE_SYSFS\<rparr>;
                           (err, handle) \<leftarrow> initialize_handle ndebug sysconf m (k_handle container) ptr NVM_CTRL_MEM_MINSIZE;
                           if err \<noteq> 0
                           then Some (err, None, close_fd (int fd) (free (Some (k_self container)) (munmap ptr s)))
                           else Some (0, Some (container\<lparr>k_handle := handle, k_fd := int fd\<rparr>), s) })"

definition nvm_ctrl_free :: "controller option \<Rightarrow> os \<Rightarrow> os option" where
  "nvm_ctrl_free ctrl s =
     (case ctrl of
        None \<Rightarrow> Some s
      | Some container \<Rightarrow>
          do { s \<leftarrow> (case k_type container of
                       DEVICE_TYPE_UNKNOWN \<Rightarrow> Some s
                     | DEVICE_TYPE_SYSFS \<Rightarrow>
                         Some (close_fd (k_fd container) (munmap (c_mm_ptr (k_handle container)) s))
                     | DEVICE_TYPE_SMARTIO \<Rightarrow>
                         (case k_ref container of None \<Rightarrow> None | Some r \<Rightarrow> disconnect_register_memory r s));
               Some (free (Some (k_self container)) s) })"

section \<open>Resources of a handle\<close>

definition ref_owned :: "memory_reference \<Rightarrow> res multiset" where
  "ref_owned r = {#(Heap, r_self r)#} + dmem_owned (r_bar r) + va_owned (r_map r)"

definition ctrl_owned :: "controller option \<Rightarrow> res multiset" where
  "ctrl_owned ctrl = (case ctrl of
       None \<Rightarrow> {#}
     | Some c \<Rightarrow> {#(Heap, k_self c)#} +
         (case k_type c of
            DEVICE_TYPE_UNKNOWN \<Rightarrow> {#}
          | DEVICE_TYPE_SYSFS \<Rightarrow> {#(Mapping, unat (c_mm_ptr (k_handle c))), (Fd, nat (k_fd c))#}
          | DEVICE_TYPE_SMARTIO \<Rightarrow> (case k_ref c of None \<Rightarrow> {#} | Some r \<Rightarrow> ref_owned r)))"

lemma disconnect_gains:
  assumes "sci_releases s" "ref_owned r \<subseteq># os_live s"
  shows "\<exists>s'. disconnect_register_memory r s = Some s' \<and> gains s' s (ref_owned r)"
proof -
  have "va_owned (r_map r) \<subseteq># os_live s"
    using assms(2) unfolding ref_owned_def by (metis mset_subset_eq_add_right subset_mset.order_trans)
  with nvm_va_unmap_gains [OF assms(1)] obtain m1 s1 where
    s1: "nvm_va_unmap (r_map r) s = Some (m1, s1)" and g1: "gains s1 s (va_owned (r_map r))" by blast
  have r1: "sci_releases s1" using sci_releases_gains [OF g1] assms(1) by simp
  have l1: "{#(Heap, r_self r)#} + dmem_owned (r_bar r) \<subseteq># os_live s1"
    using assms(2) g1 unfolding ref_owned_def gains_def by simp
  then have "dmem_owned (r_bar r) \<subseteq># os_live s1" by (metis mset_subset_eq_add_right subset_mset.order_trans)
  with nvm_device_memory_put_gains [OF r1] obtain s2 where
    s2: "nvm_device_memory_put (r_bar r) s1 = Some s2" and g2: "gains s2 s1 (dmem_owned (r_bar r))" by blast
  have "{#(Heap, r_self r)#} \<subseteq># os_live s2" using l1 g2 unfolding gains_def by simp
  note g3 = free_gains [OF this]
  from gains_trans [OF gains_trans [OF g3 g2] g1] s1 s2 show ?thesis
    by (simp add: disconnect_register_memory_def ref_owned_def)
qed

lemma connect_gains:
  assumes "sci_releases s"
  shows "\<exists>e r s'. connect_register_memory dev adapter s = Some (e, r, s')
    \<and> (e = 0 \<longleftrightarrow> r \<noteq> None)
    \<and> gains s s' (case r of None \<Rightarrow> {#} | Some r \<Rightarrow> ref_owned r)"
proof -
  obtain p s1 where m: "malloc s = (p, s1)" by fastforce
  show ?thesis
  proof (cases p)
    case None
    then show ?thesis using m malloc_none [of s s1] by (simp add: connect_register_memory_def)
  next
    case (Some q)
    note g1 = malloc_some [OF m [unfolded Some]]
    obtain e bar s2 where d: "nvm_device_memory_get dev adapter 0 [SCI_FLAG_BAR] s1 = (e, bar, s2)"
      by (metis prod_cases3)
    show ?thesis
    proof (cases "e = 0")
      case False
      have g2: "gains s s2 ({#} + {#(Heap, q)#})" using gains_trans [OF g1 dmem.get_err [OF d False]] by simp
      have "gains (free (Some q) s2) s2 {#(Heap, q)#}"
        by (rule free_gains) (use g2 in \<open>simp add: gains_def\<close>)
      from gains_undo_rest [OF g2 this] show ?thesis
        using m Some d False by (simp add: connect_register_memory_def)
    next
      case e0: True
      have g2: "gains s s2 ({#(Heap, q)#} + dmem_owned bar)"
        using gains_trans [OF g1 dmem.get_ok] d e0 by blast
      obtain e' vm s3 where v: "nvm_va_map_remote NVM_CTRL_MEM_MINSIZE (dm_segment bar) True False s2 = (e', vm, s3)"
        by (metis prod_cases3)
      show ?thesis
      proof (cases "e' = 0")
        case True
        have "gains s s3 ({#(Heap, q)#} + dmem_owned bar + va_owned vm)"
          using gains_trans [OF g2 va_remote.get_ok] v True by blast
        then show ?thesis using m Some d e0 v True by (simp add: connect_register_memory_def ref_owned_def)
      next
        case False
        have g3: "gains s s3 ({#(Heap, q)#} + dmem_owned bar)"
          using gains_trans [OF g2 va_remote.get_err [OF v False]] by simp
        have "sci_releases s" by (rule assms)
        with dmem.put_undoes [OF g3] obtain s4 where s4: "nvm_device_memory_put bar s3 = Some s4"
          and g4: "gains s s4 {#(Heap, q)#}" by blast
        have "gains (free (Some q) s4) s4 {#(Heap, q)#}"
          by (rule free_gains) (use g4 in \<open>simp add: gains_def\<close>)
        from gains_undo [OF g4 this] show ?thesis
          using m Some d e0 v False s4 by (simp add: connect_register_memory_def)
      qed
    qed
  qed
qed

lemma create_container_gains:
  "create_container s = (None, s') \<Longrightarrow> gains s s' {#}"
  "create_container s = (Some c, s') \<Longrightarrow> gains s s' {#(Heap, k_self c)#} \<and> k_ref c = None"
  using malloc_none [of s] malloc_some [of s]
  by (auto simp: create_container_def split: prod.splits option.splits)

lemma initialize_handle_ptr:
  "initialize_handle ndebug sysconf m ctrl p sz = Some (0, h) \<Longrightarrow> c_mm_ptr h = p \<and> c_mm_size h = sz"
  by (auto simp: initialize_handle_def Let_def split: if_splits)

lemma initialize_handle_map_failed:
  "initialize_handle ndebug sysconf m ctrl MAP_FAILED NVM_CTRL_MEM_MINSIZE =
     (if nvm_host_page_size ndebug sysconf = 0
      then Some (ENOMEM, ctrl\<lparr>c_mm_size := NVM_CTRL_MEM_MINSIZE, c_mm_ptr := MAP_FAILED\<rparr>) else None)"
  by (simp add: initialize_handle_def Let_def)

lemma initialize_handle_returns:
  "p \<noteq> NULL \<Longrightarrow> p \<noteq> MAP_FAILED \<Longrightarrow> \<exists>e h. initialize_handle ndebug sysconf m ctrl p sz = Some (e, h)"
  by (auto simp: initialize_handle_def Let_def)

definition ctrl_valid :: "controller option \<Rightarrow> bool" where
  "ctrl_valid c \<longleftrightarrow> (\<forall>k. c = Some k \<longrightarrow> (k_type k = DEVICE_TYPE_SMARTIO \<longrightarrow> k_ref k \<noteq> None)
     \<and> (k_type k = DEVICE_TYPE_SYSFS \<longrightarrow> c_mm_ptr (k_handle k) \<noteq> MAP_FAILED))"

lemma ctrl_destroy:
  assumes "sci_releases s" "ctrl_valid c" "ctrl_owned c \<subseteq># os_live s"
  shows "\<exists>s'. nvm_ctrl_free c s = Some s' \<and> gains s' s (ctrl_owned c)"
proof (cases c)
  case None
  then show ?thesis by (simp add: nvm_ctrl_free_def ctrl_owned_def)
next
  case (Some k)
  show ?thesis
  proof (cases "k_type k")
    case DEVICE_TYPE_UNKNOWN
    with Some assms(3) free_gains [of "k_self k" s] show ?thesis
      by (simp add: nvm_ctrl_free_def ctrl_owned_def)
  next
    case DEVICE_TYPE_SYSFS
    from assms(3) obtain L where "os_live s = ctrl_owned c + L" by (rule held_split)
    with Some DEVICE_TYPE_SYSFS assms(2) show ?thesis
      by (simp add: ctrl_valid_def nvm_ctrl_free_def ctrl_owned_def close_fd_def munmap_def free_def release_def gains_def)
  next
    case DEVICE_TYPE_SMARTIO
    with assms(2) Some obtain r where r: "k_ref k = Some r" by (auto simp: ctrl_valid_def)
    have l: "{#(Heap, k_self k)#} + ref_owned r \<subseteq># os_live s"
      using assms(3) Some DEVICE_TYPE_SMARTIO r by (simp add: ctrl_owned_def)
    then have "ref_owned r \<subseteq># os_live s" by (metis mset_subset_eq_add_right subset_mset.order_trans)
    with disconnect_gains [OF assms(1)] obtain s1 where
      s1: "disconnect_register_memory r s = Some s1" and g1: "gains s1 s (ref_owned r)" by blast
    have "{#(Heap, k_self k)#} \<subseteq># os_live s1" using l g1 unfolding gains_def by simp
    from gains_trans [OF free_gains [OF this] g1] s1 show ?thesis
      using Some DEVICE_TYPE_SMARTIO r by (simp add: nvm_ctrl_free_def ctrl_owned_def)
  qed
qed

lemma nvm_raw_ctrl_init_spec:
  assumes "p \<noteq> NULL \<and> p \<noteq> MAP_FAILED"
  shows "outcome ctrl_owned ctrl_valid s (nvm_raw_ctrl_init ndebug sysconf m p sz s)"
proof -
  obtain c s1 where cc: "create_container s = (c, s1)" by fastforce
  show ?thesis
  proof (cases c)
    case None
    then show ?thesis using cc create_container_gains(1) [of s s1] by (simp add: nvm_raw_ctrl_init_def)
  next
    case (Some k)
    have g: "gains s s1 {#(Heap, k_self k)#}" using create_container_gains(2) [of s k s1] cc Some by simp
    obtain e h where i: "initialize_handle ndebug sysconf m (k_handle k) p sz = Some (e, h)"
      using initialize_handle_returns assms by blast
    show ?thesis
      using g free_undo_only [OF g] cc Some i
      by (simp add: nvm_raw_ctrl_init_def ctrl_owned_def ctrl_valid_def Let_def)
  qed
qed

interpretation ctrl_raw: lifecycle "\<lambda>_. p \<noteq> NULL \<and> p \<noteq> MAP_FAILED" ctrl_valid
  "nvm_raw_ctrl_init ndebug sysconf m p sz" nvm_ctrl_free ctrl_owned
  for p ndebug sysconf m sz
  by unfold_locales (rule nvm_raw_ctrl_init_spec, simp, rule ctrl_destroy)

text \<open>
  \<open>nvm_ctrl_init\<close> compares the result of \<open>mmap\<close>, its third call, with NULL, so a failure goes on to the
  allocation of the handle and from there to reading a register through \<open>MAP_FAILED\<close>.
\<close>

definition maps_registers :: "os \<Rightarrow> bool" where
  "maps_registers s \<longleftrightarrow> os_env s (os_calls s + 2) = 0 \<and> os_addr s (os_calls s + 2) \<noteq> NULL
     \<and> os_addr s (os_calls s + 2) \<noteq> MAP_FAILED"

definition reads_map_failed :: "bool \<Rightarrow> int \<Rightarrow> os \<Rightarrow> bool" where
  "reads_map_failed ndebug sysconf s \<longleftrightarrow> os_env s (os_calls s) = 0 \<and> os_env s (os_calls s + 1) = 0
     \<and> \<not> maps_registers s \<and> os_env s (os_calls s + 3) = 0 \<and> nvm_host_page_size ndebug sysconf \<noteq> 0"

lemma acquire_calls: "acquire k s = (e, h, s') \<Longrightarrow> os_calls s' = Suc (os_calls s)"
  by (auto simp: acquire_def sys_call_def grant_def Let_def split: if_splits)

lemma close_undo: "gains s s' (r + {#(Fd, fd)#}) \<Longrightarrow> gains s (close_fd (int fd) s') r"
  by (simp add: close_fd_def release_undo)

lemma munmap_undo: "p \<noteq> MAP_FAILED \<Longrightarrow> gains s s' (r + {#(Mapping, unat p)#}) \<Longrightarrow> gains s (munmap p s') r"
  by (simp add: munmap_def release_undo)

lemma munmap_failed [simp]: "munmap MAP_FAILED s = s"
  by (simp add: munmap_def)

lemma mmap_spec:
  assumes "mmap s = (p, s')"
  shows "os_calls s' = Suc (os_calls s)" "p \<noteq> NULL"
    "p \<noteq> MAP_FAILED \<longleftrightarrow> os_env s (os_calls s) = 0 \<and> os_addr s (os_calls s) \<noteq> NULL \<and> os_addr s (os_calls s) \<noteq> MAP_FAILED"
    "gains s s' (if p = MAP_FAILED then {#} else {#(Mapping, unat p)#})"
  using assms by (auto simp: mmap_def sys_call_def Let_def gains_def split: if_splits)

lemma create_container_some: "(\<exists>c s'. create_container s = (Some c, s')) \<longleftrightarrow> os_env s (os_calls s) = 0"
  by (auto simp: create_container_def malloc_def acquire_def sys_call_def Let_def split: prod.splits option.splits if_splits)

text \<open>The part of \<open>nvm_ctrl_init\<close> after the mapping, when that succeeded and when it did not.\<close>

definition ctrl_init_rest :: "bool \<Rightarrow> int \<Rightarrow> mem \<Rightarrow> nat \<Rightarrow> u64 \<Rightarrow> os \<Rightarrow> (int \<times> controller option \<times> os) option" where
  "ctrl_init_rest ndebug sysconf m fd ptr s =
     (case create_container s of
        (None, s) \<Rightarrow> Some (ENOMEM, None, close_fd (int fd) (munmap ptr s))
      | (Some container, s) \<Rightarrow>
          do { let container = container\<lparr>k_type := DEVICE_TYPE_SYSFS\<rparr>;
               (err, handle) \<leftarrow> initialize_handle ndebug sysconf m (k_handle container) ptr NVM_CTRL_MEM_MINSIZE;
               if err \<noteq> 0
               then Some (err, None, close_fd (int fd) (free (Some (k_self container)) (munmap ptr s)))
               else Some (0, Some (container\<lparr>k_handle := handle, k_fd := int fd\<rparr>), s) })"

lemma ctrl_init_rest_mapped:
  assumes "gains s s3 ({#} + {#(Fd, fd)#} + {#(Mapping, unat ptr)#})" "ptr \<noteq> NULL" "ptr \<noteq> MAP_FAILED"
  shows "outcome ctrl_owned ctrl_valid s (ctrl_init_rest ndebug sysconf m fd ptr s3)"
proof -
  obtain c s4 where cc: "create_container s3 = (c, s4)" by fastforce
  show ?thesis
  proof (cases c)
    case None
    then have "gains s s4 ({#} + {#(Fd, fd)#} + {#(Mapping, unat ptr)#})"
      using gains_trans [OF assms(1) create_container_gains(1)] cc by fastforce
    then show ?thesis using cc None close_undo [OF munmap_undo [OF assms(3)]] by (simp add: ctrl_init_rest_def)
  next
    case (Some k)
    have "gains s3 s4 {#(Heap, k_self k)#}" using create_container_gains(2) cc Some by blast
    then have g4: "gains s s4 ({#} + {#(Fd, fd)#} + {#(Heap, k_self k)#} + {#(Mapping, unat ptr)#})"
      using gains_trans [OF assms(1)] by (fastforce simp: add_mset_commute)
    obtain e3 h where i: "initialize_handle ndebug sysconf m (k_handle k) ptr NVM_CTRL_MEM_MINSIZE = Some (e3, h)"
      using initialize_handle_returns assms(2,3) by blast
    show ?thesis
      using cc Some i g4 close_undo [OF free_undo [OF munmap_undo [OF assms(3) g4]]] assms(3)
        initialize_handle_ptr [of ndebug sysconf m "k_handle k" ptr NVM_CTRL_MEM_MINSIZE h]
      by (cases "e3 = 0") (simp_all add: ctrl_init_rest_def ctrl_owned_def ctrl_valid_def add_mset_commute)
  qed
qed

lemma ctrl_init_rest_failed:
  assumes "gains s s3 ({#} + {#(Fd, fd)#})"
  shows "if os_env s3 (os_calls s3) = 0 \<and> nvm_host_page_size ndebug sysconf \<noteq> 0
    then ctrl_init_rest ndebug sysconf m fd MAP_FAILED s3 = None
    else outcome ctrl_owned ctrl_valid s (ctrl_init_rest ndebug sysconf m fd MAP_FAILED s3)"
proof -
  obtain c s4 where cc: "create_container s3 = (c, s4)" by fastforce
  show ?thesis
  proof (cases c)
    case None
    then have "gains s s4 ({#} + {#(Fd, fd)#})"
      using gains_trans [OF assms(1) create_container_gains(1)] cc by fastforce
    then show ?thesis using cc None create_container_some [of s3] close_undo [of s s4 "{#}" fd] by (auto simp: ctrl_init_rest_def)
  next
    case (Some k)
    have "gains s3 s4 {#(Heap, k_self k)#}" using create_container_gains(2) cc Some by blast
    then have "gains s s4 ({#} + {#(Fd, fd)#} + {#(Heap, k_self k)#})"
      using gains_trans [OF assms(1)] by (fastforce simp: add_mset_commute)
    from close_undo [OF free_undo [OF this]] show ?thesis
      using cc Some create_container_some [of s3] by (auto simp: ctrl_init_rest_def initialize_handle_map_failed)
  qed
qed

lemma nvm_ctrl_init_spec:
  "if reads_map_failed ndebug sysconf s then nvm_ctrl_init ndebug sysconf m s = None
   else outcome ctrl_owned ctrl_valid s (nvm_ctrl_init ndebug sysconf m s)"
proof -
  obtain e fd s1 where d: "acquire Fd s = (e, fd, s1)" by (metis prod_cases3)
  obtain e2 s2 where f: "sys_call s1 = (e2, s2)" by fastforce
  obtain ptr s3 where mm: "mmap s2 = (ptr, s3)" by fastforce
  note ms = mmap_spec [OF mm]
  have e: "e = os_env s (os_calls s)" using d by (auto simp: acquire_def sys_call_def Let_def split: if_splits)
  show ?thesis
  proof (cases "e = 0")
    case False
    then show ?thesis using d e acquire_err [OF d] by (simp add: nvm_ctrl_init_def reads_map_failed_def)
  next
    case e0: True
    have g1: "gains s s1 {#(Fd, fd)#}" using acquire_ok d e0 by blast
    moreover have g12: "gains s1 s2 {#}" using f by (metis sys_call_gains snd_conv)
    ultimately have g2: "gains s s2 ({#} + {#(Fd, fd)#})" using gains_trans by fastforce
    have e2: "e2 = os_env s (os_calls s + 1)" and calls: "os_calls s2 = os_calls s + 2"
      using acquire_calls [OF d] f g1 by (auto simp: sys_call_def gains_def)
    show ?thesis
    proof (cases "e2 = 0")
      case False
      then show ?thesis using d e0 f e2 close_undo [OF g2] by (simp add: nvm_ctrl_init_def reads_map_failed_def)
    next
      case e20: True
      have c: "nvm_ctrl_init ndebug sysconf m s = ctrl_init_rest ndebug sysconf m fd ptr s3"
        using d e0 f e20 mm ms(2) by (simp add: nvm_ctrl_init_def ctrl_init_rest_def)
      have p: "ptr \<noteq> MAP_FAILED \<longleftrightarrow> maps_registers s" using ms(3) g2 calls by (simp add: maps_registers_def gains_def)
      show ?thesis
      proof (cases "ptr = MAP_FAILED")
        case True
        have "os_env s3 (os_calls s3) = os_env s (os_calls s + 3)"
          using ms(1,4) g2 calls True by (simp add: gains_def numeral_3_eq_3)
        with ctrl_init_rest_failed [of s s3 fd ndebug sysconf m] gains_trans [OF g2 ms(4)] show ?thesis
          using c p True e e0 e2 e20 by (simp add: reads_map_failed_def)
      next
        case False
        then show ?thesis
          using ctrl_init_rest_mapped [of s s3 fd ptr ndebug sysconf m] gains_trans [OF g2 ms(4)] ms(2) c p
          by (simp add: reads_map_failed_def add_mset_commute)
      qed
    qed
  qed
qed

interpretation ctrl_sysfs: lifecycle "\<lambda>s. \<not> reads_map_failed ndebug sysconf s" ctrl_valid
  "nvm_ctrl_init ndebug sysconf m" nvm_ctrl_free ctrl_owned
  for ndebug sysconf m
  using nvm_ctrl_init_spec by unfold_locales (presburger, rule ctrl_destroy)

text \<open>SISCI hands out an address for what it maps.\<close>

definition sci_maps :: "os \<Rightarrow> bool" where
  "sci_maps s \<longleftrightarrow> (\<forall>n. os_addr s n \<noteq> NULL \<and> os_addr s n \<noteq> MAP_FAILED)"

lemma connect_map_addr:
  "connect_register_memory dev adapter s = Some (e, Some r, s') \<Longrightarrow> \<exists>n. va_vaddr (r_map r) = os_addr s' n"
  by (auto simp: connect_register_memory_def nvm_va_map_remote_def Let_def
      split: prod.splits option.splits if_splits sci_error.splits bind_splits)

lemma dis_init_tail:
  assumes "sci_releases s" "sci_maps s" "gains s s3 ({#(Heap, k_self k)#} + ref_owned r)"
    and "va_vaddr (r_map r) = os_addr s3 n" "k_type k = DEVICE_TYPE_SMARTIO"
  shows "outcome ctrl_owned ctrl_valid s
    (do { (err, handle) \<leftarrow> initialize_handle ndebug sysconf m (k_handle k) (va_vaddr (r_map r)) sz;
          if err \<noteq> 0
          then do { s \<leftarrow> disconnect_register_memory r s3; Some (err, None, free (Some (k_self k)) s) }
          else Some (0, Some (k\<lparr>k_ref := Some r, k_handle := handle\<rparr>), s3) })"
proof -
  have "va_vaddr (r_map r) \<noteq> NULL" "va_vaddr (r_map r) \<noteq> MAP_FAILED"
    using assms(2,3,4) by (simp_all add: sci_maps_def gains_def)
  then obtain e h where i: "initialize_handle ndebug sysconf m (k_handle k) (va_vaddr (r_map r)) sz = Some (e, h)"
    using initialize_handle_returns by blast
  have "sci_releases s3" using sci_releases_gains [OF assms(3)] assms(1) by simp
  with disconnect_gains [of s3 r] assms(3) obtain s4 where
    s4: "disconnect_register_memory r s3 = Some s4" "gains s4 s3 (ref_owned r)" by (auto simp: gains_def)
  have "gains s (free (Some (k_self k)) s4) {#}"
    by (rule free_undo_only [OF gains_undo_rest [OF assms(3) s4(2)]])
  then show ?thesis using i s4(1) assms(3,5) by (simp add: ctrl_owned_def ctrl_valid_def)
qed

lemma nvm_dis_ctrl_init_spec:
  assumes "sci_releases s" "sci_maps s"
  shows "outcome ctrl_owned ctrl_valid s (nvm_dis_ctrl_init ndebug sysconf m segment_size dev_id adapter s)"
proof -
  obtain c s1 where cc: "create_container s = (c, s1)" by fastforce
  show ?thesis
  proof (cases c)
    case None
    then show ?thesis using cc create_container_gains(1) [of s s1] by (simp add: nvm_dis_ctrl_init_def)
  next
    case (Some k)
    let ?k = "k\<lparr>k_type := DEVICE_TYPE_SMARTIO\<rparr>"
    have g1: "gains s s1 {#(Heap, k_self k)#}" using create_container_gains(2) [of s k s1] cc Some by simp
    obtain e dev s2 where d: "nvm_device_get dev_id s1 = (e, dev, s2)" by (metis prod_cases3)
    show ?thesis
    proof (cases "e = 0")
      case False
      have "gains s s2 {#(Heap, k_self k)#}" using gains_trans [OF g1 device.get_err [OF d False]] by simp
      from free_undo_only [OF this] show ?thesis using cc Some d False by (simp add: nvm_dis_ctrl_init_def)
    next
      case True
      have g2: "gains s s2 ({#(Heap, k_self k)#} + dev_owned dev)"
        using gains_trans [OF g1 device.get_ok] d True by blast
      have r2: "sci_releases s2" using sci_releases_gains [OF g2] assms(1) by simp
      obtain e' r s3 where cr: "connect_register_memory dev adapter s2 = Some (e', r, s3)"
        and er: "e' = 0 \<longleftrightarrow> r \<noteq> None" and g3: "gains s2 s3 (case r of None \<Rightarrow> {#} | Some r \<Rightarrow> ref_owned r)"
        using connect_gains [OF r2] by blast
      let ?s4 = "nvm_device_put dev s3"
      have "gains s s3 ({#(Heap, k_self k)#} + (case r of None \<Rightarrow> {#} | Some r \<Rightarrow> ref_owned r) + dev_owned dev)"
        using gains_trans [OF g2 g3] by (simp add: add.commute add.left_commute)
      then have g4: "gains s ?s4 ({#(Heap, k_self k)#} + (case r of None \<Rightarrow> {#} | Some r \<Rightarrow> ref_owned r))"
        by (rule device_put_undo)
      show ?thesis
      proof (cases r)
        case None
        from None g4 have "gains s ?s4 {#(Heap, k_self k)#}" by simp
        from free_undo_only [OF this] None er show ?thesis
          using cc Some d True cr by (simp add: nvm_dis_ctrl_init_def Let_def)
      next
        case r: (Some r')
        obtain n where n: "va_vaddr (r_map r') = os_addr ?s4 n"
          using connect_map_addr [of dev adapter s2 e' r' s3] cr r g4 gains_trans [OF g2 g3]
          by (auto simp: gains_def)
        show ?thesis
          using dis_init_tail [OF assms, of ?s4 ?k r' n ndebug sysconf m "segment_size (dm_segment (r_bar r'))"]
            g4 r n cc Some d True cr by (simp add: nvm_dis_ctrl_init_def Let_def)
      qed
    qed
  qed
qed

interpretation ctrl_dis: lifecycle sci_maps ctrl_valid
  "nvm_dis_ctrl_init ndebug sysconf m segment_size dev_id adapter" nvm_ctrl_free ctrl_owned
  for ndebug sysconf m segment_size dev_id adapter
  by unfold_locales (rule nvm_dis_ctrl_init_spec, simp_all, rule ctrl_destroy)

section \<open>Property\<close>

text \<open>
  C24: opening a controller through its registers (at an address the caller mapped), through the kernel
  module, or as a borrowed SmartIO device (SISCI answering with an address for what it maps, and not
  busy forever on a release): the call returns in every case but one; after a failure nothing is held,
  and after a success \<open>nvm_ctrl_free\<close> leaves exactly what was acquired in between.  The one case is
  \<open>nvm_ctrl_init\<close> when \<open>mmap\<close> fails, the handle can be allocated and the page size is known:
  \<open>MAP_FAILED\<close> is taken for the register file and the process traps on the first read.
\<close>

theorem ctrl_handles_balanced:
  assumes "sci_releases s"
    and "create = nvm_raw_ctrl_init ndebug sysconf m p sz \<and> p \<noteq> NULL \<and> p \<noteq> MAP_FAILED
      \<or> create = nvm_ctrl_init ndebug sysconf m
      \<or> create = nvm_dis_ctrl_init ndebug sysconf m segment_size dev_id adapter \<and> sci_maps s"
  shows "if create = nvm_ctrl_init ndebug sysconf m \<and> reads_map_failed ndebug sysconf s then create s = None
    else \<exists>e h s1. create s = Some (e, h, s1) \<and> (e \<noteq> 0 \<longrightarrow> gains s s1 {#})
      \<and> (e = 0 \<longrightarrow> (\<forall>s2 r. gains s1 s2 r \<longrightarrow> (\<exists>s3. nvm_ctrl_free h s2 = Some s3 \<and> gains s s3 r)))"
proof (cases "create = nvm_ctrl_init ndebug sysconf m")
  case True
  then show ?thesis
    using ctrl_sysfs.balanced [OF assms(1), of ndebug sysconf m] nvm_ctrl_init_spec [of ndebug sysconf s m] by simp
next
  case False
  with assms(2) consider "create = nvm_raw_ctrl_init ndebug sysconf m p sz" "p \<noteq> NULL" "p \<noteq> MAP_FAILED"
    | "create = nvm_dis_ctrl_init ndebug sysconf m segment_size dev_id adapter" "sci_maps s" by blast
  then show ?thesis
    using False ctrl_raw.balanced [OF assms(1), of p ndebug sysconf m sz]
      ctrl_dis.balanced [OF assms(1), of ndebug sysconf m segment_size dev_id adapter] by cases simp_all
qed

definition demo_env :: os where
  "demo_env = \<lparr>os_live = {#}, os_next = 1, os_bad = False, os_env = \<lambda>_. 0, os_lock = \<lambda>_. 0, os_sci = \<lambda>_. SCI_ERR_OK,
     os_rel = \<lambda>_. SCI_ERR_OK, os_addr = \<lambda>_. 0x10000, os_recv = \<lambda>_. [], os_sent = [], os_shm = \<lambda>_ _. 0, os_calls = 0\<rparr>"

theorem ctrl_handles_balanced_witness:
  "\<exists>e h s1. nvm_ctrl_init True 4096 (\<lambda>_. 0) demo_env = Some (e, h, s1) \<and> ((\<exists>s3. nvm_ctrl_free h s1 = Some s3 \<and> os_live s3 = {#}) \<or> os_live s1 = {#})"
proof -
  have r: "sci_releases demo_env" "\<not> reads_map_failed True 4096 demo_env"
    by (auto simp: demo_env_def sci_releases_def reads_map_failed_def maps_registers_def)
  from ctrl_handles_balanced [OF r(1) disjI2 [OF disjI1 [OF refl]], of True 4096 "\<lambda>_. 0"] r(2)
  obtain e h s1 where c: "nvm_ctrl_init True 4096 (\<lambda>_. 0) demo_env = Some (e, h, s1)"
    and a: "e \<noteq> 0 \<longrightarrow> gains demo_env s1 {#}"
    and b: "e = 0 \<longrightarrow> (\<forall>s2 r. gains s1 s2 r \<longrightarrow> (\<exists>s3. nvm_ctrl_free h s2 = Some s3 \<and> gains demo_env s3 r))" by (auto split: if_splits)
  show ?thesis
  proof (cases "e = 0")
    case True
    with b obtain s3 where "nvm_ctrl_free h s1 = Some s3" "gains demo_env s3 {#}" using gains_refl by blast
    with c show ?thesis by (auto simp: gains_def demo_env_def)
  next
    case False
    with a c show ?thesis by (auto simp: gains_def demo_env_def)
  qed
qed

end
