(* ===== verification/Reset.thy ===== *)
theory Reset
  imports Ctrl
begin

unbundle bit_operations_syntax

text \<open>
  What \<open>nvm_raw_ctrl_reset\<close> and \<open>initialize_handle\<close> do: the order and the values of the register
  writes, how long the reset may take, that it succeeds with a controller that follows its enable
  bit, and which controllers a handle can be initialised for.
\<close>

section \<open>Waiting for the ready bit\<close>

lemma wait_rdy_log [simp]: "w_log (snd (wait_rdy dev p v r w)) = w_log w"
proof (induction dev p v r w rule: wait_rdy.induct)
  case (1 dev p v r w)
  then show ?case by (subst wait_rdy.simps) (auto simp: Let_def)
qed

lemma wait_rdy_reached: "fst (wait_rdy dev p v r w) \<longleftrightarrow> CSTS_RDY (w_mem (snd (wait_rdy dev p v r w))) p = v"
proof (induction dev p v r w rule: wait_rdy.induct)
  case (1 dev p v r w)
  then show ?case by (subst (1 2) wait_rdy.simps) (auto simp: Let_def)
qed

lemma nvm_delay_tick: "w_tick (snd (nvm_delay_remain dev r w)) = w_tick w + (if r = 0 then 0 else 1)"
  by (simp add: nvm_delay_remain_def)

lemma n_sleeps_0 [simp]: "n_sleeps 0 = 0"
  by (simp add: n_sleeps_def)

lemma wait_rdy_tick: "w_tick (snd (wait_rdy dev p v r w)) \<le> w_tick w + n_sleeps r"
proof (induction dev p v r w rule: wait_rdy.induct)
  case (1 dev p v r w)
  show ?case
  proof (cases "CSTS_RDY (w_mem w) p \<noteq> v \<and> r \<noteq> 0")
    case True
    let ?d = "nvm_delay_remain dev r w"
    have "wait_rdy dev p v r w = wait_rdy dev p v (fst ?d) (snd ?d)"
      using True by (subst wait_rdy.simps) (simp add: Let_def)
    moreover have "w_tick (snd (wait_rdy dev p v (fst ?d) (snd ?d))) \<le> w_tick (snd ?d) + n_sleeps (fst ?d)"
      using "1.IH" True by simp
    ultimately show ?thesis using n_sleeps_delay [of r dev w] True by (simp add: nvm_delay_tick)
  next
    case False
    then show ?thesis by (subst wait_rdy.simps) auto
  qed
qed

lemma wait_rdy_finds:
  "j \<le> n_sleeps r \<Longrightarrow> CSTS_RDY (w_mem (world_after dev j w)) p = v \<Longrightarrow> fst (wait_rdy dev p v r w)"
proof (induction dev p v r w arbitrary: j rule: wait_rdy.induct)
  case (1 dev p v r w)
  show ?case
  proof (cases "CSTS_RDY (w_mem w) p = v")
    case True
    then show ?thesis by (subst wait_rdy.simps) simp
  next
    case False
    then obtain i where i: "j = Suc i" using "1.prems"(2) by (cases j) auto
    then have r: "r \<noteq> 0" using "1.prems"(1) by auto
    let ?d = "nvm_delay_remain dev r w"
    have "i \<le> n_sleeps (fst ?d)" using "1.prems"(1) i n_sleeps_delay [OF r, of dev w] by simp
    moreover have "CSTS_RDY (w_mem (world_after dev i (snd ?d))) p = v"
      using "1.prems"(2) i by (simp add: delay_step [OF r] world_after_Suc)
    ultimately have "fst (wait_rdy dev p v (fst ?d) (snd ?d))" using "1.IH" False r by blast
    then show ?thesis using False r by (subst wait_rdy.simps) (simp add: Let_def)
  qed
qed

section \<open>The reset sequence\<close>

text \<open>The configuration the library enables the controller with, and the admin queue sizes.\<close>

definition reset_cc :: "nvm_ctrl \<Rightarrow> u32" where
  "reset_cc ctrl = ucast (CC_IOCQES (encode_entry_size sizeof_cpl) OR CC_IOSQES (encode_entry_size sizeof_cmd) OR
     CC_MPS (encode_page_size (c_page_size ctrl)) OR CC_CSS 0 OR CC_EN 1)"

definition reset_aqa :: "nvm_ctrl \<Rightarrow> u32" where
  "reset_aqa ctrl = ucast (AQA_AQS (ucast (c_page_size ctrl div of_nat sizeof_cmd - 1)) OR
     AQA_AQC (ucast (c_page_size ctrl div of_nat sizeof_cpl - 1)))"

definition reset_writes :: "nvm_ctrl \<Rightarrow> u64 \<Rightarrow> u64 \<Rightarrow> mem \<Rightarrow> (u64 \<times> u64) list" where
  "reset_writes ctrl acq asq m =
     (let p = c_mm_ptr ctrl in
      [(CC p, ucast (load32 m (CC p) AND NOT 1)), (AQA p, ucast (reset_aqa ctrl)), (ACQ p, acq), (ASQ p, asq),
       (CC p, ucast (reset_cc ctrl))])"

lemma reset_stages:
  fixes dev :: device and ctrl :: nvm_ctrl and w :: world and acq asq :: u64
  defines "p \<equiv> c_mm_ptr ctrl" and "t \<equiv> c_timeout ctrl * 1000000"
  defines "w1 \<equiv> reg_write32 dev (CC p) (load32 (w_mem w) (CC p) AND NOT 1) w"
  defines "r1 \<equiv> wait_rdy dev p 0 (fst (nvm_delay_remain dev t w1)) (snd (nvm_delay_remain dev t w1))"
  defines "w2 \<equiv> reg_write32 dev (CC p) (reset_cc ctrl) (reg_write64 dev (ASQ p) asq (reg_write64 dev (ACQ p) acq
      (reg_write32 dev (AQA p) (reset_aqa ctrl) (snd r1))))"
  defines "r2 \<equiv> wait_rdy dev p 1 (fst (nvm_delay_remain dev t w2)) (snd (nvm_delay_remain dev t w2))"
  shows "nvm_raw_ctrl_reset dev ctrl acq asq w =
    (if fst r1 then (if fst r2 then 0 else ETIME, snd r2) else (ETIME, snd r1))"
  unfolding p_def t_def w1_def r1_def w2_def r2_def
  by (simp add: nvm_raw_ctrl_reset_def reset_cc_def reset_aqa_def Let_def)

lemma reg_write_log [simp]:
  "w_log (reg_write32 dev a v w) = w_log w @ [(a, ucast v)]"
  "w_log (reg_write64 dev a x w) = w_log w @ [(a, x)]"
  "w_tick (reg_write32 dev a v w) = Suc (w_tick w)" "w_tick (reg_write64 dev a x w) = Suc (w_tick w)"
  by (simp_all add: reg_write32_def reg_write64_def)

text \<open>
  C17: whatever the controller does, \<open>nvm_raw_ctrl_reset\<close> returns 0 or ETIME.  It first clears CC.EN
  and nothing else until CSTS.RDY is seen as 0, then writes AQA, ACQ and ASQ in this order, and only
  then enables the controller; it returns 0 exactly when RDY is finally seen as 1.
\<close>

theorem reset_write_order:
  "\<exists>e w'. nvm_raw_ctrl_reset dev ctrl acq asq w = (e, w') \<and> (e = 0 \<or> e = ETIME) \<and>
     (w_log w' = w_log w @ take 1 (reset_writes ctrl acq asq (w_mem w)) \<and> e = ETIME
        \<and> CSTS_RDY (w_mem w') (c_mm_ptr ctrl) \<noteq> 0
      \<or> w_log w' = w_log w @ reset_writes ctrl acq asq (w_mem w)
        \<and> (e = 0 \<longleftrightarrow> CSTS_RDY (w_mem w') (c_mm_ptr ctrl) = 1))"
proof -
  let ?p = "c_mm_ptr ctrl" and ?t = "c_timeout ctrl * 1000000"
  let ?w1 = "reg_write32 dev (CC ?p) (load32 (w_mem w) (CC ?p) AND NOT 1) w"
  let ?r1 = "wait_rdy dev ?p 0 (fst (nvm_delay_remain dev ?t ?w1)) (snd (nvm_delay_remain dev ?t ?w1))"
  show ?thesis
  proof (cases "fst ?r1")
    case True
    then show ?thesis
      by (simp add: reset_stages wait_rdy_reached reset_writes_def Let_def)
  next
    case False
    then show ?thesis
      by (simp add: reset_stages reset_writes_def Let_def) (metis wait_rdy_reached)
  qed
qed

text \<open>
  the reset takes bounded time, whatever the controller does: five register writes and at most
  the controller timeout, in one-millisecond sleeps, for each of its two waits.
\<close>

theorem reset_time_bound:
  assumes "unat (c_timeout ctrl) * 1000000 < 2 ^ 64"
  shows "w_tick (snd (nvm_raw_ctrl_reset dev ctrl acq asq w)) \<le> w_tick w + 5 + 2 * unat (c_timeout ctrl)"
proof -
  let ?t = "c_timeout ctrl * 1000000"
  have b: "w_tick (snd (wait_rdy dev p v (fst (nvm_delay_remain dev ?t w')) (snd (nvm_delay_remain dev ?t w'))))
      \<le> w_tick w' + unat (c_timeout ctrl)" for p v w'
  proof (cases "?t = 0")
    case True
    then show ?thesis using wait_rdy_tick [of dev p v 0 w'] by (simp add: nvm_delay_remain_def)
  next
    case False
    then show ?thesis
      using wait_rdy_tick [of dev p v "fst (nvm_delay_remain dev ?t w')" "snd (nvm_delay_remain dev ?t w')"]
        n_sleeps_delay [OF False, of dev w'] n_sleeps_timeout [OF assms] by (simp add: nvm_delay_tick)
  qed
  let ?p = "c_mm_ptr ctrl"
  define w1 where "w1 = reg_write32 dev (CC ?p) (load32 (w_mem w) (CC ?p) AND NOT 1) w"
  define r1 where "r1 = wait_rdy dev ?p 0 (fst (nvm_delay_remain dev ?t w1)) (snd (nvm_delay_remain dev ?t w1))"
  define w2 where "w2 = reg_write32 dev (CC ?p) (reset_cc ctrl) (reg_write64 dev (ASQ ?p) asq (reg_write64 dev (ACQ ?p) acq
      (reg_write32 dev (AQA ?p) (reset_aqa ctrl) (snd r1))))"
  have 1: "w_tick (snd r1) \<le> w_tick w + 1 + unat (c_timeout ctrl)"
    using b [of ?p 0 w1] by (simp add: r1_def) (simp add: w1_def)
  have 2: "w_tick (snd (wait_rdy dev ?p 1 (fst (nvm_delay_remain dev ?t w2)) (snd (nvm_delay_remain dev ?t w2))))
      \<le> w_tick (snd r1) + 4 + unat (c_timeout ctrl)"
    using b [of ?p 1 w2] by (simp add: w2_def)
  show ?thesis
    using 1 2 reset_stages [of dev ctrl acq asq w] unfolding w1_def [symmetric] r1_def [symmetric] w2_def [symmetric]
    by simp
qed

theorem reset_time_bound_witness:
  "w_tick (snd (nvm_raw_ctrl_reset (\<lambda>k m. m) demo_ctrl 0xa0000 0x90000 idle_world)) \<le> 1005"
  using reset_time_bound [of demo_ctrl "\<lambda>k m. m" "0xa0000" "0x90000" idle_world]
  by (simp add: demo_ctrl_def idle_world_def)

text \<open>
  A controller that follows its enable bit: within \<open>t\<close> sleeps after the host wrote CC, it shows the
  enable bit of that value in CSTS.RDY.
\<close>

definition follows_enable :: "device \<Rightarrow> u64 \<Rightarrow> nat \<Rightarrow> bool" where
  "follows_enable dev p t \<longleftrightarrow> (\<forall>w v. \<exists>j. 1 \<le> j \<and> j \<le> t \<and>
     CSTS_RDY (w_mem (world_after dev j (reg_write32 dev (CC p) v w))) p = (if bit v 0 then 1 else 0))"

lemma wait_after_delay:
  assumes "n_sleeps r = t" "1 \<le> j" "j \<le> t" "CSTS_RDY (w_mem (world_after dev j w)) p = v"
  shows "fst (wait_rdy dev p v (fst (nvm_delay_remain dev r w)) (snd (nvm_delay_remain dev r w)))"
proof -
  have r: "r \<noteq> 0" using assms(1-3) by auto
  obtain i where i: "j = Suc i" using assms(2) by (cases j) auto
  show ?thesis
    by (rule wait_rdy_finds [of i])
       (use assms i n_sleeps_delay [OF r, of dev w] in \<open>simp_all add: delay_step [OF r] world_after_Suc\<close>)
qed

lemma bit_reset_cc_0: "bit (reset_cc ctrl) 0"
  by (simp add: reset_cc_def CC_IOCQES_def CC_IOSQES_def CC_MPS_def CC_CSS_def CC_EN_def bit_simps)

text \<open>
  C16: the reset of a controller that follows its enable bit within the timeout it advertises
  succeeds.
\<close>

theorem reset_succeeds:
  assumes "follows_enable dev (c_mm_ptr ctrl) (unat (c_timeout ctrl))"
    and "unat (c_timeout ctrl) * 1000000 < 2 ^ 64"
  shows "fst (nvm_raw_ctrl_reset dev ctrl acq asq w) = 0"
proof -
  let ?p = "c_mm_ptr ctrl" and ?t = "c_timeout ctrl * 1000000"
  have n: "n_sleeps ?t = unat (c_timeout ctrl)" by (rule n_sleeps_timeout [OF assms(2)])
  have go: "fst (wait_rdy dev ?p (if bit v 0 then 1 else 0)
      (fst (nvm_delay_remain dev ?t (reg_write32 dev (CC ?p) v w'))) (snd (nvm_delay_remain dev ?t (reg_write32 dev (CC ?p) v w'))))"
    for v w'
    using assms(1) wait_after_delay [OF n] unfolding follows_enable_def by blast
  have "\<not> bit (load32 (w_mem w) (CC ?p) AND NOT 1) 0" by (simp add: bit_simps)
  then show ?thesis
    using go [of "load32 (w_mem w) (CC ?p) AND NOT 1" w] go [of "reset_cc ctrl"] bit_reset_cc_0
    by (simp add: reset_stages)
qed

text \<open>A controller that copies its enable bit to the ready bit at every moment.\<close>

definition obedient :: "u64 \<Rightarrow> device" where
  "obedient p k m = store32 (p + 0x1c) (load32 m (p + 0x14) AND 1) m"

lemma obedient_cc: "load32 (obedient p k m) (p + 0x14) = load32 m (p + 0x14)"
proof (rule load32_cong)
  fix x assume x: "in_range (p + 0x14) 4 x"
  have "\<not> in_range (p + 0x14 + of_nat 8) 4 x" by (rule in_range_disjoint [OF x]) auto
  then show "obedient p k m x = m x" by (simp add: obedient_def store32_other add.assoc)
qed

lemma obedient_rdy: "CSTS_RDY (obedient p k m) p = (if bit (load32 m (p + 0x14)) 0 then 1 else 0)"
proof -
  have e: "CSTS (obedient p k m) p = load32 m (p + 0x14) AND 1"
    by (simp add: CSTS_def obedient_def load32_store32)
  show ?thesis unfolding CSTS_RDY_def e
    by (rule bit_word_eqI) (auto simp: bit_simps bit_1_iff intro: gr0I)
qed

lemma obedient_follows: "0 < t \<Longrightarrow> follows_enable (obedient p) p t"
  unfolding follows_enable_def
proof (intro allI exI conjI)
  fix w v assume "0 < t" then show "1 \<le> t" "1 \<le> (1::nat)" by simp_all
  show "CSTS_RDY (w_mem (world_after (obedient p) 1 (reg_write32 (obedient p) (CC p) v w))) p
      = (if bit v 0 then 1 else 0)"
    by (simp add: world_after_Suc obedient_rdy obedient_cc reg_write32_def CC_def load32_store32)
qed

theorem reset_succeeds_witness:
  "fst (nvm_raw_ctrl_reset (obedient 0x10000) demo_ctrl 0xa0000 0x90000 idle_world) = 0"
  by (rule reset_succeeds) (simp_all add: demo_ctrl_def obedient_follows)

section \<open>Register values\<close>

lemma RB_ucast32: "hi < 32 \<Longrightarrow> RB (ucast (ucast (x :: u64) :: u32)) hi lo = RB x hi lo"
  by (rule bit_word_eqI) (auto simp: bit_simps)

lemma encode_page_size_power:
  assumes "12 \<le> k" "k < 44"
  shows "encode_page_size (2 ^ k) = of_nat (k - 12)"
proof -
  have u: "unat (2 ^ k :: u64) = 2 ^ k" using assms by (simp add: unat_pow2)
  have "unat (drop_bit 12 (2 ^ k :: u64)) = 2 ^ (k - 12)"
    using assms(1) by (simp add: unat_drop_bit u power_diff)
  moreover have "(2 :: nat) ^ (k - 12) < 2 ^ 32" using assms by (intro power_strict_increasing) auto
  ultimately have "unat (ucast (drop_bit 12 (2 ^ k :: u64)) :: u32) = 2 ^ (k - 12)"
    by (simp add: unat_ucast_mod)
  then have "ucast (drop_bit 12 (2 ^ k :: u64)) = (2 ^ (k - 12) :: u32)"
    using assms by (simp add: word_unat_eq_iff unat_pow2)
  then show ?thesis using assms by (simp add: encode_page_size_def nvm_b2log_power)
qed

lemma unat_encode_page_size: "12 \<le> k \<Longrightarrow> k < 44 \<Longrightarrow> unat (encode_page_size (2 ^ k)) = k - 12"
  unfolding encode_page_size_power by (rule unat_of_nat_small) simp

lemma encode_entry_sizes: "encode_entry_size sizeof_cpl = 4" "encode_entry_size sizeof_cmd = 6"
  using nvm_b2log_power [of 4] nvm_b2log_power [of 6]
  by (simp_all add: encode_entry_size_def sizeof_cpl_def sizeof_cmd_def)

lemma reset_cc_fields:
  "RB (ucast (reset_cc ctrl)) 0 0 = 1" "RB (ucast (reset_cc ctrl)) 3 1 = 0"
  "RB (ucast (reset_cc ctrl)) 19 16 = 6" "RB (ucast (reset_cc ctrl)) 23 20 = 4"
  "RB (ucast (reset_cc ctrl)) 10 7 = ucast (take_bit 4 (encode_page_size (c_page_size ctrl)))"
  unfolding reset_cc_def CC_IOCQES_def CC_IOSQES_def CC_MPS_def CC_CSS_def CC_EN_def encode_entry_sizes
  by (simp_all add: RB_ucast32 RB_or RB_WB_same RB_WB_disjoint)

lemma reset_aqa_fields:
  "RB (ucast (reset_aqa ctrl)) 27 16 = ucast (take_bit 12 (ucast (c_page_size ctrl div 64 - 1) :: u32))"
  "RB (ucast (reset_aqa ctrl)) 11 0 = ucast (take_bit 12 (ucast (c_page_size ctrl div 16 - 1) :: u32))"
  unfolding reset_aqa_def AQA_AQS_def AQA_AQC_def
  by (simp_all add: RB_ucast32 RB_or RB_WB_same RB_WB_disjoint sizeof_cmd_def sizeof_cpl_def)

lemma unat_aqa_size:
  assumes "j \<le> k" "j + 12 \<ge> k" "k < 44"
  shows "unat (ucast (take_bit 12 (ucast ((2 ^ k :: u64) div 2 ^ j - 1) :: u32)) :: u64) = 2 ^ (k - j) - 1"
proof -
  have "unat ((2 ^ k :: u64) div 2 ^ j) = 2 ^ (k - j)"
    using assms by (simp add: unat_div unat_pow2 power_diff)
  moreover from this have "1 \<le> (2 ^ k :: u64) div 2 ^ j" by (simp add: word_le_nat_alt)
  ultimately have u: "unat ((2 ^ k :: u64) div 2 ^ j - 1) = 2 ^ (k - j) - 1" by (simp add: unat_sub)
  have le: "(2 :: nat) ^ (k - j) \<le> 2 ^ 12" using assms by (intro power_increasing) auto
  then have lt: "(2 :: nat) ^ (k - j) - 1 < 2 ^ 12" by (simp add: less_eq_Suc_le)
  have "unat (ucast ((2 ^ k :: u64) div 2 ^ j - 1) :: u32) = 2 ^ (k - j) - 1"
    using u lt by (simp add: unat_ucast_mod)
  then show ?thesis using lt by (simp add: unat_ucast_up unat_take_bit)
qed

text \<open>
  for a page size of \<open>2 ^ k\<close> bytes, 12 to 16 bits, the reset enables the controller with memory
  page size \<open>2 ^ k\<close>, 64-byte submission and 16-byte completion entries and the NVM command set, and
  announces admin queues that fill one page each; these are the sizes \<open>nvm_queue_clear\<close> gives the
  admin queues exactly when the controller supports that many entries.
\<close>

theorem reset_values:
  assumes "c_page_size ctrl = 2 ^ k" "12 \<le> k" "k \<le> 16"
  shows "RB (ucast (reset_cc ctrl)) 0 0 = 1 \<and> RB (ucast (reset_cc ctrl)) 3 1 = 0
    \<and> RB (ucast (reset_cc ctrl)) 19 16 = 6 \<and> RB (ucast (reset_cc ctrl)) 23 20 = 4
    \<and> unat (RB (ucast (reset_cc ctrl)) 10 7) = k - 12
    \<and> unat (RB (ucast (reset_aqa ctrl)) 11 0) = 2 ^ k div 16 - 1
    \<and> unat (RB (ucast (reset_aqa ctrl)) 27 16) = 2 ^ k div 64 - 1
    \<and> (unat (RB (ucast (reset_aqa ctrl)) 11 0) + 1 = q_n (nvm_queue_clear ctrl True 0 va io)
        \<longleftrightarrow> 2 ^ k div 16 \<le> unat (c_max_entries ctrl))
    \<and> (unat (RB (ucast (reset_aqa ctrl)) 27 16) + 1 = q_n (nvm_queue_clear ctrl False 0 va io)
        \<longleftrightarrow> 2 ^ k div 64 \<le> unat (c_max_entries ctrl))"
proof -
  have mps: "unat (RB (ucast (reset_cc ctrl)) 10 7) = k - 12"
    using assms unat_encode_page_size [of k] by (simp add: reset_cc_fields unat_ucast_up unat_take_bit)
  have "(2 :: nat) ^ k = 2 ^ (k - 4) * 16" "(2 :: nat) ^ k = 2 ^ (k - 6) * 64"
    using assms power_add [of "2 :: nat" "k - 4" 4] power_add [of "2 :: nat" "k - 6" 6] by simp_all
  then have d: "(2 :: nat) ^ k div 16 = 2 ^ (k - 4)" "(2 :: nat) ^ k div 64 = 2 ^ (k - 6)" by simp_all
  have a: "unat (RB (ucast (reset_aqa ctrl)) 11 0) = 2 ^ k div 16 - 1"
    "unat (RB (ucast (reset_aqa ctrl)) 27 16) = 2 ^ k div 64 - 1"
    using unat_aqa_size [of 4 k] unat_aqa_size [of 6 k] assms by (simp_all add: reset_aqa_fields d)
  have p: "unat (c_page_size ctrl) = 2 ^ k" using assms by (simp add: unat_pow2)
  have "0 < (2 :: nat) ^ k div 16" "0 < (2 :: nat) ^ k div 64" by (simp_all add: d)
  then show ?thesis using reset_cc_fields(1-4) mps a p by (auto simp: nvm_queue_clear_n min_def split: if_splits)
qed

theorem reset_values_witness:
  "unat (RB (ucast (reset_aqa demo_ctrl)) 11 0) = 255
   \<and> q_n (nvm_queue_clear demo_ctrl True 0 0x30000 0xa0000) = 4"
  using reset_values [of demo_ctrl 12 "0x30000" "0xa0000"]
  by (simp add: demo_ctrl_def nvm_queue_clear_n)

section \<open>Initialising a handle\<close>

lemma unat_cap_field: "lo \<le> hi \<Longrightarrow> unat (RB v hi lo) < 2 ^ (Suc hi - lo)"
  by (simp add: unat_RB)

text \<open>
  for a host page size of \<open>2 ^ k\<close> bytes a handle is initialised exactly when the mapped range has
  at least 8 KiB and \<open>k - 12\<close> lies between CAP.MPSMIN and CAP.MPSMAX, with the errors EINVAL and
  ERANGE otherwise.  The handle then holds the host page size, the doorbell stride, the timeout
  CAP.TO in milliseconds, and one more than CAP.MQES entries modulo 2^16, that is none at all when
  CAP.MQES is 0xffff.
\<close>

theorem initialize_handle_result:
  assumes "12 \<le> k" "k < 44" "p \<noteq> NULL" "p \<noteq> MAP_FAILED"
  shows "initialize_handle ndebug (2 ^ k) m ctrl p sz =
     (if unat sz < 0x2000 then Some (EINVAL, ctrl)
      else if unat (CAP_MPSMIN m p) \<le> k - 12 \<and> k - 12 \<le> unat (CAP_MPSMAX m p)
      then Some (0, \<lparr>c_page_size = 2 ^ k, c_dstrd = ucast (CAP_DSTRD m p), c_timeout = CAP_TO m p * 500,
                     c_max_entries = of_nat (Suc (unat (CAP_MQES m p))), c_mm_size = sz, c_mm_ptr = p\<rparr>)
      else Some (ERANGE, ctrl\<lparr>c_mm_size := sz, c_mm_ptr := p\<rparr>))
    \<and> (unat (CAP_MQES m p) = 0xffff \<longleftrightarrow> (of_nat (Suc (unat (CAP_MQES m p))) :: u16) = 0)
    \<and> unat (CAP_TO m p * 500) = unat (CAP_TO m p) * 500"
proof -
  have hp: "nvm_host_page_size ndebug (2 ^ k) = 2 ^ k" by (simp add: nvm_host_page_size_def)
  have u: "unat (2 ^ k :: u64) = 2 ^ k" using assms by (simp add: unat_pow2)
  then have nz: "(2 ^ k :: u64) \<noteq> 0" by (metis power_not_zero unat_0 zero_neq_numeral)
  have k: "k - 12 < 2 ^ 8" using assms by simp
  have hs: "unat (ucast (encode_page_size (2 ^ k)) :: u8) = k - 12"
    using unat_encode_page_size [OF assms(1,2)] k by (simp add: unat_ucast_mod)
  have mx: "unat (ucast (CAP_MPSMAX m p) :: u8) = unat (CAP_MPSMAX m p)"
    "unat (ucast (CAP_MPSMIN m p) :: u8) = unat (CAP_MPSMIN m p)"
    using unat_cap_field [of 52 55 "CAP m p"] unat_cap_field [of 48 51 "CAP m p"]
    by (simp_all add: unat_ucast_mod CAP_MPSMAX_def CAP_MPSMIN_def)
  have mq: "unat (CAP_MQES m p) < 2 ^ 16" and to: "unat (CAP_TO m p) < 2 ^ 8"
    using unat_cap_field [of 0 15 "CAP m p"] unat_cap_field [of 24 31 "CAP m p"]
    by (simp_all add: CAP_MQES_def CAP_TO_def)
  have e: "ucast (CAP_MQES m p + 1) = (of_nat (Suc (unat (CAP_MQES m p))) :: u16)"
  proof -
    have "unat (CAP_MQES m p + 1) = Suc (unat (CAP_MQES m p))" using mq by (simp add: unat_word_ariths)
    then show ?thesis by (metis of_nat_unat)
  qed
  have "unat (of_nat (Suc (unat (CAP_MQES m p))) :: u16) = Suc (unat (CAP_MQES m p)) mod 2 ^ 16"
    by (simp only: unat_of_nat take_bit_eq_mod) simp
  then have z: "unat (CAP_MQES m p) = 0xffff \<longleftrightarrow> (of_nat (Suc (unat (CAP_MQES m p))) :: u16) = 0"
    using mq dvd_imp_le [of "2 ^ 16" "Suc (unat (CAP_MQES m p))"]
    by (auto simp: word_unat_eq_iff mod_eq_0_iff_dvd simp del: of_nat_Suc)
  have t: "unat (CAP_TO m p * 500) = unat (CAP_TO m p) * 500" using to by (simp add: unat_word_ariths)
  show ?thesis
    using nz assms(3,4) hs mx z t
    by (simp add: initialize_handle_def hp e Let_def NVM_CTRL_MEM_MINSIZE_def word_less_nat_alt word_le_nat_alt
        del: of_nat_Suc)
qed

theorem initialize_handle_result_witness:
  "initialize_handle False 4096 (\<lambda>a. if a = 0x10000 then 0xff else if a = 0x10001 then 3 else 0) ctrl_unset 0x10000 0x4000 =
     Some (0, \<lparr>c_page_size = 4096, c_dstrd = 0, c_timeout = 0, c_max_entries = 1024, c_mm_size = 0x4000, c_mm_ptr = 0x10000\<rparr>)"
proof -
  let ?m = "\<lambda>a :: u64. if a = 0x10000 then 0xff else if a = 0x10001 then 3 else (0 :: u8)"
  have cap: "CAP ?m 0x10000 = 0x3ff"
    by (simp add: CAP_def load64_def load32_def load16_def)
  then have f: "unat (CAP_MPSMIN ?m 0x10000) = 0" "unat (CAP_MQES ?m 0x10000) = 0x3ff"
    "CAP_DSTRD ?m 0x10000 = 0" "CAP_TO ?m 0x10000 = 0"
    by (simp_all add: CAP_MPSMIN_def CAP_MQES_def CAP_DSTRD_def CAP_TO_def unat_RB word_unat_eq_iff)
  show ?thesis
    using conjunct1 [OF initialize_handle_result [of 12 "0x10000" False ?m ctrl_unset "0x4000"]] f by simp
qed

end
