(* ===== verification/Dma.thy ===== *)
theory Dma
  imports Ctrl
begin

unbundle bit_operations_syntax

text \<open>
  DMA windows: \<open>src/dma.c\<close>, \<open>dma.h\<close> and the requests of \<open>ioctl.h\<close>, for a build with CUDA.  A DMA
  container points to a mapping descriptor of its own kind, which starts with a \<open>dma_map\<close>, and to the
  function that releases it; both are fields here, and \<open>head\<close> is the cast to the first member.
  Division by zero, reading past an address list and a release loop that never ends are \<open>None\<close>.
\<close>

section \<open>Descriptors\<close>

record dma_map =
  mp_vaddr :: u64
  mp_page_size :: u64
  mp_n_pages :: u64

record 'md dma =
  dc_self :: nat
  dc_map :: 'md
  dc_release :: "('md \<Rightarrow> os \<Rightarrow> os option) option"
  dc_handle :: nvm_dma

datatype map_type = MAP_TYPE_HOST | MAP_TYPE_CUDA

record ioctl_mapping =
  im_self :: nat
  im_mapping :: dma_map
  im_type :: map_type
  im_ioctl_fd :: nat
  im_mapped :: bool

definition n_ctrl_pages :: "nvm_ctrl \<Rightarrow> u64 \<Rightarrow> u64 \<Rightarrow> u64" where
  "n_ctrl_pages ctrl page_size n_pages = (page_size * n_pages) div c_page_size ctrl"

section \<open>The page address list\<close>

function populate_loop :: "nat \<Rightarrow> nat \<Rightarrow> u64 \<Rightarrow> u64 \<Rightarrow> u64 list \<Rightarrow> u64 list option" where
  "populate_loop i_page n ctrl_page_size page_size ioaddrs =
     (if i_page < n then
        let current_page = (of_nat i_page * ctrl_page_size) div page_size;
            offset_within_page = (of_nat i_page * ctrl_page_size) mod page_size in
        if unat current_page < length ioaddrs
        then do { rest \<leftarrow> populate_loop (Suc i_page) n ctrl_page_size page_size ioaddrs;
                  Some ((ioaddrs ! unat current_page + offset_within_page) # rest) }
        else None
      else Some [])"
  by pat_completeness auto
termination by (relation "measure (\<lambda>(i, n, _). n - i)") auto

declare populate_loop.simps [simp del]

definition nvm_dma_handle_populate :: "dma_map \<Rightarrow> nvm_ctrl \<Rightarrow> u64 list \<Rightarrow> nvm_dma option" where
  "nvm_dma_handle_populate md ctrl ioaddrs =
     (if c_page_size ctrl = 0 then None
      else
        let n = n_ctrl_pages ctrl (mp_page_size md) (mp_n_pages md) in
        if mp_page_size md = 0 \<and> n \<noteq> 0 then None
        else
          do { as \<leftarrow> populate_loop 0 (unat n) (c_page_size ctrl) (mp_page_size md) ioaddrs;
               Some \<lparr>d_vaddr = mp_vaddr md, d_page_size = c_page_size ctrl, d_n_ioaddrs = n, d_ioaddrs = as\<rparr> })"

section \<open>Containers\<close>

definition dma_unset :: nvm_dma where
  "dma_unset = \<lparr>d_vaddr = NULL, d_page_size = 0, d_n_ioaddrs = 0, d_ioaddrs = []\<rparr>"

definition nvm_dma_create ::
  "('md \<Rightarrow> dma_map) \<Rightarrow> nvm_ctrl \<Rightarrow> 'md \<Rightarrow> ('md \<Rightarrow> os \<Rightarrow> os option) \<Rightarrow> os \<Rightarrow> (int \<times> 'md dma option \<times> os) option" where
  "nvm_dma_create head ctrl md rel s =
     (let page_size = mp_page_size (head md); n_pages = mp_n_pages (head md) in
      if page_size = 0 \<or> n_pages = 0 then Some (EINVAL, None, s)
      else if c_page_size ctrl = 0 then None
      else if (page_size * n_pages) mod c_page_size ctrl \<noteq> 0 then Some (EINVAL, None, s)
      else
        case malloc s of
          (None, s) \<Rightarrow> Some (ENOMEM, None, s)
        | (Some p, s) \<Rightarrow>
            Some (0, Some \<lparr>dc_self = p, dc_map = md, dc_release = Some rel, dc_handle = dma_unset\<rparr>, s))"

definition nvm_dma_remove :: "'md dma \<Rightarrow> os \<Rightarrow> os option" where
  "nvm_dma_remove dma s =
     do { s \<leftarrow> (case dc_release dma of None \<Rightarrow> Some s | Some rel \<Rightarrow> rel (dc_map dma) s);
          Some (free (Some (dc_self dma)) s) }"

definition nvm_dma_unmap :: "'md dma option \<Rightarrow> os \<Rightarrow> os option" where
  "nvm_dma_unmap handle s = (case handle of None \<Rightarrow> Some s | Some dma \<Rightarrow> nvm_dma_remove dma s)"

text \<open>A plain mapping descriptor is the \<open>dma_map\<close> and its heap block.\<close>

definition nvm_dma_map ::
  "nvm_ctrl \<Rightarrow> u64 \<Rightarrow> u64 \<Rightarrow> u64 \<Rightarrow> u64 list \<Rightarrow> os \<Rightarrow> (int \<times> (dma_map \<times> nat) dma option \<times> os) option" where
  "nvm_dma_map ctrl vaddr page_size n_pages ioaddrs s =
     (case malloc s of
        (None, s) \<Rightarrow> Some (ENOMEM, None, s)
      | (Some p, s) \<Rightarrow>
          do { let md = (\<lparr>mp_vaddr = vaddr, mp_page_size = page_size, mp_n_pages = n_pages\<rparr>, p);
               (status, handle, s) \<leftarrow> nvm_dma_create fst ctrl md (\<lambda>md s. Some (free (Some (snd md)) s)) s;
               (case handle of
                  None \<Rightarrow> Some (status, None, free (Some p) s)
                | Some dma \<Rightarrow>
                    do { h \<leftarrow> nvm_dma_handle_populate (fst (dc_map dma)) ctrl ioaddrs;
                         Some (0, Some (dma\<lparr>dc_handle := h\<rparr>), s) }) })"

section \<open>Mappings through the kernel module\<close>

text \<open>
  The addresses the module returns are an argument.  Pages are pinned under their virtual address,
  by which they are unpinned again; unmapping an address that is not mapped fails.
\<close>

definition map_memory :: "ioctl_mapping \<Rightarrow> os \<Rightarrow> int \<times> ioctl_mapping \<times> os" where
  "map_memory md s =
     (case sys_call s of (err, s) \<Rightarrow>
        if err \<noteq> 0 then (err, md, s)
        else (0, md\<lparr>im_mapped := True\<rparr>,
              s\<lparr>os_live := add_mset (Pinned, unat (mp_vaddr (im_mapping md))) (os_live s)\<rparr>))"

definition unmap_memory :: "ioctl_mapping \<Rightarrow> os \<Rightarrow> int \<times> os" where
  "unmap_memory md s =
     (let addr = unat (mp_vaddr (im_mapping md)) in
      if (Pinned, addr) \<in># os_live s then (0, release Pinned addr s) else (EINVAL, s))"

definition create_mapping ::
  "bool \<Rightarrow> int \<Rightarrow> map_type \<Rightarrow> u64 \<Rightarrow> u64 \<Rightarrow> os \<Rightarrow> (int \<times> ioctl_mapping option \<times> os) option" where
  "create_mapping ndebug sysconf type vaddr sz s =
     (let page_size = (case type of MAP_TYPE_HOST \<Rightarrow> nvm_host_page_size ndebug sysconf
                                  | MAP_TYPE_CUDA \<Rightarrow> push_bit 16 1) in
      if page_size = 0 then None
      else
        let n_pages = NVM_PAGE_ALIGN sz page_size div page_size in
        case malloc s of
          (None, s) \<Rightarrow> Some (ENOMEM, None, s)
        | (Some p, s) \<Rightarrow>
            (case acquire Fd s of (err, fd, s) \<Rightarrow>
               if err \<noteq> 0 then Some (EBADF, None, free (Some p) s)
               else Some (0, Some \<lparr>im_self = p,
                  im_mapping = \<lparr>mp_vaddr = vaddr, mp_page_size = page_size, mp_n_pages = n_pages\<rparr>,
                  im_type = type, im_ioctl_fd = fd, im_mapped = False\<rparr>, s)))"

definition remove_mapping :: "ioctl_mapping \<Rightarrow> os \<Rightarrow> os option" where
  "remove_mapping md s =
     (let s = (if im_mapped md then snd (unmap_memory md s) else s);
          s = release Fd (im_ioctl_fd md) s
      in Some (free (Some (im_self md)) s))"

definition populate_handle ::
  "ioctl_mapping dma \<Rightarrow> nvm_ctrl \<Rightarrow> u64 list \<Rightarrow> os \<Rightarrow> (int \<times> ioctl_mapping dma \<times> os) option" where
  "populate_handle container ctrl kaddrs s =
     (case malloc s of
        (None, s) \<Rightarrow> Some (ENOMEM, container, s)
      | (Some ioaddrs, s) \<Rightarrow>
          (case map_memory (dc_map container) s of (err, md, s) \<Rightarrow>
             let container = container\<lparr>dc_map := md\<rparr> in
             if err \<noteq> 0 then Some (err, container, free (Some ioaddrs) s)
             else do { h \<leftarrow> nvm_dma_handle_populate (im_mapping md) ctrl kaddrs;
                       Some (0, container\<lparr>dc_handle := h\<rparr>, free (Some ioaddrs) s) }))"

text \<open>The two functions differ in the type of memory only.\<close>

definition nvm_dma_map_ioctl ::
  "bool \<Rightarrow> int \<Rightarrow> map_type \<Rightarrow> controller \<Rightarrow> u64 list \<Rightarrow> u64 \<Rightarrow> u64 \<Rightarrow> os \<Rightarrow> (int \<times> ioctl_mapping dma option \<times> os) option" where
  "nvm_dma_map_ioctl ndebug sysconf type ctrl kaddrs vaddr sz s =
     (if nvm_fd_from_ctrl ctrl < 0 then Some (EBADF, None, s)
      else
        do { (err, md, s) \<leftarrow> create_mapping ndebug sysconf type vaddr sz s;
             (case md of
                None \<Rightarrow> Some (err, None, s)
              | Some md \<Rightarrow>
                  do { (err, handle, s) \<leftarrow> nvm_dma_create im_mapping (k_handle ctrl) md remove_mapping s;
                       (case handle of
                          None \<Rightarrow> do { s \<leftarrow> remove_mapping md s; Some (err, None, s) }
                        | Some dma \<Rightarrow>
                            do { (err, dma, s) \<leftarrow> populate_handle dma (k_handle ctrl) kaddrs s;
                                 if err \<noteq> 0
                                 then do { s \<leftarrow> nvm_dma_remove dma s;
                                           s \<leftarrow> remove_mapping (dc_map dma) s;
                                           Some (err, None, s) }
                                 else Some (0, Some dma, s) }) }) })"

definition nvm_dma_map_host ::
  "bool \<Rightarrow> int \<Rightarrow> controller \<Rightarrow> u64 list \<Rightarrow> u64 \<Rightarrow> u64 \<Rightarrow> os \<Rightarrow> (int \<times> ioctl_mapping dma option \<times> os) option" where
  "nvm_dma_map_host ndebug sysconf ctrl kaddrs vaddr sz s =
     nvm_dma_map_ioctl ndebug sysconf MAP_TYPE_HOST ctrl kaddrs vaddr sz s"

definition nvm_dma_map_device ::
  "bool \<Rightarrow> int \<Rightarrow> controller \<Rightarrow> u64 list \<Rightarrow> u64 \<Rightarrow> u64 \<Rightarrow> os \<Rightarrow> (int \<times> ioctl_mapping dma option \<times> os) option" where
  "nvm_dma_map_device ndebug sysconf ctrl kaddrs devptr sz s =
     nvm_dma_map_ioctl ndebug sysconf MAP_TYPE_CUDA ctrl kaddrs devptr sz s"

section \<open>Translation\<close>

lemma populate_loop_spec:
  assumes "\<And>i. i < n \<Longrightarrow> unat ((of_nat i * cps) div ps) < length io"
  shows "i \<le> n \<Longrightarrow> populate_loop i n cps ps io =
    Some (map (\<lambda>i. io ! unat ((of_nat i * cps) div ps) + (of_nat i * cps) mod ps) [i..<n])"
proof (induction "n - i" arbitrary: i)
  case 0
  then show ?case by (subst populate_loop.simps) simp
next
  case (Suc k)
  then have "i < n" by simp
  moreover have "populate_loop (Suc i) n cps ps io =
      Some (map (\<lambda>i. io ! unat ((of_nat i * cps) div ps) + (of_nat i * cps) mod ps) [Suc i..<n])"
    using Suc by simp
  ultimately show ?case using assms [of i]
    by (subst populate_loop.simps) (simp add: Let_def upt_conv_Cons)
qed

text \<open>A region of \<open>n\<close> pages of size \<open>ps\<close>, as controller pages.\<close>

definition region_ok :: "nvm_ctrl \<Rightarrow> dma_map \<Rightarrow> u64 list \<Rightarrow> bool" where
  "region_ok ctrl md ioaddrs \<longleftrightarrow>
     c_page_size ctrl \<noteq> 0 \<and> mp_page_size md \<noteq> 0 \<and> mp_n_pages md \<noteq> 0
     \<and> unat (mp_page_size md) * unat (mp_n_pages md) < 2 ^ 64
     \<and> (mp_page_size md * mp_n_pages md) mod c_page_size ctrl = 0
     \<and> unat (mp_n_pages md) \<le> length ioaddrs"

lemma region_total:
  "region_ok ctrl md io \<Longrightarrow> unat (mp_page_size md * mp_n_pages md) = unat (mp_page_size md) * unat (mp_n_pages md)"
  by (simp add: region_ok_def unat_word_ariths)

lemma region_pages:
  assumes r: "region_ok ctrl md io"
  shows "unat (n_ctrl_pages ctrl (mp_page_size md) (mp_n_pages md)) * unat (c_page_size ctrl)
    = unat (mp_page_size md) * unat (mp_n_pages md)"
proof -
  have "unat (mp_page_size md * mp_n_pages md) mod unat (c_page_size ctrl) = 0"
    using r by (metis region_ok_def unat_mod unat_0)
  then have "unat (mp_page_size md * mp_n_pages md) div unat (c_page_size ctrl) * unat (c_page_size ctrl)
      = unat (mp_page_size md * mp_n_pages md)" by (metis div_mod_decomp add.right_neutral)
  then show ?thesis by (simp add: n_ctrl_pages_def unat_div region_total [OF r])
qed

lemma region_offset:
  assumes r: "region_ok ctrl md io" and i: "i < unat (n_ctrl_pages ctrl (mp_page_size md) (mp_n_pages md))"
  shows "unat (of_nat i * c_page_size ctrl) = i * unat (c_page_size ctrl)"
    and "i * unat (c_page_size ctrl) < unat (mp_page_size md) * unat (mp_n_pages md)"
proof -
  show lt: "i * unat (c_page_size ctrl) < unat (mp_page_size md) * unat (mp_n_pages md)"
    using i r unfolding region_pages [OF r, symmetric] by (simp add: region_ok_def unat_gt_0)
  have "i < 2 ^ 64" using i unat_u64_less order_less_trans by blast
  then have "unat (of_nat i :: u64) = i" by (intro unat_of_nat_small) simp
  then show "unat (of_nat i * c_page_size ctrl) = i * unat (c_page_size ctrl)"
    using lt r by (simp add: region_ok_def unat_word_ariths)
qed

lemma region_index:
  assumes r: "region_ok ctrl md io" and i: "i < unat (n_ctrl_pages ctrl (mp_page_size md) (mp_n_pages md))"
  shows "unat ((of_nat i * c_page_size ctrl) div mp_page_size md) = i * unat (c_page_size ctrl) div unat (mp_page_size md)"
    and "i * unat (c_page_size ctrl) div unat (mp_page_size md) < unat (mp_n_pages md)"
proof -
  show "unat ((of_nat i * c_page_size ctrl) div mp_page_size md) = i * unat (c_page_size ctrl) div unat (mp_page_size md)"
    by (simp add: unat_div region_offset [OF r i])
  show "i * unat (c_page_size ctrl) div unat (mp_page_size md) < unat (mp_n_pages md)"
    using region_offset(2) [OF r i] by (simp add: less_mult_imp_div_less mult.commute)
qed

lemma region_populated:
  assumes r: "region_ok ctrl md ioaddrs"
  shows "\<exists>h. nvm_dma_handle_populate md ctrl ioaddrs = Some h \<and> d_vaddr h = mp_vaddr md \<and> d_page_size h = c_page_size ctrl
     \<and> length (d_ioaddrs h) * unat (c_page_size ctrl) = unat (mp_page_size md) * unat (mp_n_pages md)
     \<and> unat (d_n_ioaddrs h) = length (d_ioaddrs h)
     \<and> (\<forall>i < length (d_ioaddrs h). d_ioaddrs h ! i =
          ioaddrs ! (i * unat (c_page_size ctrl) div unat (mp_page_size md))
          + of_nat (i * unat (c_page_size ctrl) mod unat (mp_page_size md)))"
proof -
  let ?n = "n_ctrl_pages ctrl (mp_page_size md) (mp_n_pages md)"
  have nz: "c_page_size ctrl \<noteq> 0" "mp_page_size md \<noteq> 0" and enough: "unat (mp_n_pages md) \<le> length ioaddrs"
    using r by (auto simp: region_ok_def)
  have "unat ((of_nat i * c_page_size ctrl) div mp_page_size md) < length ioaddrs" if "i < unat ?n" for i
    using region_index [OF r that] enough by simp
  from populate_loop_spec [of "unat ?n" "c_page_size ctrl" "mp_page_size md" ioaddrs 0] this
  have loop: "populate_loop 0 (unat ?n) (c_page_size ctrl) (mp_page_size md) ioaddrs =
      Some (map (\<lambda>i. ioaddrs ! unat ((of_nat i * c_page_size ctrl) div mp_page_size md)
        + (of_nat i * c_page_size ctrl) mod mp_page_size md) [0..<unat ?n])" by simp
  have within: "(of_nat i * c_page_size ctrl) mod mp_page_size md = of_nat (i * unat (c_page_size ctrl) mod unat (mp_page_size md))"
    if "i < unat ?n" for i
  proof -
    let ?x = "(of_nat i * c_page_size ctrl) mod mp_page_size md"
    have "?x = of_nat (unat ?x)" by simp
    also have "unat ?x = i * unat (c_page_size ctrl) mod unat (mp_page_size md)"
      by (simp only: unat_mod region_offset(1) [OF r that])
    finally show ?thesis .
  qed
  show ?thesis
    using nz loop region_pages [OF r] within region_index(1) [OF r] by (simp add: nvm_dma_handle_populate_def Let_def)
qed

section \<open>Resources of a window\<close>

definition plain_release :: "dma_map \<times> nat \<Rightarrow> os \<Rightarrow> os option" where
  "plain_release md s = Some (free (Some (snd md)) s)"

definition dma_owned :: "(dma_map \<times> nat) dma option \<Rightarrow> res multiset" where
  "dma_owned h = (case h of None \<Rightarrow> {#} | Some c \<Rightarrow> {#(Heap, dc_self c), (Heap, snd (dc_map c))#})"

definition dma_valid :: "(dma_map \<times> nat) dma option \<Rightarrow> bool" where
  "dma_valid h \<longleftrightarrow> (\<forall>c. h = Some c \<longrightarrow> dc_release c = Some plain_release)"

lemma nvm_dma_create_spec:
  assumes "c_page_size ctrl \<noteq> 0"
  obtains (made) c s' where "nvm_dma_create head ctrl md rel s = Some (0, Some c, s')"
      "gains s s' {#(Heap, dc_self c)#}" "dc_map c = md" "dc_release c = Some rel" "dc_self c = os_next s"
      "mp_page_size (head md) \<noteq> 0" "mp_n_pages (head md) \<noteq> 0"
      "(mp_page_size (head md) * mp_n_pages (head md)) mod c_page_size ctrl = 0"
  | (refused) e s' where "nvm_dma_create head ctrl md rel s = Some (e, None, s')" "e \<noteq> 0" "gains s s' {#}"
proof (cases "mp_page_size (head md) = 0 \<or> mp_n_pages (head md) = 0
    \<or> (mp_page_size (head md) * mp_n_pages (head md)) mod c_page_size ctrl \<noteq> 0")
  case True
  then show thesis using refused [of EINVAL s] assms by (auto simp: nvm_dma_create_def Let_def)
next
  case False
  obtain p s1 where m: "malloc s = (p, s1)" by fastforce
  show thesis
  proof (cases p)
    case None
    then show thesis using refused [of ENOMEM s1] False assms m malloc_none [of s s1]
      by (simp add: nvm_dma_create_def Let_def)
  next
    case (Some q)
    have "q = os_next s" using m Some
      by (auto simp: malloc_def acquire_def sys_call_def grant_def Let_def split: if_splits)
    with Some show thesis
      using made [of "\<lparr>dc_self = q, dc_map = md, dc_release = Some rel, dc_handle = dma_unset\<rparr>" s1]
        False assms m malloc_some [of s q s1] by (simp add: nvm_dma_create_def Let_def)
  qed
qed

lemma nvm_dma_map_spec:
  assumes "c_page_size ctrl \<noteq> 0 \<and> unat ps * unat np < 2 ^ 64 \<and> unat np \<le> length ioaddrs"
  shows "outcome dma_owned dma_valid s (nvm_dma_map ctrl vaddr ps np ioaddrs s)"
proof -
  obtain p s1 where m: "malloc s = (p, s1)" by fastforce
  show ?thesis
  proof (cases p)
    case None
    then show ?thesis using m malloc_none [of s s1] by (simp add: nvm_dma_map_def)
  next
    case (Some q)
    let ?md = "(\<lparr>mp_vaddr = vaddr, mp_page_size = ps, mp_n_pages = np\<rparr>, q)"
    have g1: "gains s s1 {#(Heap, q)#}" using m Some malloc_some by blast
    have rel: "(\<lambda>md s. Some (free (Some (snd md)) s)) = plain_release" by (simp add: plain_release_def fun_eq_iff)
    have pg: "c_page_size ctrl \<noteq> 0" using assms by simp
    from pg show ?thesis
    proof (cases rule: nvm_dma_create_spec [where head = fst and md = ?md and rel = plain_release and s = s1])
      case (refused e s2)
      have "gains s s2 {#(Heap, q)#}" using gains_trans [OF g1 refused(3)] by simp
      from free_undo_only [OF this] show ?thesis
        using m Some refused by (simp add: nvm_dma_map_def Let_def rel)
    next
      case (made c s2)
      have "region_ok ctrl (fst ?md) ioaddrs" using made assms by (simp add: region_ok_def)
      then obtain h where h: "nvm_dma_handle_populate (fst ?md) ctrl ioaddrs = Some h"
        using region_populated by blast
      have "gains s s2 {#(Heap, dc_self c), (Heap, q)#}" using gains_trans [OF g1 made(2)] by simp
      then show ?thesis
        using m Some made h by (simp add: nvm_dma_map_def Let_def rel dma_owned_def dma_valid_def)
    qed
  qed
qed

lemma nvm_dma_unmap_plain:
  assumes "dma_valid h" "dma_owned h \<subseteq># os_live s"
  shows "\<exists>s'. nvm_dma_unmap h s = Some s' \<and> gains s' s (dma_owned h)"
proof (cases h)
  case None
  then show ?thesis by (simp add: nvm_dma_unmap_def dma_owned_def)
next
  case (Some c)
  from assms(2) obtain L where "os_live s = dma_owned h + L" by (rule held_split)
  with Some assms(1) show ?thesis
    by (simp add: nvm_dma_unmap_def nvm_dma_remove_def dma_valid_def plain_release_def dma_owned_def free_def
        release_def gains_def)
qed

interpretation dma_plain: lifecycle
  "\<lambda>_. c_page_size ctrl \<noteq> 0 \<and> unat ps * unat np < 2 ^ 64 \<and> unat np \<le> length ioaddrs" dma_valid
  "nvm_dma_map ctrl vaddr ps np ioaddrs" nvm_dma_unmap dma_owned
  for ctrl vaddr ps np ioaddrs
  by unfold_locales (rule nvm_dma_map_spec, simp, rule nvm_dma_unmap_plain)

section \<open>Properties\<close>

lemma page_split:
  fixes b c p :: nat
  assumes "0 < c" "c dvd p"
  shows "b div c * c div p = b div p" "b div c * c mod p + b mod c = b mod p"
proof -
  from assms(2) obtain q where q: "p = c * q" by blast
  have e: "b div c * c = c * (b div c)" by simp
  show "b div c * c div p = b div p"
    unfolding q e using assms(1) by (simp add: div_mult2_eq)
  show "b div c * c mod p + b mod c = b mod p"
    unfolding q e mod_mult2_eq [of b c q] mult_mod_right [symmetric] by simp
qed

text \<open>
  A region whose page list can stand for the controller's: the controller page size divides the page size of the
  region, or is a multiple of it and the pages that fall into one controller page follow one another on the bus.
\<close>

definition pages_fit :: "nat \<Rightarrow> nat \<Rightarrow> nat \<Rightarrow> u64 list \<Rightarrow> bool" where
  "pages_fit c p n ioaddrs \<longleftrightarrow> c dvd p \<or>
     p dvd c \<and> (\<forall>j < n. j * p mod c \<noteq> 0 \<longrightarrow> ioaddrs ! j = ioaddrs ! (j - 1) + of_nat p)"

lemma contiguous_pages:
  assumes "\<forall>j < n. j * p mod (p * r) \<noteq> 0 \<longrightarrow> ioaddrs ! j = ioaddrs ! (j - 1) + of_nat p"
    and "0 < p" "t < r" "i * r + t < n"
  shows "ioaddrs ! (i * r + t) = ioaddrs ! (i * r) + of_nat (p * t)"
  using assms(3,4)
proof (induction t)
  case 0
  then show ?case by simp
next
  case (Suc t)
  have "(i * r + Suc t) * p = i * (p * r) + p * Suc t" by (simp add: algebra_simps)
  then have "(i * r + Suc t) * p mod (p * r) = p * Suc t mod (p * r)" by (metis mod_mult_self3 mult.commute)
  moreover have "p * Suc t < p * r" using Suc.prems(1) assms(2) by (intro mult_strict_left_mono) simp_all
  ultimately have "(i * r + Suc t) * p mod (p * r) \<noteq> 0" using assms(2) by simp
  then have "ioaddrs ! (i * r + Suc t) = ioaddrs ! (i * r + t) + of_nat p" using assms(1) Suc.prems(2) by fastforce
  then show ?case using Suc by (simp add: algebra_simps)
qed

lemma page_translates:
  assumes fit: "pages_fit c p n ioaddrs" and c: "0 < c" "0 < p" and b: "b < p * n"
  shows "ioaddrs ! (b div c * c div p) + of_nat (b div c * c mod p) + of_nat (b mod c) = ioaddrs ! (b div p) + of_nat (b mod p)"
proof (cases "c dvd p")
  case True
  then have "of_nat (b div c * c mod p) + of_nat (b mod c) = (of_nat (b mod p) :: u64)"
    using page_split(2) [OF c(1) True, of b] by (metis of_nat_add)
  then show ?thesis using page_split(1) [OF c(1) True, of b] by (simp add: add.assoc)
next
  case False
  then obtain r where r: "c = p * r" and co: "\<forall>j < n. j * p mod (p * r) \<noteq> 0 \<longrightarrow> ioaddrs ! j = ioaddrs ! (j - 1) + of_nat p"
    using fit by (auto simp: pages_fit_def)
  let ?i = "b div c" and ?t = "b mod c div p"
  have at: "?i * c div p = ?i * r" "?i * c mod p = 0" using c(2) by (simp_all add: r)
  have t: "?t < r" using c r by (simp add: less_mult_imp_div_less mult.commute)
  have b': "b = (?i * r + ?t) * p + b mod c mod p" using div_mult_mod_eq [of b c] div_mult_mod_eq [of "b mod c" p] by (simp add: r algebra_simps)
  have "b mod c mod p = b mod p" using r by (simp add: mod_mod_cancel)
  moreover have bp: "b div p = ?i * r + ?t"
  proof -
    have "((?i * r + ?t) * p + b mod c mod p) div p = ?i * r + ?t" using c(2) by simp
    then show ?thesis using b' by simp
  qed
  moreover have "?i * r + ?t < n" using b unfolding bp [symmetric] by (simp add: less_mult_imp_div_less mult.commute)
  from contiguous_pages [OF co c(2) t this] have "ioaddrs ! (?i * r + ?t) = ioaddrs ! (?i * r) + of_nat (p * ?t)" .
  moreover have "of_nat (b mod c) = (of_nat (p * ?t) + of_nat (b mod c mod p) :: u64)" by (metis mult_div_mod_eq of_nat_add)
  ultimately show ?thesis by (simp only: at) (simp add: algebra_simps)
qed

text \<open>
  C14: when the controller page size divides the page size of the mapped region, or is a multiple of it and the
  region's pages are contiguous on the bus within each controller page, the controller page list of the
  window translates every byte of the region to the bus address the region's own page list gives it, never
  reads past that list, and covers the region exactly.
\<close>

theorem dma_window_translates_every_byte:
  assumes "region_ok ctrl md ioaddrs" "pages_fit (unat (c_page_size ctrl)) (unat (mp_page_size md)) (unat (mp_n_pages md)) ioaddrs"
  shows "\<exists>h. nvm_dma_handle_populate md ctrl ioaddrs = Some h
    \<and> unat (d_n_ioaddrs h) = length (d_ioaddrs h) \<and> d_vaddr h = mp_vaddr md
    \<and> length (d_ioaddrs h) * unat (c_page_size ctrl) = unat (mp_page_size md) * unat (mp_n_pages md)
    \<and> (\<forall>b < unat (mp_page_size md) * unat (mp_n_pages md).
         d_ioaddrs h ! (b div unat (c_page_size ctrl)) + of_nat (b mod unat (c_page_size ctrl)) =
         ioaddrs ! (b div unat (mp_page_size md)) + of_nat (b mod unat (mp_page_size md)))"
proof -
  let ?c = "unat (c_page_size ctrl)" and ?p = "unat (mp_page_size md)"
  from region_populated [OF assms(1)] obtain h where h: "nvm_dma_handle_populate md ctrl ioaddrs = Some h"
    "d_vaddr h = mp_vaddr md" "unat (d_n_ioaddrs h) = length (d_ioaddrs h)"
    and len: "length (d_ioaddrs h) * ?c = ?p * unat (mp_n_pages md)"
    and tr: "\<And>i. i < length (d_ioaddrs h) \<Longrightarrow>
      d_ioaddrs h ! i = ioaddrs ! (i * ?c div ?p) + of_nat (i * ?c mod ?p)" by blast
  have c: "0 < ?c" "0 < ?p" using assms(1) by (auto simp: region_ok_def unat_gt_0)
  have "d_ioaddrs h ! (b div ?c) + of_nat (b mod ?c) = ioaddrs ! (b div ?p) + of_nat (b mod ?p)"
    if b: "b < ?p * unat (mp_n_pages md)" for b
  proof -
    have i: "b div ?c < length (d_ioaddrs h)"
      using b unfolding len [symmetric] by (simp add: less_mult_imp_div_less)
    show ?thesis using tr [OF i] page_translates [OF assms(2) c b] by simp
  qed
  with h len show ?thesis by blast
qed

definition demo_map :: dma_map where
  "demo_map = \<lparr>mp_vaddr = 0x700000, mp_page_size = 0x10000, mp_n_pages = 2\<rparr>"

theorem dma_window_translates_every_byte_witness:
  "\<exists>h. nvm_dma_handle_populate demo_map demo_ctrl [0x80000, 0x300000] = Some h
     \<and> d_ioaddrs h ! 17 + of_nat 5 = 0x301005"
proof -
  have r: "region_ok demo_ctrl demo_map [0x80000, 0x300000]"
    by (simp add: region_ok_def demo_ctrl_def demo_map_def)
  have d: "pages_fit (unat (c_page_size demo_ctrl)) (unat (mp_page_size demo_map)) (unat (mp_n_pages demo_map)) [0x80000, 0x300000]"
    by (simp add: pages_fit_def demo_ctrl_def demo_map_def)
  from dma_window_translates_every_byte [OF r d] obtain h where h:
    "nvm_dma_handle_populate demo_map demo_ctrl [0x80000, 0x300000] = Some h"
    and t: "\<And>b. b < unat (mp_page_size demo_map) * unat (mp_n_pages demo_map) \<Longrightarrow>
      d_ioaddrs h ! (b div unat (c_page_size demo_ctrl)) + of_nat (b mod unat (c_page_size demo_ctrl)) =
      [0x80000, 0x300000] ! (b div unat (mp_page_size demo_map)) + of_nat (b mod unat (mp_page_size demo_map))"
    by blast
  from t [of "0x11005"] have "d_ioaddrs h ! 17 + of_nat 5 = 0x301005"
    by (simp add: demo_ctrl_def demo_map_def)
  with h show ?thesis by blast
qed

subsection \<open>Windows through the kernel module\<close>

definition im_owned :: "ioctl_mapping \<Rightarrow> res multiset" where
  "im_owned md = {#(Heap, im_self md), (Fd, im_ioctl_fd md)#} +
     (if im_mapped md then {#(Pinned, unat (mp_vaddr (im_mapping md)))#} else {#})"

lemma remove_mapping_undo:
  assumes "gains s s' (r + im_owned md)"
  shows "\<exists>s''. remove_mapping md s' = Some s'' \<and> gains s s'' r"
  using assms
  by (simp add: remove_mapping_def unmap_memory_def im_owned_def Let_def free_def release_def gains_def)

lemma create_mapping_spec:
  assumes "create_mapping ndebug sysconf type vaddr sz s = Some (e, md, s')"
  shows "case md of None \<Rightarrow> e \<noteq> 0 \<and> gains s s' {#}
    | Some md \<Rightarrow> e = 0 \<and> gains s s' (im_owned md) \<and> \<not> im_mapped md \<and> im_self md = os_next s \<and> os_next s < os_next s'
        \<and> mp_vaddr (im_mapping md) = vaddr"
proof -
  obtain p s1 where m: "malloc s = (p, s1)" by fastforce
  show ?thesis
  proof (cases p)
    case None
    then show ?thesis using assms m malloc_none [of s s1]
      by (auto simp: create_mapping_def Let_def split: if_splits)
  next
    case (Some q)
    have g1: "gains s s1 {#(Heap, q)#}" and q: "q = os_next s" "os_next s1 = Suc (os_next s)"
      using m Some malloc_some [of s q s1]
      by (auto simp: malloc_def acquire_def sys_call_def grant_def Let_def split: if_splits)
    obtain x fd s2 where a: "acquire Fd s1 = (x, fd, s2)" by (metis prod_cases3)
    have n: "os_next s1 \<le> os_next s2" using a
      by (auto simp: acquire_def sys_call_def grant_def Let_def split: if_splits)
    show ?thesis
    proof (cases "x = 0")
      case True
      have "gains s s2 {#(Fd, fd), (Heap, q)#}" using gains_trans [OF g1 acquire_ok] a True by fastforce
      then show ?thesis using assms m Some a True q n
        by (auto simp: create_mapping_def Let_def im_owned_def add_mset_commute split: if_splits)
    next
      case False
      have "gains s s2 {#(Heap, q)#}" using gains_trans [OF g1 acquire_err [OF a False]] by simp
      from free_undo_only [OF this] show ?thesis using assms m Some a False
        by (auto simp: create_mapping_def Let_def split: if_splits)
    qed
  qed
qed

lemma populate_handle_spec:
  assumes "populate_handle c ctrl kaddrs s = Some (e, c', s')"
  shows "dc_self c' = dc_self c \<and> dc_release c' = dc_release c \<and>
    (if e = 0 then gains s s' {#(Pinned, unat (mp_vaddr (im_mapping (dc_map c))))#} \<and> dc_map c' = dc_map c\<lparr>im_mapped := True\<rparr>
     else gains s s' {#} \<and> dc_map c' = dc_map c)"
proof -
  obtain p s1 where m: "malloc s = (p, s1)" by fastforce
  show ?thesis
  proof (cases p)
    case None
    then show ?thesis using assms m malloc_none [of s s1] by (auto simp: populate_handle_def)
  next
    case (Some q)
    have g1: "gains s s1 {#(Heap, q)#}" using m Some malloc_some by blast
    obtain x s2 where c: "sys_call s1 = (x, s2)" by fastforce
    have g2: "gains s s2 {#(Heap, q)#}"
      using gains_trans [OF g1 sys_call_gains] c by (metis add.right_neutral snd_conv)
    show ?thesis
    proof (cases "x = 0")
      case False
      then show ?thesis using assms m Some c free_undo_only [OF g2]
        by (auto simp: populate_handle_def map_memory_def Let_def)
    next
      case True
      let ?v = "unat (mp_vaddr (im_mapping (dc_map c)))"
      have "gains s (s2\<lparr>os_live := add_mset (Pinned, ?v) (os_live s2)\<rparr>) ({#(Pinned, ?v)#} + {#(Heap, q)#})"
        using g2 by (simp add: gains_def)
      from free_undo [OF this] True show ?thesis using assms m Some c
        by (auto simp: populate_handle_def map_memory_def Let_def split: bind_splits)
    qed
  qed
qed

lemma remove_undo:
  assumes "dc_release c = Some remove_mapping" "gains s s' (r + im_owned (dc_map c) + {#(Heap, dc_self c)#})"
  shows "\<exists>s''. nvm_dma_remove c s' = Some s'' \<and> gains s s'' r"
proof -
  have "gains s s' ((r + {#(Heap, dc_self c)#}) + im_owned (dc_map c))"
    using assms(2) by (simp add: add.commute add.left_commute)
  from remove_mapping_undo [OF this] obtain s1 where
    "remove_mapping (dc_map c) s' = Some s1" "gains s s1 (r + {#(Heap, dc_self c)#})" by blast
  with free_undo assms(1) show ?thesis by (simp add: nvm_dma_remove_def)
qed

lemma map_ioctl_success:
  assumes "c_page_size (k_handle ctrl) \<noteq> 0"
    and "nvm_dma_map_ioctl ndebug sysconf type ctrl kaddrs vaddr sz s = Some (0, h, s')"
  obtains c where "h = Some c" "dc_release c = Some remove_mapping" "im_mapped (dc_map c)"
    "mp_vaddr (im_mapping (dc_map c)) = vaddr"
    "gains s s' (im_owned (dc_map c) + {#(Heap, dc_self c)#})"
proof -
  from assms(2) obtain e md s1 where cm: "create_mapping ndebug sysconf type vaddr sz s = Some (e, md, s1)"
    by (auto simp: nvm_dma_map_ioctl_def split: if_splits bind_splits)
  show thesis
  proof (cases md)
    case None
    then show thesis using assms(2) cm create_mapping_spec [OF cm]
      by (auto simp: nvm_dma_map_ioctl_def split: if_splits)
  next
    case (Some m)
    have g1: "gains s s1 (im_owned m)" "\<not> im_mapped m" "mp_vaddr (im_mapping m) = vaddr"
      using create_mapping_spec [OF cm] Some by auto
    from assms(1) show thesis
    proof (cases rule: nvm_dma_create_spec [where head = im_mapping and md = m and rel = remove_mapping and s = s1])
      case (refused e' s2)
      then show thesis using assms(2) cm Some
        by (auto simp: nvm_dma_map_ioctl_def split: if_splits bind_splits)
    next
      case (made c s2)
      from assms(2) cm Some made(1) obtain e2 c' s3 where p:
        "populate_handle c (k_handle ctrl) kaddrs s2 = Some (e2, c', s3)"
        by (auto simp: nvm_dma_map_ioctl_def split: if_splits bind_splits)
      have r: "h = Some c'" "e2 = 0" "s' = s3"
        using assms(2) cm Some made(1) p by (auto simp: nvm_dma_map_ioctl_def split: if_splits bind_splits)
      note ph = populate_handle_spec [OF p]
      have "gains s2 s3 {#(Pinned, unat vaddr)#}" using ph r(2) made(3) g1(3) by simp
      from gains_trans [OF gains_trans [OF g1(1) made(2)] this]
      have "gains s s3 (im_owned m + {#(Heap, dc_self c)#} + {#(Pinned, unat vaddr)#})" .
      then show thesis
        using that [of c'] r ph made(3,4) g1 by (auto simp: im_owned_def add_mset_commute)
    qed
  qed
qed

text \<open>
  a window made by \<open>nvm_dma_map_host\<close> or \<open>nvm_dma_map_device\<close> holds the pages of its address
  pinned, and unmapping it gives back the pages, the descriptor and all memory, whatever was acquired
  in between.
\<close>

theorem dma_ioctl_round_trip:
  assumes "c_page_size (k_handle ctrl) \<noteq> 0"
    and "nvm_dma_map_host ndebug sysconf ctrl kaddrs vaddr sz s = Some (0, h, s')
       \<or> nvm_dma_map_device ndebug sysconf ctrl kaddrs vaddr sz s = Some (0, h, s')"
    and "gains s' s1 r"
  shows "(Pinned, unat vaddr) \<in># os_live s' \<and> (\<exists>s2. nvm_dma_unmap h s1 = Some s2 \<and> gains s s2 r)"
proof -
  from assms(1,2) obtain c where c: "h = Some c" "dc_release c = Some remove_mapping" "im_mapped (dc_map c)"
    "mp_vaddr (im_mapping (dc_map c)) = vaddr" and g: "gains s s' (im_owned (dc_map c) + {#(Heap, dc_self c)#})"
    unfolding nvm_dma_map_host_def nvm_dma_map_device_def by (auto elim: map_ioctl_success)
  have "gains s s1 (r + im_owned (dc_map c) + {#(Heap, dc_self c)#})"
    using gains_trans [OF g assms(3)] by (simp add: add.commute add.left_commute)
  from remove_undo [OF c(2) this] obtain s2 where "nvm_dma_remove c s1 = Some s2" "gains s s2 r" by blast
  moreover have "(Pinned, unat vaddr) \<in># os_live s'" using g c(3,4) by (simp add: gains_def im_owned_def)
  ultimately show ?thesis using c(1) by (simp add: nvm_dma_unmap_def)
qed

definition demo_os :: os where
  "demo_os = \<lparr>os_live = {#}, os_next = 1, os_bad = False, os_env = \<lambda>_. 0, os_lock = \<lambda>_. 0, os_sci = \<lambda>_. SCI_ERR_OK,
     os_rel = \<lambda>_. SCI_ERR_OK, os_addr = \<lambda>n. 0x10000 * of_nat (Suc n), os_recv = \<lambda>_. [], os_sent = [], os_shm = \<lambda>_ _. 0, os_calls = 0\<rparr>"

definition demo_controller :: controller where
  "demo_controller = \<lparr>k_self = 0, k_type = DEVICE_TYPE_SYSFS, k_ref = None, k_fd = 3, k_handle = demo_ctrl\<rparr>"

lemma demo_page_count: "NVM_PAGE_ALIGN 0x2000 0x1000 = 0x2000"
  by (simp add: NVM_PAGE_ALIGN_def NVM_PAGE_MASK_def)

lemma demo_map_host:
  "\<exists>h s'. nvm_dma_map_host False 4096 demo_controller [0x80000, 0x90000] 0x700000 0x2000 demo_os = Some (0, h, s')"
proof -
  have "region_ok demo_ctrl \<lparr>mp_vaddr = 0x700000, mp_page_size = 0x1000, mp_n_pages = 2\<rparr> [0x80000, 0x90000]"
    by (simp add: region_ok_def demo_ctrl_def)
  from region_populated [OF this] obtain h where
    "nvm_dma_handle_populate \<lparr>mp_vaddr = 0x700000, mp_page_size = 0x1000, mp_n_pages = 2\<rparr> demo_ctrl [0x80000, 0x90000] = Some h"
    by blast
  then show ?thesis
    by (simp add: nvm_dma_map_host_def nvm_dma_map_ioctl_def create_mapping_def nvm_dma_create_def populate_handle_def
        map_memory_def nvm_fd_from_ctrl_def demo_controller_def demo_os_def malloc_def acquire_def sys_call_def grant_def
        nvm_host_page_size_def demo_page_count Let_def) (simp add: demo_ctrl_def)
qed

theorem dma_ioctl_round_trip_witness:
  "\<exists>h s' s2. nvm_dma_map_host False 4096 demo_controller [0x80000, 0x90000] 0x700000 0x2000 demo_os = Some (0, h, s')
     \<and> nvm_dma_unmap h s' = Some s2 \<and> os_live s2 = {#} \<and> \<not> os_bad s2"
proof -
  from demo_map_host obtain h s' where
    m: "nvm_dma_map_host False 4096 demo_controller [0x80000, 0x90000] 0x700000 0x2000 demo_os = Some (0, h, s')" by blast
  have "\<exists>s2. nvm_dma_unmap h s' = Some s2 \<and> gains demo_os s2 {#}"
    using dma_ioctl_round_trip [OF _ disjI1 [OF m] gains_refl]
    by (simp add: demo_controller_def demo_ctrl_def)
  then show ?thesis using m by (auto simp: gains_def demo_os_def)
qed

text \<open>A resource that is not held any more stays so, or the ledger is bad.\<close>

definition gone :: "res \<Rightarrow> os \<Rightarrow> bool" where
  "gone x s \<longleftrightarrow> x \<notin># os_live s \<or> os_bad s"

lemma gone_release: "gone x s \<Longrightarrow> gone x (release k h s)"
  by (auto simp: gone_def release_def dest: in_diffD)

lemma gone_release_again: "gone (k, h) s \<Longrightarrow> os_bad (release k h s)"
  by (auto simp: gone_def release_def)

lemma gone_released: "count (os_live s) (k, h) \<le> 1 \<Longrightarrow> gone (k, h) (release k h s)"
  by (auto simp: gone_def release_def not_in_iff)

text \<open>
  when making a window through the kernel module fails after the container was made (no memory
  for the address list, or the kernel refuses the pages), the mapping descriptor is released twice:
  its memory is freed a second time.
\<close>

theorem dma_ioctl_double_release:
  assumes "c_page_size (k_handle ctrl) \<noteq> 0" "0 \<le> nvm_fd_from_ctrl ctrl"
    and "\<forall>h. (Heap, h) \<in># os_live s \<longrightarrow> h < os_next s"
    and "create_mapping ndebug sysconf type vaddr sz s = Some (0, Some md, s1)"
    and "nvm_dma_create im_mapping (k_handle ctrl) md remove_mapping s1 = Some (0, Some c, s2)"
    and "populate_handle c (k_handle ctrl) kaddrs s2 = Some (e, c', s3)" "e \<noteq> 0"
  shows "\<exists>s'. nvm_dma_map_ioctl ndebug sysconf type ctrl kaddrs vaddr sz s = Some (e, None, s') \<and> os_bad s'"
proof -
  have g1: "gains s s1 (im_owned md)" "\<not> im_mapped md" "im_self md = os_next s" "os_next s < os_next s1"
    using create_mapping_spec [OF assms(4)] by auto
  have cr: "gains s1 s2 {#(Heap, dc_self c)#}" "dc_map c = md" "dc_release c = Some remove_mapping" "dc_self c = os_next s1"
    using nvm_dma_create_spec [OF assms(1), where head = im_mapping and md = md and rel = remove_mapping and s = s1] assms(5)
    by fastforce+
  have ph: "gains s2 s3 {#}" "dc_map c' = md" "dc_self c' = dc_self c" "dc_release c' = Some remove_mapping"
    using populate_handle_spec [OF assms(6)] assms(7) cr(2,3) by auto
  have fresh: "count (os_live s) (Heap, im_self md) = 0"
    using assms(3) g1(3) by (auto simp: count_eq_zero_iff)
  let ?f = "release Fd (im_ioctl_fd md) s3"
  have "count (os_live s3) (Heap, im_self md) = 1"
    using g1 cr ph fresh by (auto simp: gains_def im_owned_def)
  then have once: "count (os_live ?f) (Heap, im_self md) \<le> 1" by (simp add: release_def)
  have "\<exists>s'. nvm_dma_map_ioctl ndebug sysconf type ctrl kaddrs vaddr sz s = Some (e, None, s') \<and>
      s' = release Heap (im_self md) (release Fd (im_ioctl_fd md) (release Heap (dc_self c) (release Heap (im_self md) ?f)))"
    using assms(2,4,5,6,7) ph g1(2)
    by (simp add: nvm_dma_map_ioctl_def nvm_dma_remove_def remove_mapping_def free_def Let_def)
  moreover have "os_bad (release Heap (im_self md) (release Fd x (release Heap y (release Heap (im_self md) ?f))))" for x y
    by (intro gone_release_again gone_release gone_released once)
  ultimately show ?thesis by auto
qed

definition refusing_os :: os where
  "refusing_os = demo_os\<lparr>os_env := \<lambda>n. if n = 4 then ENOMEM else 0\<rparr>"

theorem dma_ioctl_double_release_witness:
  "\<exists>s'. nvm_dma_map_ioctl False 4096 MAP_TYPE_HOST demo_controller [] 0x700000 0x2000 refusing_os = Some (ENOMEM, None, s')
     \<and> os_bad s'"
proof -
  let ?md = "\<lparr>im_self = 1, im_mapping = \<lparr>mp_vaddr = 0x700000, mp_page_size = 4096, mp_n_pages = 2\<rparr>,
      im_type = MAP_TYPE_HOST, im_ioctl_fd = 2, im_mapped = False\<rparr>"
  let ?s1 = "refusing_os\<lparr>os_live := {#(Fd, 2), (Heap, 1)#}, os_next := 3, os_calls := 2\<rparr>"
  let ?c = "\<lparr>dc_self = 3, dc_map = ?md, dc_release = Some remove_mapping, dc_handle = dma_unset\<rparr>"
  let ?s2 = "?s1\<lparr>os_live := {#(Heap, 3), (Fd, 2), (Heap, 1)#}, os_next := 4, os_calls := 3\<rparr>"
  have 1: "create_mapping False 4096 MAP_TYPE_HOST 0x700000 0x2000 refusing_os = Some (0, Some ?md, ?s1)"
    by (simp add: create_mapping_def refusing_os_def demo_os_def malloc_def acquire_def sys_call_def grant_def
        nvm_host_page_size_def demo_page_count Let_def)
  have 2: "nvm_dma_create im_mapping (k_handle demo_controller) ?md remove_mapping ?s1 = Some (0, Some ?c, ?s2)"
    by (simp add: nvm_dma_create_def refusing_os_def demo_os_def malloc_def acquire_def sys_call_def grant_def
        demo_controller_def demo_ctrl_def Let_def)
  have 3: "populate_handle ?c (k_handle demo_controller) [] ?s2 = Some (ENOMEM, ?c, ?s2\<lparr>os_next := 5, os_calls := 5\<rparr>)"
    by (simp add: populate_handle_def map_memory_def refusing_os_def demo_os_def malloc_def acquire_def sys_call_def
        grant_def free_def release_def Let_def)
  show ?thesis
    by (rule dma_ioctl_double_release [OF _ _ _ 1 2 3])
       (simp_all add: demo_controller_def demo_ctrl_def nvm_fd_from_ctrl_def refusing_os_def demo_os_def)
qed

end
