(* ===== verification/Err.thy ===== *)
theory Err
  imports Types
begin

unbundle bit_operations_syntax

text \<open>
  Status codes: the macros of \<open>include/nvm_error.h\<close> and the message tables of \<open>src/error.c\<close>.  The
  status of a completion is read through \<open>NVM_CPL_STATUS\<close>, a 16-bit access, and then picked
  apart at the bit positions of the macros.  A packed status is a C \<open>int\<close>: an errno when
  positive, a negated status code type and status code otherwise.
\<close>

section \<open>Reading a completion\<close>

definition NVM_ERR_SCT :: "mem \<Rightarrow> u64 \<Rightarrow> u8" where
  "NVM_ERR_SCT m cpl = ucast (RB (ucast (load16 m (NVM_CPL_STATUS cpl))) 27 25)"

definition NVM_ERR_SC :: "mem \<Rightarrow> u64 \<Rightarrow> u8" where
  "NVM_ERR_SC m cpl = ucast (RB (ucast (load16 m (NVM_CPL_STATUS cpl))) 24 17)"

definition NVM_ERR_DNR :: "mem \<Rightarrow> u64 \<Rightarrow> u8" where
  "NVM_ERR_DNR m cpl = ucast (RB (ucast (load16 m (NVM_CPL_STATUS cpl))) 31 31)"

definition NVM_ERR_STATUS :: "mem \<Rightarrow> u64 \<Rightarrow> int" where
  "NVM_ERR_STATUS m cpl =
     (if cpl \<noteq> NULL then - (push_bit 8 (uint (NVM_ERR_SCT m cpl)) OR uint (NVM_ERR_SC m cpl)) else 0)"

definition NVM_ERR_OK :: "mem \<Rightarrow> u64 \<Rightarrow> bool" where
  "NVM_ERR_OK m cpl \<longleftrightarrow> NVM_ERR_SCT m cpl = 0 \<and> NVM_ERR_SC m cpl = 0"

section \<open>Packed status\<close>

definition NVM_ERR_PACK :: "mem \<Rightarrow> u64 \<Rightarrow> int \<Rightarrow> int" where
  "NVM_ERR_PACK m cpl err = (if err \<noteq> 0 then err else NVM_ERR_STATUS m cpl)"

definition NVM_ERR_UNPACK_ERRNO :: "int \<Rightarrow> int" where
  "NVM_ERR_UNPACK_ERRNO status = (if status > 0 then status else 0)"

definition NVM_ERR_UNPACK_SCT :: "int \<Rightarrow> int" where
  "NVM_ERR_UNPACK_SCT status = (if status < 0 then drop_bit 8 status AND 0xff else 0)"

definition NVM_ERR_UNPACK_SC :: "int \<Rightarrow> int" where
  "NVM_ERR_UNPACK_SC status = (if status < 0 then status AND 0xff else 0)"

definition nvm_ok :: "int \<Rightarrow> bool" where
  "nvm_ok status \<longleftrightarrow> status = 0"

section \<open>Messages\<close>

definition generic_status :: "string list" where
  "generic_status = [
     ''Success'',
     ''Invalid command opcode'',
     ''Invalid field in command'',
     ''Command ID conflict'',
     ''Data transfer error'',
     ''Commands aborted due to power loss notification'',
     ''Internal error'',
     ''Command abort requested'',
     ''Command aborted due to SQ deletion'',
     ''Command aborted due to failed fused command'',
     ''Command aborted due to missing fused command'',
     ''Invalid namespace or format'',
     ''Command sequence error'',
     ''Invalid SGL segment descriptor'',
     ''Invalid number of SQL descriptors'',
     ''Data SGL length invalid'',
     ''Metadata SGL length invalid'',
     ''SGL descriptor type invalid'',
     ''Invalid use of controller memory buffer'',
     ''PRP offset invalid'',
     ''Atomic write unit exceeded'',
     ''Operation denied'',
     ''SGL offset invalid'',
     ''Unknown/reserved'',
     ''Host identifier inconsistent format'',
     ''Keep alive timer expired'',
     ''Keep alive timer invalid'',
     ''Command aborted due to preempt and abort'',
     ''Sanitize failed'',
     ''Sanitize in progress'',
     ''SGL data block granularity invalid'',
     ''Command not supported for queue in CMB'']"

definition generic_status_nvm_commands :: "string list" where
  "generic_status_nvm_commands = [
     ''LBA out of range'',
     ''Capacity exceeded'',
     ''Namespace not ready'',
     ''Reservation conflict'',
     ''Format in progress'']"

definition command_specific_status :: "string list" where
  "command_specific_status = [
     ''Completion queue invalid'',
     ''Invalid queue identifier'',
     ''Invalid queue size'',
     ''Abort command limit exceeded'',
     ''Unknown/reserved'',
     ''Asynchronous event request limit exceeded'',
     ''Invalid firmware slot'',
     ''Invalid firmware image'',
     ''Invalid interrupt vector'',
     ''Invalid log page'',
     ''Invalid format'',
     ''Firmware activation requires conventional reset'',
     ''Invalid queue deletion'',
     ''Feature identifier not saveable'',
     ''Feature not changeable'',
     ''Feature not namespace specific'',
     ''Firmware activation requires NVM subsystem reset'',
     ''Firmware activation requires reset'',
     ''Firmware activation requires maximum time violation'',
     ''Firmware activation prohibited'',
     ''Overlapping range'',
     ''Namespace insufficient capacity'',
     ''Namespace identifier unavailable'',
     ''Unknown/reserved'',
     ''Namespace already attached'',
     ''Namespace is private'',
     ''Namespace not attached'',
     ''Thin provisioning not supported'',
     ''Controller list invalid'',
     ''Device self-test in progress'',
     ''Boot partition write prohibited'',
     ''Invalid controller identifier'',
     ''Invalid secondary controller state'',
     ''Invalid number of controller resources'',
     ''Invalid resource identifier'']"

definition command_specific_status_nvm_commands :: "string list" where
  "command_specific_status_nvm_commands = [
     ''Conflicting attributes'',
     ''Invalid protection information'',
     ''Attempted write to read only range'']"

definition media_and_data_integrity_nvm_commands :: "string list" where
  "media_and_data_integrity_nvm_commands = [
     ''Write fault'',
     ''Unrecovered read error'',
     ''End-to-end guard check error'',
     ''End-to-end application tag check error'',
     ''End-to-end reference tag check error'',
     ''Compare failure'',
     ''Access denied'',
     ''Deallocated or unwritten logical block'']"

text \<open>An index outside its table is \<open>None\<close>.\<close>

definition table_at :: "string list \<Rightarrow> nat \<Rightarrow> string option" where
  "table_at t i = (if i < length t then Some (t ! i) else None)"

definition lookup_string :: "u8 \<Rightarrow> u8 \<Rightarrow> string option" where
  "lookup_string status_code_type status_code =
     (if status_code_type = 0x00 then
        (if status_code < 0x20 then table_at generic_status (unat status_code)
         else if 0x80 \<le> status_code \<and> status_code \<le> 0x84
         then table_at generic_status_nvm_commands (unat (status_code - 0x80))
         else Some ''Unknown generic error'')
      else if status_code_type = 0x01 then
        (if status_code < 0x23 then table_at command_specific_status (unat status_code)
         else if 0x80 \<le> status_code \<and> status_code \<le> 0x82
         then table_at command_specific_status_nvm_commands (unat (status_code - 0x80))
         else Some ''Unknown command specific error'')
      else if status_code_type = 0x02 then
        (if 0x80 \<le> status_code \<and> status_code \<le> 0x87
         then table_at media_and_data_integrity_nvm_commands (unat (status_code - 0x80))
         else Some ''Unknown media or data integrity error'')
      else Some ''Unknown status code type'')"

text \<open>The messages of \<open>strerror\<close> are a parameter.\<close>

definition nvm_strerror :: "(int \<Rightarrow> string) \<Rightarrow> int \<Rightarrow> string option" where
  "nvm_strerror strerror status =
     (let err = NVM_ERR_UNPACK_ERRNO status;
          sct = word_of_int (NVM_ERR_UNPACK_SCT status) :: u8;
          sc = word_of_int (NVM_ERR_UNPACK_SC status) :: u8
      in if sct \<noteq> 0 \<or> sc \<noteq> 0 then lookup_string sct sc else Some (strerror err))"

section \<open>Lemmas\<close>

lemma status_bits_above_field:
  "NVM_ERR_SCT m cpl = 0" "NVM_ERR_SC m cpl = 0" "NVM_ERR_DNR m cpl = 0"
  by (simp_all add: NVM_ERR_SCT_def NVM_ERR_SC_def NVM_ERR_DNR_def RB_above_width)

lemma NVM_ERR_STATUS_0 [simp]: "NVM_ERR_STATUS m cpl = 0"
  by (simp add: NVM_ERR_STATUS_def status_bits_above_field)

lemma NVM_ERR_OK_always [simp]: "NVM_ERR_OK m cpl"
  by (simp add: NVM_ERR_OK_def status_bits_above_field)

lemma table_at_Some: "i < length t \<Longrightarrow> table_at t i = Some (t ! i)"
  by (simp add: table_at_def)

lemma table_lengths:
  "length generic_status = 0x20" "length generic_status_nvm_commands = 5"
  "length command_specific_status = 0x23" "length command_specific_status_nvm_commands = 3"
  "length media_and_data_integrity_nvm_commands = 8"
  by (simp_all add: generic_status_def generic_status_nvm_commands_def command_specific_status_def
      command_specific_status_nvm_commands_def media_and_data_integrity_nvm_commands_def)

lemma unat_code_offset: "0x80 \<le> sc \<Longrightarrow> unat (sc - 0x80 :: u8) = unat sc - 0x80"
  by (simp add: unat_sub)

lemma lookup_string_in_table: "lookup_string sct sc \<noteq> None"
  by (auto simp: lookup_string_def table_at_def table_lengths unat_code_offset word_less_nat_alt
      word_le_nat_alt)

lemma mod_from: "x = q * b + r \<Longrightarrow> 0 \<le> r \<Longrightarrow> r < b \<Longrightarrow> x mod b = r" for x q b r :: int
  by simp

lemma div_from: "x = q * b + r \<Longrightarrow> 0 \<le> r \<Longrightarrow> r < b \<Longrightarrow> x div b = q" for x q b r :: int
  by simp

lemma unpack_codes:
  fixes sct sc :: int
  assumes "0 \<le> sct" "sct < 256" "0 < sc" "sc < 256"
  shows "NVM_ERR_UNPACK_SCT (- (sct * 256 + sc)) = 255 - sct"
    and "NVM_ERR_UNPACK_SC (- (sct * 256 + sc)) = 256 - sc"
proof -
  have m: "x AND 0xff = x mod 256" for x :: int
  proof -
    have "(0xff :: int) = mask 8" by (simp add: mask_eq_exp_minus_1)
    then have "x AND 0xff = take_bit 8 x" by (simp only: take_bit_eq_mask)
    then show ?thesis by (simp add: take_bit_eq_mod)
  qed
  let ?s = "- (sct * 256 + sc)"
  have neg: "?s < 0" using assms by linarith
  have e: "?s = (- sct - 1) * 256 + (256 - sc)" by simp
  have "?s mod 256 = 256 - sc" by (rule mod_from [OF e]) (use assms in auto)
  then show "NVM_ERR_UNPACK_SC ?s = 256 - sc" using neg by (simp only: NVM_ERR_UNPACK_SC_def m if_True)
  have d: "?s div 256 = - sct - 1" by (rule div_from [OF e]) (use assms in auto)
  have "drop_bit 8 ?s = - sct - 1" using d by (simp only: drop_bit_eq_div) simp
  moreover have "(- sct - 1) mod 256 = 255 - sct"
    by (rule mod_from [of _ "- 1"]) (use assms in auto)
  ultimately show "NVM_ERR_UNPACK_SCT ?s = 255 - sct"
    using neg by (simp only: NVM_ERR_UNPACK_SCT_def m if_True)
qed

section \<open>Properties\<close>

text \<open>
  C36: no status a controller reports reaches the caller: whatever the completion holds, packing it
  with an errno gives the errno, and the completion counts as good.
\<close>

theorem controller_status_lost:
  "NVM_ERR_PACK m cpl err = err \<and> NVM_ERR_OK m cpl \<and> nvm_ok (NVM_ERR_PACK m cpl 0)"
  by (simp add: NVM_ERR_PACK_def nvm_ok_def)

text \<open>
  \<open>nvm_strerror\<close> never reads outside its tables and gives the system's message for an errno; but
  the negated status code type and status code are not negated back, so that every packed controller
  status is an unknown status code type.
\<close>

theorem strerror_messages:
  assumes "0 < err" "0 \<le> sct" "sct < 8" "0 < sc" "sc < 256"
  shows "nvm_strerror f status \<noteq> None \<and> nvm_strerror f err = Some (f err) \<and> nvm_strerror f 0 = Some (f 0)
    \<and> nvm_strerror f (- (sct * 256 + sc)) = Some ''Unknown status code type''"
proof -
  have "nvm_strerror f status \<noteq> None"
    using lookup_string_in_table by (simp add: nvm_strerror_def Let_def)
  moreover have "nvm_strerror f err = Some (f err)" "nvm_strerror f 0 = Some (f 0)"
    using assms(1) by (simp_all add: nvm_strerror_def NVM_ERR_UNPACK_SCT_def NVM_ERR_UNPACK_SC_def NVM_ERR_UNPACK_ERRNO_def)
  moreover have "nvm_strerror f (- (sct * 256 + sc)) = Some ''Unknown status code type''"
  proof -
    define st x where "st = - (sct * 256 + sc)" and "x = (word_of_int (255 - sct) :: u8)"
    have u: "(word_of_int (NVM_ERR_UNPACK_SCT st) :: u8) = x" using unpack_codes(1) [of sct sc] assms by (simp add: st_def x_def)
    have "uint x = 255 - sct"
      unfolding x_def by (subst uint_word_of_int_eq, rule take_bit_int_eq_self) (use assms in auto)
    then have "2 < x" using assms by (simp add: word_less_def)
    then have "x \<noteq> 0 \<and> x \<noteq> 1 \<and> x \<noteq> 2" by auto
    then have "nvm_strerror f st = Some ''Unknown status code type''"
      by (simp add: nvm_strerror_def u lookup_string_def Let_def)
    then show ?thesis by (simp only: st_def)
  qed
  ultimately show ?thesis by blast
qed

theorem strerror_messages_witness:
  "nvm_strerror (\<lambda>_. ''e'') (- (1 * 256 + 2)) = Some ''Unknown status code type''"
  using strerror_messages [of 1 1 2] by simp

end
