(* ===== verification/Rpc.thy ===== *)
theory Rpc
  imports Reset Dma Err
begin

unbundle bit_operations_syntax

text \<open>
  Admin queue references and local execution of admin commands: \<open>src/rpc.c\<close> and \<open>rpc.h\<close>.  A
  reference is a server of local admin queues or a client of a remote one; what it points to is its
  data, either the admin queues or a binding (of a type that \<open>dis/rpc.c\<close> fixes), and its stub says
  which.  Deleter callbacks are functions in the records.  The lock of a reference is a resource that
  is held between locking and unlocking; unlocking a lock that is not held marks the ledger bad.
  Dereferencing NULL is \<open>None\<close>.
\<close>

section \<open>Handles and references\<close>

record local_admin =
  a_self :: nat
  a_acq :: nvm_queue
  a_asq :: nvm_queue
  a_timeout :: u64

datatype 'b ref_data = Admin_queues local_admin | Binding 'b

datatype rpc_stub = Execute_command | Remote_command

type_synonym 'd rpc_deleter = "'d \<Rightarrow> u32 \<Rightarrow> int \<Rightarrow> os \<Rightarrow> os option"

record 'h rpc_handle =
  h_self :: nat
  h_key :: u32
  h_data :: 'h
  h_release :: "'h rpc_deleter"

record ('h, 'b) nvm_admin_reference =
  f_self :: nat
  f_ctrl :: controller
  f_n_handles :: int
  f_handles :: "'h rpc_handle list"
  f_data :: "'b ref_data option"
  f_release :: "'b ref_data option rpc_deleter option"
  f_stub :: "rpc_stub option"

definition mutex_lock :: "nat \<Rightarrow> os \<Rightarrow> int \<times> os" where
  "mutex_lock r s =
     (let err = os_lock s (os_calls s); s = s\<lparr>os_calls := Suc (os_calls s)\<rparr> in
      if err \<noteq> 0 then (err, s) else (0, s\<lparr>os_live := add_mset (Mutex, r) (os_live s)\<rparr>))"

definition mutex_unlock :: "nat \<Rightarrow> os \<Rightarrow> os" where
  "mutex_unlock r s = release Mutex r s"

section \<open>Binding handles\<close>

text \<open>
  The linked list of handles is a list; nodes are unlinked at any place and only appended at the end.
  The counter of handles is an \<open>int\<close> that does not overflow: every node takes memory.  The search for
  the last node also looks for the key.
\<close>

definition nvm_rpc_handle_insert ::
  "('h, 'b) nvm_admin_reference \<Rightarrow> u32 \<Rightarrow> 'h option \<Rightarrow> 'h rpc_deleter option \<Rightarrow> os
     \<Rightarrow> int \<times> ('h, 'b) nvm_admin_reference \<times> os" where
  "nvm_rpc_handle_insert ref key data rel s =
     (case (data, rel) of
        (Some d, Some f) \<Rightarrow>
          (case malloc s of
             (None, s) \<Rightarrow> (ENOMEM, ref, s)
           | (Some p, s) \<Rightarrow>
               (case mutex_lock (f_self ref) s of (err, s) \<Rightarrow>
                  if err \<noteq> 0 then (err, ref, free (Some p) s)
                  else if key \<in> h_key ` set (f_handles ref)
                  then (EINVAL, ref, free (Some p) (mutex_unlock (f_self ref) s))
                  else (0, ref\<lparr>f_handles := f_handles ref @ [\<lparr>h_self = p, h_key = key, h_data = d, h_release = f\<rparr>],
                               f_n_handles := f_n_handles ref + 1\<rparr>,
                        mutex_unlock (f_self ref) s)))
      | _ \<Rightarrow> (EINVAL, ref, s))"

text \<open>Removing a key that is not there dereferences NULL.\<close>

definition nvm_rpc_handle_remove ::
  "('h, 'b) nvm_admin_reference \<Rightarrow> u32 \<Rightarrow> os \<Rightarrow> (('h, 'b) nvm_admin_reference \<times> os) option" where
  "nvm_rpc_handle_remove ref key s =
     (let s = snd (mutex_lock (f_self ref) s);
          before = takeWhile (\<lambda>h. h_key h \<noteq> key) (f_handles ref);
          rest = dropWhile (\<lambda>h. h_key h \<noteq> key) (f_handles ref) in
      case rest of
        [] \<Rightarrow> None
      | cur # after \<Rightarrow>
          do { let n = f_n_handles ref - 1;
               s \<leftarrow> h_release cur (h_data cur) (h_key cur) n s;
               Some (ref\<lparr>f_handles := before @ after, f_n_handles := n\<rparr>,
                     mutex_unlock (f_self ref) (free (Some (h_self cur)) s)) })"

fun release_loop :: "'h rpc_handle list \<Rightarrow> int \<Rightarrow> os \<Rightarrow> (int \<times> os) option" where
  "release_loop [] n s = Some (n, s)"
| "release_loop (cur # after) n s =
     do { s \<leftarrow> h_release cur (h_data cur) (h_key cur) (n - 1) s;
          release_loop after (n - 1) (free (Some (h_self cur)) s) }"

definition release_handles ::
  "('h, 'b) nvm_admin_reference \<Rightarrow> os \<Rightarrow> (('h, 'b) nvm_admin_reference \<times> os) option" where
  "release_handles ref s =
     do { (n, s) \<leftarrow> release_loop (f_handles ref) (f_n_handles ref) s;
          Some (ref\<lparr>f_handles := [], f_n_handles := n\<rparr>, s) }"

section \<open>References\<close>

text \<open>The number of handles is not initialised; it is an argument.\<close>

definition nvm_ref_get ::
  "int \<Rightarrow> controller \<Rightarrow> os \<Rightarrow> int \<times> ('h, 'b) nvm_admin_reference option \<times> os" where
  "nvm_ref_get junk ctrl s =
     (case malloc s of
        (None, s) \<Rightarrow> (ENOMEM, None, s)
      | (Some p, s) \<Rightarrow>
          (case sys_call s of (err, s) \<Rightarrow>
             if err \<noteq> 0 then (err, None, free (Some p) s)
             else (0, Some \<lparr>f_self = p, f_ctrl = ctrl, f_n_handles = junk, f_handles = [], f_data = None,
                            f_release = None, f_stub = None\<rparr>, s)))"

definition nvm_ref_put :: "('h, 'b) nvm_admin_reference option \<Rightarrow> os \<Rightarrow> os option" where
  "nvm_ref_put r s =
     (case r of
        None \<Rightarrow> Some s
      | Some ref \<Rightarrow>
          do { let s = snd (mutex_lock (f_self ref) s);
               (ref, s) \<leftarrow> release_handles ref s;
               s \<leftarrow> (case f_release ref of Some rel \<Rightarrow> rel (f_data ref) 0 0 s | None \<Rightarrow> Some s);
               Some (free (Some (f_self ref)) (mutex_unlock (f_self ref) s)) })"

section \<open>Executing commands\<close>

definition execute_command ::
  "device \<Rightarrow> local_admin \<Rightarrow> nvm_cmd \<Rightarrow> nvm_cpl \<Rightarrow> world \<Rightarrow> (int \<times> local_admin \<times> nvm_cpl \<times> world) option" where
  "execute_command dev admin cmd cpl w =
     do { (in_queue_cmd, asq, m) \<leftarrow> nvm_sq_enqueue (a_asq admin) (w_mem w);
          if in_queue_cmd = NULL then Some (EAGAIN, admin, cpl, w)
          else
            let in_queue_id = load16 m (NVM_CMD_CID in_queue_cmd);
                m = store_dwords in_queue_cmd cmd m;
                m = store16 (NVM_CMD_CID in_queue_cmd) in_queue_id m in
            case nvm_sq_submit dev asq (w\<lparr>w_mem := m\<rparr>) of (asq, w) \<Rightarrow>
            case nvm_cq_dequeue_block dev (a_acq admin) (a_timeout admin) w of (in_queue_cpl, acq, w) \<Rightarrow>
              let admin = admin\<lparr>a_asq := asq, a_acq := acq\<rparr> in
              if in_queue_cpl = NULL then Some (ETIME, admin, cpl, w)
              else
                let cpl = load_dwords (w_mem w) in_queue_cpl 4;
                    cpl = cpl[3 := (cpl ! 3 AND 0xffff0000) OR ucast (cmd_cid cmd)] in
                Some (0, admin\<lparr>a_asq := nvm_sq_update asq\<rparr>, cpl, w) }"

definition create_admin :: "controller \<Rightarrow> nvm_dma \<Rightarrow> os \<Rightarrow> world \<Rightarrow> local_admin option \<times> os \<times> world" where
  "create_admin ctrl window s w =
     (case malloc s of
        (None, s) \<Rightarrow> (None, s, w)
      | (Some p, s) \<Rightarrow>
          let c = k_handle ctrl; asq_vaddr = d_vaddr window + d_page_size window in
          (Some \<lparr>a_self = p,
             a_acq = nvm_queue_clear c True 0 (d_vaddr window) (d_ioaddrs window ! 0),
             a_asq = nvm_queue_clear c False 0 asq_vaddr (d_ioaddrs window ! 1),
             a_timeout = c_timeout c\<rparr>, s,
           w\<lparr>w_mem := memset (d_vaddr window) 0 (unat (2 * d_page_size window)) (w_mem w)\<rparr>))"

text \<open>
  As declared, the function takes a reference and an admin descriptor; as a deleter it gets the admin
  descriptor and the key, which is 0, in their place.
\<close>

definition remove_admin :: "'a option \<Rightarrow> nat option \<Rightarrow> os \<Rightarrow> os" where
  "remove_admin ref admin s = (case ref of None \<Rightarrow> s | Some _ \<Rightarrow> free admin s)"

definition remove_admin_deleter :: "'b ref_data option rpc_deleter" where
  "remove_admin_deleter d key n s = Some (remove_admin d (if key = 0 then None else Some (unat key)) s)"

text \<open>
  The client stub of a binding is an argument.  While a client waits for the reply, the controller
  carries out the command: it may write any of the host's memory, such as the page of an identify
  command.
\<close>

definition call_stub ::
  "device \<Rightarrow> ('b \<Rightarrow> nvm_cmd \<Rightarrow> nvm_cpl \<Rightarrow> os \<Rightarrow> int \<times> nvm_cmd \<times> nvm_cpl \<times> os) \<Rightarrow> rpc_stub \<Rightarrow> 'b ref_data \<Rightarrow> nvm_cmd
     \<Rightarrow> nvm_cpl \<Rightarrow> os \<Rightarrow> world \<Rightarrow> (int \<times> 'b ref_data \<times> nvm_cmd \<times> nvm_cpl \<times> os \<times> world) option" where
  "call_stub dev remote stub d cmd cpl s w =
     (case (stub, d) of
        (Execute_command, Admin_queues admin) \<Rightarrow>
          do { (err, admin, cpl, w) \<leftarrow> execute_command dev admin cmd cpl w;
               Some (err, Admin_queues admin, cmd, cpl, s, w) }
      | (Remote_command, Binding b) \<Rightarrow>
          (case remote b cmd cpl s of (err, cmd, cpl, s) \<Rightarrow> Some (err, Binding b, cmd, cpl, s, dev_step dev w))
      | _ \<Rightarrow> None)"

text \<open>
  The completion is the caller's, at an address \<open>cpl_ptr\<close> of host memory; the status macros read it
  there.
\<close>

definition nvm_raw_rpc ::
  "device \<Rightarrow> ('b \<Rightarrow> nvm_cmd \<Rightarrow> nvm_cpl \<Rightarrow> os \<Rightarrow> int \<times> nvm_cmd \<times> nvm_cpl \<times> os) \<Rightarrow> ('h, 'b) nvm_admin_reference
     \<Rightarrow> nvm_cmd \<Rightarrow> nvm_cpl \<Rightarrow> u64 \<Rightarrow> os \<Rightarrow> world
     \<Rightarrow> (int \<times> ('h, 'b) nvm_admin_reference \<times> nvm_cmd \<times> nvm_cpl \<times> os \<times> world) option" where
  "nvm_raw_rpc dev remote ref cmd cpl cpl_ptr s w =
     (case mutex_lock (f_self ref) s of (err, s) \<Rightarrow>
        if err \<noteq> 0 then Some (NVM_ERR_PACK (w_mem w) NULL err, ref, cmd, cpl, s, w)
        else
          case f_stub ref of
            None \<Rightarrow> Some (NVM_ERR_PACK (w_mem w) NULL EINVAL, ref, cmd, cpl, mutex_unlock (f_self ref) s, w)
          | Some stub \<Rightarrow>
              (case f_data ref of
                 None \<Rightarrow> None
               | Some d \<Rightarrow>
                   do { (err, d, cmd, cpl, s, w) \<leftarrow> call_stub dev remote stub d cmd cpl s w;
                        let s = mutex_unlock (f_self ref) s;
                        Some (NVM_ERR_PACK (store_dwords cpl_ptr cpl (w_mem w)) cpl_ptr err,
                              ref\<lparr>f_data := Some d\<rparr>, cmd, cpl, s, w) }))"

definition nvm_rpc_bind ::
  "('h, 'b) nvm_admin_reference \<Rightarrow> 'b ref_data option \<Rightarrow> 'b ref_data option rpc_deleter option \<Rightarrow> rpc_stub option \<Rightarrow> os
     \<Rightarrow> int \<times> ('h, 'b) nvm_admin_reference \<times> os" where
  "nvm_rpc_bind ref data rel stub s =
     (case mutex_lock (f_self ref) s of (err, s) \<Rightarrow>
        if err \<noteq> 0 then (err, ref, s)
        else if f_data ref \<noteq> None \<or> f_stub ref \<noteq> None then (EINVAL, ref, mutex_unlock (f_self ref) s)
        else (0, ref\<lparr>f_data := data, f_release := rel, f_stub := stub\<rparr>, mutex_unlock (f_self ref) s))"

definition nvm_aq_create ::
  "device \<Rightarrow> int \<Rightarrow> controller \<Rightarrow> nvm_dma \<Rightarrow> os \<Rightarrow> world
     \<Rightarrow> (int \<times> ('h, 'b) nvm_admin_reference option \<times> os \<times> world) option" where
  "nvm_aq_create dev junk ctrl window s w =
     (if c_page_size (k_handle ctrl) \<noteq> d_page_size window then Some (EINVAL, None, s, w)
      else if d_n_ioaddrs window < 2 then Some (EINVAL, None, s, w)
      else if d_vaddr window = NULL then Some (EINVAL, None, s, w)
      else
        case nvm_ref_get junk ctrl s of
          (err, None, s) \<Rightarrow> Some (err, None, s, w)
        | (err, Some ref, s) \<Rightarrow>
            (case create_admin (f_ctrl ref) window s w of
               (None, s, w) \<Rightarrow> do { s \<leftarrow> nvm_ref_put (Some ref) s; Some (ENOMEM, None, s, w) }
             | (Some admin, s, w) \<Rightarrow>
                 let ref = ref\<lparr>f_data := Some (Admin_queues admin), f_stub := Some Execute_command,
                               f_release := Some remove_admin_deleter\<rparr>;
                     w = snd (nvm_raw_ctrl_reset dev (k_handle ctrl) (q_ioaddr (a_acq admin)) (q_ioaddr (a_asq admin)) w)
                 in Some (0, Some ref, s, w)))"

definition nvm_aq_destroy :: "('h, 'b) nvm_admin_reference option \<Rightarrow> os \<Rightarrow> os option" where
  "nvm_aq_destroy ref s = (case ref of None \<Rightarrow> Some s | Some r \<Rightarrow> nvm_ref_put (Some r) s)"

definition nvm_ctrl_from_aq_ref :: "('h, 'b) nvm_admin_reference option \<Rightarrow> controller option" where
  "nvm_ctrl_from_aq_ref ref = map_option f_ctrl ref"

definition nvm_local_admin ::
  "device \<Rightarrow> ('h, 'b) nvm_admin_reference \<Rightarrow> nvm_cmd \<Rightarrow> nvm_cpl \<Rightarrow> os \<Rightarrow> world
     \<Rightarrow> (int \<times> ('h, 'b) nvm_admin_reference \<times> nvm_cpl \<times> os \<times> world) option" where
  "nvm_local_admin dev ref cmd cpl s w =
     (case mutex_lock (f_self ref) s of (err, s) \<Rightarrow>
        if err \<noteq> 0 then Some (NVM_ERR_PACK (w_mem w) NULL err, ref, cpl, s, w)
        else if f_stub ref \<noteq> Some Execute_command
        then Some (NVM_ERR_PACK (w_mem w) NULL EINVAL, ref, cpl, mutex_unlock (f_self ref) s, w)
        else
          case f_data ref of
            Some (Admin_queues admin) \<Rightarrow>
              do { (err, admin, cpl, w) \<leftarrow> execute_command dev admin cmd cpl w;
                   Some (NVM_ERR_PACK (w_mem w) NULL err, ref\<lparr>f_data := Some (Admin_queues admin)\<rparr>, cpl,
                         mutex_unlock (f_self ref) s, w) }
          | _ \<Rightarrow> None)"

definition nvm_rpc_unbind :: "('h, 'b) nvm_admin_reference option \<Rightarrow> os \<Rightarrow> os option" where
  "nvm_rpc_unbind ref s = (case ref of None \<Rightarrow> Some s | Some r \<Rightarrow> nvm_ref_put (Some r) s)"

section \<open>Lock and handle lemmas\<close>

text \<open>Locking a mutex that is initialised and not held by the thread does not fail.\<close>

definition locks_succeed :: "os \<Rightarrow> bool" where
  "locks_succeed s \<longleftrightarrow> (\<forall>n. os_lock s n = 0)"

lemma locks_succeed_gains: "gains s s' r \<Longrightarrow> locks_succeed s' = locks_succeed s"
  by (simp add: gains_def locks_succeed_def)

lemma locks_succeed_lock: "locks_succeed s \<Longrightarrow> \<exists>s'. mutex_lock r s = (0, s')"
  by (simp add: locks_succeed_def mutex_lock_def Let_def)

lemma mutex_lock_gains:
  "mutex_lock r s = (0, s') \<Longrightarrow> gains s s' {#(Mutex, r)#}"
  "mutex_lock r s = (e, s') \<Longrightarrow> e \<noteq> 0 \<Longrightarrow> gains s s' {#}"
  by (auto simp: mutex_lock_def Let_def gains_def split: if_splits)

lemma mutex_unlock_undo: "gains s s' (r + {#(Mutex, k)#}) \<Longrightarrow> gains s (mutex_unlock k s') r"
  by (simp add: mutex_unlock_def release_undo)

text \<open>The table as a map from keys to the data of the handles.\<close>

definition handle_map :: "('h, 'b) nvm_admin_reference \<Rightarrow> u32 \<Rightarrow> 'h option" where
  "handle_map ref = map_of (map (\<lambda>h. (h_key h, h_data h)) (f_handles ref))"

definition handles_distinct :: "('h, 'b) nvm_admin_reference \<Rightarrow> bool" where
  "handles_distinct ref \<longleftrightarrow> distinct (map h_key (f_handles ref))"

lemma dom_handle_map: "dom (handle_map ref) = h_key ` set (f_handles ref)"
  by (simp add: handle_map_def dom_map_of_conv_image_fst image_image)

lemma handle_map_snoc:
  "key \<notin> dom (handle_map ref) \<Longrightarrow>
   handle_map (ref\<lparr>f_handles := f_handles ref @ [\<lparr>h_self = p, h_key = key, h_data = d, h_release = f\<rparr>], f_n_handles := n\<rparr>)
     = (handle_map ref)(key \<mapsto> d)"
  by (auto simp: handle_map_def map_of_append fun_eq_iff map_add_def split: option.splits
      dest: map_of_SomeD)

lemma handle_split:
  assumes "f_handles ref = before @ h # after" "handles_distinct ref"
  shows "handle_map (ref\<lparr>f_handles := before @ after, f_n_handles := n\<rparr>) = (handle_map ref)(h_key h := None)"
proof -
  let ?f = "map (\<lambda>h. (h_key h, h_data h))"
  have "h_key h \<notin> h_key ` set (before @ after)" using assms by (auto simp: handles_distinct_def)
  then have "map_of (?f (before @ after)) (h_key h) = None" by (auto simp: map_of_eq_None_iff image_image)
  then show ?thesis
    by (auto simp: handle_map_def assms(1) map_of_append fun_eq_iff map_add_def split: option.splits)
qed

lemma handle_found:
  assumes "key \<in> dom (handle_map ref)"
  obtains before h after where "f_handles ref = before @ h # after" "h_key h = key"
    "takeWhile (\<lambda>h. h_key h \<noteq> key) (f_handles ref) = before"
    "dropWhile (\<lambda>h. h_key h \<noteq> key) (f_handles ref) = h # after"
proof -
  let ?P = "\<lambda>h. h_key h \<noteq> key"
  have "dropWhile ?P (f_handles ref) \<noteq> []"
    using assms by (auto simp: dom_handle_map)
  then obtain h after where d: "dropWhile ?P (f_handles ref) = h # after" by (cases "dropWhile ?P (f_handles ref)") auto
  then have "h_key h = key" by (metis (mono_tags, lifting) dropWhile_eq_Cons_conv)
  moreover have "f_handles ref = takeWhile ?P (f_handles ref) @ h # after"
    using d by (metis takeWhile_dropWhile_id)
  ultimately show thesis using d that by blast
qed

text \<open>
  the table of binding handles is a map from keys to data: inserting succeeds only for a new key
  and then adds exactly that binding, a failed insertion changes nothing and holds nothing, and keys
  stay unique.
\<close>

theorem handle_insert_refines_map:
  assumes "handles_distinct ref"
    and "nvm_rpc_handle_insert ref key (Some d) (Some f) s = (e, ref', s')"
  shows "handles_distinct ref'
    \<and> (key \<in> dom (handle_map ref) \<longrightarrow> e \<noteq> 0)
    \<and> (e = 0 \<longrightarrow> handle_map ref' = (handle_map ref)(key \<mapsto> d) \<and> f_n_handles ref' = f_n_handles ref + 1
        \<and> gains s s' {#(Heap, h_self (last (f_handles ref')))#})
    \<and> (e \<noteq> 0 \<longrightarrow> ref' = ref \<and> gains s s' {#})"
proof (cases "malloc s")
  case m: (Pair a s1)
  show ?thesis
  proof (cases a)
    case None
    then show ?thesis using assms m malloc_none [of s s1] by (auto simp: nvm_rpc_handle_insert_def)
  next
    case (Some p)
    note g = malloc_some [OF m [unfolded Some]]
    obtain le s2 where l: "mutex_lock (f_self ref) s1 = (le, s2)" by (cases "mutex_lock (f_self ref) s1")
    show ?thesis
    proof (cases "le = 0")
      case False
      have "gains s (free (Some p) s2) {#}"
        using gains_trans [OF g mutex_lock_gains(2) [OF l False]] by (simp add: free_undo_only)
      with False show ?thesis using assms m Some l by (auto simp: nvm_rpc_handle_insert_def)
    next
      case True
      have u: "gains s (mutex_unlock (f_self ref) s2) {#(Heap, p)#}"
        using gains_trans [OF g mutex_lock_gains(1) [OF l [unfolded True]]] by (rule mutex_unlock_undo)
      show ?thesis
      proof (cases "key \<in> dom (handle_map ref)")
        case dup: True
        with u True show ?thesis using assms m Some l
          by (auto simp: nvm_rpc_handle_insert_def dom_handle_map free_undo_only)
      next
        case new: False
        with u True show ?thesis using assms m Some l handle_map_snoc [OF new]
          by (auto simp: nvm_rpc_handle_insert_def dom_handle_map handles_distinct_def)
      qed
    qed
  qed
qed

text \<open>
  C31: removing a key that is in the table takes out exactly that binding and calls its deleter once,
  with its data, its key and the number of handles left; removing a key that is not there
  dereferences NULL.
\<close>

theorem handle_remove_refines_map:
  assumes "handles_distinct ref" "mutex_lock (f_self ref) s = (0, s1)"
  shows "(handle_map ref key = None \<longrightarrow> nvm_rpc_handle_remove ref key s = None)
    \<and> (\<forall>d. handle_map ref key = Some d \<longrightarrow>
        (\<exists>h \<in> set (f_handles ref). h_key h = key \<and> h_data h = d
          \<and> (\<forall>s2. h_release h d key (f_n_handles ref - 1) s1 = Some s2 \<longrightarrow>
              (\<exists>ref' s3. nvm_rpc_handle_remove ref key s = Some (ref', s3) \<and> handles_distinct ref'
                \<and> handle_map ref' = (handle_map ref)(key := None) \<and> f_n_handles ref' = f_n_handles ref - 1
                \<and> (\<forall>r. gains s s2 (r + {#(Mutex, f_self ref)#} + {#(Heap, h_self h)#}) \<longrightarrow> gains s s3 r)))))"
proof (cases "key \<in> dom (handle_map ref)")
  case False
  then have "dropWhile (\<lambda>h. h_key h \<noteq> key) (f_handles ref) = []"
    by (auto simp: dom_handle_map)
  with False show ?thesis by (simp add: nvm_rpc_handle_remove_def Let_def domIff del: dropWhile_eq_Nil_conv)
next
  case True
  then obtain before h after where h: "f_handles ref = before @ h # after" "h_key h = key"
    and w: "takeWhile (\<lambda>h. h_key h \<noteq> key) (f_handles ref) = before"
    "dropWhile (\<lambda>h. h_key h \<noteq> key) (f_handles ref) = h # after" by (rule handle_found)
  have "h_key h \<notin> h_key ` set before" using assms(1) h by (auto simp: handles_distinct_def)
  then have "map_of (map (\<lambda>h. (h_key h, h_data h)) before) (h_key h) = None"
    by (auto simp: map_of_eq_None_iff image_image)
  then have d: "handle_map ref key = Some (h_data h)"
    using h by (simp add: handle_map_def map_of_append map_add_def)
  have "handles_distinct (ref\<lparr>f_handles := before @ after, f_n_handles := n\<rparr>)" for n
    using assms(1) h by (auto simp: handles_distinct_def)
  then show ?thesis
    using h w d handle_split [OF h(1) assms(1)] assms(2)
    by (auto simp: nvm_rpc_handle_remove_def Let_def intro!: bexI [of _ h] mutex_unlock_undo free_undo)
qed

section \<open>Executing one command\<close>

lemma dequeue_block_loop_cases:
  assumes "cq_ok q"
  shows "nvm_cq_dequeue_block_loop dev q NULL nsecs w = (p, q', w') \<Longrightarrow>
    p = NULL \<and> q' = q \<or> p = cq_slot q (unat (q_head q)) \<and> p \<noteq> NULL \<and> q' = cq_bump q
      \<and> cq_tag (w_mem w') q (unat (q_head q)) = q_phase q"
proof (induction "unat nsecs" arbitrary: nsecs w rule: less_induct)
  case less
  have nn: "cq_slot q (unat (q_head q)) \<noteq> NULL"
    using assms by (intro cq_slot_nonnull) (auto simp: cq_ok_def queue_wf_def)
  show ?case
  proof (cases "nsecs > 0")
    case False
    with less.prems show ?thesis by (subst (asm) nvm_cq_dequeue_block_loop.simps) auto
  next
    case True
    let ?d = "nvm_delay_remain dev nsecs w"
    have lt: "unat (fst ?d) < unat nsecs" using True by (auto intro: nvm_delay_remain_less simp: word_gt_0)
    show ?thesis
    proof (cases "cq_tag (w_mem (snd ?d)) q (unat (q_head q)) = q_phase q")
      case hit: True
      with True less.prems nn show ?thesis
        by (subst (asm) nvm_cq_dequeue_block_loop.simps)
           (auto simp: Let_def nvm_cq_dequeue_eq [OF assms] nvm_cq_dequeue_block_loop.simps)
    next
      case miss: False
      with True less.prems have "nvm_cq_dequeue_block_loop dev q NULL (fst ?d) (snd ?d) = (p, q', w')"
        by (subst (asm) nvm_cq_dequeue_block_loop.simps) (simp add: Let_def nvm_cq_dequeue_eq [OF assms])
      then show ?thesis by (rule less.hyps [OF lt])
    qed
  qed
qed

lemma dequeue_block_cases:
  assumes "cq_ok q" "nvm_cq_dequeue_block dev q timeout w = (p, q', w')"
  shows "p = NULL \<and> q' = q \<or> p = cq_slot q (unat (q_head q)) \<and> p \<noteq> NULL \<and> q' = cq_bump q
      \<and> cq_tag (w_mem w') q (unat (q_head q)) = q_phase q"
proof (cases "cq_tag (w_mem w) q (unat (q_head q)) = q_phase q")
  case True
  have "cq_slot q (unat (q_head q)) \<noteq> NULL"
    using assms(1) by (intro cq_slot_nonnull) (auto simp: cq_ok_def queue_wf_def)
  with True assms(2) show ?thesis
    by (auto simp: nvm_cq_dequeue_block_def Let_def nvm_cq_dequeue_eq [OF assms(1)] nvm_cq_dequeue_block_loop.simps)
next
  case False
  with assms(2) dequeue_block_loop_cases [OF assms(1)] show ?thesis
    by (auto simp: nvm_cq_dequeue_block_def Let_def nvm_cq_dequeue_eq [OF assms(1)])
qed

text \<open>The command as the controller sees it: the caller's, under the identifier of the queue.\<close>

definition with_cid :: "u16 \<Rightarrow> nvm_cmd \<Rightarrow> nvm_cmd" where
  "with_cid cid cmd = cmd[0 := (cmd ! 0 AND 0xffff) OR push_bit 16 (ucast cid)]"

lemma store16_high_half:
  "load32 (store16 (a + 2) v m) a = (load32 m a AND 0xffff) OR push_bit 16 (ucast v)"
proof -
  have "in_range a 2 a" "in_range a 2 (a + 1)" by (simp_all add: in_range_def)
  then have "\<not> in_range (a + 2) 2 a" "\<not> in_range (a + 2) 2 (a + 1)"
    using in_range_disjoint [of a 2 _ 2 2] by auto
  then have lo: "load16 (store16 (a + 2) v m) a = load16 m a"
    by (intro load16_cong) (simp_all add: store16_other)
  show ?thesis
    by (rule bit_word_eqI)
       (auto simp: load32_def lo load16_store16 and_lo16 bit_simps dest: bit_imp_le_length)
qed

lemma load_with_cid:
  assumes "length cmd = 16"
  shows "load_dwords (store16 (NVM_CMD_CID a) v (store_dwords a cmd m)) a 16 = with_cid v cmd"
proof -
  let ?m = "store_dwords a cmd m" and ?m' = "store16 (NVM_CMD_CID a) v (store_dwords a cmd m)"
  have c: "load_dwords ?m a 16 = cmd" using load_store_dwords [of cmd a m] assms by simp
  have hd: "load32 ?m a = cmd ! 0" using arg_cong [OF c, of "\<lambda>x. x ! 0"] by (simp add: load_dwords_def)
  have s: "load_dwords x a 16 = load32 x a # load_dwords x (a + 4) 15" for x
    using load_dwords_Suc [of x a 15] by simp
  have "load_dwords ?m' (a + 4) 15 = load_dwords ?m (a + 4) 15"
  proof (rule load_dwords_cong)
    fix x assume x: "in_range (a + 4) (4 * 15) x"
    have "\<not> in_range (a + 2) 2 x"
    proof
      assume "in_range (a + 2) 2 x"
      from in_range_disjoint [OF this, of 2 60] x show False by (simp add: add.commute)
    qed
    then show "?m' x = ?m x" by (simp add: NVM_CMD_CID_def store16_other)
  qed simp
  then have "load_dwords ?m' a 16 = (load32 ?m a AND 0xffff OR push_bit 16 (ucast v)) # load_dwords ?m (a + 4) 15"
    unfolding s by (simp add: NVM_CMD_CID_def store16_high_half)
  also have "\<dots> = with_cid v cmd"
    using c assms unfolding s hd by (cases cmd) (auto simp: with_cid_def)
  finally show ?thesis .
qed

lemma load_with_cid_elsewhere:
  assumes "length cmd = 16" "\<not> in_range a 64 x"
  shows "store16 (NVM_CMD_CID a) v (store_dwords a cmd m) x = store_dwords a cmd m x"
    and "store_dwords a cmd m x = m x"
proof -
  have "\<not> in_range (a + 2) 2 x"
    using assms(2) in_range_split [of 2 62 a x] in_range_mono [of "a + 2" 2 x 62] by auto
  then show "store16 (NVM_CMD_CID a) v (store_dwords a cmd m) x = store_dwords a cmd m x"
    by (simp add: NVM_CMD_CID_def store16_other)
  show "store_dwords a cmd m x = m x" using assms by (simp add: store_dwords_other)
qed

definition placed :: "nvm_queue \<Rightarrow> nvm_cmd \<Rightarrow> mem \<Rightarrow> mem \<Rightarrow> bool" where
  "placed q cmd m m' \<longleftrightarrow>
     load_dwords m' (queue_slot q (q_tail q)) 16 = with_cid (sq_cid (sq_bump q)) cmd
     \<and> (\<forall>x. \<not> in_range (queue_slot q (q_tail q)) 64 x \<longrightarrow> m' x = m x)"

text \<open>What is returned once waiting has ended.\<close>

definition finish :: "local_admin \<Rightarrow> nvm_cmd \<Rightarrow> nvm_cpl \<Rightarrow> u64 \<times> nvm_queue \<times> world \<Rightarrow> int \<times> local_admin \<times> nvm_cpl \<times> world" where
  "finish admin cmd cpl r =
     (case r of (p, acq, w) \<Rightarrow>
        let asq = (sq_bump (a_asq admin))\<lparr>q_last := q_tail (sq_bump (a_asq admin))\<rparr> in
        if p = NULL then (ETIME, admin\<lparr>a_asq := asq, a_acq := acq\<rparr>, cpl, w)
        else (0, admin\<lparr>a_asq := nvm_sq_update asq, a_acq := acq\<rparr>,
              (load_dwords (w_mem w) p 4)[3 := (load32 (w_mem w) (p + 12) AND 0xffff0000) OR ucast (cmd_cid cmd)], w))"

lemma sq_bump_moves: "queue_wf q \<Longrightarrow> 1 < q_n q \<Longrightarrow> q_tail (sq_bump q) \<noteq> q_tail q"
  using unat_sq_bump_tail [of q] by (auto simp: queue_wf_def mod_Suc split: if_splits)

lemma execute_command_free:
  assumes "sq_ok (a_asq admin)" "q_last (a_asq admin) = q_tail (a_asq admin)" "length cmd = 16"
    and "in_flight (a_asq admin) < q_n (a_asq admin) - 1"
  obtains m where "placed (a_asq admin) cmd (w_mem w) m"
    "execute_command dev admin cmd cpl w = Some (finish admin cmd cpl
       (nvm_cq_dequeue_block dev (a_acq admin) (a_timeout admin)
         (reg_write32 dev (q_db (a_asq admin)) (q_tail (sq_bump (a_asq admin))) (w\<lparr>w_mem := m\<rparr>))))"
proof -
  let ?q = "a_asq admin"
  let ?a = "queue_slot ?q (q_tail ?q)" and ?c = "sq_cid (sq_bump ?q)"
  have wf: "queue_wf ?q" "q_n ?q dvd 2 ^ 32" "1 < q_n ?q" using assms by (simp_all add: sq_ok_def)
  have nn: "?a \<noteq> NULL" using assms(1) wf by (intro queue_slot_nonnull) (auto simp: sq_ok_def queue_wf_def)
  let ?m1 = "store16 (NVM_CMD_CID ?a) ?c (w_mem w)"
  define m where "m = store16 (NVM_CMD_CID ?a) ?c (store_dwords ?a cmd ?m1)"
  have "placed ?q cmd (w_mem w) m"
  proof (unfold placed_def, intro conjI allI impI)
    show "load_dwords m ?a 16 = with_cid ?c cmd" unfolding m_def by (rule load_with_cid [OF assms(3)])
    fix x assume x: "\<not> in_range ?a 64 x"
    then have "\<not> in_range (?a + 2) 2 x"
      using in_range_split [of 2 62 ?a x] in_range_mono [of "?a + 2" 2 x 62] by auto
    then show "m x = w_mem w x"
      unfolding m_def using load_with_cid_elsewhere [OF assms(3) x] by (simp add: store16_other NVM_CMD_CID_def)
  qed
  moreover have "execute_command dev admin cmd cpl w = Some (finish admin cmd cpl
       (nvm_cq_dequeue_block dev (a_acq admin) (a_timeout admin)
         (reg_write32 dev (q_db ?q) (q_tail (sq_bump ?q)) (w\<lparr>w_mem := m\<rparr>))))"
    using nn sq_bump_moves [OF wf(1,3)]
    by (auto simp: execute_command_def nvm_sq_enqueue_free [OF wf(1,2) assms(4)] nvm_sq_submit_def assms(2)
        load16_store16 m_def [symmetric] finish_def Let_def load_dwords_def split: prod.splits)
  ultimately show thesis by (rule that)
qed

lemma in_flight_last [simp]: "in_flight (q\<lparr>q_last := l\<rparr>) = in_flight q"
  by (simp add: in_flight_def)

lemma sq_ok_last [simp]: "sq_ok (q\<lparr>q_last := l\<rparr>) = sq_ok q"
  by (simp add: sq_ok_def queue_wf_def queue_mapped_def)

lemma in_flight_update: "queue_wf q \<Longrightarrow> in_flight q \<noteq> 0 \<Longrightarrow> in_flight q = Suc (in_flight (nvm_sq_update q))"
  using sq_slots_update [of q] by (metis length_Cons sq_slots_length)

text \<open>
  C5: on a full submission queue an admin command is refused with EAGAIN and nothing changes.
  Otherwise, when the doorbell is rung with the new tail, the tail slot holds the caller's command
  under the identifier of the queue and no other byte of memory has changed; then the call waits on
  the completion queue, for as long as the controller asks for, and returns what \<open>finish\<close> makes of
  the answer.
\<close>

theorem execute_command_submits:
  assumes "sq_ok (a_asq admin)" "q_last (a_asq admin) = q_tail (a_asq admin)" "length cmd = 16"
  shows "if in_flight (a_asq admin) = q_n (a_asq admin) - 1
    then execute_command dev admin cmd cpl w = Some (EAGAIN, admin, cpl, w)
    else (\<exists>m. placed (a_asq admin) cmd (w_mem w) m
      \<and> execute_command dev admin cmd cpl w = Some (finish admin cmd cpl
         (nvm_cq_dequeue_block dev (a_acq admin) (a_timeout admin)
           (reg_write32 dev (q_db (a_asq admin)) (q_tail (sq_bump (a_asq admin))) (w\<lparr>w_mem := m\<rparr>)))))"
proof -
  have wf: "queue_wf (a_asq admin)" "q_n (a_asq admin) dvd 2 ^ 32" using assms(1) by (simp_all add: sq_ok_def)
  show ?thesis
  proof (cases "in_flight (a_asq admin) = q_n (a_asq admin) - 1")
    case True
    then show ?thesis by (simp add: execute_command_def nvm_sq_enqueue_full [OF wf])
  next
    case False
    with in_flight_less [OF wf(1)] have "in_flight (a_asq admin) < q_n (a_asq admin) - 1" by linarith
    from execute_command_free [OF assms this] False show ?thesis by metis
  qed
qed

lemma execute_command_result:
  assumes "sq_ok (a_asq admin)" "q_last (a_asq admin) = q_tail (a_asq admin)" "length cmd = 16" "cq_ok (a_acq admin)"
  shows "\<exists>err admin' cpl' w'. execute_command dev admin cmd cpl w = Some (err, admin', cpl', w')
    \<and> sq_ok (a_asq admin') \<and> cq_ok (a_acq admin') \<and> q_last (a_asq admin') = q_tail (a_asq admin')
    \<and> (err = 0 \<and> in_flight (a_asq admin') = in_flight (a_asq admin) \<and> a_acq admin' = cq_bump (a_acq admin)
        \<and> cpl_cid cpl' = cmd_cid cmd
        \<and> (let p = cq_slot (a_acq admin) (unat (q_head (a_acq admin))) in
             take 3 cpl' = load_dwords (w_mem w') p 3 \<and> cpl_status cpl' = load16 (w_mem w') (NVM_CPL_STATUS p))
      \<or> err = ETIME \<and> in_flight (a_asq admin') = Suc (in_flight (a_asq admin)) \<and> a_acq admin' = a_acq admin
        \<and> cpl' = cpl
      \<or> err = EAGAIN \<and> in_flight (a_asq admin) = q_n (a_asq admin) - 1 \<and> admin' = admin \<and> cpl' = cpl \<and> w' = w)"
proof (cases "in_flight (a_asq admin) = q_n (a_asq admin) - 1")
  case True
  then show ?thesis
    using assms nvm_sq_enqueue_full [of "a_asq admin"] by (simp add: execute_command_def sq_ok_def)
next
  case False
  have wf: "queue_wf (a_asq admin)" using assms(1) by (simp add: sq_ok_def)
  with in_flight_less [OF wf] False have f: "in_flight (a_asq admin) < q_n (a_asq admin) - 1" by linarith
  from execute_command_free [OF assms(1-3) f] obtain m where
    e: "execute_command dev admin cmd cpl w = Some (finish admin cmd cpl
       (nvm_cq_dequeue_block dev (a_acq admin) (a_timeout admin)
         (reg_write32 dev (q_db (a_asq admin)) (q_tail (sq_bump (a_asq admin))) (w\<lparr>w_mem := m\<rparr>))))" by blast
  obtain p acq w' where d: "nvm_cq_dequeue_block dev (a_acq admin) (a_timeout admin)
         (reg_write32 dev (q_db (a_asq admin)) (q_tail (sq_bump (a_asq admin))) (w\<lparr>w_mem := m\<rparr>)) = (p, acq, w')"
    by (metis prod_cases3)
  let ?asq = "(sq_bump (a_asq admin))\<lparr>q_last := q_tail (sq_bump (a_asq admin))\<rparr>"
  have b: "in_flight ?asq = Suc (in_flight (a_asq admin))" "sq_ok ?asq"
    using in_flight_bump [OF wf f] sq_ok_bump [OF assms(1)] by simp_all
  then have b3: "queue_wf ?asq" by (simp only: sq_ok_def)
  from dequeue_block_cases [OF assms(4) d] show ?thesis
  proof (elim disjE conjE)
    assume "p = NULL" "acq = a_acq admin"
    then show ?thesis unfolding e d using b assms(4) by (simp add: finish_def Let_def)
  next
    assume p: "p = cq_slot (a_acq admin) (unat (q_head (a_acq admin)))" "p \<noteq> NULL" "acq = cq_bump (a_acq admin)"
    have "in_flight (nvm_sq_update ?asq) = in_flight (a_asq admin)"
      using in_flight_update [OF b3] b(1) by simp
    moreover have "cpl_cid ((load_dwords (w_mem w') p 4)[3 := (v AND 0xffff0000) OR ucast c]) = c"
      "cpl_status ((load_dwords (w_mem w') p 4)[3 := (v AND 0xffff0000) OR ucast c]) = ucast (drop_bit 16 v)" for v c
      by (simp_all add: cpl_cid_def cpl_status_def and_hi16) (rule bit_word_eqI, auto simp: bit_simps dest: bit_imp_le_length)+
    moreover have "load16 (w_mem w') (NVM_CPL_STATUS p) = ucast (drop_bit 16 (load32 (w_mem w') (p + 12)))"
      using load16_from_32 [of "w_mem w'" "p + 12"] by (simp add: NVM_CPL_STATUS_def add.assoc)
    moreover have "take 3 ((load_dwords (w_mem w') p 4)[3 := v]) = load_dwords (w_mem w') p 3" for v
      by (simp add: load_dwords_def take_map)
    ultimately show ?thesis
      unfolding e d using p b(2) sq_ok_update [OF b(2)] cq_ok_bump [OF assms(4)] by (simp add: finish_def Let_def)
  qed
qed

text \<open>Admin queues that commands can be executed on, and stay so.\<close>

definition admin_ok :: "local_admin \<Rightarrow> bool" where
  "admin_ok a \<longleftrightarrow> sq_ok (a_asq a) \<and> q_last (a_asq a) = q_tail (a_asq a) \<and> cq_ok (a_acq a)"

lemma execute_command_admin_ok:
  assumes "admin_ok admin" "length cmd = 16"
  obtains err admin' cpl' w' where "execute_command dev admin cmd cpl w = Some (err, admin', cpl', w')" "admin_ok admin'"
  using execute_command_result [of admin cmd dev cpl w] assms unfolding admin_ok_def by blast

text \<open>
  C15: an admin command always returns, with 0, ETIME or EAGAIN, and keeps both queues well-formed.
  A completion is the entry at the head of the completion queue, its identifier replaced by the
  caller's: it is never compared with the identifier the command was submitted under.  A command
  that timed out is never retired: it counts as in flight from then on.
\<close>

theorem execute_command_outcome:
  assumes "sq_ok (a_asq admin)" "q_last (a_asq admin) = q_tail (a_asq admin)" "length cmd = 16" "cq_ok (a_acq admin)"
  shows "\<exists>err admin' cpl' w'. execute_command dev admin cmd cpl w = Some (err, admin', cpl', w')
    \<and> sq_ok (a_asq admin') \<and> cq_ok (a_acq admin') \<and> q_last (a_asq admin') = q_tail (a_asq admin')
    \<and> (err = 0 \<and> in_flight (a_asq admin') = in_flight (a_asq admin) \<and> a_acq admin' = cq_bump (a_acq admin)
        \<and> cpl_cid cpl' = cmd_cid cmd
        \<and> (let p = cq_slot (a_acq admin) (unat (q_head (a_acq admin))) in
             take 3 cpl' = load_dwords (w_mem w') p 3 \<and> cpl_status cpl' = load16 (w_mem w') (NVM_CPL_STATUS p))
      \<or> err = ETIME \<and> in_flight (a_asq admin') = Suc (in_flight (a_asq admin)) \<and> a_acq admin' = a_acq admin
        \<and> cpl' = cpl
      \<or> err = EAGAIN \<and> in_flight (a_asq admin) = q_n (a_asq admin) - 1 \<and> admin' = admin \<and> cpl' = cpl \<and> w' = w)"
  by (rule execute_command_result [OF assms])

section \<open>Serving requests\<close>

text \<open>
  a request on a local reference takes the lock, executes the command and gives the lock back on
  every path.  Its result is the errno of the execution: the status the controller put into the
  completion never shows in it.
\<close>

theorem raw_rpc_local:
  assumes "f_stub ref = Some Execute_command" "f_data ref = Some (Admin_queues admin)"
    and "execute_command dev admin cmd cpl w = Some (err, admin', cpl', w')"
  shows "\<exists>ref' cpl'' s' w'' e. nvm_raw_rpc dev remote ref cmd cpl ptr s w = Some (e, ref', cmd, cpl'', s', w'')
    \<and> gains s s' {#}
    \<and> (fst (mutex_lock (f_self ref) s) \<noteq> 0 \<longrightarrow>
        e = fst (mutex_lock (f_self ref) s) \<and> ref' = ref \<and> cpl'' = cpl \<and> w'' = w)
    \<and> (fst (mutex_lock (f_self ref) s) = 0 \<longrightarrow>
        e = err \<and> ref' = ref\<lparr>f_data := Some (Admin_queues admin')\<rparr> \<and> cpl'' = cpl' \<and> w'' = w')"
proof (cases "mutex_lock (f_self ref) s")
  case (Pair e s1)
  show ?thesis
  proof (cases "e = 0")
    case True
    have "gains s (mutex_unlock (f_self ref) s1) {#}"
      using mutex_unlock_undo [of s s1 "{#}"] mutex_lock_gains(1) [OF Pair [unfolded True]] by simp
    with True Pair assms show ?thesis by (simp add: nvm_raw_rpc_def call_stub_def NVM_ERR_PACK_def)
  next
    case False
    with mutex_lock_gains(2) [OF Pair False] Pair show ?thesis by (simp add: nvm_raw_rpc_def NVM_ERR_PACK_def)
  qed
qed

text \<open>
  a reference that is not bound, and binding one that already is, are refused with EINVAL; binding
  a fresh one stores the data, deleter and stub.  The lock is given back on every path.
\<close>

theorem rpc_bind_once:
  assumes "mutex_lock (f_self ref) s = (0, s1)"
  shows "\<exists>s'. gains s s' {#} \<and> nvm_rpc_bind ref data rel stub s =
      (if f_data ref = None \<and> f_stub ref = None
       then (0, ref\<lparr>f_data := data, f_release := rel, f_stub := stub\<rparr>, s') else (EINVAL, ref, s'))
    \<and> (f_stub ref = None \<longrightarrow> nvm_raw_rpc dev remote ref cmd cpl ptr s w = Some (EINVAL, ref, cmd, cpl, s', w))"
proof -
  have "gains s (mutex_unlock (f_self ref) s1) {#}"
    using mutex_unlock_undo [of s s1 "{#}"] mutex_lock_gains(1) [OF assms] by simp
  then show ?thesis using assms
    by (intro exI [of _ "mutex_unlock (f_self ref) s1"])
       (auto simp: nvm_rpc_bind_def nvm_raw_rpc_def NVM_ERR_PACK_def)
qed

section \<open>Admin queues\<close>

lemma nvm_ref_get_cases:
  assumes "nvm_ref_get junk ctrl s = (e, r, s')"
  shows "r = None \<and> e \<noteq> 0 \<and> gains s s' {#}
    \<or> (\<exists>p. e = 0 \<and> gains s s' {#(Heap, p)#} \<and> r = Some \<lparr>f_self = p, f_ctrl = ctrl, f_n_handles = junk,
          f_handles = [], f_data = None, f_release = None, f_stub = None\<rparr>)"
proof (cases "malloc s")
  case m: (Pair a s1)
  show ?thesis
  proof (cases a)
    case None
    then show ?thesis using assms m malloc_none [of s s1] by (auto simp: nvm_ref_get_def)
  next
    case (Some p)
    note g = malloc_some [OF m [unfolded Some]]
    obtain ie s2 where i: "sys_call s1 = (ie, s2)" by (cases "sys_call s1")
    then have "gains s s2 {#(Heap, p)#}" using gains_trans [OF g sys_call_gains [of s1]] by simp
    then show ?thesis using assms m Some i free_undo_only by (auto simp: nvm_ref_get_def split: if_splits)
  qed
qed

text \<open>Freeing a reference without handles runs its deleter under the lock and frees it.\<close>

lemma nvm_ref_put_plain:
  assumes "f_handles ref = []" "mutex_lock (f_self ref) s1 = (0, s2)"
    and "gains s s1 (r + {#(Heap, f_self ref)#})"
    and "f_release ref = None \<or> f_release ref = Some remove_admin_deleter"
  shows "\<exists>s'. nvm_ref_put (Some ref) s1 = Some s' \<and> gains s s' r"
proof -
  have "gains s s2 (r + {#(Heap, f_self ref)#} + {#(Mutex, f_self ref)#})"
    using gains_trans [OF assms(3) mutex_lock_gains(1) [OF assms(2)]] .
  then have "gains s (free (Some (f_self ref)) (mutex_unlock (f_self ref) s2)) r"
    by (intro free_undo mutex_unlock_undo)
  then show ?thesis using assms(1,2,4)
    by (auto simp: nvm_ref_put_def release_handles_def remove_admin_deleter_def remove_admin_def
        split: option.splits)
qed

text \<open>The window can hold the admin queues.\<close>

definition window_ok :: "nvm_ctrl \<Rightarrow> nvm_dma \<Rightarrow> bool" where
  "window_ok ctrl window \<longleftrightarrow>
     c_page_size ctrl = d_page_size window \<and> 2 \<le> d_n_ioaddrs window \<and> d_vaddr window \<noteq> NULL"

lemma nvm_aq_create_cases:
  assumes "nvm_aq_create dev junk ctrl window s w = Some (err, r, s', w')"
  shows "(\<not> window_ok (k_handle ctrl) window \<longrightarrow> err = EINVAL \<and> r = None \<and> s' = s \<and> w' = w)
    \<and> (err \<noteq> 0 \<longrightarrow> r = None)
    \<and> (err = 0 \<longrightarrow> (\<exists>ref admin. r = Some ref \<and> f_data ref = Some (Admin_queues admin)
        \<and> f_stub ref = Some Execute_command \<and> f_ctrl ref = ctrl \<and> f_handles ref = [] \<and> f_release ref = Some remove_admin_deleter
        \<and> a_acq admin = nvm_queue_clear (k_handle ctrl) True 0 (d_vaddr window) (d_ioaddrs window ! 0)
        \<and> a_asq admin = nvm_queue_clear (k_handle ctrl) False 0 (d_vaddr window + d_page_size window) (d_ioaddrs window ! 1)
        \<and> gains s s' {#(Heap, f_self ref), (Heap, a_self admin)#}
        \<and> w' = snd (nvm_raw_ctrl_reset dev (k_handle ctrl) (d_ioaddrs window ! 0) (d_ioaddrs window ! 1)
              (w\<lparr>w_mem := memset (d_vaddr window) 0 (unat (2 * d_page_size window)) (w_mem w)\<rparr>))))"
proof (cases "window_ok (k_handle ctrl) window")
  case False
  then show ?thesis using assms by (auto simp: nvm_aq_create_def window_ok_def split: if_splits)
next
  case True
  obtain e rr s1 where g: "(nvm_ref_get junk ctrl s :: _ \<times> ('a, 'b) nvm_admin_reference option \<times> _) = (e, rr, s1)"
    by (metis prod_cases3)
  have a: "(case rr of None \<Rightarrow> Some (e, None, s1, w) | Some ref \<Rightarrow>
       (case create_admin (f_ctrl ref) window s1 w of
               (None, s, w) \<Rightarrow> do { s \<leftarrow> nvm_ref_put (Some ref) s; Some (ENOMEM, None, s, w) }
             | (Some admin, s, w) \<Rightarrow>
                 let ref = ref\<lparr>f_data := Some (Admin_queues admin), f_stub := Some Execute_command,
                               f_release := Some remove_admin_deleter\<rparr>;
                     w = snd (nvm_raw_ctrl_reset dev (k_handle ctrl) (q_ioaddr (a_acq admin)) (q_ioaddr (a_asq admin)) w)
                 in Some (0, Some ref, s, w))) = Some (err, r, s', w')"
    using assms True g by (auto simp: nvm_aq_create_def window_ok_def split: if_splits option.splits)
  from nvm_ref_get_cases [OF g] show ?thesis
  proof (elim disjE exE conjE)
    assume "rr = None" "e \<noteq> 0"
    with a True show ?thesis by auto
  next
    fix p assume r: "rr = Some \<lparr>f_self = p, f_ctrl = ctrl, f_n_handles = junk,
          f_handles = [], f_data = None, f_release = None, f_stub = None\<rparr>" and gp: "gains s s1 {#(Heap, p)#}"
    obtain x s2 where m: "malloc s1 = (x, s2)" by (cases "malloc s1")
    show ?thesis
    proof (cases x)
      case None
      with a r m True show ?thesis by (auto simp: create_admin_def split: Option.bind_splits)
    next
      case (Some q)
      have "gains s s2 {#(Heap, p), (Heap, q)#}"
        using gains_trans [OF gp malloc_some [OF m [unfolded Some]]] by (simp add: add_mset_commute)
      with a r m True Some show ?thesis by (auto simp: create_admin_def Let_def)
    qed
  qed
qed

text \<open>
  admin queues are created only on a window of at least two pages of the controller's size that
  is mapped; on success they are empty rings of queue number 0 on its first two pages, bound to local
  execution, and nothing but the reference and its queues has been acquired.  What the reset of the
  controller returns has no influence: a controller that never became ready is not reported.
\<close>

theorem aq_create_result:
  assumes "nvm_aq_create dev junk ctrl window s w = Some (err, r, s', w')"
  shows "(\<not> window_ok (k_handle ctrl) window \<longrightarrow> err = EINVAL \<and> r = None \<and> s' = s \<and> w' = w)
    \<and> (err \<noteq> 0 \<longrightarrow> r = None)
    \<and> (err = 0 \<longrightarrow> (\<exists>ref admin. r = Some ref \<and> f_data ref = Some (Admin_queues admin)
        \<and> f_stub ref = Some Execute_command \<and> f_ctrl ref = ctrl \<and> f_handles ref = []
        \<and> a_acq admin = nvm_queue_clear (k_handle ctrl) True 0 (d_vaddr window) (d_ioaddrs window ! 0)
        \<and> a_asq admin = nvm_queue_clear (k_handle ctrl) False 0 (d_vaddr window + d_page_size window) (d_ioaddrs window ! 1)
        \<and> gains s s' {#(Heap, f_self ref), (Heap, a_self admin)#}
        \<and> w' = snd (nvm_raw_ctrl_reset dev (k_handle ctrl) (d_ioaddrs window ! 0) (d_ioaddrs window ! 1)
              (w\<lparr>w_mem := memset (d_vaddr window) 0 (unat (2 * d_page_size window)) (w_mem w)\<rparr>))))"
  using nvm_aq_create_cases [OF assms] by blast

text \<open>
  destroying admin queues frees the reference but not the admin descriptor: the deleter takes its
  second argument, which is the key 0, for the descriptor and frees NULL.
\<close>

theorem aq_destroy_leaks_descriptor:
  assumes "nvm_aq_create dev junk ctrl window s w = Some (0, Some ref, s1, w1)"
    and "mutex_lock (f_self ref) s1 = (0, s2)"
  shows "\<exists>s' admin. f_data ref = Some (Admin_queues admin)
    \<and> nvm_aq_destroy (Some ref) s1 = Some s' \<and> gains s s' {#(Heap, a_self admin)#}"
proof -
  from nvm_aq_create_cases [OF assms(1)] obtain admin where
    d: "f_data ref = Some (Admin_queues admin)" "f_handles ref = []" "f_release ref = Some remove_admin_deleter"
    and g: "gains s s1 {#(Heap, f_self ref), (Heap, a_self admin)#}" by auto
  have "gains s s1 ({#(Heap, a_self admin)#} + {#(Heap, f_self ref)#})" using g by (simp add: add_mset_commute)
  from nvm_ref_put_plain [OF d(2) assms(2) this] d show ?thesis by (auto simp: nvm_aq_destroy_def)
qed

definition demo_cmd :: nvm_cmd where
  "demo_cmd = nvm_cmd_header (replicate 16 0) (admin_opcode NVM_ADMIN_IDENTIFY) 0"

definition demo_admin :: local_admin where
  "demo_admin = \<lparr>a_self = 2, a_acq = demo_cq, a_asq = demo_sq, a_timeout = 1\<rparr>"

definition busy_admin :: local_admin where
  "busy_admin = demo_admin\<lparr>a_asq := demo_sq\<lparr>q_tail := 3, q_last := 3\<rparr>\<rparr>"

definition demo_ref :: "(nat, nat) nvm_admin_reference" where
  "demo_ref = \<lparr>f_self = 1, f_ctrl = demo_controller, f_n_handles = 0, f_handles = [],
     f_data = Some (Admin_queues busy_admin), f_release = Some remove_admin_deleter, f_stub = Some Execute_command\<rparr>"

definition demo_deleter :: "nat rpc_deleter" where
  "demo_deleter d key n s = Some s"

definition demo_table :: "(nat, nat) nvm_admin_reference" where
  "demo_table = demo_ref\<lparr>f_handles := [\<lparr>h_self = 7, h_key = 5, h_data = 50, h_release = demo_deleter\<rparr>], f_n_handles := 1\<rparr>"

definition demo_window :: nvm_dma where
  "demo_window = \<lparr>d_vaddr = 0x20000, d_page_size = 0x1000, d_n_ioaddrs = 2, d_ioaddrs = [0x90000, 0x91000]\<rparr>"

lemma demo_admin_ok:
  "sq_ok (a_asq demo_admin)" "cq_ok (a_acq demo_admin)" "length demo_cmd = 16"
  "q_last (a_asq demo_admin) = q_tail (a_asq demo_admin)"
  using demo_sq_ok demo_cq_initial
  by (simp_all add: demo_admin_def demo_cmd_def cq_initial_def demo_cq_sys_def demo_sq_fields)

lemma busy_refused:
  "execute_command dev busy_admin cmd cpl w = Some (EAGAIN, busy_admin, cpl, w)"
  by (simp add: busy_admin_def demo_admin_def demo_sq_fields execute_command_def nvm_sq_enqueue_def)

lemmas demo_call_simps = demo_os_def demo_ref_def demo_table_def demo_controller_def mutex_lock_def
  mutex_unlock_def sys_call_def malloc_def acquire_def grant_def release_def Let_def

theorem handle_insert_refines_map_witness:
  "\<exists>ref' s'. nvm_rpc_handle_insert demo_table 6 (Some 60) (Some demo_deleter) demo_os = (0, ref', s')
     \<and> handle_map ref' 6 = Some 60 \<and> handle_map ref' 5 = Some 50"
proof -
  obtain ref' s' where i: "nvm_rpc_handle_insert demo_table 6 (Some 60) (Some demo_deleter) demo_os = (0, ref', s')"
    by (simp add: nvm_rpc_handle_insert_def demo_call_simps)
  have "handles_distinct demo_table" by (simp add: handles_distinct_def demo_table_def)
  from handle_insert_refines_map [OF this i]
  have "handle_map ref' = (handle_map demo_table)(6 \<mapsto> 60)" by simp
  moreover have "handle_map demo_table = [5 \<mapsto> 50]" by (simp add: handle_map_def demo_table_def)
  ultimately show ?thesis using i by simp
qed

theorem handle_remove_refines_map_witness:
  "nvm_rpc_handle_remove demo_table 6 demo_os = None
   \<and> (\<exists>ref' s'. nvm_rpc_handle_remove demo_table 5 demo_os = Some (ref', s') \<and> handle_map ref' 5 = None)"
proof -
  have d: "handles_distinct demo_table" by (simp add: handles_distinct_def demo_table_def)
  obtain s1 where l: "mutex_lock (f_self demo_table) demo_os = (0, s1)" by (simp add: demo_call_simps)
  have m: "handle_map demo_table = [5 \<mapsto> 50]" by (simp add: handle_map_def demo_table_def)
  show ?thesis
    using handle_remove_refines_map [OF d l, of 6] handle_remove_refines_map [OF d l, of 5]
    by (simp add: m) (auto simp: demo_table_def demo_deleter_def)
qed

theorem execute_command_submits_witness:
  "\<exists>m. placed demo_sq demo_cmd (\<lambda>_. 0) m
    \<and> execute_command (\<lambda>k m. m) demo_admin demo_cmd [] idle_world = Some (finish demo_admin demo_cmd []
         (nvm_cq_dequeue_block (\<lambda>k m. m) demo_cq 1
           (reg_write32 (\<lambda>k m. m) 0x11008 1 (idle_world\<lparr>w_mem := m\<rparr>))))"
  using execute_command_submits [OF demo_admin_ok(1,4,3), of "\<lambda>k m. m" "[]" idle_world]
  by (simp add: demo_admin_def in_flight_def demo_sq_fields sq_bump_def) (simp add: idle_world_def)

theorem execute_command_outcome_witness:
  "\<exists>err admin' cpl' w'. execute_command (\<lambda>k m. m) demo_admin demo_cmd [] idle_world = Some (err, admin', cpl', w')
     \<and> (err = 0 \<or> err = ETIME \<and> in_flight (a_asq admin') = 1)"
proof -
  have f: "in_flight (a_asq demo_admin) = 0" "q_n (a_asq demo_admin) = 4"
    by (simp_all add: demo_admin_def demo_sq_fields in_flight_def)
  show ?thesis
    using execute_command_outcome [OF demo_admin_ok(1,4,3,2), of "\<lambda>k m. m" "[]" idle_world] unfolding f by auto
qed

theorem raw_rpc_local_witness:
  "\<exists>ref' s'. nvm_raw_rpc (\<lambda>k m. m) (\<lambda>(b :: nat) cmd cpl s. (0, cmd, cpl, s)) demo_ref demo_cmd [] 0x40000 demo_os idle_world
     = Some (EAGAIN, ref', demo_cmd, [], s', idle_world) \<and> gains demo_os s' {#}"
proof -
  have l: "fst (mutex_lock (f_self demo_ref) demo_os) = 0" by (simp add: demo_call_simps)
  show ?thesis
    using raw_rpc_local [of demo_ref busy_admin "\<lambda>k m. m" demo_cmd "[]" idle_world EAGAIN busy_admin "[]" idle_world
        "\<lambda>b cmd cpl s. (0, cmd, cpl, s)" "0x40000" demo_os] l
    by (auto simp: busy_refused demo_ref_def)
qed

theorem rpc_bind_once_witness:
  "fst (nvm_rpc_bind demo_ref (Some (Binding 1)) None (Some Remote_command) demo_os) = EINVAL"
proof -
  obtain s1 where l: "mutex_lock (f_self demo_ref) demo_os = (0, s1)" by (simp add: demo_call_simps)
  from rpc_bind_once [OF l, of "Some (Binding 1)" None "Some Remote_command"] show ?thesis
    by (auto simp: demo_ref_def)
qed

lemma demo_aq_create:
  "\<exists>ref s1 w1. (nvm_aq_create (\<lambda>k m. m) 0 demo_controller demo_window demo_os idle_world
     :: (int \<times> (nat, nat) nvm_admin_reference option \<times> os \<times> world) option) = Some (0, Some ref, s1, w1)
     \<and> (\<exists>s2. mutex_lock (f_self ref) s1 = (0, s2))"
  by (simp add: nvm_aq_create_def nvm_ref_get_def create_admin_def demo_call_simps demo_ctrl_def demo_window_def)

theorem aq_create_result_witness:
  "\<exists>ref admin s1 w1. (nvm_aq_create (\<lambda>k m. m) 0 demo_controller demo_window demo_os idle_world
     :: (int \<times> (nat, nat) nvm_admin_reference option \<times> os \<times> world) option) = Some (0, Some ref, s1, w1)
     \<and> f_data ref = Some (Admin_queues admin) \<and> in_flight (a_asq admin) = 0"
proof -
  from demo_aq_create obtain ref :: "(nat, nat) nvm_admin_reference" and s1 w1 where
    c: "nvm_aq_create (\<lambda>k m. m) 0 demo_controller demo_window demo_os idle_world = Some (0, Some ref, s1, w1)" by blast
  from aq_create_result [OF c] c show ?thesis by auto
qed

theorem aq_destroy_leaks_descriptor_witness:
  "\<exists>ref s1 w1 s'. (nvm_aq_create (\<lambda>k m. m) 0 demo_controller demo_window demo_os idle_world
     :: (int \<times> (nat, nat) nvm_admin_reference option \<times> os \<times> world) option) = Some (0, Some ref, s1, w1)
     \<and> nvm_aq_destroy (Some ref) s1 = Some s' \<and> os_live s' \<noteq> {#}"
proof -
  from demo_aq_create obtain ref :: "(nat, nat) nvm_admin_reference" and s1 w1 s2 where
    c: "nvm_aq_create (\<lambda>k m. m) 0 demo_controller demo_window demo_os idle_world = Some (0, Some ref, s1, w1)"
    and l: "mutex_lock (f_self ref) s1 = (0, s2)" by blast
  from aq_destroy_leaks_descriptor [OF c l] c show ?thesis by (auto simp: gains_def)
qed

end
