(* ===== verification/Admin.thy ===== *)
theory Admin
  imports Rpc
begin

unbundle bit_operations_syntax

text \<open>
  Admin commands: \<open>src/admin.c\<close> and \<open>admin.h\<close>.  The functions that build a command are pure and have
  the suffix \<open>_cmd\<close>; the functions that issue one go through \<open>nvm_raw_rpc\<close> and read the answer in the
  caller's buffer.  A pointer argument that may be NULL is an option, the buffer is an address.  A
  shift by the width of the type or more, and a division by zero, is \<open>None\<close>.
\<close>

section \<open>Building commands\<close>

definition nvm_admin_cq_create_cmd :: "nvm_cmd \<Rightarrow> nvm_queue \<Rightarrow> nvm_cmd" where
  "nvm_admin_cq_create_cmd cmd cq =
     (let cmd = nvm_cmd_header cmd (admin_opcode NVM_ADMIN_CREATE_COMPLETION_QUEUE) 0;
          cmd = nvm_cmd_data_ptr cmd (q_ioaddr cq) 0 in
      cmd[10 := push_bit 16 (ucast (q_max_entries cq) - 1) OR ucast (q_no cq),
          11 := push_bit 16 0x0000 OR push_bit 1 0x00 OR 0x01])"

definition nvm_admin_sq_create_cmd :: "nvm_cmd \<Rightarrow> nvm_queue \<Rightarrow> nvm_queue \<Rightarrow> nvm_cmd" where
  "nvm_admin_sq_create_cmd cmd sq cq =
     (let cmd = nvm_cmd_header cmd (admin_opcode NVM_ADMIN_CREATE_SUBMISSION_QUEUE) 0;
          cmd = nvm_cmd_data_ptr cmd (q_ioaddr sq) 0 in
      cmd[10 := push_bit 16 (ucast (q_max_entries sq) - 1) OR ucast (q_no sq),
          11 := push_bit 16 (ucast (q_no cq)) OR push_bit 1 0x00 OR 0x01])"

text \<open>The counts are promoted to \<open>int\<close> before the subtraction.\<close>

definition nvm_admin_current_num_queues_cmd :: "nvm_cmd \<Rightarrow> bool \<Rightarrow> u16 \<Rightarrow> u16 \<Rightarrow> nvm_cmd" where
  "nvm_admin_current_num_queues_cmd cmd is_set n_cqs n_sqs =
     (let cmd = nvm_cmd_header cmd (admin_opcode (if is_set then NVM_ADMIN_SET_FEATURES else NVM_ADMIN_GET_FEATURES)) 0;
          cmd = nvm_cmd_data_ptr cmd 0 0 in
      cmd[10 := push_bit 8 0x00 OR 0x07,
          11 := (if is_set then push_bit 16 (ucast n_cqs - 1) OR (ucast n_sqs - 1) else 0)])"

definition nvm_admin_identify_ctrl_cmd :: "nvm_cmd \<Rightarrow> u64 \<Rightarrow> nvm_cmd" where
  "nvm_admin_identify_ctrl_cmd cmd ioaddr =
     (let cmd = nvm_cmd_header cmd (admin_opcode NVM_ADMIN_IDENTIFY) 0;
          cmd = nvm_cmd_data_ptr cmd ioaddr 0 in
      cmd[10 := push_bit 16 0 OR 0x01, 11 := 0])"

definition nvm_admin_identify_ns_cmd :: "nvm_cmd \<Rightarrow> u32 \<Rightarrow> u64 \<Rightarrow> nvm_cmd" where
  "nvm_admin_identify_ns_cmd cmd ns_id ioaddr =
     (let cmd = nvm_cmd_header cmd (admin_opcode NVM_ADMIN_IDENTIFY) ns_id;
          cmd = nvm_cmd_data_ptr cmd ioaddr 0 in
      cmd[10 := push_bit 16 0 OR 0x00, 11 := 0])"

section \<open>Issuing commands\<close>

abbreviation zero_cmd :: nvm_cmd where "zero_cmd \<equiv> replicate 16 0"
abbreviation zero_cpl :: nvm_cpl where "zero_cpl \<equiv> replicate 4 0"

text \<open>\<open>1UL << n\<close> and \<open>1 << n\<close>.\<close>

definition shl_ulong :: "nat \<Rightarrow> u64 option" where
  "shl_ulong n = (if n < 64 then Some (push_bit n 1) else None)"

definition shl_int :: "nat \<Rightarrow> u64 option" where
  "shl_int n = (if n < 31 then Some (push_bit n 1) else None)"

definition load_bytes :: "mem \<Rightarrow> u64 \<Rightarrow> nat \<Rightarrow> u8 list" where
  "load_bytes m a n = map (\<lambda>i. m (a + of_nat i)) [0..<n]"

type_synonym 'b remote_stub = "'b \<Rightarrow> nvm_cmd \<Rightarrow> nvm_cpl \<Rightarrow> os \<Rightarrow> int \<times> nvm_cmd \<times> nvm_cpl \<times> os"

definition ctrl_info_zero :: nvm_ctrl_info where
  "ctrl_info_zero = \<lparr>i_nvme_version = 0, i_page_size = 0, i_db_stride = 0, i_timeout = 0, i_contiguous = 0,
     i_max_entries = 0, i_pci_vendor = replicate 4 0, i_serial_no = replicate 20 0, i_model_no = replicate 40 0,
     i_firmware = replicate 8 0, i_max_data_size = 0, i_max_data_pages = 0, i_cq_entry_size = 0,
     i_sq_entry_size = 0, i_max_out_cmds = 0, i_max_n_ns = 0\<rparr>"

text \<open>The completion variable of the function lies at \<open>cpl_ptr\<close>.\<close>

definition nvm_admin_ctrl_info ::
  "device \<Rightarrow> 'b remote_stub \<Rightarrow> u64 \<Rightarrow> ('h, 'b) nvm_admin_reference \<Rightarrow> nvm_ctrl_info option \<Rightarrow> u64 \<Rightarrow> u64 \<Rightarrow> os \<Rightarrow> world
     \<Rightarrow> (int \<times> nvm_ctrl_info option \<times> ('h, 'b) nvm_admin_reference \<times> os \<times> world) option" where
  "nvm_admin_ctrl_info dev remote cpl_ptr ref info_ptr ptr ioaddr s w =
     (if info_ptr = None \<or> ptr = NULL \<or> ioaddr = 0 then Some (NVM_ERR_PACK (w_mem w) NULL EINVAL, info_ptr, ref, s, w)
      else
        do { let w = w\<lparr>w_mem := memset ptr 0 0x1000 (w_mem w)\<rparr>;
             let ctrl = k_handle (f_ctrl ref);
             stride \<leftarrow> shl_ulong (unat (c_dstrd ctrl));
             let info = ctrl_info_zero\<lparr>
                   i_nvme_version := VER (w_mem w) (c_mm_ptr ctrl),
                   i_page_size := c_page_size ctrl,
                   i_db_stride := stride,
                   i_timeout := c_timeout ctrl,
                   i_contiguous := (if CAP_CQR (w_mem w) (c_mm_ptr ctrl) = 0 then 0 else 1),
                   i_max_entries := c_max_entries ctrl\<rparr>;
             let command = nvm_admin_identify_ctrl_cmd zero_cmd ioaddr;
             (err, ref, command, completion, s, w) \<leftarrow> nvm_raw_rpc dev remote ref command zero_cpl cpl_ptr s w;
             if \<not> nvm_ok err then Some (err, Some info, ref, s, w)
             else
               do { let m = w_mem w;
                    mdts \<leftarrow> shl_ulong (unat (m (ptr + 77)));
                    mps \<leftarrow> shl_ulong (12 + unat (CAP_MPSMIN m (c_mm_ptr ctrl)));
                    sqes \<leftarrow> shl_int (unat (RB (ucast (m (ptr + 512))) 3 0));
                    cqes \<leftarrow> shl_int (unat (RB (ucast (m (ptr + 513))) 3 0));
                    if c_page_size ctrl = 0 then None
                    else
                      let info = info\<lparr>
                            i_pci_vendor := load_bytes m ptr 4,
                            i_serial_no := load_bytes m (ptr + 4) 20,
                            i_model_no := load_bytes m (ptr + 24) 40,
                            i_firmware := load_bytes m (ptr + 64) 8,
                            i_max_data_size := mdts * mps,
                            i_max_data_pages := mdts * mps div c_page_size ctrl,
                            i_sq_entry_size := sqes,
                            i_cq_entry_size := cqes,
                            i_max_out_cmds := ucast (load16 m (ptr + 514)),
                            i_max_n_ns := ucast (load32 m (ptr + 516))\<rparr> in
                      Some (NVM_ERR_PACK m NULL 0, Some info, ref, s, w) } })"

definition ns_info_zero :: nvm_ns_info where
  "ns_info_zero = \<lparr>n_ns_id = 0, n_size = 0, n_capacity = 0, n_utilization = 0, n_lba_data_size = 0, n_metadata_size = 0\<rparr>"

definition nvm_admin_ns_info ::
  "device \<Rightarrow> 'b remote_stub \<Rightarrow> u64 \<Rightarrow> ('h, 'b) nvm_admin_reference \<Rightarrow> nvm_ns_info option \<Rightarrow> u32 \<Rightarrow> u64 \<Rightarrow> u64 \<Rightarrow> os \<Rightarrow> world
     \<Rightarrow> (int \<times> nvm_ns_info option \<times> ('h, 'b) nvm_admin_reference \<times> os \<times> world) option" where
  "nvm_admin_ns_info dev remote cpl_ptr ref info_ptr ns_id ptr ioaddr s w =
     (if info_ptr = None \<or> ptr = NULL \<or> ioaddr = 0 then Some (NVM_ERR_PACK (w_mem w) NULL EINVAL, info_ptr, ref, s, w)
      else
        do { let w = w\<lparr>w_mem := memset ptr 0 0x1000 (w_mem w)\<rparr>;
             let info = ns_info_zero\<lparr>n_ns_id := ns_id\<rparr>;
             let command = nvm_admin_identify_ns_cmd zero_cmd ns_id ioaddr;
             (err, ref, command, completion, s, w) \<leftarrow> nvm_raw_rpc dev remote ref command zero_cpl cpl_ptr s w;
             if \<not> nvm_ok err then Some (err, Some info, ref, s, w)
             else
               do { let m = w_mem w;
                    let format_idx = (ucast (RB (ucast (m (ptr + 26))) 3 0) :: u8);
                    let lba_format = load32 m (ptr + 128 + 4 * ucast format_idx);
                    lba_data_size \<leftarrow> shl_int (unat (RB (ucast lba_format) 23 16));
                    let info = info\<lparr>
                          n_size := load64 m ptr,
                          n_capacity := load64 m (ptr + 8),
                          n_utilization := load64 m (ptr + 16),
                          n_lba_data_size := lba_data_size,
                          n_metadata_size := RB (ucast lba_format) 15 0\<rparr>;
                    Some (NVM_ERR_PACK m NULL 0, Some info, ref, s, w) } })"

definition nvm_admin_cq_create ::
  "device \<Rightarrow> 'b remote_stub \<Rightarrow> u64 \<Rightarrow> ('h, 'b) nvm_admin_reference \<Rightarrow> nvm_queue \<Rightarrow> u16 \<Rightarrow> u64 \<Rightarrow> u64 \<Rightarrow> os \<Rightarrow> world
     \<Rightarrow> (int \<times> nvm_queue \<times> ('h, 'b) nvm_admin_reference \<times> os \<times> world) option" where
  "nvm_admin_cq_create dev remote cpl_ptr ref cq sid vaddr ioaddr s w =
     (if sid = 0 then Some (EINVAL, cq, ref, s, w)
      else
        do { let queue = nvm_queue_clear (k_handle (f_ctrl ref)) True sid vaddr ioaddr;
             let command = nvm_admin_cq_create_cmd zero_cmd queue;
             (err, ref, command, completion, s, w) \<leftarrow> nvm_raw_rpc dev remote ref command zero_cpl cpl_ptr s w;
             if \<not> nvm_ok err then Some (err, cq, ref, s, w)
             else Some (NVM_ERR_PACK (w_mem w) NULL 0, queue, ref, s, w) })"

definition nvm_admin_sq_create ::
  "device \<Rightarrow> 'b remote_stub \<Rightarrow> u64 \<Rightarrow> ('h, 'b) nvm_admin_reference \<Rightarrow> nvm_queue \<Rightarrow> nvm_queue \<Rightarrow> u16 \<Rightarrow> u64 \<Rightarrow> u64 \<Rightarrow> os \<Rightarrow> world
     \<Rightarrow> (int \<times> nvm_queue \<times> ('h, 'b) nvm_admin_reference \<times> os \<times> world) option" where
  "nvm_admin_sq_create dev remote cpl_ptr ref sq cq sid vaddr ioaddr s w =
     (if sid = 0 then Some (EINVAL, sq, ref, s, w)
      else
        do { let queue = nvm_queue_clear (k_handle (f_ctrl ref)) False sid vaddr ioaddr;
             let command = nvm_admin_sq_create_cmd zero_cmd queue cq;
             (err, ref, command, completion, s, w) \<leftarrow> nvm_raw_rpc dev remote ref command zero_cpl cpl_ptr s w;
             if \<not> nvm_ok err then Some (err, sq, ref, s, w)
             else Some (NVM_ERR_PACK (w_mem w) NULL 0, queue, ref, s, w) })"

text \<open>The results are stored in 16 bits; they come in the order of the arguments, completion queues first.\<close>

definition nvm_admin_get_num_queues ::
  "device \<Rightarrow> 'b remote_stub \<Rightarrow> u64 \<Rightarrow> ('h, 'b) nvm_admin_reference \<Rightarrow> u16 \<Rightarrow> u16 \<Rightarrow> os \<Rightarrow> world
     \<Rightarrow> (int \<times> u16 \<times> u16 \<times> ('h, 'b) nvm_admin_reference \<times> os \<times> world) option" where
  "nvm_admin_get_num_queues dev remote cpl_ptr ref n_cqs n_sqs s w =
     do { let command = nvm_admin_current_num_queues_cmd zero_cmd False 0 0;
          (err, ref, command, completion, s, w) \<leftarrow> nvm_raw_rpc dev remote ref command zero_cpl cpl_ptr s w;
          if \<not> nvm_ok err then Some (err, n_cqs, n_sqs, ref, s, w)
          else
            let n_sqs = ucast (drop_bit 16 (completion ! 0) + 1);
                n_cqs = ucast ((completion ! 0 AND 0xffff) + 1) in
            Some (NVM_ERR_PACK (w_mem w) NULL 0, n_cqs, n_sqs, ref, s, w) }"

definition nvm_admin_request_num_queues ::
  "device \<Rightarrow> 'b remote_stub \<Rightarrow> u64 \<Rightarrow> ('h, 'b) nvm_admin_reference \<Rightarrow> u16 \<Rightarrow> u16 \<Rightarrow> os \<Rightarrow> world
     \<Rightarrow> (int \<times> u16 \<times> u16 \<times> ('h, 'b) nvm_admin_reference \<times> os \<times> world) option" where
  "nvm_admin_request_num_queues dev remote cpl_ptr ref n_cqs n_sqs s w =
     (if n_cqs = 0 \<or> n_sqs = 0 then Some (NVM_ERR_PACK (w_mem w) NULL EINVAL, n_cqs, n_sqs, ref, s, w)
      else
        do { let command = nvm_admin_current_num_queues_cmd zero_cmd True n_cqs n_sqs;
             (err, ref, command, completion, s, w) \<leftarrow> nvm_raw_rpc dev remote ref command zero_cpl cpl_ptr s w;
             if err \<noteq> 0 then Some (err, n_cqs, n_sqs, ref, s, w)
             else
               let n_sqs = ucast (drop_bit 16 (completion ! 0) + 1);
                   n_cqs = ucast ((completion ! 0 AND 0xffff) + 1) in
               Some (NVM_ERR_PACK (w_mem w) NULL 0, n_cqs, n_sqs, ref, s, w) })"

definition nvm_admin_set_num_queues ::
  "device \<Rightarrow> 'b remote_stub \<Rightarrow> u64 \<Rightarrow> ('h, 'b) nvm_admin_reference \<Rightarrow> u16 \<Rightarrow> u16 \<Rightarrow> os \<Rightarrow> world
     \<Rightarrow> (int \<times> u16 \<times> u16 \<times> ('h, 'b) nvm_admin_reference \<times> os \<times> world) option" where
  "nvm_admin_set_num_queues dev remote cpl_ptr ref n_cqs n_sqs s w =
     nvm_admin_request_num_queues dev remote cpl_ptr ref n_cqs n_sqs s w"

section \<open>What the controller reads\<close>

lemma admin_cmd_length [simp]:
  "length (nvm_admin_cq_create_cmd zero_cmd q) = 16" "length (nvm_admin_sq_create_cmd zero_cmd q q') = 16"
  "length (nvm_admin_current_num_queues_cmd zero_cmd b n m) = 16"
  by (simp_all add: nvm_admin_cq_create_cmd_def nvm_admin_sq_create_cmd_def nvm_admin_current_num_queues_cmd_def Let_def)

lemma RB_low_byte:
  fixes x c :: u32
  assumes "take_bit 8 c = 0"
  shows "RB (ucast (x AND NOT c)) 7 0 = RB (ucast x) 7 0"
proof -
  have n: "\<not> bit c n" if "n \<le> 7" for n
  proof
    assume "bit c n"
    with that have "bit (take_bit 8 c) n" by (simp add: bit_take_bit_iff)
    with assms show False by simp
  qed
  show ?thesis by (rule bit_word_eqI) (auto simp: bit_simps n dest: bit_imp_le_length)
qed

lemma data_ptr_opcode:
  assumes "10 \<le> length cmd"
  shows "RB (ucast (nvm_cmd_data_ptr cmd p q ! 0)) 7 0 = RB (ucast (cmd ! 0)) 7 0"
proof -
  have "cmd \<noteq> []" using assms by auto
  then have "nvm_cmd_data_ptr cmd p q ! 0 = cmd ! 0 AND NOT 0xC300"
    by (simp add: nvm_cmd_data_ptr_def Let_def)
  moreover have "take_bit 8 (0xC300 :: u32) = 0" by simp
  ultimately show ?thesis using RB_low_byte [of "0xC300" "cmd ! 0"] by presburger
qed

lemma RB_halves:
  fixes a :: u32 and b :: u16
  shows "RB (ucast (push_bit 16 a OR ucast b)) 15 0 = ucast b"
    and "RB (ucast (push_bit 16 a OR ucast b)) 31 16 = ucast (take_bit 16 a)"
  by (rule bit_word_eqI, auto simp: bit_simps dest: bit_imp_le_length)+

lemma unat_pred_u16:
  fixes n :: u16
  assumes "n \<noteq> 0"
  shows "(ucast n - 1 :: u32) = ucast (n - 1)" "unat (n - 1) = unat n - 1"
proof -
  have 1: "unat (n - 1) = unat n - 1" using assms by (simp add: unat_minus_one)
  have "ucast n \<noteq> (0 :: u32)" using assms by (metis unat_ucast_16_32 unat_0 unat_eq_zero)
  then have "unat (ucast n - 1 :: u32) = unat n - 1" by (simp add: unat_minus_one)
  then show "(ucast n - 1 :: u32) = ucast (n - 1)" using 1 by (metis unat_ucast_16_32 word_unat_eq_iff)
  show "unat (n - 1) = unat n - 1" by (rule 1)
qed

lemma take_16_ucast [simp]: "ucast (take_bit 16 (ucast (x :: u16) :: u32)) = (ucast x :: u64)"
  by (rule bit_word_eqI) (auto simp: bit_simps dest: bit_imp_le_length)

text \<open>
  the commands that create a completion queue and a submission queue carry the opcode, the bus
  address of the queue memory, the queue number, the queue size zero-based and, for a submission
  queue, the number of the completion queue it is paired with; they keep the command identifier.
\<close>

theorem queue_create_commands:
  assumes "length cmd = 16" "q_max_entries sq \<noteq> 0" "q_max_entries cq \<noteq> 0"
  shows "(let c = nvm_admin_cq_create_cmd cmd cq in
      RB (ucast (c ! 0)) 7 0 = 0x05 \<and> cmd_cid c = cmd_cid cmd \<and> cmd_prp1 c = q_ioaddr cq
      \<and> RB (ucast (c ! 10)) 15 0 = ucast (q_no cq) \<and> RB (ucast (c ! 10)) 31 16 = ucast (q_max_entries cq - 1)
      \<and> c ! 11 = 1)
    \<and> (let c = nvm_admin_sq_create_cmd cmd sq cq in
      RB (ucast (c ! 0)) 7 0 = 0x01 \<and> cmd_cid c = cmd_cid cmd \<and> cmd_prp1 c = q_ioaddr sq
      \<and> RB (ucast (c ! 10)) 15 0 = ucast (q_no sq) \<and> RB (ucast (c ! 10)) 31 16 = ucast (q_max_entries sq - 1)
      \<and> RB (ucast (c ! 11)) 15 0 = 1 \<and> RB (ucast (c ! 11)) 31 16 = ucast (q_no cq))"
proof -
  have l: "length (nvm_cmd_data_ptr (nvm_cmd_header cmd opc 0) p 0) = 16" for opc p using assms(1) by simp
  have d: "cmd_prp1 ((nvm_cmd_data_ptr (nvm_cmd_header cmd opc 0) p 0)[10 := x, 11 := y]) = p"
    "cmd_cid ((nvm_cmd_data_ptr (nvm_cmd_header cmd opc 0) p 0)[10 := x, 11 := y]) = cmd_cid cmd" for opc p x y
    using nvm_cmd_data_ptr_fields(1-3) [of "nvm_cmd_header cmd opc 0" p 0] nvm_cmd_header_fields(1) [of cmd opc 0] assms(1)
    by (simp_all add: cmd_prp1_def cmd_cid_def)
  have o: "RB (ucast ((nvm_cmd_data_ptr (nvm_cmd_header cmd opc 0) p 0)[10 := x, 11 := y] ! 0)) 7 0 = ucast (opc AND 0x7f)"
    for opc p x y
    using data_ptr_opcode [of "nvm_cmd_header cmd opc 0" p 0] nvm_cmd_header_fields(2) [of cmd opc 0] assms(1) by simp
  have h: "RB (ucast (push_bit 16 (ucast (q_no cq)) OR (1 :: u32))) 31 16 = ucast (q_no cq)"
    "RB (ucast (push_bit 16 (ucast (q_no cq)) OR (1 :: u32))) 15 0 = 1"
    using RB_halves [of "ucast (q_no cq)" 1] by simp_all
  show ?thesis
    unfolding nvm_admin_cq_create_cmd_def nvm_admin_sq_create_cmd_def Let_def
    using l d o h by (simp add: RB_halves unat_pred_u16 assms(2,3))
qed

section \<open>What the caller gets\<close>

lemma nvm_raw_rpc_local:
  assumes "f_stub ref = Some Execute_command" "f_data ref = Some (Admin_queues admin)"
    and "mutex_lock (f_self ref) s = (0, s1)"
    and "execute_command dev admin cmd cpl w = Some (err, admin', cpl', w')"
  shows "nvm_raw_rpc dev remote ref cmd cpl ptr s w =
      Some (err, ref\<lparr>f_data := Some (Admin_queues admin')\<rparr>, cmd, cpl', mutex_unlock (f_self ref) s1, w')"
  using assms by (simp add: nvm_raw_rpc_def call_stub_def NVM_ERR_PACK_def)

text \<open>
  creating an I/O queue through a local reference refuses queue number 0; otherwise it returns the
  errno of executing the command, and hands out the cleared queue exactly when that is 0.  The
  completion, and so the status the controller reports in it, has no influence: a queue the
  controller refused to create is handed out too.
\<close>

theorem queue_create_ignores_status:
  fixes ref :: "('h, 'b) nvm_admin_reference"
  assumes "f_stub ref = Some Execute_command" "f_data ref = Some (Admin_queues admin)"
    and "mutex_lock (f_self ref) s = (0, s1)" "sid \<noteq> 0"
    and "queue = nvm_queue_clear (k_handle (f_ctrl ref)) True sid vaddr ioaddr"
    and "execute_command dev admin (nvm_admin_cq_create_cmd zero_cmd queue) zero_cpl w = Some (err, admin', cpl', w')"
    and "queue' = nvm_queue_clear (k_handle (f_ctrl ref)) False sid vaddr ioaddr"
    and "execute_command dev admin (nvm_admin_sq_create_cmd zero_cmd queue' cq) zero_cpl w = Some (err', admin'', cpl'', w'')"
  shows "nvm_admin_cq_create dev remote ptr ref q 0 vaddr ioaddr s w = Some (EINVAL, q, ref, s, w)
    \<and> nvm_admin_sq_create dev remote ptr ref q cq 0 vaddr ioaddr s w = Some (EINVAL, q, ref, s, w)
    \<and> nvm_admin_cq_create dev remote ptr ref q sid vaddr ioaddr s w =
        Some (err, if err = 0 then queue else q, ref\<lparr>f_data := Some (Admin_queues admin')\<rparr>, mutex_unlock (f_self ref) s1, w')
    \<and> nvm_admin_sq_create dev remote ptr ref q cq sid vaddr ioaddr s w =
        Some (err', if err' = 0 then queue' else q, ref\<lparr>f_data := Some (Admin_queues admin'')\<rparr>, mutex_unlock (f_self ref) s1, w'')"
  using nvm_raw_rpc_local [OF assms(1-3,6)] nvm_raw_rpc_local [OF assms(1-3,8)] assms(4,5,7)
  by (simp add: nvm_admin_cq_create_def nvm_admin_sq_create_def nvm_ok_def NVM_ERR_PACK_def)

lemma low_high_join:
  fixes a b :: u16
  shows "ucast (drop_bit 16 (push_bit 16 (ucast a) OR ucast b :: u32)) = a"
    and "ucast ((push_bit 16 (ucast a) OR ucast b :: u32) AND 0xffff) = b"
  unfolding and_lo16 by (rule bit_word_eqI, auto simp: bit_simps dest: bit_imp_le_length)+

lemma ucast_plus_one: "ucast (x + 1 :: u32) = (ucast x + 1 :: u16)"
proof -
  have "unat (ucast (x + 1) :: u16) = (unat x + 1) mod 2 ^ 16"
    unfolding unat_ucast_mod by (simp add: unat_word_ariths mod_mod_cancel)
  moreover have "unat (ucast x + 1 :: u16) = (unat x mod 2 ^ 16 + 1) mod 2 ^ 16"
    by (simp add: unat_word_ariths unat_ucast_mod)
  ultimately show ?thesis by (simp add: word_unat_eq_iff mod_simps)
qed

text \<open>
  a request for numbers of queues is sent zero-based, completion queues in the upper half of the
  word and submission queues in the lower half.  Of an answer in the same layout the upper half is
  taken for the submission queues and the lower half for the completion queues: the caller gets the
  two numbers exchanged.
\<close>

theorem num_queues_exchanged:
  fixes ref :: "('h, 'b) nvm_admin_reference"
  assumes "n_cqs \<noteq> 0" "n_sqs \<noteq> 0"
    and "nvm_raw_rpc dev remote ref (nvm_admin_current_num_queues_cmd zero_cmd True n_cqs n_sqs) zero_cpl ptr s w
      = Some (0, ref', cmd', cpl', s', w')"
    and "cpl' ! 0 = push_bit 16 (ucast (granted_cqs - 1)) OR ucast (granted_sqs - 1 :: u16)"
  shows "nvm_admin_request_num_queues dev remote ptr ref n_cqs n_sqs s w
      = Some (0, granted_sqs, granted_cqs, ref', s', w')
    \<and> RB (ucast (nvm_admin_current_num_queues_cmd zero_cmd True n_cqs n_sqs ! 11)) 31 16 = ucast (n_cqs - 1)
    \<and> RB (ucast (nvm_admin_current_num_queues_cmd zero_cmd True n_cqs n_sqs ! 11)) 15 0 = ucast (n_sqs - 1)"
proof -
  let ?r = "push_bit 16 (ucast (granted_cqs - 1)) OR ucast (granted_sqs - 1) :: u32"
  have "ucast (drop_bit 16 ?r + 1) = granted_cqs" "ucast ((?r AND 0xffff) + 1) = granted_sqs"
    unfolding ucast_plus_one low_high_join by simp_all
  then have "nvm_admin_request_num_queues dev remote ptr ref n_cqs n_sqs s w = Some (0, granted_sqs, granted_cqs, ref', s', w')"
    using assms by (simp add: nvm_admin_request_num_queues_def NVM_ERR_PACK_def)
  then show ?thesis
    using assms(1,2) by (simp add: nvm_admin_current_num_queues_cmd_def Let_def unat_pred_u16 RB_halves)
qed

text \<open>
  the information on a namespace is read from the page the controller wrote: sizes in blocks, and
  block and metadata size from the format entry that the low four bits of byte 26 select.  A block
  size of 2^31 bytes or more cannot be represented: the shift is undefined.
\<close>

theorem ns_info_decodes:
  fixes ref :: "('h, 'b) nvm_admin_reference"
  assumes "buf \<noteq> NULL" "ioaddr \<noteq> 0"
    and "nvm_raw_rpc dev remote ref (nvm_admin_identify_ns_cmd zero_cmd ns_id ioaddr) zero_cpl ptr s
        (w\<lparr>w_mem := memset buf 0 0x1000 (w_mem w)\<rparr>) = Some (0, ref', cmd', cpl', s', w')"
    and "fmt = load32 (w_mem w') (buf + 128 + 4 * of_nat (unat (w_mem w' (buf + 26)) mod 16))"
    and "lbads = unat fmt div 2 ^ 16 mod 2 ^ 8"
  shows "nvm_admin_ns_info dev remote ptr ref (Some i) ns_id buf ioaddr s w =
    (if lbads < 31
     then Some (0, Some \<lparr>n_ns_id = ns_id, n_size = load64 (w_mem w') buf, n_capacity = load64 (w_mem w') (buf + 8),
              n_utilization = load64 (w_mem w') (buf + 16), n_lba_data_size = 2 ^ lbads,
              n_metadata_size = of_nat (unat fmt mod 2 ^ 16)\<rparr>, ref', s', w')
     else None)"
proof -
  let ?b = "w_mem w' (buf + 26)"
  have i: "unat (RB (ucast ?b) 3 0) = unat ?b mod 16" by (simp add: unat_RB unat_ucast_up)
  have f: "(ucast (ucast (RB (ucast ?b) 3 0) :: u8) :: u64) = of_nat (unat ?b mod 16)"
    using i by (intro word_unat_eq_iff [THEN iffD2]) (simp add: unat_ucast_mod unat_of_nat take_bit_eq_mod)
  have l: "unat (RB (ucast fmt) 23 16) = lbads" using assms(5) by (simp add: unat_RB unat_ucast_up)
  have m: "RB (ucast fmt) 15 0 = of_nat (unat fmt mod 2 ^ 16)"
    by (intro word_unat_eq_iff [THEN iffD2]) (simp add: unat_RB unat_ucast_up unat_of_nat take_bit_eq_mod)
  show ?thesis
    using assms(1-3) unfolding nvm_admin_ns_info_def Let_def f
    by (simp add: f assms(4) [symmetric] l m shl_int_def nvm_ok_def NVM_ERR_PACK_def ns_info_zero_def push_bit_eq_mult)
qed

text \<open>
  the information on a controller: the maximum transfer size is 2 to the power of MDTS in units of
  the minimum page size, computed modulo 2^64 (a controller without a limit reports MDTS 0 and is
  taken to be limited to one page); for an MDTS of 64 or more the shift is undefined.
\<close>

theorem ctrl_info_max_transfer:
  fixes ref :: "('h, 'b) nvm_admin_reference"
  assumes "buf \<noteq> NULL" "ioaddr \<noteq> 0" "ctrl = k_handle (f_ctrl ref)" "c_page_size ctrl \<noteq> 0" "unat (c_dstrd ctrl) < 64"
    and "nvm_raw_rpc dev remote ref (nvm_admin_identify_ctrl_cmd zero_cmd ioaddr) zero_cpl ptr s
        (w\<lparr>w_mem := memset buf 0 0x1000 (w_mem w)\<rparr>) = Some (0, ref', cmd', cpl', s', w')"
    and "mdts = unat (w_mem w' (buf + 77))" "mps = unat (CAP_MPSMIN (w_mem w') (c_mm_ptr ctrl))"
  shows "(64 \<le> mdts \<longrightarrow> nvm_admin_ctrl_info dev remote ptr ref (Some i) buf ioaddr s w = None)
    \<and> (mdts < 64 \<longrightarrow> (\<exists>info. nvm_admin_ctrl_info dev remote ptr ref (Some i) buf ioaddr s w = Some (0, Some info, ref', s', w')
        \<and> i_page_size info = c_page_size ctrl \<and> i_max_entries info = c_max_entries ctrl
        \<and> i_max_data_size info = 2 ^ (mdts + 12 + mps)
        \<and> i_max_data_pages info = i_max_data_size info div c_page_size ctrl
        \<and> i_sq_entry_size info = 2 ^ (unat (w_mem w' (buf + 512)) mod 16)
        \<and> i_cq_entry_size info = 2 ^ (unat (w_mem w' (buf + 513)) mod 16)
        \<and> i_serial_no info = load_bytes (w_mem w') (buf + 4) 20
        \<and> i_max_n_ns info = ucast (load32 (w_mem w') (buf + 516))))"
proof -
  have q: "unat (RB (ucast b) 3 0) = unat b mod 16" for b :: u8 by (simp add: unat_RB unat_ucast_up)
  have q31: "unat b mod 16 < 31" for b :: u8 by (rule less_trans [of _ 16]) simp_all
  have "mps < 2 ^ (Suc 51 - 48)" unfolding assms(8) CAP_MPSMIN_def by (rule unat_cap_field) simp
  then have m: "12 + mps < 64" by simp
  have x: "2 ^ mdts * 2 ^ (12 + mps) = (2 ^ (mdts + 12 + mps) :: u64)" by (simp add: power_add)
  show ?thesis
    using assms(1,2,4-6) m q31
    by (simp add: nvm_admin_ctrl_info_def Let_def shl_ulong_def shl_int_def assms(3,7,8) [symmetric] q
        nvm_ok_def NVM_ERR_PACK_def push_bit_eq_mult x)
qed

section \<open>Concrete commands\<close>

theorem queue_create_commands_witness:
  "RB (ucast (nvm_admin_sq_create_cmd zero_cmd demo_sq demo_cq ! 10)) 31 16 = 3
   \<and> RB (ucast (nvm_admin_sq_create_cmd zero_cmd demo_sq demo_cq ! 11)) 31 16 = 1"
proof -
  have nz: "q_max_entries demo_sq \<noteq> 0" "q_max_entries demo_cq \<noteq> 0" by (simp_all add: demo_sq_fields demo_cq_fields)
  from queue_create_commands [OF _ nz, of zero_cmd] show ?thesis by (simp add: demo_sq_fields demo_cq_fields Let_def)
qed

text \<open>A controller that answers every command with the status ``invalid queue identifier''.\<close>

definition refusing_dev :: device where
  "refusing_dev k m = store32 0x3000c 0x02030000 m"

lemma refused_command:
  assumes "length cmd = 16"
  shows "\<exists>admin' cpl' w'. execute_command refusing_dev demo_admin cmd zero_cpl idle_world = Some (0, admin', cpl', w')
    \<and> cpl_status cpl' = 0x0203"
proof -
  have f: "in_flight (a_asq demo_admin) < q_n (a_asq demo_admin) - 1"
    by (simp add: demo_admin_def in_flight_def demo_sq_fields)
  from execute_command_free [OF demo_admin_ok(1,4) assms f] obtain m where
    e: "execute_command refusing_dev demo_admin cmd zero_cpl idle_world = Some (finish demo_admin cmd zero_cpl
       (nvm_cq_dequeue_block refusing_dev (a_acq demo_admin) (a_timeout demo_admin)
         (reg_write32 refusing_dev (q_db (a_asq demo_admin)) (q_tail (sq_bump (a_asq demo_admin))) (idle_world\<lparr>w_mem := m\<rparr>))))"
    by metis
  let ?w = "reg_write32 refusing_dev (q_db (a_asq demo_admin)) (q_tail (sq_bump (a_asq demo_admin))) (idle_world\<lparr>w_mem := m\<rparr>)"
  have st: "load16 (w_mem ?w) 0x3000e = 0x0203" "load32 (w_mem ?w) 0x3000c = 0x02030000"
    using load16_high_half [of "0x3000c" "0x02030000"] load32_store32 [of "0x3000c" "0x02030000"]
    by (simp_all add: reg_write32_def refusing_dev_def)
  have s0: "cq_slot demo_cq 0 = 0x30000" by (simp add: cq_slot_def queue_slot_def demo_cq_fields)
  have ok: "cq_ok demo_cq" using demo_admin_ok(2) by (simp add: demo_admin_def)
  have "cq_tag (w_mem ?w) demo_cq (unat (q_head demo_cq)) = q_phase demo_cq"
    using st(1) s0 by (simp add: cq_tag_def NVM_CPL_STATUS_def demo_cq_fields)
  then have "nvm_cq_dequeue demo_cq (w_mem ?w) = (0x30000, cq_bump demo_cq)"
    using nvm_cq_dequeue_eq [OF ok, of "w_mem ?w"] s0 by (simp add: demo_cq_fields)
  then have "nvm_cq_dequeue_block refusing_dev (a_acq demo_admin) (a_timeout demo_admin) ?w = (0x30000, cq_bump demo_cq, ?w)"
    by (simp add: nvm_cq_dequeue_block_def demo_admin_def Let_def nvm_cq_dequeue_block_loop.simps)
  moreover have "cpl_status (x[3 := (0x02030000 AND 0xffff0000) OR ucast c]) = 0x0203" if "length x = 4" for x and c :: u16
    using that unfolding and_hi16 cpl_status_def by simp (rule bit_word_eqI, auto simp: bit_simps dest: bit_imp_le_length)
  ultimately show ?thesis unfolding e using st(2) by (simp add: finish_def Let_def)
qed

definition local_ref :: "(nat, nat) nvm_admin_reference" where
  "local_ref = demo_ref\<lparr>f_data := Some (Admin_queues demo_admin)\<rparr>"

definition remote_ref :: "(nat, nat) nvm_admin_reference" where
  "remote_ref = demo_ref\<lparr>f_data := Some (Binding 1), f_stub := Some Remote_command\<rparr>"

lemma local_ref_lock: "\<exists>s1. mutex_lock (f_self local_ref) demo_os = (0, s1)"
  by (simp add: local_ref_def demo_call_simps)

theorem queue_create_ignores_status_witness:
  "\<exists>queue ref' s' w'. nvm_admin_cq_create refusing_dev (\<lambda>(b :: nat) cmd cpl s. (0, cmd, cpl, s)) 0x60000 local_ref demo_cq 1
       0x50000 0x90000 demo_os idle_world = Some (0, queue, ref', s', w')
     \<and> queue = nvm_queue_clear demo_ctrl True 1 0x50000 0x90000"
proof -
  let ?q = "nvm_queue_clear (k_handle (f_ctrl local_ref)) True 1 0x50000 0x90000"
    and ?q' = "nvm_queue_clear (k_handle (f_ctrl local_ref)) False 1 0x50000 0x90000"
  from refused_command [OF admin_cmd_length(1)] obtain a c w where
    e: "execute_command refusing_dev demo_admin (nvm_admin_cq_create_cmd zero_cmd ?q) zero_cpl idle_world = Some (0, a, c, w)" by blast
  from refused_command [OF admin_cmd_length(2)] obtain a' c' w' where
    e': "execute_command refusing_dev demo_admin (nvm_admin_sq_create_cmd zero_cmd ?q' demo_cq) zero_cpl idle_world = Some (0, a', c', w')" by blast
  from local_ref_lock obtain s1 where k: "mutex_lock (f_self local_ref) demo_os = (0, s1)" by blast
  have r: "f_stub local_ref = Some Execute_command" "f_data local_ref = Some (Admin_queues demo_admin)"
    by (simp_all add: local_ref_def demo_ref_def)
  from queue_create_ignores_status [OF r k _ refl e refl e', of "\<lambda>b cmd cpl s. (0, cmd, cpl, s)" "0x60000" demo_cq] show ?thesis
    by (simp add: local_ref_def demo_ref_def demo_controller_def)
qed

lemma remote_ref_rpc:
  "\<exists>s'. nvm_raw_rpc dev (\<lambda>(b :: nat) cmd cpl s. (0, cmd, answer, s)) remote_ref cmd cpl ptr demo_os w
     = Some (0, remote_ref, cmd, answer, s', dev_step dev w)"
  by (simp add: nvm_raw_rpc_def call_stub_def NVM_ERR_PACK_def remote_ref_def demo_call_simps)

theorem num_queues_exchanged_witness:
  "\<exists>ref' s' w'. nvm_admin_request_num_queues (\<lambda>k m. m) (\<lambda>(b :: nat) cmd cpl s. (0, cmd, [0x00030007, 0, 0, 0], s)) 0x60000
     remote_ref 4 8 demo_os idle_world = Some (0, 8, 4, ref', s', w')"
proof -
  from remote_ref_rpc [of "\<lambda>k m. m" "[0x00030007, 0, 0, 0]" "nvm_admin_current_num_queues_cmd zero_cmd True 4 8" zero_cpl "0x60000" idle_world]
  obtain s' where r: "nvm_raw_rpc (\<lambda>k m. m) (\<lambda>(b :: nat) cmd cpl s. (0, cmd, [0x00030007, 0, 0, 0], s)) remote_ref
      (nvm_admin_current_num_queues_cmd zero_cmd True 4 8) zero_cpl 0x60000 demo_os idle_world
     = Some (0, remote_ref, nvm_admin_current_num_queues_cmd zero_cmd True 4 8, [0x00030007, 0, 0, 0], s', dev_step (\<lambda>k m. m) idle_world)" by blast
  from num_queues_exchanged [OF _ _ r, of 4 8] show ?thesis by simp
qed

theorem ns_info_decodes_witness:
  "\<exists>i s' w'. nvm_admin_ns_info (\<lambda>k m. m) (\<lambda>(b :: nat) cmd cpl s. (0, cmd, zero_cpl, s)) 0x60000 remote_ref (Some ns_info_zero) 1
     0x70000 0x90000 demo_os idle_world = Some (0, Some i, remote_ref, s', w')
     \<and> n_lba_data_size i = 1"
proof -
  let ?w = "idle_world\<lparr>w_mem := memset 0x70000 0 0x1000 (w_mem idle_world)\<rparr>"
  have z: "w_mem (dev_step (\<lambda>k m. m) ?w) = (\<lambda>_. 0)" by (rule ext) (simp add: dev_step_def memset_def idle_world_def)
  from remote_ref_rpc [of "\<lambda>k m. m" zero_cpl "nvm_admin_identify_ns_cmd zero_cmd 1 0x90000" zero_cpl "0x60000" ?w]
  obtain s' where r: "nvm_raw_rpc (\<lambda>k m. m) (\<lambda>(b :: nat) cmd cpl s. (0, cmd, zero_cpl, s)) remote_ref
      (nvm_admin_identify_ns_cmd zero_cmd 1 0x90000) zero_cpl 0x60000 demo_os ?w
     = Some (0, remote_ref, nvm_admin_identify_ns_cmd zero_cmd 1 0x90000, zero_cpl, s', dev_step (\<lambda>k m. m) ?w)" by blast
  have "load32 (\<lambda>_. 0) a = 0" for a by (simp add: load32_def load16_def)
  with ns_info_decodes [OF _ _ r refl refl, of ns_info_zero] z show ?thesis
    by (simp add: idle_world_def)
qed

theorem ctrl_info_max_transfer_witness:
  "\<exists>info s' w'. nvm_admin_ctrl_info (\<lambda>k m. m) (\<lambda>(b :: nat) cmd cpl s. (0, cmd, zero_cpl, s)) 0x60000 remote_ref
     (Some ctrl_info_zero) 0x70000 0x90000 demo_os idle_world = Some (0, Some info, remote_ref, s', w')
     \<and> i_max_data_size info = 4096"
proof -
  let ?w = "idle_world\<lparr>w_mem := memset 0x70000 0 0x1000 (w_mem idle_world)\<rparr>"
  have z: "w_mem (dev_step (\<lambda>k m. m) ?w) = (\<lambda>_. 0)" by (rule ext) (simp add: dev_step_def memset_def idle_world_def)
  have c: "k_handle (f_ctrl remote_ref) = demo_ctrl" by (simp add: remote_ref_def demo_ref_def demo_controller_def)
  from remote_ref_rpc [of "\<lambda>k m. m" zero_cpl "nvm_admin_identify_ctrl_cmd zero_cmd 0x90000" zero_cpl "0x60000" ?w]
  obtain s' where r: "nvm_raw_rpc (\<lambda>k m. m) (\<lambda>(b :: nat) cmd cpl s. (0, cmd, zero_cpl, s)) remote_ref
      (nvm_admin_identify_ctrl_cmd zero_cmd 0x90000) zero_cpl 0x60000 demo_os ?w
     = Some (0, remote_ref, nvm_admin_identify_ctrl_cmd zero_cmd 0x90000, zero_cpl, s', dev_step (\<lambda>k m. m) ?w)" by blast
  have "load64 (\<lambda>_. 0) a = 0" for a by (simp add: load64_def load32_def load16_def)
  then have p: "CAP_MPSMIN (w_mem (dev_step (\<lambda>k m. m) ?w)) (c_mm_ptr demo_ctrl) = 0" unfolding z by (simp add: CAP_MPSMIN_def CAP_def RB_def)
  from ctrl_info_max_transfer [OF _ _ c [symmetric] _ _ r refl refl, of ctrl_info_zero] z p show ?thesis
    by (auto simp: demo_ctrl_def)
qed

end
