(* ===== verification/Io_Queue.thy ===== *)
theory Io_Queue
  imports Admin "HOL-Library.Monad_Syntax"
begin

unbundle bit_operations_syntax

text \<open>
  What the example programs share when they keep a submission queue busy: waiting for a free slot
  while another thread receives completions, and building a command in its slot.  The other thread,
  and the controller behind it, are an argument of type \<open>others\<close>: at every moment it says how many
  commands have been retired since the last look at the queue, and what memory looks like.
\<close>

section \<open>The other thread\<close>

type_synonym others = "nat \<Rightarrow> nvm_queue \<Rightarrow> mem \<Rightarrow> nat \<times> mem"

definition meanwhile :: "others \<Rightarrow> nvm_queue \<Rightarrow> world \<Rightarrow> nat \<times> nvm_queue \<times> world" where
  "meanwhile oth sq w =
     (case oth (w_tick w) sq (w_mem w) of (k, m) \<Rightarrow>
        (k, (nvm_sq_update ^^ k) sq, w\<lparr>w_mem := m, w_tick := Suc (w_tick w)\<rparr>))"

text \<open>
  The loop \<open>while ((cmd = nvm_sq_enqueue(sq)) == NULL) nvm_sq_submit(sq);\<close> with the number of commands
  retired in it.
\<close>

partial_function (option) sq_enqueue_wait ::
  "others \<Rightarrow> device \<Rightarrow> nvm_queue \<Rightarrow> nat \<Rightarrow> world \<Rightarrow> (u64 \<times> nvm_queue \<times> nat \<times> world) option" where
  "sq_enqueue_wait oth dev sq k0 w =
     (case meanwhile oth sq w of (k, sq, w) \<Rightarrow>
        do { (cmd, sq, m) \<leftarrow> nvm_sq_enqueue sq (w_mem w);
             if cmd = NULL then
               (case nvm_sq_submit dev sq w of (sq, w) \<Rightarrow> sq_enqueue_wait oth dev sq (k0 + k) w)
             else Some (cmd, sq, k0 + k, w\<lparr>w_mem := m\<rparr>) })"

section \<open>Submitted commands\<close>

text \<open>
  Of the commands in flight, those up to the last doorbell write are known to the controller.  A live
  queue has its last doorbell value between head and tail.
\<close>

definition submitted :: "nvm_queue \<Rightarrow> nat" where
  "submitted q = (unat (q_last q) + q_n q - unat (q_head q)) mod q_n q"

definition sq_live :: "nvm_queue \<Rightarrow> bool" where
  "sq_live q \<longleftrightarrow> sq_ok q \<and> 2 \<le> q_n q \<and> unat (q_last q) < q_n q \<and> submitted q \<le> in_flight q"

lemma sq_liveD:
  assumes "sq_live q"
  shows "sq_ok q" "queue_wf q" "q_n q dvd 2 ^ 32" "2 \<le> q_n q" "unat (q_last q) < q_n q" "submitted q \<le> in_flight q"
  using assms by (simp_all add: sq_live_def sq_ok_def)

lemma sq_live_update:
  assumes "sq_live q" "submitted q \<noteq> 0"
  shows "sq_live (nvm_sq_update q)" "submitted q = Suc (submitted (nvm_sq_update q))"
    "in_flight q = Suc (in_flight (nvm_sq_update q))"
proof -
  note q = sq_liveD [OF assms(1)]
  have h: "unat (q_head q) < q_n q" "unat (q_tail q) < q_n q" using q(2) by (auto simp: queue_wf_def)
  show s: "submitted q = Suc (submitted (nvm_sq_update q))"
    using ring_dist_Suc [OF q(5) h(1)] assms(2) by (simp add: submitted_def unat_sq_update_head [OF q(2)])
  show f: "in_flight q = Suc (in_flight (nvm_sq_update q))"
    using ring_dist_Suc [OF h(2,1)] assms(2) q(6) by (simp add: in_flight_def unat_sq_update_head [OF q(2)])
  show "sq_live (nvm_sq_update q)"
    using q s f sq_ok_update [OF q(1)] by (simp add: sq_live_def)
qed

lemma nvm_sq_update_funpow [simp]:
  "q_n ((nvm_sq_update ^^ k) q) = q_n q" "q_tail ((nvm_sq_update ^^ k) q) = q_tail q"
  "q_phase ((nvm_sq_update ^^ k) q) = q_phase q" "q_max_entries ((nvm_sq_update ^^ k) q) = q_max_entries q"
  "q_vaddr ((nvm_sq_update ^^ k) q) = q_vaddr q" "q_entry_size ((nvm_sq_update ^^ k) q) = q_entry_size q"
  "q_db ((nvm_sq_update ^^ k) q) = q_db q" "q_last ((nvm_sq_update ^^ k) q) = q_last q"
  by (induction k) simp_all

lemma sq_live_retire:
  "sq_live q \<Longrightarrow> k \<le> submitted q \<Longrightarrow>
   sq_live ((nvm_sq_update ^^ k) q) \<and> submitted ((nvm_sq_update ^^ k) q) = submitted q - k
     \<and> in_flight ((nvm_sq_update ^^ k) q) = in_flight q - k"
proof (induction k)
  case 0
  then show ?case by simp
next
  case (Suc k)
  let ?q = "(nvm_sq_update ^^ k) q"
  from Suc have IH: "sq_live ?q" "submitted ?q = submitted q - k" "in_flight ?q = in_flight q - k" by simp_all
  then have "submitted ?q \<noteq> 0" using Suc.prems by simp
  note u = sq_live_update [OF IH(1) this]
  have "submitted (nvm_sq_update ?q) = submitted q - Suc k" "in_flight (nvm_sq_update ?q) = in_flight q - Suc k"
    using u(2,3) IH(2,3) by linarith+
  then show ?case using u(1) by simp
qed

lemma sq_live_bump:
  assumes "sq_live q" "in_flight q < q_n q - 1"
  shows "sq_live (sq_bump q)" "submitted (sq_bump q) = submitted q" "in_flight (sq_bump q) = Suc (in_flight q)"
proof -
  note q = sq_liveD [OF assms(1)]
  show s: "submitted (sq_bump q) = submitted q" by (simp add: submitted_def)
  show f: "in_flight (sq_bump q) = Suc (in_flight q)" by (rule in_flight_bump [OF q(2) assms(2)])
  show "sq_live (sq_bump q)" using q s f sq_ok_bump [OF q(1)] by (simp add: sq_live_def)
qed

lemma sq_live_last:
  assumes "sq_live q"
  shows "sq_live (q\<lparr>q_last := q_tail q\<rparr>)" "submitted (q\<lparr>q_last := q_tail q\<rparr>) = in_flight q"
proof -
  note q = sq_liveD [OF assms]
  show s: "submitted (q\<lparr>q_last := q_tail q\<rparr>) = in_flight q" by (simp add: submitted_def in_flight_def)
  have "in_flight (q\<lparr>q_last := q_tail q\<rparr>) = in_flight q" by (simp add: in_flight_def)
  then show "sq_live (q\<lparr>q_last := q_tail q\<rparr>)"
    using q s by (simp add: sq_live_def sq_ok_def queue_wf_def queue_mapped_def)
qed


section \<open>What is relied on\<close>

text \<open>
  The other thread retires only commands the controller was told of, and time and again it retires one
  if there is any.  Neither it nor the controller writes to the addresses in \<open>R\<close>, the submission queue
  and its PRP lists, which they only read.
\<close>

definition retires_submitted :: "others \<Rightarrow> bool" where
  "retires_submitted oth \<longleftrightarrow> (\<forall>t q m. fst (oth t q m) \<le> submitted q)"

definition fair :: "others \<Rightarrow> bool" where
  "fair oth \<longleftrightarrow> (\<forall>t. \<exists>t' \<ge> t. \<forall>q m. submitted q \<noteq> 0 \<longrightarrow> fst (oth t' q m) \<noteq> 0)"

definition keeps :: "u64 set \<Rightarrow> others \<Rightarrow> device \<Rightarrow> bool" where
  "keeps R oth dev \<longleftrightarrow> (\<forall>a \<in> R. \<forall>t q m. snd (oth t q m) a = m a) \<and> (\<forall>a \<in> R. \<forall>t m. dev t m a = m a)"

lemma meanwhile_cases:
  assumes "sq_live q" "retires_submitted oth" "keeps R oth dev"
  obtains k w' where "meanwhile oth q w = (k, (nvm_sq_update ^^ k) q, w')" "k = fst (oth (w_tick w) q (w_mem w))"
    "k \<le> submitted q" "w_tick w' = Suc (w_tick w)" "\<forall>a \<in> R. w_mem w' a = w_mem w a"
    "sq_live ((nvm_sq_update ^^ k) q)" "submitted ((nvm_sq_update ^^ k) q) = submitted q - k"
    "in_flight ((nvm_sq_update ^^ k) q) = in_flight q - k"
proof -
  obtain k m where o: "oth (w_tick w) q (w_mem w) = (k, m)" by (cases "oth (w_tick w) q (w_mem w)")
  have k: "k \<le> submitted q" using assms(2) o by (metis retires_submitted_def fst_conv)
  have m: "\<forall>a \<in> R. m a = w_mem w a" using assms(3) o by (metis keeps_def snd_conv)
  show ?thesis
    by (rule that [of k "w\<lparr>w_mem := m, w_tick := Suc (w_tick w)\<rparr>"])
       (use o k m sq_live_retire [OF assms(1) k] in \<open>simp_all add: meanwhile_def\<close>)
qed

text \<open>The result of waiting: the slot at the tail, with its identifier, and a queue one command longer.\<close>

definition enqueued :: "u64 set \<Rightarrow> nvm_queue \<Rightarrow> world \<Rightarrow> nat \<Rightarrow> (u64 \<times> nvm_queue \<times> nat \<times> world) option \<Rightarrow> bool" where
  "enqueued R q w k0 r \<longleftrightarrow> (\<exists>q' k w'. r = Some (queue_slot q (q_tail q), q', k0 + k, w') \<and> k \<le> in_flight q
     \<and> sq_live q' \<and> in_flight q' = Suc (in_flight q - k)
     \<and> q_max_entries q' = q_max_entries q \<and> q_vaddr q' = q_vaddr q \<and> q_entry_size q' = q_entry_size q \<and> q_db q' = q_db q
     \<and> q_tail q' = q_tail (sq_bump q) \<and> q_phase q' = q_phase (sq_bump q)
     \<and> (\<forall>a \<in> R. w_mem w' a = store16 (NVM_CMD_CID (queue_slot q (q_tail q))) (sq_cid (sq_bump q)) (w_mem w) a))"

lemma store16_agree: "m a = m' a \<Longrightarrow> store16 p v m a = store16 p v m' a"
  by (simp add: store16_def)

lemma bump_update:
  "q_tail (sq_bump ((nvm_sq_update ^^ k) q)) = q_tail (sq_bump q)"
  "q_phase (sq_bump ((nvm_sq_update ^^ k) q)) = q_phase (sq_bump q)"
  "sq_cid (sq_bump ((nvm_sq_update ^^ k) q)) = sq_cid (sq_bump q)"
  "queue_slot ((nvm_sq_update ^^ k) q) i = queue_slot q i"
  by (simp_all add: sq_bump_def sq_cid_def queue_slot_def)

lemma enqueue_wait_free:
  assumes "meanwhile oth q w = (k, (nvm_sq_update ^^ k) q, w')" "sq_live ((nvm_sq_update ^^ k) q)" "k \<le> in_flight q"
    and "in_flight ((nvm_sq_update ^^ k) q) = in_flight q - k" "in_flight q - k < q_n q - 1"
    and "\<forall>a \<in> R. w_mem w' a = w_mem w a"
  shows "enqueued R q w k0 (sq_enqueue_wait oth dev q k0 w)"
proof -
  let ?q = "(nvm_sq_update ^^ k) q"
  note l = sq_liveD [OF assms(2)]
  have f: "in_flight ?q < q_n ?q - 1" using assms(4,5) by simp
  have "queue_slot ?q (q_tail ?q) \<noteq> NULL"
    using l(1) by (intro queue_slot_nonnull) (auto simp: sq_ok_def queue_wf_def)
  then have nn: "queue_slot q (q_tail q) \<noteq> NULL" by (simp add: bump_update)
  have e: "nvm_sq_enqueue ?q (w_mem w') = Some (queue_slot q (q_tail q), sq_bump ?q,
      store16 (NVM_CMD_CID (queue_slot q (q_tail q))) (sq_cid (sq_bump q)) (w_mem w'))"
    using nvm_sq_enqueue_free [OF l(2,3) f] by (simp add: bump_update)
  have "sq_enqueue_wait oth dev q k0 w = Some (queue_slot q (q_tail q), sq_bump ?q, k0 + k,
      w'\<lparr>w_mem := store16 (NVM_CMD_CID (queue_slot q (q_tail q))) (sq_cid (sq_bump q)) (w_mem w')\<rparr>)"
    by (subst sq_enqueue_wait.simps) (simp add: assms(1) e nn)
  moreover have "\<forall>a \<in> R. store16 (NVM_CMD_CID (queue_slot q (q_tail q))) (sq_cid (sq_bump q)) (w_mem w') a
      = store16 (NVM_CMD_CID (queue_slot q (q_tail q))) (sq_cid (sq_bump q)) (w_mem w) a"
    using assms(6) by (auto intro: store16_agree)
  ultimately show ?thesis
    unfolding enqueued_def using sq_live_bump [OF assms(2) f] assms(3,4)
    by (intro exI [of _ "sq_bump ?q"] exI [of _ k]) (simp add: bump_update)
qed

lemma enqueue_wait_full:
  assumes "meanwhile oth q w = (k, (nvm_sq_update ^^ k) q, w')" "sq_live ((nvm_sq_update ^^ k) q)"
    and "in_flight ((nvm_sq_update ^^ k) q) = q_n q - 1"
  shows "sq_enqueue_wait oth dev q k0 w =
    (case nvm_sq_submit dev ((nvm_sq_update ^^ k) q) w' of (sq, w) \<Rightarrow> sq_enqueue_wait oth dev sq (k0 + k) w)"
  using nvm_sq_enqueue_full [OF sq_liveD(2,3) [OF assms(2)]] assms
  by (subst sq_enqueue_wait.simps) simp

text \<open>A full queue that is submitted as a whole: the other thread gets to it.\<close>

lemma enqueue_wait_submitted:
  assumes "retires_submitted oth" "keeps R oth dev" "\<forall>q m. submitted q \<noteq> 0 \<longrightarrow> fst (oth t' q m) \<noteq> 0"
  shows "sq_live q \<Longrightarrow> q_last q = q_tail q \<Longrightarrow> in_flight q = q_n q - 1 \<Longrightarrow> w_tick w \<le> t' \<Longrightarrow>
    enqueued R q w k0 (sq_enqueue_wait oth dev q k0 w)"
proof (induction "t' - w_tick w" arbitrary: w)
  case less: 0
  then have t: "w_tick w = t'" by simp
  have s: "submitted q = in_flight q" using less(3) by (simp add: submitted_def in_flight_def)
  have n: "2 \<le> q_n q" by (rule sq_liveD(4) [OF less(2)])
  show ?case
  proof (rule meanwhile_cases [OF less(2) assms(1,2), of w])
    fix k w' assume m: "meanwhile oth q w = (k, (nvm_sq_update ^^ k) q, w')" "k = fst (oth (w_tick w) q (w_mem w))"
      "k \<le> submitted q" "sq_live ((nvm_sq_update ^^ k) q)" "in_flight ((nvm_sq_update ^^ k) q) = in_flight q - k"
      "\<forall>a \<in> R. w_mem w' a = w_mem w a"
    have "k \<noteq> 0" using assms(3) m(2) t s less(4) n by auto
    then show ?thesis using enqueue_wait_free [OF m(1,4) _ m(5) _ m(6)] m(3) s less(4) n by simp
  qed
next
  case (Suc d)
  have s: "submitted q = in_flight q" using Suc(4) by (simp add: submitted_def in_flight_def)
  show ?case
  proof (rule meanwhile_cases [OF Suc(3) assms(1,2), of w])
    fix k w' assume m: "meanwhile oth q w = (k, (nvm_sq_update ^^ k) q, w')"
      "k \<le> submitted q" "sq_live ((nvm_sq_update ^^ k) q)" "in_flight ((nvm_sq_update ^^ k) q) = in_flight q - k"
      "\<forall>a \<in> R. w_mem w' a = w_mem w a" and t: "w_tick w' = Suc (w_tick w)"
    show ?thesis
    proof (cases "k = 0")
      case True
      have e: "sq_enqueue_wait oth dev q k0 w = sq_enqueue_wait oth dev q k0 w'"
        using enqueue_wait_full [OF m(1,3), of dev k0] True Suc(4,5) by (simp add: nvm_sq_submit_def)
      have "enqueued R q w' k0 (sq_enqueue_wait oth dev q k0 w')"
        by (rule Suc.hyps(1)) (use Suc t in auto)
      moreover have "enqueued R q w' k0 r \<Longrightarrow> enqueued R q w k0 r" for r
        using m(5) by (auto simp: enqueued_def intro!: store16_agree)
      ultimately show ?thesis by (simp add: e)
    next
      case False
      then show ?thesis
        using enqueue_wait_free [OF m(1,3) _ m(4) _ m(5)] m(2) s Suc(5) sq_liveD(4) [OF Suc(3)] by simp
    qed
  qed
qed


text \<open>
  Waiting for a slot always ends.  What the caller gets does not depend on how long it took: the slot at
  the tail and the identifier that follows, with every byte of the queue and its lists as before.
\<close>

lemma sq_enqueue_wait_spec:
  assumes live: "sq_live q" and oth: "retires_submitted oth" "fair oth" "keeps R oth dev"
    and db: "\<forall>a \<in> R. \<not> in_range (q_db q) 4 a"
  shows "enqueued R q w k0 (sq_enqueue_wait oth dev q k0 w)"
proof (rule meanwhile_cases [OF live oth(1,3), of w])
  fix k w'
  let ?q = "(nvm_sq_update ^^ k) q"
  assume m: "meanwhile oth q w = (k, ?q, w')" "k \<le> submitted q" "sq_live ?q" "in_flight ?q = in_flight q - k"
    "\<forall>a \<in> R. w_mem w' a = w_mem w a"
  have k: "k \<le> in_flight q" using m(2) sq_liveD(6) [OF live] by simp
  show ?thesis
  proof (cases "in_flight q - k < q_n q - 1")
    case True
    then show ?thesis by (rule enqueue_wait_free [OF m(1,3) k m(4) _ m(5)])
  next
    case False
    then have full: "in_flight ?q = q_n q - 1" using m(4) in_flight_less [OF sq_liveD(2) [OF live]] by linarith
    let ?q2 = "?q\<lparr>q_last := q_tail ?q\<rparr>"
    obtain w2 where s: "nvm_sq_submit dev ?q w' = (?q2, w2)" and w2: "\<forall>a \<in> R. w_mem w2 a = w_mem w a"
    proof (cases "q_last ?q = q_tail ?q")
      case True
      then have "?q2 = ?q" by simp
      with True show ?thesis using m(5) that [of w'] by (simp add: nvm_sq_submit_def)
    next
      case False
      have "\<forall>a \<in> R. w_mem (reg_write32 dev (q_db q) (q_tail q) w') a = w_mem w a"
        using m(5) db oth(3) by (simp add: reg_write32_def keeps_def store32_other)
      then show ?thesis using False that by (simp add: nvm_sq_submit_def)
    qed
    from oth(2) obtain t' where t': "w_tick w2 \<le> t'" "\<forall>q m. submitted q \<noteq> 0 \<longrightarrow> fst (oth t' q m) \<noteq> 0"
      unfolding fair_def by blast
    have f2: "in_flight ?q2 = in_flight q - k" using m(4) by (simp add: in_flight_def)
    have "enqueued R ?q2 w2 (k0 + k) (sq_enqueue_wait oth dev ?q2 (k0 + k) w2)"
      using enqueue_wait_submitted [OF oth(1,3) t'(2) sq_live_last(1) [OF m(3)] _ _ t'(1), of "k0 + k"] f2 full m(4) by simp
    moreover have "sq_bump ?q2 = (sq_bump ?q)\<lparr>q_last := q_tail q\<rparr>" by (simp add: sq_bump_def)
    then have "q_tail (sq_bump ?q2) = q_tail (sq_bump q)" "q_phase (sq_bump ?q2) = q_phase (sq_bump q)"
      "sq_cid (sq_bump ?q2) = sq_cid (sq_bump q)" by (simp_all add: bump_update sq_cid_def)
    moreover have "queue_slot ?q2 i = queue_slot q i" for i by (simp add: queue_slot_def)
    moreover have "sq_enqueue_wait oth dev q k0 w = sq_enqueue_wait oth dev ?q2 (k0 + k) w2"
      using enqueue_wait_full [OF m(1,3) full, of dev k0] s by simp
    ultimately obtain q' k2 w3 where r: "sq_enqueue_wait oth dev q k0 w = Some (queue_slot q (q_tail q), q', k0 + k + k2, w3)"
      "k2 \<le> in_flight q - k" "sq_live q'" "in_flight q' = Suc (in_flight q - k - k2)"
      "q_max_entries q' = q_max_entries q" "q_vaddr q' = q_vaddr q" "q_entry_size q' = q_entry_size q" "q_db q' = q_db q"
      "q_tail q' = q_tail (sq_bump q)" "q_phase q' = q_phase (sq_bump q)"
      "\<forall>a \<in> R. w_mem w3 a = store16 (NVM_CMD_CID (queue_slot q (q_tail q))) (sq_cid (sq_bump q)) (w_mem w2) a"
      unfolding enqueued_def f2 by auto
    show ?thesis
      unfolding enqueued_def using r k w2
      by (intro exI [of _ q'] exI [of _ "k + k2"] exI [of _ w3]) (auto intro!: store16_agree simp: add.assoc)
  qed
qed

section \<open>Building a command in its slot\<close>

text \<open>The first address of a window; a window without addresses is read out of bounds.\<close>

definition first_ioaddr :: "nvm_dma \<Rightarrow> u64 option" where
  "first_ioaddr d = (case d_ioaddrs d of [] \<Rightarrow> None | a # _ \<Rightarrow> Some a)"

definition slot_update :: "u64 \<Rightarrow> (nvm_cmd \<Rightarrow> nvm_cmd) \<Rightarrow> mem \<Rightarrow> mem" where
  "slot_update p f m = store_dwords p (f (load_dwords m p 16)) m"

text \<open>
  What a command for \<open>k\<close> pages in a slot asks for: opcode, namespace, first block, number of blocks less
  one, and the pages, with the PRP list read at the address \<open>l\<close> the host has for it.  The controller has no
  such address: \<open>bus_fetch\<close> is what it reads, which for more than two pages is the list that PRP2 points to on the
  bus.  Bus addresses are translated by \<open>iommu\<close> to the addresses at which the host sees the same memory.
\<close>

definition fetch_io :: "mem \<Rightarrow> u64 \<Rightarrow> u64 \<Rightarrow> nat \<Rightarrow> u64 \<times> u32 \<times> u64 \<times> u64 \<times> u64 list" where
  "fetch_io m p l k = (let c = load_dwords m p 16 in
     (RB (ucast (c ! 0)) 7 0, c ! 1, ucast (c ! 10) OR push_bit 32 (ucast (c ! 11)), RB (ucast (c ! 12)) 15 0,
      prp_pages c m l k))"

definition bus_fetch :: "(u64 \<Rightarrow> u64) \<Rightarrow> mem \<Rightarrow> u64 \<Rightarrow> nat \<Rightarrow> u64 \<times> u32 \<times> u64 \<times> u64 \<times> u64 list" where
  "bus_fetch iommu m p k = (let c = load_dwords m p 16 in
     (RB (ucast (c ! 0)) 7 0, c ! 1, ucast (c ! 10) OR push_bit 32 (ucast (c ! 11)), RB (ucast (c ! 12)) 15 0,
      prp_pages c (m \<circ> iommu) (cmd_prp2 c) k))"

text \<open>The pages of a window are seen by the controller where the host sees them, one after another.\<close>

definition window_maps :: "(u64 \<Rightarrow> u64) \<Rightarrow> nvm_dma \<Rightarrow> bool" where
  "window_maps iommu dma \<longleftrightarrow> (\<forall>i < length (d_ioaddrs dma). \<forall>k < unat (d_page_size dma).
     iommu (d_ioaddrs dma ! i + of_nat k) = d_vaddr dma + of_nat (i * unat (d_page_size dma) + k))"

lemma prp_pages_cong:
  assumes "\<And>x. in_range l (8 * (k - 1)) x \<Longrightarrow> m x = m' x" "8 * (k - 1) \<le> 2 ^ 64"
  shows "prp_pages c m l k = prp_pages c m' l k"
proof -
  have "load64 m (l + 8 * of_nat i) = load64 m' (l + 8 * of_nat i)" if "i < k - 1" for i
  proof (rule load64_cong)
    fix x assume "in_range (l + 8 * of_nat i) 8 x"
    then have "in_range l (8 * i + 8) x" using in_range_split [of "8 * i" 8 l x] that assms(2) by auto
    then have "in_range l (8 * (k - 1)) x" using that by (elim in_range_mono) simp
    then show "m x = m' x" by (rule assms(1))
  qed
  then show ?thesis by (auto simp: prp_pages_def)
qed

lemma fetch_io_cong:
  assumes "\<And>x. in_range p 64 x \<Longrightarrow> m x = m' x" "\<And>x. in_range l (8 * (k - 1)) x \<Longrightarrow> m x = m' x" "8 * (k - 1) \<le> 2 ^ 64"
  shows "fetch_io m p l k = fetch_io m' p l k"
proof -
  have "load_dwords m p 16 = load_dwords m' p 16" by (rule load_dwords_cong) (simp_all add: assms(1))
  moreover have "prp_pages c m l k = prp_pages c m' l k" for c by (rule prp_pages_cong [OF assms(2,3)])
  ultimately show ?thesis by (simp add: fetch_io_def Let_def)
qed

lemma slot_update_other: "length (f (load_dwords m p 16)) = 16 \<Longrightarrow> \<not> in_range p 64 x \<Longrightarrow> slot_update p f m x = m x"
  by (simp add: slot_update_def store_dwords_other)

lemma load_slot_update: "length (f (load_dwords m p 16)) = 16 \<Longrightarrow> load_dwords (slot_update p f m) p 16 = f (load_dwords m p 16)"
  using load_store_dwords [of "f (load_dwords m p 16)" p m] by (simp add: slot_update_def)

lemma store_slot_other: "length c = 16 \<Longrightarrow> \<not> in_range p 64 x \<Longrightarrow> store_dwords p c m x = m x"
  by (simp add: store_dwords_other)

lemma load_store_slot: "length c = 16 \<Longrightarrow> load_dwords (store_dwords p c m) p 16 = c"
  using load_store_dwords [of c p m] by simp

lemma nvm_cmd_data_frame:
  assumes "0 < np" "np \<le> length io" "l \<noteq> NULL" "16 \<le> unat ps" "k = min np (1 + unat ps div 8)"
  shows "\<exists>p2 m'. nvm_cmd_data ndebug cmd ps np l li io m = Some (k, nvm_cmd_data_ptr cmd (io ! 0) p2, m')
    \<and> (\<forall>c. cmd_prp1 c = io ! 0 \<and> cmd_prp2 c = p2 \<longrightarrow> prp_pages c m' l k = take k io) \<and> (2 < k \<longrightarrow> p2 = li)
    \<and> (\<forall>x. \<not> in_range l (8 * (k - 1)) x \<longrightarrow> m' x = m x)"
proof -
  have ne: "io \<noteq> []" using assms(1,2) by auto
  have tk: "take (Suc j) io = io ! 0 # take j (drop 1 io)" for j using ne by (cases io) auto
  have two: "2 \<le> unat ps div 8" using div_le_mono [OF assms(4), of 8] by simp
  consider "np = 1" | "np = 2" | "2 < np" using assms(1) by linarith
  then show ?thesis
  proof cases
    case 1
    then show ?thesis using ne tk [of 0] assms(5) two
      by (intro exI [of _ 0] exI [of _ m]) (simp add: nvm_cmd_data_def prp_pages_def Let_def)
  next
    case 2
    then have "take 2 io = [io ! 0, io ! 1]" using assms(2) by (auto simp: Suc_le_length_iff numeral_2_eq_2)
    moreover have "k = 2" using 2 assms(5) two by simp
    ultimately show ?thesis using 2 ne assms(2)
      by (intro exI [of _ "io ! 1"] exI [of _ m]) (simp add: nvm_cmd_data_def prp_pages_def Let_def)
  next
    case 3
    have k: "2 < k" "k \<le> np" using 3 assms(5) two by simp_all
    have pp: "unat (ps div 8) = unat ps div 8" by (simp add: unat_div)
    have le: "(if unat (ps div 8) < np - 1 then unat (ps div 8) else np - 1) = k - 1" using assms(5) pp by simp
    have "k - 1 \<le> unat ps div 8" using assms(5) by simp
    then have "8 * (k - 1) \<le> unat ps" by (simp add: less_eq_div_iff_mult_less_eq mult.commute)
    then have b: "8 * (k - 1) \<le> 2 ^ 64" using unat_u64_less [of ps] by linarith
    have "k - 1 \<le> length (drop 1 io)" using assms(2) k(2) by simp
    from nvm_prp_list_loop_spec [OF _ this b, of 0 l m] obtain m' where
      m': "nvm_prp_list_loop 0 (k - 1) l (drop 1 io) m = Some (k - 1, m')"
      "\<forall>j < k - 1. load64 m' (l + 8 * of_nat j) = drop 1 io ! j" "\<forall>x. \<not> in_range l (8 * (k - 1)) x \<longrightarrow> m' x = m x" by auto
    have "map (\<lambda>i. load64 m' (l + 8 * of_nat i)) [0..<k - 1] = take (k - 1) (drop 1 io)"
      using m'(2) assms(2) k(2) by (intro nth_equalityI) auto
    then have "prp_pages c m' l k = take k io" if "cmd_prp1 c = io ! 0" for c
      using that k tk [of "k - 1"] by (simp add: prp_pages_def)
    moreover have "nvm_prp_list ps (np - 1) l (drop 1 io) m = Some (k - 1, m')"
      unfolding nvm_prp_list_def Let_def le by (rule m'(1))
    then have "nvm_cmd_data ndebug cmd ps np l li io m = Some (k, nvm_cmd_data_ptr cmd (io ! 0) li, m')"
      using 3 k ne assms(3) by (simp add: nvm_cmd_data_def Let_def)
    ultimately show ?thesis using m'(3) by blast
  qed
qed

text \<open>The two orders in which the programs fill in a command give the same fields.\<close>

lemma io_fields:
  assumes "length c = 16"
    and "c' = nvm_cmd_rw_blks (nvm_cmd_data_ptr (nvm_cmd_header c opc ns) p1 p2) lba nb
      \<or> c' = nvm_cmd_data_ptr (nvm_cmd_rw_blks (nvm_cmd_header c opc ns) lba nb) p1 p2"
  shows "length c' = 16" "RB (ucast (c' ! 0)) 7 0 = ucast (opc AND 0x7f)" "c' ! 1 = ns" "cmd_prp1 c' = p1" "cmd_prp2 c' = p2"
    "ucast (c' ! 10) OR push_bit 32 (ucast (c' ! 11)) = lba" "RB (ucast (c' ! 12)) 15 0 = ucast (nb - 1)"
proof -
  let ?h = "nvm_cmd_header c opc ns"
  have l: "length ?h = 16" "2 \<le> length c" using assms(1) by simp_all
  note hf = nvm_cmd_header_fields(2,4) [OF l(2), of opc ns]
  have o: "RB (ucast (nvm_cmd_data_ptr d p1 p2 ! 0)) 7 0 = RB (ucast (d ! 0)) 7 0" if "length d = 16" for d
    using that by (intro data_ptr_opcode) simp
  have d: "cmd_prp1 (nvm_cmd_data_ptr d p1 p2) = p1" "cmd_prp2 (nvm_cmd_data_ptr d p1 p2) = p2"
    "\<And>i. i \<notin> {0, 6, 7, 8, 9} \<Longrightarrow> nvm_cmd_data_ptr d p1 p2 ! i = d ! i" if "length d = 16" for d
    using that by (intro nvm_cmd_data_ptr_fields; simp)+
  have b: "ucast (nvm_cmd_rw_blks d lba nb ! 10) OR push_bit 32 (ucast (nvm_cmd_rw_blks d lba nb ! 11)) = lba"
    "RB (ucast (nvm_cmd_rw_blks d lba nb ! 12)) 15 0 = ucast (nb - 1)"
    "\<And>i. i \<notin> {10, 11, 12} \<Longrightarrow> nvm_cmd_rw_blks d lba nb ! i = d ! i" if "length d = 16" for d
    using that by (intro nvm_cmd_rw_blks_fields; simp)+
  have r: "cmd_prp1 (nvm_cmd_rw_blks d lba nb) = cmd_prp1 d" "cmd_prp2 (nvm_cmd_rw_blks d lba nb) = cmd_prp2 d"
    if "length d = 16" for d using b(3) [OF that] by (simp_all add: cmd_prp1_def cmd_prp2_def)
  show "length c' = 16" "RB (ucast (c' ! 0)) 7 0 = ucast (opc AND 0x7f)" "c' ! 1 = ns" "cmd_prp1 c' = p1" "cmd_prp2 c' = p2"
    "ucast (c' ! 10) OR push_bit 32 (ucast (c' ! 11)) = lba" "RB (ucast (c' ! 12)) 15 0 = ucast (nb - 1)"
    using assms(2) l o d b r hf by auto
qed

section \<open>Queue memory with PRP lists\<close>

text \<open>
  The queue lies in the first page of its window, and the pages after it hold one PRP list for each entry.
  Slot and list of the \<open>j\<close>-th command.
\<close>

definition io_window :: "nvm_dma \<Rightarrow> nvm_queue \<Rightarrow> bool" where
  "io_window mem q \<longleftrightarrow> q_vaddr q = d_vaddr mem \<and> q_entry_size q = 64 \<and> d_vaddr mem \<noteq> NULL
     \<and> 64 * q_n q \<le> unat (d_page_size mem) \<and> unat (d_vaddr mem) + unat (d_page_size mem) * (q_n q + 1) \<le> 2 ^ 64
     \<and> q_n q < length (d_ioaddrs mem) \<and> 2 * q_n q \<le> 2 ^ 16"

definition io_region :: "nvm_dma \<Rightarrow> nvm_queue \<Rightarrow> u64 set" where
  "io_region mem q = {a. in_range (d_vaddr mem) (unat (d_page_size mem) * (q_n q + 1)) a}"

definition slot_of :: "nvm_queue \<Rightarrow> nat \<Rightarrow> u64" where
  "slot_of q j = queue_slot q (of_nat (j mod q_n q))"

definition list_of :: "nvm_dma \<Rightarrow> nvm_queue \<Rightarrow> nat \<Rightarrow> u64" where
  "list_of mem q j = NVM_DMA_OFFSET mem (of_nat ((j + 1) mod q_n q + 1))"

lemma in_range_at:
  assumes "off + len \<le> 2 ^ 64"
  shows "in_range (a + of_nat off) len x \<longleftrightarrow> off \<le> unat (x - a) \<and> unat (x - a) < off + len"
proof -
  have "in_range a (off + len) x \<longleftrightarrow> in_range a off x \<or> in_range (a + of_nat off) len x"
    by (rule in_range_split [OF assms])
  moreover have "\<not> (in_range a off x \<and> in_range (a + of_nat off) len x)"
    using in_range_disjoint [of a off x off len] assms by auto
  ultimately show ?thesis by (auto simp: in_range_def)
qed

lemma slot_of_at:
  assumes "io_window mem q" "0 < q_n q"
  shows "slot_of q j = d_vaddr mem + of_nat (64 * (j mod q_n q))" "64 * (j mod q_n q) + 64 \<le> unat (d_page_size mem)"
proof -
  let ?i = "j mod q_n q"
  have i: "?i < q_n q" using assms(2) by simp
  then have "?i < 2 ^ 16" using unat_u16_less [of "q_max_entries q"] by linarith
  then have u: "unat (of_nat ?i :: u32) = ?i" by (intro unat_of_nat_small) simp
  have m: "queue_mapped q" using assms(1) by (auto simp: io_window_def queue_mapped_def)
  have e: "unat (q_entry_size q) = 64" "0 < q_entry_size q" using assms(1) by (simp_all add: io_window_def)
  have "unat (slot_of q j) = unat (d_vaddr mem) + 64 * ?i"
    using unat_queue_slot [OF m, of "of_nat ?i"] u i e assms(1) by (simp add: slot_of_def io_window_def)
  then have "(of_nat (unat (slot_of q j)) :: u64) = of_nat (unat (d_vaddr mem) + 64 * ?i)" by simp
  then show "slot_of q j = d_vaddr mem + of_nat (64 * ?i)" by simp
  show "64 * ?i + 64 \<le> unat (d_page_size mem)" using i assms(1) by (simp add: io_window_def)
qed


lemma list_of_at:
  assumes "io_window mem q" "0 < q_n q"
  shows "list_of mem q j = d_vaddr mem + of_nat (unat (d_page_size mem) * ((j + 1) mod q_n q + 1))"
    "unat (d_page_size mem) * ((j + 1) mod q_n q + 1) + unat (d_page_size mem) \<le> unat (d_page_size mem) * (q_n q + 1)"
    "list_of mem q j \<noteq> NULL"
proof -
  let ?p = "unat (d_page_size mem)" and ?i = "(j + 1) mod q_n q + 1"
  show e: "list_of mem q j = d_vaddr mem + of_nat (?p * ?i)" by (simp add: list_of_def NVM_DMA_OFFSET_def NVM_PTR_OFFSET_def algebra_simps)
  have "?i + 1 \<le> q_n q + 1" using assms(2) by (simp add: Suc_le_eq)
  then have "?p * (?i + 1) \<le> ?p * (q_n q + 1)" by (rule mult_le_mono2)
  then show b: "?p * ?i + ?p \<le> ?p * (q_n q + 1)" by simp
  have p0: "0 < ?p" using assms by (auto simp: io_window_def)
  have v: "0 < unat (d_vaddr mem)" using assms(1) by (simp add: io_window_def unat_gt_0)
  have "unat (d_vaddr mem) + ?p * ?i < 2 ^ 64" using b assms(1) p0 by (simp add: io_window_def)
  then have "unat (d_vaddr mem + of_nat (?p * ?i)) = unat (d_vaddr mem) + ?p * ?i"
    using unat_of_nat_small [of "unat (d_vaddr mem) + ?p * ?i", where 'a = 64] by simp
  then show "list_of mem q j \<noteq> NULL" using v e by auto
qed

text \<open>Where the slot and the list of a command are, as offsets into the window.\<close>

definition cmd_bytes :: "nvm_dma \<Rightarrow> nvm_queue \<Rightarrow> nat \<Rightarrow> nat \<Rightarrow> u64 set" where
  "cmd_bytes mem q k j = {x. in_range (slot_of q j) 64 x \<or> in_range (list_of mem q j) (8 * (k - 1)) x}"

lemma cmd_bytes_offset:
  assumes "io_window mem q" "0 < q_n q" "8 * (k - 1) \<le> unat (d_page_size mem)"
  shows "x \<in> cmd_bytes mem q k j \<longleftrightarrow>
    (let u = unat (x - d_vaddr mem); p = unat (d_page_size mem) in
      64 * (j mod q_n q) \<le> u \<and> u < 64 * (j mod q_n q) + 64
      \<or> p * ((j + 1) mod q_n q + 1) \<le> u \<and> u < p * ((j + 1) mod q_n q + 1) + 8 * (k - 1))"
proof -
  note s = slot_of_at [OF assms(1,2), of j] and l = list_of_at(1,2) [OF assms(1,2), of j]
  have b: "unat (d_page_size mem) * (q_n q + 1) \<le> 2 ^ 64" using assms(1) by (simp add: io_window_def)
  have p: "unat (d_page_size mem) \<le> unat (d_page_size mem) * (q_n q + 1)" by simp
  have "64 * (j mod q_n q) + 64 \<le> 2 ^ 64" using s(2) p b by linarith
  moreover have "unat (d_page_size mem) * ((j + 1) mod q_n q + 1) + 8 * (k - 1) \<le> 2 ^ 64" using l(2) assms(3) b by linarith
  ultimately show ?thesis
    unfolding cmd_bytes_def s(1) l(1) by (simp only: mem_Collect_eq in_range_at Let_def)
qed

lemma cmd_bytes_region:
  assumes "io_window mem q" "0 < q_n q" "8 * (k - 1) \<le> unat (d_page_size mem)"
  shows "cmd_bytes mem q k j \<subseteq> io_region mem q"
proof
  fix x assume "x \<in> cmd_bytes mem q k j"
  moreover have "unat (d_page_size mem) \<le> unat (d_page_size mem) * (q_n q + 1)" by simp
  ultimately have "unat (x - d_vaddr mem) < unat (d_page_size mem) * (q_n q + 1)"
    using slot_of_at(2) [OF assms(1,2), of j] list_of_at(2) [OF assms(1,2), of j] assms(3)
    unfolding cmd_bytes_offset [OF assms] Let_def by linarith
  then show "x \<in> io_region mem q" by (simp add: io_region_def in_range_def)
qed

text \<open>Fewer than a ring's length apart, two commands share neither slot nor list.\<close>

lemma mod_distinct: "i < j \<Longrightarrow> j - i < n \<Longrightarrow> (i + c) mod n \<noteq> (j + c) mod n" for i j n :: nat
proof
  assume a: "i < j" "j - i < n" "(i + c) mod n = (j + c) mod n"
  moreover from a(1) have "(i + c) + (j - i) = j + c" by simp
  ultimately have "((i + c) + 0) mod n = ((i + c) + (j - i)) mod n" by (simp add: add.commute)
  then have "0 = j - i" by (rule ring_inj) (use a in auto)
  with a(1) show False by simp
qed

lemma chunk_disjoint:
  fixes p a b u v :: nat
  assumes "a \<noteq> b" "p * a \<le> u" "u < p * a + p" "p * b \<le> u" "u < p * b + p"
  shows False
proof -
  have m: "p * c + p \<le> p * d" if "c < d" for c d using mult_le_mono2 [of "Suc c" d p] that by simp
  consider "a < b" | "b < a" using assms(1) by linarith
  then show False
  proof cases
    case 1
    from m [OF this] assms(3,4) show False by linarith
  next
    case 2
    from m [OF this] assms(2,5) show False by linarith
  qed
qed

lemma cmd_bytes_disjoint:
  assumes "io_window mem q" "0 < q_n q" "8 * (k - 1) \<le> unat (d_page_size mem)" "8 * (k' - 1) \<le> unat (d_page_size mem)"
    and "i < j" "j - i < q_n q"
  shows "cmd_bytes mem q k i \<inter> cmd_bytes mem q k' j = {}"
proof (rule ccontr)
  let ?p = "unat (d_page_size mem)" and ?n = "q_n q"
  assume "\<not> ?thesis"
  then obtain x where "x \<in> cmd_bytes mem q k i" "x \<in> cmd_bytes mem q k' j" by blast
  moreover define u where "u = unat (x - d_vaddr mem)"
  ultimately have x: "64 * (i mod ?n) \<le> u \<and> u < 64 * (i mod ?n) + 64 \<or>
        ?p * ((i + 1) mod ?n + 1) \<le> u \<and> u < ?p * ((i + 1) mod ?n + 1) + ?p"
      "64 * (j mod ?n) \<le> u \<and> u < 64 * (j mod ?n) + 64 \<or>
        ?p * ((j + 1) mod ?n + 1) \<le> u \<and> u < ?p * ((j + 1) mod ?n + 1) + ?p"
    using assms(3,4) unfolding cmd_bytes_offset [OF assms(1,2,3)] cmd_bytes_offset [OF assms(1,2,4)] Let_def by auto
  have d: "i mod ?n \<noteq> j mod ?n" "(i + 1) mod ?n + 1 \<noteq> (j + 1) mod ?n + 1"
    using mod_distinct [OF assms(5,6), of 0] mod_distinct [OF assms(5,6), of 1] by simp_all
  have s: "64 * (i mod ?n) + 64 \<le> ?p" "64 * (j mod ?n) + 64 \<le> ?p" by (rule slot_of_at(2) [OF assms(1,2)])+
  have l: "?p \<le> ?p * ((i + 1) mod ?n + 1)" "?p \<le> ?p * ((j + 1) mod ?n + 1)" by simp_all
  from x(1) show False
  proof
    assume a: "64 * (i mod ?n) \<le> u \<and> u < 64 * (i mod ?n) + 64"
    with x(2) s l have "64 * (j mod ?n) \<le> u \<and> u < 64 * (j mod ?n) + 64" by linarith
    with a show False using chunk_disjoint [OF d(1), of 64 u] by blast
  next
    assume a: "?p * ((i + 1) mod ?n + 1) \<le> u \<and> u < ?p * ((i + 1) mod ?n + 1) + ?p"
    with x(2) s l have "?p * ((j + 1) mod ?n + 1) \<le> u \<and> u < ?p * ((j + 1) mod ?n + 1) + ?p" by linarith
    with a show False using chunk_disjoint [OF d(2), of ?p u] by blast
  qed
qed


lemma slot_list_disjoint:
  assumes "io_window mem q" "0 < q_n q" "8 * (k - 1) \<le> unat (d_page_size mem)" "in_range (slot_of q j) 64 x"
  shows "\<not> in_range (list_of mem q i) (8 * (k - 1)) x"
proof
  let ?p = "unat (d_page_size mem)"
  assume "in_range (list_of mem q i) (8 * (k - 1)) x"
  moreover have b: "?p * (q_n q + 1) \<le> 2 ^ 64" "?p \<le> ?p * (q_n q + 1)" using assms(1) by (simp_all add: io_window_def)
  moreover have "?p * ((i + 1) mod q_n q + 1) + 8 * (k - 1) \<le> 2 ^ 64"
    using list_of_at(2) [OF assms(1,2), of i] assms(3) b by linarith
  ultimately have "?p * ((i + 1) mod q_n q + 1) \<le> unat (x - d_vaddr mem)"
    unfolding list_of_at(1) [OF assms(1,2)] by (simp only: in_range_at)
  moreover have "?p \<le> ?p * ((i + 1) mod q_n q + 1)" by simp
  moreover have "64 * (j mod q_n q) + 64 \<le> 2 ^ 64" using slot_of_at(2) [OF assms(1,2), of j] b by linarith
  then have "unat (x - d_vaddr mem) < 64 * (j mod q_n q) + 64"
    using assms(4) unfolding slot_of_at(1) [OF assms(1,2)] by (simp only: in_range_at)
  ultimately show False using slot_of_at(2) [OF assms(1,2), of j] by linarith
qed

text \<open>
  The \<open>j\<close>-th command of a queue is in its slot, with its list if it has more than two pages: PRP2 is then the
  address of the list on the bus.
\<close>

definition slot_holds :: "nvm_dma \<Rightarrow> nvm_queue \<Rightarrow> mem \<Rightarrow> nat \<Rightarrow> nat \<Rightarrow> u64 \<times> u32 \<times> u64 \<times> u64 \<times> u64 list \<Rightarrow> bool" where
  "slot_holds mem q m j k r \<longleftrightarrow> fetch_io m (slot_of q j) (list_of mem q j) k = r
     \<and> (2 < k \<longrightarrow> cmd_prp2 (load_dwords m (slot_of q j) 16) = d_ioaddrs mem ! ((j + 1) mod q_n q + 1))"

lemma load64_bus:
  assumes "\<And>b. b < 8 \<Longrightarrow> iommu (a + of_nat b) = a' + of_nat b"
  shows "load64 (m \<circ> iommu) a = load64 m a'"
  using assms [of 0] assms [of 1] assms [of 2] assms [of 3] assms [of 4] assms [of 5] assms [of 6] assms [of 7]
  by (simp add: load64_def load32_def load16_def add.assoc)

text \<open>So the controller, which follows PRP2, reads the same command.\<close>

lemma slot_holds_fetch:
  assumes "io_window mem q" "0 < q_n q" "window_maps iommu mem" "8 * (k - 1) \<le> unat (d_page_size mem)" "slot_holds mem q m j k r"
  shows "bus_fetch iommu m (slot_of q j) k = r"
proof (cases "2 < k")
  case True
  let ?c = "load_dwords m (slot_of q j) 16" and ?x = "(j + 1) mod q_n q + 1" and ?ps = "unat (d_page_size mem)"
  have p2: "cmd_prp2 ?c = d_ioaddrs mem ! ?x" using assms(5) True by (simp add: slot_holds_def)
  have "(j + 1) mod q_n q < q_n q" using assms(2) by simp
  then have x: "?x < length (d_ioaddrs mem)" using assms(1) by (simp add: io_window_def)
  have "load64 (m \<circ> iommu) (cmd_prp2 ?c + 8 * of_nat i) = load64 m (list_of mem q j + 8 * of_nat i)" if "i < k - 1" for i
  proof (rule load64_bus)
    fix b :: nat assume "b < 8"
    then have "8 * i + b < ?ps" using that assms(4) by linarith
    then have "iommu (d_ioaddrs mem ! ?x + of_nat (8 * i + b)) = d_vaddr mem + of_nat (?x * ?ps + (8 * i + b))"
      using assms(3) x unfolding window_maps_def by blast
    then show "iommu (cmd_prp2 ?c + 8 * of_nat i + of_nat b) = list_of mem q j + 8 * of_nat i + of_nat b"
      unfolding p2 list_of_at(1) [OF assms(1,2)] by (simp add: ac_simps)
  qed
  then have "prp_pages ?c (m \<circ> iommu) (cmd_prp2 ?c) k = prp_pages ?c m (list_of mem q j) k" by (simp add: prp_pages_def)
  then show ?thesis using assms(5) by (simp add: slot_holds_def bus_fetch_def fetch_io_def Let_def)
next
  case False
  then have "prp_pages c m' l k = prp_pages c m l' k" for c m' m l l' by (simp add: prp_pages_def)
  then show ?thesis using assms(5) unfolding slot_holds_def bus_fetch_def fetch_io_def Let_def by metis
qed

lemma cmd_bytes_fetch:
  assumes "io_window mem q" "8 * (k - 1) \<le> unat (d_page_size mem)" "\<forall>x \<in> cmd_bytes mem q k j. m x = m' x"
  shows "slot_holds mem q m j k r = slot_holds mem q m' j k r"
proof -
  have b: "8 * (k - 1) \<le> 2 ^ 64" using assms(2) unat_u64_less [of "d_page_size mem"] by linarith
  have "fetch_io m (slot_of q j) (list_of mem q j) k = fetch_io m' (slot_of q j) (list_of mem q j) k"
    by (rule fetch_io_cong [OF _ _ b]) (use assms(3) in \<open>simp_all add: cmd_bytes_def\<close>)
  moreover have "load_dwords m (slot_of q j) 16 = load_dwords m' (slot_of q j) 16"
    by (rule load_dwords_cong) (use assms(3) in \<open>simp_all add: cmd_bytes_def\<close>)
  ultimately show ?thesis by (simp add: slot_holds_def)
qed

text \<open>
  What is left of the older commands once the \<open>i\<close>-th has been written to its slot and list: those that
  are at most a ring's length old are as they were.
\<close>

lemma older_commands_kept:
  assumes "io_window mem q" "0 < q_n q" "8 * (k - 1) \<le> unat (d_page_size mem)" "8 * (k' - 1) \<le> unat (d_page_size mem)"
    and "j < i" "i < j + q_n q"
    and m1: "\<forall>x \<in> io_region mem q. m1 x = store16 (NVM_CMD_CID (slot_of q i)) cid m x"
    and m2: "\<forall>x. x \<notin> cmd_bytes mem q k i \<longrightarrow> m2 x = m1 x"
  shows "slot_holds mem q m2 j k' r = slot_holds mem q m j k' r"
proof (rule cmd_bytes_fetch [OF assms(1,4)], rule ballI)
  fix x assume x: "x \<in> cmd_bytes mem q k' j"
  have d: "cmd_bytes mem q k' j \<inter> cmd_bytes mem q k i = {}"
    by (rule cmd_bytes_disjoint [OF assms(1,2,4,3,5)]) (use assms(5,6) in linarith)
  then have n: "x \<notin> cmd_bytes mem q k i" using x by blast
  have "\<not> in_range (slot_of q i) 64 x" using n by (simp add: cmd_bytes_def)
  then have "\<not> in_range (slot_of q i + of_nat 2) 2 x"
    using in_range_split [of 2 2 "slot_of q i" x] in_range_mono [of "slot_of q i" 4 x 64] by auto
  then have "store16 (NVM_CMD_CID (slot_of q i)) cid m x = m x" by (simp add: NVM_CMD_CID_def store16_other)
  moreover have "x \<in> io_region mem q" using x cmd_bytes_region [OF assms(1,2,4), of j] by blast
  ultimately show "m2 x = m x" using m1 m2 n by simp
qed

text \<open>The list the programs pick is the one of the slot.\<close>

lemma list_index:
  assumes "io_window mem q" "0 < q_n q" "cid = of_nat ((i + 1) mod (2 * q_n q))"
  shows "unat (cid mod q_max_entries q + 1) = (i + 1) mod q_n q + 1"
    "NVM_DMA_OFFSET mem (ucast (cid mod q_max_entries q + 1)) = list_of mem q i"
    "unat (cid mod q_max_entries q + 1) < length (d_ioaddrs mem)"
    "d_ioaddrs mem ! unat (cid mod q_max_entries q + 1) = d_ioaddrs mem ! ((i + 1) mod q_n q + 1)"
proof -
  let ?n = "q_n q"
  have n: "2 * ?n \<le> 2 ^ 16" using assms(1) by (simp add: io_window_def)
  have "(i + 1) mod (2 * ?n) < 2 ^ 16" using n assms(2) by (meson mod_less_divisor nat_0_less_mult_iff order_less_le_trans zero_less_numeral)
  then have "unat cid = (i + 1) mod (2 * ?n)" unfolding assms(3) by (intro unat_of_nat_small) simp
  then have m: "unat (cid mod q_max_entries q) = (i + 1) mod ?n" by (simp add: unat_mod_distrib mod_mod_cancel)
  have lt: "(i + 1) mod ?n < ?n" using assms(2) by simp
  show u: "unat (cid mod q_max_entries q + 1) = (i + 1) mod ?n + 1"
    using m lt n by (simp add: unat_word_ariths)
  then show "d_ioaddrs mem ! unat (cid mod q_max_entries q + 1) = d_ioaddrs mem ! ((i + 1) mod q_n q + 1)" by simp
  show "unat (cid mod q_max_entries q + 1) < length (d_ioaddrs mem)" using u lt assms(1) by (simp add: io_window_def)
  have "(ucast (cid mod q_max_entries q + 1) :: u64) = of_nat (unat (cid mod q_max_entries q + 1))" by simp
  then show "NVM_DMA_OFFSET mem (ucast (cid mod q_max_entries q + 1)) = list_of mem q i"
    unfolding u list_of_def by simp
qed

text \<open>Queues that differ at most in how far they got.\<close>

definition same_place :: "nvm_queue \<Rightarrow> nvm_queue \<Rightarrow> bool" where
  "same_place q q0 \<longleftrightarrow> q_max_entries q = q_max_entries q0 \<and> q_vaddr q = q_vaddr q0 \<and> q_entry_size q = q_entry_size q0 \<and> q_db q = q_db q0"

lemma wait_slot:
  assumes live: "sq_live q" and cnt: "sq_counts i q" and pl: "same_place q q0" and win: "io_window mem q0"
    and oth: "retires_submitted oth" "fair oth" "keeps (io_region mem q0) oth dev"
    and db: "\<forall>a \<in> io_region mem q0. \<not> in_range (q_db q0) 4 a"
  obtains q' k w' where "sq_enqueue_wait oth dev q 0 w = Some (slot_of q0 i, q', k, w')" "k \<le> in_flight q"
    "sq_live q'" "in_flight q' = Suc (in_flight q - k)" "same_place q' q0" "sq_counts (Suc i) q'"
    "load16 (w_mem w') (NVM_CMD_CID (slot_of q0 i)) = of_nat ((i + 1) mod (2 * q_n q0))"
    "\<forall>x \<in> io_region mem q0. w_mem w' x = store16 (NVM_CMD_CID (slot_of q0 i)) (of_nat ((i + 1) mod (2 * q_n q0))) (w_mem w) x"
proof -
  note l = sq_liveD [OF live]
  have n: "q_n q = q_n q0" "0 < q_n q0" using pl l(4) by (simp_all add: same_place_def)
  have "unat (q_tail q) = i mod q_n q0" using cnt n by (simp add: sq_counts_def)
  then have "q_tail q = of_nat (i mod q_n q0)" by (metis of_nat_unat ucast_id)
  then have slot: "queue_slot q (q_tail q) = slot_of q0 i" using pl by (simp add: slot_of_def queue_slot_def same_place_def)
  have "sq_cid (sq_bump q) = of_nat (Suc i mod (2 * q_n (sq_bump q)))"
    by (rule sq_cid_counts [OF sq_bump_wf [OF l(2)] sq_counts_bump [OF l(2) cnt]]) (use win n in \<open>simp add: io_window_def\<close>)
  then have cid: "sq_cid (sq_bump q) = of_nat ((i + 1) mod (2 * q_n q0))" using n by simp
  have "\<forall>a \<in> io_region mem q0. \<not> in_range (q_db q) 4 a" using db pl by (simp add: same_place_def)
  from sq_enqueue_wait_spec [OF live oth this, of w 0] obtain q' k w' where
    r: "sq_enqueue_wait oth dev q 0 w = Some (slot_of q0 i, q', k, w')" "k \<le> in_flight q" "sq_live q'"
      "in_flight q' = Suc (in_flight q - k)" "q_max_entries q' = q_max_entries q" "q_vaddr q' = q_vaddr q"
      "q_entry_size q' = q_entry_size q" "q_db q' = q_db q" "q_tail q' = q_tail (sq_bump q)" "q_phase q' = q_phase (sq_bump q)"
      and m: "\<forall>x \<in> io_region mem q0. w_mem w' x = store16 (NVM_CMD_CID (slot_of q0 i)) (of_nat ((i + 1) mod (2 * q_n q0))) (w_mem w) x"
    unfolding enqueued_def slot cid by auto
  have pl': "same_place q' q0" using r pl by (simp add: same_place_def)
  have cnt': "sq_counts (Suc i) q'"
    using sq_counts_bump [OF l(2) cnt] r(5,9,10) by (simp add: sq_counts_def)
  have reg: "slot_of q0 i + of_nat j \<in> io_region mem q0" if "j < 64" for j
  proof -
    have "in_range (slot_of q0 i) 64 (slot_of q0 i + of_nat j)" using that by simp
    then show ?thesis using cmd_bytes_region [OF win n(2), of 0 i] by (auto simp: cmd_bytes_def)
  qed
  have "load16 (w_mem w') (NVM_CMD_CID (slot_of q0 i))
      = load16 (store16 (NVM_CMD_CID (slot_of q0 i)) (of_nat ((i + 1) mod (2 * q_n q0))) (w_mem w)) (NVM_CMD_CID (slot_of q0 i))"
    by (rule load16_cong) (use m reg [of 2] reg [of 3] in \<open>simp_all add: NVM_CMD_CID_def add.assoc\<close>)
  then show ?thesis using that [OF r(1-4) pl' cnt' _ m] by (simp add: load16_store16)
qed

text \<open>
  A command with its PRP list, filled in by either order, is what the controller reads, and nothing
  outside the slot and the list has changed.  The memory after the list was written is \<open>m2\<close>.
\<close>

lemma command_written:
  assumes win: "io_window mem q" "0 < q_n q" and b: "8 * (k - 1) \<le> unat (d_page_size mem)"
    and l: "load_dwords m' (slot_of q i) 16 = c'" "\<forall>x. \<not> in_range (slot_of q i) 64 x \<longrightarrow> m' x = m2 x"
    and fr: "\<forall>x. \<not> in_range (slot_of q i) 64 x \<and> \<not> in_range (list_of mem q i) (8 * (k - 1)) x \<longrightarrow> m2 x = m x"
    and c: "length c = 16" "c' = nvm_cmd_rw_blks (nvm_cmd_data_ptr (nvm_cmd_header c opc ns) p1 p2) lba nb
      \<or> c' = nvm_cmd_data_ptr (nvm_cmd_rw_blks (nvm_cmd_header c opc ns) lba nb) p1 p2"
    and pp: "\<forall>c. cmd_prp1 c = p1 \<and> cmd_prp2 c = p2 \<longrightarrow> prp_pages c m2 (list_of mem q i) k = pages"
    and p2: "2 < k \<longrightarrow> p2 = d_ioaddrs mem ! ((i + 1) mod q_n q + 1)"
  shows "\<forall>x. x \<notin> cmd_bytes mem q k i \<longrightarrow> m' x = m x"
    "slot_holds mem q m' i k (ucast (opc AND 0x7f), ns, lba, ucast (nb - 1), pages)"
proof -
  show "\<forall>x. x \<notin> cmd_bytes mem q k i \<longrightarrow> m' x = m x" using l(2) fr by (simp add: cmd_bytes_def)
  have "prp_pages c' m' (list_of mem q i) k = prp_pages c' m2 (list_of mem q i) k"
  proof (rule prp_pages_cong)
    show "8 * (k - 1) \<le> 2 ^ 64" using b unat_u64_less [of "d_page_size mem"] by linarith
    show "m' x = m2 x" if "in_range (list_of mem q i) (8 * (k - 1)) x" for x
      using l(2) slot_list_disjoint [OF win b, of i x i] that by blast
  qed
  then show "slot_holds mem q m' i k (ucast (opc AND 0x7f), ns, lba, ucast (nb - 1), pages)"
    unfolding slot_holds_def fetch_io_def Let_def l(1) using io_fields [OF c] pp p2 by simp
qed

section \<open>Issuing commands\<close>

text \<open>
  Everything the thread that issues commands relies on, and what holds when it has issued \<open>i\<close> of them:
  those that may still be in flight are in their slots and lists.  The \<open>j\<close>-th has \<open>len j\<close> pages.
\<close>

definition io_env :: "nvm_dma \<Rightarrow> nvm_queue \<Rightarrow> others \<Rightarrow> device \<Rightarrow> bool" where
  "io_env mem q oth dev \<longleftrightarrow> io_window mem q \<and> retires_submitted oth \<and> fair oth \<and> keeps (io_region mem q) oth dev
     \<and> (\<forall>a \<in> io_region mem q. \<not> in_range (q_db q) 4 a)"

definition issued ::
  "nvm_dma \<Rightarrow> nvm_queue \<Rightarrow> (nat \<Rightarrow> nat) \<Rightarrow> (nat \<Rightarrow> u64 \<times> u32 \<times> u64 \<times> u64 \<times> u64 list) \<Rightarrow> nat \<Rightarrow> nvm_queue \<Rightarrow> mem \<Rightarrow> bool" where
  "issued mem q0 len req i q m \<longleftrightarrow> sq_live q \<and> sq_counts i q \<and> same_place q q0 \<and> in_flight q \<le> i
     \<and> (\<forall>j < i. i \<le> j + q_n q0 \<longrightarrow> slot_holds mem q0 m j (len j) (req j))"

lemma issuedD:
  assumes "issued mem q0 len req i q m"
  shows "sq_live q" "sq_counts i q" "same_place q q0" "in_flight q \<le> i" "q_n q = q_n q0" "0 < q_n q0"
    "\<And>j. j < i \<Longrightarrow> i - j \<le> in_flight q \<Longrightarrow> slot_holds mem q0 m j (len j) (req j)"
proof -
  show l: "sq_live q" "sq_counts i q" "same_place q q0" "in_flight q \<le> i" using assms by (simp_all add: issued_def)
  then show n: "q_n q = q_n q0" by (simp add: same_place_def)
  show "0 < q_n q0" using sq_liveD(4) [OF l(1)] n by simp
  fix j assume "j < i" "i - j \<le> in_flight q"
  with in_flight_less [OF sq_liveD(2) [OF l(1)]] n have "i \<le> j + q_n q0" by linarith
  then show "slot_holds mem q0 m j (len j) (req j)" using assms \<open>j < i\<close> by (simp add: issued_def)
qed

lemma issued_start:
  "sq_live q \<Longrightarrow> sq_counts 0 q \<Longrightarrow> in_flight q = 0 \<Longrightarrow> issued mem q len req 0 q m"
  by (simp add: issued_def same_place_def)

text \<open>One more command: wait for its slot, then write it there and to its list.\<close>

lemma issue_command:
  assumes env: "io_env mem q0 oth dev" and st: "issued mem q0 len req i q (w_mem w)"
    and len: "\<And>j. 8 * (len j - 1) \<le> unat (d_page_size mem)"
  obtains q' k w' where "sq_enqueue_wait oth dev q 0 w = Some (slot_of q0 i, q', k, w')" "k \<le> in_flight q"
    "in_flight q' = Suc (in_flight q - k)" "same_place q' q0"
    "load16 (w_mem w') (NVM_CMD_CID (slot_of q0 i)) = of_nat ((i + 1) mod (2 * q_n q0))"
    "\<And>m'. \<forall>x. x \<notin> cmd_bytes mem q0 (len i) i \<longrightarrow> m' x = w_mem w' x \<Longrightarrow>
       slot_holds mem q0 m' i (len i) (req i) \<Longrightarrow> issued mem q0 len req (Suc i) q' m'"
proof -
  from env have win: "io_window mem q0" and oth: "retires_submitted oth" "fair oth" "keeps (io_region mem q0) oth dev"
    and db: "\<forall>a \<in> io_region mem q0. \<not> in_range (q_db q0) 4 a" by (simp_all add: io_env_def)
  note d = issuedD [OF st]
  obtain q' k w' where wait: "sq_enqueue_wait oth dev q 0 w = Some (slot_of q0 i, q', k, w')" "k \<le> in_flight q"
    "sq_live q'" "in_flight q' = Suc (in_flight q - k)" "same_place q' q0" "sq_counts (Suc i) q'"
    "load16 (w_mem w') (NVM_CMD_CID (slot_of q0 i)) = of_nat ((i + 1) mod (2 * q_n q0))"
    and wm: "\<forall>x \<in> io_region mem q0. w_mem w' x = store16 (NVM_CMD_CID (slot_of q0 i)) (of_nat ((i + 1) mod (2 * q_n q0))) (w_mem w) x"
    by (rule wait_slot [OF d(1-3) win oth db])
  have "issued mem q0 len req (Suc i) q' m'" if fr: "\<forall>x. x \<notin> cmd_bytes mem q0 (len i) i \<longrightarrow> m' x = w_mem w' x"
    and here: "slot_holds mem q0 m' i (len i) (req i)" for m'
  proof -
    have "slot_holds mem q0 m' j (len j) (req j)" if "j < Suc i" "Suc i \<le> j + q_n q0" for j
    proof (cases "j = i")
      case False
      then have j: "j < i" "i < j + q_n q0" using that by simp_all
      from older_commands_kept [OF win d(6) len len j wm fr] st j show ?thesis by (simp add: issued_def)
    qed (use here in simp)
    then show ?thesis using wait(3-6) d(4) by (simp add: issued_def)
  qed
  then show ?thesis using that wait by blast
qed

text \<open>Announcing the commands leaves them as they are.\<close>

lemma issued_submit:
  assumes env: "io_env mem q0 oth dev" and st: "issued mem q0 len req i q (w_mem w)"
    and len: "\<And>j. 8 * (len j - 1) \<le> unat (d_page_size mem)"
  obtains w' where "nvm_sq_submit dev q w = (q\<lparr>q_last := q_tail q\<rparr>, w')"
    "issued mem q0 len req i (q\<lparr>q_last := q_tail q\<rparr>) (w_mem w')"
proof -
  from env have win: "io_window mem q0" and kp: "keeps (io_region mem q0) oth dev"
    and db: "\<forall>a \<in> io_region mem q0. \<not> in_range (q_db q0) 4 a" by (simp_all add: io_env_def)
  note d = issuedD [OF st]
  let ?q = "q\<lparr>q_last := q_tail q\<rparr>"
  obtain w' where s: "nvm_sq_submit dev q w = (?q, w')" and m: "\<forall>x \<in> io_region mem q0. w_mem w' x = w_mem w x"
  proof (cases "q_last q = q_tail q")
    case True
    then show ?thesis using that [of w] by (simp add: nvm_sq_submit_def)
  next
    case False
    have "q_db q = q_db q0" using d(3) by (simp add: same_place_def)
    then have "\<forall>x \<in> io_region mem q0. w_mem (reg_write32 dev (q_db q) (q_tail q) w) x = w_mem w x"
      using db kp by (simp add: reg_write32_def keeps_def store32_other)
    then show ?thesis using False that by (simp add: nvm_sq_submit_def)
  qed
  have "slot_holds mem q0 (w_mem w') j (len j) (req j) = slot_holds mem q0 (w_mem w) j (len j) (req j)" for j
    by (rule cmd_bytes_fetch [OF win len]) (use m cmd_bytes_region [OF win d(6) len] in blast)
  moreover have "sq_counts i ?q" "same_place ?q q0" "in_flight ?q = in_flight q"
    using d(2,3) by (simp_all add: sq_counts_def same_place_def in_flight_def)
  ultimately have "issued mem q0 len req i ?q (w_mem w')"
    using st sq_live_last(1) [OF d(1)] unfolding issued_def by simp
  with s that show ?thesis by blast
qed

text \<open>As long as nothing was announced, nothing is retired.\<close>

lemma enqueue_wait_unsubmitted:
  assumes "sq_live q" "retires_submitted oth" "submitted q = 0" "in_flight q < q_n q - 1"
  shows "\<exists>w'. sq_enqueue_wait oth dev q 0 w = Some (queue_slot q (q_tail q), sq_bump q, 0, w')"
proof -
  have kp: "keeps {} oth (\<lambda>_ m. m)" by (simp add: keeps_def)
  show ?thesis
  proof (rule meanwhile_cases [OF assms(1,2) kp, of w])
    fix k w' assume m: "meanwhile oth q w = (k, (nvm_sq_update ^^ k) q, w')" "k \<le> submitted q"
    have "queue_slot q (q_tail q) \<noteq> NULL"
      using sq_liveD(1) [OF assms(1)] by (intro queue_slot_nonnull) (auto simp: sq_ok_def queue_wf_def)
    then show ?thesis
      using m assms(3) nvm_sq_enqueue_free [OF sq_liveD(2,3) [OF assms(1)] assms(4), of "w_mem w'"]
      by (subst sq_enqueue_wait.simps) simp
  qed
qed

section \<open>Splitting a buffer\<close>

text \<open>
  A buffer of \<open>T\<close> pages is transferred in commands of \<open>P\<close> pages, the last of which may be shorter: the
  number of commands, the pages of the \<open>i\<close>-th one, and what the controller is asked to do.
\<close>

definition n_chunks :: "nat \<Rightarrow> nat \<Rightarrow> nat" where
  "n_chunks P T = (T + P - 1) div P"

definition chunk :: "nat \<Rightarrow> nat \<Rightarrow> nat \<Rightarrow> nat" where
  "chunk P T i = min P (T - i * P)"

definition io_request :: "u64 \<Rightarrow> u32 \<Rightarrow> u64 \<Rightarrow> nat \<Rightarrow> u64 list \<Rightarrow> nat \<Rightarrow> nat \<Rightarrow> u64 \<times> u32 \<times> u64 \<times> u64 \<times> u64 list" where
  "io_request opc ns start bpp ios P i =
     (opc, ns, start + of_nat (i * P * bpp), of_nat (chunk P (length ios) i * bpp - 1),
      take (chunk P (length ios) i) (drop (i * P) ios))"

lemma n_chunks_iff: "0 < P \<Longrightarrow> i < n_chunks P T \<longleftrightarrow> i * P < T"
proof -
  assume P: "0 < P"
  have "i < (T + P - 1) div P \<longleftrightarrow> Suc i * P \<le> T + P - 1"
    using less_eq_div_iff_mult_less_eq [OF P, of "Suc i" "T + P - 1"] by (simp add: Suc_le_eq)
  also have "\<dots> \<longleftrightarrow> i * P < T" using P by (simp add: algebra_simps) linarith
  finally show ?thesis by (simp add: n_chunks_def)
qed

lemma chunk_pos: "0 < P \<Longrightarrow> i < n_chunks P T \<Longrightarrow> 0 < chunk P T i \<and> chunk P T i \<le> P \<and> i * P + chunk P T i \<le> T"
  by (simp add: chunk_def n_chunks_iff)

lemma chunk_end: "i * P < T \<Longrightarrow> i * P + chunk P T i = min T (Suc i * P)"
  by (simp add: chunk_def min_def) linarith

lemma n_chunks_le: "0 < P \<Longrightarrow> n_chunks P T \<le> T"
proof (rule ccontr)
  assume P: "0 < P" and "\<not> n_chunks P T \<le> T"
  then have "T * P < T" by (simp add: n_chunks_iff not_le)
  then show False using P by simp
qed

text \<open>Together the commands transfer every page once, in order.\<close>

lemma chunks_cover:
  "0 < P \<Longrightarrow> k \<le> n_chunks P (length ios) \<Longrightarrow>
   concat (map (\<lambda>i. take (chunk P (length ios) i) (drop (i * P) ios)) [0..<k]) = take (k * P) ios"
proof (induction k)
  case 0
  then show ?case by simp
next
  case (Suc k)
  have "take (chunk P (length ios) k) (drop (k * P) ios) = take P (drop (k * P) ios)"
    by (simp add: chunk_def min_def)
  moreover have "take (Suc k * P) ios = take (k * P) ios @ take P (drop (k * P) ios)"
    using take_add [of "k * P" P ios] by (simp add: add.commute)
  ultimately show ?case using Suc by simp
qed

lemma page_to_block:
  assumes "unat bs dvd unat ps" "unat ps * unat pg < 2 ^ 64"
  shows "NVM_PAGE_TO_BLOCK ps bs pg = of_nat (unat pg * (unat ps div unat bs))"
proof -
  have "unat (ps * pg) = unat ps * unat pg" using assms(2) by (simp add: unat_word_ariths)
  then have "unat (NVM_PAGE_TO_BLOCK ps bs pg) = unat pg * (unat ps div unat bs)"
    using div_mult_swap [OF assms(1), of "unat pg"] by (simp add: NVM_PAGE_TO_BLOCK_def unat_div mult.commute)
  then have "(of_nat (unat (NVM_PAGE_TO_BLOCK ps bs pg)) :: u64) = of_nat (unat pg * (unat ps div unat bs))" by simp
  then show ?thesis by simp
qed

text \<open>A number of blocks from 1 to 65536 is sent less one and so fits 16 bits.\<close>

lemma blocks_less_one:
  assumes "0 < nb" "nb \<le> 65536"
  shows "(ucast ((ucast (of_nat nb :: u64) :: u16) - 1) :: u64) = of_nat (nb - 1)"
proof -
  have "(ucast (of_nat nb :: u64) :: u16) = of_nat nb" by (rule word_unat_eq_iff [THEN iffD2]) (simp add: unat_ucast_mod unat_of_nat take_bit_eq_mod mod_mod_cancel)
  then have "(ucast (of_nat nb :: u64) :: u16) - 1 = of_nat (nb - 1)" using assms(1) by (simp add: of_nat_diff)
  moreover have "unat (of_nat (nb - 1) :: u16) = nb - 1" by (rule unat_of_nat_small) (use assms in simp)
  moreover have "(ucast x :: u64) = of_nat (unat x)" for x :: u16 by simp
  ultimately show ?thesis by metis
qed

text \<open>
  What a split relies on: whole blocks in a page, a transfer that fits one PRP list and the block count of
  a command, and sizes below \<open>2 ^ 64\<close>.
\<close>

definition split_ok :: "u64 \<Rightarrow> u64 \<Rightarrow> nat \<Rightarrow> nat \<Rightarrow> bool" where
  "split_ok ps bs P T \<longleftrightarrow> bs \<noteq> 0 \<and> ps \<noteq> 0 \<and> unat bs dvd unat ps \<and> unat ps * T < 2 ^ 64 \<and> 0 < P \<and> P \<le> 1 + unat ps div 8
     \<and> P * (unat ps div unat bs) \<le> 65536"

lemma split_okD:
  assumes "split_ok ps bs P T"
  shows "bs \<noteq> 0" "ps \<noteq> 0" "unat bs dvd unat ps" "0 < P" "P * (unat ps div unat bs) \<le> 65536" "0 < unat ps div unat bs"
    "\<And>c. c \<le> T \<Longrightarrow> unat ps * c < 2 ^ 64" "\<And>j. 8 * (chunk P T j - 1) \<le> unat ps" "T < 2 ^ 64"
    "\<And>c. c \<le> P \<Longrightarrow> c = min c (1 + unat ps div 8)"
proof -
  show s: "bs \<noteq> 0" "ps \<noteq> 0" "unat bs dvd unat ps" "0 < P" "P * (unat ps div unat bs) \<le> 65536" using assms by (simp_all add: split_ok_def)
  have b: "unat ps * T < 2 ^ 64" "P \<le> 1 + unat ps div 8" using assms by (simp_all add: split_ok_def)
  have "unat ps div unat bs * unat bs \<noteq> 0" using s(2,3) by (simp add: unat_eq_zero)
  then show "0 < unat ps div unat bs" by simp
  show "unat ps * c < 2 ^ 64" if "c \<le> T" for c using b(1) mult_le_mono2 [OF that, of "unat ps"] by linarith
  have "1 * T \<le> unat ps * T" using s(2) by (intro mult_le_mono1) (simp add: Suc_le_eq unat_gt_0)
  then show "T < 2 ^ 64" using b(1) by linarith
  show "8 * (chunk P T j - 1) \<le> unat ps" for j
  proof -
    have "chunk P T j - 1 \<le> unat ps div 8" using b(2) by (simp add: chunk_def)
    then show ?thesis by (simp add: less_eq_div_iff_mult_less_eq mult.commute)
  qed
  show "c = min c (1 + unat ps div 8)" if "c \<le> P" for c using that b(2) by simp
qed

text \<open>The page counter of the loops, and the request of the command it stands at.\<close>

lemma split_counter:
  fixes n page tp np :: u64
  assumes P: "0 < P" and i: "i < n_chunks P (unat n)" and p: "page = of_nat (min (unat n) (i * P))" "unat tp = P"
    and np: "np = (if n - page < tp then n - page else tp)"
  shows "unat page = i * P" "unat np = chunk P (unat n) i" "page < n" "page + np = of_nat (min (unat n) (Suc i * P))"
    "Suc i < n_chunks P (unat n) \<Longrightarrow> unat np = P" "np \<noteq> 0" "of_nat (chunk P (unat n) i) = np"
proof -
  have iT: "i * P < unat n" using i n_chunks_iff [OF P] by simp
  then show pg: "unat page = i * P" using p(1) unat_u64_less [of n] unat_of_nat_small [of "i * P", where 'a = 64] by simp
  have rest: "unat (n - page) = unat n - i * P" using iT pg by (subst unat_sub) (simp_all add: word_le_nat_alt)
  then show c: "unat np = chunk P (unat n) i" using p(2) by (simp add: np chunk_def word_less_nat_alt min_def)
  show "page < n" using iT pg by (simp add: word_less_nat_alt)
  have "page + np = of_nat (unat page + unat np)" by simp
  then show "page + np = of_nat (min (unat n) (Suc i * P))" unfolding pg c chunk_end [OF iT] .
  show "unat np = P" if "Suc i < n_chunks P (unat n)"
  proof -
    have "Suc i * P < unat n" using that n_chunks_iff [OF P] by simp
    then show ?thesis using c by (simp add: chunk_def)
  qed
  show "np \<noteq> 0" using chunk_pos [OF P i] c by auto
  show "of_nat (chunk P (unat n) i) = np" by (simp add: c [symmetric])
qed

lemma split_counter_end:
  fixes n page :: u64
  assumes "0 < P" "page = of_nat (min (unat n) (n_chunks P (unat n) * P))"
  shows "page = n"
proof -
  have "unat n \<le> n_chunks P (unat n) * P"
    using n_chunks_iff [OF assms(1), of "n_chunks P (unat n)" "unat n"] by (meson not_le order_less_irrefl)
  then show ?thesis using assms(2) by (simp add: min_absorb1)
qed

lemma split_request:
  assumes s: "split_ok ps bs P (length ios)" and i: "i < n_chunks P (length ios)"
    and page: "unat page = i * P" and np: "unat np = chunk P (length ios) i"
  shows "(opc, ns, start + NVM_PAGE_TO_BLOCK ps bs page, ucast ((ucast (NVM_PAGE_TO_BLOCK ps bs np) :: u16) - 1),
      take (chunk P (length ios) i) (drop (i * P) ios)) = io_request opc ns start (unat ps div unat bs) ios P i"
proof -
  note d = split_okD [OF s]
  let ?b = "unat ps div unat bs" and ?c = "chunk P (length ios) i"
  note ch = chunk_pos [OF d(4) i]
  have "NVM_PAGE_TO_BLOCK ps bs page = of_nat (i * P * ?b)"
    using page_to_block [OF d(3), of page] d(7) [of "i * P"] ch page by simp
  moreover have "NVM_PAGE_TO_BLOCK ps bs np = of_nat (?c * ?b)"
    using page_to_block [OF d(3), of np] d(7) [of ?c] ch np by simp
  moreover have "0 < ?c * ?b" using ch d(6) by simp
  moreover have "?c * ?b \<le> 65536" using mult_le_mono1 [of ?c P ?b] ch d(5) by linarith
  ultimately show ?thesis by (simp only: blocks_less_one io_request_def)
qed

section \<open>Loops that issue commands\<close>

text \<open>
  A loop whose body succeeds and makes progress runs to its end, through states that are linked by its
  body and all satisfy the invariant.
\<close>

locale command_loop =
  fixes more :: "'s \<Rightarrow> bool"
    and step :: "'s \<Rightarrow> 's option"
    and loop :: "'s \<Rightarrow> 's option"
    and inv :: "nat \<Rightarrow> 's \<Rightarrow> bool"
    and total :: nat
  assumes unfold: "loop s = (if more s then step s \<bind> loop else Some s)"
    and goes_on: "inv i s \<Longrightarrow> i < total \<Longrightarrow> more s \<and> (\<exists>s'. step s = Some s' \<and> inv (Suc i) s')"
    and ends: "inv total s \<Longrightarrow> \<not> more s"
begin

lemma runs:
  assumes "inv i s" "i + d = total"
  shows "\<exists>f. f i = s \<and> (\<forall>j. i \<le> j \<and> j < total \<longrightarrow> step (f j) = Some (f (Suc j)))
    \<and> (\<forall>j. i \<le> j \<and> j \<le> total \<longrightarrow> inv j (f j)) \<and> loop s = Some (f total)"
  using assms
proof (induction d arbitrary: i s)
  case 0
  then show ?case using ends [of s] unfold [of s] by (intro exI [of _ "\<lambda>_. s"]) auto
next
  case (Suc d)
  from goes_on [OF Suc.prems(1)] Suc.prems(2) obtain s' where
    s': "more s" "step s = Some s'" "inv (Suc i) s'" by auto
  from Suc.IH [OF s'(3)] Suc.prems(2) obtain f where f: "f (Suc i) = s'"
    "\<forall>j. Suc i \<le> j \<and> j < total \<longrightarrow> step (f j) = Some (f (Suc j))"
    "\<forall>j. Suc i \<le> j \<and> j \<le> total \<longrightarrow> inv j (f j)" "loop s' = Some (f total)" by auto
  let ?f = "f(i := s)"
  have "step (?f j) = Some (?f (Suc j))" if "i \<le> j" "j < total" for j
    using that f(1,2) s'(2) by (cases "j = i") auto
  moreover have "inv j (?f j)" if "i \<le> j" "j \<le> total" for j
    using that f(3) Suc.prems(1) by (cases "j = i") auto
  moreover have "loop s = Some (?f total)" using unfold [of s] s' f(4) Suc.prems(2) by auto
  ultimately show ?case by (intro exI [of _ ?f]) auto
qed

lemma all_states:
  assumes "inv 0 s"
  shows "\<exists>f. f 0 = s \<and> (\<forall>i < total. step (f i) = Some (f (Suc i))) \<and> (\<forall>i \<le> total. inv i (f i)) \<and> loop s = Some (f total)"
  using runs [OF assms] by simp

end

section \<open>An instance\<close>

text \<open>
  A queue of four entries and a thread that retires at once all that was submitted, with a controller
  that does not write to memory.
\<close>

definition eager :: others where
  "eager t q m = (submitted q, m)"

lemma eager_relied: "retires_submitted eager" "fair eager" "keeps R eager (\<lambda>_ m. m)"
  by (auto simp: retires_submitted_def fair_def keeps_def eager_def)

definition demo_sq_mem :: nvm_dma where
  "demo_sq_mem = \<lparr>d_vaddr = 0x20000, d_page_size = 0x1000, d_n_ioaddrs = 5, d_ioaddrs = [0x90000, 0x91000, 0x92000, 0x93000, 0x94000]\<rparr>"

lemma demo_io_window: "io_window demo_sq_mem demo_sq" "0 < q_n demo_sq"
  by (simp_all add: io_window_def demo_sq_mem_def demo_sq_fields)

text \<open>An IOMMU that maps the pages of the window one after another.\<close>

definition demo_iommu :: "u64 \<Rightarrow> u64" where
  "demo_iommu a = a - 0x70000"

lemma demo_window_maps: "window_maps demo_iommu demo_sq_mem"
proof -
  have "[0x90000, 0x91000, 0x92000, 0x93000, 0x94000 :: u64] ! i = 0x90000 + of_nat i * 0x1000" if "i < 5" for i
    using that by (auto simp: less_Suc_eq numeral_eq_Suc)
  then show ?thesis by (simp add: window_maps_def demo_sq_mem_def demo_iommu_def)
qed

lemma demo_region_db: "\<forall>a \<in> io_region demo_sq_mem demo_sq. \<not> in_range (q_db demo_sq) 4 a"
proof (intro ballI notI)
  fix a assume "a \<in> io_region demo_sq_mem demo_sq" "in_range (q_db demo_sq) 4 a"
  then have r: "in_range (0x11008 + of_nat 0xEFF8) 0x5000 a" and d: "unat (a - 0x11008) < 4"
    by (simp_all add: io_region_def demo_sq_mem_def demo_sq_fields in_range_def)
  from r have "0xEFF8 \<le> unat (a - 0x11008)" by (subst (asm) in_range_at) simp_all
  with d show False by simp
qed

lemma demo_sq_live: "sq_live demo_sq" "sq_counts 0 demo_sq" "in_flight demo_sq = 0"
  using demo_sq_ok by (simp_all add: sq_live_def demo_sq_fields submitted_def in_flight_def sq_counts_def)

end
