(* ===== verification/Io_Read.thy ===== *)
theory Io_Read
  imports Io_Queue
begin

unbundle bit_operations_syntax

text \<open>
  Reading blocks: \<open>examples/read-blocks/read.h\<close> and \<open>read.c\<close>.  One thread issues read commands for a whole
  buffer, the other receives completions.  Printing what the controller says of itself is left out;
  what is dumped of the buffer is a value.
\<close>

section \<open>The queue pair\<close>

record disk_info =
  di_ns_id :: u32
  di_max_data_size :: u64
  di_page_size :: u64
  di_block_size :: u64

record queue_pair =
  qp_sq_mem :: nvm_dma
  qp_cq_mem :: nvm_dma
  qp_sq :: nvm_queue
  qp_cq :: nvm_queue
  qp_stop :: bool
  qp_num_cpls :: u64

record options =
  op_controller_id :: u64
  op_adapter :: u32
  op_segment_id :: u32
  op_controller_path :: "string option"
  op_namespace_id :: u32
  op_num_blocks :: u64
  op_offset :: u64
  op_output :: "string option"
  op_ascii :: bool

text \<open>The structs on the stack hold \<open>junk\<close> before they are filled in.\<close>

definition get_disk_info ::
  "device \<Rightarrow> 'b remote_stub \<Rightarrow> u64 \<Rightarrow> nvm_ctrl_info \<Rightarrow> nvm_ns_info \<Rightarrow> ('h, 'b) nvm_admin_reference \<Rightarrow> disk_info \<Rightarrow> u32 \<Rightarrow> u64 \<Rightarrow> u64 \<Rightarrow> os \<Rightarrow> world
     \<Rightarrow> (int \<times> disk_info \<times> ('h, 'b) nvm_admin_reference \<times> os \<times> world) option" where
  "get_disk_info dev remote cpl_ptr junk junk' ref info ns_id ptr ioaddr s w =
     do { (status, ctrl_info, ref, s, w) \<leftarrow> nvm_admin_ctrl_info dev remote cpl_ptr ref (Some junk) ptr ioaddr s w;
          if \<not> nvm_ok status then Some (status, info, ref, s, w)
          else
            do { ctrl_info \<leftarrow> ctrl_info;
                 let info = info\<lparr>di_page_size := i_page_size ctrl_info, di_max_data_size := i_max_data_size ctrl_info\<rparr>;
                 (status, ns_info, ref, s, w) \<leftarrow> nvm_admin_ns_info dev remote cpl_ptr ref (Some junk') ns_id ptr ioaddr s w;
                 if \<not> nvm_ok status then Some (status, info, ref, s, w)
                 else
                   do { ns_info \<leftarrow> ns_info;
                        Some (0, info\<lparr>di_ns_id := n_ns_id ns_info, di_block_size := n_lba_data_size ns_info\<rparr>, ref, s, w) } } }"

definition create_queue_pair ::
  "device \<Rightarrow> 'b remote_stub \<Rightarrow> u64 \<Rightarrow> ('h, 'b) nvm_admin_reference \<Rightarrow> queue_pair \<Rightarrow> nvm_dma \<Rightarrow> nvm_dma \<Rightarrow> os \<Rightarrow> world
     \<Rightarrow> (int \<times> queue_pair \<times> ('h, 'b) nvm_admin_reference \<times> os \<times> world) option" where
  "create_queue_pair dev remote cpl_ptr ref qp cq_mem sq_mem s w =
     do { (status, _, _, ref, s, w) \<leftarrow> nvm_admin_set_num_queues dev remote cpl_ptr ref 1 1 s w;
          if \<not> nvm_ok status then Some (status, qp, ref, s, w)
          else
            do { let w = w\<lparr>w_mem := memset (d_vaddr cq_mem) 0 (unat (d_page_size cq_mem)) (w_mem w)\<rparr>;
                 cq_io \<leftarrow> first_ioaddr cq_mem;
                 (status, cq, ref, s, w) \<leftarrow> nvm_admin_cq_create dev remote cpl_ptr ref (qp_cq qp) 2 (d_vaddr cq_mem) cq_io s w;
                 let qp = qp\<lparr>qp_cq := cq\<rparr>;
                 if \<not> nvm_ok status then Some (status, qp, ref, s, w)
                 else
                   do { let w = w\<lparr>w_mem := memset (d_vaddr sq_mem) 0 (unat (d_page_size cq_mem)) (w_mem w)\<rparr>;
                        sq_io \<leftarrow> first_ioaddr sq_mem;
                        (status, sq, ref, s, w) \<leftarrow> nvm_admin_sq_create dev remote cpl_ptr ref (qp_sq qp) (qp_cq qp) 2 (d_vaddr sq_mem) sq_io s w;
                        let qp = qp\<lparr>qp_sq := sq\<rparr>;
                        if \<not> nvm_ok status then Some (status, qp, ref, s, w)
                        else Some (0, qp\<lparr>qp_sq_mem := sq_mem, qp_cq_mem := cq_mem, qp_stop := False, qp_num_cpls := 0\<rparr>, ref, s, w) } } }"

section \<open>Receiving completions\<close>

text \<open>One round of the thread that receives completions.  A status that is not OK is only printed.\<close>

definition consume_completion :: "device \<Rightarrow> queue_pair \<Rightarrow> world \<Rightarrow> queue_pair \<times> world" where
  "consume_completion dev qp w =
     (case nvm_cq_dequeue_block dev (qp_cq qp) 100 w of (cpl, cq, w) \<Rightarrow>
        let qp = qp\<lparr>qp_cq := cq\<rparr> in
        if cpl = NULL then (qp, w)
        else
          let qp = qp\<lparr>qp_sq := nvm_sq_update (qp_sq qp)\<rparr> in
          (case nvm_cq_update dev (qp_cq qp) w of (cq, w) \<Rightarrow>
             (qp\<lparr>qp_cq := cq, qp_num_cpls := qp_num_cpls qp + 1\<rparr>, w)))"

section \<open>Issuing commands\<close>

record read_state =
  rs_page :: u64
  rs_num_cmds :: u64
  rs_num_pages :: u64
  rs_qp :: queue_pair
  rs_world :: world

definition read_command ::
  "bool \<Rightarrow> disk_info \<Rightarrow> queue_pair \<Rightarrow> nvm_dma \<Rightarrow> options \<Rightarrow> u64 \<Rightarrow> u64 \<Rightarrow> u64 \<Rightarrow> mem \<Rightarrow> (u64 \<times> mem) option" where
  "read_command ndebug disk qp buffer args cmd page num_pages m =
     do { let prp_list = load16 m (NVM_CMD_CID cmd) mod q_max_entries (qp_sq qp) + 1;
          if di_block_size disk = 0 then None
          else
            do { let num_blocks = NVM_PAGE_TO_BLOCK (di_page_size disk) (di_block_size disk) num_pages;
                 let start_block = op_offset args + NVM_PAGE_TO_BLOCK (di_page_size disk) (di_block_size disk) page;
                 let m = slot_update cmd (\<lambda>c. nvm_cmd_header c (io_opcode NVM_IO_READ) (di_ns_id disk)) m;
                 list_io \<leftarrow> (if unat prp_list < length (d_ioaddrs (qp_sq_mem qp)) then Some (d_ioaddrs (qp_sq_mem qp) ! unat prp_list) else None);
                 (n, c, m) \<leftarrow> nvm_cmd_data ndebug (load_dwords m cmd 16) (di_page_size disk) (unat num_pages)
                   (NVM_DMA_OFFSET (qp_sq_mem qp) (ucast prp_list)) list_io (drop (unat page) (d_ioaddrs buffer)) m;
                 let m = store_dwords cmd c m;
                 let m = slot_update cmd (\<lambda>c. nvm_cmd_rw_blks c start_block (ucast num_blocks)) m;
                 Some (of_nat n, m) } }"

definition read_more :: "nvm_dma \<Rightarrow> read_state \<Rightarrow> bool" where
  "read_more buffer s \<longleftrightarrow> 0 < d_n_ioaddrs buffer - rs_page s"

definition read_step ::
  "bool \<Rightarrow> others \<Rightarrow> device \<Rightarrow> disk_info \<Rightarrow> nvm_dma \<Rightarrow> options \<Rightarrow> read_state \<Rightarrow> read_state option" where
  "read_step ndebug oth dev disk buffer args s =
     do { let num_pages = (if d_n_ioaddrs buffer - rs_page s < rs_num_pages s then d_n_ioaddrs buffer - rs_page s else rs_num_pages s);
          (cmd, sq, k, w) \<leftarrow> sq_enqueue_wait oth dev (qp_sq (rs_qp s)) 0 (rs_world s);
          let qp = (rs_qp s)\<lparr>qp_sq := sq, qp_num_cpls := qp_num_cpls (rs_qp s) + of_nat k\<rparr>;
          (n, m) \<leftarrow> read_command ndebug disk qp buffer args cmd (rs_page s) num_pages (w_mem w);
          Some (s\<lparr>rs_page := rs_page s + n, rs_num_cmds := rs_num_cmds s + 1, rs_num_pages := num_pages, rs_qp := qp,
            rs_world := w\<lparr>w_mem := m\<rparr>\<rparr>) }"

partial_function (option) read_loop ::
  "bool \<Rightarrow> others \<Rightarrow> device \<Rightarrow> disk_info \<Rightarrow> nvm_dma \<Rightarrow> options \<Rightarrow> read_state \<Rightarrow> read_state option" where
  "read_loop ndebug oth dev disk buffer args s =
     (if read_more buffer s
      then read_step ndebug oth dev disk buffer args s \<bind> read_loop ndebug oth dev disk buffer args
      else Some s)"

text \<open>The loop that waits until as many completions were received as commands were issued.\<close>

partial_function (option) wait_completions :: "others \<Rightarrow> u64 \<Rightarrow> queue_pair \<Rightarrow> world \<Rightarrow> (queue_pair \<times> world) option" where
  "wait_completions oth num_cmds qp w =
     (if qp_num_cpls qp < num_cmds then
        (case meanwhile oth (qp_sq qp) w of (k, sq, w) \<Rightarrow>
           wait_completions oth num_cmds (qp\<lparr>qp_sq := sq, qp_num_cpls := qp_num_cpls qp + of_nat k\<rparr>) w)
      else Some (qp, w))"

section \<open>Dumping the buffer\<close>

datatype dump = Not_opened | To_file string "u8 list" | To_stdout "(u64 \<times> u8 list) list"

partial_function (option) dump_rows :: "bool \<Rightarrow> mem \<Rightarrow> u64 \<Rightarrow> u64 \<Rightarrow> u64 \<Rightarrow> (u64 \<times> u8 list) list option" where
  "dump_rows ascii m ptr byte sz =
     (if byte < sz then
        let n = byte + (if ascii then 0x80 else 0x20);
            len = (if byte < n then unat (n - byte) else 0);
            show_byte = (\<lambda>v. if ascii \<and> \<not> (0x20 \<le> v \<and> v \<le> 0x7e) then 0x20 else v) in
        do { rows \<leftarrow> dump_rows ascii m ptr (byte + of_nat len) sz;
             Some ((byte, map show_byte (load_bytes m (ptr + byte) len)) # rows) }
      else Some [])"

definition dump_memory :: "nvm_dma \<Rightarrow> options \<Rightarrow> u64 \<Rightarrow> mem \<Rightarrow> os \<Rightarrow> (dump \<times> os) option" where
  "dump_memory buffer args sz m s =
     (case op_output args of
        Some path \<Rightarrow>
          (case sys_call s of (err, s) \<Rightarrow>
             if err \<noteq> 0 then Some (Not_opened, s) else Some (To_file path (load_bytes m (d_vaddr buffer) (unat sz)), s))
      | None \<Rightarrow> map_option (\<lambda>rows. (To_stdout rows, s)) (dump_rows (op_ascii args) m (d_vaddr buffer) 0 sz))"

definition read_and_dump ::
  "bool \<Rightarrow> others \<Rightarrow> device \<Rightarrow> disk_info \<Rightarrow> queue_pair \<Rightarrow> nvm_dma \<Rightarrow> options \<Rightarrow> os \<Rightarrow> world
     \<Rightarrow> (int \<times> dump option \<times> queue_pair \<times> os \<times> world) option" where
  "read_and_dump ndebug oth dev disk qp buffer args s w =
     (case sys_call s of (status, s) \<Rightarrow>
        if status \<noteq> 0 then Some (status, None, qp, s, w)
        else if di_page_size disk = 0 then None
        else
          do { let m = memset (NVM_DMA_OFFSET (qp_sq_mem qp) 1) 0
                 (unat (d_page_size (qp_sq_mem qp) * (d_n_ioaddrs (qp_sq_mem qp) - 1))) (w_mem w);
               r \<leftarrow> read_loop ndebug oth dev disk buffer args
                 \<lparr>rs_page = 0, rs_num_cmds = 0, rs_num_pages = di_max_data_size disk div di_page_size disk, rs_qp = qp,
                  rs_world = w\<lparr>w_mem := m\<rparr>\<rparr>;
               let (sq, w) = nvm_sq_submit dev (qp_sq (rs_qp r)) (rs_world r);
               (qp, w) \<leftarrow> wait_completions oth (rs_num_cmds r) ((rs_qp r)\<lparr>qp_sq := sq\<rparr>) w;
               let qp = qp\<lparr>qp_stop := True\<rparr>;
               (d, s) \<leftarrow> dump_memory buffer args (op_num_blocks args * di_block_size disk) (w_mem w) s;
               Some (0, Some d, qp, s, w) })"


section \<open>One command\<close>

lemma read_command_spec:
  assumes win: "io_window (qp_sq_mem qp) q0" "0 < q_n q0" and sq: "q_max_entries (qp_sq qp) = q_max_entries q0"
    and ps: "d_page_size (qp_sq_mem qp) = di_page_size disk"
    and cid: "load16 m (NVM_CMD_CID (slot_of q0 i)) = of_nat ((i + 1) mod (2 * q_n q0))"
    and bs: "di_block_size disk \<noteq> 0"
    and np: "num_pages \<noteq> 0" "unat num_pages \<le> length (drop (unat page) (d_ioaddrs buffer))"
    and k: "k = min (unat num_pages) (1 + unat (di_page_size disk) div 8)"
  shows "\<exists>m'. read_command ndebug disk qp buffer args (slot_of q0 i) page num_pages m = Some (of_nat k, m')
    \<and> (\<forall>x. x \<notin> cmd_bytes (qp_sq_mem qp) q0 k i \<longrightarrow> m' x = m x)
    \<and> slot_holds (qp_sq_mem qp) q0 m' i k
       (2, di_ns_id disk, op_offset args + NVM_PAGE_TO_BLOCK (di_page_size disk) (di_block_size disk) page,
        ucast ((ucast (NVM_PAGE_TO_BLOCK (di_page_size disk) (di_block_size disk) num_pages) :: u16) - 1),
        take k (drop (unat page) (d_ioaddrs buffer)))"
proof -
  let ?p = "slot_of q0 i" and ?l = "list_of (qp_sq_mem qp) q0 i" and ?io = "drop (unat page) (d_ioaddrs buffer)" and ?np = "unat num_pages"
  let ?cid = "of_nat ((i + 1) mod (2 * q_n q0)) :: u16"
  let ?nb = "ucast (NVM_PAGE_TO_BLOCK (di_page_size disk) (di_block_size disk) num_pages) :: u16"
  let ?lba = "op_offset args + NVM_PAGE_TO_BLOCK (di_page_size disk) (di_block_size disk) page"
  note li = list_index [OF win refl, of i]
  let ?li = "d_ioaddrs (qp_sq_mem qp) ! unat (?cid mod q_max_entries q0 + 1)"
  have np0: "0 < ?np" using np(1) by (simp add: unat_gt_0)
  have "64 * 1 \<le> 64 * q_n q0" using win(2) by (intro mult_le_mono2) simp
  then have p16: "16 \<le> unat (di_page_size disk)" using win(1) ps by (simp add: io_window_def)
  have "k - 1 \<le> unat (di_page_size disk) div 8" using k by simp
  then have b: "8 * (k - 1) \<le> unat (d_page_size (qp_sq_mem qp))" using ps by (simp add: less_eq_div_iff_mult_less_eq mult.commute)
  define h where "h = (\<lambda>c. nvm_cmd_header c (io_opcode NVM_IO_READ) (di_ns_id disk))"
  define m1 where "m1 = slot_update ?p h m"
  have l1: "load_dwords m1 ?p 16 = h (load_dwords m ?p 16)" unfolding m1_def by (rule load_slot_update) (simp add: h_def)
  from nvm_cmd_data_frame [OF np0 np(2) list_of_at(3) [OF win, of i] p16 k, of ndebug "load_dwords m1 ?p 16" ?li m1] obtain p2 m2 where
    d: "nvm_cmd_data ndebug (load_dwords m1 ?p 16) (di_page_size disk) ?np ?l ?li ?io m1 = Some (k, nvm_cmd_data_ptr (load_dwords m1 ?p 16) (?io ! 0) p2, m2)"
    and pp: "\<forall>c. cmd_prp1 c = ?io ! 0 \<and> cmd_prp2 c = p2 \<longrightarrow> prp_pages c m2 ?l k = take k ?io"
    and p2: "2 < k \<longrightarrow> p2 = ?li" and fr: "\<And>x. \<not> in_range ?l (8 * (k - 1)) x \<Longrightarrow> m2 x = m1 x" by blast
  define c where "c = nvm_cmd_data_ptr (h (load_dwords m ?p 16)) (?io ! 0) p2"
  define m3 where "m3 = store_dwords ?p c m2"
  define m4 where "m4 = slot_update ?p (\<lambda>c. nvm_cmd_rw_blks c ?lba ?nb) m3"
  have len: "length c = 16" by (simp add: c_def h_def)
  have l3: "load_dwords m3 ?p 16 = c" unfolding m3_def by (rule load_store_slot [OF len])
  have l4: "load_dwords m4 ?p 16 = nvm_cmd_rw_blks c ?lba ?nb"
    unfolding m4_def by (subst load_slot_update) (simp_all add: l3 len)
  have o4: "\<forall>x. \<not> in_range ?p 64 x \<longrightarrow> m4 x = m2 x"
    using len by (simp add: m4_def slot_update_other l3) (simp add: m3_def store_slot_other)
  have o1: "m1 x = m x" if "\<not> in_range ?p 64 x" for x
    using that unfolding m1_def by (subst slot_update_other) (simp_all add: h_def)
  have r: "read_command ndebug disk qp buffer args ?p page num_pages m = Some (of_nat k, m4)"
    using bs li(2,3) d l1 unfolding read_command_def Let_def cid sq
    by (simp add: h_def [symmetric] m1_def [symmetric] c_def [symmetric] m3_def [symmetric] m4_def [symmetric] del: io_opcode.simps)
  have fr2: "\<forall>x. \<not> in_range ?p 64 x \<and> \<not> in_range ?l (8 * (k - 1)) x \<longrightarrow> m2 x = m x" using fr o1 by simp
  have "nvm_cmd_rw_blks c ?lba ?nb =
      nvm_cmd_rw_blks (nvm_cmd_data_ptr (nvm_cmd_header (load_dwords m ?p 16) (io_opcode NVM_IO_READ) (di_ns_id disk)) (?io ! 0) p2) ?lba ?nb"
    by (simp add: c_def h_def)
  note w = command_written [OF win b l4 o4 fr2 load_dwords_length disjI1 [OF this] pp p2 [unfolded li(4)]]
  have "ucast (io_opcode NVM_IO_READ AND 0x7f) = (2 :: u64)" by simp
  with r w show ?thesis by (intro exI [of _ m4]) (simp only: simp_thms)
qed


section \<open>The whole buffer\<close>

text \<open>
  What a transfer starts from: a new submission queue with its lists, a buffer with an address for every
  page, a block size that divides the page size, and a transfer size that fits one PRP list and the block
  count of a command.  Of the other thread and the controller it relies on what is said above.
\<close>

abbreviation max_pages :: "disk_info \<Rightarrow> nat" where
  "max_pages disk \<equiv> unat (di_max_data_size disk div di_page_size disk)"

abbreviation blocks_per_page :: "disk_info \<Rightarrow> nat" where
  "blocks_per_page disk \<equiv> unat (di_page_size disk) div unat (di_block_size disk)"

definition read_ready :: "disk_info \<Rightarrow> queue_pair \<Rightarrow> nvm_dma \<Rightarrow> others \<Rightarrow> device \<Rightarrow> bool" where
  "read_ready disk qp buffer oth dev \<longleftrightarrow>
     sq_live (qp_sq qp) \<and> sq_counts 0 (qp_sq qp) \<and> in_flight (qp_sq qp) = 0 \<and> qp_num_cpls qp = 0
     \<and> io_env (qp_sq_mem qp) (qp_sq qp) oth dev \<and> d_page_size (qp_sq_mem qp) = di_page_size disk
     \<and> length (d_ioaddrs buffer) = unat (d_n_ioaddrs buffer)
     \<and> split_ok (di_page_size disk) (di_block_size disk) (max_pages disk) (length (d_ioaddrs buffer))"

lemma read_readyD:
  assumes "read_ready disk qp buffer oth dev"
  shows "length (d_ioaddrs buffer) = unat (d_n_ioaddrs buffer)" "io_env (qp_sq_mem qp) (qp_sq qp) oth dev"
    "d_page_size (qp_sq_mem qp) = di_page_size disk"
    "split_ok (di_page_size disk) (di_block_size disk) (max_pages disk) (length (d_ioaddrs buffer))"
    "0 < max_pages disk" "di_page_size disk \<noteq> 0" "retires_submitted oth" "fair oth"
  using assms split_okD(2,4) by (auto simp: read_ready_def io_env_def)

definition read_inv :: "disk_info \<Rightarrow> queue_pair \<Rightarrow> nvm_dma \<Rightarrow> options \<Rightarrow> others \<Rightarrow> device \<Rightarrow> nat \<Rightarrow> read_state \<Rightarrow> bool" where
  "read_inv disk qp buffer args oth dev i s \<longleftrightarrow>
     (let sq = qp_sq (rs_qp s); T = unat (d_n_ioaddrs buffer); P = max_pages disk in
      read_ready disk qp buffer oth dev
      \<and> issued (qp_sq_mem qp) (qp_sq qp) (chunk P T)
          (io_request 2 (di_ns_id disk) (op_offset args) (blocks_per_page disk) (d_ioaddrs buffer) P) i sq (w_mem (rs_world s))
      \<and> qp_sq_mem (rs_qp s) = qp_sq_mem qp \<and> rs_page s = of_nat (min T (i * P)) \<and> (i < n_chunks P T \<longrightarrow> unat (rs_num_pages s) = P)
      \<and> rs_num_cmds s = of_nat i \<and> qp_num_cpls (rs_qp s) = of_nat (i - in_flight sq))"

lemma read_inv_step:
  assumes inv: "read_inv disk qp buffer args oth dev i s" and i: "i < n_chunks (max_pages disk) (length (d_ioaddrs buffer))"
  shows "read_more buffer s \<and> (\<exists>s'. read_step ndebug oth dev disk buffer args s = Some s' \<and> read_inv disk qp buffer args oth dev (Suc i) s')"
proof -
  define P where "P = max_pages disk"
  define req where "req = io_request 2 (di_ns_id disk) (op_offset args) (blocks_per_page disk) (d_ioaddrs buffer) P"
  let ?q0 = "qp_sq qp" and ?mem = "qp_sq_mem qp" and ?sq = "qp_sq (rs_qp s)" and ?T = "unat (d_n_ioaddrs buffer)"
  have ready: "read_ready disk qp buffer oth dev" using inv by (simp add: read_inv_def Let_def)
  note T = read_readyD(1) [OF ready] and env = read_readyD(2) [OF ready] and ps = read_readyD(3) [OF ready]
    and split = read_readyD(4) [OF ready, folded P_def]
  note sp = split_okD [OF split]
  from inv i T have st: "issued ?mem ?q0 (chunk P ?T) req i ?sq (w_mem (rs_world s))" and iv: "qp_sq_mem (rs_qp s) = ?mem"
    "rs_page s = of_nat (min ?T (i * P))" "unat (rs_num_pages s) = P" "rs_num_cmds s = of_nat i" "qp_num_cpls (rs_qp s) = of_nat (i - in_flight ?sq)"
    by (simp_all add: read_inv_def Let_def P_def req_def)
  have i': "i < n_chunks P ?T" using i T by (simp add: P_def)
  define np where "np = (if d_n_ioaddrs buffer - rs_page s < rs_num_pages s then d_n_ioaddrs buffer - rs_page s else rs_num_pages s)"
  note c = split_counter [OF sp(4) i' iv(2,3) np_def]
  note ch = chunk_pos [OF sp(4) i']
  obtain q' k w' where wait: "sq_enqueue_wait oth dev ?sq 0 (rs_world s) = Some (slot_of ?q0 i, q', k, w')" "k \<le> in_flight ?sq"
    "in_flight q' = Suc (in_flight ?sq - k)" "same_place q' ?q0"
    "load16 (w_mem w') (NVM_CMD_CID (slot_of ?q0 i)) = of_nat ((i + 1) mod (2 * q_n ?q0))"
    and issue: "\<And>m'. \<forall>x. x \<notin> cmd_bytes ?mem ?q0 (chunk P ?T i) i \<longrightarrow> m' x = w_mem w' x \<Longrightarrow>
       slot_holds ?mem ?q0 m' i (chunk P ?T i) (req i) \<Longrightarrow> issued ?mem ?q0 (chunk P ?T) req (Suc i) q' m'"
    using issue_command [OF env st] sp(8) T ps by metis
  let ?qp = "(rs_qp s)\<lparr>qp_sq := q', qp_num_cpls := qp_num_cpls (rs_qp s) + of_nat k\<rparr>"
  have mem: "qp_sq_mem ?qp = ?mem" "io_window ?mem ?q0" using iv(1) env by (simp_all add: io_env_def)
  have "\<exists>m'. read_command ndebug disk ?qp buffer args (slot_of ?q0 i) (rs_page s) np (w_mem w') = Some (of_nat (chunk P ?T i), m')
    \<and> (\<forall>x. x \<notin> cmd_bytes (qp_sq_mem ?qp) ?q0 (chunk P ?T i) i \<longrightarrow> m' x = w_mem w' x)
    \<and> slot_holds (qp_sq_mem ?qp) ?q0 m' i (chunk P ?T i)
       (2, di_ns_id disk, op_offset args + NVM_PAGE_TO_BLOCK (di_page_size disk) (di_block_size disk) (rs_page s),
        ucast ((ucast (NVM_PAGE_TO_BLOCK (di_page_size disk) (di_block_size disk) np) :: u16) - 1),
        take (chunk P ?T i) (drop (unat (rs_page s)) (d_ioaddrs buffer)))"
    by (rule read_command_spec) (use mem ps wait(4,5) issuedD(6) [OF st] sp(1) sp(10) c ch T in \<open>auto simp: same_place_def\<close>)
  then obtain m' where cmd: "read_command ndebug disk ?qp buffer args (slot_of ?q0 i) (rs_page s) np (w_mem w') = Some (np, m')"
    and "\<forall>x. x \<notin> cmd_bytes ?mem ?q0 (chunk P ?T i) i \<longrightarrow> m' x = w_mem w' x"
    and "slot_holds ?mem ?q0 m' i (chunk P ?T i) (req i)"
    unfolding mem(1) c(1,7) using split_request [OF split i' [folded T] c(1) c(2) [folded T]] by (auto simp: req_def T)
  then have st': "issued ?mem ?q0 (chunk P ?T) req (Suc i) q' m'" by (intro issue)
  let ?s = "s\<lparr>rs_page := rs_page s + np, rs_num_cmds := rs_num_cmds s + 1, rs_num_pages := np, rs_qp := ?qp, rs_world := w'\<lparr>w_mem := m'\<rparr>\<rparr>"
  have step: "read_step ndebug oth dev disk buffer args s = Some ?s"
    using wait(1) cmd by (simp add: read_step_def Let_def np_def [symmetric])
  have "Suc i - in_flight q' = (i - in_flight ?sq) + k" using wait(2,3) issuedD(4) [OF st] by simp
  then have "qp_num_cpls (rs_qp s) + of_nat k = of_nat (Suc i - in_flight q')" using iv(5) by simp
  then have "read_inv disk qp buffer args oth dev (Suc i) ?s"
    unfolding read_inv_def Let_def P_def [symmetric] req_def [symmetric] using ready st' iv(1,4) c(4,5) by simp
  moreover have "read_more buffer s" using c(3) by (simp add: read_more_def word_neq_0_conv [symmetric])
  ultimately show ?thesis using step by blast
qed

text \<open>The loop of \<open>read_and_dump\<close> is a loop that issues commands.\<close>

interpretation reading: command_loop "read_more buffer" "read_step ndebug oth dev disk buffer args"
  "read_loop ndebug oth dev disk buffer args" "read_inv disk qp buffer args oth dev"
  "n_chunks (max_pages disk) (length (d_ioaddrs buffer))"
  for ndebug oth dev disk qp buffer args
proof
  show "read_loop ndebug oth dev disk buffer args s =
      (if read_more buffer s then read_step ndebug oth dev disk buffer args s \<bind> read_loop ndebug oth dev disk buffer args else Some s)" for s
    by (rule read_loop.simps)
  show "read_inv disk qp buffer args oth dev i s \<Longrightarrow> i < n_chunks (max_pages disk) (length (d_ioaddrs buffer)) \<Longrightarrow>
      read_more buffer s \<and> (\<exists>s'. read_step ndebug oth dev disk buffer args s = Some s' \<and> read_inv disk qp buffer args oth dev (Suc i) s')" for i s
    by (rule read_inv_step)
  fix s assume "read_inv disk qp buffer args oth dev (n_chunks (max_pages disk) (length (d_ioaddrs buffer))) s"
  then have r: "read_ready disk qp buffer oth dev"
    and "rs_page s = of_nat (min (unat (d_n_ioaddrs buffer)) (n_chunks (max_pages disk) (length (d_ioaddrs buffer)) * max_pages disk))"
    by (simp_all add: read_inv_def Let_def)
  from split_counter_end [OF read_readyD(5) [OF r]] this(2) have "rs_page s = d_n_ioaddrs buffer" unfolding read_readyD(1) [OF r] .
  then show "\<not> read_more buffer s" by (simp add: read_more_def)
qed


section \<open>Receiving all completions\<close>

lemma wait_progress:
  assumes live: "sq_live (qp_sq qp)" and sub: "submitted (qp_sq qp) \<noteq> 0" and more: "qp_num_cpls qp < num_cmds"
    and oth: "retires_submitted oth" and t': "\<forall>q m. submitted q \<noteq> 0 \<longrightarrow> fst (oth t' q m) \<noteq> 0"
  shows "w_tick w \<le> t' \<Longrightarrow> \<exists>k w'. k \<noteq> 0 \<and> k \<le> submitted (qp_sq qp) \<and>
    wait_completions oth num_cmds qp w =
      wait_completions oth num_cmds (qp\<lparr>qp_sq := (nvm_sq_update ^^ k) (qp_sq qp), qp_num_cpls := qp_num_cpls qp + of_nat k\<rparr>) w'"
proof (induction "t' - w_tick w" arbitrary: w rule: less_induct)
  case less
  have kp: "keeps {} oth (\<lambda>_ m. m)" by (simp add: keeps_def)
  show ?case
  proof (rule meanwhile_cases [OF live oth kp, of w])
    fix k w' assume m: "meanwhile oth (qp_sq qp) w = (k, (nvm_sq_update ^^ k) (qp_sq qp), w')"
      "k = fst (oth (w_tick w) (qp_sq qp) (w_mem w))" "k \<le> submitted (qp_sq qp)" "w_tick w' = Suc (w_tick w)"
    have e: "wait_completions oth num_cmds qp w =
        wait_completions oth num_cmds (qp\<lparr>qp_sq := (nvm_sq_update ^^ k) (qp_sq qp), qp_num_cpls := qp_num_cpls qp + of_nat k\<rparr>) w'"
      using more m(1) by (subst wait_completions.simps) simp
    show ?thesis
    proof (cases "k = 0")
      case True
      then have "w_tick w \<noteq> t'" using t' sub m(2) by metis
      then have "t' - w_tick w' < t' - w_tick w" "w_tick w' \<le> t'" using less.prems m(4) by simp_all
      from less.hyps [OF this] e True show ?thesis by simp
    next
      case False
      with e m(3) show ?thesis by blast
    qed
  qed
qed

lemma wait_completions_ends:
  assumes oth: "retires_submitted oth" "fair oth" and N: "N < 2 ^ 64"
  shows "sq_live (qp_sq qp) \<Longrightarrow> q_last (qp_sq qp) = q_tail (qp_sq qp) \<Longrightarrow> in_flight (qp_sq qp) = f \<Longrightarrow> f \<le> N \<Longrightarrow>
    qp_num_cpls qp = of_nat (N - f) \<Longrightarrow>
    \<exists>qp' w'. wait_completions oth (of_nat N) qp w = Some (qp', w') \<and> qp_num_cpls qp' = of_nat N \<and> in_flight (qp_sq qp') = 0"
proof (induction f arbitrary: qp w rule: less_induct)
  case (less f)
  show ?case
  proof (cases "f = 0")
    case True
    then show ?thesis using less.prems by (subst wait_completions.simps) simp
  next
    case False
    have "unat (of_nat (N - f) :: u64) = N - f" "unat (of_nat N :: u64) = N" using N by (simp_all add: unat_of_nat_small)
    then have more: "qp_num_cpls qp < of_nat N" using False less.prems(4,5) by (simp add: word_less_nat_alt)
    have sub: "submitted (qp_sq qp) = f" using less.prems(2,3) by (simp add: submitted_def in_flight_def)
    from oth(2) obtain t' where t': "w_tick w \<le> t'" "\<forall>q m. submitted q \<noteq> 0 \<longrightarrow> fst (oth t' q m) \<noteq> 0"
      unfolding fair_def by blast
    from wait_progress [OF less.prems(1) _ more oth(1) t'(2,1)] sub False obtain k w' where k: "k \<noteq> 0" "k \<le> submitted (qp_sq qp)"
      and e: "wait_completions oth (of_nat N) qp w =
        wait_completions oth (of_nat N) (qp\<lparr>qp_sq := (nvm_sq_update ^^ k) (qp_sq qp), qp_num_cpls := qp_num_cpls qp + of_nat k\<rparr>) w'" by auto
    have "N - (f - k) = (N - f) + k" using k(2) sub less.prems(4) by simp
    then have "qp_num_cpls qp + of_nat k = of_nat (N - (f - k))" using less.prems(5) by simp
    then show ?thesis
      unfolding e using sq_live_retire [OF less.prems(1) k(2)] k sub False less.prems
      by (intro less.IH [of "f - k"]) auto
  qed
qed

section \<open>The dump\<close>

definition shown :: "bool \<Rightarrow> u8 \<Rightarrow> u8" where
  "shown ascii v = (if ascii \<and> \<not> (0x20 \<le> v \<and> v \<le> 0x7e) then 0x20 else v)"

definition row_len :: "bool \<Rightarrow> nat" where
  "row_len ascii = (if ascii then 128 else 32)"

lemma load_bytes_append: "load_bytes m a (j + k) = load_bytes m a j @ load_bytes m (a + of_nat j) k"
  by (rule nth_equalityI) (auto simp: load_bytes_def nth_append add.assoc simp flip: of_nat_add)

lemma dump_rows_bytes:
  "j * row_len ascii = unat sz - unat byte \<Longrightarrow> byte \<le> sz \<Longrightarrow> unat sz + 128 \<le> 2 ^ 64 \<Longrightarrow>
   \<exists>rows. dump_rows ascii m ptr byte sz = Some rows \<and> concat (map snd rows) = map (shown ascii) (load_bytes m (ptr + byte) (unat sz - unat byte))"
proof (induction j arbitrary: byte)
  case 0
  then have "byte = sz" by (simp add: word_le_nat_alt word_unat_eq_iff)
  then show ?case by (subst dump_rows.simps) (simp add: load_bytes_def)
next
  case (Suc j)
  have lt: "byte < sz" using Suc.prems(1,2) by (auto simp: word_less_nat_alt word_le_nat_alt row_len_def split: if_splits)
  let ?n = "byte + (if ascii then 0x80 else 0x20)"
  have r: "row_len ascii \<le> unat sz - unat byte" using Suc.prems(1) by (metis le_add1 mult_Suc)
  have un: "unat ?n = unat byte + row_len ascii"
    using Suc.prems(3) r by (auto simp: row_len_def unat_word_ariths)
  have len: "(if byte < ?n then unat (?n - byte) else 0) = row_len ascii"
    using un by (auto simp: word_less_nat_alt row_len_def)
  have b: "byte + of_nat (row_len ascii) = ?n" by (simp add: row_len_def)
  have "j * row_len ascii = unat sz - unat ?n" using Suc.prems(1) un by simp
  moreover have "?n \<le> sz" using un r lt by (simp add: word_le_nat_alt word_less_nat_alt)
  ultimately obtain rows where rows: "dump_rows ascii m ptr ?n sz = Some rows"
    "concat (map snd rows) = map (shown ascii) (load_bytes m (ptr + ?n) (unat sz - unat ?n))" using Suc.IH Suc.prems(3) by blast
  have "dump_rows ascii m ptr byte sz = Some ((byte, map (shown ascii) (load_bytes m (ptr + byte) (row_len ascii))) # rows)"
    using lt rows(1) len b by (subst dump_rows.simps) (simp add: Let_def shown_def [abs_def])
  moreover have "unat sz - unat byte = row_len ascii + (unat sz - unat ?n)" using un r by simp
  then have "load_bytes m (ptr + byte) (unat sz - unat byte) =
      load_bytes m (ptr + byte) (row_len ascii) @ load_bytes m (ptr + ?n) (unat sz - unat ?n)"
    using load_bytes_append [of m "ptr + byte" "row_len ascii"] b by (simp add: add.assoc)
  ultimately show ?case using rows(2) by simp
qed


section \<open>The thread that receives completions\<close>

text \<open>
  A round of that thread retires one command and counts it, or does nothing to the submission queue:
  what the thread that issues commands sees of it is \<open>meanwhile\<close> with one or no command retired.
\<close>

lemma consume_completion_retires:
  "\<exists>k \<le> 1. qp_sq (fst (consume_completion dev qp w)) = (nvm_sq_update ^^ k) (qp_sq qp)
     \<and> qp_num_cpls (fst (consume_completion dev qp w)) = qp_num_cpls qp + of_nat k
     \<and> qp_sq_mem (fst (consume_completion dev qp w)) = qp_sq_mem qp"
proof -
  obtain cpl cq w1 where d: "nvm_cq_dequeue_block dev (qp_cq qp) 100 w = (cpl, cq, w1)" by (metis prod_cases3)
  show ?thesis
  proof (cases "cpl = NULL")
    case True
    then show ?thesis using d by (intro exI [of _ 0]) (simp add: consume_completion_def)
  next
    case False
    then show ?thesis using d by (intro exI [of _ 1]) (simp add: consume_completion_def Let_def split: prod.splits)
  qed
qed

section \<open>Properties\<close>

lemma read_inv_start:
  assumes "read_ready disk qp buffer oth dev"
  shows "read_inv disk qp buffer args oth dev 0
    \<lparr>rs_page = 0, rs_num_cmds = 0, rs_num_pages = di_max_data_size disk div di_page_size disk, rs_qp = qp, rs_world = w\<rparr>"
proof -
  have "sq_live (qp_sq qp)" "sq_counts 0 (qp_sq qp)" "in_flight (qp_sq qp) = 0" "qp_num_cpls qp = 0"
    using assms by (simp_all add: read_ready_def)
  then show ?thesis using assms by (simp add: read_inv_def issued_start Let_def)
qed

text \<open>
  C8: When a transfer has at most as many pages as a command and one PRP list describe and at most 65536
  blocks (\<open>split_ok\<close>, part of \<open>read_ready\<close>), the loop that reads the buffer ends after one command for every
  \<open>max_pages\<close> pages.  Before every command and at the end, whatever the other thread retired in the meantime,
  each command in flight is complete: a controller that fetches its entry, and for more than two pages the list
  that PRP2 points to on the bus, finds the namespace, the first block, the number of blocks and the addresses of
  its pages, and no later command has overwritten them.  The pages of all commands are the pages of the buffer,
  in order.
\<close>

theorem read_covers_buffer:
  assumes "read_ready disk qp buffer oth dev" "window_maps iommu (qp_sq_mem qp)"
    and "s0 = \<lparr>rs_page = 0, rs_num_cmds = 0, rs_num_pages = di_max_data_size disk div di_page_size disk, rs_qp = qp, rs_world = w\<rparr>"
    and "P = max_pages disk" "ios = d_ioaddrs buffer" "N = n_chunks P (length ios)"
    and "request = io_request 2 (di_ns_id disk) (op_offset args) (blocks_per_page disk) ios P"
  shows "(\<exists>f. f 0 = s0 \<and> (\<forall>i < N. read_step ndebug oth dev disk buffer args (f i) = Some (f (Suc i)))
      \<and> read_loop ndebug oth dev disk buffer args s0 = Some (f N)
      \<and> (\<forall>i \<le> N. \<forall>j < i. i - j \<le> in_flight (qp_sq (rs_qp (f i))) \<longrightarrow>
           bus_fetch iommu (w_mem (rs_world (f i))) (slot_of (qp_sq qp) j) (chunk P (length ios) j) = request j))
    \<and> concat (map (\<lambda>j. snd (snd (snd (snd (request j))))) [0..<N]) = ios"
proof -
  note rd = read_readyD [OF assms(1)]
  have "read_inv disk qp buffer args oth dev 0 s0" unfolding assms(3) by (rule read_inv_start [OF assms(1)])
  from reading.all_states [OF this, of ndebug] obtain f where f: "f 0 = s0"
    "\<forall>i < N. read_step ndebug oth dev disk buffer args (f i) = Some (f (Suc i))" "\<forall>i \<le> N. read_inv disk qp buffer args oth dev i (f i)"
    "read_loop ndebug oth dev disk buffer args s0 = Some (f N)" unfolding assms(4-6) by blast
  have "bus_fetch iommu (w_mem (rs_world (f i))) (slot_of (qp_sq qp) j) (chunk P (length ios) j) = request j"
    if "i \<le> N" "j < i" "i - j \<le> in_flight (qp_sq (rs_qp (f i)))" for i j
  proof -
    have "read_inv disk qp buffer args oth dev i (f i)" using f(3) that(1) by blast
    then have iss: "issued (qp_sq_mem qp) (qp_sq qp) (chunk P (length ios)) request i (qp_sq (rs_qp (f i))) (w_mem (rs_world (f i)))"
      using rd(1) unfolding assms(4,5,7) by (simp add: read_inv_def Let_def)
    have "8 * (chunk P (length ios) j - 1) \<le> unat (d_page_size (qp_sq_mem qp))"
      unfolding rd(3) assms(4,5) by (rule split_okD(8) [OF rd(4)])
    from slot_holds_fetch [OF _ issuedD(6) [OF iss] assms(2) this issuedD(7) [OF iss that(2,3)]] rd(2)
    show ?thesis by (simp add: io_env_def)
  qed
  moreover have P: "0 < P" using rd(5) assms(4) by simp
  then have "length ios \<le> N * P" using n_chunks_iff [OF P, of N "length ios"] assms(6) by (meson not_le order_less_irrefl)
  then have "concat (map (\<lambda>j. snd (snd (snd (snd (request j))))) [0..<N]) = ios"
    using chunks_cover [OF P, of N ios] assms(6,7) by (simp add: io_request_def)
  ultimately show ?thesis using f(1,2,4) by blast
qed

text \<open>
  C20: With a thread that receives completions time and again, \<open>read_and_dump\<close> returns 0 after exactly as
  many completions as commands were issued, with nothing left in flight, and what it prints or writes is
  the content of the buffer at that time.  Only a thread that cannot be started is an error.
\<close>

theorem read_and_dump_returns:
  assumes "read_ready disk qp buffer oth dev" "sys_call s = (status, s1)"
    and "sz = op_num_blocks args * di_block_size disk" "128 dvd unat sz" "unat sz + 128 \<le> 2 ^ 64"
  shows "\<exists>d qp' s' w'. read_and_dump ndebug oth dev disk qp buffer args s w = Some (status, d, qp', s', w') \<and>
    (if status \<noteq> 0 then d = None \<and> qp' = qp \<and> w' = w
     else qp_num_cpls qp' = of_nat (n_chunks (max_pages disk) (length (d_ioaddrs buffer))) \<and> in_flight (qp_sq qp') = 0 \<and> qp_stop qp'
       \<and> (case op_output args of
            Some path \<Rightarrow> d \<in> {Some Not_opened, Some (To_file path (load_bytes (w_mem w') (d_vaddr buffer) (unat sz)))}
          | None \<Rightarrow> \<exists>rows. d = Some (To_stdout rows) \<and>
              concat (map snd rows) = map (shown (op_ascii args)) (load_bytes (w_mem w') (d_vaddr buffer) (unat sz))))"
proof (cases "status = 0")
  case False
  then show ?thesis using assms(2) by (simp add: read_and_dump_def)
next
  case True
  let ?N = "n_chunks (max_pages disk) (length (d_ioaddrs buffer))"
  note rd = read_readyD(5,7,8,1) [OF assms(1)] and ps = read_readyD(6) [OF assms(1)]
  define w1 where "w1 = w\<lparr>w_mem := memset (NVM_DMA_OFFSET (qp_sq_mem qp) 1) 0
    (unat (d_page_size (qp_sq_mem qp) * (d_n_ioaddrs (qp_sq_mem qp) - 1))) (w_mem w)\<rparr>"
  define s0 where "s0 = \<lparr>rs_page = 0, rs_num_cmds = 0, rs_num_pages = di_max_data_size disk div di_page_size disk, rs_qp = qp, rs_world = w1\<rparr>"
  from reading.all_states [OF read_inv_start [OF assms(1), of args w1], of ndebug] obtain r where
    r: "read_loop ndebug oth dev disk buffer args s0 = Some r" "read_inv disk qp buffer args oth dev ?N r" unfolding s0_def by blast
  then have q: "sq_live (qp_sq (rs_qp r))" "rs_num_cmds r = of_nat ?N" "in_flight (qp_sq (rs_qp r)) \<le> ?N"
    "qp_num_cpls (rs_qp r) = of_nat (?N - in_flight (qp_sq (rs_qp r)))" by (auto simp: read_inv_def Let_def dest: issuedD(1,4))
  let ?sq = "(qp_sq (rs_qp r))\<lparr>q_last := q_tail (qp_sq (rs_qp r))\<rparr>"
  obtain w2 where sub: "nvm_sq_submit dev (qp_sq (rs_qp r)) (rs_world r) = (?sq, w2)"
    by (cases "q_last (qp_sq (rs_qp r)) = q_tail (qp_sq (rs_qp r))") (auto simp: nvm_sq_submit_def)
  have N: "?N < 2 ^ 64" using n_chunks_le [OF rd(1), of "length (d_ioaddrs buffer)"] rd(4) unat_u64_less [of "d_n_ioaddrs buffer"] by linarith
  have fl: "in_flight ?sq = in_flight (qp_sq (rs_qp r))" by (simp add: in_flight_def)
  from wait_completions_ends [OF rd(2,3) N, of "(rs_qp r)\<lparr>qp_sq := ?sq\<rparr>" _ w2] sq_live_last(1) [OF q(1)] fl q(3,4) obtain qp' w' where
    wt: "wait_completions oth (of_nat ?N) ((rs_qp r)\<lparr>qp_sq := ?sq\<rparr>) w2 = Some (qp', w')" "qp_num_cpls qp' = of_nat ?N" "in_flight (qp_sq qp') = 0"
    by auto
  have e: "read_and_dump ndebug oth dev disk qp buffer args s w =
      do { (d, s) \<leftarrow> dump_memory buffer args sz (w_mem w') s1; Some (0, Some d, qp'\<lparr>qp_stop := True\<rparr>, s, w') }"
    using True ps r(1) sub wt(1) q(2) assms(2,3)
    by (simp add: read_and_dump_def w1_def [symmetric] s0_def [symmetric])
  show ?thesis
  proof (cases "op_output args")
    case (Some path)
    obtain err s2 where "sys_call s1 = (err, s2)" by (cases "sys_call s1")
    then show ?thesis unfolding e using True Some wt(2,3) by (cases "err = 0") (simp_all add: dump_memory_def)
  next
    case None
    have "row_len (op_ascii args) dvd unat sz" using assms(4) by (auto simp: row_len_def intro: dvd_trans)
    then obtain j where "unat sz = j * row_len (op_ascii args)" by (auto simp: dvd_def mult.commute)
    then obtain rows where "dump_rows (op_ascii args) (w_mem w') (d_vaddr buffer) 0 sz = Some rows"
      "concat (map snd rows) = map (shown (op_ascii args)) (load_bytes (w_mem w') (d_vaddr buffer) (unat sz))"
      using dump_rows_bytes [of j "op_ascii args" sz 0 "w_mem w'" "d_vaddr buffer"] assms(5) by auto
    then show ?thesis unfolding e using True None wt(2,3) by (simp add: dump_memory_def)
  qed
qed


text \<open>
  C33: When the controller allows transfers of more pages than the command and one PRP list describe, the
  command asks for the blocks of all pages but names only the pages that fit, so the controller reads past
  the end of the list; the program goes on with the page after those.
\<close>

theorem read_blocks_exceed_list:
  assumes "io_window (qp_sq_mem qp) q0" "0 < q_n q0" "q_max_entries (qp_sq qp) = q_max_entries q0"
    and "d_page_size (qp_sq_mem qp) = di_page_size disk"
    and "load16 m (NVM_CMD_CID (slot_of q0 i)) = of_nat ((i + 1) mod (2 * q_n q0))"
    and "di_block_size disk \<noteq> 0" "unat (di_block_size disk) dvd unat (di_page_size disk)"
    and "unat num_pages \<le> length (drop (unat page) (d_ioaddrs buffer))" "unat (di_page_size disk) * unat num_pages < 2 ^ 64"
    and "unat num_pages * blocks_per_page disk \<le> 65536" "k = 1 + unat (di_page_size disk) div 8" "k < unat num_pages"
  shows "\<exists>m' opc ns lba nlb pages. read_command ndebug disk qp buffer args (slot_of q0 i) page num_pages m = Some (of_nat k, m')
    \<and> fetch_io m' (slot_of q0 i) (list_of (qp_sq_mem qp) q0 i) k = (opc, ns, lba, nlb, pages)
    \<and> length pages = k \<and> k * blocks_per_page disk < unat nlb + 1 \<and> unat nlb + 1 = unat num_pages * blocks_per_page disk"
proof -
  have np: "num_pages \<noteq> 0" using assms(12) by auto
  have k: "k = min (unat num_pages) (1 + unat (di_page_size disk) div 8)" using assms(11,12) by simp
  have "64 * 1 \<le> 64 * q_n q0" using assms(2) by (intro mult_le_mono2) simp
  then have ps: "0 < unat (di_page_size disk)" using assms(1,4) by (simp add: io_window_def)
  then have b: "0 < blocks_per_page disk" using assms(6,7) by (simp add: div_greater_zero_iff dvd_imp_le unat_gt_0)
  let ?nb = "unat num_pages * blocks_per_page disk"
  have nb: "0 < ?nb" "k * blocks_per_page disk < ?nb" using b assms(12) by simp_all
  have "ucast ((ucast (NVM_PAGE_TO_BLOCK (di_page_size disk) (di_block_size disk) num_pages) :: u16) - 1) = (of_nat (?nb - 1) :: u64)"
    unfolding page_to_block [OF assms(7,9)] by (rule blocks_less_one [OF nb(1) assms(10)])
  moreover have "unat (of_nat (?nb - 1) :: u64) + 1 = ?nb" using nb(1) assms(10) by (subst unat_of_nat_small) simp_all
  moreover have "length (take k (drop (unat page) (d_ioaddrs buffer))) = k" using assms(8,12) by simp
  ultimately show ?thesis
    using read_command_spec [OF assms(1-6) np assms(8) k, of ndebug args] nb(2) unfolding slot_holds_def by (metis (no_types, lifting))
qed

section \<open>Examples\<close>

definition demo_qp :: queue_pair where
  "demo_qp = \<lparr>qp_sq_mem = demo_sq_mem, qp_cq_mem = demo_sq_mem, qp_sq = demo_sq, qp_cq = demo_cq, qp_stop = False, qp_num_cpls = 0\<rparr>"

definition demo_disk :: disk_info where
  "demo_disk = \<lparr>di_ns_id = 1, di_max_data_size = 0x2000, di_page_size = 0x1000, di_block_size = 512\<rparr>"

definition demo_buffer :: nvm_dma where
  "demo_buffer = \<lparr>d_vaddr = 0x40000, d_page_size = 0x1000, d_n_ioaddrs = 3, d_ioaddrs = [0x50000, 0x51000, 0x52000]\<rparr>"

definition demo_options :: options where
  "demo_options = \<lparr>op_controller_id = 0, op_adapter = 0, op_segment_id = 0, op_controller_path = Some ''/dev/disnvme0'',
     op_namespace_id = 1, op_num_blocks = 24, op_offset = 100, op_output = None, op_ascii = False\<rparr>"

lemma demo_read_ready: "read_ready demo_disk demo_qp demo_buffer eager (\<lambda>_ m. m)"
  using demo_io_window demo_region_db demo_sq_live eager_relied
  by (simp add: read_ready_def io_env_def split_ok_def demo_qp_def demo_disk_def demo_buffer_def demo_sq_mem_def)

definition list_disk :: disk_info where
  "list_disk = demo_disk\<lparr>di_max_data_size := 0x3000\<rparr>"

lemma list_read_ready: "read_ready list_disk demo_qp demo_buffer eager (\<lambda>_ m. m)"
  using demo_read_ready by (simp add: read_ready_def split_ok_def list_disk_def demo_disk_def demo_buffer_def)

theorem read_covers_buffer_witness:
  "\<exists>s1 s0. read_step True eager (\<lambda>_ m. m) list_disk demo_buffer demo_options s0 = Some s1
     \<and> read_loop True eager (\<lambda>_ m. m) list_disk demo_buffer demo_options s0 = Some s1
     \<and> (in_flight (qp_sq (rs_qp s1)) = 0
        \<or> bus_fetch demo_iommu (w_mem (rs_world s1)) (slot_of demo_sq 0) 3 = (2, 1, 100, 23, [0x50000, 0x51000, 0x52000]))"
proof -
  have N: "1 = n_chunks 3 (length (d_ioaddrs demo_buffer))" "3 = max_pages list_disk"
    by (simp_all add: n_chunks_def demo_buffer_def demo_disk_def list_disk_def)
  have q: "qp_sq demo_qp = demo_sq" "chunk 3 (length (d_ioaddrs demo_buffer)) 0 = 3" by (simp_all add: demo_qp_def chunk_def demo_buffer_def)
  have r: "io_request 2 (di_ns_id list_disk) (op_offset demo_options) (blocks_per_page list_disk) (d_ioaddrs demo_buffer) 3 0
      = (2, 1, 100, 23, [0x50000, 0x51000, 0x52000])"
    by (simp add: io_request_def chunk_def list_disk_def demo_disk_def demo_options_def demo_buffer_def)
  have wm: "window_maps demo_iommu (qp_sq_mem demo_qp)" using demo_window_maps by (simp add: demo_qp_def)
  from read_covers_buffer [where ndebug = True and args = demo_options and w = idle_world, OF list_read_ready wm refl N(2) refl N(1) refl] obtain f where
    f: "\<forall>i < 1. read_step True eager (\<lambda>_ m. m) list_disk demo_buffer demo_options (f i) = Some (f (Suc i))"
    "read_loop True eager (\<lambda>_ m. m) list_disk demo_buffer demo_options (f 0) = Some (f 1)"
    and b: "\<forall>i \<le> 1. \<forall>j < i. i - j \<le> in_flight (qp_sq (rs_qp (f i))) \<longrightarrow>
      bus_fetch demo_iommu (w_mem (rs_world (f i))) (slot_of demo_sq j) (chunk 3 (length (d_ioaddrs demo_buffer)) j)
      = io_request 2 (di_ns_id list_disk) (op_offset demo_options) (blocks_per_page list_disk) (d_ioaddrs demo_buffer) 3 j"
    unfolding q(1) by metis
  from b [rule_format, of 1 0] have "in_flight (qp_sq (rs_qp (f 1))) = 0
      \<or> bus_fetch demo_iommu (w_mem (rs_world (f 1))) (slot_of demo_sq 0) 3 = (2, 1, 100, 23, [0x50000, 0x51000, 0x52000])"
    unfolding q(2) r by fastforce
  with f show ?thesis by (intro exI [of _ "f 1"] exI [of _ "f 0"]) simp
qed

theorem read_and_dump_returns_witness:
  "\<exists>d qp' s' w'. read_and_dump True eager (\<lambda>_ m. m) demo_disk demo_qp demo_buffer demo_options demo_os idle_world
      = Some (fst (sys_call demo_os), d, qp', s', w') \<and> (fst (sys_call demo_os) = 0 \<longrightarrow> qp_num_cpls qp' = 2)"
proof -
  have sz: "24 * 512 = op_num_blocks demo_options * di_block_size demo_disk" by (simp add: demo_options_def demo_disk_def)
  have N: "of_nat (n_chunks (max_pages demo_disk) (length (d_ioaddrs demo_buffer))) = (2 :: u64)"
    by (simp add: n_chunks_def demo_buffer_def demo_disk_def)
  from read_and_dump_returns [OF demo_read_ready prod.collapse [symmetric] sz, of True demo_os idle_world] show ?thesis
    by (fastforce simp: N split: if_splits)
qed

definition large_buffer :: nvm_dma where
  "large_buffer = \<lparr>d_vaddr = 0x400000, d_page_size = 0x1000, d_n_ioaddrs = 514, d_ioaddrs = replicate 514 0x50000\<rparr>"

theorem read_blocks_exceed_list_witness:
  "\<exists>m m' opc ns lba nlb pages. read_command True demo_disk demo_qp large_buffer demo_options (slot_of demo_sq 0) 0 514 m = Some (513, m')
    \<and> fetch_io m' (slot_of demo_sq 0) (list_of demo_sq_mem demo_sq 0) 513 = (opc, ns, lba, nlb, pages)
    \<and> length pages = 513 \<and> unat nlb + 1 = 514 * 8"
proof -
  let ?m = "store16 (NVM_CMD_CID (slot_of demo_sq 0)) 1 (\<lambda>_. 0)"
  have cid: "load16 ?m (NVM_CMD_CID (slot_of demo_sq 0)) = of_nat ((0 + 1) mod (2 * q_n demo_sq))"
    by (simp add: load16_store16 demo_sq_fields)
  have k: "513 = 1 + unat (di_page_size demo_disk) div 8" by (simp add: demo_disk_def)
  have q: "qp_sq_mem demo_qp = demo_sq_mem" "qp_sq demo_qp = demo_sq" by (simp_all add: demo_qp_def)
  have "\<exists>m' opc ns lba nlb pages. read_command True demo_disk demo_qp large_buffer demo_options (slot_of demo_sq 0) 0 514 ?m = Some (of_nat 513, m')
    \<and> fetch_io m' (slot_of demo_sq 0) (list_of (qp_sq_mem demo_qp) demo_sq 0) 513 = (opc, ns, lba, nlb, pages)
    \<and> length pages = 513 \<and> 513 * blocks_per_page demo_disk < unat nlb + 1 \<and> unat nlb + 1 = unat (514 :: u64) * blocks_per_page demo_disk"
    by (rule read_blocks_exceed_list [OF _ demo_io_window(2) _ _ cid _ _ _ _ _ k])
       (use demo_io_window q in \<open>simp_all add: demo_disk_def demo_sq_mem_def large_buffer_def\<close>)
  then obtain m' opc ns lba nlb pages where
    "read_command True demo_disk demo_qp large_buffer demo_options (slot_of demo_sq 0) 0 514 ?m = Some (of_nat 513, m')"
    "fetch_io m' (slot_of demo_sq 0) (list_of demo_sq_mem demo_sq 0) 513 = (opc, ns, lba, nlb, pages)" "length pages = 513"
    "unat nlb + 1 = unat (514 :: u64) * blocks_per_page demo_disk" unfolding q by blast
  moreover have "blocks_per_page demo_disk = 8" by (simp add: demo_disk_def)
  ultimately show ?thesis
    by (intro exI [of _ ?m] exI [of _ m'] exI [of _ opc] exI [of _ ns] exI [of _ lba] exI [of _ nlb] exI [of _ pages]) simp
qed

end
