(* ===== verification/Dis_Interrupt.thy ===== *)
theory Dis_Interrupt
  imports Resources
begin

text \<open>
  Data interrupts between hosts: \<open>src/dis/interrupt.c\<close> and \<open>interrupt.h\<close>.  Node identifiers and
  interrupt numbers are those of the environment; the adapter field of a local interrupt is never
  set by the code, so it stays at what the memory held before, an argument here.  Two checks are
  compiled in only without \<open>NDEBUG\<close>.
\<close>

datatype intr_callback = No_callback | Handle_remote_command

record local_intr =
  li_sd :: nat
  li_intr :: nat
  li_adapter :: u32
  li_intr_no :: u32
  li_node_id :: u32
  li_data :: nat
  li_callback :: intr_callback

record remote_intr =
  ri_sd :: nat
  ri_intr :: nat

datatype sci_callback_action = SCI_CALLBACK_CANCEL | SCI_CALLBACK_CONTINUE

text \<open>The supplied callback is an argument that acts on the state of the process.\<close>

definition interrupt_callback ::
  "(nat \<Rightarrow> u32 list \<Rightarrow> 's \<Rightarrow> 's) \<Rightarrow> local_intr \<Rightarrow> nat \<Rightarrow> u32 list \<Rightarrow> sci_error \<Rightarrow> 's \<Rightarrow> sci_callback_action \<times> 's" where
  "interrupt_callback callback interrupt intr data status s =
     (if status \<noteq> SCI_ERR_OK then (SCI_CALLBACK_CANCEL, s)
      else if intr \<noteq> li_intr interrupt then (SCI_CALLBACK_CANCEL, s)
      else (SCI_CALLBACK_CONTINUE, callback (li_data interrupt) data s))"

definition nvm_local_intr_get ::
  "bool \<Rightarrow> u32 \<Rightarrow> u32 \<Rightarrow> nat \<Rightarrow> intr_callback \<Rightarrow> os \<Rightarrow> int \<times> local_intr \<times> os" where
  "nvm_local_intr_get ndebug junk adapter cb_data cb s =
     (let intr = \<lparr>li_sd = 0, li_intr = 0, li_adapter = junk, li_intr_no = 0,
                  li_node_id = ucast (os_addr s (os_calls s)), li_data = 0, li_callback = No_callback\<rparr> in
      case sci_call s of (err, s) \<Rightarrow>
      if \<not> ndebug \<and> err \<noteq> SCI_ERR_OK then (EIO, intr, s)
      else
        case sci_acquire Sci_desc s of (err, sd, s) \<Rightarrow>
        if \<not> ndebug \<and> err \<noteq> SCI_ERR_OK then (EIO, intr, s)
        else
          let intr = intr\<lparr>li_sd := sd, li_data := cb_data, li_callback := cb\<rparr> in
          case sci_acquire Sci_intr s of (err, i, s) \<Rightarrow>
          if err \<noteq> SCI_ERR_OK then (ENOSPC, intr, release Sci_desc sd s)
          else (0, intr\<lparr>li_intr := i, li_intr_no := ucast (os_addr s i)\<rparr>, s))"

definition nvm_local_intr_put :: "local_intr \<Rightarrow> os \<Rightarrow> os option" where
  "nvm_local_intr_put intr s =
     do { s \<leftarrow> sci_release Sci_intr (li_intr intr) s; Some (release Sci_desc (li_sd intr) s) }"

text \<open>
  The buffer of the caller receives as much of the message as fits; how long the message was is not
  looked at.
\<close>

definition nvm_local_intr_wait :: "local_intr \<Rightarrow> u32 list \<Rightarrow> os \<Rightarrow> int \<times> u32 list \<times> os" where
  "nvm_local_intr_wait intr buf s =
     (let msg = os_recv s (os_calls s) in
      case sci_call s of (err, s) \<Rightarrow>
        (case err of
           SCI_ERR_OK \<Rightarrow> (0, take (length buf) msg @ drop (length msg) buf, s)
         | SCI_ERR_TIMEOUT \<Rightarrow> (ETIMEDOUT, buf, s)
         | _ \<Rightarrow> (EIO, buf, s)))"

definition nvm_remote_intr_get :: "bool \<Rightarrow> u32 \<Rightarrow> u32 \<Rightarrow> u32 \<Rightarrow> os \<Rightarrow> int \<times> remote_intr \<times> os" where
  "nvm_remote_intr_get ndebug adapter node no s =
     (let intr = \<lparr>ri_sd = 0, ri_intr = 0\<rparr> in
      case sci_acquire Sci_desc s of (err, sd, s) \<Rightarrow>
      if \<not> ndebug \<and> err \<noteq> SCI_ERR_OK then (EIO, intr, s)
      else
        let intr = intr\<lparr>ri_sd := sd\<rparr> in
        case sci_acquire Sci_remote_intr s of (err, i, s) \<Rightarrow>
        if err \<noteq> SCI_ERR_OK then (ECONNREFUSED, intr, release Sci_desc sd s)
        else (0, intr\<lparr>ri_intr := i\<rparr>, s))"

definition nvm_remote_intr_put :: "remote_intr \<Rightarrow> os \<Rightarrow> os" where
  "nvm_remote_intr_put intr s = release Sci_desc (ri_sd intr) (release Sci_remote_intr (ri_intr intr) s)"

definition nvm_remote_intr_trigger :: "remote_intr \<Rightarrow> u32 list \<Rightarrow> os \<Rightarrow> int \<times> os" where
  "nvm_remote_intr_trigger intr data s =
     (case sci_call s of (err, s) \<Rightarrow>
        if err \<noteq> SCI_ERR_OK then (ENOTCONN, s)
        else (0, s\<lparr>os_sent := os_sent s @ [(ri_intr intr, data)]\<rparr>))"

definition nvm_remote_intr_fire_and_forget ::
  "bool \<Rightarrow> u32 \<Rightarrow> u32 \<Rightarrow> u32 \<Rightarrow> u32 list \<Rightarrow> os \<Rightarrow> int \<times> os" where
  "nvm_remote_intr_fire_and_forget ndebug adapter node no data s =
     (case nvm_remote_intr_get ndebug adapter node no s of (status, intr, s) \<Rightarrow>
        if status \<noteq> 0 then (status, s)
        else
          case nvm_remote_intr_trigger intr data s of (status, s) \<Rightarrow>
            (status, nvm_remote_intr_put intr s))"

section \<open>What an interrupt handle owns\<close>

definition lintr_owned :: "local_intr \<Rightarrow> res multiset" where
  "lintr_owned i = {#(Sci_intr, li_intr i), (Sci_desc, li_sd i)#}"

definition rintr_owned :: "remote_intr \<Rightarrow> res multiset" where
  "rintr_owned i = {#(Sci_remote_intr, ri_intr i), (Sci_desc, ri_sd i)#}"

lemma sci_call_dest: "sci_call s = (e, s') \<Longrightarrow> gains s s' {#}"
  by (metis sci_call_gains snd_conv)

lemma nvm_remote_intr_put_gains:
  "rintr_owned i \<subseteq># os_live s \<Longrightarrow> gains (nvm_remote_intr_put i s) s (rintr_owned i)"
proof -
  assume sub: "rintr_owned i \<subseteq># os_live s"
  have g1: "gains (release Sci_remote_intr (ri_intr i) s) s {#(Sci_remote_intr, ri_intr i)#}"
    using sub by (intro release_gains) (auto simp: rintr_owned_def insert_subset_eq_iff)
  have "{#(Sci_desc, ri_sd i)#} \<subseteq># os_live (release Sci_remote_intr (ri_intr i) s)"
    using g1 sub by (simp add: gains_def rintr_owned_def)
  from gains_trans [OF release_gains [OF this] g1] show ?thesis
    by (simp add: nvm_remote_intr_put_def rintr_owned_def add_mset_commute)
qed

interpretation lintr: paired "nvm_local_intr_get False junk adapter cb_data cb" nvm_local_intr_put lintr_owned
  for junk adapter cb_data cb
proof
  fix s s' h and e :: int
  show "nvm_local_intr_get False junk adapter cb_data cb s = (0, h, s') \<Longrightarrow> gains s s' (lintr_owned h)"
    by (auto simp: nvm_local_intr_get_def lintr_owned_def Let_def split: prod.splits if_splits
        dest!: sci_call_dest sci_acquire_ok simp: gains_def)
  show "nvm_local_intr_get False junk adapter cb_data cb s = (e, h, s') \<Longrightarrow> e \<noteq> 0 \<Longrightarrow> gains s s' {#}"
    by (auto simp: nvm_local_intr_get_def Let_def split: prod.splits if_splits
        dest!: sci_call_dest sci_acquire_ok sci_acquire_err simp: gains_def release_def)
  assume r: "sci_releases s" and sub: "lintr_owned h \<subseteq># os_live s"
  have "{#(Sci_intr, li_intr h)#} \<subseteq># os_live s" using sub by (auto simp: lintr_owned_def insert_subset_eq_iff)
  with r obtain s1 where s1: "sci_release Sci_intr (li_intr h) s = Some s1" "gains s1 s {#(Sci_intr, li_intr h)#}"
    by (rule sci_release_gains)
  have "{#(Sci_desc, li_sd h)#} \<subseteq># os_live s1" using sub s1(2) by (simp add: lintr_owned_def gains_def)
  from gains_trans [OF release_gains [OF this] s1(2)] s1(1)
  show "\<exists>s'. nvm_local_intr_put h s = Some s' \<and> gains s' s (lintr_owned h)"
    by (simp add: nvm_local_intr_put_def lintr_owned_def add_mset_commute)
qed

interpretation rintr: paired "nvm_remote_intr_get False adapter node no" "\<lambda>i s. Some (nvm_remote_intr_put i s)" rintr_owned
  for adapter node no
proof
  fix s s' h and e :: int
  show "nvm_remote_intr_get False adapter node no s = (0, h, s') \<Longrightarrow> gains s s' (rintr_owned h)"
    by (auto simp: nvm_remote_intr_get_def rintr_owned_def Let_def split: prod.splits if_splits
        dest!: sci_acquire_ok simp: gains_def)
  show "nvm_remote_intr_get False adapter node no s = (e, h, s') \<Longrightarrow> e \<noteq> 0 \<Longrightarrow> gains s s' {#}"
    by (auto simp: nvm_remote_intr_get_def Let_def split: prod.splits if_splits
        dest!: sci_acquire_ok sci_acquire_err simp: gains_def release_def)
  show "sci_releases s \<Longrightarrow> rintr_owned h \<subseteq># os_live s \<Longrightarrow>
      \<exists>s'. Some (nvm_remote_intr_put h s) = Some s' \<and> gains s' s (rintr_owned h)"
    using nvm_remote_intr_put_gains by simp
qed

lemma nvm_remote_intr_trigger_gains: "nvm_remote_intr_trigger i data s = (e, s') \<Longrightarrow> gains s s' {#}"
  by (auto simp: nvm_remote_intr_trigger_def split: prod.splits if_splits dest!: sci_call_dest simp: gains_def)

lemma fire_and_forget_gains:
  assumes "nvm_remote_intr_fire_and_forget False adapter node no data s = (e, s')"
  shows "gains s s' {#}"
proof -
  obtain st i s1 where g: "nvm_remote_intr_get False adapter node no s = (st, i, s1)" by (metis prod_cases3)
  obtain t s2 where tr: "nvm_remote_intr_trigger i data s1 = (t, s2)" by fastforce
  show ?thesis
  proof (cases "st = 0")
    case False
    then show ?thesis using assms g rintr.get_err [OF g] by (simp add: nvm_remote_intr_fire_and_forget_def)
  next
    case True
    then have gi: "gains s s2 (rintr_owned i)"
      using gains_trans [OF rintr.get_ok nvm_remote_intr_trigger_gains [OF tr]] g by fastforce
    have "gains (nvm_remote_intr_put i s2) s2 (rintr_owned i)"
      by (rule nvm_remote_intr_put_gains) (use gi in \<open>simp add: gains_def\<close>)
    with gains_undo [OF gi] True assms g tr show ?thesis by (simp add: nvm_remote_intr_fire_and_forget_def)
  qed
qed

end
