(* ===== verification/Dis_Local.thy ===== *)
theory Dis_Local
  imports Resources
begin

text \<open>
  Local memory segments: \<open>src/dis/local.c\<close> and \<open>local.h\<close>.  Removing a segment does not close the
  SISCI descriptor that was opened for it.
\<close>

record local_memory =
  l_sd :: nat
  l_segment :: nat
  l_id :: u32
  l_size :: u64
  l_flags :: "sci_flag list"

definition create_segment :: "u32 \<Rightarrow> u64 \<Rightarrow> sci_flag list \<Rightarrow> os \<Rightarrow> int \<times> local_memory \<times> os" where
  "create_segment sid sz flags s =
     (let m = \<lparr>l_sd = 0, l_segment = 0, l_id = sid, l_size = 0, l_flags = flags\<rparr> in
      case sci_acquire Sci_desc s of (err, sd, s) \<Rightarrow>
        if err \<noteq> SCI_ERR_OK then (EIO, m, s)
        else
          let m = m\<lparr>l_sd := sd\<rparr> in
          case sci_acquire Sci_local_segment s of (err, seg, s) \<Rightarrow>
            let s = (if err \<noteq> SCI_ERR_OK then release Sci_desc sd s else s) in
            case err of
              SCI_ERR_OK \<Rightarrow> (0, m\<lparr>l_segment := seg\<rparr>, s)
            | SCI_ERR_SEGMENTID_USED \<Rightarrow> (EEXIST, m, s)
            | _ \<Rightarrow> (EIO, m, s))"

definition nvm_local_memory_put :: "local_memory \<Rightarrow> os \<Rightarrow> os option" where
  "nvm_local_memory_put mem s = sci_release Sci_local_segment (l_segment mem) s"

definition nvm_local_memory_get :: "u32 \<Rightarrow> u64 \<Rightarrow> os \<Rightarrow> int \<times> local_memory \<times> os" where
  "nvm_local_memory_get sid sz s =
     (case create_segment sid sz [] s of (err, mem, s) \<Rightarrow>
        if err \<noteq> 0 then (err, mem, s) else (0, mem, s))"

definition nvm_local_memory_get_attached :: "u32 \<Rightarrow> u64 \<Rightarrow> u64 \<Rightarrow> os \<Rightarrow> (int \<times> local_memory \<times> os) option" where
  "nvm_local_memory_get_attached sid ptr sz s =
     (case create_segment sid sz [SCI_FLAG_EMPTY] s of (status, mem, s) \<Rightarrow>
        if status \<noteq> 0 then Some (status, mem, s)
        else
          case sci_call s of (err, s) \<Rightarrow>
            if err \<noteq> SCI_ERR_OK
            then do { s \<leftarrow> nvm_local_memory_put mem s; Some (EIO, mem, s) }
            else Some (0, mem, s))"

section \<open>Accounting\<close>

text \<open>The segment is given back by \<open>nvm_local_memory_put\<close>, the descriptor by nothing.\<close>

definition seg_owned :: "local_memory \<Rightarrow> res multiset" where
  "seg_owned mem = {#(Sci_local_segment, l_segment mem)#}"

definition seg_left :: "local_memory \<Rightarrow> res multiset" where
  "seg_left mem = {#(Sci_desc, l_sd mem)#}"

lemma create_segment_gains:
  "create_segment sid sz flags s = (e, m, s') \<Longrightarrow>
   if e = 0 then gains s s' (seg_owned m + seg_left m) else gains s s' {#}"
  by (auto simp: create_segment_def seg_owned_def seg_left_def Let_def
      split: prod.splits if_splits sci_error.splits dest!: sci_acquire_ok sci_acquire_err
      simp: gains_def release_def)

lemma create_segment_size: "create_segment sid sz flags s = (e, m, s') \<Longrightarrow> l_size m = 0"
  by (auto simp: create_segment_def Let_def split: prod.splits if_splits sci_error.splits)

lemma nvm_local_memory_put_gains:
  "sci_releases s \<Longrightarrow> seg_owned m \<subseteq># os_live s \<Longrightarrow>
   \<exists>s'. nvm_local_memory_put m s = Some s' \<and> gains s' s (seg_owned m)"
  unfolding nvm_local_memory_put_def seg_owned_def by (metis sci_release_gains)

lemma nvm_local_memory_get_gains:
  "nvm_local_memory_get sid sz s = (e, m, s') \<Longrightarrow>
   if e = 0 then gains s s' (seg_owned m + seg_left m) else gains s s' {#}"
  using create_segment_gains [of sid sz "[]" s]
  by (auto simp: nvm_local_memory_get_def split: prod.splits if_splits)

lemma nvm_local_memory_get_attached_gains:
  assumes "sci_releases s"
  shows "\<exists>e m s'. nvm_local_memory_get_attached sid ptr sz s = Some (e, m, s') \<and>
    (if e = 0 then gains s s' (seg_owned m + seg_left m) else gains s s' {#} \<or> gains s s' (seg_left m))"
proof -
  obtain e m s1 where c: "create_segment sid sz [SCI_FLAG_EMPTY] s = (e, m, s1)" by (metis prod_cases3)
  obtain x s2 where a: "sci_call s1 = (x, s2)" by fastforce
  have g12: "gains s1 s2 {#}" using a by (metis sci_call_gains snd_conv)
  show ?thesis
  proof (cases "e = 0")
    case False
    then show ?thesis using c create_segment_gains [OF c] by (simp add: nvm_local_memory_get_attached_def)
  next
    case True
    have g: "gains s s2 (seg_left m + seg_owned m)"
      using gains_trans [OF _ g12] create_segment_gains [OF c] True by (simp add: add.commute)
    show ?thesis
    proof (cases "x = SCI_ERR_OK")
      case True
      then show ?thesis using c a \<open>e = 0\<close> g by (simp add: nvm_local_memory_get_attached_def add.commute)
    next
      case False
      have "seg_owned m \<subseteq># os_live s2" using g by (simp add: gains_def)
      with nvm_local_memory_put_gains [of s2 m] sci_releases_gains [OF g] assms obtain s3
        where "nvm_local_memory_put m s2 = Some s3" "gains s3 s2 (seg_owned m)" by blast
      with gains_undo_rest [OF g] False c a \<open>e = 0\<close> show ?thesis
        by (simp add: nvm_local_memory_get_attached_def)
    qed
  qed
qed

end
