(* ===== verification/Dis_Dma.thy ===== *)
theory Dis_Dma
  imports Dma Dis_Local
begin

text \<open>
  DMA windows over SmartIO segments: \<open>src/dis/dma.c\<close>, for a build with CUDA.  The descriptor of a
  window keeps the device reference, both mappings and, for the windows that make their own segment,
  the segment.
\<close>

section \<open>Descriptors\<close>

datatype segment_ref = Local_segment nat local_memory | Remote_segment nat device_memory

record map_descriptor =
  md_self :: nat
  md_dma :: dma_map
  md_device :: sci_dev
  md_va :: va_map
  md_io :: io_map
  md_segment :: "segment_ref option"

definition create_map_descriptor :: "controller \<Rightarrow> u64 \<Rightarrow> os \<Rightarrow> int \<times> map_descriptor option \<times> os" where
  "create_map_descriptor ctrl segment_size s =
     (case nvm_device_from_ctrl ctrl of
        None \<Rightarrow> (EINVAL, None, s)
      | Some dev \<Rightarrow>
          (case malloc s of
             (None, s) \<Rightarrow> (ENOMEM, None, s)
           | (Some p, s) \<Rightarrow>
               (case nvm_device_get (v_device_id dev) s of (err, device, s) \<Rightarrow>
                  if err \<noteq> 0 then (err, None, free (Some p) s)
                  else (0, Some \<lparr>md_self = p,
                     md_dma = \<lparr>mp_vaddr = NULL, mp_page_size = segment_size, mp_n_pages = 1\<rparr>,
                     md_device = device, md_va = VA_MAP_CLEAR VA_MAP_INIT, md_io = IO_MAP_CLEAR IO_MAP_INIT,
                     md_segment = None\<rparr>, s))))"

definition remove_map_descriptor :: "map_descriptor \<Rightarrow> os \<Rightarrow> os option" where
  "remove_map_descriptor md s =
     do { (_, s) \<leftarrow> nvm_va_unmap (md_va md) s;
          (_, s) \<leftarrow> nvm_io_unmap (md_io md) s;
          Some (free (Some (md_self md)) (nvm_device_put (md_device md) s)) }"

definition set_vaddr :: "map_descriptor \<Rightarrow> map_descriptor" where
  "set_vaddr md = md\<lparr>md_dma := (md_dma md)\<lparr>mp_vaddr := va_vaddr (md_va md)\<rparr>\<rparr>"

text \<open>The last part of all four functions: make the container, fill in the page address list.\<close>

definition dis_finish ::
  "controller \<Rightarrow> map_descriptor \<Rightarrow> (map_descriptor \<Rightarrow> os \<Rightarrow> os option) \<Rightarrow> os \<Rightarrow> (int \<times> map_descriptor dma option \<times> os) option" where
  "dis_finish ctrl md rel s =
     do { (err, handle, s) \<leftarrow> nvm_dma_create md_dma (k_handle ctrl) md rel s;
          (case handle of
             None \<Rightarrow> do { s \<leftarrow> rel md s; Some (err, None, s) }
           | Some dma \<Rightarrow>
               do { h \<leftarrow> nvm_dma_handle_populate (md_dma md) (k_handle ctrl) [io_ioaddr (md_io md)];
                    Some (0, Some (dma\<lparr>dc_handle := h\<rparr>), s) }) }"

definition nvm_dis_dma_map_local ::
  "controller \<Rightarrow> u32 \<Rightarrow> nat \<Rightarrow> u64 \<Rightarrow> bool \<Rightarrow> os \<Rightarrow> (int \<times> map_descriptor dma option \<times> os) option" where
  "nvm_dis_dma_map_local ctrl adapter segment sz map_va s =
     (let sz = NVM_CTRL_ALIGN (k_handle ctrl) sz in
      case create_map_descriptor ctrl sz s of
        (err, None, s) \<Rightarrow> Some (err, None, s)
      | (err, Some md, s) \<Rightarrow>
          (case nvm_io_map_local (v_device (md_device md)) segment adapter s of (err, io, s) \<Rightarrow>
             let md = md\<lparr>md_io := io\<rparr> in
             if err \<noteq> 0 then do { s \<leftarrow> remove_map_descriptor md s; Some (err, None, s) }
             else if map_va then
               (case nvm_va_map_local sz segment s of (err, va, s) \<Rightarrow>
                  let md = md\<lparr>md_va := va\<rparr> in
                  if err \<noteq> 0 then do { s \<leftarrow> remove_map_descriptor md s; Some (err, None, s) }
                  else dis_finish ctrl (set_vaddr md) remove_map_descriptor s)
             else dis_finish ctrl md remove_map_descriptor s))"

text \<open>The size SISCI reports for the segment is an argument.\<close>

definition nvm_dis_dma_map_remote ::
  "(nat \<Rightarrow> u64) \<Rightarrow> controller \<Rightarrow> nat \<Rightarrow> bool \<Rightarrow> bool \<Rightarrow> os \<Rightarrow> (int \<times> map_descriptor dma option \<times> os) option" where
  "nvm_dis_dma_map_remote segment_size ctrl segment map_va map_wc s =
     (let sz = and (segment_size segment) (NVM_PAGE_MASK (c_page_size (k_handle ctrl))) in
      case create_map_descriptor ctrl sz s of
        (err, None, s) \<Rightarrow> Some (err, None, s)
      | (err, Some md, s) \<Rightarrow>
          (case nvm_io_map_remote (v_device (md_device md)) segment s of (err, io, s) \<Rightarrow>
             let md = md\<lparr>md_io := io\<rparr> in
             if err \<noteq> 0 then do { s \<leftarrow> remove_map_descriptor md s; Some (err, None, s) }
             else if map_va then
               (case nvm_va_map_remote sz segment True map_wc s of (err, va, s) \<Rightarrow>
                  let md = md\<lparr>md_va := va\<rparr> in
                  if err \<noteq> 0 then do { s \<leftarrow> remove_map_descriptor md s; Some (err, None, s) }
                  else dis_finish ctrl (set_vaddr md) remove_map_descriptor s)
             else dis_finish ctrl md remove_map_descriptor s))"

section \<open>Windows with a segment of their own\<close>

definition connect_remote_segment ::
  "sci_dev \<Rightarrow> u32 \<Rightarrow> u32 \<Rightarrow> bool \<Rightarrow> os \<Rightarrow> int \<times> (nat \<times> device_memory) option \<times> os" where
  "connect_remote_segment dev adapter segno shared s =
     (case malloc s of
        (None, s) \<Rightarrow> (ENOMEM, None, s)
      | (Some p, s) \<Rightarrow>
          (case nvm_device_memory_get dev adapter segno [if shared then SCI_FLAG_SHARED else SCI_FLAG_PRIVATE] s of
             (status, seg, s) \<Rightarrow>
               if status \<noteq> 0 then (status, None, free (Some p) s) else (0, Some (p, seg), s)))"

definition create_local_segment ::
  "u32 \<Rightarrow> u64 \<Rightarrow> u64 \<Rightarrow> os \<Rightarrow> (int \<times> (nat \<times> local_memory) option \<times> os) option" where
  "create_local_segment sid sz dptr s =
     (case malloc s of
        (None, s) \<Rightarrow> Some (ENOMEM, None, s)
      | (Some p, s) \<Rightarrow>
          do { (status, seg, s) \<leftarrow> (if dptr = NULL then Some (nvm_local_memory_get sid sz s)
                                    else nvm_local_memory_get_attached sid dptr sz s);
               if status \<noteq> 0 then Some (status, None, free (Some p) s) else Some (0, Some (p, seg), s) })"

definition remove_local_segment :: "map_descriptor \<Rightarrow> os \<Rightarrow> os option" where
  "remove_local_segment md s =
     do { s \<leftarrow> (case md_segment md of
                  Some (Local_segment p segment) \<Rightarrow>
                    do { (_, s) \<leftarrow> nvm_va_unmap (md_va md) s;
                         (_, s) \<leftarrow> nvm_io_unmap (md_io md) s;
                         s \<leftarrow> nvm_local_memory_put segment s;
                         Some (free (Some p) s) }
                | _ \<Rightarrow> Some s);
          Some (free (Some (md_self md)) (nvm_device_put (md_device md) s)) }"

definition nvm_dis_dma_create ::
  "controller \<Rightarrow> u32 \<Rightarrow> u32 \<Rightarrow> u64 \<Rightarrow> os \<Rightarrow> (int \<times> map_descriptor dma option \<times> os) option" where
  "nvm_dis_dma_create ctrl adapter sid sz s =
     (let sz = NVM_CTRL_ALIGN (k_handle ctrl) sz in
      case create_map_descriptor ctrl sz s of
        (err, None, s) \<Rightarrow> Some (err, None, s)
      | (err, Some md, s) \<Rightarrow>
          do { (err, seg, s) \<leftarrow> create_local_segment sid sz NULL s;
               (case seg of
                  None \<Rightarrow> do { s \<leftarrow> remove_map_descriptor md s; Some (err, None, s) }
                | Some (p, sd) \<Rightarrow>
                    let md = md\<lparr>md_segment := Some (Local_segment p sd)\<rparr> in
                    case nvm_io_map_local_memory (md_io md) (md_device md) (l_segment sd) adapter s of (err, io, s) \<Rightarrow>
                      let md = md\<lparr>md_io := io\<rparr> in
                      if err \<noteq> 0 then do { s \<leftarrow> remove_local_segment md s; Some (err, None, s) }
                      else
                        case nvm_va_map_local sz (l_segment sd) s of (err, va, s) \<Rightarrow>
                          let md = md\<lparr>md_va := va\<rparr> in
                          if err \<noteq> 0 then do { s \<leftarrow> remove_local_segment md s; Some (err, None, s) }
                          else dis_finish ctrl (set_vaddr md) remove_local_segment s) })"

definition nvm_dis_dma_map_device ::
  "controller \<Rightarrow> u32 \<Rightarrow> u32 \<Rightarrow> u64 \<Rightarrow> u64 \<Rightarrow> os \<Rightarrow> (int \<times> map_descriptor dma option \<times> os) option" where
  "nvm_dis_dma_map_device ctrl adapter sid dptr sz s =
     (let sz = NVM_CTRL_ALIGN (k_handle ctrl) sz in
      case create_map_descriptor ctrl sz s of
        (err, None, s) \<Rightarrow> Some (err, None, s)
      | (err, Some md, s) \<Rightarrow>
          do { (err, seg, s) \<leftarrow> create_local_segment sid sz dptr s;
               (case seg of
                  None \<Rightarrow> do { s \<leftarrow> remove_map_descriptor md s; Some (err, None, s) }
                | Some (p, sd) \<Rightarrow>
                    let md = md\<lparr>md_segment := Some (Local_segment p sd)\<rparr> in
                    case nvm_io_map_local_memory (md_io md) (md_device md) (l_segment sd) adapter s of (err, io, s) \<Rightarrow>
                      let md = md\<lparr>md_io := io\<rparr> in
                      if err \<noteq> 0 then do { s \<leftarrow> remove_local_segment md s; Some (err, None, s) }
                      else dis_finish ctrl md remove_local_segment s) })"

definition disconnect_remote_segment :: "map_descriptor \<Rightarrow> os \<Rightarrow> os option" where
  "disconnect_remote_segment md s =
     do { s \<leftarrow> (case md_segment md of
                  Some (Remote_segment p segment) \<Rightarrow>
                    do { (_, s) \<leftarrow> nvm_va_unmap (md_va md) s;
                         (_, s) \<leftarrow> nvm_io_unmap (md_io md) s;
                         s \<leftarrow> nvm_device_memory_put segment s;
                         Some (free (Some p) s) }
                | _ \<Rightarrow> Some s);
          Some (free (Some (md_self md)) (nvm_device_put (md_device md) s)) }"

definition nvm_dis_dma_connect ::
  "controller \<Rightarrow> u32 \<Rightarrow> u32 \<Rightarrow> u64 \<Rightarrow> bool \<Rightarrow> os \<Rightarrow> (int \<times> map_descriptor dma option \<times> os) option" where
  "nvm_dis_dma_connect ctrl adapter segno sz shared s =
     (let sz = NVM_CTRL_ALIGN (k_handle ctrl) sz in
      case create_map_descriptor ctrl sz s of
        (err, None, s) \<Rightarrow> Some (err, None, s)
      | (err, Some md, s) \<Rightarrow>
          (case nvm_device_from_ctrl ctrl of
             None \<Rightarrow> None
           | Some dev \<Rightarrow>
               (case connect_remote_segment dev adapter segno shared s of
                  (err, None, s) \<Rightarrow> do { s \<leftarrow> remove_map_descriptor md s; Some (err, None, s) }
                | (err, Some (p, sd), s) \<Rightarrow>
                    let md = md\<lparr>md_segment := Some (Remote_segment p sd)\<rparr> in
                    case nvm_io_map_remote (v_device (md_device md)) (dm_segment sd) s of (err, io, s) \<Rightarrow>
                      let md = md\<lparr>md_io := io\<rparr> in
                      if err \<noteq> 0 then do { s \<leftarrow> disconnect_remote_segment md s; Some (err, None, s) }
                      else
                        case nvm_va_map_remote sz (dm_segment sd) True True s of (err, va, s) \<Rightarrow>
                          let md = md\<lparr>md_va := va\<rparr> in
                          if err \<noteq> 0 then do { s \<leftarrow> disconnect_remote_segment md s; Some (err, None, s) }
                          else dis_finish ctrl (set_vaddr md) disconnect_remote_segment s)))"

section \<open>What a descriptor owns\<close>

definition sref_owned :: "segment_ref option \<Rightarrow> res multiset" where
  "sref_owned r = (case r of
       None \<Rightarrow> {#}
     | Some (Local_segment p l) \<Rightarrow> {#(Heap, p)#} + seg_owned l
     | Some (Remote_segment p d) \<Rightarrow> {#(Heap, p)#} + dmem_owned d)"

definition md_owned :: "map_descriptor \<Rightarrow> res multiset" where
  "md_owned md = {#(Heap, md_self md)#} + dev_owned (md_device md) + sref_owned (md_segment md)
     + io_owned (md_io md) + va_owned (md_va md)"

lemma set_vaddr_simps [simp]:
  "md_owned (set_vaddr md) = md_owned md" "md_segment (set_vaddr md) = md_segment md"
  "mp_n_pages (md_dma (set_vaddr md)) = mp_n_pages (md_dma md)"
  by (simp_all add: md_owned_def set_vaddr_def)

lemma va_unmap_undo:
  assumes "sci_releases s" "gains s s' (r + va_owned m)"
  shows "\<exists>m' s''. nvm_va_unmap m s' = Some (m', s'') \<and> gains s s'' r"
proof -
  have "sci_releases s'" "va_owned m \<subseteq># os_live s'" using assms sci_releases_gains by (auto simp: gains_def)
  with nvm_va_unmap_gains gains_undo_rest [OF assms(2)] show ?thesis by blast
qed

lemma io_unmap_undo:
  assumes "sci_releases s" "gains s s' (r + io_owned m)"
  shows "\<exists>m' s''. nvm_io_unmap m s' = Some (m', s'') \<and> gains s s'' r"
proof -
  have "sci_releases s'" "io_owned m \<subseteq># os_live s'" using assms sci_releases_gains by (auto simp: gains_def)
  with nvm_io_unmap_gains gains_undo_rest [OF assms(2)] show ?thesis by blast
qed

lemma local_put_undo:
  assumes "sci_releases s" "gains s s' (r + seg_owned m)"
  shows "\<exists>s''. nvm_local_memory_put m s' = Some s'' \<and> gains s s'' r"
proof -
  have "sci_releases s'" "seg_owned m \<subseteq># os_live s'" using assms sci_releases_gains by (auto simp: gains_def)
  with nvm_local_memory_put_gains gains_undo_rest [OF assms(2)] show ?thesis by blast
qed

lemma device_and_self_undo:
  "gains s s' (r + {#(Heap, p)#} + dev_owned d) \<Longrightarrow> gains s (free (Some p) (nvm_device_put d s')) r"
  by (rule free_undo, rule device_put_undo)

text \<open>The two mappings come first in every teardown.\<close>

lemma unmap_both:
  assumes "sci_releases s" "gains s s' (r + md_owned md)"
  obtains m1 s1 m2 s2 where "nvm_va_unmap (md_va md) s' = Some (m1, s1)" "nvm_io_unmap (md_io md) s1 = Some (m2, s2)"
    "gains s s2 (r + {#(Heap, md_self md)#} + dev_owned (md_device md) + sref_owned (md_segment md))"
proof -
  have "gains s s' ((r + {#(Heap, md_self md)#} + dev_owned (md_device md) + sref_owned (md_segment md)
      + io_owned (md_io md)) + va_owned (md_va md))"
    using assms(2) by (simp add: md_owned_def add.assoc)
  from va_unmap_undo [OF assms(1) this] obtain m1 s1 where 1: "nvm_va_unmap (md_va md) s' = Some (m1, s1)"
    "gains s s1 (r + {#(Heap, md_self md)#} + dev_owned (md_device md) + sref_owned (md_segment md)
      + io_owned (md_io md))" by blast
  from io_unmap_undo [OF assms(1) 1(2)] 1(1) that show thesis by blast
qed

lemma remove_map_descriptor_undo:
  assumes "sci_releases s" "gains s s' (r + md_owned md)" "md_segment md = None"
  shows "\<exists>s''. remove_map_descriptor md s' = Some s'' \<and> gains s s'' r"
proof -
  from assms(1,2) obtain m1 s1 m2 s2 where u: "nvm_va_unmap (md_va md) s' = Some (m1, s1)"
    "nvm_io_unmap (md_io md) s1 = Some (m2, s2)"
    "gains s s2 (r + {#(Heap, md_self md)#} + dev_owned (md_device md) + sref_owned (md_segment md))"
    by (rule unmap_both)
  from u(3) have "gains s s2 (r + {#(Heap, md_self md)#} + dev_owned (md_device md))"
    using assms(3) by (simp add: sref_owned_def)
  from device_and_self_undo [OF this] u(1,2) show ?thesis by (simp add: remove_map_descriptor_def)
qed

lemma remove_local_segment_undo:
  assumes "sci_releases s" "gains s s' (r + md_owned md)" "md_segment md = Some (Local_segment p l)"
  shows "\<exists>s''. remove_local_segment md s' = Some s'' \<and> gains s s'' r"
proof -
  from assms(1,2) obtain m1 s1 m2 s2 where u: "nvm_va_unmap (md_va md) s' = Some (m1, s1)"
    "nvm_io_unmap (md_io md) s1 = Some (m2, s2)"
    "gains s s2 (r + {#(Heap, md_self md)#} + dev_owned (md_device md) + sref_owned (md_segment md))"
    by (rule unmap_both)
  from u(3) have "gains s s2 ((r + {#(Heap, md_self md)#} + dev_owned (md_device md) + {#(Heap, p)#}) + seg_owned l)"
    using assms(3) by (simp add: sref_owned_def add.assoc)
  from local_put_undo [OF assms(1) this] obtain s3 where 3: "nvm_local_memory_put l s2 = Some s3"
    "gains s s3 (r + {#(Heap, md_self md)#} + dev_owned (md_device md) + {#(Heap, p)#})" by blast
  from device_and_self_undo [OF free_undo [OF 3(2)]] 3(1) u(1,2) assms(3) show ?thesis
    by (simp add: remove_local_segment_def)
qed

lemma disconnect_remote_segment_undo:
  assumes "sci_releases s" "gains s s' (r + md_owned md)" "md_segment md = Some (Remote_segment p d)"
  shows "\<exists>s''. disconnect_remote_segment md s' = Some s'' \<and> gains s s'' r"
proof -
  from assms(1,2) obtain m1 s1 m2 s2 where u: "nvm_va_unmap (md_va md) s' = Some (m1, s1)"
    "nvm_io_unmap (md_io md) s1 = Some (m2, s2)"
    "gains s s2 (r + {#(Heap, md_self md)#} + dev_owned (md_device md) + sref_owned (md_segment md))"
    by (rule unmap_both)
  from u(3) have "gains s s2 ((r + {#(Heap, md_self md)#} + dev_owned (md_device md) + {#(Heap, p)#}) + dmem_owned d)"
    using assms(3) by (simp add: sref_owned_def add.assoc)
  from dmem.put_undoes [OF this assms(1)] obtain s3 where 3: "nvm_device_memory_put d s2 = Some s3"
    "gains s s3 (r + {#(Heap, md_self md)#} + dev_owned (md_device md) + {#(Heap, p)#})" by blast
  from device_and_self_undo [OF free_undo [OF 3(2)]] 3(1) u(1,2) assms(3) show ?thesis
    by (simp add: disconnect_remote_segment_def)
qed

section \<open>The contract of a teardown\<close>

definition dis_owned :: "map_descriptor dma option \<Rightarrow> res multiset" where
  "dis_owned h = (case h of None \<Rightarrow> {#} | Some c \<Rightarrow> {#(Heap, dc_self c)#} + md_owned (dc_map c))"

definition dis_valid ::
  "(map_descriptor \<Rightarrow> os \<Rightarrow> os option) \<Rightarrow> (segment_ref option \<Rightarrow> bool) \<Rightarrow> map_descriptor dma option \<Rightarrow> bool" where
  "dis_valid rel shape h \<longleftrightarrow> (\<forall>c. h = Some c \<longrightarrow> dc_release c = Some rel \<and> shape (md_segment (dc_map c)))"

text \<open>
  A function that releases a descriptor, for the descriptors whose segment reference has the shape it
  expects.  From this alone: an error path through it holds nothing, the last part of every window
  function is balanced, and so is unmapping a finished window.
\<close>

locale teardown =
  fixes rel :: "map_descriptor \<Rightarrow> os \<Rightarrow> os option" and shape :: "segment_ref option \<Rightarrow> bool"
  assumes undo: "sci_releases s \<Longrightarrow> gains s s' (r + md_owned md) \<Longrightarrow> shape (md_segment md) \<Longrightarrow>
    \<exists>s''. rel md s' = Some s'' \<and> gains s s'' r"
begin

lemma give_up:
  assumes "sci_releases s" "gains s s' (md_owned md)" "shape (md_segment md)" "e \<noteq> 0"
  shows "outcome dis_owned (dis_valid rel shape) s (do { s \<leftarrow> rel md s'; Some (e, None, s) })"
  using undo [OF assms(1) _ assms(3), of s' "{#}"] assms(2,4) by auto

lemma finish_left:
  assumes "sci_releases s" "gains s s' (r + md_owned md)" "shape (md_segment md)"
    and "c_page_size (k_handle ctrl) \<noteq> 0" "mp_n_pages (md_dma md) = 1"
  shows "(\<exists>h s''. dis_finish ctrl md rel s' = Some (0, h, s'') \<and> gains s s'' (r + dis_owned h) \<and> dis_valid rel shape h
        \<and> map_option dc_map h = Some md)
    \<or> (\<exists>e s''. dis_finish ctrl md rel s' = Some (e, None, s'') \<and> e \<noteq> 0 \<and> gains s s'' r)"
  using assms(4)
proof (cases rule: nvm_dma_create_spec [where head = md_dma and md = md and rel = rel and s = s'])
  case (made c s2)
  then have "region_ok (k_handle ctrl) (md_dma md) [io_ioaddr (md_io md)]"
    using assms(4,5) unat_u64_less by (simp add: region_ok_def)
  then obtain h where h: "nvm_dma_handle_populate (md_dma md) (k_handle ctrl) [io_ioaddr (md_io md)] = Some h"
    using region_populated by blast
  have "gains s s2 (r + dis_owned (Some (c\<lparr>dc_handle := h\<rparr>)))"
    using gains_trans [OF assms(2) made(2)] made(3) by (simp add: dis_owned_def add.commute add.left_commute)
  moreover have "dis_valid rel shape (Some (c\<lparr>dc_handle := h\<rparr>))"
    using made(3,4) assms(3) by (simp add: dis_valid_def)
  ultimately show ?thesis using made(1,3) h by (simp add: dis_finish_def)
next
  case (refused e s2)
  have "gains s s2 (r + md_owned md)" using gains_trans [OF assms(2) refused(3)] by simp
  from undo [OF assms(1) this assms(3)] refused show ?thesis by (auto simp: dis_finish_def)
qed

lemma finish:
  assumes "sci_releases s" "gains s s' (md_owned md)" "shape (md_segment md)"
    and "c_page_size (k_handle ctrl) \<noteq> 0" "mp_n_pages (md_dma md) = 1"
  shows "outcome dis_owned (dis_valid rel shape) s (dis_finish ctrl md rel s')"
  using finish_left [of s s' "{#}" md ctrl] assms by auto

lemma unmap_undo:
  assumes "sci_releases s" "dis_valid rel shape h" "gains s s' (r + dis_owned h)"
  shows "\<exists>s''. nvm_dma_unmap h s' = Some s'' \<and> gains s s'' r"
proof (cases h)
  case None
  then show ?thesis using assms(3) by (simp add: nvm_dma_unmap_def dis_owned_def)
next
  case (Some c)
  have "gains s s' ((r + {#(Heap, dc_self c)#}) + md_owned (dc_map c))"
    using assms(3) Some by (simp add: dis_owned_def add.assoc)
  with undo [OF assms(1)] Some assms(2) obtain s1 where "rel (dc_map c) s' = Some s1"
    "gains s s1 (r + {#(Heap, dc_self c)#})" by (fastforce simp: dis_valid_def)
  with free_undo Some assms(2) show ?thesis by (simp add: nvm_dma_unmap_def nvm_dma_remove_def dis_valid_def)
qed

lemma unmap:
  assumes "sci_releases s" "dis_valid rel shape h" "dis_owned h \<subseteq># os_live s"
  shows "\<exists>s'. nvm_dma_unmap h s = Some s' \<and> gains s' s (dis_owned h)"
proof -
  let ?s = "s\<lparr>os_live := os_live s - dis_owned h\<rparr>"
  have "gains ?s s ({#} + dis_owned h)" using assms(3) by (simp add: gains_def)
  with unmap_undo [of ?s h s "{#}"] assms(1,2) obtain s' where "nvm_dma_unmap h s = Some s'" "gains ?s s' {#}"
    by (auto simp: sci_releases_def)
  then show ?thesis using assms(3) by (auto simp: gains_def)
qed

end

definition no_segment :: "segment_ref option \<Rightarrow> bool" where
  "no_segment r \<longleftrightarrow> r = None"

definition own_local :: "segment_ref option \<Rightarrow> bool" where
  "own_local r \<longleftrightarrow> (\<exists>p l. r = Some (Local_segment p l))"

definition own_remote :: "segment_ref option \<Rightarrow> bool" where
  "own_remote r \<longleftrightarrow> (\<exists>p d. r = Some (Remote_segment p d))"

interpretation plain: teardown remove_map_descriptor no_segment
  by unfold_locales (rule remove_map_descriptor_undo, auto simp: no_segment_def)

interpretation own_l: teardown remove_local_segment own_local
  by unfold_locales (auto simp: own_local_def intro: remove_local_segment_undo)

interpretation own_r: teardown disconnect_remote_segment own_remote
  by unfold_locales (auto simp: own_remote_def intro: disconnect_remote_segment_undo)

section \<open>Every window is balanced\<close>

lemma create_map_descriptor_spec:
  obtains (none) e s' where "create_map_descriptor ctrl sz s = (e, None, s')" "e \<noteq> 0" "gains s s' {#}"
  | (some) md s' where "create_map_descriptor ctrl sz s = (0, Some md, s')" "gains s s' (md_owned md)"
      "md_segment md = None" "io_owned (md_io md) = {#}" "va_owned (md_va md) = {#}" "mp_n_pages (md_dma md) = 1"
      "nvm_device_from_ctrl ctrl \<noteq> None"
proof (cases "nvm_device_from_ctrl ctrl")
  case None
  then show thesis using none [of EINVAL s] by (simp add: create_map_descriptor_def)
next
  case (Some dev)
  obtain p s1 where m: "malloc s = (p, s1)" by fastforce
  show thesis
  proof (cases p)
    case None
    then show thesis using none [of ENOMEM s1] Some m malloc_none [of s s1] by (simp add: create_map_descriptor_def)
  next
    case q: (Some q)
    have g1: "gains s s1 {#(Heap, q)#}" using m q malloc_some by blast
    obtain e d s2 where dg: "nvm_device_get (v_device_id dev) s1 = (e, d, s2)" by (metis prod_cases3)
    show thesis
    proof (cases "e = 0")
      case True
      let ?md = "\<lparr>md_self = q, md_dma = \<lparr>mp_vaddr = NULL, mp_page_size = sz, mp_n_pages = 1\<rparr>,
         md_device = d, md_va = VA_MAP_CLEAR VA_MAP_INIT, md_io = IO_MAP_CLEAR IO_MAP_INIT, md_segment = None\<rparr>"
      have "gains s s2 (md_owned ?md)"
        using gains_trans [OF g1 device.get_ok] dg True by (fastforce simp: md_owned_def sref_owned_def)
      then show thesis using some [of ?md s2] Some m q dg True by (simp add: create_map_descriptor_def)
    next
      case False
      have "gains s s2 {#(Heap, q)#}" using gains_trans [OF g1 device.get_err [OF dg False]] by simp
      from free_undo_only [OF this] show thesis
        using none [of e "free (Some q) s2"] Some m q dg False by (simp add: create_map_descriptor_def)
    qed
  qed
qed

lemma md_owned_io: "io_owned (md_io md) = {#} \<Longrightarrow> md_owned (md\<lparr>md_io := io\<rparr>) = md_owned md + io_owned io"
  by (simp add: md_owned_def ac_simps)

lemma md_owned_va: "va_owned (md_va md) = {#} \<Longrightarrow> md_owned (md\<lparr>md_va := va\<rparr>) = md_owned md + va_owned va"
  by (simp add: md_owned_def ac_simps)

lemma md_owned_segment: "md_segment md = None \<Longrightarrow> md_owned (md\<lparr>md_segment := r\<rparr>) = md_owned md + sref_owned r"
  by (simp add: md_owned_def sref_owned_def ac_simps)

lemma nvm_dis_dma_map_local_spec:
  assumes "sci_releases s" "c_page_size (k_handle ctrl) \<noteq> 0"
  shows "outcome dis_owned (dis_valid remove_map_descriptor no_segment) s
    (nvm_dis_dma_map_local ctrl adapter segment sz map_va s)"
proof (cases rule: create_map_descriptor_spec [of ctrl "NVM_CTRL_ALIGN (k_handle ctrl) sz" s])
  case (none e s1)
  then show ?thesis by (simp add: nvm_dis_dma_map_local_def Let_def)
next
  case (some md s1)
  obtain e io s2 where i: "nvm_io_map_local (v_device (md_device md)) segment adapter s1 = (e, io, s2)" by (metis prod_cases3)
  let ?m1 = "md\<lparr>md_io := io\<rparr>"
  have g2: "gains s s2 (md_owned ?m1)" and s2: "no_segment (md_segment ?m1)"
    using gains_trans [OF some(2)] nvm_io_map_gains(1) [OF i] some by (auto simp: md_owned_io no_segment_def)
  obtain e' va s3 where v: "nvm_va_map_local (NVM_CTRL_ALIGN (k_handle ctrl) sz) segment s2 = (e', va, s3)"
    by (metis prod_cases3)
  let ?m2 = "?m1\<lparr>md_va := va\<rparr>"
  have g3: "gains s s3 (md_owned ?m2)"
    using gains_trans [OF g2] nvm_va_map_gains(1) [OF v] some by (simp add: md_owned_va)
  show ?thesis
    using plain.give_up [OF assms(1) g2 s2, of e] plain.give_up [OF assms(1) g3, of e']
      plain.finish [OF assms(1) g2 s2 assms(2)] plain.finish [of s s3 "set_vaddr ?m2" ctrl] assms g3 some i v
    by (simp add: nvm_dis_dma_map_local_def Let_def no_segment_def)
qed

lemma nvm_dis_dma_map_remote_spec:
  assumes "sci_releases s" "c_page_size (k_handle ctrl) \<noteq> 0"
  shows "outcome dis_owned (dis_valid remove_map_descriptor no_segment) s
    (nvm_dis_dma_map_remote segment_size ctrl segment map_va map_wc s)"
proof -
  define sz where "sz = and (segment_size segment) (NVM_PAGE_MASK (c_page_size (k_handle ctrl)))"
  show ?thesis
  proof (cases rule: create_map_descriptor_spec [of ctrl sz s])
    case (none e s1)
    then show ?thesis by (simp add: nvm_dis_dma_map_remote_def Let_def sz_def)
  next
    case (some md s1)
    obtain e io s2 where i: "nvm_io_map_remote (v_device (md_device md)) segment s1 = (e, io, s2)" by (metis prod_cases3)
    let ?m1 = "md\<lparr>md_io := io\<rparr>"
    have g2: "gains s s2 (md_owned ?m1)" and s2: "no_segment (md_segment ?m1)"
      using gains_trans [OF some(2)] nvm_io_map_gains(2) [OF i] some by (auto simp: md_owned_io no_segment_def)
    obtain e' va s3 where v: "nvm_va_map_remote sz segment True map_wc s2 = (e', va, s3)" by (metis prod_cases3)
    let ?m2 = "?m1\<lparr>md_va := va\<rparr>"
    have g3: "gains s s3 (md_owned ?m2)"
      using gains_trans [OF g2] nvm_va_map_gains(2) [OF v] some by (simp add: md_owned_va)
    show ?thesis
      using plain.give_up [OF assms(1) g2 s2, of e] plain.give_up [OF assms(1) g3, of e']
        plain.finish [OF assms(1) g2 s2 assms(2)] plain.finish [of s s3 "set_vaddr ?m2" ctrl] assms g3 some i v
      by (simp add: nvm_dis_dma_map_remote_def Let_def no_segment_def flip: sz_def)
  qed
qed

interpretation dis_local: lifecycle "\<lambda>_. c_page_size (k_handle ctrl) \<noteq> 0" "dis_valid remove_map_descriptor no_segment"
  "nvm_dis_dma_map_local ctrl adapter segment sz map_va" nvm_dma_unmap dis_owned
  for ctrl adapter segment sz map_va
  by unfold_locales (rule nvm_dis_dma_map_local_spec, assumption+, rule plain.unmap)

interpretation dis_remote: lifecycle "\<lambda>_. c_page_size (k_handle ctrl) \<noteq> 0" "dis_valid remove_map_descriptor no_segment"
  "nvm_dis_dma_map_remote segment_size ctrl segment map_va map_wc" nvm_dma_unmap dis_owned
  for segment_size ctrl segment map_va map_wc
  by unfold_locales (rule nvm_dis_dma_map_remote_spec, assumption+, rule plain.unmap)

lemma connect_remote_segment_spec:
  obtains (none) e s' where "connect_remote_segment dev adapter segno shared s = (e, None, s')" "e \<noteq> 0" "gains s s' {#}"
  | (some) p d s' where "connect_remote_segment dev adapter segno shared s = (0, Some (p, d), s')"
      "gains s s' (sref_owned (Some (Remote_segment p d)))"
proof -
  let ?f = "[if shared then SCI_FLAG_SHARED else SCI_FLAG_PRIVATE]"
  obtain p s1 where m: "malloc s = (p, s1)" by fastforce
  show thesis
  proof (cases p)
    case None
    then show thesis using none [of ENOMEM s1] m malloc_none [of s s1] by (simp add: connect_remote_segment_def)
  next
    case (Some q)
    have g1: "gains s s1 {#(Heap, q)#}" using m Some malloc_some by blast
    obtain e d s2 where dg: "nvm_device_memory_get dev adapter segno ?f s1 = (e, d, s2)" by (metis prod_cases3)
    show thesis
    proof (cases "e = 0")
      case True
      have "gains s s2 (sref_owned (Some (Remote_segment q d)))"
        using gains_trans [OF g1 dmem.get_ok] dg True by (simp add: sref_owned_def)
      then show thesis using some [of q d s2] m Some dg True by (simp add: connect_remote_segment_def)
    next
      case False
      have "gains s s2 {#(Heap, q)#}" using gains_trans [OF g1 dmem.get_err [OF dg False]] by simp
      from free_undo_only [OF this] show thesis
        using none [of e "free (Some q) s2"] m Some dg False by (simp add: connect_remote_segment_def)
    qed
  qed
qed

lemma nvm_dis_dma_connect_spec:
  assumes "sci_releases s" "c_page_size (k_handle ctrl) \<noteq> 0"
  shows "outcome dis_owned (dis_valid disconnect_remote_segment own_remote) s
    (nvm_dis_dma_connect ctrl adapter segno sz shared s)"
proof (cases rule: create_map_descriptor_spec [of ctrl "NVM_CTRL_ALIGN (k_handle ctrl) sz" s])
  case (none e s1)
  then show ?thesis by (simp add: nvm_dis_dma_connect_def Let_def)
next
  case (some md s1)
  then obtain dev where dev: "nvm_device_from_ctrl ctrl = Some dev" by blast
  show ?thesis
  proof (cases rule: connect_remote_segment_spec [of dev adapter segno shared s1])
    case (none e s2)
    have "gains s s2 ({#} + md_owned md)" using gains_trans [OF some(2) none(3)] by simp
    from remove_map_descriptor_undo [OF assms(1) this some(3)] none some dev show ?thesis
      by (auto simp: nvm_dis_dma_connect_def Let_def)
  next
    case seg: (some p d s2)
    let ?m0 = "md\<lparr>md_segment := Some (Remote_segment p d)\<rparr>"
    have g2: "gains s s2 (md_owned ?m0)" using gains_trans [OF some(2) seg(2)] some(3) by (simp add: md_owned_segment)
    obtain e io s3 where i: "nvm_io_map_remote (v_device (md_device md)) (dm_segment d) s2 = (e, io, s3)" by (metis prod_cases3)
    let ?m1 = "?m0\<lparr>md_io := io\<rparr>"
    have g3: "gains s s3 (md_owned ?m1)" and sh: "own_remote (md_segment ?m1)"
      using gains_trans [OF g2] nvm_io_map_gains(2) [OF i] some by (auto simp: md_owned_io own_remote_def)
    obtain e' va s4 where v: "nvm_va_map_remote (NVM_CTRL_ALIGN (k_handle ctrl) sz) (dm_segment d) True True s3 = (e', va, s4)"
      by (metis prod_cases3)
    let ?m2 = "?m1\<lparr>md_va := va\<rparr>"
    have g4: "gains s s4 (md_owned ?m2)"
      using gains_trans [OF g3] nvm_va_map_gains(2) [OF v] some by (simp add: md_owned_va)
    show ?thesis
      using own_r.give_up [OF assms(1) g3 sh, of e] own_r.give_up [OF assms(1) g4, of e']
        own_r.finish [of s s4 "set_vaddr ?m2" ctrl] assms g4 some seg i v dev sh
      by (simp add: nvm_dis_dma_connect_def Let_def)
  qed
qed

interpretation dis_connect: lifecycle "\<lambda>_. c_page_size (k_handle ctrl) \<noteq> 0" "dis_valid disconnect_remote_segment own_remote"
  "nvm_dis_dma_connect ctrl adapter segno sz shared" nvm_dma_unmap dis_owned
  for ctrl adapter segno sz shared
  by unfold_locales (rule nvm_dis_dma_connect_spec, assumption+, rule own_r.unmap)

definition smartio_controller :: controller where
  "smartio_controller = demo_controller\<lparr>k_type := DEVICE_TYPE_SMARTIO, k_ref := Some \<lparr>r_self = 90,
     r_bar = \<lparr>dm_device = \<lparr>v_sd = 91, v_device_id = 7, v_device = 92\<rparr>, dm_adapter = 0, dm_segment_no = 0,
              dm_segment = 93, dm_flags = [SCI_FLAG_BAR]\<rparr>, r_map = VA_MAP_INIT\<rparr>\<rparr>"

lemma demo_releases: "sci_releases demo_os"
  by (auto simp: sci_releases_def demo_os_def)

lemma smartio_page: "c_page_size (k_handle smartio_controller) \<noteq> 0"
  by (simp add: smartio_controller_def demo_controller_def demo_ctrl_def)

section \<open>The descriptor that is left behind\<close>

text \<open>A multiset of SISCI descriptors.\<close>

definition descs :: "res multiset \<Rightarrow> bool" where
  "descs L \<longleftrightarrow> (\<forall>x \<in># L. fst x = Sci_desc)"

lemma descs_simps [simp]: "descs {#}" "descs (seg_left l)" "descs (L + L') \<longleftrightarrow> descs L \<and> descs L'"
  by (auto simp: descs_def seg_left_def)

lemma size_seg_left [simp]: "size (seg_left l) = 1"
  by (simp add: seg_left_def)

lemma create_local_segment_spec:
  assumes "sci_releases s"
  obtains (none) e s' L where "create_local_segment sid sz dptr s = Some (e, None, s')" "e \<noteq> 0" "gains s s' L" "descs L" "size L \<le> 1"
  | (some) p l s' where "create_local_segment sid sz dptr s = Some (0, Some (p, l), s')"
      "gains s s' (sref_owned (Some (Local_segment p l)) + seg_left l)"
proof -
  obtain p s1 where m: "malloc s = (p, s1)" by fastforce
  show thesis
  proof (cases p)
    case None
    then show thesis using none [of ENOMEM s1 "{#}"] m malloc_none [of s s1] by (simp add: create_local_segment_def)
  next
    case (Some q)
    have g1: "gains s s1 {#(Heap, q)#}" using m Some malloc_some by blast
    obtain x l s2 where l: "(if dptr = NULL then Some (nvm_local_memory_get sid sz s1) else nvm_local_memory_get_attached sid dptr sz s1) = Some (x, l, s2)"
      and lg: "if x = 0 then gains s1 s2 (seg_owned l + seg_left l) else gains s1 s2 {#} \<or> gains s1 s2 (seg_left l)"
    proof (cases "dptr = NULL")
      case True
      obtain x l s2 where "nvm_local_memory_get sid sz s1 = (x, l, s2)" by (metis prod_cases3)
      with nvm_local_memory_get_gains [OF this] True that show thesis by (auto split: if_splits)
    next
      case False
      from nvm_local_memory_get_attached_gains [of s1 sid dptr sz] assms sci_releases_gains [OF g1] False that show thesis by auto
    qed
    show thesis
    proof (cases "x = 0")
      case True
      have "gains s s2 (sref_owned (Some (Local_segment q l)) + seg_left l)"
        using gains_trans [OF g1] lg True by (simp add: sref_owned_def)
      then show thesis using some [of q l s2] m Some l True by (simp add: create_local_segment_def)
    next
      case False
      obtain L where L: "gains s1 s2 L" "descs L" "size L \<le> 1" using lg False by (auto intro: that [of "{#}"] that [of "seg_left l"])
      from gains_trans [OF g1 L(1)] have "gains s s2 (L + {#(Heap, q)#})" by (simp add: add.commute)
      from free_undo [OF this] show thesis using none [of x "free (Some q) s2" L] L m Some l False by (simp add: create_local_segment_def)
    qed
  qed
qed

lemma dis_finish_window:
  assumes "dis_finish ctrl md rel s = Some (0, h, s')" "c_page_size (k_handle ctrl) \<noteq> 0" "mp_n_pages (md_dma md) = 1"
  shows "\<exists>c. h = Some c \<and> d_ioaddrs (dc_handle c) \<noteq> []"
  using assms(2)
proof (cases rule: nvm_dma_create_spec [where head = md_dma and md = md and rel = rel and s = s])
  case (made c s2)
  then have r: "region_ok (k_handle ctrl) (md_dma md) [io_ioaddr (md_io md)]"
    using assms(2,3) unat_u64_less by (simp add: region_ok_def)
  then obtain w where w: "nvm_dma_handle_populate (md_dma md) (k_handle ctrl) [io_ioaddr (md_io md)] = Some w"
    "length (d_ioaddrs w) * unat (c_page_size (k_handle ctrl)) = unat (mp_page_size (md_dma md)) * unat (mp_n_pages (md_dma md))"
    using region_populated by blast
  then have "d_ioaddrs w \<noteq> []" using made(6,7) by (auto simp: unat_eq_0)
  then show ?thesis using assms(1) made(1) w(1) by (auto simp: dis_finish_def)
next
  case (refused e s2)
  then show ?thesis using assms(1) by (auto simp: dis_finish_def split: Option.bind_splits)
qed

text \<open>
  The contract of the two functions that make their own local segment: at most one descriptor is left
  behind when they fail, exactly one when they succeed.
\<close>

definition leaves_one :: "os \<Rightarrow> (int \<times> map_descriptor dma option \<times> os) option \<Rightarrow> bool" where
  "leaves_one s r \<longleftrightarrow> (\<exists>e h s' L. r = Some (e, h, s') \<and> descs L \<and> size L \<le> 1 \<and>
     (if e = 0 then gains s s' (L + dis_owned h) \<and> size L = 1 \<and> dis_valid remove_local_segment own_local h
        \<and> (\<exists>c. h = Some c \<and> d_ioaddrs (dc_handle c) \<noteq> [])
      else h = None \<and> gains s s' L))"

lemma leaves_one_give_up:
  assumes "sci_releases s" "gains s s' (L + md_owned md)" "descs L" "size L \<le> 1" "e \<noteq> 0"
  shows "md_segment md = None \<Longrightarrow> leaves_one s (do { s \<leftarrow> remove_map_descriptor md s'; Some (e, None, s) })"
    "own_local (md_segment md) \<Longrightarrow> leaves_one s (do { s \<leftarrow> remove_local_segment md s'; Some (e, None, s) })"
  using remove_map_descriptor_undo [OF assms(1,2)] own_l.undo [OF assms(1,2)] assms(3-5)
  by (auto simp: leaves_one_def)

lemma leaves_one_finish:
  assumes "sci_releases s" "gains s s' (L + md_owned md)" "descs L" "size L = 1" "own_local (md_segment md)"
    and "c_page_size (k_handle ctrl) \<noteq> 0" "mp_n_pages (md_dma md) = 1"
  shows "leaves_one s (dis_finish ctrl md remove_local_segment s')"
  using own_l.finish_left [OF assms(1,2,5,6,7)]
proof (elim disjE exE conjE)
  fix h s'' assume f: "dis_finish ctrl md remove_local_segment s' = Some (0, h, s'')" "gains s s'' (L + dis_owned h)"
    "dis_valid remove_local_segment own_local h"
  from dis_finish_window [OF f(1) assms(6,7)] f assms(3,4) show ?thesis by (auto simp: leaves_one_def)
next
  fix e s'' assume "dis_finish ctrl md remove_local_segment s' = Some (e, None, s'')" "e \<noteq> 0" "gains s s'' L"
  then show ?thesis using assms(3,4) by (auto simp: leaves_one_def)
qed

lemma leaves_one_nothing: "e \<noteq> 0 \<Longrightarrow> gains s s' {#} \<Longrightarrow> leaves_one s (Some (e, None, s'))"
  by (auto simp: leaves_one_def intro!: exI [of _ "{#}"])

lemma segment_io_mapped:
  assumes "gains s s1 (md_owned md)" "md_segment md = None" "io_owned (md_io md) = {#}"
    and "gains s1 s2 (sref_owned (Some (Local_segment p l)) + seg_left l)"
    and "nvm_io_map_local_memory (md_io md) (md_device md) (l_segment l) adapter s2 = (e, io, s3)"
  shows "gains s s3 (seg_left l + md_owned (md\<lparr>md_segment := Some (Local_segment p l), md_io := io\<rparr>))"
proof -
  let ?m0 = "md\<lparr>md_segment := Some (Local_segment p l)\<rparr>"
  from gains_trans [OF assms(1,4)] have g2: "gains s s2 (seg_left l + md_owned ?m0)"
    using assms(2) by (simp add: md_owned_segment ac_simps)
  from gains_trans [OF g2 conjunct1 [OF nvm_io_map_local_memory_gains [OF assms(5,3)]]] show ?thesis
    using assms(3) md_owned_io [of ?m0 io] by (simp add: ac_simps)
qed

lemma nvm_dis_dma_create_leaves:
  assumes "sci_releases s" "c_page_size (k_handle ctrl) \<noteq> 0"
  shows "leaves_one s (nvm_dis_dma_create ctrl adapter sid sz s)"
proof (cases rule: create_map_descriptor_spec [of ctrl "NVM_CTRL_ALIGN (k_handle ctrl) sz" s])
  case (none e s1)
  then show ?thesis using leaves_one_nothing by (simp add: nvm_dis_dma_create_def Let_def)
next
  case (some md s1)
  have rel: "sci_releases s1" using sci_releases_gains [OF some(2)] assms(1) by simp
  from rel show ?thesis
  proof (cases rule: create_local_segment_spec [where sid = sid and sz = "NVM_CTRL_ALIGN (k_handle ctrl) sz" and dptr = NULL])
    case (none e s2 L)
    have "gains s s2 (L + md_owned md)" using gains_trans [OF some(2) none(3)] by (simp add: add.commute)
    from leaves_one_give_up(1) [OF assms(1) this none(4,5,2) some(3)] some none show ?thesis
      by (simp add: nvm_dis_dma_create_def Let_def)
  next
    case seg: (some p l s2)
    obtain e io s3 where i: "nvm_io_map_local_memory (md_io md) (md_device md) (l_segment l) adapter s2 = (e, io, s3)"
      by (metis prod_cases3)
    let ?m1 = "md\<lparr>md_segment := Some (Local_segment p l), md_io := io\<rparr>"
    note g3 = segment_io_mapped [OF some(2,3,4) seg(2) i]
    obtain e' va s4 where v: "nvm_va_map_local (NVM_CTRL_ALIGN (k_handle ctrl) sz) (l_segment l) s3 = (e', va, s4)"
      by (metis prod_cases3)
    let ?m2 = "?m1\<lparr>md_va := va\<rparr>"
    have g4: "gains s s4 (seg_left l + md_owned ?m2)"
      using gains_trans [OF g3 conjunct1 [OF nvm_va_map_gains(1) [OF v]]] some(5) by (simp add: md_owned_va ac_simps)
    show ?thesis
      using leaves_one_give_up(2) [OF assms(1) g3, of e] leaves_one_give_up(2) [OF assms(1) g4, of e']
        leaves_one_finish [of s s4 "seg_left l" "set_vaddr ?m2" ctrl] assms g4 some seg i v
      by (simp add: nvm_dis_dma_create_def Let_def own_local_def)
  qed
qed

lemma nvm_dis_dma_map_device_leaves:
  assumes "sci_releases s" "c_page_size (k_handle ctrl) \<noteq> 0"
  shows "leaves_one s (nvm_dis_dma_map_device ctrl adapter sid dptr sz s)"
proof (cases rule: create_map_descriptor_spec [of ctrl "NVM_CTRL_ALIGN (k_handle ctrl) sz" s])
  case (none e s1)
  then show ?thesis using leaves_one_nothing by (simp add: nvm_dis_dma_map_device_def Let_def)
next
  case (some md s1)
  have rel: "sci_releases s1" using sci_releases_gains [OF some(2)] assms(1) by simp
  from rel show ?thesis
  proof (cases rule: create_local_segment_spec [where sid = sid and sz = "NVM_CTRL_ALIGN (k_handle ctrl) sz" and dptr = dptr])
    case (none e s2 L)
    have "gains s s2 (L + md_owned md)" using gains_trans [OF some(2) none(3)] by (simp add: add.commute)
    from leaves_one_give_up(1) [OF assms(1) this none(4,5,2) some(3)] some none show ?thesis
      by (simp add: nvm_dis_dma_map_device_def Let_def)
  next
    case seg: (some p l s2)
    obtain e io s3 where i: "nvm_io_map_local_memory (md_io md) (md_device md) (l_segment l) adapter s2 = (e, io, s3)"
      by (metis prod_cases3)
    note g3 = segment_io_mapped [OF some(2,3,4) seg(2) i]
    show ?thesis
      using leaves_one_give_up(2) [OF assms(1) g3, of e] leaves_one_finish [OF assms(1) g3, of ctrl] assms some seg i
      by (simp add: nvm_dis_dma_map_device_def Let_def own_local_def)
  qed
qed

lemma nvm_dis_dma_create_spec:
  assumes "sci_releases s" "c_page_size (k_handle ctrl) \<noteq> 0"
  obtains (made) h s' L where "nvm_dis_dma_create ctrl adapter sid sz s = Some (0, h, s')" "gains s s' (L + dis_owned h)"
      "size L = 1" "descs L" "dis_valid remove_local_segment own_local h" "\<exists>c. h = Some c \<and> d_ioaddrs (dc_handle c) \<noteq> []"
  | (failed) e s' L where "nvm_dis_dma_create ctrl adapter sid sz s = Some (e, None, s')" "e \<noteq> 0" "gains s s' L" "descs L"
  using nvm_dis_dma_create_leaves [OF assms, of adapter sid sz] by (auto simp: leaves_one_def split: if_splits)

lemma one_desc: "size L = 1 \<Longrightarrow> descs L \<Longrightarrow> \<exists>sd. L = {#(Sci_desc, sd)#}"
  by (metis descs_def multi_member_last prod.collapse size_1_singleton_mset)

lemma no_desc: "size L \<le> 1 \<Longrightarrow> descs L \<Longrightarrow> L = {#} \<or> (\<exists>sd. L = {#(Sci_desc, sd)#})"
  using one_desc [of L] by (cases "size L") simp_all

lemma leaves_one_balanced:
  assumes "sci_releases s" "leaves_one s r"
  shows "\<exists>e h s1 left. r = Some (e, h, s1) \<and> (left = {#} \<and> e \<noteq> 0 \<or> (\<exists>sd. left = {#(Sci_desc, sd)#}))
    \<and> (e \<noteq> 0 \<longrightarrow> gains s s1 left)
    \<and> (e = 0 \<longrightarrow> (\<forall>s2 r. gains s1 s2 r \<longrightarrow> (\<exists>s3. nvm_dma_unmap h s2 = Some s3 \<and> gains s s3 (left + r))))"
proof -
  from assms(2) obtain e h s1 L where r: "r = Some (e, h, s1)" "descs L" "size L \<le> 1"
    and o: "if e = 0 then gains s s1 (L + dis_owned h) \<and> size L = 1 \<and> dis_valid remove_local_segment own_local h else gains s s1 L"
    by (auto simp: leaves_one_def split: if_splits)
  have "\<exists>s3. nvm_dma_unmap h s2 = Some s3 \<and> gains s s3 (L + x)" if e: "e = 0" and g: "gains s1 s2 x" for s2 x
  proof -
    have "gains s s2 ((L + x) + dis_owned h)" using gains_trans [OF _ g, of s "L + dis_owned h"] o e by (simp add: ac_simps)
    with own_l.unmap_undo [OF assms(1)] o e show ?thesis by simp
  qed
  moreover have "L = {#} \<and> e \<noteq> 0 \<or> (\<exists>sd. L = {#(Sci_desc, sd)#})"
    using r(2,3) o one_desc [of L] no_desc [of L] by (cases "e = 0") auto
  ultimately show ?thesis using r(1) o by (intro exI [of _ e] exI [of _ h] exI [of _ s1] exI [of _ L]) simp
qed

text \<open>
  C23: the five functions that map a DMA window over SISCI always return, on a controller with a page
  size and as long as SISCI does not stay busy forever when something is released.  \<open>left\<close> is what they
  never give back: nothing for \<open>nvm_dis_dma_map_local\<close>, \<open>nvm_dis_dma_map_remote\<close> and
  \<open>nvm_dis_dma_connect\<close>; for \<open>nvm_dis_dma_create\<close> and \<open>nvm_dis_dma_map_device\<close>, which make a local segment,
  the descriptor opened for that segment, exactly one after a success and at most one after a failure.
  After a failure nothing else is held that was not held before, and after a success unmapping the
  window leaves nothing else but what was acquired in between.
\<close>

theorem dis_windows_balanced:
  fixes create :: "os \<Rightarrow> (int \<times> map_descriptor dma option \<times> os) option"
  assumes "sci_releases s" "c_page_size (k_handle ctrl) \<noteq> 0"
    and "foreign = (create = nvm_dis_dma_map_local ctrl adapter segment sz map_va
       \<or> create = nvm_dis_dma_map_remote segment_size ctrl segment map_va map_wc
       \<or> create = nvm_dis_dma_connect ctrl adapter segno sz shared)"
    and "foreign \<or> create = nvm_dis_dma_create ctrl adapter segno sz \<or> create = nvm_dis_dma_map_device ctrl adapter segno dptr sz"
  shows "\<exists>e h s1 left. create s = Some (e, h, s1)
    \<and> (if foreign then left = {#} else left = {#} \<and> e \<noteq> 0 \<or> (\<exists>sd. left = {#(Sci_desc, sd)#}))
    \<and> (e \<noteq> 0 \<longrightarrow> gains s s1 left)
    \<and> (e = 0 \<longrightarrow> (\<forall>s2 r. gains s1 s2 r \<longrightarrow> (\<exists>s3. nvm_dma_unmap h s2 = Some s3 \<and> gains s s3 (left + r))))"
proof (cases foreign)
  case True
  then consider "create = nvm_dis_dma_map_local ctrl adapter segment sz map_va"
    | "create = nvm_dis_dma_map_remote segment_size ctrl segment map_va map_wc"
    | "create = nvm_dis_dma_connect ctrl adapter segno sz shared"
    using assms(3) by blast
  then have "\<exists>e h s1. create s = Some (e, h, s1) \<and> (e \<noteq> 0 \<longrightarrow> gains s s1 {#})
    \<and> (e = 0 \<longrightarrow> (\<forall>s2 r. gains s1 s2 r \<longrightarrow> (\<exists>s3. nvm_dma_unmap h s2 = Some s3 \<and> gains s s3 r)))"
    using dis_local.balanced [OF assms(1,2)] dis_remote.balanced [OF assms(1,2)] dis_connect.balanced [OF assms(1,2)]
    by cases simp_all
  then show ?thesis using True by (simp add: exI [of _ "{#}"])
next
  case False
  then have "leaves_one s (create s)"
    using assms(4) nvm_dis_dma_create_leaves [OF assms(1,2)] nvm_dis_dma_map_device_leaves [OF assms(1,2)] by auto
  from leaves_one_balanced [OF assms(1) this] False show ?thesis by simp
qed

theorem dis_windows_balanced_witness:
  "\<exists>e h s1 left. nvm_dis_dma_connect smartio_controller 0 1 0x1000 True demo_os = Some (e, h, s1) \<and> left = {#}
     \<and> (e \<noteq> 0 \<longrightarrow> gains demo_os s1 left)
     \<and> (e = 0 \<longrightarrow> (\<forall>s2 r. gains s1 s2 r \<longrightarrow> (\<exists>s3. nvm_dma_unmap h s2 = Some s3 \<and> gains demo_os s3 (left + r))))"
  using dis_windows_balanced [OF demo_releases smartio_page refl disjI1 [OF disjI2 [OF disjI2 [OF refl]]],
      where adapter = 0 and segno = 1 and sz = "0x1000" and shared = True] by simp

text \<open>
  a window made by \<open>nvm_dis_dma_create\<close> gives back everything when it is unmapped, except the
  SISCI descriptor that was opened for its local segment: exactly one descriptor is left behind.
\<close>

theorem dis_create_leaks_descriptor:
  assumes "sci_releases s" "c_page_size (k_handle ctrl) \<noteq> 0"
    and "nvm_dis_dma_create ctrl adapter sid sz s = Some (0, h, s')"
  shows "\<exists>sd s''. nvm_dma_unmap h s' = Some s'' \<and> gains s s'' {#(Sci_desc, sd)#}"
  using assms(1,2)
proof (cases rule: nvm_dis_dma_create_spec [where adapter = adapter and sid = sid and sz = sz])
  case (made h' s1 L)
  then have h: "h' = h" "s1 = s'" using assms(3) by simp_all
  from one_desc [OF made(3,4)] obtain sd where "L = {#(Sci_desc, sd)#}" ..
  with own_l.unmap_undo [OF assms(1) made(5,2)] h show ?thesis by blast
next
  case (failed e s1 L)
  then show ?thesis using assms(3) by simp
qed

lemma demo_dis_create: "\<exists>h s'. nvm_dis_dma_create smartio_controller 0 5 0x1000 demo_os = Some (0, h, s')"
proof -
  have al: "NVM_CTRL_ALIGN (k_handle smartio_controller) 0x1000 = 0x1000"
    by (simp add: NVM_CTRL_ALIGN_def NVM_PAGE_ALIGN_def NVM_PAGE_MASK_def smartio_controller_def demo_controller_def demo_ctrl_def)
  have pg: "c_page_size demo_ctrl = 0x1000" by (simp add: demo_ctrl_def)
  have "\<exists>h. nvm_dma_handle_populate \<lparr>mp_vaddr = v, mp_page_size = 0x1000, mp_n_pages = 1\<rparr> demo_ctrl [a] = Some h" for v a
    using region_populated [of demo_ctrl "\<lparr>mp_vaddr = v, mp_page_size = 0x1000, mp_n_pages = 1\<rparr>" "[a]"]
    by (auto simp: region_ok_def pg)
  then obtain H where pop:
    "\<And>v a. nvm_dma_handle_populate \<lparr>mp_vaddr = v, mp_page_size = 0x1000, mp_n_pages = 1\<rparr> demo_ctrl [a] = Some (H v a)"
    by metis
  show ?thesis
    unfolding nvm_dis_dma_create_def al Let_def
    by (simp add: create_map_descriptor_def nvm_device_from_ctrl_def smartio_controller_def
        demo_os_def malloc_def acquire_def sys_call_def grant_def nvm_device_get_def sci_acquire_def sci_call_def
        create_local_segment_def nvm_local_memory_get_def create_segment_def nvm_io_map_local_memory_def
        nvm_io_map_local_def sci_acquire_at_def nvm_va_map_local_def dis_finish_def nvm_dma_create_def set_vaddr_def
        demo_controller_def Let_def pg pop)
qed

theorem dis_create_leaks_descriptor_witness:
  "\<exists>h s' sd s''. nvm_dis_dma_create smartio_controller 0 5 0x1000 demo_os = Some (0, h, s')
     \<and> nvm_dma_unmap h s' = Some s'' \<and> os_live s'' = {#(Sci_desc, sd)#}"
proof -
  from demo_dis_create obtain h s' where c: "nvm_dis_dma_create smartio_controller 0 5 0x1000 demo_os = Some (0, h, s')"
    by blast
  from dis_create_leaks_descriptor [OF demo_releases smartio_page c] c show ?thesis
    by (auto simp: gains_def demo_os_def)
qed

end
