(* ===== verification/Dis_Rpc.thy ===== *)
theory Dis_Rpc
  imports Rpc Dis_Interrupt Dis_Dma
begin

unbundle bit_operations_syntax

text \<open>
  Remote procedure calls between hosts: \<open>src/dis/rpc.c\<close>.  A server exports a binding handle per
  adapter through the shared memory of the device and serves commands in an interrupt callback; a
  client binds to one of the exported interrupts.  Messages are lists of 32-bit words in the layout
  of the packed structs: a request is the node, the interrupt and the command (18 words), a reply the
  command and the completion (20 words).  A pointer to a reference is the identity of the reference.
  Fields the code does not initialise are arguments named \<open>junk\<close>.
\<close>

definition NVM_DIS_RPC_MAX_ADAPTER :: u32 where "NVM_DIS_RPC_MAX_ADAPTER = 4"
definition RPC_MAGIC_SIGNATURE :: u32 where "RPC_MAGIC_SIGNATURE = 0xDEADBEEF"

record handle_info =
  hi_magic :: u32
  hi_node_id :: u32
  hi_intr_no :: u32

text \<open>The callback may modify the command in place; it gets the adapter and the node.\<close>

type_synonym rpc_cb = "nvm_cmd \<Rightarrow> u32 \<Rightarrow> u32 \<Rightarrow> bool \<times> nvm_cmd"

record binding_handle =
  bh_self :: nat
  bh_dmem :: device_memory
  bh_rpc_ref :: nat
  bh_rpc_cb :: "rpc_cb option"
  bh_intr :: local_intr

record binding =
  b_self :: nat
  b_dmem :: device_memory
  b_lintr :: local_intr
  b_rintr :: remote_intr

type_synonym aq_ref = "(binding_handle, binding) nvm_admin_reference"

section \<open>Commands\<close>

definition handle_remote_command ::
  "bool \<Rightarrow> device \<Rightarrow> nvm_cpl \<Rightarrow> binding_handle \<Rightarrow> aq_ref \<Rightarrow> u32 list \<Rightarrow> os \<Rightarrow> world \<Rightarrow> (aq_ref \<times> os \<times> world) option" where
  "handle_remote_command ndebug dev junk handle ref request s w =
     (let adapter = li_adapter (bh_intr handle); node_id = request ! 0; intr_no = request ! 1 in
      if length request \<noteq> 18 then Some (ref, s, w)
      else
        case (case bh_rpc_cb handle of None \<Rightarrow> (True, drop 2 request) | Some cb \<Rightarrow> cb (drop 2 request) adapter node_id) of
          (accepted, cmd) \<Rightarrow>
            do { (reply, ref, s, w) \<leftarrow>
                   (if accepted
                    then do { (_, ref, cpl, s, w) \<leftarrow> nvm_local_admin dev ref cmd junk s w;
                              Some (cmd @ cpl, ref, s, w) }
                    else Some (replicate 16 0 @ junk, ref, s, w));
                 Some (ref, snd (nvm_remote_intr_fire_and_forget ndebug adapter node_id intr_no reply s), w) })"

text \<open>A packed status with a NULL completion does not read memory.\<close>

definition remote_command ::
  "u32 list \<Rightarrow> binding \<Rightarrow> nvm_cmd option \<Rightarrow> nvm_cpl option \<Rightarrow> os \<Rightarrow> int \<times> nvm_cmd option \<times> nvm_cpl option \<times> os" where
  "remote_command junk binding cmd cpl s =
     (case (cmd, cpl) of
        (Some c, Some _) \<Rightarrow>
          let request = [li_node_id (b_lintr binding), li_intr_no (b_lintr binding)] @ c in
          (case nvm_remote_intr_trigger (b_rintr binding) request s of (status, s) \<Rightarrow>
             if status \<noteq> 0 then (NVM_ERR_PACK (\<lambda>_. 0) NULL status, cmd, cpl, s)
             else
               case nvm_local_intr_wait (b_lintr binding) junk s of (status, reply, s) \<Rightarrow>
                 if status \<noteq> 0 then (NVM_ERR_PACK (\<lambda>_. 0) NULL status, cmd, cpl, s)
                 else
                   let c = take 16 reply; r = drop 16 reply in
                   (NVM_ERR_PACK (\<lambda>_. 0) NULL (if c ! 0 = 0 then EPERM else 0), Some c, Some r, s))
      | _ \<Rightarrow> (NVM_ERR_PACK (\<lambda>_. 0) NULL EINVAL, cmd, cpl, s))"

text \<open>The stub of a client reference: the caller of \<open>nvm_raw_rpc\<close> passes both structs.\<close>

definition remote_stub :: "u32 list \<Rightarrow> binding \<Rightarrow> nvm_cmd \<Rightarrow> nvm_cpl \<Rightarrow> os \<Rightarrow> int \<times> nvm_cmd \<times> nvm_cpl \<times> os" where
  "remote_stub junk b cmd cpl s =
     (case remote_command junk b (Some cmd) (Some cpl) s of
        (err, Some c, Some r, s) \<Rightarrow> (err, c, r, s)
      | (err, _, _, s) \<Rightarrow> (err, cmd, cpl, s))"

section \<open>Handle information in shared memory\<close>

text \<open>The table has an entry of three words per adapter.\<close>

definition info_write :: "device_memory \<Rightarrow> u32 \<Rightarrow> handle_info \<Rightarrow> os \<Rightarrow> os" where
  "info_write dmem i info s =
     (let seg = (v_device_id (dm_device dmem), dm_segment_no dmem) in
      s\<lparr>os_shm := (os_shm s)(seg := store_dwords (12 * ucast i) [hi_magic info, hi_node_id info, hi_intr_no info] (os_shm s seg))\<rparr>)"

definition info_read :: "device_memory \<Rightarrow> nat \<Rightarrow> os \<Rightarrow> handle_info" where
  "info_read dmem i s =
     (let m = os_shm s (v_device_id (dm_device dmem), dm_segment_no dmem); a = 12 * of_nat i in
      \<lparr>hi_magic = load32 m a, hi_node_id = load32 m (a + 4), hi_intr_no = load32 m (a + 8)\<rparr>)"

definition write_handle_info :: "binding_handle \<Rightarrow> u32 \<Rightarrow> bool \<Rightarrow> os \<Rightarrow> (int \<times> os) option" where
  "write_handle_info handle adapter clear s =
     (case nvm_va_map_remote (12 * ucast NVM_DIS_RPC_MAX_ADAPTER) (dm_segment (bh_dmem handle)) True False s of
        (status, mapping, s) \<Rightarrow>
          if status \<noteq> 0 then Some (status, s)
          else
            let s = info_write (bh_dmem handle) adapter
                      \<lparr>hi_magic = (if clear then 0 else 0xDEADBEEF),
                       hi_node_id = (if clear then 0 else li_node_id (bh_intr handle)),
                       hi_intr_no = (if clear then 0 else li_intr_no (bh_intr handle))\<rparr> s in
            do { (_, s) \<leftarrow> nvm_va_unmap mapping s; Some (0, s) })"

section \<open>Server\<close>

definition create_binding_handle ::
  "bool \<Rightarrow> u32 \<Rightarrow> aq_ref option \<Rightarrow> u32 \<Rightarrow> rpc_cb option \<Rightarrow> os \<Rightarrow> (int \<times> binding_handle option \<times> os) option" where
  "create_binding_handle ndebug junk ref adapter cb s =
     (case nvm_ctrl_from_aq_ref ref of
        None \<Rightarrow> Some (EINVAL, None, s)
      | Some ctrl \<Rightarrow>
          (case nvm_device_from_ctrl ctrl of
             None \<Rightarrow> Some (EINVAL, None, s)
           | Some dev \<Rightarrow>
               (case malloc s of
                  (None, s) \<Rightarrow> Some (ENOMEM, None, s)
                | (Some p, s) \<Rightarrow>
                    (case nvm_device_memory_get dev adapter 0 [SCI_FLAG_SHARED] s of (status, dmem, s) \<Rightarrow>
                       if status \<noteq> 0 then Some (status, None, free (Some p) s)
                       else
                         case nvm_local_intr_get ndebug junk adapter p Handle_remote_command s of (status, intr, s) \<Rightarrow>
                           if status \<noteq> 0
                           then do { s \<leftarrow> nvm_device_memory_put dmem s; Some (status, None, free (Some p) s) }
                           else
                             let bh = \<lparr>bh_self = p, bh_dmem = dmem, bh_rpc_ref = f_self (the ref),
                                       bh_rpc_cb = cb, bh_intr = intr\<rparr> in
                             do { (status, s) \<leftarrow> write_handle_info bh adapter False s;
                                  if status \<noteq> 0
                                  then do { s \<leftarrow> nvm_device_memory_put dmem s; Some (status, None, free (Some p) s) }
                                  else Some (0, Some bh, s) }))))"

definition remove_binding_handle :: "binding_handle \<Rightarrow> u32 \<Rightarrow> os \<Rightarrow> os option" where
  "remove_binding_handle handle adapter s =
     do { (_, s) \<leftarrow> write_handle_info handle adapter True s;
          s \<leftarrow> nvm_local_intr_put (bh_intr handle) s;
          s \<leftarrow> nvm_device_memory_put (bh_dmem handle) s;
          Some (free (Some (bh_self handle)) s) }"

definition binding_handle_deleter :: "binding_handle rpc_deleter" where
  "binding_handle_deleter handle key n s = remove_binding_handle handle key s"

definition nvm_dis_rpc_enable ::
  "bool \<Rightarrow> u32 \<Rightarrow> aq_ref \<Rightarrow> u32 \<Rightarrow> rpc_cb option \<Rightarrow> os \<Rightarrow> (int \<times> aq_ref \<times> os) option" where
  "nvm_dis_rpc_enable ndebug junk ref adapter cb s =
     (if adapter \<ge> NVM_DIS_RPC_MAX_ADAPTER then Some (EINVAL, ref, s)
      else
        do { (err, handle, s) \<leftarrow> create_binding_handle ndebug junk (Some ref) adapter cb s;
             if err \<noteq> 0 then Some (err, ref, s)
             else
               case nvm_rpc_handle_insert ref adapter handle (Some binding_handle_deleter) s of (err, ref, s) \<Rightarrow>
                 if err \<noteq> 0
                 then do { h \<leftarrow> handle; s \<leftarrow> remove_binding_handle h adapter s; Some (err, ref, s) }
                 else Some (0, ref, s) })"

definition nvm_dis_rpc_disable :: "aq_ref \<Rightarrow> u32 \<Rightarrow> os \<Rightarrow> (aq_ref \<times> os) option" where
  "nvm_dis_rpc_disable ref adapter s = nvm_rpc_handle_remove ref adapter s"

section \<open>Client\<close>

text \<open>The loop over the exported interrupts, from entry \<open>i\<close> on.\<close>

fun try_bind_loop :: "bool \<Rightarrow> device_memory \<Rightarrow> nat list \<Rightarrow> os \<Rightarrow> remote_intr option \<times> os" where
  "try_bind_loop ndebug dmem [] s = (None, s)"
| "try_bind_loop ndebug dmem (i # is) s =
     (let info = info_read dmem i s in
      if hi_magic info \<noteq> RPC_MAGIC_SIGNATURE then try_bind_loop ndebug dmem is s
      else
        case nvm_remote_intr_get ndebug (dm_adapter dmem) (hi_node_id info) (hi_intr_no info) s of (err, rintr, s) \<Rightarrow>
          if err = 0 then (Some rintr, s) else try_bind_loop ndebug dmem is s)"

definition try_bind :: "bool \<Rightarrow> binding \<Rightarrow> nat \<Rightarrow> os \<Rightarrow> (int \<times> binding \<times> os) option" where
  "try_bind ndebug binding n_max s =
     (case nvm_va_map_remote (12 * ucast NVM_DIS_RPC_MAX_ADAPTER) (dm_segment (b_dmem binding)) False False s of
        (err, mapping, s) \<Rightarrow>
          if err \<noteq> 0 then Some (err, binding, s)
          else
            case try_bind_loop ndebug (b_dmem binding) [0..<n_max] s of (r, s) \<Rightarrow>
              do { (_, s) \<leftarrow> nvm_va_unmap mapping s;
                   case r of
                     Some rintr \<Rightarrow> Some (0, binding\<lparr>b_rintr := rintr\<rparr>, s)
                   | None \<Rightarrow> Some (ECONNREFUSED, binding, s) })"

definition create_binding ::
  "bool \<Rightarrow> u32 \<Rightarrow> sci_dev \<Rightarrow> u32 \<Rightarrow> os \<Rightarrow> (int \<times> binding option \<times> os) option" where
  "create_binding ndebug junk dev adapter s =
     (case malloc s of
        (None, s) \<Rightarrow> Some (ENOMEM, None, s)
      | (Some p, s) \<Rightarrow>
          (case nvm_device_memory_get dev adapter 0 [SCI_FLAG_SHARED] s of (status, dmem, s) \<Rightarrow>
             if status \<noteq> 0 then Some (status, None, free (Some p) s)
             else
               case nvm_local_intr_get ndebug junk adapter 0 No_callback s of (status, lintr, s) \<Rightarrow>
                 if status \<noteq> 0
                 then do { s \<leftarrow> nvm_device_memory_put dmem s; Some (status, None, free (Some p) s) }
                 else
                   let b = \<lparr>b_self = p, b_dmem = dmem, b_lintr = lintr, b_rintr = \<lparr>ri_sd = 0, ri_intr = 0\<rparr>\<rparr> in
                   do { (status, b, s) \<leftarrow> try_bind ndebug b (unat NVM_DIS_RPC_MAX_ADAPTER) s;
                        if status \<noteq> 0
                        then do { s \<leftarrow> nvm_local_intr_put (b_lintr b) s;
                                  s \<leftarrow> nvm_device_memory_put (b_dmem b) s;
                                  Some (status, None, free (Some p) s) }
                        else Some (0, Some b, s) }))"

definition remove_binding :: "binding \<Rightarrow> os \<Rightarrow> os option" where
  "remove_binding b s =
     do { let s = nvm_remote_intr_put (b_rintr b) s;
          s \<leftarrow> nvm_local_intr_put (b_lintr b) s;
          s \<leftarrow> nvm_device_memory_put (b_dmem b) s;
          Some (free (Some (b_self b)) s) }"

definition binding_deleter :: "binding ref_data option rpc_deleter" where
  "binding_deleter d key n s = (case d of Some (Binding b) \<Rightarrow> remove_binding b s | _ \<Rightarrow> None)"

definition nvm_dis_rpc_bind ::
  "bool \<Rightarrow> int \<Rightarrow> u32 \<Rightarrow> controller \<Rightarrow> u32 \<Rightarrow> os \<Rightarrow> (int \<times> aq_ref option \<times> os) option" where
  "nvm_dis_rpc_bind ndebug junk_n junk ctrl adapter s =
     (case nvm_device_from_ctrl ctrl of
        None \<Rightarrow> Some (EINVAL, None, s)
      | Some dev \<Rightarrow>
          (case nvm_ref_get junk_n ctrl s of
             (err, None, s) \<Rightarrow> Some (err, None, s)
           | (err, Some ref, s) \<Rightarrow>
               do { (err, binding, s) \<leftarrow> create_binding ndebug junk dev adapter s;
                    if err \<noteq> 0 then do { s \<leftarrow> nvm_ref_put (Some ref) s; Some (err, None, s) }
                    else
                      case nvm_rpc_bind ref (map_option Binding binding) (Some binding_deleter) (Some Remote_command) s of (err, ref, s) \<Rightarrow>
                        if err \<noteq> 0
                        then do { b \<leftarrow> binding; s \<leftarrow> remove_binding b s; s \<leftarrow> nvm_ref_put (Some ref) s; Some (err, None, s) }
                        else Some (0, Some ref, s) }))"

section \<open>Messages\<close>

lemma sci_call_sent: "sci_call s = (e, s') \<Longrightarrow> os_sent s' = os_sent s"
  by (auto simp: sci_call_def)

lemma sci_acquire_sent: "sci_acquire k s = (e, h, s') \<Longrightarrow> os_sent s' = os_sent s"
  by (auto simp: sci_acquire_def grant_def sci_call_def Let_def split: if_splits)

lemma release_sent [simp]: "os_sent (release k h s) = os_sent s"
  by (simp add: release_def)

lemma nvm_remote_intr_get_sent: "nvm_remote_intr_get ndebug a n i s = (e, h, s') \<Longrightarrow> os_sent s' = os_sent s"
  by (auto simp: nvm_remote_intr_get_def Let_def split: prod.splits if_splits dest!: sci_acquire_sent)

lemma fire_and_forget_sent:
  "nvm_remote_intr_fire_and_forget ndebug a n i data s = (e, s') \<Longrightarrow>
   os_sent s' = os_sent s \<or> (\<exists>x. os_sent s' = os_sent s @ [(x, data)])"
  by (auto simp: nvm_remote_intr_fire_and_forget_def nvm_remote_intr_trigger_def nvm_remote_intr_put_def
      split: prod.splits if_splits dest!: nvm_remote_intr_get_sent sci_call_sent)

lemma mutex_lock_sent: "mutex_lock r s = (e, s') \<Longrightarrow> os_sent s' = os_sent s"
  and mutex_unlock_sent: "os_sent (mutex_unlock r s) = os_sent s"
  by (auto simp: mutex_lock_def mutex_unlock_def Let_def split: if_splits)

lemma nvm_local_admin_sent: "nvm_local_admin dev ref cmd cpl s w = Some (e, ref', cpl', s', w') \<Longrightarrow> os_sent s' = os_sent s"
  by (auto simp: nvm_local_admin_def mutex_unlock_sent split: prod.splits if_splits option.splits ref_data.splits
      Option.bind_splits dest: mutex_lock_sent)

lemma execute_command_length:
  "execute_command dev admin cmd cpl w = Some (e, admin', cpl', w') \<Longrightarrow> length cpl = 4 \<Longrightarrow> length cpl' = 4"
  by (auto simp: execute_command_def Let_def split: prod.splits if_splits Option.bind_splits)

lemma nvm_local_admin_length:
  "nvm_local_admin dev ref cmd cpl s w = Some (e, ref', cpl', s', w') \<Longrightarrow> length cpl = 4 \<Longrightarrow> length cpl' = 4"
  by (auto simp: nvm_local_admin_def split: prod.splits if_splits option.splits ref_data.splits
      Option.bind_splits dest: execute_command_length)

text \<open>What the callback of a handle makes of a command.\<close>

definition filtered :: "binding_handle \<Rightarrow> nvm_cmd \<Rightarrow> u32 \<Rightarrow> bool \<times> nvm_cmd" where
  "filtered handle cmd node =
     (case bh_rpc_cb handle of None \<Rightarrow> (True, cmd) | Some cb \<Rightarrow> cb cmd (li_adapter (bh_intr handle)) node)"

lemma handle_remote_command_cases:
  assumes "length cmd = 16" "filtered handle cmd node = (accepted, cmd')"
  shows "handle_remote_command ndebug dev junk handle ref ([node, no] @ cmd) s w =
    (if accepted
     then (case nvm_local_admin dev ref cmd' junk s w of
             None \<Rightarrow> None
           | Some (_, ref, cpl, s, w) \<Rightarrow> Some (ref, snd (nvm_remote_intr_fire_and_forget ndebug
               (li_adapter (bh_intr handle)) node no (cmd' @ cpl) s), w))
     else Some (ref, snd (nvm_remote_intr_fire_and_forget ndebug (li_adapter (bh_intr handle)) node no
               (replicate 16 0 @ junk) s), w))"
  using assms by (simp add: handle_remote_command_def filtered_def Let_def split: option.splits)

lemma remote_command_reply:
  assumes "length junk = 20" "length reply = 20"
    and "os_sci c (os_calls c) = SCI_ERR_OK" "os_sci c (Suc (os_calls c)) = SCI_ERR_OK"
    and "os_recv c (Suc (os_calls c)) = reply"
  shows "\<exists>c'. remote_command junk b (Some cmd) (Some cpl) c =
      (if reply ! 0 = 0 then EPERM else 0, Some (take 16 reply), Some (drop 16 reply), c')
    \<and> os_sent c' = os_sent c @ [(ri_intr (b_rintr b), [li_node_id (b_lintr b), li_intr_no (b_lintr b)] @ cmd)]"
  using assms by (auto simp: remote_command_def nvm_remote_intr_trigger_def nvm_local_intr_wait_def sci_call_def
      NVM_ERR_PACK_def Let_def)

text \<open>
  C22: a remote command is executed by the server as its callback left it.  The client that sent the
  request and receives the reply the server sent gets the modified command and its completion and
  returns 0; a rejected command, and one whose first word is zero, is EPERM.  Whether executing the
  command succeeded on the server has no influence on what the client returns.
\<close>

theorem remote_call_round_trip:
  assumes "length cmd = 16" "length cpl = 4" "length junk = 20" "length junk' = 4"
    and "request = [li_node_id (b_lintr b), li_intr_no (b_lintr b)] @ cmd"
    and "filtered handle cmd (li_node_id (b_lintr b)) = (accepted, cmd')" "length cmd' = 16"
    and "handle_remote_command ndebug dev junk' handle ref request s w = Some (ref', s', w')"
    and "os_sent s' \<noteq> os_sent s"
    and "os_sci c (os_calls c) = SCI_ERR_OK" "os_sci c (Suc (os_calls c)) = SCI_ERR_OK"
    and "os_recv c (Suc (os_calls c)) = snd (last (os_sent s'))"
  shows "\<exists>c'. snd (last (os_sent c')) = request \<and>
    (if accepted
     then \<exists>err cpl' s1. nvm_local_admin dev ref cmd' junk' s w = Some (err, ref', cpl', s1, w')
       \<and> remote_command junk b (Some cmd) (Some cpl) c = (if cmd' ! 0 = 0 then EPERM else 0, Some cmd', Some cpl', c')
     else ref' = ref \<and> w' = w
       \<and> remote_command junk b (Some cmd) (Some cpl) c = (EPERM, Some (replicate 16 0), Some junk', c'))"
proof (cases accepted)
  case True
  note h = handle_remote_command_cases [OF assms(1,6), of ndebug dev junk' ref "li_intr_no (b_lintr b)" s w]
  from assms(5,8) True h obtain err cpl' s1 where
    a: "nvm_local_admin dev ref cmd' junk' s w = Some (err, ref', cpl', s1, w')" and
    f: "s' = snd (nvm_remote_intr_fire_and_forget ndebug (li_adapter (bh_intr handle)) (li_node_id (b_lintr b))
          (li_intr_no (b_lintr b)) (cmd' @ cpl') s1)"
    by (auto split: option.splits)
  obtain x where "os_sent s' = os_sent s1 @ [(x, cmd' @ cpl')]"
    using fire_and_forget_sent [OF surjective_pairing] f assms(9) nvm_local_admin_sent [OF a] by metis
  then have r: "os_recv c (Suc (os_calls c)) = cmd' @ cpl'" using assms(12) by simp
  have "length (cmd' @ cpl') = 20" using assms(4,7) nvm_local_admin_length [OF a] by simp
  from remote_command_reply [OF assms(3) this assms(10,11) r, of b cmd cpl] True a assms(1,5,7)
  show ?thesis by (auto simp: nth_append)
next
  case False
  note h = handle_remote_command_cases [OF assms(1,6), of ndebug dev junk' ref "li_intr_no (b_lintr b)" s w]
  from assms(5,8) False h have f: "ref' = ref" "w' = w"
    "s' = snd (nvm_remote_intr_fire_and_forget ndebug (li_adapter (bh_intr handle)) (li_node_id (b_lintr b))
          (li_intr_no (b_lintr b)) (replicate 16 0 @ junk') s)"
    by auto
  obtain x where "os_sent s' = os_sent s @ [(x, replicate 16 0 @ junk')]"
    using fire_and_forget_sent [OF surjective_pairing] f(3) assms(9) by metis
  then have r: "os_recv c (Suc (os_calls c)) = replicate 16 0 @ junk'" using assms(12) by simp
  have "length (replicate 16 0 @ junk') = 20" using assms(4) by simp
  from remote_command_reply [OF assms(3) this assms(10,11) r, of b cmd cpl] False f assms(1,5)
  show ?thesis by (auto simp: nth_append)
qed

section \<open>Exported handle information\<close>

lemma info_write_gains [simp]: "gains s (info_write dmem i info s) {#}"
  by (simp add: info_write_def gains_def Let_def)

lemma write_handle_info_gains:
  assumes "sci_releases s"
  shows "\<exists>st s'. write_handle_info handle adapter clear s = Some (st, s') \<and> gains s s' {#}"
proof -
  obtain st m s1 where v: "nvm_va_map_remote (12 * ucast NVM_DIS_RPC_MAX_ADAPTER) (dm_segment (bh_dmem handle)) True False s
      = (st, m, s1)" by (metis prod_cases3)
  show ?thesis
  proof (cases "st = 0")
    case False
    with va_remote.get_err [OF v] v show ?thesis by (simp add: write_handle_info_def)
  next
    case True
    let ?s = "info_write (bh_dmem handle) adapter \<lparr>hi_magic = if clear then 0 else 0xDEADBEEF,
        hi_node_id = if clear then 0 else li_node_id (bh_intr handle),
        hi_intr_no = if clear then 0 else li_intr_no (bh_intr handle)\<rparr> s1"
    from va_remote.roundtrip [OF v [unfolded True] _ assms, of ?s "{#}"]
    obtain x s2 where "nvm_va_unmap m ?s = Some (x, s2)" "gains s s2 {#}" by auto
    with True v show ?thesis by (simp add: write_handle_info_def)
  qed
qed

lemma info_entries_disjoint: "i \<noteq> j \<Longrightarrow> i < 4 \<Longrightarrow> j < 4 \<Longrightarrow> in_range (12 * of_nat j) 12 x \<Longrightarrow> \<not> in_range (12 * of_nat i) 12 x"
  for i j :: nat
proof -
  assume a: "i \<noteq> j" "i < 4" "j < 4" "in_range (12 * of_nat j) 12 x"
  show ?thesis
  proof (cases "j < i")
    case True
    have e: "(12 * of_nat i :: u64) = 12 * of_nat j + of_nat (12 * (i - j))" using True by (simp add: of_nat_diff algebra_simps)
    show ?thesis unfolding e by (rule in_range_disjoint [OF a(4)]) (use True a in auto)
  next
    case False
    with a have lt: "i < j" by simp
    have e: "(12 * of_nat j :: u64) = 12 * of_nat i + of_nat (12 * (j - i))" using lt by (simp add: of_nat_diff algebra_simps)
    show ?thesis
    proof
      assume "in_range (12 * of_nat i) 12 x"
      moreover have "12 \<le> 12 * (j - i)" "12 * (j - i) + 12 \<le> 2 ^ 64" using lt a(2,3) by auto
      ultimately have "\<not> in_range (12 * of_nat i + of_nat (12 * (j - i))) 12 x" by (rule in_range_disjoint)
      with a(4) show False unfolding e by simp
    qed
  qed
qed

lemma info_read_write:
  assumes "unat i < 4" "j < 4"
  shows "info_read dmem j (info_write dmem i info s) = (if j = unat i then info else info_read dmem j s)"
proof -
  let ?seg = "(v_device_id (dm_device dmem), dm_segment_no dmem)"
  let ?ws = "[hi_magic info, hi_node_id info, hi_intr_no info]"
  let ?m = "os_shm s ?seg" and ?m' = "store_dwords (12 * ucast i) [hi_magic info, hi_node_id info, hi_intr_no info] (os_shm s ?seg)"
  have rd: "info_read dmem k t = (let ws = load_dwords (os_shm t ?seg) (12 * of_nat k) 3 in
      \<lparr>hi_magic = ws ! 0, hi_node_id = ws ! 1, hi_intr_no = ws ! 2\<rparr>)" for k t
    by (simp add: info_read_def load_dwords_def Let_def)
  have i: "(12 * ucast i :: u64) = 12 * of_nat (unat i)" by (simp add: unsigned_ucast_eq)
  show ?thesis
  proof (cases "j = unat i")
    case True
    have l: "length ?ws = 3" by simp
    have "load_dwords ?m' (12 * of_nat j) 3 = ?ws"
      unfolding i True by (rule load_store_dwords [of ?ws _ ?m, unfolded l]) simp
    then show ?thesis using True unfolding rd by (simp add: info_write_def Let_def)
  next
    case False
    have "load_dwords ?m' (12 * of_nat j) 3 = load_dwords ?m (12 * of_nat j) 3"
    proof (rule load_dwords_cong)
      fix x assume "in_range (12 * of_nat j :: u64) (4 * 3) x"
      then have "\<not> in_range (12 * of_nat (unat i)) 12 x" using info_entries_disjoint [of "unat i" j] False assms by simp
      then show "?m' x = ?m x" unfolding i by (intro store_dwords_other) simp_all
    qed simp
    then show ?thesis using False unfolding rd by (simp add: info_write_def Let_def)
  qed
qed

section \<open>What a binding holds\<close>

definition bh_owned :: "binding_handle \<Rightarrow> res multiset" where
  "bh_owned bh = {#(Heap, bh_self bh)#} + dmem_owned (bh_dmem bh) + lintr_owned (bh_intr bh)"

definition binding_owned :: "binding option \<Rightarrow> res multiset" where
  "binding_owned b = (case b of
      None \<Rightarrow> {#}
    | Some b \<Rightarrow> {#(Heap, b_self b)#} + dmem_owned (b_dmem b) + lintr_owned (b_lintr b) + rintr_owned (b_rintr b))"

lemma remote_intr_put_undo: "gains s s' (r + rintr_owned i) \<Longrightarrow> gains s (nvm_remote_intr_put i s') r"
  by (rule gains_undo_rest, assumption, rule nvm_remote_intr_put_gains) (simp add: gains_def)

text \<open>Giving back device memory and then the block it is described in.\<close>

lemma put_dmem_free:
  assumes "gains s s' (r + {#(Heap, p)#} + dmem_owned d)" "sci_releases s"
  shows "\<exists>s''. nvm_device_memory_put d s' = Some s'' \<and> gains s (free (Some p) s'') r"
  using dmem.put_undoes [OF assms] free_undo by blast

lemma put_intr_dmem_free:
  assumes "gains s s' (r + {#(Heap, p)#} + dmem_owned d + lintr_owned i)" "sci_releases s"
  shows "\<exists>s1 s2. nvm_local_intr_put i s' = Some s1 \<and> nvm_device_memory_put d s1 = Some s2
    \<and> gains s (free (Some p) s2) r"
  using lintr.put_undoes [OF assms] put_dmem_free [OF _ assms(2)] by blast

lemma remove_binding_handle_undo:
  assumes "gains s s' (r + bh_owned h)" "sci_releases s"
  shows "\<exists>s''. remove_binding_handle h adapter s' = Some s'' \<and> gains s s'' r"
proof -
  have "sci_releases s'" using sci_releases_gains [OF assms(1)] assms(2) by simp
  from write_handle_info_gains [OF this] obtain st s1 where
    w: "write_handle_info h adapter True s' = Some (st, s1)" and "gains s' s1 {#}" by blast
  with gains_trans [OF assms(1)] have "gains s s1 (r + {#(Heap, bh_self h)#} + dmem_owned (bh_dmem h) + lintr_owned (bh_intr h))"
    by (fastforce simp: bh_owned_def add.assoc)
  from put_intr_dmem_free [OF this assms(2)] w show ?thesis by (auto simp: remove_binding_handle_def)
qed

lemma remove_binding_undo:
  assumes "gains s s' (r + binding_owned (Some b))" "sci_releases s"
  shows "\<exists>s''. remove_binding b s' = Some s'' \<and> gains s s'' r"
proof -
  have "gains s s' (r + {#(Heap, b_self b)#} + dmem_owned (b_dmem b) + lintr_owned (b_lintr b) + rintr_owned (b_rintr b))"
    using assms(1) by (simp add: binding_owned_def add.assoc)
  from put_intr_dmem_free [OF remote_intr_put_undo [OF this] assms(2)] show ?thesis
    by (auto simp: remove_binding_def)
qed

lemma try_bind_loop_gains:
  "try_bind_loop False dmem is s = (r, s') \<Longrightarrow> gains s s' (case r of None \<Rightarrow> {#} | Some i \<Rightarrow> rintr_owned i)"
proof (induction "is" arbitrary: s)
  case Nil
  then show ?case by auto
next
  case (Cons i "is")
  show ?case
  proof (cases "hi_magic (info_read dmem i s) = RPC_MAGIC_SIGNATURE")
    case False
    with Cons show ?thesis by (simp add: Let_def)
  next
    case True
    obtain e h s1 where g: "nvm_remote_intr_get False (dm_adapter dmem) (hi_node_id (info_read dmem i s))
        (hi_intr_no (info_read dmem i s)) s = (e, h, s1)" by (metis prod_cases3)
    show ?thesis
    proof (cases "e = 0")
      case ok: True
      with Cons.prems True g rintr.get_ok [of _ _ _ s h s1] show ?thesis by (auto simp: Let_def)
    next
      case err: False
      then have "try_bind_loop False dmem is s1 = (r, s')" using Cons.prems True g by (simp add: Let_def)
      from gains_trans [OF rintr.get_err [OF g err] Cons.IH [OF this]] show ?thesis by simp
    qed
  qed
qed

lemma try_bind_gains:
  assumes "sci_releases s"
  shows "\<exists>e b' s'. try_bind False b n s = Some (e, b', s') \<and>
    (if e = 0 then \<exists>i. b' = b\<lparr>b_rintr := i\<rparr> \<and> gains s s' (rintr_owned i) else b' = b \<and> gains s s' {#})"
proof -
  obtain e m s1 where v: "nvm_va_map_remote (12 * ucast NVM_DIS_RPC_MAX_ADAPTER) (dm_segment (b_dmem b)) False False s
      = (e, m, s1)" by (metis prod_cases3)
  obtain r s2 where l: "try_bind_loop False (b_dmem b) [0..<n] s1 = (r, s2)" by fastforce
  show ?thesis
  proof (cases "e = 0")
    case False
    with va_remote.get_err [OF v] v show ?thesis by (simp add: try_bind_def)
  next
    case True
    from va_remote.roundtrip [OF v [unfolded True] try_bind_loop_gains [OF l] assms]
    obtain x s3 where "nvm_va_unmap m s2 = Some (x, s3)"
      "gains s s3 (case r of None \<Rightarrow> {#} | Some i \<Rightarrow> rintr_owned i)" by auto
    with True v l show ?thesis by (cases r) (auto simp: try_bind_def)
  qed
qed

lemma create_binding_spec:
  assumes "sci_releases s"
  shows "outcome binding_owned (\<lambda>b. b \<noteq> None) s (create_binding False junk dev adapter s)"
proof (cases "malloc s")
  case m: (Pair a s1)
  show ?thesis
  proof (cases a)
    case None
    with m malloc_none [of s s1] show ?thesis by (simp add: create_binding_def)
  next
    case (Some p)
    note g1 = malloc_some [OF m [unfolded Some]]
    obtain e2 d s2 where dm: "nvm_device_memory_get dev adapter 0 [SCI_FLAG_SHARED] s1 = (e2, d, s2)" by (metis prod_cases3)
    show ?thesis
    proof (cases "e2 = 0")
      case False
      have "gains s (free (Some p) s2) {#}"
        using gains_trans [OF g1 dmem.get_err [OF dm False]] by (simp add: free_undo_only)
      with False m Some dm show ?thesis by (simp add: create_binding_def)
    next
      case d0: True
      have g2: "gains s s2 ({#} + {#(Heap, p)#} + dmem_owned d)"
        using gains_trans [OF g1 dmem.get_ok [OF dm [unfolded d0]]] by simp
      obtain e3 i s3 where li: "nvm_local_intr_get False junk adapter 0 No_callback s2 = (e3, i, s3)" by (metis prod_cases3)
      show ?thesis
      proof (cases "e3 = 0")
        case False
        have "gains s s3 ({#} + {#(Heap, p)#} + dmem_owned d)"
          using gains_trans [OF g2 lintr.get_err [OF li False]] by simp
        from put_dmem_free [OF this assms] False m Some dm d0 li show ?thesis by (auto simp: create_binding_def)
      next
        case i0: True
        have g3: "gains s s3 ({#} + {#(Heap, p)#} + dmem_owned d + lintr_owned i)"
          using gains_trans [OF g2 lintr.get_ok [OF li [unfolded i0]]] .
        let ?b = "\<lparr>b_self = p, b_dmem = d, b_lintr = i, b_rintr = \<lparr>ri_sd = 0, ri_intr = 0\<rparr>\<rparr>"
        have "sci_releases s3" using sci_releases_gains [OF g3] assms by simp
        from try_bind_gains [OF this, of ?b "unat NVM_DIS_RPC_MAX_ADAPTER"] obtain e4 b' s4 where
          t: "try_bind False ?b (unat NVM_DIS_RPC_MAX_ADAPTER) s3 = Some (e4, b', s4)" and
          g4: "if e4 = 0 then \<exists>i. b' = ?b\<lparr>b_rintr := i\<rparr> \<and> gains s3 s4 (rintr_owned i) else b' = ?b \<and> gains s3 s4 {#}"
          by blast
        show ?thesis
        proof (cases "e4 = 0")
          case True
          with g4 obtain ri where b: "b' = ?b\<lparr>b_rintr := ri\<rparr>" and "gains s3 s4 (rintr_owned ri)" by auto
          from gains_trans [OF g3 this(2)] True t m Some dm d0 li i0 b show ?thesis
            by (simp add: create_binding_def binding_owned_def)
        next
          case False
          with g4 gains_trans [OF g3, of s4 "{#}"]
          have "gains s s4 ({#} + {#(Heap, p)#} + dmem_owned d + lintr_owned i)" "b' = ?b" by auto
          from put_intr_dmem_free [OF this(1) assms] False t m Some dm d0 li i0 this(2) show ?thesis
            by (auto simp: create_binding_def)
        qed
      qed
    qed
  qed
qed

interpretation binding: lifecycle "\<lambda>_. True" "\<lambda>b. b \<noteq> None" "create_binding False junk dev adapter"
  "\<lambda>b s. case b of None \<Rightarrow> Some s | Some b \<Rightarrow> remove_binding b s" binding_owned
  for junk dev adapter
proof
  fix s show "sci_releases s \<Longrightarrow> outcome binding_owned (\<lambda>b. b \<noteq> None) s (create_binding False junk dev adapter s)"
    by (rule create_binding_spec)
next
  fix s h assume a: "sci_releases s" "h \<noteq> None" "binding_owned h \<subseteq># os_live s"
  then obtain b where b: "h = Some b" by blast
  obtain L where L: "os_live s = binding_owned h + L" using held_split [OF a(3)] .
  have "gains (s\<lparr>os_live := L\<rparr>) s ({#} + binding_owned (Some b))" using L b by (simp add: gains_def)
  from remove_binding_undo [OF this] a(1) obtain s'' where
    "remove_binding b s = Some s''" "gains (s\<lparr>os_live := L\<rparr>) s'' {#}" by (auto simp: sci_releases_def)
  then show "\<exists>s'. (case h of None \<Rightarrow> Some s | Some b \<Rightarrow> remove_binding b s) = Some s' \<and> gains s' s (binding_owned h)"
    using b L by (auto simp: gains_def)
qed

section \<open>Shared memory is only written through the handle information\<close>

lemma sci_release_shm: "sci_release k h s = Some s' \<Longrightarrow> os_shm s' = os_shm s"
proof -
  assume r: "sci_release k h s = Some s'"
  show ?thesis
  proof (rule sci_release.raw_induct [where P = "\<lambda>k h s s'. os_shm s' = os_shm s", OF _ r])
    fix f and k :: rkind and h :: nat and s s' :: os
    assume IH: "\<And>k h s s'. f k h s = Some s' \<Longrightarrow> os_shm s' = os_shm s"
      and b: "(let e = os_rel s (os_calls s); s' = s\<lparr>os_calls := Suc (os_calls s)\<rparr> in
         if e = SCI_ERR_BUSY then f k h s' else Some (if e = SCI_ERR_OK then release k h s' else s')) = Some s'"
    show "os_shm s' = os_shm s"
      using b IH [of k h "s\<lparr>os_calls := Suc (os_calls s)\<rparr>" s'] by (auto simp: Let_def release_def split: if_splits)
  qed
qed

lemma shm_basic:
  "os_shm (release k h s) = os_shm s" "os_shm (free p s) = os_shm s"
  "sci_acquire k s = (e, n, s') \<Longrightarrow> os_shm s' = os_shm s"
  "sci_call s = (ec, s') \<Longrightarrow> os_shm s' = os_shm s"
  "malloc s = (q, s') \<Longrightarrow> os_shm s' = os_shm s"
  "mutex_lock r s = (i, s') \<Longrightarrow> os_shm s' = os_shm s" "os_shm (mutex_unlock r s) = os_shm s"
  by (auto simp: release_def free_def sci_acquire_def grant_def sci_call_def malloc_def acquire_def sys_call_def
      mutex_lock_def mutex_unlock_def Let_def split: if_splits option.splits)

lemma shm_ops:
  "nvm_device_get i s = (e, d, s') \<Longrightarrow> os_shm s' = os_shm s"
  "nvm_device_memory_get dev a n fl s = (e2, dm, s') \<Longrightarrow> os_shm s' = os_shm s"
  "nvm_local_intr_get nd j a p cb s = (e3, li, s') \<Longrightarrow> os_shm s' = os_shm s"
  "nvm_va_map_remote sz sg wr wc s = (e4, m, s') \<Longrightarrow> os_shm s' = os_shm s"
  "nvm_va_unmap m s = Some (m', s') \<Longrightarrow> os_shm s' = os_shm s"
proof -
  show d: "nvm_device_get i s = (e, d, s') \<Longrightarrow> os_shm s' = os_shm s" for i s e d s'
    by (auto simp: nvm_device_get_def shm_basic Let_def split: prod.splits if_splits dest!: shm_basic(3))
  show "nvm_device_memory_get dev a n fl s = (e2, dm, s') \<Longrightarrow> os_shm s' = os_shm s"
    by (auto simp: nvm_device_memory_get_def nvm_device_put_def shm_basic Let_def split: prod.splits if_splits
        dest!: d shm_basic(3))
  show "nvm_local_intr_get nd j a p cb s = (e3, li, s') \<Longrightarrow> os_shm s' = os_shm s"
    by (auto simp: nvm_local_intr_get_def shm_basic Let_def split: prod.splits if_splits dest!: shm_basic(3,4))
  show "nvm_va_map_remote sz sg wr wc s = (e4, m, s') \<Longrightarrow> os_shm s' = os_shm s"
    by (auto simp: nvm_va_map_remote_def Let_def split: prod.splits sci_error.splits dest!: shm_basic(3))
  show "nvm_va_unmap m s = Some (m', s') \<Longrightarrow> os_shm s' = os_shm s"
    by (auto simp: nvm_va_unmap_def split: va_map_type.splits Option.bind_splits dest!: sci_release_shm)
qed

text \<open>An environment in which every call succeeds and SISCI is not busy forever.\<close>

definition all_ok :: "os \<Rightarrow> bool" where
  "all_ok s \<longleftrightarrow> sci_releases s \<and> (\<forall>n. os_env s n = 0) \<and> locks_succeed s \<and> (\<forall>n. os_sci s n = SCI_ERR_OK)"

lemma all_ok_gains: "gains s s' r \<Longrightarrow> all_ok s \<Longrightarrow> all_ok s'"
  by (simp add: all_ok_def gains_def sci_releases_def locks_succeed_def)

lemma all_ok_calls:
  assumes "all_ok s"
  shows "\<exists>p s'. malloc s = (Some p, s')" "\<exists>s'. mutex_lock r s = (0, s')"
    "\<exists>h s'. sci_acquire k s = (SCI_ERR_OK, h, s')" "\<exists>s'. sci_call s = (SCI_ERR_OK, s')"
  using assms by (simp_all add: all_ok_def locks_succeed_def malloc_def acquire_def sys_call_def grant_def mutex_lock_def
      sci_acquire_def sci_call_def Let_def)

lemma all_ok_acquire: "all_ok s \<Longrightarrow> \<exists>h s'. sci_acquire k s = (SCI_ERR_OK, h, s') \<and> all_ok s'"
  using all_ok_calls(3) sci_acquire_ok all_ok_gains by metis

lemma all_ok_device_memory_get:
  "all_ok s \<Longrightarrow> \<exists>d s'. nvm_device_memory_get dev a n fl s = (0, d, s')
    \<and> v_device_id (dm_device d) = v_device_id dev \<and> dm_segment_no d = n"
proof -
  assume ok: "all_ok s"
  obtain h s1 where 1: "sci_acquire Sci_desc s = (SCI_ERR_OK, h, s1)" "all_ok s1" using all_ok_acquire [OF ok] by blast
  obtain h2 s2 where 2: "sci_acquire Sci_device s1 = (SCI_ERR_OK, h2, s2)" "all_ok s2" using all_ok_acquire [OF 1(2)] by blast
  obtain h3 s3 where 3: "sci_acquire Sci_remote_segment s2 = (SCI_ERR_OK, h3, s3)" using all_ok_acquire [OF 2(2)] by blast
  from 1 2 3 show ?thesis by (simp add: nvm_device_memory_get_def nvm_device_get_def Let_def)
qed

lemma all_ok_local_intr_get: "all_ok s \<Longrightarrow> \<exists>i s'. nvm_local_intr_get nd j a p cb s = (0, i, s')"
proof -
  assume ok: "all_ok s"
  obtain s1 where 1: "sci_call s = (SCI_ERR_OK, s1)" "all_ok s1"
    using all_ok_calls(4) [OF ok] all_ok_gains [OF sci_call_gains [of s] ok] by auto
  obtain h2 s2 where 2: "sci_acquire Sci_desc s1 = (SCI_ERR_OK, h2, s2)" "all_ok s2" using all_ok_acquire [OF 1(2)] by blast
  obtain h3 s3 where 3: "sci_acquire Sci_intr s2 = (SCI_ERR_OK, h3, s3)" using all_ok_acquire [OF 2(2)] by blast
  from 1 2 3 show ?thesis by (simp add: nvm_local_intr_get_def Let_def)
qed

text \<open>The entry of an adapter in the table of a device.\<close>

definition exported :: "sci_dev \<Rightarrow> os \<Rightarrow> nat \<Rightarrow> handle_info" where
  "exported dev s i = info_read \<lparr>dm_device = dev, dm_adapter = 0, dm_segment_no = 0, dm_segment = 0, dm_flags = []\<rparr> i s"

definition the_info :: "binding_handle \<Rightarrow> bool \<Rightarrow> handle_info" where
  "the_info h clear = \<lparr>hi_magic = if clear then 0 else RPC_MAGIC_SIGNATURE,
     hi_node_id = if clear then 0 else li_node_id (bh_intr h), hi_intr_no = if clear then 0 else li_intr_no (bh_intr h)\<rparr>"

definition shares :: "binding_handle \<Rightarrow> sci_dev \<Rightarrow> bool" where
  "shares h dev \<longleftrightarrow> v_device_id (dm_device (bh_dmem h)) = v_device_id dev \<and> dm_segment_no (bh_dmem h) = 0"

lemma exported_shm: "os_shm s' = os_shm s \<Longrightarrow> exported dev s' = exported dev s"
  by (rule ext) (simp add: exported_def info_read_def)

lemma exported_write:
  "shares h dev \<Longrightarrow> unat i < 4 \<Longrightarrow> j < 4 \<Longrightarrow>
   exported dev (info_write (bh_dmem h) i info s) j = (if j = unat i then info else exported dev s j)"
  using info_read_write [of i j "bh_dmem h" info s] by (simp add: exported_def info_read_def shares_def)

lemma write_handle_info_ok:
  assumes "all_ok s" "shares h dev" "unat adapter < 4"
  shows "\<exists>s'. write_handle_info h adapter clear s = Some (0, s') \<and> gains s s' {#}
    \<and> (\<forall>j < 4. exported dev s' j = (if j = unat adapter then the_info h clear else exported dev s j))"
proof -
  let ?sz = "12 * ucast NVM_DIS_RPC_MAX_ADAPTER" and ?sg = "dm_segment (bh_dmem h)"
  obtain md s1 where "sci_acquire Sci_map s = (SCI_ERR_OK, md, s1)" using all_ok_calls(3) [OF assms(1)] by blast
  then obtain m where v: "nvm_va_map_remote ?sz ?sg True False s = (0, m, s1)"
    by (simp add: nvm_va_map_remote_def Let_def)
  let ?s = "info_write (bh_dmem h) adapter (the_info h clear) s1"
  have r: "sci_releases s" using assms(1) by (simp add: all_ok_def)
  from va_remote.roundtrip [OF v _ r, of ?s "{#}"]
  obtain x s2 where u: "nvm_va_unmap m ?s = Some (x, s2)" and g: "gains s s2 {#}" by auto
  have w: "write_handle_info h adapter clear s = Some (0, s2)"
    using v u by (cases clear) (simp_all add: write_handle_info_def the_info_def RPC_MAGIC_SIGNATURE_def Let_def)
  have "exported dev s2 j = (if j = unat adapter then the_info h clear else exported dev s j)" if "j < 4" for j
    using exported_shm [OF shm_ops(5) [OF u]] exported_shm [OF shm_ops(4) [OF v]]
      exported_write [OF assms(2,3) that, of "the_info h clear" s1] by simp
  with w g show ?thesis by blast
qed

lemma shm_puts:
  "nvm_local_intr_put i s = Some s' \<Longrightarrow> os_shm s' = os_shm s"
  "nvm_device_memory_put d s = Some s' \<Longrightarrow> os_shm s' = os_shm s"
  by (auto simp: nvm_local_intr_put_def nvm_device_memory_put_def nvm_device_put_def shm_basic
      split: Option.bind_splits dest!: sci_release_shm)

lemma create_binding_handle_ok:
  assumes "all_ok s" "nvm_device_from_ctrl (f_ctrl ref) = Some dev" "unat adapter < 4"
  shows "\<exists>h s'. create_binding_handle False junk (Some ref) adapter cb s = Some (0, Some h, s')
    \<and> gains s s' (bh_owned h) \<and> shares h dev
    \<and> (\<forall>j < 4. exported dev s' j = (if j = unat adapter then the_info h False else exported dev s j))"
proof -
  obtain p s1 where m: "malloc s = (Some p, s1)" using all_ok_calls(1) [OF assms(1)] by blast
  note g1 = malloc_some [OF m]
  obtain d s2 where dm: "nvm_device_memory_get dev adapter 0 [SCI_FLAG_SHARED] s1 = (0, d, s2)"
    and d: "v_device_id (dm_device d) = v_device_id dev" "dm_segment_no d = 0"
    using all_ok_device_memory_get [OF all_ok_gains [OF g1 assms(1)]] by blast
  have g2: "gains s s2 ({#(Heap, p)#} + dmem_owned d)" using gains_trans [OF g1 dmem.get_ok [OF dm]] .
  obtain i s3 where li: "nvm_local_intr_get False junk adapter p Handle_remote_command s2 = (0, i, s3)"
    using all_ok_local_intr_get [OF all_ok_gains [OF g2 assms(1)]] by blast
  let ?h = "\<lparr>bh_self = p, bh_dmem = d, bh_rpc_ref = f_self ref, bh_rpc_cb = cb, bh_intr = i\<rparr>"
  have g3: "gains s s3 (bh_owned ?h)" using gains_trans [OF g2 lintr.get_ok [OF li]] by (simp add: bh_owned_def)
  have sh: "shares ?h dev" using d by (simp add: shares_def)
  from write_handle_info_ok [OF all_ok_gains [OF g3 assms(1)] sh assms(3), of False] obtain s4 where
    w: "write_handle_info ?h adapter False s3 = Some (0, s4)" "gains s3 s4 {#}"
    and e: "\<forall>j < 4. exported dev s4 j = (if j = unat adapter then the_info ?h False else exported dev s3 j)" by blast
  have "os_shm s3 = os_shm s" using shm_ops(3) [OF li] shm_ops(2) [OF dm] shm_basic(5) [OF m] by simp
  then have x: "exported dev s3 = exported dev s" by (rule exported_shm)
  have "create_binding_handle False junk (Some ref) adapter cb s = Some (0, Some ?h, s4)"
    using assms(2) m dm li w(1) by (simp add: create_binding_handle_def nvm_ctrl_from_aq_ref_def)
  moreover have "gains s s4 (bh_owned ?h)" using gains_trans [OF g3 w(2)] by simp
  ultimately show ?thesis using sh e unfolding x by blast
qed

lemma remove_binding_handle_ok:
  assumes "gains s s' (r + bh_owned h)" "all_ok s" "shares h dev" "unat adapter < 4"
  shows "\<exists>s''. remove_binding_handle h adapter s' = Some s'' \<and> gains s s'' r
    \<and> (\<forall>j < 4. exported dev s'' j = (if j = unat adapter then the_info h True else exported dev s' j))"
proof -
  have ok: "all_ok s'" by (rule all_ok_gains [OF assms(1,2)])
  from write_handle_info_ok [OF ok assms(3,4), of True] obtain s1 where
    w: "write_handle_info h adapter True s' = Some (0, s1)" "gains s' s1 {#}" and
    e: "\<forall>j < 4. exported dev s1 j = (if j = unat adapter then the_info h True else exported dev s' j)" by blast
  have g: "gains s s1 (r + {#(Heap, bh_self h)#} + dmem_owned (bh_dmem h) + lintr_owned (bh_intr h))"
    using gains_trans [OF assms(1) w(2)] by (simp add: bh_owned_def add.assoc)
  have "sci_releases s" using assms(2) by (simp add: all_ok_def)
  from put_intr_dmem_free [OF g this] obtain s2 s3 where
    p: "nvm_local_intr_put (bh_intr h) s1 = Some s2" "nvm_device_memory_put (bh_dmem h) s2 = Some s3"
    and g': "gains s (free (Some (bh_self h)) s3) r" by blast
  have "os_shm (free (Some (bh_self h)) s3) = os_shm s1"
    using shm_puts(1) [OF p(1)] shm_puts(2) [OF p(2)] by (simp add: shm_basic)
  from exported_shm [OF this] w(1) p g' e show ?thesis by (auto simp: remove_binding_handle_def)
qed

lemma handle_insert_new:
  assumes "all_ok s" "handle_map ref key = None"
  shows "\<exists>p s'. nvm_rpc_handle_insert ref key (Some d) (Some f) s =
      (0, ref\<lparr>f_handles := f_handles ref @ [\<lparr>h_self = p, h_key = key, h_data = d, h_release = f\<rparr>],
             f_n_handles := f_n_handles ref + 1\<rparr>, s')
    \<and> gains s s' {#(Heap, p)#} \<and> os_shm s' = os_shm s"
proof -
  obtain p s1 where m: "malloc s = (Some p, s1)" using all_ok_calls(1) [OF assms(1)] by blast
  obtain s2 where l: "mutex_lock (f_self ref) s1 = (0, s2)"
    using all_ok_calls(2) [OF all_ok_gains [OF malloc_some [OF m] assms(1)]] by blast
  have "gains s (mutex_unlock (f_self ref) s2) {#(Heap, p)#}"
    using mutex_unlock_undo [OF gains_trans [OF malloc_some [OF m] mutex_lock_gains(1) [OF l]]] .
  moreover have "key \<notin> h_key ` set (f_handles ref)" using assms(2) dom_handle_map [of ref] by blast
  ultimately show ?thesis
    using m l shm_basic(5) [OF m] shm_basic(6) [OF l]
    by (intro exI [of _ p] exI [of _ "mutex_unlock (f_self ref) s2"]) (simp add: nvm_rpc_handle_insert_def shm_basic)
qed

lemma handle_insert_duplicate:
  assumes "all_ok s" "handle_map ref key \<noteq> None"
  shows "\<exists>s'. nvm_rpc_handle_insert ref key (Some d) (Some f) s = (EINVAL, ref, s')
    \<and> gains s s' {#} \<and> os_shm s' = os_shm s"
proof -
  obtain p s1 where m: "malloc s = (Some p, s1)" using all_ok_calls(1) [OF assms(1)] by blast
  obtain s2 where l: "mutex_lock (f_self ref) s1 = (0, s2)"
    using all_ok_calls(2) [OF all_ok_gains [OF malloc_some [OF m] assms(1)]] by blast
  have "gains s (free (Some p) (mutex_unlock (f_self ref) s2)) {#}"
    using free_undo_only [OF mutex_unlock_undo [OF gains_trans [OF malloc_some [OF m] mutex_lock_gains(1) [OF l]]]] .
  moreover have "key \<in> h_key ` set (f_handles ref)" using assms(2) dom_handle_map [of ref] by blast
  ultimately show ?thesis
    using m l shm_basic(5) [OF m] shm_basic(6) [OF l] by (simp add: nvm_rpc_handle_insert_def shm_basic)
qed

lemma handle_remove_last:
  assumes "f_handles ref = hs @ [h]" "h_key h = key" "key \<notin> h_key ` set hs" "mutex_lock (f_self ref) s = (0, s1)"
    and "h_release h (h_data h) key (f_n_handles ref - 1) s1 = Some s2"
  shows "nvm_rpc_handle_remove ref key s =
    Some (ref\<lparr>f_handles := hs, f_n_handles := f_n_handles ref - 1\<rparr>,
          mutex_unlock (f_self ref) (free (Some (h_self h)) s2))"
proof -
  have n: "\<And>x. x \<in> set hs \<Longrightarrow> h_key x \<noteq> key" using assms(3) by auto
  have "dropWhile (\<lambda>h. h_key h \<noteq> key) (hs @ [h]) = [h]" "takeWhile (\<lambda>h. h_key h \<noteq> key) (hs @ [h]) = hs"
    using dropWhile_append2 [of hs "\<lambda>h. h_key h \<noteq> key" "[h]"] takeWhile_append2 [of hs "\<lambda>h. h_key h \<noteq> key" "[h]"]
      n assms(2) by auto
  then show ?thesis using assms by (simp add: nvm_rpc_handle_remove_def Let_def)
qed

text \<open>
  enabling remote commands on an adapter adds a handle under the adapter's number and exports its
  node and interrupt in the adapter's entry of the device's shared memory, leaving the entries of the
  other adapters alone; disabling them again restores the table of handles, withdraws the entry and
  gives back everything.
\<close>

theorem rpc_enable_disable:
  assumes "all_ok s" "nvm_device_from_ctrl (f_ctrl ref) = Some dev" "unat adapter < 4" "handle_map ref adapter = None"
  shows "\<exists>h ref1 s1 s2. nvm_dis_rpc_enable False junk ref adapter cb s = Some (0, ref1, s1)
    \<and> handle_map ref1 = (handle_map ref)(adapter \<mapsto> h)
    \<and> (\<forall>j < 4. exported dev s1 j = (if j = unat adapter
        then \<lparr>hi_magic = RPC_MAGIC_SIGNATURE, hi_node_id = li_node_id (bh_intr h), hi_intr_no = li_intr_no (bh_intr h)\<rparr>
        else exported dev s j))
    \<and> nvm_dis_rpc_disable ref1 adapter s1 = Some (ref, s2) \<and> gains s s2 {#}
    \<and> (\<forall>j < 4. exported dev s2 j = (if j = unat adapter
        then \<lparr>hi_magic = 0, hi_node_id = 0, hi_intr_no = 0\<rparr> else exported dev s j))"
proof -
  from create_binding_handle_ok [OF assms(1-3), of junk cb] obtain h s1 where
    c: "create_binding_handle False junk (Some ref) adapter cb s = Some (0, Some h, s1)"
    and g1: "gains s s1 (bh_owned h)" and sh: "shares h dev"
    and e1: "\<forall>j < 4. exported dev s1 j = (if j = unat adapter then the_info h False else exported dev s j)" by blast
  let ?d = "binding_handle_deleter"
  from handle_insert_new [OF all_ok_gains [OF g1 assms(1)] assms(4), of h ?d] obtain p s2 where
    i: "nvm_rpc_handle_insert ref adapter (Some h) (Some ?d) s1 =
      (0, ref\<lparr>f_handles := f_handles ref @ [\<lparr>h_self = p, h_key = adapter, h_data = h, h_release = ?d\<rparr>],
             f_n_handles := f_n_handles ref + 1\<rparr>, s2)"
    and g2: "gains s1 s2 {#(Heap, p)#}" and x2: "os_shm s2 = os_shm s1" by blast
  define ref1 where "ref1 = ref\<lparr>f_handles := f_handles ref @ [\<lparr>h_self = p, h_key = adapter, h_data = h, h_release = ?d\<rparr>],
             f_n_handles := f_n_handles ref + 1\<rparr>"
  have en: "nvm_dis_rpc_enable False junk ref adapter cb s = Some (0, ref1, s2)"
    using c i assms(3) by (simp add: nvm_dis_rpc_enable_def NVM_DIS_RPC_MAX_ADAPTER_def word_le_nat_alt ref1_def)
  have nk: "adapter \<notin> h_key ` set (f_handles ref)" using assms(4) dom_handle_map [of ref] by blast
  have hm: "handle_map ref1 = (handle_map ref)(adapter \<mapsto> h)"
    unfolding ref1_def by (rule handle_map_snoc) (use assms(4) in auto)
  have g12: "gains s s2 ({#(Heap, p)#} + bh_owned h)" using gains_trans [OF g1 g2] by (simp add: add.commute)
  obtain s3 where l: "mutex_lock (f_self ref) s2 = (0, s3)" using all_ok_calls(2) [OF all_ok_gains [OF g12 assms(1)]] by blast
  have "gains s s3 ({#(Mutex, f_self ref)#} + {#(Heap, p)#} + bh_owned h)"
    using gains_trans [OF g12 mutex_lock_gains(1) [OF l]] by (simp add: add.commute add.left_commute)
  from remove_binding_handle_ok [OF this assms(1) sh assms(3)] obtain s4 where
    r: "remove_binding_handle h adapter s3 = Some s4" and g4: "gains s s4 ({#(Mutex, f_self ref)#} + {#(Heap, p)#})"
    and e4: "\<forall>j < 4. exported dev s4 j = (if j = unat adapter then the_info h True else exported dev s3 j)" by blast
  let ?s5 = "mutex_unlock (f_self ref) (free (Some p) s4)"
  have "nvm_rpc_handle_remove ref1 adapter s2 =
      Some (ref1\<lparr>f_handles := f_handles ref, f_n_handles := f_n_handles ref1 - 1\<rparr>, mutex_unlock (f_self ref1) (free (Some p) s4))"
    using handle_remove_last [of ref1 "f_handles ref" "\<lparr>h_self = p, h_key = adapter, h_data = h, h_release = ?d\<rparr>" adapter s2 s3 s4]
      l r nk by (simp add: ref1_def binding_handle_deleter_def)
  then have di: "nvm_dis_rpc_disable ref1 adapter s2 = Some (ref, ?s5)"
    by (simp add: nvm_dis_rpc_disable_def ref1_def)
  have g5: "gains s ?s5 {#}" using mutex_unlock_undo [of s _ "{#}"] free_undo [OF g4] by simp
  have "os_shm ?s5 = os_shm s4" by (simp add: shm_basic)
  note x5 = exported_shm [OF this] and x3 = exported_shm [OF shm_basic(6) [OF l]] and x2 = exported_shm [OF x2]
  have o: "\<forall>j < 4. exported dev ?s5 j = (if j = unat adapter then the_info h True else exported dev s j)"
    using e1 e4 unfolding x5 x3 x2 by simp
  show ?thesis
    using en hm di g5 o e1 unfolding x2 [symmetric]
    by (intro exI [of _ h] exI [of _ ref1] exI [of _ s2] exI [of _ ?s5]) (simp add: the_info_def)
qed

text \<open>
  enabling an adapter a second time is refused with EINVAL and holds nothing, but it withdraws
  the entry of the handle that is still in the table: no client can find it any more.
\<close>

theorem rpc_enable_twice_withdraws:
  assumes "all_ok s" "nvm_device_from_ctrl (f_ctrl ref) = Some dev" "unat adapter < 4" "handle_map ref adapter \<noteq> None"
  shows "\<exists>s'. nvm_dis_rpc_enable False junk ref adapter cb s = Some (EINVAL, ref, s') \<and> gains s s' {#}
    \<and> (\<forall>j < 4. exported dev s' j = (if j = unat adapter
        then \<lparr>hi_magic = 0, hi_node_id = 0, hi_intr_no = 0\<rparr> else exported dev s j))"
proof -
  from create_binding_handle_ok [OF assms(1-3), of junk cb] obtain h s1 where
    c: "create_binding_handle False junk (Some ref) adapter cb s = Some (0, Some h, s1)"
    and g1: "gains s s1 (bh_owned h)" and sh: "shares h dev"
    and e1: "\<forall>j < 4. exported dev s1 j = (if j = unat adapter then the_info h False else exported dev s j)" by blast
  from handle_insert_duplicate [OF all_ok_gains [OF g1 assms(1)] assms(4), of h binding_handle_deleter] obtain s2 where
    i: "nvm_rpc_handle_insert ref adapter (Some h) (Some binding_handle_deleter) s1 = (EINVAL, ref, s2)"
    and g2: "gains s1 s2 {#}" and x2: "os_shm s2 = os_shm s1" by blast
  have "gains s s2 ({#} + bh_owned h)" using gains_trans [OF g1 g2] by simp
  from remove_binding_handle_ok [OF this assms(1) sh assms(3)] obtain s3 where
    r: "remove_binding_handle h adapter s2 = Some s3" and g3: "gains s s3 {#}"
    and e3: "\<forall>j < 4. exported dev s3 j = (if j = unat adapter then the_info h True else exported dev s2 j)" by blast
  have "nvm_dis_rpc_enable False junk ref adapter cb s = Some (EINVAL, ref, s3)"
    using c i r assms(3) by (simp add: nvm_dis_rpc_enable_def NVM_DIS_RPC_MAX_ADAPTER_def word_le_nat_alt)
  moreover have "\<forall>j < 4. exported dev s3 j = (if j = unat adapter then the_info h True else exported dev s j)"
    using e1 e3 unfolding exported_shm [OF x2] by simp
  ultimately show ?thesis using g3 by (simp add: the_info_def)
qed

text \<open>
  when the handle information cannot be written, because mapping the shared segment fails, creating
  a binding handle fails but the data interrupt it created and its descriptor are never given back.
\<close>

theorem binding_handle_leaks_interrupt:
  assumes "sci_releases s" "nvm_device_from_ctrl (f_ctrl ref) = Some dev"
    and "malloc s = (Some p, s1)" "nvm_device_memory_get dev adapter 0 [SCI_FLAG_SHARED] s1 = (0, d, s2)"
    and "nvm_local_intr_get False junk adapter p Handle_remote_command s2 = (0, i, s3)"
    and "nvm_va_map_remote 48 (dm_segment d) True False s3 = (e, m, s4)" "e \<noteq> 0"
  shows "\<exists>s'. create_binding_handle False junk (Some ref) adapter cb s = Some (e, None, s')
    \<and> gains s s' {#(Sci_intr, li_intr i), (Sci_desc, li_sd i)#}"
proof -
  have "gains s s4 (({#(Heap, p)#} + dmem_owned d) + lintr_owned i)"
    using gains_trans [OF gains_trans [OF gains_trans [OF malloc_some [OF assms(3)] dmem.get_ok [OF assms(4)]]
        lintr.get_ok [OF assms(5)]] va_remote.get_err [OF assms(6,7)]] by simp
  then have g: "gains s s4 (lintr_owned i + {#(Heap, p)#} + dmem_owned d)" by (simp add: add.commute add.left_commute)
  from put_dmem_free [OF g assms(1)] show ?thesis
    using assms(2-7) by (auto simp: create_binding_handle_def nvm_ctrl_from_aq_ref_def write_handle_info_def
        NVM_DIS_RPC_MAX_ADAPTER_def lintr_owned_def)
qed

section \<open>Clients\<close>

lemma ref_put_with:
  assumes "f_handles ref = []" "mutex_lock (f_self ref) s1 = (0, s2)"
    and "(case f_release ref of None \<Rightarrow> Some s2 | Some rel \<Rightarrow> rel (f_data ref) 0 0 s2) = Some s3"
    and "gains s s3 (r + {#(Heap, f_self ref)#} + {#(Mutex, f_self ref)#})"
  shows "\<exists>s'. nvm_ref_put (Some ref) s1 = Some s' \<and> gains s s' r"
proof -
  have "gains s (free (Some (f_self ref)) (mutex_unlock (f_self ref) s3)) r"
    by (intro free_undo mutex_unlock_undo assms(4))
  then show ?thesis using assms(1-3) by (cases "f_release ref") (auto simp: nvm_ref_put_def release_handles_def)
qed

lemma unbind_undo:
  assumes "f_handles ref = []" "f_data ref = Some (Binding b)" "f_release ref = Some binding_deleter"
    and "gains s s1 (r + {#(Heap, f_self ref)#} + binding_owned (Some b))" "sci_releases s" "locks_succeed s"
  shows "\<exists>s'. nvm_rpc_unbind (Some ref) s1 = Some s' \<and> gains s s' r"
proof -
  have "locks_succeed s1" using assms(4,6) locks_succeed_gains by blast
  from locks_succeed_lock [OF this] obtain s2 where l: "mutex_lock (f_self ref) s1 = (0, s2)" by blast
  have "gains s s2 (r + {#(Heap, f_self ref)#} + {#(Mutex, f_self ref)#} + binding_owned (Some b))"
    using gains_trans [OF assms(4) mutex_lock_gains(1) [OF l]]
    by (simp add: add.commute add.left_commute add_mset_commute)
  from remove_binding_undo [OF this assms(5)] obtain s3 where
    "remove_binding b s2 = Some s3" "gains s s3 (r + {#(Heap, f_self ref)#} + {#(Mutex, f_self ref)#})" by blast
  with ref_put_with [OF assms(1) l] assms(2,3) show ?thesis by (simp add: nvm_rpc_unbind_def binding_deleter_def)
qed

lemma dis_rpc_bind_spec:
  assumes "sci_releases s" "locks_succeed s"
  shows "\<exists>e r s1. nvm_dis_rpc_bind False jn junk ctrl adapter s = Some (e, r, s1)
    \<and> (e \<noteq> 0 \<longrightarrow> r = None \<and> gains s s1 {#})
    \<and> (e = 0 \<longrightarrow> (\<exists>ref. r = Some ref \<and> f_stub ref = Some Remote_command \<and> (\<exists>b. f_data ref = Some (Binding b)) \<and> f_ctrl ref = ctrl
        \<and> (\<exists>x. gains s s1 x)
        \<and> (\<forall>s2 x. gains s1 s2 x \<longrightarrow> (\<exists>s3. nvm_rpc_unbind (Some ref) s2 = Some s3 \<and> gains s s3 x))))"
proof (cases "nvm_device_from_ctrl ctrl")
  case None
  then show ?thesis by (simp add: nvm_dis_rpc_bind_def)
next
  case (Some dev)
  obtain e1 r1 s1 where g: "(nvm_ref_get jn ctrl s :: _ \<times> aq_ref option \<times> _) = (e1, r1, s1)" by (metis prod_cases3)
  from nvm_ref_get_cases [OF g] show ?thesis
  proof (elim disjE exE conjE)
    assume "r1 = None" "e1 \<noteq> 0" "gains s s1 {#}"
    with Some g show ?thesis by (simp add: nvm_dis_rpc_bind_def)
  next
    fix p assume r1: "r1 = Some \<lparr>f_self = p, f_ctrl = ctrl, f_n_handles = jn, f_handles = [], f_data = None,
        f_release = None, f_stub = None\<rparr>" and gp: "gains s s1 {#(Heap, p)#}"
    let ?ref = "\<lparr>f_self = p, f_ctrl = ctrl, f_n_handles = jn, f_handles = [], f_data = None,
        f_release = None, f_stub = None\<rparr> :: aq_ref"
    have ok1: "sci_releases s1" "locks_succeed s1" using gp assms by (auto simp: gains_def sci_releases_def locks_succeed_def)
    from create_binding_spec [OF ok1(1), of junk dev adapter] show ?thesis
    proof (cases rule: outcomeE)
      case (err e2 h s2)
      have gs: "gains s s2 ({#} + {#(Heap, p)#})" using gains_trans [OF gp err(3)] by simp
      have "locks_succeed s2" using gs assms(2) locks_succeed_gains by blast
      from locks_succeed_lock [OF this] obtain s3 where l: "mutex_lock (f_self ?ref) s2 = (0, s3)" by blast
      from nvm_ref_put_plain [OF _ l, of s "{#}"] gs obtain s4 where
        "nvm_ref_put (Some ?ref) s2 = Some s4" "gains s s4 {#}" by auto
      with err(1,2) Some g r1 show ?thesis by (simp add: nvm_dis_rpc_bind_def)
    next
      case (ok h s2)
      then obtain b where h: "h = Some b" by blast
      have gs: "gains s s2 ({#(Heap, p)#} + binding_owned (Some b))" using gains_trans [OF gp] ok(2) h by blast
      have "locks_succeed s2" using gs assms(2) locks_succeed_gains by blast
      from locks_succeed_lock [OF this] obtain s3 where l: "mutex_lock p s2 = (0, s3)" by blast
      define ref where "ref = ?ref\<lparr>f_data := Some (Binding b), f_release := Some binding_deleter, f_stub := Some Remote_command\<rparr>"
      have b: "nvm_dis_rpc_bind False jn junk ctrl adapter s = Some (0, Some ref, mutex_unlock p s3)"
        using ok(1) h Some g r1 l by (simp add: nvm_dis_rpc_bind_def nvm_rpc_bind_def ref_def)
      have gu: "gains s (mutex_unlock p s3) ({#(Heap, p)#} + binding_owned (Some b))"
        using mutex_unlock_undo [OF gains_trans [OF gs mutex_lock_gains(1) [OF l]]] .
      have "\<exists>s5. nvm_rpc_unbind (Some ref) s4 = Some s5 \<and> gains s s5 x" if "gains (mutex_unlock p s3) s4 x" for s4 x
      proof (rule unbind_undo [OF _ _ _ _ assms, of ref b])
        show "gains s s4 (x + {#(Heap, f_self ref)#} + binding_owned (Some b))"
          using gains_trans [OF gu that] by (simp add: ref_def add.commute add.left_commute)
      qed (simp_all add: ref_def)
      moreover have "\<exists>x. gains s (mutex_unlock p s3) x" using gu by blast
      ultimately show ?thesis using b
        by (intro exI [of _ 0] exI [of _ "Some ref"] exI [of _ "mutex_unlock p s3"]) (simp add: ref_def)
    qed
  qed
qed

text \<open>
  C25: in a build with the checks that \<open>NDEBUG\<close> leaves out, binding to a remote controller returns,
  whichever allocations and whichever SISCI calls that acquire something fail, as long as an
  initialised mutex can be locked and SISCI does not stay busy forever when something is released;
  after a failure nothing is held, and after a success unbinding leaves exactly what was acquired in
  between.
\<close>

theorem dis_rpc_bind_balanced:
  assumes "sci_releases s" "locks_succeed s"
  shows "\<exists>e r s1. nvm_dis_rpc_bind False jn junk ctrl adapter s = Some (e, r, s1)
    \<and> (e \<noteq> 0 \<longrightarrow> r = None \<and> gains s s1 {#})
    \<and> (e = 0 \<longrightarrow> (\<exists>ref. r = Some ref \<and> f_stub ref = Some Remote_command
        \<and> (\<forall>s2 x. gains s1 s2 x \<longrightarrow> (\<exists>s3. nvm_rpc_unbind (Some ref) s2 = Some s3 \<and> gains s s3 x))))"
proof -
  from dis_rpc_bind_spec [OF assms, of jn junk ctrl adapter] obtain e r s1 where
    b: "nvm_dis_rpc_bind False jn junk ctrl adapter s = Some (e, r, s1)" "e \<noteq> 0 \<longrightarrow> r = None \<and> gains s s1 {#}"
    and ok: "e = 0 \<longrightarrow> (\<exists>ref. r = Some ref \<and> f_stub ref = Some Remote_command \<and> (\<exists>b. f_data ref = Some (Binding b)) \<and> f_ctrl ref = ctrl
        \<and> (\<exists>x. gains s s1 x)
        \<and> (\<forall>s2 x. gains s1 s2 x \<longrightarrow> (\<exists>s3. nvm_rpc_unbind (Some ref) s2 = Some s3 \<and> gains s s3 x)))" by (elim exE conjE)
  show ?thesis
  proof (cases "e = 0")
    case True
    with ok obtain ref where "r = Some ref" "f_stub ref = Some Remote_command"
      "\<forall>s2 x. gains s1 s2 x \<longrightarrow> (\<exists>s3. nvm_rpc_unbind (Some ref) s2 = Some s3 \<and> gains s s3 x)" by (elim impE exE conjE)
    with b(1) True show ?thesis by (intro exI [of _ e] exI [of _ r] exI [of _ s1]) simp
  next
    case False
    with b show ?thesis by (intro exI [of _ e] exI [of _ r] exI [of _ s1]) simp
  qed
qed

section \<open>Concrete calls\<close>

definition demo_intr :: local_intr where
  "demo_intr = \<lparr>li_sd = 21, li_intr = 22, li_adapter = 0, li_intr_no = 5, li_node_id = 4, li_data = 0, li_callback = No_callback\<rparr>"

definition demo_dmem :: device_memory where
  "demo_dmem = r_bar (the (k_ref smartio_controller))"

definition demo_binding :: binding where
  "demo_binding = \<lparr>b_self = 20, b_dmem = demo_dmem, b_lintr = demo_intr, b_rintr = \<lparr>ri_sd = 23, ri_intr = 24\<rparr>\<rparr>"

definition demo_handle :: binding_handle where
  "demo_handle = \<lparr>bh_self = 30, bh_dmem = demo_dmem, bh_rpc_ref = 1, bh_rpc_cb = None, bh_intr = demo_intr\<rparr>"

definition demo_server :: aq_ref where
  "demo_server = \<lparr>f_self = 1, f_ctrl = smartio_controller, f_n_handles = 0, f_handles = [],
     f_data = Some (Admin_queues busy_admin), f_release = Some remove_admin_deleter, f_stub = Some Execute_command\<rparr>"

definition demo_client_os :: os where
  "demo_client_os = demo_os\<lparr>os_recv := \<lambda>n. demo_cmd @ [1, 2, 3, 4]\<rparr>"

lemma demo_handle_command:
  "\<exists>ref' s' w'. handle_remote_command False (\<lambda>k m. m) [1, 2, 3, 4] demo_handle demo_server ([4, 5] @ demo_cmd) demo_os idle_world
     = Some (ref', s', w') \<and> os_sent s' \<noteq> os_sent demo_os \<and> snd (last (os_sent s')) = demo_cmd @ [1, 2, 3, 4]"
proof -
  have "length demo_cmd = 16" by (simp add: demo_cmd_def)
  moreover have "filtered demo_handle demo_cmd 4 = (True, demo_cmd)" by (simp add: filtered_def demo_handle_def)
  ultimately show ?thesis
    using handle_remote_command_cases [of demo_cmd demo_handle 4 True demo_cmd False "\<lambda>k m. m" "[1, 2, 3, 4]" demo_server 5 demo_os idle_world]
    by (simp add: nvm_local_admin_def demo_server_def busy_refused demo_call_simps nvm_remote_intr_fire_and_forget_def
        nvm_remote_intr_get_def nvm_remote_intr_trigger_def nvm_remote_intr_put_def sci_acquire_def sci_call_def)
qed

theorem remote_call_round_trip_witness:
  "\<exists>c'. remote_command (replicate 20 0) demo_binding (Some demo_cmd) (Some [0, 0, 0, 0]) demo_client_os
     = (0, Some demo_cmd, Some [1, 2, 3, 4], c')"
proof -
  from demo_handle_command obtain ref' s' w' where
    h: "handle_remote_command False (\<lambda>k m. m) [1, 2, 3, 4] demo_handle demo_server ([4, 5] @ demo_cmd) demo_os idle_world
     = Some (ref', s', w')" and n: "os_sent s' \<noteq> os_sent demo_os" and r: "snd (last (os_sent s')) = demo_cmd @ [1, 2, 3, 4]" by blast
  have l: "length demo_cmd = 16" by (simp add: demo_cmd_def)
  have f: "filtered demo_handle demo_cmd (li_node_id (b_lintr demo_binding)) = (True, demo_cmd)"
    by (simp add: filtered_def demo_handle_def)
  have q: "[4, 5] @ demo_cmd = [li_node_id (b_lintr demo_binding), li_intr_no (b_lintr demo_binding)] @ demo_cmd"
    by (simp add: demo_binding_def demo_intr_def)
  have c0: "demo_cmd ! 0 \<noteq> 0" by (simp add: demo_cmd_def nvm_cmd_header_def)
  have "\<exists>c'. snd (last (os_sent c')) = [4, 5] @ demo_cmd \<and>
    (if True
     then \<exists>err cpl' s1. nvm_local_admin (\<lambda>k m. m) demo_server demo_cmd [1, 2, 3, 4] demo_os idle_world = Some (err, ref', cpl', s1, w')
       \<and> remote_command (replicate 20 0) demo_binding (Some demo_cmd) (Some [0, 0, 0, 0]) demo_client_os
          = (if demo_cmd ! 0 = 0 then EPERM else 0, Some demo_cmd, Some cpl', c')
     else ref' = demo_server \<and> w' = idle_world
       \<and> remote_command (replicate 20 0) demo_binding (Some demo_cmd) (Some [0, 0, 0, 0]) demo_client_os
          = (EPERM, Some (replicate 16 0), Some [1, 2, 3, 4], c'))"
    by (rule remote_call_round_trip [OF l _ _ _ q f l h n])
       (simp_all add: r demo_client_os_def demo_os_def)
  moreover have "nvm_local_admin (\<lambda>k m. m) demo_server demo_cmd [1, 2, 3, 4] demo_os idle_world = Some (err, ref', cpl', s1, w') \<Longrightarrow>
      cpl' = [1, 2, 3, 4]" for err cpl' s1
    by (simp add: nvm_local_admin_def demo_server_def busy_refused demo_call_simps)
  ultimately show ?thesis using c0 by fastforce
qed

lemma demo_all_ok: "all_ok demo_os"
  using demo_releases by (simp add: all_ok_def demo_os_def locks_succeed_def)

lemma demo_server_device: "nvm_device_from_ctrl (f_ctrl demo_server) = Some (dm_device demo_dmem)"
  by (simp add: demo_server_def nvm_device_from_ctrl_def smartio_controller_def demo_dmem_def)

theorem rpc_enable_disable_witness:
  "\<exists>ref1 s1 s2. nvm_dis_rpc_enable False 0 demo_server 2 None demo_os = Some (0, ref1, s1)
     \<and> hi_magic (exported (dm_device demo_dmem) s1 2) = 0xDEADBEEF
     \<and> nvm_dis_rpc_disable ref1 2 s1 = Some (demo_server, s2) \<and> os_live s2 = {#}"
  using rpc_enable_disable [OF demo_all_ok demo_server_device, of 2 0 None]
  by (auto simp: handle_map_def [of demo_server] demo_server_def [THEN arg_cong, of f_handles] RPC_MAGIC_SIGNATURE_def
      gains_def demo_os_def)

definition enabled_server :: aq_ref where
  "enabled_server = demo_server\<lparr>f_handles := [\<lparr>h_self = 40, h_key = 2, h_data = demo_handle, h_release = binding_handle_deleter\<rparr>]\<rparr>"

theorem rpc_enable_twice_withdraws_witness:
  "\<exists>s'. nvm_dis_rpc_enable False 0 enabled_server 2 None demo_os = Some (EINVAL, enabled_server, s')
     \<and> hi_magic (exported (dm_device demo_dmem) s' 2) = 0"
proof -
  have "nvm_device_from_ctrl (f_ctrl enabled_server) = Some (dm_device demo_dmem)"
    using demo_server_device by (simp add: enabled_server_def)
  from rpc_enable_twice_withdraws [OF demo_all_ok this, of 2 0 None] show ?thesis
    by (auto simp: handle_map_def enabled_server_def)
qed

definition unmappable_os :: os where
  "unmappable_os = demo_os\<lparr>os_sci := \<lambda>n. if n = 7 then SCI_ERR_OUT_OF_RANGE else SCI_ERR_OK\<rparr>"

theorem binding_handle_leaks_interrupt_witness:
  "\<exists>e s' i sd. create_binding_handle False 0 (Some demo_server) 2 None unmappable_os = Some (e, None, s')
     \<and> e \<noteq> 0 \<and> gains unmappable_os s' {#(Sci_intr, i), (Sci_desc, sd)#}"
proof -
  have r: "sci_releases unmappable_os" using demo_releases by (simp add: unmappable_os_def sci_releases_def)
  have "\<exists>p s1 d s2 i s3 e m s4. malloc unmappable_os = (Some p, s1)
      \<and> nvm_device_memory_get (dm_device demo_dmem) 2 0 [SCI_FLAG_SHARED] s1 = (0, d, s2)
      \<and> nvm_local_intr_get False 0 2 p Handle_remote_command s2 = (0, i, s3)
      \<and> nvm_va_map_remote 48 (dm_segment d) True False s3 = (e, m, s4) \<and> e \<noteq> 0"
    by (simp add: unmappable_os_def demo_os_def malloc_def acquire_def sys_call_def grant_def Let_def
        nvm_device_memory_get_def nvm_device_get_def sci_acquire_def sci_call_def nvm_local_intr_get_def nvm_va_map_remote_def)
  then obtain p s1 d s2 i s3 e m s4 where
    a: "malloc unmappable_os = (Some p, s1)" "nvm_device_memory_get (dm_device demo_dmem) 2 0 [SCI_FLAG_SHARED] s1 = (0, d, s2)"
    "nvm_local_intr_get False 0 2 p Handle_remote_command s2 = (0, i, s3)"
    "nvm_va_map_remote 48 (dm_segment d) True False s3 = (e, m, s4)" "e \<noteq> 0" by blast
  from binding_handle_leaks_interrupt [OF r demo_server_device a, of None] a(5) show ?thesis by blast
qed

theorem dis_rpc_bind_balanced_witness:
  "\<exists>e r s1. nvm_dis_rpc_bind False 0 0 smartio_controller 0 demo_os = Some (e, r, s1)
     \<and> (e = 0 \<or> os_live s1 = {#})"
  using dis_rpc_bind_balanced [OF demo_releases, of 0 0 smartio_controller 0]
  by (auto simp: demo_os_def gains_def locks_succeed_def)

end
