(* ===== verification/Cli_Options.thy ===== *)
theory Cli_Options
  imports Cli_Number Io_Read Dis_Rpc "HOL-Library.Sublist"
begin

text \<open>
  The command lines of the example programs: \<open>getopt_long\<close> of the C library and the option loops of
  \<open>examples/read-blocks/args.c\<close>, \<open>examples/rpc/rpc_server.c\<close> and \<open>rpc_client.c\<close>, \<open>examples/identify/smartio.c\<close>,
  \<open>module.c\<close> and \<open>userspace.c\<close> and \<open>examples/integrity/integrity.c\<close>.  \<open>argv\<close> stands for the arguments after the
  program's name.  A program that exits has the value \<open>Inl\<close> of its exit status; what it prints before is
  left out.
\<close>

section \<open>getopt\<close>

text \<open>
  What \<open>getopt_long\<close> returns one after the other, each with \<open>optarg\<close>, and the arguments that are not
  options in their order.  An option is looked up in the option string or in the table of long options,
  where a unique beginning of a name will do; one that is not found is a question mark, and one whose argument
  is missing a colon, since every option string begins with one.
\<close>

type_synonym long_options = "(string \<times> bool \<times> int) list"

fun short_option :: "string \<Rightarrow> char \<Rightarrow> bool option" where
  "short_option [] c = None"
| "short_option (x # xs) c =
     (if c = CHR '':'' \<or> c = CHR '';'' then None
      else if x = c then Some (xs \<noteq> [] \<and> hd xs = CHR '':'') else short_option xs c)"

definition long_option :: "long_options \<Rightarrow> string \<Rightarrow> (bool \<times> int) option" where
  "long_option opts name =
     (case filter (\<lambda>p. fst p = name) opts of
        p # _ \<Rightarrow> Some (snd p)
      | [] \<Rightarrow> (case filter (\<lambda>p. prefix name (fst p)) opts of
                [] \<Rightarrow> None
              | p # ps \<Rightarrow> if \<forall>q \<in> set ps. snd q = snd p then Some (snd p) else None))"

fun short_options :: "string \<Rightarrow> string \<Rightarrow> string list \<Rightarrow> (int \<times> string) list \<times> string list" where
  "short_options optstr [] rest = ([], rest)"
| "short_options optstr (c # cs) rest =
     (case short_option optstr c of
        None \<Rightarrow> (case short_options optstr cs rest of (l, r) \<Rightarrow> ((of_char CHR ''?'', []) # l, r))
      | Some False \<Rightarrow> (case short_options optstr cs rest of (l, r) \<Rightarrow> ((of_char c, []) # l, r))
      | Some True \<Rightarrow>
          if cs \<noteq> [] then ([(of_char c, cs)], rest)
          else (case rest of [] \<Rightarrow> ([(of_char CHR '':'', [])], []) | a # r \<Rightarrow> ([(of_char c, a)], r)))"

definition long_item :: "long_options \<Rightarrow> string \<Rightarrow> string list \<Rightarrow> (int \<times> string) \<times> string list" where
  "long_item opts arg rest =
     (let (name, val) = (case split_first CHR ''='' arg of None \<Rightarrow> (arg, None) | Some (n, v) \<Rightarrow> (n, Some v)) in
      case long_option opts name of
        None \<Rightarrow> ((of_char CHR ''?'', []), rest)
      | Some (has_arg, opt) \<Rightarrow>
          (case val of
             Some v \<Rightarrow> if has_arg then ((opt, v), rest) else ((of_char CHR ''?'', []), rest)
           | None \<Rightarrow>
               if \<not> has_arg then ((opt, []), rest)
               else (case rest of [] \<Rightarrow> ((of_char CHR '':'', []), []) | a # r \<Rightarrow> ((opt, a), r))))"

lemma short_options_length [termination_simp]: "short_options optstr cs rest = (l, r) \<Longrightarrow> length r \<le> length rest"
proof (induction cs arbitrary: l)
  case (Cons c cs)
  then show ?case by (fastforce split: option.splits bool.splits prod.splits list.splits if_splits)
qed simp

lemma long_item_length [termination_simp]: "long_item opts arg rest = (i, r) \<Longrightarrow> length r \<le> length rest"
  by (auto simp: long_item_def Let_def split: option.splits prod.splits list.splits if_splits)

function getopt_long :: "string \<Rightarrow> long_options \<Rightarrow> string list \<Rightarrow> (int \<times> string) list \<times> string list" where
  "getopt_long optstr opts [] = ([], [])"
| "getopt_long optstr opts (a # args) =
     (if a = ''--'' then ([], args)
      else if length a < 2 \<or> a ! 0 \<noteq> CHR ''-'' then
        (case getopt_long optstr opts args of (l, n) \<Rightarrow> (l, a # n))
      else if a ! 1 = CHR ''-'' then
        (case long_item opts (drop 2 a) args of (i, rest) \<Rightarrow>
           case getopt_long optstr opts rest of (l, n) \<Rightarrow> (i # l, n))
      else
        (case short_options optstr (tl a) args of (is, rest) \<Rightarrow>
           case getopt_long optstr opts rest of (l, n) \<Rightarrow> (is @ l, n)))"
  by pat_completeness auto
termination
  by (relation "measure (\<lambda>(_, _, args). length args)")
     (auto simp: less_Suc_eq_le dest!: sym [of "(_, _)"] intro: short_options_length long_item_length)

text \<open>The loop over the results, until the program exits.\<close>

fun option_loop :: "(int \<times> string \<Rightarrow> 'a \<Rightarrow> int + 'a) \<Rightarrow> (int \<times> string) list \<Rightarrow> 'a \<Rightarrow> int + 'a" where
  "option_loop body [] a = Inr a"
| "option_loop body (r # rs) a = (case body r a of Inl e \<Rightarrow> Inl e | Inr a' \<Rightarrow> option_loop body rs a')"

lemma option_loop_invariant:
  assumes "\<And>r a a'. body r a = Inr a' \<Longrightarrow> I a \<Longrightarrow> I a'"
  shows "option_loop body rs a = Inr a' \<Longrightarrow> I a \<Longrightarrow> I a'"
  using assms by (induction rs arbitrary: a) (auto split: sum.splits)

lemma option_loop_exit:
  assumes "\<And>r a e. body r a = Inl e \<Longrightarrow> e \<in> E"
  shows "option_loop body rs a = Inl e \<Longrightarrow> e \<in> E"
  using assms by (induction rs arbitrary: a) (auto split: sum.splits)

section \<open>Reading blocks\<close>

text \<open>\<open>cluster\<close> tells whether the program is built with \<open>__DIS_CLUSTER__\<close>.\<close>

definition read_opts :: "bool \<Rightarrow> long_options" where
  "read_opts cluster =
     [(''help'', False, of_char CHR ''h''), (''ctrl'', True, of_char CHR ''c'')]
     @ (if cluster then [(''adapter'', True, of_char CHR ''a''), (''segment-id'', True, 1), (''id-offset'', True, 1)] else [])
     @ [(''namespace'', True, of_char CHR ''n''), (''ns'', True, of_char CHR ''n''), (''blocks'', True, of_char CHR ''b''),
        (''offset'', True, of_char CHR ''o''), (''output'', True, 0), (''ascii'', False, 2)]"

definition read_argstr :: "bool \<Rightarrow> string" where
  "read_argstr cluster = (if cluster then '':hc:a:n:b:o:'' else '':hc:b:b:o:'')"

definition parse_read_option :: "bool \<Rightarrow> int \<times> string \<Rightarrow> options \<Rightarrow> int + options" where
  "parse_read_option cluster r args =
     (case r of (opt, optarg) \<Rightarrow>
      if opt = of_char CHR ''?'' \<or> opt = of_char CHR '':'' \<or> opt = of_char CHR ''h'' then Inl (of_char CHR ''?'')
      else if opt = 0 then Inr (args\<lparr>op_output := Some optarg, op_ascii := False\<rparr>)
      else if opt = of_char CHR ''c'' then
        (if cluster then
           (case strtoul optarg 0 of (v, endptr) \<Rightarrow>
            if endptr \<noteq> [] then Inl 1 else if v = 0 then Inl 1 else Inr (args\<lparr>op_controller_id := v\<rparr>))
         else Inr (args\<lparr>op_controller_path := Some optarg\<rparr>))
      else if cluster \<and> opt = of_char CHR ''a'' then
        (case strtoul optarg 10 of (v, endptr) \<Rightarrow>
         if endptr \<noteq> [] then Inl 1 else if (ucast v :: u32) \<ge> 4 then Inl 1 else Inr (args\<lparr>op_adapter := ucast v\<rparr>))
      else if cluster \<and> opt = 1 then
        (case strtoul optarg 0 of (v, endptr) \<Rightarrow>
         if endptr \<noteq> [] then Inl 1 else Inr (args\<lparr>op_segment_id := ucast v\<rparr>))
      else if opt = of_char CHR ''n'' then
        (case strtoul optarg 0 of (v, endptr) \<Rightarrow>
         if endptr \<noteq> [] \<or> (ucast v :: u32) = 0xffffffff then Inl 2 else Inr (args\<lparr>op_namespace_id := ucast v\<rparr>))
      else if opt = 2 then Inr (if op_output args = None then args\<lparr>op_ascii := True\<rparr> else args)
      else if opt = of_char CHR ''o'' then
        (case strtoul optarg 0 of (v, endptr) \<Rightarrow> if endptr \<noteq> [] then Inl 2 else Inr (args\<lparr>op_offset := v\<rparr>))
      else if opt = of_char CHR ''b'' then
        (case strtoul optarg 0 of (v, endptr) \<Rightarrow>
         if endptr \<noteq> [] then Inl 2 else if v = 0 then Inl 2 else Inr (args\<lparr>op_num_blocks := v\<rparr>))
      else Inr args)"

text \<open>The fields that the other build has are zero.\<close>

definition parse_options :: "bool \<Rightarrow> string list \<Rightarrow> int + options" where
  "parse_options cluster argv =
     (let args = \<lparr>op_controller_id = 0, op_adapter = 0, op_segment_id = (if cluster then 0xdeadbeef else 0),
                  op_controller_path = None, op_namespace_id = 1, op_num_blocks = 0, op_offset = 0, op_output = None,
                  op_ascii = False\<rparr> in
      case option_loop (parse_read_option cluster) (fst (getopt_long (read_argstr cluster) (read_opts cluster) argv)) args of
        Inl e \<Rightarrow> Inl e
      | Inr args \<Rightarrow>
          if cluster \<and> op_controller_id args = 0 then Inl 1
          else if \<not> cluster \<and> op_controller_path args = None then Inl 1
          else if op_num_blocks args = 0 then Inl 2
          else Inr args)"

section \<open>The RPC server and client\<close>

text \<open>\<open>memset\<close> clears the struct; \<open>verbose\<close> is a variable of the program.\<close>

record server_args =
  sv_identify_ctrl :: bool
  sv_smartio_dev_id :: u64
  sv_ctrl_adapter :: u32
  sv_n_dis_adapters :: nat
  sv_dis_adapters :: "u32 list"
  sv_verbose :: bool

definition MAX_ADAPTS :: nat where "MAX_ADAPTS = unat NVM_DIS_RPC_MAX_ADAPTER"

definition parse_server_option :: "u64 \<Rightarrow> int \<times> string \<Rightarrow> server_args \<Rightarrow> int + server_args" where
  "parse_server_option junk r args =
     (case r of (opt, optarg) \<Rightarrow>
      if opt = of_char CHR ''?'' then Inl (of_char CHR ''?'')
      else if opt = of_char CHR '':'' then Inl (of_char CHR '':'')
      else if opt = of_char CHR ''h'' then Inl 0
      else if opt = of_char CHR ''v'' then Inr (args\<lparr>sv_verbose := True\<rparr>)
      else if opt = 1 then Inr (args\<lparr>sv_identify_ctrl := True\<rparr>)
      else if opt = of_char CHR ''c'' then
        (case parse_u64 optarg (sv_smartio_dev_id args) 0 of (e, v) \<Rightarrow>
           if e \<noteq> 0 then Inl (of_char CHR ''c'') else Inr (args\<lparr>sv_smartio_dev_id := v\<rparr>))
      else if opt = of_char CHR ''a'' then
        (case parse_u32 junk optarg (sv_ctrl_adapter args) 10 of (e, v) \<Rightarrow>
           if e \<noteq> 0 then Inl (of_char CHR ''a'') else Inr (args\<lparr>sv_ctrl_adapter := v\<rparr>))
      else if opt = of_char CHR ''r'' then
        (if sv_n_dis_adapters args = MAX_ADAPTS then Inr args
         else (case parse_u32 junk optarg (sv_dis_adapters args ! sv_n_dis_adapters args) 0 of (e, v) \<Rightarrow>
                 if e \<noteq> 0 then Inl (of_char CHR ''r'')
                 else Inr (args\<lparr>sv_dis_adapters := (sv_dis_adapters args)[sv_n_dis_adapters args := v],
                                sv_n_dis_adapters := sv_n_dis_adapters args + 1\<rparr>)))
      else Inr args)"

definition server_opts :: long_options where
  "server_opts = [(''help'', False, of_char CHR ''h''), (''identify'', False, 1), (''enable'', True, of_char CHR ''r''),
     (''ctrl'', True, of_char CHR ''c''), (''adapter'', True, of_char CHR ''a''), (''verbose'', False, of_char CHR ''v'')]"

definition parse_server_opts :: "u64 \<Rightarrow> string list \<Rightarrow> int + server_args" where
  "parse_server_opts junk argv =
     (let args = \<lparr>sv_identify_ctrl = False, sv_smartio_dev_id = 0, sv_ctrl_adapter = 0, sv_n_dis_adapters = 0,
                  sv_dis_adapters = replicate MAX_ADAPTS 0, sv_verbose = False\<rparr> in
      case option_loop (parse_server_option junk) (fst (getopt_long '':hvc:a:'' server_opts argv)) args of
        Inl e \<Rightarrow> Inl e
      | Inr args \<Rightarrow>
          if sv_smartio_dev_id args = 0 then Inl (of_char CHR ''c'')
          else if sv_n_dis_adapters args = 0 then
            Inr (args\<lparr>sv_dis_adapters := (sv_dis_adapters args)[0 := sv_ctrl_adapter args], sv_n_dis_adapters := 1\<rparr>)
          else Inr args)"

record client_args =
  cl_smartio_dev_id :: u64
  cl_adapter :: u32

definition parse_client_option :: "u64 \<Rightarrow> int \<times> string \<Rightarrow> client_args \<Rightarrow> int + client_args" where
  "parse_client_option junk r args =
     (case r of (opt, optarg) \<Rightarrow>
      if opt = of_char CHR ''?'' then Inl (of_char CHR ''?'')
      else if opt = of_char CHR '':'' then Inl (of_char CHR '':'')
      else if opt = of_char CHR ''h'' then Inl 0
      else if opt = of_char CHR ''c'' then
        (case parse_u64 optarg (cl_smartio_dev_id args) 0 of (e, v) \<Rightarrow>
           if e \<noteq> 0 then Inl (of_char CHR ''c'') else Inr (args\<lparr>cl_smartio_dev_id := v\<rparr>))
      else if opt = of_char CHR ''a'' then
        (case parse_u32 junk optarg (cl_adapter args) 10 of (e, v) \<Rightarrow>
           if e \<noteq> 0 then Inl (of_char CHR ''a'') else Inr (args\<lparr>cl_adapter := v\<rparr>))
      else Inr args)"

definition parse_client_opts :: "u64 \<Rightarrow> string list \<Rightarrow> int + client_args" where
  "parse_client_opts junk argv =
     (case option_loop (parse_client_option junk)
             (fst (getopt_long '':hc:a:''
                [(''help'', False, of_char CHR ''h''), (''ctrl'', True, of_char CHR ''c''), (''adapter'', True, of_char CHR ''a'')] argv))
             \<lparr>cl_smartio_dev_id = 0, cl_adapter = 0\<rparr> of
        Inl e \<Rightarrow> Inl e
      | Inr args \<Rightarrow> if cl_smartio_dev_id args = 0 then Inl (of_char CHR ''c'') else Inr args)"

section \<open>Identifying a controller\<close>

text \<open>With SmartIO: the last component of the state is \<open>dev_set\<close>.\<close>

record identify_args =
  id_dev_id :: u64
  id_dis_adapter :: u32
  id_segment_id :: u32

definition parse_smartio_option :: "u64 \<Rightarrow> int \<times> string \<Rightarrow> identify_args \<times> bool \<Rightarrow> int + identify_args \<times> bool" where
  "parse_smartio_option junk r st =
     (case (r, st) of ((opt, optarg), args, dev_set) \<Rightarrow>
      if opt = of_char CHR ''?'' then Inl (of_char CHR ''?'')
      else if opt = of_char CHR '':'' then Inl (of_char CHR '':'')
      else if opt = of_char CHR ''c'' then
        (case parse_u64 optarg (id_dev_id args) 0 of (e, v) \<Rightarrow>
           if e \<noteq> 0 then Inl (of_char CHR ''c'') else Inr (args\<lparr>id_dev_id := v\<rparr>, True))
      else if opt = of_char CHR ''a'' then
        (case parse_u32 junk optarg (id_dis_adapter args) 10 of (e, v) \<Rightarrow>
           if e \<noteq> 0 then Inl (of_char CHR ''a'') else Inr (args\<lparr>id_dis_adapter := v\<rparr>, dev_set))
      else if opt = of_char CHR ''i'' then
        (case parse_u32 junk optarg (id_segment_id args) 0 of (e, v) \<Rightarrow>
           if e \<noteq> 0 then Inl (of_char CHR ''i'') else Inr (args\<lparr>id_segment_id := v\<rparr>, dev_set))
      else if opt = of_char CHR ''h'' then Inl 0
      else Inr st)"

definition parse_smartio_args :: "u64 \<Rightarrow> string list \<Rightarrow> int + identify_args" where
  "parse_smartio_args junk argv =
     (case option_loop (parse_smartio_option junk)
             (fst (getopt_long '':hc:a:i:''
                [(''help'', False, of_char CHR ''h''), (''ctrl'', True, of_char CHR ''c''), (''adapter'', True, of_char CHR ''a''),
                 (''id'', True, of_char CHR ''i'')] argv))
             (\<lparr>id_dev_id = 0, id_dis_adapter = 0, id_segment_id = 0\<rparr>, False) of
        Inl e \<Rightarrow> Inl e
      | Inr (args, dev_set) \<Rightarrow> if \<not> dev_set then Inl (of_char CHR ''c'') else Inr args)"

text \<open>With the kernel module.\<close>

definition parse_module_option :: "int \<times> string \<Rightarrow> u64 \<times> bool \<Rightarrow> int + u64 \<times> bool" where
  "parse_module_option r st =
     (case (r, st) of ((opt, optarg), dev, dev_set) \<Rightarrow>
      if opt = of_char CHR ''?'' then Inl (of_char CHR ''?'')
      else if opt = of_char CHR '':'' then Inl (of_char CHR '':'')
      else if opt = of_char CHR ''c'' then
        (case parse_u64 optarg dev 10 of (e, v) \<Rightarrow> if e \<noteq> 0 then Inl (of_char CHR ''c'') else Inr (v, True))
      else if opt = of_char CHR ''h'' then Inl 0
      else Inr st)"

definition parse_module_args :: "string list \<Rightarrow> int + u64" where
  "parse_module_args argv =
     (case option_loop parse_module_option
             (fst (getopt_long '':hc:'' [(''help'', False, of_char CHR ''h''), (''ctrl'', True, of_char CHR ''c'')] argv)) (0, False) of
        Inl e \<Rightarrow> Inl e
      | Inr (dev, dev_set) \<Rightarrow> if \<not> dev_set then Inl (of_char CHR ''c'') else Inr dev)"

text \<open>
  On bare PCI: \<open>is_dir\<close> tells whether \<open>stat\<close> finds a directory under a path.  \<open>%x\<close> writes an \<open>int\<close> as the
  unsigned number of the same bits.
\<close>

definition format_x :: "nat \<Rightarrow> int \<Rightarrow> string" where
  "format_x w n = pad w (digits 16 (nat (n mod 2 ^ 32)))"

definition sysfs_path :: "bdf \<Rightarrow> string" where
  "sysfs_path dev = ''/sys/bus/pci/devices/'' @ format_x 4 (bd_domain dev) @ '':'' @ format_x 2 (bd_bus dev) @ '':''
     @ format_x 2 (bd_device dev) @ ''.'' @ format_x 0 (bd_function dev)"

definition parse_pci_option :: "int \<times> string \<Rightarrow> bdf \<Rightarrow> int + bdf" where
  "parse_pci_option r dev =
     (case r of (opt, optarg) \<Rightarrow>
      if opt = of_char CHR ''?'' then Inl (of_char CHR ''?'')
      else if opt = of_char CHR '':'' then Inl (of_char CHR '':'')
      else if opt = of_char CHR ''c'' then
        (case parse_bdf optarg dev of (e, dev) \<Rightarrow> if e \<noteq> 0 then Inl (of_char CHR ''c'') else Inr dev)
      else if opt = of_char CHR ''h'' then Inl 0
      else Inr dev)"

definition parse_pci_args :: "(string \<Rightarrow> bool) \<Rightarrow> string list \<Rightarrow> int + bdf" where
  "parse_pci_args is_dir argv =
     (case option_loop parse_pci_option
             (fst (getopt_long '':hc:'' [(''help'', False, of_char CHR ''h''), (''ctrl'', True, of_char CHR ''c'')] argv))
             \<lparr>bd_domain = 0, bd_bus = 0, bd_device = 0, bd_function = 0\<rparr> of
        Inl e \<Rightarrow> Inl e
      | Inr dev \<Rightarrow> if \<not> is_dir (sysfs_path dev) then Inl (of_char CHR ''c'') else Inr dev)"

section \<open>Integrity\<close>

record arguments =
  ar_device_id :: u64
  ar_adapter :: u32
  ar_segment_id :: u32
  ar_ns_id :: u32
  ar_n_queues :: u16
  ar_read_bytes :: u64
  ar_filename :: string

definition parse_argument :: "u64 \<Rightarrow> int \<times> string \<Rightarrow> arguments \<Rightarrow> int + arguments" where
  "parse_argument num r args =
     (case r of (opt, optarg) \<Rightarrow>
      if opt = of_char CHR ''?'' \<or> opt = of_char CHR '':'' \<or> opt = of_char CHR ''h'' then Inl 4
      else if opt = of_char CHR ''r'' then
        (case parse_number (ar_read_bytes args) optarg 0 0 0 of (ok, v) \<Rightarrow>
           if \<not> ok \<or> v = 0 then Inl 1 else Inr (args\<lparr>ar_read_bytes := v\<rparr>))
      else if opt = of_char CHR ''c'' then
        (case parse_number (ar_device_id args) optarg 0 0 0 of (ok, v) \<Rightarrow>
           if \<not> ok then Inl 1 else Inr (args\<lparr>ar_device_id := v\<rparr>))
      else if opt = of_char CHR ''n'' then
        (case parse_number num optarg 0 0 0 of (ok, v) \<Rightarrow> if \<not> ok then Inl 3 else Inr (args\<lparr>ar_ns_id := ucast v\<rparr>))
      else if opt = 1 then
        (case parse_number num optarg 0 0 0 of (ok, v) \<Rightarrow> if \<not> ok then Inl 1 else Inr (args\<lparr>ar_segment_id := ucast v\<rparr>))
      else if opt = of_char CHR ''a'' then
        (case parse_number num optarg 10 0 (ucast NVM_DIS_RPC_MAX_ADAPTER) of (ok, v) \<Rightarrow>
           if \<not> ok then Inl 1 else Inr (args\<lparr>ar_adapter := ucast v\<rparr>))
      else if opt = of_char CHR ''q'' then
        (case parse_number num optarg 0 1 0xffff of (ok, v) \<Rightarrow>
           if \<not> ok then Inl 3 else Inr (args\<lparr>ar_n_queues := ucast v\<rparr>))
      else Inr args)"

text \<open>The parser writes \<open>num\<close> before every use, so that its value on entry does not matter.\<close>

definition integrity_opts :: long_options where
  "integrity_opts = [(''help'', False, of_char CHR ''h''), (''read'', True, of_char CHR ''r''), (''ctrl'', True, of_char CHR ''c''),
     (''namespace'', True, of_char CHR ''n''), (''adapter'', True, of_char CHR ''a''), (''id-offset'', True, 1),
     (''queues'', True, of_char CHR ''q'')]"

definition parse_arguments :: "u64 \<Rightarrow> string list \<Rightarrow> int + arguments" where
  "parse_arguments num argv =
     (case getopt_long '':hr:c:n:a:q:'' integrity_opts argv of
        (opts, files) \<Rightarrow>
          (case option_loop (parse_argument num) opts
                  \<lparr>ar_device_id = 0, ar_adapter = 0, ar_segment_id = 5, ar_ns_id = 1, ar_n_queues = 1, ar_read_bytes = 0,
                   ar_filename = []\<rparr> of
             Inl e \<Rightarrow> Inl e
           | Inr args \<Rightarrow>
               if ar_device_id args = 0 then Inl 1
               else (case files of [] \<Rightarrow> Inl 2 | [f] \<Rightarrow> Inr (args\<lparr>ar_filename := f\<rparr>) | _ \<Rightarrow> Inl 2)))"

section \<open>What the programs run with\<close>

definition options_ok :: "bool \<Rightarrow> options \<Rightarrow> bool" where
  "options_ok cluster args \<longleftrightarrow>
     op_num_blocks args \<noteq> 0 \<and> op_namespace_id args \<noteq> 0xffffffff \<and> (op_ascii args \<longrightarrow> op_output args = None) \<and>
     (if cluster then op_controller_id args \<noteq> 0 \<and> op_adapter args < 4 else op_controller_path args \<noteq> None)"

text \<open>
  C37: When \<open>parse_options\<close> of read-blocks does not exit, the options have a number of blocks that is not zero, a
  namespace that is not the broadcast one, never both an output file and the text form, and a controller: a
  device number that is not zero with an adapter below four, or a path.
\<close>

theorem parse_options_ok:
  assumes "parse_options cluster argv = Inr args"
  shows "options_ok cluster args"
proof -
  define I where "I a \<longleftrightarrow> op_namespace_id a \<noteq> 0xffffffff \<and> (op_ascii a \<longrightarrow> op_output a = None) \<and> (cluster \<longrightarrow> op_adapter a < 4)"
    for a :: options
  have step: "I a'" if "parse_read_option cluster r a = Inr a'" "I a" for r a a'
    using that by (auto simp: parse_read_option_def I_def not_le split: prod.splits if_splits)
  define a0 where "a0 = \<lparr>op_controller_id = 0, op_adapter = 0, op_segment_id = (if cluster then 0xdeadbeef else 0),
      op_controller_path = None, op_namespace_id = 1, op_num_blocks = 0, op_offset = 0, op_output = None, op_ascii = False\<rparr>"
  have loop: "option_loop (parse_read_option cluster) (fst (getopt_long (read_argstr cluster) (read_opts cluster) argv)) a0 = Inr args"
    and fin: "op_num_blocks args \<noteq> 0" "if cluster then op_controller_id args \<noteq> 0 else op_controller_path args \<noteq> None"
    using assms by (auto simp: parse_options_def Let_def a0_def split: sum.splits if_splits)
  have "I a0" by (simp add: I_def a0_def)
  from option_loop_invariant [where I = I, OF step loop this] fin show ?thesis by (auto simp: options_ok_def I_def)
qed

theorem parse_options_ok_witness:
  "\<exists>args. parse_options True [''--ctrl'', ''0x80'', ''-b16'', ''--ascii'', ''--output=x''] = Inr args \<and> options_ok True args"
proof -
  have "getopt_long (read_argstr True) (read_opts True) [''--ctrl'', ''0x80'', ''-b16'', ''--ascii'', ''--output=x''] =
      ([(of_char CHR ''c'', ''0x80''), (of_char CHR ''b'', ''16''), (2, []), (0, ''x'')], [])" by code_simp
  moreover have "strtoul ''0x80'' 0 = (0x80, [])" "strtoul ''16'' 0 = (16, [])"
    by (simp_all add: strtoul_def sign_def radix_def isspace_def is_digit_def digit_value_def number_def)
  ultimately obtain args where "parse_options True [''--ctrl'', ''0x80'', ''-b16'', ''--ascii'', ''--output=x''] = Inr args"
    by (simp add: parse_options_def parse_read_option_def)
  with parse_options_ok [OF this] show ?thesis by blast
qed

lemma MAX_ADAPTS_4: "MAX_ADAPTS = 4"
  by (simp add: MAX_ADAPTS_def NVM_DIS_RPC_MAX_ADAPTER_def)

definition server_args_ok :: "server_args \<Rightarrow> bool" where
  "server_args_ok args \<longleftrightarrow> sv_smartio_dev_id args \<noteq> 0 \<and> length (sv_dis_adapters args) = MAX_ADAPTS
     \<and> 1 \<le> sv_n_dis_adapters args \<and> sv_n_dis_adapters args \<le> MAX_ADAPTS"

text \<open>
  When \<open>parse_opts\<close> of the RPC server does not exit, a device is given and between one and
  \<open>MAX_ADAPTS\<close> adapters are stored, all of them inside the array, whatever number of adapters the command
  line enables.
\<close>

theorem parse_server_opts_ok:
  assumes "parse_server_opts junk argv = Inr args"
  shows "server_args_ok args"
proof -
  define I where "I a \<longleftrightarrow> length (sv_dis_adapters a) = MAX_ADAPTS \<and> sv_n_dis_adapters a \<le> MAX_ADAPTS" for a :: server_args
  have step: "I a'" if "parse_server_option junk r a = Inr a'" "I a" for r a a'
    using that by (auto simp: parse_server_option_def I_def split: prod.splits if_splits)
  define a0 where "a0 = \<lparr>sv_identify_ctrl = False, sv_smartio_dev_id = 0, sv_ctrl_adapter = 0, sv_n_dis_adapters = 0,
      sv_dis_adapters = replicate MAX_ADAPTS 0, sv_verbose = False\<rparr>"
  obtain a where loop: "option_loop (parse_server_option junk) (fst (getopt_long '':hvc:a:'' server_opts argv)) a0 = Inr a"
    and fin: "sv_smartio_dev_id a \<noteq> 0"
      "args = (if sv_n_dis_adapters a = 0 then a\<lparr>sv_dis_adapters := (sv_dis_adapters a)[0 := sv_ctrl_adapter a], sv_n_dis_adapters := 1\<rparr> else a)"
    using assms by (auto simp: parse_server_opts_def Let_def a0_def split: sum.splits if_splits)
  have "I a0" by (simp add: I_def a0_def)
  from option_loop_invariant [where I = I, OF step loop this] fin show ?thesis by (auto simp: server_args_ok_def I_def MAX_ADAPTS_4)
qed

theorem parse_server_opts_ok_witness:
  "\<exists>args. parse_server_opts 0 [''--ctrl=8'', ''--en'', ''1'', ''--enable=2'', ''--enable=3'', ''--enable=0'', ''--enable=1''] = Inr args
     \<and> server_args_ok args \<and> sv_dis_adapters args = [1, 2, 3, 0]"
proof -
  let ?argv = "[''--ctrl=8'', ''--en'', ''1'', ''--enable=2'', ''--enable=3'', ''--enable=0'', ''--enable=1'']"
  have "getopt_long '':hvc:a:'' server_opts ?argv =
      ([(of_char CHR ''c'', ''8''), (of_char CHR ''r'', ''1''), (of_char CHR ''r'', ''2''), (of_char CHR ''r'', ''3''),
        (of_char CHR ''r'', ''0''), (of_char CHR ''r'', ''1'')], [])" by code_simp
  moreover have "strtoul ''8'' 0 = (8, [])" "strtoul ''1'' 0 = (1, [])" "strtoul ''2'' 0 = (2, [])" "strtoul ''3'' 0 = (3, [])"
    "strtoul ''0'' 0 = (0, [])"
    by (simp_all add: strtoul_def sign_def radix_def isspace_def is_digit_def digit_value_def number_def)
  moreover have "replicate MAX_ADAPTS (0 :: u32) = [0, 0, 0, 0]" by (simp add: MAX_ADAPTS_4 numeral_eq_Suc)
  ultimately obtain args where "parse_server_opts 0 ?argv = Inr args" "sv_dis_adapters args = [1, 2, 3, 0]"
    by (simp add: parse_server_opts_def parse_server_option_def parse_u64_def parse_u32_def MAX_ADAPTS_4)
  with parse_server_opts_ok [OF this(1)] show ?thesis by blast
qed

text \<open>
  read-blocks, built for the kernel module, takes a command line in its long form for what it says: the
  path, the number of blocks, the offset and the namespace that were written in decimal are the ones it
  reads with.
\<close>

theorem parse_options_reads_back:
  assumes "0 < n" "n < 2 ^ 64" "off < 2 ^ 64" "ns < 0xffffffff"
  shows "parse_options False [''--ctrl'', path, ''--blocks'', digits 10 n, ''--offset'', digits 10 off, ''--ns'', digits 10 ns] =
    Inr \<lparr>op_controller_id = 0, op_adapter = 0, op_segment_id = 0, op_controller_path = Some path, op_namespace_id = of_nat ns,
         op_num_blocks = of_nat n, op_offset = of_nat off, op_output = None, op_ascii = False\<rparr>"
proof -
  have lo: "long_option (read_opts False) ''ctrl'' = Some (True, of_char CHR ''c'')"
    "long_option (read_opts False) ''blocks'' = Some (True, of_char CHR ''b'')"
    "long_option (read_opts False) ''offset'' = Some (True, of_char CHR ''o'')"
    "long_option (read_opts False) ''ns'' = Some (True, of_char CHR ''n'')" by (simp_all add: long_option_def read_opts_def)
  then have g: "getopt_long (read_argstr False) (read_opts False)
      [''--ctrl'', path, ''--blocks'', digits 10 n, ''--offset'', digits 10 off, ''--ns'', digits 10 ns] =
      ([(of_char CHR ''c'', path), (of_char CHR ''b'', digits 10 n), (of_char CHR ''o'', digits 10 off), (of_char CHR ''n'', digits 10 ns)], [])"
    by (simp add: long_item_def split_first_def)
  have s: "strtoul (digits 10 k) 0 = (of_nat k, [])" if "k < 2 ^ 64" for k using strtoul_decimal [of 0 k] that by simp
  have "unat (of_nat n :: u64) \<noteq> unat (0 :: u64)" using assms(1,2) by (simp add: unat_of_nat)
  then have "(of_nat n :: u64) \<noteq> 0" by metis
  moreover have "unat (of_nat ns :: u32) \<noteq> unat (0xffffffff :: u32)" using assms(4) by (simp add: unat_of_nat)
  then have "(of_nat ns :: u32) \<noteq> 0xffffffff" by metis
  ultimately show ?thesis
    using s [OF assms(2)] s [OF assms(3)] s [of ns] assms(4) g by (simp add: parse_options_def parse_read_option_def ucast_of_nat)
qed

theorem parse_options_reads_back_witness:
  "parse_options False [''--ctrl'', ''/dev/disnvme0'', ''--blocks'', digits 10 24, ''--offset'', digits 10 100, ''--ns'', digits 10 1] =
     Inr \<lparr>op_controller_id = 0, op_adapter = 0, op_segment_id = 0, op_controller_path = Some ''/dev/disnvme0'', op_namespace_id = 1,
          op_num_blocks = 24, op_offset = 100, op_output = None, op_ascii = False\<rparr> \<and> digits 10 24 = ''24''"
proof -
  have "digits 10 24 = ''24''" by code_simp
  then show ?thesis using parse_options_reads_back [of 24 100 1 "''/dev/disnvme0''"] by simp
qed

text \<open>
  The short form of the namespace is not in the option string of that build, and an adapter or a namespace
  above 32 bits is cut to them before it is tested.
\<close>

lemma parse_options_short_namespace:
  "parse_options False [''-c'', path, ''-n'', ''1'', ''-b'', ''8''] = Inl (of_char CHR ''?'')"
proof -
  have "getopt_long (read_argstr False) (read_opts False) [''-c'', path, ''-n'', ''1'', ''-b'', ''8''] =
      ([(of_char CHR ''c'', path), (of_char CHR ''?'', []), (of_char CHR ''b'', ''8'')], [''1''])"
    by (simp add: read_argstr_def)
  then show ?thesis by (simp add: parse_options_def parse_read_option_def)
qed

lemma parse_options_adapter_cut:
  "parse_read_option True (of_char CHR ''a'', digits 10 (2 ^ 32 + 1)) args = Inr (args\<lparr>op_adapter := 1\<rparr>)"
  using strtoul_decimal [of 10 "2 ^ 32 + 1"] by (simp add: parse_read_option_def)

lemma parse_arguments_fields:
  assumes "parse_arguments num argv = Inr args"
  shows "ar_device_id args \<noteq> 0" "ar_adapter args < NVM_DIS_RPC_MAX_ADAPTER" "1 \<le> ar_n_queues args" "ar_n_queues args < 0xffff"
    and "snd (getopt_long '':hr:c:n:a:q:'' integrity_opts argv) = [ar_filename args]"
proof -
  define I where "I a \<longleftrightarrow> ar_adapter a < NVM_DIS_RPC_MAX_ADAPTER \<and> 1 \<le> ar_n_queues a \<and> ar_n_queues a < 0xffff" for a :: arguments
  have cut: "(ucast v :: u32) < 4" if "v < 4" for v :: u64
    using that by (simp add: word_less_nat_alt unsigned_ucast_eq take_bit_nat_eq_self)
  have cut': "1 \<le> (ucast v :: u16) \<and> (ucast v :: u16) < 0xffff" if "1 \<le> v \<and> v < 0xffff" for v :: u64
    using that by (simp add: word_less_nat_alt word_le_nat_alt unsigned_ucast_eq take_bit_nat_eq_self)
  have step: "I a'" if "parse_argument num r a = Inr a'" "I a" for r a a'
    using that by (auto simp: parse_argument_def I_def NVM_DIS_RPC_MAX_ADAPTER_def dest!: parse_number_bounds intro: cut cut' [THEN conjunct1] cut' [THEN conjunct2] split: prod.splits if_splits)
  define a0 where "a0 = \<lparr>ar_device_id = 0, ar_adapter = 0, ar_segment_id = 5, ar_ns_id = 1, ar_n_queues = 1, ar_read_bytes = 0,
      ar_filename = []\<rparr>"
  obtain opts f a where loop: "option_loop (parse_argument num) opts a0 = Inr a"
    and fin: "ar_device_id a \<noteq> 0" "args = a\<lparr>ar_filename := f\<rparr>" "getopt_long '':hr:c:n:a:q:'' integrity_opts argv = (opts, [f])"
    using assms by (auto simp: parse_arguments_def Let_def a0_def split: prod.splits sum.splits if_splits list.splits)
  have "I a0" by (simp add: I_def a0_def NVM_DIS_RPC_MAX_ADAPTER_def)
  from option_loop_invariant [where I = I, OF step loop this] fin
  show "ar_device_id args \<noteq> 0" "ar_adapter args < NVM_DIS_RPC_MAX_ADAPTER" "1 \<le> ar_n_queues args" "ar_n_queues args < 0xffff"
    "snd (getopt_long '':hr:c:n:a:q:'' integrity_opts argv) = [ar_filename args]"
    by (auto simp: I_def)
qed

lemma demo_arguments: "\<exists>args. parse_arguments 0 [''image'', ''--ctrl=8'', ''-q4'', ''-a'', ''2''] = Inr args \<and> ar_filename args = ''image''"
proof -
  have "strtoul ''8'' 0 = (8, [])" "strtoul ''4'' 0 = (4, [])" "strtoul ''2'' 10 = (2, [])"
    by (simp_all add: strtoul_def sign_def radix_def isspace_def is_digit_def digit_value_def number_def)
  then show ?thesis
    by (simp add: parse_arguments_def parse_argument_def integrity_opts_def long_item_def long_option_def split_first_def parse_number_def
        NVM_DIS_RPC_MAX_ADAPTER_def)
qed

text \<open>
  When \<open>parse_arguments\<close> of the integrity program does not exit, it has a controller, an adapter below
  \<open>MAX_ADAPTERS\<close> and at least one but fewer than 65535 queues, and its file name is the only argument that is not
  an option.
\<close>

theorem parse_arguments_ok:
  assumes "parse_arguments num argv = Inr args"
  shows "ar_device_id args \<noteq> 0 \<and> ar_adapter args < NVM_DIS_RPC_MAX_ADAPTER \<and> 1 \<le> ar_n_queues args \<and> ar_n_queues args < 0xffff
    \<and> snd (getopt_long '':hr:c:n:a:q:'' integrity_opts argv) = [ar_filename args]"
  by (intro conjI parse_arguments_fields [OF assms])

theorem parse_arguments_ok_witness:
  "\<exists>args. parse_arguments 0 [''image'', ''--ctrl=8'', ''-q4'', ''-a'', ''2''] = Inr args \<and> ar_device_id args \<noteq> 0
     \<and> ar_adapter args < NVM_DIS_RPC_MAX_ADAPTER \<and> 1 \<le> ar_n_queues args \<and> ar_n_queues args < 0xffff \<and> ar_filename args = ''image''"
proof -
  from demo_arguments obtain args where
    "parse_arguments 0 [''image'', ''--ctrl=8'', ''-q4'', ''-a'', ''2''] = Inr args" "ar_filename args = ''image''" by blast
  with parse_arguments_ok [OF this(1)] show ?thesis by blast
qed

section \<open>Path buffers\<close>

lemma digits_length:
  assumes "2 \<le> b" "n < b ^ k" "0 < k"
  shows "length (digits b n) \<le> k"
  using assms(2,3)
proof (induction k arbitrary: n)
  case (Suc k)
  show ?case
  proof (cases "n < b")
    case False
    then have "0 < k" using Suc.prems(1) by (cases k) simp_all
    moreover have "n div b < b ^ k" using Suc.prems(1) assms(1) by (simp add: less_mult_imp_div_less mult.commute)
    ultimately show ?thesis using Suc.IH False assms(1) by (simp add: digits_induct_step)
  qed (simp add: digits_small)
qed simp

lemma format_x_length: "w \<le> 8 \<Longrightarrow> length (format_x w n) \<le> 8"
proof -
  have "nat (n mod 2 ^ 32) < 16 ^ 8" by (simp add: nat_less_iff)
  then show "w \<le> 8 \<Longrightarrow> ?thesis" using digits_length [of 16 "nat (n mod 2 ^ 32)" 8] by (simp add: format_x_def pad_def)
qed

lemma format_x_small: "n \<le> m \<Longrightarrow> m < 16 ^ k \<Longrightarrow> k \<le> 7 \<Longrightarrow> 0 < k \<Longrightarrow> w \<le> k \<Longrightarrow> length (format_x w (int n)) \<le> k"
proof -
  assume a: "n \<le> m" "m < 16 ^ k" "k \<le> 7" "0 < k" "w \<le> k"
  have "(16 :: nat) ^ k \<le> 16 ^ 7" using a(3) by (intro power_increasing) simp_all
  then have "nat (int n mod 2 ^ 32) = n" using a by (simp add: nat_mod_distrib)
  then show ?thesis using a digits_length [of 16 n k] by (simp add: format_x_def pad_def)
qed

text \<open>
  The directories that \<open>sysfs\<close> has for PCI devices are named after them: a domain of at most 32 bits, bus
  and device of 8, and a function below 16.
\<close>

definition sysfs_names :: "(string \<Rightarrow> bool) \<Rightarrow> bool" where
  "sysfs_names is_dir \<longleftrightarrow> (\<forall>dev. is_dir (sysfs_path dev) \<longrightarrow>
     (\<exists>domain bus device func. domain < 2 ^ 32 \<and> bus < 2 ^ 8 \<and> device < 2 ^ 8 \<and> func < 2 ^ 4
        \<and> sysfs_path dev = ''/sys/bus/pci/devices/'' @ bdf_name domain bus device func))"

lemma pad_length: "n < 16 ^ k \<Longrightarrow> 0 < k \<Longrightarrow> w \<le> k \<Longrightarrow> length (pad w (digits 16 n)) \<le> k"
  using digits_length [of 16 n k] by (simp add: pad_def)

lemma sysfs_directory_length:
  assumes "sysfs_names is_dir" "is_dir (sysfs_path dev)"
  shows "length (sysfs_path dev) \<le> 37"
proof -
  from assms obtain domain bus device func where
    n: "domain < 2 ^ 32" "bus < 2 ^ 8" "device < 2 ^ 8" "func < 2 ^ 4"
      "sysfs_path dev = ''/sys/bus/pci/devices/'' @ bdf_name domain bus device func"
    unfolding sysfs_names_def by blast
  then show ?thesis
    using pad_length [of domain 8 4] pad_length [of bus 2 2] pad_length [of device 2 2] digits_length [of 16 func 1]
    by (simp add: bdf_name_def)
qed



text \<open>The path that is looked up is the name that \<open>parse_bdf\<close> takes.\<close>

lemma sysfs_path_name:
  assumes "domain \<le> 0xffff" "bus \<le> 0xff" "device \<le> 0xff" "func < 10"
  shows "sysfs_path \<lparr>bd_domain = int domain, bd_bus = int bus, bd_device = int device, bd_function = int func\<rparr> =
    ''/sys/bus/pci/devices/'' @ bdf_name domain bus device func"
proof -
  have "nat (int n mod 2 ^ 32) = n" if "n \<le> 0xffff" for n using that by (simp add: nat_mod_distrib)
  then show ?thesis using assms by (simp add: sysfs_path_def bdf_name_def format_x_def pad_def)
qed

end
