(* ===== verification/Prog_Identify.thy ===== *)
theory Prog_Identify
  imports Cli_Options
begin

unbundle bit_operations_syntax

text \<open>
  The programs that identify a controller: \<open>examples/identify/module.c\<close> through the kernel module and
  \<open>userspace.c\<close> on bare PCI, with the printing of \<open>examples/rpc/util.c\<close>, which all examples share.  What is
  printed of a controller is a value; messages on errors are left out.  Not returning, or a trap, is \<open>None\<close>.
\<close>

section \<open>Printing\<close>

text \<open>A field of a fixed size is copied to a larger buffer of zeros and printed up to the first of them.\<close>

definition c_string :: "nat \<Rightarrow> u8 list \<Rightarrow> string" where
  "c_string n bs = map (\<lambda>b. char_of (unat b)) (takeWhile (\<lambda>b. b \<noteq> 0) (take n bs))"

definition print_ctrl_info :: "nvm_ctrl_info \<Rightarrow> string list" where
  "print_ctrl_info info =
     [''------------- Controller information -------------'',
      ''PCI Vendor ID           : '' @ digits 16 (unat (i_pci_vendor info ! 0)) @ '' '' @ digits 16 (unat (i_pci_vendor info ! 1)),
      ''PCI Subsystem Vendor ID : '' @ digits 16 (unat (i_pci_vendor info ! 2)) @ '' '' @ digits 16 (unat (i_pci_vendor info ! 3)),
      ''NVM Express version     : '' @ digits 10 (unat (drop_bit 16 (i_nvme_version info))) @ ''.''
         @ digits 10 (unat (drop_bit 8 (i_nvme_version info) AND 0xff)) @ ''.'' @ digits 10 (unat (i_nvme_version info AND 0xff)),
      ''Controller page size    : '' @ digits 10 (unat (i_page_size info)),
      ''Max queue entries       : '' @ digits 10 (unat (i_max_entries info)),
      ''Serial Number           : '' @ c_string 20 (i_serial_no info),
      ''Model Number            : '' @ c_string 40 (i_model_no info),
      ''Firmware revision       : '' @ c_string 8 (i_firmware info),
      ''Max data transfer size  : '' @ digits 10 (unat (i_max_data_size info)),
      ''Max outstanding commands: '' @ digits 10 (unat (i_max_out_cmds info)),
      ''Max number of namespaces: '' @ digits 10 (unat (i_max_n_ns info)),
      ''--------------------------------------------------'']"

section \<open>Memory\<close>

text \<open>
  \<open>posix_memalign\<close> gives a heap block of the size that is asked for and its address, which is the
  environment's; an address where the block would not fit is a failure.  \<open>mlock\<close> pins pages under
  their address; to unlock pages that are not locked does nothing.
\<close>

type_synonym block = "nat \<times> u64"

definition posix_memalign :: "u64 \<Rightarrow> os \<Rightarrow> int \<times> block \<times> os" where
  "posix_memalign sz s =
     (let a = os_addr s (os_calls s) in
      if a = NULL \<or> 2 ^ 64 < unat a + unat sz then (ENOMEM, (0, NULL), s\<lparr>os_calls := Suc (os_calls s)\<rparr>)
      else case acquire Heap s of (err, h, s) \<Rightarrow> (err, (h, a), s))"

definition mlock :: "u64 \<Rightarrow> os \<Rightarrow> int \<times> os" where
  "mlock p s =
     (case sys_call s of (err, s) \<Rightarrow>
        if err \<noteq> 0 then (err, s) else (0, s\<lparr>os_live := add_mset (Pinned, unat p) (os_live s)\<rparr>))"

definition munlock :: "u64 \<Rightarrow> os \<Rightarrow> os" where
  "munlock p s = (if (Pinned, unat p) \<in># os_live s then release Pinned (unat p) s else s)"

section \<open>Executing the command\<close>

text \<open>
  The structs on the stack hold junk before they are written.  The function of the two programs is the
  same.
\<close>

definition execute_identify ::
  "device \<Rightarrow> binding remote_stub \<Rightarrow> u64 \<Rightarrow> int \<Rightarrow> nvm_ctrl_info \<Rightarrow> controller \<Rightarrow> nvm_dma \<Rightarrow> u64 \<Rightarrow> u64 \<Rightarrow> os \<Rightarrow> world
     \<Rightarrow> (int \<times> string list \<times> os \<times> world) option" where
  "execute_identify dev remote cpl_ptr junk junk_info ctrl window ptr ioaddr s w =
     do { (status, ref, s, w) \<leftarrow> nvm_aq_create dev junk ctrl window s w;
          if status \<noteq> 0 then Some (1, [], s, w)
          else
            do { ref \<leftarrow> (ref :: aq_ref option);
                 (status, info, ref, s, w) \<leftarrow> nvm_admin_ctrl_info dev remote cpl_ptr ref (Some junk_info) ptr ioaddr s w;
                 info \<leftarrow> info;
                 let (status, out) = (if status \<noteq> 0 then (1, []) else (status, print_ctrl_info info));
                 s \<leftarrow> nvm_aq_destroy (Some ref) s;
                 Some (status, out, s, w) } }"

section \<open>With the kernel module\<close>

definition device_path :: "u64 \<Rightarrow> string" where
  "device_path dev_id = ''/dev/disnvme'' @ digits 10 (unat dev_id)"

text \<open>\<open>open\<close> gives a descriptor or fails; which file it opens is a matter of the path.\<close>

definition open_fd :: "u64 \<Rightarrow> os \<Rightarrow> int \<times> os" where
  "open_fd dev_id s = (case acquire Fd s of (err, fd, s) \<Rightarrow> if err \<noteq> 0 then (-1, s) else (int fd, s))"

text \<open>\<open>kaddrs\<close> are the addresses the kernel module hands out for the window.\<close>

definition module_main ::
  "device \<Rightarrow> binding remote_stub \<Rightarrow> u64 \<Rightarrow> int \<Rightarrow> nvm_ctrl_info \<Rightarrow> bool \<Rightarrow> int \<Rightarrow> u64 list \<Rightarrow> string list \<Rightarrow> os \<Rightarrow> world
     \<Rightarrow> (int \<times> string list \<times> os \<times> world) option" where
  "module_main dev remote cpl_ptr junk junk_info ndebug sysconf kaddrs argv s w =
     (let page_size = of_int sysconf :: u64 in
      case parse_module_args argv of
        Inl e \<Rightarrow> Some (e, [], s, w)
      | Inr dev_id \<Rightarrow>
          case open_fd dev_id s of (fd, s) \<Rightarrow>
            if fd < 0 then Some (1, [], s, w)
            else
              do { (status, ctrl, s) \<leftarrow> nvm_ctrl_init ndebug sysconf (w_mem w) s;
                   if status \<noteq> 0 then Some (1, [], close_fd fd s, w)
                   else
                     do { ctrl \<leftarrow> ctrl;
                          let s = close_fd fd s;
                          case posix_memalign (3 * page_size) s of (status, (block, memory), s) \<Rightarrow>
                            if status \<noteq> 0
                            then do { s \<leftarrow> nvm_ctrl_free (Some ctrl) s; Some (2, [], s, w) }
                            else
                              do { let w = w\<lparr>w_mem := memset memory 0 (unat (3 * page_size)) (w_mem w)\<rparr>;
                                   (status, window, s) \<leftarrow> nvm_dma_map_host ndebug sysconf ctrl kaddrs memory (3 * page_size) s;
                                   if status \<noteq> 0
                                   then do { s \<leftarrow> nvm_ctrl_free (Some ctrl) (free (Some block) s); Some (1, [], s, w) }
                                   else
                                     do { wnd \<leftarrow> window;
                                          let handle = dc_handle wnd;
                                          if length (d_ioaddrs handle) < 3 then None
                                          else
                                            do { (status, out, s, w) \<leftarrow> execute_identify dev remote cpl_ptr junk junk_info ctrl handle
                                                   (NVM_DMA_OFFSET handle 2) (d_ioaddrs handle ! 2) s w;
                                                 s \<leftarrow> nvm_dma_unmap window s;
                                                 s \<leftarrow> nvm_ctrl_free (Some ctrl) (free (Some block) s);
                                                 Some (status, out, s, w) } } } } })"

section \<open>On bare PCI\<close>

text \<open>
  \<open>pagemap\<close> gives the entry of a page number, \<open>buf\<close> is what the caller's array holds before.  \<open>errno\<close> is what the
  variable of that name holds after a read that came up short, which need not have set it.
\<close>

fun translate_pages :: "u64 \<Rightarrow> u64 list \<Rightarrow> int \<times> u64 list" where
  "translate_pages page_size [] = (0, [])"
| "translate_pages page_size (e # es) =
     (if e AND push_bit 63 1 = 0 then (EINVAL, e # es)
      else case translate_pages page_size es of (status, l) \<Rightarrow> (status, (e AND (push_bit 54 1 - 1)) * page_size # l))"

definition lookup_ioaddrs ::
  "(u64 \<Rightarrow> u64) \<Rightarrow> int \<Rightarrow> u64 \<Rightarrow> u64 \<Rightarrow> nat \<Rightarrow> u64 list \<Rightarrow> os \<Rightarrow> int \<times> u64 list \<times> os" where
  "lookup_ioaddrs pagemap errno vaddr page_size n_pages buf s =
     (let offset = (vaddr div page_size) * 8 in
      case acquire Fd s of (err, fp, s) \<Rightarrow>
        if err \<noteq> 0 then (err, buf, s)
        else
          case sys_call s of (err, s) \<Rightarrow>
            if err \<noteq> 0 then (err, buf, release Fd fp s)
            else
              case sys_call s of (short, s) \<Rightarrow>
                if short \<noteq> 0 then (errno, buf, release Fd fp s)
                else
                  case translate_pages page_size (map (\<lambda>i. pagemap (offset div 8 + of_nat i)) [0..<n_pages]) of
                    (status, ioaddrs) \<Rightarrow> (status, ioaddrs, release Fd fp s))"

definition identify_ctrl ::
  "device \<Rightarrow> binding remote_stub \<Rightarrow> u64 \<Rightarrow> int \<Rightarrow> nvm_ctrl_info \<Rightarrow> int \<Rightarrow> (u64 \<Rightarrow> u64) \<Rightarrow> int \<Rightarrow> u64 list \<Rightarrow> controller \<Rightarrow> os \<Rightarrow> world
     \<Rightarrow> (int \<times> string list \<times> os \<times> world) option" where
  "identify_ctrl dev remote cpl_ptr junk junk_info sysconf pagemap errno buf ctrl s w =
     (if sysconf = -1 then Some (1, [], s, w)
      else
        let page_size = of_int sysconf :: u64 in
        case posix_memalign (3 * page_size) s of (status, (block, memory), s) \<Rightarrow>
          if status \<noteq> 0 then Some (1, [], s, w)
          else
            case mlock memory s of (status, s) \<Rightarrow>
              if status \<noteq> 0 then Some (1, [], free (Some block) s, w)
              else
                let out = (\<lambda>s. free (Some block) (munlock memory s)) in
                case lookup_ioaddrs pagemap errno memory page_size 3 buf s of (status, ioaddrs, s) \<Rightarrow>
                  if status \<noteq> 0 then Some (status, [], out (free (Some block) (munlock memory s)), w)
                  else
                    do { (status, window, s) \<leftarrow> nvm_dma_map (k_handle ctrl) memory page_size 3 ioaddrs s;
                         if status \<noteq> 0 then Some (2, [], out s, w)
                         else
                           do { wnd \<leftarrow> window;
                                (status, txt, s, w) \<leftarrow> execute_identify dev remote cpl_ptr junk junk_info ctrl (dc_handle wnd)
                                   (memory + 2 * c_page_size (k_handle ctrl)) (ioaddrs ! 2) s w;
                                s \<leftarrow> nvm_dma_unmap window s;
                                Some (status, txt, out s, w) } })"

text \<open>
  The files of a device: one byte is written to \<open>enable\<close>; \<open>cfg\<close> is the configuration space that \<open>config\<close> shows.
  The results of reading and writing are not looked at; a read that fails leaves the junk.
\<close>

definition pci_enable_device :: "bdf \<Rightarrow> os \<Rightarrow> int \<times> (string \<times> string) list \<times> os" where
  "pci_enable_device dev s =
     (case acquire Fd s of (err, fp, s) \<Rightarrow>
        if err \<noteq> 0 then (err, [], s) else (0, [(sysfs_path dev @ ''/enable'', ''1'')], release Fd fp s))"

definition pci_set_bus_master :: "u16 \<Rightarrow> mem \<Rightarrow> bdf \<Rightarrow> os \<Rightarrow> int \<times> mem \<times> os" where
  "pci_set_bus_master junk cfg dev s =
     (case acquire Fd s of (err, fp, s) \<Rightarrow>
        if err \<noteq> 0 then (err, cfg, s)
        else
          case sys_call s of (err, s) \<Rightarrow>
            let command = (if err \<noteq> 0 then junk else load16 cfg 4);
                command = command OR push_bit 2 1 in
            case sys_call s of (err, s) \<Rightarrow>
              (0, if err \<noteq> 0 then cfg else store16 4 command cfg, release Fd fp s))"

definition pci_open_bar :: "bdf \<Rightarrow> int \<Rightarrow> os \<Rightarrow> int \<times> os" where
  "pci_open_bar dev bar s = (case acquire Fd s of (err, fd, s) \<Rightarrow> if err \<noteq> 0 then (-1, s) else (int fd, s))"

definition userspace_main ::
  "device \<Rightarrow> binding remote_stub \<Rightarrow> u64 \<Rightarrow> int \<Rightarrow> nvm_ctrl_info \<Rightarrow> bool \<Rightarrow> int \<Rightarrow> (u64 \<Rightarrow> u64) \<Rightarrow> int \<Rightarrow> u64 list \<Rightarrow> (string \<Rightarrow> bool) \<Rightarrow> u16
     \<Rightarrow> string list \<Rightarrow> mem \<Rightarrow> os \<Rightarrow> world \<Rightarrow> (int \<times> string list \<times> mem \<times> os \<times> world) option" where
  "userspace_main dev remote cpl_ptr junk junk_info ndebug sysconf pagemap errno buf is_dir junk_cmd argv cfg s w =
     (case parse_pci_args is_dir argv of
        Inl e \<Rightarrow> Some (e, [], cfg, s, w)
      | Inr device \<Rightarrow>
          case pci_enable_device device s of (status, _, s) \<Rightarrow>
            if status \<noteq> 0 then Some (1, [], cfg, s, w)
            else
              case pci_set_bus_master junk_cmd cfg device s of (status, cfg, s) \<Rightarrow>
                if status \<noteq> 0 then Some (2, [], cfg, s, w)
                else
                  case pci_open_bar device 0 s of (fd, s) \<Rightarrow>
                    if fd < 0 then Some (3, [], cfg, s, w)
                    else
                      case mmap s of (ctrl_registers, s) \<Rightarrow>
                        if ctrl_registers = NULL \<or> ctrl_registers = MAP_FAILED then Some (3, [], cfg, close_fd fd s, w)
                        else
                          do { (status, ctrl, s) \<leftarrow> nvm_raw_ctrl_init ndebug sysconf (w_mem w) ctrl_registers NVM_CTRL_MEM_MINSIZE s;
                               if status \<noteq> 0 then Some (4, [], cfg, close_fd fd (munmap ctrl_registers s), w)
                               else
                                 do { ctrl \<leftarrow> ctrl;
                                      (status, out, s, w) \<leftarrow>
                                        identify_ctrl dev remote cpl_ptr junk junk_info sysconf pagemap errno buf ctrl s w;
                                      s \<leftarrow> nvm_ctrl_free (Some ctrl) s;
                                      Some (status, out, cfg, close_fd fd (munmap ctrl_registers s), w) } })"

section \<open>Looking up addresses\<close>

lemma translate_pages_spec:
  "fst (translate_pages ps es) = (if \<forall>e \<in> set es. e AND push_bit 63 1 \<noteq> 0 then 0 else EINVAL) \<and>
   ((\<forall>e \<in> set es. e AND push_bit 63 1 \<noteq> 0) \<longrightarrow> snd (translate_pages ps es) = map (\<lambda>e. (e AND (push_bit 54 1 - 1)) * ps) es)"
  by (induction es) (auto split: prod.splits)

lemma page_number:
  fixes vaddr ps :: u64
  assumes "8 \<le> ps"
  shows "(vaddr div ps) * 8 div 8 = vaddr div ps"
proof -
  have "8 \<le> unat ps" using assms by (simp add: word_le_nat_alt)
  then have "unat vaddr div unat ps \<le> unat vaddr div 8" by (intro div_le_mono2) simp_all
  moreover have "unat vaddr < 2 ^ 64" using unsigned_less [of vaddr] by simp
  ultimately have "unat vaddr div unat ps * 8 < 2 ^ 64" by linarith
  then have "unat ((vaddr div ps) * 8) = unat (vaddr div ps) * 8" by (simp add: unat_word_ariths unat_div_distrib)
  then have "unat ((vaddr div ps) * 8 div 8) = unat (vaddr div ps)" by (simp add: unat_div_distrib)
  then show ?thesis by (simp add: word_unat_eq_iff)
qed

lemma lookup_ioaddrs_gains: "lookup_ioaddrs pagemap errno vaddr ps n buf s = (e, l, s') \<Longrightarrow> gains s s' {#}"
proof -
  obtain e0 fp s0 where a: "acquire Fd s = (e0, fp, s0)" by (metis prod_cases3)
  obtain e1 s1 where c1: "sys_call s0 = (e1, s1)" by fastforce
  obtain e2 s2 where c2: "sys_call s1 = (e2, s2)" by fastforce
  have g: "gains s0 s1 {#}" "gains s1 s2 {#}" using c1 c2 by (metis sys_call_gains snd_conv)+
  assume l: "lookup_ioaddrs pagemap errno vaddr ps n buf s = (e, l, s')"
  show ?thesis
  proof (cases "e0 = 0")
    case True
    have g0: "gains s s0 ({#} + {#(Fd, fp)#})" using acquire_ok a True by fastforce
    from gains_trans [OF this g(1)] have g1: "gains s s1 ({#} + {#(Fd, fp)#})" by simp
    from gains_trans [OF this g(2)] have g2: "gains s s2 ({#} + {#(Fd, fp)#})" by simp
    show ?thesis using l a c1 c2 True release_undo [OF g1] release_undo [OF g2]
      by (auto simp: lookup_ioaddrs_def Let_def split: if_splits prod.splits)
  next
    case False
    then show ?thesis using l a acquire_err [OF a] by (simp add: lookup_ioaddrs_def Let_def)
  qed
qed

text \<open>
  When the page map can be opened and read, \<open>lookup_ioaddrs\<close> succeeds exactly if every page of the range is
  present, and then gives for each page the frame number of its entry times the page size; otherwise it
  returns \<open>EINVAL\<close>.  The file is closed on every path.
\<close>

theorem lookup_ioaddrs_translates:
  assumes "os_env s (os_calls s) = 0" "os_env s (os_calls s + 1) = 0" "os_env s (os_calls s + 2) = 0" "8 \<le> ps"
  shows "\<exists>e l s'. lookup_ioaddrs pagemap errno vaddr ps n buf s = (e, l, s') \<and> gains s s' {#} \<and>
    e = (if \<forall>i < n. pagemap (vaddr div ps + of_nat i) AND push_bit 63 1 \<noteq> 0 then 0 else EINVAL) \<and>
    (e = 0 \<longrightarrow> l = map (\<lambda>i. (pagemap (vaddr div ps + of_nat i) AND (push_bit 54 1 - 1)) * ps) [0..<n])"
proof -
  let ?es = "map (\<lambda>i. pagemap (vaddr div ps + of_nat i)) [0..<n]"
  obtain e l s' where l: "lookup_ioaddrs pagemap errno vaddr ps n buf s = (e, l, s')" by (metis prod_cases3)
  then have "(e, l) = translate_pages ps ?es"
    using assms by (auto simp: lookup_ioaddrs_def Let_def acquire_def sys_call_def grant_def page_number split: prod.splits)
  then have "e = fst (translate_pages ps ?es)" "l = snd (translate_pages ps ?es)" by (metis fst_conv snd_conv)+
  with translate_pages_spec [of ps ?es] lookup_ioaddrs_gains [OF l] l show ?thesis
    by (intro exI [of _ e] exI [of _ l] exI [of _ s']) auto
qed

theorem lookup_ioaddrs_translates_witness:
  "\<exists>s'. lookup_ioaddrs (\<lambda>n. push_bit 63 1 OR (n + 0x100)) 0 0x7000 0x1000 3 [] demo_os = (0, [0x107000, 0x108000, 0x109000], s')
     \<and> gains demo_os s' {#}"
proof -
  let ?pm = "\<lambda>n :: u64. push_bit 63 1 OR (n + 0x100)"
  have env: "os_env demo_os n = 0" for n by (simp add: demo_os_def)
  have "?pm n AND push_bit 63 1 = push_bit 63 1" for n by (rule bit_word_eqI) (auto simp: bit_simps)
  then have p: "?pm n AND push_bit 63 1 \<noteq> 0" for n by simp
  have "[0..<3] = [0, 1, 2 :: nat]" by code_simp
  with lookup_ioaddrs_translates [of demo_os "0x1000" ?pm 0 "0x7000" 3 "[]"] env p show ?thesis by auto
qed

section \<open>A block that is freed twice\<close>

text \<open>
  C40: When the addresses of the memory cannot be looked up, \<open>identify_ctrl\<close> of the userspace program unlocks and
  frees the memory and then does both again at its label \<open>out\<close>: the block is freed twice.
\<close>

theorem identify_ctrl_frees_twice:
  assumes "sysconf \<noteq> -1" "posix_memalign (3 * of_int sysconf) s = (0, (block, memory), s1)" "mlock memory s1 = (0, s2)"
    and "lookup_ioaddrs pagemap errno memory (of_int sysconf) 3 buf s2 = (status, ioaddrs, s3)" "status \<noteq> 0"
    and "(Heap, block) \<notin># os_live s"
  shows "\<exists>s'. identify_ctrl dev remote cpl_ptr junk junk_info sysconf pagemap errno buf ctrl s w = Some (status, [], s', w) \<and> os_bad s'"
proof -
  have g1: "gains s s1 {#(Heap, block)#}" using assms(2) by (auto simp: posix_memalign_def Let_def dest: acquire_ok split: prod.splits if_splits)
  have g2: "gains s1 s2 {#(Pinned, unat memory)#}" using assms(3) by (auto simp: mlock_def sys_call_def gains_def split: if_splits)
  from gains_trans [OF gains_trans [OF g1 g2] lookup_ioaddrs_gains [OF assms(4)]] assms(6)
  have c: "count (os_live s3) (Heap, block) \<le> 1" by (simp add: gains_def not_in_iff)
  let ?s = "munlock memory s3"
  have "count (os_live ?s) (Heap, block) \<le> 1" using c by (auto simp: munlock_def release_def)
  then have "gone (Heap, block) (free (Some block) ?s)" by (simp add: free_def gone_released)
  then have "gone (Heap, block) (munlock memory (free (Some block) ?s))" by (simp add: munlock_def gone_release)
  then have "os_bad (free (Some block) (munlock memory (free (Some block) ?s)))" by (simp add: free_def gone_release_again)
  then show ?thesis using assms by (simp add: identify_ctrl_def Let_def)
qed

text \<open>The page map lists no page as present.\<close>

theorem identify_ctrl_frees_twice_witness:
  "\<exists>s'. identify_ctrl (\<lambda>k m. m) (remote_stub []) 0 0 ctrl_info_zero 4096 (\<lambda>_. 0) 0 [] demo_controller demo_os idle_world
     = Some (EINVAL, [], s', idle_world) \<and> os_bad s'"
proof -
  obtain block memory s1 where a: "posix_memalign (3 * of_int 4096) demo_os = (0, (block, memory), s1)"
    by (simp add: posix_memalign_def acquire_def sys_call_def grant_def demo_os_def)
  then have e1: "os_env s1 = (\<lambda>_. 0)" "os_live demo_os = {#}"
    by (auto simp: posix_memalign_def acquire_def sys_call_def grant_def demo_os_def split: if_splits)
  obtain s2 where b: "mlock memory s1 = (0, s2)" "os_env s2 = (\<lambda>_. 0)" using e1(1) by (simp add: mlock_def sys_call_def)
  have "\<not> (\<forall>i < 3 :: nat. (0 :: u64) AND push_bit 63 1 \<noteq> 0)" by (auto intro: exI [of _ 0])
  with lookup_ioaddrs_translates [of s2 4096 "\<lambda>_. 0" 0 memory 3 "[]"] b(2) obtain l s3 where
    "lookup_ioaddrs (\<lambda>_. 0) 0 memory 4096 3 [] s2 = (EINVAL, l, s3)" by (simp only: if_False) auto
  with identify_ctrl_frees_twice [OF _ a b(1), of "\<lambda>_. 0" 0 "[]" EINVAL l s3] e1(2) show ?thesis by simp
qed

section \<open>What identifying leaves behind\<close>

lemma raw_rpc_local_gains:
  assumes "f_stub ref = Some Execute_command" "f_data ref = Some (Admin_queues a)" "locks_succeed s"
    and "nvm_raw_rpc dev remote ref cmd cpl ptr s w = Some (e, ref', cmd', cpl', s', w')"
  shows "gains s s' {#} \<and> (\<exists>a'. ref' = ref\<lparr>f_data := Some (Admin_queues a')\<rparr>)"
proof -
  obtain s1 where l: "mutex_lock (f_self ref) s = (0, s1)" using locks_succeed_lock [OF assms(3)] by blast
  have "gains s s1 ({#} + {#(Mutex, f_self ref)#})" using mutex_lock_gains(1) [OF l] by simp
  from mutex_unlock_undo [OF this] assms l show ?thesis
    by (auto simp: nvm_raw_rpc_def call_stub_def split: Option.bind_splits)
qed

lemma admin_ctrl_info_gains:
  assumes "f_stub ref = Some Execute_command" "f_data ref = Some (Admin_queues a)" "locks_succeed s"
    and "nvm_admin_ctrl_info dev remote cpl_ptr ref (Some i) ptr ioaddr s w = Some (e, info, ref', s', w')"
  shows "gains s s' {#} \<and> (\<exists>a'. ref' = ref\<lparr>f_data := Some (Admin_queues a')\<rparr>) \<and> info \<noteq> None"
  using assms(4) raw_rpc_local_gains [OF assms(1-3)] assms(2)
  by (auto simp: nvm_admin_ctrl_info_def Let_def split: Option.bind_splits if_splits) (auto intro!: exI [of _ a])

lemma aq_create_returns:
  assumes "\<forall>n. os_env s n = 0"
  obtains "nvm_aq_create dev junk ctrl window s w = Some (EINVAL, None :: ('h, 'b) nvm_admin_reference option, s, w)" "\<not> window_ok (k_handle ctrl) window"
  | ref s1 w1 where "nvm_aq_create dev junk ctrl window s w = Some (0, Some (ref :: ('h, 'b) nvm_admin_reference), s1, w1)" "window_ok (k_handle ctrl) window"
proof (cases "window_ok (k_handle ctrl) window")
  case False
  then show thesis using that(1) by (auto simp: nvm_aq_create_def window_ok_def not_le)
next
  case True
  have m: "\<exists>p s'. malloc s = (Some p, s') \<and> (\<forall>n. os_env s' n = 0)" if "\<forall>n. os_env s n = 0" for s
    using that by (simp add: malloc_def acquire_def sys_call_def grant_def Let_def)
  from m [OF assms] obtain p s1 where p: "malloc s = (Some p, s1)" "\<forall>n. os_env s1 n = 0" by blast
  obtain s2 where c: "sys_call s1 = (0, s2)" "\<forall>n. os_env s2 n = 0" using p(2) by (simp add: sys_call_def)
  from m [OF c(2)] obtain q s3 where "malloc s2 = (Some q, s3)" by blast
  moreover have "\<not> d_n_ioaddrs window < 2" using True by (simp add: window_ok_def not_less)
  ultimately have "\<exists>(ref :: ('h, 'b) nvm_admin_reference) s1 w1. nvm_aq_create dev junk ctrl window s w = Some (0, Some ref, s1, w1)"
    using True p(1) c(1) by (simp add: nvm_aq_create_def window_ok_def nvm_ref_get_def create_admin_def Let_def)
  then show thesis using that(2) True by blast
qed

lemma execute_identify_gains:
  assumes "\<forall>n. os_env s n = 0" "locks_succeed s"
    and "\<forall>ref s1 w1. nvm_aq_create dev junk ctrl window s w = Some (0, Some ref, s1, w1) \<longrightarrow>
      nvm_admin_ctrl_info dev remote cpl_ptr (ref :: aq_ref) (Some junk_info) ptr ioaddr s1 w1 \<noteq> None"
  shows "\<exists>e out s' w' r. execute_identify dev remote cpl_ptr junk junk_info ctrl window ptr ioaddr s w = Some (e, out, s', w') \<and>
    gains s s' r \<and> (window_ok (k_handle ctrl) window \<longrightarrow> (\<exists>p. r = {#(Heap, p)#})) \<and> (\<not> window_ok (k_handle ctrl) window \<longrightarrow> e = 1 \<and> r = {#})"
proof (cases rule: aq_create_returns [OF assms(1), of dev junk ctrl window w, where ?'h = binding_handle and ?'b = binding])
  case 1
  then show ?thesis by (simp add: execute_identify_def)
next
  case (2 ref s1 w1)
  from nvm_aq_create_cases [OF 2(1)] obtain a where
    d: "f_data ref = Some (Admin_queues a)" "f_handles ref = []" "f_release ref = Some remove_admin_deleter" "f_stub ref = Some Execute_command"
    and g: "gains s s1 {#(Heap, f_self ref), (Heap, a_self a)#}" by auto
  have e1: "locks_succeed s1" using assms(2) locks_succeed_gains [OF g] by simp
  from assms(3) 2(1) obtain e info ref' s2 w2 where
    i: "nvm_admin_ctrl_info dev remote cpl_ptr ref (Some junk_info) ptr ioaddr s1 w1 = Some (e, info, ref', s2, w2)"
    by (metis not_None_eq prod_cases5)
  from admin_ctrl_info_gains [OF d(4,1) e1 i] obtain a' x where
    g2: "gains s1 s2 {#}" and r: "ref' = ref\<lparr>f_data := Some (Admin_queues a')\<rparr>" and x: "info = Some x" by auto
  have "gains s s2 ({#(Heap, a_self a)#} + {#(Heap, f_self ref')#})" using gains_trans [OF g g2] r by (simp add: add_mset_commute)
  moreover obtain s3 where "mutex_lock (f_self ref') s2 = (0, s3)"
    using locks_succeed_lock [of s2] e1 locks_succeed_gains [OF g2] by auto
  ultimately obtain s' where "nvm_ref_put (Some ref') s2 = Some s'" "gains s s' {#(Heap, a_self a)#}"
    using nvm_ref_put_plain [of ref' s2] r d by fastforce
  then show ?thesis using 2 i x by (auto simp: execute_identify_def nvm_aq_destroy_def)
qed

end
