(* ===== verification/Prog_Rpc.thy ===== *)
theory Prog_Rpc
  imports Prog_Identify Dis_Dma
begin

unbundle bit_operations_syntax

text \<open>
  The programs of \<open>examples/rpc\<close>: \<open>segment.c\<close> and \<open>random_id\<close> of \<open>util.c\<close>, the client \<open>rpc_client.c\<close> and the server
  \<open>rpc_server.c\<close>, and \<open>examples/identify/smartio.c\<close>.  Structs on the stack hold junk before they are written.
\<close>

section \<open>Segments\<close>

record segment =
  sg_id :: u32
  sg_sd :: nat
  sg_segment :: nat
  sg_size :: u64

definition segment_create :: "segment \<Rightarrow> u32 \<Rightarrow> u64 \<Rightarrow> os \<Rightarrow> int \<times> segment \<times> os" where
  "segment_create segment segment_id sz s =
     (case sci_acquire Sci_desc s of (err, sd, s) \<Rightarrow>
        let segment = segment\<lparr>sg_sd := sd\<rparr> in
        if err \<noteq> SCI_ERR_OK then (EIO, segment, s)
        else
          case sci_acquire Sci_local_segment s of (err, seg, s) \<Rightarrow>
            let segment = segment\<lparr>sg_segment := seg\<rparr> in
            if err \<noteq> SCI_ERR_OK
            then (if err = SCI_ERR_SEGMENTID_USED then EEXIST else ENOSPC, segment, release Sci_desc sd s)
            else (0, segment\<lparr>sg_id := segment_id, sg_size := sz\<rparr>, s))"

definition segment_remove :: "segment \<Rightarrow> os \<Rightarrow> os option" where
  "segment_remove segment s =
     do { s \<leftarrow> sci_release Sci_local_segment (sg_segment segment) s;
          Some (release Sci_desc (sg_sd segment) s) }"

text \<open>A segment that is available on an adapter is in the ledger under the segment.\<close>

definition dma_create ::
  "controller \<Rightarrow> segment \<Rightarrow> u32 \<Rightarrow> os \<Rightarrow> (int \<times> map_descriptor dma option \<times> os) option" where
  "dma_create ctrl segment adapter s =
     (case sci_call s of (err, s) \<Rightarrow>
        if err \<noteq> SCI_ERR_OK then Some (ENOSPC, None, s)
        else
          case sci_acquire_at Sci_available (sg_segment segment) s of (err, s) \<Rightarrow>
            if err \<noteq> SCI_ERR_OK then Some (EIO, None, s)
            else
              do { (status, window, s) \<leftarrow> nvm_dis_dma_map_local ctrl adapter (sg_segment segment) (sg_size segment) True s;
                   if status \<noteq> 0
                   then do { s \<leftarrow> sci_release Sci_available (sg_segment segment) s; Some (status, None, s) }
                   else Some (0, window, s) })"

definition dma_remove :: "map_descriptor dma option \<Rightarrow> segment \<Rightarrow> u32 \<Rightarrow> os \<Rightarrow> os option" where
  "dma_remove window segment adapter s =
     do { s \<leftarrow> nvm_dma_unmap window s;
          sci_release Sci_available (sg_segment segment) s }"

text \<open>What \<open>rand\<close> returns is an argument; the counter is kept between the calls.\<close>

definition random_id :: "int \<Rightarrow> u16 \<Rightarrow> u16 \<times> u16" where
  "random_id rand unique_counter = (ucast ((of_int rand + ucast unique_counter :: u32) AND 0xffff), unique_counter + 1)"

section \<open>The client\<close>

definition show_info ::
  "device \<Rightarrow> binding remote_stub \<Rightarrow> u64 \<Rightarrow> nvm_ctrl_info \<Rightarrow> segment \<Rightarrow> int \<Rightarrow> aq_ref \<Rightarrow> controller \<Rightarrow> u32 \<Rightarrow> os \<Rightarrow> world
     \<Rightarrow> (int \<times> string list \<times> aq_ref \<times> os \<times> world) option" where
  "show_info dev remote cpl_ptr junk_info junk_seg rand rpc ctrl adapter s w =
     (case segment_create junk_seg (ucast (fst (random_id rand 0))) 0x1000 s of (status, memory_page, s) \<Rightarrow>
        if status \<noteq> 0 then Some (1, [], rpc, s, w)
        else
          do { (status, dma, s) \<leftarrow> dma_create ctrl memory_page adapter s;
               if status \<noteq> 0
               then do { s \<leftarrow> segment_remove memory_page s; Some (2, [], rpc, s, w) }
               else
                 do { d \<leftarrow> map_option dc_handle dma;
                      io \<leftarrow> first_ioaddr d;
                      (status, info, rpc, s, w) \<leftarrow> nvm_admin_ctrl_info dev remote cpl_ptr rpc (Some junk_info) (d_vaddr d) io s w;
                      info \<leftarrow> info;
                      s \<leftarrow> dma_remove dma memory_page adapter s;
                      s \<leftarrow> segment_remove memory_page s;
                      Some (status, if status = 0 then print_ctrl_info info else [], rpc, s, w) } })"

definition client_main ::
  "device \<Rightarrow> u32 list \<Rightarrow> u64 \<Rightarrow> nvm_ctrl_info \<Rightarrow> segment \<Rightarrow> int \<Rightarrow> int \<Rightarrow> u32 \<Rightarrow> u64 \<Rightarrow> bool \<Rightarrow> int \<Rightarrow> (nat \<Rightarrow> u64) \<Rightarrow> string list \<Rightarrow> os \<Rightarrow> world
     \<Rightarrow> (int \<times> string list \<times> os \<times> world) option" where
  "client_main dev junk_reply cpl_ptr junk_info junk_seg rand junk_n junk_intr junk ndebug sysconf segment_size argv s w =
     (case parse_client_opts junk argv of
        Inl e \<Rightarrow> Some (e, [], s, w)
      | Inr args \<Rightarrow>
          case SCIInitialize s of (err, s) \<Rightarrow>
            if err \<noteq> SCI_ERR_OK then Some (1, [], s, w)
            else
              do { (status, ctrl, s) \<leftarrow>
                     nvm_dis_ctrl_init ndebug sysconf (w_mem w) segment_size (cl_smartio_dev_id args) (cl_adapter args) s;
                   if status \<noteq> 0 then Some (2, [], s, w)
                   else
                     do { c \<leftarrow> ctrl;
                          (status, rpc, s) \<leftarrow> nvm_dis_rpc_bind ndebug junk_n junk_intr c (cl_adapter args) s;
                          if status \<noteq> 0
                          then do { s \<leftarrow> nvm_ctrl_free ctrl s; Some (2, [], s, w) }
                          else
                            do { rpc \<leftarrow> rpc;
                                 (status, out, rpc, s, w) \<leftarrow>
                                   show_info dev (remote_stub junk_reply) cpl_ptr junk_info junk_seg rand rpc c (cl_adapter args) s w;
                                 s \<leftarrow> nvm_rpc_unbind (Some rpc) s;
                                 s \<leftarrow> nvm_ctrl_free ctrl s;
                                 Some (status, out, SCITerminate s, w) } } })"

section \<open>The server\<close>

definition request_accepter :: rpc_cb where
  "request_accepter cmd adapter node_id = (True, cmd)"

definition server_identify_controller ::
  "device \<Rightarrow> binding remote_stub \<Rightarrow> u64 \<Rightarrow> nvm_ctrl_info \<Rightarrow> segment \<Rightarrow> int \<Rightarrow> controller \<Rightarrow> u32 \<Rightarrow> aq_ref \<Rightarrow> os \<Rightarrow> world
     \<Rightarrow> (string list \<times> aq_ref \<times> os \<times> world) option" where
  "server_identify_controller dev remote cpl_ptr junk_info junk_seg rand ctrl adapter rpc s w =
     (case segment_create junk_seg (ucast (fst (random_id rand 1))) 0x1000 s of (status, segment, s) \<Rightarrow>
        if status \<noteq> 0 then Some ([], rpc, s, w)
        else
          do { (status, wnd, s) \<leftarrow> dma_create ctrl segment adapter s;
               if status \<noteq> 0
               then do { s \<leftarrow> segment_remove segment s; Some ([], rpc, s, w) }
               else
                 do { d \<leftarrow> map_option dc_handle wnd;
                      io \<leftarrow> first_ioaddr d;
                      (status, info, rpc, s, w) \<leftarrow> nvm_admin_ctrl_info dev remote cpl_ptr rpc (Some junk_info) (d_vaddr d) io s w;
                      info \<leftarrow> info;
                      s \<leftarrow> dma_remove wnd segment adapter s;
                      s \<leftarrow> segment_remove segment s;
                      Some (if status = 0 then print_ctrl_info info else [], rpc, s, w) } })"

text \<open>An adapter that cannot be enabled is passed over.\<close>

fun enable_adapters :: "bool \<Rightarrow> u32 \<Rightarrow> u32 list \<Rightarrow> aq_ref \<Rightarrow> os \<Rightarrow> (aq_ref \<times> os) option" where
  "enable_adapters ndebug junk_intr [] rpc s = Some (rpc, s)"
| "enable_adapters ndebug junk_intr (a # as) rpc s =
     do { (status, rpc, s) \<leftarrow> nvm_dis_rpc_enable ndebug junk_intr rpc a (Some request_accepter) s;
          enable_adapters ndebug junk_intr as rpc s }"

text \<open>
  While the process sleeps, the requests that arrive until the signal are handled one after the other;
  each comes in on an adapter, and is lost where there is no handle.
\<close>

fun serve ::
  "bool \<Rightarrow> device \<Rightarrow> nvm_cpl \<Rightarrow> (u32 \<times> u32 list) list \<Rightarrow> aq_ref \<Rightarrow> os \<Rightarrow> world \<Rightarrow> (aq_ref \<times> os \<times> world) option" where
  "serve ndebug dev junk_cpl [] rpc s w = Some (rpc, s, w)"
| "serve ndebug dev junk_cpl ((adapter, request) # rs) rpc s w =
     (case handle_map rpc adapter of
        None \<Rightarrow> serve ndebug dev junk_cpl rs rpc s w
      | Some h \<Rightarrow>
          do { (rpc, s, w) \<leftarrow> handle_remote_command ndebug dev junk_cpl h rpc request s w;
               serve ndebug dev junk_cpl rs rpc s w })"

definition run_service ::
  "device \<Rightarrow> binding remote_stub \<Rightarrow> u64 \<Rightarrow> int \<Rightarrow> nvm_ctrl_info \<Rightarrow> segment \<Rightarrow> int \<Rightarrow> u32 \<Rightarrow> bool \<Rightarrow> nvm_cpl \<Rightarrow> (u32 \<times> u32 list) list
     \<Rightarrow> controller \<Rightarrow> nvm_dma \<Rightarrow> server_args \<Rightarrow> os \<Rightarrow> world \<Rightarrow> (int \<times> string list \<times> os \<times> world) option" where
  "run_service dev remote cpl_ptr junk junk_info junk_seg rand junk_intr ndebug junk_cpl requests ctrl q_wnd args s w =
     do { (status, rpc, s, w) \<leftarrow> nvm_aq_create dev junk ctrl q_wnd s w;
          if status \<noteq> 0 then Some (2, [], s, w)
          else
            do { rpc \<leftarrow> (rpc :: aq_ref option);
                 (out, rpc, s, w) \<leftarrow>
                   (if sv_identify_ctrl args
                    then server_identify_controller dev remote cpl_ptr junk_info junk_seg rand ctrl (sv_ctrl_adapter args) rpc s w
                    else Some ([], rpc, s, w));
                 (rpc, s) \<leftarrow> enable_adapters ndebug junk_intr (take (sv_n_dis_adapters args) (sv_dis_adapters args)) rpc s;
                 (rpc, s, w) \<leftarrow> serve ndebug dev junk_cpl requests rpc s w;
                 s \<leftarrow> nvm_aq_destroy (Some rpc) s;
                 Some (0, out, s, w) } }"

definition server_main ::
  "device \<Rightarrow> binding remote_stub \<Rightarrow> u64 \<Rightarrow> int \<Rightarrow> nvm_ctrl_info \<Rightarrow> segment \<Rightarrow> int \<Rightarrow> int \<Rightarrow> u32 \<Rightarrow> u64 \<Rightarrow> bool \<Rightarrow> nvm_cpl \<Rightarrow> (u32 \<times> u32 list) list
     \<Rightarrow> int \<Rightarrow> (nat \<Rightarrow> u64) \<Rightarrow> string list \<Rightarrow> os \<Rightarrow> world \<Rightarrow> (int \<times> string list \<times> os \<times> world) option" where
  "server_main dev remote cpl_ptr junk junk_info junk_seg rand rand' junk_intr junk64 ndebug junk_cpl requests sysconf segment_size argv s w =
     (case parse_server_opts junk64 argv of
        Inl e \<Rightarrow> Some (e, [], s, w)
      | Inr args \<Rightarrow>
          case SCIInitialize s of (err, s) \<Rightarrow>
            if err \<noteq> SCI_ERR_OK then Some (1, [], s, w)
            else
              do { (status, ctrl, s) \<leftarrow>
                     nvm_dis_ctrl_init ndebug sysconf (w_mem w) segment_size (sv_smartio_dev_id args) (sv_ctrl_adapter args) s;
                   if status \<noteq> 0 then Some (2, [], s, w)
                   else
                     do { c \<leftarrow> ctrl;
                          (case segment_create junk_seg (ucast (fst (random_id rand 0))) (c_page_size (k_handle c) * 2) s of
                             (status, segment, s) \<Rightarrow>
                               if status \<noteq> 0
                               then do { s \<leftarrow> nvm_ctrl_free ctrl s; Some (1, [], s, w) }
                               else
                                 do { (status, wnd, s) \<leftarrow> dma_create c segment (sv_ctrl_adapter args) s;
                                      if status \<noteq> 0
                                      then do { s \<leftarrow> segment_remove segment s; s \<leftarrow> nvm_ctrl_free ctrl s; Some (status, [], s, w) }
                                      else
                                        do { q \<leftarrow> map_option dc_handle wnd;
                                             (status, out, s, w) \<leftarrow> run_service dev remote cpl_ptr junk junk_info junk_seg rand' junk_intr
                                               ndebug junk_cpl requests c q args s w;
                                             s \<leftarrow> dma_remove wnd segment (sv_ctrl_adapter args) s;
                                             s \<leftarrow> segment_remove segment s;
                                             s \<leftarrow> nvm_ctrl_free ctrl s;
                                             Some (status, out, SCITerminate s, w) } }) } })"

section \<open>Identifying a controller through SmartIO\<close>

text \<open>The result of \<open>SCIInitialize\<close> is not looked at; neither is the status of asking for the number of queues.\<close>

definition print_ctrl_queues :: "nvm_ctrl_info \<Rightarrow> u16 \<Rightarrow> u16 \<Rightarrow> string list" where
  "print_ctrl_queues info n_cqs n_sqs =
     butlast (print_ctrl_info info)
     @ [''Current number of CQs   : '' @ digits 10 (unat n_cqs), ''Current number of SQs   : '' @ digits 10 (unat n_sqs),
        ''--------------------------------------------------'']"

definition smartio_main ::
  "device \<Rightarrow> binding remote_stub \<Rightarrow> u64 \<Rightarrow> int \<Rightarrow> nvm_ctrl_info \<Rightarrow> u64 \<Rightarrow> bool \<Rightarrow> int \<Rightarrow> (nat \<Rightarrow> u64) \<Rightarrow> string list \<Rightarrow> os \<Rightarrow> world
     \<Rightarrow> (int \<times> string list \<times> os \<times> world) option" where
  "smartio_main dev remote cpl_ptr junk junk_info junk64 ndebug sysconf segment_size argv s w =
     (case parse_smartio_args junk64 argv of
        Inl e \<Rightarrow> Some (e, [], s, w)
      | Inr args \<Rightarrow>
          case SCIInitialize s of (err, s) \<Rightarrow>
            do { (status, ctrl, s) \<leftarrow>
                   nvm_dis_ctrl_init ndebug sysconf (w_mem w) segment_size (id_dev_id args) (id_dis_adapter args) s;
                 if status \<noteq> 0 then Some (status, [], s, w)
                 else
                   do { c \<leftarrow> ctrl;
                        (status, window, s) \<leftarrow> nvm_dis_dma_create c (id_dis_adapter args) (id_segment_id args) (3 * 0x1000) s;
                        if status \<noteq> 0
                        then do { s \<leftarrow> nvm_ctrl_free ctrl s; Some (status, [], s, w) }
                        else
                          do { d \<leftarrow> map_option dc_handle window;
                               let w = w\<lparr>w_mem := memset (d_vaddr d) 0 (3 * 0x1000) (w_mem w)\<rparr>;
                               (status, aq, s, w) \<leftarrow> nvm_aq_create dev junk c d s w;
                               if status \<noteq> 0
                               then do { s \<leftarrow> nvm_dma_unmap window s; s \<leftarrow> nvm_ctrl_free ctrl s; Some (status, [], s, w) }
                               else
                                 do { aq \<leftarrow> (aq :: aq_ref option);
                                      (_, n_cqs, n_sqs, aq, s, w) \<leftarrow> nvm_admin_get_num_queues dev remote cpl_ptr aq 0 0 s w;
                                      if length (d_ioaddrs d) < 3 then None
                                      else
                                        do { (status, info, aq, s, w) \<leftarrow> nvm_admin_ctrl_info dev remote cpl_ptr aq (Some junk_info)
                                               (NVM_DMA_OFFSET d 2) (d_ioaddrs d ! 2) s w;
                                             info \<leftarrow> info;
                                             s \<leftarrow> nvm_aq_destroy (Some aq) s;
                                             s \<leftarrow> nvm_dma_unmap window s;
                                             s \<leftarrow> nvm_ctrl_free ctrl s;
                                             Some (status, if status = 0 then print_ctrl_queues info n_cqs n_sqs else [], SCITerminate s, w) } } } } })"

section \<open>Contracts of segments and their windows\<close>

definition sg_owned :: "segment \<Rightarrow> res multiset" where
  "sg_owned segment = {#(Sci_desc, sg_sd segment), (Sci_local_segment, sg_segment segment)#}"

lemma sci_release_undo:
  assumes "sci_releases s" "gains s s' (r + {#(k, h)#})"
  shows "\<exists>s''. sci_release k h s' = Some s'' \<and> gains s s'' r"
proof -
  have "sci_releases s'" "{#(k, h)#} \<subseteq># os_live s'"
    using assms sci_releases_gains [OF assms(2)] by (auto simp: gains_def)
  then obtain s'' where "sci_release k h s' = Some s''" "gains s'' s' {#(k, h)#}" by (rule sci_release_gains)
  with gains_undo_rest [OF assms(2)] show ?thesis by blast
qed

lemma segment_create_gains:
  "segment_create junk sid sz s = (e, g, s') \<Longrightarrow> gains s s' (if e = 0 then sg_owned g else {#})"
  by (auto simp: segment_create_def sg_owned_def Let_def split: prod.splits if_splits
      dest!: sci_acquire_ok sci_acquire_err simp: gains_def release_def)

lemma segment_remove_undo:
  assumes "sci_releases s" "gains s s' (r + sg_owned g)"
  shows "\<exists>s''. segment_remove g s' = Some s'' \<and> gains s s'' r"
proof -
  have "gains s s' ((r + {#(Sci_desc, sg_sd g)#}) + {#(Sci_local_segment, sg_segment g)#})"
    using assms(2) by (simp add: sg_owned_def add_mset_commute)
  from sci_release_undo [OF assms(1) this] release_undo show ?thesis by (auto simp: segment_remove_def)
qed

interpretation segs: paired "segment_create junk sid sz" segment_remove sg_owned for junk sid sz
proof
  fix s s' :: os and h :: segment and e :: int
  show "segment_create junk sid sz s = (0, h, s') \<Longrightarrow> gains s s' (sg_owned h)"
    using segment_create_gains [of junk sid sz s 0 h s'] by simp
  show "segment_create junk sid sz s = (e, h, s') \<Longrightarrow> e \<noteq> 0 \<Longrightarrow> gains s s' {#}"
    using segment_create_gains [of junk sid sz s e h s'] by simp
  assume a: "sci_releases s" "sg_owned h \<subseteq># os_live s"
  let ?s = "s\<lparr>os_live := os_live s - sg_owned h\<rparr>"
  have "gains ?s s ({#} + sg_owned h)" using a(2) by (simp add: gains_def)
  from segment_remove_undo [OF _ this] a show "\<exists>s'. segment_remove h s = Some s' \<and> gains s' s (sg_owned h)"
    by (auto simp: sci_releases_def gains_def)
qed

definition wnd_owned :: "segment \<Rightarrow> map_descriptor dma option \<Rightarrow> res multiset" where
  "wnd_owned g h = {#(Sci_available, sg_segment g)#} + dis_owned h"

definition wnd_valid :: "map_descriptor dma option \<Rightarrow> bool" where
  "wnd_valid h \<longleftrightarrow> dis_valid remove_map_descriptor no_segment h \<and> (\<exists>c. h = Some c \<and> d_ioaddrs (dc_handle c) \<noteq> [])"

lemma map_local_window:
  assumes "nvm_dis_dma_map_local ctrl adapter seg sz True s = Some (0, h, s')" "c_page_size (k_handle ctrl) \<noteq> 0"
  shows "\<exists>c. h = Some c \<and> d_ioaddrs (dc_handle c) \<noteq> []"
proof (cases rule: create_map_descriptor_spec [of ctrl "NVM_CTRL_ALIGN (k_handle ctrl) sz" s])
  case (none e s1)
  then show ?thesis using assms(1) by (simp add: nvm_dis_dma_map_local_def Let_def)
next
  case (some md s1)
  obtain e io s2 where i: "nvm_io_map_local (v_device (md_device md)) seg adapter s1 = (e, io, s2)" by (metis prod_cases3)
  obtain e' va s3 where v: "nvm_va_map_local (NVM_CTRL_ALIGN (k_handle ctrl) sz) seg s2 = (e', va, s3)" by (metis prod_cases3)
  have "dis_finish ctrl (set_vaddr (md\<lparr>md_io := io, md_va := va\<rparr>)) remove_map_descriptor s3 = Some (0, h, s')"
    using assms(1) some(1) i v by (auto simp: nvm_dis_dma_map_local_def Let_def split: if_splits Option.bind_splits)
  from dis_finish_window [OF this assms(2)] some(6) show ?thesis by (simp add: set_vaddr_def)
qed

lemma dma_create_spec:
  assumes "sci_releases s" "c_page_size (k_handle ctrl) \<noteq> 0"
  shows "outcome (wnd_owned g) wnd_valid s (dma_create ctrl g adapter s)"
proof -
  obtain e1 s1 where c: "sci_call s = (e1, s1)" by fastforce
  have g1: "gains s s1 {#}" using c by (metis sci_call_gains snd_conv)
  obtain e2 s2 where a: "sci_acquire_at Sci_available (sg_segment g) s1 = (e2, s2)" by fastforce
  show ?thesis
  proof (cases "e1 = SCI_ERR_OK \<and> e2 = SCI_ERR_OK")
    case False
    then show ?thesis using c a g1 gains_trans [OF g1 sci_acquire_at_err [OF a]] by (auto simp: dma_create_def)
  next
    case True
    have g2: "gains s s2 {#(Sci_available, sg_segment g)#}"
      using gains_trans [OF g1] sci_acquire_at_ok a True by fastforce
    have r: "sci_releases s2" using sci_releases_gains [OF g2] assms(1) by simp
    from nvm_dis_dma_map_local_spec [OF r assms(2), of adapter "sg_segment g" "sg_size g" True] show ?thesis
    proof (cases rule: outcomeE)
      case (ok h s3)
      from map_local_window [OF ok(1) assms(2)] gains_trans [OF g2 ok(2)] ok(1,3) c a True show ?thesis
        by (simp add: dma_create_def wnd_owned_def wnd_valid_def)
    next
      case (err e h s3)
      have "gains s s3 ({#} + {#(Sci_available, sg_segment g)#})" using gains_trans [OF g2 err(3)] by simp
      from sci_release_undo [OF assms(1) this] err c a True show ?thesis by (auto simp: dma_create_def)
    qed
  qed
qed

lemma dma_remove_undo:
  assumes "sci_releases s" "wnd_valid h" "gains s s' (r + wnd_owned g h)"
  shows "\<exists>s''. dma_remove h g adapter s' = Some s'' \<and> gains s s'' r"
proof -
  have "gains s s' ((r + {#(Sci_available, sg_segment g)#}) + dis_owned h)" using assms(3) by (simp add: wnd_owned_def add.assoc)
  from plain.unmap_undo [OF assms(1) _ this] assms(2) obtain s1 where
    "nvm_dma_unmap h s' = Some s1" "gains s s1 (r + {#(Sci_available, sg_segment g)#})" by (auto simp: wnd_valid_def)
  with sci_release_undo [OF assms(1)] show ?thesis by (simp add: dma_remove_def)
qed

interpretation wnd: lifecycle "\<lambda>_. c_page_size (k_handle ctrl) \<noteq> 0" wnd_valid "dma_create ctrl g adapter"
  "\<lambda>h. dma_remove h g adapter" "wnd_owned g" for ctrl g adapter
proof
  fix s h
  show "sci_releases s \<Longrightarrow> c_page_size (k_handle ctrl) \<noteq> 0 \<Longrightarrow> outcome (wnd_owned g) wnd_valid s (dma_create ctrl g adapter s)"
    by (rule dma_create_spec)
  assume a: "sci_releases s" "wnd_valid h" "wnd_owned g h \<subseteq># os_live s"
  let ?s = "s\<lparr>os_live := os_live s - wnd_owned g h\<rparr>"
  have "gains ?s s ({#} + wnd_owned g h)" using a(3) by (simp add: gains_def)
  from dma_remove_undo [OF _ a(2) this, of adapter] a(1,3) show "\<exists>s'. dma_remove h g adapter s = Some s' \<and> gains s' s (wnd_owned g h)"
    by (auto simp: sci_releases_def gains_def)
qed

section \<open>The client gives back everything\<close>

lemma remote_stub_gains: "remote_stub junk b cmd cpl s = (e, cmd', cpl', s') \<Longrightarrow> gains s s' {#}"
proof -
  assume r: "remote_stub junk b cmd cpl s = (e, cmd', cpl', s')"
  let ?req = "[li_node_id (b_lintr b), li_intr_no (b_lintr b)] @ cmd"
  obtain e1 s1 where t: "nvm_remote_intr_trigger (b_rintr b) ?req s = (e1, s1)" by fastforce
  obtain e2 reply s2 where w: "nvm_local_intr_wait (b_lintr b) junk s1 = (e2, reply, s2)" by (metis prod_cases3)
  have "gains s1 s2 {#}" using w by (auto simp: nvm_local_intr_wait_def sci_call_def Let_def gains_def split: prod.splits if_splits sci_error.splits)
  with nvm_remote_intr_trigger_gains [OF t] gains_trans [OF nvm_remote_intr_trigger_gains [OF t]] r t w show ?thesis
    by (auto simp: remote_stub_def remote_command_def Let_def split: if_splits)
qed

lemma raw_rpc_remote:
  assumes "f_stub ref = Some Remote_command" "f_data ref = Some (Binding b)" "locks_succeed s"
  shows "\<exists>e cmd' cpl' s'. nvm_raw_rpc dev (remote_stub junk) ref cmd cpl ptr s w = Some (e, ref, cmd', cpl', s', dev_step dev w) \<and> gains s s' {#}"
proof -
  obtain s1 where l: "mutex_lock (f_self ref) s = (0, s1)" using locks_succeed_lock [OF assms(3)] by blast
  obtain e c r s2 where st: "remote_stub junk b cmd cpl s1 = (e, c, r, s2)" by (metis prod_cases4)
  have "gains s s2 ({#} + {#(Mutex, f_self ref)#})"
    using gains_trans [OF mutex_lock_gains(1) [OF l] remote_stub_gains [OF st]] by simp
  from mutex_unlock_undo [OF this] assms l st show ?thesis by (simp add: nvm_raw_rpc_def call_stub_def)
qed

text \<open>
  The controller reports a maximum transfer size (byte 77 of its identify page, an exponent) that can
  be shifted by, wherever the page is.
\<close>

definition mdts_defined :: "device \<Rightarrow> world \<Rightarrow> bool" where
  "mdts_defined dev w \<longleftrightarrow> (\<forall>p. unat (w_mem (dev_step dev (w\<lparr>w_mem := memset p 0 0x1000 (w_mem w)\<rparr>)) (p + 77)) < 64)"

lemma RB_nibble: "unat (RB (ucast (b :: u8)) 3 0) < 16"
  by (simp add: unat_RB unat_ucast_up)

lemma ctrl_info_remote:
  assumes "f_stub ref = Some Remote_command" "f_data ref = Some (Binding b)" "locks_succeed s" "mdts_defined dev w"
    and "unat (c_dstrd (k_handle (f_ctrl ref))) < 64" "c_page_size (k_handle (f_ctrl ref)) \<noteq> 0"
  shows "\<exists>e info s' w'. nvm_admin_ctrl_info dev (remote_stub junk) cpl_ptr ref (Some i) ptr ioaddr s w = Some (e, Some info, ref, s', w')
    \<and> gains s s' {#}"
proof (cases "ptr = NULL \<or> ioaddr = 0")
  case True
  then show ?thesis by (auto simp: nvm_admin_ctrl_info_def)
next
  case False
  let ?w = "w\<lparr>w_mem := memset ptr 0 0x1000 (w_mem w)\<rparr>" and ?c = "nvm_admin_identify_ctrl_cmd zero_cmd ioaddr"
  from raw_rpc_remote [OF assms(1-3), of dev junk ?c zero_cpl cpl_ptr ?w] obtain e c r s' where
    r: "nvm_raw_rpc dev (remote_stub junk) ref ?c zero_cpl cpl_ptr s ?w = Some (e, ref, c, r, s', dev_step dev ?w)" and g: "gains s s' {#}" by blast
  have z: "unat (w_mem (dev_step dev ?w) (ptr + 77)) < 64" using assms(4) by (simp add: mdts_defined_def)
  have n: "unat (RB (ucast (w_mem (dev_step dev ?w) q)) 3 0) < 31" for q
    using RB_nibble [of "w_mem (dev_step dev ?w) q"] by linarith
  have "unat (CAP_MPSMIN (w_mem (dev_step dev ?w)) (c_mm_ptr (k_handle (f_ctrl ref)))) < 16"
    using unat_cap_field [of 48 51] by (simp add: CAP_MPSMIN_def)
  then show ?thesis
    using False r g z n assms(5,6) by (simp add: nvm_admin_ctrl_info_def Let_def shl_ulong_def shl_int_def)
qed

lemma show_info_balanced:
  assumes "sci_releases s" "locks_succeed s \<and> mdts_defined dev w" "c_page_size (k_handle ctrl) \<noteq> 0"
    and "f_stub ref = Some Remote_command" "f_data ref = Some (Binding b)" "f_ctrl ref = ctrl" "unat (c_dstrd (k_handle ctrl)) < 64"
  shows "\<exists>e out s' w'. show_info dev (remote_stub junk) cpl_ptr i junk_seg rand ref ctrl adapter s w = Some (e, out, ref, s', w') \<and> gains s s' {#}"
proof -
  obtain e1 g s1 where c: "segment_create junk_seg (ucast (fst (random_id rand 0))) 0x1000 s = (e1, g, s1)" by (metis prod_cases3)
  show ?thesis
  proof (cases "e1 = 0")
    case False
    then show ?thesis using c segs.get_err [OF c] by (simp add: show_info_def)
  next
    case True
    have g1: "gains s s1 ({#} + sg_owned g)" using segs.get_ok c True by fastforce
    have r1: "sci_releases s1" using sci_releases_gains [OF g1] assms(1) by simp
    from dma_create_spec [OF r1 assms(3), of g adapter] show ?thesis
    proof (cases rule: outcomeE)
      case (err e h s2)
      have "gains s s2 ({#} + sg_owned g)" using gains_trans [OF g1 err(3)] by simp
      from segment_remove_undo [OF assms(1) this] err c True show ?thesis by (auto simp: show_info_def)
    next
      case (ok h s2)
      from ok(3) obtain k where k: "h = Some k" "d_ioaddrs (dc_handle k) \<noteq> []" by (auto simp: wnd_valid_def)
      then obtain io where io: "first_ioaddr (dc_handle k) = Some io" by (cases "d_ioaddrs (dc_handle k)") (auto simp: first_ioaddr_def)
      have g2: "gains s s2 (sg_owned g + wnd_owned g h)" using gains_trans [OF g1 ok(2)] by simp
      then have "locks_succeed s2" "mdts_defined dev w" using assms(2) locks_succeed_gains by blast+
      from ctrl_info_remote [OF assms(4,5) this, of junk cpl_ptr i "d_vaddr (dc_handle k)" io] assms(3,6,7) obtain e info s3 w' where
        i: "nvm_admin_ctrl_info dev (remote_stub junk) cpl_ptr ref (Some i) (d_vaddr (dc_handle k)) io s2 w = Some (e, Some info, ref, s3, w')"
        and g3: "gains s2 s3 {#}" by auto
      have "gains s s3 (sg_owned g + wnd_owned g h)" using gains_trans [OF g2 g3] by simp
      from dma_remove_undo [OF assms(1) ok(3) this, of adapter] obtain s4 where
        d: "dma_remove h g adapter s3 = Some s4" "gains s s4 ({#} + sg_owned g)" by auto
      from segment_remove_undo [OF assms(1) d(2)] c True ok(1) k io i d(1) show ?thesis by (auto simp: show_info_def)
    qed
  qed
qed

lemma initialized_handle:
  assumes "initialize_handle ndebug sysconf m h p sz = Some (0, h')"
  shows "c_page_size h' \<noteq> 0 \<and> unat (c_dstrd h') < 64"
proof -
  have "unat (CAP_DSTRD m p) < 16" using unat_cap_field [of 32 35] by (simp add: CAP_DSTRD_def)
  then have "unat (ucast (CAP_DSTRD m p) :: u8) < 16" by (simp add: unsigned_ucast_eq take_bit_nat_eq_self)
  then show ?thesis using assms by (auto simp: initialize_handle_def Let_def split: if_splits)
qed

lemma connect_none: "connect_register_memory dev adapter s \<noteq> Some (0, None, s')"
  by (auto simp: connect_register_memory_def split: prod.splits option.splits if_splits Option.bind_splits)

lemma dis_ctrl_init_some: "nvm_dis_ctrl_init ndebug sysconf m segment_size dev_id adapter s \<noteq> Some (0, None, s')"
proof
  assume a: "nvm_dis_ctrl_init ndebug sysconf m segment_size dev_id adapter s = Some (0, None, s')"
  then show False
    by (auto simp: nvm_dis_ctrl_init_def Let_def split: prod.splits option.splits if_splits Option.bind_splits simp: connect_none)
qed

lemma dis_ctrl_init_handle:
  assumes "nvm_dis_ctrl_init ndebug sysconf m segment_size dev_id adapter s = Some (0, Some c, s')"
  shows "c_page_size (k_handle c) \<noteq> 0 \<and> unat (c_dstrd (k_handle c)) < 64"
  using assms by (auto simp: nvm_dis_ctrl_init_def Let_def split: prod.splits option.splits if_splits Option.bind_splits
      dest!: initialized_handle)

lemma ctrl_free_undo:
  assumes "sci_releases s" "ctrl_valid c" "gains s s' (r + ctrl_owned c)"
  shows "\<exists>s''. nvm_ctrl_free c s' = Some s'' \<and> gains s s'' r"
proof -
  have "sci_releases s'" "ctrl_owned c \<subseteq># os_live s'" using sci_releases_gains [OF assms(3)] assms(1,3) by (auto simp: gains_def)
  from ctrl_destroy [OF this(1) assms(2) this(2)] gains_undo_rest [OF assms(3)] show ?thesis by blast
qed

text \<open>From the controller on: bind, show, unbind.\<close>

lemma client_session:
  assumes "sci_releases s" "locks_succeed s" "mdts_defined dev w" "c_page_size (k_handle c) \<noteq> 0" "unat (c_dstrd (k_handle c)) < 64"
  obtains (refused) e s' where "nvm_dis_rpc_bind False jn ji c adapter s = Some (e, None, s')" "e \<noteq> 0" "gains s s' {#}"
  | (shown) ref s1 e out s2 w' s' where "nvm_dis_rpc_bind False jn ji c adapter s = Some (0, Some ref, s1)"
      "show_info dev (remote_stub jr) cpl_ptr i g rand ref c adapter s1 w = Some (e, out, ref, s2, w')"
      "nvm_rpc_unbind (Some ref) s2 = Some s'" "gains s s' {#}"
proof -
  from dis_rpc_bind_spec [OF assms(1,2), of jn ji c adapter] obtain e r s1 where
    b: "nvm_dis_rpc_bind False jn ji c adapter s = Some (e, r, s1)" "e \<noteq> 0 \<longrightarrow> r = None \<and> gains s s1 {#}"
    and ok: "e = 0 \<longrightarrow> (\<exists>ref. r = Some ref \<and> f_stub ref = Some Remote_command \<and> (\<exists>b. f_data ref = Some (Binding b)) \<and> f_ctrl ref = c
        \<and> (\<exists>x. gains s s1 x)
        \<and> (\<forall>s2 x. gains s1 s2 x \<longrightarrow> (\<exists>s3. nvm_rpc_unbind (Some ref) s2 = Some s3 \<and> gains s s3 x)))" by (elim exE conjE)
  show thesis
  proof (cases "e = 0")
    case False
    then show thesis using refused [of e s1] b by simp
  next
    case True
    with ok obtain ref bd x where r: "r = Some ref" "f_stub ref = Some Remote_command" "f_data ref = Some (Binding bd)" "f_ctrl ref = c"
      and x: "gains s s1 x" and u: "\<forall>s2 x. gains s1 s2 x \<longrightarrow> (\<exists>s3. nvm_rpc_unbind (Some ref) s2 = Some s3 \<and> gains s s3 x)"
      by (elim impE exE conjE)
    have "sci_releases s1" "locks_succeed s1 \<and> mdts_defined dev w"
      using assms(1-3) sci_releases_gains [OF x] locks_succeed_gains [OF x] by auto
    from show_info_balanced [OF this assms(4) r(2-4) assms(5), of jr cpl_ptr i g rand adapter] obtain e' out s2 w' where
      sh: "show_info dev (remote_stub jr) cpl_ptr i g rand ref c adapter s1 w = Some (e', out, ref, s2, w')" "gains s1 s2 {#}"
      by blast
    with u obtain s3 where "nvm_rpc_unbind (Some ref) s2 = Some s3" "gains s s3 {#}" by blast
    then show thesis using shown [of ref s1 e' out s2 w' s3] b(1) True r(1) sh(1) by simp
  qed
qed

lemma SCIInitialize_gains:
  "SCIInitialize s = (SCI_ERR_OK, s') \<Longrightarrow> gains s s' {#(Sci_lib, 0)#}"
  "SCIInitialize s = (e, s') \<Longrightarrow> e \<noteq> SCI_ERR_OK \<Longrightarrow> gains s s' {#}"
  by (simp_all add: SCIInitialize_def sci_acquire_at_ok sci_acquire_at_err)

lemma SCITerminate_undo: "gains s s' (r + {#(Sci_lib, 0)#}) \<Longrightarrow> gains s (SCITerminate s') r"
  by (simp add: gains_def SCITerminate_def)


definition identify_device :: device where
  "identify_device k m = (\<lambda>a. if m a < 0x40 then m a else 0)"


section \<open>A server without an adapter\<close>

text \<open>
  The server's command line takes any number for an adapter; those that \<open>nvm_dis_rpc_enable\<close> refuses are passed
  over.  A server that has only such adapters waits for its signal and answers no request.
\<close>

lemma server_without_adapter:
  assumes "\<forall>a \<in> set adapters. NVM_DIS_RPC_MAX_ADAPTER \<le> a" "f_handles rpc = []"
  shows "enable_adapters ndebug junk_intr adapters rpc s = Some (rpc, s)"
    "serve ndebug dev junk_cpl requests rpc s w = Some (rpc, s, w)"
proof -
  show "enable_adapters ndebug junk_intr adapters rpc s = Some (rpc, s)"
    using assms(1) by (induction adapters) (auto simp: nvm_dis_rpc_enable_def)
  show "serve ndebug dev junk_cpl requests rpc s w = Some (rpc, s, w)"
    using assms(2) by (induction requests) (auto simp: handle_map_def)
qed

end
