(* ===== verification/Io_Transfer.thy ===== *)
theory Io_Transfer
  imports Io_Queue Dis_Dma
begin

unbundle bit_operations_syntax

text \<open>
  Writing a file to a disk and reading it back: \<open>examples/integrity/integrity.h\<close>, \<open>util.c\<close> and
  \<open>transfer.c\<close>.  The blocks of the file are divided among several submission queues, each with a thread
  that issues commands; one more thread receives the completions of all of them.
\<close>

section \<open>Buffers and queues\<close>

record buffer =
  b_id :: u32
  b_adapter :: u32
  b_dma :: "map_descriptor dma option"

record queue =
  u_qmem :: buffer
  u_queue :: nvm_queue
  u_counter :: u64

record disk =
  dk_page_size :: u64
  dk_max_data_size :: u64
  dk_ns_id :: u32
  dk_block_size :: u64

definition create_buffer ::
  "('h, 'b) nvm_admin_reference \<Rightarrow> u64 \<Rightarrow> u32 \<Rightarrow> u32 \<Rightarrow> buffer \<Rightarrow> os \<Rightarrow> world \<Rightarrow> (int \<times> buffer \<times> os \<times> world) option" where
  "create_buffer ref sz adapter ident b s w =
     do { ctrl \<leftarrow> nvm_ctrl_from_aq_ref (Some ref);
          (status, dma, s) \<leftarrow> nvm_dis_dma_create ctrl adapter ident sz s;
          let b = b\<lparr>b_dma := dma\<rparr>;
          if \<not> nvm_ok status then Some (status, b, s, w)
          else
            do { d \<leftarrow> map_option dc_handle dma;
                 Some (0, b\<lparr>b_id := ident, b_adapter := adapter\<rparr>, s,
                   w\<lparr>w_mem := memset (d_vaddr d) 0 (unat (d_page_size d * d_n_ioaddrs d)) (w_mem w)\<rparr>) } }"

definition remove_buffer :: "buffer \<Rightarrow> os \<Rightarrow> os option" where
  "remove_buffer b s = nvm_dma_unmap (b_dma b) s"

text \<open>A queue gets the page it lies in, and a submission queue one page more for every entry.\<close>

definition create_queue ::
  "device \<Rightarrow> 'b remote_stub \<Rightarrow> u64 \<Rightarrow> queue \<Rightarrow> ('h, 'b) nvm_admin_reference \<Rightarrow> queue option \<Rightarrow> u16 \<Rightarrow> u32 \<Rightarrow> u32 \<Rightarrow> os \<Rightarrow> world
     \<Rightarrow> (int \<times> queue \<times> ('h, 'b) nvm_admin_reference \<times> os \<times> world) option" where
  "create_queue dev remote cpl_ptr q ref cq qno adapter ident s w =
     do { ctrl \<leftarrow> map_option k_handle (nvm_ctrl_from_aq_ref (Some ref));
          let prp_lists = (case cq of
              None \<Rightarrow> 0
            | Some _ \<Rightarrow>
                let n_entries = c_page_size ctrl div of_nat sizeof_cmd in
                if n_entries \<le> ucast (c_max_entries ctrl) then n_entries else ucast (c_max_entries ctrl));
          (status, qmem, s, w) \<leftarrow> create_buffer ref (prp_lists * c_page_size ctrl + c_page_size ctrl) adapter ident (u_qmem q) s w;
          let q = q\<lparr>u_qmem := qmem\<rparr>;
          if \<not> nvm_ok status then Some (status, q, ref, s, w)
          else
            do { d \<leftarrow> map_option dc_handle (b_dma qmem);
                 io \<leftarrow> first_ioaddr d;
                 (status, queue, ref, s, w) \<leftarrow>
                   (case cq of
                      None \<Rightarrow> nvm_admin_cq_create dev remote cpl_ptr ref (u_queue q) qno (NVM_DMA_OFFSET d 0) io s w
                    | Some cq \<Rightarrow> nvm_admin_sq_create dev remote cpl_ptr ref (u_queue q) (u_queue cq) qno (NVM_DMA_OFFSET d 0) io s w);
                 let q = q\<lparr>u_queue := queue\<rparr>;
                 if \<not> nvm_ok status then do { s \<leftarrow> remove_buffer (u_qmem q) s; Some (status, q, ref, s, w) }
                 else Some (0, q\<lparr>u_counter := 0\<rparr>, ref, s, w) } }"

definition remove_queue :: "queue \<Rightarrow> os \<Rightarrow> os option" where
  "remove_queue q s = remove_buffer (u_qmem q) s"

section \<open>Receiving completions\<close>

text \<open>
  One round of the thread that receives completions: the first queue is the completion queue, and a
  completion names the submission queue of its command.
\<close>

definition consume_round :: "device \<Rightarrow> queue list \<Rightarrow> world \<Rightarrow> (queue list \<times> world) option" where
  "consume_round dev queues w =
     (if queues = [] then None
      else
        case nvm_cq_dequeue_block dev (u_queue (queues ! 0)) 10 w of (cpl, cq, w) \<Rightarrow>
          let queues = queues[0 := (queues ! 0)\<lparr>u_queue := cq\<rparr>] in
          if cpl = NULL then Some (queues, w)
          else
            let sqid = unat (load16 (w_mem w) (NVM_CPL_SQID cpl)) in
            if length queues \<le> sqid then None
            else
              let queues = queues[sqid := (queues ! sqid)\<lparr>u_queue := nvm_sq_update (u_queue (queues ! sqid))\<rparr>] in
              case nvm_cq_update dev (u_queue (queues ! 0)) w of (cq, w) \<Rightarrow>
                Some (queues[0 := (queues ! 0)\<lparr>u_queue := cq, u_counter := u_counter (queues ! 0) + 1\<rparr>], w))"

section \<open>Issuing commands\<close>

record producer =
  p_write :: bool
  p_buffer :: buffer
  p_queue_no :: u16
  p_disk :: disk
  p_start_block :: u64
  p_n_blocks :: u64

record produce_state =
  po_offset :: u64
  po_transfer :: u64
  po_queue :: queue
  po_world :: world

definition produce_command ::
  "bool \<Rightarrow> producer \<Rightarrow> nvm_dma \<Rightarrow> queue \<Rightarrow> u64 \<Rightarrow> u64 \<Rightarrow> u64 \<Rightarrow> mem \<Rightarrow> mem option" where
  "produce_command ndebug p dma queue cmd page_offset transfer_pages m =
     (let block_size = dk_block_size (p_disk p);
          page_size = d_page_size dma;
          page_base = NVM_BLOCK_TO_PAGE page_size block_size (p_start_block p);
          m = slot_update cmd (\<lambda>c. nvm_cmd_header c (io_opcode (if p_write p then NVM_IO_WRITE else NVM_IO_READ)) (dk_ns_id (p_disk p))) m in
      if block_size = 0 then None
      else
        do { let n_blocks = NVM_PAGE_TO_BLOCK page_size block_size transfer_pages;
             let start_block = p_start_block p + NVM_PAGE_TO_BLOCK page_size block_size page_offset;
             let m = slot_update cmd (\<lambda>c. nvm_cmd_rw_blks c start_block (ucast n_blocks)) m;
             let prp_no = load16 m (NVM_CMD_CID cmd) mod q_max_entries (u_queue queue) + 1;
             prp \<leftarrow> map_option dc_handle (b_dma (u_qmem queue));
             list_io \<leftarrow> (if unat prp_no < length (d_ioaddrs prp) then Some (d_ioaddrs prp ! unat prp_no) else None);
             (_, c, m) \<leftarrow> nvm_cmd_data ndebug (load_dwords m cmd 16) page_size (unat transfer_pages)
               (NVM_DMA_OFFSET prp (ucast prp_no)) list_io (drop (unat (page_base + page_offset)) (d_ioaddrs dma)) m;
             Some (store_dwords cmd c m) })"

definition produce_more :: "u64 \<Rightarrow> produce_state \<Rightarrow> bool" where
  "produce_more n_pages s \<longleftrightarrow> po_offset s < n_pages"

definition produce_step ::
  "bool \<Rightarrow> others \<Rightarrow> device \<Rightarrow> producer \<Rightarrow> nvm_dma \<Rightarrow> u64 \<Rightarrow> produce_state \<Rightarrow> produce_state option" where
  "produce_step ndebug oth dev p dma n_pages s =
     do { let transfer_pages = (if n_pages - po_offset s < po_transfer s then n_pages - po_offset s else po_transfer s);
          (cmd, sq, _, w) \<leftarrow> sq_enqueue_wait oth dev (u_queue (po_queue s)) 0 (po_world s);
          let queue = (po_queue s)\<lparr>u_queue := sq\<rparr>;
          m \<leftarrow> produce_command ndebug p dma queue cmd (po_offset s) transfer_pages (w_mem w);
          Some (s\<lparr>po_offset := po_offset s + transfer_pages, po_transfer := transfer_pages,
            po_queue := queue\<lparr>u_counter := u_counter queue + 1\<rparr>, po_world := w\<lparr>w_mem := m\<rparr>\<rparr>) }"

partial_function (option) produce_loop ::
  "bool \<Rightarrow> others \<Rightarrow> device \<Rightarrow> producer \<Rightarrow> nvm_dma \<Rightarrow> u64 \<Rightarrow> produce_state \<Rightarrow> produce_state option" where
  "produce_loop ndebug oth dev p dma n_pages s =
     (if produce_more n_pages s
      then produce_step ndebug oth dev p dma n_pages s \<bind> produce_loop ndebug oth dev p dma n_pages
      else Some s)"

text \<open>
  The loop \<open>while ((cmd = nvm_sq_enqueue(sq)) == NULL);\<close> before a flush: unlike the loop above it, it does
  not announce what is in the queue.
\<close>

partial_function (option) flush_wait :: "others \<Rightarrow> nvm_queue \<Rightarrow> world \<Rightarrow> (u64 \<times> nvm_queue \<times> world) option" where
  "flush_wait oth sq w =
     (case meanwhile oth sq w of (_, sq, w) \<Rightarrow>
        do { (cmd, sq, m) \<leftarrow> nvm_sq_enqueue sq (w_mem w);
             if cmd = NULL then flush_wait oth sq w else Some (cmd, sq, w\<lparr>w_mem := m\<rparr>) })"

definition produce_flush :: "others \<Rightarrow> producer \<Rightarrow> queue \<Rightarrow> world \<Rightarrow> (queue \<times> world) option" where
  "produce_flush oth p queue w =
     do { (cmd, sq, w) \<leftarrow> flush_wait oth (u_queue queue) w;
          let m = slot_update cmd (\<lambda>c. nvm_cmd_header c (io_opcode NVM_IO_FLUSH) (dk_ns_id (p_disk p))) (w_mem w);
          let m = slot_update cmd (\<lambda>c. nvm_cmd_data_ptr c 0 0) m;
          let m = slot_update cmd (\<lambda>c. nvm_cmd_rw_blks c 0 0) m;
          Some (queue\<lparr>u_queue := sq, u_counter := u_counter queue + 1\<rparr>, w\<lparr>w_mem := m\<rparr>) }"

definition producer_pages :: "producer \<Rightarrow> nvm_dma \<Rightarrow> u64" where
  "producer_pages p dma = NVM_PAGE_ALIGN (p_n_blocks p * dk_block_size (p_disk p)) (d_page_size dma) div d_page_size dma"

definition produce_commands ::
  "bool \<Rightarrow> others \<Rightarrow> device \<Rightarrow> producer \<Rightarrow> queue list \<Rightarrow> world \<Rightarrow> (queue list \<times> world) option" where
  "produce_commands ndebug oth dev p queues w =
     do { dma \<leftarrow> map_option dc_handle (b_dma (p_buffer p));
          queue \<leftarrow> (if unat (p_queue_no p) < length queues then Some (queues ! unat (p_queue_no p)) else None);
          if d_page_size dma = 0 then None
          else
            do { s \<leftarrow> produce_loop ndebug oth dev p dma (producer_pages p dma)
                   \<lparr>po_offset = 0, po_transfer = dk_max_data_size (p_disk p) div d_page_size dma, po_queue = queue, po_world = w\<rparr>;
                 (queue, w) \<leftarrow> (if p_write p then produce_flush oth p (po_queue s) (po_world s) else Some (po_queue s, po_world s));
                 let (sq, w) = nvm_sq_submit dev (u_queue queue) w;
                 Some (queues[unat (p_queue_no p) := queue\<lparr>u_queue := sq\<rparr>], w) } }"

section \<open>Dividing the blocks\<close>

definition transfer_producer :: "disk \<Rightarrow> buffer \<Rightarrow> u16 \<Rightarrow> bool \<Rightarrow> u64 \<Rightarrow> u64 \<Rightarrow> u16 \<Rightarrow> producer" where
  "transfer_producer d buffer n_queues wr n_blocks pages_per_queue i =
     (let start_block = NVM_PAGE_TO_BLOCK (dk_page_size d) (dk_block_size d) (pages_per_queue * ucast i);
          p = \<lparr>p_write = wr, p_buffer = buffer, p_queue_no = i + 1, p_disk = d, p_start_block = start_block,
            p_n_blocks = NVM_PAGE_TO_BLOCK (dk_page_size d) (dk_block_size d) pages_per_queue\<rparr> in
      if int (unat i) = int (unat n_queues) - 1 then p\<lparr>p_n_blocks := n_blocks - start_block\<rparr> else p)"

definition transfer_producers :: "disk \<Rightarrow> buffer \<Rightarrow> u16 \<Rightarrow> u64 \<Rightarrow> bool \<Rightarrow> producer list option" where
  "transfer_producers d buffer n_queues sz wr =
     (if dk_block_size d = 0 \<or> dk_page_size d = 0 \<or> n_queues = 0 then None
      else
        let n_blocks = NVM_PAGE_ALIGN sz (dk_block_size d) div dk_block_size d;
            n_pages = NVM_PAGE_ALIGN sz (dk_page_size d) div dk_page_size d;
            pages_per_queue = n_pages div ucast n_queues in
        Some (map (\<lambda>i. transfer_producer d buffer n_queues wr n_blocks pages_per_queue (of_nat i)) [0..<unat n_queues]))"


section \<open>One command\<close>

lemma rw_blks_cid: "cmd_cid (nvm_cmd_rw_blks c lba nb) = cmd_cid c"
  by (simp add: nvm_cmd_rw_blks_def cmd_cid_def)

abbreviation page_base :: "producer \<Rightarrow> nvm_dma \<Rightarrow> u64" where
  "page_base p dma \<equiv> NVM_BLOCK_TO_PAGE (d_page_size dma) (dk_block_size (p_disk p)) (p_start_block p)"

definition rw_opcode :: "producer \<Rightarrow> u64" where
  "rw_opcode p = (if p_write p then 1 else 2)"

lemma produce_command_spec:
  assumes win: "io_window prp q0" "0 < q_n q0" and q: "q_max_entries (u_queue queue) = q_max_entries q0"
    "map_option dc_handle (b_dma (u_qmem queue)) = Some prp" and ps: "d_page_size prp = d_page_size dma"
    and cid: "load16 m (NVM_CMD_CID (slot_of q0 i)) = of_nat ((i + 1) mod (2 * q_n q0))"
    and bs: "dk_block_size (p_disk p) \<noteq> 0" and io: "io = drop (unat (page_base p dma + page_offset)) (d_ioaddrs dma)"
    and np: "np \<noteq> 0" "unat np \<le> length io" and k: "k = unat np" "k = min k (1 + unat (d_page_size dma) div 8)"
  shows "\<exists>m'. produce_command ndebug p dma queue (slot_of q0 i) page_offset np m = Some m'
    \<and> (\<forall>x. x \<notin> cmd_bytes prp q0 k i \<longrightarrow> m' x = m x)
    \<and> slot_holds prp q0 m' i k
       (rw_opcode p, dk_ns_id (p_disk p),
        p_start_block p + NVM_PAGE_TO_BLOCK (d_page_size dma) (dk_block_size (p_disk p)) page_offset,
        ucast ((ucast (NVM_PAGE_TO_BLOCK (d_page_size dma) (dk_block_size (p_disk p)) np) :: u16) - 1), take k io)"
proof -
  let ?p = "slot_of q0 i" and ?l = "list_of prp q0 i" and ?ps = "d_page_size dma" and ?ns = "dk_ns_id (p_disk p)"
  let ?opc = "io_opcode (if p_write p then NVM_IO_WRITE else NVM_IO_READ)"
  let ?nb = "ucast (NVM_PAGE_TO_BLOCK ?ps (dk_block_size (p_disk p)) np) :: u16"
  let ?lba = "p_start_block p + NVM_PAGE_TO_BLOCK ?ps (dk_block_size (p_disk p)) page_offset"
  note li = list_index [OF win refl, of i]
  let ?li = "d_ioaddrs prp ! unat ((of_nat ((i + 1) mod (2 * q_n q0)) :: u16) mod q_max_entries q0 + 1)"
  have np0: "0 < unat np" using np(1) by (simp add: unat_gt_0)
  have "64 * 1 \<le> 64 * q_n q0" using win(2) by (intro mult_le_mono2) simp
  then have p16: "16 \<le> unat ?ps" using win(1) ps by (simp add: io_window_def)
  have "k - 1 \<le> unat ?ps div 8" using k(2) by simp
  then have b: "8 * (k - 1) \<le> unat (d_page_size prp)" using ps by (simp add: less_eq_div_iff_mult_less_eq mult.commute)
  define opc where "opc = ?opc"
  define h where "h = (\<lambda>c. nvm_cmd_header c opc ?ns)"
  define r where "r = (\<lambda>c. nvm_cmd_rw_blks c ?lba ?nb)"
  define m1 where "m1 = slot_update ?p r (slot_update ?p h m)"
  have l0: "load_dwords (slot_update ?p h m) ?p 16 = h (load_dwords m ?p 16)" by (rule load_slot_update) (simp add: h_def)
  have l1: "load_dwords m1 ?p 16 = r (h (load_dwords m ?p 16))"
    unfolding m1_def l0 [symmetric] by (rule load_slot_update) (simp add: l0 r_def h_def)
  have c1: "load16 m1 (NVM_CMD_CID ?p) = of_nat ((i + 1) mod (2 * q_n q0))"
    using cmd_cid_load [of m1 ?p] cmd_cid_load [of m ?p] cid unfolding l1
    by (simp add: r_def h_def rw_blks_cid nvm_cmd_header_fields)
  have o1: "m1 x = m x" if "\<not> in_range ?p 64 x" for x
  proof -
    have "m1 x = slot_update ?p h m x" unfolding m1_def by (rule slot_update_other [OF _ that]) (simp add: l0 r_def h_def)
    also have "\<dots> = m x" by (rule slot_update_other [OF _ that]) (simp add: h_def)
    finally show ?thesis .
  qed
  from nvm_cmd_data_frame [OF np0 np(2) list_of_at(3) [OF win, of i] p16 k(2) [unfolded k(1)], of ndebug "load_dwords m1 ?p 16" ?li m1]
  obtain p2 m2 where
    d: "nvm_cmd_data ndebug (load_dwords m1 ?p 16) ?ps (unat np) ?l ?li io m1 = Some (k, nvm_cmd_data_ptr (load_dwords m1 ?p 16) (io ! 0) p2, m2)"
    and pp: "\<forall>c. cmd_prp1 c = io ! 0 \<and> cmd_prp2 c = p2 \<longrightarrow> prp_pages c m2 ?l k = take k io"
    and p2: "2 < k \<longrightarrow> p2 = ?li" and fr: "\<And>x. \<not> in_range ?l (8 * (k - 1)) x \<Longrightarrow> m2 x = m1 x" unfolding k(1) by blast
  define c where "c = nvm_cmd_data_ptr (r (h (load_dwords m ?p 16))) (io ! 0) p2"
  have len: "length c = 16" by (simp add: c_def h_def r_def)
  have r: "produce_command ndebug p dma queue ?p page_offset np m = Some (store_dwords ?p c m2)"
    using bs li(2,3) d c1 l1 unfolding produce_command_def Let_def q io
    by (simp add: opc_def [symmetric] h_def [symmetric] r_def [symmetric] m1_def [symmetric] c_def [symmetric, unfolded io] del: io_opcode.simps)
  have fr2: "\<forall>x. \<not> in_range ?p 64 x \<and> \<not> in_range ?l (8 * (k - 1)) x \<longrightarrow> m2 x = m x" using fr o1 by simp
  have o3: "\<forall>x. \<not> in_range ?p 64 x \<longrightarrow> store_dwords ?p c m2 x = m2 x" using store_slot_other [OF len] by simp
  have "c = nvm_cmd_data_ptr (nvm_cmd_rw_blks (nvm_cmd_header (load_dwords m ?p 16) opc ?ns) ?lba ?nb) (io ! 0) p2"
    by (simp add: c_def h_def r_def)
  note w = command_written [OF win b load_store_slot [OF len] o3 fr2 load_dwords_length disjI2 [OF this] pp p2 [unfolded li(4)]]
  have "ucast (opc AND 0x7f) = rw_opcode p" by (simp add: rw_opcode_def opc_def)
  with r w show ?thesis by (intro exI [of _ "store_dwords ?p c m2"]) (simp only: simp_thms)
qed

section \<open>Waiting before a flush\<close>

text \<open>With a free entry the wait before a flush is the wait of the loop; with a queue that is full of
  commands the controller was never told of, it does not end.\<close>

lemma flush_wait_free:
  assumes "sq_live q" "retires_submitted oth" "in_flight q < q_n q - 1"
  shows "flush_wait oth q w = map_option (\<lambda>(cmd, sq, _, w). (cmd, sq, w)) (sq_enqueue_wait oth dev q 0 w)"
proof -
  have kp: "keeps {} oth (\<lambda>_ m. m)" by (simp add: keeps_def)
  show ?thesis
  proof (rule meanwhile_cases [OF assms(1,2) kp, of w])
    fix k w' assume m: "meanwhile oth q w = (k, (nvm_sq_update ^^ k) q, w')" "sq_live ((nvm_sq_update ^^ k) q)"
      "in_flight ((nvm_sq_update ^^ k) q) = in_flight q - k"
    let ?q = "(nvm_sq_update ^^ k) q"
    have "in_flight ?q < q_n ?q - 1" using m(3) assms(3) by simp
    moreover have "queue_slot ?q (q_tail ?q) \<noteq> NULL"
      using sq_liveD(1) [OF m(2)] by (intro queue_slot_nonnull) (auto simp: sq_ok_def queue_wf_def)
    ultimately show ?thesis
      using m(1) nvm_sq_enqueue_free [OF sq_liveD(2,3) [OF m(2)], of "w_mem w'"]
      by (subst sq_enqueue_wait.simps, subst flush_wait.simps) simp
  qed
qed

lemma flush_wait_stuck:
  assumes "sq_live q" "retires_submitted oth" "submitted q = 0" "in_flight q = q_n q - 1"
  shows "flush_wait oth q w = None"
proof (rule ccontr)
  assume "flush_wait oth q w \<noteq> None"
  then obtain r where r: "flush_wait oth q w = Some r" by blast
  have "sq_live q \<and> submitted q = 0 \<and> in_flight q = q_n q - 1 \<longrightarrow> \<not> retires_submitted oth"
  proof (rule flush_wait.raw_induct [where P = "\<lambda>oth q w r. sq_live q \<and> submitted q = 0 \<and> in_flight q = q_n q - 1 \<longrightarrow> \<not> retires_submitted oth", OF _ r], rule impI, rule notI)
    fix f oth q w r
    assume IH: "\<And>oth q w r. f oth q w = Some r \<Longrightarrow> sq_live q \<and> submitted q = 0 \<and> in_flight q = q_n q - 1 \<longrightarrow> \<not> retires_submitted oth"
      and eq: "(case meanwhile oth q w of (_, sq, w) \<Rightarrow> do { (cmd, sq, m) \<leftarrow> nvm_sq_enqueue sq (w_mem w);
             if cmd = NULL then f oth sq w else Some (cmd, sq, w\<lparr>w_mem := m\<rparr>) }) = Some r"
      and q: "sq_live q \<and> submitted q = 0 \<and> in_flight q = q_n q - 1" and oth: "retires_submitted oth"
    have kp: "keeps {} oth (\<lambda>_ m. m)" by (simp add: keeps_def)
    from q have l: "sq_live q" by simp
    show False
    proof (rule meanwhile_cases [OF l oth kp, of w])
      fix k w' assume "meanwhile oth q w = (k, (nvm_sq_update ^^ k) q, w')" "k \<le> submitted q"
      then show False
        using eq IH [of oth q w' r] q oth nvm_sq_enqueue_full [OF sq_liveD(2,3) [OF l], of "w_mem w'"] by simp
    qed
  qed
  with assms show False by simp
qed

section \<open>All commands of a thread\<close>

text \<open>
  The pages of the buffer a thread transfers, the commands it issues for them and the flush after them,
  and what it starts from.
\<close>

abbreviation max_transfer :: "producer \<Rightarrow> nvm_dma \<Rightarrow> nat" where
  "max_transfer p dma \<equiv> unat (dk_max_data_size (p_disk p) div d_page_size dma)"

definition producer_ios :: "producer \<Rightarrow> nvm_dma \<Rightarrow> u64 list" where
  "producer_ios p dma = take (unat (producer_pages p dma)) (drop (unat (page_base p dma)) (d_ioaddrs dma))"

definition n_transfers :: "producer \<Rightarrow> nvm_dma \<Rightarrow> nat" where
  "n_transfers p dma = n_chunks (max_transfer p dma) (length (producer_ios p dma))"

definition cmd_pages :: "producer \<Rightarrow> nvm_dma \<Rightarrow> nat \<Rightarrow> nat" where
  "cmd_pages p dma j = (if j < n_transfers p dma then chunk (max_transfer p dma) (length (producer_ios p dma)) j else 1)"

definition cmd_request :: "producer \<Rightarrow> nvm_dma \<Rightarrow> nat \<Rightarrow> u64 \<times> u32 \<times> u64 \<times> u64 \<times> u64 list" where
  "cmd_request p dma j =
     (if j < n_transfers p dma
      then io_request (rw_opcode p) (dk_ns_id (p_disk p)) (p_start_block p)
        (unat (d_page_size dma) div unat (dk_block_size (p_disk p))) (producer_ios p dma) (max_transfer p dma) j
      else (0, dk_ns_id (p_disk p), 0, 0xffff, [0]))"

definition produce_ready :: "producer \<Rightarrow> nvm_dma \<Rightarrow> queue \<Rightarrow> nvm_dma \<Rightarrow> others \<Rightarrow> device \<Rightarrow> bool" where
  "produce_ready p dma queue prp oth dev \<longleftrightarrow>
     map_option dc_handle (b_dma (p_buffer p)) = Some dma \<and> map_option dc_handle (b_dma (u_qmem queue)) = Some prp
     \<and> sq_live (u_queue queue) \<and> sq_counts 0 (u_queue queue) \<and> in_flight (u_queue queue) = 0 \<and> u_counter queue = 0
     \<and> io_env prp (u_queue queue) oth dev \<and> d_page_size prp = d_page_size dma
     \<and> split_ok (d_page_size dma) (dk_block_size (p_disk p)) (max_transfer p dma) (length (producer_ios p dma))
     \<and> unat (page_base p dma) + unat (producer_pages p dma) \<le> length (d_ioaddrs dma) \<and> length (d_ioaddrs dma) < 2 ^ 64"

lemma produce_readyD:
  assumes "produce_ready p dma queue prp oth dev"
  shows "map_option dc_handle (b_dma (u_qmem queue)) = Some prp" "io_env prp (u_queue queue) oth dev" "d_page_size prp = d_page_size dma"
    "split_ok (d_page_size dma) (dk_block_size (p_disk p)) (max_transfer p dma) (length (producer_ios p dma))"
    "length (producer_ios p dma) = unat (producer_pages p dma)"
    "unat (page_base p dma) + unat (producer_pages p dma) \<le> length (d_ioaddrs dma)" "length (d_ioaddrs dma) < 2 ^ 64"
    "retires_submitted oth" "\<And>j. 8 * (cmd_pages p dma j - 1) \<le> unat (d_page_size prp)"
    "map_option dc_handle (b_dma (p_buffer p)) = Some dma"
proof -
  show r: "map_option dc_handle (b_dma (u_qmem queue)) = Some prp" "io_env prp (u_queue queue) oth dev" "d_page_size prp = d_page_size dma"
    "split_ok (d_page_size dma) (dk_block_size (p_disk p)) (max_transfer p dma) (length (producer_ios p dma))"
    "unat (page_base p dma) + unat (producer_pages p dma) \<le> length (d_ioaddrs dma)" "length (d_ioaddrs dma) < 2 ^ 64"
    "map_option dc_handle (b_dma (p_buffer p)) = Some dma"
    using assms by (simp_all add: produce_ready_def)
  then show "length (producer_ios p dma) = unat (producer_pages p dma)" "retires_submitted oth"
    by (simp_all add: producer_ios_def io_env_def)
  show "8 * (cmd_pages p dma j - 1) \<le> unat (d_page_size prp)" for j
    using split_okD(8) [OF r(4)] r(3) by (simp add: cmd_pages_def)
qed

definition produce_inv :: "producer \<Rightarrow> nvm_dma \<Rightarrow> queue \<Rightarrow> nvm_dma \<Rightarrow> others \<Rightarrow> device \<Rightarrow> nat \<Rightarrow> produce_state \<Rightarrow> bool" where
  "produce_inv p dma queue prp oth dev i s \<longleftrightarrow>
     produce_ready p dma queue prp oth dev
     \<and> issued prp (u_queue queue) (cmd_pages p dma) (cmd_request p dma) i (u_queue (po_queue s)) (w_mem (po_world s))
     \<and> u_qmem (po_queue s) = u_qmem queue \<and> po_offset s = of_nat (min (unat (producer_pages p dma)) (i * max_transfer p dma))
     \<and> (i < n_transfers p dma \<longrightarrow> unat (po_transfer s) = max_transfer p dma) \<and> u_counter (po_queue s) = of_nat i
     \<and> (i < q_n (u_queue queue) \<longrightarrow> submitted (u_queue (po_queue s)) = 0 \<and> in_flight (u_queue (po_queue s)) = i)"

lemma produce_inv_start:
  assumes "produce_ready p dma queue prp oth dev"
  shows "produce_inv p dma queue prp oth dev 0
    \<lparr>po_offset = 0, po_transfer = dk_max_data_size (p_disk p) div d_page_size dma, po_queue = queue, po_world = w\<rparr>"
proof -
  from assms have q: "sq_live (u_queue queue)" "sq_counts 0 (u_queue queue)" "in_flight (u_queue queue) = 0" "u_counter queue = 0"
    by (simp_all add: produce_ready_def)
  with sq_liveD(6) [OF q(1)] show ?thesis using assms issued_start [OF q(1-3)] by (simp add: produce_inv_def)
qed

lemma chunk_of_take:
  "i * P + c \<le> T \<Longrightarrow> take c (drop (i * P) (take T (drop b xs))) = take c (drop (b + i * P) xs)"
  by (simp add: drop_take min_def add.commute)

text \<open>The command a thread writes when it has issued \<open>i\<close> of them, and where its page counter is then.\<close>

lemma produce_command_issues:
  assumes win: "io_window prp q0" "0 < q_n q0" and ps: "d_page_size prp = d_page_size dma"
    and sp: "split_ok (d_page_size dma) (dk_block_size (p_disk p)) (max_transfer p dma) (length (producer_ios p dma))"
    and len: "length (producer_ios p dma) = unat (producer_pages p dma)"
      "unat (page_base p dma) + unat (producer_pages p dma) \<le> length (d_ioaddrs dma)" "length (d_ioaddrs dma) < 2 ^ 64"
    and i: "i < n_transfers p dma" "off = of_nat (min (unat (producer_pages p dma)) (i * max_transfer p dma))" "unat tr = max_transfer p dma"
    and np: "np = (if producer_pages p dma - off < tr then producer_pages p dma - off else tr)"
    and q: "q_max_entries (u_queue queue) = q_max_entries q0" "map_option dc_handle (b_dma (u_qmem queue)) = Some prp"
    and cid: "load16 m (NVM_CMD_CID (slot_of q0 i)) = of_nat ((i + 1) mod (2 * q_n q0))"
  shows "\<exists>m'. produce_command ndebug p dma queue (slot_of q0 i) off np m = Some m'
    \<and> (\<forall>x. x \<notin> cmd_bytes prp q0 (cmd_pages p dma i) i \<longrightarrow> m' x = m x)
    \<and> slot_holds prp q0 m' i (cmd_pages p dma i) (cmd_request p dma i)"
    "off < producer_pages p dma" "off + np = of_nat (min (unat (producer_pages p dma)) (Suc i * max_transfer p dma))"
    "Suc i < n_transfers p dma \<longrightarrow> unat np = max_transfer p dma"
proof -
  define P where "P = max_transfer p dma"
  let ?T = "unat (producer_pages p dma)"
  note sd = split_okD [OF sp, folded P_def]
  have i': "i < n_chunks P ?T" using i(1) len(1) by (simp add: n_transfers_def P_def)
  note c = split_counter [OF sd(4) i' i(2,3) [folded P_def] np]
  note ch = chunk_pos [OF sd(4) i']
  have cp: "cmd_pages p dma i = unat np" using i(1) len(1) c(2) by (simp add: cmd_pages_def P_def)
  have base: "unat (page_base p dma + off) = unat (page_base p dma) + i * P"
    using c(1) ch len(2,3) by (subst unat_add_lem [THEN iffD1]) simp_all
  have "\<exists>m'. produce_command ndebug p dma queue (slot_of q0 i) off np m = Some m'
    \<and> (\<forall>x. x \<notin> cmd_bytes prp q0 (unat np) i \<longrightarrow> m' x = m x)
    \<and> slot_holds prp q0 m' i (unat np)
       (rw_opcode p, dk_ns_id (p_disk p),
        p_start_block p + NVM_PAGE_TO_BLOCK (d_page_size dma) (dk_block_size (p_disk p)) off,
        ucast ((ucast (NVM_PAGE_TO_BLOCK (d_page_size dma) (dk_block_size (p_disk p)) np) :: u16) - 1),
        take (unat np) (drop (unat (page_base p dma + off)) (d_ioaddrs dma)))"
    by (rule produce_command_spec) (use win ps q cid sd(1,10) c ch base len in auto)
  moreover have "take (unat np) (drop (unat (page_base p dma + off)) (d_ioaddrs dma)) = take (unat np) (drop (i * P) (producer_ios p dma))"
    unfolding base producer_ios_def using ch c(2) by (subst chunk_of_take) simp_all
  ultimately show "\<exists>m'. produce_command ndebug p dma queue (slot_of q0 i) off np m = Some m'
    \<and> (\<forall>x. x \<notin> cmd_bytes prp q0 (cmd_pages p dma i) i \<longrightarrow> m' x = m x)
    \<and> slot_holds prp q0 m' i (cmd_pages p dma i) (cmd_request p dma i)"
    using split_request [OF sp i(1) [unfolded n_transfers_def] c(1) [unfolded P_def] c(2) [folded len(1), unfolded P_def]] i(1) len(1) c(2)
    unfolding cp by (auto simp: cmd_request_def P_def)
  show "off < producer_pages p dma" "off + np = of_nat (min ?T (Suc i * max_transfer p dma))"
    "Suc i < n_transfers p dma \<longrightarrow> unat np = max_transfer p dma"
    using c(3-5) len(1) by (simp_all add: n_transfers_def P_def)
qed

lemma produce_inv_step:
  assumes inv: "produce_inv p dma queue prp oth dev i s" and i: "i < n_transfers p dma"
  shows "produce_more (producer_pages p dma) s \<and> (\<exists>s'. produce_step ndebug oth dev p dma (producer_pages p dma) s = Some s'
    \<and> produce_inv p dma queue prp oth dev (Suc i) s')"
proof -
  define P where "P = max_transfer p dma"
  let ?q0 = "u_queue queue" and ?sq = "u_queue (po_queue s)" and ?n = "producer_pages p dma" and ?T = "unat (producer_pages p dma)"
  have ready: "produce_ready p dma queue prp oth dev" using inv by (simp add: produce_inv_def)
  note rd = produce_readyD [OF ready] and sp = split_okD [OF produce_readyD(4) [OF ready], folded P_def]
  from inv i have st: "issued prp ?q0 (cmd_pages p dma) (cmd_request p dma) i ?sq (w_mem (po_world s))" and iv: "u_qmem (po_queue s) = u_qmem queue"
    "po_offset s = of_nat (min ?T (i * P))" "unat (po_transfer s) = P" "u_counter (po_queue s) = of_nat i"
    "i < q_n ?q0 \<Longrightarrow> submitted ?sq = 0 \<and> in_flight ?sq = i"
    by (simp_all add: produce_inv_def P_def)
  define np where "np = (if ?n - po_offset s < po_transfer s then ?n - po_offset s else po_transfer s)"
  obtain q' k w' where wait: "sq_enqueue_wait oth dev ?sq 0 (po_world s) = Some (slot_of ?q0 i, q', k, w')" "k \<le> in_flight ?sq"
    "in_flight q' = Suc (in_flight ?sq - k)" "same_place q' ?q0"
    "load16 (w_mem w') (NVM_CMD_CID (slot_of ?q0 i)) = of_nat ((i + 1) mod (2 * q_n ?q0))"
    and issue: "\<And>m'. \<forall>x. x \<notin> cmd_bytes prp ?q0 (cmd_pages p dma i) i \<longrightarrow> m' x = w_mem w' x \<Longrightarrow>
       slot_holds prp ?q0 m' i (cmd_pages p dma i) (cmd_request p dma i) \<Longrightarrow>
       issued prp ?q0 (cmd_pages p dma) (cmd_request p dma) (Suc i) q' m'"
    using issue_command [OF rd(2) st rd(9)] by metis
  let ?qu = "(po_queue s)\<lparr>u_queue := q'\<rparr>"
  note cmd' = produce_command_issues [OF _ issuedD(6) [OF st] rd(3-7) i iv(2,3) [unfolded P_def] np_def]
  have "io_window prp ?q0" "q_max_entries (u_queue ?qu) = q_max_entries ?q0" "map_option dc_handle (b_dma (u_qmem ?qu)) = Some prp"
    using rd(1,2) wait(4) iv(1) by (simp_all add: io_env_def same_place_def)
  note cmd' = cmd' [OF this wait(5)]
  from cmd'(1) obtain m' where cmd: "produce_command ndebug p dma ?qu (slot_of ?q0 i) (po_offset s) np (w_mem w') = Some m'"
    and "\<forall>x. x \<notin> cmd_bytes prp ?q0 (cmd_pages p dma i) i \<longrightarrow> m' x = w_mem w' x"
    and "slot_holds prp ?q0 m' i (cmd_pages p dma i) (cmd_request p dma i)" by blast
  then have st': "issued prp ?q0 (cmd_pages p dma) (cmd_request p dma) (Suc i) q' m'" by (intro issue)
  have un: "submitted q' = 0 \<and> in_flight q' = Suc i" if "Suc i < q_n ?q0"
  proof -
    have s0: "submitted ?sq = 0" "in_flight ?sq = i" "in_flight ?sq < q_n ?sq - 1" using iv(5) that issuedD(5) [OF st] by auto
    from enqueue_wait_unsubmitted [OF issuedD(1) [OF st] rd(8) s0(1,3), of dev "po_world s"] wait(1)
    have "q' = sq_bump ?sq" by auto
    then show ?thesis using sq_live_bump(2,3) [OF issuedD(1) [OF st] s0(3)] s0(1,2) by simp
  qed
  let ?s = "s\<lparr>po_offset := po_offset s + np, po_transfer := np, po_queue := ?qu\<lparr>u_counter := u_counter ?qu + 1\<rparr>, po_world := w'\<lparr>w_mem := m'\<rparr>\<rparr>"
  have "produce_step ndebug oth dev p dma ?n s = Some ?s"
    using wait(1) cmd by (simp add: produce_step_def Let_def np_def [symmetric])
  moreover have "produce_inv p dma queue prp oth dev (Suc i) ?s"
    unfolding produce_inv_def P_def [symmetric] using ready st' iv(1,4) cmd'(3,4) un by (simp add: P_def)
  moreover have "produce_more ?n s" using cmd'(2) by (simp add: produce_more_def)
  ultimately show ?thesis by blast
qed

interpretation producing: command_loop "produce_more (producer_pages p dma)" "produce_step ndebug oth dev p dma (producer_pages p dma)"
  "produce_loop ndebug oth dev p dma (producer_pages p dma)" "produce_inv p dma queue prp oth dev" "n_transfers p dma"
  for ndebug oth dev p dma queue prp
proof
  show "produce_loop ndebug oth dev p dma (producer_pages p dma) s =
      (if produce_more (producer_pages p dma) s
       then produce_step ndebug oth dev p dma (producer_pages p dma) s \<bind> produce_loop ndebug oth dev p dma (producer_pages p dma) else Some s)" for s
    by (rule produce_loop.simps)
  show "produce_inv p dma queue prp oth dev i s \<Longrightarrow> i < n_transfers p dma \<Longrightarrow> produce_more (producer_pages p dma) s
      \<and> (\<exists>s'. produce_step ndebug oth dev p dma (producer_pages p dma) s = Some s' \<and> produce_inv p dma queue prp oth dev (Suc i) s')" for i s
    by (rule produce_inv_step)
  fix s assume "produce_inv p dma queue prp oth dev (n_transfers p dma) s"
  then have r: "produce_ready p dma queue prp oth dev"
    and o: "po_offset s = of_nat (min (unat (producer_pages p dma)) (n_transfers p dma * max_transfer p dma))"
    by (simp_all add: produce_inv_def)
  from split_counter_end [OF split_okD(4) [OF produce_readyD(4) [OF r]]] o have "po_offset s = producer_pages p dma"
    unfolding n_transfers_def produce_readyD(5) [OF r] .
  then show "\<not> produce_more (producer_pages p dma) s" by (simp add: produce_more_def)
qed

section \<open>The flush\<close>

lemma flush_command:
  assumes win: "io_window prp q0" "0 < q_n q0"
    and m': "m' = slot_update (slot_of q0 i) (\<lambda>c. nvm_cmd_rw_blks c 0 0) (slot_update (slot_of q0 i) (\<lambda>c. nvm_cmd_data_ptr c 0 0)
      (slot_update (slot_of q0 i) (\<lambda>c. nvm_cmd_header c (io_opcode NVM_IO_FLUSH) ns) m))"
  shows "\<forall>x. x \<notin> cmd_bytes prp q0 1 i \<longrightarrow> m' x = m x"
    "slot_holds prp q0 m' i 1 (0, ns, 0, 0xffff, [0])"
proof -
  let ?p = "slot_of q0 i"
  define m1 where "m1 = slot_update ?p (\<lambda>c. nvm_cmd_header c (io_opcode NVM_IO_FLUSH) ns) m"
  define m2 where "m2 = slot_update ?p (\<lambda>c. nvm_cmd_data_ptr c 0 0) m1"
  have e: "m' = slot_update ?p (\<lambda>c. nvm_cmd_rw_blks c 0 0) m2" by (simp only: m' m1_def m2_def)
  have l: "load_dwords m' ?p 16 = nvm_cmd_rw_blks (nvm_cmd_data_ptr (nvm_cmd_header (load_dwords m ?p 16) (io_opcode NVM_IO_FLUSH) ns) 0 0) 0 0"
    by (simp add: e m2_def m1_def load_slot_update)
  have o: "\<forall>x. \<not> in_range ?p 64 x \<longrightarrow> m' x = m x"
    by (simp add: e m2_def m1_def slot_update_other)
  have pp: "\<forall>c. cmd_prp1 c = 0 \<and> cmd_prp2 c = 0 \<longrightarrow> prp_pages c m (list_of prp q0 i) 1 = [0]" by (simp add: prp_pages_def)
  have b: "8 * (1 - 1) \<le> unat (d_page_size prp)" by simp
  have p2: "2 < (1 :: nat) \<longrightarrow> 0 = d_ioaddrs prp ! ((i + 1) mod q_n q0 + 1)" by simp
  have fr: "\<forall>x. \<not> in_range ?p 64 x \<and> \<not> in_range (list_of prp q0 i) (8 * (1 - 1)) x \<longrightarrow> m x = m x" by simp
  note w = command_written [OF win b l o fr load_dwords_length disjI1 [OF refl] pp p2]
  show "\<forall>x. x \<notin> cmd_bytes prp q0 1 i \<longrightarrow> m' x = m x" by (rule w(1))
  show "slot_holds prp q0 m' i 1 (0, ns, 0, 0xffff, [0])"
    using w(2) by (simp add: unsigned_minus_1_eq_mask mask_eq_exp_minus_1)
qed

lemma produce_flush_issued:
  assumes inv: "produce_inv p dma queue prp oth dev (n_transfers p dma) s" and room: "Suc (n_transfers p dma) < q_n (u_queue queue)"
  obtains queue' w' where "produce_flush oth p (po_queue s) (po_world s) = Some (queue', w')"
    "issued prp (u_queue queue) (cmd_pages p dma) (cmd_request p dma) (Suc (n_transfers p dma)) (u_queue queue') (w_mem w')"
    "u_counter queue' = of_nat (Suc (n_transfers p dma))"
proof -
  let ?N = "n_transfers p dma" and ?q0 = "u_queue queue" and ?sq = "u_queue (po_queue s)"
  have ready: "produce_ready p dma queue prp oth dev" using inv by (simp add: produce_inv_def)
  note rd = produce_readyD [OF ready]
  from inv room have st: "issued prp ?q0 (cmd_pages p dma) (cmd_request p dma) ?N ?sq (w_mem (po_world s))"
    and iv: "u_counter (po_queue s) = of_nat ?N" "in_flight ?sq = ?N" by (simp_all add: produce_inv_def)
  have free: "in_flight ?sq < q_n ?sq - 1" using iv(2) room issuedD(5) [OF st] by simp
  obtain q' k w' where wait: "sq_enqueue_wait oth dev ?sq 0 (po_world s) = Some (slot_of ?q0 ?N, q', k, w')"
    and issue: "\<And>m'. \<forall>x. x \<notin> cmd_bytes prp ?q0 (cmd_pages p dma ?N) ?N \<longrightarrow> m' x = w_mem w' x \<Longrightarrow>
       slot_holds prp ?q0 m' ?N (cmd_pages p dma ?N) (cmd_request p dma ?N) \<Longrightarrow>
       issued prp ?q0 (cmd_pages p dma) (cmd_request p dma) (Suc ?N) q' m'"
    using issue_command [OF rd(2) st rd(9)] by metis
  have fw: "flush_wait oth ?sq (po_world s) = Some (slot_of ?q0 ?N, q', w')"
    using flush_wait_free [OF issuedD(1) [OF st] rd(8) free, of "po_world s" dev] wait by simp
  have win: "io_window prp ?q0" using rd(2) by (simp add: io_env_def)
  note fl = flush_command [OF win issuedD(6) [OF st] refl, of ?N "dk_ns_id (p_disk p)" "w_mem w'"]
  have "cmd_pages p dma ?N = 1" "cmd_request p dma ?N = (0, dk_ns_id (p_disk p), 0, 0xffff, [0])"
    by (simp_all add: cmd_pages_def cmd_request_def)
  note fl' = issue [unfolded this, OF fl]
  have "produce_flush oth p (po_queue s) (po_world s) \<noteq> None" using fw by (simp add: produce_flush_def)
  then obtain queue' w'' where f: "produce_flush oth p (po_queue s) (po_world s) = Some (queue', w'')" by auto
  show ?thesis
    by (rule that [OF f]) (use fw iv(1) fl' f in \<open>auto simp: produce_flush_def Let_def simp del: io_opcode.simps\<close>)
qed

section \<open>The other functions\<close>

text \<open>
  A round of the thread that receives completions retires at most one command, of the queue the completion
  names, and counts it; the submission queues of the other threads stay as they are.
\<close>

lemma consume_round_retires:
  assumes "consume_round dev queues w = Some (queues', w')"
  shows "\<exists>sqid k. k \<le> 1 \<and> length queues' = length queues \<and> u_counter (queues' ! 0) = u_counter (queues ! 0) + of_nat k
    \<and> (\<forall>i. 0 < i \<and> i < length queues \<longrightarrow>
         queues' ! i = (queues ! i)\<lparr>u_queue := (nvm_sq_update ^^ (if i = sqid then k else 0)) (u_queue (queues ! i))\<rparr>)"
proof -
  have ne: "queues \<noteq> []" using assms by (auto simp: consume_round_def)
  obtain cpl cq w1 where d: "nvm_cq_dequeue_block dev (u_queue (queues ! 0)) 10 w = (cpl, cq, w1)" by (metis prod_cases3)
  show ?thesis
  proof (cases "cpl = NULL")
    case True
    then show ?thesis using assms d ne by (intro exI [of _ 0]) (auto simp: consume_round_def)
  next
    case False
    let ?q1 = "queues[0 := (queues ! 0)\<lparr>u_queue := cq\<rparr>]" and ?sqid = "unat (load16 (w_mem w1) (NVM_CPL_SQID cpl))"
    let ?q2 = "?q1[?sqid := (?q1 ! ?sqid)\<lparr>u_queue := nvm_sq_update (u_queue (?q1 ! ?sqid))\<rparr>]"
    obtain cq' w2 where u: "nvm_cq_update dev (u_queue (?q2 ! 0)) w1 = (cq', w2)" by (cases "nvm_cq_update dev (u_queue (?q2 ! 0)) w1")
    have q': "queues' = ?q2[0 := (?q2 ! 0)\<lparr>u_queue := cq', u_counter := u_counter (?q2 ! 0) + 1\<rparr>]" "?sqid < length queues"
      using assms d ne False u by (auto simp: consume_round_def Let_def split: if_splits)
    have "u_counter (?q2 ! 0) = u_counter (queues ! 0)" using ne q'(2) by (cases "?sqid = 0") simp_all
    then show ?thesis
      using ne q' by (intro exI [of _ ?sqid] exI [of _ 1]) (auto simp: nth_list_update)
  qed
qed

section \<open>How the blocks are divided\<close>

lemma n_chunks_le_iff: "0 < P \<Longrightarrow> n_chunks P T \<le> k \<longleftrightarrow> T \<le> k * P"
  using n_chunks_iff [of P k T] by linarith

lemma n_chunks_eqI:
  assumes "\<And>k. n_chunks P T \<le> k \<longleftrightarrow> n \<le> k"
  shows "n_chunks P T = n"
  using assms [of n] assms [of "n_chunks P T"] by simp

lemma n_chunks_nested:
  assumes "0 < B" "0 < C"
  shows "n_chunks (B * C) (n_chunks C s * C) = n_chunks (B * C) s"
proof (rule n_chunks_eqI)
  fix k
  have "n_chunks (B * C) (n_chunks C s * C) \<le> k \<longleftrightarrow> n_chunks C s * C \<le> k * B * C"
    using n_chunks_le_iff [of "B * C" "n_chunks C s * C" k] assms by (simp only: nat_0_less_mult_iff mult.assoc)
  also have "\<dots> \<longleftrightarrow> s \<le> k * B * C" using n_chunks_le_iff [OF assms(2), of s "k * B"] assms(2) by simp
  also have "\<dots> \<longleftrightarrow> n_chunks (B * C) s \<le> k"
    using n_chunks_le_iff [of "B * C" s k] assms by (simp only: nat_0_less_mult_iff mult.assoc)
  finally show "n_chunks (B * C) (n_chunks C s * C) \<le> k \<longleftrightarrow> n_chunks (B * C) s \<le> k" .
qed

lemma n_chunks_minus: "0 < A \<Longrightarrow> n_chunks A (x - K * A) = n_chunks A x - K"
  by (rule n_chunks_eqI) (simp add: n_chunks_le_iff le_diff_conv add_mult_distrib)

lemma n_chunks_mult: "0 < A \<Longrightarrow> n_chunks A (k * A) = k"
  by (rule n_chunks_eqI) (simp add: n_chunks_le_iff)

lemma align_div:
  assumes "k < 64" "unat sz + 2 ^ k \<le> 2 ^ 64"
  shows "unat (NVM_PAGE_ALIGN sz (2 ^ k) div 2 ^ k) = n_chunks (2 ^ k) (unat sz)"
  using unat_NVM_PAGE_ALIGN [OF assms] assms(1) by (simp add: unat_div unat_pow2 n_chunks_def)

lemma concat_upt:
  "(\<And>i. i < n \<Longrightarrow> f i \<le> f (Suc i)) \<Longrightarrow> f 0 \<le> f n \<and> concat (map (\<lambda>i. [f i..<f (Suc i)]) [0..<n]) = [f 0..<f n]" for f :: "nat \<Rightarrow> nat"
proof (induction n)
  case 0
  then show ?case by simp
next
  case (Suc n)
  then have IH: "f 0 \<le> f n" "concat (map (\<lambda>i. [f i..<f (Suc i)]) [0..<n]) = [f 0..<f n]" and st: "f n \<le> f (Suc n)" by simp_all
  have "[f 0..<f (Suc n)] = [f 0..<f n] @ [f n..<f (Suc n)]" using IH(1) st upt_add_eq_append [of "f 0" "f n" "f (Suc n) - f n"] by simp
  then show ?case using IH st by simp
qed

text \<open>What a thread is given, in numbers: \<open>K\<close> pages, the last one the rest.\<close>

lemma page_to_block_pow2:
  assumes "c \<le> a" "a < 64" "2 ^ a * unat x < 2 ^ 64"
  shows "unat (NVM_PAGE_TO_BLOCK (2 ^ a) (2 ^ c) x) = unat x * 2 ^ (a - c)"
proof -
  have c: "c < 64" using assms by simp
  have u: "unat (2 ^ a :: u64) = 2 ^ a" "unat (2 ^ c :: u64) = 2 ^ c" using assms(2) c by (simp_all add: unat_pow2)
  have "unat (2 ^ a * x) = 2 ^ a * unat x" using assms(3) u by (simp add: unat_word_ariths)
  moreover have "(2 :: nat) ^ a = 2 ^ (a - c) * 2 ^ c" using assms(1) by (simp flip: power_add)
  ultimately show ?thesis by (simp add: NVM_PAGE_TO_BLOCK_def unat_div u)
qed

lemma block_to_page_pow2:
  assumes "c \<le> a" "a < 64" "unat x = k * 2 ^ (a - c)" "2 ^ a * k < 2 ^ 64"
  shows "unat (NVM_BLOCK_TO_PAGE (2 ^ a) (2 ^ c) x) = k"
proof -
  have c: "c < 64" using assms by simp
  have u: "unat (2 ^ a :: u64) = 2 ^ a" "unat (2 ^ c :: u64) = 2 ^ c" using assms(2) c by (simp_all add: unat_pow2)
  have "(2 :: nat) ^ c * (k * 2 ^ (a - c)) = k * (2 ^ c * 2 ^ (a - c))" by (simp only: ac_simps)
  also have "\<dots> = 2 ^ a * k" using assms(1) by (simp flip: power_add)
  finally have e: "unat (2 ^ c :: u64) * unat x = 2 ^ a * k" unfolding u assms(3) .
  then have "unat (2 ^ c * x) = 2 ^ a * k" using assms(4) unfolding unat_word_ariths e by simp
  then show ?thesis by (simp add: NVM_BLOCK_TO_PAGE_def unat_div u)
qed

lemma pages_fit:
  assumes "a < 64" "s + 2 ^ a \<le> 2 ^ 64"
  shows "2 ^ a * n_chunks (2 ^ a) s + 2 ^ a \<le> 2 ^ 64" "\<And>k. k \<le> n_chunks (2 ^ a) s \<Longrightarrow> 2 ^ a * k < 2 ^ 64" "n_chunks (2 ^ a) s < 2 ^ 64"
proof -
  let ?A = "2 ^ a :: nat" and ?D = "2 ^ (64 - a) :: nat" and ?p = "n_chunks (2 ^ a) s"
  have A: "?D * ?A = 2 ^ 64" "0 < ?A" using assms(1) by (simp_all flip: power_add)
  have "(?D - 1) * ?A = 2 ^ 64 - ?A" unfolding diff_mult_distrib A(1) by simp
  then have "s \<le> (?D - 1) * ?A" using assms(2) by linarith
  then have "?p \<le> ?D - 1" by (simp add: n_chunks_le_iff)
  moreover have "0 < ?D" by simp
  ultimately have "Suc ?p \<le> ?D" by linarith
  from mult_le_mono2 [OF this, of ?A] show t: "?A * ?p + ?A \<le> 2 ^ 64" using A(1) by (simp add: mult.commute)
  show s: "?A * k < 2 ^ 64" if "k \<le> ?p" for k using mult_le_mono2 [OF that, of ?A] t A(2) by linarith
  have "1 * ?p \<le> ?A * ?p" by (rule mult_le_mono1) (use A(2) in linarith)
  with s [of ?p] show "?p < 2 ^ 64" by linarith
qed

lemma blocks_fit:
  assumes "c \<le> a" "blocks = n_chunks (2 ^ c) s" "pages = n_chunks (2 ^ a) s"
  shows "n_chunks (2 ^ a) (blocks * 2 ^ c) = pages" "blocks * 2 ^ c \<le> pages * 2 ^ a" "\<And>k. k < pages \<Longrightarrow> k * 2 ^ (a - c) \<le> blocks"
proof -
  have A: "(2 :: nat) ^ a = 2 ^ (a - c) * 2 ^ c" using assms(1) by (simp flip: power_add)
  show e: "n_chunks (2 ^ a) (blocks * 2 ^ c) = pages" unfolding assms(2,3) A by (rule n_chunks_nested) simp_all
  show "blocks * 2 ^ c \<le> pages * 2 ^ a" using n_chunks_le_iff [of "2 ^ a" "blocks * 2 ^ c" pages] e by simp
  fix k assume "k < pages"
  then have "k * 2 ^ a < s" unfolding assms(3) by (simp add: n_chunks_iff)
  also have "s \<le> blocks * 2 ^ c" using n_chunks_le_iff [of "2 ^ c" s blocks] assms(2) by simp
  finally have "k * 2 ^ (a - c) * 2 ^ c \<le> blocks * 2 ^ c" unfolding A by (simp only: mult.assoc less_imp_le)
  then show "k * 2 ^ (a - c) \<le> blocks" by simp
qed

lemma transfer_producer_numbers:
  fixes sz :: u64
  assumes d: "dk_page_size d = 2 ^ a" "dk_block_size d = 2 ^ c" "c \<le> a" "a < 64" "unat sz + 2 ^ a \<le> 2 ^ 64" "d_page_size dma = 2 ^ a"
    and b: "blocks = n_chunks (2 ^ c) (unat sz)" "pages = n_chunks (2 ^ a) (unat sz)"
    and w: "unat n_blocks = blocks" "unat ppq = pages div unat n_queues" and i: "i < unat n_queues"
    and p: "p = transfer_producer d buffer n_queues wr n_blocks ppq (of_nat i)"
    and fg: "f = (\<lambda>j. if j = unat n_queues then blocks else pages div unat n_queues * j * 2 ^ (a - c))"
      "g = (\<lambda>j. if j = unat n_queues then pages else pages div unat n_queues * j)"
  shows "unat (p_start_block p) = f i" "unat (p_start_block p) + unat (p_n_blocks p) = f (Suc i)" "f i \<le> f (Suc i)"
    "unat (page_base p dma) = g i" "unat (page_base p dma) + unat (producer_pages p dma) = g (Suc i)" "g i \<le> g (Suc i)"
    "p_queue_no p = of_nat (Suc i)"
proof -
  define K where "K = pages div unat n_queues"
  let ?B = "2 ^ (a - c) :: nat" and ?A = "2 ^ a :: nat" and ?C = "2 ^ c :: nat"
  have A: "?A = ?B * ?C" using d(3) by (simp flip: power_add)
  note top = pages_fit(1) [OF d(4,5), folded b(2)] and small = pages_fit(2) [OF d(4,5), folded b(2)] and pages64 = pages_fit(3) [OF d(4,5), folded b(2)]
  note bl = blocks_fit [OF d(3) b]
  have Kn: "K * unat n_queues \<le> pages" by (simp add: K_def)
  have Ki: "K * i \<le> pages" using Kn i by (meson le_trans less_imp_le mult_le_mono2)
  have KS: "K * i + K \<le> pages" using mult_le_mono2 [of "Suc i" "unat n_queues" K] i Kn by simp
  have ui: "unat (of_nat i :: u16) = i" by (rule unat_of_nat_small) (use i unat_u16_less [of n_queues] in simp)
  show "p_queue_no p = of_nat (Suc i)" unfolding p transfer_producer_def Let_def by simp
  have "unat (ppq * ucast (of_nat i :: u16)) = K * i"
  proof -
    have "unat (ucast (of_nat i :: u16) :: u64) = i" using ui by (simp add: unat_ucast_up)
    then show ?thesis using Ki w(2) pages64 by (simp add: unat_word_ariths K_def)
  qed
  then have start: "unat (p_start_block p) = K * i * ?B"
    using page_to_block_pow2 [OF d(3,4), of "ppq * ucast (of_nat i :: u16)"] small [OF Ki] unfolding p transfer_producer_def Let_def d by simp
  have le: "K * i * ?B \<le> blocks"
  proof (cases "K = 0")
    case False
    then show ?thesis using KS by (intro bl(3)) linarith
  qed simp
  have nb: "unat (p_n_blocks p) = (if Suc i = unat n_queues then blocks - K * i * ?B else K * ?B)"
  proof (cases "Suc i = unat n_queues")
    case True
    then have "int i = int (unat n_queues) - 1" by linarith
    then have "p_n_blocks p = n_blocks - p_start_block p" unfolding p transfer_producer_def Let_def ui by simp
    then show ?thesis using True le start w(1) by (simp add: unat_sub word_le_nat_alt)
  next
    case False
    then have "int i \<noteq> int (unat n_queues) - 1" by linarith
    then have "p_n_blocks p = NVM_PAGE_TO_BLOCK (2 ^ a) (2 ^ c) ppq" unfolding p transfer_producer_def Let_def ui d by simp
    then show ?thesis using False page_to_block_pow2 [OF d(3,4), of ppq] small [of K] KS w(2) by (simp add: K_def)
  qed
  have fi: "f i = K * i * ?B" "f (Suc i) = (if Suc i = unat n_queues then blocks else K * i * ?B + K * ?B)"
    "g i = K * i" "g (Suc i) = (if Suc i = unat n_queues then pages else K * i + K)"
    using i unfolding fg K_def by (simp_all add: algebra_simps)
  show "unat (p_start_block p) = f i" using start fi by simp
  show "unat (p_start_block p) + unat (p_n_blocks p) = f (Suc i)" "f i \<le> f (Suc i)" using start nb le fi by simp_all
  have disk: "p_disk p = d" unfolding p transfer_producer_def Let_def by simp
  show pb: "unat (page_base p dma) = g i"
    unfolding disk d fi using block_to_page_pow2 [OF d(3,4) start] small [OF Ki] by simp
  have nbC: "unat (p_n_blocks p) * ?C = (if Suc i = unat n_queues then blocks * ?C - K * i * ?A else K * ?A)"
    unfolding nb A by (simp add: diff_mult_distrib mult.assoc)
  have "K * ?A \<le> pages * ?A" using KS by (intro mult_le_mono1) simp
  then have nbA: "unat (p_n_blocks p) * ?C \<le> pages * ?A" unfolding nbC using bl(2) by (simp add: le_diff_conv trans_le_add1)
  have uC: "unat (2 ^ c :: u64) = ?C" using d(3,4) by (simp add: unat_pow2)
  have "unat (p_n_blocks p) * ?C < 2 ^ 64" using nbA small [of pages] by (simp add: mult.commute)
  then have un: "unat (p_n_blocks p * 2 ^ c) = unat (p_n_blocks p) * ?C" using uC by (simp add: unat_word_ariths)
  then have "unat (p_n_blocks p * 2 ^ c) + 2 ^ a \<le> 2 ^ 64" using nbA top by (simp add: mult.commute)
  from align_div [OF d(4) this] have "unat (producer_pages p dma) = n_chunks ?A (unat (p_n_blocks p) * ?C)"
    unfolding producer_pages_def disk d un by simp
  also have "\<dots> = (if Suc i = unat n_queues then pages - K * i else K)"
    unfolding nbC using n_chunks_minus [of ?A "blocks * ?C" "K * i"] n_chunks_mult [of ?A K] bl(1) by simp
  finally show "unat (page_base p dma) + unat (producer_pages p dma) = g (Suc i)" using pb fi Ki by simp
  show "g i \<le> g (Suc i)" using fi Ki by simp
qed

section \<open>Properties\<close>

text \<open>
  C9: When a transfer has at most as many pages as a command and one PRP list describe and at most 65536 blocks
  (\<open>split_ok\<close>, part of \<open>produce_ready\<close>), a thread of the integrity example that reads, or that writes with fewer
  commands than its queue has free entries, returns after one command for every \<open>max_transfer\<close> pages, and a flush
  after a write.  It has counted and announced all of them, and each that is in flight is complete: a controller
  that fetches its entry, and for more than two pages the list that PRP2 points to on the bus, finds opcode,
  namespace, blocks and pages.  The pages of the commands are its pages of the buffer, in order.
\<close>

theorem produce_commands_issues:
  assumes "produce_ready p dma queue prp oth dev" "unat (p_queue_no p) < length queues" "queues ! unat (p_queue_no p) = queue"
    and "window_maps iommu prp"
    and "N = n_transfers p dma" "p_write p \<longrightarrow> N + 1 < q_n (u_queue queue)" "N' = (if p_write p then N + 1 else N)"
  shows "(\<exists>queue' w'. produce_commands ndebug oth dev p queues w = Some (queues[unat (p_queue_no p) := queue'], w')
      \<and> u_counter queue' = of_nat N' \<and> q_last (u_queue queue') = q_tail (u_queue queue')
      \<and> (\<forall>j < N'. N' - j \<le> in_flight (u_queue queue') \<longrightarrow>
           bus_fetch iommu (w_mem w') (slot_of (u_queue queue) j) (cmd_pages p dma j) = cmd_request p dma j))
    \<and> concat (map (\<lambda>j. snd (snd (snd (snd (cmd_request p dma j))))) [0..<N]) = producer_ios p dma"
proof -
  note rd = produce_readyD [OF assms(1)] and sp = split_okD [OF produce_readyD(4) [OF assms(1)]]
  let ?s0 = "\<lparr>po_offset = 0, po_transfer = dk_max_data_size (p_disk p) div d_page_size dma, po_queue = queue, po_world = w\<rparr>"
  from producing.all_states [OF produce_inv_start [OF assms(1), of w], of ndebug] obtain s where
    s: "produce_loop ndebug oth dev p dma (producer_pages p dma) ?s0 = Some s" "produce_inv p dma queue prp oth dev N s"
    unfolding assms(5) by blast
  obtain q1 w1 where q1: "(if p_write p then produce_flush oth p (po_queue s) (po_world s) else Some (po_queue s, po_world s)) = Some (q1, w1)"
    "issued prp (u_queue queue) (cmd_pages p dma) (cmd_request p dma) N' (u_queue q1) (w_mem w1)" "u_counter q1 = of_nat N'"
  proof (cases "p_write p")
    case True
    then show ?thesis using produce_flush_issued [OF s(2) [unfolded assms(5)]] assms(5-7) that by auto
  next
    case False
    then show ?thesis using s(2) assms(7) that by (simp add: produce_inv_def)
  qed
  let ?sq = "(u_queue q1)\<lparr>q_last := q_tail (u_queue q1)\<rparr>"
  from issued_submit [OF rd(2) q1(2) rd(9)] obtain w' where
    w': "nvm_sq_submit dev (u_queue q1) w1 = (?sq, w')" "issued prp (u_queue queue) (cmd_pages p dma) (cmd_request p dma) N' ?sq (w_mem w')" by metis
  have r: "produce_commands ndebug oth dev p queues w = Some (queues[unat (p_queue_no p) := q1\<lparr>u_queue := ?sq\<rparr>], w')"
    using s(1) w'(1) assms(2,3) sp(2) unfolding produce_commands_def rd(10) by (simp add: q1(1))
  have le: "length (producer_ios p dma) \<le> N * max_transfer p dma"
    using n_chunks_iff [OF sp(4), of N "length (producer_ios p dma)"] assms(5) by (auto simp: n_transfers_def not_less)
  have mp: "map (\<lambda>j. snd (snd (snd (snd (cmd_request p dma j))))) [0..<N] =
      map (\<lambda>i. take (chunk (max_transfer p dma) (length (producer_ios p dma)) i) (drop (i * max_transfer p dma) (producer_ios p dma))) [0..<N]"
    by (rule map_cong [OF refl]) (simp add: cmd_request_def io_request_def assms(5))
  have "concat (map (\<lambda>j. snd (snd (snd (snd (cmd_request p dma j))))) [0..<N]) = producer_ios p dma"
    unfolding mp using chunks_cover [OF sp(4), of N "producer_ios p dma"] le assms(5) by (simp add: n_transfers_def)
  moreover have "bus_fetch iommu (w_mem w') (slot_of (u_queue queue) j) (cmd_pages p dma j) = cmd_request p dma j"
    if "j < N'" "N' - j \<le> in_flight ?sq" for j
    by (rule slot_holds_fetch [OF _ issuedD(6) [OF q1(2)] assms(4) rd(9) issuedD(7) [OF w'(2) that]]) (use rd(2) in \<open>simp add: io_env_def\<close>)
  ultimately show ?thesis using r q1(3)
    by (intro conjI exI [of _ "q1\<lparr>u_queue := ?sq\<rparr>"] exI [of _ w']) simp_all
qed

text \<open>
  C32: A thread that writes exactly as many commands as its queue has free entries never returns: all of
  them wait to be announced, and the wait before the flush does not announce them.
\<close>

theorem produce_flush_hangs:
  assumes "produce_ready p dma queue prp oth dev" "unat (p_queue_no p) < length queues" "queues ! unat (p_queue_no p) = queue"
    and "p_write p" "n_transfers p dma + 1 = q_n (u_queue queue)"
  shows "produce_commands ndebug oth dev p queues w = None"
proof -
  note rd = produce_readyD [OF assms(1)] and sp = split_okD [OF produce_readyD(4) [OF assms(1)]]
  let ?s0 = "\<lparr>po_offset = 0, po_transfer = dk_max_data_size (p_disk p) div d_page_size dma, po_queue = queue, po_world = w\<rparr>"
  from producing.all_states [OF produce_inv_start [OF assms(1), of w], of ndebug] obtain s where
    s: "produce_loop ndebug oth dev p dma (producer_pages p dma) ?s0 = Some s" "produce_inv p dma queue prp oth dev (n_transfers p dma) s" by blast
  from s(2) assms(5) have st: "issued prp (u_queue queue) (cmd_pages p dma) (cmd_request p dma) (n_transfers p dma) (u_queue (po_queue s)) (w_mem (po_world s))"
    and un: "submitted (u_queue (po_queue s)) = 0" "in_flight (u_queue (po_queue s)) = n_transfers p dma" by (simp_all add: produce_inv_def)
  have "flush_wait oth (u_queue (po_queue s)) (po_world s) = None"
    using flush_wait_stuck [OF issuedD(1) [OF st] rd(8) un(1)] un(2) assms(5) issuedD(5) [OF st] by simp
  then show ?thesis
    using s(1) assms(2-4) sp(2) unfolding produce_commands_def rd(10) by (simp add: produce_flush_def)
qed

lemma transfer_division:
  assumes "transfer_producers d buffer n_queues sz wr = Some ps"
    and "dk_page_size d = 2 ^ a" "dk_block_size d = 2 ^ c" "c \<le> a" "a < 64" "unat sz + 2 ^ a \<le> 2 ^ 64" "d_page_size dma = 2 ^ a"
  shows "concat (map (\<lambda>p. [unat (p_start_block p)..<unat (p_start_block p) + unat (p_n_blocks p)]) ps) = [0..<n_chunks (2 ^ c) (unat sz)]"
    "concat (map (\<lambda>p. [unat (page_base p dma)..<unat (page_base p dma) + unat (producer_pages p dma)]) ps) = [0..<n_chunks (2 ^ a) (unat sz)]"
    "map p_queue_no ps = map of_nat [1..<Suc (unat n_queues)]"
    "\<And>p. p \<in> set ps \<Longrightarrow> unat (p_start_block p) * 2 ^ c = unat (page_base p dma) * 2 ^ a \<and> p_disk p = d \<and> p_write p = wr \<and> p_buffer p = buffer"
proof -
  let ?n = "unat n_queues" and ?blocks = "n_chunks (2 ^ c) (unat sz)" and ?pages = "n_chunks (2 ^ a) (unat sz)"
  let ?nb = "NVM_PAGE_ALIGN sz (2 ^ c) div 2 ^ c :: u64" and ?ppq = "NVM_PAGE_ALIGN sz (2 ^ a) div 2 ^ a div ucast n_queues :: u64"
  define f where "f = (\<lambda>j. if j = ?n then ?blocks else ?pages div ?n * j * 2 ^ (a - c))"
  define g where "g = (\<lambda>j. if j = ?n then ?pages else ?pages div ?n * j)"
  define pr where "pr = (\<lambda>i. transfer_producer d buffer n_queues wr ?nb ?ppq (of_nat i))"
  have ps: "ps = map pr [0..<?n]" and n: "?n \<noteq> 0"
    using assms(1) unfolding transfer_producers_def assms(2,3) pr_def by (auto simp: unat_eq_zero split: if_splits)
  have "(2 :: nat) ^ c \<le> 2 ^ a" using assms(4) by simp
  then have "unat sz + 2 ^ c \<le> 2 ^ 64" using assms(6) by linarith
  from align_div [OF _ this] have w1: "unat ?nb = ?blocks" using assms(4,5) by simp
  have w2: "unat ?ppq = ?pages div ?n"
    by (subst unat_div) (simp add: align_div [OF assms(5,6)] unat_ucast_up)
  have "pr i = transfer_producer d buffer n_queues wr ?nb ?ppq (of_nat i)" for i by (simp add: pr_def)
  note num = transfer_producer_numbers [OF assms(2-7) refl refl w1 w2 _ this f_def g_def]
  have z: "f 0 = 0" "g 0 = 0" "f ?n = ?blocks" "g ?n = ?pages" using n by (simp_all add: f_def g_def)
  have "map (\<lambda>p. [unat (p_start_block p)..<unat (p_start_block p) + unat (p_n_blocks p)]) ps = map (\<lambda>i. [f i..<f (Suc i)]) [0..<?n]"
    unfolding ps map_map by (rule map_cong [OF refl]) (use num(1,2) in fastforce)
  then have r1: "concat (map (\<lambda>p. [unat (p_start_block p)..<unat (p_start_block p) + unat (p_n_blocks p)]) ps) = [0..<?blocks]"
    using concat_upt [of ?n f] num(3) z by simp
  have "map (\<lambda>p. [unat (page_base p dma)..<unat (page_base p dma) + unat (producer_pages p dma)]) ps = map (\<lambda>i. [g i..<g (Suc i)]) [0..<?n]"
    unfolding ps map_map by (rule map_cong [OF refl]) (use num(4,5) in fastforce)
  then have r2: "concat (map (\<lambda>p. [unat (page_base p dma)..<unat (page_base p dma) + unat (producer_pages p dma)]) ps) = [0..<?pages]"
    using concat_upt [of ?n g] num(6) z by simp
  have "map p_queue_no ps = map (\<lambda>i. of_nat (Suc i)) [0..<?n]" unfolding ps map_map by (rule map_cong [OF refl]) (simp add: num(7))
  then have r3: "map p_queue_no ps = map of_nat [1..<Suc ?n]" by (simp add: map_Suc_upt [symmetric] comp_def del: upt_Suc)
  show "concat (map (\<lambda>p. [unat (p_start_block p)..<unat (p_start_block p) + unat (p_n_blocks p)]) ps) = [0..<?blocks]"
    "concat (map (\<lambda>p. [unat (page_base p dma)..<unat (page_base p dma) + unat (producer_pages p dma)]) ps) = [0..<?pages]"
    "map p_queue_no ps = map of_nat [1..<Suc ?n]" by (rule r1, rule r2, rule r3)
  fix p assume "p \<in> set ps"
  then obtain i where i: "i < ?n" "p = pr i" unfolding ps by auto
  have "(2 :: nat) ^ a = 2 ^ (a - c) * 2 ^ c" using assms(4) by (simp flip: power_add)
  then show "unat (p_start_block p) * 2 ^ c = unat (page_base p dma) * 2 ^ a \<and> p_disk p = d \<and> p_write p = wr \<and> p_buffer p = buffer"
    using i num(1,4) [OF i(1)] by (simp add: f_def g_def) (simp add: pr_def transfer_producer_def Let_def)
qed

text \<open>
  C10: The threads of a transfer divide it without gaps and without overlap: the blocks they are given are,
  in order, the blocks of the file, and the pages they transfer are, in order, the pages of the buffer.
  The last thread gets what is left.  Each has a submission queue of its own.
\<close>

theorem transfer_partition:
  assumes "transfer_producers d buffer n_queues sz wr = Some ps"
    and "dk_page_size d = 2 ^ a" "dk_block_size d = 2 ^ c" "c \<le> a" "a < 64" "unat sz + 2 ^ a \<le> 2 ^ 64" "d_page_size dma = 2 ^ a"
  shows "concat (map (\<lambda>p. [unat (p_start_block p)..<unat (p_start_block p) + unat (p_n_blocks p)]) ps) = [0..<n_chunks (2 ^ c) (unat sz)]
    \<and> concat (map (\<lambda>p. [unat (page_base p dma)..<unat (page_base p dma) + unat (producer_pages p dma)]) ps) = [0..<n_chunks (2 ^ a) (unat sz)]
    \<and> map p_queue_no ps = map of_nat [1..<Suc (unat n_queues)]"
  by (intro conjI transfer_division [OF assms])

section \<open>Examples\<close>

text \<open>A disk with blocks of 512 bytes, one page per command, a buffer of three pages and the queue of four entries.\<close>

definition demo_container :: "nvm_dma \<Rightarrow> map_descriptor dma" where
  "demo_container d = \<lparr>dc_self = 0, dc_map = \<lparr>md_self = 0, md_dma = \<lparr>mp_vaddr = d_vaddr d, mp_page_size = d_page_size d, mp_n_pages = 1\<rparr>,
     md_device = \<lparr>v_sd = 0, v_device_id = 1, v_device = 0\<rparr>, md_va = VA_MAP_INIT, md_io = IO_MAP_INIT, md_segment = None\<rparr>,
     dc_release = None, dc_handle = d\<rparr>"

definition file_window :: nvm_dma where
  "file_window = \<lparr>d_vaddr = 0x40000, d_page_size = 0x1000, d_n_ioaddrs = 3, d_ioaddrs = [0x50000, 0x51000, 0x52000]\<rparr>"

definition file_disk :: disk where
  "file_disk = \<lparr>dk_page_size = 0x1000, dk_max_data_size = 0x1000, dk_ns_id = 1, dk_block_size = 512\<rparr>"

definition file_buffer :: buffer where
  "file_buffer = \<lparr>b_id = 7, b_adapter = 0, b_dma = Some (demo_container file_window)\<rparr>"

definition file_queue :: queue where
  "file_queue = \<lparr>u_qmem = \<lparr>b_id = 8, b_adapter = 0, b_dma = Some (demo_container demo_sq_mem)\<rparr>, u_queue = demo_sq, u_counter = 0\<rparr>"

definition file_writer :: "u64 \<Rightarrow> producer" where
  "file_writer n = \<lparr>p_write = True, p_buffer = file_buffer, p_queue_no = 1, p_disk = file_disk, p_start_block = 0, p_n_blocks = n\<rparr>"

lemma file_writer_numbers:
  "page_base (file_writer n) file_window = 0" "max_transfer (file_writer n) file_window = 1"
  "producer_pages (file_writer 16) file_window = 2" "producer_pages (file_writer 24) file_window = 3"
  "n_transfers (file_writer 16) file_window = 2" "n_transfers (file_writer 24) file_window = 3"
  by (simp_all add: file_writer_def file_disk_def file_window_def producer_pages_def NVM_BLOCK_TO_PAGE_def NVM_PAGE_ALIGN_def
      NVM_PAGE_MASK_def n_transfers_def n_chunks_def producer_ios_def)

lemma file_writer_ready:
  assumes "producer_pages (file_writer n) file_window \<le> 3"
  shows "produce_ready (file_writer n) file_window file_queue demo_sq_mem eager (\<lambda>_ m. m)"
proof -
  have T: "unat (producer_pages (file_writer n) file_window) \<le> 3" using assms by (simp add: word_le_nat_alt)
  have l: "length (producer_ios (file_writer n) file_window) \<le> 3" by (simp add: producer_ios_def file_window_def)
  have "split_ok 0x1000 512 1 (length (producer_ios (file_writer n) file_window))" using l by (simp add: split_ok_def)
  moreover have "io_env demo_sq_mem demo_sq eager (\<lambda>_ m. m)" using demo_io_window demo_region_db eager_relied by (simp add: io_env_def)
  ultimately show ?thesis
    using T demo_sq_live file_writer_numbers(1,2) [of n] unfolding produce_ready_def
    by (simp add: file_writer_def file_buffer_def file_queue_def demo_container_def file_window_def file_disk_def demo_sq_mem_def)
qed

text \<open>A thread that writes the three pages with one command, which so needs a PRP list.\<close>

definition list_writer :: producer where
  "list_writer = (file_writer 24)\<lparr>p_disk := file_disk\<lparr>dk_max_data_size := 0x3000\<rparr>\<rparr>"

lemma list_writer_numbers:
  "page_base list_writer file_window = 0" "max_transfer list_writer file_window = 3" "producer_pages list_writer file_window = 3"
  "producer_ios list_writer file_window = [0x50000, 0x51000, 0x52000]" "n_transfers list_writer file_window = 1"
  by (simp_all add: list_writer_def file_writer_def file_disk_def file_window_def producer_pages_def NVM_BLOCK_TO_PAGE_def NVM_PAGE_ALIGN_def
      NVM_PAGE_MASK_def n_transfers_def n_chunks_def producer_ios_def)

lemma list_writer_ready: "produce_ready list_writer file_window file_queue demo_sq_mem eager (\<lambda>_ m. m)"
proof -
  have "split_ok 0x1000 512 3 (Suc (Suc (Suc 0)))" by (simp add: split_ok_def)
  moreover have "io_env demo_sq_mem demo_sq eager (\<lambda>_ m. m)" using demo_io_window demo_region_db eager_relied by (simp add: io_env_def)
  ultimately show ?thesis
    using demo_sq_live unfolding produce_ready_def list_writer_numbers
    by (simp add: list_writer_def file_writer_def file_buffer_def file_queue_def demo_container_def file_window_def file_disk_def demo_sq_mem_def)
qed

theorem produce_commands_issues_witness:
  "\<exists>queue' w'. produce_commands True eager (\<lambda>_ m. m) list_writer [file_queue, file_queue] idle_world = Some ([file_queue, queue'], w')
     \<and> u_counter queue' = 2
     \<and> (in_flight (u_queue queue') < 2
        \<or> bus_fetch demo_iommu (w_mem w') (slot_of demo_sq 0) 3 = (1, 1, 0, 23, [0x50000, 0x51000, 0x52000]))"
proof -
  let ?p = "list_writer"
  have q: "unat (p_queue_no ?p) < length [file_queue, file_queue]" "[file_queue, file_queue] ! unat (p_queue_no ?p) = file_queue"
    by (simp_all add: list_writer_def file_writer_def)
  have N: "1 = n_transfers ?p file_window" "p_write ?p \<longrightarrow> 1 + 1 < q_n (u_queue file_queue)" "2 = (if p_write ?p then 1 + 1 else 1)"
    by (simp_all add: list_writer_numbers file_queue_def demo_sq_fields) (simp add: list_writer_def file_writer_def)
  from produce_commands_issues [OF list_writer_ready q demo_window_maps N, of True idle_world] obtain queue' w' where
    r: "produce_commands True eager (\<lambda>_ m. m) ?p [file_queue, file_queue] idle_world = Some ([file_queue, file_queue][unat (p_queue_no ?p) := queue'], w')"
      "u_counter queue' = of_nat 2"
    and b: "\<forall>j < 2. 2 - j \<le> in_flight (u_queue queue') \<longrightarrow>
      bus_fetch demo_iommu (w_mem w') (slot_of (u_queue file_queue) j) (cmd_pages ?p file_window j) = cmd_request ?p file_window j" by blast
  have c: "cmd_pages ?p file_window 0 = 3" "u_queue file_queue = demo_sq" "unat (p_queue_no ?p) = 1"
    by (simp_all add: cmd_pages_def list_writer_numbers chunk_def file_queue_def) (simp add: list_writer_def file_writer_def)
  have "cmd_request ?p file_window 0 = (1, 1, 0, 23, [0x50000, 0x51000, 0x52000])"
    by (simp add: cmd_request_def list_writer_numbers io_request_def chunk_def rw_opcode_def)
       (simp add: list_writer_def file_writer_def file_disk_def file_window_def)
  with b [rule_format, of 0] c have "in_flight (u_queue queue') < 2
      \<or> bus_fetch demo_iommu (w_mem w') (slot_of demo_sq 0) 3 = (1, 1, 0, 23, [0x50000, 0x51000, 0x52000])" by (simp add: not_less [symmetric]) blast
  with r c(3) show ?thesis by auto
qed

theorem produce_flush_hangs_witness:
  "produce_commands True eager (\<lambda>_ m. m) (file_writer 24) [file_queue, file_queue] idle_world = None"
proof (rule produce_flush_hangs)
  show "produce_ready (file_writer 24) file_window file_queue demo_sq_mem eager (\<lambda>_ m. m)"
    by (rule file_writer_ready) (simp add: file_writer_numbers)
  show "unat (p_queue_no (file_writer 24)) < length [file_queue, file_queue]" "p_write (file_writer 24)"
    "[file_queue, file_queue] ! unat (p_queue_no (file_writer 24)) = file_queue" by (simp_all add: file_writer_def)
  show "n_transfers (file_writer 24) file_window + 1 = q_n (u_queue file_queue)"
    by (simp add: file_writer_numbers file_queue_def demo_sq_fields)
qed

theorem transfer_partition_witness:
  "\<exists>ps. transfer_producers file_disk file_buffer 2 0x2800 True = Some ps
     \<and> concat (map (\<lambda>p. [unat (p_start_block p)..<unat (p_start_block p) + unat (p_n_blocks p)]) ps) = [0..<20]
     \<and> map p_queue_no ps = [1, 2]"
proof -
  obtain ps where ps: "transfer_producers file_disk file_buffer 2 0x2800 True = Some ps"
    by (simp add: transfer_producers_def file_disk_def)
  have d: "dk_page_size file_disk = 2 ^ 12" "dk_block_size file_disk = 2 ^ 9" "(9 :: nat) \<le> 12" "(12 :: nat) < 64"
    "unat (0x2800 :: u64) + 2 ^ 12 \<le> 2 ^ 64" "d_page_size file_window = 2 ^ 12" by (simp_all add: file_disk_def file_window_def)
  have "n_chunks (2 ^ 9) (unat (0x2800 :: u64)) = 20" "[1..<Suc (unat (2 :: u16))] = [1, 2]" by (simp_all add: n_chunks_def upt_rec)
  with transfer_partition [OF ps d] ps show ?thesis by auto
qed

end
