(* ===== verification/Prog_Integrity.thy ===== *)
theory Prog_Integrity
  imports Prog_Rpc Io_Transfer
begin

unbundle bit_operations_syntax

text \<open>
  The program of \<open>examples/integrity/integrity.c\<close> around the transfer: what it asks the controller about itself, the
  queues it makes and removes, and the start of its main function.  What the threads do then is in
  \<open>Io_Transfer\<close>.
\<close>

section \<open>Identifying\<close>

definition identify_controller ::
  "device \<Rightarrow> 'b remote_stub \<Rightarrow> u64 \<Rightarrow> nvm_ctrl_info \<Rightarrow> ('h, 'b) nvm_admin_reference \<Rightarrow> arguments \<Rightarrow> disk \<Rightarrow> os \<Rightarrow> world
     \<Rightarrow> (int \<times> disk \<times> string list \<times> ('h, 'b) nvm_admin_reference \<times> os \<times> world) option" where
  "identify_controller dev remote cpl_ptr junk ref args disk s w =
     do { ctrl \<leftarrow> nvm_ctrl_from_aq_ref (Some ref);
          (status, window, s) \<leftarrow> nvm_dis_dma_create ctrl (ar_adapter args) (ar_segment_id args) (c_page_size (k_handle ctrl)) s;
          if \<not> nvm_ok status then Some (status, disk, [], ref, s, w)
          else
            do { d \<leftarrow> map_option dc_handle window;
                 io \<leftarrow> first_ioaddr d;
                 (status, info, ref, s, w) \<leftarrow> nvm_admin_ctrl_info dev remote cpl_ptr ref (Some junk) (d_vaddr d) io s w;
                 s \<leftarrow> nvm_dma_unmap window s;
                 info \<leftarrow> info;
                 Some (status, disk\<lparr>dk_page_size := i_page_size info, dk_max_data_size := i_max_data_size info\<rparr>,
                       print_ctrl_info info, ref, s, w) } }"

definition identify_namespace ::
  "device \<Rightarrow> 'b remote_stub \<Rightarrow> u64 \<Rightarrow> nvm_ns_info \<Rightarrow> ('h, 'b) nvm_admin_reference \<Rightarrow> arguments \<Rightarrow> disk \<Rightarrow> os \<Rightarrow> world
     \<Rightarrow> (int \<times> disk \<times> ('h, 'b) nvm_admin_reference \<times> os \<times> world) option" where
  "identify_namespace dev remote cpl_ptr junk ref args disk s w =
     do { ctrl \<leftarrow> nvm_ctrl_from_aq_ref (Some ref);
          (status, window, s) \<leftarrow> nvm_dis_dma_create ctrl (ar_adapter args) (ar_segment_id args) (c_page_size (k_handle ctrl)) s;
          if \<not> nvm_ok status then Some (status, disk, ref, s, w)
          else
            do { d \<leftarrow> map_option dc_handle window;
                 io \<leftarrow> first_ioaddr d;
                 (status, info, ref, s, w) \<leftarrow> nvm_admin_ns_info dev remote cpl_ptr ref (Some junk) (ar_ns_id args) (d_vaddr d) io s w;
                 info \<leftarrow> info;
                 let disk = disk\<lparr>dk_ns_id := n_ns_id info, dk_block_size := n_lba_data_size info\<rparr>;
                 s \<leftarrow> nvm_dma_unmap window s;
                 Some (status, disk, ref, s, w) } }"

section \<open>Queues\<close>

text \<open>The array of queues is a heap block and its elements; \<open>calloc\<close> clears them.\<close>

definition zero_queue :: queue where
  "zero_queue = \<lparr>u_qmem = \<lparr>b_id = 0, b_adapter = 0, b_dma = None\<rparr>,
     u_queue = \<lparr>q_no = 0, q_max_entries = 0, q_entry_size = 0, q_head = 0, q_tail = 0, q_phase = 0, q_last = 0, q_db = 0,
       q_vaddr = 0, q_ioaddr = 0\<rparr>, u_counter = 0\<rparr>"

text \<open>
  The index of the loop has 16 bits, and its bound \<open>n_queues + 1\<close> is an \<open>int\<close>: for 65535 queues it would
  wrap around and never end.
\<close>

partial_function (option) remove_loop :: "u16 \<Rightarrow> u16 \<Rightarrow> queue list \<Rightarrow> os \<Rightarrow> os option" where
  "remove_loop i n_queues queues s =
     (if unat i < unat n_queues + 1 then
        if length queues \<le> unat i then None
        else do { s \<leftarrow> remove_queue (queues ! unat i) s; remove_loop (i + 1) n_queues queues s }
      else Some s)"

definition remove_queues :: "(nat \<times> queue list) option \<Rightarrow> u16 \<Rightarrow> os \<Rightarrow> os option" where
  "remove_queues queues n_queues s =
     (case queues of
        None \<Rightarrow> Some s
      | Some (p, qs) \<Rightarrow> do { s \<leftarrow> remove_loop 0 n_queues qs s; Some (free (Some p) s) })"

fun create_sqs ::
  "device \<Rightarrow> 'b remote_stub \<Rightarrow> u64 \<Rightarrow> nat list \<Rightarrow> nat \<Rightarrow> queue list \<Rightarrow> ('h, 'b) nvm_admin_reference \<Rightarrow> arguments \<Rightarrow> os \<Rightarrow> world
     \<Rightarrow> (int \<times> (nat \<times> queue list) option \<times> arguments \<times> ('h, 'b) nvm_admin_reference \<times> os \<times> world) option" where
  "create_sqs dev remote cpl_ptr [] p q ref args s w = Some (0, Some (p, q), args, ref, s, w)"
| "create_sqs dev remote cpl_ptr (i # is) p q ref args s w =
     do { (status, sq, ref, s, w) \<leftarrow>
            create_queue dev remote cpl_ptr (q ! (i + 1)) ref (Some (q ! 0)) (of_nat i + 1) (ar_adapter args) (ar_segment_id args) s w;
          let args = args\<lparr>ar_segment_id := ar_segment_id args + 1\<rparr>;
          let q = q[i + 1 := sq];
          if status \<noteq> 0
          then do { s \<leftarrow> remove_queues (Some (p, q)) (of_nat i) s; Some (status, None, args, ref, s, w) }
          else create_sqs dev remote cpl_ptr is p q ref args s w }"

definition request_queues ::
  "device \<Rightarrow> 'b remote_stub \<Rightarrow> u64 \<Rightarrow> ('h, 'b) nvm_admin_reference \<Rightarrow> arguments \<Rightarrow> os \<Rightarrow> world
     \<Rightarrow> (int \<times> (nat \<times> queue list) option \<times> arguments \<times> ('h, 'b) nvm_admin_reference \<times> os \<times> world) option" where
  "request_queues dev remote cpl_ptr ref args s w =
     do { (status, n_cqs, n_sqs, ref, s, w) \<leftarrow> nvm_admin_request_num_queues dev remote cpl_ptr ref 1 (ar_n_queues args) s w;
          if \<not> nvm_ok status then Some (status, None, args, ref, s, w)
          else if n_sqs < ar_n_queues args then Some (ENOMEM, None, args, ref, s, w)
          else
            (case malloc s of
               (None, s) \<Rightarrow> Some (ENOMEM, None, args, ref, s, w)
             | (Some p, s) \<Rightarrow>
                 do { let q = replicate (unat (ar_n_queues args) + 1) zero_queue;
                      (status, cq, ref, s, w) \<leftarrow>
                        create_queue dev remote cpl_ptr (q ! 0) ref None 1 (ar_adapter args) (ar_segment_id args) s w;
                      let args = args\<lparr>ar_segment_id := ar_segment_id args + 1\<rparr>;
                      if status \<noteq> 0 then Some (status, None, args, ref, free (Some p) s, w)
                      else create_sqs dev remote cpl_ptr [0..<unat (ar_n_queues args)] p (q[0 := cq]) ref args s w }) }"

section \<open>Before the transfer\<close>

text \<open>
  What the main function has when it comes to the transfer, and what it gives back at its label \<open>out\<close>.  \<open>ftell\<close>
  is the size of the file, which is an argument.
\<close>

record session =
  ss_args :: arguments
  ss_ctrl :: controller
  ss_aq_dma :: "map_descriptor dma option"
  ss_aq_ref :: aq_ref
  ss_buffer :: buffer
  ss_disk :: disk
  ss_queues :: "(nat \<times> queue list) option"
  ss_file_size :: u64
  ss_fp :: nat

definition integrity_out :: "session \<Rightarrow> os \<Rightarrow> os option" where
  "integrity_out x s =
     do { s \<leftarrow> remove_queues (ss_queues x) (ar_n_queues (ss_args x)) s;
          s \<leftarrow> nvm_aq_destroy (Some (ss_aq_ref x)) s;
          s \<leftarrow> nvm_dma_unmap (ss_aq_dma x) s;
          s \<leftarrow> remove_buffer (ss_buffer x) s;
          s \<leftarrow> nvm_ctrl_free (Some (ss_ctrl x)) s;
          Some (SCITerminate (release Fd (ss_fp x) s)) }"

text \<open>From the buffer on; \<open>Inl\<close> is the exit status.\<close>

definition integrity_prepare ::
  "device \<Rightarrow> binding remote_stub \<Rightarrow> u64 \<Rightarrow> nvm_ctrl_info \<Rightarrow> nvm_ns_info \<Rightarrow> session \<Rightarrow> os \<Rightarrow> world \<Rightarrow> ((int + session) \<times> os \<times> world) option" where
  "integrity_prepare dev remote cpl_ptr junk_info junk_ns x s w =
     do { let leave = (\<lambda>status x s w. do { s \<leftarrow> integrity_out x s; Some (Inl status :: int + session, s, w) });
          (status, disk, _, ref, s, w) \<leftarrow> identify_controller dev remote cpl_ptr junk_info (ss_aq_ref x) (ss_args x) (ss_disk x) s w;
          let x = x\<lparr>ss_aq_ref := ref, ss_disk := disk\<rparr>;
          if status \<noteq> 0 then leave status x s w
          else
            do { (status, disk, ref, s, w) \<leftarrow> identify_namespace dev remote cpl_ptr junk_ns (ss_aq_ref x) (ss_args x) (ss_disk x) s w;
                 let x = x\<lparr>ss_aq_ref := ref, ss_disk := disk\<rparr>;
                 if status \<noteq> 0 then leave status x s w
                 else if dk_block_size disk = 0 then None
                 else
                   do { let n_blocks = NVM_PAGE_ALIGN (ss_file_size x) (dk_block_size disk) div dk_block_size disk;
                        let args = ss_args x;
                        let args = (if ucast (ar_n_queues args) > n_blocks then args\<lparr>ar_n_queues := ucast n_blocks\<rparr> else args);
                        (status, queues, args, ref, s, w) \<leftarrow> request_queues dev remote cpl_ptr (ss_aq_ref x) args s w;
                        let x = x\<lparr>ss_args := args, ss_aq_ref := ref, ss_queues := queues\<rparr>;
                        if status \<noteq> 0 then leave status x s w else Some (Inr x, s, w) } } }"

definition integrity_setup ::
  "device \<Rightarrow> binding remote_stub \<Rightarrow> u64 \<Rightarrow> int \<Rightarrow> nvm_ctrl_info \<Rightarrow> nvm_ns_info \<Rightarrow> u64 \<Rightarrow> disk \<Rightarrow> buffer \<Rightarrow> bool \<Rightarrow> int \<Rightarrow> (nat \<Rightarrow> u64) \<Rightarrow> u64 \<Rightarrow> string list
     \<Rightarrow> os \<Rightarrow> world \<Rightarrow> ((int + session) \<times> os \<times> world) option" where
  "integrity_setup dev remote cpl_ptr junk junk_info junk_ns num disk buffer ndebug sysconf segment_size ftell argv s w =
     (case parse_arguments num argv of
        Inl e \<Rightarrow> Some (Inl e, s, w)
      | Inr args \<Rightarrow>
          case acquire Fd s of (err, fp, s) \<Rightarrow>
            if err \<noteq> 0 then Some (Inl 2, s, w)
            else
              let file_size = (if 0 < ar_read_bytes args then ar_read_bytes args else ftell) in
              if ar_read_bytes args = 0 \<and> file_size = 0 then Some (Inl 2, release Fd fp s, w)
              else
                case SCIInitialize s of (err, s) \<Rightarrow>
                  do { (status, ctrl, s) \<leftarrow>
                         nvm_dis_ctrl_init ndebug sysconf (w_mem w) segment_size (ar_device_id args) (ar_adapter args) s;
                       if status \<noteq> 0 then Some (Inl 1, release Fd fp s, w)
                       else
                         do { c \<leftarrow> ctrl;
                              (status, aq_dma, s) \<leftarrow>
                                nvm_dis_dma_create c (ar_adapter args) (ar_segment_id args) (c_page_size (k_handle c) * 2) s;
                              let args = args\<lparr>ar_segment_id := ar_segment_id args + 1\<rparr>;
                              if status \<noteq> 0 then do { s \<leftarrow> nvm_ctrl_free ctrl s; Some (Inl 1, release Fd fp s, w) }
                              else
                                do { d \<leftarrow> map_option dc_handle aq_dma;
                                     (status, aq_ref, s, w) \<leftarrow> nvm_aq_create dev junk c d s w;
                                     if status \<noteq> 0
                                     then do { s \<leftarrow> nvm_dma_unmap aq_dma s; s \<leftarrow> nvm_ctrl_free ctrl s; Some (Inl 1, release Fd fp s, w) }
                                     else
                                       do { ref \<leftarrow> (aq_ref :: aq_ref option);
                                            (status, buffer, s, w) \<leftarrow>
                                              create_buffer ref (NVM_CTRL_ALIGN (k_handle c) file_size) (ar_adapter args) (ar_segment_id args) buffer s w;
                                            let args = args\<lparr>ar_segment_id := ar_segment_id args + 1\<rparr>;
                                            if status \<noteq> 0
                                            then do { s \<leftarrow> nvm_aq_destroy (Some ref) s; s \<leftarrow> nvm_dma_unmap aq_dma s; s \<leftarrow> nvm_ctrl_free ctrl s;
                                                      Some (Inl 1, release Fd fp s, w) }
                                            else
                                              integrity_prepare dev remote cpl_ptr junk_info junk_ns
                                                \<lparr>ss_args = args, ss_ctrl = c, ss_aq_dma = aq_dma, ss_aq_ref = ref, ss_buffer = buffer, ss_disk = disk,
                                                 ss_queues = None, ss_file_size = file_size, ss_fp = fp\<rparr> s w } } } })"

section \<open>Removing queues\<close>

lemma remove_loop_put_all:
  assumes "n_queues < 0xffff" "unat n_queues < length qs" "unat i \<le> unat n_queues + 1"
  shows "remove_loop i n_queues qs s = put_all remove_queue (drop (unat i) (take (unat n_queues + 1) qs)) s"
  using assms(3)
proof (induction "unat n_queues + 1 - unat i" arbitrary: i s)
  case 0
  then show ?case by (simp add: remove_loop.simps)
next
  case (Suc m)
  have n: "unat n_queues < 0xffff" using assms(1) by (simp add: word_less_nat_alt)
  from Suc have i: "unat i < unat n_queues + 1" by linarith
  then have i1: "unat (i + 1) = unat i + 1" using n by (simp add: unat_word_ariths)
  have "drop (unat i) (take (unat n_queues + 1) qs) = qs ! unat i # drop (unat i + 1) (take (unat n_queues + 1) qs)"
    using i assms(2) by (subst Cons_nth_drop_Suc [symmetric]) (simp_all add: min_def)
  moreover have "remove_loop (i + 1) n_queues qs s' = put_all remove_queue (drop (unat i + 1) (take (unat n_queues + 1) qs)) s'" for s'
    using Suc i i1 Suc.hyps(1) [of "i + 1" s'] by simp
  ultimately show ?case using i assms(2) by (subst remove_loop.simps) (auto split: option.splits Option.bind_splits)
qed

lemma remove_loop_wraps:
  assumes "remove_loop i n_queues qs s = Some s'"
  shows "n_queues \<noteq> 0xffff"
proof (rule remove_loop.raw_induct [OF _ assms, where P = "\<lambda>i n_queues qs s s'. n_queues \<noteq> 0xffff"])
  fix f :: "u16 \<Rightarrow> u16 \<Rightarrow> queue list \<Rightarrow> os \<Rightarrow> os option" and i n_queues :: u16 and qs s s'
  assume f: "\<And>i n_queues qs s s'. f i n_queues qs s = Some s' \<Longrightarrow> n_queues \<noteq> 0xffff"
    and b: "(if unat i < unat n_queues + 1 then if length qs \<le> unat i then None
      else do { s \<leftarrow> remove_queue (qs ! unat i) s; f (i + 1) n_queues qs s } else Some s) = Some s'"
  have "unat i < 65536" using unsigned_less [of i] by simp
  with b show "n_queues \<noteq> 0xffff" by (auto split: if_splits Option.bind_splits dest: f)
qed

section \<open>Queues that are requested are given back\<close>

text \<open>
  A reference to local admin queues in good order.  Commands through it return, hold nothing and leave it in good
  order, as long as the locks of the process work.
\<close>

definition local_ok :: "('h, 'b) nvm_admin_reference \<Rightarrow> bool" where
  "local_ok ref \<longleftrightarrow> f_stub ref = Some Execute_command \<and> (\<exists>a. f_data ref = Some (Admin_queues a) \<and> admin_ok a)
     \<and> c_page_size (k_handle (f_ctrl ref)) \<noteq> 0"

lemma local_rpc:
  assumes "local_ok ref" "length cmd = 16"
  obtains e ref' cmd' cpl' s' w' where "nvm_raw_rpc dev remote ref cmd cpl ptr s w = Some (e, ref', cmd', cpl', s', w')"
    "gains s s' {#}" "local_ok ref'"
proof -
  from assms(1) obtain a where a: "f_stub ref = Some Execute_command" "f_data ref = Some (Admin_queues a)" "admin_ok a"
    unfolding local_ok_def by blast
  from execute_command_admin_ok [OF a(3) assms(2)] obtain err a' cpl' w' where
    x: "execute_command dev a cmd cpl w = Some (err, a', cpl', w')" "admin_ok a'" by blast
  from raw_rpc_local [OF a(1,2) x(1)] obtain ref' cpl'' s' w'' e where
    r: "nvm_raw_rpc dev remote ref cmd cpl ptr s w = Some (e, ref', cmd, cpl'', s', w'')" "gains s s' {#}"
      "ref' = ref \<or> ref' = ref\<lparr>f_data := Some (Admin_queues a')\<rparr>" by blast
  have "local_ok ref'" using r(3) assms(1) x(2) by (auto simp: local_ok_def)
  with r(1,2) that show thesis by blast
qed

lemma local_queue_create:
  assumes "local_ok ref"
  shows "\<exists>e q' ref' s' w'. nvm_admin_cq_create dev remote ptr ref q no va io s w = Some (e, q', ref', s', w') \<and> gains s s' {#} \<and> local_ok ref'"
    "\<exists>e q' ref' s' w'. nvm_admin_sq_create dev remote ptr ref q cq no va io s w = Some (e, q', ref', s', w') \<and> gains s s' {#} \<and> local_ok ref'"
proof -
  let ?q = "\<lambda>b. nvm_queue_clear (k_handle (f_ctrl ref)) b no va io"
  obtain e ref' c cpl s' w' where "nvm_raw_rpc dev remote ref (nvm_admin_cq_create_cmd zero_cmd (?q True)) zero_cpl ptr s w = Some (e, ref', c, cpl, s', w')"
    "gains s s' {#}" "local_ok ref'" by (rule local_rpc [OF assms admin_cmd_length(1)])
  with assms show "\<exists>e q' ref' s' w'. nvm_admin_cq_create dev remote ptr ref q no va io s w = Some (e, q', ref', s', w') \<and> gains s s' {#} \<and> local_ok ref'"
    by (simp add: nvm_admin_cq_create_def Let_def)
  obtain e ref' c cpl s' w' where "nvm_raw_rpc dev remote ref (nvm_admin_sq_create_cmd zero_cmd (?q False) cq) zero_cpl ptr s w = Some (e, ref', c, cpl, s', w')"
    "gains s s' {#}" "local_ok ref'" by (rule local_rpc [OF assms admin_cmd_length(2)])
  with assms show "\<exists>e q' ref' s' w'. nvm_admin_sq_create dev remote ptr ref q cq no va io s w = Some (e, q', ref', s', w') \<and> gains s s' {#} \<and> local_ok ref'"
    by (simp add: nvm_admin_sq_create_def Let_def)
qed

lemma local_request:
  assumes "local_ok ref"
  shows "\<exists>e a' b' ref' s' w'. nvm_admin_request_num_queues dev remote ptr ref a b s w = Some (e, a', b', ref', s', w') \<and> gains s s' {#} \<and> local_ok ref'"
proof -
  obtain e ref' c cpl s' w' where "nvm_raw_rpc dev remote ref (nvm_admin_current_num_queues_cmd zero_cmd True a b) zero_cpl ptr s w = Some (e, ref', c, cpl, s', w')"
    "gains s s' {#}" "local_ok ref'" by (rule local_rpc [OF assms admin_cmd_length(3)])
  with assms show ?thesis by (simp add: nvm_admin_request_num_queues_def Let_def)
qed

abbreviation queue_dma :: "queue \<Rightarrow> map_descriptor dma option" where
  "queue_dma q \<equiv> b_dma (u_qmem q)"

abbreviation own_window :: "map_descriptor dma option \<Rightarrow> bool" where
  "own_window h \<equiv> dis_valid remove_local_segment own_local h"

lemma create_buffer_spec:
  assumes "sci_releases s" "local_ok ref"
  obtains (made) b' s' w' L where "create_buffer ref sz adapter ident b s w = Some (0, b', s', w')" "descs L"
      "gains s s' (L + dis_owned (b_dma b'))" "own_window (b_dma b')" "\<exists>c. b_dma b' = Some c \<and> d_ioaddrs (dc_handle c) \<noteq> []"
  | (failed) e b' s' L where "create_buffer ref sz adapter ident b s w = Some (e, b', s', w)" "e \<noteq> 0" "descs L" "gains s s' L"
proof -
  have "c_page_size (k_handle (f_ctrl ref)) \<noteq> 0" using assms(2) by (simp add: local_ok_def)
  with assms(1) show thesis
  proof (cases rule: nvm_dis_dma_create_spec [where adapter = adapter and sid = ident and sz = sz])
    case c: (made h s1 L)
    then show thesis using made [of _ s1 _ L] by (auto simp: create_buffer_def nvm_ctrl_from_aq_ref_def nvm_ok_def)
  next
    case c: (failed e' s1 L)
    then show thesis using failed [of e' _ s1 L] by (auto simp: create_buffer_def nvm_ctrl_from_aq_ref_def nvm_ok_def)
  qed
qed

lemma create_queue_spec:
  assumes "sci_releases s" "local_ok ref"
  obtains (made) q' ref' s' w' L where "create_queue dev remote ptr q ref cq no adapter ident s w = Some (0, q', ref', s', w')" "local_ok ref'" "descs L"
      "gains s s' (L + dis_owned (queue_dma q'))" "own_window (queue_dma q')"
  | (failed) e q' ref' s' w' L where "create_queue dev remote ptr q ref cq no adapter ident s w = Some (e, q', ref', s', w')" "e \<noteq> 0" "local_ok ref'" "descs L"
      "gains s s' L"
proof -
  let ?c = "k_handle (f_ctrl ref)"
  let ?prp = "case cq of None \<Rightarrow> 0 | Some _ \<Rightarrow> (let n = c_page_size ?c div of_nat sizeof_cmd in
     if n \<le> ucast (c_max_entries ?c) then n else ucast (c_max_entries ?c))"
  from assms show thesis
  proof (cases rule: create_buffer_spec [where sz = "?prp * c_page_size ?c + c_page_size ?c" and adapter = adapter and ident = ident and b = "u_qmem q" and w = w])
    case b: (failed e b' s1 L)
    then show thesis using failed [of e _ ref s1 w L] assms(2) by (simp add: create_queue_def nvm_ctrl_from_aq_ref_def nvm_ok_def Let_def)
  next
    case b: (made b' s1 w1 L)
    then obtain c a as where c: "b_dma b' = Some c" "d_ioaddrs (dc_handle c) = a # as" by (auto simp: neq_Nil_conv)
    let ?call = "case cq of
        None \<Rightarrow> nvm_admin_cq_create dev remote ptr ref (u_queue q) no (NVM_DMA_OFFSET (dc_handle c) 0) a s1 w1
      | Some cq \<Rightarrow> nvm_admin_sq_create dev remote ptr ref (u_queue q) (u_queue cq) no (NVM_DMA_OFFSET (dc_handle c) 0) a s1 w1"
    have "\<exists>e q2 ref2 s2 w2. ?call = Some (e, q2, ref2, s2, w2) \<and> gains s1 s2 {#} \<and> local_ok ref2"
      using local_queue_create [OF assms(2)] by (cases cq) simp_all
    then obtain e q2 ref2 s2 w2 where r: "?call = Some (e, q2, ref2, s2, w2)" "gains s1 s2 {#}" "local_ok ref2" by blast
    have g: "gains s s2 (L + dis_owned (b_dma b'))" using gains_trans [OF b(3) r(2)] by simp
    from own_l.unmap_undo [OF assms(1) b(4) g] obtain s3 where u: "nvm_dma_unmap (b_dma b') s2 = Some s3" "gains s s3 L" by blast
    let ?q = "q\<lparr>u_qmem := b', u_queue := q2\<rparr>"
    have q: "create_queue dev remote ptr q ref cq no adapter ident s w =
      (if \<not> nvm_ok e then Some (e, ?q, ref2, s3, w2) else Some (0, ?q\<lparr>u_counter := 0\<rparr>, ref2, s2, w2))"
      using b(1) c r(1) u(1) by (cases cq) (simp_all add: create_queue_def nvm_ctrl_from_aq_ref_def first_ioaddr_def remove_buffer_def Let_def nvm_ok_def)
    show thesis
    proof (cases "nvm_ok e")
      case True
      then show thesis using made [of _ ref2 s2 w2 L] q r(3) b(2,4) g by simp
    next
      case False
      then show thesis using failed [of e _ ref2 s3 w2 L] q r(3) b(2) u(2) by (simp add: nvm_ok_def)
    qed
  qed
qed

abbreviation queues_owned :: "queue list \<Rightarrow> res multiset" where
  "queues_owned qs \<equiv> sum_list (map (\<lambda>q. dis_owned (queue_dma q)) qs)"

lemma put_queues:
  assumes "sci_releases s" "\<forall>q \<in> set qs. own_window (queue_dma q)" "gains s s' (r + queues_owned qs)"
  shows "\<exists>s''. put_all remove_queue qs s' = Some s'' \<and> gains s s'' r"
  using assms(2,3)
proof (induction qs arbitrary: s')
  case Nil
  then show ?case by simp
next
  case (Cons q qs)
  then have "gains s s' ((r + queues_owned qs) + dis_owned (queue_dma q))" by (simp add: ac_simps)
  from own_l.unmap_undo [OF assms(1) _ this] Cons.prems(1) obtain s1 where
    "nvm_dma_unmap (queue_dma q) s' = Some s1" "gains s s1 (r + queues_owned qs)" by auto
  with Cons.IH [of s1] Cons.prems(1) show ?case by (simp add: remove_queue_def remove_buffer_def)
qed

lemma remove_queues_undo:
  assumes "sci_releases s" "n_queues < 0xffff" "unat n_queues < length qs"
    and "\<forall>q \<in> set (take (unat n_queues + 1) qs). own_window (queue_dma q)"
    and "gains s s' (L + {#(Heap, p)#} + queues_owned (take (unat n_queues + 1) qs))"
  shows "\<exists>s''. remove_queues (Some (p, qs)) n_queues s' = Some s'' \<and> gains s s'' L"
proof -
  from put_queues [OF assms(1,4,5)] obtain s1 where
    s1: "put_all remove_queue (take (unat n_queues + 1) qs) s' = Some s1" "gains s s1 (L + {#(Heap, p)#})" by blast
  moreover have "gains s (free (Some p) s1) L" using s1(2) by (rule free_undo)
  ultimately show ?thesis using remove_loop_put_all [OF assms(2,3), of 0 s'] by (simp add: remove_queues_def)
qed

text \<open>The queues that were asked for, on a block of their own, or nothing; SISCI descriptors are left behind either way.\<close>

definition queues_made :: "os \<Rightarrow> nat \<Rightarrow> int \<Rightarrow> (nat \<times> queue list) option \<Rightarrow> os \<Rightarrow> bool" where
  "queues_made s0 n e queues s \<longleftrightarrow> (\<exists>L. descs L \<and>
     (if e = 0 then \<exists>p qs. queues = Some (p, qs) \<and> length qs = n + 1 \<and> (\<forall>q \<in> set qs. own_window (queue_dma q))
        \<and> gains s0 s (L + {#(Heap, p)#} + queues_owned qs)
      else queues = None \<and> gains s0 s L))"

lemma take_update_snoc: "k < length xs \<Longrightarrow> take (Suc k) (xs[k := x]) = take k xs @ [x]"
  by (simp add: take_Suc_conv_app_nth)

lemma create_sqs_spec:
  assumes "sci_releases s0" "n < 0xffff" "length q = n + 1" "i \<le> n" "local_ok ref" "descs L"
    and "\<forall>x \<in> set (take (i + 1) q). own_window (queue_dma x)" "gains s0 s (L + {#(Heap, p)#} + queues_owned (take (i + 1) q))"
  shows "\<exists>e queues args' ref' s' w'. create_sqs dev remote ptr [i..<n] p q ref args s w = Some (e, queues, args', ref', s', w')
    \<and> local_ok ref' \<and> ar_n_queues args' = ar_n_queues args \<and> queues_made s0 n e queues s'"
  using assms(3-8)
proof (induction "n - i" arbitrary: i q ref args s w L)
  case 0
  then have "i = n" by simp
  with 0 show ?case by (auto simp: queues_made_def)
next
  case (Suc m)
  then have i: "[i..<n] = i # [i + 1..<n]" "i < n" by (simp_all add: upt_conv_Cons)
  have "sci_releases s" using Suc.prems(6) assms(1) by (simp add: gains_def sci_releases_def)
  from this Suc.prems(3) show ?case
  proof (cases rule: create_queue_spec [where dev = dev and remote = remote and ptr = ptr and q = "q ! (i + 1)" and cq = "Some (q ! 0)"
        and no = "of_nat i + 1" and adapter = "ar_adapter args" and ident = "ar_segment_id args" and w = w])
    case q: (failed e q' ref' s' w' L')
    have "gains s0 s' ((L + L') + {#(Heap, p)#} + queues_owned (take (i + 1) (q[i + 1 := q'])))"
      using gains_trans [OF Suc.prems(6) q(5)] by (simp add: ac_simps)
    moreover have u: "unat (of_nat i :: u16) = i" "(of_nat i :: u16) < 0xffff" using i(2) assms(2)
      by (simp_all add: unat_of_nat word_less_nat_alt)
    ultimately obtain s'' where "remove_queues (Some (p, q[i + 1 := q'])) (of_nat i) s' = Some s''" "gains s0 s'' (L + L')"
      using remove_queues_undo [of s0 "of_nat i" "q[i + 1 := q']" s' "L + L'" p] assms(1) Suc.prems(1,5) i(2) by auto
    then show ?thesis using q(1-4) i Suc.prems(4) by (auto simp: queues_made_def intro!: exI [of _ "L + L'"])
  next
    case q: (made q' ref' s' w' L')
    let ?q = "q[i + 1 := q']"
    have t: "take (i + 1 + 1) ?q = take (i + 1) q @ [q']" using take_update_snoc [of "i + 1" q q'] Suc.prems(1) i(2) by simp
    have "gains s0 s' ((L + L') + {#(Heap, p)#} + queues_owned (take (i + 1 + 1) ?q))"
      unfolding t using gains_trans [OF Suc.prems(6) q(4)] by (simp add: ac_simps)
    moreover have "\<forall>x \<in> set (take (i + 1 + 1) ?q). own_window (queue_dma x)" unfolding t using Suc.prems(5) q(5) by auto
    ultimately show ?thesis
      using Suc.hyps(1) [of "i + 1" ?q ref' "L + L'" s' "args\<lparr>ar_segment_id := ar_segment_id args + 1\<rparr>" w'] Suc.hyps(2) Suc.prems(1,4) q(1-3) i
      by simp
  qed
qed

lemma request_queues_spec:
  assumes "sci_releases s" "local_ok ref" "ar_n_queues args < 0xffff"
  shows "\<exists>e queues args' ref' s' w'. request_queues dev remote ptr ref args s w = Some (e, queues, args', ref', s', w')
    \<and> local_ok ref' \<and> ar_n_queues args' = ar_n_queues args \<and> queues_made s (unat (ar_n_queues args)) e queues s'"
proof -
  let ?n = "unat (ar_n_queues args)"
  from local_request [OF assms(2)] obtain e a b r1 s1 w1 where
    r: "nvm_admin_request_num_queues dev remote ptr ref 1 (ar_n_queues args) s w = Some (e, a, b, r1, s1, w1)" "gains s s1 {#}" "local_ok r1" by blast
  obtain m s2 where m: "malloc s1 = (m, s2)" by fastforce
  consider "\<not> nvm_ok e" | "nvm_ok e" "b < ar_n_queues args" | "nvm_ok e" "\<not> b < ar_n_queues args" "m = None"
    | p where "nvm_ok e" "\<not> b < ar_n_queues args" "m = Some p" by (cases m) auto
  then show ?thesis
  proof cases
    case 1
    then show ?thesis using r by (auto simp: request_queues_def queues_made_def nvm_ok_def intro!: exI [of _ "{#}"])
  next
    case 2
    then show ?thesis using r by (auto simp: request_queues_def queues_made_def intro!: exI [of _ "{#}"])
  next
    case 3
    then have "gains s s2 {#}" using gains_trans [OF r(2) malloc_none] m by simp
    then show ?thesis using 3 r m by (auto simp: request_queues_def queues_made_def intro!: exI [of _ "{#}"])
  next
    case (4 p)
    then have g: "gains s s2 {#(Heap, p)#}" using gains_trans [OF r(2) malloc_some] m by simp
    then have "sci_releases s2" using assms(1) by (simp add: gains_def sci_releases_def)
    from this r(3) show ?thesis
    proof (cases rule: create_queue_spec [where dev = dev and remote = remote and ptr = ptr and q = zero_queue and cq = None
          and no = 1 and adapter = "ar_adapter args" and ident = "ar_segment_id args" and w = w1])
      case q: (failed e' q' ref' s' w' L)
      then have "gains s (free (Some p) s') L" using gains_trans [OF g q(5)] by (intro free_undo) (simp add: ac_simps)
      then show ?thesis using q r(1) m 4 by (auto simp: request_queues_def queues_made_def)
    next
      case q: (made q' ref' s' w' L)
      let ?q = "(replicate (?n + 1) zero_queue)[0 := q']" and ?args = "args\<lparr>ar_segment_id := ar_segment_id args + 1\<rparr>"
      have "gains s s' (L + {#(Heap, p)#} + queues_owned (take (0 + 1) ?q))" using gains_trans [OF g q(4)] by (simp add: ac_simps)
      from create_sqs_spec [OF assms(1) _ _ _ q(2,3) _ this, of ?n dev remote ptr ?args w'] assms(3) q(5)
      show ?thesis using q(1) r(1) m 4 by (simp add: request_queues_def word_less_nat_alt)
    qed
  qed
qed

text \<open>
  C28: On admin queues in good order and with arguments that \<open>parse_arguments\<close> accepted, requesting queues returns
  whatever the controller and SISCI answer.  When it fails it gives back all it took, and when it succeeds there
  is one completion queue and as many submission queues as were asked for, and \<open>remove_queues\<close> returns and gives
  back all of them; what remains are SISCI descriptors, which the library never closes.
\<close>

theorem request_queues_balanced:
  assumes "sci_releases s" "local_ok ref" "parse_arguments num argv = Inr args"
  shows "\<exists>e queues args' ref' s' w'. request_queues dev remote ptr ref args s w = Some (e, queues, args', ref', s', w')
    \<and> (if e = 0 then (\<exists>p qs. queues = Some (p, qs) \<and> length qs = unat (ar_n_queues args) + 1)
         \<and> (\<exists>s'' L. remove_queues queues (ar_n_queues args') s' = Some s'' \<and> descs L \<and> gains s s'' L)
       else queues = None \<and> (\<exists>L. descs L \<and> gains s s' L))"
proof -
  let ?n = "ar_n_queues args"
  have n: "?n < 0xffff" by (rule parse_arguments_fields [OF assms(3)])
  from request_queues_spec [OF assms(1,2) n] obtain e queues args' ref' s' w' where
    r: "request_queues dev remote ptr ref args s w = Some (e, queues, args', ref', s', w')" "ar_n_queues args' = ?n" "queues_made s (unat ?n) e queues s'"
    by blast
  have "\<exists>s''. remove_queues (Some (p, qs)) ?n s' = Some s'' \<and> gains s s'' L"
    if "length qs = unat ?n + 1" "\<forall>q \<in> set qs. own_window (queue_dma q)" "gains s s' (L + {#(Heap, p)#} + queues_owned qs)" for p qs L
    using remove_queues_undo [OF assms(1) n, of qs s' L p] that by simp
  with r show ?thesis unfolding queues_made_def by (cases "e = 0") fastforce+
qed

theorem request_queues_balanced_witness:
  "\<exists>args. parse_arguments 0 [''image'', ''--ctrl=8'', ''-q4'', ''-a'', ''2''] = Inr args \<and> local_ok local_ref \<and> sci_releases demo_os \<and>
     (\<exists>e queues args' ref' s' w'. request_queues refusing_dev (\<lambda>(b :: nat) cmd cpl s. (0, cmd, cpl, s)) 0x60000 local_ref args demo_os idle_world
        = Some (e, queues, args', ref', s', w')
       \<and> (if e = 0 then (\<exists>p qs. queues = Some (p, qs) \<and> length qs = unat (ar_n_queues args) + 1)
            \<and> (\<exists>s'' L. remove_queues queues (ar_n_queues args') s' = Some s'' \<and> descs L \<and> gains demo_os s'' L)
          else queues = None \<and> (\<exists>L. descs L \<and> gains demo_os s' L)))"
proof -
  obtain args where a: "parse_arguments 0 [''image'', ''--ctrl=8'', ''-q4'', ''-a'', ''2''] = Inr args" using demo_arguments by blast
  have l: "local_ok local_ref"
    using demo_admin_ok by (simp add: local_ok_def admin_ok_def local_ref_def demo_ref_def demo_controller_def demo_ctrl_def)
  from request_queues_balanced [OF demo_releases l a] show ?thesis using a l demo_releases by blast
qed

text \<open>With 65535 queues \<open>remove_queues\<close> does not return; the bound of \<open>parse_arguments\<close> excludes that number.\<close>

lemma remove_queues_wraps: "remove_queues (Some (p, qs)) 0xffff s = None"
  using remove_loop_wraps [of 0 "0xffff" qs s] by (cases "remove_loop 0 0xffff qs s") (auto simp: remove_queues_def)

end
