(* ===== verification/Io_Threads.thy ===== *)
theory Io_Threads
  imports Io_Transfer
begin

unbundle bit_operations_syntax

text \<open>
  The threads of a transfer of \<open>examples/integrity/transfer.c\<close> together: one thread per submission queue issues
  commands, one thread receives the completions of all queues, and the controller completes commands in any
  order.  The state machine interleaves them at the granularity of the operations on a queue.  It is where the
  threads meet: the producers move the tails of their queues, the consumer their heads, and \<open>transfer\<close> waits
  until the consumer has counted as many completions as the producers have counted commands.
\<close>

section \<open>The state\<close>

text \<open>
  Where the consumer is in its loop: waiting for a completion, with a completion in hand, or after
  \<open>nvm_sq_update\<close>.  The lists of completions that were posted and received are there for the specification.
\<close>

datatype consumer_at = Polling | Received u64 | Retiring

record transfer_sys =
  ts_queues :: "queue list"
  ts_mem :: mem
  ts_consumer :: consumer_at
  ts_posted :: "nvm_cpl list"
  ts_received :: "nvm_cpl list"

definition cpl_sqid :: "nvm_cpl \<Rightarrow> nat" where
  "cpl_sqid cpl = unat (ucast (drop_bit 16 (cpl ! 2)) :: u16)"

lemma cpl_sqid_load: "cpl_sqid (load_dwords m p 4) = unat (load16 m (NVM_CPL_SQID p))"
proof -
  have "p + 10 = (p + 8) + 2" by simp
  then have "load16 m (p + 10) = ucast (drop_bit 16 (load32 m (p + 8)))" by (simp only: load16_from_32)
  then show ?thesis by (simp add: cpl_sqid_def NVM_CPL_SQID_def load_dwords_def numeral_eq_Suc)
qed

abbreviation tq :: "transfer_sys \<Rightarrow> nat \<Rightarrow> nvm_queue" where
  "tq s i \<equiv> u_queue (ts_queues s ! i)"

text \<open>Completions whose command is retired, and those that are counted and whose slot the controller may use again.\<close>

definition n_retired :: "transfer_sys \<Rightarrow> nat" where
  "n_retired s = length (ts_received s) - (case ts_consumer s of Received _ \<Rightarrow> 1 | _ \<Rightarrow> 0)"

definition n_counted :: "transfer_sys \<Rightarrow> nat" where
  "n_counted s = length (ts_received s) - (case ts_consumer s of Polling \<Rightarrow> 0 | _ \<Rightarrow> 1)"

definition named :: "nat \<Rightarrow> nvm_cpl list \<Rightarrow> nat" where
  "named j cs = length (filter (\<lambda>c. cpl_sqid c = j) cs)"

abbreviation pending :: "transfer_sys \<Rightarrow> nat \<Rightarrow> nat" where
  "pending s j \<equiv> named j (drop (n_retired s) (ts_posted s))"

definition cq_region :: "nvm_queue \<Rightarrow> u64 set" where
  "cq_region q = {a. \<exists>i < q_n q. in_range (cq_slot q i) 16 a}"

section \<open>The steps\<close>

text \<open>
  A producer takes an entry of its queue, fills it and counts it, or rings the doorbell.  The controller completes
  a command it was told of and has not completed, while the completion queue has room for it as far as the
  doorbell of that queue says.  The consumer receives a completion, retires a command of the queue it names,
  and rings the doorbell of the completion queue and counts.  Memory outside the completion queue changes at any
  time: commands, PRP lists, data and registers are not read by the operations here.
\<close>

inductive transfer_step :: "transfer_sys \<Rightarrow> transfer_sys \<Rightarrow> bool" where
  producer_issues:
    "0 < i \<Longrightarrow> i < length (ts_queues s) \<Longrightarrow> nvm_sq_enqueue (tq s i) (ts_mem s) = Some (cmd, sq, m) \<Longrightarrow> cmd \<noteq> NULL \<Longrightarrow>
     (\<forall>a \<in> cq_region (tq s 0). m' a = ts_mem s a) \<Longrightarrow>
     transfer_step s (s\<lparr>ts_queues := (ts_queues s)[i := (ts_queues s ! i)\<lparr>u_queue := sq, u_counter := u_counter (ts_queues s ! i) + 1\<rparr>],
       ts_mem := m'\<rparr>)"
| producer_announces:
    "0 < i \<Longrightarrow> i < length (ts_queues s) \<Longrightarrow> nvm_sq_submit dev (tq s i) w = (sq, w') \<Longrightarrow>
     transfer_step s (s\<lparr>ts_queues := (ts_queues s)[i := (ts_queues s ! i)\<lparr>u_queue := sq\<rparr>]\<rparr>)"
| controller_completes:
    "length cpl = 4 \<Longrightarrow> 0 < cpl_sqid cpl \<Longrightarrow> cpl_sqid cpl < length (ts_queues s) \<Longrightarrow>
     pending s (cpl_sqid cpl) < submitted (tq s (cpl_sqid cpl)) \<Longrightarrow>
     length (ts_posted s) - n_counted s < q_n (tq s 0) - 1 \<Longrightarrow>
     (if bit (cpl_status cpl) 0 then 1 else 0) = dev_tag (q_n (tq s 0)) (length (ts_posted s)) \<Longrightarrow>
     transfer_step s (s\<lparr>ts_mem := store_dwords (cq_slot (tq s 0) (length (ts_posted s) mod q_n (tq s 0))) cpl (ts_mem s),
       ts_posted := ts_posted s @ [cpl]\<rparr>)"
| consumer_receives:
    "ts_consumer s = Polling \<Longrightarrow> nvm_cq_dequeue (tq s 0) (ts_mem s) = (cpl, cq) \<Longrightarrow> cpl \<noteq> NULL \<Longrightarrow>
     transfer_step s (s\<lparr>ts_queues := (ts_queues s)[0 := (ts_queues s ! 0)\<lparr>u_queue := cq\<rparr>], ts_consumer := Received cpl,
       ts_received := ts_received s @ [load_dwords (ts_mem s) cpl 4]\<rparr>)"
| consumer_retires:
    "ts_consumer s = Received cpl \<Longrightarrow> sqid = unat (load16 (ts_mem s) (NVM_CPL_SQID cpl)) \<Longrightarrow> sqid < length (ts_queues s) \<Longrightarrow>
     transfer_step s (s\<lparr>ts_queues := (ts_queues s)[sqid := (ts_queues s ! sqid)\<lparr>u_queue := nvm_sq_update (tq s sqid)\<rparr>],
       ts_consumer := Retiring\<rparr>)"
| consumer_counts:
    "ts_consumer s = Retiring \<Longrightarrow> nvm_cq_update dev (tq s 0) w = (cq, w') \<Longrightarrow>
     transfer_step s (s\<lparr>ts_queues := (ts_queues s)[0 := (ts_queues s ! 0)\<lparr>u_queue := cq, u_counter := u_counter (ts_queues s ! 0) + 1\<rparr>],
       ts_consumer := Polling\<rparr>)"
| memory_changes:
    "(\<forall>a \<in> cq_region (tq s 0). m' a = ts_mem s a) \<Longrightarrow> transfer_step s (s\<lparr>ts_mem := m'\<rparr>)"

inductive transfer_reach :: "transfer_sys \<Rightarrow> transfer_sys \<Rightarrow> bool" for s0 where
  transfer_start: "transfer_reach s0 s0"
| transfer_next: "transfer_reach s0 s \<Longrightarrow> transfer_step s t \<Longrightarrow> transfer_reach s0 t"

text \<open>
  What \<open>transfer\<close> computes when it has joined the producers, and the condition of the loop it then waits in.  The
  array of queues has the completion queue first.
\<close>

definition transfer_commands :: "queue list \<Rightarrow> u16 \<Rightarrow> u64" where
  "transfer_commands queues n_queues = foldl (\<lambda>commands i. commands + u_counter (queues ! (i + 1))) 0 [0..<unat n_queues]"

definition transfer_waits :: "queue list \<Rightarrow> u16 \<Rightarrow> bool" where
  "transfer_waits queues n_queues \<longleftrightarrow> u_counter (queues ! 0) < transfer_commands queues n_queues"

section \<open>The invariant\<close>

definition cq_view :: "transfer_sys \<Rightarrow> cq_sys" where
  "cq_view s = \<lparr>cs_queue = tq s 0, cs_mem = ts_mem s, cs_posted = ts_posted s, cs_received = ts_received s\<rparr>"

text \<open>A queue of which \<open>r\<close> commands were retired and \<open>p\<close> completions are on their way.\<close>

definition thread_ok :: "queue \<Rightarrow> nat \<Rightarrow> nat \<Rightarrow> bool" where
  "thread_ok q r p \<longleftrightarrow> sq_live (u_queue q) \<and> p \<le> submitted (u_queue q) \<and> u_counter q = of_nat (r + in_flight (u_queue q))"

definition consumer_ok :: "transfer_sys \<Rightarrow> bool" where
  "consumer_ok s \<longleftrightarrow> (case ts_consumer s of
      Polling \<Rightarrow> True
    | Received p \<Rightarrow> ts_received s \<noteq> [] \<and> p = cq_slot (tq s 0) ((length (ts_received s) - 1) mod q_n (tq s 0))
        \<and> load_dwords (ts_mem s) p 4 = last (ts_received s)
    | Retiring \<Rightarrow> ts_received s \<noteq> [])"

definition transfer_inv :: "transfer_sys \<Rightarrow> bool" where
  "transfer_inv s \<longleftrightarrow> ts_queues s \<noteq> [] \<and> cq_inv (cq_view s) \<and> 2 \<le> q_n (tq s 0)
     \<and> length (ts_posted s) - n_counted s < q_n (tq s 0) \<and> consumer_ok s
     \<and> u_counter (ts_queues s ! 0) = of_nat (n_counted s)
     \<and> (\<forall>c \<in> set (ts_posted s). 0 < cpl_sqid c \<and> cpl_sqid c < length (ts_queues s))
     \<and> (\<forall>j. 0 < j \<longrightarrow> j < length (ts_queues s) \<longrightarrow>
          thread_ok (ts_queues s ! j) (named j (take (n_retired s) (ts_posted s))) (pending s j))"

text \<open>Queues that were just created, over cleared memory.\<close>

definition transfer_initial :: "transfer_sys \<Rightarrow> bool" where
  "transfer_initial s \<longleftrightarrow> ts_queues s \<noteq> [] \<and> cq_initial (cq_view s) \<and> 2 \<le> q_n (tq s 0) \<and> ts_consumer s = Polling
     \<and> (\<forall>q \<in> set (ts_queues s). u_counter q = 0) \<and> (\<forall>q \<in> set (tl (ts_queues s)). sq_live (u_queue q) \<and> in_flight (u_queue q) = 0)"

lemma transfer_inv_initial: "transfer_initial s \<Longrightarrow> transfer_inv s"
proof -
  assume s: "transfer_initial s"
  then have e: "ts_posted s = []" "ts_received s = []" "ts_consumer s = Polling" "ts_queues s \<noteq> []" "cq_initial (cq_view s)"
    by (simp_all add: transfer_initial_def cq_initial_def cq_view_def)
  have "ts_queues s ! j \<in> set (tl (ts_queues s))" if "0 < j" "j < length (ts_queues s)" for j
    using that e(4) by (cases "ts_queues s") (auto simp: nth_Cons' intro!: nth_mem)
  then have "thread_ok (ts_queues s ! j) 0 0" if "0 < j" "j < length (ts_queues s)" for j
    using that s by (auto simp: transfer_initial_def thread_ok_def)
  then show ?thesis
    using s e cq_inv_initial by (simp add: transfer_inv_def transfer_initial_def n_counted_def n_retired_def named_def consumer_ok_def)
qed

section \<open>Memory outside the completion queue\<close>

lemma cq_inv_mem:
  assumes "cq_inv s" "\<forall>a \<in> cq_region (cs_queue s). m' a = cs_mem s a"
  shows "cq_inv (s\<lparr>cs_mem := m'\<rparr>)"
proof -
  let ?q = "cs_queue s" and ?n = "q_n (cs_queue s)"
  have n: "0 < ?n" using assms(1) by (auto simp: cq_inv_def cq_ok_def queue_wf_def Let_def)
  have eq: "m' x = cs_mem s x" if "i < ?n" "in_range (cq_slot ?q i) 16 x" for i x
    using assms(2) that by (auto simp: cq_region_def)
  have tag: "cq_tag m' ?q i = cq_tag (cs_mem s) ?q i" if "i < ?n" for i
    using load16_in_slot [of "cq_slot ?q i" m' "cs_mem s"] eq [OF that] by (simp add: cq_tag_def)
  have ld: "load_dwords m' (cq_slot ?q i) 4 = load_dwords (cs_mem s) (cq_slot ?q i) 4" if "i < ?n" for i
    by (rule load_dwords_cong) (use eq [OF that] in simp_all)
  have "(r + i) mod ?n < ?n" for r i using n by simp
  then show ?thesis using assms(1) by (simp add: cq_inv_def cq_synced_def tag ld Let_def)
qed

lemma cq_last [simp]:
  "cq_slot (q\<lparr>q_last := x\<rparr>) = cq_slot q" "cq_tag m (q\<lparr>q_last := x\<rparr>) = cq_tag m q" "cq_ok (q\<lparr>q_last := x\<rparr>) = cq_ok q"
  by (simp_all add: cq_ok_def queue_wf_def queue_mapped_def cq_slot_def queue_slot_def cq_tag_def fun_eq_iff)

lemma cq_inv_last: "cq_inv s \<Longrightarrow> cq_inv (s\<lparr>cs_queue := (cs_queue s)\<lparr>q_last := x\<rparr>\<rparr>)"
  by (simp add: cq_inv_def cq_synced_def Let_def)

lemma transfer_invD:
  assumes "transfer_inv s"
  shows "ts_queues s \<noteq> []" "cq_inv (cq_view s)" "2 \<le> q_n (tq s 0)" "length (ts_posted s) - n_counted s < q_n (tq s 0)"
    "consumer_ok s" "u_counter (ts_queues s ! 0) = of_nat (n_counted s)"
    "\<And>c. c \<in> set (ts_posted s) \<Longrightarrow> 0 < cpl_sqid c \<and> cpl_sqid c < length (ts_queues s)"
    "\<And>j. 0 < j \<Longrightarrow> j < length (ts_queues s) \<Longrightarrow> thread_ok (ts_queues s ! j) (named j (take (n_retired s) (ts_posted s))) (pending s j)"
  using assms by (auto simp: transfer_inv_def)

lemma transfer_inv_cq:
  assumes "transfer_inv s"
  shows "cq_ok (tq s 0)" "length (ts_received s) \<le> length (ts_posted s)" "ts_received s = take (length (ts_received s)) (ts_posted s)"
    "cq_synced (length (ts_received s)) (length (ts_posted s) - length (ts_received s)) (tq s 0) (ts_mem s)"
  using transfer_invD(2) [OF assms] by (simp_all add: cq_inv_def cq_view_def Let_def)

lemma cq_slot_region: "i < q_n q \<Longrightarrow> in_range (cq_slot q i) 16 a \<Longrightarrow> a \<in> cq_region q"
  by (auto simp: cq_region_def)

lemma load_slot_region:
  assumes "\<forall>a \<in> cq_region q. m' a = m a" "i < q_n q"
  shows "load_dwords m' (cq_slot q i) 4 = load_dwords m (cq_slot q i) 4"
  by (rule load_dwords_cong) (use assms cq_slot_region in auto)

lemma consumer_ok_mem:
  assumes "consumer_ok s" "0 < q_n (tq s 0)" "\<forall>a \<in> cq_region (tq s 0). m' a = ts_mem s a"
  shows "consumer_ok (s\<lparr>ts_mem := m'\<rparr>)"
  using assms(1) load_slot_region [OF assms(3), of "(length (ts_received s) - 1) mod q_n (tq s 0)"] assms(2)
  by (auto simp: consumer_ok_def split: consumer_at.splits)

section \<open>Every step keeps it\<close>

text \<open>What a producer does: its queue changes, and memory outside the completion queue.\<close>

lemma transfer_inv_thread:
  assumes "transfer_inv s" "0 < i" "\<forall>a \<in> cq_region (tq s 0). m' a = ts_mem s a"
    and "i < length (ts_queues s) \<Longrightarrow> thread_ok q (named i (take (n_retired s) (ts_posted s))) (pending s i)"
  shows "transfer_inv (s\<lparr>ts_queues := (ts_queues s)[i := q], ts_mem := m'\<rparr>)"
proof -
  let ?t = "s\<lparr>ts_queues := (ts_queues s)[i := q], ts_mem := m'\<rparr>"
  note inv = transfer_invD [OF assms(1)]
  have q0: "tq ?t 0 = tq s 0" "ts_queues ?t ! 0 = ts_queues s ! 0" using assms(2) by simp_all
  have n: "n_retired ?t = n_retired s" "n_counted ?t = n_counted s" by (simp_all add: n_retired_def n_counted_def)
  have "cq_inv ((cq_view s)\<lparr>cs_mem := m'\<rparr>)" by (rule cq_inv_mem [OF inv(2)]) (use assms(3) in \<open>simp add: cq_view_def\<close>)
  then have "cq_inv (cq_view ?t)" using q0 by (simp add: cq_view_def)
  moreover have "consumer_ok ?t"
    using consumer_ok_mem [OF inv(5) _ assms(3)] inv(3) assms(2) by (simp add: consumer_ok_def split: consumer_at.splits)
  moreover have "thread_ok (ts_queues ?t ! j) (named j (take (n_retired s) (ts_posted s))) (pending s j)"
    if "0 < j" "j < length (ts_queues s)" for j
    using that inv(8) [OF that] assms(4) by (cases "j = i") simp_all
  ultimately show ?thesis using inv(1,3,4,6,7) q0 n by (simp add: transfer_inv_def)
qed

lemma thread_ok_issue:
  assumes "thread_ok q r p" "nvm_sq_enqueue (u_queue q) m = Some (cmd, sq, m')" "cmd \<noteq> NULL"
  shows "thread_ok (q\<lparr>u_queue := sq, u_counter := u_counter q + 1\<rparr>) r p"
proof -
  have l: "sq_live (u_queue q)" using assms(1) by (simp add: thread_ok_def)
  note d = sq_liveD [OF l]
  have f: "in_flight (u_queue q) < q_n (u_queue q) - 1"
    using assms(2,3) nvm_sq_enqueue_full [OF d(2,3), of m] in_flight_less [OF d(2)] by (cases "in_flight (u_queue q) = q_n (u_queue q) - 1") auto
  then have "sq = sq_bump (u_queue q)" using nvm_sq_enqueue_free [OF d(2,3) f, of m] assms(2) by simp
  then show ?thesis using assms(1) sq_live_bump [OF l f] by (simp add: thread_ok_def)
qed

lemma thread_ok_announce:
  assumes "thread_ok q r p" "nvm_sq_submit dev (u_queue q) w = (sq, w')"
  shows "thread_ok (q\<lparr>u_queue := sq\<rparr>) r p"
proof -
  let ?q = "u_queue q"
  have l: "sq_live ?q" using assms(1) by (simp add: thread_ok_def)
  have "sq = ?q\<lparr>q_last := q_tail ?q\<rparr>" using assms(2) by (auto simp: nvm_sq_submit_def split: if_splits)
  moreover have "in_flight (?q\<lparr>q_last := q_tail ?q\<rparr>) = in_flight ?q" by (simp add: in_flight_def)
  ultimately show ?thesis using assms(1) sq_live_last [OF l] sq_liveD(6) [OF l] by (simp add: thread_ok_def)
qed

lemma n_retired_le: "transfer_inv s \<Longrightarrow> n_retired s \<le> length (ts_posted s)" "n_counted s \<le> n_retired s"
  using transfer_inv_cq(2) [of s] by (auto simp: n_retired_def n_counted_def split: consumer_at.splits)

lemma named_append [simp]: "named j (xs @ ys) = named j xs + named j ys"
  by (simp add: named_def)

lemma named_Cons: "named j (c # cs) = (if cpl_sqid c = j then 1 else 0) + named j cs"
  by (simp add: named_def)

lemma named_Nil [simp]: "named j [] = 0"
  by (simp add: named_def)

lemma thread_ok_pending: "thread_ok q r p \<Longrightarrow> p' \<le> submitted (u_queue q) \<Longrightarrow> thread_ok q r p'"
  by (simp add: thread_ok_def)

lemma transfer_inv_completes:
  assumes "transfer_inv s" "length cpl = 4" "0 < cpl_sqid cpl" "cpl_sqid cpl < length (ts_queues s)"
    and "pending s (cpl_sqid cpl) < submitted (tq s (cpl_sqid cpl))" "length (ts_posted s) - n_counted s < q_n (tq s 0) - 1"
    and "(if bit (cpl_status cpl) 0 then 1 else 0) = dev_tag (q_n (tq s 0)) (length (ts_posted s))"
  shows "transfer_inv (s\<lparr>ts_mem := store_dwords (cq_slot (tq s 0) (length (ts_posted s) mod q_n (tq s 0))) cpl (ts_mem s),
    ts_posted := ts_posted s @ [cpl]\<rparr>)" (is "transfer_inv ?t")
proof -
  note inv = transfer_invD [OF assms(1)] and cq = transfer_inv_cq [OF assms(1)] and le = n_retired_le [of s]
  let ?n = "q_n (tq s 0)" and ?r = "length (ts_received s)" and ?p = "length (ts_posted s)"
  have n: "n_retired ?t = n_retired s" "n_counted ?t = n_counted s" by (simp_all add: n_retired_def n_counted_def)
  have es: "q_entry_size (tq s 0) = 16" "0 < ?n" using cq(1) by (auto simp: cq_ok_def queue_wf_def)
  have nc: "n_counted s \<le> ?r" by (simp add: n_counted_def)
  have "cq_inv (cq_view ?t)"
    using cq_inv_post [OF inv(2), of cpl] assms(2,6,7) nc by (simp add: cq_view_def)
  moreover have "consumer_ok ?t"
  proof (cases "ts_consumer s")
    case (Received p)
    then have k: "ts_received s \<noteq> []" "p = cq_slot (tq s 0) ((?r - 1) mod ?n)" "load_dwords (ts_mem s) p 4 = last (ts_received s)"
      and c: "n_counted s = ?r - 1" using inv(5) by (auto simp: consumer_ok_def n_counted_def)
    define d where "d = ?p - (?r - 1)"
    have r1: "1 \<le> ?r" using k(1) by (cases "ts_received s") auto
    then have d: "?p = (?r - 1) + d" "d \<noteq> 0" "d < ?n" using cq(2) assms(6) c by (auto simp: d_def)
    then have ne: "?p mod ?n \<noteq> (?r - 1) mod ?n" using ring_inj [of "?r - 1" d ?n 0] es(2) by auto
    have "load_dwords (ts_mem ?t) p 4 = load_dwords (ts_mem s) p 4"
      unfolding k(2) by (rule load_dwords_cong) (use post_other_slot [OF _ _ ne es(1) assms(2)] es(2) in auto)
    then show ?thesis using Received k by (simp add: consumer_ok_def)
  qed (use inv(5) in \<open>simp_all add: consumer_ok_def\<close>)
  moreover have "thread_ok (ts_queues s ! j) (named j (take (n_retired s) (ts_posted s @ [cpl]))) (named j (drop (n_retired s) (ts_posted s @ [cpl])))"
    if "0 < j" "j < length (ts_queues s)" for j
    using inv(8) [OF that] le(1) [OF assms(1)] assms(5) by (auto simp: named_Cons thread_ok_def)
  moreover have "Suc ?p - n_counted s < ?n" using assms(6) cq(2) nc by linarith
  ultimately show ?thesis using inv(1,3,6,7) assms(3,4) n by (simp add: transfer_inv_def)
qed

lemma transfer_inv_receives:
  assumes "transfer_inv s" "ts_consumer s = Polling" "nvm_cq_dequeue (tq s 0) (ts_mem s) = (cpl, cq)" "cpl \<noteq> NULL"
  shows "transfer_inv (s\<lparr>ts_queues := (ts_queues s)[0 := (ts_queues s ! 0)\<lparr>u_queue := cq\<rparr>], ts_consumer := Received cpl,
    ts_received := ts_received s @ [load_dwords (ts_mem s) cpl 4]\<rparr>)" (is "transfer_inv ?t")
proof -
  note inv = transfer_invD [OF assms(1)] and c = transfer_inv_cq [OF assms(1)]
  let ?r = "length (ts_received s)"
  have d: "cpl = cq_slot (tq s 0) (unat (q_head (tq s 0)))" "cq = cq_bump (tq s 0)"
    using assms(3,4) nvm_cq_dequeue_eq [OF c(1), of "ts_mem s"] by (auto split: if_splits)
  have h: "unat (q_head (tq s 0)) = ?r mod q_n (tq s 0)" using c(4) by (simp add: cq_synced_def)
  have q0: "tq ?t 0 = cq" "u_counter (ts_queues ?t ! 0) = u_counter (ts_queues s ! 0)" using inv(1) by simp_all
  have n: "n_retired ?t = n_retired s" "n_counted ?t = n_counted s" using assms(2) by (simp_all add: n_retired_def n_counted_def)
  have "cq_inv (cq_view ?t)" using cq_inv_dequeue [OF inv(2), of cpl cq] assms(3,4) q0(1) by (simp add: cq_view_def)
  moreover have "consumer_ok ?t" using d h inv(1) by (simp add: consumer_ok_def)
  moreover have "thread_ok (ts_queues ?t ! j) (named j (take (n_retired s) (ts_posted s))) (pending s j)"
    if "0 < j" "j < length (ts_queues s)" for j using inv(8) [OF that] that(1) by simp
  ultimately show ?thesis using inv(1,3,4,6,7) q0 n d(2) by (simp add: transfer_inv_def)
qed

text \<open>The completion in hand is the oldest one whose command is not retired, and it names a submission queue.\<close>

lemma completion_in_hand:
  assumes "transfer_inv s" "ts_consumer s = Received cpl"
  obtains c where "n_retired s < length (ts_posted s)" "c = ts_posted s ! n_retired s" "unat (load16 (ts_mem s) (NVM_CPL_SQID cpl)) = cpl_sqid c"
    "0 < cpl_sqid c" "cpl_sqid c < length (ts_queues s)" "n_retired s = length (ts_received s) - 1" "ts_received s \<noteq> []"
proof -
  note inv = transfer_invD [OF assms(1)] and cq = transfer_inv_cq [OF assms(1)]
  let ?r = "length (ts_received s)"
  have k: "ts_received s \<noteq> []" "load_dwords (ts_mem s) cpl 4 = last (ts_received s)"
    using inv(5) assms(2) by (auto simp: consumer_ok_def)
  have n: "n_retired s = ?r - 1" using assms(2) by (simp add: n_retired_def)
  have lt: "?r - 1 < length (ts_posted s)" using k(1) cq(2) by (cases "ts_received s") auto
  have "last (ts_received s) = ts_posted s ! (?r - 1)"
    using cq(3) k(1) by (metis diff_less last_conv_nth length_greater_0_conv less_one nth_take)
  then have "unat (load16 (ts_mem s) (NVM_CPL_SQID cpl)) = cpl_sqid (ts_posted s ! n_retired s)"
    using k(2) n by (simp flip: cpl_sqid_load)
  moreover have "ts_posted s ! n_retired s \<in> set (ts_posted s)" using lt n by simp
  ultimately show thesis using that inv(7) lt n k(1) by metis
qed

lemma thread_ok_retire:
  assumes "thread_ok q r (Suc p)"
  shows "thread_ok (q\<lparr>u_queue := nvm_sq_update (u_queue q)\<rparr>) (Suc r) p"
proof -
  have l: "sq_live (u_queue q)" "submitted (u_queue q) \<noteq> 0" using assms by (auto simp: thread_ok_def)
  note u = sq_live_update [OF l]
  show ?thesis using assms u(1,2) unfolding thread_ok_def u(3) by simp
qed

lemma transfer_inv_retires:
  assumes "transfer_inv s" "ts_consumer s = Received cpl" "sqid = unat (load16 (ts_mem s) (NVM_CPL_SQID cpl))"
  shows "transfer_inv (s\<lparr>ts_queues := (ts_queues s)[sqid := (ts_queues s ! sqid)\<lparr>u_queue := nvm_sq_update (tq s sqid)\<rparr>],
    ts_consumer := Retiring\<rparr>)" (is "transfer_inv ?t")
proof -
  note inv = transfer_invD [OF assms(1)]
  let ?k = "n_retired s"
  from completion_in_hand [OF assms(1,2)] obtain c where c: "?k < length (ts_posted s)" "c = ts_posted s ! ?k" "sqid = cpl_sqid c"
    "0 < sqid" "sqid < length (ts_queues s)" "?k = length (ts_received s) - 1" "ts_received s \<noteq> []" using assms(3) by metis
  have n: "n_retired ?t = Suc ?k" "n_counted ?t = n_counted s" using assms(2) c(6,7) by (auto simp: n_retired_def n_counted_def)
  have split: "take (Suc ?k) (ts_posted s) = take ?k (ts_posted s) @ [c]" "drop ?k (ts_posted s) = c # drop (Suc ?k) (ts_posted s)"
    using c(1,2) by (simp_all add: take_Suc_conv_app_nth Cons_nth_drop_Suc)
  have "thread_ok (ts_queues ?t ! j) (named j (take (Suc ?k) (ts_posted s))) (named j (drop (Suc ?k) (ts_posted s)))"
    if "0 < j" "j < length (ts_queues s)" for j
  proof (cases "j = sqid")
    case True
    have "thread_ok (ts_queues s ! sqid) (named sqid (take ?k (ts_posted s))) (Suc (named sqid (drop (Suc ?k) (ts_posted s))))"
      using inv(8) [OF that] c(3) True unfolding split by (simp add: named_Cons)
    from thread_ok_retire [OF this] True c(3,5) show ?thesis unfolding split by (simp add: named_Cons)
  next
    case False
    then show ?thesis using inv(8) [OF that] c(3) unfolding split by (auto simp: named_Cons)
  qed
  moreover have "cq_view ?t = cq_view s" "ts_queues ?t ! 0 = ts_queues s ! 0" using c(4) by (simp_all add: cq_view_def)
  ultimately show ?thesis using inv(1-4,6,7) n c(7) by (simp add: transfer_inv_def consumer_ok_def)
qed

lemma transfer_inv_counts:
  assumes "transfer_inv s" "ts_consumer s = Retiring" "nvm_cq_update dev (tq s 0) w = (cq, w')"
  shows "transfer_inv (s\<lparr>ts_queues := (ts_queues s)[0 := (ts_queues s ! 0)\<lparr>u_queue := cq, u_counter := u_counter (ts_queues s ! 0) + 1\<rparr>],
    ts_consumer := Polling\<rparr>)" (is "transfer_inv ?t")
proof -
  note inv = transfer_invD [OF assms(1)]
  have q: "cq = (tq s 0)\<lparr>q_last := q_head (tq s 0)\<rparr>" using assms(3) by (auto simp: nvm_cq_update_def split: if_splits)
  have r: "ts_received s \<noteq> []" using inv(5) assms(2) by (simp add: consumer_ok_def)
  then have n: "n_retired ?t = n_retired s" "n_counted ?t = Suc (n_counted s)" using assms(2) by (simp_all add: n_retired_def n_counted_def)
  have "cq_inv (cq_view ?t)" using cq_inv_last [OF inv(2)] inv(1) q by (simp add: cq_view_def)
  moreover have "thread_ok (ts_queues ?t ! j) (named j (take (n_retired s) (ts_posted s))) (pending s j)"
    if "0 < j" "j < length (ts_queues s)" for j using inv(8) [OF that] that(1) by simp
  ultimately show ?thesis using inv(1,3,4,6,7) n q by (simp add: transfer_inv_def consumer_ok_def)
qed

lemma transfer_step_inv: "transfer_step s t \<Longrightarrow> transfer_inv s \<Longrightarrow> transfer_inv t"
proof (induction rule: transfer_step.induct)
  case (producer_issues i s cmd sq m m')
  then show ?case using transfer_invD(8) [OF producer_issues.prems] by (intro transfer_inv_thread thread_ok_issue) auto
next
  case (producer_announces i s dev w sq w')
  have "transfer_inv (s\<lparr>ts_queues := (ts_queues s)[i := (ts_queues s ! i)\<lparr>u_queue := sq\<rparr>], ts_mem := ts_mem s\<rparr>)"
    using producer_announces transfer_invD(8) [OF producer_announces.prems] by (intro transfer_inv_thread thread_ok_announce) auto
  then show ?case by simp
next
  case (controller_completes cpl s)
  then show ?case by (intro transfer_inv_completes)
next
  case (consumer_receives s cpl cq)
  then show ?case by (intro transfer_inv_receives)
next
  case (consumer_retires s cpl sqid)
  then show ?case by (intro transfer_inv_retires)
next
  case (consumer_counts s dev w cq w')
  then show ?case by (intro transfer_inv_counts)
next
  case (memory_changes s m')
  let ?i = "length (ts_queues s)"
  have "0 < ?i" using transfer_invD(1) [OF memory_changes(2)] by simp
  from transfer_inv_thread [OF memory_changes(2) this memory_changes(1), of undefined] show ?case by (cases s) (simp add: list_update_beyond)
qed

lemma transfer_reach_inv: "transfer_reach s0 s \<Longrightarrow> transfer_initial s0 \<Longrightarrow> transfer_inv s"
  by (induction rule: transfer_reach.induct) (auto intro: transfer_inv_initial transfer_step_inv)

text \<open>
  The consumer never indexes outside the array of queues, and it retires only commands the controller was told of:
  this is what a producer relies on as \<open>retires_submitted\<close>.
\<close>

lemma consumer_retires_submitted:
  assumes "transfer_initial s0" "transfer_reach s0 s" "ts_consumer s = Received cpl"
    and "sqid = unat (load16 (ts_mem s) (NVM_CPL_SQID cpl))"
  shows "0 < sqid \<and> sqid < length (ts_queues s) \<and> submitted (tq s sqid) \<noteq> 0"
proof -
  have inv: "transfer_inv s" by (rule transfer_reach_inv [OF assms(2,1)])
  from completion_in_hand [OF inv assms(3)] obtain c where c: "n_retired s < length (ts_posted s)" "c = ts_posted s ! n_retired s"
    "sqid = cpl_sqid c" "0 < sqid" "sqid < length (ts_queues s)" using assms(4) by metis
  have "pending s sqid \<noteq> 0" using c(1-3) by (simp add: named_Cons flip: Cons_nth_drop_Suc)
  then show ?thesis using transfer_invD(8) [OF inv c(4,5)] c(4,5) by (simp add: thread_ok_def)
qed

section \<open>When the transfer stops waiting\<close>

lemma transfer_commands_sum: "transfer_commands queues n = sum_list (map (\<lambda>i. u_counter (queues ! (i + 1))) [0..<unat n])"
proof -
  have "foldl (\<lambda>c i. c + f i) a xs = a + sum_list (map f xs)" for f :: "nat \<Rightarrow> u64" and a xs
    by (induction xs arbitrary: a) (simp_all add: ac_simps)
  then show ?thesis by (simp add: transfer_commands_def)
qed

text \<open>Commands in flight on all queues, and what the counters of the producers add up to.\<close>

definition outstanding :: "transfer_sys \<Rightarrow> nat" where
  "outstanding s = (\<Sum>j \<in> {1..<length (ts_queues s)}. in_flight (tq s j))"

lemma named_sum:
  assumes "\<forall>c \<in> set cs. 0 < cpl_sqid c \<and> cpl_sqid c \<le> n"
  shows "sum_list (map (\<lambda>i. named (i + 1) cs) [0..<n]) = length cs"
  using assms
proof (induction cs)
  case Nil
  then show ?case by simp
next
  case (Cons c cs)
  from Cons.prems obtain k where k: "cpl_sqid c = Suc k" "k < n" by (cases "cpl_sqid c") auto
  have "sum_list (map (\<lambda>i. if cpl_sqid c = i + 1 then 1 else 0 :: nat) [0..<n]) = (\<Sum>i \<in> {0..<n}. if i = k then 1 else 0)"
    by (simp only: interv_sum_list_conv_sum_set_nat set_upt) (rule sum.cong, use k in auto)
  also have "\<dots> = 1" using k by simp
  finally show ?case using Cons by (simp add: named_Cons sum_list_addf)
qed

lemma commands_counted:
  assumes "transfer_inv s" "length (ts_queues s) = unat n + 1"
  shows "transfer_commands (ts_queues s) n = of_nat (n_retired s + outstanding s)"
proof -
  note inv = transfer_invD [OF assms(1)]
  let ?r = "\<lambda>i. named (i + 1) (take (n_retired s) (ts_posted s))"
  have 1: "map (\<lambda>i. u_counter (ts_queues s ! (i + 1))) [0..<unat n] = map (\<lambda>i. of_nat (?r i + in_flight (tq s (i + 1)))) [0..<unat n]"
    using inv(8) assms(2) by (auto simp: thread_ok_def)
  have 2: "sum_list (map (\<lambda>i. of_nat (f i) :: u64) xs) = of_nat (sum_list (map f xs))" for f :: "nat \<Rightarrow> nat" and xs
    by (induction xs) simp_all
  have 3: "sum_list (map ?r [0..<unat n]) = n_retired s"
  proof -
    have "\<forall>c \<in> set (take (n_retired s) (ts_posted s)). 0 < cpl_sqid c \<and> cpl_sqid c \<le> unat n"
      using inv(7) assms(2) by (force dest: in_set_takeD)
    from named_sum [OF this] n_retired_le(1) [OF assms(1)] show ?thesis by simp
  qed
  have "sum_list (map (\<lambda>i. ?r i + in_flight (tq s (i + 1))) [0..<unat n]) = n_retired s + outstanding s"
    using 3 assms(2) sum.shift_bounds_Suc_ivl [of "\<lambda>j. in_flight (tq s j)" 0 "unat n"]
    by (simp add: sum_list_addf outstanding_def interv_sum_list_conv_sum_set_nat)
  then show ?thesis unfolding transfer_commands_sum 1 2 by simp
qed

lemma counters_compare:
  assumes "transfer_inv s" "length (ts_queues s) = unat n + 1" "n_retired s + outstanding s < 2 ^ 64"
  shows "transfer_waits (ts_queues s) n \<longleftrightarrow> n_counted s < n_retired s + outstanding s"
proof -
  have le: "n_counted s \<le> n_retired s" by (rule n_retired_le(2))
  have "unat (of_nat k :: u64) = k" if "k \<le> n_retired s + outstanding s" for k
    using that assms(3) by (intro unat_of_nat_small) simp
  from this [of "n_counted s"] this [of "n_retired s + outstanding s"] le show ?thesis
    unfolding transfer_waits_def word_less_nat_alt commands_counted [OF assms(1,2)] transfer_invD(6) [OF assms(1)] by linarith
qed

lemma outstanding_0:
  assumes "transfer_inv s" "outstanding s = 0"
  shows "drop (n_retired s) (ts_posted s) = []" "\<And>j. 0 < j \<Longrightarrow> j < length (ts_queues s) \<Longrightarrow> in_flight (tq s j) = 0"
proof -
  note inv = transfer_invD [OF assms(1)]
  show z: "in_flight (tq s j) = 0" if "0 < j" "j < length (ts_queues s)" for j
    using assms(2) that by (simp add: outstanding_def)
  show "drop (n_retired s) (ts_posted s) = []"
  proof (rule ccontr)
    assume "drop (n_retired s) (ts_posted s) \<noteq> []"
    then obtain c cs where d: "drop (n_retired s) (ts_posted s) = c # cs" by (cases "drop (n_retired s) (ts_posted s)") auto
    then have "c \<in> set (ts_posted s)" by (metis in_set_dropD list.set_intros(1))
    from inv(7) [OF this] have j: "0 < cpl_sqid c" "cpl_sqid c < length (ts_queues s)" by simp_all
    have "thread_ok (ts_queues s ! cpl_sqid c) (named (cpl_sqid c) (take (n_retired s) (ts_posted s))) (Suc (named (cpl_sqid c) cs))"
      using inv(8) [OF j] d by (simp add: named_Cons)
    then show False using z [OF j] by (auto simp: thread_ok_def sq_live_def)
  qed
qed

section \<open>The wait can end\<close>

text \<open>The producers have announced all their commands.\<close>

definition quiet :: "transfer_sys \<Rightarrow> bool" where
  "quiet s \<longleftrightarrow> (\<forall>j. 0 < j \<longrightarrow> j < length (ts_queues s) \<longrightarrow> q_last (tq s j) = q_tail (tq s j))"

text \<open>What the controller and the consumer still have to do.\<close>

definition work :: "transfer_sys \<Rightarrow> nat" where
  "work s = 4 * (\<Sum>j \<in> {1..<length (ts_queues s)}. submitted (tq s j) - pending s j) + 3 * (length (ts_posted s) - length (ts_received s))
     + (case ts_consumer s of Polling \<Rightarrow> 0 | Received _ \<Rightarrow> 2 | Retiring \<Rightarrow> 1)"

definition moves :: "transfer_sys \<Rightarrow> transfer_sys \<Rightarrow> bool" where
  "moves s t \<longleftrightarrow> transfer_step s t \<and> work t < work s \<and> n_retired t + outstanding t = n_retired s + outstanding s \<and> quiet t
     \<and> length (ts_queues t) = length (ts_queues s)"

lemma counts_moves:
  assumes "transfer_inv s" "quiet s" "ts_consumer s = Retiring"
  shows "\<exists>t. moves s t"
proof -
  obtain cq w where u: "nvm_cq_update (\<lambda>k m. m) (tq s 0) idle_world = (cq, w)" by fastforce
  note step = consumer_counts [OF assms(3) u]
  let ?t = "s\<lparr>ts_queues := (ts_queues s)[0 := (ts_queues s ! 0)\<lparr>u_queue := cq, u_counter := u_counter (ts_queues s ! 0) + 1\<rparr>], ts_consumer := Polling\<rparr>"
  have "n_retired ?t = n_retired s" using assms(3) by (simp add: n_retired_def)
  then have "moves s ?t" using step assms(2,3) by (simp add: moves_def work_def outstanding_def quiet_def)
  then show ?thesis by blast
qed

lemma receives_moves:
  assumes "transfer_inv s" "quiet s" "ts_consumer s = Polling" "length (ts_received s) < length (ts_posted s)"
  shows "\<exists>t. moves s t"
proof -
  note cq = transfer_inv_cq [OF assms(1)]
  have "cq_tag (ts_mem s) (tq s 0) (unat (q_head (tq s 0))) = q_phase (tq s 0)"
    using cq_synced_ready [OF cq(1,4)] assms(4) by simp
  moreover have "cq_slot (tq s 0) (unat (q_head (tq s 0))) \<noteq> NULL"
    using cq(1) by (intro cq_slot_nonnull) (auto simp: cq_ok_def queue_wf_def)
  ultimately obtain cpl q where d: "nvm_cq_dequeue (tq s 0) (ts_mem s) = (cpl, q)" "cpl \<noteq> NULL"
    using nvm_cq_dequeue_eq [OF cq(1), of "ts_mem s"] by simp
  note step = consumer_receives [OF assms(3) d]
  let ?t = "s\<lparr>ts_queues := (ts_queues s)[0 := (ts_queues s ! 0)\<lparr>u_queue := q\<rparr>], ts_consumer := Received cpl,
    ts_received := ts_received s @ [load_dwords (ts_mem s) cpl 4]\<rparr>"
  have "n_retired ?t = n_retired s" using assms(3) by (simp add: n_retired_def)
  then have "moves s ?t" using step assms(2-4) by (simp add: moves_def work_def outstanding_def quiet_def)
  then show ?thesis by blast
qed

lemma sum_changed_at:
  fixes f g :: "nat \<Rightarrow> nat"
  assumes "finite A" "j \<in> A" "\<And>i. i \<in> A \<Longrightarrow> i \<noteq> j \<Longrightarrow> g i = f i" "f j = Suc (g j)"
  shows "sum f A = Suc (sum g A)"
proof -
  have "sum g (A - {j}) = sum f (A - {j})" by (rule sum.cong) (use assms(3) in auto)
  then show ?thesis using assms(1,2,4) by (simp add: sum.remove)
qed

lemma retires_moves:
  assumes "transfer_inv s" "quiet s" "ts_consumer s = Received cpl"
  shows "\<exists>t. moves s t"
proof -
  let ?k = "n_retired s" and ?A = "{1..<length (ts_queues s)}"
  from completion_in_hand [OF assms(1,3)] obtain c where c: "?k < length (ts_posted s)" "c = ts_posted s ! ?k"
    "unat (load16 (ts_mem s) (NVM_CPL_SQID cpl)) = cpl_sqid c" "0 < cpl_sqid c" "cpl_sqid c < length (ts_queues s)"
    "?k = length (ts_received s) - 1" "ts_received s \<noteq> []" by metis
  define j where "j = cpl_sqid c"
  note step = consumer_retires [OF assms(3) c(3) [folded j_def, symmetric] c(5) [folded j_def]]
  let ?t = "s\<lparr>ts_queues := (ts_queues s)[j := (ts_queues s ! j)\<lparr>u_queue := nvm_sq_update (tq s j)\<rparr>], ts_consumer := Retiring\<rparr>"
  have n: "n_retired ?t = Suc ?k" using assms(3) c(6,7) by (cases "ts_received s") (auto simp: n_retired_def)
  have d: "drop ?k (ts_posted s) = c # drop (Suc ?k) (ts_posted s)" using c(1,2) by (simp add: Cons_nth_drop_Suc)
  have ok: "thread_ok (ts_queues s ! j) (named j (take ?k (ts_posted s))) (Suc (pending ?t j))"
    using transfer_invD(8) [OF assms(1), of j] c(4,5) d n by (simp add: named_Cons j_def)
  then have l: "sq_live (tq s j)" "submitted (tq s j) \<noteq> 0" by (auto simp: thread_ok_def)
  have tj: "tq ?t j = nvm_sq_update (tq s j)" "j \<in> ?A" using c(4,5) by (simp_all add: j_def)
  have "outstanding s = Suc (outstanding ?t)"
    unfolding outstanding_def using sum_changed_at [OF _ tj(2), of "\<lambda>i. in_flight (tq ?t i)" "\<lambda>i. in_flight (tq s i)"] sq_live_update(3) [OF l] tj(1) by simp
  moreover have "(\<Sum>i \<in> ?A. submitted (tq ?t i) - pending ?t i) = (\<Sum>i \<in> ?A. submitted (tq s i) - pending s i)"
  proof (rule sum.cong [OF refl])
    fix i assume "i \<in> ?A"
    show "submitted (tq ?t i) - pending ?t i = submitted (tq s i) - pending s i"
      using sq_live_update(2) [OF l] tj(1) n d by (cases "i = j") (auto simp: named_Cons j_def)
  qed
  moreover have "quiet ?t" using assms(2) tj(2) unfolding quiet_def by (auto simp: nth_list_update)
  ultimately have "moves s ?t" using step n assms(3) by (simp add: moves_def work_def)
  then show ?thesis by blast
qed

text \<open>A completion for a given queue with a given tag.\<close>

lemma completion_exists:
  assumes "j < 65536" "tag = 0 \<or> tag = (1 :: int)"
  obtains cpl where "length cpl = 4" "cpl_sqid cpl = j" "(if bit (cpl_status cpl) 0 then 1 else 0) = tag"
proof
  let ?c = "[0, 0, push_bit 16 (of_nat j), if tag = 1 then push_bit 16 1 else 0] :: nvm_cpl"
  show "length ?c = 4" by simp
  have "ucast (drop_bit 16 (push_bit 16 (of_nat j :: u32))) = (of_nat j :: u16)"
    by (rule bit_word_eqI) (auto simp: bit_simps)
  then show "cpl_sqid ?c = j" using assms(1) by (simp add: cpl_sqid_def unat_of_nat_small)
  show "(if bit (cpl_status ?c) 0 then 1 else 0) = tag" using assms(2) by (auto simp: cpl_status_def bit_simps)
qed

lemma completes_moves:
  assumes "transfer_inv s" "quiet s" "ts_consumer s = Polling" "ts_received s = ts_posted s" "outstanding s \<noteq> 0" "length (ts_queues s) \<le> 65536"
  shows "\<exists>t. moves s t"
proof -
  note inv = transfer_invD [OF assms(1)]
  let ?A = "{1..<length (ts_queues s)}"
  have n: "n_retired s = length (ts_posted s)" "n_counted s = length (ts_posted s)" using assms(3,4) by (simp_all add: n_retired_def n_counted_def)
  from assms(5) obtain j where j: "j \<in> ?A" "in_flight (tq s j) \<noteq> 0" by (auto simp: outstanding_def)
  then have "submitted (tq s j) = in_flight (tq s j)" using assms(2) by (simp add: quiet_def submitted_def in_flight_def)
  then have sub: "pending s j < submitted (tq s j)" using j(2) n by simp
  have "j < 65536" using j(1) assms(6) by simp
  then obtain cpl where c: "length cpl = 4" "cpl_sqid cpl = j" "(if bit (cpl_status cpl) 0 then 1 else 0) = dev_tag (q_n (tq s 0)) (length (ts_posted s))"
    by (rule completion_exists [of j "dev_tag (q_n (tq s 0)) (length (ts_posted s))"]) (auto simp: dev_tag_def)
  let ?t = "s\<lparr>ts_mem := store_dwords (cq_slot (tq s 0) (length (ts_posted s) mod q_n (tq s 0))) cpl (ts_mem s), ts_posted := ts_posted s @ [cpl]\<rparr>"
  have step: "transfer_step s ?t"
    using j(1) sub n inv(3) c by (intro controller_completes) simp_all
  have nt: "n_retired ?t = n_retired s" by (simp add: n_retired_def)
  have "(\<Sum>i \<in> ?A. submitted (tq s i) - pending s i) = Suc (\<Sum>i \<in> ?A. submitted (tq ?t i) - pending ?t i)"
    by (rule sum_changed_at [OF _ j(1)]) (use n nt sub c(2) in \<open>auto simp: named_Cons\<close>)
  then have "moves s ?t" using step assms(2-4) nt by (simp add: moves_def work_def outstanding_def quiet_def)
  then show ?thesis by blast
qed

lemma transfer_moves:
  assumes "transfer_inv s" "quiet s" "n_counted s < n_retired s + outstanding s" "length (ts_queues s) \<le> 65536"
  shows "\<exists>t. moves s t"
proof (cases "ts_consumer s")
  case Polling
  show ?thesis
  proof (cases "length (ts_received s) < length (ts_posted s)")
    case True
    then show ?thesis using receives_moves [OF assms(1,2) Polling] by simp
  next
    case False
    then have "ts_received s = ts_posted s" using transfer_inv_cq(2,3) [OF assms(1)] by simp
    moreover have "outstanding s \<noteq> 0" using assms(3) Polling by (auto simp: n_counted_def n_retired_def)
    ultimately show ?thesis using completes_moves [OF assms(1,2) Polling] assms(4) by simp
  qed
qed (use retires_moves counts_moves assms(1,2) in blast)+

lemma transfer_reach_trans: "transfer_reach t u \<Longrightarrow> transfer_reach s t \<Longrightarrow> transfer_reach s u"
  by (induction rule: transfer_reach.induct) (auto intro: transfer_next)

lemma transfer_can_end:
  assumes "transfer_inv s" "quiet s" "length (ts_queues s) = unat (n :: u16) + 1" "n_retired s + outstanding s < 2 ^ 64"
  shows "\<exists>t. transfer_reach s t \<and> \<not> transfer_waits (ts_queues t) n \<and> n_retired t + outstanding t = n_retired s + outstanding s
    \<and> length (ts_queues t) = length (ts_queues s)"
  using assms
proof (induction "work s" arbitrary: s rule: less_induct)
  case less
  show ?case
  proof (cases "transfer_waits (ts_queues s) n")
    case False
    then show ?thesis using transfer_start by blast
  next
    case True
    then have "n_counted s < n_retired s + outstanding s" using counters_compare [OF less.prems(1,3,4)] by simp
    moreover have "length (ts_queues s) \<le> 65536" using less.prems(3) unat_u16_less [of n] by simp
    ultimately obtain t where m: "moves s t" using transfer_moves [OF less.prems(1,2)] by blast
    then have st: "transfer_step s t" by (simp add: moves_def)
    from less.hyps [of t] m less.prems(3,4) transfer_step_inv [OF st less.prems(1)] obtain u where
      u: "transfer_reach t u" "\<not> transfer_waits (ts_queues u) n" "n_retired u + outstanding u = n_retired s + outstanding s"
        "length (ts_queues u) = length (ts_queues s)" by (auto simp: moves_def)
    have "transfer_reach s u" by (rule transfer_reach_trans [OF u(1)]) (rule transfer_next [OF transfer_start st])
    then show ?thesis using u by blast
  qed
qed

lemma transfer_all_retired:
  assumes inv: "transfer_inv s" and "length (ts_queues s) = unat n_queues + 1"
    and "n_retired s + outstanding s < 2 ^ 64" "\<not> transfer_waits (ts_queues s) n_queues"
  shows "ts_consumer s = Polling" "ts_received s = ts_posted s" "\<And>j. 0 < j \<Longrightarrow> j < length (ts_queues s) \<Longrightarrow> in_flight (tq s j) = 0"
proof -
  have le: "n_counted s \<le> n_retired s" "n_retired s \<le> length (ts_received s)" using n_retired_le(2) by (auto simp: n_retired_def)
  from counters_compare [OF inv assms(2,3)] assms(4) have "\<not> n_counted s < n_retired s + outstanding s" by simp
  then have z: "outstanding s = 0" "n_counted s = n_retired s" using le(1) by linarith+
  note o = outstanding_0 [OF inv z(1)]
  then have p: "length (ts_posted s) \<le> n_retired s" by simp
  show "ts_consumer s = Polling"
  proof (cases "ts_consumer s")
    case (Received cpl)
    from completion_in_hand [OF inv this] p show ?thesis by (metis linorder_not_le)
  next
    case Retiring
    then have "ts_received s \<noteq> []" using transfer_invD(5) [OF inv] by (simp add: consumer_ok_def)
    with Retiring z(2) show ?thesis by (cases "ts_received s") (auto simp: n_counted_def n_retired_def)
  qed
  show "ts_received s = ts_posted s" using transfer_inv_cq(2,3) [OF inv] p le(2) by simp
  show "in_flight (tq s j) = 0" if "0 < j" "j < length (ts_queues s)" for j by (rule o(2) [OF that])
qed

section \<open>Properties\<close>

text \<open>
  C11: Whatever the interleaving of the threads and the controller, when \<open>transfer\<close> stops waiting every command
  of every queue has been completed and retired, no completion is left in the completion queue and the
  consumer is idle: the buffer and the queues can be given back.  The counters have 64 bits and must not have
  wrapped around.
\<close>

theorem transfer_waits_for_all:
  assumes "transfer_initial s0" "transfer_reach s0 s" "length (ts_queues s) = unat n_queues + 1"
    and "n_retired s + outstanding s < 2 ^ 64" "\<not> transfer_waits (ts_queues s) n_queues"
  shows "ts_consumer s = Polling \<and> ts_received s = ts_posted s \<and> (\<forall>j. 0 < j \<and> j < length (ts_queues s) \<longrightarrow> in_flight (tq s j) = 0)"
  using transfer_all_retired [OF transfer_reach_inv [OF assms(2,1)] assms(3-5)] by blast


text \<open>
  C12: In every reachable state in which the producers have announced their commands, \<open>transfer\<close> is not stuck: if
  the controller completes the commands it was told of and the consumer keeps running, finitely many of their
  steps end the wait, and the number of commands it waits for stays the same.
\<close>

theorem transfer_wait_ends:
  assumes "transfer_initial s0" "transfer_reach s0 s" "length (ts_queues s) = unat n_queues + 1"
    and "n_retired s + outstanding s < 2 ^ 64" "\<forall>j. 0 < j \<and> j < length (ts_queues s) \<longrightarrow> q_last (tq s j) = q_tail (tq s j)"
  shows "\<exists>t. transfer_reach s t \<and> \<not> transfer_waits (ts_queues t) n_queues
    \<and> transfer_commands (ts_queues t) n_queues = transfer_commands (ts_queues s) n_queues"
proof -
  have inv: "transfer_inv s" by (rule transfer_reach_inv [OF assms(2,1)])
  have "quiet s" using assms(5) by (simp add: quiet_def)
  from transfer_can_end [OF inv this assms(3,4)] obtain t where
    t: "transfer_reach s t" "\<not> transfer_waits (ts_queues t) n_queues" "n_retired t + outstanding t = n_retired s + outstanding s"
      "length (ts_queues t) = length (ts_queues s)" by blast
  have "transfer_inv t" by (rule transfer_reach_inv [OF transfer_reach_trans [OF t(1) assms(2)] assms(1)])
  then show ?thesis using t commands_counted inv assms(3) by metis
qed

section \<open>Instances\<close>

text \<open>One submission queue, on which one command is issued and announced.\<close>

definition demo_cq_queue :: queue where
  "demo_cq_queue = \<lparr>u_qmem = \<lparr>b_id = 0, b_adapter = 0, b_dma = None\<rparr>, u_queue = demo_cq, u_counter = 0\<rparr>"

definition demo_transfer :: transfer_sys where
  "demo_transfer = \<lparr>ts_queues = [demo_cq_queue, file_queue], ts_mem = (\<lambda>_. 0), ts_consumer = Polling, ts_posted = [], ts_received = []\<rparr>"

lemma demo_transfer_initial: "transfer_initial demo_transfer"
  using demo_admin_ok(2) demo_sq_live
  by (simp add: transfer_initial_def demo_transfer_def demo_cq_queue_def file_queue_def cq_view_def cq_initial_def demo_admin_def
      demo_cq_fields cq_tag_def load16_def)

definition demo_announced :: transfer_sys where
  "demo_announced = demo_transfer\<lparr>ts_queues := [demo_cq_queue, file_queue\<lparr>u_queue := demo_sq\<lparr>q_tail := 1, q_last := 1\<rparr>, u_counter := 1\<rparr>]\<rparr>"

lemma demo_announced_reach: "transfer_reach demo_transfer demo_announced"
proof -
  let ?s = "demo_transfer\<lparr>ts_queues := [demo_cq_queue, file_queue\<lparr>u_queue := demo_sq\<lparr>q_tail := 1\<rparr>, u_counter := 1\<rparr>]\<rparr>"
  have "in_flight demo_sq < q_n demo_sq - 1" by (simp add: demo_sq_fields in_flight_def)
  from nvm_sq_enqueue_free [OF _ _ this, of "\<lambda>_. 0"] have
    e: "nvm_sq_enqueue demo_sq (\<lambda>_. 0) = Some (0x20000, demo_sq\<lparr>q_tail := 1\<rparr>, store16 (NVM_CMD_CID 0x20000) 1 (\<lambda>_. 0))"
    by (simp add: demo_sq_fields queue_wf_def queue_slot_def sq_bump_def sq_cid_def)
  have q1: "ts_queues demo_transfer ! 1 = file_queue" "u_queue file_queue = demo_sq" "ts_mem demo_transfer = (\<lambda>_. 0)"
    by (simp_all add: demo_transfer_def file_queue_def)
  have "transfer_step demo_transfer (demo_transfer\<lparr>ts_queues := (ts_queues demo_transfer)[1 := file_queue\<lparr>u_queue := demo_sq\<lparr>q_tail := 1\<rparr>,
      u_counter := u_counter file_queue + 1\<rparr>], ts_mem := (\<lambda>_. 0)\<rparr>)"
    using producer_issues [of 1 demo_transfer, unfolded q1, OF _ _ e, of "\<lambda>_. 0"] by (simp add: demo_transfer_def)
  moreover have "demo_transfer\<lparr>ts_queues := (ts_queues demo_transfer)[1 := file_queue\<lparr>u_queue := demo_sq\<lparr>q_tail := 1\<rparr>,
      u_counter := u_counter file_queue + 1\<rparr>], ts_mem := (\<lambda>_. 0)\<rparr> = ?s"
    by (simp add: demo_transfer_def file_queue_def)
  ultimately have s1: "transfer_step demo_transfer ?s" by simp
  have u: "nvm_sq_submit (\<lambda>k m. m) (demo_sq\<lparr>q_tail := 1\<rparr>) idle_world
      = (demo_sq\<lparr>q_tail := 1, q_last := 1\<rparr>, reg_write32 (\<lambda>k m. m) (q_db demo_sq) 1 idle_world)"
    by (simp add: nvm_sq_submit_def demo_sq_fields)
  have q2: "ts_queues ?s ! 1 = file_queue\<lparr>u_queue := demo_sq\<lparr>q_tail := 1\<rparr>, u_counter := 1\<rparr>" "tq ?s 1 = demo_sq\<lparr>q_tail := 1\<rparr>" by simp_all
  have "transfer_step ?s (?s\<lparr>ts_queues := (ts_queues ?s)[1 := (ts_queues ?s ! 1)\<lparr>u_queue := demo_sq\<lparr>q_tail := 1, q_last := 1\<rparr>\<rparr>]\<rparr>)"
    by (rule producer_announces [of 1 ?s "\<lambda>k m. m" idle_world _ "reg_write32 (\<lambda>k m. m) (q_db demo_sq) 1 idle_world"]) (simp_all add: u)
  moreover have "?s\<lparr>ts_queues := (ts_queues ?s)[1 := (ts_queues ?s ! 1)\<lparr>u_queue := demo_sq\<lparr>q_tail := 1, q_last := 1\<rparr>\<rparr>]\<rparr> = demo_announced"
    by (simp add: demo_announced_def)
  ultimately have "transfer_step ?s demo_announced" by simp
  with s1 show ?thesis by (blast intro: transfer_start transfer_next)
qed

lemma demo_announced_fields:
  "length (ts_queues demo_announced) = unat (1 :: u16) + 1" "n_retired demo_announced + outstanding demo_announced = 1" "quiet demo_announced"
  by (auto simp: demo_announced_def demo_transfer_def n_retired_def outstanding_def quiet_def in_flight_def demo_sq_fields nth_Cons')

theorem transfer_wait_ends_witness:
  "transfer_waits (ts_queues demo_announced) 1 \<and> (\<exists>t. transfer_reach demo_announced t \<and> \<not> transfer_waits (ts_queues t) 1
     \<and> transfer_commands (ts_queues t) 1 = 1)"
proof -
  have "transfer_commands (ts_queues demo_announced) 1 = 1" "transfer_waits (ts_queues demo_announced) 1"
    by (simp_all add: transfer_commands_def transfer_waits_def demo_announced_def demo_transfer_def demo_cq_queue_def)
  then show ?thesis
    using transfer_wait_ends [OF demo_transfer_initial demo_announced_reach demo_announced_fields(1)] demo_announced_fields(2,3)
    by (auto simp: quiet_def)
qed

theorem transfer_waits_for_all_witness:
  "\<exists>t. transfer_reach demo_announced t \<and> \<not> transfer_waits (ts_queues t) 1 \<and> ts_consumer t = Polling \<and> ts_received t = ts_posted t
     \<and> in_flight (tq t 1) = 0"
proof -
  have inv: "transfer_inv demo_announced" by (rule transfer_reach_inv [OF demo_announced_reach demo_transfer_initial])
  from transfer_can_end [OF inv demo_announced_fields(3,1)] demo_announced_fields(2) obtain t where
    t: "transfer_reach demo_announced t" "\<not> transfer_waits (ts_queues t) 1" "n_retired t + outstanding t = 1"
      "length (ts_queues t) = unat (1 :: u16) + 1" using demo_announced_fields(1) by auto
  have "transfer_reach demo_transfer t" by (rule transfer_reach_trans [OF t(1) demo_announced_reach])
  from transfer_waits_for_all [OF demo_transfer_initial this t(4) _ t(2)] t(3,4) have
    "ts_consumer t = Polling" "ts_received t = ts_posted t" "in_flight (tq t 1) = 0" by auto
  with t(1,2) show ?thesis by blast
qed

end
