(* ===== verification/Io_Disk.thy ===== *)
theory Io_Disk
  imports Io_Transfer
begin

text \<open>
  What the commands of a transfer of \<open>examples/integrity/transfer.c\<close> do when a controller executes them: each moves
  a range of bytes between the buffer and the medium, and together they reach every byte of the file.  That the
  threads and the controller get to execute all of them is in \<open>Io_Run\<close>.
\<close>

section \<open>The controller executes commands\<close>

text \<open>
  The bytes of every namespace, and the effect of one command on the namespace it names and on memory.  Bus addresses
  are translated by \<open>iommu\<close> to the addresses at which the host sees the same memory.
\<close>

type_synonym media = "u32 \<Rightarrow> nat \<Rightarrow> u8"

definition execute_io ::
  "nat \<Rightarrow> nat \<Rightarrow> (u64 \<Rightarrow> u64) \<Rightarrow> u64 \<times> u32 \<times> u64 \<times> u64 \<times> u64 list \<Rightarrow> mem \<times> media \<Rightarrow> mem \<times> media" where
  "execute_io page_size block_size iommu r s =
     (case r of (opcode, ns, slba, nlb, pages) \<Rightarrow>
        let base = unat slba * block_size;
            n = (unat nlb + 1) * block_size;
            at = (\<lambda>k. iommu (pages ! (k div page_size) + of_nat (k mod page_size))) in
        if opcode = ucast (io_opcode NVM_IO_WRITE)
        then (fst s, \<lambda>i x. if i = ns \<and> base \<le> x \<and> x < base + n then fst s (at (x - base)) else snd s i x)
        else if opcode = ucast (io_opcode NVM_IO_READ)
        then (foldl (\<lambda>m k. m(at k := snd s ns (base + k))) (fst s) [0..<n], snd s)
        else s)"

section \<open>What is relied on\<close>

definition run_command :: "(u64 \<Rightarrow> u64) \<Rightarrow> nvm_dma \<Rightarrow> producer \<times> nat \<Rightarrow> mem \<times> media \<Rightarrow> mem \<times> media" where
  "run_command iommu dma c = execute_io (unat (d_page_size dma)) (unat (dk_block_size (p_disk (fst c)))) iommu (cmd_request (fst c) dma (snd c))"

definition n_commands :: "producer \<Rightarrow> nvm_dma \<Rightarrow> nat" where
  "n_commands p dma = (if p_write p then n_transfers p dma + 1 else n_transfers p dma)"

definition commands_of :: "nvm_dma \<Rightarrow> producer list \<Rightarrow> (producer \<times> nat) set" where
  "commands_of dma ps = {(p, j). p \<in> set ps \<and> j < n_commands p dma}"

text \<open>The sizes of a disk, a buffer and a transfer fit together.\<close>

definition transfer_fits :: "disk \<Rightarrow> nvm_dma \<Rightarrow> u64 \<Rightarrow> bool" where
  "transfer_fits d dma sz \<longleftrightarrow> (\<exists>a c. dk_page_size d = 2 ^ a \<and> dk_block_size d = 2 ^ c \<and> c \<le> a \<and> a < 64 \<and> unat sz + 2 ^ a \<le> 2 ^ 64)
     \<and> d_page_size dma = dk_page_size d \<and> n_chunks (unat (dk_page_size d)) (unat sz) \<le> length (d_ioaddrs dma)
     \<and> split_ok (dk_page_size d) (dk_block_size d) (unat (dk_max_data_size d div dk_page_size d)) (length (d_ioaddrs dma))"

section \<open>Every command moves a range of bytes\<close>

lemma unat_small: "n < 2 ^ 64 \<Longrightarrow> unat (of_nat n :: u64) = n"
  using unat_of_nat_small [of n, where 'a = 64] by simp

abbreviation range_start :: "nvm_dma \<Rightarrow> producer \<times> nat \<Rightarrow> nat" where
  "range_start dma c \<equiv> (unat (page_base (fst c) dma) + snd c * max_transfer (fst c) dma) * unat (d_page_size dma)"

definition cmd_range :: "nvm_dma \<Rightarrow> producer \<times> nat \<Rightarrow> nat set" where
  "cmd_range dma c = (if snd c < n_transfers (fst c) dma
     then {range_start dma c..<range_start dma c + cmd_pages (fst c) dma (snd c) * unat (d_page_size dma)} else {})"

lemma producer_within:
  assumes "transfer_fits d dma sz" "transfer_producers d buffer n_queues sz wr = Some ps" "p \<in> set ps" "0 < producer_pages p dma"
  shows "unat (page_base p dma) + unat (producer_pages p dma) \<le> length (d_ioaddrs dma)" "length (producer_ios p dma) = unat (producer_pages p dma)"
proof -
  from assms(1) obtain a c where f: "dk_page_size d = 2 ^ a" "dk_block_size d = 2 ^ c" "c \<le> a" "a < 64" "unat sz + 2 ^ a \<le> 2 ^ 64"
    and g: "d_page_size dma = 2 ^ a" "n_chunks (2 ^ a) (unat sz) \<le> length (d_ioaddrs dma)"
    unfolding transfer_fits_def by (auto simp: unat_pow2)
  let ?b = "unat (page_base p dma)" and ?n = "unat (producer_pages p dma)"
  have n: "0 < ?n" using assms(4) by (simp add: word_less_nat_alt)
  then have "?b + ?n - 1 \<in> set [?b..<?b + ?n]" by simp
  then have "?b + ?n - 1 \<in> set (concat (map (\<lambda>p. [unat (page_base p dma)..<unat (page_base p dma) + unat (producer_pages p dma)]) ps))"
    using assms(3) by (auto simp del: set_upt)
  then have "?b + ?n - 1 < n_chunks (2 ^ a) (unat sz)" unfolding transfer_division(2) [OF assms(2) f g(1)] by simp
  with g(2) n show le: "?b + ?n \<le> length (d_ioaddrs dma)" by linarith
  then show "length (producer_ios p dma) = ?n" by (simp add: producer_ios_def)
qed

lemma cmd_request_range:
  assumes "transfer_fits d dma sz" "transfer_producers d buffer n_queues sz wr = Some ps" "p \<in> set ps" "j < n_transfers p dma"
  obtains slba nlb pages where "cmd_request p dma j = (if wr then 1 else 2, dk_ns_id d, slba, nlb, pages)"
    "unat slba * unat (dk_block_size d) = range_start dma (p, j)"
    "(unat nlb + 1) * unat (dk_block_size d) = cmd_pages p dma j * unat (d_page_size dma)"
    "\<And>i. i < cmd_pages p dma j \<Longrightarrow> pages ! i = d_ioaddrs dma ! (unat (page_base p dma) + j * max_transfer p dma + i)"
    "unat (page_base p dma) + j * max_transfer p dma + cmd_pages p dma j \<le> length (d_ioaddrs dma)"
proof -
  from assms(1) obtain a c where f: "dk_page_size d = 2 ^ a" "dk_block_size d = 2 ^ c" "c \<le> a" "a < 64" "unat sz + 2 ^ a \<le> 2 ^ 64" "d_page_size dma = 2 ^ a"
    unfolding transfer_fits_def by auto
  let ?MT = "max_transfer p dma" and ?L = "length (producer_ios p dma)" and ?ch = "cmd_pages p dma j"
  from transfer_division(4) [OF assms(2) f assms(3)] have
    st: "unat (p_start_block p) * 2 ^ c = unat (page_base p dma) * 2 ^ a" and d: "p_disk p = d" "p_write p = wr" by simp_all
  have u: "unat (2 ^ a :: u64) = 2 ^ a" "unat (2 ^ c :: u64) = 2 ^ c" using f(3,4) by (simp_all add: unat_pow2)
  have g: "unat (dk_block_size d) = 2 ^ c" "unat (d_page_size dma) = 2 ^ a" using f u by simp_all
  have A: "(2 :: nat) ^ a = 2 ^ (a - c) * 2 ^ c" using f(3) by (simp flip: power_add)
  then have bpp: "(2 :: nat) ^ a div 2 ^ c = 2 ^ (a - c)" by simp
  have sp: "split_ok (2 ^ a) (2 ^ c) ?MT (length (d_ioaddrs dma))" using assms(1) f d by (simp add: transfer_fits_def)
  note sd = split_okD [OF sp, unfolded u bpp]
  have j: "j < n_chunks ?MT ?L" using assms(4) by (simp add: n_transfers_def)
  note ch = chunk_pos [OF sd(4) j]
  have c: "?ch = chunk ?MT ?L j" using assms(4) by (simp add: cmd_pages_def)
  have pp: "0 < producer_pages p dma" using ch by (auto simp: producer_ios_def word_gt_0)
  note w = producer_within [OF assms(1-3) pp]
  have le: "unat (page_base p dma) + j * ?MT + ?ch \<le> length (d_ioaddrs dma)" using w ch c by linarith
  let ?s = "unat (page_base p dma) + j * ?MT"
  have start: "unat (p_start_block p) = unat (page_base p dma) * 2 ^ (a - c)" using st unfolding A by simp
  have "?s * 2 ^ (a - c) \<le> ?s * 2 ^ a" using A by simp
  also have "\<dots> < 2 ^ 64" using sd(7) [of ?s] le by (simp add: mult.commute)
  finally have s64: "?s * 2 ^ (a - c) < 2 ^ 64" .
  have sb: "p_start_block p = of_nat (unat (page_base p dma) * 2 ^ (a - c))" unfolding start [symmetric] by simp
  have "p_start_block p + of_nat (j * ?MT * 2 ^ (a - c)) = of_nat (?s * 2 ^ (a - c))"
    by (subst sb) (simp only: of_nat_add [symmetric] distrib_right)
  then have slba: "unat (p_start_block p + of_nat (j * ?MT * 2 ^ (a - c))) = ?s * 2 ^ (a - c)" using unat_small [OF s64] by (simp only:)
  have "?ch * 2 ^ (a - c) \<le> ?MT * 2 ^ (a - c)" using ch c by (intro mult_le_mono1) simp
  then have "?ch * 2 ^ (a - c) \<le> 65536" using sd(5) by linarith
  then have nlb: "unat (of_nat (?ch * 2 ^ (a - c) - 1) :: u64) + 1 = ?ch * 2 ^ (a - c)"
    using ch c by (subst unat_of_nat_small) simp_all
  show thesis
  proof (rule that)
    show "cmd_request p dma j = (if wr then 1 else 2, dk_ns_id d, p_start_block p + of_nat (j * ?MT * 2 ^ (a - c)),
        of_nat (?ch * 2 ^ (a - c) - 1), take ?ch (drop (j * ?MT) (producer_ios p dma)))"
      using assms(4) d f u bpp c by (simp add: cmd_request_def io_request_def rw_opcode_def)
    show "unat (p_start_block p + of_nat (j * ?MT * 2 ^ (a - c))) * unat (dk_block_size d) = range_start dma (p, j)"
      unfolding slba fst_conv snd_conv g by (simp only: A mult.assoc)
    show "(unat (of_nat (?ch * 2 ^ (a - c) - 1) :: u64) + 1) * unat (dk_block_size d) = ?ch * unat (d_page_size dma)"
      unfolding nlb g by (simp only: A mult.assoc)
    show "take ?ch (drop (j * ?MT) (producer_ios p dma)) ! i = d_ioaddrs dma ! (unat (page_base p dma) + j * ?MT + i)" if "i < ?ch" for i
      using that le ch c w(1) unfolding w(2) by (simp add: producer_ios_def add.assoc)
  qed (rule le)
qed

lemma cmd_request_at:
  assumes "window_maps iommu dma" "\<And>i. i < n \<Longrightarrow> pages ! i = d_ioaddrs dma ! (b + i)" "b + n \<le> length (d_ioaddrs dma)"
    and "k < n * unat (d_page_size dma)"
  shows "iommu (pages ! (k div unat (d_page_size dma)) + of_nat (k mod unat (d_page_size dma))) = d_vaddr dma + of_nat (b * unat (d_page_size dma) + k)"
proof -
  let ?P = "unat (d_page_size dma)"
  have P: "0 < ?P" using assms(4) by (cases "?P = 0") auto
  have i: "k div ?P < n" using assms(4) by (simp add: less_mult_imp_div_less)
  have "(b + k div ?P) * ?P + k mod ?P = b * ?P + k" by (simp add: distrib_right)
  moreover have "iommu (d_ioaddrs dma ! (b + k div ?P) + of_nat (k mod ?P)) = d_vaddr dma + of_nat ((b + k div ?P) * ?P + k mod ?P)"
    using i assms(3) P by (intro assms(1) [unfolded window_maps_def, rule_format]) simp_all
  ultimately show ?thesis using assms(2) [OF i] by simp
qed

lemma foldl_upd:
  fixes v :: u64
  assumes "lo + n \<le> 2 ^ 64" "x < 2 ^ 64"
  shows "foldl (\<lambda>m k. m(v + of_nat (lo + k) := g k)) m [0..<n] (v + of_nat x) = (if lo \<le> x \<and> x < lo + n then g (x - lo) else m (v + of_nat x))"
  using assms(1)
proof (induction n)
  case 0
  then show ?case by auto
next
  case (Suc n)
  define F where "F k = foldl (\<lambda>m k. m(v + of_nat (lo + k) := g k)) m [0..<k]" for k
  have "lo + n < 2 ^ 64" using Suc.prems by simp
  then have "(of_nat (lo + n) :: u64) = of_nat x \<longleftrightarrow> lo + n = x" using assms(2) unat_small by metis
  then have "v + of_nat x = v + of_nat (lo + n) \<longleftrightarrow> x = lo + n" by auto
  moreover have "F (Suc n) = (F n)(v + of_nat (lo + n) := g n)" by (simp add: F_def)
  ultimately have "F (Suc n) (v + of_nat x) = (if x = lo + n then g n else F n (v + of_nat x))" by (simp only: fun_upd_apply)
  moreover have "F n (v + of_nat x) = (if lo \<le> x \<and> x < lo + n then g (x - lo) else m (v + of_nat x))"
    unfolding F_def by (rule Suc.IH) (use Suc.prems in simp)
  ultimately show ?case unfolding F_def [symmetric] by auto
qed

lemma window_small: "transfer_fits d dma sz \<Longrightarrow> length (d_ioaddrs dma) * unat (d_page_size dma) < 2 ^ 64"
  by (auto simp: transfer_fits_def split_ok_def mult.commute)

lemma commands_within:
  assumes "transfer_fits d dma sz" "transfer_producers d buffer n_queues sz wr = Some ps" "c \<in> commands_of dma ps" "x \<in> cmd_range dma c"
  shows "x < length (d_ioaddrs dma) * unat (d_page_size dma)"
proof -
  obtain p j where c: "c = (p, j)" "p \<in> set ps" using assms(3) by (auto simp: commands_of_def)
  then have j: "j < n_transfers p dma" using assms(4) by (auto simp: cmd_range_def split: if_splits)
  from cmd_request_range [OF assms(1,2) c(2) j] have
    le: "unat (page_base p dma) + j * max_transfer p dma + cmd_pages p dma j \<le> length (d_ioaddrs dma)" by metis
  have "x < (unat (page_base p dma) + j * max_transfer p dma + cmd_pages p dma j) * unat (d_page_size dma)"
    using assms(4) c j by (simp add: cmd_range_def distrib_right)
  also have "\<dots> \<le> length (d_ioaddrs dma) * unat (d_page_size dma)" using le by (rule mult_le_mono1)
  finally show ?thesis .
qed

text \<open>A write command takes its range of the buffer to the medium, a read command the other way; a flush moves nothing.\<close>

lemma run_command_eq:
  assumes "transfer_fits d dma sz" "transfer_producers d buffer n_queues sz wr = Some ps" "window_maps iommu dma" "c \<in> commands_of dma ps"
  obtains lo n where "\<And>x. x \<in> cmd_range dma c \<longleftrightarrow> lo \<le> x \<and> x < lo + n" "lo + n \<le> length (d_ioaddrs dma) * unat (d_page_size dma)"
    "\<And>m disk. run_command iommu dma c (m, disk) =
       (if wr then (m, \<lambda>i x. if i = dk_ns_id d \<and> x \<in> cmd_range dma c then m (d_vaddr dma + of_nat x) else disk i x)
        else (foldl (\<lambda>m k. m(d_vaddr dma + of_nat (lo + k) := disk (dk_ns_id d) (lo + k))) m [0..<n], disk))"
proof -
  obtain p j where c: "c = (p, j)" "p \<in> set ps" "j < n_commands p dma" using assms(4) by (auto simp: commands_of_def)
  from assms(1) obtain a b where f: "dk_page_size d = 2 ^ a" "dk_block_size d = 2 ^ b" "b \<le> a" "a < 64" "unat sz + 2 ^ a \<le> 2 ^ 64" "d_page_size dma = 2 ^ a"
    unfolding transfer_fits_def by auto
  from transfer_division(4) [OF assms(2) f c(2)] have d: "p_disk p = d" "p_write p = wr" by simp_all
  let ?P = "unat (d_page_size dma)" and ?B = "unat (dk_block_size d)"
  show thesis
  proof (cases "j < n_transfers p dma")
    case False
    then have "wr" using c(3) d(2) by (simp add: n_commands_def split: if_splits)
    then show ?thesis using False c(1) by (intro that [of 0 0]) (simp_all add: run_command_def cmd_request_def execute_io_def cmd_range_def)
  next
    case True
    define lo n where "lo = range_start dma c" and "n = cmd_pages p dma j * ?P"
    from cmd_request_range [OF assms(1,2) c(2) True] obtain slba nlb pages where
      q: "cmd_request p dma j = (if wr then 1 else 2, dk_ns_id d, slba, nlb, pages)" "unat slba * ?B = lo" "(unat nlb + 1) * ?B = n"
      and pg: "\<And>i. i < cmd_pages p dma j \<Longrightarrow> pages ! i = d_ioaddrs dma ! (unat (page_base p dma) + j * max_transfer p dma + i)"
      and le: "unat (page_base p dma) + j * max_transfer p dma + cmd_pages p dma j \<le> length (d_ioaddrs dma)"
      unfolding lo_def n_def c(1) by metis
    have R: "x \<in> cmd_range dma c \<longleftrightarrow> lo \<le> x \<and> x < lo + n" for x using True c(1) by (auto simp: cmd_range_def lo_def n_def)
    have at: "iommu (pages ! (k div ?P) + of_nat (k mod ?P)) = d_vaddr dma + of_nat (lo + k)" if "k < n" for k
      using cmd_request_at [OF assms(3) pg le, of k] that unfolding lo_def n_def c(1) by simp
    have rc: "run_command iommu dma c s = execute_io ?P ?B iommu (if wr then 1 else 2, dk_ns_id d, slba, nlb, pages) s" for s
      unfolding run_command_def c(1) fst_conv snd_conv d q(1) ..
    show ?thesis
    proof (rule that [OF R])
      show "lo + n \<le> length (d_ioaddrs dma) * ?P" using mult_le_mono1 [OF le, of ?P] unfolding lo_def n_def c(1) by (simp add: distrib_right)
      have W: "(\<lambda>i x. if i = dk_ns_id d \<and> lo \<le> x \<and> x < lo + n then m (iommu (pages ! ((x - lo) div ?P) + of_nat ((x - lo) mod ?P))) else disk i x)
        = (\<lambda>i x. if i = dk_ns_id d \<and> x \<in> cmd_range dma c then m (d_vaddr dma + of_nat x) else disk i x)" for m :: mem and disk :: media
        by (intro ext) (use R at in auto)
      have "foldl (\<lambda>m k. m(iommu (pages ! (k div ?P) + of_nat (k mod ?P)) := disk (dk_ns_id d) (lo + k))) m [0..<n]
        = foldl (\<lambda>m k. m(d_vaddr dma + of_nat (lo + k) := disk (dk_ns_id d) (lo + k))) m [0..<n]" for m :: mem and disk :: media
        by (rule foldl_cong) (use at in auto)
      with W show "run_command iommu dma c (m, disk) =
       (if wr then (m, \<lambda>i x. if i = dk_ns_id d \<and> x \<in> cmd_range dma c then m (d_vaddr dma + of_nat x) else disk i x)
        else (foldl (\<lambda>m k. m(d_vaddr dma + of_nat (lo + k) := disk (dk_ns_id d) (lo + k))) m [0..<n], disk))" for m disk
        unfolding rc execute_io_def using q(2,3) by (simp cong: if_cong)
    qed
  qed
qed

definition window_area :: "nvm_dma \<Rightarrow> u64 set" where
  "window_area dma = {d_vaddr dma + of_nat x | x. x < length (d_ioaddrs dma) * unat (d_page_size dma)}"

lemma foldl_upd_outside: "(\<And>k. k < n \<Longrightarrow> f k \<noteq> a) \<Longrightarrow> foldl (\<lambda>m k. m(f k := g k)) m [0..<n] a = m a"
  by (induction n) auto

lemma run_command_effect:
  assumes "transfer_fits d dma sz" "transfer_producers d buffer n_queues sz wr = Some ps" "window_maps iommu dma" "c \<in> commands_of dma ps"
  shows "wr \<Longrightarrow> run_command iommu dma c (m, disk) = (m, \<lambda>i x. if i = dk_ns_id d \<and> x \<in> cmd_range dma c then m (d_vaddr dma + of_nat x) else disk i x)"
    "\<not> wr \<Longrightarrow> snd (run_command iommu dma c (m, disk)) = disk"
    "\<not> wr \<Longrightarrow> x < length (d_ioaddrs dma) * unat (d_page_size dma) \<Longrightarrow> fst (run_command iommu dma c (m, disk)) (d_vaddr dma + of_nat x)
       = (if x \<in> cmd_range dma c then disk (dk_ns_id d) x else m (d_vaddr dma + of_nat x))"
    "a \<notin> window_area dma \<Longrightarrow> fst (run_command iommu dma c (m, disk)) a = m a"
proof -
  obtain lo n where r: "\<And>x. x \<in> cmd_range dma c \<longleftrightarrow> lo \<le> x \<and> x < lo + n" "lo + n \<le> length (d_ioaddrs dma) * unat (d_page_size dma)"
    "\<And>m disk. run_command iommu dma c (m, disk) =
       (if wr then (m, \<lambda>i x. if i = dk_ns_id d \<and> x \<in> cmd_range dma c then m (d_vaddr dma + of_nat x) else disk i x)
        else (foldl (\<lambda>m k. m(d_vaddr dma + of_nat (lo + k) := disk (dk_ns_id d) (lo + k))) m [0..<n], disk))"
    by (rule run_command_eq [OF assms]) blast
  note W = window_small [OF assms(1)]
  show "wr \<Longrightarrow> run_command iommu dma c (m, disk) = (m, \<lambda>i x. if i = dk_ns_id d \<and> x \<in> cmd_range dma c then m (d_vaddr dma + of_nat x) else disk i x)"
    "\<not> wr \<Longrightarrow> snd (run_command iommu dma c (m, disk)) = disk" unfolding r(3) by simp_all
  have "lo + n \<le> 2 ^ 64" using r(2) W by linarith
  then show "\<not> wr \<Longrightarrow> x < length (d_ioaddrs dma) * unat (d_page_size dma) \<Longrightarrow> fst (run_command iommu dma c (m, disk)) (d_vaddr dma + of_nat x)
       = (if x \<in> cmd_range dma c then disk (dk_ns_id d) x else m (d_vaddr dma + of_nat x))"
    unfolding r(3) using r(1) W foldl_upd [of lo n x "d_vaddr dma" "\<lambda>k. disk (dk_ns_id d) (lo + k)" m] by simp
  have "d_vaddr dma + of_nat (lo + k) \<in> window_area dma" if "k < n" for k unfolding window_area_def using r(2) that by (intro CollectI exI [of _ "lo + k"]) simp
  then have "foldl (\<lambda>m k. m(d_vaddr dma + of_nat (lo + k) := disk (dk_ns_id d) (lo + k))) m [0..<n] a = m a" if "a \<notin> window_area dma"
    using that by (intro foldl_upd_outside) blast
  then show "a \<notin> window_area dma \<Longrightarrow> fst (run_command iommu dma c (m, disk)) a = m a" unfolding r(3) by simp
qed

section \<open>All commands together\<close>

text \<open>Together the commands reach every byte of the file, and stay in the window.\<close>

lemma div_below: "0 < P \<Longrightarrow> x < x div P * P + P" for x P :: nat
  using div_mult_mod_eq [of x P] mod_less_divisor [of P x] by linarith

lemma commands_cover:
  assumes "transfer_fits d dma sz" "transfer_producers d buffer n_queues sz wr = Some ps" "x < unat sz"
  shows "\<exists>c \<in> commands_of dma ps. x \<in> cmd_range dma c"
proof -
  from assms(1) obtain a b where f: "dk_page_size d = 2 ^ a" "dk_block_size d = 2 ^ b" "b \<le> a" "a < 64" "unat sz + 2 ^ a \<le> 2 ^ 64" "d_page_size dma = 2 ^ a"
    unfolding transfer_fits_def by auto
  let ?P = "unat (d_page_size dma)"
  have P: "?P = 2 ^ a" "0 < ?P" using f(4,6) by (simp_all add: unat_pow2)
  define q where "q = x div ?P"
  have qx: "q * ?P \<le> x" "x < q * ?P + ?P" unfolding q_def by (rule div_times_less_eq_dividend, rule div_below [OF P(2)])
  then have "q < n_chunks (2 ^ a) (unat sz)" using assms(3) P by (simp add: n_chunks_iff)
  then have "q \<in> set (concat (map (\<lambda>p. [unat (page_base p dma)..<unat (page_base p dma) + unat (producer_pages p dma)]) ps))"
    unfolding transfer_division(2) [OF assms(2) f] by simp
  then obtain p where p: "p \<in> set ps" "unat (page_base p dma) \<le> q" "q < unat (page_base p dma) + unat (producer_pages p dma)" by auto
  let ?MT = "max_transfer p dma" and ?r = "q - unat (page_base p dma)"
  define j where "j = ?r div ?MT"
  have d: "p_disk p = d" using transfer_division(4) [OF assms(2) f p(1)] by simp
  have MT: "0 < ?MT" using assms(1) d f by (simp add: transfer_fits_def split_ok_def)
  have "0 < producer_pages p dma" using p(2,3) by (simp add: word_gt_0) (metis add_cancel_right_right linorder_not_le unat_0)
  note L = producer_within(2) [OF assms(1,2) p(1) this]
  have rj: "j * ?MT \<le> ?r" "?r < j * ?MT + ?MT" unfolding j_def by (rule div_times_less_eq_dividend, rule div_below [OF MT])
  have r: "?r < length (producer_ios p dma)" using p L by simp
  have j: "j < n_transfers p dma" using rj(1) r MT by (simp add: n_transfers_def n_chunks_iff)
  have "?r < j * ?MT + cmd_pages p dma j" using rj r j by (simp add: cmd_pages_def chunk_def)
  then have "Suc q \<le> unat (page_base p dma) + j * ?MT + cmd_pages p dma j" using p(2) by linarith
  from mult_le_mono1 [OF this, of ?P] qx(2) have hi: "x < (unat (page_base p dma) + j * ?MT) * ?P + cmd_pages p dma j * ?P"
    by (simp add: distrib_right)
  have "unat (page_base p dma) + j * ?MT \<le> q" using rj(1) p(2) by linarith
  from mult_le_mono1 [OF this, of ?P] qx(1) have lo: "(unat (page_base p dma) + j * ?MT) * ?P \<le> x" by linarith
  have "(p, j) \<in> commands_of dma ps" using p(1) j by (simp add: commands_of_def n_commands_def)
  moreover have "x \<in> cmd_range dma (p, j)" using j lo hi by (simp add: cmd_range_def)
  ultimately show ?thesis by blast
qed

end
