(* ===== verification/Io_Turn.thy ===== *)
theory Io_Turn
  imports Io_Disk
begin

unbundle bit_operations_syntax

text \<open>
  The producers of a transfer of \<open>examples/integrity/transfer.c\<close> one turn at a time, so that other threads and the
  controller can run between the turns: \<open>produce_commands\<close> cut at the points where it looks at its queue.  Whatever
  happens between the turns, the entries of the queue that are in flight hold the commands of the producer.
\<close>

section \<open>A turn of a producer\<close>

text \<open>
  Where a producer is in \<open>produce_commands\<close>: in its loop with the two local variables \<open>page_offset\<close> and
  \<open>transfer_pages\<close>, before the flush, before the last doorbell write, or returned.  A turn is one attempt to take
  an entry with what follows it; the controller and the other threads run between turns.
\<close>

datatype producer_at = Issuing u64 u64 | Flushing | Announcing | Finished

definition producer_start :: "producer \<Rightarrow> nvm_dma \<Rightarrow> producer_at" where
  "producer_start p dma = Issuing 0 (dk_max_data_size (p_disk p) div d_page_size dma)"

definition issue_turn ::
  "bool \<Rightarrow> device \<Rightarrow> producer \<Rightarrow> nvm_dma \<Rightarrow> u64 \<Rightarrow> u64 \<Rightarrow> queue \<Rightarrow> world \<Rightarrow> (producer_at \<times> queue \<times> world) option" where
  "issue_turn ndebug dev p dma page_offset transfer_pages queue w =
     do { (cmd, sq, m) \<leftarrow> nvm_sq_enqueue (u_queue queue) (w_mem w);
          if cmd = NULL then
            (case nvm_sq_submit dev sq w of (sq, w) \<Rightarrow> Some (Issuing page_offset transfer_pages, queue\<lparr>u_queue := sq\<rparr>, w))
          else
            do { m \<leftarrow> produce_command ndebug p dma (queue\<lparr>u_queue := sq\<rparr>) cmd page_offset transfer_pages m;
                 Some (Issuing (page_offset + transfer_pages) transfer_pages, queue\<lparr>u_queue := sq, u_counter := u_counter queue + 1\<rparr>, w\<lparr>w_mem := m\<rparr>) } }"

definition flush_turn :: "producer \<Rightarrow> queue \<Rightarrow> world \<Rightarrow> (producer_at \<times> queue \<times> world) option" where
  "flush_turn p queue w =
     do { (cmd, sq, m) \<leftarrow> nvm_sq_enqueue (u_queue queue) (w_mem w);
          if cmd = NULL then Some (Flushing, queue\<lparr>u_queue := sq\<rparr>, w)
          else
            do { let m = slot_update cmd (\<lambda>c. nvm_cmd_header c (io_opcode NVM_IO_FLUSH) (dk_ns_id (p_disk p))) m;
                 let m = slot_update cmd (\<lambda>c. nvm_cmd_data_ptr c 0 0) m;
                 let m = slot_update cmd (\<lambda>c. nvm_cmd_rw_blks c 0 0) m;
                 Some (Announcing, queue\<lparr>u_queue := sq, u_counter := u_counter queue + 1\<rparr>, w\<lparr>w_mem := m\<rparr>) } }"

definition producer_turn ::
  "bool \<Rightarrow> device \<Rightarrow> producer \<Rightarrow> nvm_dma \<Rightarrow> producer_at \<Rightarrow> queue \<Rightarrow> world \<Rightarrow> (producer_at \<times> queue \<times> world) option" where
  "producer_turn ndebug dev p dma at queue w =
     (case at of
        Issuing page_offset transfer_pages \<Rightarrow>
          let n_pages = producer_pages p dma in
          if page_offset < n_pages
          then issue_turn ndebug dev p dma page_offset (if n_pages - page_offset < transfer_pages then n_pages - page_offset else transfer_pages) queue w
          else Some (if p_write p then Flushing else Announcing, queue, w)
      | Flushing \<Rightarrow> flush_turn p queue w
      | Announcing \<Rightarrow> (case nvm_sq_submit dev (u_queue queue) w of (sq, w) \<Rightarrow> Some (Finished, queue\<lparr>u_queue := sq\<rparr>, w))
      | Finished \<Rightarrow> Some (Finished, queue, w))"

text \<open>When nothing happens meanwhile and an entry is free, a turn is a round of the loop of \<open>produce_commands\<close>.\<close>

lemma issue_turn_agrees:
  assumes "nvm_sq_enqueue (u_queue q) (w_mem w) = Some (cmd, sq, m)" "cmd \<noteq> NULL" "oth (w_tick w) (u_queue q) (w_mem w) = (0, w_mem w)"
    and "off < producer_pages p dma"
  shows "produce_step ndebug oth dev p dma (producer_pages p dma) \<lparr>po_offset = off, po_transfer = tr, po_queue = q, po_world = w\<rparr>
    = map_option (\<lambda>(at, q', w'). case at of Issuing off' tr' \<Rightarrow>
        \<lparr>po_offset = off', po_transfer = tr', po_queue = q', po_world = w'\<lparr>w_tick := Suc (w_tick w)\<rparr>\<rparr>) (producer_turn ndebug dev p dma (Issuing off tr) q w)"
proof -
  have "sq_enqueue_wait oth dev (u_queue q) 0 w = Some (cmd, sq, 0, w\<lparr>w_mem := m, w_tick := Suc (w_tick w)\<rparr>)"
    using assms(1-3) by (subst sq_enqueue_wait.simps) (simp add: meanwhile_def)
  then show ?thesis using assms(1,2,4)
    by (simp add: produce_step_def producer_turn_def issue_turn_def Let_def map_option_case split: option.splits bind_split)
qed

section \<open>Entries in memory\<close>

lemma issued_mem:
  assumes "issued mem q0 len req i q m" "io_window mem q0" "\<And>j. 8 * (len j - 1) \<le> unat (d_page_size mem)" "\<forall>x \<in> io_region mem q0. m' x = m x"
  shows "issued mem q0 len req i q m'"
proof -
  note d = issuedD [OF assms(1)]
  have "slot_holds mem q0 m' j (len j) (req j) = slot_holds mem q0 m j (len j) (req j)" for j
    by (rule cmd_bytes_fetch [OF assms(2,3)]) (use assms(4) cmd_bytes_region [OF assms(2) d(6) assms(3)] in blast)
  then show ?thesis using assms(1) by (simp add: issued_def)
qed

lemma issued_retire:
  assumes "issued mem q0 len req i q m" "submitted q \<noteq> 0"
  shows "issued mem q0 len req i (nvm_sq_update q) m"
proof -
  note u = sq_live_update [OF issuedD(1) [OF assms(1)] assms(2)]
  have "sq_counts i (nvm_sq_update q)" "same_place (nvm_sq_update q) q0"
    using issuedD(2,3) [OF assms(1)] by (simp_all add: sq_counts_def same_place_def)
  then show ?thesis using assms(1) u by (simp add: issued_def)
qed

lemma issued_announce:
  assumes "issued mem q0 len req i q m"
  shows "issued mem q0 len req i (q\<lparr>q_last := q_tail q\<rparr>) m"
proof -
  have "in_flight (q\<lparr>q_last := q_tail q\<rparr>) = in_flight q" by (simp add: in_flight_def)
  then show ?thesis using assms sq_live_last(1) [of q] by (simp add: issued_def sq_counts_def same_place_def)
qed

text \<open>Taking a free entry, and what is to be done to make it the next command.\<close>

lemma issue_free:
  assumes win: "io_window mem q0" and st: "issued mem q0 len req i q m"
    and len: "\<And>j. 8 * (len j - 1) \<le> unat (d_page_size mem)" and free: "in_flight q < q_n q0 - 1"
  obtains m1 where "nvm_sq_enqueue q m = Some (slot_of q0 i, sq_bump q, m1)" "slot_of q0 i \<noteq> NULL"
    "load16 m1 (NVM_CMD_CID (slot_of q0 i)) = of_nat ((i + 1) mod (2 * q_n q0))"
    "\<And>m'. \<forall>x. x \<notin> cmd_bytes mem q0 (len i) i \<longrightarrow> m' x = m1 x \<Longrightarrow> slot_holds mem q0 m' i (len i) (req i) \<Longrightarrow>
       issued mem q0 len req (Suc i) (sq_bump q) m' \<and> (\<forall>x. x \<notin> io_region mem q0 \<longrightarrow> m' x = m x)"
proof -
  note d = issuedD [OF st] and l = sq_liveD [OF issuedD(1) [OF st]]
  have fr: "in_flight q < q_n q - 1" using free d(5) by simp
  have "q_tail q = of_nat (i mod q_n q0)" using d(2,5) by (metis of_nat_unat sq_counts_def ucast_id)
  then have slot: "queue_slot q (q_tail q) = slot_of q0 i" using d(3) by (simp add: slot_of_def queue_slot_def same_place_def)
  have "sq_cid (sq_bump q) = of_nat (Suc i mod (2 * q_n (sq_bump q)))"
    by (rule sq_cid_counts [OF sq_bump_wf [OF l(2)] sq_counts_bump [OF l(2) d(2)]]) (use win d(5) in \<open>simp add: io_window_def\<close>)
  then have cid: "sq_cid (sq_bump q) = of_nat ((i + 1) mod (2 * q_n q0))" using d(5) by simp
  let ?m1 = "store16 (NVM_CMD_CID (slot_of q0 i)) (of_nat ((i + 1) mod (2 * q_n q0))) m"
  show thesis
  proof (rule that)
    show "nvm_sq_enqueue q m = Some (slot_of q0 i, sq_bump q, ?m1)"
      using nvm_sq_enqueue_free [OF l(2,3) fr, of m] by (simp only: slot cid)
    show "slot_of q0 i \<noteq> NULL" unfolding slot [symmetric] using l(1) by (intro queue_slot_nonnull) (auto simp: sq_ok_def queue_wf_def)
    show "load16 ?m1 (NVM_CMD_CID (slot_of q0 i)) = of_nat ((i + 1) mod (2 * q_n q0))" by (rule load16_store16)
    fix m' assume m': "\<forall>x. x \<notin> cmd_bytes mem q0 (len i) i \<longrightarrow> m' x = ?m1 x" "slot_holds mem q0 m' i (len i) (req i)"
    have "slot_holds mem q0 m' j (len j) (req j)" if "j < Suc i" "Suc i \<le> j + q_n q0" for j
    proof (cases "j = i")
      case False
      then have j: "j < i" "i < j + q_n q0" using that by simp_all
      have "\<forall>x \<in> io_region mem q0. ?m1 x = store16 (NVM_CMD_CID (slot_of q0 i)) (of_nat ((i + 1) mod (2 * q_n q0))) m x" by simp
      from older_commands_kept [OF win d(6) len len j this m'(1)] st j show ?thesis by (simp add: issued_def)
    qed (use m'(2) in simp)
    moreover have "m' x = m x" if "x \<notin> io_region mem q0" for x
    proof -
      have n: "x \<notin> cmd_bytes mem q0 (len i) i" using that cmd_bytes_region [OF win d(6) len, of i i] by blast
      then have "\<not> in_range (slot_of q0 i) 64 x" by (simp add: cmd_bytes_def)
      then have "\<not> in_range (slot_of q0 i + of_nat 2) 2 x"
        using in_range_split [of 2 2 "slot_of q0 i" x] in_range_mono [of "slot_of q0 i" 4 x 64] by auto
      then show ?thesis using m'(1) n by (simp add: NVM_CMD_CID_def store16_other)
    qed
    ultimately show "issued mem q0 len req (Suc i) (sq_bump q) m' \<and> (\<forall>x. x \<notin> io_region mem q0 \<longrightarrow> m' x = m x)"
      using sq_live_bump [OF d(1) fr] sq_counts_bump [OF l(2) d(2)] d(3,4) by (simp add: issued_def same_place_def)
  qed
qed

section \<open>A producer\<close>

text \<open>The window with the memory of a queue.\<close>

abbreviation qmem_dma :: "queue \<Rightarrow> nvm_dma" where
  "qmem_dma q \<equiv> dc_handle (the (b_dma (u_qmem q)))"

text \<open>A queue that was just created, in memory of its own, and a producer whose part of the buffer is in the window.\<close>

definition queue_ready :: "nvm_dma \<Rightarrow> queue \<Rightarrow> bool" where
  "queue_ready dma q \<longleftrightarrow> b_dma (u_qmem q) \<noteq> None \<and> sq_live (u_queue q) \<and> sq_counts 0 (u_queue q) \<and> in_flight (u_queue q) = 0 \<and> u_counter q = 0
     \<and> io_window (qmem_dma q) (u_queue q) \<and> d_page_size (qmem_dma q) = d_page_size dma"

definition work_ready :: "producer \<Rightarrow> nvm_dma \<Rightarrow> bool" where
  "work_ready p dma \<longleftrightarrow> split_ok (d_page_size dma) (dk_block_size (p_disk p)) (max_transfer p dma) (length (producer_ios p dma))
     \<and> length (producer_ios p dma) = unat (producer_pages p dma) \<and> length (d_ioaddrs dma) < 2 ^ 64
     \<and> (0 < producer_pages p dma \<longrightarrow> unat (page_base p dma) + unat (producer_pages p dma) \<le> length (d_ioaddrs dma))"

text \<open>A producer that has issued \<open>N\<close> commands.\<close>

definition place_ok :: "producer \<Rightarrow> nvm_dma \<Rightarrow> producer_at \<Rightarrow> nat \<Rightarrow> nvm_queue \<Rightarrow> bool" where
  "place_ok p dma at N sq \<longleftrightarrow> (case at of
      Issuing off tr \<Rightarrow> N \<le> n_transfers p dma \<and> off = of_nat (min (unat (producer_pages p dma)) (N * max_transfer p dma))
        \<and> (N < n_transfers p dma \<longrightarrow> min (producer_pages p dma - off) tr = min (producer_pages p dma - off) (dk_max_data_size (p_disk p) div d_page_size dma))
    | Flushing \<Rightarrow> N = n_transfers p dma \<and> p_write p
    | Announcing \<Rightarrow> N = n_commands p dma
    | Finished \<Rightarrow> N = n_commands p dma \<and> q_last sq = q_tail sq)"

definition producer_ok :: "producer \<Rightarrow> nvm_dma \<Rightarrow> queue \<Rightarrow> producer_at \<Rightarrow> nat \<Rightarrow> queue \<Rightarrow> mem \<Rightarrow> bool" where
  "producer_ok p dma q0 at N q m \<longleftrightarrow> issued (qmem_dma q0) (u_queue q0) (cmd_pages p dma) (cmd_request p dma) N (u_queue q) m
     \<and> u_qmem q = u_qmem q0 \<and> place_ok p dma at N (u_queue q)"

lemma place_ok_le: "place_ok p dma at N sq \<Longrightarrow> N \<le> n_commands p dma"
  by (cases at) (auto simp: place_ok_def n_commands_def)

lemma queue_readyD:
  assumes "queue_ready dma q"
  shows "map_option dc_handle (b_dma (u_qmem q)) = Some (qmem_dma q)" "sq_live (u_queue q)" "io_window (qmem_dma q) (u_queue q)" "0 < q_n (u_queue q)"
    "d_page_size (qmem_dma q) = d_page_size dma"
  using assms sq_liveD(4) [of "u_queue q"] by (auto simp: queue_ready_def)

lemma cmd_pages_fit:
  assumes "queue_ready dma q" "work_ready p dma"
  shows "8 * (cmd_pages p dma j - 1) \<le> unat (d_page_size (qmem_dma q))"
proof -
  have "split_ok (d_page_size dma) (dk_block_size (p_disk p)) (max_transfer p dma) (length (producer_ios p dma))" using assms(2) unfolding work_ready_def by blast
  from split_okD(8) [OF this] queue_readyD(5) [OF assms(1)] show ?thesis by (simp add: cmd_pages_def)
qed

lemma producer_ok_start: "queue_ready dma q \<Longrightarrow> producer_ok p dma q (producer_start p dma) 0 q m"
  using issued_start by (simp add: producer_ok_def queue_ready_def producer_start_def place_ok_def)

lemma producer_ok_mem:
  assumes "producer_ok p dma q0 at N q m" "queue_ready dma q0" "work_ready p dma" "\<forall>x \<in> io_region (qmem_dma q0) (u_queue q0). m' x = m x"
  shows "producer_ok p dma q0 at N q m'"
  using assms(1) issued_mem [OF _ queue_readyD(3) [OF assms(2)] cmd_pages_fit [OF assms(2,3)] assms(4)] by (simp add: producer_ok_def)

lemma producer_ok_retire:
  assumes "producer_ok p dma q0 at N q m" "submitted (u_queue q) \<noteq> 0"
  shows "producer_ok p dma q0 at N (q\<lparr>u_queue := nvm_sq_update (u_queue q)\<rparr>) m"
  using assms issued_retire by (auto simp: producer_ok_def place_ok_def split: producer_at.splits)

text \<open>What the doorbells and the device leave alone.\<close>

definition untouched :: "device \<Rightarrow> nvm_queue \<Rightarrow> u64 set \<Rightarrow> bool" where
  "untouched dev q A \<longleftrightarrow> (\<forall>a \<in> A. \<not> in_range (q_db q) 4 a \<and> (\<forall>t m. dev t m a = m a))"

lemma submit_untouched:
  assumes "nvm_sq_submit dev q w = (sq, w')" "untouched dev q A"
  shows "sq = q\<lparr>q_last := q_tail q\<rparr>" "\<forall>a \<in> A. w_mem w' a = w_mem w a"
  using assms by (auto simp: nvm_sq_submit_def reg_write32_def dev_step_def untouched_def store32_other split: if_splits)

lemma cq_update_untouched:
  assumes "nvm_cq_update dev q w = (cq, w')" "untouched dev q A"
  shows "cq = q\<lparr>q_last := q_head q\<rparr>" "\<forall>a \<in> A. w_mem w' a = w_mem w a"
  using assms by (auto simp: nvm_cq_update_def reg_write32_def dev_step_def untouched_def store32_other split: if_splits)


text \<open>
  A turn issues the next command, or it issues nothing and at most rings the doorbell.  When there is a free entry
  for every command that is left, it brings the producer closer to its end.
\<close>

definition rank :: "producer \<Rightarrow> nvm_dma \<Rightarrow> producer_at \<Rightarrow> nat \<Rightarrow> nat" where
  "rank p dma at N = 6 * (n_commands p dma - N) + (case at of Issuing _ _ \<Rightarrow> 3 | Flushing \<Rightarrow> 2 | Announcing \<Rightarrow> 1 | Finished \<Rightarrow> 0)"

definition turn_issues :: "producer \<Rightarrow> nvm_dma \<Rightarrow> queue \<Rightarrow> producer_at \<Rightarrow> nat \<Rightarrow> queue \<Rightarrow> mem \<Rightarrow> producer_at \<Rightarrow> queue \<Rightarrow> mem \<Rightarrow> bool" where
  "turn_issues p dma q0 at N q m at' q' m' \<longleftrightarrow>
     (\<exists>cmd m1. nvm_sq_enqueue (u_queue q) m = Some (cmd, u_queue q', m1) \<and> cmd \<noteq> NULL \<and> q' = q\<lparr>u_queue := u_queue q', u_counter := u_counter q + 1\<rparr>)
     \<and> (\<forall>x. x \<notin> io_region (qmem_dma q0) (u_queue q0) \<longrightarrow> m' x = m x) \<and> producer_ok p dma q0 at' (Suc N) q' m' \<and> rank p dma at' (Suc N) + 5 < rank p dma at N"

definition turn_announces :: "device \<Rightarrow> u64 set \<Rightarrow> producer \<Rightarrow> nvm_dma \<Rightarrow> queue \<Rightarrow> producer_at \<Rightarrow> nat \<Rightarrow> queue \<Rightarrow> mem \<Rightarrow> producer_at \<Rightarrow> queue \<Rightarrow> mem \<Rightarrow> bool" where
  "turn_announces dev A p dma q0 at N q m at' q' m' \<longleftrightarrow>
     (q' = q \<or> (\<exists>w w'. nvm_sq_submit dev (u_queue q) w = (u_queue q', w') \<and> q' = q\<lparr>u_queue := u_queue q'\<rparr>))
     \<and> (\<forall>x \<in> A. m' x = m x) \<and> producer_ok p dma q0 at' N q' m'
     \<and> (at \<noteq> Finished \<and> (N < n_commands p dma \<longrightarrow> in_flight (u_queue q) < q_n (u_queue q0) - 1) \<longrightarrow> rank p dma at' N < rank p dma at N)"

lemma work_readyD:
  assumes "work_ready p dma"
  shows "split_ok (d_page_size dma) (dk_block_size (p_disk p)) (max_transfer p dma) (length (producer_ios p dma))"
    "length (producer_ios p dma) = unat (producer_pages p dma)" "length (d_ioaddrs dma) < 2 ^ 64"
    "0 < producer_pages p dma \<Longrightarrow> unat (page_base p dma) + unat (producer_pages p dma) \<le> length (d_ioaddrs dma)"
  using assms unfolding work_ready_def by blast+

lemma full_or_free:
  assumes "issued mem q0 len req i q m"
  shows "in_flight q < q_n q0 - 1 \<or> nvm_sq_enqueue q m' = Some (NULL, q, m')"
proof -
  note l = sq_liveD [OF issuedD(1) [OF assms]]
  show ?thesis using nvm_sq_enqueue_full [OF l(2,3), of m'] in_flight_less [OF l(2)] issuedD(5) [OF assms] by linarith
qed

lemma turn_submit:
  assumes ok: "producer_ok p dma q0 at N q (w_mem w)" and rd: "queue_ready dma q0" "work_ready p dma"
    and A: "untouched dev (u_queue q0) A" "io_region (qmem_dma q0) (u_queue q0) \<subseteq> A"
    and s: "nvm_sq_submit dev (u_queue q) w = (sq, w')" and at: "place_ok p dma at' N sq"
    and r: "at \<noteq> Finished \<and> (N < n_commands p dma \<longrightarrow> in_flight (u_queue q) < q_n (u_queue q0) - 1) \<Longrightarrow> rank p dma at' N < rank p dma at N"
  shows "turn_announces dev A p dma q0 at N q (w_mem w) at' (q\<lparr>u_queue := sq\<rparr>) (w_mem w')"
proof -
  have i: "issued (qmem_dma q0) (u_queue q0) (cmd_pages p dma) (cmd_request p dma) N (u_queue q) (w_mem w)" "u_qmem q = u_qmem q0"
    using ok by (simp_all add: producer_ok_def)
  have "q_db (u_queue q) = q_db (u_queue q0)" using issuedD(3) [OF i(1)] by (simp add: same_place_def)
  then have "untouched dev (u_queue q) A" using A(1) by (simp add: untouched_def)
  note u = submit_untouched [OF s this]
  have "issued (qmem_dma q0) (u_queue q0) (cmd_pages p dma) (cmd_request p dma) N sq (w_mem w')"
    unfolding u(1) by (rule issued_mem [OF issued_announce [OF i(1)] queue_readyD(3) [OF rd(1)] cmd_pages_fit [OF rd]]) (use u(2) A(2) in blast)
  then show ?thesis using u(2) s i(2) at r unfolding turn_announces_def producer_ok_def by auto
qed

lemma issue_turn_ok:
  assumes ok: "producer_ok p dma q0 (Issuing off tr) N q (w_mem w)" and rd: "queue_ready dma q0" "work_ready p dma" and off: "off < producer_pages p dma"
    and A: "untouched dev (u_queue q0) A" "io_region (qmem_dma q0) (u_queue q0) \<subseteq> A"
    and np: "np = (if producer_pages p dma - off < tr then producer_pages p dma - off else tr)"
  shows "\<exists>at' q' w'. issue_turn ndebug dev p dma off np q w = Some (at', q', w')
    \<and> (turn_issues p dma q0 (Issuing off tr) N q (w_mem w) at' q' (w_mem w') \<or> turn_announces dev A p dma q0 (Issuing off tr) N q (w_mem w) at' q' (w_mem w'))"
proof -
  let ?q0 = "u_queue q0" and ?prp = "qmem_dma q0" and ?t0 = "dk_max_data_size (p_disk p) div d_page_size dma"
  from ok have st: "issued ?prp ?q0 (cmd_pages p dma) (cmd_request p dma) N (u_queue q) (w_mem w)" and qm: "u_qmem q = u_qmem q0"
    and pl: "N \<le> n_transfers p dma" "off = of_nat (min (unat (producer_pages p dma)) (N * max_transfer p dma))"
      "N < n_transfers p dma \<Longrightarrow> min (producer_pages p dma - off) tr = min (producer_pages p dma - off) ?t0"
    unfolding producer_ok_def place_ok_def producer_at.case by blast+
  note q = queue_readyD [OF rd(1)] and wk = work_readyD [OF rd(2)] and fit = cmd_pages_fit [OF rd]
  have T: "0 < producer_pages p dma" using off by (rule order_le_less_trans [rotated]) simp
  have N: "N < n_transfers p dma"
  proof (rule ccontr)
    assume "\<not> N < n_transfers p dma"
    then have "N = n_transfers p dma" using pl(1) by linarith
    then have "off = of_nat (min (unat (producer_pages p dma)) (n_chunks (max_transfer p dma) (unat (producer_pages p dma)) * max_transfer p dma))"
      using pl(2) unfolding n_transfers_def wk(2) by blast
    from split_counter_end [OF split_okD(4) [OF wk(1)] this] have "off = producer_pages p dma" .
    with off show False by simp
  qed
  have np': "np = (if producer_pages p dma - off < ?t0 then producer_pages p dma - off else ?t0)" "np = min (producer_pages p dma - off) tr"
    using pl(3) [OF N] np by (auto simp: min_def split: if_splits)
  consider (free) "in_flight (u_queue q) < q_n ?q0 - 1" | (full) "\<not> in_flight (u_queue q) < q_n ?q0 - 1" "nvm_sq_enqueue (u_queue q) (w_mem w) = Some (NULL, u_queue q, w_mem w)"
    using full_or_free [OF st] by blast
  then show ?thesis
  proof cases
    case free
    obtain m1 where
      e: "nvm_sq_enqueue (u_queue q) (w_mem w) = Some (slot_of ?q0 N, sq_bump (u_queue q), m1)" "slot_of ?q0 N \<noteq> NULL"
        "load16 m1 (NVM_CMD_CID (slot_of ?q0 N)) = of_nat ((N + 1) mod (2 * q_n ?q0))"
      and iss: "\<And>m'. \<forall>x. x \<notin> cmd_bytes ?prp ?q0 (cmd_pages p dma N) N \<longrightarrow> m' x = m1 x \<Longrightarrow>
         slot_holds ?prp ?q0 m' N (cmd_pages p dma N) (cmd_request p dma N) \<Longrightarrow>
         issued ?prp ?q0 (cmd_pages p dma) (cmd_request p dma) (Suc N) (sq_bump (u_queue q)) m' \<and> (\<forall>x. x \<notin> io_region ?prp ?q0 \<longrightarrow> m' x = w_mem w x)"
      by (rule issue_free [OF q(3) st fit free]) blast
    let ?q1 = "q\<lparr>u_queue := sq_bump (u_queue q)\<rparr>"
    have "q_max_entries (u_queue ?q1) = q_max_entries ?q0" "map_option dc_handle (b_dma (u_qmem ?q1)) = Some ?prp"
      using issuedD(3) [OF st] q(1) qm by (simp_all add: same_place_def)
    note cmd = produce_command_issues [OF q(3,4,5) wk(1,2) wk(4) [OF T] wk(3) N pl(2) refl np'(1) this e(3)]
    from cmd(1) [of ndebug] obtain m' where m': "produce_command ndebug p dma ?q1 (slot_of ?q0 N) off np m1 = Some m'"
      "issued ?prp ?q0 (cmd_pages p dma) (cmd_request p dma) (Suc N) (sq_bump (u_queue q)) m'" "\<forall>x. x \<notin> io_region ?prp ?q0 \<longrightarrow> m' x = w_mem w x"
      using iss by blast
    have "Suc N < n_transfers p dma \<longrightarrow> np = ?t0" using cmd(4) by (simp only: word_unat_eq_iff)
    then have "place_ok p dma (Issuing (off + np) np) (Suc N) (sq_bump (u_queue q))"
      using cmd(3) N unfolding place_ok_def producer_at.case by (intro conjI impI) simp_all
    moreover have "rank p dma (Issuing (off + np) np) (Suc N) + 5 < rank p dma (Issuing off tr) N" using N by (auto simp: rank_def n_commands_def)
    ultimately have "turn_issues p dma q0 (Issuing off tr) N q (w_mem w) (Issuing (off + np) np) (?q1\<lparr>u_counter := u_counter q + 1\<rparr>) m'"
      unfolding turn_issues_def producer_ok_def using e(1,2) m'(2,3) qm by simp
    then show ?thesis using e(1,2) m'(1) by (simp add: issue_turn_def)
  next
    case full
    obtain sq w' where s: "nvm_sq_submit dev (u_queue q) w = (sq, w')" by fastforce
    then have "sq = (u_queue q)\<lparr>q_last := q_tail (u_queue q)\<rparr>" by (auto simp: nvm_sq_submit_def split: if_splits)
    then have "place_ok p dma (Issuing off np) N sq" using pl np'(2) by (simp add: place_ok_def)
    moreover have "N < n_commands p dma" using N by (simp add: n_commands_def)
    ultimately have "turn_announces dev A p dma q0 (Issuing off tr) N q (w_mem w) (Issuing off np) (q\<lparr>u_queue := sq\<rparr>) (w_mem w')"
      using full(1) by (intro turn_submit [OF ok rd A s]) simp_all
    then show ?thesis using s full(2) by (simp add: issue_turn_def)
  qed
qed

lemma flush_turn_ok:
  assumes ok: "producer_ok p dma q0 Flushing N q (w_mem w)" and rd: "queue_ready dma q0" "work_ready p dma"
  shows "\<exists>at' q' w'. flush_turn p q w = Some (at', q', w')
    \<and> (turn_issues p dma q0 Flushing N q (w_mem w) at' q' (w_mem w') \<or> turn_announces dev A p dma q0 Flushing N q (w_mem w) at' q' (w_mem w'))"
proof -
  let ?q0 = "u_queue q0" and ?prp = "qmem_dma q0"
  from ok have st: "issued ?prp ?q0 (cmd_pages p dma) (cmd_request p dma) N (u_queue q) (w_mem w)" and qm: "u_qmem q = u_qmem q0"
    and N: "N = n_transfers p dma" "p_write p" unfolding producer_ok_def place_ok_def producer_at.case by blast+
  have c: "cmd_pages p dma N = 1" "cmd_request p dma N = (0, dk_ns_id (p_disk p), 0, 0xffff, [0])" "n_commands p dma = Suc N"
    using N by (simp_all add: cmd_pages_def cmd_request_def n_commands_def)
  note q = queue_readyD [OF rd(1)] and fit = cmd_pages_fit [OF rd]
  consider (free) "in_flight (u_queue q) < q_n ?q0 - 1" | (full) "\<not> in_flight (u_queue q) < q_n ?q0 - 1" "nvm_sq_enqueue (u_queue q) (w_mem w) = Some (NULL, u_queue q, w_mem w)"
    using full_or_free [OF st] by blast
  then show ?thesis
  proof cases
    case free
    obtain m1 where e: "nvm_sq_enqueue (u_queue q) (w_mem w) = Some (slot_of ?q0 N, sq_bump (u_queue q), m1)" "slot_of ?q0 N \<noteq> NULL"
      and iss: "\<And>m'. \<forall>x. x \<notin> cmd_bytes ?prp ?q0 (cmd_pages p dma N) N \<longrightarrow> m' x = m1 x \<Longrightarrow>
         slot_holds ?prp ?q0 m' N (cmd_pages p dma N) (cmd_request p dma N) \<Longrightarrow>
         issued ?prp ?q0 (cmd_pages p dma) (cmd_request p dma) (Suc N) (sq_bump (u_queue q)) m' \<and> (\<forall>x. x \<notin> io_region ?prp ?q0 \<longrightarrow> m' x = w_mem w x)"
      by (rule issue_free [OF q(3) st fit free]) blast
    let ?m' = "slot_update (slot_of ?q0 N) (\<lambda>c. nvm_cmd_rw_blks c 0 0) (slot_update (slot_of ?q0 N) (\<lambda>c. nvm_cmd_data_ptr c 0 0)
      (slot_update (slot_of ?q0 N) (\<lambda>c. nvm_cmd_header c (io_opcode NVM_IO_FLUSH) (dk_ns_id (p_disk p))) m1))"
    let ?q' = "q\<lparr>u_queue := sq_bump (u_queue q), u_counter := u_counter q + 1\<rparr>"
    note m' = iss [unfolded c, OF flush_command [OF q(3,4) refl]]
    have "rank p dma Announcing (Suc N) + 5 < rank p dma Flushing N" using c(3) by (simp add: rank_def)
    then have "turn_issues p dma q0 Flushing N q (w_mem w) Announcing ?q' ?m'"
      unfolding turn_issues_def producer_ok_def place_ok_def using e m' qm c by (simp del: io_opcode.simps)
    then show ?thesis using e by (simp add: flush_turn_def del: io_opcode.simps)
  next
    case full
    then have "turn_announces dev A p dma q0 Flushing N q (w_mem w) Flushing q (w_mem w)" using ok c(3) by (simp add: turn_announces_def)
    then show ?thesis using full(2) by (simp add: flush_turn_def)
  qed
qed

lemma producer_turn_ok:
  assumes ok: "producer_ok p dma q0 at N q (w_mem w)" and rd: "queue_ready dma q0" "work_ready p dma"
    and A: "untouched dev (u_queue q0) A" "io_region (qmem_dma q0) (u_queue q0) \<subseteq> A"
  shows "\<exists>at' q' w'. producer_turn ndebug dev p dma at q w = Some (at', q', w')
    \<and> (turn_issues p dma q0 at N q (w_mem w) at' q' (w_mem w') \<or> turn_announces dev A p dma q0 at N q (w_mem w) at' q' (w_mem w'))"
proof (cases at)
  case (Issuing off tr)
  note wk = work_readyD [OF rd(2)]
  show ?thesis
  proof (cases "off < producer_pages p dma")
    case True
    then have "producer_turn ndebug dev p dma at q w = issue_turn ndebug dev p dma off
        (if producer_pages p dma - off < tr then producer_pages p dma - off else tr) q w"
      by (simp only: Issuing producer_turn_def producer_at.case Let_def if_True)
    then show ?thesis using issue_turn_ok [OF ok [unfolded Issuing] rd True A refl, of ndebug] unfolding Issuing by (simp only:)
  next
    case False
    from ok have pl: "N \<le> n_transfers p dma" "off = of_nat (min (unat (producer_pages p dma)) (N * max_transfer p dma))"
      unfolding producer_ok_def place_ok_def Issuing producer_at.case by blast+
    have N: "N = n_transfers p dma"
    proof (rule ccontr)
      assume "N \<noteq> n_transfers p dma"
      then have n: "N < n_chunks (max_transfer p dma) (unat (producer_pages p dma))" using pl(1) unfolding n_transfers_def wk(2) by simp
      from split_counter(3) [OF split_okD(4) [OF wk(1)] n pl(2) refl refl] False show False by simp
    qed
    let ?at = "if p_write p then Flushing else Announcing"
    have "place_ok p dma ?at N (u_queue q)" using N by (simp add: place_ok_def n_commands_def)
    moreover have "rank p dma ?at N < rank p dma at N" by (simp add: Issuing rank_def)
    ultimately have "turn_announces dev A p dma q0 at N q (w_mem w) ?at q (w_mem w)" using ok by (simp add: turn_announces_def producer_ok_def)
    then show ?thesis using False unfolding Issuing by (simp add: producer_turn_def)
  qed
next
  case Flushing
  then show ?thesis using flush_turn_ok [OF ok [unfolded Flushing] rd] by (simp add: producer_turn_def)
next
  case Announcing
  obtain sq w' where s: "nvm_sq_submit dev (u_queue q) w = (sq, w')" by fastforce
  then have "sq = (u_queue q)\<lparr>q_last := q_tail (u_queue q)\<rparr>" by (auto simp: nvm_sq_submit_def split: if_splits)
  then have "place_ok p dma Finished N sq" using ok Announcing by (simp add: producer_ok_def place_ok_def)
  then have "turn_announces dev A p dma q0 at N q (w_mem w) Finished (q\<lparr>u_queue := sq\<rparr>) (w_mem w')"
    by (intro turn_submit [OF ok rd A s]) (simp_all add: Announcing rank_def)
  then show ?thesis using s Announcing by (simp add: producer_turn_def)
next
  case Finished
  then have "turn_announces dev A p dma q0 at N q (w_mem w) Finished q (w_mem w)" using ok by (simp add: turn_announces_def)
  then show ?thesis using Finished by (simp add: producer_turn_def)
qed

end
