(* ===== verification/Io_Run.thy ===== *)
theory Io_Run
  imports Io_Threads Io_Turn
begin

unbundle bit_operations_syntax

text \<open>
  A whole transfer of \<open>examples/integrity/transfer.c\<close>: the threads of \<open>Io_Threads\<close> with what they write to memory, and a
  controller that fetches the commands from memory and executes them.  Every interleaving is a run of the step
  relation here.  At the end of every run in which \<open>transfer\<close> returns, all commands were executed, so that
  \<open>disk_read\<close> reads back the file that \<open>disk_write\<close> wrote.
\<close>

section \<open>The controller\<close>

text \<open>
  The controller reads the next entry of a submission queue, from the number of blocks how many pages it is about,
  and with the entry, for more than two pages, the PRP list that PRP2 points to on the bus.
\<close>

type_synonym request = "u64 \<times> u32 \<times> u64 \<times> u64 \<times> u64 list"

definition controller_fetch :: "(u64 \<Rightarrow> u64) \<Rightarrow> nat \<Rightarrow> nat \<Rightarrow> nvm_queue \<Rightarrow> nat \<Rightarrow> mem \<Rightarrow> request" where
  "controller_fetch iommu page_size block_size sq j m =
     (case bus_fetch iommu m (slot_of sq j) 0 of (opcode, _, _, nlb, _) \<Rightarrow>
        bus_fetch iommu m (slot_of sq j) (if opcode = 1 \<or> opcode = 2 then (unat nlb + 1) * block_size div page_size else 1))"

section \<open>All together\<close>

text \<open>
  Beside the state of \<open>Io_Threads\<close>: where every producer is, how many commands of every queue the controller has
  fetched, those it has fetched and not executed, those it has executed, and the medium.  Producers are numbered
  from 0, their queues from 1.  The number that is kept with a command is there for the specification.
\<close>

record transfer_run =
  tr_sys :: transfer_sys
  tr_at :: "nat \<Rightarrow> producer_at"
  tr_fetched :: "nat \<Rightarrow> nat"
  tr_todo :: "(nat \<times> nat \<times> request) list"
  tr_done :: "(nat \<times> nat) list"
  tr_disk :: media

text \<open>
  A producer takes a turn.  The controller fetches in the order of the queue, as far as the doorbell says, and
  executes what it has fetched in any order; with a command it completes it, when the completion queue has room.
  The consumer goes around its loop as in \<open>Io_Threads\<close>.
\<close>

inductive run_step :: "bool \<Rightarrow> device \<Rightarrow> (u64 \<Rightarrow> u64) \<Rightarrow> disk \<Rightarrow> nvm_dma \<Rightarrow> producer list \<Rightarrow> transfer_run \<Rightarrow> transfer_run \<Rightarrow> bool"
  for ndebug dev iommu d dma ps where
  producer_runs:
    "j < length ps \<Longrightarrow> i = unat (p_queue_no (ps ! j)) \<Longrightarrow> i < length (ts_queues (tr_sys s)) \<Longrightarrow> w_mem w = ts_mem (tr_sys s) \<Longrightarrow>
     producer_turn ndebug dev (ps ! j) dma (tr_at s j) (ts_queues (tr_sys s) ! i) w = Some (at', queue, w') \<Longrightarrow>
     run_step ndebug dev iommu d dma ps s (s\<lparr>tr_sys := (tr_sys s)\<lparr>ts_queues := (ts_queues (tr_sys s))[i := queue], ts_mem := w_mem w'\<rparr>,
       tr_at := (tr_at s)(j := at')\<rparr>)"
| controller_fetches:
    "j < length ps \<Longrightarrow> q = ts_queues (tr_sys s) ! Suc j \<Longrightarrow> tr_fetched s j mod q_n (u_queue q) \<noteq> unat (q_last (u_queue q)) \<Longrightarrow>
     r = controller_fetch iommu (unat (d_page_size dma)) (unat (dk_block_size d)) (u_queue q) (tr_fetched s j) (ts_mem (tr_sys s)) \<Longrightarrow>
     run_step ndebug dev iommu d dma ps s (s\<lparr>tr_fetched := (tr_fetched s)(j := Suc (tr_fetched s j)), tr_todo := tr_todo s @ [(j, tr_fetched s j, r)]\<rparr>)"
| controller_runs:
    "tr_todo s = before @ (j, k, r) # after \<Longrightarrow>
     execute_io (unat (d_page_size dma)) (unat (dk_block_size d)) iommu r (ts_mem (tr_sys s), tr_disk s) = (m, disk) \<Longrightarrow>
     length cpl = 4 \<Longrightarrow> cpl_sqid cpl = Suc j \<Longrightarrow>
     length (ts_posted (tr_sys s)) - n_counted (tr_sys s) < q_n (tq (tr_sys s) 0) - 1 \<Longrightarrow>
     (if bit (cpl_status cpl) 0 then 1 else 0) = dev_tag (q_n (tq (tr_sys s) 0)) (length (ts_posted (tr_sys s))) \<Longrightarrow>
     run_step ndebug dev iommu d dma ps s (s\<lparr>tr_sys := (tr_sys s)\<lparr>ts_mem :=
         store_dwords (cq_slot (tq (tr_sys s) 0) (length (ts_posted (tr_sys s)) mod q_n (tq (tr_sys s) 0))) cpl m, ts_posted := ts_posted (tr_sys s) @ [cpl]\<rparr>,
       tr_todo := before @ after, tr_done := (j, k) # tr_done s, tr_disk := disk\<rparr>)"
| consumer_gets:
    "ts_consumer (tr_sys s) = Polling \<Longrightarrow> nvm_cq_dequeue (tq (tr_sys s) 0) (ts_mem (tr_sys s)) = (cpl, cq) \<Longrightarrow> cpl \<noteq> NULL \<Longrightarrow>
     run_step ndebug dev iommu d dma ps s (s\<lparr>tr_sys := (tr_sys s)\<lparr>ts_queues := (ts_queues (tr_sys s))[0 := (ts_queues (tr_sys s) ! 0)\<lparr>u_queue := cq\<rparr>],
       ts_consumer := Received cpl, ts_received := ts_received (tr_sys s) @ [load_dwords (ts_mem (tr_sys s)) cpl 4]\<rparr>\<rparr>)"
| consumer_updates_sq:
    "ts_consumer (tr_sys s) = Received cpl \<Longrightarrow> sqid = unat (load16 (ts_mem (tr_sys s)) (NVM_CPL_SQID cpl)) \<Longrightarrow> sqid < length (ts_queues (tr_sys s)) \<Longrightarrow>
     run_step ndebug dev iommu d dma ps s (s\<lparr>tr_sys := (tr_sys s)\<lparr>ts_queues := (ts_queues (tr_sys s))[sqid :=
         (ts_queues (tr_sys s) ! sqid)\<lparr>u_queue := nvm_sq_update (tq (tr_sys s) sqid)\<rparr>], ts_consumer := Retiring\<rparr>\<rparr>)"
| consumer_updates_cq:
    "ts_consumer (tr_sys s) = Retiring \<Longrightarrow> w_mem w = ts_mem (tr_sys s) \<Longrightarrow> nvm_cq_update dev (tq (tr_sys s) 0) w = (cq, w') \<Longrightarrow>
     run_step ndebug dev iommu d dma ps s (s\<lparr>tr_sys := (tr_sys s)\<lparr>ts_queues := (ts_queues (tr_sys s))[0 :=
         (ts_queues (tr_sys s) ! 0)\<lparr>u_queue := cq, u_counter := u_counter (ts_queues (tr_sys s) ! 0) + 1\<rparr>], ts_consumer := Polling, ts_mem := w_mem w'\<rparr>\<rparr>)"


text \<open>
  The state when the threads have been created, and the condition under which \<open>transfer\<close> goes on to return: it has
  joined the producers, and its loop over the two counters has ended.
\<close>

definition run_start :: "queue list \<Rightarrow> producer list \<Rightarrow> nvm_dma \<Rightarrow> mem \<Rightarrow> media \<Rightarrow> transfer_run" where
  "run_start queues producers dma m disk =
     \<lparr>tr_sys = \<lparr>ts_queues = queues, ts_mem = m, ts_consumer = Polling, ts_posted = [], ts_received = []\<rparr>,
      tr_at = (\<lambda>j. producer_start (producers ! j) dma), tr_fetched = (\<lambda>_. 0), tr_todo = [], tr_done = [], tr_disk = disk\<rparr>"

definition run_over :: "producer list \<Rightarrow> u16 \<Rightarrow> transfer_run \<Rightarrow> bool" where
  "run_over producers n_queues t \<longleftrightarrow> (\<forall>j < length producers. tr_at t j = Finished) \<and> \<not> transfer_waits (ts_queues (tr_sys t)) n_queues"

text \<open>
  What \<open>transfer\<close>, \<open>disk_write\<close> and \<open>disk_read\<close> may return: a relation, since the threads and the controller may run in
  any order.  The result is the status with the queues, the heap, memory and the medium, and for \<open>disk_read\<close> what
  was written to the file.
\<close>

inductive transfer ::
  "bool \<Rightarrow> device \<Rightarrow> (u64 \<Rightarrow> u64) \<Rightarrow> disk \<Rightarrow> buffer \<Rightarrow> queue list \<Rightarrow> u16 \<Rightarrow> u64 \<Rightarrow> bool \<Rightarrow> os \<Rightarrow> mem \<Rightarrow> media
     \<Rightarrow> int \<times> queue list \<times> os \<times> mem \<times> media \<Rightarrow> bool"
  for ndebug dev iommu d buffer queues n_queues sz wr s m disk where
  transfer_no_memory:
    "transfer_producers d buffer n_queues sz wr = Some producers \<Longrightarrow> malloc s = (None, s') \<Longrightarrow>
     transfer ndebug dev iommu d buffer queues n_queues sz wr s m disk (-1, queues, s', m, disk)"
| transfer_returns:
    "transfer_producers d buffer n_queues sz wr = Some producers \<Longrightarrow> malloc s = (Some p, s') \<Longrightarrow>
     map_option dc_handle (b_dma buffer) = Some dma \<Longrightarrow>
     (run_step ndebug dev iommu d dma producers)\<^sup>*\<^sup>* (run_start queues producers dma m disk) t \<Longrightarrow> run_over producers n_queues t \<Longrightarrow>
     transfer ndebug dev iommu d buffer queues n_queues sz wr s m disk (0, ts_queues (tr_sys t), free (Some p) s', ts_mem (tr_sys t), tr_disk t)"

text \<open>\<open>fread\<close> and \<open>fwrite\<close> of bytes to and from memory; a file that is too short fills only the start.\<close>

definition fread :: "u64 \<Rightarrow> nat \<Rightarrow> u8 list \<Rightarrow> mem \<Rightarrow> mem" where
  "fread ptr n bytes m = (\<lambda>a. if unat (a - ptr) < min n (length bytes) then bytes ! unat (a - ptr) else m a)"

definition fwrite :: "u64 \<Rightarrow> nat \<Rightarrow> mem \<Rightarrow> u8 list" where
  "fwrite ptr n m = map (\<lambda>k. m (ptr + of_nat k)) [0..<n]"

inductive disk_write ::
  "bool \<Rightarrow> device \<Rightarrow> (u64 \<Rightarrow> u64) \<Rightarrow> disk \<Rightarrow> buffer \<Rightarrow> queue list \<Rightarrow> u16 \<Rightarrow> u8 list \<Rightarrow> u64 \<Rightarrow> os \<Rightarrow> mem \<Rightarrow> media
     \<Rightarrow> int \<times> queue list \<times> os \<times> mem \<times> media \<Rightarrow> bool"
  for ndebug dev iommu d buffer queues n_queues fp sz s m disk where
  disk_writes:
    "map_option dc_handle (b_dma buffer) = Some dma \<Longrightarrow>
     transfer ndebug dev iommu d buffer queues n_queues sz True s (fread (d_vaddr dma) (unat sz) fp m) disk r \<Longrightarrow>
     disk_write ndebug dev iommu d buffer queues n_queues fp sz s m disk r"

inductive disk_read ::
  "bool \<Rightarrow> device \<Rightarrow> (u64 \<Rightarrow> u64) \<Rightarrow> disk \<Rightarrow> buffer \<Rightarrow> queue list \<Rightarrow> u16 \<Rightarrow> u64 \<Rightarrow> os \<Rightarrow> mem \<Rightarrow> media
     \<Rightarrow> int \<times> u8 list \<times> queue list \<times> os \<times> mem \<times> media \<Rightarrow> bool"
  for ndebug dev iommu d buffer queues n_queues sz s m disk where
  disk_reads:
    "transfer ndebug dev iommu d buffer queues n_queues sz False s m disk (status, queues', s', m', disk') \<Longrightarrow>
     map_option dc_handle (b_dma buffer) = Some dma \<Longrightarrow> out = (if status = 0 then fwrite (d_vaddr dma) (unat sz) m' else []) \<Longrightarrow>
     disk_read ndebug dev iommu d buffer queues n_queues sz s m disk (status, out, queues', s', m', disk')"

section \<open>The invariant of a run\<close>

text \<open>The areas of memory of a transfer: the completion queue, the submission queues with their lists, and the buffer.\<close>

definition area :: "nvm_dma \<Rightarrow> queue list \<Rightarrow> nat \<Rightarrow> u64 set" where
  "area dma queues i = (if i = 0 then cq_region (u_queue (queues ! 0))
     else if i < length queues then io_region (qmem_dma (queues ! i)) (u_queue (queues ! i)) else window_area dma)"

definition layout_ok :: "device \<Rightarrow> nvm_dma \<Rightarrow> queue list \<Rightarrow> bool" where
  "layout_ok dev dma queues \<longleftrightarrow> (\<forall>i \<le> length queues. \<forall>j \<le> length queues. i \<noteq> j \<longrightarrow> area dma queues i \<inter> area dma queues j = {})
     \<and> (\<forall>q \<in> set queues. untouched dev (u_queue q) (\<Union>i \<le> length queues. area dma queues i))"

definition run_ready :: "device \<Rightarrow> (u64 \<Rightarrow> u64) \<Rightarrow> disk \<Rightarrow> nvm_dma \<Rightarrow> u64 \<Rightarrow> buffer \<Rightarrow> u16 \<Rightarrow> bool \<Rightarrow> producer list \<Rightarrow> queue list \<Rightarrow> bool" where
  "run_ready dev iommu d dma sz buffer n_queues wr ps queues \<longleftrightarrow> transfer_fits d dma sz \<and> transfer_producers d buffer n_queues sz wr = Some ps
     \<and> window_maps iommu dma \<and> length queues = Suc (unat n_queues) \<and> (\<forall>q \<in> set (tl queues). queue_ready dma q \<and> window_maps iommu (qmem_dma q))
     \<and> layout_ok dev dma queues"

lemma run_readyD:
  assumes "run_ready dev iommu d dma sz buffer n_queues wr ps queues"
  shows "transfer_fits d dma sz" "transfer_producers d buffer n_queues sz wr = Some ps" "window_maps iommu dma" "length queues = Suc (length ps)"
    "length ps = unat n_queues" "\<And>j. j < length ps \<Longrightarrow> queue_ready dma (queues ! Suc j)" "\<And>j. j < length ps \<Longrightarrow> unat (p_queue_no (ps ! j)) = Suc j"
    "\<And>j. j < length ps \<Longrightarrow> work_ready (ps ! j) dma" "\<And>j. j < length ps \<Longrightarrow> p_disk (ps ! j) = d \<and> p_write (ps ! j) = wr" "layout_ok dev dma queues"
    "\<And>j. j < length ps \<Longrightarrow> window_maps iommu (qmem_dma (queues ! Suc j))"
proof -
  show b: "transfer_fits d dma sz" "transfer_producers d buffer n_queues sz wr = Some ps" "window_maps iommu dma" "layout_ok dev dma queues"
    using assms by (simp_all add: run_ready_def)
  from b(1) obtain a c where f: "dk_page_size d = 2 ^ a" "dk_block_size d = 2 ^ c" "c \<le> a" "a < 64" "unat sz + 2 ^ a \<le> 2 ^ 64" "d_page_size dma = 2 ^ a"
    unfolding transfer_fits_def by auto
  note t = transfer_division [OF b(2) f]
  have "length (map p_queue_no ps) = unat n_queues" unfolding t(3) by simp
  then show n: "length ps = unat n_queues" by simp
  then show "length queues = Suc (length ps)" using assms by (simp add: run_ready_def)
  fix j assume j: "j < length ps"
  have "queues ! Suc j \<in> set (tl queues)" using assms j n by (cases queues) (simp_all add: run_ready_def)
  then show "queue_ready dma (queues ! Suc j)" "window_maps iommu (qmem_dma (queues ! Suc j))" using assms by (simp_all add: run_ready_def)
  have "p_queue_no (ps ! j) = map p_queue_no ps ! j" using j by simp
  also have "\<dots> = of_nat (Suc j)" unfolding t(3) using j n by (simp del: upt_Suc)
  finally show "unat (p_queue_no (ps ! j)) = Suc j" using j n unat_u16_less [of n_queues] by (simp add: unat_of_nat_small del: of_nat_Suc)
  have p: "ps ! j \<in> set ps" using j by simp
  then show d: "p_disk (ps ! j) = d \<and> p_write (ps ! j) = wr" using t(4) by simp
  note w = producer_within [OF b(1,2) p]
  have le: "length (producer_ios (ps ! j) dma) \<le> length (d_ioaddrs dma)" by (simp add: producer_ios_def)
  have sp: "split_ok (d_page_size dma) (dk_block_size d) (max_transfer (ps ! j) dma) (length (d_ioaddrs dma))" using b(1) d by (simp add: transfer_fits_def)
  have "unat (d_page_size dma) * length (producer_ios (ps ! j) dma) < 2 ^ 64" by (rule split_okD(7) [OF sp le])
  moreover have "length (producer_ios (ps ! j) dma) = unat (producer_pages (ps ! j) dma)"
    using w(2) by (cases "producer_pages (ps ! j) dma = 0") (simp_all add: word_gt_0 producer_ios_def)
  ultimately show "work_ready (ps ! j) dma" using sp d w(1) split_okD(9) [OF sp] unfolding work_ready_def split_ok_def by auto
qed

definition n_issued :: "transfer_sys \<Rightarrow> nat \<Rightarrow> nat" where
  "n_issued s i = named i (take (n_retired s) (ts_posted s)) + in_flight (tq s i)"

text \<open>
  Of every queue the controller has fetched the commands it has completed and those it has still to execute, in
  their order, and not more than it was told of.
\<close>

definition fetch_ok :: "transfer_run \<Rightarrow> nat \<Rightarrow> bool" where
  "fetch_ok s j \<longleftrightarrow> tr_fetched s j = named (Suc j) (ts_posted (tr_sys s)) + length (filter (\<lambda>t. fst t = j) (tr_todo s))
     \<and> tr_fetched s j \<le> named (Suc j) (take (n_retired (tr_sys s)) (ts_posted (tr_sys s))) + submitted (tq (tr_sys s) (Suc j))
     \<and> {k. (j, k) \<in> set (tr_done s) \<or> (\<exists>r. (j, k, r) \<in> set (tr_todo s))} = {..<tr_fetched s j}"

lemma fetch_okD:
  assumes "fetch_ok s j"
  shows "tr_fetched s j = named (Suc j) (ts_posted (tr_sys s)) + length (filter (\<lambda>t. fst t = j) (tr_todo s))"
    "tr_fetched s j \<le> named (Suc j) (take (n_retired (tr_sys s)) (ts_posted (tr_sys s))) + submitted (tq (tr_sys s) (Suc j))"
    "{k. (j, k) \<in> set (tr_done s) \<or> (\<exists>r. (j, k, r) \<in> set (tr_todo s))} = {..<tr_fetched s j}"
  using assms unfolding fetch_ok_def by blast+

text \<open>The medium and the buffer are what the executed commands made of them.\<close>

definition moved :: "nvm_dma \<Rightarrow> producer list \<Rightarrow> (nat \<times> nat) list \<Rightarrow> nat \<Rightarrow> bool" where
  "moved dma ps done x \<longleftrightarrow> (\<exists>(j, k) \<in> set done. x \<in> cmd_range dma (ps ! j, k))"

definition data_ok :: "bool \<Rightarrow> disk \<Rightarrow> nvm_dma \<Rightarrow> producer list \<Rightarrow> mem \<Rightarrow> media \<Rightarrow> (nat \<times> nat) list \<Rightarrow> mem \<Rightarrow> media \<Rightarrow> bool" where
  "data_ok wr d dma ps m0 disk0 done m disk \<longleftrightarrow>
     (if wr then (\<forall>a \<in> window_area dma. m a = m0 a) \<and> disk = (\<lambda>i x. if i = dk_ns_id d \<and> moved dma ps done x then m0 (d_vaddr dma + of_nat x) else disk0 i x)
      else disk = disk0 \<and> (\<forall>x < length (d_ioaddrs dma) * unat (d_page_size dma).
        m (d_vaddr dma + of_nat x) = (if moved dma ps done x then disk0 (dk_ns_id d) x else m0 (d_vaddr dma + of_nat x))))"

definition run_inv :: "bool \<Rightarrow> disk \<Rightarrow> nvm_dma \<Rightarrow> producer list \<Rightarrow> queue list \<Rightarrow> mem \<Rightarrow> media \<Rightarrow> transfer_run \<Rightarrow> bool" where
  "run_inv wr d dma ps queues m0 disk0 s \<longleftrightarrow> transfer_inv (tr_sys s) \<and> length (ts_queues (tr_sys s)) = Suc (length ps)
     \<and> same_place (tq (tr_sys s) 0) (u_queue (queues ! 0))
     \<and> (\<forall>j < length ps. producer_ok (ps ! j) dma (queues ! Suc j) (tr_at s j) (n_issued (tr_sys s) (Suc j)) (ts_queues (tr_sys s) ! Suc j) (ts_mem (tr_sys s)))
     \<and> (\<forall>j < length ps. fetch_ok s j) \<and> (\<forall>(j, k, r) \<in> set (tr_todo s). j < length ps \<and> r = cmd_request (ps ! j) dma k)
     \<and> data_ok wr d dma ps m0 disk0 (tr_done s) (ts_mem (tr_sys s)) (tr_disk s)"

lemma run_invD:
  assumes "run_inv wr d dma ps queues m0 disk0 s"
  shows "transfer_inv (tr_sys s)" "length (ts_queues (tr_sys s)) = Suc (length ps)" "same_place (tq (tr_sys s) 0) (u_queue (queues ! 0))"
    "\<And>j. j < length ps \<Longrightarrow> producer_ok (ps ! j) dma (queues ! Suc j) (tr_at s j) (n_issued (tr_sys s) (Suc j)) (ts_queues (tr_sys s) ! Suc j) (ts_mem (tr_sys s))"
    "\<And>j. j < length ps \<Longrightarrow> fetch_ok s j" "\<And>j k r. (j, k, r) \<in> set (tr_todo s) \<Longrightarrow> j < length ps \<and> r = cmd_request (ps ! j) dma k"
    "data_ok wr d dma ps m0 disk0 (tr_done s) (ts_mem (tr_sys s)) (tr_disk s)"
  using assms by (auto simp: run_inv_def)

lemma data_ok_mem:
  assumes "data_ok wr d dma ps m0 disk0 done m disk" "\<forall>a \<in> window_area dma. m' a = m a"
  shows "data_ok wr d dma ps m0 disk0 done m' disk"
proof -
  have "m' (d_vaddr dma + of_nat x) = m (d_vaddr dma + of_nat x)" if "x < length (d_ioaddrs dma) * unat (d_page_size dma)" for x
    using assms(2) that by (auto simp: window_area_def)
  then show ?thesis using assms by (auto simp: data_ok_def split: if_splits)
qed

section \<open>Every step keeps the invariant\<close>

lemma area_eqs:
  assumes "length queues = Suc n"
  shows "area dma queues 0 = cq_region (u_queue (queues ! 0))" "area dma queues (Suc n) = window_area dma"
    "\<And>j. j < n \<Longrightarrow> area dma queues (Suc j) = io_region (qmem_dma (queues ! Suc j)) (u_queue (queues ! Suc j))"
  using assms by (simp_all add: area_def)

lemma cq_region_place: "same_place q q0 \<Longrightarrow> cq_region q = cq_region q0"
  by (simp add: cq_region_def cq_slot_def queue_slot_def same_place_def)

lemma transfer_inv_mem:
  assumes "transfer_inv s" "\<forall>a \<in> cq_region (tq s 0). m' a = ts_mem s a"
  shows "transfer_inv (s\<lparr>ts_mem := m'\<rparr>)"
  by (rule transfer_step_inv [OF memory_changes [OF assms(2)] assms(1)])

text \<open>When only the queues and memory outside the areas of the producers changed.\<close>

lemma run_inv_sys:
  assumes rd: "run_ready dev iommu d dma sz buffer n_queues wr ps queues" and inv: "run_inv wr d dma ps queues m0 disk0 s"
    and t: "transfer_inv t" "ts_posted t = ts_posted (tr_sys s)" "length (ts_queues t) = Suc (length ps)" "same_place (tq t 0) (u_queue (queues ! 0))"
    and m: "\<And>i a. i \<le> length ps \<Longrightarrow> a \<in> area dma queues (Suc i) \<Longrightarrow> ts_mem t a = ts_mem (tr_sys s) a"
    and n: "\<And>j. j < length ps \<Longrightarrow> n_issued t (Suc j) = n_issued (tr_sys s) (Suc j)"
      "\<And>j. j < length ps \<Longrightarrow> named (Suc j) (take (n_retired t) (ts_posted t)) + submitted (tq t (Suc j))
         = named (Suc j) (take (n_retired (tr_sys s)) (ts_posted (tr_sys s))) + submitted (tq (tr_sys s) (Suc j))"
    and p: "\<And>j. j < length ps \<Longrightarrow> producer_ok (ps ! j) dma (queues ! Suc j) (tr_at s j) (n_issued (tr_sys s) (Suc j)) (ts_queues t ! Suc j) (ts_mem (tr_sys s))"
  shows "run_inv wr d dma ps queues m0 disk0 (s\<lparr>tr_sys := t\<rparr>)"
proof -
  note r = run_readyD [OF rd] and a = area_eqs [OF run_readyD(4) [OF rd], where dma = dma] and v = run_invD [OF inv]
  have "producer_ok (ps ! j) dma (queues ! Suc j) (tr_at s j) (n_issued t (Suc j)) (ts_queues t ! Suc j) (ts_mem t)" if "j < length ps" for j
    using producer_ok_mem [OF p [OF that] r(6,8) [OF that], of "ts_mem t"] n(1) [OF that] m [of j] a(3) [OF that] that by simp
  moreover have "fetch_ok (s\<lparr>tr_sys := t\<rparr>) j" if "j < length ps" for j using v(5) [OF that] n(2) [OF that] t(2) by (simp add: fetch_ok_def)
  moreover have "data_ok wr d dma ps m0 disk0 (tr_done s) (ts_mem t) (tr_disk s)" using data_ok_mem [OF v(7), of "ts_mem t"] m [of "length ps"] a(2) by simp
  ultimately show ?thesis unfolding run_inv_def using t v(6) by auto
qed

text \<open>When a producer took a turn.\<close>

lemma run_inv_producer:
  assumes rd: "run_ready dev iommu d dma sz buffer n_queues wr ps queues" and inv: "run_inv wr d dma ps queues m0 disk0 s" and j: "j < length ps"
    and t: "t = (tr_sys s)\<lparr>ts_queues := (ts_queues (tr_sys s))[Suc j := q'], ts_mem := m'\<rparr>" "transfer_inv t"
    and p: "producer_ok (ps ! j) dma (queues ! Suc j) at' (n_issued t (Suc j)) q' m'" "submitted (tq (tr_sys s) (Suc j)) \<le> submitted (u_queue q')"
    and m: "\<And>i a. i \<le> Suc (length ps) \<Longrightarrow> i \<noteq> Suc j \<Longrightarrow> a \<in> area dma queues i \<Longrightarrow> m' a = ts_mem (tr_sys s) a"
  shows "run_inv wr d dma ps queues m0 disk0 (s\<lparr>tr_sys := t, tr_at := (tr_at s)(j := at')\<rparr>)"
proof -
  note r = run_readyD [OF rd] and a = area_eqs [OF run_readyD(4) [OF rd], where dma = dma] and v = run_invD [OF inv]
  have nr: "n_retired t = n_retired (tr_sys s)" by (simp add: t(1) n_retired_def)
  have q: "ts_queues t ! Suc j = q'" "\<And>i. i \<noteq> Suc j \<Longrightarrow> ts_queues t ! i = ts_queues (tr_sys s) ! i" using v(2) j by (simp_all add: t(1))
  have "producer_ok (ps ! i) dma (queues ! Suc i) (((tr_at s)(j := at')) i) (n_issued t (Suc i)) (ts_queues t ! Suc i) (ts_mem t)" if i: "i < length ps" for i
  proof (cases "i = j")
    case False
    then have "n_issued t (Suc i) = n_issued (tr_sys s) (Suc i)" using q(2) by (simp add: n_issued_def nr) (simp add: t(1))
    then show ?thesis using producer_ok_mem [OF v(4) [OF i] r(6,8) [OF i], of m'] m [of "Suc i"] a(3) [OF i] q(2) False i by (simp add: t(1))
  qed (use p(1) q(1) in \<open>simp add: t(1)\<close>)
  moreover have "fetch_ok (s\<lparr>tr_sys := t, tr_at := (tr_at s)(j := at')\<rparr>) i" if i: "i < length ps" for i
    using v(5) [OF i] p(2) q nr by (cases "i = j") (auto simp: fetch_ok_def t(1))
  moreover have "data_ok wr d dma ps m0 disk0 (tr_done s) (ts_mem t) (tr_disk s)"
    using data_ok_mem [OF v(7), of m'] m [of "Suc (length ps)"] a(2) j by (simp add: t(1))
  moreover have "same_place (tq t 0) (u_queue (queues ! 0))" "length (ts_queues t) = Suc (length ps)" using v(2,3) q(2) by (simp_all add: t(1))
  ultimately show ?thesis unfolding run_inv_def using t(2) v(6) by auto
qed

lemma layout_untouched:
  assumes "layout_ok dev dma queues" "length queues = Suc n" "i \<le> n"
  shows "untouched dev (u_queue (queues ! i)) (\<Union>k \<le> Suc n. area dma queues k)"
  using assms by (simp add: layout_ok_def)

lemma layout_disjoint:
  assumes "layout_ok dev dma queues" "length queues = Suc n" "i \<le> Suc n" "k \<le> Suc n" "i \<noteq> k" "x \<in> area dma queues i"
  shows "x \<notin> area dma queues k"
  using assms by (auto simp: layout_ok_def)

text \<open>A turn that issues a command makes the queue longer by one, another one keeps its length.\<close>

lemma turn_issues_queue:
  assumes "turn_issues p dma q0 at N q m at' q' m'" "producer_ok p dma q0 at N q m"
  shows "in_flight (u_queue q') = Suc (in_flight (u_queue q))" "submitted (u_queue q') = submitted (u_queue q)"
    "thread_ok q r c \<Longrightarrow> thread_ok q' r c"
proof -
  have iss: "issued (qmem_dma q0) (u_queue q0) (cmd_pages p dma) (cmd_request p dma) N (u_queue q) m" using assms(2) by (simp add: producer_ok_def)
  from assms(1) obtain cmd m1 where e: "nvm_sq_enqueue (u_queue q) m = Some (cmd, u_queue q', m1)" "cmd \<noteq> NULL"
    "q' = q\<lparr>u_queue := u_queue q', u_counter := u_counter q + 1\<rparr>" unfolding turn_issues_def by blast
  note l = sq_liveD [OF issuedD(1) [OF iss]]
  have f: "in_flight (u_queue q) < q_n (u_queue q) - 1" using full_or_free [OF iss, of m] e(1,2) issuedD(5) [OF iss] by auto
  then have "u_queue q' = sq_bump (u_queue q)" using nvm_sq_enqueue_free [OF l(2,3) f, of m] e(1) by simp
  then show "in_flight (u_queue q') = Suc (in_flight (u_queue q))" "submitted (u_queue q') = submitted (u_queue q)"
    using sq_live_bump [OF issuedD(1) [OF iss] f] by simp_all
  show "thread_ok q r c \<Longrightarrow> thread_ok q' r c" using thread_ok_issue [of q r c, OF _ e(1,2)] e(3) by simp
qed

lemma turn_announces_queue:
  assumes "turn_announces dev A p dma q0 at N q m at' q' m'" "producer_ok p dma q0 at N q m"
  shows "in_flight (u_queue q') = in_flight (u_queue q)" "submitted (u_queue q) \<le> submitted (u_queue q')" "thread_ok q r c \<Longrightarrow> thread_ok q' r c"
proof -
  have live: "sq_live (u_queue q)" using assms(2) by (simp add: producer_ok_def issued_def)
  from assms(1) have c: "q' = q \<or> (\<exists>w w'. nvm_sq_submit dev (u_queue q) w = (u_queue q', w') \<and> q' = q\<lparr>u_queue := u_queue q'\<rparr>)"
    unfolding turn_announces_def by blast
  have "in_flight (u_queue q') = in_flight (u_queue q) \<and> submitted (u_queue q) \<le> submitted (u_queue q')"
  proof (cases "q' = q")
    case False
    then have "u_queue q' = (u_queue q)\<lparr>q_last := q_tail (u_queue q)\<rparr>" using c by (auto simp: nvm_sq_submit_def split: if_splits)
    then show ?thesis using sq_live_last(2) [OF live] sq_liveD(6) [OF live] by (simp add: in_flight_def)
  qed simp
  then show "in_flight (u_queue q') = in_flight (u_queue q)" "submitted (u_queue q) \<le> submitted (u_queue q')" by simp_all
  show "thread_ok q r c \<Longrightarrow> thread_ok q' r c" using c thread_ok_announce by metis
qed

lemma producer_area:
  assumes rd: "run_ready dev iommu d dma sz buffer n_queues wr ps queues" and j: "j < length ps"
  shows "untouched dev (u_queue (queues ! Suc j)) (\<Union>k \<le> Suc (length ps). area dma queues k)"
    "io_region (qmem_dma (queues ! Suc j)) (u_queue (queues ! Suc j)) \<subseteq> (\<Union>k \<le> Suc (length ps). area dma queues k)"
proof -
  note r = run_readyD [OF rd] and a = area_eqs [OF run_readyD(4) [OF rd], where dma = dma]
  show "untouched dev (u_queue (queues ! Suc j)) (\<Union>k \<le> Suc (length ps). area dma queues k)" using layout_untouched [OF r(10,4)] j by simp
  show "io_region (qmem_dma (queues ! Suc j)) (u_queue (queues ! Suc j)) \<subseteq> (\<Union>k \<le> Suc (length ps). area dma queues k)"
    unfolding a(3) [OF j, symmetric] by (rule UN_upper) (use j in simp)
qed

lemma run_inv_turn:
  assumes rd: "run_ready dev iommu d dma sz buffer n_queues wr ps queues" and inv: "run_inv wr d dma ps queues m0 disk0 s" and j: "j < length ps"
    and w: "w_mem w = ts_mem (tr_sys s)" "producer_turn ndebug dev (ps ! j) dma (tr_at s j) (ts_queues (tr_sys s) ! Suc j) w = Some (at', q', w')"
    and t: "t = s\<lparr>tr_sys := (tr_sys s)\<lparr>ts_queues := (ts_queues (tr_sys s))[Suc j := q'], ts_mem := w_mem w'\<rparr>, tr_at := (tr_at s)(j := at')\<rparr>"
  shows "run_inv wr d dma ps queues m0 disk0 t \<and> (tr_at s j \<noteq> Finished \<and> n_commands (ps ! j) dma < q_n (u_queue (queues ! Suc j)) \<longrightarrow>
       rank (ps ! j) dma at' (n_issued (tr_sys t) (Suc j)) + 5 * (n_issued (tr_sys t) (Suc j) - n_issued (tr_sys s) (Suc j))
         < rank (ps ! j) dma (tr_at s j) (n_issued (tr_sys s) (Suc j)) \<and> n_issued (tr_sys s) (Suc j) \<le> n_issued (tr_sys t) (Suc j))"
proof -
  let ?sys = "tr_sys s" and ?p = "ps ! j" and ?init = "queues ! Suc j" and ?cur = "ts_queues (tr_sys s) ! Suc j" and ?n = "length ps"
  let ?N = "n_issued ?sys (Suc j)" and ?t = "(tr_sys s)\<lparr>ts_queues := (ts_queues (tr_sys s))[Suc j := q'], ts_mem := w_mem w'\<rparr>"
  note r = run_readyD [OF rd] and a = area_eqs [OF run_readyD(4) [OF rd], where dma = dma] and v = run_invD [OF inv]
  have ok: "producer_ok ?p dma ?init (tr_at s j) ?N ?cur (w_mem w)" using v(4) [OF j] w(1) by simp
  have th: "thread_ok ?cur (named (Suc j) (take (n_retired ?sys) (ts_posted ?sys))) (pending ?sys (Suc j))" using transfer_invD(8) [OF v(1)] v(2) j by simp
  have cq: "cq_region (tq ?sys 0) = area dma queues 0" using cq_region_place [OF v(3)] a(1) by simp
  have nt: "n_issued ?t (Suc j) = named (Suc j) (take (n_retired ?sys) (ts_posted ?sys)) + in_flight (u_queue q')"
    using v(2) j by (simp add: n_issued_def n_retired_def)
  have at: "tr_sys t = ?t" by (simp add: t)
  from producer_turn_ok [OF ok r(6,8) [OF j] producer_area [OF rd j], of ndebug] w(2) consider
    (issues) "turn_issues ?p dma ?init (tr_at s j) ?N ?cur (w_mem w) at' q' (w_mem w')"
    | (announces) "turn_announces dev (\<Union>k \<le> Suc ?n. area dma queues k) ?p dma ?init (tr_at s j) ?N ?cur (w_mem w) at' q' (w_mem w')" by auto
  then show ?thesis
  proof cases
    case issues
    note q = turn_issues_queue [OF issues ok]
    from issues have m: "\<forall>x. x \<notin> area dma queues (Suc j) \<longrightarrow> w_mem w' x = w_mem w x"
      and p: "producer_ok ?p dma ?init at' (Suc ?N) q' (w_mem w')" "rank ?p dma at' (Suc ?N) + 5 < rank ?p dma (tr_at s j) ?N"
      unfolding turn_issues_def a(3) [OF j, symmetric] by blast+
    have m': "w_mem w' x = ts_mem ?sys x" if "i \<le> Suc ?n" "i \<noteq> Suc j" "x \<in> area dma queues i" for i x
      using m w(1) layout_disjoint [OF r(10,4) that(1) _ that(2,3)] j by simp
    have "transfer_inv ?t" by (rule transfer_inv_thread [OF v(1)]) (use q(3) [OF th] m' [of 0] cq in auto)
    moreover have N: "n_issued ?t (Suc j) = Suc ?N" unfolding nt q(1) by (simp add: n_issued_def)
    ultimately have "run_inv wr d dma ps queues m0 disk0 t" unfolding t
      by (intro run_inv_producer [OF rd inv j refl]) (use p(1) q(2) m' in simp_all)
    then show ?thesis using N at p(2) by simp
  next
    case announces
    note q = turn_announces_queue [OF announces ok]
    from announces have m: "\<forall>x \<in> (\<Union>k \<le> Suc ?n. area dma queues k). w_mem w' x = w_mem w x" and p: "producer_ok ?p dma ?init at' ?N q' (w_mem w')"
      and rk: "tr_at s j \<noteq> Finished \<and> (?N < n_commands ?p dma \<longrightarrow> in_flight (u_queue ?cur) < q_n (u_queue ?init) - 1) \<Longrightarrow> rank ?p dma at' ?N < rank ?p dma (tr_at s j) ?N"
      unfolding turn_announces_def by blast+
    have m': "w_mem w' x = ts_mem ?sys x" if "i \<le> Suc ?n" "x \<in> area dma queues i" for i x using m w(1) that by auto
    have "transfer_inv ?t" by (rule transfer_inv_thread [OF v(1)]) (use q(3) [OF th] m' [of 0] cq in auto)
    moreover have N: "n_issued ?t (Suc j) = ?N" unfolding nt using q(1) by (simp add: n_issued_def)
    ultimately have "run_inv wr d dma ps queues m0 disk0 t" unfolding t
      by (intro run_inv_producer [OF rd inv j refl]) (use p q(2) m' in simp_all)
    moreover have "in_flight (u_queue ?cur) \<le> ?N" by (simp add: n_issued_def)
    then have "in_flight (u_queue ?cur) < q_n (u_queue ?init) - 1" if "?N < n_commands ?p dma" "n_commands ?p dma < q_n (u_queue ?init)" using that by linarith
    ultimately show ?thesis using N at rk by simp
  qed
qed

text \<open>The controller fetches what the producer has written.\<close>

lemma mod_add_cancel_right: "(a + c) mod n = (b + c) mod n \<Longrightarrow> a mod n = b mod n" for a b c n :: nat
proof -
  assume "(a + c) mod n = (b + c) mod n"
  then have "(int a + int c) mod int n = (int b + int c) mod int n" by (metis of_nat_add of_nat_mod)
  from mod_diff_cong [OF this refl, of "int c"] show ?thesis by (simp flip: of_nat_mod)
qed

lemma ring_forward: "h < n \<Longrightarrow> t < n \<Longrightarrow> (h + (t + n - h) mod n) mod n = t" for h t n :: nat
  by (simp add: mod_add_right_eq)

lemma doorbell_ahead:
  assumes "sq_live q" "sq_counts (r + in_flight q) q"
  shows "(r + submitted q) mod q_n q = unat (q_last q)"
proof -
  note l = sq_liveD [OF assms(1)]
  have h: "unat (q_head q) < q_n q" "unat (q_tail q) < q_n q" using l(2) by (auto simp: queue_wf_def)
  have "(unat (q_head q) + in_flight q) mod q_n q = (r + in_flight q) mod q_n q"
    using ring_forward [OF h] assms(2) by (simp add: in_flight_def sq_counts_def)
  from mod_add_cancel_right [OF this] have "(r + submitted q) mod q_n q = (unat (q_head q) + submitted q) mod q_n q" by (metis mod_add_left_eq)
  then show ?thesis using ring_forward [OF h(1) l(5)] by (simp add: submitted_def)
qed

lemma bus_fetch_fields:
  assumes "bus_fetch iommu m p k = (opc, ns, lba, nlb, pages)"
  obtains x where "bus_fetch iommu m p 0 = (opc, ns, lba, nlb, x)"
  using assms by (auto simp: bus_fetch_def Let_def)

lemma controller_fetch_request:
  assumes "transfer_fits d dma sz" "transfer_producers d buffer n_queues sz wr = Some ps" "p \<in> set ps" "p_disk p = d"
    and f: "bus_fetch iommu m (slot_of sq k) (cmd_pages p dma k) = cmd_request p dma k"
  shows "controller_fetch iommu (unat (d_page_size dma)) (unat (dk_block_size d)) sq k m = cmd_request p dma k"
proof (cases "k < n_transfers p dma")
  case True
  from cmd_request_range [OF assms(1-3) True] obtain slba nlb pages where
    q: "cmd_request p dma k = (if wr then 1 else 2, dk_ns_id d, slba, nlb, pages)" "(unat nlb + 1) * unat (dk_block_size d) = cmd_pages p dma k * unat (d_page_size dma)"
    by metis
  from bus_fetch_fields [OF f [unfolded q(1)]] obtain x where
    x: "bus_fetch iommu m (slot_of sq k) 0 = (if wr then 1 else 2, dk_ns_id d, slba, nlb, x)" by blast
  have "0 < unat (d_page_size dma)" using assms(1) by (auto simp: transfer_fits_def split_ok_def unat_gt_0)
  then have "(unat nlb + 1) * unat (dk_block_size d) div unat (d_page_size dma) = cmd_pages p dma k" unfolding q(2) by simp
  then show ?thesis using x f by (simp add: controller_fetch_def)
next
  case False
  then have q: "cmd_request p dma k = (0, dk_ns_id d, 0, 0xffff, [0])" "cmd_pages p dma k = 1" using assms(4) by (simp_all add: cmd_request_def cmd_pages_def)
  from bus_fetch_fields [OF f [unfolded q(1)]] obtain x where
    x: "bus_fetch iommu m (slot_of sq k) 0 = (0, dk_ns_id d, 0, 0xffff, x)" by blast
  then show ?thesis using f q(2) by (simp add: controller_fetch_def)
qed

lemma fetch_request:
  assumes rd: "run_ready dev iommu d dma sz buffer n_queues wr ps queues" and inv: "run_inv wr d dma ps queues m0 disk0 s" and j: "j < length ps"
    and g: "q = ts_queues (tr_sys s) ! Suc j" "tr_fetched s j mod q_n (u_queue q) \<noteq> unat (q_last (u_queue q))"
  shows "controller_fetch iommu (unat (d_page_size dma)) (unat (dk_block_size d)) (u_queue q) (tr_fetched s j) (ts_mem (tr_sys s)) = cmd_request (ps ! j) dma (tr_fetched s j)"
    "tr_fetched s j < named (Suc j) (take (n_retired (tr_sys s)) (ts_posted (tr_sys s))) + submitted (u_queue q)"
proof -
  let ?sys = "tr_sys s" and ?p = "ps ! j" and ?i = "queues ! Suc j" and ?N = "n_issued (tr_sys s) (Suc j)" and ?k = "tr_fetched s j"
  let ?r = "named (Suc j) (take (n_retired ?sys) (ts_posted ?sys))"
  note r = run_readyD [OF rd] and v = run_invD [OF inv]
  have iss: "issued (qmem_dma ?i) (u_queue ?i) (cmd_pages ?p dma) (cmd_request ?p dma) ?N (u_queue q) (ts_mem ?sys)" "u_qmem q = u_qmem ?i"
    using v(4) [OF j] g(1) by (simp_all add: producer_ok_def)
  note d = issuedD [OF iss(1)]
  have N: "?N = ?r + in_flight (u_queue q)" by (simp add: n_issued_def g(1))
  have f: "?k = named (Suc j) (ts_posted ?sys) + length (filter (\<lambda>t. fst t = j) (tr_todo s))" "?k \<le> ?r + submitted (u_queue q)"
    using v(5) [OF j] g(1) by (simp_all add: fetch_ok_def)
  have "named (Suc j) (ts_posted ?sys) = ?r + named (Suc j) (drop (n_retired ?sys) (ts_posted ?sys))" by (metis append_take_drop_id named_append)
  then have ge: "?r \<le> ?k" using f(1) by simp
  have "?k \<noteq> ?r + submitted (u_queue q)" using doorbell_ahead [OF d(1) d(2) [unfolded N]] g(2) by auto
  then show lt: "?k < ?r + submitted (u_queue q)" using f(2) by simp
  have "?k < ?N" "?N - ?k \<le> in_flight (u_queue q)" using lt ge N sq_liveD(6) [OF d(1)] by linarith+
  then have "slot_holds (qmem_dma ?i) (u_queue ?i) (ts_mem ?sys) ?k (cmd_pages ?p dma ?k) (cmd_request ?p dma ?k)" by (rule d(7))
  then have fe: "bus_fetch iommu (ts_mem ?sys) (slot_of (u_queue ?i) ?k) (cmd_pages ?p dma ?k) = cmd_request ?p dma ?k"
    by (rule slot_holds_fetch [OF queue_readyD(3,4) [OF r(6) [OF j]] r(11) [OF j] cmd_pages_fit [OF r(6,8) [OF j]]])
  have pl: "slot_of (u_queue ?i) ?k = slot_of (u_queue q) ?k" using d(3) by (simp add: same_place_def slot_of_def queue_slot_def)
  have "?p \<in> set ps" "p_disk ?p = d" using j r(9) [OF j] by simp_all
  from controller_fetch_request [OF r(1,2) this fe [unfolded pl]]
  show "controller_fetch iommu (unat (d_page_size dma)) (unat (dk_block_size d)) (u_queue q) ?k (ts_mem ?sys) = cmd_request ?p dma ?k" .
qed

lemma run_inv_fetches:
  assumes rd: "run_ready dev iommu d dma sz buffer n_queues wr ps queues" and inv: "run_inv wr d dma ps queues m0 disk0 s" and j: "j < length ps"
    and g: "q = ts_queues (tr_sys s) ! Suc j" "tr_fetched s j mod q_n (u_queue q) \<noteq> unat (q_last (u_queue q))"
    and c: "c = controller_fetch iommu (unat (d_page_size dma)) (unat (dk_block_size d)) (u_queue q) (tr_fetched s j) (ts_mem (tr_sys s))"
  shows "run_inv wr d dma ps queues m0 disk0 (s\<lparr>tr_fetched := (tr_fetched s)(j := Suc (tr_fetched s j)), tr_todo := tr_todo s @ [(j, tr_fetched s j, c)]\<rparr>)"
    (is "run_inv _ _ _ _ _ _ _ ?t")
proof -
  note v = run_invD [OF inv] and f = fetch_request [OF rd inv j g, folded c]
  have "fetch_ok ?t i" if i: "i < length ps" for i
  proof (cases "i = j")
    case True
    have "{k. (j, k) \<in> set (tr_done ?t) \<or> (\<exists>r. (j, k, r) \<in> set (tr_todo ?t))}
      = insert (tr_fetched s j) {k. (j, k) \<in> set (tr_done s) \<or> (\<exists>r. (j, k, r) \<in> set (tr_todo s))}"
      by (auto simp del: split_paired_Ex)
    also have "\<dots> = {..<Suc (tr_fetched s j)}" using v(5) [OF j] by (auto simp: fetch_ok_def)
    finally show ?thesis using v(5) [OF j] f(2) g(1) True unfolding fetch_ok_def by simp
  next
    case False
    then show ?thesis using v(5) [OF i] by (auto simp: fetch_ok_def)
  qed
  moreover have "\<forall>(i, k, r) \<in> set (tr_todo ?t). i < length ps \<and> r = cmd_request (ps ! i) dma k" using v(6) f(1) j by auto
  ultimately show ?thesis unfolding run_inv_def using v by simp
qed

text \<open>Executing a command moves its bytes.\<close>

lemma moved_Cons: "moved dma ps ((j, k) # done) x \<longleftrightarrow> x \<in> cmd_range dma (ps ! j, k) \<or> moved dma ps done x"
  by (auto simp: moved_def)

lemma window_areaI: "x < length (d_ioaddrs dma) * unat (d_page_size dma) \<Longrightarrow> d_vaddr dma + of_nat x \<in> window_area dma"
  by (auto simp: window_area_def)

lemma data_ok_command:
  assumes "transfer_fits d dma sz" "transfer_producers d buffer n_queues sz wr = Some ps" "window_maps iommu dma" "(ps ! j, k) \<in> commands_of dma ps"
    and ok: "data_ok wr d dma ps m0 disk0 done m disk" and e: "run_command iommu dma (ps ! j, k) (m, disk) = (m', disk')"
  shows "data_ok wr d dma ps m0 disk0 ((j, k) # done) m' disk'" "a \<notin> window_area dma \<Longrightarrow> m' a = m a"
proof -
  note f = run_command_effect [OF assms(1-4)]
  show "m' a = m a" if "a \<notin> window_area dma" using f(4) [OF that, of m disk] e by simp
  show "data_ok wr d dma ps m0 disk0 ((j, k) # done) m' disk'"
  proof (cases wr)
    case True
    have "m (d_vaddr dma + of_nat x) = m0 (d_vaddr dma + of_nat x)" if "x \<in> cmd_range dma (ps ! j, k)" for x
      using window_areaI [OF commands_within [OF assms(1,2,4) that]] ok True by (simp add: data_ok_def)
    then show ?thesis using f(1) [OF True, of m disk] e ok True by (auto simp: data_ok_def moved_Cons fun_eq_iff)
  next
    case False
    then show ?thesis using f(2) [OF False, of m disk] f(3) [OF False, of _ m disk] e ok by (auto simp: data_ok_def moved_Cons)
  qed
qed

lemma fetched_le:
  assumes "run_inv wr d dma ps queues m0 disk0 s" "j < length ps"
  shows "tr_fetched s j \<le> n_issued (tr_sys s) (Suc j)"
proof -
  note v = run_invD [OF assms(1)]
  have "sq_live (tq (tr_sys s) (Suc j))" using v(4) [OF assms(2)] by (simp add: producer_ok_def issued_def)
  from sq_liveD(6) [OF this] fetch_okD(2) [OF v(5) [OF assms(2)]] show ?thesis by (simp add: n_issued_def)
qed

lemma todo_command:
  assumes inv: "run_inv wr d dma ps queues m0 disk0 s" and "(j, k, c) \<in> set (tr_todo s)"
  shows "j < length ps" "c = cmd_request (ps ! j) dma k" "(ps ! j, k) \<in> commands_of dma ps" "pending (tr_sys s) (Suc j) < submitted (tq (tr_sys s) (Suc j))"
proof -
  let ?sys = "tr_sys s"
  note v = run_invD [OF inv]
  show c: "j < length ps" "c = cmd_request (ps ! j) dma k" using v(6) [OF assms(2)] by simp_all
  note f = fetch_okD [OF v(5) [OF c(1)]]
  have "k \<in> {k. (j, k) \<in> set (tr_done s) \<or> (\<exists>r. (j, k, r) \<in> set (tr_todo s))}" using assms(2) by blast
  then have "k < tr_fetched s j" unfolding f(3) by simp
  moreover have "n_issued ?sys (Suc j) \<le> n_commands (ps ! j) dma" using v(4) [OF c(1)] place_ok_le unfolding producer_ok_def by blast
  ultimately have "k < n_commands (ps ! j) dma" using fetched_le [OF inv c(1)] by linarith
  then show "(ps ! j, k) \<in> commands_of dma ps" using c(1) by (simp add: commands_of_def)
  have "named (Suc j) (ts_posted ?sys) = named (Suc j) (take (n_retired ?sys) (ts_posted ?sys)) + pending ?sys (Suc j)" by (metis append_take_drop_id named_append)
  moreover have "filter (\<lambda>t. fst t = j) (tr_todo s) \<noteq> []" using assms(2) unfolding filter_empty_conv by (metis fst_conv)
  ultimately show "pending ?sys (Suc j) < submitted (tq ?sys (Suc j))" using f(1,2) by (cases "filter (\<lambda>t. fst t = j) (tr_todo s)") simp_all
qed

lemma run_inv_executes:
  assumes rd: "run_ready dev iommu d dma sz buffer n_queues wr ps queues" and inv: "run_inv wr d dma ps queues m0 disk0 s"
    and todo: "tr_todo s = before @ (j, k, c) # after"
    and e: "execute_io (unat (d_page_size dma)) (unat (dk_block_size d)) iommu c (ts_mem (tr_sys s), tr_disk s) = (m, disk)"
    and cpl: "length cpl = 4" "cpl_sqid cpl = Suc j" "length (ts_posted (tr_sys s)) - n_counted (tr_sys s) < q_n (tq (tr_sys s) 0) - 1"
      "(if bit (cpl_status cpl) 0 then 1 else 0) = dev_tag (q_n (tq (tr_sys s) 0)) (length (ts_posted (tr_sys s)))"
    and t: "t = (tr_sys s)\<lparr>ts_mem := store_dwords (cq_slot (tq (tr_sys s) 0) (length (ts_posted (tr_sys s)) mod q_n (tq (tr_sys s) 0))) cpl m,
        ts_posted := ts_posted (tr_sys s) @ [cpl]\<rparr>"
  shows "run_inv wr d dma ps queues m0 disk0 (s\<lparr>tr_sys := t, tr_todo := before @ after, tr_done := (j, k) # tr_done s, tr_disk := disk\<rparr>)"
    (is "run_inv _ _ _ _ _ _ _ ?t")
proof -
  let ?sys = "tr_sys s" and ?slot = "cq_slot (tq (tr_sys s) 0) (length (ts_posted (tr_sys s)) mod q_n (tq (tr_sys s) 0))"
  note r = run_readyD [OF rd] and a = area_eqs [OF run_readyD(4) [OF rd], where dma = dma] and v = run_invD [OF inv]
  have "(j, k, c) \<in> set (tr_todo s)" using todo by simp
  note c = todo_command [OF inv this]
  have "run_command iommu dma (ps ! j, k) (ts_mem ?sys, tr_disk s) = (m, disk)" using e c(2) r(9) [OF c(1)] by (simp add: run_command_def)
  note x = data_ok_command [OF r(1-3) c(3) v(7) this]
  have cq: "cq_region (tq ?sys 0) = area dma queues 0" using cq_region_place [OF v(3)] a(1) by simp
  have out: "m y = ts_mem ?sys y" if "i \<le> length ps" "y \<in> area dma queues i" for i y
    using x(2) layout_disjoint [OF r(10,4), of i "Suc (length ps)" y] that a(2) by simp
  have n0: "0 < q_n (tq ?sys 0)" using transfer_invD(3) [OF v(1)] by simp
  have slot: "in_range ?slot 16 y \<Longrightarrow> y \<in> area dma queues 0" for y unfolding cq [symmetric] by (rule cq_slot_region) (use n0 in simp_all)
  have st: "ts_mem t y = m y" if "y \<notin> area dma queues 0" for y
    using slot that cpl(1) by (auto simp: t intro!: store_dwords_other)
  have "transfer_inv (?sys\<lparr>ts_mem := m\<rparr>)" by (rule transfer_inv_mem [OF v(1)]) (use out [of 0] cq in simp)
  from transfer_inv_completes [OF this cpl(1), unfolded cpl(2)] have T: "transfer_inv t"
    using c(1,4) v(2) cpl(3,4) by (simp add: t n_retired_def n_counted_def)
  have nr: "n_retired t = n_retired ?sys" "take (n_retired ?sys) (ts_posted t) = take (n_retired ?sys) (ts_posted ?sys)"
    using n_retired_le(1) [OF v(1)] by (simp_all add: t n_retired_def)
  have qs: "ts_queues t = ts_queues ?sys" by (simp add: t)
  have ni: "n_issued t i = n_issued ?sys i" for i by (simp add: n_issued_def nr qs)
  have mem: "ts_mem t y = ts_mem ?sys y" if "i < length ps" "y \<in> area dma queues (Suc i)" for i y
    using st out [of "Suc i" y] layout_disjoint [OF r(10,4), of "Suc i" 0 y] that by simp
  have "producer_ok (ps ! i) dma (queues ! Suc i) (tr_at s i) (n_issued t (Suc i)) (ts_queues t ! Suc i) (ts_mem t)" if i: "i < length ps" for i
    using producer_ok_mem [OF v(4) [OF i] r(6,8) [OF i], of "ts_mem t"] mem [OF i] a(3) [OF i] by (simp add: ni qs)
  moreover have "fetch_ok ?t i" if i: "i < length ps" for i
  proof -
    have "{l. (i, l) \<in> set (tr_done ?t) \<or> (\<exists>r. (i, l, r) \<in> set (tr_todo ?t))} = {l. (i, l) \<in> set (tr_done s) \<or> (\<exists>r. (i, l, r) \<in> set (tr_todo s))}"
      by (auto simp: todo simp del: split_paired_Ex)
    moreover have "named (Suc i) (ts_posted t) + length (filter (\<lambda>t. fst t = i) (before @ after))
        = named (Suc i) (ts_posted ?sys) + length (filter (\<lambda>t. fst t = i) (tr_todo s))"
      using cpl(2) by (simp add: t todo named_Cons)
    ultimately show ?thesis using v(5) [OF i] nr by (simp add: fetch_ok_def qs)
  qed
  moreover have "\<forall>(i, l, r) \<in> set (before @ after). i < length ps \<and> r = cmd_request (ps ! i) dma l" using inv unfolding run_inv_def todo by simp
  moreover have "data_ok wr d dma ps m0 disk0 ((j, k) # tr_done s) (ts_mem t) disk"
    by (rule data_ok_mem [OF x(1)]) (use st layout_disjoint [OF r(10,4), of "Suc (length ps)" 0] a(2) in simp)
  ultimately show ?thesis unfolding run_inv_def using T v(2,3) qs by simp
qed

text \<open>The consumer retires a command the controller has completed.\<close>

lemma run_inv_gets:
  assumes rd: "run_ready dev iommu d dma sz buffer n_queues wr ps queues" and inv: "run_inv wr d dma ps queues m0 disk0 s"
    and g: "ts_consumer (tr_sys s) = Polling" "nvm_cq_dequeue (tq (tr_sys s) 0) (ts_mem (tr_sys s)) = (cpl, cq)" "cpl \<noteq> NULL"
    and t: "t = (tr_sys s)\<lparr>ts_queues := (ts_queues (tr_sys s))[0 := (ts_queues (tr_sys s) ! 0)\<lparr>u_queue := cq\<rparr>],
       ts_consumer := Received cpl, ts_received := ts_received (tr_sys s) @ [load_dwords (ts_mem (tr_sys s)) cpl 4]\<rparr>"
  shows "run_inv wr d dma ps queues m0 disk0 (s\<lparr>tr_sys := t\<rparr>)"
proof -
  note v = run_invD [OF inv]
  have T: "transfer_inv t" unfolding t by (rule transfer_inv_receives [OF v(1) g])
  have nr: "n_retired t = n_retired (tr_sys s)" using g(1) by (simp add: t n_retired_def)
  have "cq = cq_bump (tq (tr_sys s) 0)"
    using g(2,3) nvm_cq_dequeue_eq [OF transfer_inv_cq(1) [OF v(1)], of "ts_mem (tr_sys s)"] by (auto split: if_splits)
  then have "same_place cq (u_queue (queues ! 0))" using v(3) by (simp add: same_place_def cq_bump_def)
  then show ?thesis using run_inv_sys [OF rd inv T] v(2,4) nr by (simp add: t n_issued_def)
qed

lemma run_inv_counts:
  assumes rd: "run_ready dev iommu d dma sz buffer n_queues wr ps queues" and inv: "run_inv wr d dma ps queues m0 disk0 s"
    and g: "ts_consumer (tr_sys s) = Retiring" "w_mem w = ts_mem (tr_sys s)" "nvm_cq_update dev (tq (tr_sys s) 0) w = (cq, w')"
    and t: "t = (tr_sys s)\<lparr>ts_queues := (ts_queues (tr_sys s))[0 := (ts_queues (tr_sys s) ! 0)\<lparr>u_queue := cq, u_counter := u_counter (ts_queues (tr_sys s) ! 0) + 1\<rparr>],
       ts_consumer := Polling, ts_mem := w_mem w'\<rparr>"
  shows "run_inv wr d dma ps queues m0 disk0 (s\<lparr>tr_sys := t\<rparr>)"
proof -
  note r = run_readyD [OF rd] and a = area_eqs [OF run_readyD(4) [OF rd], where dma = dma] and v = run_invD [OF inv]
  have "untouched dev (u_queue (queues ! 0)) (\<Union>k \<le> Suc (length ps). area dma queues k)" by (rule layout_untouched [OF r(10,4)]) simp
  then have "untouched dev (tq (tr_sys s) 0) (\<Union>k \<le> Suc (length ps). area dma queues k)" using v(3) by (simp add: untouched_def same_place_def)
  note u = cq_update_untouched [OF g(3) this]
  have m: "w_mem w' y = ts_mem (tr_sys s) y" if "i \<le> Suc (length ps)" "y \<in> area dma queues i" for i y using u(2) g(2) that by auto
  let ?t0 = "(tr_sys s)\<lparr>ts_mem := w_mem w'\<rparr>"
  have "transfer_inv ?t0" by (rule transfer_inv_mem [OF v(1)]) (use m [of 0] a(1) cq_region_place [OF v(3)] in simp)
  moreover have "t = ?t0\<lparr>ts_queues := (ts_queues ?t0)[0 := (ts_queues ?t0 ! 0)\<lparr>u_queue := cq, u_counter := u_counter (ts_queues ?t0 ! 0) + 1\<rparr>], ts_consumer := Polling\<rparr>"
    by (simp add: t)
  ultimately have T: "transfer_inv t" using transfer_inv_counts [of ?t0 dev w cq w'] g(1,3) by simp
  have nr: "n_retired t = n_retired (tr_sys s)" using g(1) by (simp add: t n_retired_def)
  have "same_place cq (u_queue (queues ! 0))" using v(3) u(1) by (simp add: same_place_def)
  then show ?thesis
  proof (intro run_inv_sys [OF rd inv T])
    show "ts_mem t y = ts_mem (tr_sys s) y" if "i \<le> length ps" "y \<in> area dma queues (Suc i)" for i y using m [of "Suc i" y] that by (simp add: t)
  qed (use v(2,4) nr in \<open>simp_all add: t n_issued_def\<close>)
qed

lemma run_inv_retires:
  assumes rd: "run_ready dev iommu d dma sz buffer n_queues wr ps queues" and inv: "run_inv wr d dma ps queues m0 disk0 s"
    and g: "ts_consumer (tr_sys s) = Received cpl" "sqid = unat (load16 (ts_mem (tr_sys s)) (NVM_CPL_SQID cpl))"
    and t: "t = (tr_sys s)\<lparr>ts_queues := (ts_queues (tr_sys s))[sqid := (ts_queues (tr_sys s) ! sqid)\<lparr>u_queue := nvm_sq_update (tq (tr_sys s) sqid)\<rparr>],
       ts_consumer := Retiring\<rparr>"
  shows "run_inv wr d dma ps queues m0 disk0 (s\<lparr>tr_sys := t\<rparr>)"
proof -
  let ?sys = "tr_sys s" and ?k = "n_retired (tr_sys s)"
  note v = run_invD [OF inv]
  from completion_in_hand [OF v(1) g(1)] obtain c where c: "?k < length (ts_posted ?sys)" "c = ts_posted ?sys ! ?k" "sqid = cpl_sqid c"
    "0 < sqid" "sqid < length (ts_queues ?sys)" "?k = length (ts_received ?sys) - 1" "ts_received ?sys \<noteq> []" using g(2) by metis
  have T: "transfer_inv t" unfolding t by (rule transfer_inv_retires [OF v(1) g])
  have nr: "n_retired t = Suc ?k" "ts_posted t = ts_posted ?sys" using g(1) c(6,7) by (simp_all add: t n_retired_def)
  have tk: "take (Suc ?k) (ts_posted ?sys) = take ?k (ts_posted ?sys) @ [c]" "drop ?k (ts_posted ?sys) = c # drop (Suc ?k) (ts_posted ?sys)"
    using c(1,2) by (simp_all add: take_Suc_conv_app_nth Cons_nth_drop_Suc)
  have q: "ts_queues t ! i = (if i = sqid then (ts_queues ?sys ! i)\<lparr>u_queue := nvm_sq_update (tq ?sys i)\<rparr> else ts_queues ?sys ! i)" for i
    using c(5) by (simp add: t)
  have live: "sq_live (tq ?sys sqid)" "submitted (tq ?sys sqid) \<noteq> 0"
    using transfer_invD(8) [OF v(1) c(4,5)] c(3) tk(2) by (auto simp: thread_ok_def named_Cons)
  note u = sq_live_update [OF live]
  show ?thesis
  proof (rule run_inv_sys [OF rd inv T nr(2)])
    show "length (ts_queues t) = Suc (length ps)" "same_place (tq t 0) (u_queue (queues ! 0))" using v(2,3) c(4) q by (simp_all add: t)
    show "ts_mem t y = ts_mem ?sys y" for y by (simp add: t)
    fix j assume j: "j < length ps"
    show "n_issued t (Suc j) = n_issued ?sys (Suc j)"
      using u(3) c(3) q [of "Suc j"] by (auto simp: n_issued_def nr tk named_Cons)
    show "named (Suc j) (take (n_retired t) (ts_posted t)) + submitted (tq t (Suc j)) = named (Suc j) (take ?k (ts_posted ?sys)) + submitted (tq ?sys (Suc j))"
      using u(2) c(3) q [of "Suc j"] by (auto simp: nr tk named_Cons)
    show "producer_ok (ps ! j) dma (queues ! Suc j) (tr_at s j) (n_issued ?sys (Suc j)) (ts_queues t ! Suc j) (ts_mem ?sys)"
      using v(4) [OF j] producer_ok_retire [OF v(4) [OF j]] live(2) q [of "Suc j"] by auto
  qed
qed

lemma run_step_inv:
  assumes "run_step ndebug dev iommu d dma ps s t" "run_ready dev iommu d dma sz buffer n_queues wr ps queues" "run_inv wr d dma ps queues m0 disk0 s"
  shows "run_inv wr d dma ps queues m0 disk0 t"
  using assms(1)
proof cases
  case (producer_runs j i w at' queue w')
  note i = run_readyD(7) [OF assms(2) producer_runs(2)]
  show ?thesis
    by (rule conjunct1 [OF run_inv_turn [OF assms(2,3) producer_runs(2,5) producer_runs(6) [unfolded producer_runs(3) i] producer_runs(1) [unfolded producer_runs(3) i]]])
next
  case (controller_fetches j q r)
  show ?thesis unfolding controller_fetches(1) by (rule run_inv_fetches [OF assms(2,3) controller_fetches(2-5)])
next
  case (controller_runs "before" j k r "after" m disk cpl)
  show ?thesis unfolding controller_runs(1) by (rule run_inv_executes [OF assms(2,3) controller_runs(2-7) refl])
next
  case (consumer_gets cpl cq)
  show ?thesis unfolding consumer_gets(1) by (rule run_inv_gets [OF assms(2,3) consumer_gets(2-4) refl])
next
  case (consumer_updates_sq cpl sqid)
  show ?thesis unfolding consumer_updates_sq(1) by (rule run_inv_retires [OF assms(2,3) consumer_updates_sq(2,3) refl])
next
  case (consumer_updates_cq w cq w')
  show ?thesis unfolding consumer_updates_cq(1) by (rule run_inv_counts [OF assms(2,3) consumer_updates_cq(2-4) refl])
qed

section \<open>The end of a run\<close>

lemma issued_total:
  assumes "transfer_inv s" "length (ts_queues s) = Suc n"
  shows "(\<Sum>j<n. n_issued s (Suc j)) = n_retired s + outstanding s"
proof -
  have "\<forall>c \<in> set (take (n_retired s) (ts_posted s)). 0 < cpl_sqid c \<and> cpl_sqid c \<le> n"
    using transfer_invD(7) [OF assms(1)] assms(2) by (force dest: in_set_takeD)
  from named_sum [OF this] n_retired_le(1) [OF assms(1)] have "(\<Sum>j<n. named (Suc j) (take (n_retired s) (ts_posted s))) = n_retired s"
    by (simp add: interv_sum_list_conv_sum_set_nat lessThan_atLeast0)
  moreover have "outstanding s = (\<Sum>j<n. in_flight (tq s (Suc j)))"
    using assms(2) sum.shift_bounds_Suc_ivl [of "\<lambda>j. in_flight (tq s j)" 0 n] by (simp add: outstanding_def lessThan_atLeast0)
  ultimately show ?thesis by (simp add: n_issued_def sum.distrib)
qed

lemma run_counts:
  assumes rd: "run_ready dev iommu d dma sz buffer n_queues wr ps queues" and inv: "run_inv wr d dma ps queues m0 disk0 s"
  shows "n_retired (tr_sys s) + outstanding (tr_sys s) < 2 ^ 64"
proof -
  note r = run_readyD [OF rd] and v = run_invD [OF inv]
  from r(1) obtain a c where f: "dk_page_size d = 2 ^ a" "dk_block_size d = 2 ^ c" "c \<le> a" "a < 64" "unat sz + 2 ^ a \<le> 2 ^ 64" "d_page_size dma = 2 ^ a"
    and g: "n_chunks (2 ^ a) (unat sz) \<le> length (d_ioaddrs dma)" unfolding transfer_fits_def by (auto simp: unat_pow2)
  have "n_issued (tr_sys s) (Suc j) \<le> unat (producer_pages (ps ! j) dma) + 1" if "j < length ps" for j
  proof -
    have "n_issued (tr_sys s) (Suc j) \<le> n_commands (ps ! j) dma" using v(4) [OF that] place_ok_le unfolding producer_ok_def by blast
    also have "\<dots> \<le> n_transfers (ps ! j) dma + 1" by (simp add: n_commands_def)
    also have "\<dots> \<le> unat (producer_pages (ps ! j) dma) + 1"
      using n_chunks_le [OF split_okD(4) [OF work_readyD(1) [OF r(8) [OF that]]]] work_readyD(2) [OF r(8) [OF that]] by (simp add: n_transfers_def)
    finally show ?thesis .
  qed
  then have "n_retired (tr_sys s) + outstanding (tr_sys s) \<le> (\<Sum>j<length ps. unat (producer_pages (ps ! j) dma) + 1)"
    unfolding issued_total [OF v(1,2), symmetric] by (intro sum_mono) simp
  also have "\<dots> = sum_list (map (\<lambda>p. unat (producer_pages p dma)) ps) + length ps"
    by (simp add: sum.distrib sum_list_sum_nth lessThan_atLeast0 sum_Suc)
  also have "sum_list (map (\<lambda>p. unat (producer_pages p dma)) ps)
      = length (concat (map (\<lambda>p. [unat (page_base p dma)..<unat (page_base p dma) + unat (producer_pages p dma)]) ps))"
    by (simp add: length_concat comp_def)
  also have "\<dots> = n_chunks (2 ^ a) (unat sz)" unfolding transfer_division(2) [OF r(2) f] by simp
  finally have le: "n_retired (tr_sys s) + outstanding (tr_sys s) \<le> length (d_ioaddrs dma) + length ps" using g by linarith
  have n: "length ps < 2 ^ 16" using r(5) unat_u16_less [of n_queues] by simp
  have "0 < length ps" using r(2,5) by (auto simp: transfer_producers_def unat_gt_0 split: if_splits)
  then have q: "queue_ready dma (queues ! 1)" using r(6) [of 0] by simp
  have "64 * q_n (u_queue (queues ! 1)) \<le> unat (d_page_size dma)" using queue_readyD(3,5) [OF q] unfolding io_window_def by metis
  then have "128 \<le> unat (d_page_size dma)" using sq_liveD(4) [OF queue_readyD(2) [OF q]] by linarith
  then have "length (d_ioaddrs dma) * 128 \<le> length (d_ioaddrs dma) * unat (d_page_size dma)" by (rule mult_le_mono2)
  then have "length (d_ioaddrs dma) * 128 < 2 ^ 64" using window_small [OF r(1)] by (rule order_le_less_trans)
  then show ?thesis using le n by simp
qed

lemma run_complete:
  assumes rd: "run_ready dev iommu d dma sz buffer n_queues wr ps queues" and inv: "run_inv wr d dma ps queues m0 disk0 s" and ov: "run_over ps n_queues s" and x: "x < unat sz"
  shows "moved dma ps (tr_done s) x"
proof -
  let ?sys = "tr_sys s"
  note r = run_readyD [OF rd] and v = run_invD [OF inv]
  have "length (ts_queues ?sys) = unat n_queues + 1" "\<not> transfer_waits (ts_queues ?sys) n_queues" using v(2) r(5) ov by (simp_all add: run_over_def)
  note e = transfer_all_retired [OF v(1) this(1) run_counts [OF rd inv] this(2)]
  have nr: "n_retired ?sys = length (ts_posted ?sys)" using e(1,2) by (simp add: n_retired_def)
  from commands_cover [OF r(1,2) x] obtain p k where c: "(p, k) \<in> commands_of dma ps" "x \<in> cmd_range dma (p, k)" by auto
  then obtain j where j: "j < length ps" "p = ps ! j" "k < n_commands (ps ! j) dma" by (auto simp: commands_of_def in_set_conv_nth)
  have fl: "in_flight (tq ?sys (Suc j)) = 0" using e(3) v(2) j(1) by simp
  have ok: "place_ok (ps ! j) dma Finished (n_issued ?sys (Suc j)) (tq ?sys (Suc j))" "sq_live (tq ?sys (Suc j))"
    using v(4) [OF j(1)] ov j(1) by (simp_all add: producer_ok_def run_over_def issued_def)
  note f = fetch_okD [OF v(5) [OF j(1)]]
  have "named (Suc j) (ts_posted ?sys) = n_commands (ps ! j) dma" using ok(1) fl nr by (simp add: place_ok_def n_issued_def)
  moreover have "submitted (tq ?sys (Suc j)) = 0" using sq_liveD(6) [OF ok(2)] fl by simp
  ultimately have z: "filter (\<lambda>t. fst t = j) (tr_todo s) = []" "tr_fetched s j = n_commands (ps ! j) dma" using f(1,2) nr by simp_all
  have "k \<in> {k. (j, k) \<in> set (tr_done s) \<or> (\<exists>r. (j, k, r) \<in> set (tr_todo s))}" unfolding f(3) z(2) using j(3) by simp
  moreover have "(j, k, c) \<notin> set (tr_todo s)" for c using z(1) unfolding filter_empty_conv by (metis fst_conv)
  ultimately have "(j, k) \<in> set (tr_done s)" by blast
  then show ?thesis using c(2) j(2) by (auto simp: moved_def)
qed

section \<open>A transfer\<close>

text \<open>
  What a transfer starts from: sizes that fit together, a buffer that the controller and the host see alike, a
  completion queue and submission queues that were just created, and areas of memory that do not overlap.
\<close>

definition transfer_env ::
  "device \<Rightarrow> (u64 \<Rightarrow> u64) \<Rightarrow> disk \<Rightarrow> buffer \<Rightarrow> queue list \<Rightarrow> u16 \<Rightarrow> u64 \<Rightarrow> mem \<Rightarrow> bool" where
  "transfer_env dev iommu d buffer queues n_queues sz m \<longleftrightarrow> (\<exists>dma. map_option dc_handle (b_dma buffer) = Some dma \<and> transfer_fits d dma sz \<and> window_maps iommu dma
     \<and> length queues = Suc (unat n_queues) \<and> (\<forall>q \<in> set (tl queues). queue_ready dma q \<and> window_maps iommu (qmem_dma q)) \<and> layout_ok dev dma queues
     \<and> transfer_initial \<lparr>ts_queues = queues, ts_mem = m, ts_consumer = Polling, ts_posted = [], ts_received = []\<rparr>)"

lemma transfer_envD:
  assumes "transfer_env dev iommu d buffer queues n_queues sz m" "map_option dc_handle (b_dma buffer) = Some dma"
  shows "transfer_fits d dma sz" "layout_ok dev dma queues" "length queues = Suc (unat n_queues)"
    "transfer_initial \<lparr>ts_queues = queues, ts_mem = m, ts_consumer = Polling, ts_posted = [], ts_received = []\<rparr>"
    "\<And>wr ps. transfer_producers d buffer n_queues sz wr = Some ps \<Longrightarrow> run_ready dev iommu d dma sz buffer n_queues wr ps queues"
  using assms by (auto simp: transfer_env_def run_ready_def)

lemma run_inv_start:
  assumes rd: "run_ready dev iommu d dma sz buffer n_queues wr ps queues"
    and init: "transfer_initial \<lparr>ts_queues = queues, ts_mem = m, ts_consumer = Polling, ts_posted = [], ts_received = []\<rparr>"
  shows "run_inv wr d dma ps queues m disk (run_start queues ps dma m disk)"
proof -
  let ?s = "run_start queues ps dma m disk"
  note r = run_readyD [OF rd]
  have sys: "tr_sys ?s = \<lparr>ts_queues = queues, ts_mem = m, ts_consumer = Polling, ts_posted = [], ts_received = []\<rparr>" by (simp add: run_start_def)
  have fl: "in_flight (u_queue (queues ! Suc j)) = 0" if "j < length ps" for j using r(6) [OF that] by (simp add: queue_ready_def)
  have "producer_ok (ps ! j) dma (queues ! Suc j) (tr_at ?s j) (n_issued (tr_sys ?s) (Suc j)) (ts_queues (tr_sys ?s) ! Suc j) (ts_mem (tr_sys ?s))" if "j < length ps" for j
    using producer_ok_start [OF r(6) [OF that]] fl [OF that] by (simp add: run_start_def n_issued_def)
  moreover have "fetch_ok ?s j" if "j < length ps" for j by (simp add: fetch_ok_def run_start_def)
  moreover have "data_ok wr d dma ps m disk (tr_done ?s) (ts_mem (tr_sys ?s)) (tr_disk ?s)" by (simp add: data_ok_def run_start_def moved_def)
  ultimately show ?thesis unfolding run_inv_def using transfer_inv_initial [OF init] r(4) sys by (simp add: run_start_def same_place_def)
qed

lemma run_reach_inv:
  assumes "(run_step ndebug dev iommu d dma ps)\<^sup>*\<^sup>* s t" "run_ready dev iommu d dma sz buffer n_queues wr ps queues" "run_inv wr d dma ps queues m0 disk0 s"
  shows "run_inv wr d dma ps queues m0 disk0 t"
  using assms(1,3) by (induction rule: rtranclp_induct) (auto intro: run_step_inv [OF _ assms(2)])

text \<open>What holds of the medium and the buffer when a transfer returns.\<close>

lemma transfer_moves_data:
  assumes t: "transfer ndebug dev iommu d buffer queues n_queues sz wr s m disk (0, queues', s', m', disk')"
    and env: "transfer_env dev iommu d buffer queues n_queues sz m" and dma: "map_option dc_handle (b_dma buffer) = Some dma"
  shows "wr \<Longrightarrow> x < unat sz \<Longrightarrow> disk' (dk_ns_id d) x = m (d_vaddr dma + of_nat x)"
    "\<not> wr \<Longrightarrow> x < unat sz \<Longrightarrow> m' (d_vaddr dma + of_nat x) = disk (dk_ns_id d) x"
    "\<not> wr \<Longrightarrow> disk' = disk" "i \<noteq> dk_ns_id d \<Longrightarrow> disk' i = disk i"
proof -
  note e = transfer_envD [OF env dma]
  from t obtain ps p s1 u where u: "transfer_producers d buffer n_queues sz wr = Some ps"
    "(run_step ndebug dev iommu d dma ps)\<^sup>*\<^sup>* (run_start queues ps dma m disk) u" "run_over ps n_queues u" "m' = ts_mem (tr_sys u)" "disk' = tr_disk u"
    using dma by cases auto
  note rd = e(5) [OF u(1)]
  have inv: "run_inv wr d dma ps queues m disk u" by (rule run_reach_inv [OF u(2) rd run_inv_start [OF rd e(4)]])
  have mv: "moved dma ps (tr_done u) x" if "x < unat sz" by (rule run_complete [OF rd inv u(3) that])
  from e(1) have P: "0 < unat (d_page_size dma)" "n_chunks (unat (d_page_size dma)) (unat sz) \<le> length (d_ioaddrs dma)"
    by (auto simp: transfer_fits_def split_ok_def unat_gt_0)
  then have W: "x < length (d_ioaddrs dma) * unat (d_page_size dma)" if "x < unat sz" using that by (simp add: n_chunks_le_iff)
  show "wr \<Longrightarrow> x < unat sz \<Longrightarrow> disk' (dk_ns_id d) x = m (d_vaddr dma + of_nat x)"
    "\<not> wr \<Longrightarrow> x < unat sz \<Longrightarrow> m' (d_vaddr dma + of_nat x) = disk (dk_ns_id d) x"
    "\<not> wr \<Longrightarrow> disk' = disk" "i \<noteq> dk_ns_id d \<Longrightarrow> disk' i = disk i"
    using run_invD(7) [OF inv] mv W u(4,5) by (auto simp: data_ok_def split: if_splits)
qed

text \<open>Filling the buffer leaves the queues as they are.\<close>

lemma transfer_env_mem:
  assumes env: "transfer_env dev iommu d buffer queues n_queues sz m" and dma: "map_option dc_handle (b_dma buffer) = Some dma"
    and m: "\<forall>a. a \<notin> window_area dma \<longrightarrow> m' a = m a"
  shows "transfer_env dev iommu d buffer queues n_queues sz m'"
proof -
  note e = transfer_envD [OF env dma]
  note a = area_eqs [OF e(3), where dma = dma]
  have q: "m' x = m x" if "x \<in> cq_region (u_queue (queues ! 0))" for x
    using m layout_disjoint [OF e(2,3), of 0 "Suc (unat n_queues)" x] that a(1,2) by simp
  have "cq_tag m' (u_queue (queues ! 0)) i = cq_tag m (u_queue (queues ! 0)) i" if "i < q_n (u_queue (queues ! 0))" for i
    using load16_in_slot [of "cq_slot (u_queue (queues ! 0)) i" m' m] q cq_slot_region [OF that] by (simp add: cq_tag_def)
  then have "transfer_initial \<lparr>ts_queues = queues, ts_mem = m', ts_consumer = Polling, ts_posted = [], ts_received = []\<rparr>"
    using e(4) by (simp add: transfer_initial_def cq_initial_def cq_view_def)
  then show ?thesis using env dma by (auto simp: transfer_env_def)
qed

lemma fread_at:
  assumes "n = length bytes" "k < n" "n \<le> 2 ^ 64"
  shows "fread ptr n bytes m (ptr + of_nat k) = bytes ! k"
  using unat_small [of k] assms by (simp add: fread_def)

lemma fread_outside:
  assumes "a \<notin> window_area dma" "n \<le> length (d_ioaddrs dma) * unat (d_page_size dma)"
  shows "fread (d_vaddr dma) n bytes m a = m a"
proof -
  have "\<not> unat (a - d_vaddr dma) < n"
  proof
    assume "unat (a - d_vaddr dma) < n"
    then have "d_vaddr dma + of_nat (unat (a - d_vaddr dma)) \<in> window_area dma" using assms(2) by (intro window_areaI) simp
    with assms(1) show False by simp
  qed
  then show ?thesis by (simp add: fread_def)
qed

section \<open>A run can always end\<close>

text \<open>What is left to do, when every queue has an entry for each command of its producer.\<close>

definition run_work :: "nvm_dma \<Rightarrow> producer list \<Rightarrow> transfer_run \<Rightarrow> nat" where
  "run_work dma ps s = (\<Sum>j<length ps. rank (ps ! j) dma (tr_at s j) (n_issued (tr_sys s) (Suc j)) + 5 * (n_issued (tr_sys s) (Suc j) - tr_fetched s j))
     + 4 * length (tr_todo s) + 3 * (length (ts_posted (tr_sys s)) - length (ts_received (tr_sys s)))
     + (case ts_consumer (tr_sys s) of Polling \<Rightarrow> 0 | Received _ \<Rightarrow> 2 | Retiring \<Rightarrow> 1)"

lemma producer_progress:
  assumes rd: "run_ready dev iommu d dma sz buffer n_queues wr ps queues" and inv: "run_inv wr d dma ps queues m0 disk0 s"
    and j: "j < length ps" "tr_at s j \<noteq> Finished" "n_commands (ps ! j) dma < q_n (u_queue (queues ! Suc j))"
  shows "\<exists>t. run_step ndebug dev iommu d dma ps s t \<and> run_work dma ps t < run_work dma ps s"
proof -
  note r = run_readyD [OF rd] and v = run_invD [OF inv]
  let ?w = "\<lparr>w_mem = ts_mem (tr_sys s), w_tick = 0, w_log = []\<rparr>" and ?cur = "ts_queues (tr_sys s) ! Suc j"
  have ok: "producer_ok (ps ! j) dma (queues ! Suc j) (tr_at s j) (n_issued (tr_sys s) (Suc j)) ?cur (w_mem ?w)" using v(4) [OF j(1)] by simp
  from producer_turn_ok [OF ok r(6,8) [OF j(1)] producer_area [OF rd j(1)], of ndebug] obtain at' q' w' where
    t: "producer_turn ndebug dev (ps ! j) dma (tr_at s j) ?cur ?w = Some (at', q', w')" by blast
  define t1 where "t1 = s\<lparr>tr_sys := (tr_sys s)\<lparr>ts_queues := (ts_queues (tr_sys s))[Suc j := q'], ts_mem := w_mem w'\<rparr>, tr_at := (tr_at s)(j := at')\<rparr>"
  have i: "unat (p_queue_no (ps ! j)) = Suc j" "Suc j < length (ts_queues (tr_sys s))" using r(7) [OF j(1)] v(2) j(1) by simp_all
  have step: "run_step ndebug dev iommu d dma ps s t1" unfolding t1_def
    by (rule producer_runs [OF j(1) i(1) [symmetric] i(2) _ t]) simp
  let ?f = "\<lambda>s i. rank (ps ! i) dma (tr_at s i) (n_issued (tr_sys s) (Suc i)) + 5 * (n_issued (tr_sys s) (Suc i) - tr_fetched s i)"
  have "w_mem ?w = ts_mem (tr_sys s)" by simp
  from run_inv_turn [OF rd inv j(1) this t t1_def] j(2,3) fetched_le [OF inv j(1)]
  have "rank (ps ! j) dma at' (n_issued (tr_sys t1) (Suc j)) + 5 * (n_issued (tr_sys t1) (Suc j) - tr_fetched s j) < ?f s j" by linarith
  moreover have "tr_at t1 j = at'" "tr_fetched t1 = tr_fetched s" by (simp_all add: t1_def)
  ultimately have lt: "?f t1 j < ?f s j" by simp
  have eq: "?f t1 i = ?f s i" if "i \<noteq> j" for i using that by (simp add: t1_def n_issued_def n_retired_def)
  have "(\<Sum>i<length ps. ?f t1 i) < (\<Sum>i<length ps. ?f s i)"
  proof (rule sum_strict_mono_ex1)
    have "?f t1 i \<le> ?f s i" for i using less_imp_le [OF lt] eq by (cases "i = j") simp_all
    then show "\<forall>i \<in> {..<length ps}. ?f t1 i \<le> ?f s i" by blast
    show "\<exists>i \<in> {..<length ps}. ?f t1 i < ?f s i" using lt j(1) by blast
  qed simp
  then have "run_work dma ps t1 < run_work dma ps s" by (simp add: run_work_def) (simp add: t1_def)
  with step show ?thesis by blast
qed

text \<open>When the producers are done, what is left is in the queues.\<close>

lemma finished_work:
  assumes "run_inv wr d dma ps queues m0 disk0 s" "\<forall>j < length ps. tr_at s j = Finished"
  shows "run_work dma ps s = (\<Sum>j<length ps. 5 * (n_commands (ps ! j) dma - tr_fetched s j))
     + 4 * length (tr_todo s) + 3 * (length (ts_posted (tr_sys s)) - length (ts_received (tr_sys s)))
     + (case ts_consumer (tr_sys s) of Polling \<Rightarrow> 0 | Received _ \<Rightarrow> 2 | Retiring \<Rightarrow> 1)"
proof -
  have "n_issued (tr_sys s) (Suc j) = n_commands (ps ! j) dma" if "j < length ps" for j
    using run_invD(4) [OF assms(1) that] assms(2) that by (simp add: producer_ok_def place_ok_def)
  then show ?thesis using assms(2) by (simp add: run_work_def rank_def)
qed

lemma finished_fetch:
  assumes rd: "run_ready dev iommu d dma sz buffer n_queues wr ps queues" and inv: "run_inv wr d dma ps queues m0 disk0 s"
    and fin: "\<forall>j < length ps. tr_at s j = Finished" and w: "transfer_waits (ts_queues (tr_sys s)) n_queues"
    and idle: "ts_consumer (tr_sys s) = Polling" "ts_received (tr_sys s) = ts_posted (tr_sys s)" "tr_todo s = []"
  obtains j where "j < length ps" "tr_fetched s j mod q_n (tq (tr_sys s) (Suc j)) \<noteq> unat (q_last (tq (tr_sys s) (Suc j)))"
    "tr_fetched s j < n_commands (ps ! j) dma"
proof -
  let ?sys = "tr_sys s"
  note r = run_readyD [OF rd] and v = run_invD [OF inv]
  have nr: "n_retired ?sys = length (ts_posted ?sys)" "n_counted ?sys = length (ts_posted ?sys)" using idle(1,2) by (simp_all add: n_retired_def n_counted_def)
  have "length (ts_queues ?sys) = unat n_queues + 1" using v(2) r(5) by simp
  from counters_compare [OF v(1) this run_counts [OF rd inv]] w nr have "outstanding ?sys \<noteq> 0" by simp
  then obtain i where "i \<in> {1..<length (ts_queues ?sys)}" "in_flight (tq ?sys i) \<noteq> 0" unfolding outstanding_def by (meson sum.neutral)
  then have i: "0 < i" "i < Suc (length ps)" "in_flight (tq ?sys i) \<noteq> 0" using v(2) by simp_all
  then obtain j where j: "i = Suc j" "j < length ps" by (cases i) auto
  let ?q1 = "tq ?sys (Suc j)" and ?r = "named (Suc j) (take (n_retired ?sys) (ts_posted ?sys))"
  have ok: "sq_live ?q1" "sq_counts (?r + in_flight ?q1) ?q1" "q_last ?q1 = q_tail ?q1" "?r + in_flight ?q1 = n_commands (ps ! j) dma"
    using v(4) [OF j(2)] unfolding fin [rule_format, OF j(2)] producer_ok_def issued_def place_ok_def n_issued_def producer_at.case by blast+
  have f: "tr_fetched s j = ?r" using fetch_okD(1) [OF v(5) [OF j(2)]] idle(3) nr by simp
  have s: "submitted ?q1 = in_flight ?q1" using ok(3) by (simp add: submitted_def in_flight_def)
  have n: "in_flight ?q1 < q_n ?q1" "in_flight ?q1 \<noteq> 0" using in_flight_less [OF sq_liveD(2) [OF ok(1)]] i(3) j(1) by simp_all
  have "?r mod q_n ?q1 \<noteq> (?r + in_flight ?q1) mod q_n ?q1" using mod_distinct [of ?r "?r + in_flight ?q1" "q_n ?q1" 0] n by simp
  with doorbell_ahead [OF ok(1,2)] s f ok(4) n(2) show ?thesis by (intro that [OF j(2)]) simp_all
qed

lemma finished_step:
  assumes "run_step ndebug dev iommu d dma ps s t" "run_ready dev iommu d dma sz buffer n_queues wr ps queues" "run_inv wr d dma ps queues m0 disk0 s"
    and "\<forall>j < length ps. tr_at s j = Finished" "tr_at t = tr_at s"
  shows "run_work dma ps t = (\<Sum>j<length ps. 5 * (n_commands (ps ! j) dma - tr_fetched t j))
     + 4 * length (tr_todo t) + 3 * (length (ts_posted (tr_sys t)) - length (ts_received (tr_sys t)))
     + (case ts_consumer (tr_sys t) of Polling \<Rightarrow> 0 | Received _ \<Rightarrow> 2 | Retiring \<Rightarrow> 1)"
  by (rule finished_work [OF run_step_inv [OF assms(1-3)]]) (use assms(4,5) in simp)

lemma consumer_progress:
  assumes rd: "run_ready dev iommu d dma sz buffer n_queues wr ps queues" and inv: "run_inv wr d dma ps queues m0 disk0 s"
    and fin: "\<forall>j < length ps. tr_at s j = Finished" and "ts_consumer (tr_sys s) \<noteq> Polling \<or> ts_received (tr_sys s) \<noteq> ts_posted (tr_sys s)"
  shows "\<exists>t. run_step ndebug dev iommu d dma ps s t \<and> run_work dma ps t < run_work dma ps s"
proof -
  let ?sys = "tr_sys s"
  note v = run_invD [OF inv] and fw = finished_work [OF inv fin] and cq = transfer_inv_cq [OF run_invD(1) [OF inv]]
  note work = finished_step [OF _ rd inv fin]
  consider (counts) "ts_consumer ?sys = Retiring" | (retires) cpl where "ts_consumer ?sys = Received cpl"
    | (gets) "ts_consumer ?sys = Polling" "length (ts_received ?sys) < length (ts_posted ?sys)"
    using assms(4) cq(2,3) by (cases "ts_consumer ?sys") fastforce+
  then show ?thesis
  proof cases
    case counts
    let ?w = "\<lparr>w_mem = ts_mem ?sys, w_tick = 0, w_log = []\<rparr>"
    obtain q w' where u: "nvm_cq_update dev (tq ?sys 0) ?w = (q, w')" by fastforce
    have "w_mem ?w = ts_mem ?sys" by simp
    note st = consumer_updates_cq [OF counts this u, of ndebug iommu d dma ps]
    show ?thesis by (rule exI, rule conjI [OF st]) (simp add: work [OF st] fw counts)
  next
    case (retires cpl)
    obtain c where "unat (load16 (ts_mem ?sys) (NVM_CPL_SQID cpl)) < length (ts_queues ?sys)"
      by (rule completion_in_hand [OF v(1) retires]) simp
    note st = consumer_updates_sq [OF retires refl this, of ndebug dev iommu d dma ps]
    show ?thesis by (rule exI, rule conjI [OF st]) (simp add: work [OF st] fw retires)
  next
    case gets
    have "cq_tag (ts_mem ?sys) (tq ?sys 0) (unat (q_head (tq ?sys 0))) = q_phase (tq ?sys 0)" using cq_synced_ready [OF cq(1,4)] gets(2) by simp
    moreover have "cq_slot (tq ?sys 0) (unat (q_head (tq ?sys 0))) \<noteq> NULL" using cq(1) by (intro cq_slot_nonnull) (auto simp: cq_ok_def queue_wf_def)
    ultimately obtain cpl q where d: "nvm_cq_dequeue (tq ?sys 0) (ts_mem ?sys) = (cpl, q)" "cpl \<noteq> NULL" using nvm_cq_dequeue_eq [OF cq(1), of "ts_mem ?sys"] by simp
    note st = consumer_gets [OF gets(1) d, of ndebug dev iommu d dma ps]
    show ?thesis by (rule exI, rule conjI [OF st]) (use gets(2) in \<open>simp add: work [OF st] fw gets(1)\<close>)
  qed
qed

lemma finished_progress:
  assumes rd: "run_ready dev iommu d dma sz buffer n_queues wr ps queues" and inv: "run_inv wr d dma ps queues m0 disk0 s"
    and fin: "\<forall>j < length ps. tr_at s j = Finished" and w: "transfer_waits (ts_queues (tr_sys s)) n_queues"
  shows "\<exists>t. run_step ndebug dev iommu d dma ps s t \<and> run_work dma ps t < run_work dma ps s"
proof (cases "ts_consumer (tr_sys s) = Polling \<and> ts_received (tr_sys s) = ts_posted (tr_sys s)")
  case False
  then show ?thesis by (intro consumer_progress [OF rd inv fin]) blast
next
  case True
  let ?sys = "tr_sys s"
  note r = run_readyD [OF rd] and v = run_invD [OF inv] and fw = finished_work [OF inv fin]
  note work = finished_step [OF _ rd inv fin]
  from True have idle: "ts_consumer ?sys = Polling" "ts_received ?sys = ts_posted ?sys" by simp_all
  show ?thesis
  proof (cases "tr_todo s")
    case (Cons todo rest)
    obtain j k c where t: "tr_todo s = [] @ (j, k, c) # rest" using Cons by (cases todo) simp
    obtain m disk where e: "execute_io (unat (d_page_size dma)) (unat (dk_block_size d)) iommu c (ts_mem ?sys, tr_disk s) = (m, disk)" by fastforce
    have "Suc j < 65536" using v(6) [of j k c] t r(5) unat_u16_less [of n_queues] by simp
    then obtain cpl where cpl: "length cpl = 4" "cpl_sqid cpl = Suc j" "(if bit (cpl_status cpl) 0 then 1 else 0) = dev_tag (q_n (tq ?sys 0)) (length (ts_posted ?sys))"
      by (rule completion_exists [of "Suc j" "dev_tag (q_n (tq ?sys 0)) (length (ts_posted ?sys))"]) (auto simp: dev_tag_def)
    have "length (ts_posted ?sys) - n_counted ?sys < q_n (tq ?sys 0) - 1" using idle transfer_invD(3) [OF v(1)] by (simp add: n_counted_def)
    note st = controller_runs [OF t e cpl(1,2) this cpl(3), of ndebug dev ps, unfolded append_Nil]
    show ?thesis by (rule exI, rule conjI [OF st]) (simp add: work [OF st] fw idle t)
  next
    case Nil
    from finished_fetch [OF rd inv fin w idle Nil] obtain j where
      j: "j < length ps" "tr_fetched s j mod q_n (tq ?sys (Suc j)) \<noteq> unat (q_last (tq ?sys (Suc j)))" "tr_fetched s j < n_commands (ps ! j) dma" by blast
    note st = controller_fetches [OF j(1) refl j(2) refl, of ndebug dev iommu d dma]
    have le: "(\<Sum>i<length ps. 5 * (n_commands (ps ! i) dma - tr_fetched s i))
        \<ge> 5 + (\<Sum>i<length ps. 5 * (n_commands (ps ! i) dma - ((tr_fetched s)(j := Suc (tr_fetched s j))) i))"
      using j(1,3) by (simp add: sum.remove [of "{..<length ps}" j])
    show ?thesis by (rule exI, rule conjI [OF st]) (use le work [OF st] in \<open>simp add: fw idle Nil\<close>)
  qed
qed

lemma run_can_end:
  assumes rd: "run_ready dev iommu d dma sz buffer n_queues wr ps queues" and "run_inv wr d dma ps queues m0 disk0 s"
    and "\<forall>j < length ps. n_commands (ps ! j) dma < q_n (u_queue (queues ! Suc j))"
  shows "\<exists>t. (run_step ndebug dev iommu d dma ps)\<^sup>*\<^sup>* s t \<and> run_over ps n_queues t"
  using assms(2)
proof (induction "run_work dma ps s" arbitrary: s rule: less_induct)
  case less
  show ?case
  proof (cases "run_over ps n_queues s")
    case False
    then have "\<exists>t. run_step ndebug dev iommu d dma ps s t \<and> run_work dma ps t < run_work dma ps s"
      using producer_progress [OF rd less.prems] finished_progress [OF rd less.prems] assms(3) unfolding run_over_def by metis
    then obtain t where t: "run_step ndebug dev iommu d dma ps s t" "run_work dma ps t < run_work dma ps s" by blast
    from less.hyps [OF t(2) run_step_inv [OF t(1) rd less.prems]] t(1) show ?thesis by (meson converse_rtranclp_into_rtranclp)
  qed blast
qed

lemma transfer_exists:
  assumes env: "transfer_env dev iommu d buffer queues n_queues sz m" and dma: "map_option dc_handle (b_dma buffer) = Some dma"
    and ps: "transfer_producers d buffer n_queues sz wr = Some ps" "\<forall>j < length ps. n_commands (ps ! j) dma < q_n (u_queue (queues ! Suc j))"
    and "malloc s = (Some p, s')"
  shows "\<exists>queues1 s1 m1 disk1. transfer ndebug dev iommu d buffer queues n_queues sz wr s m disk (0, queues1, s1, m1, disk1)"
proof -
  note rd = transfer_envD(5) [OF env dma ps(1)]
  from run_can_end [OF rd run_inv_start [OF rd transfer_envD(4) [OF env dma]] ps(2)] obtain t where
    "(run_step ndebug dev iommu d dma ps)\<^sup>*\<^sup>* (run_start queues ps dma m disk) t" "run_over ps n_queues t" by blast
  from transfer_returns [OF ps(1) assms(5) dma this] show ?thesis by blast
qed

section \<open>Properties\<close>

text \<open>
  C13: Threads and controller never block each other: whatever they have done so far, they can go on until
  \<open>transfer\<close> returns.  Every queue is to have more entries than its producer issues commands.
\<close>

theorem transfer_not_stuck:
  assumes "transfer_env dev iommu d buffer queues n_queues sz m" "map_option dc_handle (b_dma buffer) = Some dma"
    and "transfer_producers d buffer n_queues sz wr = Some producers"
    and "\<forall>j < length producers. n_commands (producers ! j) dma < q_n (u_queue (queues ! Suc j))"
    and "(run_step ndebug dev iommu d dma producers)\<^sup>*\<^sup>* (run_start queues producers dma m disk) s"
  shows "\<exists>t. (run_step ndebug dev iommu d dma producers)\<^sup>*\<^sup>* s t \<and> run_over producers n_queues t"
proof -
  note e = transfer_envD [OF assms(1,2)] and rd = transfer_envD(5) [OF assms(1-3)]
  have "run_inv wr d dma producers queues m disk s" by (rule run_reach_inv [OF assms(5) rd run_inv_start [OF rd e(4)]])
  from run_can_end [OF rd this assms(4)] show ?thesis .
qed

text \<open>
  C3: The file that \<open>disk_write\<close> writes is the file that \<open>disk_read\<close> reads back, whatever the order in which the
  threads and the controller run, with how many queues and through which buffers; other namespaces stay as they
  are, and reading changes none.  The two transfers may be of different runs of the program.  The controller fetches an entry
  together with its PRP list, which it finds through PRP2.  A transfer of one command has at most as many pages as
  one list describes and at most 65536 blocks (\<open>split_ok\<close>, part of \<open>transfer_env\<close>).
\<close>

theorem integrity_round_trip:
  assumes "disk_write ndebug dev iommu d buffer queues n_queues file sz s m disk (0, queues1, s1, m1, disk1)"
    and "disk_read ndebug' dev' iommu' d buffer' queues' n_queues' sz s' m' disk1 (0, out, queues2, s2, m2, disk2)"
    and "unat sz = length file" "transfer_env dev iommu d buffer queues n_queues sz m" "transfer_env dev' iommu' d buffer' queues' n_queues' sz m'"
  shows "out = file \<and> disk2 = disk1 \<and> (\<forall>i. i \<noteq> dk_ns_id d \<longrightarrow> disk1 i = disk i)"
proof -
  from assms(1) obtain dma where dma: "map_option dc_handle (b_dma buffer) = Some dma"
    and w: "transfer ndebug dev iommu d buffer queues n_queues sz True s (fread (d_vaddr dma) (unat sz) file m) disk (0, queues1, s1, m1, disk1)" by cases
  from assms(2) obtain dma' where dma': "map_option dc_handle (b_dma buffer') = Some dma'"
    and r: "transfer ndebug' dev' iommu' d buffer' queues' n_queues' sz False s' m' disk1 (0, queues2, s2, m2, disk2)"
    and out: "out = fwrite (d_vaddr dma') (unat sz) m2" by cases simp
  have fits: "transfer_fits d dma sz" by (rule transfer_envD(1) [OF assms(4) dma])
  then have "0 < unat (d_page_size dma)" "n_chunks (unat (d_page_size dma)) (unat sz) \<le> length (d_ioaddrs dma)"
    by (auto simp: transfer_fits_def split_ok_def unat_gt_0)
  then have W: "unat sz \<le> length (d_ioaddrs dma) * unat (d_page_size dma)" by (simp add: n_chunks_le_iff)
  have env: "transfer_env dev iommu d buffer queues n_queues sz (fread (d_vaddr dma) (unat sz) file m)"
    by (rule transfer_env_mem [OF assms(4) dma]) (use fread_outside [OF _ W] in blast)
  have sz: "unat sz \<le> 2 ^ 64" using window_small [OF fits] W by linarith
  have "disk1 (dk_ns_id d) x = file ! x" if "x < unat sz" for x
    using transfer_moves_data(1) [OF w env dma TrueI that] fread_at [OF assms(3) that sz] by simp
  moreover have "m2 (d_vaddr dma' + of_nat x) = disk1 (dk_ns_id d) x" if "x < unat sz" for x
    using transfer_moves_data(2) [OF r assms(5) dma' _ that] by simp
  ultimately have "out = file" unfolding out fwrite_def using assms(3) by (intro nth_equalityI) simp_all
  then show ?thesis using transfer_moves_data(3) [OF r assms(5) dma'] transfer_moves_data(4) [OF w env dma] by blast
qed

section \<open>Examples\<close>

text \<open>A file of two and a half pages, written and read by one command with a PRP list, through one submission queue.\<close>

definition file_iommu :: "u64 \<Rightarrow> u64" where
  "file_iommu a = (if a < 0x90000 then a - 0x10000 else a - 0x70000)"

abbreviation big_disk :: disk where
  "big_disk \<equiv> file_disk\<lparr>dk_max_data_size := 0x3000\<rparr>"

abbreviation file_queues :: "queue list" where
  "file_queues \<equiv> [demo_cq_queue, file_queue]"

lemma in_range_bounds:
  assumes "in_range b n a" "unat b + n \<le> 2 ^ 64"
  shows "unat b \<le> unat a" "unat a < unat b + n"
proof -
  have "unat (b + (a - b)) = unat b + unat (a - b)" using assms by (subst unat_add_lem [THEN iffD1]) (simp_all add: in_range_def)
  then show "unat b \<le> unat a" "unat a < unat b + n" using assms(1) by (simp_all add: in_range_def)
qed

lemma file_areas:
  "a \<in> area file_window file_queues 0 \<Longrightarrow> 0x30000 \<le> unat a \<and> unat a < 0x31000"
  "a \<in> area file_window file_queues 1 \<Longrightarrow> 0x20000 \<le> unat a \<and> unat a < 0x25000"
  "a \<in> area file_window file_queues 2 \<Longrightarrow> 0x40000 \<le> unat a \<and> unat a < 0x43000"
proof -
  assume "a \<in> area file_window file_queues 0"
  then obtain i where i: "i < 4" "in_range (cq_slot demo_cq i) 16 a" by (auto simp: area_def demo_cq_queue_def cq_region_def demo_cq_fields)
  have "i = 0 \<or> i = 1 \<or> i = 2 \<or> i = 3" using i(1) by auto
  then have "cq_slot demo_cq i = 0x30000 \<or> cq_slot demo_cq i = 0x30010 \<or> cq_slot demo_cq i = 0x30020 \<or> cq_slot demo_cq i = 0x30030"
    by (auto simp: cq_slot_def queue_slot_def demo_cq_fields)
  then show "0x30000 \<le> unat a \<and> unat a < 0x31000" using in_range_bounds [OF i(2)] by auto
next
  assume "a \<in> area file_window file_queues 1"
  then have "in_range 0x20000 0x5000 a" by (simp add: area_def file_queue_def demo_container_def io_region_def demo_sq_mem_def demo_sq_fields)
  from in_range_bounds [OF this] show "0x20000 \<le> unat a \<and> unat a < 0x25000" by simp
next
  assume "a \<in> area file_window file_queues 2"
  then obtain x where x: "a = 0x40000 + of_nat x" "x < 0x3000" by (auto simp: area_def window_area_def file_window_def)
  then have "in_range 0x40000 0x3000 a" using unat_small [of x] by (simp add: in_range_def)
  from in_range_bounds [OF this] show "0x40000 \<le> unat a \<and> unat a < 0x43000" by simp
qed

lemma file_layout: "layout_ok (\<lambda>_ m. m) file_window file_queues"
proof -
  have d: "area file_window file_queues i \<inter> area file_window file_queues j = {}" if "i \<le> 2" "j \<le> 2" "i \<noteq> j" for i j
  proof -
    have "(i = 0 \<or> i = 1 \<or> i = 2) \<and> (j = 0 \<or> j = 1 \<or> j = 2)" using that by auto
    then show ?thesis using that(3) file_areas by fastforce
  qed
  have "untouched (\<lambda>_ m. m) q (\<Union>i \<le> 2. area file_window file_queues i)" if "q_db q = 0x1100c \<or> q_db q = 0x11008" for q
  proof -
    have "\<not> in_range (q_db q) 4 a" if a: "a \<in> area file_window file_queues i" "i \<le> 2" for i a
    proof
      have "i = 0 \<or> i = 1 \<or> i = 2" using a(2) by auto
      then have "0x20000 \<le> unat a" using file_areas a(1) by fastforce
      moreover assume "in_range (q_db q) 4 a"
      from in_range_bounds [OF this] have "unat a < 0x11010" using \<open>q_db q = 0x1100c \<or> q_db q = 0x11008\<close> by auto
      ultimately show False by simp
    qed
    then show ?thesis by (auto simp: untouched_def)
  qed
  moreover have "q_db (u_queue demo_cq_queue) = 0x1100c" "q_db (u_queue file_queue) = 0x11008"
    by (simp_all add: demo_cq_queue_def file_queue_def demo_cq_fields demo_sq_fields)
  moreover have n: "length file_queues = 2" by simp
  ultimately show ?thesis unfolding layout_ok_def n using d by simp
qed

lemma file_window_maps: "window_maps file_iommu file_window" "window_maps file_iommu demo_sq_mem"
proof -
  have u: "unat (of_nat k :: u64) = k" if "k < 0x1000" for k :: nat using that by (intro unat_of_nat_small) simp
  have "file_iommu (d_ioaddrs file_window ! i + of_nat k) = d_vaddr file_window + of_nat (i * 0x1000 + k)" if "i < 3" "k < 0x1000" for i k
  proof -
    have "i = 0 \<or> i = 1 \<or> i = 2" using that(1) by auto
    then show ?thesis using that(2) u [OF that(2)] by (auto simp: file_window_def file_iommu_def word_less_nat_alt unat_word_ariths)
  qed
  moreover have "length (d_ioaddrs file_window) = 3" "unat (d_page_size file_window) = 0x1000" by (simp_all add: file_window_def)
  ultimately show "window_maps file_iommu file_window" by (simp add: window_maps_def)
  have "file_iommu (d_ioaddrs demo_sq_mem ! i + of_nat k) = d_vaddr demo_sq_mem + of_nat (i * 0x1000 + k)" if "i < 5" "k < 0x1000" for i k
  proof -
    have "i = 0 \<or> i = 1 \<or> i = 2 \<or> i = 3 \<or> i = 4" using that(1) by auto
    then show ?thesis using that(2) u [OF that(2)] by (auto simp: demo_sq_mem_def file_iommu_def word_less_nat_alt unat_word_ariths)
  qed
  moreover have "length (d_ioaddrs demo_sq_mem) = 5" "unat (d_page_size demo_sq_mem) = 0x1000" by (simp_all add: demo_sq_mem_def)
  ultimately show "window_maps file_iommu demo_sq_mem" by (simp add: window_maps_def)
qed

lemma file_env: "transfer_env (\<lambda>_ m. m) file_iommu big_disk file_buffer file_queues 1 0x2800 (\<lambda>_. 0)"
proof -
  have "transfer_fits big_disk file_window 0x2800"
    unfolding transfer_fits_def
    by (intro conjI exI [of _ 12] exI [of _ 9]) (simp_all add: file_disk_def file_window_def n_chunks_def split_ok_def)
  moreover have "qmem_dma file_queue = demo_sq_mem" by (simp add: file_queue_def demo_container_def)
  then have "window_maps file_iommu (qmem_dma file_queue)" using file_window_maps(2) by simp
  moreover note file_window_maps(1)
  moreover have "queue_ready file_window file_queue"
    using demo_sq_live demo_io_window by (simp add: queue_ready_def file_queue_def demo_container_def demo_sq_mem_def file_window_def)
  ultimately show ?thesis unfolding transfer_env_def
    using file_layout demo_transfer_initial by (intro exI [of _ file_window]) (simp add: file_buffer_def demo_container_def demo_transfer_def)
qed

lemma file_producers:
  obtains p where "transfer_producers big_disk file_buffer 1 0x2800 wr = Some [p]" "n_commands p file_window < 4"
proof (rule that)
  let ?p = "\<lparr>p_write = wr, p_buffer = file_buffer, p_queue_no = 1, p_disk = big_disk, p_start_block = 0, p_n_blocks = 20\<rparr>"
  show "transfer_producers big_disk file_buffer 1 0x2800 wr = Some [?p]"
    by (simp add: transfer_producers_def transfer_producer_def file_disk_def NVM_PAGE_ALIGN_def NVM_PAGE_MASK_def NVM_PAGE_TO_BLOCK_def)
  show "n_commands ?p file_window < 4"
    by (simp add: n_commands_def n_transfers_def n_chunks_def producer_ios_def producer_pages_def file_disk_def file_window_def
        NVM_BLOCK_TO_PAGE_def NVM_PAGE_ALIGN_def NVM_PAGE_MASK_def)
qed

lemma file_buffer_dma: "map_option dc_handle (b_dma file_buffer) = Some file_window"
  by (simp add: file_buffer_def demo_container_def)

lemma file_room:
  assumes "n_commands p file_window < 4"
  shows "\<forall>j < length [p]. n_commands ([p] ! j) file_window < q_n (u_queue (file_queues ! Suc j))"
  using assms by (simp add: file_queue_def demo_sq_fields)

lemma demo_malloc: "\<exists>p s. malloc demo_os = (Some p, s)"
  by (simp add: malloc_def acquire_def sys_call_def demo_os_def Let_def)

theorem transfer_not_stuck_witness:
  "\<exists>producers t. transfer_producers big_disk file_buffer 1 0x2800 True = Some producers
     \<and> (run_step True (\<lambda>_ m. m) file_iommu big_disk file_window producers)\<^sup>*\<^sup>* (run_start file_queues producers file_window (\<lambda>_. 0) (\<lambda>_ _. 0)) t
     \<and> run_over producers 1 t"
proof -
  obtain p where p: "transfer_producers big_disk file_buffer 1 0x2800 True = Some [p]" "n_commands p file_window < 4" by (rule file_producers)
  from transfer_not_stuck [OF file_env file_buffer_dma p(1) file_room [OF p(2)] rtranclp.rtrancl_refl] p(1) show ?thesis by blast
qed

theorem integrity_round_trip_witness:
  "\<exists>queues1 s1 m1 disk1 queues2 s2 m2 disk2.
     disk_write True (\<lambda>_ m. m) file_iommu big_disk file_buffer file_queues 1 (map of_nat [0..<0x2800]) 0x2800 demo_os (\<lambda>_. 0) (\<lambda>_ _. 0) (0, queues1, s1, m1, disk1)
     \<and> disk_read True (\<lambda>_ m. m) file_iommu big_disk file_buffer file_queues 1 0x2800 demo_os (\<lambda>_. 0) disk1 (0, map of_nat [0..<0x2800], queues2, s2, m2, disk2)"
proof -
  let ?file = "map of_nat [0..<0x2800] :: u8 list"
  let ?m = "fread (d_vaddr file_window) (unat (0x2800 :: u64)) ?file (\<lambda>_. 0)"
  obtain p s where s: "malloc demo_os = (Some p, s)" using demo_malloc by blast
  obtain pw where w: "transfer_producers big_disk file_buffer 1 0x2800 True = Some [pw]" "n_commands pw file_window < 4" by (rule file_producers)
  obtain pr where r: "transfer_producers big_disk file_buffer 1 0x2800 False = Some [pr]" "n_commands pr file_window < 4" by (rule file_producers)
  have "transfer_env (\<lambda>_ m. m) file_iommu big_disk file_buffer file_queues 1 0x2800 ?m"
    by (rule transfer_env_mem [OF file_env file_buffer_dma], intro allI impI, rule fread_outside) (simp_all add: file_window_def)
  from transfer_exists [OF this file_buffer_dma w(1) file_room [OF w(2)] s, of True "\<lambda>_ _. 0"] obtain queues1 s1 m1 disk1 where
    dw: "disk_write True (\<lambda>_ m. m) file_iommu big_disk file_buffer file_queues 1 ?file 0x2800 demo_os (\<lambda>_. 0) (\<lambda>_ _. 0) (0, queues1, s1, m1, disk1)"
    using disk_writes [OF file_buffer_dma] by blast
  from transfer_exists [OF file_env file_buffer_dma r(1) file_room [OF r(2)] s, of True disk1] obtain queues2 s2 m2 disk2 where
    dr: "disk_read True (\<lambda>_ m. m) file_iommu big_disk file_buffer file_queues 1 0x2800 demo_os (\<lambda>_. 0) disk1
      (0, fwrite (d_vaddr file_window) (unat (0x2800 :: u64)) m2, queues2, s2, m2, disk2)"
    using disk_reads [OF _ file_buffer_dma refl] by fastforce
  have "unat (0x2800 :: u64) = length ?file" by simp
  note e = conjunct1 [OF integrity_round_trip [OF dw dr this file_env file_env]]
  show ?thesis by (intro exI, rule conjI [OF dw dr [unfolded e]])
qed

end
