(* ===== verification/Prog_Main.thy ===== *)
theory Prog_Main
  imports Prog_Integrity Io_Run
begin

text \<open>
  The main function of \<open>examples/integrity/integrity.c\<close> as a whole: what it sets up in \<open>Prog_Integrity\<close>, the transfer of
  \<open>Io_Run\<close>, and what it gives back.
\<close>

section \<open>The main function\<close>

text \<open>
  A relation like the transfer itself.  The result is the exit status, what was written to the file when the program
  reads from the disk, and the state of the system, memory and the medium.
\<close>

inductive integrity_main ::
  "device \<Rightarrow> binding remote_stub \<Rightarrow> u64 \<Rightarrow> int \<Rightarrow> nvm_ctrl_info \<Rightarrow> nvm_ns_info \<Rightarrow> u64 \<Rightarrow> disk \<Rightarrow> buffer \<Rightarrow> bool \<Rightarrow> int \<Rightarrow> (nat \<Rightarrow> u64) \<Rightarrow> string list
     \<Rightarrow> (u64 \<Rightarrow> u64) \<Rightarrow> u8 list \<Rightarrow> os \<Rightarrow> world \<Rightarrow> media \<Rightarrow> int \<times> u8 list \<times> os \<times> mem \<times> media \<Rightarrow> bool"
  for dev remote cpl_ptr junk junk_info junk_ns num d buffer ndebug sysconf segment_size argv iommu fp s w disk where
  main_leaves:
    "integrity_setup dev remote cpl_ptr junk junk_info junk_ns num d buffer ndebug sysconf segment_size (of_nat (length fp)) argv s w = Some (Inl status, s1, w1) \<Longrightarrow>
     integrity_main dev remote cpl_ptr junk junk_info junk_ns num d buffer ndebug sysconf segment_size argv iommu fp s w disk (status, [], s1, w_mem w1, disk)"
| main_reads:
    "integrity_setup dev remote cpl_ptr junk junk_info junk_ns num d buffer ndebug sysconf segment_size (of_nat (length fp)) argv s w = Some (Inr x, s1, w1) \<Longrightarrow>
     0 < ar_read_bytes (ss_args x) \<Longrightarrow> ss_queues x = Some (p, queues) \<Longrightarrow>
     disk_read ndebug dev iommu (ss_disk x) (ss_buffer x) queues (ar_n_queues (ss_args x)) (ss_file_size x) s1 (w_mem w1) disk (status, out, queues', s2, m, disk') \<Longrightarrow>
     integrity_out (x\<lparr>ss_queues := Some (p, queues')\<rparr>) s2 = Some s3 \<Longrightarrow>
     integrity_main dev remote cpl_ptr junk junk_info junk_ns num d buffer ndebug sysconf segment_size argv iommu fp s w disk (status, out, s3, m, disk')"
| main_writes:
    "integrity_setup dev remote cpl_ptr junk junk_info junk_ns num d buffer ndebug sysconf segment_size (of_nat (length fp)) argv s w = Some (Inr x, s1, w1) \<Longrightarrow>
     ar_read_bytes (ss_args x) = 0 \<Longrightarrow> ss_queues x = Some (p, queues) \<Longrightarrow>
     disk_write ndebug dev iommu (ss_disk x) (ss_buffer x) queues (ar_n_queues (ss_args x)) fp (ss_file_size x) s1 (w_mem w1) disk (status, queues', s2, m, disk') \<Longrightarrow>
     integrity_out (x\<lparr>ss_queues := Some (p, queues')\<rparr>) s2 = Some s3 \<Longrightarrow>
     integrity_main dev remote cpl_ptr junk junk_info junk_ns num d buffer ndebug sysconf segment_size argv iommu fp s w disk (status, [], s3, m, disk')"

section \<open>What a transfer leaves to give back\<close>

text \<open>A transfer keeps the memory of the queues, and it frees what it allocated.\<close>

lemma producer_turn_qmem:
  "producer_turn ndebug dev p dma at queue w = Some (at', queue', w') \<Longrightarrow> u_qmem queue' = u_qmem queue"
  by (auto simp: producer_turn_def issue_turn_def flush_turn_def Let_def split: producer_at.splits if_splits prod.splits Option.bind_splits)

lemma map_update_same: "f y = f (xs ! i) \<Longrightarrow> map f (xs[i := y]) = map f xs"
  by (cases "i < length xs") (simp_all add: map_update list_update_same_conv list_update_beyond)

lemma run_step_qmem:
  "run_step ndebug dev iommu d dma ps s t \<Longrightarrow> map u_qmem (ts_queues (tr_sys t)) = map u_qmem (ts_queues (tr_sys s))"
  by (induction rule: run_step.induct) (auto simp: map_update_same dest: producer_turn_qmem)

lemma run_qmem:
  "(run_step ndebug dev iommu d dma ps)\<^sup>*\<^sup>* s t \<Longrightarrow> map u_qmem (ts_queues (tr_sys t)) = map u_qmem (ts_queues (tr_sys s))"
  by (induction rule: rtranclp_induct) (auto dest: run_step_qmem)

lemma transfer_keeps:
  assumes "transfer ndebug dev iommu d buffer queues n_queues sz wr s m disk (status, queues', s', m', disk')"
  shows "map u_qmem queues' = map u_qmem queues \<and> gains s s' {#}"
  using assms
proof cases
  case (transfer_no_memory producers)
  then show ?thesis using malloc_none by simp
next
  case (transfer_returns producers p s1 dma t)
  have "map u_qmem queues' = map u_qmem queues" using run_qmem transfer_returns by (fastforce simp: run_start_def)
  moreover have "gains s s' {#}" using free_undo_only [OF malloc_some] transfer_returns by simp
  ultimately show ?thesis by simp
qed

text \<open>
  The queues that \<open>request_queues\<close> made can be removed after a transfer as well as before it, and nothing of them is
  left.
\<close>

lemma remove_queues_after_transfer:
  assumes "sci_releases s0" "queues_made s0 (unat n) 0 (Some (p, queues)) s" "n < 0xffff"
    and t: "transfer ndebug dev iommu d buffer queues n sz wr s m disk (status, queues', s', m', disk')"
  shows "\<exists>s'' L. remove_queues (Some (p, queues')) n s' = Some s'' \<and> descs L \<and> gains s0 s'' L"
proof -
  note k = transfer_keeps [OF t]
  from assms(2) obtain L where L: "descs L" "length queues = unat n + 1" "\<forall>q \<in> set queues. own_window (queue_dma q)"
    "gains s0 s (L + {#(Heap, p)#} + queues_owned queues)" by (auto simp: queues_made_def)
  have len: "length queues' = length queues" using k map_eq_imp_length_eq by blast
  have o: "queues_owned xs = sum_list (map dis_owned (map b_dma (map u_qmem xs)))" for xs by (simp add: comp_def)
  have "queues_owned queues' = queues_owned queues" unfolding o using k by simp
  then have g: "gains s0 s' (L + {#(Heap, p)#} + queues_owned queues')" using gains_trans [OF L(4), of s' "{#}"] k by simp
  have i: "queue_dma ` set xs = b_dma ` set (map u_qmem xs)" for xs by (simp add: image_image)
  have "queue_dma ` set queues' = queue_dma ` set queues" unfolding i using k by simp
  moreover have "\<forall>h \<in> queue_dma ` set queues. own_window h" using L(3) by blast
  ultimately have "\<forall>h \<in> queue_dma ` set queues'. own_window h" by simp
  then have "\<forall>q \<in> set queues'. own_window (queue_dma q)" by blast
  then show ?thesis using remove_queues_undo [OF assms(1,3), of queues' s' L p] g len L(1,2) by auto
qed

end
