(* ===== verification/Prog_Read.thy ===== *)
theory Prog_Read
  imports Prog_Identify Dis_Dma
begin

unbundle bit_operations_syntax

text \<open>
  The programs that read blocks: \<open>examples/read-blocks/module.c\<close> through the kernel module and \<open>smartio.c\<close> through
  SmartIO.  Every pointer is NULL (\<open>None\<close>) until it is set, and the label \<open>leave\<close> gives back all of them.
\<close>

section \<open>Through the kernel module\<close>

text \<open>
  \<open>disk\<close> and \<open>queues\<close> are the structs on the stack, with what they hold before they are written; the three lists are
  the addresses the kernel module hands out for the windows, in the order of the calls.
\<close>

definition leave_read ::
  "ioctl_mapping dma option \<Rightarrow> ioctl_mapping dma option \<Rightarrow> ioctl_mapping dma option \<Rightarrow> nat option \<Rightarrow> nat option \<Rightarrow> os \<Rightarrow> os option" where
  "leave_read buffer sq_mem cq_mem buffer_ptr queue_ptr s =
     do { s \<leftarrow> nvm_dma_unmap buffer s;
          s \<leftarrow> nvm_dma_unmap sq_mem s;
          s \<leftarrow> nvm_dma_unmap cq_mem s;
          Some (free queue_ptr (free buffer_ptr s)) }"

text \<open>
  What is set when the label is reached: the three windows and the two blocks.  Up to the queue pair, which is there
  when nothing failed; the status is that of the last step.
\<close>

type_synonym read_memory = "ioctl_mapping dma option \<times> ioctl_mapping dma option \<times> ioctl_mapping dma option \<times> nat option \<times> nat option"

definition prepare_queues ::
  "bool \<Rightarrow> int \<Rightarrow> device \<Rightarrow> binding remote_stub \<Rightarrow> u64 \<Rightarrow> u64 list \<times> u64 list \<times> u64 list \<Rightarrow> queue_pair \<Rightarrow> aq_ref \<Rightarrow> disk_info \<Rightarrow> options
     \<Rightarrow> os \<Rightarrow> world \<Rightarrow> (int \<times> queue_pair option \<times> read_memory \<times> aq_ref \<times> os \<times> world) option" where
  "prepare_queues ndebug sysconf dev remote cpl_ptr kaddrs queues ref disk args s w =
     (let page_size = di_page_size disk;
          n_prp_lists = page_size div of_nat sizeof_cmd;
          ctrl = f_ctrl ref;
          len = op_num_blocks args * di_block_size disk in
      case posix_memalign (NVM_CTRL_ALIGN (k_handle ctrl) len) s of (status, (b, buffer_ptr), s) \<Rightarrow>
        if status \<noteq> 0 then Some (status, None, (None, None, None, None, None), ref, s, w)
        else
          case posix_memalign (page_size * (n_prp_lists + 2)) s of (status, (q, queue_ptr), s) \<Rightarrow>
            if status \<noteq> 0 then Some (status, None, (None, None, None, Some b, None), ref, s, w)
            else
              do { (status, sq_mem, s) \<leftarrow>
                     nvm_dma_map_host ndebug sysconf ctrl (fst kaddrs) (NVM_PTR_OFFSET queue_ptr page_size 1) (page_size * (n_prp_lists + 1)) s;
                   if \<not> nvm_ok status then Some (status, None, (None, sq_mem, None, Some b, Some q), ref, s, w)
                   else
                     do { (status, cq_mem, s) \<leftarrow> nvm_dma_map_host ndebug sysconf ctrl (fst (snd kaddrs)) queue_ptr page_size s;
                          if \<not> nvm_ok status then Some (status, None, (None, sq_mem, cq_mem, Some b, Some q), ref, s, w)
                          else
                            do { (status, buffer, s) \<leftarrow> nvm_dma_map_host ndebug sysconf ctrl (snd (snd kaddrs)) buffer_ptr len s;
                                 if \<not> nvm_ok status then Some (status, None, (buffer, sq_mem, cq_mem, Some b, Some q), ref, s, w)
                                 else
                                   do { cq \<leftarrow> map_option dc_handle cq_mem;
                                        sq \<leftarrow> map_option dc_handle sq_mem;
                                        (status, queues, ref, s, w) \<leftarrow> create_queue_pair dev remote cpl_ptr ref queues cq sq s w;
                                        Some (status, if status \<noteq> 0 then None else Some queues, (buffer, sq_mem, cq_mem, Some b, Some q), ref, s, w) } } } })"

definition prepare_and_read ::
  "bool \<Rightarrow> int \<Rightarrow> others \<Rightarrow> device \<Rightarrow> binding remote_stub \<Rightarrow> u64 \<Rightarrow> u64 list \<times> u64 list \<times> u64 list \<Rightarrow> queue_pair \<Rightarrow> aq_ref \<Rightarrow> disk_info \<Rightarrow> options
     \<Rightarrow> os \<Rightarrow> world \<Rightarrow> (int \<times> dump option \<times> aq_ref \<times> os \<times> world) option" where
  "prepare_and_read ndebug sysconf oth dev remote cpl_ptr kaddrs queues ref disk args s w =
     do { (status, made, (buffer, sq_mem, cq_mem, buffer_ptr, queue_ptr), ref, s, w) \<leftarrow>
            prepare_queues ndebug sysconf dev remote cpl_ptr kaddrs queues ref disk args s w;
          (status, out, s, w) \<leftarrow>
            (case made of
               None \<Rightarrow> Some (status, None, s, w)
             | Some queues \<Rightarrow>
                 do { d \<leftarrow> map_option dc_handle buffer;
                      (status, out, queues, s, w) \<leftarrow> read_and_dump ndebug oth dev disk queues d args s w;
                      Some (status, out, s, w) });
          s \<leftarrow> leave_read buffer sq_mem cq_mem buffer_ptr queue_ptr s;
          Some (status, out, ref, s, w) }"

definition leave_main ::
  "aq_ref option \<Rightarrow> ioctl_mapping dma option \<Rightarrow> nat option \<Rightarrow> controller option \<Rightarrow> int \<Rightarrow> os \<Rightarrow> os option" where
  "leave_main aq_ref aq_mem aq_ptr ctrl fd s =
     do { s \<leftarrow> nvm_aq_destroy aq_ref s;
          s \<leftarrow> nvm_dma_unmap aq_mem s;
          s \<leftarrow> nvm_ctrl_free ctrl (free aq_ptr s);
          Some (close_fd fd s) }"

definition read_module_main ::
  "bool \<Rightarrow> int \<Rightarrow> others \<Rightarrow> device \<Rightarrow> binding remote_stub \<Rightarrow> u64 \<Rightarrow> int \<Rightarrow> nvm_ctrl_info \<Rightarrow> nvm_ns_info \<Rightarrow> u64 list \<Rightarrow> u64 list \<times> u64 list \<times> u64 list
     \<Rightarrow> disk_info \<Rightarrow> queue_pair \<Rightarrow> string list \<Rightarrow> os \<Rightarrow> world \<Rightarrow> (int \<times> dump option \<times> os \<times> world) option" where
  "read_module_main ndebug sysconf oth dev remote cpl_ptr junk junk_info junk_ns aq_kaddrs kaddrs disk queues argv s w =
     (case parse_options False argv of
        Inl e \<Rightarrow> Some (e, None, s, w)
      | Inr args \<Rightarrow>
          case acquire Fd s of (err, n, s) \<Rightarrow>
            if err \<noteq> 0 then Some (1, None, s, w)
            else
              do { let fd = int n;
                   (status, ctrl, s) \<leftarrow> nvm_ctrl_init ndebug sysconf (w_mem w) s;
                   if \<not> nvm_ok status then do { s \<leftarrow> leave_main None None None ctrl fd s; Some (status, None, s, w) }
                   else
                     do { c \<leftarrow> ctrl;
                          (case posix_memalign (c_page_size (k_handle c) * 3) s of (status, (b, aq_ptr), s) \<Rightarrow>
                             if status \<noteq> 0 then do { s \<leftarrow> leave_main None None None ctrl fd s; Some (status, None, s, w) }
                             else
                               do { (status, aq_mem, s) \<leftarrow>
                                      nvm_dma_map_host ndebug sysconf c aq_kaddrs aq_ptr (c_page_size (k_handle c) * 3) s;
                                    if \<not> nvm_ok status
                                    then do { s \<leftarrow> leave_main None aq_mem (Some b) ctrl fd s; Some (status, None, s, w) }
                                    else
                                      do { d \<leftarrow> map_option dc_handle aq_mem;
                                           (status, aq_ref, s, w) \<leftarrow> nvm_aq_create dev junk c d s w;
                                           if \<not> nvm_ok status
                                           then do { s \<leftarrow> leave_main aq_ref aq_mem (Some b) ctrl fd s; Some (status, None, s, w) }
                                           else if length (d_ioaddrs d) < 3 then None
                                           else
                                             do { ref \<leftarrow> aq_ref;
                                                  (status, disk, ref, s, w) \<leftarrow> get_disk_info dev remote cpl_ptr junk_info junk_ns ref disk
                                                     (op_namespace_id args) (NVM_DMA_OFFSET d 2) (d_ioaddrs d ! 2) s w;
                                                  (status, out, ref, s, w) \<leftarrow>
                                                    (if status \<noteq> 0 then Some (status, None, ref, s, w)
                                                     else prepare_and_read ndebug sysconf oth dev remote cpl_ptr kaddrs queues ref disk args s w);
                                                  s \<leftarrow> leave_main (Some ref) aq_mem (Some b) ctrl fd s;
                                                  Some (status, out, s, w) } } }) } })"

section \<open>Through SmartIO\<close>

text \<open>The memory of the submission queue is segment 1 of the device.\<close>

definition leave_smartio ::
  "map_descriptor dma option \<Rightarrow> map_descriptor dma option \<Rightarrow> map_descriptor dma option \<Rightarrow> aq_ref option \<Rightarrow> map_descriptor dma option \<Rightarrow> controller option
     \<Rightarrow> os \<Rightarrow> os option" where
  "leave_smartio cq_mem sq_mem buffer aq_ref aq_mem ctrl s =
     do { s \<leftarrow> nvm_dma_unmap cq_mem s;
          s \<leftarrow> nvm_dma_unmap sq_mem s;
          s \<leftarrow> nvm_dma_unmap buffer s;
          s \<leftarrow> nvm_aq_destroy aq_ref s;
          s \<leftarrow> nvm_dma_unmap aq_mem s;
          s \<leftarrow> nvm_ctrl_free ctrl s;
          Some (SCITerminate s) }"

text \<open>From the admin queues on.\<close>

definition smartio_read ::
  "bool \<Rightarrow> others \<Rightarrow> device \<Rightarrow> binding remote_stub \<Rightarrow> u64 \<Rightarrow> queue_pair \<Rightarrow> controller \<Rightarrow> map_descriptor dma option \<Rightarrow> aq_ref \<Rightarrow> disk_info \<Rightarrow> options
     \<Rightarrow> os \<Rightarrow> world \<Rightarrow> (int \<times> dump option \<times> os \<times> world) option" where
  "smartio_read ndebug oth dev remote cpl_ptr queues c aq_mem ref info args s w =
     do { let leave = (\<lambda>cq_mem sq_mem buffer ref status out s w.
                do { s \<leftarrow> leave_smartio cq_mem sq_mem buffer (Some ref) aq_mem (Some c) s; Some (status, out, s, w) });
          let page_size = c_page_size (k_handle c);
          (status, buffer, s) \<leftarrow> nvm_dis_dma_create c (op_adapter args) (op_segment_id args + 1) (op_num_blocks args * di_block_size info) s;
          if \<not> nvm_ok status then leave None None buffer ref status None s w
          else
            do { (status, cq_mem, s) \<leftarrow> nvm_dis_dma_create c (op_adapter args) (op_segment_id args + 2) page_size s;
                 if \<not> nvm_ok status then leave cq_mem None buffer ref status None s w
                 else
                   do { let n_prp_lists = page_size div of_nat sizeof_cmd;
                        let max_entries = ucast (c_max_entries (k_handle c));
                        let n_prp_lists = (if max_entries < n_prp_lists then max_entries else n_prp_lists);
                        (status, sq_mem, s) \<leftarrow> nvm_dis_dma_connect c (op_adapter args) 1 (page_size * (n_prp_lists + 1)) True s;
                        if \<not> nvm_ok status then leave cq_mem sq_mem buffer ref status None s w
                        else
                          do { cq \<leftarrow> map_option dc_handle cq_mem;
                               sq \<leftarrow> map_option dc_handle sq_mem;
                               (status, queues, ref, s, w) \<leftarrow> create_queue_pair dev remote cpl_ptr ref queues cq sq s w;
                               if \<not> nvm_ok status then leave cq_mem sq_mem buffer ref status None s w
                               else
                                 do { d \<leftarrow> map_option dc_handle buffer;
                                      (status, out, queues, s, w) \<leftarrow> read_and_dump ndebug oth dev info queues d args s w;
                                      leave cq_mem sq_mem buffer ref status out s w } } } } }"

definition read_smartio_main ::
  "bool \<Rightarrow> int \<Rightarrow> (nat \<Rightarrow> u64) \<Rightarrow> others \<Rightarrow> device \<Rightarrow> binding remote_stub \<Rightarrow> u64 \<Rightarrow> int \<Rightarrow> nvm_ctrl_info \<Rightarrow> nvm_ns_info \<Rightarrow> disk_info \<Rightarrow> queue_pair
     \<Rightarrow> string list \<Rightarrow> os \<Rightarrow> world \<Rightarrow> (int \<times> dump option \<times> os \<times> world) option" where
  "read_smartio_main ndebug sysconf segment_size oth dev remote cpl_ptr junk junk_info junk_ns info queues argv s w =
     (case parse_options True argv of
        Inl e \<Rightarrow> Some (e, None, s, w)
      | Inr args \<Rightarrow>
          case SCIInitialize s of (err, s) \<Rightarrow>
            if err \<noteq> SCI_ERR_OK then Some (1, None, s, w)
            else
              do { (status, ctrl, s) \<leftarrow>
                     nvm_dis_ctrl_init ndebug sysconf (w_mem w) segment_size (op_controller_id args) (op_adapter args) s;
                   if \<not> nvm_ok status
                   then do { s \<leftarrow> leave_smartio None None None None None ctrl s; Some (status, None, s, w) }
                   else
                     do { c \<leftarrow> ctrl;
                          (status, aq_mem, s) \<leftarrow>
                            nvm_dis_dma_create c (op_adapter args) (op_segment_id args) (c_page_size (k_handle c) * 3) s;
                          if \<not> nvm_ok status
                          then do { s \<leftarrow> leave_smartio None None None None aq_mem ctrl s; Some (status, None, s, w) }
                          else
                            do { d \<leftarrow> map_option dc_handle aq_mem;
                                 (status, aq_ref, s, w) \<leftarrow> nvm_aq_create dev junk c d s w;
                                 if \<not> nvm_ok status
                                 then do { s \<leftarrow> leave_smartio None None None aq_ref aq_mem ctrl s; Some (status, None, s, w) }
                                 else if length (d_ioaddrs d) < 3 then None
                                 else
                                   do { ref \<leftarrow> aq_ref;
                                        (status, info, ref, s, w) \<leftarrow> get_disk_info dev remote cpl_ptr junk_info junk_ns ref info
                                           (op_namespace_id args) (NVM_DMA_OFFSET d 2) (d_ioaddrs d ! 2) s w;
                                        if status \<noteq> 0
                                        then do { s \<leftarrow> leave_smartio None None None (Some ref) aq_mem ctrl s; Some (status, None, s, w) }
                                        else smartio_read ndebug oth dev remote cpl_ptr queues c aq_mem ref info args s w } } } })"

section \<open>The queue pair fits its memory\<close>

lemma populate_loop_length: "populate_loop i n cps ps io = Some as \<Longrightarrow> length as = n - i"
proof (induction i n cps ps io arbitrary: as rule: populate_loop.induct)
  case (1 i n cps ps io)
  show ?case
  proof (cases "i < n")
    case True
    let ?p = "(of_nat i * cps) div ps"
    have l: "unat ?p < length io" using "1.prems" True by (subst (asm) populate_loop.simps) (auto simp: Let_def split: if_splits)
    then obtain rest where r: "populate_loop (Suc i) n cps ps io = Some rest" "length as = Suc (length rest)"
      using "1.prems" True by (subst (asm) populate_loop.simps) (auto simp: Let_def split: Option.bind_splits)
    from "1.IH" [OF True refl refl l r(1)] r(2) True show ?thesis by simp
  next
    case False
    then show ?thesis using "1.prems" by (subst (asm) populate_loop.simps) simp
  qed
qed

lemma raw_rpc_ctrl: "nvm_raw_rpc dev remote ref cmd cpl ptr s w = Some (e, ref', cmd', cpl', s', w') \<Longrightarrow> f_ctrl ref' = f_ctrl ref"
  by (auto simp: nvm_raw_rpc_def split: prod.splits if_splits option.splits Option.bind_splits)

lemma create_queue_pair_queues:
  assumes "create_queue_pair dev remote cpl_ptr ref qp cq_mem sq_mem s w = Some (0, qp', ref', s', w')"
  shows "\<exists>io. qp_sq qp' = nvm_queue_clear (k_handle (f_ctrl ref)) False 2 (d_vaddr sq_mem) io \<and> qp_sq_mem qp' = sq_mem
    \<and> qp_cq_mem qp' = cq_mem \<and> qp_num_cpls qp' = 0"
  using assms
  by (auto simp: create_queue_pair_def nvm_admin_set_num_queues_def nvm_admin_request_num_queues_def nvm_admin_cq_create_def
      nvm_admin_sq_create_def Let_def nvm_ok_def NVM_ERR_PACK_def split: Option.bind_splits if_splits prod.splits dest!: raw_rpc_ctrl)

lemma map_host_window:
  assumes "nvm_dma_map_host ndebug sysconf ctrl kaddrs vaddr sz s = Some (0, Some c, s')"
  shows "d_vaddr (dc_handle c) = vaddr \<and> d_page_size (dc_handle c) = c_page_size (k_handle ctrl) \<and>
    length (d_ioaddrs (dc_handle c)) = unat (d_n_ioaddrs (dc_handle c)) \<and>
    (let ps = nvm_host_page_size ndebug sysconf in
     d_n_ioaddrs (dc_handle c) = (ps * (NVM_PAGE_ALIGN sz ps div ps)) div c_page_size (k_handle ctrl))"
  using assms
  by (auto simp: nvm_dma_map_host_def nvm_dma_map_ioctl_def create_mapping_def nvm_dma_create_def populate_handle_def
      map_memory_def nvm_dma_handle_populate_def n_ctrl_pages_def Let_def dest!: populate_loop_length
      split: Option.bind_splits if_splits prod.splits option.splits)

lemma pow_64:
  assumes "6 \<le> k"
  shows "(2 :: nat) ^ k = 64 * 2 ^ (k - 6)"
proof -
  have "(2 :: nat) ^ k = 2 ^ (6 + (k - 6))" using assms by simp
  also have "\<dots> = 2 ^ 6 * 2 ^ (k - 6)" by (rule power_add)
  finally show ?thesis by simp
qed

lemma queue_memory_pages:
  assumes "12 \<le> k" "k \<le> 20" "sz = 2 ^ k * (2 ^ k div of_nat sizeof_cmd + 1)"
  shows "unat sz = 2 ^ k * (2 ^ (k - 6) + 1)" "unat ((2 ^ k * (NVM_PAGE_ALIGN sz (2 ^ k) div 2 ^ k)) div 2 ^ k) = 2 ^ (k - 6) + 1"
proof -
  let ?N = "2 ^ (k - 6) + 1 :: nat"
  have p: "unat (2 ^ k :: u64) = 2 ^ k" using assms(2) by (simp add: unat_pow2)
  have "(2 :: nat) ^ k = 2 ^ (k - 6) * 64" using pow_64 [of k] assms(1) by simp
  then have d: "unat (2 ^ k div of_nat sizeof_cmd :: u64) = 2 ^ (k - 6)" by (simp add: unat_div p sizeof_cmd_def)
  have kb: "(2 :: nat) ^ k \<le> 2 ^ 20" "(2 :: nat) ^ (k - 6) \<le> 2 ^ 14" using assms(2) by (intro power_increasing; simp)+
  then have b: "(2 :: nat) ^ (k - 6) + 1 < 2 ^ 64" by simp
  have "2 ^ k * ?N \<le> 2 ^ 20 * (2 ^ 14 + 1)" using kb by (intro mult_le_mono) simp_all
  then have lt: "2 ^ k * ?N + 2 ^ k \<le> 2 ^ 64" "2 ^ k * ?N < 2 ^ 64" using kb(1) by simp_all
  have "unat (2 ^ k div of_nat sizeof_cmd + 1 :: u64) = ?N" using d b by (simp add: unat_word_ariths)
  then show s: "unat sz = 2 ^ k * ?N" using lt(2) by (simp add: assms(3) unat_word_ariths p)
  have "(a * n + a - 1) div a = n" if "0 < a" for a n :: nat
    using that div_mult_self1 [of a "a - 1" n] by (simp add: mult.commute add.commute)
  then have "(2 ^ k * ?N + 2 ^ k - 1) div 2 ^ k = ?N" by (metis zero_less_numeral zero_less_power)
  then have "unat (NVM_PAGE_ALIGN sz (2 ^ k)) = ?N * 2 ^ k" using unat_NVM_PAGE_ALIGN [of k sz] assms(2) lt(1) s by simp
  then have "unat (NVM_PAGE_ALIGN sz (2 ^ k) div 2 ^ k) = ?N" by (simp add: unat_div p)
  then have "unat (2 ^ k * (NVM_PAGE_ALIGN sz (2 ^ k) div 2 ^ k)) = 2 ^ k * ?N" using lt(2) by (simp add: unat_word_ariths p)
  then show "unat ((2 ^ k * (NVM_PAGE_ALIGN sz (2 ^ k) div 2 ^ k)) div 2 ^ k) = ?N" by (simp add: unat_div p)
qed

lemma queue_pair_fits:
  assumes "12 \<le> k" "k \<le> 20" "c_page_size (k_handle ctrl) = 2 ^ k"
    and "nvm_dma_map_host ndebug (2 ^ k) ctrl kaddrs vaddr (2 ^ k * (2 ^ k div of_nat sizeof_cmd + 1)) s = Some (0, Some c, s1)"
    and "vaddr \<noteq> NULL" "unat vaddr + 2 ^ k * (2 ^ (k - 6) + 1) \<le> 2 ^ 64"
    and "2 \<le> c_max_entries (k_handle ctrl)" "unat (c_max_entries (k_handle ctrl)) dvd 2 ^ 32" "f_ctrl ref = ctrl"
    and "create_queue_pair dev remote cpl_ptr ref qp cq_mem (dc_handle c) s2 w = Some (0, qp', ref', s3, w')"
  shows "io_window (qp_sq_mem qp') (qp_sq qp') \<and> sq_live (qp_sq qp') \<and> sq_counts 0 (qp_sq qp') \<and> in_flight (qp_sq qp') = 0
    \<and> qp_num_cpls qp' = 0 \<and> d_page_size (qp_sq_mem qp') = 2 ^ k"
proof -
  have hp: "nvm_host_page_size ndebug (2 ^ k) = 2 ^ k" by (simp add: nvm_host_page_size_def)
  have w: "d_vaddr (dc_handle c) = vaddr" "d_page_size (dc_handle c) = 2 ^ k" "length (d_ioaddrs (dc_handle c)) = 2 ^ (k - 6) + 1"
    using map_host_window [OF assms(4)] queue_memory_pages(2) [OF assms(1,2) refl] assms(3) by (simp_all add: hp Let_def)
  from create_queue_pair_queues [OF assms(10)] assms(9) obtain io where
    q: "qp_sq qp' = nvm_queue_clear (k_handle ctrl) False 2 vaddr io" "qp_sq_mem qp' = dc_handle c" "qp_num_cpls qp' = 0"
    using w(1) by auto
  have p: "unat (2 ^ k :: u64) = 2 ^ k" using assms(2) by (simp add: unat_pow2)
  have k6: "(2 :: nat) ^ k = 64 * 2 ^ (k - 6)" using pow_64 [of k] assms(1) by simp
  have n: "q_n (qp_sq qp') = min (unat (c_max_entries (k_handle ctrl))) (2 ^ (k - 6))"
    using q(1) assms(3) p k6 by (simp add: nvm_queue_clear_n)
  have me: "2 \<le> unat (c_max_entries (k_handle ctrl))" using assms(7) by (simp add: word_le_nat_alt)
  have k1: "(2 :: nat) ^ 1 \<le> 2 ^ (k - 6)" "(2 :: nat) ^ (k - 6) \<le> 2 ^ 14" using assms(1,2) by (intro power_increasing; simp)+
  have n2: "2 \<le> q_n (qp_sq qp')" "q_n (qp_sq qp') \<le> 2 ^ (k - 6)" using n me k1 by auto
  have "(2 :: nat) ^ (k - 6) dvd 2 ^ 32" using assms(2) by (intro le_imp_power_dvd) simp
  then have dv: "q_n (qp_sq qp') dvd 2 ^ 32" using n assms(8) by (simp add: min_def)
  have fit: "2 ^ k * (q_n (qp_sq qp') + 1) \<le> 2 ^ k * (2 ^ (k - 6) + 1)" using n2(2) by (intro mult_le_mono2) simp
  have "unat vaddr + 2 ^ k * (q_n (qp_sq qp') + 1) \<le> 2 ^ 64" using fit assms(6) by linarith
  moreover have "64 * q_n (qp_sq qp') \<le> 2 ^ k" "q_n (qp_sq qp') < 2 ^ (k - 6) + 1"
    using n2(2) k6 by linarith+
  moreover have "2 * q_n (qp_sq qp') \<le> 2 ^ 16" using order_trans [OF n2(2) k1(2)] by simp
  moreover have "q_vaddr (qp_sq qp') = vaddr" "q_entry_size (qp_sq qp') = 64" by (simp_all add: q(1))
  ultimately have win: "io_window (qp_sq_mem qp') (qp_sq qp')"
    unfolding io_window_def q(2) w p using assms(5) by blast
  have "64 * q_n (qp_sq qp') \<le> 2 ^ k * (2 ^ (k - 6) + 1)" using n2(2) k6 by (simp add: trans_le_add1)
  then have "sq_ok (qp_sq qp')" unfolding q(1)
    by (intro sq_ok_clear) (use assms me dv q(1) p k6 k1 in \<open>auto simp: word_less_nat_alt word_le_nat_alt\<close>)
  then have "sq_live (qp_sq qp')" using n2(1) q(1) by (simp add: sq_live_def submitted_def)
  with win show ?thesis using q w by (simp add: sq_counts_clear)
qed

text \<open>The blocks that \<open>prepare_and_read\<close> allocates lie in the address space, the queue memory after its first page too.\<close>

lemma memalign_address:
  "posix_memalign sz s = (0, (b, a), s') \<Longrightarrow> a \<noteq> NULL \<and> unat a + unat sz \<le> 2 ^ 64"
  by (auto simp: posix_memalign_def Let_def split: if_splits prod.splits)

lemma queue_block:
  assumes "12 \<le> k" "k \<le> 20" "unat a + unat (2 ^ k * (2 ^ k div of_nat sizeof_cmd + 2) :: u64) \<le> 2 ^ 64"
  shows "a + 2 ^ k \<noteq> (NULL :: u64)" "unat (a + 2 ^ k) + 2 ^ k * (2 ^ (k - 6) + 1) \<le> 2 ^ 64" "unat (a + 2 ^ k) = unat a + 2 ^ k"
proof -
  have p: "unat (2 ^ k :: u64) = 2 ^ k" using assms(2) by (simp add: unat_pow2)
  have k6: "(2 :: nat) ^ k = 2 ^ (k - 6) * 64" using pow_64 [of k] assms(1) by simp
  have kb: "(2 :: nat) ^ k \<le> 2 ^ 20" "(2 :: nat) ^ (k - 6) \<le> 2 ^ 14" using assms(2) by (intro power_increasing; simp)+
  have "unat (2 ^ k div of_nat sizeof_cmd + 2 :: u64) = 2 ^ (k - 6) + 2"
    using k6 kb by (simp add: unat_word_ariths unat_div p sizeof_cmd_def)
  moreover have "2 ^ k * (2 ^ (k - 6) + 2 :: nat) \<le> 2 ^ 20 * (2 ^ 14 + 2)" using kb by (intro mult_le_mono) simp_all
  ultimately have "unat (2 ^ k * (2 ^ k div of_nat sizeof_cmd + 2) :: u64) = 2 ^ k * (2 ^ (k - 6) + 2)"
    by (simp add: unat_word_ariths p)
  with assms(3) have s: "unat a + 2 ^ k * (2 ^ (k - 6) + 2) \<le> 2 ^ 64" by simp
  have "2 ^ k * (2 ^ (k - 6) + 2 :: nat) = 2 ^ k + 2 ^ k * (2 ^ (k - 6) + 1)" by (simp add: algebra_simps)
  with s have t: "unat a + 2 ^ k + 2 ^ k * (2 ^ (k - 6) + 1) \<le> 2 ^ 64" by simp
  have "0 < 2 ^ k * (2 ^ (k - 6) + 1 :: nat)" by simp
  with t have "unat a + 2 ^ k < 2 ^ 64" by linarith
  then show u: "unat (a + 2 ^ k) = unat a + 2 ^ k" by (simp add: unat_word_ariths p)
  show "unat (a + 2 ^ k) + 2 ^ k * (2 ^ (k - 6) + 1) \<le> 2 ^ 64" using t u by simp
  have "unat (a + 2 ^ k) \<noteq> 0" using u by simp
  then show "a + 2 ^ k \<noteq> NULL" by (metis unat_0)
qed

text \<open>
  C27: when \<open>prepare_and_read\<close> of read-blocks gets as far as a queue pair, it reads on that queue pair and then
  gives back its windows and blocks, and the memory it allocated and mapped for the submission queue is what the
  commands need: the queue is empty, its entries lie in the first page of the window, for every entry there is one
  more page in the window for a PRP list, and the page of the completion queue is the one just before.  This is
  for a page size from 4 KiB to 1 MiB that the host and the controller share, and for a controller whose maximum
  queue length is at least two and divides \<open>2 ^ 32\<close>.
\<close>

theorem queue_pair_fits_window:
  assumes "12 \<le> k" "k \<le> 20" "di_page_size disk = 2 ^ k" "c_page_size (k_handle (f_ctrl ref)) = 2 ^ k"
    and "2 \<le> c_max_entries (k_handle (f_ctrl ref))" "unat (c_max_entries (k_handle (f_ctrl ref))) dvd 2 ^ 32"
    and "prepare_queues ndebug (2 ^ k) dev remote cpl_ptr kaddrs queues ref disk args s w =
      Some (status, Some qp, (buffer, sq_mem, cq_mem, b, q), ref', s', w')"
  shows "prepare_and_read ndebug (2 ^ k) oth dev remote cpl_ptr kaddrs queues ref disk args s w =
      do { d \<leftarrow> map_option dc_handle buffer;
           (status, out, queues, s, w) \<leftarrow> read_and_dump ndebug oth dev disk qp d args s' w';
           s \<leftarrow> leave_read buffer sq_mem cq_mem b q s;
           Some (status, out, ref', s, w) }
    \<and> Some (qp_sq_mem qp) = map_option dc_handle sq_mem \<and> Some (qp_cq_mem qp) = map_option dc_handle cq_mem
    \<and> io_window (qp_sq_mem qp) (qp_sq qp) \<and> sq_live (qp_sq qp) \<and> sq_counts 0 (qp_sq qp) \<and> in_flight (qp_sq qp) = 0
    \<and> qp_num_cpls qp = 0 \<and> d_page_size (qp_sq_mem qp) = di_page_size disk
    \<and> unat (d_vaddr (qp_cq_mem qp)) + unat (di_page_size disk) = unat (d_vaddr (qp_sq_mem qp))"
proof -
  let ?ctrl = "f_ctrl ref" and ?len = "op_num_blocks args * di_block_size disk"
  from assms(3,7) obtain bb a s1 qb a' s2 x cs s3 y cc s4 z s5 where
    m: "posix_memalign (2 ^ k * (2 ^ k div of_nat sizeof_cmd + 2)) s1 = (0, (qb, a'), s2)"
      "nvm_dma_map_host ndebug (2 ^ k) ?ctrl (fst kaddrs) (NVM_PTR_OFFSET a' (2 ^ k) 1) (2 ^ k * (2 ^ k div of_nat sizeof_cmd + 1)) s2 = Some (0, Some cs, s3)"
      "nvm_dma_map_host ndebug (2 ^ k) ?ctrl (fst (snd kaddrs)) a' (2 ^ k) s3 = Some (0, Some cc, s4)"
      "create_queue_pair dev remote cpl_ptr ref queues (dc_handle cc) (dc_handle cs) s5 w = Some (0, qp, ref', s', w')"
      "sq_mem = Some cs" "cq_mem = Some cc"
    by (auto simp: prepare_queues_def Let_def nvm_ok_def split: prod.splits if_splits Option.bind_splits option.splits)
  have v: "NVM_PTR_OFFSET a' (2 ^ k) 1 = a' + 2 ^ k" by (simp add: NVM_PTR_OFFSET_def)
  note qb = queue_block [OF assms(1,2) conjunct2 [OF memalign_address [OF m(1)]]]
  have fits: "io_window (qp_sq_mem qp) (qp_sq qp) \<and> sq_live (qp_sq qp) \<and> sq_counts 0 (qp_sq qp) \<and> in_flight (qp_sq qp) = 0
    \<and> qp_num_cpls qp = 0 \<and> d_page_size (qp_sq_mem qp) = 2 ^ k"
    by (rule queue_pair_fits [OF assms(1,2,4) m(2) [unfolded v] qb(1,2) assms(5,6) refl m(4)])
  from create_queue_pair_queues [OF m(4)] have mem: "qp_sq_mem qp = dc_handle cs" "qp_cq_mem qp = dc_handle cc" by auto
  have va: "d_vaddr (dc_handle cs) = a' + 2 ^ k" "d_vaddr (dc_handle cc) = a'"
    using map_host_window [OF m(2)] map_host_window [OF m(3)] v by simp_all
  have "prepare_and_read ndebug (2 ^ k) oth dev remote cpl_ptr kaddrs queues ref disk args s w =
      do { d \<leftarrow> map_option dc_handle buffer;
           (status, out, queues, s, w) \<leftarrow> read_and_dump ndebug oth dev disk qp d args s' w';
           s \<leftarrow> leave_read buffer sq_mem cq_mem b q s;
           Some (status, out, ref', s, w) }"
    using assms(7) by (cases "map_option dc_handle buffer"; cases "read_and_dump ndebug oth dev disk qp (the (map_option dc_handle buffer)) args s' w'")
      (auto simp: prepare_and_read_def)
  moreover have "unat (2 ^ k :: u64) = 2 ^ k" using assms(2) by (simp add: unat_pow2)
  ultimately show ?thesis using fits mem va qb(3) assms(3) m(5,6) by simp
qed

text \<open>Sixty-five pages, and a controller that answers every command with a completion of zeros.\<close>

abbreviation (input) queue_kaddrs :: "u64 list" where
  "queue_kaddrs \<equiv> map (\<lambda>i. 0x80000 + 0x1000 * of_nat i) [0..<65]"

abbreviation (input) zero_stub :: "'b remote_stub" where
  "zero_stub \<equiv> \<lambda>b cmd cpl s. (0, cmd, zero_cpl, s)"

abbreviation (input) still :: device where
  "still \<equiv> \<lambda>k m. m"

definition quiet_os :: "os \<Rightarrow> bool" where
  "quiet_os s \<longleftrightarrow> os_env s = (\<lambda>_. 0) \<and> os_lock s = (\<lambda>_. 0) \<and> os_addr s = os_addr demo_os"

definition client_ref :: aq_ref where
  "client_ref = \<lparr>f_self = 1, f_ctrl = demo_controller, f_n_handles = 0, f_handles = [], f_data = Some (Binding demo_binding),
     f_release = None, f_stub = Some Remote_command\<rparr>"

definition block_disk :: disk_info where
  "block_disk = \<lparr>di_ns_id = 1, di_max_data_size = 0x1000, di_page_size = 0x1000, di_block_size = 0x200\<rparr>"

definition block_options :: options where
  "block_options = \<lparr>op_controller_id = 0, op_adapter = 0, op_segment_id = 0, op_controller_path = None, op_namespace_id = 1,
     op_num_blocks = 8, op_offset = 0, op_output = None, op_ascii = False\<rparr>"

lemma host_maps:
  assumes "quiet_os s" "n < 0x1000" "length ks = n" "0 < n" "sz = 0x1000 * of_nat n"
  shows "\<exists>c s'. nvm_dma_map_host False 4096 demo_controller ks v sz s = Some (0, Some c, s') \<and> quiet_os s' \<and> d_ioaddrs (dc_handle c) \<noteq> []"
proof -
  have n: "unat (of_nat n :: u64) = n" using assms(2) by (simp add: unat_of_nat)
  have nz: "(of_nat n :: u64) \<noteq> 0" using n assms(4) by (metis less_irrefl unat_0)
  have u: "unat sz = 0x1000 * n" using assms(2,5) n by (simp add: unat_word_ariths)
  have mz: "(0x1000 * of_nat n :: u64) mod 0x1000 = 0" using u assms(5) by (simp add: word_unat_eq_iff unat_mod)
  have "unat (NVM_PAGE_ALIGN sz 0x1000) = unat sz"
    using unat_NVM_PAGE_ALIGN [of 12 sz] u assms(2) by simp
  then have al: "NVM_PAGE_ALIGN sz 0x1000 = sz" by (simp add: word_unat_eq_iff)
  have dv: "sz div 0x1000 = of_nat n" by (rule word_unat_eq_iff [THEN iffD2]) (simp add: unat_div u n)
  have "region_ok demo_ctrl \<lparr>mp_vaddr = v, mp_page_size = 0x1000, mp_n_pages = of_nat n\<rparr> ks"
    using assms(2,3,4) n u assms(5) by (simp add: region_ok_def demo_ctrl_def word_unat_eq_iff unat_mod)
  from region_populated [OF this] obtain h where
    h: "nvm_dma_handle_populate \<lparr>mp_vaddr = v, mp_page_size = 0x1000, mp_n_pages = of_nat n\<rparr> demo_ctrl ks = Some h" by blast
  then have "\<exists>c s'. nvm_dma_map_host False 4096 demo_controller ks v sz s = Some (0, Some c, s') \<and> quiet_os s'"
    using assms(1) nz dv al mz by (simp add: nvm_dma_map_host_def nvm_dma_map_ioctl_def create_mapping_def nvm_dma_create_def populate_handle_def
        map_memory_def nvm_fd_from_ctrl_def demo_controller_def quiet_os_def malloc_def acquire_def sys_call_def grant_def
        nvm_host_page_size_def free_def release_def Let_def) (simp add: demo_ctrl_def)
  then obtain c s' where m: "nvm_dma_map_host False 4096 demo_controller ks v sz s = Some (0, Some c, s')" "quiet_os s'" by blast
  have "length (d_ioaddrs (dc_handle c)) = n"
    using map_host_window [OF m(1)] al dv n u assms(2) by (simp add: nvm_host_page_size_def demo_controller_def demo_ctrl_def unat_word_ariths unat_div)
  then show ?thesis using m assms(4) by auto
qed

lemma zero_rpc:
  assumes "quiet_os s"
  shows "\<exists>s'. nvm_raw_rpc still zero_stub client_ref cmd cpl ptr s w = Some (0, client_ref, cmd, zero_cpl, s', dev_step still w) \<and> quiet_os s'"
  using assms
  by (simp add: nvm_raw_rpc_def call_stub_def NVM_ERR_PACK_def client_ref_def mutex_lock_def Let_def mutex_unlock_def
      release_def quiet_os_def)

lemma zero_queue_pair:
  assumes "first_ioaddr cq_mem \<noteq> None" "first_ioaddr sq_mem \<noteq> None" "quiet_os s"
  shows "\<exists>qp' s' w'. create_queue_pair still zero_stub ptr client_ref qp cq_mem sq_mem s w = Some (0, qp', client_ref, s', w')"
proof -
  obtain cio sio where io: "first_ioaddr cq_mem = Some cio" "first_ioaddr sq_mem = Some sio" using assms by auto
  let ?c0 = "nvm_admin_current_num_queues_cmd zero_cmd True 1 1"
  obtain s1 where r1: "nvm_raw_rpc still zero_stub client_ref ?c0 zero_cpl ptr s w = Some (0, client_ref, ?c0, zero_cpl, s1, dev_step still w)"
    "quiet_os s1" using zero_rpc [OF assms(3)] by blast
  let ?w1 = "dev_step still w" let ?w1 = "?w1\<lparr>w_mem := memset (d_vaddr cq_mem) 0 (unat (d_page_size cq_mem)) (w_mem ?w1)\<rparr>"
  let ?cq = "nvm_queue_clear (k_handle (f_ctrl client_ref)) True 2 (d_vaddr cq_mem) cio"
  let ?c1 = "nvm_admin_cq_create_cmd zero_cmd ?cq"
  obtain s2 where r2: "nvm_raw_rpc still zero_stub client_ref ?c1 zero_cpl ptr s1 ?w1 = Some (0, client_ref, ?c1, zero_cpl, s2, dev_step still ?w1)"
    "quiet_os s2" using zero_rpc [OF r1(2)] by blast
  let ?w2 = "dev_step still ?w1" let ?w2 = "?w2\<lparr>w_mem := memset (d_vaddr sq_mem) 0 (unat (d_page_size cq_mem)) (w_mem ?w2)\<rparr>"
  let ?c2 = "nvm_admin_sq_create_cmd zero_cmd (nvm_queue_clear (k_handle (f_ctrl client_ref)) False 2 (d_vaddr sq_mem) sio) ?cq"
  obtain s3 where r3: "nvm_raw_rpc still zero_stub client_ref ?c2 zero_cpl ptr s2 ?w2 = Some (0, client_ref, ?c2, zero_cpl, s3, dev_step still ?w2)"
    using zero_rpc [OF r2(2)] by blast
  from r1(1) r2(1) r3 io show ?thesis
    by (simp add: create_queue_pair_def nvm_admin_set_num_queues_def nvm_admin_request_num_queues_def nvm_admin_cq_create_def
        nvm_admin_sq_create_def nvm_ok_def NVM_ERR_PACK_def)
qed

lemma demo_prepares:
  "\<exists>qp buffer sq_mem cq_mem b q s' w'. prepare_queues False 4096 still zero_stub 0x60000 (queue_kaddrs, [0xd0000], [0xe0000]) demo_qp client_ref
     block_disk block_options demo_os idle_world = Some (0, Some qp, (buffer, sq_mem, cq_mem, b, q), client_ref, s', w')"
proof -
  have al: "NVM_CTRL_ALIGN (k_handle demo_controller) 0x1000 = 0x1000"
    by (simp add: NVM_CTRL_ALIGN_def NVM_PAGE_ALIGN_def NVM_PAGE_MASK_def demo_controller_def demo_ctrl_def)
  have q0: "quiet_os demo_os" by (simp add: quiet_os_def demo_os_def)
  have "\<exists>b s'. posix_memalign sz s = (0, (b, os_addr s (os_calls s)), s') \<and> quiet_os s' \<and> os_calls s' = Suc (os_calls s)"
    if "quiet_os s" "unat sz \<le> 0x100000" "os_calls s < 2" for sz s
  proof -
    have "os_addr s (os_calls s) = 0x10000 \<or> os_addr s (os_calls s) = 0x20000"
      using that(1,3) by (auto simp: quiet_os_def demo_os_def less_2_cases_iff)
    then show ?thesis using that(1,2) by (auto simp: posix_memalign_def acquire_def sys_call_def grant_def quiet_os_def Let_def)
  qed
  note pm = this
  from pm [OF q0, of "0x1000"] obtain b s1 where a: "posix_memalign 0x1000 demo_os = (0, (b, os_addr demo_os (os_calls demo_os)), s1)"
    "quiet_os s1" "os_calls s1 = 1" by (auto simp: demo_os_def)
  from pm [OF a(2), of "0x42000"] a(3) obtain q s2 where c: "posix_memalign 0x42000 s1 = (0, (q, os_addr s1 (os_calls s1)), s2)" "quiet_os s2" by auto
  let ?p = "os_addr s1 (os_calls s1)"
  obtain cs s3 where d: "nvm_dma_map_host False 4096 demo_controller queue_kaddrs (NVM_PTR_OFFSET ?p 0x1000 1) 0x41000 s2 = Some (0, Some cs, s3)" "quiet_os s3"
    "d_ioaddrs (dc_handle cs) \<noteq> []" using host_maps [OF c(2), of 65 queue_kaddrs "0x41000" "NVM_PTR_OFFSET ?p 0x1000 1"] by auto
  obtain cc s4 where e: "nvm_dma_map_host False 4096 demo_controller [0xd0000] ?p 0x1000 s3 = Some (0, Some cc, s4)" "quiet_os s4"
    "d_ioaddrs (dc_handle cc) \<noteq> []" using host_maps [OF d(2), of 1 "[0xd0000]" "0x1000" ?p] by auto
  obtain cb s5 where f: "nvm_dma_map_host False 4096 demo_controller [0xe0000] (os_addr demo_os (os_calls demo_os)) 0x1000 s4 = Some (0, Some cb, s5)" "quiet_os s5"
    using host_maps [OF e(2), of 1 "[0xe0000]" "0x1000" "os_addr demo_os (os_calls demo_os)"] by auto
  have "first_ioaddr (dc_handle cc) \<noteq> None" "first_ioaddr (dc_handle cs) \<noteq> None" using d(3) e(3) by (auto simp: first_ioaddr_def split: list.splits)
  from zero_queue_pair [OF this f(2), of "0x60000" demo_qp idle_world] obtain qp s' w' where
    g: "create_queue_pair still zero_stub 0x60000 client_ref demo_qp (dc_handle cc) (dc_handle cs) s5 idle_world = Some (0, qp, client_ref, s', w')" by blast
  have r: "f_ctrl client_ref = demo_controller" by (simp add: client_ref_def)
  show ?thesis
    using a(1) c(1) d(1) e(1) f(1) g by (simp add: prepare_queues_def r al block_disk_def block_options_def sizeof_cmd_def nvm_ok_def)
qed

theorem queue_pair_fits_window_witness:
  "\<exists>qp buffer sq_mem cq_mem b q s' w'. prepare_queues False 4096 still zero_stub 0x60000 (queue_kaddrs, [0xd0000], [0xe0000]) demo_qp client_ref
     block_disk block_options demo_os idle_world = Some (0, Some qp, (buffer, sq_mem, cq_mem, b, q), client_ref, s', w')
     \<and> io_window (qp_sq_mem qp) (qp_sq qp)"
proof -
  from demo_prepares obtain qp buffer sq_mem cq_mem b q s' w' where
    m: "prepare_queues False 4096 still zero_stub 0x60000 (queue_kaddrs, [0xd0000], [0xe0000]) demo_qp client_ref
     block_disk block_options demo_os idle_world = Some (0, Some qp, (buffer, sq_mem, cq_mem, b, q), client_ref, s', w')" by blast
  have "io_window (qp_sq_mem qp) (qp_sq qp)"
    using queue_pair_fits_window [where k = 12 and disk = block_disk and ref = client_ref and ndebug = False and dev = still and remote = zero_stub
        and cpl_ptr = "0x60000" and kaddrs = "(queue_kaddrs, [0xd0000], [0xe0000])" and queues = demo_qp and args = block_options and s = demo_os
        and w = idle_world] m
    by (simp add: block_disk_def client_ref_def demo_controller_def demo_ctrl_def)
  then show ?thesis using m by blast
qed

end
